(* ===== verification/Prelude.thy ===== *)
theory Prelude
  imports Main "HOL-Library.Word" "HOL-Library.Char_ord" "HOL-Library.List_Lexorder"
    "HOL-Library.Code_Target_Nat"
begin

text \<open>
  The vocabulary the component theories share.  It holds the machine-integer types of the C++
  code, the C character classes, the text formatting and parsing of numbers that string streams
  and \<^verbatim>\<open>strtoul\<close> perform, \<^verbatim>\<open>std::map\<close> as a strictly sorted association
  list (iteration order and \<^verbatim>\<open>lower_bound\<close> are observable), the faults the code can
  raise, and the interfaces (locales) that several components implement: an ordered map and a
  codec with its round-trip law.
\<close>

section \<open>Collections and types\<close>

named_theorems om_simps \<open>laws of the ordered map\<close>
named_theorems chr_simps \<open>evaluation of character classes through character codes\<close>

type_synonym u8 = "8 word"
type_synonym u16 = "16 word"
type_synonym u32 = "32 word"
type_synonym u64 = "64 word"

text \<open>
  The ways a call can fail to return: a thrown \<^verbatim>\<open>std::runtime_error\<close>, another thrown
  exception of the standard library, a failed \<^verbatim>\<open>F_ASSERT\<close>/\<^verbatim>\<open>F_FAIL\<close>, and a step the C++ standard leaves
  undefined (a read past the end of a vector, an uninitialised variable).  A call can also block on a
  mutex its own thread holds, stop the process on purpose, or exit it.
\<close>
datatype fault = Runtime_error | Invalid_argument | Length_error | Out_of_range | Assert_failed
  | Undefined_behaviour | Deadlock | Halted | Process_exit

type_synonym 'a result = "fault + 'a"

definition rbind :: "'a result \<Rightarrow> ('a \<Rightarrow> 'b result) \<Rightarrow> 'b result" where
  "rbind r f = (case r of Inl e \<Rightarrow> Inl e | Inr x \<Rightarrow> f x)"

fun rmap_list :: "('a \<Rightarrow> 'b result) \<Rightarrow> 'a list \<Rightarrow> 'b list result" where
  "rmap_list f [] = Inr []"
| "rmap_list f (x # xs) = rbind (f x) (\<lambda>y. rbind (rmap_list f xs) (\<lambda>ys. Inr (y # ys)))"

section \<open>Characters\<close>

definition ord :: "char \<Rightarrow> nat" where
  "ord c = of_char c"

definition isdigit :: "char \<Rightarrow> bool" where
  "isdigit c = (48 \<le> ord c \<and> ord c \<le> 57)"

definition islower :: "char \<Rightarrow> bool" where
  "islower c = (97 \<le> ord c \<and> ord c \<le> 122)"

definition isupper :: "char \<Rightarrow> bool" where
  "isupper c = (65 \<le> ord c \<and> ord c \<le> 90)"

definition isalnum :: "char \<Rightarrow> bool" where
  "isalnum c = (isdigit c \<or> islower c \<or> isupper c)"

definition isxdigit :: "char \<Rightarrow> bool" where
  "isxdigit c = (isdigit c \<or> 97 \<le> ord c \<and> ord c \<le> 102 \<or> 65 \<le> ord c \<and> ord c \<le> 70)"

definition isspace :: "char \<Rightarrow> bool" where
  "isspace c = (ord c = 32 \<or> 9 \<le> ord c \<and> ord c \<le> 13)"

definition isprint :: "char \<Rightarrow> bool" where
  "isprint c = (32 \<le> ord c \<and> ord c \<le> 126)"

definition tolower :: "char \<Rightarrow> char" where
  "tolower c = (if isupper c then char_of (ord c + 32) else c)"

text \<open>A C string ends at its first NUL byte.\<close>

definition c_str :: "string \<Rightarrow> string" where
  "c_str s = takeWhile (\<lambda>c. ord c \<noteq> 0) s"

section \<open>Numbers as text\<close>

definition digit_chr :: "nat \<Rightarrow> char" where
  "digit_chr d = char_of (if d < 10 then 48 + d else 87 + d)"

definition upper_digit_chr :: "nat \<Rightarrow> char" where
  "upper_digit_chr d = char_of (if d < 10 then 48 + d else 55 + d)"

definition digit_val :: "char \<Rightarrow> nat" where
  "digit_val c = (if isdigit c then ord c - 48 else if islower c then ord c - 87
                  else if isupper c then ord c - 55 else 36)"

fun to_base :: "nat \<Rightarrow> nat \<Rightarrow> string" where
  "to_base b n = (if n < b \<or> b < 2 then [digit_chr n] else to_base b (n div b) @ [digit_chr (n mod b)])"

declare to_base.simps [simp del]

definition dec_of_nat :: "nat \<Rightarrow> string" where
  "dec_of_nat n = to_base 10 n"

definition hex_of_nat :: "nat \<Rightarrow> string" where
  "hex_of_nat n = to_base 16 n"

definition dec_of_int :: "int \<Rightarrow> string" where
  "dec_of_int i = (if i < 0 then CHR ''-'' # dec_of_nat (nat (- i)) else dec_of_nat (nat i))"

definition from_base :: "nat \<Rightarrow> string \<Rightarrow> nat" where
  "from_base b s = foldl (\<lambda>a c. a * b + digit_val c) 0 s"

text \<open>The digits in base \<^term>\<open>b\<close> at the front of a string, and what follows them.\<close>

definition lead_digits :: "nat \<Rightarrow> string \<Rightarrow> string" where
  "lead_digits b s = takeWhile (\<lambda>c. digit_val c < b) s"

definition skip_space :: "string \<Rightarrow> string" where
  "skip_space s = dropWhile isspace s"

text \<open>\<^verbatim>\<open>setw(w) << setfill('0')\<close>: pad on the left.\<close>

definition pad_left :: "nat \<Rightarrow> char \<Rightarrow> string \<Rightarrow> string" where
  "pad_left w c s = replicate (w - length s) c @ s"

section \<open>Substrings\<close>

text \<open>\<^verbatim>\<open>find(sep, start)\<close> relative to the text from \<^verbatim>\<open>start\<close>: the text before the
  first separator and the text after it, or nothing when there is no separator.\<close>

fun break_at :: "char \<Rightarrow> string \<Rightarrow> (string \<times> string) option" where
  "break_at sep [] = None"
| "break_at sep (c # cs) =
     (if c = sep then Some ([], cs)
      else map_option (\<lambda>(a, b). (c # a, b)) (break_at sep cs))"

section \<open>std::map\<close>

type_synonym ('k, 'v) omap = "('k \<times> 'v) list"

definition om_inv :: "('k::linorder, 'v) omap \<Rightarrow> bool" where
  "om_inv m = sorted_wrt (<) (map fst m)"

abbreviation om_get :: "('k, 'v) omap \<Rightarrow> 'k \<Rightarrow> 'v option" where
  "om_get \<equiv> map_of"

fun om_set :: "'k::linorder \<Rightarrow> 'v \<Rightarrow> ('k, 'v) omap \<Rightarrow> ('k, 'v) omap" where
  "om_set k v [] = [(k, v)]"
| "om_set k v ((k', v') # m) =
     (if k < k' then (k, v) # (k', v') # m
      else if k = k' then (k, v) # m
      else (k', v') # om_set k v m)"

definition om_del :: "'k \<Rightarrow> ('k, 'v) omap \<Rightarrow> ('k, 'v) omap" where
  "om_del k m = filter (\<lambda>(k', v'). k' \<noteq> k) m"

definition om_lower_bound :: "'k::linorder \<Rightarrow> ('k, 'v) omap \<Rightarrow> ('k, 'v) omap" where
  "om_lower_bound k m = dropWhile (\<lambda>(k', v'). k' < k) m"

definition om_keys :: "('k, 'v) omap \<Rightarrow> 'k list" where
  "om_keys m = map fst m"

section \<open>Laws of characters and numerals\<close>

lemma ord_less_256 [simp]: "ord c < 256"
  by (simp add: ord_def)

lemma ord_char_of [chr_simps]: "ord (char_of (n::nat)) = n mod 256"
  by (simp add: ord_def)

lemma ord_eq_iff: "ord c = ord d \<longleftrightarrow> c = d"
  by (simp add: ord_def)

lemma ord_0_iff: "ord c = 0 \<longleftrightarrow> c = CHR 0x00"
  using ord_eq_iff [of c "CHR 0x00"] by (simp add: ord_def)

lemma char_of_ord [simp]: "char_of (ord c) = c"
  by (simp add: ord_def)

lemma digit_val_digit_chr [simp]: "d < 16 \<Longrightarrow> digit_val (digit_chr d) = d"
  by (auto simp: digit_val_def digit_chr_def isdigit_def islower_def isupper_def ord_char_of)

lemma digit_chr_0: "digit_chr 0 = CHR ''0''"
  by (simp add: digit_chr_def ord_def flip: ord_eq_iff)

lemma isxdigit_digit_chr [simp]: "d < 16 \<Longrightarrow> isxdigit (digit_chr d)"
  by (auto simp: isxdigit_def digit_chr_def isdigit_def ord_char_of)

lemma isdigit_digit_chr [simp]: "d < 10 \<Longrightarrow> isdigit (digit_chr d)"
  by (auto simp: digit_chr_def isdigit_def ord_char_of)

lemma isdigit_isxdigit [simp]: "isdigit c \<Longrightarrow> isxdigit c"
  by (simp add: isxdigit_def)

lemma digit_chr_inj: "d < 16 \<Longrightarrow> e < 16 \<Longrightarrow> digit_chr d = digit_chr e \<longleftrightarrow> d = e"
  by (metis digit_val_digit_chr)

lemma isxdigit_digit_val: "isxdigit c \<Longrightarrow> digit_val c < 16"
  by (auto simp: isxdigit_def digit_val_def isdigit_def islower_def isupper_def)

lemma isdigit_digit_val: "isdigit c \<longleftrightarrow> digit_val c < 10"
  by (auto simp: digit_val_def isdigit_def islower_def isupper_def)

lemma digit_val_less_16: "digit_val c < 16 \<longleftrightarrow> isxdigit c"
  by (auto simp: isxdigit_def digit_val_def isdigit_def islower_def isupper_def)

lemma tolower_idem [simp]: "tolower (tolower c) = tolower c"
  by (auto simp: tolower_def isupper_def ord_char_of)

lemma tolower_fixed: "\<not> isupper c \<Longrightarrow> tolower c = c"
  by (simp add: tolower_def)

lemma not_isupper_tolower [simp]: "\<not> isupper (tolower c)"
  by (auto simp: tolower_def isupper_def ord_char_of)

lemma from_base_append:
  "from_base b (s @ [c]) = from_base b s * b + digit_val c"
  by (simp add: from_base_def)

lemma from_base_Nil [simp]: "from_base b [] = 0"
  by (simp add: from_base_def)

lemma to_base_nonempty [simp]: "to_base b n \<noteq> []"
  by (subst to_base.simps) simp

lemma to_base_unfold:
  "2 \<le> b \<Longrightarrow> to_base b n =
     (if n < b then [digit_chr n] else to_base b (n div b) @ [digit_chr (n mod b)])"
  by (subst to_base.simps) simp

lemma mod_less_16: "2 \<le> b \<Longrightarrow> b \<le> 16 \<Longrightarrow> (n::nat) mod b < 16"
  using mod_less_divisor [of b n] by linarith

lemma from_to_base: "2 \<le> b \<Longrightarrow> b \<le> 16 \<Longrightarrow> from_base b (to_base b n) = n"
proof (induction b n rule: to_base.induct)
  case (1 b n)
  then show ?case
    by (subst to_base_unfold) (auto simp: from_base_append mod_less_16 from_base_def [of b "[_]"])
qed

lemma to_base_digits: "2 \<le> b \<Longrightarrow> b \<le> 16 \<Longrightarrow> list_all (\<lambda>c. digit_val c < b) (to_base b n)"
proof (induction b n rule: to_base.induct)
  case (1 b n)
  then show ?case
    by (subst to_base_unfold) (auto simp: mod_less_16)
qed

lemma to_base_inj: "2 \<le> b \<Longrightarrow> b \<le> 16 \<Longrightarrow> to_base b n = to_base b m \<longleftrightarrow> n = m"
  by (metis from_to_base)

lemma hex_of_nat_inj [simp]: "hex_of_nat n = hex_of_nat m \<longleftrightarrow> n = m"
  by (simp add: hex_of_nat_def to_base_inj)

lemma dec_of_nat_inj [simp]: "dec_of_nat n = dec_of_nat m \<longleftrightarrow> n = m"
  by (simp add: dec_of_nat_def to_base_inj)

lemma from_hex_of_nat [simp]: "from_base 16 (hex_of_nat n) = n"
  by (simp add: hex_of_nat_def from_to_base)

lemma from_dec_of_nat [simp]: "from_base 10 (dec_of_nat n) = n"
  by (simp add: dec_of_nat_def from_to_base)

lemma hex_of_nat_xdigit: "c \<in> set (hex_of_nat n) \<Longrightarrow> isxdigit c"
  using to_base_digits [of 16 n] by (simp add: hex_of_nat_def digit_val_less_16 list_all_iff)

lemma dec_of_nat_digit: "c \<in> set (dec_of_nat n) \<Longrightarrow> isdigit c"
  using to_base_digits [of 10 n] by (simp add: dec_of_nat_def isdigit_digit_val list_all_iff)

lemma to_base_length: "2 \<le> b \<Longrightarrow> n < b ^ Suc k \<Longrightarrow> length (to_base b n) \<le> Suc k"
proof (induction k arbitrary: n)
  case 0
  then show ?case by (simp add: to_base_unfold)
next
  case (Suc k)
  have "n div b < b ^ Suc k" using Suc.prems by (simp add: less_mult_imp_div_less mult.commute)
  then show ?case using Suc.IH [of "n div b"] Suc.prems by (simp add: to_base_unfold [of b n])
qed

lemma to_base_length_ge: "2 \<le> b \<Longrightarrow> b ^ k \<le> n \<Longrightarrow> Suc k \<le> length (to_base b n)"
proof (induction k arbitrary: n)
  case 0
  then show ?case using to_base_nonempty [of b n] by (simp add: Suc_le_eq)
next
  case (Suc k)
  have "b ^ k \<le> n div b" using Suc.prems by (simp add: less_eq_div_iff_mult_less_eq mult.commute)
  moreover have "b \<le> n" using Suc.prems le_trans [of b "b ^ Suc k" n] by simp
  ultimately show ?case using Suc.IH [of "n div b"] Suc.prems by (simp add: to_base_unfold [of b n])
qed

lemma to_base_hd: "2 \<le> b \<Longrightarrow> b \<le> 16 \<Longrightarrow> 0 < n \<Longrightarrow> hd (to_base b n) \<noteq> CHR ''0''"
proof (induction b n rule: to_base.induct)
  case (1 b n)
  have "digit_chr n \<noteq> CHR ''0''" if "n < 16"
    using that 1 digit_chr_inj [of n 0] by (simp add: digit_chr_0)
  then show ?case using 1 by (subst to_base_unfold) (auto simp: div_greater_zero_iff)
qed

lemma dec_of_nat_hd: "0 < n \<Longrightarrow> take 1 (dec_of_nat n) \<noteq> ''0''"
  using to_base_hd [of 10 n] by (cases "to_base 10 n") (auto simp: dec_of_nat_def)

lemma dec_of_nat_nonempty [simp]: "dec_of_nat n \<noteq> []"
  by (simp add: dec_of_nat_def)

lemma hex_of_nat_nonempty [simp]: "hex_of_nat n \<noteq> []"
  by (simp add: hex_of_nat_def)

lemma dec_of_nat_0: "dec_of_nat 0 = ''0''"
  by (simp add: dec_of_nat_def to_base_unfold digit_chr_0)

lemma lead_digits_all: "(\<And>c. c \<in> set s \<Longrightarrow> digit_val c < b) \<Longrightarrow> lead_digits b s = s"
  by (simp add: lead_digits_def)

lemma break_at_None: "break_at sep s = None \<longleftrightarrow> sep \<notin> set s"
  by (induction s) auto

lemma break_at_Some: "break_at sep s = Some (a, b) \<Longrightarrow> s = a @ sep # b \<and> sep \<notin> set a"
  by (induction s arbitrary: a b) (auto split: if_splits)

lemma break_at_append [simp]: "sep \<notin> set a \<Longrightarrow> break_at sep (a @ sep # b) = Some (a, b)"
  by (induction a) auto

lemma break_at_length: "break_at sep s = Some (a, b) \<Longrightarrow> length b < length s"
  by (drule break_at_Some) auto

section \<open>The ordered-map interface\<close>

text \<open>
  What the code relies on from \<^verbatim>\<open>std::map\<close>: a lookup after an assignment or an erase, and
  that both keep the representation ordered.
\<close>
locale ordered_map =
  fixes lookup :: "'m \<Rightarrow> 'k \<Rightarrow> 'v option"
    and assign :: "'k \<Rightarrow> 'v \<Rightarrow> 'm \<Rightarrow> 'm"
    and erase :: "'k \<Rightarrow> 'm \<Rightarrow> 'm"
    and invar :: "'m \<Rightarrow> bool"
  assumes lookup_assign: "invar m \<Longrightarrow> lookup (assign k v m) = (lookup m)(k \<mapsto> v)"
    and lookup_erase: "invar m \<Longrightarrow> lookup (erase k m) = (lookup m)(k := None)"
    and invar_assign: "invar m \<Longrightarrow> invar (assign k v m)"
    and invar_erase: "invar m \<Longrightarrow> invar (erase k m)"
begin

lemma invar_fold_assign:
  "invar m \<Longrightarrow> invar (fold (\<lambda>x. assign (f x) (g x)) xs m)"
  by (induction xs arbitrary: m) (auto intro: invar_assign)

lemma lookup_fold_assign:
  "invar m \<Longrightarrow> lookup (fold (\<lambda>x. assign (f x) (g x)) xs m) k =
     (case map_of (rev (map (\<lambda>x. (f x, g x)) xs)) k of None \<Rightarrow> lookup m k | Some v \<Rightarrow> Some v)"
  by (induction xs arbitrary: m) (auto simp: lookup_assign invar_assign map_add_def split: option.splits)

lemma invar_fold_erase: "invar m \<Longrightarrow> invar (fold erase ks m)"
  by (induction ks arbitrary: m) (auto intro: invar_erase)

lemma lookup_fold_erase:
  "invar m \<Longrightarrow> lookup (fold erase ks m) k = (if k \<in> set ks then None else lookup m k)"
  by (induction ks arbitrary: m) (auto simp: lookup_erase invar_erase)

lemma lookup_erase_assign: "invar m \<Longrightarrow> lookup (erase k (assign k v m)) = (lookup m)(k := None)"
  by (simp add: lookup_erase lookup_assign invar_assign)

end

lemma set_om_set: "set (map fst (om_set k v m)) = insert k (set (map fst m))"
  by (induction k v m rule: om_set.induct) auto

lemma om_inv_Nil [simp]: "om_inv []"
  by (simp add: om_inv_def)

lemma om_inv_Cons [simp]: "om_inv (kv # m) \<longleftrightarrow> (\<forall>k \<in> fst ` set m. fst kv < k) \<and> om_inv m"
  by (simp add: om_inv_def)

lemma om_inv_om_set [intro]: "om_inv m \<Longrightarrow> om_inv (om_set k v m)"
proof (induction k v m rule: om_set.induct)
  case (2 k v k' v' m)
  then show ?case using set_om_set [of k v m] by (auto dest: less_trans)
qed simp

lemma om_get_om_set: "om_inv m \<Longrightarrow> om_get (om_set k v m) = (om_get m)(k \<mapsto> v)"
  by (induction k v m rule: om_set.induct) (auto simp: fun_eq_iff)

lemma om_set_same: "om_inv m \<Longrightarrow> om_get m k = Some v \<Longrightarrow> om_set k v m = m"
  by (induction k v m rule: om_set.induct) (fastforce dest: map_of_SomeD split: if_splits)+

lemma om_get_om_del: "om_get (om_del k m) = (om_get m)(k := None)"
  by (induction m) (auto simp: om_del_def fun_eq_iff)

lemma om_inv_filter [intro]: "om_inv m \<Longrightarrow> om_inv (filter P m)"
  by (induction m) auto

lemma om_inv_om_del [intro]: "om_inv m \<Longrightarrow> om_inv (om_del k m)"
  by (auto simp: om_del_def)

interpretation om: ordered_map om_get om_set om_del om_inv
  by unfold_locales (auto simp: om_get_om_set om_get_om_del)

lemma om_inv_distinct: "om_inv m \<Longrightarrow> distinct (map fst m)"
  by (induction m) auto

lemma om_in_set_iff: "om_inv m \<Longrightarrow> (k, v) \<in> set m \<longleftrightarrow> om_get m k = Some v"
  by (metis map_of_eq_Some_iff om_inv_distinct)

lemma om_lower_bound_filter:
  "om_inv m \<Longrightarrow> om_lower_bound k m = filter (\<lambda>(k', v). k \<le> k') m"
proof (induction m)
  case (Cons kv m)
  show ?case
  proof (cases "fst kv < k")
    case True
    then show ?thesis using Cons by (auto simp: om_lower_bound_def split_beta)
  next
    case False
    then have "\<forall>x \<in> set m. k \<le> fst x" using Cons.prems by fastforce
    then show ?thesis using False
      by (auto simp: om_lower_bound_def split_beta intro!: filter_True [symmetric])
  qed
qed (simp add: om_lower_bound_def)

lemma om_inv_map_val [intro]: "om_inv m \<Longrightarrow> om_inv (map (\<lambda>(k, v). (k, f k v)) m)"
  by (induction m) auto

lemma om_get_map_val: "om_get (map (\<lambda>(k, v). (k, f k v)) m) k = map_option (f k) (om_get m k)"
  by (induction m) auto

lemma om_get_filter_key: "om_get (filter (\<lambda>(k, v). P k) m) k = (if P k then om_get m k else None)"
  by (induction m) auto

lemma om_get_filter:
  "om_inv m \<Longrightarrow> om_get (filter (\<lambda>(k, v). P k v) m) k =
     (case om_get m k of None \<Rightarrow> None | Some v \<Rightarrow> if P k v then Some v else None)"
proof (induction m)
  case (Cons kv m)
  have "fst kv \<notin> fst ` set m" using Cons.prems by fastforce
  then have "om_get m (fst kv) = None" by (simp add: map_of_eq_None_iff)
  then show ?case using Cons by (auto split: option.splits)
qed simp

section \<open>The codec interface\<close>

text \<open>
  An encoder and a decoder with the round-trip law on the values in its domain.  Injectivity of
  the encoder, of the encoder mapped over a list, and that decoding a list of encodings gives the
  list back, follow once for every codec of the program.
\<close>
locale codec =
  fixes enc :: "'a \<Rightarrow> 'b" and dec :: "'b \<Rightarrow> 'a option" and ok :: "'a \<Rightarrow> bool"
  assumes dec_enc: "ok x \<Longrightarrow> dec (enc x) = Some x"
begin

lemma enc_inj: "ok x \<Longrightarrow> ok y \<Longrightarrow> enc x = enc y \<longleftrightarrow> x = y"
  by (metis dec_enc option.inject)

lemma enc_list_inj: "list_all ok xs \<Longrightarrow> list_all ok ys \<Longrightarrow> map enc xs = map enc ys \<longleftrightarrow> xs = ys"
  by (induction xs ys rule: list_induct2') (auto simp: enc_inj)

lemma dec_enc_list: "list_all ok xs \<Longrightarrow> those (map (dec \<circ> enc) xs) = Some xs"
  by (induction xs) (auto simp: dec_enc)

end

section \<open>Faults\<close>

lemma rbind_simps [simp]:
  "rbind (Inl e) f = Inl e" "rbind (Inr x) f = f x"
  by (simp_all add: rbind_def)

lemma rbind_Inr: "rbind r f = Inr y \<longleftrightarrow> (\<exists>x. r = Inr x \<and> f x = Inr y)"
  by (cases r) auto

lemma rmap_list_total:
  "(\<And>x. x \<in> set xs \<Longrightarrow> f x = Inr (g x)) \<Longrightarrow> rmap_list f xs = Inr (map g xs)"
  by (induction xs) auto

lemma om_determined:
  assumes "om_inv m"
  shows "m = map (\<lambda>k. (k, the (om_get m k))) (sorted_list_of_set (dom (om_get m)))"
proof -
  have d: "distinct (map fst m)" and s: "sorted_wrt (<) (map fst m)" using assms om_inv_distinct by (auto simp: om_inv_def)
  have "sorted_list_of_set (dom (om_get m)) = map fst m"
    using s d by (simp add: dom_map_of_conv_image_fst strict_sorted_imp_sorted sorted_list_of_set.idem_if_sorted_distinct flip: set_map)
  moreover have "m ! i = (fst (m ! i), the (om_get m (fst (m ! i))))" if "i < length m" for i
    using map_of_is_SomeI [OF d, of "fst (m ! i)" "snd (m ! i)"] nth_mem [OF that] by simp
  ultimately show ?thesis by (auto intro!: nth_equalityI)
qed

lemma om_ext: "om_inv m \<Longrightarrow> om_inv m' \<Longrightarrow> om_get m = om_get m' \<Longrightarrow> m = m'"
  using om_determined [of m] om_determined [of m'] by simp

lemma word_inc_less: "(x :: u32) + 1 \<noteq> 0 \<Longrightarrow> x < x + 1"
proof -
  assume a: "x + 1 \<noteq> 0"
  have "unat x < 4294967296" using unsigned_less [of x] by simp
  moreover have u: "unat (x + 1) = (unat x + 1) mod 4294967296" by (simp add: unat_word_ariths)
  moreover have "unat (x + 1) \<noteq> 0" using a by (simp only: unat_eq_zero not_False_eq_True)
  ultimately have "unat (x + 1) = unat x + 1" by (cases "unat x + 1 = 4294967296") simp_all
  then show ?thesis by (simp add: word_less_nat_alt)
qed

end
