(* ===== verification/Bootstrap_Order.thy ===== *)
theory Bootstrap_Order
  imports Prelude "HOL-Library.Multiset"
begin

text \<open>
  The component bootstrap of \<^verbatim>\<open>faodel-common/BootstrapImplementation.cpp\<close>: registration of components with
  their required and optional predecessors, the dependency sort, and the Init / Start / Finish life cycle
  with its count of users and its mutex.

  The functions a component registers are code of that component: here they are an identifier
  (\<^verbatim>\<open>bs_functions\<close>), and an argument says which of the calls throw.  The calls made so far are recorded in
  the state, in order.  The mutex is a flag: locking it while it is held is \<^verbatim>\<open>Deadlock\<close>, because the
  model has one thread and nobody else can release it.  The count of users is an integer without bound, where the
  code has an \<^verbatim>\<open>int\<close>.  What a function throws is a \<^verbatim>\<open>runtime_error\<close>; other exceptions are not modelled.
\<close>

section \<open>Components and the state\<close>

record bstrap_t =
  bs_name :: string
  bs_requires :: "string list"
  bs_optional :: "string list"
  bs_functions :: nat
  bs_component_ptr :: "nat option"

datatype bs_call = Call_init string nat | Call_start string nat | Call_fini string nat

datatype bs_state = UNINITIALIZED | INITIALIZED | STARTED

text \<open>The settings \<^verbatim>\<open>Init\<close> reads from the configuration, and whether appending the configuration's
  references throws.\<close>
record bs_config =
  cfg_references_throw :: bool
  cfg_exit_on_errors :: bool
  cfg_halt_on_shutdown :: bool

record Bootstrap =
  state :: bs_state
  num_init_callers :: int
  bstraps :: "bstrap_t list"
  halt_on_shutdown :: bool
  state_locked :: bool
  calls :: "bs_call list"

definition Bootstrap_ctor :: Bootstrap where
  "Bootstrap_ctor = \<lparr>state = UNINITIALIZED, num_init_callers = 0, bstraps = [],
    halt_on_shutdown = False, state_locked = False, calls = []\<rparr>"

definition HasComponent :: "Bootstrap \<Rightarrow> string \<Rightarrow> bool" where
  "HasComponent b component_name = (\<exists>bs\<in>set (bstraps b). bs_name bs = component_name)"

definition GetState :: "Bootstrap \<Rightarrow> string" where
  "GetState b = (case state b of UNINITIALIZED \<Rightarrow> ''uninitialized'' | INITIALIZED \<Rightarrow> ''initialized''
    | STARTED \<Rightarrow> ''started'')"

definition IsStarted :: "Bootstrap \<Rightarrow> bool" where
  "IsStarted b = (state b = STARTED)"

definition GetComponentPointer :: "Bootstrap \<Rightarrow> string \<Rightarrow> nat option" where
  "GetComponentPointer b name = (case find (\<lambda>bs. bs_name bs = name) (bstraps b) of
     Some bs \<Rightarrow> bs_component_ptr bs | None \<Rightarrow> None)"

section \<open>Registration\<close>

text \<open>The loop over the registered components: the first one of that name is replaced.\<close>
fun overwrite_first :: "bstrap_t \<Rightarrow> bstrap_t list \<Rightarrow> bstrap_t list" where
  "overwrite_first bs [] = []"
| "overwrite_first bs (t # ts) = (if bs_name t = bs_name bs then bs # ts else t # overwrite_first bs ts)"

text \<open>
  The two overloads differ in how the component gives its functions and in one line: the overwrite path of
  the one that takes functions returns with the mutex held.  An operation returns what it returns or throws
  and the state it leaves.
\<close>
definition register_with :: "bool \<Rightarrow> bstrap_t \<Rightarrow> bool \<Rightarrow> Bootstrap \<Rightarrow> unit result \<times> Bootstrap" where
  "register_with unlocks bs allow_overwrites b =
     (if state_locked b then (Inl Deadlock, b)
      else if state b \<noteq> UNINITIALIZED then
        (if HasComponent b (bs_name bs) then Inr () else Inl Runtime_error, b)
      else if HasComponent b (bs_name bs) then
        (if \<not> allow_overwrites then (Inl Runtime_error, b)
         else (Inr (), b\<lparr>bstraps := overwrite_first bs (bstraps b), state_locked := \<not> unlocks\<rparr>))
      else (Inr (), b\<lparr>bstraps := bstraps b @ [bs]\<rparr>))"

definition RegisterComponent_fns ::
  "string \<Rightarrow> string list \<Rightarrow> string list \<Rightarrow> nat \<Rightarrow> bool \<Rightarrow> Bootstrap \<Rightarrow> unit result \<times> Bootstrap" where
  "RegisterComponent_fns name requires optional fns allow_overwrites =
     register_with False \<lparr>bs_name = name, bs_requires = requires, bs_optional = optional,
       bs_functions = fns, bs_component_ptr = None\<rparr> allow_overwrites"

definition RegisterComponent ::
  "string \<Rightarrow> string list \<Rightarrow> string list \<Rightarrow> nat \<Rightarrow> bool \<Rightarrow> Bootstrap \<Rightarrow> unit result \<times> Bootstrap" where
  "RegisterComponent name requires optional component allow_overwrites =
     register_with True \<lparr>bs_name = name, bs_requires = requires, bs_optional = optional,
       bs_functions = component, bs_component_ptr = Some component\<rparr> allow_overwrites"

section \<open>The dependency sort\<close>

type_synonym dep_lut = "(string \<times> string set) list"

definition dep_of :: "dep_lut \<Rightarrow> string \<Rightarrow> string set" where
  "dep_of lut n = (case om_get lut n of Some s \<Rightarrow> s | None \<Rightarrow> {})"

definition direct_deps :: "bstrap_t list \<Rightarrow> bstrap_t \<Rightarrow> string set" where
  "direct_deps bss bs = set (bs_requires bs) \<union> {p \<in> set (bs_optional bs). p \<in> bs_name ` set bss}"

fun expand_loop :: "bstrap_t list \<Rightarrow> bstrap_t list \<Rightarrow> dep_lut \<Rightarrow> dep_lut option" where
  "expand_loop all [] lut = Some lut"
| "expand_loop all (bs # bss) lut =
     (if \<not> set (bs_requires bs) \<subseteq> bs_name ` set all then None
      else expand_loop all bss (om_set (bs_name bs) (direct_deps all bs) lut))"

definition expandDependencies :: "bstrap_t list \<Rightarrow> dep_lut option" where
  "expandDependencies bss = expand_loop bss bss []"

text \<open>One iteration of the for loop over the table, and the whole loop: entries are visited in key order
  and written back at once, so later entries see the updated sets.\<close>
definition update_item :: "string \<Rightarrow> dep_lut \<times> bool \<Rightarrow> dep_lut \<times> bool" where
  "update_item n = (\<lambda>(lut, keep_going). let s = dep_of lut n;
     updated = s \<union> (\<Union>parent\<in>s. dep_of lut parent)
   in (om_set n updated lut, keep_going \<or> updated \<noteq> s))"

definition ancestors_pass :: "dep_lut \<Rightarrow> dep_lut \<times> bool" where
  "ancestors_pass lut = fold update_item (map fst lut) (lut, False)"

partial_function (option) ancestors_loop :: "dep_lut \<Rightarrow> dep_lut option" where
  "ancestors_loop lut = (case ancestors_pass lut of (lut', keep_going) \<Rightarrow>
     if keep_going then ancestors_loop lut' else Some lut')"

declare ancestors_loop.simps [code]

fun place :: "dep_lut \<Rightarrow> bstrap_t \<Rightarrow> bstrap_t list \<Rightarrow> bstrap_t list" where
  "place lut bs [] = [bs]"
| "place lut bs (s # sbs) = (if bs_name bs \<in> dep_of lut (bs_name s) then bs # s # sbs
     else s # place lut bs sbs)"

text \<open>\<^verbatim>\<open>None\<close> is a loop that does not end; \<^verbatim>\<open>Some None\<close> a missing dependency; \<^verbatim>\<open>Some (Some sbs)\<close> the
  sorted list.\<close>
definition sortDependencies :: "bstrap_t list \<Rightarrow> bstrap_t list option option" where
  "sortDependencies bss = (case expandDependencies bss of None \<Rightarrow> Some None
     | Some lut \<Rightarrow> (case ancestors_loop lut of None \<Rightarrow> None
         | Some closed \<Rightarrow> Some (Some (fold (place closed) bss []))))"

definition CheckDependencies :: "Bootstrap \<Rightarrow> (bool \<times> Bootstrap) option" where
  "CheckDependencies b = (case sortDependencies (bstraps b) of None \<Rightarrow> None
     | Some None \<Rightarrow> Some (False, b)
     | Some (Some sbs) \<Rightarrow> Some (True, b\<lparr>bstraps := sbs\<rparr>))"

definition GetStartupOrder :: "Bootstrap \<Rightarrow> (string list result \<times> Bootstrap) option" where
  "GetStartupOrder b = (case sortDependencies (bstraps b) of None \<Rightarrow> None
     | Some None \<Rightarrow> Some (Inl Runtime_error, b)
     | Some (Some sbs) \<Rightarrow> Some (Inr (map bs_name sbs), b\<lparr>bstraps := sbs\<rparr>))"

section \<open>The life cycle\<close>

text \<open>Calling the functions of the components one after the other; a call that throws is the last one.\<close>
fun run_calls :: "(bs_call \<Rightarrow> bool) \<Rightarrow> bs_call list \<Rightarrow> bs_call list \<times> bool" where
  "run_calls throws [] = ([], True)"
| "run_calls throws (c # cs) = (if throws c then ([c], False)
     else let (done_calls, ok) = run_calls throws cs in (c # done_calls, ok))"

definition init_calls :: "bstrap_t list \<Rightarrow> bs_call list" where
  "init_calls bss = map (\<lambda>bs. Call_init (bs_name bs) (bs_functions bs)) bss"

definition start_calls :: "bstrap_t list \<Rightarrow> bs_call list" where
  "start_calls bss = map (\<lambda>bs. Call_start (bs_name bs) (bs_functions bs)) bss"

definition fini_calls :: "bstrap_t list \<Rightarrow> bs_call list" where
  "fini_calls bss = map (\<lambda>bs. Call_fini (bs_name bs) (bs_functions bs)) bss"

text \<open>\<^verbatim>\<open>Init\<close>, once the dependency sort has been computed.  An exception of the reference loading leaves
  the mutex held; one of a component's init function is caught and rethrown, or exits the process.\<close>
definition Init_sorted ::
  "(bs_call \<Rightarrow> bool) \<Rightarrow> bs_config \<Rightarrow> bstrap_t list option \<Rightarrow> Bootstrap \<Rightarrow> bool result \<times> Bootstrap" where
  "Init_sorted throws config order b =
     (case order of None \<Rightarrow> (Inl Runtime_error, b)
      | Some sbs \<Rightarrow> (case run_calls throws (init_calls sbs) of (cs, ok) \<Rightarrow>
          (let b' = b\<lparr>bstraps := sbs, calls := calls b @ cs\<rparr> in
           if \<not> ok then (Inl (if cfg_exit_on_errors config then Process_exit else Runtime_error), b')
           else (Inr True, b'\<lparr>state := INITIALIZED\<rparr>))))"

definition bs_Init ::
  "(bs_call \<Rightarrow> bool) \<Rightarrow> bs_config \<Rightarrow> Bootstrap \<Rightarrow> (bool result \<times> Bootstrap) option" where
  "bs_Init throws config b =
     (if state_locked b then Some (Inl Deadlock, b)
      else let b1 = b\<lparr>num_init_callers := num_init_callers b + 1\<rparr> in
        if num_init_callers b \<noteq> 0 then Some (Inr False, b1)
        else if cfg_references_throw config then Some (Inl Runtime_error, b1\<lparr>state_locked := True\<rparr>)
        else map_option (\<lambda>order. Init_sorted throws config order
               (b1\<lparr>halt_on_shutdown := cfg_halt_on_shutdown config\<rparr>)) (sortDependencies (bstraps b)))"

text \<open>An exception of a start function is not caught: the mutex stays held.\<close>
definition bs_Start :: "(bs_call \<Rightarrow> bool) \<Rightarrow> Bootstrap \<Rightarrow> unit result \<times> Bootstrap" where
  "bs_Start throws b =
     (if state_locked b then (Inl Deadlock, b)
      else case state b of STARTED \<Rightarrow> (Inr (), b)
      | UNINITIALIZED \<Rightarrow> (Inl Runtime_error, b)
      | INITIALIZED \<Rightarrow> (case run_calls throws (start_calls (bstraps b)) of (cs, ok) \<Rightarrow>
          (let b' = b\<lparr>calls := calls b @ cs\<rparr> in
           if ok then (Inr (), b'\<lparr>state := STARTED\<rparr>)
           else (Inl Runtime_error, b'\<lparr>state_locked := True\<rparr>))))"

definition bs_Start_config ::
  "(bs_call \<Rightarrow> bool) \<Rightarrow> bs_config \<Rightarrow> Bootstrap \<Rightarrow> (unit result \<times> Bootstrap) option" where
  "bs_Start_config throws config b = (case bs_Init throws config b of None \<Rightarrow> None
     | Some (Inl e, b') \<Rightarrow> Some (Inl e, b')
     | Some (Inr we_initialized, b') \<Rightarrow>
         Some (if we_initialized then bs_Start throws b' else (Inr (), b')))"

definition GetNumberOfUsers :: "Bootstrap \<Rightarrow> int result" where
  "GetNumberOfUsers b = (if state_locked b then Inl Deadlock else Inr (num_init_callers b))"

text \<open>\<^verbatim>\<open>finish_\<close> runs with the mutex held; the flag of the state it returns is what its caller
  \<^verbatim>\<open>Finish\<close> leaves.  The list is reversed in place.\<close>
definition finish_locked :: "(bs_call \<Rightarrow> bool) \<Rightarrow> bool \<Rightarrow> Bootstrap \<Rightarrow> unit result \<times> Bootstrap" where
  "finish_locked throws clear_list b =
     (if state b = UNINITIALIZED then (Inl Runtime_error, b)
      else let b1 = b\<lparr>num_init_callers := num_init_callers b - 1\<rparr> in
        if num_init_callers b1 > 0 then (Inr (), b1)
        else if halt_on_shutdown b then (Inl Halted, b1\<lparr>state_locked := True\<rparr>)
        else let b2 = (if state b = STARTED then b1\<lparr>bstraps := rev (bstraps b)\<rparr> else b1);
                 (cs, ok) = (if state b = STARTED then run_calls throws (fini_calls (bstraps b2)) else ([], True));
                 b3 = b2\<lparr>calls := calls b @ cs\<rparr>
             in if \<not> ok then (Inl Runtime_error, b3\<lparr>state_locked := True\<rparr>)
                else (Inr (), b3\<lparr>state := UNINITIALIZED,
                       bstraps := (if clear_list then [] else bstraps b3)\<rparr>))"

definition bs_Finish :: "(bs_call \<Rightarrow> bool) \<Rightarrow> bool \<Rightarrow> Bootstrap \<Rightarrow> unit result \<times> Bootstrap" where
  "bs_Finish throws clear_list b =
     (if state_locked b then (Inl Deadlock, b) else finish_locked throws clear_list b)"

section \<open>The ancestor table\<close>

text \<open>The direct dependencies as a relation, and what an entry of the table may hold: a superset of the
  direct dependencies and a subset of the transitive ones.\<close>
definition needs :: "bstrap_t list \<Rightarrow> (string \<times> string) set" where
  "needs bss = {(bs_name bs, d) | bs d. bs \<in> set bss \<and> d \<in> direct_deps bss bs}"

definition lut_ok :: "string set \<Rightarrow> (string \<times> string) set \<Rightarrow> dep_lut \<Rightarrow> bool" where
  "lut_ok N E lut \<longleftrightarrow> om_inv lut \<and> set (map fst lut) = N \<and>
     (\<forall>n. E `` {n} \<subseteq> dep_of lut n \<and> dep_of lut n \<subseteq> E\<^sup>+ `` {n})"

definition missing_count :: "string set \<Rightarrow> dep_lut \<Rightarrow> nat" where
  "missing_count N lut = (\<Sum>n\<in>N. card (N - dep_of lut n))"

lemma dep_of_om_set: "om_inv lut \<Longrightarrow> dep_of (om_set n s lut) = (dep_of lut)(n := s)"
  by (auto simp: dep_of_def om_get_om_set fun_eq_iff)

lemma lut_ok_update:
  assumes "lut_ok N E lut" and "n \<in> N"
  shows "lut_ok N E (om_set n (dep_of lut n \<union> (\<Union>p\<in>dep_of lut n. dep_of lut p)) lut)"
proof -
  have inv: "om_inv lut" and keys: "set (map fst lut) = N"
    and lo: "\<And>m. E `` {m} \<subseteq> dep_of lut m" and hi: "\<And>m. dep_of lut m \<subseteq> E\<^sup>+ `` {m}"
    using assms by (auto simp: lut_ok_def)
  have "(\<Union>p\<in>dep_of lut n. dep_of lut p) \<subseteq> E\<^sup>+ `` {n}"
  proof
    fix d assume "d \<in> (\<Union>p\<in>dep_of lut n. dep_of lut p)"
    then obtain p where "(n, p) \<in> E\<^sup>+" and "(p, d) \<in> E\<^sup>+" using hi by blast
    then show "d \<in> E\<^sup>+ `` {n}" by (auto intro: trancl_trans)
  qed
  then show ?thesis
    using inv keys lo hi assms(2) set_om_set [of n _ lut]
    by (auto simp: lut_ok_def dep_of_om_set om_inv_om_set)
qed

text \<open>What one step, and then a run of steps, does to the table: it grows, it reports a change exactly when
  it makes one, and a run that reports none has found every set closed under the dependencies of its
  members.\<close>
lemma update_item_step:
  assumes ok: "lut_ok N E lut" and n: "n \<in> N" and step: "update_item n (lut, k) = (l1, k1)"
  shows "lut_ok N E l1" and "dep_of lut m \<subseteq> dep_of l1 m" and "k \<Longrightarrow> k1"
    and "\<not> k1 \<Longrightarrow> dep_of l1 = dep_of lut \<and> (\<forall>p\<in>dep_of lut n. dep_of lut p \<subseteq> dep_of lut n)"
    and "k1 \<Longrightarrow> \<not> k \<Longrightarrow> dep_of lut n \<subset> dep_of l1 n"
proof -
  define u where "u = dep_of lut n \<union> (\<Union>p\<in>dep_of lut n. dep_of lut p)"
  have l1: "l1 = om_set n u lut" and k1: "k1 = (k \<or> u \<noteq> dep_of lut n)"
    using step by (auto simp: update_item_def Let_def u_def)
  have d1: "dep_of l1 = (dep_of lut)(n := u)"
    unfolding l1 by (rule dep_of_om_set) (use ok in \<open>simp add: lut_ok_def\<close>)
  show "lut_ok N E l1" unfolding l1 u_def by (rule lut_ok_update [OF ok n])
  show "dep_of lut m \<subseteq> dep_of l1 m" by (auto simp: d1 u_def)
  show "k \<Longrightarrow> k1" by (simp add: k1)
  show "\<not> k1 \<Longrightarrow> dep_of l1 = dep_of lut \<and> (\<forall>p\<in>dep_of lut n. dep_of lut p \<subseteq> dep_of lut n)"
    by (auto simp: d1 k1 u_def)
  show "k1 \<Longrightarrow> \<not> k \<Longrightarrow> dep_of lut n \<subset> dep_of l1 n" by (auto simp: d1 k1 u_def)
qed

lemma fold_update_item:
  assumes "lut_ok N E lut" and "set ns \<subseteq> N" and "fold update_item ns (lut, k) = (lut', k')"
  shows "lut_ok N E lut' \<and> (\<forall>n. dep_of lut n \<subseteq> dep_of lut' n) \<and> (k \<longrightarrow> k')
    \<and> (\<not> k' \<longrightarrow> dep_of lut' = dep_of lut \<and>
         (\<forall>n\<in>set ns. \<forall>p\<in>dep_of lut n. dep_of lut p \<subseteq> dep_of lut n))
    \<and> (k' \<and> \<not> k \<longrightarrow> (\<exists>n\<in>N. dep_of lut n \<subset> dep_of lut' n))"
  using assms
proof (induction ns arbitrary: lut k)
  case Nil
  then show ?case by simp
next
  case (Cons n ns)
  obtain l1 k1 where step: "update_item n (lut, k) = (l1, k1)" by fastforce
  have n: "n \<in> N" and ns: "set ns \<subseteq> N" using Cons.prems(2) by simp_all
  note st = update_item_step [OF Cons.prems(1) n step]
  have rest: "fold update_item ns (l1, k1) = (lut', k')" using Cons.prems(3) by (simp add: step)
  note ih = Cons.IH [OF st(1) ns rest]
  have mono: "dep_of lut m \<subseteq> dep_of lut' m" for m using st(2) [of m] ih by blast
  have quiet: "dep_of lut' = dep_of lut \<and>
      (\<forall>m\<in>set (n # ns). \<forall>p\<in>dep_of lut m. dep_of lut p \<subseteq> dep_of lut m)" if "\<not> k'"
  proof -
    have "\<not> k1" using ih that by blast
    note same = st(4) [OF this]
    have "dep_of lut' = dep_of l1" and
      "\<forall>m\<in>set ns. \<forall>p\<in>dep_of l1 m. dep_of l1 p \<subseteq> dep_of l1 m" using ih that by blast+
    then show ?thesis using same by simp
  qed
  have strict: "\<exists>m\<in>N. dep_of lut m \<subset> dep_of lut' m" if "k'" "\<not> k"
  proof (cases k1)
    case True
    have "dep_of lut n \<subset> dep_of l1 n" by (rule st(5) [OF True \<open>\<not> k\<close>])
    moreover have "dep_of l1 n \<subseteq> dep_of lut' n" using ih by blast
    ultimately show ?thesis using n by blast
  next
    case False
    then obtain m where "m \<in> N" "dep_of l1 m \<subset> dep_of lut' m" using ih \<open>k'\<close> by blast
    then show ?thesis using st(4) [OF False] by auto
  qed
  show ?case using ih mono quiet strict st(3) by blast
qed

lemma missing_count_less:
  assumes "finite N" and "\<And>n. dep_of lut n \<subseteq> dep_of lut' n" and "m \<in> N"
    and "dep_of lut m \<subset> dep_of lut' m" and "dep_of lut' m \<subseteq> N"
  shows "missing_count N lut' < missing_count N lut"
  unfolding missing_count_def
proof (rule sum_strict_mono_ex1 [OF \<open>finite N\<close>])
  show "\<forall>n\<in>N. card (N - dep_of lut' n) \<le> card (N - dep_of lut n)"
    using assms(1,2) by (auto intro!: card_mono)
  have "N - dep_of lut' m \<subset> N - dep_of lut m" using assms(4,5) by blast
  then show "\<exists>n\<in>N. card (N - dep_of lut' n) < card (N - dep_of lut n)"
    using assms(1,3) by (auto intro!: psubset_card_mono)
qed

lemma closed_holds_trancl:
  assumes "E \<subseteq> N \<times> N" and "lut_ok N E lut"
    and closed: "\<forall>n\<in>N. \<forall>p\<in>dep_of lut n. dep_of lut p \<subseteq> dep_of lut n"
  shows "E\<^sup>+ `` {n} \<subseteq> dep_of lut n"
proof
  fix d assume "d \<in> E\<^sup>+ `` {n}"
  then have "(n, d) \<in> E\<^sup>+" by simp
  then show "d \<in> dep_of lut n"
  proof (induction rule: trancl_induct)
    case (base y)
    then show ?case using assms(2) by (auto simp: lut_ok_def)
  next
    case (step y z)
    then have "n \<in> N" using trancl_subset_Sigma [OF assms(1)] by blast
    moreover have "z \<in> dep_of lut y" using step.hyps assms(2) by (auto simp: lut_ok_def)
    ultimately show ?case using closed step.IH by blast
  qed
qed

text \<open>The loop ends, and then an entry holds exactly the transitive dependencies.\<close>
lemma ancestors_loop_trancl:
  assumes "finite N" and "E \<subseteq> N \<times> N" and "lut_ok N E lut"
  shows "\<exists>c. ancestors_loop lut = Some c \<and> om_inv c \<and> (\<forall>n. dep_of c n = E\<^sup>+ `` {n})"
  using assms(3)
proof (induction "missing_count N lut" arbitrary: lut rule: less_induct)
  case less
  obtain lut' k where pass: "ancestors_pass lut = (lut', k)" by fastforce
  have keys: "set (map fst lut) = N" using less.prems by (simp add: lut_ok_def)
  note fu = fold_update_item [OF less.prems equalityD1 [OF keys] pass [unfolded ancestors_pass_def]]
  have ok': "lut_ok N E lut'" using fu by blast
  have hi: "dep_of lut' n \<subseteq> E\<^sup>+ `` {n}" for n using ok' unfolding lut_ok_def by blast
  have sub: "dep_of lut' n \<subseteq> N" for n using hi [of n] trancl_subset_Sigma [OF assms(2)] by blast
  show ?case
  proof (cases k)
    case True
    then obtain m where "m \<in> N" "dep_of lut m \<subset> dep_of lut' m" using fu by blast
    then have "missing_count N lut' < missing_count N lut"
      using fu sub by (intro missing_count_less [OF assms(1)]) blast+
    from less.hyps [OF this ok'] show ?thesis
      using True by (subst ancestors_loop.simps) (simp add: pass)
  next
    case False
    have "\<forall>n\<in>N. \<forall>p\<in>dep_of lut' n. dep_of lut' p \<subseteq> dep_of lut' n"
      using fu False unfolding keys by simp
    then have "E\<^sup>+ `` {n} \<subseteq> dep_of lut' n" for n by (rule closed_holds_trancl [OF assms(2) ok'])
    then have "dep_of lut' n = E\<^sup>+ `` {n}" for n using hi [of n] by blast
    moreover have "om_inv lut'" using ok' by (simp add: lut_ok_def)
    ultimately show ?thesis using False by (subst ancestors_loop.simps) (simp add: pass)
  qed
qed

section \<open>Expansion and sorting\<close>

definition requires_known :: "bstrap_t list \<Rightarrow> bool" where
  "requires_known bss = list_all (\<lambda>bs. set (bs_requires bs) \<subseteq> bs_name ` set bss) bss"

text \<open>No component stands before one it needs, directly or not.\<close>
definition in_order :: "(string \<times> string) set \<Rightarrow> bstrap_t list \<Rightarrow> bool" where
  "in_order E sbs = sorted_wrt (\<lambda>a b. (bs_name a, bs_name b) \<notin> E\<^sup>+) sbs"

lemma expand_loop_None:
  "expand_loop all bss lut = None \<longleftrightarrow> \<not> list_all (\<lambda>bs. set (bs_requires bs) \<subseteq> bs_name ` set all) bss"
  by (induction bss arbitrary: lut) auto

lemma expand_loop_keys:
  "expand_loop all bss lut = Some l \<Longrightarrow> om_inv lut \<Longrightarrow>
     om_inv l \<and> set (map fst l) = set (map fst lut) \<union> bs_name ` set bss"
proof (induction bss arbitrary: lut)
  case (Cons bs bss)
  have rest: "expand_loop all bss (om_set (bs_name bs) (direct_deps all bs) lut) = Some l"
    using Cons.prems(1) by (simp split: if_splits)
  show ?case
    using Cons.IH [OF rest om_inv_om_set [OF Cons.prems(2)]] set_om_set [of "bs_name bs" "direct_deps all bs" lut]
    by simp
qed simp

lemma expand_loop_dep_of:
  "expand_loop all bss lut = Some l \<Longrightarrow> om_inv lut \<Longrightarrow> distinct (map bs_name bss) \<Longrightarrow>
     dep_of l n = (case find (\<lambda>bs. bs_name bs = n) bss of Some bs \<Rightarrow> direct_deps all bs | None \<Rightarrow> dep_of lut n)"
proof (induction bss arbitrary: lut)
  case (Cons bs bss)
  have rest: "expand_loop all bss (om_set (bs_name bs) (direct_deps all bs) lut) = Some l"
    using Cons.prems(1) by (simp split: if_splits)
  have "find (\<lambda>b. bs_name b = bs_name bs) bss = None"
    using Cons.prems(3) by (auto simp: find_None_iff image_iff)
  then show ?case
    using Cons.IH [OF rest om_inv_om_set [OF Cons.prems(2)]] Cons.prems(2,3)
    by (auto simp: dep_of_om_set split: option.splits)
qed simp

lemma expand_loop_bounds:
  "expand_loop all bss lut = Some l \<Longrightarrow> om_inv lut \<Longrightarrow> (\<And>n. dep_of lut n \<subseteq> bs_name ` set all) \<Longrightarrow>
     dep_of l n \<subseteq> bs_name ` set all"
proof (induction bss arbitrary: lut)
  case (Cons bs bss)
  have req: "set (bs_requires bs) \<subseteq> bs_name ` set all"
    and rest: "expand_loop all bss (om_set (bs_name bs) (direct_deps all bs) lut) = Some l"
    using Cons.prems(1) by (auto split: if_splits)
  have "direct_deps all bs \<subseteq> bs_name ` set all" using req by (auto simp: direct_deps_def)
  then show ?case
    using Cons.prems(3)
    by (intro Cons.IH [OF rest om_inv_om_set [OF Cons.prems(2)]]) (auto simp: dep_of_om_set [OF Cons.prems(2)])
qed simp

lemma expandDependencies_needs:
  assumes "expandDependencies bss = Some lut" and "distinct (map bs_name bss)"
  shows "dep_of lut n = needs bss `` {n}"
proof -
  have "dep_of lut n = (case find (\<lambda>bs. bs_name bs = n) bss of Some bs \<Rightarrow> direct_deps bss bs | None \<Rightarrow> {})"
    using expand_loop_dep_of [OF assms(1) [unfolded expandDependencies_def] om_inv_Nil assms(2)]
    by (simp add: dep_of_def split: option.splits)
  also have "\<dots> = needs bss `` {n}"
  proof (cases "find (\<lambda>bs. bs_name bs = n) bss")
    case None
    then have "\<forall>bs. bs \<in> set bss \<longrightarrow> bs_name bs \<noteq> n" by (simp add: find_None_iff)
    then show ?thesis using None by (auto simp: needs_def)
  next
    case (Some bs)
    then have "bs \<in> set bss" and "bs_name bs = n" by (auto simp: find_Some_iff)
    moreover have "inj_on bs_name (set bss)" using assms(2) by (simp add: distinct_map)
    ultimately show ?thesis using Some by (auto simp: needs_def dest: inj_onD)
  qed
  finally show ?thesis .
qed

text \<open>The sort returns for every list of components, cyclic ones included.\<close>
lemma ancestors_loop_expanded:
  assumes "expandDependencies bss = Some lut"
  obtains c where "ancestors_loop lut = Some c" and "om_inv c"
    and "\<forall>n. dep_of c n = {(m, d). d \<in> dep_of lut m}\<^sup>+ `` {n}"
proof -
  let ?N = "bs_name ` set bss" and ?E = "{(m, d). d \<in> dep_of lut m}"
  have ex: "expand_loop bss bss [] = Some lut" using assms by (simp add: expandDependencies_def)
  have keys: "om_inv lut" "set (map fst lut) = ?N" using expand_loop_keys [OF ex om_inv_Nil] by simp_all
  have range: "dep_of lut n \<subseteq> ?N" for n
    by (rule expand_loop_bounds [OF ex om_inv_Nil]) (simp add: dep_of_def)
  have domain: "dep_of lut m = {}" if "m \<notin> ?N" for m
  proof -
    have "om_get lut m = None" using that keys(2) by (simp add: map_of_eq_None_iff)
    then show ?thesis by (simp add: dep_of_def)
  qed
  have "?E \<subseteq> ?N \<times> ?N" using range domain by fastforce
  moreover have "lut_ok ?N ?E lut" using keys by (auto simp: lut_ok_def)
  ultimately show ?thesis using ancestors_loop_trancl [of ?N ?E lut] that by auto
qed

lemma mset_place [simp]: "mset (place lut bs sbs) = add_mset bs (mset sbs)"
  by (induction sbs) auto

lemma set_place [simp]: "set (place lut bs sbs) = insert bs (set sbs)"
  by (induction sbs) auto

lemma mset_fold_place: "mset (fold (place lut) bss acc) = mset bss + mset acc"
  by (induction bss arbitrary: acc) auto

lemma place_in_order:
  assumes closed: "\<And>n. dep_of c n = E\<^sup>+ `` {n}" and "acyclic E" and "in_order E sbs"
  shows "in_order E (place c bs sbs)"
  using assms(3)
proof (induction sbs)
  case Nil
  then show ?case by (simp add: in_order_def)
next
  case (Cons s sbs)
  have irrefl: "(x, x) \<notin> E\<^sup>+" for x using assms(2) by (simp add: acyclic_def)
  show ?case
  proof (cases "bs_name bs \<in> dep_of c (bs_name s)")
    case True
    then have s_bs: "(bs_name s, bs_name bs) \<in> E\<^sup>+" by (simp add: closed)
    have "(bs_name bs, bs_name x) \<notin> E\<^sup>+" if "x \<in> set (s # sbs)" for x
      using that Cons.prems s_bs irrefl trancl_trans [OF s_bs]
      by (auto simp: in_order_def)
    then show ?thesis using True Cons.prems by (simp add: in_order_def)
  next
    case False
    then show ?thesis using Cons by (auto simp: in_order_def closed)
  qed
qed

lemma fold_place_in_order:
  assumes "\<And>n. dep_of c n = E\<^sup>+ `` {n}" and "acyclic E" and "in_order E acc"
  shows "in_order E (fold (place c) bss acc)"
  using assms(3) by (induction bss arbitrary: acc) (auto intro: place_in_order [OF assms(1,2)])

lemma place_at_end:
  "(\<And>s. s \<in> set sbs \<Longrightarrow> bs_name bs \<notin> dep_of c (bs_name s)) \<Longrightarrow> place c bs sbs = sbs @ [bs]"
  by (induction sbs) auto

lemma fold_place_id:
  assumes closed: "\<And>n. dep_of c n = E\<^sup>+ `` {n}" and "in_order E (acc @ bss)"
  shows "fold (place c) bss acc = acc @ bss"
  using assms(2)
proof (induction bss arbitrary: acc)
  case (Cons bs bss)
  have "place c bs acc = acc @ [bs]"
    using Cons.prems by (intro place_at_end) (auto simp: closed in_order_def sorted_wrt_append)
  then show ?case using Cons.IH [of "acc @ [bs]"] Cons.prems by simp
qed simp

lemma sortDependencies_cases:
  "if requires_known bss then \<exists>sbs. sortDependencies bss = Some (Some sbs) \<and> mset sbs = mset bss
   else sortDependencies bss = Some None"
proof (cases "expandDependencies bss")
  case None
  then show ?thesis
    using expand_loop_None [of bss bss "[]"]
    by (simp add: sortDependencies_def requires_known_def expandDependencies_def)
next
  case (Some lut)
  then have "requires_known bss"
    using expand_loop_None [of bss bss "[]"] by (auto simp: requires_known_def expandDependencies_def)
  moreover obtain c where "ancestors_loop lut = Some c" using ancestors_loop_expanded [OF Some] .
  ultimately show ?thesis using Some by (simp add: sortDependencies_def mset_fold_place)
qed

lemma sortDependencies_closed:
  assumes "distinct (map bs_name bss)" and "requires_known bss"
  obtains c where "\<forall>n. dep_of c n = (needs bss)\<^sup>+ `` {n}"
    and "sortDependencies bss = Some (Some (fold (place c) bss []))"
proof -
  obtain lut where lut: "expandDependencies bss = Some lut"
    using assms(2) expand_loop_None [of bss bss "[]"]
    by (cases "expandDependencies bss") (auto simp: requires_known_def expandDependencies_def)
  have E: "{(m, d). d \<in> dep_of lut m} = needs bss"
    using expandDependencies_needs [OF lut assms(1)] by auto
  obtain c where "ancestors_loop lut = Some c" and "\<forall>n. dep_of c n = (needs bss)\<^sup>+ `` {n}"
    by (rule ancestors_loop_expanded [OF lut, unfolded E])
  then show ?thesis using lut by (intro that [of c]) (simp_all add: sortDependencies_def)
qed

lemma needs_mset: "mset sbs = mset bss \<Longrightarrow> needs sbs = needs bss"
  by (drule mset_eq_setD) (simp add: needs_def direct_deps_def)

lemma sortDependencies_sorted:
  assumes "distinct (map bs_name bss)" and "requires_known bss" and "acyclic (needs bss)"
  obtains sbs where "sortDependencies bss = Some (Some sbs)" and "mset sbs = mset bss"
    and "in_order (needs bss) sbs" and "sortDependencies sbs = Some (Some sbs)"
proof -
  obtain c where c: "\<forall>n. dep_of c n = (needs bss)\<^sup>+ `` {n}"
    and sort: "sortDependencies bss = Some (Some (fold (place c) bss []))"
    by (rule sortDependencies_closed [OF assms(1,2)])
  define sbs where "sbs = fold (place c) bss []"
  have ms: "mset sbs = mset bss" by (simp add: sbs_def mset_fold_place)
  have ord: "in_order (needs bss) sbs"
    unfolding sbs_def by (rule fold_place_in_order [OF c [rule_format] assms(3)]) (simp add: in_order_def)
  have "distinct (map bs_name sbs)"
    using assms(1) mset_eq_imp_distinct_iff [of "map bs_name sbs" "map bs_name bss"] ms by simp
  moreover have "requires_known sbs"
    using assms(2) mset_eq_setD [OF ms] by (simp add: requires_known_def list_all_iff)
  ultimately obtain c' where c': "\<forall>n. dep_of c' n = (needs sbs)\<^sup>+ `` {n}"
    and sort': "sortDependencies sbs = Some (Some (fold (place c') sbs []))"
    by (rule sortDependencies_closed)
  have "fold (place c') sbs [] = sbs"
    using fold_place_id [OF c' [rule_format], of "[]" sbs] ord needs_mset [OF ms] by simp
  then show ?thesis using that [OF _ ms ord] sort sort' by (simp add: sbs_def)
qed

section \<open>The properties of the bootstrap\<close>

definition demo_components :: "bstrap_t list" where
  "demo_components =
    [\<lparr>bs_name = ''kelpie'', bs_requires = [''opbox'', ''lunasa''], bs_optional = [''mpi''], bs_functions = 1, bs_component_ptr = None\<rparr>,
     \<lparr>bs_name = ''lunasa'', bs_requires = [''whookie''], bs_optional = [], bs_functions = 2, bs_component_ptr = None\<rparr>,
     \<lparr>bs_name = ''opbox'', bs_requires = [''lunasa''], bs_optional = [''whookie''], bs_functions = 3, bs_component_ptr = None\<rparr>,
     \<lparr>bs_name = ''whookie'', bs_requires = [], bs_optional = [], bs_functions = 4, bs_component_ptr = None\<rparr>]"

definition demo_bootstrap :: Bootstrap where
  "demo_bootstrap = Bootstrap_ctor\<lparr>bstraps := demo_components\<rparr>"

definition demo_config :: bs_config where
  "demo_config = \<lparr>cfg_references_throw = False, cfg_exit_on_errors = True, cfg_halt_on_shutdown = False\<rparr>"

definition demo_rank :: "string \<Rightarrow> nat" where
  "demo_rank n = (if n = ''kelpie'' then 3 else if n = ''opbox'' then 2 else if n = ''lunasa'' then 1 else 0)"

lemma acyclic_rank:
  fixes f :: "string \<Rightarrow> nat"
  assumes "list_all (\<lambda>bs. \<forall>d\<in>direct_deps bss bs. f d < f (bs_name bs)) bss"
  shows "acyclic (needs bss)"
  using assms by (intro acyclicI_order [where f = f]) (auto simp: needs_def list_all_iff)

lemma demo_components_ok:
  "distinct (map bs_name demo_components)" "requires_known demo_components" "acyclic (needs demo_components)"
proof -
  show "distinct (map bs_name demo_components)" by code_simp
  show "requires_known demo_components" by code_simp
  show "acyclic (needs demo_components)"
    by (rule acyclic_rank [where f = demo_rank]) code_simp
qed

lemma run_calls_quiet [simp]: "run_calls (\<lambda>_. False) cs = (cs, True)"
  by (induction cs) auto

text \<open>
  C22. For components with different names whose requirements are all registered and whose dependencies
  have no cycle, the dependency sort returns; its result is a permutation of the registered components in
  which no component stands before one it requires or optionally uses, directly or through others; and
  sorting again, as every \<^verbatim>\<open>GetStartupOrder\<close> does, changes nothing.
\<close>
theorem sortDependencies_order:
  assumes "distinct (map bs_name bss)" and "requires_known bss" and "acyclic (needs bss)"
  shows "case sortDependencies bss of
      Some (Some sbs) \<Rightarrow> mset sbs = mset bss \<and> in_order (needs bss) sbs \<and> sortDependencies sbs = Some (Some sbs)
    | _ \<Rightarrow> False"
  by (rule sortDependencies_sorted [OF assms]) simp

theorem sortDependencies_order_witness:
  "distinct (map bs_name demo_components) \<and> requires_known demo_components \<and>
   (case sortDependencies demo_components of
      Some (Some sbs) \<Rightarrow> map bs_name sbs = [''whookie'', ''lunasa'', ''opbox'', ''kelpie''] \<and>
        mset sbs = mset demo_components \<and> in_order (needs demo_components) sbs
    | _ \<Rightarrow> False)"
proof -
  have "map_option (map_option (map bs_name)) (sortDependencies demo_components) =
      Some (Some [''whookie'', ''lunasa'', ''opbox'', ''kelpie''])" by code_simp
  then show ?thesis
    using sortDependencies_order [OF demo_components_ok] demo_components_ok
    by (auto split: option.splits)
qed

text \<open>
  C23. A session of the bootstrap: starting it calls the init functions of all components and then their
  start functions, both in a dependency order; a second user who starts and finishes it while it runs
  causes no call and leaves the state as it was; and the finish of the last user calls the fini functions in
  the reverse of the order the components were started in, and leaves the bootstrap ready for a new start.
\<close>
theorem bootstrap_session:
  assumes "distinct (map bs_name (bstraps b))" and "requires_known (bstraps b)" and "acyclic (needs (bstraps b))"
    and "state b = UNINITIALIZED" and "num_init_callers b = 0" and "\<not> state_locked b"
    and "\<not> cfg_references_throw config" and "\<not> cfg_halt_on_shutdown config"
  shows "case bs_Start_config (\<lambda>_. False) config b of
      Some (Inr _, b1) \<Rightarrow> IsStarted b1 \<and>
        (\<exists>sbs. mset sbs = mset (bstraps b) \<and> in_order (needs (bstraps b)) sbs \<and>
           calls b1 = calls b @ init_calls sbs @ start_calls sbs \<and>
           (case bs_Start_config throws config' b1 of
              Some (Inr _, b2) \<Rightarrow> calls b2 = calls b1 \<and> bs_Finish throws clear b2 = (Inr (), b1)
            | _ \<Rightarrow> False) \<and>
           (case bs_Finish (\<lambda>_. False) clear b1 of
              (Inr _, b3) \<Rightarrow> calls b3 = calls b1 @ fini_calls (rev sbs) \<and> state b3 = UNINITIALIZED \<and>
                num_init_callers b3 = 0 \<and> \<not> state_locked b3 \<and>
                bstraps b3 = (if clear then [] else rev sbs)
            | _ \<Rightarrow> False))
    | _ \<Rightarrow> False"
proof -
  obtain sbs where sort: "sortDependencies (bstraps b) = Some (Some sbs)"
    and order: "mset sbs = mset (bstraps b)" "in_order (needs (bstraps b)) sbs"
    by (rule sortDependencies_sorted [OF assms(1-3)])
  define b1 where "b1 = b\<lparr>state := STARTED, num_init_callers := 1, bstraps := sbs, halt_on_shutdown := False,
    calls := calls b @ init_calls sbs @ start_calls sbs\<rparr>"
  have started: "bs_Start_config (\<lambda>_. False) config b = Some (Inr (), b1)"
    using assms(4-8)
    by (simp add: bs_Start_config_def bs_Init_def Init_sorted_def bs_Start_def sort Let_def b1_def)
  have nested: "bs_Start_config throws config' b1 = Some (Inr (), b1\<lparr>num_init_callers := 2\<rparr>)"
    using assms(6) by (simp add: bs_Start_config_def bs_Init_def b1_def)
  have unnested: "bs_Finish throws clear (b1\<lparr>num_init_callers := 2\<rparr>) = (Inr (), b1)"
    using assms(6) by (simp add: bs_Finish_def finish_locked_def b1_def)
  have finish: "bs_Finish (\<lambda>_. False) clear b1 = (Inr (), b1\<lparr>num_init_callers := 0, state := UNINITIALIZED,
      bstraps := (if clear then [] else rev sbs), calls := calls b1 @ fini_calls (rev sbs)\<rparr>)"
    using assms(6) by (simp add: bs_Finish_def finish_locked_def b1_def)
  have fields: "state b1 = STARTED" "calls b1 = calls b @ init_calls sbs @ start_calls sbs" "\<not> state_locked b1"
    using assms(6) by (simp_all add: b1_def)
  show ?thesis
    unfolding started option.case prod.case sum.case nested finish
    by (intro conjI exI [of _ sbs]) (use order fields unnested in \<open>simp_all add: IsStarted_def\<close>)
qed

lemma started_weaken:
  "(case x of Some (Inr u, b) \<Rightarrow> P b \<and> Q b | _ \<Rightarrow> False) \<Longrightarrow> (case x of Some (Inr u, b) \<Rightarrow> P b | _ \<Rightarrow> False)"
  by (auto split: option.splits sum.splits)

theorem bootstrap_session_witness:
  "\<not> state_locked demo_bootstrap \<and> (case bs_Start_config (\<lambda>_. False) demo_config demo_bootstrap of
      Some (Inr _, b1) \<Rightarrow> IsStarted b1 | _ \<Rightarrow> False)"
proof
  have demo: "bstraps demo_bootstrap = demo_components" "state demo_bootstrap = UNINITIALIZED"
    "num_init_callers demo_bootstrap = 0"
    by (simp_all add: demo_bootstrap_def Bootstrap_ctor_def)
  show unlocked: "\<not> state_locked demo_bootstrap" by (simp add: demo_bootstrap_def Bootstrap_ctor_def)
  have config: "\<not> cfg_references_throw demo_config" "\<not> cfg_halt_on_shutdown demo_config"
    by (simp_all add: demo_config_def)
  show "case bs_Start_config (\<lambda>_. False) demo_config demo_bootstrap of Some (Inr _, b1) \<Rightarrow> IsStarted b1 | _ \<Rightarrow> False"
    by (rule started_weaken)
      (rule bootstrap_session [where throws = "\<lambda>_. True" and clear = True and config' = demo_config,
         OF demo_components_ok [folded demo(1)] demo(2,3) unlocked config])
qed

text \<open>
  Replacing a registered component through the overload that takes functions returns normally but
  leaves the mutex locked: every later operation that takes it blocks forever.  The overload that takes a
  component object releases it.
\<close>
theorem register_overwrite_keeps_lock:
  assumes "state b = UNINITIALIZED" and "\<not> state_locked b" and "HasComponent b name"
  shows "(case RegisterComponent_fns name requires optional fns True b of (r, b') \<Rightarrow> r = Inr () \<and>
      bs_Init throws config b' = Some (Inl Deadlock, b') \<and> bs_Start throws b' = (Inl Deadlock, b') \<and>
      bs_Finish throws clear b' = (Inl Deadlock, b') \<and> GetNumberOfUsers b' = Inl Deadlock \<and>
      RegisterComponent name' requires optional fns True b' = (Inl Deadlock, b')) \<and>
    (case RegisterComponent name requires optional fns True b of (r, b') \<Rightarrow>
      r = Inr () \<and> GetNumberOfUsers b' = Inr (num_init_callers b))"
  using assms
  by (simp add: RegisterComponent_fns_def RegisterComponent_def register_with_def bs_Init_def bs_Start_def
      bs_Finish_def GetNumberOfUsers_def)

theorem register_overwrite_keeps_lock_witness:
  "HasComponent demo_bootstrap ''opbox'' \<and>
   (case RegisterComponent_fns ''opbox'' [] [] 7 True demo_bootstrap of (r, b') \<Rightarrow> r = Inr () \<and>
      bs_Start (\<lambda>_. False) b' = (Inl Deadlock, b'))"
proof -
  have "state demo_bootstrap = UNINITIALIZED" "\<not> state_locked demo_bootstrap" "HasComponent demo_bootstrap ''opbox''"
    by (simp_all add: demo_bootstrap_def Bootstrap_ctor_def HasComponent_def demo_components_def)
  from this(3) register_overwrite_keeps_lock [OF this, where requires = "[]" and optional = "[]" and fns = 7
      and throws = "\<lambda>_. False"]
  show ?thesis by (auto split: prod.splits)
qed

text \<open>
  An \<^verbatim>\<open>Init\<close> that fails because a required component is missing throws, but keeps its count of one
  user.  From then on, even after the missing component has been registered, \<^verbatim>\<open>Start(config)\<close> returns
  normally without initialising or starting anything, \<^verbatim>\<open>Start()\<close> and \<^verbatim>\<open>Finish\<close> throw, and the count
  only grows.
\<close>
theorem failed_init_blocks_restart:
  assumes "state b = UNINITIALIZED" and "\<not> state_locked b" and "num_init_callers b = 0"
    and "\<not> requires_known (bstraps b)" and "\<not> cfg_references_throw config" and "\<not> HasComponent b name"
  shows "case bs_Init throws config b of
      Some (Inl e, b1) \<Rightarrow> e = Runtime_error \<and> calls b1 = calls b \<and>
        (case RegisterComponent name requires optional component allow b1 of (r, b2) \<Rightarrow>
          r = Inr () \<and> HasComponent b2 name \<and>
          (case bs_Start_config throws' config' b2 of
             Some (Inr _, b3) \<Rightarrow> state b3 = UNINITIALIZED \<and> calls b3 = calls b \<and> num_init_callers b3 = 2 \<and>
               bs_Start throws' b3 = (Inl Runtime_error, b3) \<and> bs_Finish throws' clear b3 = (Inl Runtime_error, b3)
           | _ \<Rightarrow> False))
    | _ \<Rightarrow> False"
proof -
  have sort: "sortDependencies (bstraps b) = Some None"
    using sortDependencies_cases [of "bstraps b"] assms(4) by simp
  define b1 where "b1 = b\<lparr>num_init_callers := 1, halt_on_shutdown := cfg_halt_on_shutdown config\<rparr>"
  have init: "bs_Init throws config b = Some (Inl Runtime_error, b1)"
    using assms by (simp add: bs_Init_def Init_sorted_def sort b1_def)
  have "state b1 = UNINITIALIZED" "\<not> state_locked b1" "num_init_callers b1 = 1" "calls b1 = calls b"
    "\<not> HasComponent b1 name"
    using assms by (simp_all add: b1_def HasComponent_def)
  then show ?thesis
    unfolding init option.case prod.case sum.case
    by (simp add: RegisterComponent_def register_with_def bs_Start_config_def bs_Init_def bs_Start_def
        bs_Finish_def finish_locked_def HasComponent_def)
qed

lemma failed_weaken:
  "(case x of Some (Inl e, b) \<Rightarrow> P e b \<and> Q b | _ \<Rightarrow> False) \<Longrightarrow> (case x of Some (Inl e, b) \<Rightarrow> P e b | _ \<Rightarrow> False)"
  by (auto split: option.splits sum.splits)

theorem failed_init_blocks_restart_witness:
  "\<not> requires_known (tl demo_components @ [hd demo_components\<lparr>bs_requires := [''nnti'']\<rparr>]) \<and>
   (case bs_Init (\<lambda>_. False) demo_config
       (demo_bootstrap\<lparr>bstraps := tl demo_components @ [hd demo_components\<lparr>bs_requires := [''nnti'']\<rparr>]\<rparr>) of
      Some (Inl e, b1) \<Rightarrow> e = Runtime_error | _ \<Rightarrow> False)"
proof -
  define bss where "bss = tl demo_components @ [hd demo_components\<lparr>bs_requires := [''nnti'']\<rparr>]"
  define b where "b = demo_bootstrap\<lparr>bstraps := bss\<rparr>"
  have missing: "\<not> requires_known bss" unfolding bss_def by code_simp
  have "\<not> HasComponent b ''nnti''"
    by (simp add: b_def bss_def HasComponent_def demo_components_def)
  moreover have "state b = UNINITIALIZED" "\<not> state_locked b" "num_init_callers b = 0"
    "\<not> requires_known (bstraps b)" "\<not> cfg_references_throw demo_config"
    using missing by (simp_all add: b_def demo_bootstrap_def Bootstrap_ctor_def demo_config_def)
  ultimately have "case bs_Init (\<lambda>_. False) demo_config b of Some (Inl e, b1) \<Rightarrow> e = Runtime_error | _ \<Rightarrow> False"
    by (intro failed_weaken [OF failed_init_blocks_restart [where name = "''nnti''" and requires = "[]"
      and optional = "[]" and component = 0 and allow = True and config' = demo_config and clear = True
      and throws' = "\<lambda>_. False"]])
  then show ?thesis using missing by (simp add: b_def bss_def)
qed

end
