(* ===== verification/String_Helpers.thy ===== *)
theory String_Helpers
  imports Prelude "HOL-Library.Signed_Division" "HOL-Library.Sublist"
begin

text \<open>
  The string utilities of \<^verbatim>\<open>faodel-common/StringHelpers.cpp\<close>: percent-escaping, number,
  boolean and time parsing, splitting and joining, path handling, hex dumps, the djb2 hashes and
  the id-range parser.  A call that reports through a return code and an out-parameter returns an
  option (\<^term>\<open>None\<close> is \<^verbatim>\<open>EINVAL\<close>); one that can throw or that the C++ standard leaves
  undefined returns a \<^typ>\<open>'a result\<close>.
\<close>

section \<open>The C library functions the file calls\<close>

definition ULONG_MAX :: nat where
  "ULONG_MAX = 2 ^ 64 - 1"

definition LONG_MAX :: int where
  "LONG_MAX = 2 ^ 63 - 1"

definition LONG_MIN :: int where
  "LONG_MIN = - (2 ^ 63)"

definition INT_trunc :: "int \<Rightarrow> int" where
  "INT_trunc v = sint (word_of_int v :: u32)"

definition take_sign :: "string \<Rightarrow> bool \<times> string" where
  "take_sign s = (case s of [] \<Rightarrow> (False, [])
     | c # cs \<Rightarrow> if c = CHR ''-'' then (True, cs) else if c = CHR ''+'' then (False, cs)
                 else (False, s))"

definition hex_prefix :: "string \<Rightarrow> bool" where
  "hex_prefix s = (case s of a # b # c # _ \<Rightarrow> a = CHR ''0'' \<and> tolower b = CHR ''x'' \<and> isxdigit c
                   | _ \<Rightarrow> False)"

definition strtoul_base :: "nat \<Rightarrow> string \<Rightarrow> nat \<times> string" where
  "strtoul_base base s =
     (if (base = 0 \<or> base = 16) \<and> hex_prefix s then (16, drop 2 s)
      else if base = 0 then (if take 1 s = ''0'' then 8 else 10, s)
      else (base, s))"

text \<open>\<^verbatim>\<open>strtoul\<close>: the value and whether it set \<^verbatim>\<open>errno\<close> to \<^verbatim>\<open>ERANGE\<close>.\<close>

definition strtoul :: "string \<Rightarrow> nat \<Rightarrow> u64 \<times> bool" where
  "strtoul s base =
     (let (neg, s1) = take_sign (skip_space (c_str s));
          (b, s2) = strtoul_base base s1;
          n = from_base b (lead_digits b s2)
      in if n > ULONG_MAX then (word_of_nat ULONG_MAX, True)
         else (if neg then - word_of_nat n else word_of_nat n, False))"

text \<open>\<^verbatim>\<open>strtol\<close> in base 10: the saturated value and the unparsed rest.\<close>

definition strtol10 :: "string \<Rightarrow> int \<times> string" where
  "strtol10 s =
     (let (neg, s1) = take_sign (skip_space (c_str s));
          ds = lead_digits 10 s1;
          n = int (from_base 10 ds);
          v = (if neg then - n else n)
      in if ds = [] then (0, c_str s)
         else (max LONG_MIN (min LONG_MAX v), drop (length ds) s1))"

definition atoll :: "string \<Rightarrow> int" where
  "atoll s = fst (strtol10 s)"

definition atoi :: "string \<Rightarrow> int" where
  "atoi s = INT_trunc (fst (strtol10 s))"

section \<open>Escaping\<close>

definition hex2 :: "nat \<Rightarrow> string" where
  "hex2 x = pad_left 2 CHR ''0'' (hex_of_nat x)"

fun MakePunycode :: "string \<Rightarrow> string" where
  "MakePunycode [] = []"
| "MakePunycode (c # cs) =
     (if isalnum c then [c] else CHR ''%'' # hex2 (ord c)) @ MakePunycode cs"

definition puny_nibble :: "char \<Rightarrow> u8" where
  "puny_nibble c = (if isdigit c then word_of_nat (ord c) - 48
                    else if islower c then 10 + word_of_nat (ord c) - 97
                    else 10 + word_of_nat (ord c) - 65)"

function ExpandPunycode :: "string \<Rightarrow> string" where
  "ExpandPunycode s =
     (case s of [] \<Rightarrow> []
      | c # cs \<Rightarrow>
          if ord c = 0 then []
          else if c = CHR ''%'' then
            (case cs of
               h # l # rest \<Rightarrow>
                 if isxdigit h \<and> isxdigit l
                 then char_of (unat (or (push_bit 4 (puny_nibble h)) (puny_nibble l))) # ExpandPunycode rest
                 else ExpandPunycode cs
             | _ \<Rightarrow> ExpandPunycode cs)
          else c # ExpandPunycode cs)"
  by pat_completeness auto
termination by (relation "measure length") auto

declare ExpandPunycode.simps [simp del]

section \<open>Splitting and joining\<close>

function Split :: "string \<Rightarrow> char \<Rightarrow> bool \<Rightarrow> string list" where
  "Split str sep remove_empty =
     (case break_at sep str of
        Some (tok, rest) \<Rightarrow>
          (if \<not> remove_empty \<or> tok \<noteq> [] then [tok] else []) @ Split rest sep remove_empty
      | None \<Rightarrow> if \<not> remove_empty \<or> str \<noteq> [] then [str] else [])"
  by pat_completeness auto
termination by (relation "measure (\<lambda>(t, _, _). length t)") (auto dest: break_at_length)

declare Split.simps [simp del]

text \<open>\<^verbatim>\<open>while(getline(ss, item, sep))\<close>: like a split, but no item for an empty tail.\<close>

function getlines :: "char \<Rightarrow> string \<Rightarrow> string list" where
  "getlines sep str =
     (case break_at sep str of
        Some (tok, rest) \<Rightarrow> tok # getlines sep rest
      | None \<Rightarrow> if str = [] then [] else [str])"
  by pat_completeness auto
termination by (relation "measure (\<lambda>(_, t). length t)") (auto dest: break_at_length)

declare getlines.simps [simp del]

definition SplitPath :: "string \<Rightarrow> string list" where
  "SplitPath s = filter (\<lambda>item. item \<noteq> []) (getlines CHR ''/'' s)"

definition JoinPath :: "string list \<Rightarrow> int \<Rightarrow> string result" where
  "JoinPath vv num_items =
     (if num_items < 0 \<or> num_items > int (length vv) then Inl Assert_failed
      else Inr (concat (map (\<lambda>v. CHR ''/'' # v) (take (nat num_items) vv))))"

fun Join :: "string list \<Rightarrow> char \<Rightarrow> string" where
  "Join [] sep = []"
| "Join [t] sep = t"
| "Join (t # u # ts) sep = t @ sep # Join (u # ts) sep"

definition ToLowercase :: "string \<Rightarrow> string" where
  "ToLowercase s = map tolower s"

definition StringBeginsWith :: "string \<Rightarrow> string \<Rightarrow> bool" where
  "StringBeginsWith s search_prefix =
     (if length search_prefix > length s then False
      else list_all2 (=) search_prefix (take (length search_prefix) s))"

definition StringEndsWith :: "string \<Rightarrow> string \<Rightarrow> bool" where
  "StringEndsWith s search_suffix =
     (if length search_suffix > length s then False
      else list_all2 (=) (drop (length s - length search_suffix) s) search_suffix)"

definition StringZeroPad :: "int \<Rightarrow> int \<Rightarrow> string result" where
  "StringZeroPad val to_num_digits =
     (let s = dec_of_int val in
      if to_num_digits < 0 then Inl Length_error
      else if int (length s) < to_num_digits
           then Inr (replicate (nat to_num_digits - length s) CHR ''0'' @ s)
           else Inr s)"

definition StringCenterTitle :: "string \<Rightarrow> string" where
  "StringCenterTitle s =
     (if s = [] then replicate 80 CHR ''=''
      else let stmp = (if length s < 76 then s else take 76 s);
               left = (80 - (length stmp + 2)) div 2;
               right = 80 - (left + 1 + length stmp + 1)
           in replicate left CHR ''='' @ '' '' @ stmp @ '' '' @ replicate right CHR ''='')"

definition charset :: string where
  "charset = ''0123456789ABCDEFGHIJKLMNOPQRSTUVWXYZabcdefghijklmnopqrstuvwxyz''"

text \<open>\<^verbatim>\<open>rand()\<close> is the sequence of values it returns.\<close>

definition RandomString :: "(nat \<Rightarrow> nat) \<Rightarrow> nat \<Rightarrow> string" where
  "RandomString rand string_length = map (\<lambda>i. charset ! (rand i mod length charset)) [0..<string_length]"

section \<open>Parsing values\<close>

fun IsValidIPString_loop :: "string list \<Rightarrow> bool \<Rightarrow> bool \<Rightarrow> (bool \<times> bool) option" where
  "IsValidIPString_loop [] all_digits has_digits = Some (all_digits, has_digits)"
| "IsValidIPString_loop (s # ss) all_digits has_digits =
     (if s = [] then None
      else let (val, p) = strtol10 s in
        if p \<noteq> [] then IsValidIPString_loop ss False has_digits
        else if 0 \<le> val \<and> val \<le> 255 then IsValidIPString_loop ss all_digits True
        else IsValidIPString_loop ss False True)"

definition IsValidIPString :: "string \<Rightarrow> bool" where
  "IsValidIPString hostname =
     (let octets = Split hostname CHR ''.'' False in
      case IsValidIPString_loop octets True False of
        None \<Rightarrow> False
      | Some (all_digits, has_digits) \<Rightarrow>
          if all_digits then length octets = 4 else \<not> has_digits)"

text \<open>The size suffix of the integer parsers; \<^term>\<open>None\<close> is the parse error.\<close>

definition suffix_multiplier :: "char \<Rightarrow> nat option" where
  "suffix_multiplier last_char =
     (if isdigit last_char then Some 1
      else if tolower last_char = CHR ''k'' then Some 1024
      else if tolower last_char = CHR ''m'' then Some (1024 * 1024)
      else if tolower last_char = CHR ''g'' then Some (1024 * 1024 * 1024)
      else None)"

definition StringToInt64 :: "string \<Rightarrow> int option result" where
  "StringToInt64 token =
     (if token = [] then Inl Undefined_behaviour
      else case suffix_multiplier (last token) of
        None \<Rightarrow> Inr None
      | Some multiplier \<Rightarrow>
          let v = int multiplier * atoll token in
          if LONG_MIN \<le> v \<and> v \<le> LONG_MAX then Inr (Some v) else Inl Undefined_behaviour)"

definition StringToInt32 :: "string \<Rightarrow> int option result" where
  "StringToInt32 token =
     rbind (StringToInt64 token) (\<lambda>r. Inr (map_option (\<lambda>val64. INT_trunc (take_bit 32 val64)) r))"

text \<open>\<^verbatim>\<open>errno\<close> is not cleared before \<^verbatim>\<open>strtoul\<close>: its earlier value is a parameter.\<close>

definition StringToUInt64 :: "bool \<Rightarrow> string \<Rightarrow> u64 option result" where
  "StringToUInt64 errno_is_erange token =
     (if token = [] then Inl Undefined_behaviour
      else case suffix_multiplier (last token) of
        None \<Rightarrow> Inr None
      | Some multiplier \<Rightarrow>
          let (v, erange) = strtoul token 0;
              val = word_of_nat multiplier * v
          in if val = word_of_nat ULONG_MAX \<and> (errno_is_erange \<or> erange) then Inr None
             else Inr (Some val))"

definition StringToUInt32 :: "bool \<Rightarrow> string \<Rightarrow> u32 option result" where
  "StringToUInt32 errno_is_erange token =
     rbind (StringToUInt64 errno_is_erange token)
       (\<lambda>r. Inr (map_option (\<lambda>val64. ucast (and val64 0xFFFFFFFF)) r))"

definition StringToPtr :: "string \<Rightarrow> u64" where
  "StringToPtr token = fst (strtoul token 16)"

definition StringToBoolean :: "string \<Rightarrow> bool option" where
  "StringToBoolean token =
     (if token = [] then None
      else let ltoken = ToLowercase token in
        if ltoken = ''true'' \<or> ltoken = ''1'' \<or> ltoken = ''t'' then Some True
        else if ltoken = ''false'' \<or> ltoken = ''0'' \<or> ltoken = ''f'' then Some False
        else None)"

definition time_table :: "(string \<times> nat) list" where
  "time_table = [(''us'', 1), (''ms'', 1000), (''minutes'', 60 * 1000 * 1000),
     (''hours'', 3600 * 1000 * 1000), (''seconds'', 1000 * 1000), (''s'', 1000 * 1000)]"

definition trim_right_spaces :: "string \<Rightarrow> string" where
  "trim_right_spaces s = rev (dropWhile (\<lambda>c. c = CHR '' '') (rev s))"

fun time_suffix :: "(string \<times> nat) list \<Rightarrow> string \<Rightarrow> nat \<times> string" where
  "time_suffix [] sname = (1, sname)"
| "time_suffix ((name, mult) # table) sname =
     (if StringEndsWith sname name
      then (mult, trim_right_spaces (take (length sname - length name) sname))
      else time_suffix table sname)"

definition StringToTimeUS :: "bool \<Rightarrow> string \<Rightarrow> u64 option" where
  "StringToTimeUS errno_is_erange token =
     (if token = [] then None
      else let (multiplier, sname) = time_suffix time_table (ToLowercase token) in
        if sname \<noteq> [] \<and> list_all isdigit sname
        then let (v, erange) = strtoul sname 0;
                 val = word_of_nat multiplier * v
             in if val = word_of_nat ULONG_MAX \<and> (errno_is_erange \<or> erange) then None else Some val
        else None)"

definition GetItemFromComponentSettings ::
  "(string \<Rightarrow> string option) \<Rightarrow> string \<Rightarrow> (string, string) omap \<Rightarrow> string" where
  "GetItemFromComponentSettings getenv item settings =
     (case om_get settings item of
        Some v \<Rightarrow> v
      | None \<Rightarrow>
          (case om_get settings (item @ ''.env_name'') of
             None \<Rightarrow> []
           | Some name \<Rightarrow>
               if name \<noteq> [] then (case getenv name of Some v \<Rightarrow> v | None \<Rightarrow> []) else []))"

definition GetPathFromComponentSettings ::
  "(string \<Rightarrow> string option) \<Rightarrow> (string, string) omap \<Rightarrow> string" where
  "GetPathFromComponentSettings getenv settings =
     (let p = GetItemFromComponentSettings getenv ''path'' settings in
      if p \<noteq> [] \<and> last p \<noteq> CHR ''/'' then p @ ''/'' else p)"

definition GetFileFromComponentSettings ::
  "(string \<Rightarrow> string option) \<Rightarrow> (string, string) omap \<Rightarrow> string" where
  "GetFileFromComponentSettings getenv settings = GetItemFromComponentSettings getenv ''file'' settings"

section \<open>Hex dumps\<close>

definition HEX2 :: "char \<Rightarrow> string" where
  "HEX2 c = [upper_digit_chr (ord c div 16), upper_digit_chr (ord c mod 16)]"

definition printable :: "char \<Rightarrow> char" where
  "printable c = (if isprint c then c else CHR ''.'')"

fun hexdump_adjust :: "nat \<Rightarrow> nat \<Rightarrow> nat" where
  "hexdump_adjust 0 g = 0"
| "hexdump_adjust (Suc n) g = (if Suc n mod g \<noteq> 0 then hexdump_adjust n g else Suc n)"

record hexdump_style =
  even_prefix :: string
  even_suffix :: string
  odd_prefix :: string
  odd_suffix :: string

record hexdump_state =
  hd_is_even :: bool
  hd_spot :: nat
  ss_hex :: string
  ss_txt :: string
  byte_offsets :: "string list"
  hex_lines :: "string list"
  txt_lines :: "string list"

definition hexdump_step ::
  "hexdump_style \<Rightarrow> string \<Rightarrow> nat \<Rightarrow> nat \<Rightarrow> nat \<Rightarrow> hexdump_state \<Rightarrow> hexdump_state" where
  "hexdump_step sty x chars_per_line grouping_size i st0 =
     (let st1 = st0\<lparr>hd_spot := hd_spot st0 - 1\<rparr>;
          st2 = (if hd_spot st1 = chars_per_line - 1
                 then st1\<lparr>byte_offsets := byte_offsets st1 @ [dec_of_nat i], hd_is_even := True\<rparr> else st1);
          pre = (if i mod grouping_size = 0
                 then (if hd_is_even st2 then even_prefix sty else odd_prefix sty) else []);
          hx = (if i < length x then HEX2 (x ! i) @ (if hd_spot st2 \<noteq> 0 then '' '' else []) else []);
          tx = (if i < length x then [printable (x ! i)] else []);
          suf = (if (i + 1) mod grouping_size = 0
                 then (if hd_is_even st2 then even_suffix sty else odd_suffix sty) else []);
          st3 = st2\<lparr>ss_hex := ss_hex st2 @ pre @ hx @ suf, ss_txt := ss_txt st2 @ pre @ tx @ suf,
                    hd_is_even := (if (i + 1) mod grouping_size = 0 then \<not> hd_is_even st2 else hd_is_even st2)\<rparr>
      in if hd_spot st3 = 0
         then st3\<lparr>hex_lines := hex_lines st3 @ [ss_hex st3], txt_lines := txt_lines st3 @ [ss_txt st3],
                  ss_hex := [], ss_txt := [], hd_spot := chars_per_line\<rparr>
         else st3)"

definition ConvertToHexDump_lines ::
  "string \<Rightarrow> int \<Rightarrow> int \<Rightarrow> hexdump_style \<Rightarrow> string list \<times> string list \<times> string list" where
  "ConvertToHexDump_lines x chars_per_line grouping_size sty =
     (if length x < 1 \<or> chars_per_line < 1 \<or> grouping_size < 1 then ([], [], [])
      else let g = nat grouping_size;
               cpl = (if chars_per_line > grouping_size then hexdump_adjust (nat chars_per_line) g
                      else nat chars_per_line);
               leftover = length x mod cpl;
               padded_len = (if leftover = 0 then length x else length x + cpl - leftover);
               st = fold (hexdump_step sty x cpl g) [0..<padded_len]
                      \<lparr>hd_is_even = True, hd_spot = cpl, ss_hex = [], ss_txt = [],
                       byte_offsets = [], hex_lines = [], txt_lines = []\<rparr>
           in (byte_offsets st, hex_lines st, txt_lines st))"

fun hexdump_loop :: "nat \<Rightarrow> nat \<Rightarrow> string \<Rightarrow> string \<times> string" where
  "hexdump_loop cpl spot [] = ([], [])"
| "hexdump_loop cpl spot (c # cs) =
     (let spot' = spot - 1;
          (h, t) = hexdump_loop cpl (if spot' = 0 then cpl else spot') cs
      in (HEX2 c @ (if spot' = 0 then [CHR 0x0A] else '' '') @ h,
          [printable c] @ (if spot' = 0 then [CHR 0x0A] else []) @ t))"

text \<open>\<^term>\<open>None\<close>: the early return that leaves the output strings as they were.\<close>

definition ConvertToHexDump :: "string \<Rightarrow> int \<Rightarrow> (string \<times> string) option" where
  "ConvertToHexDump x chars_per_line =
     (if length x = 0 \<or> chars_per_line \<le> 0 then None
      else Some (hexdump_loop (nat chars_per_line) (nat chars_per_line) x))"

section \<open>Hashes\<close>

text \<open>\<^verbatim>\<open>char\<close> is signed: a byte above 127 is sign-extended before it is added.\<close>

definition char_to_ulong :: "char \<Rightarrow> u64" where
  "char_to_ulong c = scast (word_of_nat (ord c) :: u8)"

definition dbj2_step :: "u64 \<Rightarrow> u64 \<Rightarrow> u64" where
  "dbj2_step hash c = (push_bit 5 hash + hash) + c"

definition hash_dbj2 :: "string \<Rightarrow> u32" where
  "hash_dbj2 s = ucast (foldl (\<lambda>h c. dbj2_step h (char_to_ulong c)) 5381 (c_str s))"

fun bucket_bytes :: "nat \<Rightarrow> u32 \<Rightarrow> u64 list" where
  "bucket_bytes 0 bval = []"
| "bucket_bytes (Suc n) bval = ucast (and bval 0xFF) # bucket_bytes n (drop_bit 8 bval)"

definition hash_dbj2_bucket :: "u32 \<Rightarrow> string \<Rightarrow> u32" where
  "hash_dbj2_bucket bid s =
     ucast (foldl (\<lambda>h c. dbj2_step h (char_to_ulong c))
              (foldl dbj2_step 5381 (bucket_bytes 4 bid)) (c_str s))"

definition hash32 :: "string \<Rightarrow> u32" where
  "hash32 s = hash_dbj2 s"

definition hash16 :: "string \<Rightarrow> u16" where
  "hash16 s = (let h = hash32 s in ucast (xor (drop_bit 16 h) (and h 0xFFFF)))"

text \<open>With no digit after \<^verbatim>\<open>0x\<close> the extraction fails and the result is never initialised.\<close>

definition UnpackHash32 :: "string \<Rightarrow> u32 result" where
  "UnpackHash32 s =
     (if take 2 s \<noteq> ''0x'' then Inr (hash32 s)
      else if length s > 10 then Inl Runtime_error
      else if \<not> list_all isxdigit (drop 2 s) then Inl Runtime_error
      else if drop 2 s = [] then Inl Undefined_behaviour
      else Inr (word_of_nat (from_base 16 (drop 2 s))))"

section \<open>Id ranges\<close>

fun only_one_number :: "bool \<Rightarrow> bool \<Rightarrow> string \<Rightarrow> bool" where
  "only_one_number previous_was_space previously_hit_word [] = True"
| "only_one_number previous_was_space previously_hit_word (x # xs) =
     (if x \<noteq> CHR '' '' then
        (if \<not> isdigit x then False
         else if previous_was_space \<and> previously_hit_word then False
         else only_one_number False True xs)
      else only_one_number True previously_hit_word xs)"

definition parseIDInRange :: "string \<Rightarrow> int \<Rightarrow> int" where
  "parseIDInRange token num_nodes =
     (if token = [] then -1
      else if token = ''first'' then 0
      else if token = ''last'' then num_nodes - 1
      else if token = ''end'' then num_nodes - 1
      else if token = ''middle'' then (num_nodes - 1) sdiv 2
      else if token = ''middleplus'' then ((num_nodes - 1) sdiv 2) + 1
      else if \<not> only_one_number True False token then -1
      else atoi token)"

fun ExtractIDs_loop :: "string list \<Rightarrow> int \<Rightarrow> int set \<Rightarrow> int set result" where
  "ExtractIDs_loop [] num_nodes items = Inr items"
| "ExtractIDs_loop (t # ts) num_nodes items =
     (if t = ''all'' then Inr (items \<union> {0..<num_nodes})
      else case Split t CHR ''-'' True of
        [r0, r1] \<Rightarrow>
          let a = parseIDInRange r0 num_nodes; b = parseIDInRange r1 num_nodes in
          if a > b \<or> b < 0 \<or> a \<ge> num_nodes \<or> b \<ge> num_nodes then Inl Runtime_error
          else ExtractIDs_loop ts num_nodes (items \<union> {a..b})
      | [r0] \<Rightarrow>
          let x = parseIDInRange r0 num_nodes in
          if x < 0 \<or> x \<ge> num_nodes then Inl Runtime_error
          else ExtractIDs_loop ts num_nodes (insert x items)
      | _ \<Rightarrow> Inl Runtime_error)"

definition ExtractIDs :: "string \<Rightarrow> int \<Rightarrow> int set result" where
  "ExtractIDs line num_nodes =
     ExtractIDs_loop (Split (ToLowercase line) CHR '','' True) num_nodes {}"

section \<open>Escaping is reversible\<close>

lemma hex2_char: "n < 256 \<Longrightarrow> hex2 n = [digit_chr (n div 16), digit_chr (n mod 16)]"
  by (auto simp: hex2_def hex_of_nat_def pad_left_def to_base_unfold digit_chr_0)

lemma puny_nibble_digit: "d < 16 \<Longrightarrow> puny_nibble (digit_chr d) = word_of_nat d"
  by (auto simp: puny_nibble_def digit_chr_def isdigit_def islower_def ord_char_of of_nat_diff)

lemma or_nibbles:
  assumes "d < 16" "e < 16"
  shows "unat (or (push_bit 4 (word_of_nat d :: u8)) (word_of_nat e)) = 16 * d + e"
proof -
  have "\<not> bit (word_of_nat e :: u8) i" if "4 \<le> i" for i
  proof -
    have "2 ^ 4 \<le> (2::nat) ^ i" using that by (intro power_increasing) auto
    then show ?thesis using assms by (simp add: bit_of_nat_iff bit_iff_odd [of e])
  qed
  then have "or (push_bit 4 (word_of_nat d :: u8)) (word_of_nat e) =
        push_bit 4 (word_of_nat d) + word_of_nat e"
    by (intro disjunctive_add [symmetric]) (auto simp: bit_push_bit_iff)
  also have "\<dots> = word_of_nat (16 * d + e)" by (simp add: push_bit_eq_mult)
  finally show ?thesis using assms by (simp add: unat_of_nat del: of_nat_add of_nat_mult)
qed

lemma ExpandPunycode_plain:
  "isalnum c \<Longrightarrow> ExpandPunycode (c # s) = c # ExpandPunycode s"
  by (subst ExpandPunycode.simps)
    (auto simp: isalnum_def isdigit_def islower_def isupper_def ord_def)

lemma ExpandPunycode_escape:
  "n < 256 \<Longrightarrow> ExpandPunycode (CHR ''%'' # hex2 n @ s) = char_of n # ExpandPunycode s"
  by (subst ExpandPunycode.simps)
    (simp add: hex2_char puny_nibble_digit or_nibbles ord_def)

lemma Expand_Make: "ExpandPunycode (MakePunycode s) = s"
proof (induction s)
  case (Cons c s)
  then show ?case by (simp add: ExpandPunycode_plain ExpandPunycode_escape)
qed (simp add: ExpandPunycode.simps)

lemma MakePunycode_append: "MakePunycode (s @ t) = MakePunycode s @ MakePunycode t"
  by (induction s) auto

lemma isalnum_digit_chr: "d < 16 \<Longrightarrow> isalnum (digit_chr d)"
  by (auto simp: isalnum_def isdigit_def islower_def digit_chr_def ord_char_of)

lemma MakePunycode_alphabet: "c \<in> set (MakePunycode s) \<Longrightarrow> isalnum c \<or> c = CHR ''%''"
proof (induction s)
  case (Cons a s)
  have "isalnum (digit_chr (ord a div 16))" "isalnum (digit_chr (ord a mod 16))"
    using ord_less_256 [of a] by (simp_all add: isalnum_digit_chr less_mult_imp_div_less)
  then show ?case using Cons by (auto simp: hex2_char split: if_splits)
qed simp

interpretation punycode: codec MakePunycode "\<lambda>s. Some (ExpandPunycode s)" "\<lambda>_. True"
  by unfold_locales (simp add: Expand_Make)

section \<open>Splitting and joining are inverse\<close>

lemma Split_None: "sep \<notin> set str \<Longrightarrow> Split str sep r = (if \<not> r \<or> str \<noteq> [] then [str] else [])"
  by (subst Split.simps) (simp add: break_at_None [symmetric])

lemma Split_sep:
  "sep \<notin> set tok \<Longrightarrow>
   Split (tok @ sep # rest) sep r = (if \<not> r \<or> tok \<noteq> [] then [tok] else []) @ Split rest sep r"
  by (subst Split.simps) simp

lemma Split_nonempty [simp]: "Split str sep False \<noteq> []"
  by (subst Split.simps) (auto split: option.splits)

lemma Join_Cons: "ts \<noteq> [] \<Longrightarrow> Join (t # ts) sep = t @ sep # Join ts sep"
  by (cases ts) auto

lemma Join_Split: "Join (Split str sep False) sep = str"
proof (induction str sep "False" rule: Split.induct)
  case (1 str sep)
  show ?case
  proof (cases "break_at sep str")
    case None
    then show ?thesis by (simp add: Split_None break_at_None)
  next
    case (Some p)
    then obtain tok rest where p: "break_at sep str = Some (tok, rest)" by (cases p) auto
    then have "str = tok @ sep # rest" "sep \<notin> set tok" by (auto dest: break_at_Some)
    then show ?thesis using 1 p by (simp add: Split_sep Join_Cons)
  qed
qed

lemma Split_Join:
  "ts \<noteq> [] \<Longrightarrow> \<forall>t \<in> set ts. sep \<notin> set t \<Longrightarrow> Split (Join ts sep) sep False = ts"
  by (induction ts sep rule: Join.induct) (auto simp: Split_None Split_sep)

lemma Split_remove_empty: "Split str sep True = filter (\<lambda>t. t \<noteq> []) (Split str sep False)"
proof (induction str sep "True" rule: Split.induct)
  case (1 str sep)
  then show ?case
    by (subst (1 2) Split.simps) (auto split: option.splits)
qed

lemma Split_sep_free: "t \<in> set (Split str sep r) \<Longrightarrow> sep \<notin> set t"
proof (induction str sep r rule: Split.induct)
  case (1 str sep r)
  then show ?case
    by (subst (asm) (2) Split.simps)
      (auto split: option.splits if_splits simp: break_at_None dest: break_at_Some)
qed

lemma getlines_Split: "filter (\<lambda>t. t \<noteq> []) (getlines sep str) = Split str sep True"
proof (induction sep str rule: getlines.induct)
  case (1 sep str)
  then show ?case
    by (subst getlines.simps, subst Split.simps) (auto split: option.splits)
qed

lemma SplitPath_Split: "SplitPath s = Split s CHR ''/'' True"
  by (simp add: SplitPath_def getlines_Split)

lemma SplitPath_pieces:
  assumes "\<forall>v \<in> set vv. v \<noteq> [] \<and> CHR ''/'' \<notin> set v"
  shows "SplitPath (concat (map (\<lambda>v. CHR ''/'' # v) vv)) = vv"
proof -
  have "Split (CHR ''/'' # s) CHR ''/'' True = Split s CHR ''/'' True" for s
    using Split_sep [of "CHR ''/''" "[]" s True] by simp
  moreover have "Split (v @ concat (map (\<lambda>v. CHR ''/'' # v) vs)) CHR ''/'' True = v # vs"
    if "\<forall>u \<in> set (v # vs). u \<noteq> [] \<and> CHR ''/'' \<notin> set u" for v vs
    using that
  proof (induction vs arbitrary: v)
    case (Cons w ws)
    then show ?case by (simp add: Split_sep)
  qed (simp add: Split_None)
  ultimately show ?thesis using assms
    by (cases vv) (simp_all add: SplitPath_Split Split_None)
qed

section \<open>Prefixes and suffixes\<close>

lemma StringBeginsWith_prefix: "StringBeginsWith s p \<longleftrightarrow> prefix p s"
  by (metis StringBeginsWith_def append_eq_conv_conj list.rel_eq prefix_def prefix_length_le linorder_not_le)

lemma StringEndsWith_suffix: "StringEndsWith s p \<longleftrightarrow> suffix p s"
proof
  assume "StringEndsWith s p"
  then have "s = take (length s - length p) s @ p"
    by (simp add: StringEndsWith_def list.rel_eq split: if_splits) (metis append_take_drop_id)
  then show "suffix p s" by (metis suffixI)
qed (auto simp: StringEndsWith_def list.rel_eq suffix_def)

section \<open>Hashes\<close>

lemma ucast_u64_u32: "(ucast (word_of_int x :: u64) :: u32) = word_of_int x"
  by transfer simp

lemma ucast_dbj2_step: "(ucast (dbj2_step h c) :: u32) = ucast h * 33 + ucast c"
proof -
  have "dbj2_step h c = word_of_int (uint h * 33 + uint c)"
    by (simp add: dbj2_step_def push_bit_eq_mult)
  then have "(ucast (dbj2_step h c) :: u32) = word_of_int (uint h * 33 + uint c)"
    by (simp only: ucast_u64_u32)
  moreover have "(word_of_int (uint w) :: u32) = ucast w" for w :: u64
    by (metis ucast_u64_u32 word_of_int_uint)
  ultimately show ?thesis by (metis (no_types) wi_hom_add wi_hom_mult word_of_int_numeral)
qed

lemma ucast_char_to_ulong: "(ucast (char_to_ulong c) :: u32) = scast (word_of_nat (ord c) :: u8)"
  unfolding char_to_ulong_def by (rule bit_word_eqI) (auto simp: bit_simps)

lemma dbj2_fold_bytes:
  "(ucast (foldl dbj2_step h cs) :: u32) = foldl (\<lambda>a c. a * 33 + ucast c) (ucast h) cs"
  by (induction cs arbitrary: h) (simp_all add: ucast_dbj2_step)

lemma dbj2_fold_chars:
  "(ucast (foldl (\<lambda>h c. dbj2_step h (char_to_ulong c)) h cs) :: u32) =
     foldl (\<lambda>a c. a * 33 + scast (word_of_nat (ord c) :: u8)) (ucast h) cs"
  by (induction cs arbitrary: h) (simp_all add: ucast_dbj2_step ucast_char_to_ulong)

lemma hash_dbj2_32:
  "hash_dbj2 s = foldl (\<lambda>a c. a * 33 + scast (word_of_nat (ord c) :: u8)) 5381 (c_str s)"
  by (simp add: hash_dbj2_def dbj2_fold_chars)

lemma hash_dbj2_bucket_32:
  "hash_dbj2_bucket bid s =
     foldl (\<lambda>a c. a * 33 + scast (word_of_nat (ord c) :: u8))
       (foldl (\<lambda>a c. a * 33 + ucast c) 5381 (bucket_bytes 4 bid)) (c_str s)"
  by (simp add: hash_dbj2_bucket_def dbj2_fold_chars dbj2_fold_bytes del: bucket_bytes.simps)

lemma c_str_no_nul: "CHR 0x00 \<notin> set s \<Longrightarrow> c_str s = s"
  by (auto simp: c_str_def takeWhile_eq_all_conv ord_0_iff)

lemma word_of_nat_from_hex: "(word_of_nat (from_base 16 (hex_of_nat (unat (w :: 'a::len word)))) :: 'a word) = w"
  by simp

lemma hex_of_u32_length: "length (hex_of_nat (unat (w :: u32))) \<le> 8"
  using to_base_length [of 16 "unat w" 7] unsigned_less [of w, where ?'a = nat] by (simp add: hex_of_nat_def)

lemma UnpackHash32_hex: "UnpackHash32 (''0x'' @ hex_of_nat (unat w)) = Inr w"
proof -
  have "list_all isxdigit (hex_of_nat (unat w))" by (simp add: list_all_iff hex_of_nat_xdigit)
  then show ?thesis using hex_of_u32_length [of w] by (simp add: UnpackHash32_def)
qed

lemma UnpackHash32_hash: "take 2 s \<noteq> ''0x'' \<Longrightarrow> UnpackHash32 s = Inr (hash32 s)"
  by (simp add: UnpackHash32_def)

section \<open>Titles and numbers\<close>

lemma StringCenterTitle_width: "length (StringCenterTitle s) = 80"
  by (auto simp: StringCenterTitle_def Let_def)

lemma StringZeroPad_width:
  "0 \<le> n \<Longrightarrow> StringZeroPad v n = Inr r \<Longrightarrow> int (length r) = max n (int (length (dec_of_int v)))"
  by (auto simp: StringZeroPad_def Let_def split: if_splits)

lemma RandomString_charset: "set (RandomString rand n) \<subseteq> set charset"
proof -
  have "length charset > 0" by (simp add: charset_def)
  then show ?thesis unfolding RandomString_def by (auto intro!: nth_mem)
qed

lemma take_sign_digits: "s \<noteq> [] \<Longrightarrow> list_all isdigit s \<Longrightarrow> take_sign s = (False, s)"
  by (cases s) (auto simp: take_sign_def isdigit_def ord_def)

lemma skip_space_digits: "list_all isdigit s \<Longrightarrow> skip_space s = s"
  by (cases s) (auto simp: skip_space_def isdigit_def isspace_def)

lemma c_str_digits: "list_all isdigit s \<Longrightarrow> c_str s = s"
  by (auto simp: c_str_def isdigit_def takeWhile_eq_all_conv list_all_iff)

lemma lead_digits_digits: "list_all isdigit s \<Longrightarrow> lead_digits 10 s = s"
  by (auto simp: list_all_iff isdigit_digit_val intro: lead_digits_all)

lemma hex_prefix_digits: "list_all isdigit s \<Longrightarrow> \<not> hex_prefix s"
  by (auto simp: hex_prefix_def isdigit_def tolower_def isupper_def ord_def split: list.splits)

lemma dec_of_nat_digits [simp]: "list_all isdigit (dec_of_nat n)"
  by (auto simp: list_all_iff dec_of_nat_digit)

lemmas digit_string_simps =
  take_sign_digits skip_space_digits c_str_digits lead_digits_digits hex_prefix_digits

lemma strtoul_dec: "n \<le> ULONG_MAX \<Longrightarrow> strtoul (dec_of_nat n) 0 = (word_of_nat n, False)"
proof (cases "n = 0")
  case True
  show ?thesis unfolding True dec_of_nat_0 by code_simp
next
  case False
  assume "n \<le> ULONG_MAX"
  then show ?thesis using False dec_of_nat_hd [of n]
    by (simp add: strtoul_def digit_string_simps strtoul_base_def)
qed

lemma strtol10_dec: "int n \<le> LONG_MAX \<Longrightarrow> strtol10 (dec_of_nat n) = (int n, [])"
  by (simp add: strtol10_def digit_string_simps LONG_MIN_def)

section \<open>Times\<close>

lemma trim_right_spaces_digits:
  assumes "ds \<noteq> []" "list_all isdigit ds"
  shows "trim_right_spaces (ds @ replicate k CHR '' '') = ds"
proof -
  have "last ds \<noteq> CHR '' ''" using assms by (auto simp: list_all_iff isdigit_def ord_def dest!: last_in_set)
  then have "dropWhile (\<lambda>c. c = CHR '' '') (rev ds) = rev ds"
    using assms(1) by (simp add: dropWhile_eq_self_iff hd_rev)
  then show ?thesis by (simp add: trim_right_spaces_def dropWhile_append)
qed

lemma time_suffix_after:
  assumes "c \<noteq> CHR ''u''" "c \<noteq> CHR ''m''" "c \<noteq> CHR ''e''" "c \<noteq> CHR ''d''" "c \<noteq> CHR ''r''"
    and "(u, mult) \<in> set time_table"
  shows "time_suffix time_table (r @ c # u) = (mult, trim_right_spaces (r @ [c]))"
proof -
  have "(u, mult) = (''us'', 1) \<or> (u, mult) = (''ms'', 1000) \<or> (u, mult) = (''minutes'', 60 * 1000 * 1000)
     \<or> (u, mult) = (''hours'', 3600 * 1000 * 1000) \<or> (u, mult) = (''seconds'', 1000 * 1000)
     \<or> (u, mult) = (''s'', 1000 * 1000)"
    using assms(6) by (simp add: time_table_def)
  then show ?thesis using assms(1-5)
    by (elim disjE) (simp_all add: time_table_def StringEndsWith_suffix suffix_to_prefix)
qed

text \<open>The unit found by the table scan is the one written, although other names end in \<open>s\<close>.\<close>

lemma time_suffix_unit:
  assumes ds: "ds \<noteq> []" "list_all isdigit ds" and u: "(u, mult) \<in> set time_table"
  shows "time_suffix time_table (ds @ replicate k CHR '' '' @ u) = (mult, ds)"
proof -
  let ?r = "ds @ replicate k CHR '' ''"
  obtain r c where r: "?r = r @ [c]" "c = CHR '' '' \<or> isdigit c"
  proof (cases k)
    case 0
    then show ?thesis using ds that [of "butlast ds" "last ds"] by (auto simp: list_all_iff)
  next
    case (Suc j)
    then show ?thesis using that [of "ds @ replicate j CHR '' ''" "CHR '' ''"]
      by (simp add: replicate_append_same)
  qed
  have "c \<noteq> CHR ''u'' \<and> c \<noteq> CHR ''m'' \<and> c \<noteq> CHR ''e'' \<and> c \<noteq> CHR ''d'' \<and> c \<noteq> CHR ''r''"
    using r(2) by (auto simp: isdigit_def ord_def)
  then have "time_suffix time_table (?r @ u) = (mult, trim_right_spaces ?r)"
    using time_suffix_after [of c u mult r] u unfolding r(1) by simp
  then show ?thesis using trim_right_spaces_digits [OF ds] by simp
qed

lemma ToLowercase_append [simp]: "ToLowercase (s @ t) = ToLowercase s @ ToLowercase t"
  by (simp add: ToLowercase_def)

lemma ToLowercase_digits: "list_all isdigit ds \<Longrightarrow> ToLowercase ds = ds"
  unfolding ToLowercase_def
  by (rule map_idI) (auto simp: list_all_iff isdigit_def tolower_def isupper_def)

lemma ToLowercase_unit: "(u, mult) \<in> set time_table \<Longrightarrow> ToLowercase u = u"
  unfolding ToLowercase_def
  by (rule map_idI) (auto simp: time_table_def tolower_def isupper_def ord_def)

lemma StringToTimeUS_dec:
  assumes u: "(u, mult) \<in> set time_table" and n: "n * mult < ULONG_MAX"
  shows "StringToTimeUS e (dec_of_nat n @ replicate k CHR '' '' @ u) = Some (word_of_nat (n * mult))"
proof -
  have "1 \<le> mult" using u by (auto simp: time_table_def)
  then have "n \<le> n * mult" by simp
  then have "n \<le> ULONG_MAX" using n by linarith
  have "(word_of_nat (n * mult) :: u64) \<noteq> word_of_nat ULONG_MAX"
  proof
    assume "(word_of_nat (n * mult) :: u64) = word_of_nat ULONG_MAX"
    then have "unat (word_of_nat (n * mult) :: u64) = unat (word_of_nat ULONG_MAX :: u64)" by simp
    then show False using n by (simp only: unat_of_nat) (simp add: ULONG_MAX_def)
  qed
  moreover have "ToLowercase (dec_of_nat n @ replicate k CHR '' '' @ u) = dec_of_nat n @ replicate k CHR '' '' @ u"
    using ToLowercase_unit [OF u] by (simp add: ToLowercase_digits) (simp add: ToLowercase_def tolower_def isupper_def ord_def)
  ultimately show ?thesis
    using time_suffix_unit [OF _ _ u, of "dec_of_nat n" k] strtoul_dec [OF \<open>n \<le> ULONG_MAX\<close>]
    by (simp add: StringToTimeUS_def mult.commute)
qed

section \<open>Id ranges\<close>

lemma only_one_number_digits: "list_all isdigit ds \<Longrightarrow> only_one_number False True ds"
  by (induction ds) (auto simp: isdigit_def ord_def)

lemma only_one_number_dec: "only_one_number True False (dec_of_nat n)"
proof (cases "dec_of_nat n")
  case (Cons c cs)
  then have "isdigit c" "list_all isdigit cs" using dec_of_nat_digits [of n] by auto
  then show ?thesis unfolding Cons by (auto simp: only_one_number_digits isdigit_def ord_def)
qed simp

lemma digits_not_word: "list_all isdigit ds \<Longrightarrow> \<not> isdigit c \<Longrightarrow> ds \<noteq> c # w"
  by auto

lemma atoi_dec: "n < 2 ^ 31 \<Longrightarrow> atoi (dec_of_nat n) = int n"
  by (simp add: atoi_def strtol10_dec LONG_MAX_def INT_trunc_def signed_of_nat signed_take_bit_int_eq_self)

lemma parseIDInRange_dec: "n < 2 ^ 31 \<Longrightarrow> parseIDInRange (dec_of_nat n) num_nodes = int n"
proof -
  assume n: "n < 2 ^ 31"
  have "dec_of_nat n \<noteq> c # w" if "\<not> isdigit c" for c w
    using digits_not_word [OF dec_of_nat_digits that] .
  moreover have "\<not> isdigit CHR ''f''" "\<not> isdigit CHR ''l''" "\<not> isdigit CHR ''e''" "\<not> isdigit CHR ''m''"
    by (simp_all add: isdigit_def ord_def)
  ultimately show ?thesis using n by (simp add: parseIDInRange_def only_one_number_dec atoi_dec)
qed

definition range_token :: "nat \<times> nat \<Rightarrow> string" where
  "range_token r = (if fst r = snd r then dec_of_nat (fst r)
                    else dec_of_nat (fst r) @ CHR ''-'' # dec_of_nat (snd r))"

lemma dec_of_nat_no_char: "\<not> isdigit c \<Longrightarrow> c \<notin> set (dec_of_nat n)"
  using dec_of_nat_digit by blast

lemma Split_range_token:
  "Split (range_token (a, b)) CHR ''-'' True = (if a = b then [dec_of_nat a] else [dec_of_nat a, dec_of_nat b])"
  by (simp add: range_token_def Split_None Split_sep dec_of_nat_no_char isdigit_def ord_def)

lemma range_token_chars: "c \<in> set (range_token r) \<Longrightarrow> isdigit c \<or> c = CHR ''-''"
  by (auto simp: range_token_def dec_of_nat_digit split: if_splits)

lemma tolower_not_upper_chars: "\<forall>c \<in> set s. \<not> isupper c \<Longrightarrow> ToLowercase s = s"
  unfolding ToLowercase_def by (rule map_idI) (simp add: tolower_fixed)

lemma range_token_clean:
  "range_token r \<noteq> []" "CHR '','' \<notin> set (range_token r)" "ToLowercase (range_token r) = range_token r"
proof -
  have "\<not> isupper c \<and> c \<noteq> CHR '',''" if "c \<in> set (range_token r)" for c
    using range_token_chars [OF that] by (auto simp: isdigit_def isupper_def ord_def)
  then show "CHR '','' \<notin> set (range_token r)" "ToLowercase (range_token r) = range_token r"
    by (auto intro: tolower_not_upper_chars)
qed (simp add: range_token_def)

lemma ExtractIDs_loop_ranges:
  assumes "\<forall>(a, b) \<in> set rs. a \<le> b \<and> int b < num_nodes" "num_nodes \<le> 2 ^ 31"
  shows "ExtractIDs_loop (map range_token rs) num_nodes items = Inr (items \<union> (\<Union>(a, b) \<in> set rs. {int a..int b}))"
  using assms
proof (induction rs arbitrary: items)
  case (Cons r rs)
  obtain a b where r: "r = (a, b)" by (cases r)
  have "range_token r \<noteq> ''all''"
    using range_token_chars [of "CHR ''a''" r] by (auto simp: isdigit_def ord_def)
  moreover have "a < 2 ^ 31" "b < 2 ^ 31" using Cons.prems r by auto
  ultimately show ?case using Cons r
    by (auto simp: Split_range_token parseIDInRange_dec)
qed simp

lemma ExtractIDs_loop_bounds:
  "ExtractIDs_loop ts num_nodes items = Inr S \<Longrightarrow> items \<subseteq> {..<num_nodes} \<Longrightarrow> S \<subseteq> {..<num_nodes}"
proof (induction ts arbitrary: items)
  case (Cons t ts)
  have step: "ExtractIDs_loop ts num_nodes I = Inr S \<Longrightarrow> I \<subseteq> {..<num_nodes} \<Longrightarrow> S \<subseteq> {..<num_nodes}" for I
    using Cons.IH .
  have range: "items \<union> {a..b} \<subseteq> {..<num_nodes}" if "b < num_nodes" for a b
    using that Cons.prems(2) by auto
  show ?case using Cons.prems range
    by (auto simp: Let_def split: list.splits if_splits dest!: step)
qed simp

lemma Join_ToLowercase:
  "tolower sep = sep \<Longrightarrow> \<forall>t \<in> set ts. ToLowercase t = t \<Longrightarrow> ToLowercase (Join ts sep) = Join ts sep"
  by (induction ts sep rule: Join.induct) (auto simp: ToLowercase_def)

section \<open>Properties\<close>

text \<open>
  Percent-escaping is lossless on every byte string (NUL and \<open>%\<close> included): expanding the
  escaped text gives the text back, and the escaped text holds only letters, digits and \<open>%\<close>.
\<close>
theorem punycode_roundtrip:
  "ExpandPunycode (MakePunycode s) = s \<and> list_all (\<lambda>c. isalnum c \<or> c = CHR ''%'') (MakePunycode s)"
  using MakePunycode_alphabet by (auto simp: Expand_Make list_all_iff)

lemma range_token_tokens: "range_token (0, 3) = ''0-3''" "range_token (7, 7) = ''7''"
  by code_simp+

text \<open>
  A range list written as numbers and \<open>a-b\<close> ranges, separated by commas, is parsed to
  exactly the union of its ranges, whenever every range lies below the number of nodes.
\<close>
theorem ExtractIDs_ranges:
  assumes "\<forall>(a, b) \<in> set rs. a \<le> b \<and> int b < num_nodes" and "num_nodes \<le> 2 ^ 31"
  shows "ExtractIDs (Join (map range_token rs) CHR '','') num_nodes
           = Inr (\<Union>(a, b) \<in> set rs. {int a..int b})"
proof (cases "rs = []")
  case False
  have "ToLowercase (Join (map range_token rs) CHR '','') = Join (map range_token rs) CHR '',''"
    by (rule Join_ToLowercase) (auto simp: range_token_clean tolower_def isupper_def ord_def)
  moreover have "Split (Join (map range_token rs) CHR '','') CHR '','' True = map range_token rs"
    using False by (auto simp: range_token_clean Split_remove_empty Split_Join intro!: filter_True)
  ultimately show ?thesis using ExtractIDs_loop_ranges [OF assms, of "{}"] by (simp add: ExtractIDs_def)
qed (simp add: ExtractIDs_def Split_None ToLowercase_def)

theorem ExtractIDs_ranges_witness:
  "ExtractIDs ''0-3,7'' 10 = Inr ({0..3} \<union> {7})"
  using ExtractIDs_ranges [of "[(0, 3), (7, 7)]" 10]
  by (simp add: range_token_tokens)

text \<open>
  A decimal count followed by any number of spaces and a unit of the table is read as that many
  units in microseconds, as long as the product fits 64 bits, and whatever \<open>errno\<close> held before.
\<close>
theorem StringToTimeUS_units:
  assumes "(u, mult) \<in> set time_table" and "n * mult < ULONG_MAX"
  shows "StringToTimeUS errno_is_erange (dec_of_nat n @ replicate k CHR '' '' @ u) = Some (word_of_nat (n * mult))"
  using StringToTimeUS_dec [OF assms] .

theorem StringToTimeUS_units_witness:
  "StringToTimeUS True (dec_of_nat 5 @ replicate 1 CHR '' '' @ ''minutes'') = Some (word_of_nat (5 * 60000000))"
  using StringToTimeUS_units [of "''minutes''" 60000000 5 True 1]
  by (simp add: time_table_def ULONG_MAX_def)

text \<open>
  The 64-bit hash loop computes the 32-bit djb2 recurrence \<open>h * 33 + c\<close> with sign-extended
  characters: truncating once at the end loses nothing.
\<close>
theorem hash_dbj2_is_djb2:
  "hash_dbj2 s = foldl (\<lambda>h c. h * 33 + scast (word_of_nat (ord c) :: u8)) 5381 (c_str s)"
  by (rule hash_dbj2_32)

end
