(* ===== verification/Node_Ids.thy ===== *)
theory Node_Ids
  imports String_Helpers
begin

text \<open>
  Buckets (\<^verbatim>\<open>faodel-common/Bucket.cpp\<close>) and node ids (\<^verbatim>\<open>faodel-common/NodeID.cpp\<close>,
  \<^verbatim>\<open>NodeID.hh\<close>).  Both are structs with one unsigned field, modelled by the word itself: a
  bucket is a 32-bit hash, a node id packs a 16-bit port above a 32-bit address.  The resolver
  \<^verbatim>\<open>gethostbyname\<close> is a parameter.
\<close>

section \<open>Buckets\<close>

type_synonym bucket_t = u32

definition BUCKET_UNSPECIFIED :: bucket_t where
  "BUCKET_UNSPECIFIED = 0"

definition Bucket :: "string \<Rightarrow> bucket_t result" where
  "Bucket bucket_string = UnpackHash32 bucket_string"

definition Bucket_GetHex :: "bucket_t \<Rightarrow> string" where
  "Bucket_GetHex bid = ''0x'' @ hex_of_nat (unat bid)"

definition Bucket_Valid :: "bucket_t \<Rightarrow> bool" where
  "Bucket_Valid bid = (bid \<noteq> 0)"

section \<open>Node ids\<close>

type_synonym nodeid_t = u64

definition NODE_LOCALHOST :: nodeid_t where
  "NODE_LOCALHOST = 1"

definition NODE_UNSPECIFIED :: nodeid_t where
  "NODE_UNSPECIFIED = 0"

definition makeNodeID :: "u32 \<Rightarrow> u16 \<Rightarrow> nodeid_t" where
  "makeNodeID ip port = or (push_bit 32 (ucast port)) (ucast ip)"

definition makeNodeID_str :: "(string \<Rightarrow> u32 option) \<Rightarrow> string \<Rightarrow> string \<Rightarrow> nodeid_t result" where
  "makeNodeID_str gethostbyname host port =
     (let port_id = (word_of_int (atoi port) :: u32) in
      if port_id \<ge> 64 * 1024 then Inl Runtime_error
      else if \<not> IsValidIPString host then Inl Runtime_error
      else case gethostbyname host of
             Some host_id \<Rightarrow> Inr (makeNodeID host_id (ucast port_id))
           | None \<Rightarrow> Inl Runtime_error)"

text \<open>
  The extraction \<^verbatim>\<open>ss >> val\<close> with the hex flag: it reads like \<^verbatim>\<open>strtoul\<close> in base 16,
  but leaves \<^verbatim>\<open>val\<close> uninitialised when there is nothing to read.
\<close>
definition stream_hex :: "string \<Rightarrow> u64 result" where
  "stream_hex s = (if skip_space s = [] then Inl Undefined_behaviour else Inr (fst (strtoul s 16)))"

definition NodeID_hex :: "string \<Rightarrow> nodeid_t result" where
  "NodeID_hex hex_string =
     (if take 2 hex_string = ''0x'' then stream_hex (drop 2 hex_string) else Inl Runtime_error)"

definition NodeID_cstr :: "string option \<Rightarrow> nodeid_t result" where
  "NodeID_cstr hex_string = (case hex_string of None \<Rightarrow> Inl Invalid_argument | Some s \<Rightarrow> NodeID_hex (c_str s))"

definition ValidIP :: "nodeid_t \<Rightarrow> bool" where
  "ValidIP nid = (and nid 0xFFFFFFFF \<noteq> 0)"

definition ValidPort :: "nodeid_t \<Rightarrow> bool" where
  "ValidPort nid = (and (drop_bit 32 nid) 0xFFFF \<noteq> 0)"

definition octet :: "nat \<Rightarrow> nodeid_t \<Rightarrow> nat" where
  "octet shift nid = unat (and (drop_bit shift nid) 0xFF)"

definition GetIP :: "nodeid_t \<Rightarrow> string" where
  "GetIP nid = dec_of_nat (octet 24 nid) @ ''.'' @ dec_of_nat (octet 16 nid) @ ''.'' @
     dec_of_nat (octet 8 nid) @ ''.'' @ dec_of_nat (octet 0 nid)"

definition GetPort :: "nodeid_t \<Rightarrow> string" where
  "GetPort nid = dec_of_nat (unat (and (drop_bit 32 nid) 0xFFFF))"

definition GetIPPort_num :: "nodeid_t \<Rightarrow> u32 \<times> u16" where
  "GetIPPort_num nid = (ucast (and nid 0xFFFFFFFF), ucast (and (drop_bit 32 nid) 0xFFFF))"

definition GetIPPort :: "nodeid_t \<Rightarrow> string \<times> string" where
  "GetIPPort nid = (GetIP nid, GetPort nid)"

definition GetHttpLink :: "nodeid_t \<Rightarrow> string \<Rightarrow> string" where
  "GetHttpLink nid extra_path =
     ''http://'' @ GetIP nid @ '':'' @ GetPort nid @
     (if extra_path \<noteq> [] then (if hd extra_path \<noteq> CHR ''/'' then ''/'' else []) @ extra_path else [])"

definition GetHex :: "nodeid_t \<Rightarrow> string" where
  "GetHex nid = ''0x'' @ hex_of_nat (unat nid)"

definition GetHtmlLink :: "nodeid_t \<Rightarrow> string \<Rightarrow> string \<Rightarrow> string" where
  "GetHtmlLink nid extra_path link_text =
     ''<a href='' @ [CHR 0x22] @ GetHttpLink nid extra_path @ [CHR 0x22] @ ''>'' @
     (if link_text \<noteq> [] then link_text else GetHex nid) @ ''</a>'' @ [CHR 0x0A]"

record NameAndNode =
  nn_name :: string
  nn_node :: nodeid_t

definition NameAndNode_less :: "NameAndNode \<Rightarrow> NameAndNode \<Rightarrow> bool" where
  "NameAndNode_less x y = (nn_name x < nn_name y)"

definition NameAndNode_eq :: "NameAndNode \<Rightarrow> NameAndNode \<Rightarrow> bool" where
  "NameAndNode_eq x y = (nn_name x = nn_name y)"

section \<open>Codecs\<close>

lemma Bucket_hex: "Bucket (Bucket_GetHex b) = Inr b"
  using UnpackHash32_hex [of b] by (simp add: Bucket_def Bucket_GetHex_def)

definition decode_ok :: "'a result \<Rightarrow> 'a option" where
  "decode_ok r = (case r of Inr x \<Rightarrow> Some x | Inl _ \<Rightarrow> None)"

interpretation bucket_codec: codec Bucket_GetHex "\<lambda>s. decode_ok (Bucket s)" "\<lambda>_. True"
  by unfold_locales (simp add: Bucket_hex decode_ok_def)

lemma xdigits_plain:
  assumes "s \<noteq> []" "list_all isxdigit s"
  shows "skip_space s = s" "c_str s = s" "take_sign s = (False, s)" "\<not> hex_prefix s" "lead_digits 16 s = s"
proof -
  have "ord (tolower c) \<noteq> ord CHR ''x''" if "isxdigit c" for c
    using that by (auto simp: isxdigit_def isdigit_def tolower_def isupper_def ord_char_of) (simp_all add: ord_def)
  then have "tolower c \<noteq> CHR ''x''" if "isxdigit c" for c using that by metis
  moreover have "\<not> isspace c \<and> ord c \<noteq> 0 \<and> c \<noteq> CHR ''-'' \<and> c \<noteq> CHR ''+''" if "isxdigit c" for c
    using that by (auto simp: isxdigit_def isdigit_def isspace_def ord_def)
  ultimately have c: "\<not> isspace c \<and> ord c \<noteq> 0 \<and> c \<noteq> CHR ''-'' \<and> c \<noteq> CHR ''+'' \<and> tolower c \<noteq> CHR ''x''"
    if "isxdigit c" for c using that by blast
  show "skip_space s = s" using assms c by (cases s) (auto simp: skip_space_def)
  show "c_str s = s" using assms c by (auto simp: c_str_def takeWhile_eq_all_conv list_all_iff)
  show "take_sign s = (False, s)" using assms c by (cases s) (auto simp: take_sign_def)
  show "\<not> hex_prefix s" using assms c by (auto simp: hex_prefix_def split: list.splits)
  show "lead_digits 16 s = s" using assms by (auto simp: list_all_iff digit_val_less_16 intro: lead_digits_all)
qed

lemma hex_of_nat_xdigits [simp]: "list_all isxdigit (hex_of_nat n)"
  by (auto simp: list_all_iff hex_of_nat_xdigit)

lemma strtoul_hex: "strtoul (hex_of_nat (unat (w :: u64))) 16 = (w, False)"
  using unsigned_less [of w, where ?'a = nat]
  by (simp add: strtoul_def xdigits_plain strtoul_base_def ULONG_MAX_def)

lemma NodeID_hex_GetHex: "NodeID_hex (GetHex n) = Inr n"
  by (simp add: NodeID_hex_def GetHex_def stream_hex_def xdigits_plain strtoul_hex)

interpretation nodeid_codec: codec GetHex "\<lambda>s. decode_ok (NodeID_hex s)" "\<lambda>_. True"
  by unfold_locales (simp add: NodeID_hex_GetHex decode_ok_def)

section \<open>Packing\<close>

lemma u64_masks:
  "and (w :: u64) 0xFFFFFFFF = take_bit 32 w" "and (w :: u64) 0xFFFF = take_bit 16 w"
  "and (w :: u64) 0xFF = take_bit 8 w"
  by (simp_all add: take_bit_eq_mask mask_eq_exp_minus_1)

lemma GetIPPort_makeNodeID: "GetIPPort_num (makeNodeID ip port) = (ip, port)"
proof -
  have "\<not> bit ip (32 + n)" for n using bit_imp_le_length [of ip "32 + n"] by auto
  then have "(ucast (take_bit 32 (makeNodeID ip port)) :: u32) = ip"
    "(ucast (take_bit 16 (drop_bit 32 (makeNodeID ip port))) :: u16) = port"
    by (auto intro!: bit_word_eqI simp: makeNodeID_def bit_simps)
  then show ?thesis by (simp add: GetIPPort_num_def u64_masks)
qed

lemma makeNodeID_GetIPPort:
  assumes "drop_bit 48 nid = 0"
  shows "(case GetIPPort_num nid of (ip, port) \<Rightarrow> makeNodeID ip port) = nid"
proof -
  have "n < 48" if "bit nid n" for n
  proof (rule ccontr)
    assume "\<not> n < 48"
    then have "bit (drop_bit 48 nid) (n - 48)" using that by (simp add: bit_drop_bit_eq)
    then show False using assms by simp
  qed
  then have "n - 32 < 64 \<and> n - 32 < 16" if "bit nid n" "\<not> n < 32" for n
    using that by fastforce
  then show ?thesis
    by (auto intro!: bit_word_eqI simp: GetIPPort_num_def u64_masks makeNodeID_def bit_simps)
qed

lemma unat_take_bit_less: "unat (take_bit n (w :: 'a::len word)) < 2 ^ n"
  by (simp only: unsigned_take_bit_eq) simp

lemma octet_less: "octet k nid < 256"
  using unat_take_bit_less [of 8 "drop_bit k nid"] by (simp add: octet_def u64_masks)

lemma IsValidIPString_loop_octets:
  "\<forall>n \<in> set ns. n \<le> 255 \<Longrightarrow> ns \<noteq> [] \<Longrightarrow>
   IsValidIPString_loop (map dec_of_nat ns) True h = Some (True, True)"
proof (induction ns arbitrary: h)
  case (Cons n ns)
  have "strtol10 (dec_of_nat n) = (int n, [])" using Cons.prems by (intro strtol10_dec) (auto simp: LONG_MAX_def)
  then show ?case using Cons by (cases ns) auto
qed simp

lemma GetIP_Join: "GetIP nid = Join (map dec_of_nat [octet 24 nid, octet 16 nid, octet 8 nid, octet 0 nid]) CHR ''.''"
  by (simp add: GetIP_def)

lemma IsValidIPString_GetIP: "IsValidIPString (GetIP nid)"
proof -
  let ?os = "[octet 24 nid, octet 16 nid, octet 8 nid, octet 0 nid]"
  have "Split (GetIP nid) CHR ''.'' False = map dec_of_nat ?os"
    unfolding GetIP_Join by (rule Split_Join) (auto simp: dec_of_nat_no_char isdigit_def ord_def)
  moreover have "IsValidIPString_loop (map dec_of_nat ?os) True False = Some (True, True)"
    using octet_less [of 24 nid] octet_less [of 16 nid] octet_less [of 8 nid] octet_less [of 0 nid]
    by (intro IsValidIPString_loop_octets) simp_all
  ultimately show ?thesis by (simp add: IsValidIPString_def)
qed

lemma port_word: "unat (and (drop_bit 32 (nid :: u64)) 0xFFFF) < 2 ^ 16"
  unfolding u64_masks by (rule unat_take_bit_less)

lemma makeNodeID_str_GetIPPort:
  assumes "gethostbyname (GetIP nid) = Some (fst (GetIPPort_num nid))" "drop_bit 48 nid = 0"
  shows "makeNodeID_str gethostbyname (GetIP nid) (GetPort nid) = Inr nid"
proof -
  let ?p = "unat (and (drop_bit 32 nid) 0xFFFF)"
  have p: "?p < 2 ^ 16" by (rule port_word)
  then have a: "atoi (GetPort nid) = int ?p" unfolding GetPort_def by (intro atoi_dec) simp
  have "unat (word_of_nat ?p :: u32) = ?p"
    using p by (simp only: unat_of_nat) simp
  then have "\<not> (word_of_nat ?p :: u32) \<ge> 64 * 1024" using p by (simp add: word_le_nat_alt)
  moreover have "(ucast (word_of_nat ?p :: u32) :: u16) = snd (GetIPPort_num nid)"
    by (rule bit_word_eqI) (simp add: GetIPPort_num_def bit_simps u64_masks)
  ultimately show ?thesis
    using assms IsValidIPString_GetIP makeNodeID_GetIPPort [OF assms(2)]
    by (simp add: makeNodeID_str_def a split_beta)
qed

section \<open>Properties\<close>

text \<open>
  The hex text of a bucket or a node id is read back to the same value, so two buckets or
  node ids print alike only when they are equal.
\<close>
theorem hex_ids_roundtrip:
  "Bucket (Bucket_GetHex b) = Inr b \<and> NodeID_hex (GetHex n) = Inr n \<and>
   (Bucket_GetHex b = Bucket_GetHex b' \<longleftrightarrow> b = b') \<and> (GetHex n = GetHex n' \<longleftrightarrow> n = n')"
  using Bucket_hex NodeID_hex_GetHex bucket_codec.enc_inj nodeid_codec.enc_inj by blast

text \<open>
  Printing a node id as a dotted address and a decimal port and building a node id from
  the two strings gives the node id back, for every id within the 48 bits the packing uses; the
  address text is accepted by the address check.  The resolver is assumed to map a dotted address
  to the address it spells.
\<close>
theorem nodeid_text_roundtrip:
  assumes "gethostbyname (GetIP nid) = Some (fst (GetIPPort_num nid))" and "drop_bit 48 nid = 0"
  shows "IsValidIPString (GetIP nid) \<and>
         makeNodeID_str gethostbyname (fst (GetIPPort nid)) (snd (GetIPPort nid)) = Inr nid"
  using assms IsValidIPString_GetIP makeNodeID_str_GetIPPort [of gethostbyname nid] by (simp add: GetIPPort_def)

definition resolve_dotted :: "string \<Rightarrow> u32 option" where
  "resolve_dotted s = (case map (from_base 10) (Split s CHR ''.'' False) of
     [a, b, c, d] \<Rightarrow> Some (word_of_nat (((a * 256 + b) * 256 + c) * 256 + d)) | _ \<Rightarrow> None)"

lemma resolve_dotted_example:
  "resolve_dotted (GetIP 0x1F90C0A80101) = Some (fst (GetIPPort_num 0x1F90C0A80101))"
  "drop_bit 48 (0x1F90C0A80101 :: nodeid_t) = 0"
  "GetIPPort 0x1F90C0A80101 = (''192.168.1.1'', ''8080'')"
  by code_simp+

theorem nodeid_text_roundtrip_witness:
  "makeNodeID_str resolve_dotted ''192.168.1.1'' ''8080'' = Inr 0x1F90C0A80101"
  using nodeid_text_roundtrip [of resolve_dotted "0x1F90C0A80101"] resolve_dotted_example by simp

end
