(* ===== verification/Resource_URL.thy ===== *)
theory Resource_URL
  imports Node_Ids
begin

text \<open>
  Resource URLs (\<^verbatim>\<open>faodel-common/ResourceURL.cpp\<close>, \<^verbatim>\<open>ResourceURL.hh\<close>): the names by which pools and
  directories are found, such as \<^verbatim>\<open>dht:<0x1f90>[0xa2]/my/path/mydht&min_members=4\<close>.  The theory has the
  parser with every error it throws, the printer, the walk along the path and the option string.
\<close>

section \<open>The fields\<close>

record ResourceURL =
  url_type :: string
  url_node :: nodeid_t
  url_bucket :: bucket_t
  url_path :: string
  url_name :: string
  url_options :: string

definition ResourceURL_fields ::
  "string \<Rightarrow> nodeid_t \<Rightarrow> bucket_t \<Rightarrow> string \<Rightarrow> string \<Rightarrow> string \<Rightarrow> ResourceURL" where
  "ResourceURL_fields resource_type reference_node bucket path name options =
     \<lparr>url_type = resource_type, url_node = reference_node, url_bucket = bucket,
      url_path = (if path = [] then ''/'' else path), url_name = name, url_options = options\<rparr>"

definition IsReference :: "ResourceURL \<Rightarrow> bool" where
  "IsReference u = (url_type u = [])"

definition url_Type :: "ResourceURL \<Rightarrow> string" where
  "url_Type u = (if IsReference u then ''ref'' else url_type u)"

definition IsRootLevel :: "ResourceURL \<Rightarrow> bool" where
  "IsRootLevel u = (url_path u = ''/'')"

definition IsRoot :: "ResourceURL \<Rightarrow> bool" where
  "IsRoot u = (url_path u = ''/'' \<and> url_name u = [])"

definition url_Valid :: "ResourceURL \<Rightarrow> bool" where
  "url_Valid u = ((url_path u \<noteq> [] \<and> url_name u \<noteq> []) \<or> IsRoot u)"

definition IsFullURL :: "ResourceURL \<Rightarrow> bool" where
  "IsFullURL u = (url_Valid u \<and> Bucket_Valid (url_bucket u) \<and> url_node u \<noteq> 0)"

definition url_IsEmpty :: "ResourceURL \<Rightarrow> bool" where
  "url_IsEmpty u = (url_node u = NODE_UNSPECIFIED \<and> url_bucket u = BUCKET_UNSPECIFIED \<and>
     url_path u = [] \<and> url_name u = [] \<and> url_options u = [])"

definition url_less :: "ResourceURL \<Rightarrow> ResourceURL \<Rightarrow> bool" where
  "url_less u x = (if url_bucket u < url_bucket x then True
     else if url_path u < url_path x then True else url_name u < url_name x)"

definition url_eq :: "ResourceURL \<Rightarrow> ResourceURL \<Rightarrow> bool" where
  "url_eq u x = (url_bucket u = url_bucket x \<and> url_path u = url_path x \<and> url_name u = url_name x)"

section \<open>Options\<close>

definition url_ops :: "string \<Rightarrow> string list" where
  "url_ops opts = Split opts CHR ''&'' True"

definition op_matches :: "string \<Rightarrow> string \<Rightarrow> bool" where
  "op_matches sname full_op = (take (length sname) full_op = sname)"

fun replace_first_op :: "string \<Rightarrow> string \<Rightarrow> string list \<Rightarrow> string list \<times> bool" where
  "replace_first_op sname new_option [] = ([], False)"
| "replace_first_op sname new_option (op1 # ops) =
     (if op_matches sname op1 then (new_option # ops, True)
      else let (ops', found) = replace_first_op sname new_option ops in (op1 # ops', found))"

definition SetOption :: "string \<Rightarrow> string \<Rightarrow> ResourceURL \<Rightarrow> ResourceURL" where
  "SetOption option_name val u =
     (let new_option = option_name @ ''='' @ val in
      if url_options u = [] then u\<lparr>url_options := new_option\<rparr>
      else let (ops, found) = replace_first_op (option_name @ ''='') new_option (url_ops (url_options u))
           in u\<lparr>url_options := Join (if found then ops else ops @ [new_option]) CHR ''&''\<rparr>)"

definition GetOption :: "string \<Rightarrow> string \<Rightarrow> ResourceURL \<Rightarrow> string" where
  "GetOption option_name default_value u =
     (let sname = option_name @ ''='' in
      case find (op_matches sname) (url_ops (url_options u)) of
        Some full_op \<Rightarrow> drop (length sname) full_op | None \<Rightarrow> default_value)"

definition GetSortedOptions :: "ResourceURL \<Rightarrow> string" where
  "GetSortedOptions u = Join (sort (url_ops (url_options u))) CHR ''&''"

text \<open>The pair is built from the first two pieces around equal signs: an option without a value reads past
  the end of the vector.\<close>
definition GetOptions :: "ResourceURL \<Rightarrow> (string \<times> string) list result" where
  "GetOptions u = rmap_list (\<lambda>full_op. case Split full_op CHR ''='' True of
     k # v # _ \<Rightarrow> Inr (k, v) | _ \<Rightarrow> Inl Undefined_behaviour) (url_ops (url_options u))"

definition RemoveOption :: "string \<Rightarrow> ResourceURL \<Rightarrow> string \<times> ResourceURL" where
  "RemoveOption option_name u =
     (let sname = option_name @ ''='';
          ops = url_ops (url_options u);
          removed = filter (op_matches sname) ops
      in (if removed = [] then [] else drop (length sname) (last removed),
          u\<lparr>url_options := Join (filter (\<lambda>full_op. \<not> op_matches sname full_op) ops) CHR ''&''\<rparr>))"

section \<open>Printing\<close>

definition GetURL :: "bool \<Rightarrow> bool \<Rightarrow> bool \<Rightarrow> bool \<Rightarrow> ResourceURL \<Rightarrow> string" where
  "GetURL include_type include_node include_bucket include_options u =
     (if include_type then (if url_type u = [] then ''ref'' else url_type u) @ '':'' else []) @
     (if include_node then ''<'' @ GetHex (url_node u) @ ''>'' else []) @
     (if include_bucket then ''['' @ Bucket_GetHex (url_bucket u) @ '']'' else []) @
     (if url_path u \<noteq> ''/'' then url_path u else []) @
     ''/'' @ url_name u @
     (if include_options \<and> url_options u \<noteq> [] then ''&'' @ GetSortedOptions u else [])"

definition GetPathName :: "ResourceURL \<Rightarrow> string" where
  "GetPathName = GetURL False False False False"

definition GetBucketPathName :: "ResourceURL \<Rightarrow> string" where
  "GetBucketPathName = GetURL False False True False"

definition GetFullURL :: "ResourceURL \<Rightarrow> string" where
  "GetFullURL = GetURL True True True True"

definition Dashify :: "ResourceURL \<Rightarrow> string" where
  "Dashify u = map (\<lambda>c. if c = CHR ''/'' then CHR ''-'' else c) (GetPathName u)"

section \<open>Parsing\<close>

record url_parts =
  tmp_type :: string
  tmp_bucket :: string
  tmp_nodeid :: string
  tmp_path_and_name :: string
  tmp_options :: string

definition url_delims :: string where
  "url_delims = ''[]<>/:&''"

definition not_delim :: "char \<Rightarrow> bool" where
  "not_delim c = (c \<notin> set url_delims)"

text \<open>The while loop over the text from position \<^verbatim>\<open>i\<close> on; the first argument is \<^verbatim>\<open>i = 0\<close>.\<close>
function ParseURL_loop :: "bool \<Rightarrow> string \<Rightarrow> url_parts \<Rightarrow> url_parts result" where
  "ParseURL_loop at_start [] p = Inr p"
| "ParseURL_loop at_start (c # cs) p =
     (if c = CHR ''['' then
        (case dropWhile not_delim cs of
           d # rest \<Rightarrow> if d = CHR '']'' then ParseURL_loop False rest (p\<lparr>tmp_bucket := takeWhile not_delim cs\<rparr>)
             else Inl Invalid_argument
         | [] \<Rightarrow> Inl Invalid_argument)
      else if c = CHR ''<'' then
        (case break_at CHR ''>'' cs of
           Some (nodeid, rest) \<Rightarrow> ParseURL_loop False rest (p\<lparr>tmp_nodeid := nodeid\<rparr>)
         | None \<Rightarrow> Inl Invalid_argument)
      else if c = CHR ''/'' then
        ParseURL_loop False (dropWhile (\<lambda>x. x \<noteq> CHR ''&'') cs)
          (p\<lparr>tmp_path_and_name := c # takeWhile (\<lambda>x. x \<noteq> CHR ''&'') cs\<rparr>)
      else if c = CHR ''&'' then Inr (p\<lparr>tmp_options := cs\<rparr>)
      else if \<not> at_start then Inl Invalid_argument
      else if c = CHR '':'' then ParseURL_loop False cs (p\<lparr>tmp_type := []\<rparr>)
      else (case dropWhile not_delim (c # cs) of
           d # rest \<Rightarrow> if d = CHR '':'' then
               ParseURL_loop False rest (p\<lparr>tmp_type := ToLowercase (takeWhile not_delim (c # cs))\<rparr>)
             else Inl Invalid_argument
         | [] \<Rightarrow> Inl Invalid_argument))"
  by pat_completeness auto
termination
proof (relation "measure (\<lambda>(_, url, _). length url)", goal_cases)
  case (2 at_start c cs p d rest)
  then show ?case using length_dropWhile_le [of not_delim cs] by simp
next
  case (3 at_start c cs p a nodeid rest)
  then show ?case by (auto dest: break_at_length)
next
  case (4 at_start c cs p)
  then show ?case using length_dropWhile_le [of "\<lambda>x. x \<noteq> CHR ''&''" cs] by simp
next
  case (6 at_start c cs p d rest)
  then show ?case using length_dropWhile_le [of not_delim "c # cs"] by simp
qed simp_all

declare ParseURL_loop.simps [simp del]

text \<open>The text after the last slash is the name.  A root path has no name; one final slash is cut off.\<close>
definition split_path_name :: "string \<Rightarrow> string \<times> string" where
  "split_path_name path_and_name =
     (let pn = (if last path_and_name = CHR ''/'' then butlast path_and_name else path_and_name);
          name = rev (takeWhile (\<lambda>c. c \<noteq> CHR ''/'') (rev pn));
          path = take (length pn - length name - 1) pn
      in if CHR ''/'' \<notin> set pn then (''/'', pn)
         else (if path = [] then ''/'' else path, name))"

definition normalize_type :: "string \<Rightarrow> string" where
  "normalize_type t = (if t = ''ref'' then []
     else if t = ''local'' \<or> t = ''localkv'' \<or> t = ''lkv'' then ''local'' else t)"

definition parse_path_name :: "string \<Rightarrow> string \<Rightarrow> (string \<times> string) result" where
  "parse_path_name rtype path_and_name =
     (if path_and_name = [] then
        (if rtype = ''local'' \<or> rtype = ''null'' then Inr (''/'', []) else Inl Invalid_argument)
      else if path_and_name = ''/'' then Inr (''/'', [])
      else let (path, name) = split_path_name path_and_name in
        if hd path \<noteq> CHR ''/'' then Inl Invalid_argument
        else if name = [] \<and> rtype \<noteq> ''local'' \<and> rtype \<noteq> ''null'' \<and> rtype \<noteq> ''unconfigured''
          then Inl Invalid_argument
        else Inr (path, name))"

definition names_local :: "string \<Rightarrow> string \<Rightarrow> bool" where
  "names_local path name = (path = ''/local'' \<or> (path = ''/'' \<and> name = ''local'') \<or> StringBeginsWith path ''/local/'')"

text \<open>The result of a parse: type, bucket text, node text, path, name and options.\<close>
definition ParseURL :: "string \<Rightarrow> (string \<times> string \<times> string \<times> string \<times> string \<times> string) result" where
  "ParseURL url =
     rbind (ParseURL_loop True url \<lparr>tmp_type = [], tmp_bucket = [], tmp_nodeid = [],
       tmp_path_and_name = [], tmp_options = []\<rparr>) (\<lambda>p.
     let rtype = normalize_type (tmp_type p) in
     rbind (parse_path_name rtype (tmp_path_and_name p)) (\<lambda>(path, name).
     Inr (if rtype = [] \<and> names_local path name then ''local'' else rtype,
       tmp_bucket p, tmp_nodeid p, path, name, tmp_options p)))"

definition SetURL :: "string \<Rightarrow> ResourceURL \<Rightarrow> ResourceURL result" where
  "SetURL url u =
     rbind (ParseURL url) (\<lambda>(rtype, bucket, nodeid, path, name, options).
     rbind (if bucket = [] then Inr (url_bucket u) else Bucket bucket) (\<lambda>b.
     rbind (if nodeid = [] then Inr (url_node u) else NodeID_hex nodeid) (\<lambda>n.
     Inr \<lparr>url_type = rtype, url_node = n, url_bucket = b, url_path = path, url_name = name,
          url_options = options\<rparr>)))"

text \<open>The constructor is the same parse on a url with no node and no bucket.\<close>
definition ResourceURL_ctor :: "string \<Rightarrow> ResourceURL result" where
  "ResourceURL_ctor url = SetURL url \<lparr>url_type = [], url_node = NODE_UNSPECIFIED,
     url_bucket = BUCKET_UNSPECIFIED, url_path = [], url_name = [], url_options = []\<rparr>"

section \<open>Walking along the path\<close>

definition PushDir :: "string \<Rightarrow> ResourceURL \<Rightarrow> ResourceURL result" where
  "PushDir next_dir u =
     (if next_dir = [] then Inr u
      else let ss = (if url_path u \<noteq> ''/'' then url_path u else []) @ ''/'' @ url_name u @
                    (if hd next_dir \<noteq> CHR ''/'' then ''/'' else []) @ next_dir;
               all_parts = SplitPath ss
           in rbind (JoinPath all_parts (int (length all_parts) - 1)) (\<lambda>path.
              Inr (u\<lparr>url_path := path, url_name := last all_parts\<rparr>)))"

definition PopDir :: "ResourceURL \<Rightarrow> (string \<times> ResourceURL) result" where
  "PopDir u =
     (if url_path u = ''/'' then Inr (url_name u, u\<lparr>url_name := []\<rparr>)
      else let all_parts = SplitPath (url_path u) in
        (case all_parts of
           [] \<Rightarrow> Inr (url_name u, u\<lparr>url_path := ''/'', url_name := []\<rparr>)
         | [part] \<Rightarrow> Inr (url_name u, u\<lparr>url_path := ''/'', url_name := part\<rparr>)
         | _ \<Rightarrow> rbind (JoinPath all_parts (int (length all_parts) - 1)) (\<lambda>path.
             Inr (url_name u, u\<lparr>url_path := path, url_name := last all_parts\<rparr>))))"

definition GetLineageReference :: "int \<Rightarrow> bucket_t \<Rightarrow> nodeid_t \<Rightarrow> ResourceURL \<Rightarrow> ResourceURL result" where
  "GetLineageReference steps_back default_bucket default_node u =
     (let new_bucket = (if default_bucket = BUCKET_UNSPECIFIED then url_bucket u else default_bucket);
          new_node = (if default_node = NODE_UNSPECIFIED then url_node u else default_node);
          path_parts = SplitPath (url_path u)
      in rbind (if steps_back \<le> 0 then Inr (url_path u, url_name u)
                else if nat steps_back \<ge> length path_parts then
                  Inr (''/'', if path_parts = [] then url_name u else path_parts ! 0)
                else rbind (JoinPath path_parts (int (length path_parts) - steps_back)) (\<lambda>new_path.
                  Inr (new_path, path_parts ! (length path_parts - nat steps_back))))
           (\<lambda>(new_path, new_name).
             Inr (ResourceURL_fields ''ref'' new_node new_bucket new_path new_name [])))"

definition GetParent :: "ResourceURL \<Rightarrow> ResourceURL result" where
  "GetParent = GetLineageReference 1 BUCKET_UNSPECIFIED NODE_UNSPECIFIED"

definition GetPathDepth :: "ResourceURL \<Rightarrow> nat" where
  "GetPathDepth u = length (filter (\<lambda>c. c = CHR ''/'') (drop 1 (url_path u)))"

section \<open>Printing and parsing\<close>

text \<open>What a url must satisfy for its text to mean itself: a type in lower case that is not one of the
  aliases, a path that starts with a slash, a name without slashes, no ampersand in either, and not the form
  that the parser turns into a local reference.\<close>
definition url_ok :: "ResourceURL \<Rightarrow> bool" where
  "url_ok u = (list_all not_delim (url_type u) \<and> ToLowercase (url_type u) = url_type u \<and>
     url_type u \<notin> {''ref'', ''localkv'', ''lkv''} \<and>
     (url_type u = [] \<longrightarrow> \<not> names_local (url_path u) (url_name u)) \<and>
     url_path u \<noteq> [] \<and> hd (url_path u) = CHR ''/'' \<and> CHR ''&'' \<notin> set (url_path u) \<and>
     CHR ''/'' \<notin> set (url_name u) \<and> CHR ''&'' \<notin> set (url_name u) \<and>
     (url_name u \<noteq> [] \<or> url_path u = ''/''))"

lemma xdigit_not_delim: "isxdigit c \<Longrightarrow> not_delim c"
proof -
  have "list_all (\<lambda>c. \<not> isxdigit c) url_delims" by code_simp
  then show "isxdigit c \<Longrightarrow> not_delim c" by (auto simp: list_all_iff not_delim_def)
qed

lemma hex_not_delim: "list_all not_delim (''0x'' @ hex_of_nat n)"
proof -
  have "list_all not_delim ''0x''" by code_simp
  moreover have "list_all not_delim (hex_of_nat n)"
    using hex_of_nat_xdigits [of n] by (rule list.pred_mono_strong) (rule xdigit_not_delim)
  ultimately show ?thesis by (simp only: list_all_append)
qed

lemma id_texts_not_delim: "list_all not_delim (GetHex n)" "list_all not_delim (Bucket_GetHex b)"
  using hex_not_delim by (simp_all add: GetHex_def Bucket_GetHex_def)

lemma takeWhile_all_then: "list_all P xs \<Longrightarrow> \<not> P d \<Longrightarrow> takeWhile P (xs @ d # ys) = xs \<and> dropWhile P (xs @ d # ys) = d # ys"
  by (induction xs) auto

lemma delim_facts:
  "not_delim c \<Longrightarrow> c \<noteq> CHR ''['' \<and> c \<noteq> CHR ''<'' \<and> c \<noteq> CHR ''/'' \<and> c \<noteq> CHR ''&'' \<and> c \<noteq> CHR '':''
     \<and> c \<noteq> CHR ''>''"
  "\<not> not_delim CHR '':''" "\<not> not_delim CHR '']''"
  by (auto simp: not_delim_def url_delims_def)

lemma loop_type:
  assumes "list_all not_delim t" and "t \<noteq> []"
  shows "ParseURL_loop True (t @ CHR '':'' # rest) p = ParseURL_loop False rest (p\<lparr>tmp_type := ToLowercase t\<rparr>)"
proof -
  obtain c cs where t: "t = c # cs" using assms(2) by (cases t) auto
  have "not_delim c" using assms(1) t by simp
  note c = delim_facts(1) [OF this]
  have "takeWhile not_delim (c # cs @ CHR '':'' # rest) = t" "dropWhile not_delim (c # cs @ CHR '':'' # rest) = CHR '':'' # rest"
    using takeWhile_all_then [OF assms(1) delim_facts(2), of rest] t by simp_all
  then show ?thesis using c by (simp add: t ParseURL_loop.simps(2) del: takeWhile.simps dropWhile.simps)
qed

lemma loop_node:
  assumes "CHR ''>'' \<notin> set n"
  shows "ParseURL_loop False (CHR ''<'' # n @ CHR ''>'' # rest) p = ParseURL_loop False rest (p\<lparr>tmp_nodeid := n\<rparr>)"
  using assms by (simp add: ParseURL_loop.simps(2))

lemma loop_bucket:
  assumes "list_all not_delim b"
  shows "ParseURL_loop at_start (CHR ''['' # b @ CHR '']'' # rest) p = ParseURL_loop False rest (p\<lparr>tmp_bucket := b\<rparr>)"
  using takeWhile_all_then [OF assms delim_facts(3), of rest] by (simp add: ParseURL_loop.simps(2))

lemma loop_path:
  assumes "CHR ''&'' \<notin> set w"
  shows "ParseURL_loop False (CHR ''/'' # w) p = Inr (p\<lparr>tmp_path_and_name := CHR ''/'' # w\<rparr>)"
    and "ParseURL_loop False (CHR ''/'' # w @ CHR ''&'' # opts) p =
      Inr (p\<lparr>tmp_path_and_name := CHR ''/'' # w, tmp_options := opts\<rparr>)"
proof -
  have all: "list_all (\<lambda>x. x \<noteq> CHR ''&'') w" using assms by (auto simp: list_all_iff)
  then have w: "takeWhile (\<lambda>x. x \<noteq> CHR ''&'') w = w" "dropWhile (\<lambda>x. x \<noteq> CHR ''&'') w = []"
    by (auto simp: list_all_iff)
  show "ParseURL_loop False (CHR ''/'' # w) p = Inr (p\<lparr>tmp_path_and_name := CHR ''/'' # w\<rparr>)"
    by (simp add: ParseURL_loop.simps w del: takeWhile_eq_all_conv dropWhile_eq_Nil_conv)
  show "ParseURL_loop False (CHR ''/'' # w @ CHR ''&'' # opts) p =
      Inr (p\<lparr>tmp_path_and_name := CHR ''/'' # w, tmp_options := opts\<rparr>)"
    using takeWhile_all_then [OF all, of "CHR ''&''" opts] by (simp add: ParseURL_loop.simps)
qed

lemma split_path_name_slash:
  assumes "CHR ''/'' \<notin> set name" and "name \<noteq> []"
  shows "split_path_name (q @ CHR ''/'' # name) = (if q = [] then ''/'' else q, name)"
proof -
  have "last (q @ CHR ''/'' # name) \<noteq> CHR ''/''" using assms by (metis last_appendR last_ConsR last_in_set list.distinct(1))
  moreover have "takeWhile (\<lambda>c. c \<noteq> CHR ''/'') (rev name @ CHR ''/'' # rev q) = rev name"
    using takeWhile_all_then [of "\<lambda>c. c \<noteq> CHR ''/''" "rev name" "CHR ''/''" "rev q"] assms(1)
    by (auto simp: list_all_iff)
  ultimately show ?thesis by (simp add: split_path_name_def Let_def)
qed

lemma GetPathName_shape:
  assumes "url_ok u"
  obtains w where "GetPathName u = CHR ''/'' # w" and "CHR ''&'' \<notin> set w"
proof (cases "url_path u = ''/''")
  case True
  then show ?thesis using assms that [of "url_name u"] by (simp add: GetPathName_def GetURL_def url_ok_def)
next
  case False
  obtain q where q: "url_path u = CHR ''/'' # q" using assms by (cases "url_path u") (auto simp: url_ok_def)
  then show ?thesis
    using assms False that [of "q @ CHR ''/'' # url_name u"] by (simp add: GetPathName_def GetURL_def url_ok_def)
qed

lemma parse_path_name_GetPathName:
  assumes "url_ok u"
  shows "parse_path_name rtype (GetPathName u) = Inr (url_path u, url_name u)"
proof (cases "url_path u = ''/'' \<and> url_name u = []")
  case True
  then show ?thesis by (simp add: parse_path_name_def GetPathName_def GetURL_def)
next
  case False
  then have name: "url_name u \<noteq> []" "CHR ''/'' \<notin> set (url_name u)" using assms by (auto simp: url_ok_def)
  define q where "q = (if url_path u \<noteq> ''/'' then url_path u else [])"
  have text_is: "GetPathName u = q @ CHR ''/'' # url_name u" by (simp add: GetPathName_def GetURL_def q_def)
  have "split_path_name (GetPathName u) = (url_path u, url_name u)"
    unfolding text_is split_path_name_slash [OF name(2,1)] using assms by (auto simp: q_def url_ok_def)
  moreover have "GetPathName u \<noteq> ''/''" "GetPathName u \<noteq> []" unfolding text_is using name(1) by (cases q, auto)+
  ultimately show ?thesis using assms name by (auto simp: parse_path_name_def url_ok_def)
qed

lemma GetFullURL_parts:
  "GetFullURL u = (if url_type u = [] then ''ref'' else url_type u) @ CHR '':'' # CHR ''<'' # GetHex (url_node u) @
     CHR ''>'' # CHR ''['' # Bucket_GetHex (url_bucket u) @ CHR '']'' # GetPathName u @
     (if url_options u \<noteq> [] then CHR ''&'' # GetSortedOptions u else [])"
  by (simp add: GetFullURL_def GetPathName_def GetURL_def)

lemma GetSortedOptions_none: "url_options u = [] \<Longrightarrow> GetSortedOptions u = []"
  by (simp add: GetSortedOptions_def url_ops_def Split_None)

lemma ParseURL_loop_GetFullURL:
  assumes "url_ok u"
  shows "ParseURL_loop True (GetFullURL u) p = Inr (p\<lparr>tmp_type := (if url_type u = [] then ''ref'' else url_type u),
    tmp_nodeid := GetHex (url_node u), tmp_bucket := Bucket_GetHex (url_bucket u),
    tmp_path_and_name := GetPathName u, tmp_options := (if url_options u = [] then tmp_options p else GetSortedOptions u)\<rparr>)"
proof -
  define t where "t = (if url_type u = [] then ''ref'' else url_type u)"
  have "list_all not_delim ''ref''" and "ToLowercase ''ref'' = ''ref''" by code_simp+
  then have t: "list_all not_delim t" "t \<noteq> []" "ToLowercase t = t" using assms by (auto simp: t_def url_ok_def)
  have node: "CHR ''>'' \<notin> set (GetHex (url_node u))"
    using id_texts_not_delim(1) [of "url_node u"] delim_facts(1) by (auto simp: list_all_iff)
  obtain w where w: "GetPathName u = CHR ''/'' # w" "CHR ''&'' \<notin> set w" using GetPathName_shape [OF assms] .
  show ?thesis
    unfolding GetFullURL_parts t_def [symmetric] loop_type [OF t(1,2)] loop_node [OF node]
      loop_bucket [OF id_texts_not_delim(2)] w(1)
    using loop_path [OF w(2)] by (simp add: t(3))
qed

lemma url_text_parses:
  assumes "url_ok u"
  shows "ResourceURL_ctor (GetFullURL u) = Inr (u\<lparr>url_options := GetSortedOptions u\<rparr>)"
proof -
  have "normalize_type (if url_type u = [] then ''ref'' else url_type u) = url_type u"
    using assms by (auto simp: normalize_type_def url_ok_def)
  moreover have plain: "\<not> (url_type u = [] \<and> names_local (url_path u) (url_name u))"
    using assms by (auto simp: url_ok_def)
  ultimately have "ParseURL (GetFullURL u) = Inr (url_type u, Bucket_GetHex (url_bucket u), GetHex (url_node u),
      url_path u, url_name u, GetSortedOptions u)"
    using GetSortedOptions_none [of u] plain
    by (cases "url_options u = []")
      (auto simp: ParseURL_def ParseURL_loop_GetFullURL [OF assms] parse_path_name_GetPathName [OF assms] rbind_def Let_def)
  moreover have "Bucket_GetHex (url_bucket u) \<noteq> []" "GetHex (url_node u) \<noteq> []"
    by (simp_all add: Bucket_GetHex_def GetHex_def)
  ultimately show ?thesis
    by (simp add: ResourceURL_ctor_def SetURL_def rbind_def Bucket_hex NodeID_hex_GetHex)
qed

lemma Join_list: "ts \<noteq> [] \<Longrightarrow> sep # Join ts sep = concat (map (\<lambda>t. sep # t) ts)"
  by (induction ts sep rule: Join.induct) auto

lemma url_ops_list:
  assumes "\<forall>t\<in>set ts. CHR ''&'' \<notin> set t" "CHR ''&'' # opts = concat (map (\<lambda>t. CHR ''&'' # t) ts)"
  shows "url_ops opts = filter (\<lambda>t. t \<noteq> []) ts"
proof -
  have ne: "ts \<noteq> []" using assms(2) by auto
  then have "opts = Join ts CHR ''&''" using Join_list [OF ne, of "CHR ''&''"] assms(2) by (metis list.inject)
  then show ?thesis using Split_Join [OF ne assms(1)] by (simp add: url_ops_def Split_remove_empty)
qed

text \<open>
  C32. Printing a resource url in full and parsing the text gives back the type, the node, the bucket, the path and
  the name, whatever the node and bucket numbers are.  Of the options, the pieces between ampersands, it
  gives back those that are not empty, all of them and sorted.  This holds for every url in canonical form: a type
  in lower case without delimiters that is not one of the words the parser treats as special (and that is there
  if the path names the local store), an absolute path, and a name, neither with an ampersand and the name
  without a slash; only the root has no name.
\<close>
theorem url_roundtrip:
  assumes "url_ok u" and "\<forall>t\<in>set ts. CHR ''&'' \<notin> set t"
    and "CHR ''&'' # url_options u = concat (map (\<lambda>t. CHR ''&'' # t) ts)"
  shows "\<exists>opts. ResourceURL_ctor (GetFullURL u) = Inr (u\<lparr>url_options := opts\<rparr>) \<and>
    (let kept = sort (filter (\<lambda>t. t \<noteq> []) ts) in
     if kept = [] then opts = [] else CHR ''&'' # opts = concat (map (\<lambda>t. CHR ''&'' # t) kept))"
proof -
  have "GetSortedOptions u = Join (sort (filter (\<lambda>t. t \<noteq> []) ts)) CHR ''&''"
    by (simp add: GetSortedOptions_def url_ops_list [OF assms(2,3)])
  then show ?thesis
    using url_text_parses [OF assms(1)] Join_list [of "sort (filter (\<lambda>t. t \<noteq> []) ts)" "CHR ''&''"] by (auto simp: Let_def)
qed

definition demo_url :: ResourceURL where
  "demo_url = \<lparr>url_type = ''dht'', url_node = 0x1F, url_bucket = 0xA2, url_path = ''/a'', url_name = ''b'',
     url_options = ''y=2&x=1''\<rparr>"

theorem url_roundtrip_witness:
  "url_ok demo_url \<and> GetFullURL demo_url = ''dht:<0x1f>[0xa2]/a/b&x=1&y=2'' \<and>
   ResourceURL_ctor (GetFullURL demo_url) = Inr (demo_url\<lparr>url_options := ''x=1&y=2''\<rparr>)"
proof -
  have "url_ok demo_url" "GetFullURL demo_url = ''dht:<0x1f>[0xa2]/a/b&x=1&y=2''"
    "sort (filter (\<lambda>t. t \<noteq> []) [''y=2'', ''x=1'']) = [''x=1'', ''y=2'']"
    by code_simp+
  then show ?thesis using url_roundtrip [of demo_url "[''y=2'', ''x=1'']"] by (simp add: demo_url_def Let_def)
qed

section \<open>Options as a map\<close>

definition op_piece :: "string \<Rightarrow> bool" where
  "op_piece t = (t \<noteq> [] \<and> CHR ''&'' \<notin> set t)"

lemma url_ops_pieces: "list_all op_piece (url_ops opts)"
  by (auto simp: url_ops_def list_all_iff op_piece_def Split_remove_empty dest: Split_sep_free)

lemma url_ops_Join: "list_all op_piece ts \<Longrightarrow> url_ops (Join ts CHR ''&'') = ts"
proof (cases "ts = []")
  case False
  assume "list_all op_piece ts"
  then have "Split (Join ts CHR ''&'') CHR ''&'' False = ts" and "filter (\<lambda>t. t \<noteq> []) ts = ts"
    using False by (auto simp: list_all_iff op_piece_def filter_id_conv intro: Split_Join)
  then show ?thesis by (simp add: url_ops_def Split_remove_empty)
qed (simp add: url_ops_def Split_None)

lemma replace_first_op_found:
  "find (op_matches s) ops = None \<Longrightarrow> replace_first_op s new ops = (ops, False)"
  "find (op_matches s) ops \<noteq> None \<Longrightarrow> snd (replace_first_op s new ops)"
  by (induction ops) (auto split: prod.splits)

lemma replace_first_op_pieces:
  "list_all P ops \<Longrightarrow> P new \<Longrightarrow> list_all P (fst (replace_first_op s new ops))"
  by (induction ops) (auto split: prod.splits)

lemma find_replace_first_op:
  "op_matches s new \<Longrightarrow> snd (replace_first_op s new ops) \<Longrightarrow>
     find (op_matches s) (fst (replace_first_op s new ops)) = Some new"
  "(\<And>t. op_matches s t \<Longrightarrow> \<not> op_matches s' t) \<Longrightarrow> op_matches s new \<Longrightarrow>
     find (op_matches s') (fst (replace_first_op s new ops)) = find (op_matches s') ops"
  by (induction ops) (auto split: prod.splits)

lemma find_append_new:
  "find P (ops @ [new]) = (case find P ops of Some t \<Rightarrow> Some t | None \<Rightarrow> if P new then Some new else None)"
  by (induction ops) auto

lemma find_filter_not:
  "find P (filter (\<lambda>t. \<not> P t) ops) = None"
  "(\<And>t. P t \<Longrightarrow> \<not> Q t) \<Longrightarrow> find Q (filter (\<lambda>t. \<not> P t) ops) = find Q ops"
  by (induction ops) auto

lemma op_matches_iff: "op_matches s t \<longleftrightarrow> (\<exists>r. t = s @ r)"
proof
  assume "op_matches s t"
  then have "t = s @ drop (length s) t" using append_take_drop_id [of "length s" t] by (simp add: op_matches_def)
  then show "\<exists>r. t = s @ r" ..
qed (auto simp: op_matches_def)

lemma op_matches_same [simp]: "op_matches s (s @ t)"
  by (simp add: op_matches_def)

lemma op_matches_other:
  assumes "CHR ''='' \<notin> set m" and "CHR ''='' \<notin> set n" and "m \<noteq> n" and "op_matches (n @ ''='') t"
  shows "\<not> op_matches (m @ ''='') t"
proof
  assume "op_matches (m @ ''='') t"
  then obtain r where r: "t = m @ CHR ''='' # r" by (auto simp: op_matches_iff)
  obtain r' where r': "t = n @ CHR ''='' # r'" using assms(4) by (auto simp: op_matches_iff)
  have "list_all (\<lambda>c. c \<noteq> CHR ''='') m" "list_all (\<lambda>c. c \<noteq> CHR ''='') n"
    using assms(1,2) by (auto simp: list_all_iff)
  note tw = takeWhile_all_then [OF this(1), of "CHR ''=''" r] takeWhile_all_then [OF this(2), of "CHR ''=''" r']
  have "m = n" using tw unfolding r [symmetric] r' [symmetric] by simp
  then show False using assms(3) by simp
qed

lemma url_ops_SetOption:
  assumes "CHR ''&'' \<notin> set n" and "CHR ''&'' \<notin> set v"
  shows "url_ops (url_options (SetOption n v u)) =
     (case replace_first_op (n @ ''='') (n @ ''='' @ v) (url_ops (url_options u)) of
        (ops, found) \<Rightarrow> if found then ops else ops @ [n @ ''='' @ v])"
proof -
  have new: "op_piece (n @ ''='' @ v)" using assms by (auto simp: op_piece_def)
  have one: "url_ops (n @ ''='' @ v) = [n @ ''='' @ v]" using url_ops_Join [of "[n @ ''='' @ v]"] new by simp
  obtain ops found where r: "replace_first_op (n @ ''='') (n @ ''='' @ v) (url_ops (url_options u)) = (ops, found)"
    by fastforce
  have "list_all op_piece ops"
    using replace_first_op_pieces [OF url_ops_pieces new, of "n @ ''=''" "url_options u"] r by simp
  then have "url_ops (Join (if found then ops else ops @ [n @ ''='' @ v]) CHR ''&'') =
      (if found then ops else ops @ [n @ ''='' @ v])"
    using new by (intro url_ops_Join) auto
  moreover have "url_options u = [] \<Longrightarrow> ops = [] \<and> \<not> found" using r by (auto simp: url_ops_def Split_None)
  ultimately show ?thesis using r one
    by (cases "url_options u = []"; cases found) (simp_all add: SetOption_def Let_def)
qed

text \<open>
  The option string behaves as a map from option names to values: reading an option after setting it
  gives the value, setting or removing an option leaves every other option as it was, and a removed option
  reads as the default, whatever the string held before, duplicates and empty entries included.
\<close>
theorem url_options_map:
  assumes "CHR ''&'' \<notin> set n" and "CHR ''&'' \<notin> set v" and "CHR ''='' \<notin> set n" and "CHR ''='' \<notin> set m"
  shows "GetOption m d (SetOption n v u) = (if m = n then v else GetOption m d u) \<and>
    GetOption m d (snd (RemoveOption n u)) = (if m = n then d else GetOption m d u)"
proof
  let ?ops = "url_ops (url_options u)" and ?s = "n @ ''=''" and ?new = "n @ ''='' @ v"
  have new: "op_matches ?s ?new" using op_matches_same [of ?s v] by simp
  have other: "op_matches ?s t \<Longrightarrow> \<not> op_matches (m @ ''='') t" if "m \<noteq> n" for t
    by (rule op_matches_other [OF assms(4,3) that])
  define ops' where "ops' = url_ops (url_options (SetOption n v u))"
  have set_ops: "ops' = (if find (op_matches ?s) ?ops = None then ?ops @ [?new] else fst (replace_first_op ?s ?new ?ops))"
    using replace_first_op_found [of ?s ?ops ?new] url_ops_SetOption [OF assms(1,2), of u]
    by (cases "find (op_matches ?s) ?ops = None") (auto simp: ops'_def split_beta)
  have "find (op_matches (m @ ''='')) ops' = (if m = n then Some ?new else find (op_matches (m @ ''='')) ?ops)"
  proof (cases "m = n")
    case True
    then show ?thesis
      using find_replace_first_op(1) [OF new, of ?ops] replace_first_op_found(2) [of ?s ?ops ?new] new
      by (simp add: set_ops find_append_new)
  next
    case False
    then show ?thesis
      using find_replace_first_op(2) [OF other [OF False] new, of ?ops] other [OF False new]
      by (simp add: set_ops find_append_new split: option.splits)
  qed
  then show "GetOption m d (SetOption n v u) = (if m = n then v else GetOption m d u)"
    unfolding GetOption_def Let_def ops'_def [symmetric] by simp
  have kept: "url_ops (url_options (snd (RemoveOption n u))) = filter (\<lambda>t. \<not> op_matches ?s t) ?ops"
    using url_ops_pieces [of "url_options u"]
    by (simp add: RemoveOption_def Let_def) (rule url_ops_Join, auto simp: list_all_iff)
  show "GetOption m d (snd (RemoveOption n u)) = (if m = n then d else GetOption m d u)"
  proof (cases "m = n")
    case True
    then show ?thesis by (simp add: GetOption_def kept find_filter_not(1))
  next
    case False
    then show ?thesis using find_filter_not(2) [where P = "op_matches ?s" and Q = "op_matches (m @ ''='')", OF other [OF False]]
      by (simp add: GetOption_def kept)
  qed
qed

theorem url_options_map_witness:
  "GetOption ''x'' ''0'' (SetOption ''y'' ''7'' demo_url) = ''1'' \<and>
   GetOption ''y'' ''0'' (SetOption ''y'' ''7'' demo_url) = ''7'' \<and>
   GetOption ''y'' ''0'' (snd (RemoveOption ''y'' demo_url)) = ''0''"
proof -
  have "GetOption ''x'' ''0'' demo_url = ''1''" by code_simp
  then show ?thesis
    using url_options_map [of "''y''" "''7''" "''x''" "''0''" demo_url]
      url_options_map [of "''y''" "''7''" "''y''" "''0''" demo_url] by simp
qed

section \<open>The path as a list of names\<close>

definition plain_part :: "string \<Rightarrow> bool" where
  "plain_part v = (v \<noteq> [] \<and> CHR ''/'' \<notin> set v)"

definition dir_path :: "string list \<Rightarrow> string" where
  "dir_path ps = (if ps = [] then ''/'' else concat (map (\<lambda>v. CHR ''/'' # v) ps))"

lemma SplitPath_plain: "list_all plain_part ps \<Longrightarrow> SplitPath (concat (map (\<lambda>v. CHR ''/'' # v) ps)) = ps"
  by (rule SplitPath_pieces) (auto simp: list_all_iff plain_part_def)

lemma dir_path_not_root: "list_all plain_part ps \<Longrightarrow> ps \<noteq> [] \<Longrightarrow> dir_path ps \<noteq> ''/''"
  by (cases ps) (auto simp: dir_path_def plain_part_def)

lemma dir_path_append:
  "(if dir_path ps \<noteq> ''/'' then dir_path ps else []) @ CHR ''/'' # n = dir_path (ps @ [n])" if "list_all plain_part ps"
  using that dir_path_not_root [OF that] by (cases "ps = []") (simp_all add: dir_path_def)

lemma JoinPath_butlast: "ps \<noteq> [] \<Longrightarrow> JoinPath (ps @ [d]) (int (length (ps @ [d])) - 1) = Inr (dir_path ps)"
  by (simp add: JoinPath_def dir_path_def)

text \<open>
  Descending into a directory and coming back is the identity: for a url with at least one name,
  pushing a plain name appends it to the path text, popping returns that name and restores the url, and the
  parent of the pushed url names the same resource as the original one.
\<close>
theorem url_push_pop:
  assumes "list_all plain_part (ps @ [n, d])" and "url_path u = dir_path ps" and "url_name u = n"
  shows "case PushDir d u of Inl e \<Rightarrow> False
    | Inr u' \<Rightarrow> GetPathName u' = GetPathName u @ ''/'' @ d \<and> PopDir u' = Inr (d, u) \<and>
        (case GetParent u' of Inl e \<Rightarrow> False | Inr r \<Rightarrow> url_eq r u)"
proof -
  have parts: "list_all plain_part ps" "plain_part n" "plain_part d" using assms(1) by simp_all
  have d: "d \<noteq> []" "hd d \<noteq> CHR ''/''" using parts(3) by (cases d; auto simp: plain_part_def)+
  have full: "SplitPath (dir_path (ps @ [n, d])) = ps @ [n, d]"
    using SplitPath_plain [OF assms(1)] by (simp add: dir_path_def)
  have up: "SplitPath (dir_path (ps @ [n])) = ps @ [n]"
    using SplitPath_plain [of "ps @ [n]"] parts by (simp add: dir_path_def)
  have deep: "dir_path (ps @ [n]) \<noteq> ''/''" using dir_path_not_root [of "ps @ [n]"] parts by simp
  define u' where "u' = u\<lparr>url_path := dir_path (ps @ [n]), url_name := d\<rparr>"
  have "((if url_path u \<noteq> ''/'' then url_path u else []) @ CHR ''/'' # n) @ CHR ''/'' # d = dir_path (ps @ [n, d])"
    unfolding assms(2) dir_path_append [OF parts(1)] by (simp add: dir_path_def)
  then have text_is: "(if url_path u \<noteq> ''/'' then url_path u else []) @ CHR ''/'' # n @ CHR ''/'' # d = dir_path (ps @ [n, d])"
    by simp
  have push: "PushDir d u = Inr u'"
    using text_is full d JoinPath_butlast [of "ps @ [n]" d] assms(3)
    by (simp add: PushDir_def Let_def rbind_def u'_def)
  have "GetPathName u' = GetPathName u @ ''/'' @ d"
    using dir_path_append [OF parts(1), of n] deep assms(2,3)
    by (cases "dir_path ps = ''/''") (simp_all add: GetPathName_def GetURL_def u'_def)
  moreover have "PopDir u' = Inr (d, u)"
    using up deep JoinPath_butlast [of ps n] assms(2,3)
    by (cases ps) (simp_all add: PopDir_def Let_def u'_def rbind_def dir_path_def split: list.split)
  moreover have "case GetParent u' of Inl e \<Rightarrow> False | Inr r \<Rightarrow> url_eq r u"
    using up JoinPath_butlast [of ps n] assms(2,3)
    by (cases "ps = []") (simp_all add: GetParent_def GetLineageReference_def u'_def rbind_def url_eq_def
        ResourceURL_fields_def dir_path_def BUCKET_UNSPECIFIED_def)
  ultimately show ?thesis by (simp add: push)
qed

theorem url_push_pop_witness:
  "list_all plain_part ([''a''] @ [''b'', ''c'']) \<and> (case PushDir ''c'' demo_url of Inl e \<Rightarrow> False
     | Inr u' \<Rightarrow> GetPathName u' = ''/a/b/c'' \<and> PopDir u' = Inr (''c'', demo_url))"
proof -
  have "list_all plain_part ([''a''] @ [''b'', ''c''])" "url_path demo_url = dir_path [''a'']"
    "url_name demo_url = ''b''" "GetPathName demo_url = ''/a/b''" by code_simp+
  then show ?thesis using url_push_pop [of "[''a'']" "''b''" "''c''" demo_url] by (auto split: sum.splits)
qed

end
