(* ===== verification/Directory_Info.thy ===== *)
theory Directory_Info
  imports Resource_URL
begin

text \<open>
  Directory entries (\<^verbatim>\<open>faodel-common/DirectoryInfo.cpp\<close>, \<^verbatim>\<open>DirectoryInfo.hh\<close>): a url, a description, the
  minimum number of members and the list of members, each a name and a node.
\<close>

section \<open>Entries\<close>

record DirectoryInfo =
  di_url :: ResourceURL
  di_info :: string
  min_members :: u32
  members :: "NameAndNode list"

definition DirectoryInfo_empty :: DirectoryInfo where
  "DirectoryInfo_empty = \<lparr>di_url = \<lparr>url_type = [], url_node = NODE_UNSPECIFIED, url_bucket = BUCKET_UNSPECIFIED,
     url_path = [], url_name = [], url_options = []\<rparr>, di_info = [], min_members = 0, members = []\<rparr>"

text \<open>Reading the members from options \<^verbatim>\<open>ag0\<close>, \<^verbatim>\<open>ag1\<close>, ...: the number is decimal.\<close>
fun read_members :: "nat list \<Rightarrow> ResourceURL \<Rightarrow> NameAndNode list \<Rightarrow> (NameAndNode list \<times> ResourceURL) result" where
  "read_members [] url ms = Inr (ms, url)"
| "read_members (i # is) url ms =
     (let name = ''ag'' @ dec_of_nat i; s_node = GetOption name [] url in
      if s_node = [] then read_members is url ms
      else rbind (NodeID_hex s_node) (\<lambda>node.
        read_members is (snd (RemoveOption name url)) (ms @ [\<lparr>nn_name = name, nn_node = node\<rparr>])))"

text \<open>A minimum or a member count that does not parse gives a warning and is left out.\<close>
definition DirectoryInfo_ctor :: "bool \<Rightarrow> ResourceURL \<Rightarrow> DirectoryInfo result" where
  "DirectoryInfo_ctor errno_is_erange new_url =
     (let inf = ExpandPunycode (GetOption ''info'' [] new_url);
          url1 = snd (RemoveOption ''info'' new_url);
          s_min_members = GetOption ''min_members'' [] url1;
          url2 = snd (RemoveOption ''min_members'' url1)
      in rbind (if s_min_members = [] then Inr 0
                else rbind (StringToUInt32 errno_is_erange s_min_members)
                  (\<lambda>r. Inr (case r of Some v \<Rightarrow> v | None \<Rightarrow> 0))) (\<lambda>minm.
         let s = GetOption ''num'' [] url2 in
         if s = [] then Inr \<lparr>di_url = url2, di_info = inf, min_members = minm, members = []\<rparr>
         else let url3 = snd (RemoveOption ''num'' url2) in
           rbind (StringToInt64 s) (\<lambda>r. case r of
             None \<Rightarrow> Inr \<lparr>di_url = url3, di_info = inf, min_members = minm, members = []\<rparr>
           | Some num_members \<Rightarrow> rbind (read_members [0..<nat num_members] url3 []) (\<lambda>(ms, url4).
               Inr \<lparr>di_url = url4, di_info = inf, min_members = minm, members = ms\<rparr>))))"

definition DirectoryInfo_str :: "bool \<Rightarrow> string \<Rightarrow> DirectoryInfo result" where
  "DirectoryInfo_str errno_is_erange s_url = rbind (ResourceURL_ctor s_url) (DirectoryInfo_ctor errno_is_erange)"

definition DirectoryInfo_str_info :: "string \<Rightarrow> string \<Rightarrow> DirectoryInfo result" where
  "DirectoryInfo_str_info s_url s_info = rbind (ResourceURL_ctor s_url) (\<lambda>url.
     Inr \<lparr>di_url = snd (RemoveOption ''info'' url), di_info = s_info, min_members = 0, members = []\<rparr>)"

definition di_IsEmpty :: "DirectoryInfo \<Rightarrow> bool" where
  "di_IsEmpty d = (url_IsEmpty (di_url d) \<and> di_info d = [] \<and> min_members d = 0 \<and> members d = [])"

definition MeetsMinimumSize :: "DirectoryInfo \<Rightarrow> bool" where
  "MeetsMinimumSize d = (length (members d) \<ge> unat (min_members d))"

text \<open>The returned flag is \<^verbatim>\<open>found\<close>; a missing child sets the output to the unspecified value.\<close>
definition GetChildReferenceNode :: "string \<Rightarrow> DirectoryInfo \<Rightarrow> bool \<times> nodeid_t" where
  "GetChildReferenceNode child_name d = (case find (\<lambda>m. nn_name m = child_name) (members d) of
     Some m \<Rightarrow> (True, nn_node m) | None \<Rightarrow> (False, NODE_UNSPECIFIED))"

definition GetChildNameByReferenceNode :: "nodeid_t \<Rightarrow> DirectoryInfo \<Rightarrow> bool \<times> string" where
  "GetChildNameByReferenceNode reference_node d = (case find (\<lambda>m. nn_node m = reference_node) (members d) of
     Some m \<Rightarrow> (True, nn_name m) | None \<Rightarrow> (False, []))"

definition ContainsNode :: "nodeid_t \<Rightarrow> DirectoryInfo \<Rightarrow> bool" where
  "ContainsNode node d = list_ex (\<lambda>m. nn_node m = node) (members d)"

section \<open>Joining and leaving\<close>

definition auto_name :: "nat \<Rightarrow> string" where
  "auto_name i = ''ag'' @ hex_of_nat i"

definition names_of :: "NameAndNode list \<Rightarrow> string set" where
  "names_of ms = nn_name ` set ms"

text \<open>The do-while loop that looks for an unused name, starting from the number of members.\<close>
function unused_name :: "NameAndNode list \<Rightarrow> nat \<Rightarrow> string" where
  "unused_name ms i = (if list_ex (\<lambda>m. nn_name m = auto_name i) ms then unused_name ms (Suc i) else auto_name i)"
  by pat_completeness auto

termination
proof (relation "measure (\<lambda>(ms, i). card {n \<in> names_of ms. \<exists>j\<ge>i. n = auto_name j})", goal_cases)
  case (2 ms i)
  let ?A = "\<lambda>i. {n \<in> names_of ms. \<exists>j\<ge>i. n = auto_name j}"
  have "auto_name i \<in> ?A i" using 2 by (force simp: names_of_def list_ex_iff)
  moreover have "auto_name i \<notin> ?A (Suc i)" by (auto simp: auto_name_def)
  moreover have "?A (Suc i) \<subseteq> ?A i" by (auto dest: Suc_leD)
  ultimately have "?A (Suc i) \<subset> ?A i" by blast
  moreover have "finite (?A i)" by (simp add: names_of_def)
  ultimately show ?case by (simp add: psubset_card_mono)
qed simp

declare unused_name.simps [simp del]

definition di_Join :: "nodeid_t \<Rightarrow> string \<Rightarrow> DirectoryInfo \<Rightarrow> bool \<times> DirectoryInfo" where
  "di_Join node reference_name d =
     (if reference_name \<noteq> [] \<and> list_ex (\<lambda>m. nn_name m = reference_name) (members d) then (False, d)
      else let new_name = (if reference_name \<noteq> [] then reference_name
             else unused_name (members d) (length (members d)))
           in (True, d\<lparr>members := members d @ [\<lparr>nn_name = new_name, nn_node = node\<rparr>]\<rparr>))"

fun erase_first :: "('a \<Rightarrow> bool) \<Rightarrow> 'a list \<Rightarrow> 'a list" where
  "erase_first P [] = []"
| "erase_first P (x # xs) = (if P x then xs else x # erase_first P xs)"

definition LeaveByNode :: "nodeid_t \<Rightarrow> DirectoryInfo \<Rightarrow> bool \<times> DirectoryInfo" where
  "LeaveByNode node d =
     (if node = NODE_UNSPECIFIED then (False, d)
      else (ContainsNode node d, d\<lparr>members := erase_first (\<lambda>m. nn_node m = node) (members d)\<rparr>))"

definition LeaveByName :: "string \<Rightarrow> DirectoryInfo \<Rightarrow> bool \<times> DirectoryInfo" where
  "LeaveByName name d =
     (if name = [] then (False, d)
      else (list_ex (\<lambda>m. nn_name m = name) (members d),
            d\<lparr>members := erase_first (\<lambda>m. nn_name m = name) (members d)\<rparr>))"

definition di_Leave :: "ResourceURL \<Rightarrow> DirectoryInfo \<Rightarrow> bool \<times> DirectoryInfo" where
  "di_Leave child_url d = (case LeaveByName (url_name child_url) d of
     (found, d') \<Rightarrow> if found then (True, d') else LeaveByNode (url_node child_url) d')"

definition di_to_string :: "DirectoryInfo \<Rightarrow> string" where
  "di_to_string d = GetFullURL (di_url d) @ ''&info='' @ di_info d @ ''&min_members='' @ dec_of_nat (unat (min_members d)) @
     ''&num='' @ dec_of_nat (length (members d)) @
     concat (map (\<lambda>m. ''&'' @ nn_name m @ ''='' @ GetHex (nn_node m)) (members d))"

section \<open>Members have different names\<close>

definition members_wf :: "DirectoryInfo \<Rightarrow> bool" where
  "members_wf d = (distinct (map nn_name (members d)) \<and> [] \<notin> names_of (members d))"

lemma unused_name_fresh: "unused_name ms i \<notin> names_of ms \<and> (\<exists>j. unused_name ms i = auto_name j)"
proof (induction ms i rule: unused_name.induct)
  case (1 ms i)
  then show ?case by (subst (1 2) unused_name.simps) (auto simp: names_of_def list_ex_iff)
qed

lemma erase_first_new:
  "list_all (\<lambda>x. \<not> P x) xs \<Longrightarrow> P y \<Longrightarrow> erase_first P (xs @ [y]) = xs"
  by (induction xs) auto

lemma set_erase_first: "set (erase_first P xs) \<subseteq> set xs"
  by (induction xs) auto

lemma set_erase_first_other: "\<not> P x \<Longrightarrow> x \<in> set xs \<Longrightarrow> x \<in> set (erase_first P xs)"
  by (induction xs) auto

lemma erase_first_split:
  "x \<in> set xs \<Longrightarrow> P x \<Longrightarrow> \<exists>pre y post. xs = pre @ y # post \<and> P y \<and> (\<forall>z\<in>set pre. \<not> P z) \<and> erase_first P xs = pre @ post"
proof (induction xs)
  case (Cons a xs)
  show ?case
  proof (cases "P a")
    case True
    then show ?thesis by (auto intro: exI [of _ "[]"])
  next
    case False
    then obtain pre y post where "xs = pre @ y # post" "P y" "\<forall>z\<in>set pre. \<not> P z" "erase_first P xs = pre @ post"
      using Cons by auto
    then show ?thesis using False by (auto intro!: exI [of _ "a # pre"])
  qed
qed simp

lemma distinct_erase_first: "distinct (map f xs) \<Longrightarrow> distinct (map f (erase_first P xs))"
  by (induction xs) (use set_erase_first in fastforce)+

lemma members_wf_leave:
  assumes "members_wf d"
  shows "members_wf (snd (LeaveByName name d))" and "members_wf (snd (LeaveByNode node d))"
    and "members_wf (snd (di_Leave u d))"
proof -
  have erase: "members_wf (d\<lparr>members := erase_first P (members d)\<rparr>)" if "members_wf d" for P d
    using that set_erase_first [of P "members d"]
    by (auto simp: members_wf_def names_of_def intro: distinct_erase_first)
  show name: "members_wf (snd (LeaveByName name d))" for name using assms erase by (simp add: LeaveByName_def)
  have node: "members_wf (snd (LeaveByNode node d))" if "members_wf d" for node d
    using that erase by (simp add: LeaveByNode_def)
  show "members_wf (snd (LeaveByNode node d))" by (rule node [OF assms])
  show "members_wf (snd (di_Leave u d))"
    using name [of "url_name u"] node [OF name, of "url_node u" "url_name u"]
    by (auto simp: di_Leave_def split: prod.splits)
qed

lemma find_new:
  "list_all (\<lambda>x. \<not> P x) xs \<Longrightarrow> P y \<Longrightarrow> find P (xs @ [y]) = Some y"
  by (induction xs) auto

lemma fresh_name_all: "n \<notin> names_of ms \<longleftrightarrow> list_all (\<lambda>m. nn_name m \<noteq> n) ms"
  by (auto simp: names_of_def list_all_iff)

text \<open>
  Joining a directory keeps the names of its members distinct and non-empty.  A join under a name in use
  is refused and changes nothing; any other join, also one that asks for a generated name, appends one member
  under a fresh name, which is found by that name and whose leaving restores the directory.
\<close>
theorem directory_join_leave:
  assumes "members_wf d"
  shows "case di_Join node name d of (ok, d') \<Rightarrow>
    if name \<noteq> [] \<and> name \<in> names_of (members d) then \<not> ok \<and> d' = d
    else ok \<and> members_wf d' \<and> (\<exists>new. members d' = members d @ [\<lparr>nn_name = new, nn_node = node\<rparr>] \<and>
      (name = [] \<or> new = name) \<and> new \<notin> names_of (members d) \<and>
      GetChildReferenceNode new d' = (True, node) \<and> LeaveByName new d' = (True, d))"
proof (cases "name \<noteq> [] \<and> name \<in> names_of (members d)")
  case True
  then show ?thesis by (auto simp: di_Join_def names_of_def list_ex_iff image_iff)
next
  case False
  define new where "new = (if name \<noteq> [] then name else unused_name (members d) (length (members d)))"
  have fresh: "new \<notin> names_of (members d)" and ne: "new \<noteq> []"
    using False unused_name_fresh [of "members d" "length (members d)"] by (auto simp: new_def auto_name_def)
  define d' where "d' = d\<lparr>members := members d @ [\<lparr>nn_name = new, nn_node = node\<rparr>]\<rparr>"
  note all = fresh [unfolded fresh_name_all]
  have join: "di_Join node name d = (True, d')"
    using False by (auto simp: di_Join_def d'_def new_def names_of_def list_ex_iff image_iff)
  have "members_wf d'" using assms fresh ne by (auto simp: members_wf_def names_of_def d'_def)
  moreover have "GetChildReferenceNode new d' = (True, node)"
    using find_new [OF all, of "\<lparr>nn_name = new, nn_node = node\<rparr>"] by (simp add: GetChildReferenceNode_def d'_def)
  moreover have "LeaveByName new d' = (True, d)"
    using erase_first_new [OF all, of "\<lparr>nn_name = new, nn_node = node\<rparr>"] ne by (simp add: LeaveByName_def d'_def)
  moreover have "name = [] \<or> new = name" by (simp add: new_def)
  moreover have "members d' = members d @ [\<lparr>nn_name = new, nn_node = node\<rparr>]" by (simp add: d'_def)
  ultimately show ?thesis using fresh False unfolding join prod.case by auto
qed

definition demo_dir :: DirectoryInfo where
  "demo_dir = \<lparr>di_url = demo_url, di_info = ''tests'', min_members = 2,
     members = [\<lparr>nn_name = ''ag1'', nn_node = 17\<rparr>, \<lparr>nn_name = ''zed'', nn_node = 18\<rparr>]\<rparr>"

theorem directory_join_leave_witness:
  "members_wf demo_dir \<and> fst (di_Join 19 ''ag1'' demo_dir) = False \<and>
   members_wf (snd (di_Join 19 [] demo_dir))"
proof -
  have "members_wf demo_dir" "''ag1'' \<in> names_of (members demo_dir)" by code_simp+
  then show ?thesis
    using directory_join_leave [where d = demo_dir and node = 19 and name = "''ag1''"]
      directory_join_leave [where d = demo_dir and node = 19 and name = "[]"]
    by (simp add: split_beta)
qed

end
