(* ===== verification/Directory_Cache.thy ===== *)
theory Directory_Cache
  imports Directory_Info
begin

text \<open>
  The directory cache of DirMan (\<^verbatim>\<open>dirman/common/DirectoryCache.cpp\<close>): a map from the bucket and path text
  of a url to its directory entry, with creation, removal of subtrees, joining and lookup.  The map owns its
  entries, so an entry changed through a pointer is the map updated at its key.  The reader/writer lock is
  taken around each operation and is not part of the model.  An operation that can reach a failed assertion
  or a thrown exception returns a result.
\<close>

section \<open>State and lookup\<close>

type_synonym dircache = "(string, DirectoryInfo) omap"

definition auto_generate_option_label :: string where
  "auto_generate_option_label = ''ag''"

definition cache_lookup :: "ResourceURL \<Rightarrow> dircache \<Rightarrow> DirectoryInfo option result" where
  "cache_lookup url known = (if \<not> url_Valid url then Inl Assert_failed
     else Inr (om_get known (GetBucketPathName url)))"

text \<open>
  The root directory is not stored: its members are the root level entries of the bucket, in key order.  They are
  appended to the members of the structure that the caller passes in, whose other fields stay, too.
\<close>
definition cache_lookupRootDir :: "bucket_t \<Rightarrow> DirectoryInfo \<Rightarrow> dircache \<Rightarrow> DirectoryInfo option" where
  "cache_lookupRootDir bucket resource_info known =
     (let entries = filter (\<lambda>(k, d). IsRootLevel (di_url d) \<and> url_bucket (di_url d) = bucket) known
      in if entries = [] then None
         else Some (resource_info\<lparr>di_url := (di_url resource_info)\<lparr>url_bucket := bucket, url_path := ''/'', url_name := []\<rparr>,
           members := members resource_info @ map (\<lambda>(k, d). \<lparr>nn_name = url_name (di_url d), nn_node = url_node (di_url d)\<rparr>) entries\<rparr>))"

definition dc_Lookup :: "ResourceURL \<Rightarrow> DirectoryInfo \<Rightarrow> dircache \<Rightarrow> (bool \<times> DirectoryInfo) result" where
  "dc_Lookup search_url resource_info known =
     (if IsRoot search_url then (case cache_lookupRootDir (url_bucket search_url) resource_info known of
          Some d \<Rightarrow> Inr (True, d) | None \<Rightarrow> Inr (False, DirectoryInfo_empty))
      else rbind (cache_lookup search_url known) (\<lambda>r. case r of
          Some d \<Rightarrow> Inr (True, d) | None \<Rightarrow> Inr (False, DirectoryInfo_empty)))"

definition dc_Lookup_all :: "ResourceURL list \<Rightarrow> dircache \<Rightarrow> (bool \<times> DirectoryInfo list) result" where
  "dc_Lookup_all urls known = rbind (rmap_list (\<lambda>url. dc_Lookup url DirectoryInfo_empty known) urls) (\<lambda>rs.
     Inr (list_all fst rs, map snd rs))"

definition GetAllURLs :: "dircache \<Rightarrow> ResourceURL list" where
  "GetAllURLs known = map (\<lambda>(k, d). di_url d) known"

definition GetAllNames :: "dircache \<Rightarrow> string list" where
  "GetAllNames known = map fst known"

section \<open>Writing\<close>

definition cache_write :: "DirectoryInfo \<Rightarrow> bool \<Rightarrow> dircache \<Rightarrow> (bool \<times> dircache) result" where
  "cache_write resource_info overwrite_existing known =
     rbind (cache_lookup (di_url resource_info) known) (\<lambda>r.
       if r \<noteq> None \<and> \<not> overwrite_existing then Inr (False, known)
       else Inr (True, om_set (GetBucketPathName (di_url resource_info)) resource_info known))"

definition dc_write :: "DirectoryInfo \<Rightarrow> bool \<Rightarrow> dircache \<Rightarrow> (bool \<times> dircache) result" where
  "dc_write resource overwrite_existing known =
     (if \<not> url_Valid (di_url resource) then Inr (False, known)
      else cache_write resource overwrite_existing known)"

fun write_loop :: "DirectoryInfo list \<Rightarrow> bool \<Rightarrow> nat \<Rightarrow> dircache \<Rightarrow> (nat \<times> dircache) result" where
  "write_loop [] overwrite_existing count known = Inr (count, known)"
| "write_loop (ri # ris) overwrite_existing count known =
     (if url_Valid (di_url ri) then rbind (cache_write ri overwrite_existing known) (\<lambda>(ok, known').
        write_loop ris overwrite_existing (if ok then Suc count else count) known')
      else write_loop ris overwrite_existing count known)"

definition dc_write_all :: "DirectoryInfo list \<Rightarrow> bool \<Rightarrow> dircache \<Rightarrow> (bool \<times> nat \<times> dircache) result" where
  "dc_write_all resources overwrite_existing known =
     rbind (write_loop resources overwrite_existing 0 known) (\<lambda>(count, known').
       Inr (length resources = count, count, known'))"

definition dc_Create :: "DirectoryInfo \<Rightarrow> dircache \<Rightarrow> (bool \<times> dircache) result" where
  "dc_Create resource = dc_write resource False"

definition dc_Create_all :: "DirectoryInfo list \<Rightarrow> dircache \<Rightarrow> (bool \<times> nat \<times> dircache) result" where
  "dc_Create_all resources = dc_write_all resources False"

definition dc_Update :: "DirectoryInfo \<Rightarrow> dircache \<Rightarrow> (bool \<times> dircache) result" where
  "dc_Update resource = dc_write resource True"

definition dc_Update_all :: "DirectoryInfo list \<Rightarrow> dircache \<Rightarrow> (bool \<times> nat \<times> dircache) result" where
  "dc_Update_all resources = dc_write_all resources True"

definition url_depth :: "ResourceURL \<Rightarrow> nat" where
  "url_depth u = (if IsRootLevel u then 0 else Suc (length (SplitPath (url_path u))))"

lemma SplitPath_plain_parts: "list_all plain_part (SplitPath s)"
  by (auto simp: SplitPath_Split Split_remove_empty list_all_iff plain_part_def dest: Split_sep_free)

lemma GetParent_depth:
  assumes "\<not> IsRootLevel u" and "GetParent u = Inr p"
  shows "url_depth p < url_depth u"
proof -
  define parts where "parts = SplitPath (url_path u)"
  show ?thesis
  proof (cases "length parts \<le> 1")
    case True
    then have "url_path p = ''/''"
      using assms(2) by (auto simp: GetParent_def GetLineageReference_def Let_def rbind_def parts_def
          ResourceURL_fields_def split: if_splits)
    then show ?thesis using assms(1) by (simp add: url_depth_def IsRootLevel_def)
  next
    case False
    then have "url_path p = dir_path (butlast parts)"
      using assms(2) by (auto simp: GetParent_def GetLineageReference_def Let_def rbind_def parts_def
          ResourceURL_fields_def JoinPath_def dir_path_def butlast_conv_take nat_diff_distrib split: if_splits)
    moreover have "list_all plain_part (butlast parts)"
      using SplitPath_plain_parts [of "url_path u"] by (auto simp: parts_def list_all_iff dest: in_set_butlastD)
    moreover have "butlast parts \<noteq> []" using False by (auto simp flip: length_0_conv)
    ultimately have "SplitPath (url_path p) = butlast parts"
      using SplitPath_plain [of "butlast parts"] by (simp add: dir_path_def)
    then show ?thesis using assms(1) False by (auto simp: url_depth_def parts_def)
  qed
qed

text \<open>The walk up from a new entry.  The measure is the number of parts of the path: the parent of a url has
  fewer, or is at the root level.\<close>
function link_parents :: "bool \<Rightarrow> ResourceURL \<Rightarrow> dircache \<Rightarrow> dircache result" where
  "link_parents errno_is_erange child_url known =
     (if IsRootLevel child_url then Inr known
      else case GetParent child_url of Inl e \<Rightarrow> Inl e
      | Inr parent_url \<Rightarrow>
          rbind (cache_lookup parent_url known) (\<lambda>found.
          rbind (case found of Some d \<Rightarrow> Inr d | None \<Rightarrow> DirectoryInfo_ctor errno_is_erange parent_url) (\<lambda>pdir.
          let known' = om_set (GetBucketPathName parent_url)
                (snd (di_Join (url_node child_url) (url_name child_url) pdir)) known
          in if found \<noteq> None then Inr known' else link_parents errno_is_erange parent_url known')))"
  by pat_completeness auto

termination by (relation "measure (\<lambda>(_, u, _). url_depth u)") (auto intro: GetParent_depth)

declare link_parents.simps [simp del]

definition CreateAndLinkParents :: "bool \<Rightarrow> DirectoryInfo \<Rightarrow> dircache \<Rightarrow> (bool \<times> dircache) result" where
  "CreateAndLinkParents errno_is_erange resource known =
     (if \<not> url_Valid (di_url resource) then Inr (False, known)
      else rbind (cache_write resource False known) (\<lambda>(ok, known').
        if \<not> ok then Inr (False, known')
        else rbind (link_parents errno_is_erange (di_url resource) known') (\<lambda>known''. Inr (True, known''))))"

section \<open>Removing\<close>

text \<open>The members of a removed entry are pushed on the work list in order; the last one is taken first.\<close>
definition removeSingleDir :: "ResourceURL \<Rightarrow> dircache \<Rightarrow> (ResourceURL list \<times> dircache) result" where
  "removeSingleDir url known =
     (let key = GetBucketPathName url in
      case om_get known key of None \<Rightarrow> Inr ([], known)
      | Some r \<Rightarrow> rbind (rmap_list (\<lambda>m. ResourceURL_ctor (key @ ''/'' @ nn_name m))
            (filter (\<lambda>m. nn_name m \<noteq> []) (members r))) (\<lambda>urls. Inr (urls, om_del key known)))"

lemma removeSingleDir_shrinks:
  "removeSingleDir url known = Inr (urls, known') \<Longrightarrow>
     (urls = [] \<and> known' = known) \<or> length known' < length known"
proof -
  assume r: "removeSingleDir url known = Inr (urls, known')"
  show ?thesis
  proof (cases "om_get known (GetBucketPathName url)")
    case None
    then show ?thesis using r by (simp add: removeSingleDir_def)
  next
    case (Some d)
    then have "known' = om_del (GetBucketPathName url) known"
      using r by (auto simp: removeSingleDir_def Let_def rbind_def split: sum.splits)
    moreover have "(GetBucketPathName url, d) \<in> set known" using Some by (rule map_of_SomeD)
    then have "length (om_del (GetBucketPathName url) known) < length known"
      by (auto simp: om_del_def intro!: length_filter_less)
    ultimately show ?thesis by simp
  qed
qed

text \<open>The head of the list is the back of the vector \<^verbatim>\<open>remove_urls\<close>.\<close>
function remove_loop :: "ResourceURL list \<Rightarrow> dircache \<Rightarrow> dircache result" where
  "remove_loop [] known = Inr known"
| "remove_loop (url # remove_urls) known =
     (case removeSingleDir url known of Inl e \<Rightarrow> Inl e
      | Inr (urls, known') \<Rightarrow> remove_loop (rev urls @ remove_urls) known')"
  by pat_completeness auto

termination
  by (relation "measures [\<lambda>(_, known). length known, \<lambda>(urls, _). length urls]")
    (auto dest: removeSingleDir_shrinks)

declare remove_loop.simps(2) [simp del]

definition dc_Remove :: "ResourceURL \<Rightarrow> dircache \<Rightarrow> (bool \<times> dircache) result" where
  "dc_Remove dir_url known =
     rbind (cache_lookup dir_url known) (\<lambda>found.
     if found = None then Inr (False, known)
     else rbind (if url_path dir_url = ''/'' then Inr (True, known)
                 else rbind (GetParent dir_url) (\<lambda>parent_url.
                   rbind (cache_lookup parent_url known) (\<lambda>r. case r of
                     None \<Rightarrow> Inr (False, known)
                   | Some rp \<Rightarrow> Inr (True, om_set (GetBucketPathName parent_url)
                       (snd (LeaveByName (url_name dir_url) rp)) known))))
          (\<lambda>(found', known'). rbind (remove_loop [dir_url] known') (\<lambda>known''. Inr (found', known''))))"

section \<open>Joining and leaving\<close>

definition dc_Join :: "ResourceURL \<Rightarrow> dircache \<Rightarrow> (bool \<times> DirectoryInfo \<times> dircache) result" where
  "dc_Join child_url known =
     (let needs_autogen = (GetOption auto_generate_option_label [] child_url = ''1'') in
      rbind (if needs_autogen then Inr child_url else GetParent child_url) (\<lambda>parent.
      if \<not> needs_autogen \<and> IsRootLevel child_url then Inr (False, DirectoryInfo_empty, known)
      else rbind (cache_lookup parent known) (\<lambda>r. case r of
        None \<Rightarrow> Inr (False, DirectoryInfo_empty, known)
      | Some d \<Rightarrow> (case di_Join (url_node child_url) (if needs_autogen then [] else url_name child_url) d of
          (ok, d') \<Rightarrow> Inr (ok, if ok then d' else DirectoryInfo_empty, om_set (GetBucketPathName parent) d' known)))))"

definition dc_Leave :: "ResourceURL \<Rightarrow> dircache \<Rightarrow> (bool \<times> DirectoryInfo \<times> dircache) result" where
  "dc_Leave child_url known =
     rbind (GetParent child_url) (\<lambda>parent.
     if url_path child_url = ''/'' then Inr (False, DirectoryInfo_empty, known)
     else rbind (cache_lookup parent known) (\<lambda>r. case r of
       None \<Rightarrow> Inr (False, DirectoryInfo_empty, known)
     | Some d \<Rightarrow> (case di_Leave child_url d of (removed, d') \<Rightarrow>
         Inr (removed, d', om_set (GetBucketPathName parent) d' known))))"

section \<open>Keys as lists of names\<close>

text \<open>The cache is read as a map from a bucket and a non-empty list of names to entries: the key text of a
  url determines both.\<close>
definition dir_part :: "string \<Rightarrow> bool" where
  "dir_part v = (plain_part v \<and> CHR ''&'' \<notin> set v)"

definition good_parts :: "string list \<Rightarrow> bool" where
  "good_parts ps = (ps \<noteq> [] \<and> list_all dir_part ps)"

definition key_text :: "bucket_t \<Rightarrow> string list \<Rightarrow> string" where
  "key_text b ps = ''['' @ Bucket_GetHex b @ '']'' @ concat (map (\<lambda>v. CHR ''/'' # v) ps)"

definition dir_at :: "dircache \<Rightarrow> bucket_t \<Rightarrow> string list \<Rightarrow> DirectoryInfo option" where
  "dir_at known b ps = om_get known (key_text b ps)"

definition url_at :: "ResourceURL \<Rightarrow> bucket_t \<Rightarrow> string list \<Rightarrow> bool" where
  "url_at u b ps = (good_parts ps \<and> url_bucket u = b \<and> url_path u = dir_path (butlast ps) \<and> url_name u = last ps)"

lemma dir_part_plain: "list_all dir_part ps \<Longrightarrow> list_all plain_part ps"
  by (auto simp: list_all_iff dir_part_def)

lemma hex_no_bracket: "CHR '']'' \<notin> set (Bucket_GetHex x)"
proof
  assume "CHR '']'' \<in> set (Bucket_GetHex x)"
  then have "not_delim CHR '']''" using id_texts_not_delim(2) [of x] by (simp add: list_all_iff)
  then show False using delim_facts(3) by simp
qed

lemma key_text_break:
  "break_at CHR '']'' (tl (key_text x xs)) = Some (Bucket_GetHex x, concat (map (\<lambda>v. CHR ''/'' # v) xs))"
  using break_at_append [OF hex_no_bracket, of x "concat (map (\<lambda>v. CHR ''/'' # v) xs)"]
  unfolding key_text_def by simp

lemma key_text_inj:
  assumes "good_parts ps" and "good_parts qs"
  shows "key_text b ps = key_text c qs \<longleftrightarrow> b = c \<and> ps = qs"
proof
  assume eq: "key_text b ps = key_text c qs"
  have "Some (Bucket_GetHex b, concat (map (\<lambda>v. CHR ''/'' # v) ps)) =
      Some (Bucket_GetHex c, concat (map (\<lambda>v. CHR ''/'' # v) qs))"
    unfolding key_text_break [symmetric] eq ..
  then have b: "Bucket_GetHex b = Bucket_GetHex c"
    and p: "concat (map (\<lambda>v. CHR ''/'' # v) ps) = concat (map (\<lambda>v. CHR ''/'' # v) qs)" by simp_all
  have "Inr b = Bucket (Bucket_GetHex c)" unfolding b [symmetric] Bucket_hex ..
  then have "b = c" by (simp add: Bucket_hex)
  have "ps = SplitPath (concat (map (\<lambda>v. CHR ''/'' # v) qs))"
    unfolding p [symmetric] using assms(1) by (simp add: SplitPath_plain good_parts_def dir_part_plain)
  then have "ps = qs" using assms(2) by (simp add: SplitPath_plain good_parts_def dir_part_plain)
  with \<open>b = c\<close> show "b = c \<and> ps = qs" ..
qed simp

lemma url_at_key:
  assumes "url_at u b ps"
  shows "GetBucketPathName u = key_text b ps" and "url_Valid u" and "IsRootLevel u \<longleftrightarrow> length ps = 1"
proof -
  have ps: "ps = butlast ps @ [last ps]" and good: "list_all dir_part ps"
    using assms by (auto simp: url_at_def good_parts_def)
  have plain: "list_all plain_part (butlast ps)"
    using dir_part_plain [OF good] by (auto simp: list_all_iff dest: in_set_butlastD)
  have full: "(if dir_path (butlast ps) \<noteq> ''/'' then dir_path (butlast ps) else []) @ CHR ''/'' # last ps = dir_path ps"
    using dir_path_append [OF plain, of "last ps"] ps by simp
  show "GetBucketPathName u = key_text b ps"
    using assms full
    by (cases "dir_path (butlast ps) = ''/''")
      (simp_all add: GetBucketPathName_def GetURL_def key_text_def url_at_def dir_path_def [of ps] good_parts_def)
  have "last ps \<noteq> []" using assms good by (auto simp: url_at_def good_parts_def list_all_iff dir_part_def plain_part_def)
  moreover have "dir_path (butlast ps) \<noteq> []" by (cases "butlast ps") (auto simp: dir_path_def)
  ultimately show "url_Valid u" using assms by (simp add: url_Valid_def url_at_def)
  show "IsRootLevel u \<longleftrightarrow> length ps = 1"
  proof
    assume "IsRootLevel u"
    then have "butlast ps = []" using assms dir_path_not_root [OF plain] by (auto simp: IsRootLevel_def url_at_def)
    then show "length ps = 1" using ps by (metis append_Nil length_Cons length_0_conv One_nat_def)
  next
    assume "length ps = 1"
    then have "butlast ps = []" by (auto simp flip: length_0_conv)
    then show "IsRootLevel u" using assms by (simp add: IsRootLevel_def url_at_def dir_path_def)
  qed
qed

lemma url_at_parent:
  assumes "url_at u b ps" and "length ps \<noteq> 1"
  obtains p where "GetParent u = Inr p" and "url_at p b (butlast ps)" and "url_options p = []"
proof -
  have "length ps > 1" using assms by (cases ps) (auto simp: url_at_def good_parts_def)
  then have ne: "butlast ps \<noteq> []" by (auto simp flip: length_0_conv)
  then obtain qs q where qs: "butlast ps = qs @ [q]" by (metis rev_exhaust)
  have plain: "list_all plain_part (butlast ps)" and good: "good_parts (butlast ps)"
    using assms(1) ne dir_part_plain by (auto simp: url_at_def good_parts_def list_all_iff dest: in_set_butlastD)
  have split: "SplitPath (url_path u) = qs @ [q]"
    using assms(1) SplitPath_plain [OF plain] ne by (simp add: url_at_def dir_path_def qs)
  have parent: "GetParent u = Inr (ResourceURL_fields ''ref'' (url_node u) b (dir_path qs) q [])"
    using assms(1) split JoinPath_butlast [of qs q]
    by (cases "qs = []") (simp_all add: GetParent_def GetLineageReference_def rbind_def url_at_def dir_path_def
        BUCKET_UNSPECIFIED_def NODE_UNSPECIFIED_def)
  have "dir_path qs \<noteq> []" by (cases qs) (auto simp: dir_path_def)
  then show ?thesis using that [OF parent] good by (simp add: url_at_def ResourceURL_fields_def qs)
qed

lemma DirectoryInfo_ctor_plain:
  assumes "url_options p = []"
  shows "DirectoryInfo_ctor e p = Inr \<lparr>di_url = p, di_info = [], min_members = 0, members = []\<rparr>"
proof -
  have "snd (RemoveOption n p) = p" "GetOption n [] p = []" for n
    using assms by (simp_all add: RemoveOption_def GetOption_def url_ops_def Split_None)
  moreover have "ExpandPunycode [] = []" by code_simp
  ultimately show ?thesis by (simp add: DirectoryInfo_ctor_def rbind_def)
qed

section \<open>Every entry is a member of its parent\<close>

definition members_plain :: "DirectoryInfo \<Rightarrow> bool" where
  "members_plain d = list_all (\<lambda>m. dir_part (nn_name m)) (members d)"

definition cache_wf :: "dircache \<Rightarrow> bool" where
  "cache_wf known = (om_inv known \<and> (\<forall>k d. om_get known k = Some d \<longrightarrow>
     members_plain d \<and> (\<exists>b ps. good_parts ps \<and> k = key_text b ps)))"

text \<open>Entries outside the exceptions have a parent entry that lists them, unless they are at the root
  level.\<close>
definition linked_but :: "(bucket_t \<times> string list) set \<Rightarrow> dircache \<Rightarrow> bool" where
  "linked_but X known = (\<forall>b ps n. good_parts (ps @ [n]) \<longrightarrow> ps \<noteq> [] \<longrightarrow> (b, ps @ [n]) \<notin> X \<longrightarrow>
     dir_at known b (ps @ [n]) \<noteq> None \<longrightarrow> (\<exists>d. dir_at known b ps = Some d \<and> n \<in> names_of (members d)))"

abbreviation linked :: "dircache \<Rightarrow> bool" where
  "linked \<equiv> linked_but {}"

lemma good_parts_butlast: "good_parts (ps @ [n]) \<Longrightarrow> ps \<noteq> [] \<Longrightarrow> good_parts ps"
  by (simp add: good_parts_def)

lemma dir_at_set:
  "om_inv known \<Longrightarrow> good_parts ps \<Longrightarrow> good_parts qs \<Longrightarrow>
   dir_at (om_set (key_text b ps) d known) c qs = (if c = b \<and> qs = ps then Some d else dir_at known c qs)"
  by (auto simp: dir_at_def om_get_om_set key_text_inj)

lemma cache_wf_set:
  assumes "cache_wf known" and "good_parts ps" and "members_plain d"
  shows "cache_wf (om_set (key_text b ps) d known)"
proof -
  have inv: "om_inv known" using assms(1) by (simp add: cache_wf_def)
  show ?thesis
    using assms by (auto simp: cache_wf_def om_get_om_set [OF inv] om_inv_om_set split: if_splits)
qed

lemma di_Join_names:
  assumes "n \<noteq> []"
  shows "names_of (members (snd (di_Join node n d))) = insert n (names_of (members d))"
    and "members_plain d \<Longrightarrow> dir_part n \<Longrightarrow> members_plain (snd (di_Join node n d))"
  using assms by (auto simp: di_Join_def names_of_def list_ex_iff members_plain_def)

lemma cache_lookup_at: "url_at u b ps \<Longrightarrow> cache_lookup u known = Inr (dir_at known b ps)"
  by (simp add: cache_lookup_def url_at_key dir_at_def)

lemma linked_but_new:
  assumes "cache_wf known" and "good_parts ps" and "linked_but X known" and "dir_at known b ps = None"
    and "\<And>n. (b, ps @ [n]) \<in> X \<Longrightarrow> n \<in> names_of (members d)"
    and "\<And>c qs. (c, qs) \<in> X \<Longrightarrow> good_parts qs \<Longrightarrow> c = b \<and> butlast qs = ps"
  shows "linked_but {(b, ps)} (om_set (key_text b ps) d known)"
  unfolding linked_but_def
proof (intro allI impI)
  fix c qs n
  assume good: "good_parts (qs @ [n])" and ne: "qs \<noteq> []" and out: "(c, qs @ [n]) \<notin> {(b, ps)}"
    and there: "dir_at (om_set (key_text b ps) d known) c (qs @ [n]) \<noteq> None"
  have inv: "om_inv known" using assms(1) by (simp add: cache_wf_def)
  note at = dir_at_set [OF inv assms(2)]
  have old: "dir_at known c (qs @ [n]) \<noteq> None" using there out good by (auto simp: at)
  have gq: "good_parts qs" by (rule good_parts_butlast [OF good ne])
  show "\<exists>d'. dir_at (om_set (key_text b ps) d known) c qs = Some d' \<and> n \<in> names_of (members d')"
  proof (cases "(c, qs @ [n]) \<in> X")
    case True
    then have "c = b \<and> qs = ps" using assms(6) good by fastforce
    then show ?thesis using True assms(5) gq by (auto simp: at)
  next
    case False
    then obtain d' where d': "dir_at known c qs = Some d'" "n \<in> names_of (members d')"
      using assms(3) good ne old unfolding linked_but_def by blast
    then have "\<not> (c = b \<and> qs = ps)" using assms(4) by auto
    then show ?thesis using d' gq by (auto simp: at)
  qed
qed

lemma linked_join:
  assumes "cache_wf known" and "good_parts (ps @ [n])" and "ps \<noteq> []" and "linked_but {(b, ps @ [n])} known"
    and "dir_at known b ps = Some d" and "names_of (members d') = insert n (names_of (members d))"
  shows "linked (om_set (key_text b ps) d' known)"
  unfolding linked_but_def
proof (intro allI impI)
  fix c qs m
  assume good: "good_parts (qs @ [m])" and ne: "qs \<noteq> []"
    and there: "dir_at (om_set (key_text b ps) d' known) c (qs @ [m]) \<noteq> None"
  have inv: "om_inv known" using assms(1) by (simp add: cache_wf_def)
  note at = dir_at_set [OF inv good_parts_butlast [OF assms(2,3)]]
  have gq: "good_parts qs" by (rule good_parts_butlast [OF good ne])
  have old: "dir_at known c (qs @ [m]) \<noteq> None"
    using there assms(5) unfolding at [OF good] by (cases "c = b \<and> qs @ [m] = ps") simp_all
  show "\<exists>d''. dir_at (om_set (key_text b ps) d' known) c qs = Some d'' \<and> m \<in> names_of (members d'')"
  proof (cases "(c, qs @ [m]) = (b, ps @ [n])")
    case True
    then show ?thesis using assms(6) unfolding at [OF gq] by simp
  next
    case False
    then obtain d'' where d'': "dir_at known c qs = Some d''" "m \<in> names_of (members d'')"
      using assms(4) good ne old unfolding linked_but_def by blast
    then show ?thesis using assms(5,6) unfolding at [OF gq] by (cases "c = b \<and> qs = ps") auto
  qed
qed

text \<open>One level of the walk: the parent entry, found or new, gets the child's name.\<close>
lemma link_parents_step:
  assumes at: "url_at u b (qs @ [n])" and "qs \<noteq> []" and wf: "cache_wf known"
  obtains p d' where "url_at p b qs" and "members_plain d'"
    and "names_of (members d') =
      insert n (case dir_at known b qs of Some d \<Rightarrow> names_of (members d) | None \<Rightarrow> {})"
    and "link_parents e u known = (if dir_at known b qs \<noteq> None then Inr (om_set (key_text b qs) d' known)
      else link_parents e p (om_set (key_text b qs) d' known))"
    and "di_url d' = (case dir_at known b qs of Some d \<Rightarrow> di_url d | None \<Rightarrow> p)"
proof -
  obtain p where p: "GetParent u = Inr p" "url_at p b qs" "url_options p = []"
    using url_at_parent [OF at] assms(2) by auto
  have n: "n \<noteq> []" "dir_part n" "url_name u = n"
    using at by (auto simp: url_at_def good_parts_def dir_part_def plain_part_def)
  define d where "d = (case dir_at known b qs of Some d \<Rightarrow> d
    | None \<Rightarrow> \<lparr>di_url = p, di_info = [], min_members = 0, members = []\<rparr>)"
  define d' where "d' = snd (di_Join (url_node u) n d)"
  have "\<not> IsRootLevel u" using url_at_key(3) [OF at] assms(2) by simp
  then have step: "link_parents e u known = (if dir_at known b qs \<noteq> None then Inr (om_set (key_text b qs) d' known)
      else link_parents e p (om_set (key_text b qs) d' known))"
    using p(1) url_at_key(1) [OF p(2)] n(3) DirectoryInfo_ctor_plain [OF p(3), of e]
    by (subst link_parents.simps)
      (auto simp: cache_lookup_at [OF p(2)] rbind_def Let_def d'_def d_def split: option.split)
  have "members_plain d" using wf by (auto simp: d_def dir_at_def cache_wf_def members_plain_def split: option.split)
  then have "members_plain d'" unfolding d'_def by (intro di_Join_names(2) n)
  moreover have "names_of (members d') =
      insert n (case dir_at known b qs of Some d \<Rightarrow> names_of (members d) | None \<Rightarrow> {})"
    unfolding d'_def di_Join_names(1) [OF n(1)] by (simp add: d_def names_of_def split: option.split)
  moreover have "di_url d' = (case dir_at known b qs of Some d \<Rightarrow> di_url d | None \<Rightarrow> p)"
    by (auto simp: d'_def d_def di_Join_def Let_def split: option.split)
  ultimately show ?thesis by (rule that [OF p(2) _ _ step])
qed

lemma link_parents_links:
  assumes "url_at u b ps" and "cache_wf known" and "linked_but {(b, ps)} known"
  shows "\<exists>known'. link_parents e u known = Inr known' \<and> cache_wf known' \<and> linked known' \<and>
    (\<forall>c qs. good_parts qs \<longrightarrow> \<not> (c = b \<and> strict_prefix qs ps) \<longrightarrow> dir_at known' c qs = dir_at known c qs)"
  using assms
proof (induction ps arbitrary: u known rule: rev_induct)
  case Nil
  then show ?case by (simp add: url_at_def good_parts_def)
next
  case (snoc n qs)
  note at = snoc.prems(1) and wf = snoc.prems(2)
  have good: "good_parts (qs @ [n])" and inv: "om_inv known" using at wf by (simp_all add: url_at_def cache_wf_def)
  show ?case
  proof (cases "qs = []")
    case True
    have "link_parents e u known = Inr known"
      using url_at_key(3) [OF at] True by (subst link_parents.simps) simp
    moreover have "linked known" using snoc.prems(3) True by (auto simp: linked_but_def)
    ultimately show ?thesis using wf by simp
  next
    case False
    obtain p d' where p: "url_at p b qs" and plain: "members_plain d'"
      and names: "names_of (members d') = insert n (case dir_at known b qs of Some d \<Rightarrow> names_of (members d) | None \<Rightarrow> {})"
      and step: "link_parents e u known = (if dir_at known b qs \<noteq> None then Inr (om_set (key_text b qs) d' known)
        else link_parents e p (om_set (key_text b qs) d' known))"
      by (rule link_parents_step [OF at False wf, of e])
    define known' where "known' = om_set (key_text b qs) d' known"
    have gq: "good_parts qs" by (rule good_parts_butlast [OF good False])
    have wf': "cache_wf known'" unfolding known'_def by (rule cache_wf_set [OF wf gq plain])
    have keep: "dir_at known' c rs = dir_at known c rs" if "good_parts rs" "\<not> (c = b \<and> rs = qs)" for c rs
      unfolding known'_def dir_at_set [OF inv gq that(1)] using that(2) by auto
    have pre: "\<not> (c = b \<and> strict_prefix rs qs) \<and> \<not> (c = b \<and> rs = qs)"
      if "\<not> (c = b \<and> strict_prefix rs (qs @ [n]))" for c rs
      using that by (auto simp: strict_prefix_def)
    show ?thesis
    proof (cases "dir_at known b qs")
      case None
      have "linked_but {(b, qs)} known'"
        unfolding known'_def using names by (intro linked_but_new [OF wf gq snoc.prems(3) None]) auto
      from snoc.IH [OF p wf' this] step None keep pre show ?thesis
        unfolding known'_def [symmetric] by (simp (no_asm_simp)) metis
    next
      case (Some d0)
      have "linked known'"
        unfolding known'_def using names Some by (intro linked_join [OF wf good False snoc.prems(3) Some]) simp
      then show ?thesis using step Some wf' keep pre unfolding known'_def [symmetric] by auto
    qed
  qed
qed

lemma linked_ancestor:
  assumes "linked known" and "good_parts ps" and "dir_at known b ps \<noteq> None" and "prefix qs ps" and "qs \<noteq> []"
  shows "dir_at known b qs \<noteq> None"
  using assms(2-4)
proof (induction ps rule: rev_induct)
  case (snoc n ps)
  show ?case
  proof (cases "qs = ps @ [n]")
    case False
    then have pre: "prefix qs ps" using snoc.prems(3) by simp
    then have ne: "ps \<noteq> []" using assms(5) by auto
    have "dir_at known b ps \<noteq> None"
      using assms(1) snoc.prems(1,2) ne unfolding linked_but_def by blast
    then show ?thesis using snoc.IH good_parts_butlast [OF snoc.prems(1) ne] pre by blast
  qed (use snoc.prems in simp)
qed (use assms(5) in simp)

text \<open>
  C17. Creating an entry together with its parents: in a cache where every entry is listed by its parent, the
  operation returns, reports whether the entry was new, stores it unchanged, creates every missing ancestor,
  leaves all entries that are not ancestors alone, and the result is again a cache where every entry is
  listed by its parent.  An existing entry is reported and nothing changes.
\<close>
theorem create_and_link:
  assumes "cache_wf known" and "linked known" and "url_at (di_url r) b ps" and "members_plain r"
  shows "case CreateAndLinkParents e r known of Inl _ \<Rightarrow> False
    | Inr (ok, known') \<Rightarrow> ok = (dir_at known b ps = None) \<and> cache_wf known' \<and> linked known' \<and>
        (if ok then dir_at known' b ps = Some r \<and>
           (\<forall>qs. prefix qs ps \<longrightarrow> qs \<noteq> [] \<longrightarrow> dir_at known' b qs \<noteq> None) \<and>
           (\<forall>c qs. good_parts qs \<longrightarrow> \<not> (c = b \<and> prefix qs ps) \<longrightarrow> dir_at known' c qs = dir_at known c qs)
         else known' = known)"
proof -
  note key = url_at_key(1,2) [OF assms(3)]
  have good: "good_parts ps" and inv: "om_inv known" using assms by (simp_all add: url_at_def cache_wf_def)
  show ?thesis
  proof (cases "dir_at known b ps")
    case (Some d)
    then show ?thesis
      using assms(1,2) key by (simp add: CreateAndLinkParents_def cache_write_def cache_lookup_at [OF assms(3)] rbind_def)
  next
    case None
    define known1 where "known1 = om_set (key_text b ps) r known"
    have wf1: "cache_wf known1" unfolding known1_def by (rule cache_wf_set [OF assms(1) good assms(4)])
    have "linked_but {(b, ps)} known1"
      unfolding known1_def by (rule linked_but_new [OF assms(1) good assms(2) None]) simp_all
    from link_parents_links [OF assms(3) wf1 this, of e] obtain known' where
      k: "link_parents e (di_url r) known1 = Inr known'" "cache_wf known'" "linked known'"
      and keep: "\<And>c qs. good_parts qs \<Longrightarrow> \<not> (c = b \<and> strict_prefix qs ps) \<Longrightarrow> dir_at known' c qs = dir_at known1 c qs"
      by blast
    have run: "CreateAndLinkParents e r known = Inr (True, known')"
      using None key k(1)
      by (simp add: CreateAndLinkParents_def cache_write_def cache_lookup_at [OF assms(3)] rbind_def known1_def)
    have stored: "dir_at known' b ps = Some r"
      using keep [OF good, of b] by (simp add: known1_def dir_at_set [OF inv good good])
    have "dir_at known' c qs = dir_at known c qs" if "good_parts qs" "\<not> (c = b \<and> prefix qs ps)" for c qs
      using that keep [of qs c] by (auto simp: known1_def dir_at_set [OF inv good that(1)] strict_prefix_def)
    moreover have "dir_at known' b qs \<noteq> None" if "prefix qs ps" "qs \<noteq> []" for qs
      using linked_ancestor [OF k(3) good _ that] stored by simp
    ultimately show ?thesis unfolding run using k stored None by simp
  qed
qed

section \<open>Removing a subtree\<close>

lemma ctor_child:
  assumes "good_parts ps" and "dir_part n"
  obtains u where "ResourceURL_ctor (key_text b ps @ ''/'' @ n) = Inr u" and "url_at u b (ps @ [n])"
proof -
  have n: "n \<noteq> []" "CHR ''/'' \<notin> set n" using assms(2) by (simp_all add: dir_part_def plain_part_def)
  have amp: "CHR ''&'' \<notin> set (concat (map (\<lambda>v. CHR ''/'' # v) ps) @ ''/'' @ n)"
    using assms by (auto simp: good_parts_def dir_part_def list_all_iff)
  have path: "concat (map (\<lambda>v. CHR ''/'' # v) ps) = dir_path ps" "dir_path ps \<noteq> []" "hd (dir_path ps) = CHR ''/''"
    using assms(1) by (cases ps; simp add: dir_path_def good_parts_def)+
  obtain w where w: "dir_path ps @ ''/'' @ n = CHR ''/'' # w"
    using path(2,3) by (cases "dir_path ps") auto
  define t where "t = (if names_local (dir_path ps) n then ''local'' else [])"
  have amp_w: "CHR ''&'' \<notin> set w" using amp unfolding path(1) w by simp
  have "split_path_name (CHR ''/'' # w) = (dir_path ps, n)"
    using split_path_name_slash [OF n(2,1), of "dir_path ps"] path(2) w by simp
  moreover have "CHR ''/'' # w \<noteq> ''/''" using w n(1) path(2,3) by (cases "dir_path ps") auto
  ultimately have pn: "parse_path_name [] (CHR ''/'' # w) = Inr (dir_path ps, n)"
    using path n by (simp add: parse_path_name_def)
  have text_is: "key_text b ps @ ''/'' @ n = CHR ''['' # Bucket_GetHex b @ CHR '']'' # CHR ''/'' # w"
    using w by (simp add: key_text_def path(1))
  have "ParseURL (key_text b ps @ ''/'' @ n) = Inr (t, Bucket_GetHex b, [], dir_path ps, n, [])"
    unfolding text_is
    by (simp add: ParseURL_def loop_bucket [OF id_texts_not_delim(2)] loop_path(1) [OF amp_w] rbind_def normalize_type_def
        pn t_def)
  moreover have "Bucket_GetHex b \<noteq> []" by (simp add: Bucket_GetHex_def)
  ultimately have "ResourceURL_ctor (key_text b ps @ ''/'' @ n) = Inr \<lparr>url_type = t, url_node = NODE_UNSPECIFIED,
      url_bucket = b, url_path = dir_path ps, url_name = n, url_options = []\<rparr>"
    by (simp add: ResourceURL_ctor_def SetURL_def rbind_def Bucket_hex)
  then show ?thesis by (rule that) (use assms in \<open>simp add: url_at_def good_parts_def\<close>)
qed

text \<open>The members of a removed entry are turned into urls of its children.\<close>
lemma child_urls:
  assumes "good_parts ps" and "list_all (\<lambda>m. dir_part (nn_name m)) ms"
  obtains us where "rmap_list (\<lambda>m. ResourceURL_ctor (key_text b ps @ ''/'' @ nn_name m)) ms = Inr us"
    and "\<forall>u\<in>set us. \<exists>n. url_at u b (ps @ [n])" and "\<forall>n\<in>names_of ms. \<exists>u\<in>set us. url_at u b (ps @ [n])"
proof -
  have "\<exists>us. rmap_list (\<lambda>m. ResourceURL_ctor (key_text b ps @ ''/'' @ nn_name m)) ms = Inr us \<and>
      (\<forall>u\<in>set us. \<exists>n. url_at u b (ps @ [n])) \<and> (\<forall>n\<in>names_of ms. \<exists>u\<in>set us. url_at u b (ps @ [n]))"
    using assms(2)
  proof (induction ms)
    case (Cons m ms)
    obtain u where "ResourceURL_ctor (key_text b ps @ ''/'' @ nn_name m) = Inr u" "url_at u b (ps @ [nn_name m])"
      using ctor_child [OF assms(1)] Cons.prems by auto
    with Cons show ?case by (auto simp: rbind_def names_of_def)
  qed (simp add: names_of_def)
  then show ?thesis using that by blast
qed

text \<open>What is left below \<^verbatim>\<open>root\<close> while the work list is processed: every remaining entry has an ancestor
  on the list with nothing missing in between, and a remaining parent lists its remaining children.\<close>
definition covered :: "bucket_t \<Rightarrow> string list \<Rightarrow> ResourceURL list \<Rightarrow> dircache \<Rightarrow> bool" where
  "covered b root us known = (\<forall>qs. good_parts qs \<longrightarrow> prefix root qs \<longrightarrow> dir_at known b qs \<noteq> None \<longrightarrow>
     (\<exists>u\<in>set us. \<exists>rs. url_at u b rs \<and> prefix rs qs \<and>
        (\<forall>ts. prefix rs ts \<longrightarrow> prefix ts qs \<longrightarrow> dir_at known b ts \<noteq> None)))"

definition lists_children :: "bucket_t \<Rightarrow> string list \<Rightarrow> dircache \<Rightarrow> bool" where
  "lists_children b root known = (\<forall>qs n d. good_parts (qs @ [n]) \<longrightarrow> prefix root qs \<longrightarrow> dir_at known b (qs @ [n]) \<noteq> None \<longrightarrow>
     dir_at known b qs = Some d \<longrightarrow> n \<in> names_of (members d))"

definition urls_below :: "bucket_t \<Rightarrow> string list \<Rightarrow> ResourceURL list \<Rightarrow> bool" where
  "urls_below b root us = (\<forall>u\<in>set us. \<exists>rs. url_at u b rs \<and> prefix root rs)"

lemma url_at_unique: "url_at u b ps \<Longrightarrow> url_at u b qs \<Longrightarrow> ps = qs"
  using url_at_key(1) [of u b ps] url_at_key(1) [of u b qs] key_text_inj [of ps qs b b] by (simp add: url_at_def)

lemma dir_at_del:
  "good_parts ps \<Longrightarrow> good_parts qs \<Longrightarrow>
   dir_at (om_del (key_text b ps) known) c qs = (if c = b \<and> qs = ps then None else dir_at known c qs)"
  by (auto simp: dir_at_def om_get_om_del key_text_inj)

lemma cache_wf_del: "cache_wf known \<Longrightarrow> cache_wf (om_del k known)"
  by (auto simp: cache_wf_def om_get_om_del split: if_splits)

lemma good_parts_prefix: "good_parts qs \<Longrightarrow> prefix ts qs \<Longrightarrow> ts \<noteq> [] \<Longrightarrow> good_parts ts"
  by (auto simp: good_parts_def prefix_def)

lemma covered_miss:
  assumes "covered b root (u # us) known" and "url_at u b rs" and "dir_at known b rs = None"
  shows "covered b root us known"
  unfolding covered_def
proof (intro allI impI)
  fix qs assume "good_parts qs" "prefix root qs" "dir_at known b qs \<noteq> None"
  then obtain v vs where v: "v \<in> set (u # us)" "url_at v b vs" "prefix vs qs"
    "\<forall>ts. prefix vs ts \<longrightarrow> prefix ts qs \<longrightarrow> dir_at known b ts \<noteq> None"
    using assms(1) unfolding covered_def by blast
  have "v \<noteq> u"
  proof
    assume "v = u"
    then have "vs = rs" using url_at_unique v(2) assms(2) by blast
    then show False using v(3,4) assms(3) by blast
  qed
  then show "\<exists>u\<in>set us. \<exists>rs. url_at u b rs \<and> prefix rs qs \<and>
      (\<forall>ts. prefix rs ts \<longrightarrow> prefix ts qs \<longrightarrow> dir_at known b ts \<noteq> None)"
    using v by auto
qed

lemma covered_hit:
  assumes "covered b root (u # us) known" and at: "url_at u b rs" and d: "dir_at known b rs = Some d"
    and "lists_children b root known" and "prefix root rs"
    and cs: "\<forall>n\<in>names_of (members d). \<exists>v\<in>set cs. url_at v b (rs @ [n])"
  shows "covered b root (rev cs @ us) (om_del (key_text b rs) known)"
  unfolding covered_def
proof (intro allI impI)
  let ?known' = "om_del (key_text b rs) known"
  fix qs assume qs: "good_parts qs" "prefix root qs" "dir_at ?known' b qs \<noteq> None"
  have rs: "good_parts rs" using at by (simp add: url_at_def)
  have old: "dir_at known b qs \<noteq> None" and neq: "qs \<noteq> rs"
    using qs(3) unfolding dir_at_del [OF rs qs(1)] by (auto split: if_splits)
  obtain v vs where v: "v \<in> set (u # us)" "url_at v b vs" "prefix vs qs"
    "\<forall>ts. prefix vs ts \<longrightarrow> prefix ts qs \<longrightarrow> dir_at known b ts \<noteq> None"
    using assms(1) qs(1,2) old unfolding covered_def by blast
  have vs: "vs \<noteq> []" using v(2) by (simp add: url_at_def good_parts_def)
  have keep: "dir_at ?known' b ts \<noteq> None" if "prefix vs ts" "prefix ts qs" "ts \<noteq> rs" for ts
  proof -
    have "ts \<noteq> []" using that(1) vs by auto
    then show ?thesis using v(4) that dir_at_del [OF rs good_parts_prefix [OF qs(1) that(2)], of b known b] by simp
  qed
  show "\<exists>w\<in>set (rev cs @ us). \<exists>ws. url_at w b ws \<and> prefix ws qs \<and>
      (\<forall>ts. prefix ws ts \<longrightarrow> prefix ts qs \<longrightarrow> dir_at ?known' b ts \<noteq> None)"
  proof (cases "prefix vs rs \<and> prefix rs qs")
    case True
    then obtain zs where zs: "qs = rs @ zs" by (auto simp: prefix_def)
    then obtain n ns where n: "qs = rs @ n # ns" using neq by (cases zs) auto
    have child: "prefix (rs @ [n]) qs" "prefix vs (rs @ [n])" using True n by auto
    have "dir_at known b (rs @ [n]) \<noteq> None" using v(4) child by blast
    moreover have "good_parts (rs @ [n])" using good_parts_prefix [OF qs(1) child(1)] by simp
    ultimately have "n \<in> names_of (members d)" using assms(4,5) d unfolding lists_children_def by blast
    then obtain w where "w \<in> set cs" "url_at w b (rs @ [n])" using cs by blast
    moreover have "dir_at ?known' b ts \<noteq> None" if "prefix (rs @ [n]) ts" "prefix ts qs" for ts
      using keep [OF _ that(2)] prefix_order.trans [OF child(2) that(1)] that(1) by (auto simp: prefix_def)
    ultimately show ?thesis using child(1) by auto
  next
    case False
    then have "v \<noteq> u" using v(2,3) at url_at_unique by blast
    moreover have "dir_at ?known' b ts \<noteq> None" if "prefix vs ts" "prefix ts qs" for ts
      using keep [OF that] that False by blast
    ultimately show ?thesis using v by auto
  qed
qed

lemma lists_children_del:
  assumes "lists_children b root known" and "good_parts rs" and "root \<noteq> []"
  shows "lists_children b root (om_del (key_text b rs) known)"
  unfolding lists_children_def
proof (intro allI impI)
  fix qs n d
  assume a: "good_parts (qs @ [n])" "prefix root qs" "dir_at (om_del (key_text b rs) known) b (qs @ [n]) \<noteq> None"
    "dir_at (om_del (key_text b rs) known) b qs = Some d"
  have "qs \<noteq> []" using a(2) assms(3) by auto
  then have good: "good_parts qs" by (rule good_parts_butlast [OF a(1)])
  have "dir_at known b (qs @ [n]) \<noteq> None"
    using a(3) unfolding dir_at_del [OF assms(2) a(1)] by (simp split: if_splits)
  moreover have "dir_at known b qs = Some d"
    using a(4) unfolding dir_at_del [OF assms(2) good] by (simp split: if_splits)
  ultimately show "n \<in> names_of (members d)" using assms(1) a(1,2) unfolding lists_children_def by blast
qed

lemma remove_loop_clears:
  assumes "cache_wf known" and "covered b root us known" and "lists_children b root known"
    and "urls_below b root us" and "root \<noteq> []"
  shows "\<exists>known'. remove_loop us known = Inr known' \<and> cache_wf known' \<and>
    (\<forall>c qs. good_parts qs \<longrightarrow> dir_at known' c qs = (if c = b \<and> prefix root qs then None else dir_at known c qs))"
  using assms(1-4)
proof (induction us known rule: remove_loop.induct)
  case (1 known)
  then show ?case by (auto simp: covered_def)
next
  case (2 u us known)
  obtain rs where rs: "url_at u b rs" "prefix root rs" using "2.prems"(4) by (auto simp: urls_below_def)
  note key = url_at_key(1) [OF rs(1)]
  have us: "urls_below b root us" using "2.prems"(4) by (simp add: urls_below_def)
  have good: "good_parts rs" using rs(1) by (simp add: url_at_def)
  show ?case
  proof (cases "dir_at known b rs")
    case None
    then have step: "removeSingleDir u known = Inr ([], known)" by (simp add: removeSingleDir_def key dir_at_def)
    show ?thesis
      using "2.IH" [OF step refl "2.prems"(1)] covered_miss [OF "2.prems"(2) rs(1) None] "2.prems"(3) us
      by (simp add: remove_loop.simps(2) step)
  next
    case (Some d)
    then have plain: "list_all (\<lambda>m. dir_part (nn_name m)) (members d)"
      using "2.prems"(1) by (auto simp: cache_wf_def members_plain_def dir_at_def)
    then have named: "filter (\<lambda>m. nn_name m \<noteq> []) (members d) = members d"
      by (auto simp: list_all_iff filter_id_conv dir_part_def plain_part_def)
    obtain cs where cs: "rmap_list (\<lambda>m. ResourceURL_ctor (key_text b rs @ ''/'' @ nn_name m)) (members d) = Inr cs"
      "\<forall>v\<in>set cs. \<exists>n. url_at v b (rs @ [n])" "\<forall>n\<in>names_of (members d). \<exists>v\<in>set cs. url_at v b (rs @ [n])"
      by (rule child_urls [OF good plain])
    let ?known' = "om_del (key_text b rs) known"
    have step: "removeSingleDir u known = Inr (cs, ?known')"
      using Some cs(1) named by (simp add: removeSingleDir_def key dir_at_def rbind_def)
    have "lists_children b root ?known'"
      by (rule lists_children_del [OF "2.prems"(3) good assms(5)])
    moreover have "urls_below b root (rev cs @ us)"
      using us cs(2) rs(2) unfolding urls_below_def by (auto, metis prefix_prefix)
    ultimately obtain known'' where k: "remove_loop (rev cs @ us) ?known' = Inr known''" "cache_wf known''"
      "\<forall>c qs. good_parts qs \<longrightarrow> dir_at known'' c qs = (if c = b \<and> prefix root qs then None else dir_at ?known' c qs)"
      using "2.IH" [OF step refl cache_wf_del [OF "2.prems"(1)]
          covered_hit [OF "2.prems"(2) rs(1) Some "2.prems"(3) rs(2) cs(3)]] by blast
    then show ?thesis using rs(2) by (auto simp: remove_loop.simps(2) step dir_at_del [OF good])
  qed
qed

definition leave_child :: "string \<Rightarrow> DirectoryInfo \<Rightarrow> DirectoryInfo" where
  "leave_child n d = snd (LeaveByName n d)"

lemma leave_child_names: "x \<in> names_of (members d) \<Longrightarrow> x \<noteq> n \<Longrightarrow> x \<in> names_of (members (leave_child n d))"
  using set_erase_first_other [of "\<lambda>m. nn_name m = n"]
  by (auto simp: leave_child_def LeaveByName_def names_of_def)

lemma leave_child_plain: "members_plain d \<Longrightarrow> members_plain (leave_child n d)"
  using set_erase_first [of "\<lambda>m. nn_name m = n" "members d"]
  by (auto simp: leave_child_def LeaveByName_def members_plain_def list_all_iff)

lemma leave_child_exact:
  assumes "n \<in> names_of (members d)" and "n \<noteq> []"
  shows "\<exists>pre m post. members d = pre @ m # post \<and> nn_name m = n \<and> n \<notin> names_of pre \<and>
    leave_child n d = d\<lparr>members := pre @ post\<rparr> \<and> (distinct (map nn_name (members d)) \<longrightarrow> n \<notin> names_of (pre @ post))"
proof -
  obtain x where "x \<in> set (members d)" "nn_name x = n" using assms(1) by (auto simp: names_of_def)
  then obtain pre m post where "members d = pre @ m # post" "nn_name m = n" "\<forall>z\<in>set pre. nn_name z \<noteq> n"
    "erase_first (\<lambda>m. nn_name m = n) (members d) = pre @ post"
    using erase_first_split [of x "members d" "\<lambda>m. nn_name m = n"] by blast
  then show ?thesis using assms(2) by (intro exI [of _ pre] exI [of _ m] exI [of _ post])
      (auto simp: leave_child_def LeaveByName_def names_of_def)
qed

text \<open>The first step of a removal takes the entry out of its parent.\<close>
lemma dc_Remove_unlinks:
  assumes "cache_wf known" and "linked known" and at: "url_at u b ps" and there: "dir_at known b ps \<noteq> None"
  obtains known1 where "cache_wf known1"
    and "\<forall>c qs. good_parts qs \<longrightarrow> dir_at known1 c qs =
      (if c = b \<and> qs = butlast ps then map_option (leave_child (last ps)) (dir_at known c qs) else dir_at known c qs)"
    and "dc_Remove u known = rbind (remove_loop [u] known1) (\<lambda>known'. Inr (True, known'))"
proof -
  have inv: "om_inv known" using assms(1) by (simp add: cache_wf_def)
  have found: "cache_lookup u known = Inr (dir_at known b ps)" by (rule cache_lookup_at [OF at])
  have root: "url_path u = ''/'' \<longleftrightarrow> length ps = 1" using url_at_key(3) [OF at] by (simp add: IsRootLevel_def)
  have good: "good_parts ps" and name: "url_name u = last ps" using at by (simp_all add: url_at_def)
  show ?thesis
  proof (cases "length ps = 1")
    case True
    have "\<not> good_parts (butlast ps)" using True by (auto simp: good_parts_def simp flip: length_0_conv)
    then show ?thesis
      using that [of known] assms(1) there True root by (auto simp: dc_Remove_def found rbind_def)
  next
    case False
    obtain p where p: "GetParent u = Inr p" "url_at p b (butlast ps)" using url_at_parent [OF at False] .
    have ps: "ps = butlast ps @ [last ps]" and gb: "good_parts (butlast ps)"
      using good p(2) by (simp_all add: url_at_def good_parts_def)
    obtain rp where rp: "dir_at known b (butlast ps) = Some rp"
      using linked_ancestor [OF assms(2) good there, of "butlast ps"] gb by (auto simp: good_parts_def prefixeq_butlast)
    define known1 where "known1 = om_set (key_text b (butlast ps)) (leave_child (last ps) rp) known"
    have "members_plain rp" using assms(1) rp by (auto simp: cache_wf_def dir_at_def)
    then have "cache_wf known1"
      unfolding known1_def by (intro cache_wf_set [OF assms(1) gb] leave_child_plain)
    moreover have "dc_Remove u known = rbind (remove_loop [u] known1) (\<lambda>known'. Inr (True, known'))"
      using there False root p(1) rp name
      by (auto simp: dc_Remove_def found cache_lookup_at [OF p(2)] rbind_def url_at_key(1) [OF p(2)] known1_def
          leave_child_def split: option.splits)
    moreover have "\<forall>c qs. good_parts qs \<longrightarrow> dir_at known1 c qs =
      (if c = b \<and> qs = butlast ps then map_option (leave_child (last ps)) (dir_at known c qs) else dir_at known c qs)"
      using rp by (auto simp: known1_def dir_at_set [OF inv gb])
    ultimately show ?thesis using that by blast
  qed
qed

lemma not_prefix_butlast: "ps \<noteq> [] \<Longrightarrow> prefix ps qs \<Longrightarrow> qs \<noteq> butlast ps"
  using prefix_length_le [of ps qs] by (cases ps rule: rev_cases) auto

lemma subtree_covered:
  assumes "linked known" and at: "url_at u b ps"
    and known1: "\<forall>c qs. good_parts qs \<longrightarrow> dir_at known1 c qs =
      (if c = b \<and> qs = butlast ps then map_option f (dir_at known c qs) else dir_at known c qs)"
  shows "covered b ps [u] known1" and "lists_children b ps known1"
proof -
  have ne: "ps \<noteq> []" using at by (simp add: url_at_def good_parts_def)
  have same: "dir_at known1 b qs = dir_at known b qs" if "good_parts qs" "prefix ps qs" for qs
    using known1 that not_prefix_butlast [OF ne that(2)] by simp
  show "covered b ps [u] known1"
    unfolding covered_def
  proof (intro allI impI)
    fix qs assume qs: "good_parts qs" "prefix ps qs" "dir_at known1 b qs \<noteq> None"
    have "dir_at known1 b ts \<noteq> None" if ts: "prefix ps ts" "prefix ts qs" for ts
    proof -
      have "ts \<noteq> []" using ts(1) ne by auto
      moreover have "dir_at known b qs \<noteq> None" using qs same by simp
      ultimately have "dir_at known b ts \<noteq> None" using linked_ancestor [OF assms(1) qs(1) _ ts(2)] by blast
      then show ?thesis using same good_parts_prefix [OF qs(1) ts(2)] \<open>ts \<noteq> []\<close> ts(1) by simp
    qed
    then show "\<exists>u\<in>set [u]. \<exists>rs. url_at u b rs \<and> prefix rs qs \<and>
        (\<forall>ts. prefix rs ts \<longrightarrow> prefix ts qs \<longrightarrow> dir_at known1 b ts \<noteq> None)"
      using at qs(2) by auto
  qed
  show "lists_children b ps known1"
    unfolding lists_children_def
  proof (intro allI impI)
    fix qs n d
    assume a: "good_parts (qs @ [n])" "prefix ps qs" "dir_at known1 b (qs @ [n]) \<noteq> None" "dir_at known1 b qs = Some d"
    have ne': "qs \<noteq> []" using a(2) ne by auto
    note qs = ne' good_parts_butlast [OF a(1) ne']
    have "dir_at known b (qs @ [n]) \<noteq> None" "dir_at known b qs = Some d"
      using a same [OF a(1)] same [OF qs(2) a(2)] by auto
    then show "n \<in> names_of (members d)" using assms(1) a(1) qs(1) unfolding linked_but_def by fastforce
  qed
qed

text \<open>
  C16. Removing an entry from a cache where every entry is listed by its parent: the operation returns true;
  the entry and everything below it are gone, at any depth; every entry other than its parent is unchanged.
  Its parent, when it has one, loses the first member that carries the entry's name and nothing else, so with
  different names it no longer lists the entry.  In what remains every entry is still listed by its parent.
\<close>
theorem remove_subtree:
  assumes "cache_wf known" and "linked known" and "url_at u b ps" and "dir_at known b ps \<noteq> None"
  shows "case dc_Remove u known of Inl _ \<Rightarrow> False
    | Inr (found, known') \<Rightarrow> found \<and> cache_wf known' \<and> linked known' \<and>
        (\<forall>c qs. good_parts qs \<and> \<not> (c = b \<and> qs = butlast ps) \<longrightarrow>
           dir_at known' c qs = (if c = b \<and> prefix ps qs then None else dir_at known c qs)) \<and>
        (length ps \<noteq> 1 \<longrightarrow> (\<exists>d pre m post. dir_at known b (butlast ps) = Some d \<and> members d = pre @ m # post \<and>
           nn_name m = last ps \<and> last ps \<notin> names_of pre \<and>
           dir_at known' b (butlast ps) = Some (d\<lparr>members := pre @ post\<rparr>) \<and>
           (distinct (map nn_name (members d)) \<longrightarrow> last ps \<notin> names_of (pre @ post))))"
proof -
  obtain known1 where wf1: "cache_wf known1"
    and known1: "\<forall>c qs. good_parts qs \<longrightarrow> dir_at known1 c qs =
      (if c = b \<and> qs = butlast ps then map_option (leave_child (last ps)) (dir_at known c qs) else dir_at known c qs)"
    and run: "dc_Remove u known = rbind (remove_loop [u] known1) (\<lambda>known'. Inr (True, known'))"
    by (rule dc_Remove_unlinks [OF assms])
  have ps: "ps = butlast ps @ [last ps]" using assms(3) by (simp add: url_at_def good_parts_def)
  obtain known' where k: "remove_loop [u] known1 = Inr known'" "cache_wf known'"
    "\<forall>c qs. good_parts qs \<longrightarrow> dir_at known' c qs = (if c = b \<and> prefix ps qs then None else dir_at known1 c qs)"
    using remove_loop_clears [OF wf1 subtree_covered [OF assms(2,3) known1]] assms(3) ps
    by (auto simp: urls_below_def)
  have at: "dir_at known' c qs = (if c = b \<and> prefix ps qs then None
      else if c = b \<and> qs = butlast ps then map_option (leave_child (last ps)) (dir_at known c qs)
      else dir_at known c qs)" if "good_parts qs" for c qs
    using k(3) known1 that by auto
  have "linked known'"
    unfolding linked_but_def
  proof (intro allI impI)
    fix c qs n
    assume a: "good_parts (qs @ [n])" "qs \<noteq> []" "dir_at known' c (qs @ [n]) \<noteq> None"
    have out: "\<not> (c = b \<and> prefix ps (qs @ [n]))" and old: "dir_at known c (qs @ [n]) \<noteq> None"
      using a(3) unfolding at [OF a(1)] by (auto split: if_splits)
    then obtain d where d: "dir_at known c qs = Some d" "n \<in> names_of (members d)"
      using assms(2) a(1,2) unfolding linked_but_def by blast
    have "\<not> (c = b \<and> prefix ps qs)" using out by auto
    moreover have "n \<noteq> last ps" if "c = b" "qs = butlast ps" using out that ps by auto
    ultimately show "\<exists>d'. dir_at known' c qs = Some d' \<and> n \<in> names_of (members d')"
      using d leave_child_names [of n d "last ps"] unfolding at [OF good_parts_butlast [OF a(1,2)]] by auto
  qed
  moreover have "\<exists>d pre m post. dir_at known b (butlast ps) = Some d \<and> members d = pre @ m # post \<and>
      nn_name m = last ps \<and> last ps \<notin> names_of pre \<and> dir_at known' b (butlast ps) = Some (d\<lparr>members := pre @ post\<rparr>) \<and>
      (distinct (map nn_name (members d)) \<longrightarrow> last ps \<notin> names_of (pre @ post))" if "length ps \<noteq> 1"
  proof -
    have "dir_part (last ps)" and g1: "good_parts (butlast ps @ [last ps])"
      using assms(3) ps by (auto simp: url_at_def good_parts_def list_all_iff)
    then have g: "good_parts (butlast ps @ [last ps])" "last ps \<noteq> []" by (auto simp: dir_part_def plain_part_def)
    have ne: "butlast ps \<noteq> []" using that ps by (cases ps) auto
    obtain d where d: "dir_at known b (butlast ps) = Some d" "last ps \<in> names_of (members d)"
      using assms(2,4) g(1) ne ps unfolding linked_but_def by (metis empty_iff)
    have "dir_at known' b (butlast ps) = Some (leave_child (last ps) d)"
      using at [OF good_parts_butlast [OF g(1) ne], of b] d(1) not_prefix_butlast [of ps "butlast ps"] ps by auto
    then show ?thesis using leave_child_exact [OF d(2) g(2)] d(1) by metis
  qed
  ultimately show ?thesis using k(1,2) at by (simp add: run rbind_def)
qed

definition demo_cache :: dircache where
  "demo_cache =
    [(''[0xa2]/a'', DirectoryInfo_empty\<lparr>members := [\<lparr>nn_name = ''b'', nn_node = 1\<rparr>, \<lparr>nn_name = ''c'', nn_node = 2\<rparr>]\<rparr>),
     (''[0xa2]/a/b'', demo_dir),
     (''[0xa2]/z'', DirectoryInfo_empty)]"

lemma demo_cache_keys:
  "om_get demo_cache k = Some d \<Longrightarrow>
     (k = key_text 0xA2 [''a''] \<and> names_of (members d) = {''b'', ''c''}) \<or>
     (k = key_text 0xA2 [''a'', ''b''] \<and> names_of (members d) = {''ag1'', ''zed''}) \<or>
     (k = key_text 0xA2 [''z''] \<and> names_of (members d) = {})"
proof -
  have keys: "key_text 0xA2 [''a''] = ''[0xa2]/a''" "key_text 0xA2 [''a'', ''b''] = ''[0xa2]/a/b''"
    "key_text 0xA2 [''z''] = ''[0xa2]/z''" by code_simp+
  show "om_get demo_cache k = Some d \<Longrightarrow> ?thesis"
    unfolding keys by (auto simp: demo_cache_def demo_dir_def DirectoryInfo_empty_def names_of_def split: if_splits)
qed

lemma demo_parts: "good_parts [''a'', ''b'']" "good_parts [''a'']" "good_parts [''z'']"
  "list_all dir_part [''b'', ''c'', ''ag1'', ''zed'']"
  by code_simp+

lemma demo_cache_ok: "cache_wf demo_cache" "linked demo_cache" "url_at demo_url 0xA2 [''a'', ''b'']"
  "dir_at demo_cache 0xA2 [''a'', ''b''] \<noteq> None"
proof -
  have plain: "members_plain d \<longleftrightarrow> (\<forall>n\<in>names_of (members d). dir_part n)" for d
    by (auto simp: members_plain_def names_of_def list_all_iff)
  have "members_plain d \<and> (\<exists>b ps. good_parts ps \<and> k = key_text b ps)" if "om_get demo_cache k = Some d" for k d
    using demo_cache_keys [OF that]
  proof (elim disjE conjE)
    assume "k = key_text 0xA2 [''a'']" "names_of (members d) = {''b'', ''c''}"
    then show ?thesis using demo_parts(2,4) by (auto simp: plain)
  next
    assume "k = key_text 0xA2 [''a'', ''b'']" "names_of (members d) = {''ag1'', ''zed''}"
    then show ?thesis using demo_parts(1,4) by (auto simp: plain)
  next
    assume "k = key_text 0xA2 [''z'']" "names_of (members d) = {}"
    then show ?thesis using demo_parts(3) by (auto simp: plain)
  qed
  moreover have "om_inv demo_cache" by code_simp
  ultimately show "cache_wf demo_cache" unfolding cache_wf_def by blast
  show "linked demo_cache"
    unfolding linked_but_def
  proof (intro allI impI)
    fix b ps n
    assume g: "good_parts (ps @ [n])" "ps \<noteq> []" "dir_at demo_cache b (ps @ [n]) \<noteq> None"
    then obtain d where "om_get demo_cache (key_text b (ps @ [n])) = Some d" by (auto simp: dir_at_def)
    from demo_cache_keys [OF this] have "b = 0xA2 \<and> ps @ [n] \<in> {[''a''], [''a'', ''b''], [''z'']}"
      unfolding key_text_inj [OF g(1) demo_parts(1)] key_text_inj [OF g(1) demo_parts(2)]
        key_text_inj [OF g(1) demo_parts(3)] by blast
    then have "b = 0xA2" "ps = [''a'']" "n = ''b''" using g(2) by (auto simp: append_eq_Cons_conv)
    moreover have "map_option (\<lambda>d. ''b'' \<in> names_of (members d)) (dir_at demo_cache 0xA2 [''a'']) = Some True" by code_simp
    ultimately show "\<exists>d. dir_at demo_cache b ps = Some d \<and> n \<in> names_of (members d)" by auto
  qed
  show "url_at demo_url 0xA2 [''a'', ''b'']" "dir_at demo_cache 0xA2 [''a'', ''b''] \<noteq> None" by code_simp+
qed

theorem remove_subtree_witness:
  "linked demo_cache \<and> (case dc_Remove demo_url demo_cache of Inl _ \<Rightarrow> False
     | Inr (found, known') \<Rightarrow> found \<and> linked known' \<and> dir_at known' 0xA2 [''a'', ''b''] = None \<and>
         (\<exists>d. dir_at known' 0xA2 [''a''] = Some d \<and> names_of (members d) \<subseteq> {''c''}))"
proof -
  have "map_option members (dir_at demo_cache 0xA2 [''a'']) =
      Some [\<lparr>nn_name = ''b'', nn_node = 1\<rparr>, \<lparr>nn_name = ''c'', nn_node = 2\<rparr>]" by code_simp
  then show ?thesis
    using remove_subtree [OF demo_cache_ok] demo_cache_ok(2) demo_parts(1)
    by (fastforce simp: names_of_def Cons_eq_append_conv append_eq_Cons_conv split: sum.splits)
qed

theorem create_and_link_witness:
  "members_plain demo_dir \<and> (case CreateAndLinkParents False demo_dir [] of Inl _ \<Rightarrow> False
     | Inr (ok, known') \<Rightarrow> ok \<and> dir_at known' 0xA2 [''a'', ''b''] = Some demo_dir \<and> dir_at known' 0xA2 [''a''] \<noteq> None)"
proof -
  have "cache_wf []" "linked []" by (simp_all add: cache_wf_def linked_but_def dir_at_def)
  moreover have "url_at (di_url demo_dir) 0xA2 [''a'', ''b'']" "members_plain demo_dir" by code_simp+
  moreover have "dir_at [] 0xA2 [''a'', ''b''] = None" by (simp add: dir_at_def)
  ultimately show ?thesis
    using create_and_link [where known = "[]" and r = demo_dir and b = "0xA2" and ps = "[''a'', ''b'']" and e = False] by (auto split: sum.splits)
qed

end
