(* ===== verification/Back_Burner.thy ===== *)
theory Back_Burner
  imports Prelude
begin

text \<open>
  The background work queues (\<^verbatim>\<open>faodel-services/BackBurner.cpp\<close>).  Each worker owns a thread and two
  queues that it swaps: callers push on the producer queue, the thread drains the consumer queue.  A push, the
  notification after it and the steps of the thread interleave freely; only what runs under the worker's mutex
  is one step.  The notification method is the default one, the pipe.  \<open>pipe\<close> counts the unread words in the notification pipe, \<open>in_flight\<close> the callers that have
  pushed and not yet notified.  \<open>added\<close> and \<open>executed\<close> record the history.
\<close>

section \<open>Workers\<close>

datatype server_pc = Blocking | Checking | Swapping | Draining | Polling | Stopped

record 'w Worker =
  tasks_consumer :: "'w list"
  tasks_producer :: "'w list"
  producer_num :: u32
  consumer_num :: u32
  kill_worker :: bool
  poll_functions :: "(string, 'w option) omap"
  pipe :: nat
  in_flight :: nat
  server_at :: server_pc
  added :: "'w list"
  executed :: "'w list"

definition new_Worker :: "'w Worker" where
  "new_Worker = \<lparr>tasks_consumer = [], tasks_producer = [], producer_num = 0, consumer_num = 0, kill_worker = False,
     poll_functions = [], pipe = 0, in_flight = 0, server_at = Blocking, added = [], executed = []\<rparr>"

text \<open>The critical sections of the two forms of \<^verbatim>\<open>AddWork\<close>.\<close>

definition worker_push :: "'w \<Rightarrow> 'w Worker \<Rightarrow> 'w Worker" where
  "worker_push work w = w\<lparr>tasks_producer := tasks_producer w @ [work], producer_num := producer_num w + 1,
     in_flight := in_flight w + 1, added := added w @ [work]\<rparr>"

definition worker_push_all :: "'w list \<Rightarrow> 'w Worker \<Rightarrow> 'w Worker" where
  "worker_push_all work w =
     w\<lparr>tasks_producer := fold (\<lambda>x q. q @ [x]) work (tasks_producer w),
       producer_num := producer_num w + word_of_nat (length work),
       in_flight := in_flight w + 1, added := added w @ work\<rparr>"

text \<open>The pipe holds a bounded number of words; a non-blocking write to a full pipe fails its assertion.\<close>

definition notifyNewWork :: "nat \<Rightarrow> 'w Worker \<Rightarrow> 'w Worker result" where
  "notifyNewWork capacity w =
     (if pipe w < capacity then Inr (w\<lparr>pipe := pipe w + 1, in_flight := in_flight w - 1\<rparr>) else Inl Assert_failed)"

definition worker_RegisterPollingFunction :: "string \<Rightarrow> 'w \<Rightarrow> 'w Worker \<Rightarrow> 'w Worker result" where
  "worker_RegisterPollingFunction name polling_function w =
     (case om_get (poll_functions w) name of
        Some _ \<Rightarrow> Inl Process_exit
      | None \<Rightarrow> Inr (w\<lparr>poll_functions := om_set name (Some polling_function) (poll_functions w)\<rparr>))"

definition worker_DisablePollingFunction :: "string \<Rightarrow> 'w Worker \<Rightarrow> 'w Worker" where
  "worker_DisablePollingFunction name w =
     (case om_get (poll_functions w) name of
        Some _ \<Rightarrow> w\<lparr>poll_functions := om_set name None (poll_functions w)\<rparr>
      | None \<Rightarrow> w)"

text \<open>
  The destructor raises the flag and notifies; the thread sees it at the top of its loop.
\<close>
definition stop_worker :: "'w Worker \<Rightarrow> 'w Worker" where
  "stop_worker w = w\<lparr>kill_worker := True, in_flight := in_flight w + 1\<rparr>"

section \<open>The thread\<close>

text \<open>The top of the loop: stop, or block on the pipe until a word can be read.\<close>

definition server_block :: "'w Worker \<Rightarrow> 'w Worker option" where
  "server_block w =
     (if kill_worker w then Some (w\<lparr>server_at := Stopped\<rparr>)
      else if pipe w = 0 then None
      else Some (w\<lparr>pipe := pipe w - 1, server_at := Checking\<rparr>))"

text \<open>The comparison without the mutex and, when it finds work, the swap under it.\<close>

definition server_check :: "'w Worker \<Rightarrow> 'w Worker" where
  "server_check w = w\<lparr>server_at := (if producer_num w \<noteq> consumer_num w then Swapping else Polling)\<rparr>"

definition server_swap :: "'w Worker \<Rightarrow> 'w Worker" where
  "server_swap w =
     (let w1 = w\<lparr>consumer_num := producer_num w\<rparr> in
      if tasks_producer w1 \<noteq> []
      then w1\<lparr>tasks_consumer := tasks_producer w1, tasks_producer := tasks_consumer w1, server_at := Draining\<rparr>
      else w1\<lparr>server_at := Polling\<rparr>)"

definition server_drain :: "'w Worker \<Rightarrow> 'w Worker" where
  "server_drain w = (case tasks_consumer w of
     [] \<Rightarrow> w\<lparr>server_at := Polling\<rparr>
   | work # rest \<Rightarrow> w\<lparr>tasks_consumer := rest, executed := executed w @ [work]\<rparr>)"

definition server_poll :: "'w Worker \<Rightarrow> 'w Worker" where
  "server_poll w = w\<lparr>server_at := Blocking\<rparr>"

inductive worker_step :: "nat \<Rightarrow> 'w Worker \<Rightarrow> 'w Worker \<Rightarrow> bool" for capacity where
  push: "worker_step capacity w (worker_push x w)"
| push_all: "worker_step capacity w (worker_push_all xs w)"
| notify: "in_flight w > 0 \<Longrightarrow> notifyNewWork capacity w = Inr w' \<Longrightarrow> worker_step capacity w w'"
| stop: "worker_step capacity w (stop_worker w)"
| block: "server_at w = Blocking \<Longrightarrow> server_block w = Some w' \<Longrightarrow> worker_step capacity w w'"
| check: "server_at w = Checking \<Longrightarrow> worker_step capacity w (server_check w)"
| swap: "server_at w = Swapping \<Longrightarrow> worker_step capacity w (server_swap w)"
| drain: "server_at w = Draining \<Longrightarrow> worker_step capacity w (server_drain w)"
| poll: "server_at w = Polling \<Longrightarrow> worker_step capacity w (server_poll w)"

inductive worker_reachable :: "nat \<Rightarrow> 'w Worker \<Rightarrow> bool" for capacity where
  init: "worker_reachable capacity new_Worker"
| step: "worker_reachable capacity w \<Longrightarrow> worker_step capacity w w' \<Longrightarrow> worker_reachable capacity w'"

inductive_cases worker_stepE: "worker_step capacity w w'"

section \<open>The backburner\<close>

record 'w BackBurner =
  bb_configured :: bool
  workers_launched :: bool
  workers :: "'w Worker list option"

definition new_BackBurner :: "'w BackBurner" where
  "new_BackBurner = \<lparr>bb_configured = False, workers_launched = False, workers = None\<rparr>"

text \<open>\<open>worker_count\<close> is the setting \<^verbatim>\<open>backburner.threads\<close>.\<close>

definition bb_Init :: "nat \<Rightarrow> 'w BackBurner \<Rightarrow> 'w BackBurner result" where
  "bb_Init worker_count b =
     (if bb_configured b then Inl Assert_failed
      else Inr (b\<lparr>workers_launched := False, bb_configured := True, workers := Some (replicate worker_count new_Worker)\<rparr>))"

definition bb_Start :: "'w BackBurner \<Rightarrow> 'w BackBurner" where
  "bb_Start b = b\<lparr>workers_launched := True\<rparr>"

definition bb_Finish :: "'w BackBurner \<Rightarrow> 'w BackBurner result" where
  "bb_Finish b =
     (if \<not> bb_configured b then Inl Assert_failed
      else Inr (b\<lparr>workers_launched := False, workers := None, bb_configured := False\<rparr>))"

text \<open>The worker array is a pointer that \<^verbatim>\<open>Init\<close> sets and \<^verbatim>\<open>Finish\<close> frees.\<close>

definition with_worker :: "nat \<Rightarrow> ('w Worker \<Rightarrow> 'w Worker result) \<Rightarrow> 'w BackBurner \<Rightarrow> 'w BackBurner result" where
  "with_worker i f b = (case workers b of
     None \<Rightarrow> Inl Undefined_behaviour
   | Some ws \<Rightarrow> if i \<ge> length ws then Inl Out_of_range
                else rbind (f (ws ! i)) (\<lambda>w. Inr (b\<lparr>workers := Some (ws[i := w])\<rparr>)))"

definition worker_of :: "u32 \<Rightarrow> 'w BackBurner \<Rightarrow> nat result" where
  "worker_of tag b = (case workers b of
     None \<Rightarrow> Inl Undefined_behaviour
   | Some ws \<Rightarrow> if length ws = 0 then Inl Undefined_behaviour else Inr (unat tag mod length ws))"

definition bb_AddWork :: "'w \<Rightarrow> 'w BackBurner \<Rightarrow> 'w BackBurner result" where
  "bb_AddWork work = with_worker 0 (\<lambda>w. Inr (worker_push work w))"

definition bb_AddWork_all :: "'w list \<Rightarrow> 'w BackBurner \<Rightarrow> 'w BackBurner result" where
  "bb_AddWork_all work = with_worker 0 (\<lambda>w. Inr (worker_push_all work w))"

definition bb_AddWork_tag :: "u32 \<Rightarrow> 'w \<Rightarrow> 'w BackBurner \<Rightarrow> 'w BackBurner result" where
  "bb_AddWork_tag tag work b = rbind (worker_of tag b) (\<lambda>i. with_worker i (\<lambda>w. Inr (worker_push work w)) b)"

definition bb_AddWork_tag_all :: "u32 \<Rightarrow> 'w list \<Rightarrow> 'w BackBurner \<Rightarrow> 'w BackBurner result" where
  "bb_AddWork_tag_all tag work b = rbind (worker_of tag b) (\<lambda>i. with_worker i (\<lambda>w. Inr (worker_push_all work w)) b)"

definition bb_RegisterPollingFunction :: "string \<Rightarrow> u32 \<Rightarrow> 'w \<Rightarrow> 'w BackBurner \<Rightarrow> 'w BackBurner result" where
  "bb_RegisterPollingFunction name group_id polling_function b =
     (if bb_configured b then Inl Assert_failed
      else rbind (worker_of group_id b) (\<lambda>i. with_worker i (worker_RegisterPollingFunction name polling_function) b))"

definition bb_DisablePollingFunction :: "string \<Rightarrow> 'w BackBurner \<Rightarrow> 'w BackBurner result" where
  "bb_DisablePollingFunction name b = (case workers b of
     None \<Rightarrow> Inl Undefined_behaviour
   | Some ws \<Rightarrow> Inr (b\<lparr>workers := Some (map (worker_DisablePollingFunction name) ws)\<rparr>))"

definition bb_DisablePollingFunction_group :: "string \<Rightarrow> u32 \<Rightarrow> 'w BackBurner \<Rightarrow> 'w BackBurner result" where
  "bb_DisablePollingFunction_group name group_id b =
     rbind (worker_of group_id b) (\<lambda>i. with_worker i (\<lambda>w. Inr (worker_DisablePollingFunction name w)) b)"

section \<open>The invariant of a worker\<close>

definition worker_inv :: "'w Worker \<Rightarrow> bool" where
  "worker_inv w = (executed w @ tasks_consumer w @ tasks_producer w = added w \<and>
     producer_num w - consumer_num w = word_of_nat (length (tasks_producer w)) \<and>
     (server_at w \<noteq> Draining \<longrightarrow> tasks_consumer w = []) \<and>
     (tasks_producer w \<noteq> [] \<longrightarrow> length (tasks_producer w) < 2 ^ 32 \<longrightarrow>
        pipe w > 0 \<or> in_flight w > 0 \<or> server_at w = Checking \<or> server_at w = Swapping \<or> server_at w = Stopped))"

lemma fold_push: "fold (\<lambda>x q. q @ [x]) xs q = q @ xs"
  by (induction xs arbitrary: q) auto

lemma nums_differ:
  assumes "producer_num w - consumer_num w = word_of_nat (length (tasks_producer w))" "length (tasks_producer w) < 2 ^ 32"
  shows "producer_num w \<noteq> consumer_num w \<longleftrightarrow> tasks_producer w \<noteq> []"
proof -
  have "producer_num w = consumer_num w \<longleftrightarrow> word_of_nat (length (tasks_producer w)) = (0 :: u32)"
    using assms(1) by (metis right_minus_eq)
  also have "\<dots> \<longleftrightarrow> tasks_producer w = []"
    using assms(2) by (auto simp: word_of_nat_eq_0_iff dest: dvd_imp_le)
  finally show ?thesis by blast
qed

lemma worker_inv_new: "worker_inv new_Worker"
  by (simp add: worker_inv_def new_Worker_def)

lemma worker_inv_push: "worker_inv w \<Longrightarrow> worker_inv (worker_push x w)"
  by (auto simp: worker_inv_def worker_push_def algebra_simps)

lemma worker_inv_push_all: "worker_inv w \<Longrightarrow> worker_inv (worker_push_all xs w)"
  by (auto simp: worker_inv_def worker_push_all_def fold_push algebra_simps)

lemma worker_inv_notify: "worker_inv w \<Longrightarrow> notifyNewWork capacity w = Inr w' \<Longrightarrow> worker_inv w'"
  by (auto simp: worker_inv_def notifyNewWork_def split: if_splits)

lemma worker_inv_stop: "worker_inv w \<Longrightarrow> worker_inv (stop_worker w)"
  by (simp add: worker_inv_def stop_worker_def)

lemma worker_inv_block: "worker_inv w \<Longrightarrow> server_at w = Blocking \<Longrightarrow> server_block w = Some w' \<Longrightarrow> worker_inv w'"
  by (auto simp: worker_inv_def server_block_def split: if_splits)

lemma worker_inv_check: "worker_inv w \<Longrightarrow> server_at w = Checking \<Longrightarrow> worker_inv (server_check w)"
  using nums_differ [of w] by (auto simp: worker_inv_def server_check_def)

lemma worker_inv_swap: "worker_inv w \<Longrightarrow> server_at w = Swapping \<Longrightarrow> worker_inv (server_swap w)"
  by (auto simp: worker_inv_def server_swap_def Let_def)

lemma worker_inv_drain: "worker_inv w \<Longrightarrow> server_at w = Draining \<Longrightarrow> worker_inv (server_drain w)"
  by (cases "tasks_consumer w") (auto simp: worker_inv_def server_drain_def)

lemma worker_inv_poll: "worker_inv w \<Longrightarrow> server_at w = Polling \<Longrightarrow> worker_inv (server_poll w)"
  by (auto simp: worker_inv_def server_poll_def)

lemmas worker_inv_intros = worker_inv_push worker_inv_push_all worker_inv_notify worker_inv_stop worker_inv_block
  worker_inv_check worker_inv_swap worker_inv_drain worker_inv_poll

lemma worker_inv_step: "worker_step capacity w w' \<Longrightarrow> worker_inv w \<Longrightarrow> worker_inv w'"
  by (induction rule: worker_step.induct) (blast intro: worker_inv_intros)+

lemma worker_reachable_inv: "worker_reachable capacity w \<Longrightarrow> worker_inv w"
  by (induction rule: worker_reachable.induct) (blast intro: worker_inv_new worker_inv_step)+

section \<open>A worker is a queue\<close>

text \<open>
  What the users of the backburner rely on: work is taken in the order in which it was added, each piece
  once.
\<close>
fun take_work :: "('s \<Rightarrow> ('w \<times> 's) option) \<Rightarrow> nat \<Rightarrow> 's \<Rightarrow> 'w list \<times> 's" where
  "take_work next_work 0 s = ([], s)"
| "take_work next_work (Suc n) s = (case next_work s of
     None \<Rightarrow> ([], s)
   | Some (x, s1) \<Rightarrow> let (xs, s2) = take_work next_work n s1 in (x # xs, s2))"

locale work_queue =
  fixes add_work :: "'w \<Rightarrow> 's \<Rightarrow> 's" and next_work :: "'s \<Rightarrow> ('w \<times> 's) option"
    and contents :: "'s \<Rightarrow> 'w list" and inv :: "'s \<Rightarrow> bool"
  assumes add_contents: "inv s \<Longrightarrow> contents (add_work x s) = contents s @ [x]"
    and add_inv: "inv s \<Longrightarrow> length (contents s) + 1 < 2 ^ 32 \<Longrightarrow> inv (add_work x s)"
    and next_empty: "inv s \<Longrightarrow> contents s = [] \<Longrightarrow> next_work s = None"
    and next_some: "inv s \<Longrightarrow> contents s = x # xs \<Longrightarrow> \<exists>s'. next_work s = Some (x, s') \<and> contents s' = xs \<and> inv s'"
begin

lemma take_in_order:
  "inv s \<Longrightarrow> \<exists>s'. take_work next_work n s = (take n (contents s), s') \<and> contents s' = drop n (contents s) \<and> inv s'"
proof (induction n arbitrary: s)
  case (Suc n)
  show ?case
  proof (cases "contents s")
    case Nil
    then show ?thesis using next_empty [OF Suc.prems] Suc.prems by simp
  next
    case (Cons x xs)
    then obtain s1 where s1: "next_work s = Some (x, s1)" "contents s1 = xs" "inv s1" using next_some [OF Suc.prems] by blast
    then show ?thesis using Suc.IH [OF s1(3)] Cons by auto
  qed
qed simp

lemma add_all:
  "inv s \<Longrightarrow> length (contents s) + length xs < 2 ^ 32 \<Longrightarrow>
   contents (fold add_work xs s) = contents s @ xs \<and> inv (fold add_work xs s)"
  by (induction xs arbitrary: s) (auto simp: add_contents add_inv)

end

definition next_task :: "'w Worker \<Rightarrow> ('w \<times> 'w Worker) option" where
  "next_task w =
     (let w1 = (if tasks_consumer w = [] \<and> producer_num w \<noteq> consumer_num w then server_swap w else w) in
      case tasks_consumer w1 of [] \<Rightarrow> None | x # _ \<Rightarrow> Some (x, server_drain w1))"

definition worker_contents :: "'w Worker \<Rightarrow> 'w list" where
  "worker_contents w = tasks_consumer w @ tasks_producer w"

definition worker_ok :: "'w Worker \<Rightarrow> bool" where
  "worker_ok w = (producer_num w - consumer_num w = word_of_nat (length (tasks_producer w)) \<and>
     length (tasks_producer w) < 2 ^ 32)"

interpretation worker: work_queue worker_push next_task worker_contents worker_ok
proof
  fix s :: "'a Worker" and x xs
  show "worker_contents (worker_push x s) = worker_contents s @ [x]" by (simp add: worker_contents_def worker_push_def)
  show "worker_ok (worker_push x s)" if "worker_ok s" "length (worker_contents s) + 1 < 2 ^ 32"
    using that by (simp add: worker_ok_def worker_push_def worker_contents_def algebra_simps)
  show "next_task s = None" if "worker_contents s = []"
    using that by (simp add: next_task_def worker_contents_def server_swap_def Let_def)
  show "\<exists>s'. next_task s = Some (x, s') \<and> worker_contents s' = xs \<and> worker_ok s'"
    if ok: "worker_ok s" and c: "worker_contents s = x # xs"
  proof (cases "tasks_consumer s")
    case Nil
    then have p: "tasks_producer s = x # xs" using c by (simp add: worker_contents_def)
    then have "producer_num s \<noteq> consumer_num s" using nums_differ [of s] ok by (simp add: worker_ok_def)
    then show ?thesis using Nil p
      by (simp add: next_task_def server_swap_def server_drain_def worker_contents_def worker_ok_def Let_def)
  next
    case (Cons y ys)
    then show ?thesis using c ok
      by (simp add: next_task_def server_drain_def worker_contents_def worker_ok_def Let_def)
  qed
qed

section \<open>Properties\<close>

text \<open>
  C24. In every reachable state of a worker, under every interleaving of callers and thread, the work executed,
  followed by the work in the two queues, is the work added, in order and without loss or repetition.  When the thread
  is blocked on an empty pipe and no caller is between its push and its notification, all the work added has been
  executed: no wake-up is lost.
\<close>
theorem backburner_no_lost_work:
  assumes "worker_reachable capacity w"
  shows "executed w @ tasks_consumer w @ tasks_producer w = added w \<and>
    (server_at w = Blocking \<longrightarrow> pipe w = 0 \<longrightarrow> in_flight w = 0 \<longrightarrow> length (added w) < 2 ^ 32 \<longrightarrow> executed w = added w)"
proof -
  have inv: "worker_inv w" using assms by (rule worker_reachable_inv)
  then have eq: "executed w @ tasks_consumer w @ tasks_producer w = added w" by (simp add: worker_inv_def)
  have "length (tasks_producer w) \<le> length (executed w @ tasks_consumer w @ tasks_producer w)" by simp
  then have "length (tasks_producer w) \<le> length (added w)" unfolding eq .
  then show ?thesis using inv by (auto simp: worker_inv_def)
qed

definition demo_worker :: "nat Worker" where
  "demo_worker = server_poll (server_drain (server_drain (server_swap (server_check
     ((worker_push 7 new_Worker)\<lparr>pipe := 1, in_flight := 0\<rparr>\<lparr>pipe := 0, server_at := Checking\<rparr>)))))"

lemma demo_worker_reachable: "worker_reachable 1 demo_worker"
proof -
  let ?w1 = "worker_push 7 new_Worker :: nat Worker"
  let ?w2 = "?w1\<lparr>pipe := 1, in_flight := 0\<rparr>"
  let ?w3 = "?w2\<lparr>pipe := 0, server_at := Checking\<rparr>"
  have "worker_reachable 1 ?w1" by (rule worker_reachable.step [OF worker_reachable.init worker_step.push])
  then have "worker_reachable 1 ?w2"
    by (rule worker_reachable.step [OF _ worker_step.notify])
      (simp_all add: notifyNewWork_def worker_push_def new_Worker_def)
  then have "worker_reachable 1 ?w3"
    by (rule worker_reachable.step [OF _ worker_step.block])
      (simp_all add: server_block_def worker_push_def new_Worker_def)
  then have "worker_reachable 1 (server_check ?w3)"
    by (rule worker_reachable.step [OF _ worker_step.check]) simp
  then have "worker_reachable 1 (server_swap (server_check ?w3))"
    by (rule worker_reachable.step [OF _ worker_step.swap]) (simp add: server_check_def worker_push_def new_Worker_def)
  then have "worker_reachable 1 (server_drain (server_swap (server_check ?w3)))"
    by (rule worker_reachable.step [OF _ worker_step.drain])
      (simp add: server_swap_def server_check_def worker_push_def new_Worker_def)
  then have "worker_reachable 1 (server_drain (server_drain (server_swap (server_check ?w3))))"
    by (rule worker_reachable.step [OF _ worker_step.drain])
      (simp add: server_drain_def server_swap_def server_check_def worker_push_def new_Worker_def)
  then show ?thesis unfolding demo_worker_def
    by (rule worker_reachable.step [OF _ worker_step.poll])
      (simp add: server_drain_def server_swap_def server_check_def worker_push_def new_Worker_def)
qed

theorem backburner_no_lost_work_witness: "executed demo_worker = [7] \<and> executed demo_worker = added demo_worker"
proof -
  have "server_at demo_worker = Blocking" "pipe demo_worker = 0" "in_flight demo_worker = 0" "added demo_worker = [7]"
    by code_simp+
  then show ?thesis using backburner_no_lost_work [OF demo_worker_reachable] by simp
qed

text \<open>
  Polling functions cannot be registered: before \<^verbatim>\<open>Init\<close> and after \<^verbatim>\<open>Finish\<close> there are no workers, and in
  between the assertion that \<^verbatim>\<open>Start\<close> has not been called tests a flag \<^verbatim>\<open>Init\<close> has already set.
\<close>
lemma polling_functions_never_registered:
  assumes "workers b \<noteq> None \<longrightarrow> bb_configured b"
  shows "\<exists>e. bb_RegisterPollingFunction name g f b = Inl e"
  using assms by (auto simp: bb_RegisterPollingFunction_def worker_of_def rbind_def)

lemma workers_only_when_configured:
  "workers (new_BackBurner :: 'w BackBurner) \<noteq> None \<longrightarrow> bb_configured (new_BackBurner :: 'w BackBurner)"
  "bb_Init n b = Inr b' \<Longrightarrow> workers b' \<noteq> None \<longrightarrow> bb_configured b'"
  "bb_Finish b = Inr b' \<Longrightarrow> workers b' \<noteq> None \<longrightarrow> bb_configured b'"
  by (auto simp: new_BackBurner_def bb_Init_def bb_Finish_def split: if_splits)

end
