(* ===== verification/Kelpie_Types.thy ===== *)
theory Kelpie_Types
  imports Node_Ids
begin

text \<open>
  Kelpie's basic data: keys with their wildcard matching, tags and binary packing
  (\<^verbatim>\<open>kelpie/Key.hh\<close>, \<^verbatim>\<open>kelpie/Key.cpp\<close>), return codes, availability, object
  information and pool-behaviour flags (\<^verbatim>\<open>kelpie/common/Types.hh\<close>,
  \<^verbatim>\<open>Types.cpp\<close>), and the listing results (\<^verbatim>\<open>kelpie/common/ObjectCapacities.cpp\<close>).
\<close>

section \<open>Return codes\<close>

type_synonym rc_t = int

definition KELPIE_OK :: rc_t where "KELPIE_OK = 0"
definition KELPIE_WAITING :: rc_t where "KELPIE_WAITING = 1"
definition KELPIE_EEXIST :: rc_t where "KELPIE_EEXIST = 2"
definition KELPIE_RECHECK :: rc_t where "KELPIE_RECHECK = 3"
definition KELPIE_ENOENT :: rc_t where "KELPIE_ENOENT = -2"
definition KELPIE_EIO :: rc_t where "KELPIE_EIO = -5"
definition KELPIE_EINVAL :: rc_t where "KELPIE_EINVAL = -22"
definition KELPIE_TODO :: rc_t where "KELPIE_TODO = -1000"

lemmas rc_defs = KELPIE_OK_def KELPIE_WAITING_def KELPIE_EEXIST_def KELPIE_RECHECK_def
  KELPIE_ENOENT_def KELPIE_EIO_def KELPIE_EINVAL_def KELPIE_TODO_def

section \<open>Keys\<close>

datatype key = Key (K1: string) (K2: string)

definition Key1 :: "string \<Rightarrow> key" where
  "Key1 k1 = Key k1 []"

definition key_less :: "key \<Rightarrow> key \<Rightarrow> bool" where
  "key_less a b = (K1 a < K1 b \<or> K1 a = K1 b \<and> K2 a < K2 b)"

definition valid :: "key \<Rightarrow> bool" where
  "valid k = (length (K1 k) > 0)"

definition IsRowWildcard :: "key \<Rightarrow> bool" where
  "IsRowWildcard k = StringEndsWith (K1 k) ''*''"

definition IsColWildcard :: "key \<Rightarrow> bool" where
  "IsColWildcard k = StringEndsWith (K2 k) ''*''"

definition IsWildcard :: "key \<Rightarrow> bool" where
  "IsWildcard k = (IsRowWildcard k \<or> IsColWildcard k)"

definition matchesPrefixString :: "key \<Rightarrow> bool \<Rightarrow> string \<Rightarrow> bool \<Rightarrow> string \<Rightarrow> bool" where
  "matchesPrefixString k row_is_prefix row_match col_is_prefix col_match =
     (if row_is_prefix \<and> row_match \<noteq> [] \<and> \<not> StringBeginsWith (K1 k) row_match then False
      else if \<not> row_is_prefix \<and> K1 k \<noteq> row_match then False
      else if col_is_prefix \<and> col_match \<noteq> [] \<and> \<not> StringBeginsWith (K2 k) col_match then False
      else if \<not> col_is_prefix \<and> K2 k \<noteq> col_match then False
      else True)"

definition Matches :: "key \<Rightarrow> string \<Rightarrow> string \<Rightarrow> bool" where
  "Matches k row_wildcard col_wildcard =
     (let is_row_wildcard = StringEndsWith row_wildcard ''*'';
          is_col_wildcard = StringEndsWith col_wildcard ''*'';
          row_prefix = (if is_row_wildcard then take (length row_wildcard - 1) row_wildcard else row_wildcard);
          col_prefix = (if is_col_wildcard then take (length col_wildcard - 1) col_wildcard else col_wildcard)
      in matchesPrefixString k is_row_wildcard row_prefix is_col_wildcard col_prefix)"

definition Matches_key :: "key \<Rightarrow> key \<Rightarrow> bool" where
  "Matches_key k pattern_key = Matches k (K1 pattern_key) (K2 pattern_key)"

text \<open>\<^verbatim>\<open>find_last_of(c)\<close>: the text before the last occurrence and the text after it.\<close>

definition break_last :: "char \<Rightarrow> string \<Rightarrow> (string \<times> string) option" where
  "break_last c s = map_option (\<lambda>(a, b). (rev b, rev a)) (break_at c (rev s))"

definition remove_tag :: "string \<Rightarrow> string" where
  "remove_tag k1 = (case break_last CHR ''{'' k1 of
     Some (pre, _) \<Rightarrow> if k1 \<noteq> [] \<and> last k1 = CHR ''}'' then pre else k1
   | None \<Rightarrow> k1)"

definition SetK1Tag :: "key \<Rightarrow> u32 \<Rightarrow> key" where
  "SetK1Tag k new_tag =
     Key (remove_tag (K1 k) @ ''{0x'' @ hex_of_nat (unat new_tag) @ ''}'') (K2 k)"

text \<open>Reading a 32-bit value from a stream in hex mode saturates at the type's maximum.\<close>

definition stream_hex32 :: "string \<Rightarrow> u32 result" where
  "stream_hex32 s =
     rbind (stream_hex s) (\<lambda>v. Inr (if unat v > 0xFFFFFFFF then 0xFFFFFFFF else ucast v))"

definition GetK1Tag :: "key \<Rightarrow> (rc_t \<times> u32) result" where
  "GetK1Tag k =
     (case break_last CHR ''{'' (K1 k) of
        None \<Rightarrow> Inr (KELPIE_ENOENT, 0)
      | Some (_, post) \<Rightarrow>
          if last (K1 k) \<noteq> CHR ''}'' then Inr (KELPIE_ENOENT, 0)
          else rbind (stream_hex32 (butlast post)) (\<lambda>val. Inr (KELPIE_OK, val)))"

definition pup_pack :: "key \<Rightarrow> string result" where
  "pup_pack k =
     (if length (K1 k) > 255 \<or> length (K2 k) > 255 then Inl Runtime_error
      else Inr (K1 k @ K2 k @ [char_of (length (K1 k)), char_of (length (K2 k))]))"

definition pup_unpack :: "string \<Rightarrow> key result" where
  "pup_unpack packed_string =
     (let n = length packed_string;
          (s0, s1) = (if n > 2 then (ord (packed_string ! (n - 2)), ord (packed_string ! (n - 1))) else (0, 0))
      in if s0 + s1 + 2 > n then Inl Runtime_error
         else Inr (Key (if s0 = 0 then [] else take s0 packed_string)
                       (if s1 = 0 then [] else take s1 (drop s0 packed_string))))"

definition key_str :: "key \<Rightarrow> string" where
  "key_str k = K1 k @ ''|'' @ K2 k"

definition str_as_args :: "key \<Rightarrow> string" where
  "str_as_args k =
     (if K1 k \<noteq> [] then ''-k1 '' @ K1 k else []) @
     (if K1 k \<noteq> [] \<and> K2 k \<noteq> [] then '' '' else []) @
     (if K2 k \<noteq> [] then ''-k2 '' @ K2 k else [])"

text \<open>The row name is drawn first, then the column name, from the same generator.\<close>

definition Key_Random :: "(nat \<Rightarrow> nat) \<Rightarrow> nat \<Rightarrow> nat \<Rightarrow> key" where
  "Key_Random rand k1_length k2_length =
     (let s1 = RandomString rand k1_length in
      if k2_length = 0 then Key1 s1
      else Key s1 (RandomString (\<lambda>i. rand (k1_length + i)) k2_length))"

definition Key_Random_row :: "(nat \<Rightarrow> nat) \<Rightarrow> string \<Rightarrow> nat \<Rightarrow> key" where
  "Key_Random_row rand k1_name k2_length =
     (if k2_length = 0 then Key1 k1_name else Key k1_name (RandomString rand k2_length))"

definition Key_Random_col :: "(nat \<Rightarrow> nat) \<Rightarrow> nat \<Rightarrow> string \<Rightarrow> key" where
  "Key_Random_col rand k1_length k2_name = Key (RandomString rand k1_length) k2_name"

instantiation key :: linorder
begin

definition less_key_def: "a < b = key_less a b"

definition less_eq_key_def: "a \<le> b = (key_less a b \<or> a = b)"

instance
proof
  fix x y z :: key
  show "x < y \<longleftrightarrow> x \<le> y \<and> \<not> y \<le> x"
    by (cases x; cases y) (auto simp: less_key_def less_eq_key_def key_less_def)
  show "x \<le> x" by (simp add: less_eq_key_def)
  show "x \<le> y \<Longrightarrow> y \<le> z \<Longrightarrow> x \<le> z"
    by (auto simp: less_eq_key_def key_less_def)
  show "x \<le> y \<Longrightarrow> y \<le> x \<Longrightarrow> x = y"
    by (auto simp: less_eq_key_def key_less_def)
  show "x \<le> y \<or> y \<le> x"
    by (cases x; cases y) (auto simp: less_eq_key_def key_less_def)
qed

end

section \<open>Availability and object information\<close>

datatype Availability = Unavailable | Requested | MixedConditions | InLocalMemory
  | InRemoteMemory | InNVM | InDisk

definition availability_to_string :: "Availability \<Rightarrow> string" where
  "availability_to_string a = (case a of
     Unavailable \<Rightarrow> ''Unavailable'' | Requested \<Rightarrow> ''Requested''
   | InLocalMemory \<Rightarrow> ''InLocalMemory'' | InRemoteMemory \<Rightarrow> ''InRemoteMemory''
   | InNVM \<Rightarrow> ''InNVM'' | InDisk \<Rightarrow> ''InDisk'' | _ \<Rightarrow> ''Unknown?'')"

record object_info_t =
  row_user_bytes :: u64
  col_user_bytes :: u64
  row_num_columns :: u16
  col_dependencies :: u16
  col_availability :: Availability

definition Wipe_info :: object_info_t where
  "Wipe_info = \<lparr>row_user_bytes = 0, col_user_bytes = 0, row_num_columns = 0,
     col_dependencies = 0, col_availability = Unavailable\<rparr>"

definition object_info_str :: "object_info_t \<Rightarrow> string" where
  "object_info_str info =
     ''RowBytes: '' @ dec_of_nat (unat (row_user_bytes info)) @
     '' NumCols: '' @ dec_of_nat (unat (row_num_columns info)) @
     '' ColBytes: '' @ dec_of_nat (unat (col_user_bytes info)) @
     '' ColDepenencies: '' @ dec_of_nat (unat (col_dependencies info)) @
     '' Availability: '' @ availability_to_string (col_availability info)"

definition ChangeAvailabilityFromLocalToRemote :: "object_info_t \<Rightarrow> object_info_t" where
  "ChangeAvailabilityFromLocalToRemote info =
     (if col_availability info = InLocalMemory then info\<lparr>col_availability := InRemoteMemory\<rparr> else info)"

section \<open>Pool behaviour flags\<close>

type_synonym pool_behavior_t = u8

definition WriteToLocal :: pool_behavior_t where "WriteToLocal = 0x01"
definition WriteToRemote :: pool_behavior_t where "WriteToRemote = 0x02"
definition WriteToIOM :: pool_behavior_t where "WriteToIOM = 0x04"
definition ReadToLocal :: pool_behavior_t where "ReadToLocal = 0x08"
definition ReadToRemote :: pool_behavior_t where "ReadToRemote = 0x10"
definition EnableOverwrites :: pool_behavior_t where "EnableOverwrites = 0x80"

lemmas flag_defs = WriteToLocal_def WriteToRemote_def WriteToIOM_def ReadToLocal_def
  ReadToRemote_def EnableOverwrites_def

definition has_flag :: "pool_behavior_t \<Rightarrow> pool_behavior_t \<Rightarrow> bool" where
  "has_flag f b = (and f b \<noteq> 0)"

definition behavior_labels :: "(string \<times> pool_behavior_t) list" where
  "behavior_labels =
    [(''writetolocal'', WriteToLocal), (''writetoremote'', WriteToRemote), (''writetoiom'', WriteToIOM),
     (''readtolocal'', ReadToLocal), (''readtoremote'', ReadToRemote),
     (''enableoverwrites'', EnableOverwrites), (''writearound'', WriteToIOM),
     (''writememory'', or WriteToLocal WriteToRemote),
     (''writeall'', or (or WriteToLocal WriteToRemote) WriteToIOM), (''readtonone'', 0),
     (''defaultlocal'', or WriteToLocal ReadToLocal), (''defaultremote'', or WriteToRemote ReadToLocal),
     (''defaultiom'', or WriteToIOM 0),
     (''defaultlocaliom'', or (or WriteToIOM WriteToLocal) ReadToLocal),
     (''defaultremoteiom'', or (or WriteToIOM WriteToRemote) ReadToRemote),
     (''defaultcachingiom'', or (or (or (or WriteToLocal WriteToRemote) WriteToIOM) ReadToLocal) ReadToRemote)]"

definition ChangeRemoteToLocal :: "pool_behavior_t \<Rightarrow> pool_behavior_t" where
  "ChangeRemoteToLocal f =
     (let f1 = and f (not (or WriteToLocal ReadToLocal));
          f2 = (if has_flag f1 WriteToRemote then or f1 WriteToLocal else f1);
          f3 = (if has_flag f2 ReadToRemote then or f2 ReadToLocal else f2)
      in and f3 (not (or WriteToRemote ReadToRemote)))"

fun ParseString_loop :: "string list \<Rightarrow> pool_behavior_t \<Rightarrow> pool_behavior_t result" where
  "ParseString_loop [] f = Inr f"
| "ParseString_loop (s # syms) f =
     (case map_of behavior_labels s of
        Some b \<Rightarrow> ParseString_loop syms (or f b)
      | None \<Rightarrow> Inl Runtime_error)"

definition ParseString :: "string \<Rightarrow> pool_behavior_t result" where
  "ParseString parse_line = ParseString_loop (Split (ToLowercase parse_line) CHR ''_'' True) 0"

definition flag_names :: "(pool_behavior_t \<times> string) list" where
  "flag_names = [(WriteToLocal, ''WriteToLocal''), (WriteToRemote, ''WriteToRemote''),
     (WriteToIOM, ''WriteToIOM''), (ReadToLocal, ''ReadToLocal''), (ReadToRemote, ''ReadToRemote''),
     (EnableOverwrites, ''EnableOverwrites'')]"

definition GetString :: "pool_behavior_t \<Rightarrow> string" where
  "GetString f = Join (map snd (filter (\<lambda>(b, n). has_flag f b) flag_names)) CHR '' ''"

section \<open>Listing results\<close>

record ObjectCapacities =
  oc_keys :: "key list"
  oc_capacities :: "u64 list"

definition oc_empty :: ObjectCapacities where
  "oc_empty = \<lparr>oc_keys = [], oc_capacities = []\<rparr>"

definition oc_Append :: "key \<Rightarrow> u64 \<Rightarrow> ObjectCapacities \<Rightarrow> ObjectCapacities" where
  "oc_Append key capacity oc = oc\<lparr>oc_keys := oc_keys oc @ [key], oc_capacities := oc_capacities oc @ [capacity]\<rparr>"

definition oc_AppendAll :: "ObjectCapacities \<Rightarrow> ObjectCapacities \<Rightarrow> ObjectCapacities" where
  "oc_AppendAll oc other =
     oc\<lparr>oc_keys := oc_keys oc @ oc_keys other, oc_capacities := oc_capacities oc @ oc_capacities other\<rparr>"

definition oc_Merge :: "ObjectCapacities \<Rightarrow> ObjectCapacities \<Rightarrow> ObjectCapacities" where
  "oc_Merge oc other =
     fold (\<lambda>i oc. if oc_keys other ! i \<in> set (oc_keys oc) then oc
                  else oc_Append (oc_keys other ! i) (oc_capacities other ! i) oc)
       [0..<length (oc_keys other)] oc"

fun FindIndex_from :: "int \<Rightarrow> key list \<Rightarrow> key \<Rightarrow> int" where
  "FindIndex_from i [] key = -1"
| "FindIndex_from i (k # ks) key = (if k = key then i else FindIndex_from (i + 1) ks key)"

definition oc_FindIndex :: "ObjectCapacities \<Rightarrow> key \<Rightarrow> int" where
  "oc_FindIndex oc key = FindIndex_from 0 (oc_keys oc) key"

definition oc_Wipe :: "ObjectCapacities \<Rightarrow> ObjectCapacities" where
  "oc_Wipe oc = oc\<lparr>oc_keys := [], oc_capacities := []\<rparr>"

definition oc_wf :: "ObjectCapacities \<Rightarrow> bool" where
  "oc_wf oc = (length (oc_keys oc) = length (oc_capacities oc))"

section \<open>Laws of keys\<close>

lemma pup_unpack_pack:
  assumes "pup_pack k = Inr s"
  shows "pup_unpack s = Inr k"
proof -
  obtain a b where k: "k = Key a b" by (cases k)
  have len: "length a \<le> 255" "length b \<le> 255"
    and s: "s = a @ b @ [char_of (length a), char_of (length b)]"
    using assms k by (auto simp: pup_pack_def split: if_splits)
  have "s ! (length s - 2) = char_of (length a)" "s ! (length s - 1) = char_of (length b)"
    unfolding s by (simp_all add: nth_append)
  then show ?thesis
    using len unfolding k by (simp add: pup_unpack_def Let_def ord_char_of) (auto simp: s)
qed

lemma pup_pack_ok: "length (K1 k) \<le> 255 \<Longrightarrow> length (K2 k) \<le> 255 \<Longrightarrow> \<exists>s. pup_pack k = Inr s"
  by (simp add: pup_pack_def)

definition pup_bytes :: "key \<Rightarrow> string" where
  "pup_bytes k = (case pup_pack k of Inr s \<Rightarrow> s | Inl _ \<Rightarrow> [])"

definition packable :: "key \<Rightarrow> bool" where
  "packable k = (length (K1 k) \<le> 255 \<and> length (K2 k) \<le> 255)"

interpretation key_codec: codec pup_bytes "\<lambda>s. decode_ok (pup_unpack s)" packable
proof
  fix k assume "packable k"
  then obtain s where "pup_pack k = Inr s" using pup_pack_ok by (auto simp: packable_def)
  then show "decode_ok (pup_unpack (pup_bytes k)) = Some k"
    by (simp add: pup_bytes_def pup_unpack_pack decode_ok_def)
qed

lemma break_last_append: "c \<notin> set b \<Longrightarrow> break_last c (a @ c # b) = Some (a, b)"
  by (simp add: break_last_def)

lemma hex_text_no_brace: "c \<in> set (''0x'' @ hex_of_nat n) \<Longrightarrow> c \<noteq> CHR ''{''"
  using hex_of_nat_xdigit [of c n] by (auto simp: isxdigit_def isdigit_def ord_def)

lemma strtoul_0x_hex: "strtoul (''0x'' @ hex_of_nat (unat (w :: u32))) 16 = (ucast w, False)"
proof -
  have d: "list_all isxdigit (hex_of_nat (unat w))" "hex_of_nat (unat w) \<noteq> []" by simp_all
  obtain c cs where c: "hex_of_nat (unat w) = c # cs" using d(2) by (cases "hex_of_nat (unat w)") auto
  have "isxdigit c" using d(1) c by simp
  have "c_str (''0x'' @ hex_of_nat (unat w)) = ''0x'' @ hex_of_nat (unat w)"
    using xdigits_plain(2) [OF d(2,1)] by (simp add: c_str_def ord_def)
  moreover have "hex_prefix (''0x'' @ hex_of_nat (unat w))"
    using \<open>isxdigit c\<close> by (simp add: hex_prefix_def c tolower_def isupper_def ord_def)
  moreover have "unat w < 2 ^ 64" using unsigned_less [of w, where ?'a = nat] by simp
  ultimately show ?thesis
    using xdigits_plain(5) [OF d(2,1)]
    by (simp add: strtoul_def skip_space_def isspace_def ord_def take_sign_def strtoul_base_def ULONG_MAX_def)
qed

lemma stream_hex32_tag: "stream_hex32 (''0x'' @ hex_of_nat (unat (w :: u32))) = Inr w"
proof -
  have "unat (ucast w :: u64) = unat w"
    using unsigned_less [of w, where ?'a = nat] by (simp add: unsigned_ucast_eq take_bit_nat_eq_self)
  moreover have "(ucast (ucast w :: u64) :: u32) = w" by (rule bit_word_eqI) (simp add: bit_simps)
  moreover have "unat w < 2 ^ 32" using unsigned_less [of w, where ?'a = nat] by simp
  moreover have "skip_space (''0x'' @ hex_of_nat (unat w)) \<noteq> []" by (simp add: skip_space_def isspace_def ord_def)
  ultimately show ?thesis
    using strtoul_0x_hex [of w] by (simp add: stream_hex32_def stream_hex_def)
qed

lemma tag_text_no_brace: "CHR ''{'' \<notin> set (''0x'' @ hex_of_nat (unat t) @ ''}'')"
  using hex_text_no_brace [of "CHR ''{''" "unat t"] by auto

lemma break_last_tag:
  "break_last CHR ''{'' (pre @ ''{0x'' @ hex_of_nat (unat t) @ ''}'') = Some (pre, ''0x'' @ hex_of_nat (unat t) @ ''}'')"
  using break_last_append [OF tag_text_no_brace, of pre t] by simp

lemma GetK1Tag_SetK1Tag: "GetK1Tag (SetK1Tag k t) = Inr (KELPIE_OK, t)"
proof -
  have "butlast (''0x'' @ hex_of_nat (unat t) @ ''}'') = ''0x'' @ hex_of_nat (unat t)"
    by (simp add: butlast_append)
  then show ?thesis
    using break_last_tag [of "remove_tag (K1 k)" t] stream_hex32_tag [of t]
    by (simp add: GetK1Tag_def SetK1Tag_def)
qed

lemma remove_tag_tag: "remove_tag (pre @ ''{0x'' @ hex_of_nat (unat t) @ ''}'') = pre"
  using break_last_tag [of pre t] by (simp add: remove_tag_def)

lemma SetK1Tag_SetK1Tag: "SetK1Tag (SetK1Tag k t) u = SetK1Tag k u"
  using remove_tag_tag [of "remove_tag (K1 k)" t] by (simp add: SetK1Tag_def)

text \<open>A pattern matches a string when it ends in a star and its stem is a prefix, or when they are equal.\<close>

definition pattern_matches :: "string \<Rightarrow> string \<Rightarrow> bool" where
  "pattern_matches p s = (if StringEndsWith p ''*'' then prefix (butlast p) s else s = p)"

lemma Matches_pattern: "Matches k r c \<longleftrightarrow> pattern_matches r (K1 k) \<and> pattern_matches c (K2 k)"
  by (auto simp: Matches_def matchesPrefixString_def pattern_matches_def Let_def
      StringBeginsWith_prefix butlast_conv_take)

lemma StringEndsWith_star: "StringEndsWith p ''*'' \<longleftrightarrow> p \<noteq> [] \<and> last p = CHR ''*''"
  by (cases p rule: rev_cases) (auto simp: StringEndsWith_suffix)

lemma Matches_self: "\<not> IsWildcard k \<Longrightarrow> Matches_key k k"
  by (auto simp: Matches_key_def Matches_pattern pattern_matches_def IsWildcard_def IsRowWildcard_def IsColWildcard_def)

section \<open>Laws of flags\<close>

lemma flag_bits:
  "has_flag f WriteToLocal = bit f 0" "has_flag f WriteToRemote = bit f 1" "has_flag f WriteToIOM = bit f 2"
  "has_flag f ReadToLocal = bit f 3" "has_flag f ReadToRemote = bit f 4" "has_flag f EnableOverwrites = bit f 7"
proof -
  have "and f (push_bit n 1) \<noteq> 0 \<longleftrightarrow> bit f n" if "n < 8" for n
    using that by (simp add: push_bit_eq_mult and_exp_eq_0_iff_not_bit)
  from this [of 0] this [of 1] this [of 2] this [of 3] this [of 4] this [of 7]
  show "has_flag f WriteToLocal = bit f 0" "has_flag f WriteToRemote = bit f 1" "has_flag f WriteToIOM = bit f 2"
    "has_flag f ReadToLocal = bit f 3" "has_flag f ReadToRemote = bit f 4" "has_flag f EnableOverwrites = bit f 7"
    by (simp_all add: has_flag_def flag_defs)
qed

lemma ChangeRemoteToLocal_bits:
  "bit (ChangeRemoteToLocal f) n =
     (if n = 0 then bit f 1 else if n = 3 then bit f 4 else if n = 1 \<or> n = 4 then False else bit f n)"
proof (cases "n < 8")
  case True
  then have "n = 0 \<or> n = 1 \<or> n = 2 \<or> n = 3 \<or> n = 4 \<or> n = 5 \<or> n = 6 \<or> n = 7" by linarith
  then show ?thesis
    unfolding ChangeRemoteToLocal_def Let_def unfolding flag_bits unfolding flag_defs
    by (elim disjE) (simp_all add: bit_simps)
next
  case False
  then show ?thesis
    using bit_imp_le_length [of "ChangeRemoteToLocal f" n] bit_imp_le_length [of f n] by auto
qed

section \<open>Laws of listing results\<close>

lemma oc_Merge_loop:
  assumes "oc_wf other" "oc_wf oc" "n \<le> length (oc_keys other)"
  shows "let r = fold (\<lambda>i oc. if oc_keys other ! i \<in> set (oc_keys oc) then oc
                  else oc_Append (oc_keys other ! i) (oc_capacities other ! i) oc) [0..<n] oc
     in oc_wf r \<and> set (oc_keys r) = set (oc_keys oc) \<union> set (take n (oc_keys other)) \<and>
        (distinct (oc_keys oc) \<longrightarrow> distinct (oc_keys r)) \<and> prefix (oc_keys oc) (oc_keys r)"
  using assms(3)
proof (induction n)
  case (Suc n)
  then show ?case using assms
    by (auto simp: Let_def oc_Append_def oc_wf_def take_Suc_conv_app_nth)
qed (use assms in auto)

lemma oc_Merge_keys:
  assumes "oc_wf other" "oc_wf oc"
  shows "oc_wf (oc_Merge oc other)" "set (oc_keys (oc_Merge oc other)) = set (oc_keys oc) \<union> set (oc_keys other)"
    "distinct (oc_keys oc) \<Longrightarrow> distinct (oc_keys (oc_Merge oc other))"
    "prefix (oc_keys oc) (oc_keys (oc_Merge oc other))"
  using oc_Merge_loop [OF assms order_refl] by (auto simp: oc_Merge_def Let_def)

lemma FindIndex_from_spec:
  "FindIndex_from i ks key = (if key \<in> set ks then i + int (length (takeWhile (\<lambda>k. k \<noteq> key) ks)) else -1)"
  by (induction ks arbitrary: i) auto

section \<open>Properties\<close>

text \<open>
  Packing a key to its binary form succeeds exactly for keys whose two parts have at most 255
  bytes, and unpacking gives the key back, whatever bytes the parts hold.
\<close>
theorem key_pup_roundtrip:
  "(if packable k then rbind (pup_pack k) pup_unpack = Inr k else pup_pack k = Inl Runtime_error)"
proof (cases "packable k")
  case True
  then obtain s where "pup_pack k = Inr s" using pup_pack_ok by (auto simp: packable_def)
  then show ?thesis using True by (simp add: pup_unpack_pack)
qed (auto simp: pup_pack_def packable_def)

text \<open>
  A tag set on a key is the tag read from it, setting a second tag replaces the first, and
  the column part is untouched.
\<close>
theorem key_tag_roundtrip:
  "GetK1Tag (SetK1Tag k t) = Inr (KELPIE_OK, t) \<and> SetK1Tag (SetK1Tag k t) u = SetK1Tag k u \<and>
   K2 (SetK1Tag k t) = K2 k"
  by (simp add: GetK1Tag_SetK1Tag SetK1Tag_SetK1Tag) (simp add: SetK1Tag_def)

text \<open>
  Moving behaviour flags to the remote node: the local flags of the result are the remote flags
  of the argument, the remote flags are cleared, and every other flag is kept.
\<close>
theorem ChangeRemoteToLocal_spec:
  "has_flag (ChangeRemoteToLocal f) WriteToLocal = has_flag f WriteToRemote \<and>
   has_flag (ChangeRemoteToLocal f) ReadToLocal = has_flag f ReadToRemote \<and>
   \<not> has_flag (ChangeRemoteToLocal f) WriteToRemote \<and> \<not> has_flag (ChangeRemoteToLocal f) ReadToRemote \<and>
   has_flag (ChangeRemoteToLocal f) WriteToIOM = has_flag f WriteToIOM \<and>
   has_flag (ChangeRemoteToLocal f) EnableOverwrites = has_flag f EnableOverwrites"
  by (simp add: flag_bits ChangeRemoteToLocal_bits)

end
