(* ===== verification/Lunasa_Object.thy ===== *)
theory Lunasa_Object
  imports Prelude
begin

text \<open>
  Lunasa data objects (\<^verbatim>\<open>lunasa/DataObject.cpp\<close>) as values: what a handle that points at an
  allocation lets its holder read.  The header's type and the two length fields keep their widths.
  The padding is the number stored with the allocation when it was made; resizing an object leaves it
  alone, so it need not be the one that fits the object's present size.
  The wire and file image is the header (type, meta length, data length, little endian) followed by
  the meta and data sections.  Allocations, reference counts and handles are in \<open>Lunasa_Heap\<close>.
\<close>

section \<open>Objects\<close>

record dataobject =
  do_type :: u16
  do_meta :: "u8 list"
  do_data :: "u8 list"
  do_padding :: u32

text \<open>A handle is null until it is given an allocation.\<close>

type_synonym ldo = "dataobject option"

definition do_wf :: "dataobject \<Rightarrow> bool" where
  "do_wf d = (length (do_meta d) < 2 ^ 16 \<and> length (do_data d) < 2 ^ 32)"

definition GetTypeID :: "ldo \<Rightarrow> u16" where
  "GetTypeID x = (case x of None \<Rightarrow> 0 | Some d \<Rightarrow> do_type d)"

definition SetTypeID :: "u16 \<Rightarrow> ldo \<Rightarrow> ldo" where
  "SetTypeID t x = map_option (\<lambda>d. d\<lparr>do_type := t\<rparr>) x"

definition GetHeaderSize :: u32 where
  "GetHeaderSize = 8"

definition GetMetaSize :: "ldo \<Rightarrow> u32" where
  "GetMetaSize x = (case x of None \<Rightarrow> 0 | Some d \<Rightarrow> word_of_nat (length (do_meta d)))"

definition GetDataSize :: "ldo \<Rightarrow> u32" where
  "GetDataSize x = (case x of None \<Rightarrow> 0 | Some d \<Rightarrow> word_of_nat (length (do_data d)))"

definition GetUserSize :: "ldo \<Rightarrow> u32" where
  "GetUserSize x = (case x of None \<Rightarrow> 0
     | Some d \<Rightarrow> word_of_nat (length (do_meta d)) + word_of_nat (length (do_data d)))"

definition GetWireSize :: "ldo \<Rightarrow> u32" where
  "GetWireSize x = (case x of None \<Rightarrow> 0
     | Some d \<Rightarrow> GetHeaderSize + word_of_nat (length (do_meta d)) + word_of_nat (length (do_data d)))"

definition WipeMeta :: "ldo \<Rightarrow> ldo" where
  "WipeMeta x = map_option (\<lambda>d. d\<lparr>do_meta := replicate (length (do_meta d)) 0\<rparr>) x"

definition WipeData :: "ldo \<Rightarrow> ldo" where
  "WipeData x = map_option (\<lambda>d. d\<lparr>do_data := replicate (length (do_data d)) 0\<rparr>) x"

definition WipeUser :: "ldo \<Rightarrow> ldo" where
  "WipeUser x = map_option (\<lambda>d. d\<lparr>do_meta := replicate (length (do_meta d)) 0,
                               do_data := replicate (length (do_data d)) 0\<rparr>) x"

text \<open>\<^term>\<open>same\<close> says whether the two handles point at the same allocation.\<close>

definition DeepCompare :: "bool \<Rightarrow> ldo \<Rightarrow> ldo \<Rightarrow> int" where
  "DeepCompare same x y =
     (if same then 0
      else case (x, y) of
        (Some a, Some b) \<Rightarrow>
          if do_type a \<noteq> do_type b then -2
          else if GetMetaSize x \<noteq> GetMetaSize y then -3
          else if GetDataSize x \<noteq> GetDataSize y then -4
          else if do_meta a \<noteq> do_meta b then -5
          else if do_data a \<noteq> do_data b then -6
          else 0
      | _ \<Rightarrow> -1)"

text \<open>
  The padding a new allocation gets, with the code's arithmetic: up to a multiple of four, and four more
  for a size that is one already.
\<close>
definition ldo_padding :: "u16 \<Rightarrow> u32 \<Rightarrow> u32" where
  "ldo_padding meta_capacity data_capacity = 4 - and (ucast meta_capacity + data_capacity) 3"

text \<open>The padding an allocation made for exactly this object has, and the object in such an allocation.\<close>

definition fit_padding :: "dataobject \<Rightarrow> u32" where
  "fit_padding d = ldo_padding (word_of_nat (length (do_meta d))) (word_of_nat (length (do_data d)))"

definition fresh_copy :: "dataobject \<Rightarrow> dataobject" where
  "fresh_copy d = d\<lparr>do_padding := fit_padding d\<rparr>"

section \<open>The wire image\<close>

definition le16 :: "u16 \<Rightarrow> u8 list" where
  "le16 w = [ucast w, ucast (drop_bit 8 w)]"

definition le32 :: "u32 \<Rightarrow> u8 list" where
  "le32 w = [ucast w, ucast (drop_bit 8 w), ucast (drop_bit 16 w), ucast (drop_bit 24 w)]"

definition un16 :: "u8 \<Rightarrow> u8 \<Rightarrow> u16" where
  "un16 a b = or (ucast a) (push_bit 8 (ucast b))"

definition un32 :: "u8 \<Rightarrow> u8 \<Rightarrow> u8 \<Rightarrow> u8 \<Rightarrow> u32" where
  "un32 a b c d = or (or (ucast a) (push_bit 8 (ucast b))) (or (push_bit 16 (ucast c)) (push_bit 24 (ucast d)))"

definition wire_image :: "dataobject \<Rightarrow> u8 list" where
  "wire_image d = le16 (do_type d) @ le16 (word_of_nat (length (do_meta d)))
     @ le32 (word_of_nat (length (do_data d))) @ do_meta d @ do_data d"

text \<open>
  What the accessors see after raw bytes, header first, have been placed in an allocation: the
  lengths in the header delimit the sections.  The allocation keeps its padding.
\<close>
definition of_wire :: "u32 \<Rightarrow> u8 list \<Rightarrow> dataobject option" where
  "of_wire padding bs = (case bs of
     t0 # t1 # m0 # m1 # d0 # d1 # d2 # d3 # user \<Rightarrow>
       let mb = unat (un16 m0 m1); db = unat (un32 d0 d1 d2 d3) in
       if mb + db \<le> length user
       then Some \<lparr>do_type = un16 t0 t1, do_meta = take mb user, do_data = take db (drop mb user),
                  do_padding = padding\<rparr>
       else None
   | _ \<Rightarrow> None)"

text \<open>The number of bytes written and the limit on the bytes read are 32-bit sums.\<close>

definition writeToFile :: "ldo \<Rightarrow> u8 list result" where
  "writeToFile x = (case x of None \<Rightarrow> Inl Undefined_behaviour
     | Some d \<Rightarrow> Inr (take (unat (GetWireSize x)) (wire_image d)))"

text \<open>
  \<^verbatim>\<open>readFromFile\<close> overwrites the target's header and user bytes with the file, after
  checking that the file is no larger than the target's own header, meta and data sizes.  Bytes of
  the target past the end of the file keep their value.
\<close>
definition readFromFile :: "u8 list \<Rightarrow> ldo \<Rightarrow> ldo result" where
  "readFromFile file x =
     (case x of None \<Rightarrow> Inl Undefined_behaviour
      | Some d \<Rightarrow>
          let image = wire_image d in
          if length file > unat (GetWireSize x) then Inl Assert_failed
          else case of_wire (do_padding d) (file @ drop (length file) image) of
                 Some d' \<Rightarrow> Inr (Some d')
               | None \<Rightarrow> Inl Undefined_behaviour)"

section \<open>Laws\<close>

lemma un16_le16: "un16 (ucast w) (ucast (drop_bit 8 w)) = w"
  by (rule bit_word_eqI) (auto simp: un16_def bit_simps)

lemma un32_le32:
  "un32 (ucast w) (ucast (drop_bit 8 w)) (ucast (drop_bit 16 w)) (ucast (drop_bit 24 w)) = w"
proof (rule bit_word_eqI)
  fix n assume "n < LENGTH(32)"
  then show "bit (un32 (ucast w) (ucast (drop_bit 8 w)) (ucast (drop_bit 16 w)) (ucast (drop_bit 24 w))) n = bit w n"
    by (cases "n < 16"; cases "n < 24") (auto simp: un32_def bit_simps)
qed

lemma length_wire_image: "length (wire_image d) = 8 + length (do_meta d) + length (do_data d)"
  by (simp add: wire_image_def le16_def le32_def)

lemma wire_image_padding [simp]: "wire_image (d\<lparr>do_padding := p\<rparr>) = wire_image d"
  by (simp add: wire_image_def)

lemma do_wf_padding [simp]: "do_wf (d\<lparr>do_padding := p\<rparr>) = do_wf d"
  by (simp add: do_wf_def)

lemma fresh_copy_simps [simp]:
  "do_type (fresh_copy d) = do_type d" "do_meta (fresh_copy d) = do_meta d" "do_data (fresh_copy d) = do_data d"
  "do_padding (fresh_copy d) = fit_padding d" "wire_image (fresh_copy d) = wire_image d"
  "do_wf (fresh_copy d) = do_wf d" "fit_padding (d\<lparr>do_padding := p\<rparr>) = fit_padding d"
  "GetMetaSize (Some (fresh_copy d)) = GetMetaSize (Some d)" "GetDataSize (Some (fresh_copy d)) = GetDataSize (Some d)"
  "GetUserSize (Some (fresh_copy d)) = GetUserSize (Some d)" "GetWireSize (Some (fresh_copy d)) = GetWireSize (Some d)"
  by (simp_all add: fresh_copy_def fit_padding_def GetMetaSize_def GetDataSize_def GetUserSize_def GetWireSize_def)

lemma fit_padding_fresh [simp]: "fit_padding (fresh_copy d) = fit_padding d"
  by (simp add: fit_padding_def)

lemma fresh_copy_idem [simp]: "fresh_copy (fresh_copy d) = fresh_copy d"
  by (rule dataobject.equality) simp_all

lemma fresh_copy_fits: "do_padding d = fit_padding d \<Longrightarrow> fresh_copy d = d"
  by (rule dataobject.equality) simp_all

lemma ldo_padding_bounds: "1 \<le> unat (ldo_padding m d)" "unat (ldo_padding m d) \<le> 4"
proof -
  have "and (ucast m + d) 3 \<le> (3 :: u32)" by (rule word_and_le1)
  then have "unat (and (ucast m + d) 3 :: u32) \<le> 3" by (simp add: word_le_nat_alt)
  moreover have "unat (4 - y) = 4 - unat y" if "unat y \<le> 3" for y :: u32
    using that unat_sub [of y "4 :: u32"] by (simp add: word_le_nat_alt)
  ultimately show "1 \<le> unat (ldo_padding m d)" "unat (ldo_padding m d) \<le> 4" by (simp_all add: ldo_padding_def)
qed

lemma ldo_padding_nat: "unat m + unat d < 2 ^ 32 \<Longrightarrow> unat (ldo_padding m d) = 4 - (unat m + unat d) mod 4"
proof -
  assume a: "unat m + unat d < 2 ^ 32"
  have s: "unat (ucast m + d :: u32) = unat m + unat d"
    using a unsigned_less [of m, where ?'a = nat] by (simp add: unat_word_ariths unsigned_ucast_eq take_bit_nat_eq_self)
  have "and (ucast m + d) 3 = take_bit 2 (ucast m + d :: u32)" by (simp add: take_bit_eq_mask mask_eq_exp_minus_1)
  then have "unat (and (ucast m + d) 3 :: u32) = (unat m + unat d) mod 4"
    using s unsigned_take_bit_eq [where ?'a = nat, of 2 "ucast m + d :: u32"] by (simp add: take_bit_eq_mod)
  moreover have "unat (4 - y) = 4 - unat y" if "unat y \<le> 3" for y :: u32
    using that unat_sub [of y "4 :: u32"] by (simp add: word_le_nat_alt)
  moreover have "(unat m + unat d) mod 4 \<le> 3" by presburger
  ultimately show ?thesis by (simp add: ldo_padding_def)
qed

lemma fit_padding_bounds: "1 \<le> unat (fit_padding d)" "unat (fit_padding d) \<le> 4"
  by (simp_all add: fit_padding_def ldo_padding_bounds [unfolded One_nat_def])

lemma fit_padding_nat:
  "do_wf d \<Longrightarrow> length (do_meta d) + length (do_data d) < 2 ^ 32 \<Longrightarrow>
   unat (fit_padding d) = 4 - (length (do_meta d) + length (do_data d)) mod 4"
  using ldo_padding_nat [of "word_of_nat (length (do_meta d))" "word_of_nat (length (do_data d))"]
  by (simp add: fit_padding_def do_wf_def unat_of_nat)

lemma of_wire_image_append: "do_wf d \<Longrightarrow> of_wire p (wire_image d @ junk) = Some (d\<lparr>do_padding := p\<rparr>)"
  by (simp add: of_wire_def wire_image_def le16_def le32_def un16_le16 un32_le32 do_wf_def
      unat_of_nat Let_def)

lemma of_wire_image: "do_wf d \<Longrightarrow> of_wire p (wire_image d) = Some (d\<lparr>do_padding := p\<rparr>)"
  using of_wire_image_append [of d p "[]"] by simp

interpretation wire_codec: codec wire_image "of_wire p" "\<lambda>d. do_wf d \<and> do_padding d = p" for p
  by unfold_locales (auto simp: of_wire_image)

lemma readFromFile_wire:
  "do_wf d \<Longrightarrow> length (wire_image d) \<le> unat (GetWireSize (Some t)) \<Longrightarrow>
   readFromFile (wire_image d) (Some t) = Inr (Some (d\<lparr>do_padding := do_padding t\<rparr>))"
  by (simp add: readFromFile_def of_wire_image_append)

lemma unat_GetWireSize:
  "do_wf d \<Longrightarrow> 8 + length (do_meta d) + length (do_data d) < 2 ^ 32 \<Longrightarrow>
   unat (GetWireSize (Some d)) = length (wire_image d)"
  by (simp add: GetWireSize_def GetHeaderSize_def length_wire_image unat_word_ariths unat_of_nat)

lemma writeToFile_wire:
  "do_wf d \<Longrightarrow> 8 + length (do_meta d) + length (do_data d) < 2 ^ 32 \<Longrightarrow>
   writeToFile (Some d) = Inr (wire_image d)"
  by (simp add: writeToFile_def unat_GetWireSize)

lemma DeepCompare_zero:
  "do_wf a \<Longrightarrow> do_wf b \<Longrightarrow> DeepCompare False (Some a) (Some b) = 0 \<longleftrightarrow> fresh_copy a = fresh_copy b"
  by (cases a; cases b) (auto simp: DeepCompare_def fresh_copy_def fit_padding_def GetMetaSize_def GetDataSize_def)

end
