(* ===== verification/LocalKV_Row.thy ===== *)
theory LocalKV_Row
  imports Kelpie_Types Lunasa_Object
begin

text \<open>
  The cells and rows of the local key/value store (\<^verbatim>\<open>kelpie/localkv/LocalKVCell.hh\<close>,
  \<^verbatim>\<open>LocalKVCell.cpp\<close>, \<^verbatim>\<open>LocalKVRow.cpp\<close>).  A cell holds an object with its
  availability and the mailboxes and callbacks waiting for it; a row holds one unnamed cell and a
  map of named ones.  Callbacks and op mailboxes are identified by numbers; calling one is an entry
  of the effect list an operation returns.  The wall clock is the argument \<^verbatim>\<open>now\<close>: one
  reading per operation.  Row locks are not part of the state; every operation here runs under them.
\<close>

section \<open>Cells\<close>

type_synonym mailbox_t = u32
type_synonym callback_t = nat

record LocalKVCell =
  availability :: Availability
  hold_until :: u32
  drop_requested :: bool
  time_posted :: u32
  time_accessed :: u32
  time_offloaded :: u32
  cell_ldo :: ldo
  waiting_ops_list :: "mailbox_t list"
  callback_list :: "callback_t list"

text \<open>
  What an operation does to the rest of the program: call a callback at once, queue it on the
  backburner, or trigger a waiting op with (or, after the arguments were moved away, without) the
  object.
\<close>
datatype effect =
    Call_now callback_t key ldo object_info_t
  | Backburner callback_t key ldo object_info_t
  | TriggerOp mailbox_t "(ldo \<times> object_info_t) option"

definition new_LocalKVCell :: "u32 \<Rightarrow> LocalKVCell" where
  "new_LocalKVCell now = \<lparr>availability = Unavailable, hold_until = 0, drop_requested = False,
     time_posted = now, time_accessed = now, time_offloaded = 0, cell_ldo = None,
     waiting_ops_list = [], callback_list = []\<rparr>"

definition getUserSize :: "LocalKVCell \<Rightarrow> u64" where
  "getUserSize c = ucast (GetUserSize (cell_ldo c))"

definition getNumDependencies :: "LocalKVCell \<Rightarrow> nat" where
  "getNumDependencies c = length (waiting_ops_list c) + length (callback_list c)"

definition cell_isDroppable :: "u32 \<Rightarrow> LocalKVCell \<Rightarrow> bool" where
  "cell_isDroppable now c =
     (if length (waiting_ops_list c) + length (callback_list c) > 0 then False
      else if availability c \<noteq> InLocalMemory then False
      else if now < hold_until c then False
      else True)"

definition cell_getInfo :: "LocalKVCell \<Rightarrow> object_info_t \<Rightarrow> object_info_t" where
  "cell_getInfo c info = info\<lparr>col_user_bytes := ucast (GetUserSize (cell_ldo c)),
     col_dependencies := word_of_nat (length (waiting_ops_list c) + length (callback_list c)),
     col_availability := availability c\<rparr>"

text \<open>The waiting ops are a \<^verbatim>\<open>std::set\<close>: ordered, without duplicates.\<close>

definition appendWaitingList :: "mailbox_t \<Rightarrow> LocalKVCell \<Rightarrow> LocalKVCell" where
  "appendWaitingList op_mailbox c = c\<lparr>waiting_ops_list := insort_insert op_mailbox (waiting_ops_list c)\<rparr>"

definition appendCallbackList :: "callback_t \<Rightarrow> LocalKVCell \<Rightarrow> LocalKVCell" where
  "appendCallbackList callback c = c\<lparr>callback_list := callback_list c @ [callback]\<rparr>"

text \<open>
  The loop that triggers the waiting ops passes \<^verbatim>\<open>std::move(args)\<close>: the first iteration
  takes the pointer, the later ones find it null.
\<close>
fun trigger_ops :: "mailbox_t list \<Rightarrow> (ldo \<times> object_info_t) option \<Rightarrow> effect list" where
  "trigger_ops [] args = []"
| "trigger_ops (mb # mbs) args = TriggerOp mb args # trigger_ops mbs None"

section \<open>Rows\<close>

record LocalKVRow =
  rowname :: string
  col_single :: "LocalKVCell option"
  cols :: "(string, LocalKVCell) omap"

definition new_LocalKVRow :: "string \<Rightarrow> LocalKVRow" where
  "new_LocalKVRow name = \<lparr>rowname = name, col_single = None, cols = []\<rparr>"

definition getNumCols :: "LocalKVRow \<Rightarrow> nat" where
  "getNumCols r = length (cols r) + (if col_single r \<noteq> None then 1 else 0)"

definition getCol_name :: "string \<Rightarrow> LocalKVRow \<Rightarrow> LocalKVCell option" where
  "getCol_name colname r = (if colname = [] then col_single r else om_get (cols r) colname)"

definition getCol :: "key \<Rightarrow> LocalKVRow \<Rightarrow> LocalKVCell option" where
  "getCol key r = (if K2 key = [] then col_single r else om_get (cols r) (K2 key))"

text \<open>Storing through the pointer a lookup returned.\<close>

definition setCol :: "key \<Rightarrow> LocalKVCell \<Rightarrow> LocalKVRow \<Rightarrow> LocalKVRow" where
  "setCol key c r = (if K2 key = [] then r\<lparr>col_single := Some c\<rparr> else r\<lparr>cols := om_set (K2 key) c (cols r)\<rparr>)"

definition getFirstColumnName :: "LocalKVRow \<Rightarrow> string result" where
  "getFirstColumnName r =
     (case col_single r of Some _ \<Rightarrow> Inr []
      | None \<Rightarrow> (case cols r of [] \<Rightarrow> Inl Undefined_behaviour | (n, _) # _ \<Rightarrow> Inr n))"

definition getFirstColumnUserSize :: "LocalKVRow \<Rightarrow> u64 result" where
  "getFirstColumnUserSize r =
     (case col_single r of Some c \<Rightarrow> Inr (getUserSize c)
      | None \<Rightarrow> (case cols r of [] \<Rightarrow> Inl Undefined_behaviour | (_, c) # _ \<Rightarrow> Inr (getUserSize c)))"

definition getOrCreateCol :: "u32 \<Rightarrow> key \<Rightarrow> LocalKVRow \<Rightarrow> LocalKVCell \<times> bool \<times> LocalKVRow" where
  "getOrCreateCol now key r =
     (case getCol key r of
        Some c \<Rightarrow> (c, True, r)
      | None \<Rightarrow> let c = new_LocalKVCell now in (c, False, setCol key c r))"

definition row_getInfo :: "key \<Rightarrow> LocalKVRow \<Rightarrow> object_info_t \<Rightarrow> object_info_t" where
  "row_getInfo key r info =
     (let prefix_match = (if IsColWildcard key then butlast (K2 key) else []) in
      if prefix_match = [] then
        let b0 = (case col_single r of Some c \<Rightarrow> getUserSize c | None \<Rightarrow> 0) in
        info\<lparr>row_user_bytes := foldl (\<lambda>b (n, c). b + getUserSize c) b0 (cols r),
             row_num_columns := word_of_nat (getNumCols r)\<rparr>
      else
        let hits = filter (\<lambda>(n, c). StringBeginsWith n prefix_match) (cols r) in
        info\<lparr>row_user_bytes := foldl (\<lambda>b (n, c). b + getUserSize c) 0 hits,
             row_num_columns := foldl (\<lambda>k _. k + 1) 0 hits\<rparr>)"

definition dispatchCallbacksAndNotifications ::
  "key \<Rightarrow> LocalKVRow \<Rightarrow> LocalKVCell \<Rightarrow> effect list \<times> LocalKVCell" where
  "dispatchCallbacksAndNotifications key r c =
     (if callback_list c = [] \<and> waiting_ops_list c = [] then ([], c)
      else let object_info = cell_getInfo c (row_getInfo key r Wipe_info);
               work = map (\<lambda>cb. Backburner cb key (cell_ldo c) object_info) (callback_list c);
               ops = trigger_ops (waiting_ops_list c) (Some (cell_ldo c, object_info))
           in (ops @ work, c\<lparr>callback_list := [], waiting_ops_list := []\<rparr>))"

section \<open>Row operations\<close>

type_synonym lambda_flags_t = u8

definition CREATE_IF_MISSING :: lambda_flags_t where "CREATE_IF_MISSING = 0x01"
definition TRIGGER_DEPENDENCIES :: lambda_flags_t where "TRIGGER_DEPENDENCIES = 0x02"
definition DONT_CREATE_OR_TRIGGER :: lambda_flags_t where "DONT_CREATE_OR_TRIGGER = 0x0"

lemmas lambda_flag_defs = CREATE_IF_MISSING_def TRIGGER_DEPENDENCIES_def DONT_CREATE_OR_TRIGGER_def

text \<open>A column lambda reads its row, updates its cell and hands values back to its caller.\<close>

type_synonym 'o fn_column_op_t = "LocalKVRow \<Rightarrow> LocalKVCell \<Rightarrow> bool \<Rightarrow> rc_t \<times> LocalKVCell \<times> 'o"

record 'o col_result =
  cr_rc :: rc_t
  cr_info :: object_info_t
  cr_out :: "'o option"
  cr_effects :: "effect list"

definition row_doColOp ::
  "u32 \<Rightarrow> key \<Rightarrow> lambda_flags_t \<Rightarrow> 'o fn_column_op_t \<Rightarrow> LocalKVRow \<Rightarrow> 'o col_result \<times> LocalKVRow" where
  "row_doColOp now key flags func r =
     (let found = (if and flags CREATE_IF_MISSING \<noteq> 0 then Some (getOrCreateCol now key r)
                   else map_option (\<lambda>c. (c, True, r)) (getCol key r))
      in case found of
           None \<Rightarrow> (\<lparr>cr_rc = KELPIE_ENOENT, cr_info = Wipe_info, cr_out = None, cr_effects = []\<rparr>, r)
         | Some (c, previously_existed, r1) \<Rightarrow>
             let (rc, c1, out) = func r1 c previously_existed;
                 r2 = setCol key c1 r1;
                 (effs, c2) = (if and flags TRIGGER_DEPENDENCIES \<noteq> 0
                               then dispatchCallbacksAndNotifications key r2 c1 else ([], c1));
                 info = cell_getInfo c2 Wipe_info;
                 c3 = c2\<lparr>time_accessed := now\<rparr>
             in (\<lparr>cr_rc = rc, cr_info = info, cr_out = Some out, cr_effects = effs\<rparr>, setCol key c3 r2))"

definition getActiveColumnNamesCapacities ::
  "string \<Rightarrow> LocalKVRow \<Rightarrow> int \<times> string list \<times> u64 list" where
  "getActiveColumnNamesCapacities search_string r =
     (if \<not> StringEndsWith search_string ''*'' then
        (case getCol_name search_string r of
           None \<Rightarrow> (0, [], [])
         | Some c \<Rightarrow> (1, [search_string], [getUserSize c]))
      else
        let prefix = butlast search_string;
            single = (case col_single r of Some c \<Rightarrow> if prefix = [] then [([], getUserSize c)] else [] | None \<Rightarrow> []);
            hits = map (\<lambda>(n, c). (n, getUserSize c))
                     (filter (\<lambda>(n, c). getUserSize c \<noteq> 0 \<and> StringBeginsWith n prefix) (om_lower_bound prefix (cols r)))
        in (int (length hits), map fst (single @ hits), map snd (single @ hits)))"

definition dropColumns :: "u32 \<Rightarrow> string \<Rightarrow> LocalKVRow \<Rightarrow> int \<times> LocalKVRow" where
  "dropColumns now search_string r =
     (if \<not> StringEndsWith search_string ''*'' then
        (case getCol_name search_string r of
           None \<Rightarrow> (0, r)
         | Some c \<Rightarrow>
             if cell_isDroppable now c
             then (1, if search_string = [] then r\<lparr>col_single := None\<rparr> else r\<lparr>cols := om_del search_string (cols r)\<rparr>)
             else (1, setCol (Key [] search_string) (c\<lparr>drop_requested := True\<rparr>) r))
      else
        let prefix = butlast search_string;
            (n0, r1) = (if prefix = [] \<and> col_single r \<noteq> None then (1, r\<lparr>col_single := None\<rparr>) else (0, r));
            hits = filter (\<lambda>(n, c). StringBeginsWith n prefix) (om_lower_bound prefix (cols r1));
            delete_names = map fst (filter (\<lambda>(n, c). cell_isDroppable now c) hits);
            marked = map (\<lambda>(n, c). (n, if n \<in> fst ` set hits \<and> \<not> cell_isDroppable now c
                                       then c\<lparr>drop_requested := True\<rparr> else c)) (cols r1)
        in (n0 + int (length hits), r1\<lparr>cols := fold om_del delete_names marked\<rparr>))"

definition row_isDroppable :: "u32 \<Rightarrow> LocalKVRow \<Rightarrow> bool" where
  "row_isDroppable now r =
     ((case col_single r of Some c \<Rightarrow> cell_isDroppable now c | None \<Rightarrow> True) \<and>
      list_all (\<lambda>(n, c). cell_isDroppable now c) (cols r))"

definition row_drop :: "u32 \<Rightarrow> key \<Rightarrow> u64 \<Rightarrow> LocalKVRow \<Rightarrow> rc_t \<times> u64 \<times> bool \<times> LocalKVRow" where
  "row_drop now key dropped_bytes r =
     (let (bytes, r1) = (case getCol key r of
            None \<Rightarrow> (dropped_bytes, r)
          | Some c \<Rightarrow> (dropped_bytes + getUserSize c,
               if K2 key = [] then r\<lparr>col_single := None\<rparr> else r\<lparr>cols := om_del (K2 key) (cols r)\<rparr>))
      in (KELPIE_OK, bytes, row_isDroppable now r1, r1))"

definition isEmpty :: "LocalKVRow \<Rightarrow> bool" where
  "isEmpty r = (col_single r = None \<and> cols r = [])"

definition row_getAvailability :: "LocalKVRow \<Rightarrow> Availability" where
  "row_getAvailability r =
     (case (case col_single r of Some c \<Rightarrow> Some (availability c)
            | None \<Rightarrow> (case cols r of [] \<Rightarrow> None | (_, c) # _ \<Rightarrow> Some (availability c))) of
        None \<Rightarrow> Unavailable
      | Some a \<Rightarrow> if \<exists>(n, c) \<in> set (cols r). availability c \<noteq> a then MixedConditions else a)"

section \<open>Well-formedness\<close>

definition cell_wf :: "LocalKVCell \<Rightarrow> bool" where
  "cell_wf c = (sorted (waiting_ops_list c) \<and> distinct (waiting_ops_list c))"

definition row_inv :: "LocalKVRow \<Rightarrow> bool" where
  "row_inv r = (om_inv (cols r) \<and> list_all (\<lambda>(n, c). n \<noteq> [] \<and> cell_wf c) (cols r) \<and>
     (case col_single r of Some c \<Rightarrow> cell_wf c | None \<Rightarrow> True))"

text \<open>Every column lambda keeps its cell well formed.\<close>

definition fn_keeps_wf :: "'o fn_column_op_t \<Rightarrow> bool" where
  "fn_keeps_wf f = (\<forall>r c p. cell_wf c \<longrightarrow> cell_wf (fst (snd (f r c p))))"

lemma row_inv_om [dest]: "row_inv r \<Longrightarrow> om_inv (cols r)"
  by (simp add: row_inv_def)

lemma row_inv_new [simp]: "row_inv (new_LocalKVRow n)"
  by (simp add: row_inv_def new_LocalKVRow_def)

lemma cell_wf_new [simp]: "cell_wf (new_LocalKVCell now)"
  by (simp add: cell_wf_def new_LocalKVCell_def)

lemma cell_wf_append [simp]:
  "cell_wf c \<Longrightarrow> cell_wf (appendWaitingList mb c)" "cell_wf c \<Longrightarrow> cell_wf (appendCallbackList cb c)"
  by (simp_all add: cell_wf_def appendWaitingList_def appendCallbackList_def sorted_insort_insert distinct_insort_insert)

lemma cell_wf_dispatch: "cell_wf c \<Longrightarrow> cell_wf (snd (dispatchCallbacksAndNotifications key r c))"
  by (simp add: dispatchCallbacksAndNotifications_def cell_wf_def Let_def)

lemma list_all_om_set:
  "list_all (\<lambda>(n, c). P n c) m \<Longrightarrow> P k v \<Longrightarrow> list_all (\<lambda>(n, c). P n c) (om_set k v m)"
  by (induction k v m rule: om_set.induct) auto

lemma row_inv_setCol: "row_inv r \<Longrightarrow> cell_wf c \<Longrightarrow> row_inv (setCol key c r)"
  by (auto simp: row_inv_def setCol_def intro!: list_all_om_set split: option.splits)

lemma getCol_wf: "row_inv r \<Longrightarrow> getCol key r = Some c \<Longrightarrow> cell_wf c"
  by (auto simp: row_inv_def getCol_def list_all_iff split: if_splits option.splits dest!: map_of_SomeD)

lemma getCol_setCol:
  "row_inv r \<Longrightarrow> getCol k' (setCol k c r) = (if K2 k' = K2 k then Some c else getCol k' r)"
  by (auto simp: getCol_def setCol_def om_get_om_set row_inv_om)

lemma getCol_new [simp]: "getCol k (new_LocalKVRow n) = None"
  by (simp add: getCol_def new_LocalKVRow_def)

lemma rowname_setCol [simp]: "rowname (setCol k c r) = rowname r"
  by (simp add: setCol_def)

lemma getCol_name_getCol: "getCol_name n r = getCol (Key k n) r"
  by (simp add: getCol_name_def getCol_def)

lemma setCol_setCol: "row_inv r \<Longrightarrow> getCol k' (setCol k c' (setCol k c r)) = getCol k' (setCol k c' r)"
proof -
  assume r: "row_inv r"
  have "om_inv (cols (setCol k c r))" using r by (auto simp: setCol_def)
  then show ?thesis using r by (auto simp: getCol_def setCol_def om_get_om_set row_inv_om)
qed

section \<open>The column operation\<close>

text \<open>The cell a column operation works on: the existing one, or a fresh one when it may create.\<close>

definition target_cell :: "u32 \<Rightarrow> lambda_flags_t \<Rightarrow> LocalKVCell option \<Rightarrow> (LocalKVCell \<times> bool) option" where
  "target_cell now flags oc = (case oc of
     Some c \<Rightarrow> Some (c, True)
   | None \<Rightarrow> if and flags CREATE_IF_MISSING \<noteq> 0 then Some (new_LocalKVCell now, False) else None)"

lemma row_doColOp_None:
  "target_cell now flags (getCol key r) = None \<Longrightarrow>
   row_doColOp now key flags func r =
     (\<lparr>cr_rc = KELPIE_ENOENT, cr_info = Wipe_info, cr_out = None, cr_effects = []\<rparr>, r)"
  by (auto simp: target_cell_def row_doColOp_def split: option.splits if_splits)

lemma row_doColOp_Some:
  assumes inv: "row_inv r" and wf: "fn_keeps_wf func"
    and tc: "target_cell now flags (getCol key r) = Some (c, existed)"
  obtains r1 rc c1 out effs c2 where
    "row_inv r1" "getCol key r1 = Some c" "rowname r1 = rowname r"
    "\<And>k. K2 k \<noteq> K2 key \<Longrightarrow> getCol k r1 = getCol k r"
    "func r1 c existed = (rc, c1, out)"
    "(effs, c2) = (if and flags TRIGGER_DEPENDENCIES \<noteq> 0
        then dispatchCallbacksAndNotifications key (setCol key c1 r1) c1 else ([], c1))"
    "row_doColOp now key flags func r =
       (\<lparr>cr_rc = rc, cr_info = cell_getInfo c2 Wipe_info, cr_out = Some out, cr_effects = effs\<rparr>,
        setCol key (c2\<lparr>time_accessed := now\<rparr>) (setCol key c1 r1))"
    "cell_wf c1" "cell_wf c2"
proof -
  define r1 where "r1 = (case getCol key r of Some _ \<Rightarrow> r | None \<Rightarrow> setCol key c r)"
  have c: "cell_wf c" and r1: "row_inv r1" "getCol key r1 = Some c" "rowname r1 = rowname r"
    "\<And>k. K2 k \<noteq> K2 key \<Longrightarrow> getCol k r1 = getCol k r"
    using tc inv getCol_wf [OF inv]
    by (auto simp: target_cell_def r1_def getCol_setCol row_inv_setCol split: option.splits if_splits)
  obtain rc c1 out where f: "func r1 c existed = (rc, c1, out)" by (metis prod_cases3)
  have c1: "cell_wf c1" using wf c f unfolding fn_keeps_wf_def by (metis fst_conv snd_conv)
  obtain effs c2 where d: "(effs, c2) = (if and flags TRIGGER_DEPENDENCIES \<noteq> 0
        then dispatchCallbacksAndNotifications key (setCol key c1 r1) c1 else ([], c1))" by (metis surj_pair)
  have c2: "cell_wf c2" using d cell_wf_dispatch [OF c1] c1 by (metis snd_conv)
  have "row_doColOp now key flags func r =
       (\<lparr>cr_rc = rc, cr_info = cell_getInfo c2 Wipe_info, cr_out = Some out, cr_effects = effs\<rparr>,
        setCol key (c2\<lparr>time_accessed := now\<rparr>) (setCol key c1 r1))"
    using tc f d
    by (auto simp: row_doColOp_def target_cell_def r1_def getOrCreateCol_def Let_def
        split: option.splits if_splits prod.splits)
  then show ?thesis using that r1 f d c1 c2 by blast
qed

section \<open>Dropping columns\<close>

text \<open>What a drop with a column pattern does to one cell.\<close>

definition drop_cell :: "u32 \<Rightarrow> string \<Rightarrow> string \<Rightarrow> LocalKVCell option \<Rightarrow> LocalKVCell option" where
  "drop_cell now search n oc =
     (if \<not> pattern_matches search n then oc
      else if StringEndsWith search ''*'' \<and> n = [] then None
      else case oc of None \<Rightarrow> None
        | Some c \<Rightarrow> if cell_isDroppable now c then None else Some (c\<lparr>drop_requested := True\<rparr>))"

lemma prefix_le: "prefix p n \<Longrightarrow> p \<le> (n :: string)"
proof (induction p arbitrary: n)
  case (Cons a p)
  then show ?case by (cases n) auto
qed simp

lemma lower_bound_prefix:
  "om_inv m \<Longrightarrow> filter (\<lambda>(n, c). P n c \<and> StringBeginsWith n p) (om_lower_bound p m) =
     filter (\<lambda>(n, c). P n c \<and> prefix p n) m"
  by (auto simp: om_lower_bound_filter StringBeginsWith_prefix intro!: filter_cong dest: prefix_le)

lemma lower_bound_prefix':
  "om_inv m \<Longrightarrow> filter (\<lambda>(n, c). StringBeginsWith n p) (om_lower_bound p m) = filter (\<lambda>(n, c). prefix p n) m"
  using lower_bound_prefix [of m "\<lambda>_ _. True" p] by simp

lemma row_inv_cell: "row_inv r \<Longrightarrow> (n, c) \<in> set (cols r) \<Longrightarrow> n \<noteq> [] \<and> cell_wf c \<and> getCol_name n r = Some c"
  by (auto simp: row_inv_def list_all_iff getCol_name_def om_in_set_iff)

lemma list_all_om_del: "list_all P m \<Longrightarrow> list_all P (om_del k m)"
  by (auto simp: om_del_def list_all_iff)

lemma list_all_fold_om_del: "list_all P m \<Longrightarrow> list_all P (fold om_del ks m)"
  by (induction ks arbitrary: m) (auto intro: list_all_om_del)

lemma dropColumns_wild_cols:
  assumes m: "om_inv m" and hits: "hits = filter (\<lambda>(n, c). prefix p n) m"
  shows "om_get (fold om_del (map fst (filter (\<lambda>(n, c). cell_isDroppable now c) hits))
            (map (\<lambda>(n, c). (n, if n \<in> fst ` set hits \<and> \<not> cell_isDroppable now c
                               then c\<lparr>drop_requested := True\<rparr> else c)) m)) n =
     (case om_get m n of None \<Rightarrow> None
      | Some c \<Rightarrow> if \<not> prefix p n then Some c
                  else if cell_isDroppable now c then None else Some (c\<lparr>drop_requested := True\<rparr>))"
proof -
  let ?m = "map (\<lambda>(n, c). (n, if n \<in> fst ` set hits \<and> \<not> cell_isDroppable now c
                               then c\<lparr>drop_requested := True\<rparr> else c)) m"
  have "om_inv ?m" using m by (rule om_inv_map_val)
  moreover have "n \<in> fst ` set (filter (\<lambda>(n, c). cell_isDroppable now c) hits) \<longleftrightarrow>
      (\<exists>c. om_get m n = Some c \<and> prefix p n \<and> cell_isDroppable now c)"
    using m by (force simp: hits om_in_set_iff)
  moreover have "om_get m n = Some c \<Longrightarrow> n \<in> fst ` set hits \<longleftrightarrow> prefix p n" for c
    using m by (force simp: hits om_in_set_iff [symmetric])
  ultimately show ?thesis
    by (auto simp: om.lookup_fold_erase om_get_map_val split: option.splits)
qed

lemma dropColumns_cells:
  assumes inv: "row_inv r" and d: "dropColumns now s r = (k, r')"
  shows "row_inv r'" "rowname r' = rowname r"
    "getCol_name n r' = drop_cell now s n (getCol_name n r)"
proof -
  have "row_inv r' \<and> rowname r' = rowname r \<and> (\<forall>n. getCol_name n r' = drop_cell now s n (getCol_name n r))"
  proof (cases "StringEndsWith s ''*''")
    case False
    have up: "cell_wf (c\<lparr>drop_requested := b\<rparr>) = cell_wf c" for c b by (simp add: cell_wf_def)
    show ?thesis
      using False d inv getCol_wf [OF inv, of "Key [] s"]
      by (auto simp: dropColumns_def drop_cell_def pattern_matches_def getCol_name_getCol [of _ _ "[]"] getCol_setCol
          row_inv_setCol up split: option.splits if_splits)
        (auto simp: row_inv_def getCol_def om_get_om_del list_all_om_del split: option.splits)
  next
    case True
    define p where "p = butlast s"
    define r1 where "r1 = (if p = [] \<and> col_single r \<noteq> None then r\<lparr>col_single := None\<rparr> else r)"
    have m: "om_inv (cols r)" using inv by auto
    define hits where "hits = filter (\<lambda>(n, c). prefix p n) (cols r)"
    have lb: "filter (\<lambda>(n, c). StringBeginsWith n p) (om_lower_bound p (cols r)) = hits"
      unfolding hits_def by (rule lower_bound_prefix' [OF m])
    have r': "r' = r1\<lparr>cols := fold om_del (map fst (filter (\<lambda>(n, c). cell_isDroppable now c) hits))
            (map (\<lambda>(n, c). (n, if n \<in> fst ` set hits \<and> \<not> cell_isDroppable now c
                               then c\<lparr>drop_requested := True\<rparr> else c)) (cols r))\<rparr>"
      using d True lb unfolding dropColumns_def Let_def p_def [symmetric] hits_def [symmetric]
      by (cases "p = [] \<and> col_single r \<noteq> None") (auto simp: r1_def simp del: filter_filter set_filter)
    have names: "list_all (\<lambda>(n, c). n \<noteq> [] \<and> cell_wf c) (map (\<lambda>(n, c). (n, if n \<in> fst ` set hits \<and> \<not> cell_isDroppable now c
                               then c\<lparr>drop_requested := True\<rparr> else c)) (cols r))"
      using inv by (auto simp: row_inv_def list_all_iff cell_wf_def)
    have "row_inv r'"
      using inv list_all_fold_om_del [OF names] om.invar_fold_erase [OF om_inv_map_val [OF m]]
      by (auto simp: r' row_inv_def r1_def split: option.splits)
    moreover have "om_get (cols r) [] = None"
      using inv by (auto simp: row_inv_def list_all_iff map_of_eq_None_iff)
    ultimately show ?thesis
      using True dropColumns_wild_cols [OF m hits_def]
      by (auto simp: r' r1_def getCol_name_def drop_cell_def pattern_matches_def p_def [symmetric] split: option.splits)
  qed
  then show "row_inv r'" "rowname r' = rowname r" "getCol_name n r' = drop_cell now s n (getCol_name n r)"
    by auto
qed

lemma cols_names:
  "row_inv r \<Longrightarrow> n \<in> fst ` set (filter (\<lambda>(n, c). P n c) (cols r)) \<longleftrightarrow>
     n \<noteq> [] \<and> (\<exists>c. getCol_name n r = Some c \<and> P n c)"
  using row_inv_cell [of r] row_inv_om [of r] by (force simp: getCol_name_def om_in_set_iff)

lemma dropColumns_count:
  assumes inv: "row_inv r" and d: "dropColumns now s r = (k, r')"
  shows "k \<noteq> 0 \<longleftrightarrow> (\<exists>n. pattern_matches s n \<and> getCol_name n r \<noteq> None)" "0 \<le> k"
proof -
  have "(k \<noteq> 0 \<longleftrightarrow> (\<exists>n. pattern_matches s n \<and> getCol_name n r \<noteq> None)) \<and> 0 \<le> k"
  proof (cases "StringEndsWith s ''*''")
    case False
    then show ?thesis using d by (auto simp: dropColumns_def pattern_matches_def split: option.splits if_splits)
  next
    case True
    have m: "om_inv (cols r)" using inv by auto
    define h where "h = filter (\<lambda>(n, c). prefix (butlast s) n) (cols r)"
    have k: "k = (if butlast s = [] \<and> col_single r \<noteq> None then 1 else 0) + int (length h)"
      using d True lower_bound_prefix' [OF m, of "butlast s"]
      by (auto simp: dropColumns_def Let_def h_def simp del: filter_filter set_filter split: if_splits)
    have hn: "n \<in> fst ` set h \<longleftrightarrow> n \<noteq> [] \<and> getCol_name n r \<noteq> None \<and> prefix (butlast s) n" for n
      unfolding h_def cols_names [OF inv] by auto
    have "h \<noteq> [] \<longleftrightarrow> (\<exists>n. n \<in> fst ` set h)" by (cases h) auto
    then have e: "h \<noteq> [] \<longleftrightarrow> (\<exists>n. n \<noteq> [] \<and> getCol_name n r \<noteq> None \<and> prefix (butlast s) n)"
      unfolding hn .
    have "(\<exists>n. prefix (butlast s) n \<and> getCol_name n r \<noteq> None) \<longleftrightarrow>
        (butlast s = [] \<and> col_single r \<noteq> None) \<or> h \<noteq> []"
      unfolding e by (metis getCol_name_def prefix_bot.extremum prefix_Nil)
    then show ?thesis using k True by (auto simp: pattern_matches_def)
  qed
  then show "k \<noteq> 0 \<longleftrightarrow> (\<exists>n. pattern_matches s n \<and> getCol_name n r \<noteq> None)" "0 \<le> k" by auto
qed

section \<open>Listing columns\<close>

lemma getActive_names:
  assumes inv: "row_inv r" and g: "getActiveColumnNamesCapacities s r = (k, names, caps)"
  shows "length names = length caps"
    and "n \<in> set names \<longleftrightarrow> pattern_matches s n \<and>
      (\<exists>c. getCol_name n r = Some c \<and> (StringEndsWith s ''*'' \<and> n \<noteq> [] \<longrightarrow> getUserSize c \<noteq> 0))"
    and "distinct names"
proof -
  have m: "om_inv (cols r)" using inv by auto
  have "length names = length caps \<and> distinct names \<and> (\<forall>n. n \<in> set names \<longleftrightarrow> pattern_matches s n \<and>
      (\<exists>c. getCol_name n r = Some c \<and> (StringEndsWith s ''*'' \<and> n \<noteq> [] \<longrightarrow> getUserSize c \<noteq> 0)))"
  proof (cases "StringEndsWith s ''*''")
    case False
    then show ?thesis
      using g by (auto simp: getActiveColumnNamesCapacities_def pattern_matches_def split: option.splits if_splits)
  next
    case True
    define h where "h = filter (\<lambda>(n, c). getUserSize c \<noteq> 0 \<and> prefix (butlast s) n) (cols r)"
    define sg where "sg = (case col_single r of Some c \<Rightarrow> if butlast s = [] then [([] :: string, getUserSize c)] else []
      | None \<Rightarrow> [])"
    have "names = map fst (sg @ map (\<lambda>(n, c). (n, getUserSize c)) h)" "caps = map snd (sg @ map (\<lambda>(n, c). (n, getUserSize c)) h)"
      using g True lower_bound_prefix [OF m, of "\<lambda>n c. getUserSize c \<noteq> 0" "butlast s"]
      by (simp_all add: getActiveColumnNamesCapacities_def Let_def h_def sg_def)
    then have nc: "names = map fst sg @ map fst h" "length caps = length names"
      by (auto simp: split_beta comp_def)
    have sg: "map fst sg = (if butlast s = [] \<and> col_single r \<noteq> None then [[]] else [])"
      by (auto simp: sg_def split: option.splits)
    have hn: "n \<in> fst ` set h \<longleftrightarrow> n \<noteq> [] \<and> (\<exists>c. getCol_name n r = Some c \<and> getUserSize c \<noteq> 0 \<and> prefix (butlast s) n)" for n
      unfolding h_def by (rule cols_names [OF inv])
    have "distinct (map fst h)" unfolding h_def by (rule om_inv_distinct [OF om_inv_filter [OF m]])
    then have "distinct names" unfolding nc sg using hn [of "[]"] by auto
    moreover have "n \<in> set names \<longleftrightarrow> pattern_matches s n \<and>
      (\<exists>c. getCol_name n r = Some c \<and> (n \<noteq> [] \<longrightarrow> getUserSize c \<noteq> 0))" for n
    proof -
      have "n \<in> set names \<longleftrightarrow> n \<in> set (map fst sg) \<or> n \<in> fst ` set h" unfolding nc by auto
      then show ?thesis unfolding hn sg using True by (auto simp: pattern_matches_def getCol_name_def)
    qed
    ultimately show ?thesis using True nc by simp
  qed
  then show "length names = length caps" "distinct names"
    "n \<in> set names \<longleftrightarrow> pattern_matches s n \<and>
      (\<exists>c. getCol_name n r = Some c \<and> (StringEndsWith s ''*'' \<and> n \<noteq> [] \<longrightarrow> getUserSize c \<noteq> 0))"
    by auto
qed

lemma getActive_caps:
  assumes inv: "row_inv r" and g: "getActiveColumnNamesCapacities s r = (k, names, caps)"
  shows "caps = map (\<lambda>n. getUserSize (the (getCol_name n r))) names"
proof (cases "StringEndsWith s ''*''")
  case False
  then show ?thesis using g by (auto simp: getActiveColumnNamesCapacities_def split: option.splits)
next
  case True
  have m: "om_inv (cols r)" using inv by auto
  define h where "h = filter (\<lambda>(n, c). getUserSize c \<noteq> 0 \<and> prefix (butlast s) n) (cols r)"
  define sg where "sg = (case col_single r of Some c \<Rightarrow> if butlast s = [] then [([] :: string, getUserSize c)] else []
    | None \<Rightarrow> [])"
  have "names = map fst (sg @ map (\<lambda>(n, c). (n, getUserSize c)) h)" "caps = map snd (sg @ map (\<lambda>(n, c). (n, getUserSize c)) h)"
    using g True lower_bound_prefix [OF m, of "\<lambda>n c. getUserSize c \<noteq> 0" "butlast s"]
    by (simp_all add: getActiveColumnNamesCapacities_def Let_def h_def sg_def)
  then have nc: "names = map fst sg @ map fst h" "caps = map snd sg @ map (getUserSize \<circ> snd) h"
    by (simp_all add: split_beta comp_def)
  have "getCol_name (fst x) r = Some (snd x)" if "x \<in> set h" for x
    using that row_inv_cell [OF inv] om_in_set_iff [OF m, of "fst x" "snd x"] by (force simp: h_def getCol_name_def)
  then have "map (getUserSize \<circ> snd) h = map (\<lambda>n. getUserSize (the (getCol_name n r))) (map fst h)" by simp
  moreover have "map snd sg = map (\<lambda>n. getUserSize (the (getCol_name n r))) (map fst sg)"
    by (cases "col_single r") (simp_all add: sg_def getCol_name_def)
  ultimately show ?thesis unfolding nc by (simp only: map_append)
qed

end
