(* ===== verification/LocalKV_Table.thy ===== *)
theory LocalKV_Table
  imports LocalKV_Row
begin

text \<open>
  The local key/value store (\<^verbatim>\<open>kelpie/localkv/LocalKV.cpp\<close>): the table of rows and every
  operation on it.  The table and row locks serialise the operations on a cell, so each is one atomic step on
  the table; a drop takes the lock for every row anew, and its parts are steps too.  An i/o module is a record of its virtual operations over a storage state
  \<^typ>\<open>'io\<close>; the registry lookup \<^verbatim>\<open>FindIOM\<close> is an argument.
\<close>

section \<open>State\<close>

record LocalKV =
  configured :: bool
  rows :: "(string, LocalKVRow) omap"

record 'io IomBase =
  iom_WriteObject :: "bucket_t \<Rightarrow> key \<Rightarrow> ldo \<Rightarrow> 'io \<Rightarrow> rc_t \<times> 'io"
  iom_ReadObject :: "bucket_t \<Rightarrow> key \<Rightarrow> 'io \<Rightarrow> rc_t \<times> ldo \<times> 'io"
  iom_ListObjects :: "bucket_t \<Rightarrow> key \<Rightarrow> 'io \<Rightarrow> ObjectCapacities \<times> 'io"
  iom_GetInfo :: "bucket_t \<Rightarrow> key \<Rightarrow> 'io \<Rightarrow> rc_t \<times> object_info_t \<times> 'io"

definition makeRowname :: "bucket_t \<Rightarrow> key \<Rightarrow> string" where
  "makeRowname bucket key = Bucket_GetHex bucket @ K1 key"

definition getRow :: "string \<Rightarrow> LocalKV \<Rightarrow> LocalKVRow option" where
  "getRow full_row_name t = om_get (rows t) full_row_name"

definition setRow :: "string \<Rightarrow> LocalKVRow \<Rightarrow> LocalKV \<Rightarrow> LocalKV" where
  "setRow full_row_name r t = t\<lparr>rows := om_set full_row_name r (rows t)\<rparr>"

section \<open>Lambda operations\<close>

definition doColOp ::
  "u32 \<Rightarrow> bucket_t \<Rightarrow> key \<Rightarrow> lambda_flags_t \<Rightarrow> 'o fn_column_op_t \<Rightarrow> LocalKV \<Rightarrow> 'o col_result \<times> LocalKV" where
  "doColOp now bucket key flags func t =
     (let fullrowname = makeRowname bucket key in
      case (case getRow fullrowname t of
              Some r \<Rightarrow> Some (r, t)
            | None \<Rightarrow> if and flags CREATE_IF_MISSING = 0 then None
                      else let r = new_LocalKVRow (K1 key) in Some (r, setRow fullrowname r t)) of
        None \<Rightarrow> (\<lparr>cr_rc = KELPIE_ENOENT, cr_info = Wipe_info, cr_out = None, cr_effects = []\<rparr>, t)
      | Some (r, t1) \<Rightarrow>
          let (res, r1) = row_doColOp now key flags func r
          in (res\<lparr>cr_info := row_getInfo key r1 (cr_info res)\<rparr>, setRow fullrowname r1 t1))"

type_synonym 'o fn_row_op_t = "LocalKVRow \<Rightarrow> bool \<Rightarrow> rc_t \<times> LocalKVRow \<times> 'o"

definition doRowOp ::
  "bucket_t \<Rightarrow> key \<Rightarrow> lambda_flags_t \<Rightarrow> 'o fn_row_op_t \<Rightarrow> LocalKV \<Rightarrow> 'o col_result \<times> LocalKV" where
  "doRowOp bucket key flags func t =
     (let fullrowname = makeRowname bucket key in
      case (case getRow fullrowname t of
              Some r \<Rightarrow> Some (r, True, t)
            | None \<Rightarrow> if and flags CREATE_IF_MISSING = 0 then None
                      else let r = new_LocalKVRow (K1 key) in Some (r, False, setRow fullrowname r t)) of
        None \<Rightarrow> (\<lparr>cr_rc = KELPIE_ENOENT, cr_info = Wipe_info, cr_out = None, cr_effects = []\<rparr>, t)
      | Some (r, previously_existed, t1) \<Rightarrow>
          let (rc, r1, out) = func r previously_existed
          in (\<lparr>cr_rc = rc, cr_info = row_getInfo key r1 Wipe_info, cr_out = Some out, cr_effects = []\<rparr>,
              setRow fullrowname r1 t1))"

section \<open>Store operations\<close>

text \<open>The lambda of \<^verbatim>\<open>put\<close>.\<close>

definition put_lambda :: "u32 \<Rightarrow> ldo \<Rightarrow> pool_behavior_t \<Rightarrow> unit fn_column_op_t" where
  "put_lambda now new_ldo behavior_flags r col previously_existed =
     (if availability col = InLocalMemory \<and> \<not> has_flag behavior_flags EnableOverwrites
      then (KELPIE_EEXIST, col, ())
      else (KELPIE_OK, col\<lparr>availability := InLocalMemory, cell_ldo := new_ldo, time_posted := now\<rparr>, ()))"

definition put ::
  "u32 \<Rightarrow> bucket_t \<Rightarrow> key \<Rightarrow> ldo \<Rightarrow> pool_behavior_t \<Rightarrow> 'io IomBase option \<Rightarrow> 'io \<Rightarrow> LocalKV \<Rightarrow>
     ((rc_t \<times> object_info_t \<times> effect list) \<times> LocalKV \<times> 'io) result" where
  "put now bucket key new_ldo behavior_flags iom io t =
     (if \<not> valid key then Inl Assert_failed
      else
        let lambda_flags = (if has_flag behavior_flags WriteToLocal
                            then or TRIGGER_DEPENDENCIES CREATE_IF_MISSING else TRIGGER_DEPENDENCIES);
            (res, t1) = doColOp now bucket key lambda_flags (put_lambda now new_ldo behavior_flags) t;
            rc = cr_rc res;
            (rc', io1) = (if has_flag behavior_flags WriteToIOM then
                            (case iom of
                               Some m \<Rightarrow> let (rc2, io') = iom_WriteObject m bucket key new_ldo io
                                         in (if rc = KELPIE_OK then rc2 else rc, io')
                             | None \<Rightarrow> (KELPIE_EIO, io))
                          else (rc, io))
        in Inr ((rc', cr_info res, cr_effects res), t1, io1))"

definition get_lambda :: "ldo option fn_column_op_t" where
  "get_lambda r col previously_existed =
     (if availability col = InLocalMemory then (KELPIE_OK, col, Some (cell_ldo col))
      else (KELPIE_ENOENT, col, None))"

text \<open>The object is \<^term>\<open>None\<close> when the out-parameter is not written.\<close>

definition get ::
  "u32 \<Rightarrow> bucket_t \<Rightarrow> key \<Rightarrow> LocalKV \<Rightarrow> ((rc_t \<times> ldo option \<times> object_info_t) \<times> LocalKV) result" where
  "get now bucket key t =
     (if \<not> valid key then Inl Assert_failed
      else let (res, t1) = doColOp now bucket key DONT_CREATE_OR_TRIGGER get_lambda t
           in Inr ((cr_rc res, Option.bind (cr_out res) id, cr_info res), t1))"

definition getAvailable_lambda ::
  "key \<Rightarrow> (key, ldo) omap \<Rightarrow> (key, ldo) omap fn_row_op_t" where
  "getAvailable_lambda key ldos r previously_existed =
     (let (_, col_names, _) = getActiveColumnNamesCapacities (K2 key) r;
          ldos' = fold (\<lambda>name l. case getCol_name name r of
                          Some c \<Rightarrow> if availability c = InLocalMemory then om_set (Key (K1 key) name) (cell_ldo c) l else l
                        | None \<Rightarrow> l) col_names ldos
      in (if ldos' \<noteq> [] then KELPIE_OK else KELPIE_ENOENT, r, ldos'))"

definition getAvailable ::
  "u32 \<Rightarrow> bucket_t \<Rightarrow> key \<Rightarrow> (key, ldo) omap \<Rightarrow> LocalKV \<Rightarrow> ((rc_t \<times> (key, ldo) omap) \<times> LocalKV) result" where
  "getAvailable now bucket key ldos t =
     (if \<not> valid key then Inl Assert_failed
      else if IsRowWildcard key then Inl Assert_failed
      else if \<not> IsColWildcard key then
        rbind (get now bucket key t) (\<lambda>((rc, x, _), t1).
          Inr ((rc, if rc = KELPIE_OK then (case x of Some l \<Rightarrow> om_set key l ldos | None \<Rightarrow> om_set key None ldos) else ldos), t1))
      else let (res, t1) = doRowOp bucket key DONT_CREATE_OR_TRIGGER (getAvailable_lambda key ldos) t
           in Inr ((cr_rc res, case cr_out res of Some l \<Rightarrow> l | None \<Rightarrow> ldos), t1))"

text \<open>
  The lambda of \<^verbatim>\<open>getForOp\<close>.  It returns the object for the caller and the storage state.
\<close>
definition getForOp_lambda ::
  "u32 \<Rightarrow> (u32 \<Rightarrow> 'io IomBase option) \<Rightarrow> bucket_t \<Rightarrow> key \<Rightarrow> mailbox_t \<Rightarrow> pool_behavior_t \<Rightarrow> u32 \<Rightarrow> 'io \<Rightarrow>
     (ldo option \<times> 'io) fn_column_op_t" where
  "getForOp_lambda now FindIOM bucket key mailbox_if_missing behavior_flags iom_hash io r col previously_existed =
     (if availability col = InLocalMemory then (KELPIE_OK, col, Some (cell_ldo col), io)
      else if iom_hash \<noteq> 0 then
        (case FindIOM iom_hash of
           None \<Rightarrow> (KELPIE_EIO, appendWaitingList mailbox_if_missing col, None, io)
         | Some iom \<Rightarrow>
             let (rc, x, io1) = iom_ReadObject iom bucket key io in
             if rc = KELPIE_OK then
               (if has_flag behavior_flags ReadToRemote
                then (KELPIE_OK, col\<lparr>availability := InLocalMemory, cell_ldo := x, time_posted := now\<rparr>, Some x, io1)
                else (KELPIE_OK, col\<lparr>availability := InDisk\<rparr>, Some x, io1))
             else (rc, appendWaitingList mailbox_if_missing col, Some x, io1))
      else (KELPIE_ENOENT, appendWaitingList mailbox_if_missing col, None, io))"

definition getForOp ::
  "u32 \<Rightarrow> (u32 \<Rightarrow> 'io IomBase option) \<Rightarrow> bucket_t \<Rightarrow> key \<Rightarrow> mailbox_t \<Rightarrow> pool_behavior_t \<Rightarrow> u32 \<Rightarrow> 'io \<Rightarrow> LocalKV \<Rightarrow>
     ((rc_t \<times> ldo option \<times> object_info_t) \<times> LocalKV \<times> 'io) result" where
  "getForOp now FindIOM bucket key mailbox_if_missing behavior_flags iom_hash io t =
     (if \<not> valid key then Inl Assert_failed
      else let (res, t1) = doColOp now bucket key CREATE_IF_MISSING
                 (getForOp_lambda now FindIOM bucket key mailbox_if_missing behavior_flags iom_hash io) t
           in Inr ((cr_rc res, Option.bind (cr_out res) fst, cr_info res), t1,
                   case cr_out res of Some (_, io1) \<Rightarrow> io1 | None \<Rightarrow> io))"

text \<open>The bytes copied out and their number.\<close>

definition getData ::
  "u32 \<Rightarrow> bucket_t \<Rightarrow> key \<Rightarrow> nat \<Rightarrow> LocalKV \<Rightarrow> ((rc_t \<times> u8 list \<times> nat \<times> object_info_t) \<times> LocalKV) result" where
  "getData now bucket key max_size t =
     (if \<not> valid key then Inl Assert_failed
      else rbind (get now bucket key t) (\<lambda>((rc, x, info), t1).
        if rc = KELPIE_OK then
          let l = (case x of Some l \<Rightarrow> l | None \<Rightarrow> None);
              n = (if max_size < unat (GetDataSize l) then max_size else unat (GetDataSize l))
          in Inr ((rc, take n (case l of Some d \<Rightarrow> do_data d | None \<Rightarrow> []), n, info), t1)
        else Inr ((rc, [], 0, info), t1)))"

definition wantLocal_lambda :: "key \<Rightarrow> bool \<Rightarrow> callback_t option \<Rightarrow> effect list fn_column_op_t" where
  "wantLocal_lambda key caller_will_fetch_if_missing callback r col previously_existed =
     (if availability col = InLocalMemory then
        (KELPIE_OK, col,
         case callback of
           Some cb \<Rightarrow> [Call_now cb key (cell_ldo col) (cell_getInfo col (row_getInfo key r Wipe_info))]
         | None \<Rightarrow> [])
      else
        let col1 = (case callback of Some cb \<Rightarrow> appendCallbackList cb col | None \<Rightarrow> col);
            already_requested = (availability col1 = Requested)
        in if caller_will_fetch_if_missing \<and> \<not> already_requested
           then (KELPIE_ENOENT, col1\<lparr>availability := Requested\<rparr>, [])
           else (if already_requested then KELPIE_WAITING else KELPIE_ENOENT, col1, []))"

definition wantLocal ::
  "u32 \<Rightarrow> bucket_t \<Rightarrow> key \<Rightarrow> bool \<Rightarrow> callback_t option \<Rightarrow> LocalKV \<Rightarrow> ((rc_t \<times> effect list) \<times> LocalKV) result" where
  "wantLocal now bucket key caller_will_fetch_if_missing callback t =
     (if \<not> valid key then Inl Assert_failed
      else let (res, t1) = doColOp now bucket key CREATE_IF_MISSING
                             (wantLocal_lambda key caller_will_fetch_if_missing callback) t
           in Inr ((cr_rc res, case cr_out res of Some e \<Rightarrow> e | None \<Rightarrow> []), t1))"

text \<open>The rows a drop looks at, by their row names.\<close>

definition drop_check_rows :: "bucket_t \<Rightarrow> key \<Rightarrow> LocalKV \<Rightarrow> string list" where
  "drop_check_rows bucket key_prefix t =
     (if \<not> IsRowWildcard key_prefix then [K1 key_prefix]
      else let prefix = butlast (makeRowname bucket (Key1 (K1 key_prefix)))
           in map (\<lambda>(n, r). rowname r) (filter (\<lambda>(n, r). StringBeginsWith n prefix) (om_lower_bound prefix (rows t))))"

definition drop_row :: "u32 \<Rightarrow> bucket_t \<Rightarrow> key \<Rightarrow> string \<Rightarrow> int \<times> string list \<times> LocalKV \<Rightarrow> int \<times> string list \<times> LocalKV" where
  "drop_row now bucket key_prefix name = (\<lambda>(found_items, recheck_rows, t).
     let (res, t1) = doRowOp bucket (Key1 name) 0
           (\<lambda>r _. let (n, r1) = dropColumns now (K2 key_prefix) r
                  in (if isEmpty r1 then KELPIE_RECHECK else KELPIE_OK, r1, n)) t
     in (found_items + (case cr_out res of Some n \<Rightarrow> n | None \<Rightarrow> 0),
         if cr_rc res = KELPIE_RECHECK then recheck_rows @ [name] else recheck_rows, t1))"

definition drop_recheck :: "bucket_t \<Rightarrow> string \<Rightarrow> LocalKV \<Rightarrow> LocalKV" where
  "drop_recheck bucket name t =
     (let fullrowname = makeRowname bucket (Key1 name) in
      case getRow fullrowname t of
        Some r \<Rightarrow> if isEmpty r then t\<lparr>rows := om_del fullrowname (rows t)\<rparr> else t
      | None \<Rightarrow> t)"

definition drop_op :: "u32 \<Rightarrow> bucket_t \<Rightarrow> key \<Rightarrow> LocalKV \<Rightarrow> (rc_t \<times> LocalKV) result" where
  "drop_op now bucket key_prefix t =
     (if \<not> valid key_prefix then Inl Assert_failed
      else let (found_items, recheck_rows, t1) =
                 fold (drop_row now bucket key_prefix) (drop_check_rows bucket key_prefix t) (0, [], t);
               t2 = fold (drop_recheck bucket) recheck_rows t1
           in Inr (if found_items \<noteq> 0 then KELPIE_OK else KELPIE_ENOENT, t2))"

definition list_row :: "key \<Rightarrow> string \<Rightarrow> LocalKVRow \<Rightarrow> ObjectCapacities \<Rightarrow> ObjectCapacities \<times> nat" where
  "list_row key_prefix name r oc =
     (let (_, col_names, caps) = getActiveColumnNamesCapacities (K2 key_prefix) r
      in (oc\<lparr>oc_keys := oc_keys oc @ map (\<lambda>c. Key name c) col_names, oc_capacities := oc_capacities oc @ caps\<rparr>,
          length col_names))"

text \<open>The part of \<^verbatim>\<open>list\<close> that looks in memory: the results, whether anything was found, and
  whether the i/o module is consulted.\<close>

definition list_local ::
  "bucket_t \<Rightarrow> key \<Rightarrow> bool \<Rightarrow> ObjectCapacities \<Rightarrow> LocalKV \<Rightarrow> ObjectCapacities \<times> bool \<times> bool" where
  "list_local bucket key_prefix has_iom oc t =
     (if \<not> IsRowWildcard key_prefix then
        let (oc1, n) = (case getRow (makeRowname bucket key_prefix) t of
              Some r \<Rightarrow> list_row key_prefix (K1 key_prefix) r oc
            | None \<Rightarrow> (oc, 0))
        in (oc1, n \<noteq> 0, has_iom \<and> (IsColWildcard key_prefix \<or> n = 1))
      else
        let prefix = butlast (makeRowname bucket (Key1 (K1 key_prefix)));
            hits = filter (\<lambda>(n, r). StringBeginsWith n prefix) (om_lower_bound prefix (rows t));
            (oc1, found) = fold (\<lambda>(n, r) (oc, f). let (oc', k) = list_row key_prefix (rowname r) r oc in (oc', f \<or> k \<noteq> 0))
                             hits (oc, False)
        in (oc1, found, has_iom))"

definition list_op ::
  "bucket_t \<Rightarrow> key \<Rightarrow> 'io IomBase option \<Rightarrow> 'io \<Rightarrow> ObjectCapacities \<Rightarrow> LocalKV \<Rightarrow>
     (rc_t \<times> ObjectCapacities \<times> 'io) result" where
  "list_op bucket key_prefix iom io object_capacities t =
     (if \<not> valid key_prefix then Inl Assert_failed
      else let (oc1, found_items, needs_an_iom_check) = list_local bucket key_prefix (iom \<noteq> None) object_capacities t
           in case (if needs_an_iom_check then iom else None) of
                Some m \<Rightarrow> let (oc2, io1) = iom_ListObjects m bucket key_prefix io
                          in Inr (if found_items \<or> length (oc_keys oc2) > 0 then KELPIE_OK else KELPIE_ENOENT,
                                  oc_Merge oc1 oc2, io1)
              | None \<Rightarrow> Inr (if found_items then KELPIE_OK else KELPIE_ENOENT, oc1, io))"

definition getInfo_lambda :: "unit fn_column_op_t" where
  "getInfo_lambda r col previously_existed =
     (if row_getAvailability r = Requested then KELPIE_WAITING
      else if previously_existed then KELPIE_OK else KELPIE_ENOENT, col, ())"

definition getInfo ::
  "u32 \<Rightarrow> bucket_t \<Rightarrow> key \<Rightarrow> bool \<Rightarrow> LocalKV \<Rightarrow> (rc_t \<times> object_info_t) \<times> LocalKV" where
  "getInfo now bucket key has_info t =
     (let (res, t1) = doColOp now bucket key DONT_CREATE_OR_TRIGGER getInfo_lambda t in
      if cr_rc res = KELPIE_WAITING \<or> \<not> has_info then ((cr_rc res, cr_info res), t1)
      else ((if row_num_columns (cr_info res) \<noteq> 0 then KELPIE_OK else KELPIE_ENOENT, cr_info res), t1))"

definition wipeAll :: "LocalKV \<Rightarrow> LocalKV" where
  "wipeAll t = (if configured t then t\<lparr>rows := []\<rparr> else t)"

definition new_LocalKV :: LocalKV where
  "new_LocalKV = \<lparr>configured = False, rows = []\<rparr>"

definition LocalKV_Init :: "LocalKV \<Rightarrow> (rc_t \<times> LocalKV) result" where
  "LocalKV_Init t = (if configured t then Inl Assert_failed else Inr (KELPIE_OK, t\<lparr>configured := True\<rparr>))"

section \<open>Well-formedness\<close>

definition lkv_inv :: "LocalKV \<Rightarrow> bool" where
  "lkv_inv t = (om_inv (rows t) \<and> list_all (\<lambda>(n, r). row_inv r \<and> suffix (rowname r) n) (rows t))"

text \<open>The cell a bucket and a key name, and the object a lookup in memory finds.\<close>

definition cell_at :: "bucket_t \<Rightarrow> key \<Rightarrow> LocalKV \<Rightarrow> LocalKVCell option" where
  "cell_at bucket key t = Option.bind (getRow (makeRowname bucket key) t) (getCol key)"

definition stored :: "bucket_t \<Rightarrow> key \<Rightarrow> LocalKV \<Rightarrow> ldo option" where
  "stored bucket key t = (case cell_at bucket key t of
     Some c \<Rightarrow> if availability c = InLocalMemory then Some (cell_ldo c) else None | None \<Rightarrow> None)"

text \<open>Two bucket/key pairs share a slot when their full row names and columns agree.\<close>

definition same_slot :: "bucket_t \<Rightarrow> key \<Rightarrow> bucket_t \<Rightarrow> key \<Rightarrow> bool" where
  "same_slot b k b' k' = (makeRowname b k = makeRowname b' k' \<and> K2 k = K2 k')"

lemma lkv_inv_om [dest]: "lkv_inv t \<Longrightarrow> om_inv (rows t)"
  by (simp add: lkv_inv_def)

lemma lkv_inv_row: "lkv_inv t \<Longrightarrow> getRow n t = Some r \<Longrightarrow> row_inv r \<and> suffix (rowname r) n"
  by (auto simp: lkv_inv_def getRow_def list_all_iff dest!: map_of_SomeD)

lemma lkv_inv_setRow: "lkv_inv t \<Longrightarrow> row_inv r \<Longrightarrow> suffix (rowname r) n \<Longrightarrow> lkv_inv (setRow n r t)"
  by (auto simp: lkv_inv_def setRow_def intro!: list_all_om_set)

lemma getRow_setRow: "lkv_inv t \<Longrightarrow> getRow n' (setRow n r t) = (if n' = n then Some r else getRow n' t)"
  by (auto simp: getRow_def setRow_def om_get_om_set)

lemma cell_at_setRow:
  "lkv_inv t \<Longrightarrow> cell_at b k (setRow n r t) = (if makeRowname b k = n then getCol k r else cell_at b k t)"
  by (simp add: cell_at_def getRow_setRow)

lemma suffix_makeRowname [simp]: "suffix (K1 key) (makeRowname bucket key)"
  by (simp add: makeRowname_def suffixI)

lemma configured_setRow [simp]: "configured (setRow n r t) = configured t"
  by (simp add: setRow_def)

lemma cell_at_wf: "lkv_inv t \<Longrightarrow> cell_at b k t = Some c \<Longrightarrow> cell_wf c"
  by (auto simp: cell_at_def bind_eq_Some_conv dest!: lkv_inv_row getCol_wf)

section \<open>The column operation on the table\<close>

lemma doColOp_None:
  assumes inv: "lkv_inv t" and tc: "target_cell now flags (cell_at bucket key t) = None"
    and p: "doColOp now bucket key flags func t = (res, t1)"
  shows "cr_rc res = KELPIE_ENOENT \<and> cr_out res = None \<and> cr_effects res = [] \<and>
     lkv_inv t1 \<and> (\<forall>b k. cell_at b k t1 = cell_at b k t) \<and> configured t1 = configured t"
proof -
  have fl: "and flags CREATE_IF_MISSING = 0" and ca: "cell_at bucket key t = None"
    using tc by (auto simp: target_cell_def split: option.splits if_splits)
  show ?thesis
  proof (cases "getRow (makeRowname bucket key) t")
    case None
    then show ?thesis using fl inv p by (auto simp: doColOp_def)
  next
    case (Some r)
    then have "getCol key r = None" using ca by (simp add: cell_at_def)
    then have "target_cell now flags (getCol key r) = None" using fl by (simp add: target_cell_def)
    then have "res = \<lparr>cr_rc = KELPIE_ENOENT, cr_info = row_getInfo key r Wipe_info, cr_out = None, cr_effects = []\<rparr>"
      and t1: "t1 = setRow (makeRowname bucket key) r t"
      using Some p by (simp_all add: doColOp_def row_doColOp_None)
    moreover have "cell_at b k t1 = cell_at b k t" for b k
      using Some unfolding t1 cell_at_setRow [OF inv] by (simp add: cell_at_def)
    ultimately show ?thesis
      using inv lkv_inv_row [OF inv Some] by (simp add: lkv_inv_setRow)
  qed
qed

lemma doColOp_Some:
  assumes inv: "lkv_inv t" and wf: "fn_keeps_wf func"
    and tc: "target_cell now flags (cell_at bucket key t) = Some (c, existed)"
    and p: "doColOp now bucket key flags func t = (res, t1)"
  obtains r1 c1 c2 where
    "row_inv r1" "getCol key r1 = Some c"
    "func r1 c existed = (cr_rc res, c1, the (cr_out res))" "cr_out res \<noteq> None"
    "(cr_effects res, c2) = (if and flags TRIGGER_DEPENDENCIES \<noteq> 0
        then dispatchCallbacksAndNotifications key (setCol key c1 r1) c1 else ([], c1))"
    "cr_info res = row_getInfo key (setCol key (c2\<lparr>time_accessed := now\<rparr>) (setCol key c1 r1)) (cell_getInfo c2 Wipe_info)"
    "lkv_inv t1" "configured t1 = configured t"
    "\<And>b k. cell_at b k t1 = (if same_slot b k bucket key then Some (c2\<lparr>time_accessed := now\<rparr>) else cell_at b k t)"
proof -
  let ?n = "makeRowname bucket key"
  define r t0 where "r = (case getRow ?n t of Some r \<Rightarrow> r | None \<Rightarrow> new_LocalKVRow (K1 key))"
    and "t0 = (case getRow ?n t of Some _ \<Rightarrow> t | None \<Rightarrow> setRow ?n r t)"
  have r: "row_inv r" "suffix (rowname r) ?n"
    using lkv_inv_row [OF inv] by (auto simp: r_def split: option.splits) (simp add: new_LocalKVRow_def)
  have ca: "getCol k r = cell_at b k t" if "makeRowname b k = ?n" for b k
    using that by (auto simp: r_def cell_at_def split: option.splits)
  have t0: "lkv_inv t0" "configured t0 = configured t"
    using inv r by (auto simp: t0_def lkv_inv_setRow split: option.splits)
  have ct0: "cell_at b k t0 = cell_at b k t" for b k
    using ca [of b k] by (auto simp: t0_def cell_at_setRow [OF inv] split: option.splits)
  have tr: "target_cell now flags (getCol key r) = Some (c, existed)" using tc ca by simp
  obtain r1 rc c1 out effs c2 where R:
    "row_inv r1" "getCol key r1 = Some c" "rowname r1 = rowname r"
    "\<And>k. K2 k \<noteq> K2 key \<Longrightarrow> getCol k r1 = getCol k r"
    "func r1 c existed = (rc, c1, out)"
    "(effs, c2) = (if and flags TRIGGER_DEPENDENCIES \<noteq> 0
        then dispatchCallbacksAndNotifications key (setCol key c1 r1) c1 else ([], c1))"
    "row_doColOp now key flags func r =
       (\<lparr>cr_rc = rc, cr_info = cell_getInfo c2 Wipe_info, cr_out = Some out, cr_effects = effs\<rparr>,
        setCol key (c2\<lparr>time_accessed := now\<rparr>) (setCol key c1 r1))"
    "cell_wf c1" "cell_wf c2"
    using row_doColOp_Some [OF r(1) wf tr] by blast
  let ?rf = "setCol key (c2\<lparr>time_accessed := now\<rparr>) (setCol key c1 r1)"
  have res: "res = \<lparr>cr_rc = rc, cr_info = row_getInfo key ?rf (cell_getInfo c2 Wipe_info), cr_out = Some out, cr_effects = effs\<rparr>"
    and t1: "t1 = setRow ?n ?rf t0"
    using p tc R(7) by (auto simp: doColOp_def r_def t0_def target_cell_def cell_at_def Let_def
        split: option.splits if_splits)
  have rf: "row_inv ?rf" using R(1,8,9) by (auto intro!: row_inv_setCol simp: cell_wf_def)
  have cells: "getCol k ?rf = (if K2 k = K2 key then Some (c2\<lparr>time_accessed := now\<rparr>) else getCol k r)" for k
    using R(1,4,8) by (simp add: getCol_setCol row_inv_setCol)
  have "cell_at b k t1 = (if same_slot b k bucket key then Some (c2\<lparr>time_accessed := now\<rparr>) else cell_at b k t)" for b k
    unfolding t1 cell_at_setRow [OF t0(1)] cells ct0 same_slot_def using ca [of b k] by auto
  moreover have "lkv_inv t1" using t0 rf r(2) R(3) unfolding t1 by (intro lkv_inv_setRow) auto
  moreover have "configured t1 = configured t" using t0 t1 by simp
  ultimately show ?thesis using that [of r1 c1 c2] R res by simp
qed

text \<open>The same without dependency triggers: no effects, and the lambda's cell is the final one.\<close>

lemma doColOp_quiet:
  assumes "lkv_inv t" "fn_keeps_wf func" "and flags TRIGGER_DEPENDENCIES = 0"
    and "target_cell now flags (cell_at bucket key t) = Some (c, existed)"
    and "doColOp now bucket key flags func t = (res, t1)"
  obtains r1 c1 where
    "row_inv r1" "getCol key r1 = Some c"
    "func r1 c existed = (cr_rc res, c1, the (cr_out res))" "cr_out res \<noteq> None" "cr_effects res = []"
    "cr_info res = row_getInfo key (setCol key (c1\<lparr>time_accessed := now\<rparr>) (setCol key c1 r1)) (cell_getInfo c1 Wipe_info)"
    "lkv_inv t1" "configured t1 = configured t"
    "\<And>b k. cell_at b k t1 = (if same_slot b k bucket key then Some (c1\<lparr>time_accessed := now\<rparr>) else cell_at b k t)"
proof -
  obtain r1 c1 c2 where R: "row_inv r1" "getCol key r1 = Some c"
    "func r1 c existed = (cr_rc res, c1, the (cr_out res))" "cr_out res \<noteq> None"
    "(cr_effects res, c2) = ([], c1)"
    "cr_info res = row_getInfo key (setCol key (c2\<lparr>time_accessed := now\<rparr>) (setCol key c1 r1)) (cell_getInfo c2 Wipe_info)"
    "lkv_inv t1" "configured t1 = configured t"
    "\<And>b k. cell_at b k t1 = (if same_slot b k bucket key then Some (c2\<lparr>time_accessed := now\<rparr>) else cell_at b k t)"
    using doColOp_Some [OF assms(1,2,4,5)] assms(3) by auto
  then show ?thesis using that [of r1 c1] by simp
qed

section \<open>Each operation on the cells\<close>

lemma flag_tests:
  "and (or TRIGGER_DEPENDENCIES CREATE_IF_MISSING) CREATE_IF_MISSING \<noteq> 0"
  "and (or TRIGGER_DEPENDENCIES CREATE_IF_MISSING) TRIGGER_DEPENDENCIES \<noteq> 0"
  "and TRIGGER_DEPENDENCIES TRIGGER_DEPENDENCIES \<noteq> 0" "and TRIGGER_DEPENDENCIES CREATE_IF_MISSING = 0"
  "and CREATE_IF_MISSING CREATE_IF_MISSING \<noteq> 0" "and CREATE_IF_MISSING TRIGGER_DEPENDENCIES = 0"
  "and DONT_CREATE_OR_TRIGGER CREATE_IF_MISSING = 0" "and DONT_CREATE_OR_TRIGGER TRIGGER_DEPENDENCIES = 0"
  "CREATE_IF_MISSING \<noteq> 0" "TRIGGER_DEPENDENCIES \<noteq> 0"
  by (simp_all add: lambda_flag_defs)

lemma fn_keeps_wf_lambdas [simp]:
  "fn_keeps_wf (put_lambda now x f)" "fn_keeps_wf get_lambda" "fn_keeps_wf getInfo_lambda"
  "fn_keeps_wf (getForOp_lambda now FindIOM b k mb f h io)" "fn_keeps_wf (wantLocal_lambda k fetch cb)"
proof -
  show "fn_keeps_wf (put_lambda now x f)" "fn_keeps_wf get_lambda" "fn_keeps_wf getInfo_lambda"
    by (auto simp: fn_keeps_wf_def put_lambda_def get_lambda_def getInfo_lambda_def cell_wf_def)
  have upd: "cell_wf (c\<lparr>availability := a, cell_ldo := l, time_posted := p\<rparr>) = cell_wf c"
    "cell_wf (c\<lparr>availability := a\<rparr>) = cell_wf c" for c a l p
    by (simp_all add: cell_wf_def)
  show "fn_keeps_wf (getForOp_lambda now FindIOM b k mb f h io)"
    by (auto simp: fn_keeps_wf_def getForOp_lambda_def Let_def upd split: option.splits prod.splits)
  show "fn_keeps_wf (wantLocal_lambda k fetch cb)"
    by (auto simp: fn_keeps_wf_def wantLocal_lambda_def Let_def upd split: option.splits)
qed

lemma same_slot_refl [simp]: "same_slot b k b k"
  by (simp add: same_slot_def)

lemma target_cell_create: "and flags CREATE_IF_MISSING \<noteq> 0 \<Longrightarrow> \<exists>c e. target_cell now flags oc = Some (c, e)"
  by (cases oc) (auto simp: target_cell_def)

lemma cell_at_same_slot: "same_slot b' k' b k \<Longrightarrow> cell_at b' k' t = cell_at b k t"
proof -
  assume s: "same_slot b' k' b k"
  then have "getCol k' = getCol k" by (simp add: same_slot_def fun_eq_iff getCol_def)
  then show ?thesis using s by (simp add: same_slot_def cell_at_def)
qed

lemma dispatch_cell:
  "snd (dispatchCallbacksAndNotifications key r c) = c\<lparr>callback_list := [], waiting_ops_list := []\<rparr>"
  by (simp add: dispatchCallbacksAndNotifications_def Let_def)

definition put_outcome :: "u32 \<Rightarrow> ldo \<Rightarrow> pool_behavior_t \<Rightarrow> LocalKVCell \<Rightarrow> LocalKVCell" where
  "put_outcome now x f c = fst (snd (put_lambda now x f undefined c True))"

text \<open>What one put does: \<^term>\<open>c\<close> is the cell it works on.\<close>

lemma put_cell:
  assumes inv: "lkv_inv t" and v: "valid key"
    and c: "target_cell now (if has_flag f WriteToLocal then CREATE_IF_MISSING else 0) (cell_at b key t) = Some (c, existed)"
    and p: "put now b key x f iom io t = Inr ((rc, info, effs), t1, io1)"
  obtains r2 where
    "effs = fst (dispatchCallbacksAndNotifications key r2 (put_outcome now x f c))"
    "getCol key r2 = Some (put_outcome now x f c)"
    "\<And>b' k'. cell_at b' k' t1 = (if same_slot b' k' b key
        then Some ((put_outcome now x f c)\<lparr>callback_list := [], waiting_ops_list := [], time_accessed := now\<rparr>)
        else cell_at b' k' t)"
    "lkv_inv t1" "configured t1 = configured t"
    "\<not> has_flag f WriteToIOM \<Longrightarrow> rc = fst (put_lambda now x f undefined c True) \<and> io1 = io"
proof -
  define flags where "flags = (if has_flag f WriteToLocal
      then or TRIGGER_DEPENDENCIES CREATE_IF_MISSING else TRIGGER_DEPENDENCIES)"
  obtain res t1' where d: "doColOp now b key flags (put_lambda now x f) t = (res, t1')" by fastforce
  have eq: "t1 = t1'" "effs = cr_effects res" "\<not> has_flag f WriteToIOM \<Longrightarrow> rc = cr_rc res \<and> io1 = io"
    using p v d by (auto simp: put_def flags_def Let_def split: prod.splits option.splits if_splits)
  have tc: "target_cell now flags (cell_at b key t) = Some (c, existed)"
    using c by (auto simp: target_cell_def flags_def flag_tests split: option.splits if_splits)
  have trig: "and flags TRIGGER_DEPENDENCIES \<noteq> 0" by (simp add: flags_def lambda_flag_defs)
  from doColOp_Some [OF inv fn_keeps_wf_lambdas(1) tc d] obtain r1 c1 c2 where
    R: "row_inv r1" "getCol key r1 = Some c"
    "put_lambda now x f r1 c existed = (cr_rc res, c1, the (cr_out res))"
    "(cr_effects res, c2) = dispatchCallbacksAndNotifications key (setCol key c1 r1) c1"
    "lkv_inv t1'" "configured t1' = configured t"
    "\<And>b' k'. cell_at b' k' t1' = (if same_slot b' k' b key then Some (c2\<lparr>time_accessed := now\<rparr>) else cell_at b' k' t)"
    using trig by (metis (no_types, lifting))
  have c1: "c1 = put_outcome now x f c" "cr_rc res = fst (put_lambda now x f undefined c True)"
    using R(3) by (auto simp: put_outcome_def put_lambda_def split: if_splits)
  have c2: "c2 = c1\<lparr>callback_list := [], waiting_ops_list := []\<rparr>"
    using R(4) dispatch_cell by (metis snd_conv)
  show ?thesis
    using that [of "setCol key c1 r1"] R c1 c2 eq
    by (simp add: getCol_setCol) (metis fst_conv)
qed

lemma put_missing:
  assumes inv: "lkv_inv t" and v: "valid key" and nw: "\<not> has_flag f WriteToLocal" and ca: "cell_at b key t = None"
    and p: "put now b key x f iom io t = Inr ((rc, info, effs), t1, io1)"
  shows "effs = [] \<and> lkv_inv t1 \<and> (\<forall>b' k'. cell_at b' k' t1 = cell_at b' k' t) \<and>
    (\<not> has_flag f WriteToIOM \<longrightarrow> rc = KELPIE_ENOENT \<and> io1 = io)"
proof -
  obtain res t1' where d: "doColOp now b key TRIGGER_DEPENDENCIES (put_lambda now x f) t = (res, t1')" by fastforce
  have "target_cell now TRIGGER_DEPENDENCIES (cell_at b key t) = None"
    using ca by (simp add: target_cell_def flag_tests)
  from doColOp_None [OF inv this d] show ?thesis
    using p v d nw by (auto simp: put_def Let_def split: prod.splits option.splits if_splits)
qed

lemma get_cell:
  assumes inv: "lkv_inv t" and v: "valid key"
  obtains info t1 where
    "get now b key t = Inr ((if stored b key t = None then KELPIE_ENOENT else KELPIE_OK, stored b key t, info), t1)"
    "lkv_inv t1" "configured t1 = configured t"
    "\<And>b' k'. cell_at b' k' t1 = (if same_slot b' k' b key
        then map_option (\<lambda>c. c\<lparr>time_accessed := now\<rparr>) (cell_at b key t) else cell_at b' k' t)"
proof -
  obtain res t1 where d: "doColOp now b key DONT_CREATE_OR_TRIGGER get_lambda t = (res, t1)" by fastforce
  show ?thesis
  proof (cases "cell_at b key t")
    case None
    then have "target_cell now DONT_CREATE_OR_TRIGGER (cell_at b key t) = None"
      by (simp add: target_cell_def flag_tests)
    note N = doColOp_None [OF inv this d]
    have cells: "cell_at b' k' t1 = (if same_slot b' k' b key
        then map_option (\<lambda>c. c\<lparr>time_accessed := now\<rparr>) (cell_at b key t) else cell_at b' k' t)" for b' k'
      using N cell_at_same_slot [of b' k' b key t] None by simp
    have "get now b key t = Inr ((if stored b key t = None then KELPIE_ENOENT else KELPIE_OK, stored b key t, cr_info res), t1)"
      using N v d None by (simp add: get_def stored_def)
    then show ?thesis using that cells N by blast
  next
    case (Some c)
    then have "target_cell now DONT_CREATE_OR_TRIGGER (cell_at b key t) = Some (c, True)"
      by (simp add: target_cell_def)
    from doColOp_quiet [OF inv fn_keeps_wf_lambdas(2) flag_tests(8) this d] obtain r1 c1 where
      R: "get_lambda r1 c True = (cr_rc res, c1, the (cr_out res))" "cr_out res \<noteq> None"
      "lkv_inv t1" "configured t1 = configured t"
      "\<And>b' k'. cell_at b' k' t1 = (if same_slot b' k' b key then Some (c1\<lparr>time_accessed := now\<rparr>) else cell_at b' k' t)"
      by metis
    have "c1 = c" "Option.bind (cr_out res) id = stored b key t"
      "cr_rc res = (if stored b key t = None then KELPIE_ENOENT else KELPIE_OK)"
      using R(1,2) Some by (auto simp: stored_def get_lambda_def split: if_splits)
    then show ?thesis
      using that [of "cr_info res" t1] R v d Some by (simp add: get_def)
  qed
qed

lemma stored_get:
  assumes "lkv_inv t" "get now b key t = Inr (out, t1)"
  shows "stored b' k' t1 = stored b' k' t" "lkv_inv t1"
proof -
  have v: "valid key" using assms(2) by (simp add: get_def split: if_splits)
  obtain info t2 where
    "get now b key t = Inr ((if stored b key t = None then KELPIE_ENOENT else KELPIE_OK, stored b key t, info), t2)"
    "lkv_inv t2"
    "\<And>b' k'. cell_at b' k' t2 = (if same_slot b' k' b key
        then map_option (\<lambda>c. c\<lparr>time_accessed := now\<rparr>) (cell_at b key t) else cell_at b' k' t)"
    using get_cell [OF assms(1) v] by metis
  then show "stored b' k' t1 = stored b' k' t" "lkv_inv t1"
    using assms(2) cell_at_same_slot [of b' k' b key t] by (auto simp: stored_def split: option.splits)
qed

lemma put_outcome_simps:
  "availability (put_outcome now x f c) = InLocalMemory"
  "cell_ldo (put_outcome now x f c) =
     (if availability c = InLocalMemory \<and> \<not> has_flag f EnableOverwrites then cell_ldo c else x)"
  "callback_list (put_outcome now x f c) = callback_list c"
  "waiting_ops_list (put_outcome now x f c) = waiting_ops_list c"
  by (auto simp: put_outcome_def put_lambda_def)

lemma stored_put:
  assumes inv: "lkv_inv t" and v: "valid key" and w: "has_flag f WriteToLocal"
    and p: "put now b key x f iom io t = Inr ((rc, info, effs), t1, io1)"
  shows "stored b' k' t1 = (if same_slot b' k' b key
     then Some (case stored b key t of Some old \<Rightarrow> if has_flag f EnableOverwrites then x else old | None \<Rightarrow> x)
     else stored b' k' t)"
    and "lkv_inv t1" "configured t1 = configured t"
    and "\<not> has_flag f WriteToIOM \<Longrightarrow>
      rc = (if stored b key t \<noteq> None \<and> \<not> has_flag f EnableOverwrites then KELPIE_EEXIST else KELPIE_OK) \<and> io1 = io"
proof -
  obtain c existed where c: "target_cell now (if has_flag f WriteToLocal then CREATE_IF_MISSING else 0) (cell_at b key t) = Some (c, existed)"
    using w target_cell_create [OF flag_tests(5), of now "cell_at b key t"] by auto
  have st: "stored b key t = (if availability c = InLocalMemory then Some (cell_ldo c) else None)"
    using c w by (auto simp: target_cell_def stored_def new_LocalKVCell_def split: option.splits if_splits)
  obtain r2 where R:
    "\<And>b' k'. cell_at b' k' t1 = (if same_slot b' k' b key
        then Some ((put_outcome now x f c)\<lparr>callback_list := [], waiting_ops_list := [], time_accessed := now\<rparr>)
        else cell_at b' k' t)"
    "lkv_inv t1" "configured t1 = configured t"
    "\<not> has_flag f WriteToIOM \<Longrightarrow> rc = fst (put_lambda now x f undefined c True) \<and> io1 = io"
    using put_cell [OF inv v c p] by metis
  show "stored b' k' t1 = (if same_slot b' k' b key
     then Some (case stored b key t of Some old \<Rightarrow> if has_flag f EnableOverwrites then x else old | None \<Rightarrow> x)
     else stored b' k' t)"
    unfolding stored_def [of b' k' t1] R(1) st by (auto simp: put_outcome_simps stored_def)
  show "lkv_inv t1" "configured t1 = configured t" using R by auto
  show "\<not> has_flag f WriteToIOM \<Longrightarrow>
      rc = (if stored b key t \<noteq> None \<and> \<not> has_flag f EnableOverwrites then KELPIE_EEXIST else KELPIE_OK) \<and> io1 = io"
    using R(4) st by (auto simp: put_lambda_def)
qed

section \<open>Dropping\<close>

lemma drop_cell_idem: "drop_cell now s n (drop_cell now s n oc) = drop_cell now s n oc"
  by (auto simp: drop_cell_def cell_isDroppable_def split: option.splits)

lemma cell_at_getCol_name:
  "cell_at b k t = Option.bind (getRow (makeRowname b k) t) (getCol_name (K2 k))"
  by (simp add: cell_at_def getCol_def [abs_def] getCol_name_def [abs_def])

lemma drop_row_cells:
  assumes inv: "lkv_inv t" and d: "drop_row now b key name (found, recheck, t) = (found', recheck', t')"
  shows "lkv_inv t' \<and> configured t' = configured t \<and>
    (\<forall>b' k'. cell_at b' k' t' = (if makeRowname b' k' = makeRowname b (Key1 name)
        then drop_cell now (K2 key) (K2 k') (cell_at b' k' t) else cell_at b' k' t)) \<and>
    found \<le> found' \<and> (found' \<noteq> found \<longleftrightarrow>
      (\<exists>n. pattern_matches (K2 key) n \<and> cell_at b (Key name n) t \<noteq> None))"
proof (cases "getRow (makeRowname b (Key1 name)) t")
  case None
  then have "t' = t" "found' = found" using d by (auto simp: drop_row_def doRowOp_def)
  moreover have "cell_at b' k' t = None" if "makeRowname b' k' = makeRowname b (Key1 name)" for b' k'
    using None that by (simp add: cell_at_def)
  moreover have "makeRowname b (Key name n) = makeRowname b (Key1 name)" for n
    by (simp add: makeRowname_def Key1_def)
  ultimately show ?thesis using inv None by (auto simp: drop_cell_def)
next
  case (Some r)
  have r: "row_inv r" "suffix (rowname r) (makeRowname b (Key1 name))" using lkv_inv_row [OF inv Some] by auto
  obtain k r' where dc: "dropColumns now (K2 key) r = (k, r')" by fastforce
  have t': "t' = setRow (makeRowname b (Key1 name)) r' t" and f: "found' = found + k"
    using d Some dc by (auto simp: drop_row_def doRowOp_def Let_def)
  note D = dropColumns_cells [OF r(1) dc] dropColumns_count [OF r(1) dc]
  have "lkv_inv t'" unfolding t' using inv r D by (intro lkv_inv_setRow) auto
  moreover have "cell_at b' k' t' = (if makeRowname b' k' = makeRowname b (Key1 name)
        then drop_cell now (K2 key) (K2 k') (cell_at b' k' t) else cell_at b' k' t)" for b' k'
    unfolding t' cell_at_getCol_name getRow_setRow [OF inv] using D(3) Some by auto
  moreover have "cell_at b (Key name n) t = getCol_name n r" for n
    using Some by (simp add: cell_at_getCol_name makeRowname_def Key1_def)
  ultimately show ?thesis using f D t' by auto
qed

lemma drop_rows_cells:
  assumes inv: "lkv_inv t" and d: "fold (drop_row now b key) names (found, recheck, t) = (found', recheck', t')"
  shows "lkv_inv t' \<and> configured t' = configured t \<and> found \<le> found' \<and>
    (\<forall>b' k'. cell_at b' k' t' = (if \<exists>name \<in> set names. makeRowname b' k' = makeRowname b (Key1 name)
        then drop_cell now (K2 key) (K2 k') (cell_at b' k' t) else cell_at b' k' t))"
  using assms
proof (induction names arbitrary: found recheck t)
  case (Cons name names)
  obtain f1 c1 t1 where s: "drop_row now b key name (found, recheck, t) = (f1, c1, t1)" by (metis prod_cases3)
  note D = drop_row_cells [OF Cons.prems(1) s]
  have "lkv_inv t' \<and> configured t' = configured t1 \<and> f1 \<le> found' \<and>
    (\<forall>b' k'. cell_at b' k' t' = (if \<exists>name \<in> set names. makeRowname b' k' = makeRowname b (Key1 name)
        then drop_cell now (K2 key) (K2 k') (cell_at b' k' t1) else cell_at b' k' t1))"
    using Cons.IH [of t1 f1 c1] Cons.prems(2) D s by simp
  then show ?case using D by (auto simp: drop_cell_idem)
qed simp

lemma drop_recheck_cells:
  assumes inv: "lkv_inv t"
  shows "lkv_inv (drop_recheck b name t) \<and> configured (drop_recheck b name t) = configured t \<and>
    (\<forall>b' k'. cell_at b' k' (drop_recheck b name t) = cell_at b' k' t)"
proof -
  have "getCol k r = None" if "isEmpty r" for k r using that by (auto simp: isEmpty_def getCol_def)
  then show ?thesis using inv
    by (auto simp: drop_recheck_def Let_def lkv_inv_def cell_at_def getRow_def om_get_om_del
        list_all_om_del split: option.splits)
qed

lemma drop_rechecks_cells:
  "lkv_inv t \<Longrightarrow> lkv_inv (fold (drop_recheck b) names t) \<and>
    configured (fold (drop_recheck b) names t) = configured t \<and>
    (\<forall>b' k'. cell_at b' k' (fold (drop_recheck b) names t) = cell_at b' k' t)"
  by (induction names arbitrary: t) (use drop_recheck_cells in \<open>simp_all\<close>)

lemma drop_op_cells:
  assumes inv: "lkv_inv t" and d: "drop_op now b key t = Inr (rc, t')"
  shows "lkv_inv t'" "configured t' = configured t"
    "cell_at b' k' t' = (if \<exists>name \<in> set (drop_check_rows b key t). makeRowname b' k' = makeRowname b (Key1 name)
        then drop_cell now (K2 key) (K2 k') (cell_at b' k' t) else cell_at b' k' t)"
proof -
  obtain f c t1 where s: "fold (drop_row now b key) (drop_check_rows b key t) (0, [], t) = (f, c, t1)"
    by (metis prod_cases3)
  have t': "t' = fold (drop_recheck b) c t1" using d s by (auto simp: drop_op_def split: if_splits)
  show "lkv_inv t'" "configured t' = configured t"
    "cell_at b' k' t' = (if \<exists>name \<in> set (drop_check_rows b key t). makeRowname b' k' = makeRowname b (Key1 name)
        then drop_cell now (K2 key) (K2 k') (cell_at b' k' t) else cell_at b' k' t)"
    using drop_rows_cells [OF inv s] drop_rechecks_cells [of t1 b c] unfolding t' by auto
qed

lemma drop_exact:
  assumes inv: "lkv_inv t" and v: "valid key" and w: "\<not> IsWildcard key"
  obtains rc t' where "drop_op now b key t = Inr (rc, t')"
    "rc = (if cell_at b key t = None then KELPIE_ENOENT else KELPIE_OK)" "lkv_inv t'"
    "\<And>b' k'. cell_at b' k' t' = (if same_slot b' k' b key
       then (case cell_at b key t of None \<Rightarrow> None
             | Some c \<Rightarrow> if cell_isDroppable now c then None else Some (c\<lparr>drop_requested := True\<rparr>))
       else cell_at b' k' t)"
proof -
  have names: "drop_check_rows b key t = [K1 key]"
    using w by (simp add: drop_check_rows_def IsWildcard_def)
  obtain rc t' where d: "drop_op now b key t = Inr (rc, t')"
    using v by (cases "fold (drop_row now b key) (drop_check_rows b key t) (0, [], t)") (auto simp: drop_op_def)
  obtain f c t1 where s: "drop_row now b key (K1 key) (0, [], t) = (f, c, t1)" by (metis prod_cases3)
  have pm: "pattern_matches (K2 key) n \<longleftrightarrow> n = K2 key" for n
    using w by (simp add: pattern_matches_def IsWildcard_def IsColWildcard_def)
  have star: "\<not> StringEndsWith (K2 key) ''*''" using w by (simp add: IsWildcard_def IsColWildcard_def)
  have "f \<noteq> 0 \<longleftrightarrow> cell_at b key t \<noteq> None"
    using drop_row_cells [OF inv s] by (simp add: pm)
  moreover have "rc = (if f \<noteq> 0 then KELPIE_OK else KELPIE_ENOENT)"
    using d s v names by (auto simp: drop_op_def)
  moreover have "makeRowname b' k' = makeRowname b (Key1 (K1 key)) \<longleftrightarrow> makeRowname b' k' = makeRowname b key" for b' k'
    by (simp add: makeRowname_def Key1_def)
  then have "cell_at b' k' t' = (if same_slot b' k' b key
       then (case cell_at b key t of None \<Rightarrow> None
             | Some c \<Rightarrow> if cell_isDroppable now c then None else Some (c\<lparr>drop_requested := True\<rparr>))
       else cell_at b' k' t)" for b' k'
    using drop_op_cells(3) [OF inv d, of b' k'] cell_at_same_slot [of b' k' b key t] star
    unfolding names by (auto simp: same_slot_def drop_cell_def pm)
  ultimately show ?thesis using that d drop_op_cells(1) [OF inv d] by auto
qed

section \<open>Waiting for objects\<close>

definition want_outcome :: "bool \<Rightarrow> callback_t option \<Rightarrow> LocalKVCell \<Rightarrow> LocalKVCell" where
  "want_outcome fetch cb c =
     (if availability c = InLocalMemory then c
      else let c1 = (case cb of Some f \<Rightarrow> appendCallbackList f c | None \<Rightarrow> c)
           in if fetch \<and> availability c \<noteq> Requested then c1\<lparr>availability := Requested\<rparr> else c1)"

lemma want_cell:
  assumes inv: "lkv_inv t" and v: "valid key"
    and c: "target_cell now CREATE_IF_MISSING (cell_at b key t) = Some (c, existed)"
    and p: "wantLocal now b key fetch cb t = Inr ((rc, effs), t1)"
  shows "lkv_inv t1 \<and> configured t1 = configured t \<and>
    (\<forall>b' k'. cell_at b' k' t1 = (if same_slot b' k' b key
        then Some ((want_outcome fetch cb c)\<lparr>time_accessed := now\<rparr>) else cell_at b' k' t)) \<and>
    rc = (if availability c = InLocalMemory then KELPIE_OK
          else if availability c = Requested then KELPIE_WAITING else KELPIE_ENOENT) \<and>
    (if availability c = InLocalMemory then
       (case cb of Some f \<Rightarrow> \<exists>info. effs = [Call_now f key (cell_ldo c) info] | None \<Rightarrow> effs = [])
     else effs = [])"
proof -
  obtain res t1' where d: "doColOp now b key CREATE_IF_MISSING (wantLocal_lambda key fetch cb) t = (res, t1')" by fastforce
  from doColOp_quiet [OF inv fn_keeps_wf_lambdas(5) flag_tests(6) c d] obtain r1 c1 where
    R: "wantLocal_lambda key fetch cb r1 c existed = (cr_rc res, c1, the (cr_out res))" "cr_out res \<noteq> None"
    "lkv_inv t1'" "configured t1' = configured t"
    "\<And>b' k'. cell_at b' k' t1' = (if same_slot b' k' b key then Some (c1\<lparr>time_accessed := now\<rparr>) else cell_at b' k' t)"
    by metis
  have eq: "t1 = t1'" "rc = cr_rc res" "effs = the (cr_out res)"
    using p v d R(2) by (auto simp: wantLocal_def split: option.splits)
  have "c1 = want_outcome fetch cb c"
    using R(1) by (auto simp: wantLocal_lambda_def want_outcome_def appendCallbackList_def Let_def split: if_splits option.splits)
  moreover have "rc = (if availability c = InLocalMemory then KELPIE_OK
          else if availability c = Requested then KELPIE_WAITING else KELPIE_ENOENT)"
    using R(1) eq by (auto simp: wantLocal_lambda_def appendCallbackList_def Let_def split: if_splits option.splits)
  moreover have "if availability c = InLocalMemory then
       (case cb of Some f \<Rightarrow> \<exists>info. effs = [Call_now f key (cell_ldo c) info] | None \<Rightarrow> effs = [])
     else effs = []"
    using R(1) [symmetric] eq by (auto simp: wantLocal_lambda_def Let_def split: if_splits option.splits)
  ultimately show ?thesis using R(3-5) unfolding eq(1) by blast
qed

lemma dispatch_effects:
  "\<exists>info. fst (dispatchCallbacksAndNotifications key r c) =
     trigger_ops (waiting_ops_list c) (Some (cell_ldo c, info)) @
     map (\<lambda>cb. Backburner cb key (cell_ldo c) info) (callback_list c)"
  by (auto simp: dispatchCallbacksAndNotifications_def Let_def)

lemma trigger_ops_explicit:
  "trigger_ops ms (Some a) = (case ms of [] \<Rightarrow> [] | m # ms' \<Rightarrow> TriggerOp m (Some a) # map (\<lambda>m. TriggerOp m None) ms')"
proof -
  have "trigger_ops ms None = map (\<lambda>m. TriggerOp m None) ms" for ms by (induction ms) auto
  then show ?thesis by (cases ms) auto
qed

lemma put_wakes:
  assumes inv: "lkv_inv t" and v: "valid key" and c: "cell_at b key t = Some c"
    and p: "put now b key x f iom io t = Inr ((rc, info, effs), t1, io1)"
  shows "\<exists>i. effs = trigger_ops (waiting_ops_list c) (Some (cell_ldo (put_outcome now x f c), i)) @
     map (\<lambda>cb. Backburner cb key (cell_ldo (put_outcome now x f c)) i) (callback_list c)"
    and "\<exists>c'. cell_at b key t1 = Some c' \<and> getNumDependencies c' = 0 \<and> availability c' = InLocalMemory \<and>
      cell_ldo c' = cell_ldo (put_outcome now x f c)"
proof -
  have tc: "target_cell now (if has_flag f WriteToLocal then CREATE_IF_MISSING else 0) (cell_at b key t) = Some (c, True)"
    using c by (simp add: target_cell_def)
  obtain r2 where R: "effs = fst (dispatchCallbacksAndNotifications key r2 (put_outcome now x f c))"
    "\<And>b' k'. cell_at b' k' t1 = (if same_slot b' k' b key
        then Some ((put_outcome now x f c)\<lparr>callback_list := [], waiting_ops_list := [], time_accessed := now\<rparr>)
        else cell_at b' k' t)"
    using put_cell [OF inv v tc p] by metis
  show "\<exists>i. effs = trigger_ops (waiting_ops_list c) (Some (cell_ldo (put_outcome now x f c), i)) @
     map (\<lambda>cb. Backburner cb key (cell_ldo (put_outcome now x f c)) i) (callback_list c)"
    using dispatch_effects [of key r2 "put_outcome now x f c"] unfolding R(1) by (simp add: put_outcome_simps)
  show "\<exists>c'. cell_at b key t1 = Some c' \<and> getNumDependencies c' = 0 \<and> availability c' = InLocalMemory \<and>
      cell_ldo c' = cell_ldo (put_outcome now x f c)"
    unfolding R(2) by (simp add: getNumDependencies_def put_outcome_simps)
qed

lemma getForOp_cell:
  assumes inv: "lkv_inv t" and v: "valid key"
    and c: "target_cell now CREATE_IF_MISSING (cell_at b key t) = Some (c, existed)"
    and p: "getForOp now FindIOM b key mb f h io t = Inr ((rc, x, info), t1, io1)"
  shows "\<exists>r c1. getForOp_lambda now FindIOM b key mb f h io r c existed = (rc, c1, x, io1) \<and>
    lkv_inv t1 \<and> configured t1 = configured t \<and>
    (\<forall>b' k'. cell_at b' k' t1 = (if same_slot b' k' b key then Some (c1\<lparr>time_accessed := now\<rparr>) else cell_at b' k' t))"
proof -
  obtain res t1' where d: "doColOp now b key CREATE_IF_MISSING (getForOp_lambda now FindIOM b key mb f h io) t = (res, t1')"
    by fastforce
  from doColOp_quiet [OF inv fn_keeps_wf_lambdas(4) flag_tests(6) c d] obtain r1 c1 where
    R: "getForOp_lambda now FindIOM b key mb f h io r1 c existed = (cr_rc res, c1, the (cr_out res))" "cr_out res \<noteq> None"
    "lkv_inv t1'" "configured t1' = configured t"
    "\<And>b' k'. cell_at b' k' t1' = (if same_slot b' k' b key then Some (c1\<lparr>time_accessed := now\<rparr>) else cell_at b' k' t)"
    by metis
  moreover have "t1 = t1'" "rc = cr_rc res" "(x, io1) = the (cr_out res)"
    using p v d R(2) by (auto simp: getForOp_def split: option.splits prod.splits)
  ultimately show ?thesis by (metis (no_types, lifting))
qed

section \<open>Sequences of operations\<close>

text \<open>
  One operation of a client on the store and the storage behind it, with the effects it has.  The
  registry lookup stays the same during a run.  A drop holds the lock of the table only for one row, or for the
  removal of empty rows, at a time; these parts are steps of their own, so that other operations may come in between.
\<close>
inductive lkv_step ::
  "(u32 \<Rightarrow> 'io IomBase option) \<Rightarrow> LocalKV \<times> 'io \<Rightarrow> effect list \<Rightarrow> LocalKV \<times> 'io \<Rightarrow> bool"
  for FindIOM where
  step_put: "put now b key x f iom io t = Inr ((rc, info, effs), t', io') \<Longrightarrow> lkv_step FindIOM (t, io) effs (t', io')"
| step_get: "get now b key t = Inr (out, t') \<Longrightarrow> lkv_step FindIOM (t, io) [] (t', io)"
| step_getForOp: "getForOp now FindIOM b key mb f h io t = Inr (out, t', io') \<Longrightarrow> lkv_step FindIOM (t, io) [] (t', io')"
| step_want: "wantLocal now b key fetch cb t = Inr ((rc, effs), t') \<Longrightarrow> lkv_step FindIOM (t, io) effs (t', io)"
| step_drop: "drop_op now b key t = Inr (rc, t') \<Longrightarrow> lkv_step FindIOM (t, io) [] (t', io)"
| step_drop_row: "drop_row now b key name (found, recheck, t) = (found', recheck', t') \<Longrightarrow> lkv_step FindIOM (t, io) [] (t', io)"
| step_drop_recheck: "lkv_step FindIOM (t, io) [] (drop_recheck b name t, io)"
| step_info: "getInfo now b key has_info t = (out, t') \<Longrightarrow> lkv_step FindIOM (t, io) [] (t', io)"
| step_wipe: "lkv_step FindIOM (t, io) [] (wipeAll t, io)"

inductive lkv_reachable :: "(u32 \<Rightarrow> 'io IomBase option) \<Rightarrow> LocalKV \<times> 'io \<Rightarrow> bool" for FindIOM where
  reach_init: "lkv_reachable FindIOM (new_LocalKV\<lparr>configured := True\<rparr>, io)"
| reach_step: "lkv_reachable FindIOM s \<Longrightarrow> lkv_step FindIOM s effs s' \<Longrightarrow> lkv_reachable FindIOM s'"

inductive_cases lkv_stepE [elim!]: "lkv_step FindIOM (t, io) effs s'"

lemma getInfo_cells:
  assumes inv: "lkv_inv t" and g: "getInfo now b key has_info t = (out, t')"
  shows "lkv_inv t' \<and> (\<forall>b' k'. cell_at b' k' t' = (if same_slot b' k' b key
        then map_option (\<lambda>c. c\<lparr>time_accessed := now\<rparr>) (cell_at b key t) else cell_at b' k' t))"
proof -
  obtain res t1 where d: "doColOp now b key DONT_CREATE_OR_TRIGGER getInfo_lambda t = (res, t1)" by fastforce
  have t': "t' = t1" using g d by (auto simp: getInfo_def split: if_splits)
  show ?thesis
  proof (cases "cell_at b key t")
    case None
    then have "target_cell now DONT_CREATE_OR_TRIGGER (cell_at b key t) = None" by (simp add: target_cell_def flag_tests)
    note N = doColOp_None [OF inv this d]
    have "cell_at b' k' t = None" if "same_slot b' k' b key" for b' k'
      using that cell_at_same_slot [of b' k' b key t] None by simp
    then show ?thesis using N None unfolding t' by auto
  next
    case (Some c)
    then have "target_cell now DONT_CREATE_OR_TRIGGER (cell_at b key t) = Some (c, True)" by (simp add: target_cell_def)
    from doColOp_quiet [OF inv fn_keeps_wf_lambdas(3) flag_tests(8) this d] obtain r1 c1 where
      "getInfo_lambda r1 c True = (cr_rc res, c1, the (cr_out res))" "lkv_inv t1"
      "\<And>b' k'. cell_at b' k' t1 = (if same_slot b' k' b key then Some (c1\<lparr>time_accessed := now\<rparr>) else cell_at b' k' t)"
      by metis
    then show ?thesis using Some unfolding t' by (simp add: getInfo_lambda_def)
  qed
qed

lemma put_inv: "lkv_inv t \<Longrightarrow> put now b key x f iom io t = Inr ((rc, info, effs), t1, io1) \<Longrightarrow> lkv_inv t1"
proof -
  assume inv: "lkv_inv t" and p: "put now b key x f iom io t = Inr ((rc, info, effs), t1, io1)"
  have v: "valid key" using p by (simp add: put_def split: if_splits)
  show ?thesis
  proof (cases "target_cell now (if has_flag f WriteToLocal then CREATE_IF_MISSING else 0) (cell_at b key t)")
    case None
    then have "\<not> has_flag f WriteToLocal" "cell_at b key t = None"
      by (auto simp: target_cell_def flag_tests lambda_flag_defs split: option.splits if_splits)
    then show ?thesis using put_missing [OF inv v _ _ p] by simp
  next
    case (Some p')
    then show ?thesis using put_cell [OF inv v _ p] by (cases p') metis
  qed
qed

lemma lkv_inv_init [simp]: "lkv_inv (new_LocalKV\<lparr>configured := True\<rparr>)"
  by (simp add: lkv_inv_def new_LocalKV_def)

lemma lkv_step_inv:
  assumes "lkv_step FindIOM (t, io) effs (t', io')" "lkv_inv t"
  shows "lkv_inv t'"
  using assms(1)
proof cases
  case step_put
  then show ?thesis by (rule put_inv [OF assms(2)])
next
  case (step_get now b key out)
  then show ?thesis using stored_get(2) [OF assms(2)] by blast
next
  case (step_getForOp now b key mb f h out)
  then have v: "valid key" by (simp add: getForOp_def split: if_splits)
  obtain c e where "target_cell now CREATE_IF_MISSING (cell_at b key t) = Some (c, e)"
    using target_cell_create [OF flag_tests(5)] by blast
  then show ?thesis using getForOp_cell [OF assms(2) v] step_getForOp by (metis prod_cases3)
next
  case (step_want now b key fetch cb rc)
  then have v: "valid key" by (simp add: wantLocal_def split: if_splits)
  obtain c e where "target_cell now CREATE_IF_MISSING (cell_at b key t) = Some (c, e)"
    using target_cell_create [OF flag_tests(5)] by blast
  then show ?thesis using want_cell [OF assms(2) v _ step_want(2)] by blast
next
  case (step_drop now b key rc)
  then show ?thesis using drop_op_cells(1) [OF assms(2)] by blast
next
  case (step_drop_row now b key name found recheck found' recheck')
  then show ?thesis using drop_row_cells [OF assms(2)] by blast
next
  case (step_drop_recheck b name)
  then show ?thesis using drop_recheck_cells [OF assms(2)] by simp
next
  case (step_info now b key has_info out)
  then show ?thesis using getInfo_cells [OF assms(2)] by blast
next
  case step_wipe
  then show ?thesis using assms(2) by (auto simp: wipeAll_def lkv_inv_def)
qed

lemma lkv_reachable_lkv_inv: "lkv_reachable FindIOM s \<Longrightarrow> lkv_inv (fst s)"
proof (induction rule: lkv_reachable.induct)
  case (reach_step s effs s')
  then show ?case using lkv_step_inv [of FindIOM "fst s" "snd s" effs "fst s'" "snd s'"] by simp
qed simp

text \<open>An object in memory has nobody waiting for it.\<close>

definition no_lost_waiters :: "LocalKV \<Rightarrow> bool" where
  "no_lost_waiters t = (\<forall>b k c. cell_at b k t = Some c \<and> availability c = InLocalMemory \<longrightarrow> getNumDependencies c = 0)"

lemma no_lost_waiters_update:
  assumes "no_lost_waiters t"
    and "\<And>b' k'. cell_at b' k' t' = (if same_slot b' k' b key then oc else cell_at b' k' t)"
    and "\<And>c. oc = Some c \<Longrightarrow> availability c = InLocalMemory \<Longrightarrow> getNumDependencies c = 0"
  shows "no_lost_waiters t'"
  using assms unfolding no_lost_waiters_def by (metis (no_types, lifting))

lemma target_cell_no_deps:
  "no_lost_waiters t \<Longrightarrow> target_cell now flags (cell_at b key t) = Some (c, e) \<Longrightarrow>
   availability c = InLocalMemory \<Longrightarrow> getNumDependencies c = 0"
  by (auto simp: no_lost_waiters_def target_cell_def new_LocalKVCell_def split: option.splits if_splits)

lemma deps_accessed: "getNumDependencies (c\<lparr>time_accessed := n\<rparr>) = getNumDependencies c"
  by (simp add: getNumDependencies_def)

lemma touch_no_lost:
  assumes nl: "no_lost_waiters t"
    and "\<And>b' k'. cell_at b' k' t' = (if same_slot b' k' b key
        then map_option (\<lambda>c. c\<lparr>time_accessed := n\<rparr>) (cell_at b key t) else cell_at b' k' t)"
  shows "no_lost_waiters t'"
  by (rule no_lost_waiters_update [OF nl assms(2)]) (use nl in \<open>auto simp: no_lost_waiters_def deps_accessed\<close>)

lemma put_no_lost:
  assumes inv: "lkv_inv t" and nl: "no_lost_waiters t"
    and p: "put now b key x f iom io t = Inr ((rc, info, effs), t1, io1)"
  shows "no_lost_waiters t1"
proof -
  have v: "valid key" using p by (simp add: put_def split: if_splits)
  show ?thesis
  proof (cases "target_cell now (if has_flag f WriteToLocal then CREATE_IF_MISSING else 0) (cell_at b key t)")
    case None
    then have "\<not> has_flag f WriteToLocal" "cell_at b key t = None"
      by (auto simp: target_cell_def flag_tests lambda_flag_defs split: option.splits if_splits)
    then show ?thesis using put_missing [OF inv v _ _ p] nl by (simp add: no_lost_waiters_def)
  next
    case (Some ce)
    obtain c e where ce: "ce = (c, e)" by (cases ce)
    obtain r2 where "\<And>b' k'. cell_at b' k' t1 = (if same_slot b' k' b key
        then Some ((put_outcome now x f c)\<lparr>callback_list := [], waiting_ops_list := [], time_accessed := now\<rparr>)
        else cell_at b' k' t)"
      using put_cell [OF inv v Some [unfolded ce] p] by metis
    then show ?thesis
      by (rule no_lost_waiters_update [OF nl]) (auto simp: getNumDependencies_def)
  qed
qed

lemma want_no_lost:
  assumes inv: "lkv_inv t" and nl: "no_lost_waiters t" and p: "wantLocal now b key fetch cb t = Inr ((rc, effs), t1)"
  shows "no_lost_waiters t1"
proof -
  have v: "valid key" using p by (simp add: wantLocal_def split: if_splits)
  obtain c e where c: "target_cell now CREATE_IF_MISSING (cell_at b key t) = Some (c, e)"
    using target_cell_create [OF flag_tests(5)] by blast
  have "\<And>b' k'. cell_at b' k' t1 = (if same_slot b' k' b key
        then Some ((want_outcome fetch cb c)\<lparr>time_accessed := now\<rparr>) else cell_at b' k' t)"
    using want_cell [OF inv v c p] by blast
  then show ?thesis
    by (rule no_lost_waiters_update [OF nl])
      (use target_cell_no_deps [OF nl c] in \<open>auto simp: deps_accessed want_outcome_def appendCallbackList_def Let_def
        split: if_splits option.splits\<close>)
qed

lemma getForOp_no_lost:
  assumes inv: "lkv_inv t" and nl: "no_lost_waiters t"
    and p: "getForOp now (\<lambda>_. None) b key mb f h io t = Inr (out, t1, io1)"
  shows "no_lost_waiters t1"
proof -
  have v: "valid key" using p by (simp add: getForOp_def split: if_splits)
  obtain c e where c: "target_cell now CREATE_IF_MISSING (cell_at b key t) = Some (c, e)"
    using target_cell_create [OF flag_tests(5)] by blast
  obtain rc x info where out: "out = (rc, x, info)" by (metis prod_cases3)
  obtain r c1 where "getForOp_lambda now (\<lambda>_. None) b key mb f h io r c e = (rc, c1, x, io1)"
    and cells: "\<And>b' k'. cell_at b' k' t1 = (if same_slot b' k' b key then Some (c1\<lparr>time_accessed := now\<rparr>) else cell_at b' k' t)"
    using getForOp_cell [OF inv v c p [unfolded out]] by blast
  then have "c1 = (if availability c = InLocalMemory then c else appendWaitingList mb c)"
    by (auto simp: getForOp_lambda_def split: if_splits)
  then show ?thesis
    by (intro no_lost_waiters_update [OF nl cells])
      (use target_cell_no_deps [OF nl c] in \<open>auto simp: deps_accessed appendWaitingList_def split: if_splits\<close>)
qed

lemma drop_cell_deps:
  "drop_cell now s n oc = Some c \<Longrightarrow>
     \<exists>c0. oc = Some c0 \<and> availability c0 = availability c \<and> getNumDependencies c0 = getNumDependencies c"
  by (auto simp: drop_cell_def getNumDependencies_def split: if_splits option.splits)

lemma drop_row_no_lost:
  assumes inv: "lkv_inv t" and nl: "no_lost_waiters t"
    and d: "drop_row now b key name (found, recheck, t) = (found', recheck', t1)"
  shows "no_lost_waiters t1"
proof -
  have cells: "cell_at b' k' t1 = (if makeRowname b' k' = makeRowname b (Key1 name)
      then drop_cell now (K2 key) (K2 k') (cell_at b' k' t) else cell_at b' k' t)" for b' k'
    using drop_row_cells [OF inv d] by blast
  show ?thesis using nl unfolding no_lost_waiters_def cells by (metis drop_cell_deps)
qed

lemma drop_no_lost:
  assumes inv: "lkv_inv t" and nl: "no_lost_waiters t" and p: "drop_op now b key t = Inr (rc, t1)"
  shows "no_lost_waiters t1"
  using nl unfolding no_lost_waiters_def drop_op_cells(3) [OF inv p] by (metis (no_types, lifting) drop_cell_deps)

lemma lkv_step_no_lost:
  assumes s: "lkv_step (\<lambda>_. None) (t, io) effs (t', io')" and inv: "lkv_inv t" and nl: "no_lost_waiters t"
  shows "no_lost_waiters t'"
  using s
proof cases
  case step_put
  then show ?thesis by (rule put_no_lost [OF inv nl])
next
  case (step_get now b key out)
  then have v: "valid key" by (simp add: get_def split: if_splits)
  have "\<And>b' k'. cell_at b' k' t' = (if same_slot b' k' b key
        then map_option (\<lambda>c. c\<lparr>time_accessed := now\<rparr>) (cell_at b key t) else cell_at b' k' t)"
    using get_cell [OF inv v, of now b] step_get(3) by (metis Pair_inject sum.inject(2))
  then show ?thesis by (rule touch_no_lost [OF nl])
next
  case step_getForOp
  then show ?thesis by (intro getForOp_no_lost [OF inv nl])
next
  case step_want
  then show ?thesis by (intro want_no_lost [OF inv nl])
next
  case step_drop
  then show ?thesis by (intro drop_no_lost [OF inv nl])
next
  case step_drop_row
  then show ?thesis by (intro drop_row_no_lost [OF inv nl])
next
  case (step_drop_recheck b name)
  then show ?thesis using nl drop_recheck_cells [OF inv, of b name] by (simp add: no_lost_waiters_def)
next
  case step_info
  then show ?thesis using getInfo_cells [OF inv] touch_no_lost [OF nl] by blast
next
  case step_wipe
  then show ?thesis using nl by (auto simp: wipeAll_def no_lost_waiters_def cell_at_def getRow_def)
qed

section \<open>Buckets\<close>

text \<open>A bucket whose hash needs all eight hex digits.\<close>

definition full_width :: "bucket_t \<Rightarrow> bool" where
  "full_width b = (0x10000000 \<le> b)"

lemma hex_full_width: "full_width b \<Longrightarrow> length (hex_of_nat (unat b)) = 8"
proof -
  assume "full_width b"
  then have "16 ^ 7 \<le> unat b" by (simp add: full_width_def word_le_nat_alt)
  then have "8 \<le> length (hex_of_nat (unat b))"
    using to_base_length_ge [of 16 7 "unat b"] by (simp add: hex_of_nat_def)
  then show ?thesis using hex_of_u32_length [of b] by simp
qed

lemma makeRowname_full_width:
  "full_width b \<Longrightarrow> full_width b' \<Longrightarrow> makeRowname b k = makeRowname b' k' \<longleftrightarrow> b = b' \<and> K1 k = K1 k'"
  using hex_full_width [of b] hex_full_width [of b']
  by (auto simp: makeRowname_def Bucket_GetHex_def append_eq_append_conv word_unat_eq_iff)

lemma same_slot_full_width:
  "full_width b \<Longrightarrow> full_width b' \<Longrightarrow> same_slot b k b' k' \<longleftrightarrow> b = b' \<and> k = k'"
  by (cases k; cases k') (auto simp: same_slot_def makeRowname_full_width)

section \<open>Listing\<close>

text \<open>Whether a key is reported by a listing, given its cell.\<close>

definition listed :: "key \<Rightarrow> key \<Rightarrow> LocalKVCell option \<Rightarrow> bool" where
  "listed key_prefix k oc = (Matches_key k key_prefix \<and>
     (\<exists>c. oc = Some c \<and> (IsColWildcard key_prefix \<and> K2 k \<noteq> [] \<longrightarrow> getUserSize c \<noteq> 0)))"

lemma list_row_spec:
  assumes r: "row_inv r" and l: "list_row key name r oc = (oc', n)"
  shows "oc_wf oc \<Longrightarrow> oc_wf oc'"
    and "\<exists>names. oc_keys oc' = oc_keys oc @ map (Key name) names \<and> distinct names \<and> n = length names \<and>
       (\<forall>x. x \<in> set names \<longleftrightarrow> pattern_matches (K2 key) x \<and>
         (\<exists>c. getCol_name x r = Some c \<and> (IsColWildcard key \<and> x \<noteq> [] \<longrightarrow> getUserSize c \<noteq> 0)))"
proof -
  obtain k names caps where g: "getActiveColumnNamesCapacities (K2 key) r = (k, names, caps)" by (metis prod_cases3)
  note G = getActive_names [OF r g]
  show "oc_wf oc \<Longrightarrow> oc_wf oc'" using l g G(1) by (auto simp: list_row_def oc_wf_def)
  have "oc_keys oc' = oc_keys oc @ map (Key name) names" "n = length names"
    using l g by (auto simp: list_row_def)
  then show "\<exists>names. oc_keys oc' = oc_keys oc @ map (Key name) names \<and> distinct names \<and> n = length names \<and>
       (\<forall>x. x \<in> set names \<longleftrightarrow> pattern_matches (K2 key) x \<and>
         (\<exists>c. getCol_name x r = Some c \<and> (IsColWildcard key \<and> x \<noteq> [] \<longrightarrow> getUserSize c \<noteq> 0)))"
    using G(2,3) by (auto simp: IsColWildcard_def)
qed

lemma list_local_row:
  assumes inv: "lkv_inv t" and w: "\<not> IsRowWildcard key"
    and l: "list_local b key has_iom oc_empty t = (oc, found, chk)"
  shows "oc_wf oc" "distinct (oc_keys oc)" "k \<in> set (oc_keys oc) \<longleftrightarrow> listed key k (cell_at b k t)"
    "found \<longleftrightarrow> oc_keys oc \<noteq> []"
proof -
  have mk: "Matches_key k key \<longleftrightarrow> K1 k = K1 key \<and> pattern_matches (K2 key) (K2 k)" for k
    using w by (auto simp: Matches_key_def Matches_pattern pattern_matches_def IsRowWildcard_def)
  have name: "makeRowname b k = makeRowname b key" if "K1 k = K1 key" for k using that by (simp add: makeRowname_def)
  have "oc_wf oc \<and> distinct (oc_keys oc) \<and> (\<forall>k. k \<in> set (oc_keys oc) \<longleftrightarrow> listed key k (cell_at b k t)) \<and>
    (found \<longleftrightarrow> oc_keys oc \<noteq> [])"
  proof (cases "getRow (makeRowname b key) t")
    case None
    then have "oc = oc_empty" "\<not> found" using l w by (auto simp: list_local_def)
    moreover have "\<not> listed key k (cell_at b k t)" for k
      using None name [of k] by (auto simp: listed_def mk cell_at_def)
    ultimately show ?thesis by (simp add: oc_empty_def oc_wf_def)
  next
    case (Some r)
    have r: "row_inv r" using lkv_inv_row [OF inv Some] by simp
    obtain n where lr: "list_row key (K1 key) r oc_empty = (oc, n)" and f: "found \<longleftrightarrow> n \<noteq> 0"
      using l w Some by (auto simp: list_local_def split: prod.splits)
    obtain names where N: "oc_keys oc = map (Key (K1 key)) names" "distinct names" "n = length names"
      "\<And>x. x \<in> set names \<longleftrightarrow> pattern_matches (K2 key) x \<and>
         (\<exists>c. getCol_name x r = Some c \<and> (IsColWildcard key \<and> x \<noteq> [] \<longrightarrow> getUserSize c \<noteq> 0))"
      using list_row_spec(2) [OF r lr] by (auto simp: oc_empty_def)
    have "k \<in> set (oc_keys oc) \<longleftrightarrow> K1 k = K1 key \<and> K2 k \<in> set names" for k
      unfolding N(1) by (cases k) auto
    then have "k \<in> set (oc_keys oc) \<longleftrightarrow> listed key k (cell_at b k t)" for k
      using Some name [of k] unfolding N(4) listed_def mk cell_at_getCol_name by auto
    moreover have "distinct (oc_keys oc)" unfolding N(1) using N(2) by (simp add: distinct_map inj_on_def)
    moreover have "oc_wf oc" using list_row_spec(1) [OF r lr] by (simp add: oc_empty_def oc_wf_def)
    ultimately show ?thesis using f N by auto
  qed
  then show "oc_wf oc" "distinct (oc_keys oc)" "k \<in> set (oc_keys oc) \<longleftrightarrow> listed key k (cell_at b k t)"
    "found \<longleftrightarrow> oc_keys oc \<noteq> []" by auto
qed

text \<open>
  Listing with a row wildcard walks the rows whose full name begins with the bucket's hex text and
  the stem.  It reports this bucket's keys only when no other bucket's hex text extends it.
\<close>
definition bucket_alone :: "bucket_t \<Rightarrow> LocalKV \<Rightarrow> bool" where
  "bucket_alone b t = list_all (\<lambda>(n, r). prefix (Bucket_GetHex b) n \<longrightarrow> n = Bucket_GetHex b @ rowname r) (rows t)"

lemma list_rows_fold:
  assumes "\<forall>(n, r) \<in> set rs. row_inv r"
    and "fold (\<lambda>(n, r) (oc, f). let (oc', k) = list_row key (rowname r) r oc in (oc', f \<or> k \<noteq> 0)) rs (oc, f) = (oc', f')"
  shows "(oc_wf oc \<longrightarrow> oc_wf oc') \<and> (set (oc_keys oc') = set (oc_keys oc) \<union>
      {k. \<exists>(n, r) \<in> set rs. K1 k = rowname r \<and> pattern_matches (K2 key) (K2 k) \<and>
         (\<exists>c. getCol_name (K2 k) r = Some c \<and> (IsColWildcard key \<and> K2 k \<noteq> [] \<longrightarrow> getUserSize c \<noteq> 0))}) \<and>
     (f' \<longleftrightarrow> f \<or> length (oc_keys oc') \<noteq> length (oc_keys oc)) \<and> length (oc_keys oc) \<le> length (oc_keys oc')"
  using assms
proof (induction rs arbitrary: oc f)
  case (Cons nr rs)
  obtain n r where nr: "nr = (n, r)" by (cases nr)
  obtain oc1 k where lr: "list_row key (rowname r) r oc = (oc1, k)" by fastforce
  have r: "row_inv r" using Cons.prems nr by simp
  have IH: "(oc_wf oc1 \<longrightarrow> oc_wf oc') \<and> (set (oc_keys oc') = set (oc_keys oc1) \<union>
      {k. \<exists>(n, r) \<in> set rs. K1 k = rowname r \<and> pattern_matches (K2 key) (K2 k) \<and>
         (\<exists>c. getCol_name (K2 k) r = Some c \<and> (IsColWildcard key \<and> K2 k \<noteq> [] \<longrightarrow> getUserSize c \<noteq> 0))}) \<and>
     (f' \<longleftrightarrow> (f \<or> k \<noteq> 0) \<or> length (oc_keys oc') \<noteq> length (oc_keys oc1)) \<and> length (oc_keys oc1) \<le> length (oc_keys oc')"
    using Cons.IH [of oc1 "f \<or> k \<noteq> 0"] Cons.prems nr lr by simp
  obtain names where N: "oc_keys oc1 = oc_keys oc @ map (Key (rowname r)) names" "k = length names"
    "\<And>x. x \<in> set names \<longleftrightarrow> pattern_matches (K2 key) x \<and>
         (\<exists>c. getCol_name x r = Some c \<and> (IsColWildcard key \<and> x \<noteq> [] \<longrightarrow> getUserSize c \<noteq> 0))"
    using list_row_spec(2) [OF r lr] by auto
  have "set (map (Key (rowname r)) names) = {k. K1 k = rowname r \<and> K2 k \<in> set names}"
    by (auto simp: image_iff) (metis key.collapse)
  then have "set (oc_keys oc1) = set (oc_keys oc) \<union> {k. K1 k = rowname r \<and> pattern_matches (K2 key) (K2 k) \<and>
         (\<exists>c. getCol_name (K2 k) r = Some c \<and> (IsColWildcard key \<and> K2 k \<noteq> [] \<longrightarrow> getUserSize c \<noteq> 0))}"
    unfolding N(1) N(3) by simp
  then show ?case using IH list_row_spec(1) [OF r lr] N(1,2) nr by auto
qed simp

lemma list_local_wild:
  assumes inv: "lkv_inv t" and w: "IsRowWildcard key" and ba: "bucket_alone b t"
    and l: "list_local b key has_iom oc_empty t = (oc, found, chk)"
  shows "oc_wf oc" "k \<in> set (oc_keys oc) \<longleftrightarrow> listed key k (cell_at b k t)" "found \<longleftrightarrow> oc_keys oc \<noteq> []"
proof -
  let ?h = "Bucket_GetHex b" and ?stem = "butlast (K1 key)"
  have k1: "K1 key \<noteq> []" using w by (simp add: IsRowWildcard_def StringEndsWith_star)
  have pre: "butlast (makeRowname b (Key1 (K1 key))) = ?h @ ?stem"
    using k1 by (simp add: makeRowname_def Key1_def butlast_append)
  define hits where "hits = filter (\<lambda>(n, r). prefix (?h @ ?stem) n) (rows t)"
  have hits: "filter (\<lambda>(n, r). StringBeginsWith n (?h @ ?stem)) (om_lower_bound (?h @ ?stem) (rows t)) = hits"
    unfolding hits_def by (rule lower_bound_prefix') (use inv in auto)
  have f: "fold (\<lambda>(n, r) (oc, f). let (oc', k) = list_row key (rowname r) r oc in (oc', f \<or> k \<noteq> 0)) hits (oc_empty, False) = (oc, found)"
    using l w unfolding list_local_def by (simp add: pre hits Let_def split: prod.splits)
  have inv': "\<forall>(n, r) \<in> set hits. row_inv r"
    using inv by (auto simp: lkv_inv_def hits_def list_all_iff)
  note L = list_rows_fold [OF inv' f]
  have hit: "(n, r) \<in> set hits \<longleftrightarrow> getRow n t = Some r \<and> n = ?h @ rowname r \<and> prefix ?stem (rowname r)" for n r
  proof -
    have mem: "(n, r) \<in> set (rows t) \<longleftrightarrow> getRow n t = Some r"
      using om_in_set_iff [OF lkv_inv_om [OF inv]] by (simp add: getRow_def)
    have "n = ?h @ rowname r" if "(n, r) \<in> set (rows t)" "prefix (?h @ ?stem) n"
      using that ba append_prefixD [of ?h ?stem n] by (auto simp: bucket_alone_def list_all_iff)
    then show ?thesis unfolding hits_def using mem by auto
  qed
  have star: "StringEndsWith (K1 key) ''*''" using w by (simp add: IsRowWildcard_def)
  have "k \<in> set (oc_keys oc) \<longleftrightarrow> listed key k (cell_at b k t)"
  proof -
    have "k \<in> set (oc_keys oc) \<longleftrightarrow> (\<exists>(n, r) \<in> set hits. K1 k = rowname r \<and> pattern_matches (K2 key) (K2 k) \<and>
         (\<exists>c. getCol_name (K2 k) r = Some c \<and> (IsColWildcard key \<and> K2 k \<noteq> [] \<longrightarrow> getUserSize c \<noteq> 0)))"
      using L by (simp add: oc_empty_def)
    also have "\<dots> \<longleftrightarrow> listed key k (cell_at b k t)"
    proof
      assume "listed key k (cell_at b k t)"
      then obtain r c where "getRow (makeRowname b k) t = Some r" "getCol_name (K2 k) r = Some c"
        and m: "prefix ?stem (K1 k)" "pattern_matches (K2 key) (K2 k)"
          "IsColWildcard key \<and> K2 k \<noteq> [] \<longrightarrow> getUserSize c \<noteq> 0"
        using star by (auto simp: listed_def cell_at_getCol_name bind_eq_Some_conv Matches_key_def Matches_pattern
            pattern_matches_def [of "K1 key"])
      moreover have "(makeRowname b k, r) \<in> set (rows t)"
        using calculation(1) om_in_set_iff [OF lkv_inv_om [OF inv]] by (simp add: getRow_def)
      then have "makeRowname b k = ?h @ rowname r"
        using ba unfolding bucket_alone_def list_all_iff by (auto simp: makeRowname_def)
      then have "rowname r = K1 k" by (simp add: makeRowname_def)
      ultimately show "\<exists>(n, r) \<in> set hits. K1 k = rowname r \<and> pattern_matches (K2 key) (K2 k) \<and>
         (\<exists>c. getCol_name (K2 k) r = Some c \<and> (IsColWildcard key \<and> K2 k \<noteq> [] \<longrightarrow> getUserSize c \<noteq> 0))"
        using hit [of "makeRowname b k" r] by (auto simp: makeRowname_def intro!: bexI [of _ "(makeRowname b k, r)"])
    qed (use hit star in \<open>auto simp: listed_def cell_at_getCol_name makeRowname_def Matches_key_def Matches_pattern
            pattern_matches_def [of "K1 key"]\<close>)
    finally show ?thesis .
  qed
  then show "oc_wf oc" "k \<in> set (oc_keys oc) \<longleftrightarrow> listed key k (cell_at b k t)" "found \<longleftrightarrow> oc_keys oc \<noteq> []"
    using L by (auto simp: oc_empty_def oc_wf_def)
qed

lemma list_row_caps:
  assumes r: "row_inv r" and l: "list_row key name r oc = (oc', n)"
    and sz: "\<And>x c. getCol_name x r = Some c \<Longrightarrow> sz (Key name x) = getUserSize c"
    and oc: "oc_capacities oc = map sz (oc_keys oc)"
  shows "oc_capacities oc' = map sz (oc_keys oc')"
proof -
  obtain k names caps where g: "getActiveColumnNamesCapacities (K2 key) r = (k, names, caps)" by (metis prod_cases3)
  have "caps = map (\<lambda>x. sz (Key name x)) names"
    unfolding getActive_caps [OF r g] using getActive_names(2) [OF r g] by (auto simp: sz)
  then show ?thesis using l g oc by (auto simp: list_row_def)
qed

lemma list_rows_caps:
  assumes "\<forall>(n, r) \<in> set rs. row_inv r"
    and "fold (\<lambda>(n, r) (oc, f). let (oc', k) = list_row key (rowname r) r oc in (oc', f \<or> k \<noteq> 0)) rs (oc, f) = (oc', f')"
    and "\<And>n r x c. (n, r) \<in> set rs \<Longrightarrow> getCol_name x r = Some c \<Longrightarrow> sz (Key (rowname r) x) = getUserSize c"
    and "oc_capacities oc = map sz (oc_keys oc)"
  shows "oc_capacities oc' = map sz (oc_keys oc')"
  using assms
proof (induction rs arbitrary: oc f)
  case (Cons nr rs)
  obtain n r where nr: "nr = (n, r)" by (cases nr)
  obtain oc1 k where lr: "list_row key (rowname r) r oc = (oc1, k)" by fastforce
  have "oc_capacities oc1 = map sz (oc_keys oc1)"
    by (rule list_row_caps [OF _ lr]) (use Cons.prems nr in auto)
  then show ?case
    by (intro Cons.IH [of oc1 "f \<or> k \<noteq> 0"]) (use Cons.prems nr lr in auto)
qed simp

lemma list_rows_distinct:
  assumes "\<forall>(n, r) \<in> set rs. row_inv r"
    and "fold (\<lambda>(n, r) (oc, f). let (oc', k) = list_row key (rowname r) r oc in (oc', f \<or> k \<noteq> 0)) rs (oc, f) = (oc', f')"
    and "distinct (map (\<lambda>(n, r). rowname r) rs)" and "distinct (oc_keys oc)"
    and "\<And>n r k. (n, r) \<in> set rs \<Longrightarrow> k \<in> set (oc_keys oc) \<Longrightarrow> K1 k \<noteq> rowname r"
  shows "distinct (oc_keys oc')"
  using assms
proof (induction rs arbitrary: oc f)
  case (Cons nr rs)
  obtain n r where nr: "nr = (n, r)" by (cases nr)
  obtain oc1 k where lr: "list_row key (rowname r) r oc = (oc1, k)" by fastforce
  obtain names where N: "oc_keys oc1 = oc_keys oc @ map (Key (rowname r)) names" "distinct names"
    using list_row_spec(2) [OF _ lr] Cons.prems(1) nr by auto
  have "distinct (oc_keys oc1)"
    unfolding N(1) using N(2) Cons.prems(4,5) nr by (fastforce simp: distinct_map inj_on_def)
  moreover have "K1 k \<noteq> rowname r'" if "(n', r') \<in> set rs" "k \<in> set (oc_keys oc1)" for n' r' k
    using that Cons.prems(3,5) nr unfolding N(1) by force
  ultimately show ?case
    by (intro Cons.IH [of oc1 "f \<or> k \<noteq> 0"]) (use Cons.prems nr lr in auto)
qed simp

lemma distinct_map_rownames: "distinct (map (\<lambda>(n, r). h @ rowname r) rs) \<longleftrightarrow> distinct (map (\<lambda>(n, r). rowname r) rs)"
  by (induction rs) auto

text \<open>The listing in memory: every key once, with the size of its object.\<close>

lemma list_local_sizes:
  assumes inv: "lkv_inv t" and ba: "IsRowWildcard key \<longrightarrow> bucket_alone b t"
    and l: "list_local b key has_iom oc_empty t = (oc, found, chk)"
  shows "distinct (oc_keys oc)" "oc_capacities oc = map (\<lambda>k. getUserSize (the (cell_at b k t))) (oc_keys oc)"
proof -
  let ?sz = "\<lambda>k. getUserSize (the (cell_at b k t))" and ?h = "Bucket_GetHex b" and ?stem = "butlast (K1 key)"
  have "distinct (oc_keys oc) \<and> oc_capacities oc = map ?sz (oc_keys oc)"
  proof (cases "IsRowWildcard key")
    case False
    have "oc_capacities oc = map ?sz (oc_keys oc)"
    proof (cases "getRow (makeRowname b key) t")
      case None
      then show ?thesis using l False by (auto simp: list_local_def oc_empty_def)
    next
      case (Some r)
      then obtain n where lr: "list_row key (K1 key) r oc_empty = (oc, n)"
        using l False by (auto simp: list_local_def split: prod.splits)
      have "makeRowname b (Key (K1 key) x) = makeRowname b key" for x by (simp add: makeRowname_def)
      then show ?thesis
        using lkv_inv_row [OF inv Some] by (intro list_row_caps [OF _ lr]) (simp_all add: cell_at_getCol_name oc_empty_def Some)
    qed
    then show ?thesis using list_local_row(2) [OF inv False l] by simp
  next
    case w: True
    define hits where "hits = filter (\<lambda>(n, r). prefix (?h @ ?stem) n) (rows t)"
    have "K1 key \<noteq> []" using w by (simp add: IsRowWildcard_def StringEndsWith_star)
    then have pre: "butlast (makeRowname b (Key1 (K1 key))) = ?h @ ?stem"
      by (simp add: makeRowname_def Key1_def butlast_append)
    have "filter (\<lambda>(n, r). StringBeginsWith n (?h @ ?stem)) (om_lower_bound (?h @ ?stem) (rows t)) = hits"
      unfolding hits_def by (rule lower_bound_prefix') (use inv in auto)
    then have f: "fold (\<lambda>(n, r) (oc, f). let (oc', k) = list_row key (rowname r) r oc in (oc', f \<or> k \<noteq> 0)) hits (oc_empty, False) = (oc, found)"
      using l w unfolding list_local_def by (simp add: pre Let_def split: prod.splits)
    have inv': "\<forall>(n, r) \<in> set hits. row_inv r" using inv by (auto simp: lkv_inv_def hits_def list_all_iff)
    have hit: "getRow n t = Some r \<and> n = ?h @ rowname r" if "(n, r) \<in> set hits" for n r
    proof -
      have m: "(n, r) \<in> set (rows t)" "prefix (?h @ ?stem) n" using that by (auto simp: hits_def)
      then show ?thesis
        using ba w append_prefixD [OF m(2)] om_in_set_iff [OF lkv_inv_om [OF inv], of n r]
        by (auto simp: bucket_alone_def list_all_iff getRow_def)
    qed
    have "map fst hits = map (\<lambda>(n, r). ?h @ rowname r) hits" using hit by auto
    moreover have "distinct (map fst hits)"
      unfolding hits_def by (rule om_inv_distinct [OF om_inv_filter [OF lkv_inv_om [OF inv]]])
    ultimately have "distinct (map (\<lambda>(n, r). rowname r) hits)"
      by (simp only: distinct_map_rownames)
    then have "distinct (oc_keys oc)" by (rule list_rows_distinct [OF inv' f]) (simp_all add: oc_empty_def)
    moreover have "oc_capacities oc = map ?sz (oc_keys oc)"
      by (rule list_rows_caps [OF inv' f]) (use hit in \<open>auto simp: oc_empty_def cell_at_getCol_name makeRowname_def\<close>)
    ultimately show ?thesis by simp
  qed
  then show "distinct (oc_keys oc)" "oc_capacities oc = map ?sz (oc_keys oc)" by auto
qed

section \<open>Properties\<close>

lemma put_total: "valid key \<Longrightarrow> \<exists>rc info effs t1 io1. put now b key x f iom io t = Inr ((rc, info, effs), t1, io1)"
  by (auto simp: put_def Let_def split: prod.splits option.splits)

lemma getForOp_total: "valid key \<Longrightarrow> \<exists>rc ox info t1 io1. getForOp now FindIOM b key mb f h io t = Inr ((rc, ox, info), t1, io1)"
  by (simp add: getForOp_def split_beta)

lemma want_total: "valid key \<Longrightarrow> \<exists>rc effs t1. wantLocal now b key fetch cb t = Inr ((rc, effs), t1)"
  by (auto simp: wantLocal_def Let_def split: prod.splits option.splits)

definition demo_obj :: "nat \<Rightarrow> ldo" where
  "demo_obj n = Some \<lparr>do_type = 1, do_meta = [], do_data = [word_of_nat n], do_padding = 3\<rparr>"

definition demo_bucket :: bucket_t where
  "demo_bucket = 5"

definition demo_lkv :: LocalKV where
  "demo_lkv = (case put 5 demo_bucket (Key ''row'' ''a'') (demo_obj 1) WriteToLocal None () (new_LocalKV\<lparr>configured := True\<rparr>) of
     Inr (_, t, _) \<Rightarrow> t | Inl _ \<Rightarrow> new_LocalKV)"

definition demo_waiting :: LocalKV where
  "demo_waiting = (case wantLocal 6 demo_bucket (Key ''row'' ''b'') True (Some 7) demo_lkv of
     Inr (_, t) \<Rightarrow> t | Inl _ \<Rightarrow> new_LocalKV)"

lemma demo_state:
  "lkv_inv demo_lkv \<and> stored demo_bucket (Key ''row'' ''a'') demo_lkv = Some (demo_obj 1) \<and>
   stored demo_bucket (Key ''row'' ''b'') demo_lkv = None \<and> lkv_inv demo_waiting \<and>
   map_option callback_list (cell_at demo_bucket (Key ''row'' ''b'') demo_waiting) = Some [7] \<and>
   map_option waiting_ops_list (cell_at demo_bucket (Key ''row'' ''b'') demo_waiting) = Some []"
  by code_simp

lemma demo_args:
  "valid (Key ''row'' ''a'')" "valid (Key ''row'' ''b'')" "has_flag WriteToLocal WriteToLocal"
  "\<not> has_flag WriteToLocal WriteToIOM" "\<not> has_flag WriteToLocal EnableOverwrites"
  "\<not> IsWildcard (Key ''row'' ''a'')"
  by (simp_all add: valid_def has_flag_def flag_defs IsWildcard_def
      IsRowWildcard_def IsColWildcard_def StringEndsWith_star)

text \<open>
  C11.  A local put stores the object unless one is in memory and overwriting is off, in which case
  it reports that the object exists and keeps the old one; no other slot of the store changes; and a
  following get returns what is stored.
\<close>
theorem put_get:
  assumes "lkv_inv t" and "valid key" and "has_flag f WriteToLocal" and "\<not> has_flag f WriteToIOM"
  shows "case put now b key x f iom io t of
      Inl _ \<Rightarrow> False
    | Inr ((rc, info, effs), t1, io1) \<Rightarrow>
        let kept = (stored b key t \<noteq> None \<and> \<not> has_flag f EnableOverwrites);
            obj = (if kept then the (stored b key t) else x)
        in rc = (if kept then KELPIE_EEXIST else KELPIE_OK) \<and> lkv_inv t1 \<and>
           (\<forall>b' k'. stored b' k' t1 = (if same_slot b' k' b key then Some obj else stored b' k' t)) \<and>
           (\<exists>info' t2. get now' b key t1 = Inr ((KELPIE_OK, Some obj, info'), t2))"
proof -
  obtain rc info effs t1 io1 where p: "put now b key x f iom io t = Inr ((rc, info, effs), t1, io1)"
    using put_total [OF assms(2), of now b x f iom io t] by blast
  note S = stored_put [OF assms(1-3) p]
  let ?obj = "case stored b key t of Some old \<Rightarrow> if has_flag f EnableOverwrites then x else old | None \<Rightarrow> x"
  obtain info' t2 where "get now' b key t1 =
      Inr ((if stored b key t1 = None then KELPIE_ENOENT else KELPIE_OK, stored b key t1, info'), t2)"
    using get_cell [OF S(2) assms(2)] by metis
  then have "get now' b key t1 = Inr ((KELPIE_OK, Some ?obj, info'), t2)" using S(1) [of b key] by simp
  moreover have "?obj = (if stored b key t \<noteq> None \<and> \<not> has_flag f EnableOverwrites then the (stored b key t) else x)"
    by (auto split: option.splits)
  ultimately show ?thesis unfolding p using S(1,2) S(4) [OF assms(4)] by (auto simp: Let_def)
qed

theorem put_get_witness:
  "case put 9 demo_bucket (Key ''row'' ''a'') (demo_obj 2) WriteToLocal (None :: unit IomBase option) () demo_lkv of
      Inl _ \<Rightarrow> False
    | Inr ((rc, info, effs), t1, io1) \<Rightarrow> rc = KELPIE_EEXIST \<and> stored demo_bucket (Key ''row'' ''a'') t1 = Some (demo_obj 1)"
  using put_get [of demo_lkv, OF _ demo_args(1,3,4), where now = 9 and b = demo_bucket and x = "demo_obj 2"
      and iom = "None :: unit IomBase option" and io = "()"] demo_state demo_args(5)
  by (auto simp: Let_def split: sum.splits)

text \<open>A slot with a waiting callback and two waiting ops, the later mailbox first.\<close>

definition demo_crowd :: LocalKV where
  "demo_crowd = fold (\<lambda>mb t. case getForOp 7 (\<lambda>_. None :: unit IomBase option) demo_bucket (Key ''row'' ''b'') mb ReadToLocal 0 () t of
     Inr (_, t1, _) \<Rightarrow> t1 | Inl _ \<Rightarrow> t) [8, 3] demo_waiting"

lemma demo_crowd_state:
  "lkv_inv demo_crowd" "stored demo_bucket (Key ''row'' ''b'') demo_crowd = None"
  "map_option (\<lambda>c. (waiting_ops_list c, callback_list c)) (cell_at demo_bucket (Key ''row'' ''b'') demo_crowd) = Some ([3, 8], [7])"
  by code_simp+



text \<open>
  A want for an object that is in memory calls the callback at once with that object.  Otherwise
  nothing is called, the callback joins the slot's waiters, the first caller that will fetch the
  object is told so and marks the slot as requested, and later callers are told to wait.
\<close>
theorem wantLocal_spec:
  assumes "lkv_inv t" and "valid key"
  shows "case wantLocal now b key fetch (Some cb) t of
      Inl _ \<Rightarrow> False
    | Inr ((rc, effs), t1) \<Rightarrow>
        lkv_inv t1 \<and>
        (case stored b key t of
           Some obj \<Rightarrow> rc = KELPIE_OK \<and> (\<exists>i. effs = [Call_now cb key obj i]) \<and> stored b key t1 = Some obj
         | None \<Rightarrow>
             (\<exists>c'. cell_at b key t1 = Some c' \<and>
                callback_list c' = (case cell_at b key t of Some c \<Rightarrow> callback_list c | None \<Rightarrow> []) @ [cb] \<and>
                (fetch \<longrightarrow> availability c' = Requested)) \<and> effs = [] \<and>
             rc = (if map_option availability (cell_at b key t) = Some Requested then KELPIE_WAITING else KELPIE_ENOENT))"
proof -
  obtain rc effs t1 where p: "wantLocal now b key fetch (Some cb) t = Inr ((rc, effs), t1)"
    using want_total [OF assms(2)] by blast
  obtain c e where c: "target_cell now CREATE_IF_MISSING (cell_at b key t) = Some (c, e)"
    using target_cell_create [OF flag_tests(5)] by blast
  note W = want_cell [OF assms c p]
  have st: "stored b key t = (if availability c = InLocalMemory then Some (cell_ldo c) else None)"
    and cb: "(case cell_at b key t of Some c \<Rightarrow> callback_list c | None \<Rightarrow> []) = callback_list c"
    and av: "map_option availability (cell_at b key t) = Some Requested \<longleftrightarrow> availability c = Requested"
    using c by (auto simp: target_cell_def stored_def new_LocalKVCell_def split: option.splits if_splits)
  show ?thesis unfolding p st cb av using W
    by (auto simp: want_outcome_def appendCallbackList_def Let_def stored_def split: if_splits)
qed

theorem wantLocal_spec_witness:
  "case wantLocal 9 demo_bucket (Key ''row'' ''a'') True (Some 3) demo_lkv of
      Inl _ \<Rightarrow> False
    | Inr ((rc, effs), t1) \<Rightarrow> rc = KELPIE_OK \<and> (\<exists>i. effs = [Call_now 3 (Key ''row'' ''a'') (demo_obj 1) i])"
  using wantLocal_spec [of demo_lkv, OF _ demo_args(1), where now = 9 and b = demo_bucket and fetch = True and cb = 3] demo_state
  by (auto split: sum.splits)

lemma lkv_reachable_no_lost:
  "lkv_reachable (\<lambda>_. None) s \<Longrightarrow> no_lost_waiters (fst s)"
proof (induction rule: lkv_reachable.induct)
  case (reach_step s effs s')
  then show ?case
    using lkv_step_no_lost [of "fst s" "snd s" effs "fst s'" "snd s'"] lkv_reachable_lkv_inv [OF reach_step(1)] by simp
qed (simp add: no_lost_waiters_def new_LocalKV_def cell_at_def getRow_def)

text \<open>
  C10.  When no i/o module is registered, no reachable table has a waiter left on an object that is in
  memory: an arriving object always takes its waiters with it.  Other operations may run between the
  parts of a drop.
\<close>
theorem no_waiter_left_behind:
  assumes "lkv_reachable (\<lambda>_. None) (t, io)" and "stored b key t \<noteq> None"
  shows "\<exists>c. cell_at b key t = Some c \<and> getNumDependencies c = 0"
  using lkv_reachable_no_lost [OF assms(1)] assms(2)
  by (auto simp: no_lost_waiters_def stored_def split: option.splits if_splits)

lemma demo_reachable: "lkv_reachable (\<lambda>_. None :: unit IomBase option) (demo_lkv, ())"
proof -
  obtain rc info effs t1 io1 where p: "put 5 demo_bucket (Key ''row'' ''a'') (demo_obj 1) WriteToLocal (None :: unit IomBase option) ()
      (new_LocalKV\<lparr>configured := True\<rparr>) = Inr ((rc, info, effs), t1, io1)"
    using put_total [OF demo_args(1), of 5 demo_bucket "demo_obj 1" WriteToLocal "None :: unit IomBase option" "()"] by blast
  then have "demo_lkv = t1" by (simp add: demo_lkv_def)
  then show ?thesis
    using lkv_reachable.reach_step [OF lkv_reachable.reach_init lkv_step.step_put [OF p], of "\<lambda>_. None"] by simp
qed

theorem no_waiter_left_behind_witness:
  "\<exists>c. cell_at demo_bucket (Key ''row'' ''a'') demo_lkv = Some c \<and> getNumDependencies c = 0"
  by (rule no_waiter_left_behind [OF demo_reachable]) (use demo_state in simp)

text \<open>
  C39.  With an i/o module the same is not true.  When an op asks to have an object cached
  (\<^verbatim>\<open>ReadToRemote\<close>) whose slot is not in memory and the module the hash names finds it, then whoever
  waits on that slot is passed over: the object is in memory afterwards, the op has it, and the same
  callbacks and the same mailboxes are still waiting.  The call dispatches nothing, and a get then
  returns the object that they wait for.
\<close>
theorem getForOp_loses_wakeup:
  assumes "lkv_inv t" and "valid key" and "cell_at b key t = Some c" and "availability c \<noteq> InLocalMemory"
    and "h \<noteq> 0" and "FindIOM h = Some m" and "iom_ReadObject m b key io = (KELPIE_OK, x, io')"
    and "has_flag f ReadToRemote"
  shows "\<exists>info t1 c'. getForOp now FindIOM b key mb f h io t = Inr ((KELPIE_OK, Some x, info), t1, io') \<and>
    stored b key t1 = Some x \<and> cell_at b key t1 = Some c' \<and>
    callback_list c' = callback_list c \<and> waiting_ops_list c' = waiting_ops_list c \<and>
    (\<exists>info' t2. get now' b key t1 = Inr ((KELPIE_OK, Some x, info'), t2))"
proof -
  obtain rc ox info t1 io1 where p: "getForOp now FindIOM b key mb f h io t = Inr ((rc, ox, info), t1, io1)"
    using getForOp_total [OF assms(2)] by metis
  have tc: "target_cell now CREATE_IF_MISSING (cell_at b key t) = Some (c, True)"
    using assms(3) by (simp add: target_cell_def)
  obtain r c1 where lam: "getForOp_lambda now FindIOM b key mb f h io r c True = (rc, c1, ox, io1)"
    and inv1: "lkv_inv t1" and cell: "cell_at b key t1 = Some (c1\<lparr>time_accessed := now\<rparr>)"
    using getForOp_cell [OF assms(1,2) tc p] by (auto simp: same_slot_def)
  have c1: "rc = KELPIE_OK" "ox = Some x" "io1 = io'" "c1 = c\<lparr>availability := InLocalMemory, cell_ldo := x, time_posted := now\<rparr>"
    using lam assms(4-8) by (simp_all add: getForOp_lambda_def)
  then have st: "stored b key t1 = Some x" using cell by (simp add: stored_def)
  obtain info' t2 where
    "get now' b key t1 = Inr ((if stored b key t1 = None then KELPIE_ENOENT else KELPIE_OK, stored b key t1, info'), t2)"
    by (rule get_cell [OF inv1 assms(2)])
  then have "get now' b key t1 = Inr ((KELPIE_OK, Some x, info'), t2)" by (simp add: st)
  then show ?thesis using p st cell unfolding c1 by auto
qed

definition demo_iom :: "unit IomBase" where
  "demo_iom = \<lparr>iom_WriteObject = \<lambda>_ _ _ io. (KELPIE_OK, io), iom_ReadObject = \<lambda>_ _ io. (KELPIE_OK, demo_obj 9, io),
     iom_ListObjects = \<lambda>_ _ io. (oc_empty, io), iom_GetInfo = \<lambda>_ _ io. (KELPIE_OK, Wipe_info, io)\<rparr>"

theorem getForOp_loses_wakeup_witness:
  "\<exists>info t1 c'. getForOp 7 (\<lambda>_. Some demo_iom) demo_bucket (Key ''row'' ''b'') 4 ReadToRemote 1 () demo_crowd =
      Inr ((KELPIE_OK, Some (demo_obj 9), info), t1, ()) \<and>
    stored demo_bucket (Key ''row'' ''b'') t1 = Some (demo_obj 9) \<and> cell_at demo_bucket (Key ''row'' ''b'') t1 = Some c' \<and>
    callback_list c' = [7] \<and> waiting_ops_list c' = [3, 8]"
proof -
  obtain c where c: "cell_at demo_bucket (Key ''row'' ''b'') demo_crowd = Some c" "callback_list c = [7]"
    "waiting_ops_list c = [3, 8]" "availability c \<noteq> InLocalMemory"
    using demo_crowd_state(2,3) by (auto simp: stored_def split: if_splits)
  have "has_flag ReadToRemote ReadToRemote" by (simp add: has_flag_def flag_defs)
  moreover have "iom_ReadObject demo_iom demo_bucket (Key ''row'' ''b'') () = (KELPIE_OK, demo_obj 9, ())" by (simp add: demo_iom_def)
  ultimately show ?thesis
    using getForOp_loses_wakeup [OF demo_crowd_state(1) demo_args(2) c(1,4), where h = 1 and FindIOM = "\<lambda>_. Some demo_iom" and m = demo_iom
        and io = "()" and x = "demo_obj 9" and io' = "()" and f = ReadToRemote and now = 7 and mb = 4 and now' = 8] c(2,3)
    by (simp del: split_paired_Ex) blast
qed

text \<open>
  Dropping one key removes its object when nobody waits for it and its hold time has passed,
  and otherwise marks it as to be dropped; it reports whether there was anything to drop and touches
  no other slot.
\<close>
theorem drop_one_key:
  assumes "lkv_inv t" and "valid key" and "\<not> IsWildcard key"
  shows "case drop_op now b key t of
      Inl _ \<Rightarrow> False
    | Inr (rc, t1) \<Rightarrow>
        rc = (if cell_at b key t = None then KELPIE_ENOENT else KELPIE_OK) \<and> lkv_inv t1 \<and>
        (\<forall>b' k'. cell_at b' k' t1 = (if same_slot b' k' b key
           then (case cell_at b key t of None \<Rightarrow> None
                 | Some c \<Rightarrow> if cell_isDroppable now c then None else Some (c\<lparr>drop_requested := True\<rparr>))
           else cell_at b' k' t))"
proof -
  obtain rc t' where d: "drop_op now b key t = Inr (rc, t')"
    and D: "rc = (if cell_at b key t = None then KELPIE_ENOENT else KELPIE_OK)" "lkv_inv t'"
    "\<And>b' k'. cell_at b' k' t' = (if same_slot b' k' b key
       then (case cell_at b key t of None \<Rightarrow> None
             | Some c \<Rightarrow> if cell_isDroppable now c then None else Some (c\<lparr>drop_requested := True\<rparr>))
       else cell_at b' k' t)"
    using drop_exact [OF assms, of now b] by blast
  show ?thesis unfolding d using D by simp
qed

theorem drop_one_key_witness:
  "case drop_op 9 demo_bucket (Key ''row'' ''a'') demo_lkv of Inl _ \<Rightarrow> False
    | Inr (rc, t1) \<Rightarrow> rc = KELPIE_OK \<and> lkv_inv t1"
  using drop_one_key [of demo_lkv, OF _ demo_args(1,6), where now = 9 and b = demo_bucket] demo_state
  by (auto simp: stored_def split: sum.splits option.splits)

text \<open>
  C33.  Listing without an i/o module reports no key twice, and with each key the size of its object
  in memory.  The keys are those that match the pattern and have a cell.  A cell that only holds
  waiters counts too, with size zero, unless the pattern has a column wildcard: then a named column of
  size zero is left out.  The call reports success when it reported a key.  For a row wildcard this
  needs that the hex text of no other bucket in the table begins with this bucket's
  (\<^verbatim>\<open>bucket_alone\<close>).
\<close>
theorem list_reports_matches:
  assumes "lkv_inv t" and "valid key" and "IsRowWildcard key \<longrightarrow> bucket_alone b t"
  shows "case list_op b key (None :: 'io IomBase option) io oc_empty t of
      Inl _ \<Rightarrow> False
    | Inr (rc, oc, io1) \<Rightarrow> distinct (oc_keys oc) \<and>
        (\<forall>k. k \<in> set (oc_keys oc) \<longleftrightarrow> Matches_key k key \<and>
          (\<exists>c. cell_at b k t = Some c \<and> (IsColWildcard key \<and> K2 k \<noteq> [] \<longrightarrow> getUserSize c \<noteq> 0))) \<and>
        oc_capacities oc = map (\<lambda>k. getUserSize (the (cell_at b k t))) (oc_keys oc) \<and>
        rc = (if oc_keys oc = [] then KELPIE_ENOENT else KELPIE_OK) \<and> io1 = io"
proof -
  obtain oc found chk where l: "list_local b key False oc_empty t = (oc, found, chk)" by (metis prod_cases3)
  have op: "list_op b key (None :: 'io IomBase option) io oc_empty t =
      Inr (if found then KELPIE_OK else KELPIE_ENOENT, oc, io)"
    using l assms(2) by (simp add: list_op_def)
  have "(\<forall>k. k \<in> set (oc_keys oc) \<longleftrightarrow> listed key k (cell_at b k t)) \<and> (found \<longleftrightarrow> oc_keys oc \<noteq> [])"
  proof (cases "IsRowWildcard key")
    case True
    then show ?thesis using list_local_wild [OF assms(1) True _ l] assms(3) by blast
  next
    case False
    then show ?thesis using list_local_row [OF assms(1) False l] by blast
  qed
  then show ?thesis unfolding op using list_local_sizes [OF assms(1,3) l] by (simp add: listed_def)
qed

theorem list_reports_matches_witness:
  "case list_op demo_bucket (Key ''r*'' ''*'') (None :: unit IomBase option) () oc_empty demo_waiting of
      Inl _ \<Rightarrow> False
    | Inr (rc, oc, io1) \<Rightarrow> Key ''row'' ''a'' \<in> set (oc_keys oc) \<and> Key ''row'' ''b'' \<notin> set (oc_keys oc) \<and> rc = KELPIE_OK"
proof -
  have "bucket_alone demo_bucket demo_waiting" "valid (Key ''r*'' ''*'')" "IsColWildcard (Key ''r*'' ''*'')"
    "Matches_key (Key ''row'' ''a'') (Key ''r*'' ''*'')"
    "map_option getUserSize (cell_at demo_bucket (Key ''row'' ''a'') demo_waiting) = Some 1"
    "map_option getUserSize (cell_at demo_bucket (Key ''row'' ''b'') demo_waiting) = Some 0"
    by code_simp+
  then show ?thesis
    using list_reports_matches [of demo_waiting "Key ''r*'' ''*''" demo_bucket "()"] demo_state
    by (fastforce split: sum.splits)
qed

text \<open>
  Buckets whose hash has all eight hex digits are isolated: a put in one bucket changes what is
  stored under that bucket and key and nothing else.
\<close>
theorem full_width_buckets_isolated:
  assumes "lkv_inv t" and "valid key" and "has_flag f WriteToLocal" and "full_width b" and "full_width b'"
    and "b' \<noteq> b \<or> k' \<noteq> key"
  shows "case put now b key x f iom io t of
      Inl _ \<Rightarrow> False | Inr (_, t1, _) \<Rightarrow> stored b' k' t1 = stored b' k' t"
proof -
  obtain rc info effs t1 io1 where p: "put now b key x f iom io t = Inr ((rc, info, effs), t1, io1)"
    using put_total [OF assms(2), of now b x f iom io t] by blast
  have "\<not> same_slot b' k' b key" using assms(4-6) by (auto simp: same_slot_full_width)
  then show ?thesis unfolding p using stored_put(1) [OF assms(1-3) p, of b' k'] by simp
qed

theorem full_width_buckets_isolated_witness:
  "case put 9 0xAAAAAAAA (Key ''row'' ''a'') (demo_obj 2) WriteToLocal (None :: unit IomBase option) () demo_lkv of
      Inl _ \<Rightarrow> False
    | Inr (_, t1, _) \<Rightarrow> stored 0xBBBBBBBB (Key ''row'' ''a'') t1 = stored 0xBBBBBBBB (Key ''row'' ''a'') demo_lkv"
  by (rule full_width_buckets_isolated) (use demo_state demo_args in \<open>simp_all add: full_width_def\<close>)

text \<open>
  Shorter hashes are not isolated.  The row name is the bucket's unpadded hex text followed by
  the row key, so bucket \<open>0x12\<close> with row \<open>a\<close> and bucket \<open>0x1\<close> with row \<open>2a\<close> are the same row: a get in
  the second returns the object put in the first.
\<close>
definition demo_collision :: "rc_t \<times> ldo option" where
  "demo_collision = (case put 5 0x12 (Key ''a'' []) (demo_obj 1) WriteToLocal (None :: unit IomBase option) ()
       (new_LocalKV\<lparr>configured := True\<rparr>) of
     Inr (_, t, _) \<Rightarrow> (case get 6 0x1 (Key ''2a'' []) t of Inr ((rc, x, _), _) \<Rightarrow> (rc, x) | Inl _ \<Rightarrow> (0, None))
   | Inl _ \<Rightarrow> (0, None))"

theorem bucket_collision: "demo_collision = (KELPIE_OK, Some (demo_obj 1))"
  by code_simp

end
