(* ===== verification/Compute_Registry.thy ===== *)
theory Compute_Registry
  imports LocalKV_Table
begin

text \<open>
  Functions that run where the data is: the registry of compute functions with its built-in function
  (\<^verbatim>\<open>kelpie/common/ComputeRegistry.cpp\<close>), and the store's call of them (\<^verbatim>\<open>LocalKV::doCompute\<close>).  A compute function gets
  the matching objects in key order and may write an object through a pointer, which is \<^term>\<open>None\<close> when it is null.
\<close>

section \<open>The registry\<close>

type_synonym fn_compute_t = "bucket_t \<Rightarrow> key \<Rightarrow> string \<Rightarrow> (key, ldo) omap \<Rightarrow> ldo option \<Rightarrow> rc_t \<times> ldo option"

record ComputeRegistry =
  compute_started :: bool
  compute_fns :: "(string, fn_compute_t) omap"

definition new_ComputeRegistry :: ComputeRegistry where
  "new_ComputeRegistry = \<lparr>compute_started = False, compute_fns = []\<rparr>"

definition RegisterComputeFunction :: "string \<Rightarrow> fn_compute_t \<Rightarrow> ComputeRegistry \<Rightarrow> ComputeRegistry result" where
  "RegisterComputeFunction compute_function_name function_pointer r =
     (if compute_started r then Inl Assert_failed
      else if om_get (compute_fns r) compute_function_name \<noteq> None then Inl Assert_failed
      else Inr (r\<lparr>compute_fns := om_set compute_function_name function_pointer (compute_fns r)\<rparr>))"

section \<open>Picking an object\<close>

definition pick_choices :: "string list" where
  "pick_choices = [''first'', ''last'', ''largest'', ''smallest'']"

definition pick_index :: "string \<Rightarrow> nat" where
  "pick_index args = (if args = [] then 0 else length (takeWhile (\<lambda>c. args \<noteq> c) pick_choices))"

text \<open>The two loops; sizes and the running extremes have 32 bits.\<close>

definition pick_largest :: "(key, ldo) omap \<Rightarrow> ldo \<Rightarrow> ldo" where
  "pick_largest ldos ext = fst (fold (\<lambda>(_, x) (ext, largest_size).
     if GetUserSize x > largest_size then (x, GetUserSize x) else (ext, largest_size)) ldos (ext, 0))"

definition pick_smallest :: "(key, ldo) omap \<Rightarrow> ldo \<Rightarrow> ldo" where
  "pick_smallest ldos ext = fst (fold (\<lambda>(_, x) (ext, smallest_size).
     if GetUserSize x < smallest_size then (x, GetUserSize x) else (ext, smallest_size)) ldos
       (ext, GetUserSize (snd (hd ldos)) + 1))"

definition fn_pick :: fn_compute_t where
  "fn_pick bucket key args ldos ext_ldo =
     (let i = pick_index args in
      if i = 4 then (KELPIE_EINVAL, ext_ldo)
      else if ldos = [] then (KELPIE_ENOENT, ext_ldo)
      else case ext_ldo of
        None \<Rightarrow> (KELPIE_OK, None)
      | Some ext \<Rightarrow> (KELPIE_OK, Some (
          if i = 0 then snd (hd ldos) else if i = 1 then snd (last ldos)
          else if i = 2 then pick_largest ldos ext else pick_smallest ldos ext)))"

section \<open>Life cycle and calls\<close>

definition compute_init :: "ComputeRegistry \<Rightarrow> ComputeRegistry result" where
  "compute_init r = RegisterComputeFunction ''pick'' fn_pick r"

definition compute_start :: "ComputeRegistry \<Rightarrow> ComputeRegistry" where
  "compute_start r = r\<lparr>compute_started := True\<rparr>"

definition compute_finish :: "ComputeRegistry \<Rightarrow> ComputeRegistry" where
  "compute_finish r = r\<lparr>compute_fns := [], compute_started := False\<rparr>"

definition doCompute ::
  "string \<Rightarrow> string \<Rightarrow> bucket_t \<Rightarrow> key \<Rightarrow> (key, ldo) omap \<Rightarrow> ldo option \<Rightarrow> ComputeRegistry \<Rightarrow> rc_t \<times> ldo option" where
  "doCompute compute_function_name args bucket key ldos ext_ldo r = (case om_get (compute_fns r) compute_function_name of
     None \<Rightarrow> (KELPIE_EINVAL, ext_ldo)
   | Some fn \<Rightarrow> fn bucket key args ldos ext_ldo)"

text \<open>The store's call: the code that the function returns is dropped.\<close>

definition lkv_doCompute ::
  "ComputeRegistry \<Rightarrow> u32 \<Rightarrow> string \<Rightarrow> string \<Rightarrow> bucket_t \<Rightarrow> key \<Rightarrow> ldo option \<Rightarrow> LocalKV \<Rightarrow> ((rc_t \<times> ldo option) \<times> LocalKV) result" where
  "lkv_doCompute reg now function_name args bucket key ext_ldo t =
     rbind (getAvailable now bucket key [] t) (\<lambda>((rc, ldos), t1).
       Inr ((rc, snd (doCompute function_name args bucket key ldos ext_ldo reg)), t1))"

section \<open>What a function is given\<close>

definition collect :: "string \<Rightarrow> (string \<Rightarrow> ldo option) \<Rightarrow> string list \<Rightarrow> (key, ldo) omap \<Rightarrow> (key, ldo) omap" where
  "collect row g = fold (\<lambda>n l. case g n of Some x \<Rightarrow> om_set (Key row n) x l | None \<Rightarrow> l)"

lemma collect_inv: "om_inv l \<Longrightarrow> om_inv (collect row g names l)"
  by (induction names arbitrary: l) (auto simp: collect_def split: option.splits)

lemma collect_get:
  "om_inv l \<Longrightarrow> om_get (collect row g names l) k = (if K1 k = row \<and> K2 k \<in> set names \<and> g (K2 k) \<noteq> None then g (K2 k) else om_get l k)"
proof (induction names arbitrary: l)
  case (Cons n names)
  let ?l = "case g n of Some x \<Rightarrow> om_set (Key row n) x l | None \<Rightarrow> l"
  have step: "collect row g (n # names) l = collect row g names ?l" by (simp add: collect_def)
  have inv: "om_inv ?l" using Cons.prems by (auto split: option.splits)
  have "om_get ?l k = (if K1 k = row \<and> K2 k = n \<and> g n \<noteq> None then g n else om_get l k)"
    using Cons.prems by (cases k) (auto simp: om_get_om_set split: option.splits)
  then show ?case unfolding step Cons.IH [OF inv] by auto
qed (simp add: collect_def)

text \<open>
  The objects in memory under the keys that match: with a pattern for the column, only those that are not
  empty, apart from the one without a column name.
\<close>
definition computable :: "bucket_t \<Rightarrow> key \<Rightarrow> LocalKV \<Rightarrow> key \<Rightarrow> ldo option" where
  "computable b key t k = (if Matches_key k key \<and>
     (IsColWildcard key \<and> K2 k \<noteq> [] \<longrightarrow> (\<forall>x. stored b k t = Some x \<longrightarrow> GetUserSize x \<noteq> 0)) then stored b k t else None)"

lemma getUserSize_zero: "getUserSize c = 0 \<longleftrightarrow> GetUserSize (cell_ldo c) = 0"
proof -
  have "unat (ucast w :: u64) = unat w" for w :: u32
    using unsigned_less [of w, where ?'a = nat] by (simp add: unsigned_ucast_eq take_bit_nat_eq_self_iff)
  then show ?thesis unfolding getUserSize_def by (metis unat_0 unat_eq_zero)
qed

lemma getAvailable_spec:
  assumes inv: "lkv_inv t" and v: "valid key" and row: "\<not> IsRowWildcard key"
  obtains ldos t1 where "getAvailable now b key [] t = Inr ((if ldos = [] then KELPIE_ENOENT else KELPIE_OK, ldos), t1)"
    "om_inv ldos" "\<And>k. om_get ldos k = computable b key t k" "lkv_inv t1" "\<And>b' k'. stored b' k' t1 = stored b' k' t"
proof -
  have mk: "Matches_key k key \<longleftrightarrow> K1 k = K1 key \<and> pattern_matches (K2 key) (K2 k)" for k
    using row by (auto simp: Matches_key_def Matches_pattern pattern_matches_def IsRowWildcard_def)
  show ?thesis
  proof (cases "IsColWildcard key")
    case False
    obtain info t1 where g: "get now b key t = Inr ((if stored b key t = None then KELPIE_ENOENT else KELPIE_OK, stored b key t, info), t1)"
      using get_cell [OF inv v] by metis
    note S = stored_get [OF inv g]
    have m: "Matches_key k key \<longleftrightarrow> k = key" for k
      using False unfolding mk by (cases k; cases key) (auto simp: pattern_matches_def IsColWildcard_def)
    let ?l = "case stored b key t of Some x \<Rightarrow> [(key, x)] | None \<Rightarrow> []"
    show ?thesis
    proof (rule that [of ?l t1])
      show "getAvailable now b key [] t = Inr ((if ?l = [] then KELPIE_ENOENT else KELPIE_OK, ?l), t1)"
        using g v row False by (auto simp: getAvailable_def rc_defs split: option.splits)
    qed (use S m False in \<open>auto simp: computable_def om_inv_def split: option.splits\<close>)
  next
    case True
    show ?thesis
    proof (cases "getRow (makeRowname b key) t")
      case None
      have "computable b key t k = None" for k
        using None by (auto simp: computable_def mk stored_def cell_at_def makeRowname_def)
      then show ?thesis
        using that [of "[]" t] v row True None inv by (simp add: getAvailable_def doRowOp_def flag_tests om_inv_def)
    next
      case (Some r)
      obtain n names caps where g: "getActiveColumnNamesCapacities (K2 key) r = (n, names, caps)" by (metis prod_cases3)
      define obj where "obj = (\<lambda>n. case getCol_name n r of Some c \<Rightarrow> if availability c = InLocalMemory then Some (cell_ldo c) else None | None \<Rightarrow> None)"
      let ?l = "collect (K1 key) obj names []"
      have fn: "getAvailable_lambda key [] r True = (if ?l \<noteq> [] then KELPIE_OK else KELPIE_ENOENT, r, ?l)"
        unfolding getAvailable_lambda_def g collect_def obj_def Let_def prod.case
        by (intro arg_cong [where f = "\<lambda>l. (if l \<noteq> [] then KELPIE_OK else KELPIE_ENOENT, r, l)"] fold_cong) (auto simp: fun_eq_iff split: option.splits)
      have t1: "setRow (makeRowname b key) r t = t" using om_set_same [OF lkv_inv_om [OF inv]] Some by (simp add: setRow_def getRow_def)
      have names: "K2 k \<in> set names \<longleftrightarrow> pattern_matches (K2 key) (K2 k) \<and>
        (\<exists>c. getCol_name (K2 k) r = Some c \<and> (K2 k \<noteq> [] \<longrightarrow> getUserSize c \<noteq> 0))" for k
        using getActive_names(2) [OF _ g] lkv_inv_row [OF inv Some] True by (simp add: IsColWildcard_def)
      have st: "stored b k t = obj (K2 k)" if "K1 k = K1 key" for k
        using Some that by (simp add: stored_def obj_def cell_at_getCol_name makeRowname_def)
      have "om_get ?l k = computable b key t k" for k
        using st [of k] True unfolding collect_get [OF om_inv_Nil] computable_def mk names
        by (auto simp: obj_def getUserSize_zero split: option.splits if_splits)
      then show ?thesis
        using that [of ?l t] v row True inv by (simp add: getAvailable_def doRowOp_def flag_tests Some fn t1 collect_inv om_inv_Nil)
    qed
  qed
qed

section \<open>What is picked\<close>

text \<open>One scan serves both loops: \<open>lt\<close> says that a size is better than the best so far.\<close>

definition scan :: "(u32 \<Rightarrow> u32 \<Rightarrow> bool) \<Rightarrow> (key, ldo) omap \<Rightarrow> ldo \<times> u32 \<Rightarrow> ldo \<times> u32" where
  "scan lt = fold (\<lambda>(_, x) (ext, best). if lt best (GetUserSize x) then (x, GetUserSize x) else (ext, best))"

text \<open>The first object, in key order, that no other object beats.\<close>

definition first_best :: "(u32 \<Rightarrow> u32 \<Rightarrow> bool) \<Rightarrow> (key, ldo) omap \<Rightarrow> ldo \<Rightarrow> bool" where
  "first_best lt ldos x = (\<exists>k. (k, x) \<in> set ldos \<and>
     (\<forall>k' y. (k', y) \<in> set ldos \<longrightarrow> \<not> lt (GetUserSize x) (GetUserSize y) \<and> (GetUserSize y = GetUserSize x \<longrightarrow> k \<le> k')))"

lemma first_best_here:
  assumes "\<And>k' y. (k', y) \<in> set ldos \<Longrightarrow> k < k' \<and> \<not> lt (GetUserSize x) (GetUserSize y)" "\<not> lt (GetUserSize x) (GetUserSize x)"
  shows "first_best lt ((k, x) # ldos) x"
  unfolding first_best_def using assms by (intro exI [of _ k]) (auto dest: assms(1) intro: less_imp_le)

lemma first_best_there:
  "first_best lt ldos z \<Longrightarrow> \<not> lt (GetUserSize z) (GetUserSize x) \<Longrightarrow> GetUserSize x \<noteq> GetUserSize z \<Longrightarrow> first_best lt ((k, x) # ldos) z"
  by (auto simp: first_best_def)

lemma scan_best:
  assumes lt: "transp lt" "irreflp lt" and inv: "om_inv ldos"
  shows "scan lt ldos (e, m) = (e, m) \<and> (\<forall>k y. (k, y) \<in> set ldos \<longrightarrow> \<not> lt m (GetUserSize y)) \<or>
    (\<exists>x. scan lt ldos (e, m) = (x, GetUserSize x) \<and> lt m (GetUserSize x) \<and> first_best lt ldos x)"
  using inv
proof (induction ldos arbitrary: e m)
  case (Cons p ldos)
  note trans = transpD [OF lt(1)] and irrefl = irreflpD [OF lt(2)]
  obtain k x where p: "p = (k, x)" by (cases p)
  have inv: "om_inv ldos" and below: "\<And>k' y. (k', y) \<in> set ldos \<Longrightarrow> k < k'"
    using Cons.prems by (auto simp: p om_inv_def)
  show ?case
  proof (cases "lt m (GetUserSize x)")
    case True
    have step: "scan lt (p # ldos) (e, m) = scan lt ldos (x, GetUserSize x)" using True by (simp add: scan_def p)
    from Cons.IH [OF inv, of x "GetUserSize x"] show ?thesis
    proof (elim disjE conjE exE)
      assume s: "scan lt ldos (x, GetUserSize x) = (x, GetUserSize x)" and "\<forall>k y. (k, y) \<in> set ldos \<longrightarrow> \<not> lt (GetUserSize x) (GetUserSize y)"
      then have "first_best lt (p # ldos) x" unfolding p using below irrefl by (intro first_best_here) blast+
      then show ?thesis using True s step by simp
    next
      fix z assume s: "scan lt ldos (x, GetUserSize x) = (z, GetUserSize z)" and l: "lt (GetUserSize x) (GetUserSize z)" and "first_best lt ldos z"
      then have "first_best lt (p # ldos) z" unfolding p using trans irrefl by (intro first_best_there) metis+
      then show ?thesis using trans [OF True l] s step by simp
    qed
  next
    case False
    have step: "scan lt (p # ldos) (e, m) = scan lt ldos (e, m)" using False by (simp add: scan_def p)
    from Cons.IH [OF inv, of e m] show ?thesis
    proof (elim disjE conjE exE)
      assume "scan lt ldos (e, m) = (e, m)" and "\<forall>k y. (k, y) \<in> set ldos \<longrightarrow> \<not> lt m (GetUserSize y)"
      then show ?thesis using False step by (simp add: p)
    next
      fix z assume s: "scan lt ldos (e, m) = (z, GetUserSize z)" and l: "lt m (GetUserSize z)" and "first_best lt ldos z"
      moreover have "\<not> lt (GetUserSize z) (GetUserSize x)" "GetUserSize x \<noteq> GetUserSize z" using trans [OF l] l False by auto
      ultimately show ?thesis using step by (simp add: p first_best_there)
    qed
  qed
qed (simp add: scan_def)

lemma pick_largest_best:
  assumes "om_inv ldos"
  shows "pick_largest ldos ext = ext \<and> (\<forall>k y. (k, y) \<in> set ldos \<longrightarrow> GetUserSize y = 0) \<or> first_best (<) ldos (pick_largest ldos ext)"
proof -
  have "pick_largest ldos ext = fst (scan (<) ldos (ext, 0))" by (simp add: pick_largest_def scan_def)
  then show ?thesis using scan_best [of "(<)" ldos ext 0, OF _ _ assms] by (auto simp: word_gt_0)
qed

lemma pick_smallest_best:
  assumes "om_inv ldos" "ldos \<noteq> []"
  shows "if GetUserSize (snd (hd ldos)) = - 1 then pick_smallest ldos ext = ext else first_best (>) ldos (pick_smallest ldos ext)"
proof -
  let ?m = "GetUserSize (snd (hd ldos)) + 1"
  have p: "pick_smallest ldos ext = fst (scan (>) ldos (ext, ?m))" by (simp add: pick_smallest_def scan_def)
  obtain k0 x0 where h: "hd ldos = (k0, x0)" "(k0, x0) \<in> set ldos" using assms(2) by (metis hd_in_set surj_pair)
  show ?thesis
  proof (cases "?m = 0")
    case True
    then show ?thesis using p scan_best [of "(>)" ldos ext ?m, OF _ _ assms(1)] by (auto simp: add_eq_0_iff2)
  next
    case False
    then have "GetUserSize (snd (hd ldos)) < ?m" using word_inc_less by blast
    then show ?thesis using False p h scan_best [of "(>)" ldos ext ?m, OF _ _ assms(1)] by (auto simp: eq_neg_iff_add_eq_0)
  qed
qed

text \<open>
  The built-in compute function on a non-empty set of objects: no argument or \<^verbatim>\<open>first\<close> picks the object with the least
  key and \<^verbatim>\<open>last\<close> the one with the greatest; \<^verbatim>\<open>largest\<close> picks an object of the greatest size, the first such
  in key order, or nothing at all when every object is empty; \<^verbatim>\<open>smallest\<close> picks an object of the least size, the first
  such in key order, unless the size of the first object is 2^32 - 1, when it picks nothing; any other argument is
  refused.  Whatever is not picked leaves the caller's object as it was.
\<close>
theorem pick_spec:
  assumes "om_inv ldos" "ldos \<noteq> []"
  shows "fn_pick b k [] ldos (Some ext) = (KELPIE_OK, Some (snd (hd ldos))) \<and>
    fn_pick b k ''first'' ldos (Some ext) = (KELPIE_OK, Some (snd (hd ldos))) \<and>
    fn_pick b k ''last'' ldos (Some ext) = (KELPIE_OK, Some (snd (last ldos))) \<and>
    (\<exists>x. fn_pick b k ''largest'' ldos (Some ext) = (KELPIE_OK, Some x) \<and>
      (x = ext \<and> (\<forall>k y. (k, y) \<in> set ldos \<longrightarrow> GetUserSize y = 0) \<or> first_best (<) ldos x)) \<and>
    (\<exists>x. fn_pick b k ''smallest'' ldos (Some ext) = (KELPIE_OK, Some x) \<and>
      (if GetUserSize (snd (hd ldos)) = - 1 then x = ext else first_best (>) ldos x)) \<and>
    (args \<noteq> [] \<and> args \<notin> set pick_choices \<longrightarrow> fn_pick b k args ldos (Some ext) = (KELPIE_EINVAL, Some ext))"
  using assms pick_largest_best [OF assms(1), of ext] pick_smallest_best [OF assms, of ext]
  by (auto simp: fn_pick_def pick_index_def pick_choices_def)

definition pick_example :: "(key, ldo) omap" where
  "pick_example = [(Key ''row'' ''a'', Some \<lparr>do_type = 0, do_meta = [], do_data = [1, 2], do_padding = 2\<rparr>),
     (Key ''row'' ''b'', Some \<lparr>do_type = 0, do_meta = [9], do_data = [1, 2, 3], do_padding = 4\<rparr>),
     (Key ''row'' ''c'', Some \<lparr>do_type = 0, do_meta = [], do_data = [7], do_padding = 3\<rparr>)]"

theorem pick_spec_witness:
  "om_inv pick_example \<and> fn_pick 0 (Key ''row'' ''*'') ''first'' pick_example (Some None) = (KELPIE_OK, Some (snd (pick_example ! 0))) \<and>
   fn_pick 0 (Key ''row'' ''*'') ''largest'' pick_example (Some None) = (KELPIE_OK, Some (snd (pick_example ! 1))) \<and>
   fn_pick 0 (Key ''row'' ''*'') ''smallest'' pick_example (Some None) = (KELPIE_OK, Some (snd (pick_example ! 2))) \<and>
   fn_pick 0 (Key ''row'' ''*'') ''median'' pick_example (Some None) = (KELPIE_EINVAL, Some None)"
proof -
  have inv: "om_inv pick_example" and ne: "pick_example \<noteq> []" by (simp_all add: om_inv_def pick_example_def less_key_def key_less_def)
  have "fn_pick 0 (Key ''row'' ''*'') ''largest'' pick_example (Some None) = (KELPIE_OK, Some (snd (pick_example ! 1)))"
    "fn_pick 0 (Key ''row'' ''*'') ''smallest'' pick_example (Some None) = (KELPIE_OK, Some (snd (pick_example ! 2)))"
    by (simp_all add: fn_pick_def pick_index_def pick_choices_def pick_largest_def pick_smallest_def pick_example_def GetUserSize_def)
  then show ?thesis
    using pick_spec [OF inv ne, of 0 "Key ''row'' ''*''" None "''median''"] inv by (simp add: pick_example_def pick_choices_def)
qed

end
