(* ===== verification/Lunasa_Heap.thy ===== *)
theory Lunasa_Heap
  imports Lunasa_Object
begin

unbundle bit_operations_syntax

text \<open>
  Lunasa's reference counted allocations: the handles of \<^verbatim>\<open>lunasa/DataObject.cpp\<close>, the counts of
  \<^verbatim>\<open>lunasa/common/Allocation.hh\<close> and the malloc allocator of \<^verbatim>\<open>lunasa/allocators/AllocatorMalloc.cpp\<close>, on an
  explicit heap.  Addresses are numbers, a handle is a program variable that holds an address or null, and
  touching an address that has been freed is \<^verbatim>\<open>Undefined_behaviour\<close>.  The bytes a fresh block holds are an
  argument of the allocation.  The pinning functions and the user's cleanup function are outside the
  repository's state; calls of the latter are recorded.  Sizes keep their 32 bits, and a count is an
  \<^verbatim>\<open>atomic_int\<close>: an integer between -2^31 and 2^31 - 1 whose increment wraps.
\<close>

section \<open>Allocations\<close>

text \<open>The size of \<^verbatim>\<open>struct Allocation\<close> on a 64-bit machine, which is also the offset of the user section.\<close>
definition SIZEOF_ALLOCATION :: u32 where
  "SIZEOF_ALLOCATION = 56"

record AllocationSegment =
  seg_buffer :: nat
  seg_offset :: u32
  seg_size :: u32
  seg_cleanup :: bool

record Allocation =
  ref_count :: int
  al_eager :: bool
  allocated_bytes :: u32
  al_padding :: u32
  al_type :: u16
  meta_bytes :: u16
  data_bytes :: u32
  al_user :: "u8 list"
  user_data_segments :: "AllocationSegment list option"

record AllocatorMalloc =
  mTotalAllocated :: u64
  mTotalUsed :: u64
  has_been_shutdown :: bool

text \<open>The two allocators of the core are told apart by their eager flag.\<close>
record Heap =
  allocs :: "(nat, Allocation) omap"
  next_addr :: nat
  allocators :: "bool \<Rightarrow> AllocatorMalloc"
  handles :: "(nat, nat option) omap"
  cleaned :: "nat list"

definition empty_allocator :: AllocatorMalloc where
  "empty_allocator = \<lparr>mTotalAllocated = 0, mTotalUsed = 0, has_been_shutdown = False\<rparr>"

definition Heap_init :: Heap where
  "Heap_init = \<lparr>allocs = [], next_addr = 0, allocators = (\<lambda>_. empty_allocator), handles = [], cleaned = []\<rparr>"

definition setHeader :: "int \<Rightarrow> u16 \<Rightarrow> u32 \<Rightarrow> u32 \<Rightarrow> u16 \<Rightarrow> Allocation \<Rightarrow> Allocation" where
  "setHeader initial_ref_count meta_size data_size padding type al =
     al\<lparr>ref_count := initial_ref_count, al_padding := padding, al_type := type, data_bytes := data_size,
        meta_bytes := meta_size\<rparr>"

definition GetUserCapacity :: "Allocation \<Rightarrow> u32" where
  "GetUserCapacity al = allocated_bytes al - SIZEOF_ALLOCATION"

section \<open>The malloc allocator\<close>

text \<open>The size is a 32-bit sum: a request that makes it wrap gets a block smaller than its own header, and
  writing the header is outside it.  After a shutdown the allocator returns null, which its callers
  dereference.\<close>
definition Allocate :: "bool \<Rightarrow> (nat \<Rightarrow> u8) \<Rightarrow> u32 \<Rightarrow> Heap \<Rightarrow> (nat \<times> Heap) result" where
  "Allocate eager fresh user_capacity H =
     (let bytes = user_capacity + SIZEOF_ALLOCATION; am = allocators H eager in
      if has_been_shutdown am then Inl Undefined_behaviour
      else if bytes < SIZEOF_ALLOCATION then Inl Undefined_behaviour
      else let al = \<lparr>ref_count = 0, al_eager = eager, allocated_bytes = bytes, al_padding = 0, al_type = 0,
                 meta_bytes = 0, data_bytes = 0,
                 al_user = map fresh [0..<unat bytes - unat SIZEOF_ALLOCATION], user_data_segments = None\<rparr>
           in Inr (next_addr H, H\<lparr>allocs := om_set (next_addr H) al (allocs H), next_addr := Suc (next_addr H),
                allocators := (allocators H)(eager := am\<lparr>mTotalAllocated := mTotalAllocated am + ucast bytes,
                  mTotalUsed := mTotalUsed am + ucast bytes\<rparr>)\<rparr>))"

definition Free :: "nat \<Rightarrow> Heap \<Rightarrow> Heap result" where
  "Free a H = (case om_get (allocs H) a of None \<Rightarrow> Inl Undefined_behaviour
     | Some al \<Rightarrow> (let am = allocators H (al_eager al) in
         Inr (H\<lparr>allocs := om_del a (allocs H),
           allocators := (allocators H)(al_eager al := am\<lparr>
             mTotalAllocated := mTotalAllocated am - ucast (allocated_bytes al),
             mTotalUsed := mTotalUsed am - (ucast (allocated_bytes al) - ucast SIZEOF_ALLOCATION)\<rparr>)\<rparr>)))"

section \<open>Reference counts\<close>

text \<open>Arithmetic on an \<^verbatim>\<open>atomic_int\<close> wraps around.\<close>
definition atomic_int :: "int \<Rightarrow> int" where
  "atomic_int n = signed_take_bit 31 n"

definition IncrRef :: "nat \<Rightarrow> Heap \<Rightarrow> Heap result" where
  "IncrRef a H = (case om_get (allocs H) a of None \<Rightarrow> Inl Undefined_behaviour
     | Some al \<Rightarrow> Inr (H\<lparr>allocs := om_set a (al\<lparr>ref_count := atomic_int (ref_count al + 1)\<rparr>) (allocs H)\<rparr>))"

definition segment_cleanups :: "Allocation \<Rightarrow> nat list" where
  "segment_cleanups al = (case user_data_segments al of None \<Rightarrow> []
     | Some segs \<Rightarrow> map seg_buffer (filter seg_cleanup segs))"

definition DecrRef :: "nat \<Rightarrow> Heap \<Rightarrow> Heap result" where
  "DecrRef a H = (case om_get (allocs H) a of None \<Rightarrow> Inl Undefined_behaviour
     | Some al \<Rightarrow>
         if ref_count al \<le> 0 then Inl Assert_failed
         else let num_left = atomic_int (ref_count al - 1);
                  H' = H\<lparr>allocs := om_set a (al\<lparr>ref_count := num_left\<rparr>) (allocs H)\<rparr>
              in if num_left = 0 then Free a (H'\<lparr>cleaned := cleaned H @ segment_cleanups al\<rparr>)
                 else Inr H')"

section \<open>Handles\<close>

definition impl_of :: "nat \<Rightarrow> Heap \<Rightarrow> nat option result" where
  "impl_of h H = (case om_get (handles H) h of None \<Rightarrow> Inl Undefined_behaviour | Some p \<Rightarrow> Inr p)"

definition set_impl :: "nat \<Rightarrow> nat option \<Rightarrow> Heap \<Rightarrow> Heap" where
  "set_impl h p H = H\<lparr>handles := om_set h p (handles H)\<rparr>"

definition drop_old :: "nat option \<Rightarrow> Heap \<Rightarrow> Heap result" where
  "drop_old p H = (case p of None \<Rightarrow> Inr H | Some a \<Rightarrow> DecrRef a H)"

definition add_new :: "nat option \<Rightarrow> Heap \<Rightarrow> Heap result" where
  "add_new p H = (case p of None \<Rightarrow> Inr H | Some a \<Rightarrow> IncrRef a H)"

definition update_alloc :: "nat \<Rightarrow> (Allocation \<Rightarrow> Allocation) \<Rightarrow> Heap \<Rightarrow> Heap result" where
  "update_alloc a f H = (case om_get (allocs H) a of None \<Rightarrow> Inl Undefined_behaviour
     | Some al \<Rightarrow> Inr (H\<lparr>allocs := om_set a (f al) (allocs H)\<rparr>))"

definition DataObject_null :: "nat \<Rightarrow> Heap \<Rightarrow> Heap result" where
  "DataObject_null h H = Inr (set_impl h None H)"

definition DataObject_alloc ::
  "nat \<Rightarrow> u32 \<Rightarrow> u16 \<Rightarrow> u32 \<Rightarrow> bool \<Rightarrow> u16 \<Rightarrow> (nat \<Rightarrow> u8) \<Rightarrow> Heap \<Rightarrow> Heap result" where
  "DataObject_alloc h total_user_capacity meta_capacity data_capacity eager tag fresh H =
     (if unat meta_capacity + unat data_capacity > unat total_user_capacity then Inl Invalid_argument
      else let padding = ldo_padding meta_capacity data_capacity in
        rbind (Allocate eager fresh (total_user_capacity + padding) H) (\<lambda>(a, H1).
        rbind (update_alloc a (setHeader 1 meta_capacity data_capacity padding tag) H1) (\<lambda>H2.
        Inr (set_impl h (Some a) H2))))"

text \<open>The segment is built from four arguments: the meta capacity lands in the offset and the data capacity
  in the size.\<close>
definition AddUserDataSegment :: "nat \<Rightarrow> nat \<Rightarrow> u32 \<Rightarrow> u32 \<Rightarrow> bool \<Rightarrow> Heap \<Rightarrow> Heap result" where
  "AddUserDataSegment a userMemory metaCapacity dataCapacity cleanup =
     update_alloc a (\<lambda>al. al\<lparr>user_data_segments :=
         Some ((case user_data_segments al of None \<Rightarrow> [] | Some segs \<Rightarrow> segs) @
           [\<lparr>seg_buffer = userMemory, seg_offset = metaCapacity, seg_size = dataCapacity, seg_cleanup = cleanup\<rparr>]),
       meta_bytes := meta_bytes al + ucast metaCapacity, data_bytes := data_bytes al + dataCapacity\<rparr>)"

definition DataObject_user ::
  "nat \<Rightarrow> nat \<Rightarrow> u16 \<Rightarrow> u32 \<Rightarrow> bool \<Rightarrow> (nat \<Rightarrow> u8) \<Rightarrow> Heap \<Rightarrow> Heap result" where
  "DataObject_user h userMemory metaCapacity dataCapacity cleanup fresh H =
     rbind (Allocate True fresh 0 H) (\<lambda>(a, H1).
     rbind (update_alloc a (setHeader 1 0 0 0 0) H1) (\<lambda>H2.
     rbind (AddUserDataSegment a userMemory (ucast metaCapacity) dataCapacity cleanup H2) (\<lambda>H3.
     Inr (set_impl h (Some a) H3))))"

definition DataObject_dtor :: "nat \<Rightarrow> Heap \<Rightarrow> Heap result" where
  "DataObject_dtor h H = rbind (impl_of h H) (\<lambda>p. rbind (drop_old p H) (\<lambda>H'.
     Inr (H'\<lparr>handles := om_del h (handles H')\<rparr>)))"

definition DataObject_copy :: "nat \<Rightarrow> nat \<Rightarrow> Heap \<Rightarrow> Heap result" where
  "DataObject_copy h source H = rbind (impl_of source H) (\<lambda>p. rbind (add_new p H) (\<lambda>H'. Inr (set_impl h p H')))"

definition DataObject_move :: "nat \<Rightarrow> nat \<Rightarrow> Heap \<Rightarrow> Heap result" where
  "DataObject_move h source H = rbind (impl_of source H) (\<lambda>p. Inr (set_impl source None (set_impl h p H)))"

definition copy_assign :: "nat \<Rightarrow> nat \<Rightarrow> Heap \<Rightarrow> Heap result" where
  "copy_assign h source H =
     rbind (impl_of h H) (\<lambda>old. rbind (drop_old old H) (\<lambda>H1.
     rbind (impl_of source H1) (\<lambda>p. rbind (add_new p H1) (\<lambda>H2. Inr (set_impl h p H2)))))"

definition move_assign :: "nat \<Rightarrow> nat \<Rightarrow> Heap \<Rightarrow> Heap result" where
  "move_assign h source H =
     rbind (impl_of h H) (\<lambda>old. rbind (drop_old old H) (\<lambda>H1.
     rbind (impl_of source H1) (\<lambda>p. Inr (set_impl source None (set_impl h p H1)))))"

definition alloc_at :: "nat option \<Rightarrow> Heap \<Rightarrow> Allocation result" where
  "alloc_at p H = (case p of None \<Rightarrow> Inl Undefined_behaviour
     | Some a \<Rightarrow> (case om_get (allocs H) a of None \<Rightarrow> Inl Undefined_behaviour | Some al \<Rightarrow> Inr al))"

text \<open>A deep copy releases the old allocation first; the source is read through its handle before and
  after that.  The copied bytes are those of the meta and data sections.\<close>
definition deepcopy :: "nat \<Rightarrow> nat \<Rightarrow> (nat \<Rightarrow> u8) \<Rightarrow> Heap \<Rightarrow> Heap result" where
  "deepcopy h source fresh H =
     rbind (impl_of source H) (\<lambda>sp0. rbind (alloc_at sp0 H) (\<lambda>src0.
     if user_data_segments src0 \<noteq> None then Inl Assert_failed
     else rbind (impl_of h H) (\<lambda>old. rbind (drop_old old H) (\<lambda>H1.
       let H2 = (if old \<noteq> None then set_impl h None H1 else H1) in
       rbind (impl_of source H2) (\<lambda>sp. rbind (alloc_at sp H2) (\<lambda>src.
       let padding = ldo_padding (meta_bytes src) (data_bytes src);
           bytes = ucast (meta_bytes src) + data_bytes src
       in rbind (Allocate (al_eager src) fresh (bytes + padding) H2) (\<lambda>(a, H3).
          if unat bytes > length (al_user src) then Inl Undefined_behaviour
          else rbind (update_alloc a (\<lambda>al. (setHeader 1 (meta_bytes src) (data_bytes src) padding (al_type src) al)
                 \<lparr>al_user := take (unat bytes) (al_user src) @ drop (unat bytes) (al_user al)\<rparr>) H3) (\<lambda>H4.
            Inr (set_impl h (Some a) H4)))))))))"

datatype data_ptr = Ptr_null | In_block nat nat | In_segment nat nat

definition GetMetaPtr :: "nat \<Rightarrow> Heap \<Rightarrow> data_ptr result" where
  "GetMetaPtr h H = rbind (impl_of h H) (\<lambda>p. case p of None \<Rightarrow> Inr Ptr_null
     | Some a \<Rightarrow> rbind (alloc_at p H) (\<lambda>al. case user_data_segments al of
         Some segs \<Rightarrow>
           if segs = [] \<or> allocated_bytes al \<noteq> SIZEOF_ALLOCATION then Inl Assert_failed
           else if \<not> seg_size (hd segs) > ucast (meta_bytes al) then Inl Assert_failed
           else Inr (In_segment (seg_buffer (hd segs)) 0)
       | None \<Rightarrow> if allocated_bytes al \<ge> SIZEOF_ALLOCATION then Inr (In_block a 0) else Inl Assert_failed))"

definition GetDataPtr :: "nat \<Rightarrow> Heap \<Rightarrow> data_ptr result" where
  "GetDataPtr h H = rbind (impl_of h H) (\<lambda>p. case p of None \<Rightarrow> Inr Ptr_null
     | Some a \<Rightarrow> rbind (alloc_at p H) (\<lambda>al. case user_data_segments al of
         Some segs \<Rightarrow>
           if segs = [] \<or> allocated_bytes al \<noteq> SIZEOF_ALLOCATION then Inl Assert_failed
           else if \<not> seg_size (hd segs) > ucast (meta_bytes al) + data_bytes al then Inl Assert_failed
           else Inr (In_segment (seg_buffer (hd segs)) (unat (meta_bytes al)))
       | None \<Rightarrow> if allocated_bytes al \<ge> SIZEOF_ALLOCATION then Inr (In_block a (unat (meta_bytes al)))
           else Inl Assert_failed))"

definition GetRefCount :: "nat \<Rightarrow> Heap \<Rightarrow> int result" where
  "GetRefCount h H = rbind (impl_of h H) (\<lambda>p. case p of None \<Rightarrow> Inr 0
     | Some a \<Rightarrow> rbind (alloc_at p H) (\<lambda>al. Inr (ref_count al)))"

definition GetRawAllocationSize :: "nat \<Rightarrow> Heap \<Rightarrow> u32 result" where
  "GetRawAllocationSize h H = rbind (impl_of h H) (\<lambda>p. case p of None \<Rightarrow> Inr 0
     | Some a \<Rightarrow> rbind (alloc_at p H) (\<lambda>al. Inr (allocated_bytes al)))"

definition GetPaddingSize :: "nat \<Rightarrow> Heap \<Rightarrow> u32 result" where
  "GetPaddingSize h H = rbind (impl_of h H) (\<lambda>p. case p of None \<Rightarrow> Inr 0
     | Some a \<Rightarrow> rbind (alloc_at p H) (\<lambda>al. Inr (al_padding al)))"

text \<open>The section sizes can be changed within the capacity of the block; the sum is 64 bits wide.\<close>
definition ModifyUserSizes :: "nat \<Rightarrow> u16 \<Rightarrow> u32 \<Rightarrow> Heap \<Rightarrow> (int \<times> Heap) result" where
  "ModifyUserSizes h new_meta_size new_data_size H = rbind (impl_of h H) (\<lambda>p. case p of None \<Rightarrow> Inr (-1, H)
     | Some a \<Rightarrow> rbind (alloc_at p H) (\<lambda>al.
         if unat new_meta_size + unat new_data_size > unat (GetUserCapacity al) then Inr (-1, H)
         else rbind (update_alloc a (\<lambda>al. al\<lparr>meta_bytes := new_meta_size, data_bytes := new_data_size\<rparr>) H)
           (\<lambda>H'. Inr (0, H'))))"

text \<open>The object a handle shows: the values of \<open>Lunasa_Object\<close>.\<close>
definition object_of :: "Allocation \<Rightarrow> dataobject" where
  "object_of al = \<lparr>do_type = al_type al, do_meta = take (unat (meta_bytes al)) (al_user al),
     do_data = take (unat (data_bytes al)) (drop (unat (meta_bytes al)) (al_user al)), do_padding = al_padding al\<rparr>"

definition view :: "nat \<Rightarrow> Heap \<Rightarrow> ldo" where
  "view h H = (case om_get (handles H) h of Some (Some a) \<Rightarrow> map_option object_of (om_get (allocs H) a) | _ \<Rightarrow> None)"

section \<open>Programs over handles\<close>

text \<open>What a program may do with handles, and the conditions of the language and of the interface: a new
  variable is new, an assignment or a deep copy does not name the same variable twice, a deep copy reads an
  object with memory of its own, an allocation asks for less than the 32-bit sum can hold, and a reference
  is added only while there are fewer handles than a count can express.\<close>
datatype ldo_op =
    Null_ctor nat
  | Alloc_ctor nat u32 u16 u32 bool u16
  | User_ctor nat nat u16 u32 bool
  | Copy_ctor nat nat
  | Move_ctor nat nat
  | Copy_assign nat nat
  | Move_assign nat nat
  | Deep_copy nat nat
  | Dtor nat

fun ldo_run :: "(nat \<Rightarrow> u8) \<Rightarrow> ldo_op \<Rightarrow> Heap \<Rightarrow> Heap result" where
  "ldo_run fresh (Null_ctor h) H = DataObject_null h H"
| "ldo_run fresh (Alloc_ctor h cap meta data eager tag) H = DataObject_alloc h cap meta data eager tag fresh H"
| "ldo_run fresh (User_ctor h buf meta data cleanup) H = DataObject_user h buf meta data cleanup fresh H"
| "ldo_run fresh (Copy_ctor h source) H = DataObject_copy h source H"
| "ldo_run fresh (Move_ctor h source) H = DataObject_move h source H"
| "ldo_run fresh (Copy_assign h source) H = copy_assign h source H"
| "ldo_run fresh (Move_assign h source) H = move_assign h source H"
| "ldo_run fresh (Deep_copy h source) H = deepcopy h source fresh H"
| "ldo_run fresh (Dtor h) H = DataObject_dtor h H"

definition is_handle :: "nat \<Rightarrow> Heap \<Rightarrow> bool" where
  "is_handle h H = (om_get (handles H) h \<noteq> None)"

definition fits :: "u16 \<Rightarrow> u32 \<Rightarrow> u32 \<Rightarrow> bool" where
  "fits meta data cap = (unat meta + unat data \<le> unat cap \<and> unat cap + 60 < 2 ^ 32)"

definition own_memory :: "nat \<Rightarrow> Heap \<Rightarrow> bool" where
  "own_memory h H = (case om_get (handles H) h of Some (Some a) \<Rightarrow> (case om_get (allocs H) a of
     Some al \<Rightarrow> user_data_segments al = None | None \<Rightarrow> False) | _ \<Rightarrow> False)"

definition can_count :: "Heap \<Rightarrow> bool" where
  "can_count H = (length (handles H) < 2 ^ 31 - 1)"

fun op_allowed :: "ldo_op \<Rightarrow> Heap \<Rightarrow> bool" where
  "op_allowed (Null_ctor h) H = (\<not> is_handle h H)"
| "op_allowed (Alloc_ctor h cap meta data eager tag) H = (\<not> is_handle h H \<and> fits meta data cap)"
| "op_allowed (User_ctor h buf meta data cleanup) H = (\<not> is_handle h H)"
| "op_allowed (Copy_ctor h source) H = (\<not> is_handle h H \<and> is_handle source H \<and> can_count H)"
| "op_allowed (Move_ctor h source) H = (\<not> is_handle h H \<and> is_handle source H)"
| "op_allowed (Copy_assign h source) H = (h \<noteq> source \<and> is_handle h H \<and> is_handle source H \<and> can_count H)"
| "op_allowed (Move_assign h source) H = (h \<noteq> source \<and> is_handle h H \<and> is_handle source H)"
| "op_allowed (Deep_copy h source) H = (h \<noteq> source \<and> is_handle h H \<and> own_memory source H)"
| "op_allowed (Dtor h) H = is_handle h H"

inductive ldo_reachable :: "Heap \<Rightarrow> bool" where
  start: "ldo_reachable Heap_init"
| step: "ldo_reachable H \<Longrightarrow> op_allowed op H \<Longrightarrow> ldo_run fresh op H = Inr H' \<Longrightarrow> ldo_reachable H'"

section \<open>Sums over ordered maps\<close>

lemma sum_om_set:
  fixes f :: "'k::linorder \<times> 'v \<Rightarrow> 'a::comm_monoid_add"
  assumes "om_inv m"
  shows "sum_list (map f (om_set k v m)) + (case om_get m k of Some v0 \<Rightarrow> f (k, v0) | None \<Rightarrow> 0) =
    sum_list (map f m) + f (k, v)"
  using assms
proof (induction m)
  case (Cons kv m)
  have none: "k < fst kv \<Longrightarrow> om_get m k = None"
    using Cons.prems by (auto simp: map_of_eq_None_iff)
  show ?case
    using Cons none by (cases kv) (auto simp: ac_simps)
qed simp

lemma sum_om_del:
  fixes f :: "'k::linorder \<times> 'v \<Rightarrow> 'a::comm_monoid_add"
  assumes "om_inv m"
  shows "sum_list (map f (om_del k m)) + (case om_get m k of Some v0 \<Rightarrow> f (k, v0) | None \<Rightarrow> 0) = sum_list (map f m)"
  using assms
proof (induction m)
  case (Cons kv m)
  have same: "k \<notin> fst ` set m \<Longrightarrow> om_del k m = m"
    by (force simp: om_del_def filter_id_conv)
  obtain k' v' where kv: "kv = (k', v')" by (cases kv)
  show ?case
  proof (cases "k' = k")
    case True
    then have "om_del k (kv # m) = m" using Cons.prems same by (auto simp: om_del_def kv image_iff)
    then show ?thesis by (simp add: kv True add.commute)
  next
    case False
    then have "om_del k (kv # m) = kv # om_del k m" by (simp add: om_del_def kv)
    then show ?thesis using Cons False by (simp add: kv ac_simps)
  qed
qed (simp add: om_del_def)

lemma om_set_twice: "om_set k v (om_set k w m) = om_set k v m"
  by (induction m) auto

lemma om_del_om_set: "om_del k (om_set k v m) = om_del k m"
  by (induction m) (auto simp: om_del_def)

section \<open>The invariant of the heap\<close>

text \<open>The number of handles that point at an address.\<close>
definition refs :: "Heap \<Rightarrow> nat \<Rightarrow> int" where
  "refs H a = sum_list (map (\<lambda>(h, p). if p = Some a then 1 else 0) (handles H))"

definition alloc_bytes :: "bool \<Rightarrow> Allocation \<Rightarrow> u64" where
  "alloc_bytes e al = (if al_eager al = e then ucast (allocated_bytes al) else 0)"

definition total_bytes :: "bool \<Rightarrow> Heap \<Rightarrow> u64" where
  "total_bytes e H = sum_list (map (\<lambda>(a, al). alloc_bytes e al) (allocs H))"

definition sizes_ok :: "Allocation \<Rightarrow> bool" where
  "sizes_ok al = (user_data_segments al = None \<longrightarrow>
     unat (meta_bytes al) + unat (data_bytes al) \<le> length (al_user al) \<and>
     unat (meta_bytes al) + unat (data_bytes al) + 60 < 2 ^ 32)"

text \<open>Every allocation has a positive count, which is the number of handles that point at it plus the
  references an operation has taken and not yet stored; an address without an allocation has none.  The
  totals of the allocators are the bytes of their allocations.\<close>
definition heap_bal :: "(nat \<Rightarrow> int) \<Rightarrow> Heap \<Rightarrow> bool" where
  "heap_bal c H = (om_inv (allocs H) \<and> om_inv (handles H) \<and>
     (\<forall>a. case om_get (allocs H) a of
        Some al \<Rightarrow> a < next_addr H \<and> 0 < ref_count al \<and> ref_count al < 2 ^ 31 \<and> ref_count al = refs H a + c a \<and> sizes_ok al
      | None \<Rightarrow> refs H a + c a = 0) \<and>
     (\<forall>e. \<not> has_been_shutdown (allocators H e) \<and> mTotalAllocated (allocators H e) = total_bytes e H))"

abbreviation heap_ok :: "Heap \<Rightarrow> bool" where
  "heap_ok \<equiv> heap_bal (\<lambda>_. 0)"

definition at :: "nat option \<Rightarrow> nat \<Rightarrow> int" where
  "at p a = (if p = Some a then 1 else 0)"

lemma refs_cong: "handles H' = handles H \<Longrightarrow> refs H' = refs H"
  by (simp add: refs_def fun_eq_iff)

lemma refs_set_impl:
  assumes "om_inv (handles H)"
  shows "refs (set_impl h p H) a = refs H a + at p a - (case om_get (handles H) h of Some q \<Rightarrow> at q a | None \<Rightarrow> 0)"
  using sum_om_set [OF assms, of "\<lambda>(h, p). if p = Some a then 1 else 0 :: int" h p]
  by (auto simp: refs_def set_impl_def at_def split: option.splits)

lemma refs_del:
  assumes "om_inv (handles H)"
  shows "refs (H\<lparr>handles := om_del h (handles H)\<rparr>) a = refs H a - (case om_get (handles H) h of Some q \<Rightarrow> at q a | None \<Rightarrow> 0)"
  using sum_om_del [OF assms, of "\<lambda>(h, p). if p = Some a then 1 else 0 :: int" h]
  by (auto simp: refs_def at_def split: option.splits)

lemma refs_nonneg: "0 \<le> refs H a"
  unfolding refs_def by (rule sum_list_nonneg) auto

lemma at_le_refs: "om_get (handles H) h = Some p \<Longrightarrow> at p a \<le> refs H a"
proof -
  have pos: "0 \<le> sum_list (map (\<lambda>(h, p). if p = Some a then 1 else 0 :: int) m)" for m :: "(nat, nat option) omap"
    by (rule sum_list_nonneg) auto
  have "om_get m h = Some p \<Longrightarrow> at p a \<le> sum_list (map (\<lambda>(h, p). if p = Some a then 1 else 0) m)" for m
    by (induction m) (use pos in \<open>auto simp: at_def split: if_splits\<close>)
  then show "om_get (handles H) h = Some p \<Longrightarrow> at p a \<le> refs H a" by (simp add: refs_def)
qed

lemma refs_le_handles: "refs H a \<le> int (length (handles H))"
proof -
  have "sum_list (map (\<lambda>(h, p). if p = Some a then 1 else 0 :: int) m) \<le> int (length m)" for m :: "(nat, nat option) omap"
    by (induction m) auto
  then show ?thesis by (simp add: refs_def)
qed

lemma total_bytes_set:
  assumes "om_inv (allocs H)"
  shows "total_bytes e (H\<lparr>allocs := om_set a al (allocs H)\<rparr>) =
    total_bytes e H + alloc_bytes e al - (case om_get (allocs H) a of Some al0 \<Rightarrow> alloc_bytes e al0 | None \<Rightarrow> 0)"
  using sum_om_set [OF assms, of "\<lambda>(a, al). alloc_bytes e al" a al]
  by (simp add: total_bytes_def eq_diff_eq split: option.splits)

lemma total_bytes_del:
  assumes "om_inv (allocs H)"
  shows "total_bytes e (H\<lparr>allocs := om_del a (allocs H)\<rparr>) =
    total_bytes e H - (case om_get (allocs H) a of Some al0 \<Rightarrow> alloc_bytes e al0 | None \<Rightarrow> 0)"
  using sum_om_del [OF assms, of "\<lambda>(a, al). alloc_bytes e al" a]
  by (simp add: total_bytes_def eq_diff_eq split: option.splits)

section \<open>Every step keeps the balance\<close>

lemma heap_bal_inv: "heap_bal c H \<Longrightarrow> om_inv (allocs H)" "heap_bal c H \<Longrightarrow> om_inv (handles H)"
  by (simp_all add: heap_bal_def)

lemma heap_bal_live:
  "heap_bal c H \<Longrightarrow> om_get (allocs H) a = Some al \<Longrightarrow>
     a < next_addr H \<and> 0 < ref_count al \<and> ref_count al < 2 ^ 31 \<and> ref_count al = refs H a + c a \<and> sizes_ok al"
  unfolding heap_bal_def by (auto split: option.splits dest: spec [of _ a])

lemma heap_bal_dead: "heap_bal c H \<Longrightarrow> om_get (allocs H) a = None \<Longrightarrow> refs H a + c a = 0"
  unfolding heap_bal_def by (auto split: option.splits dest: spec [of _ a])

lemma heap_bal_totals:
  "heap_bal c H \<Longrightarrow> \<not> has_been_shutdown (allocators H e) \<and> mTotalAllocated (allocators H e) = total_bytes e H"
  by (simp add: heap_bal_def)

lemma heap_balI:
  assumes "om_inv (allocs H)" and "om_inv (handles H)"
    and "\<And>a al. om_get (allocs H) a = Some al \<Longrightarrow>
      a < next_addr H \<and> 0 < ref_count al \<and> ref_count al < 2 ^ 31 \<and> ref_count al = refs H a + c a \<and> sizes_ok al"
    and "\<And>a. om_get (allocs H) a = None \<Longrightarrow> refs H a + c a = 0"
    and "\<And>e. \<not> has_been_shutdown (allocators H e) \<and> mTotalAllocated (allocators H e) = total_bytes e H"
  shows "heap_bal c H"
proof -
  have "case om_get (allocs H) a of
      Some al \<Rightarrow> a < next_addr H \<and> 0 < ref_count al \<and> ref_count al < 2 ^ 31 \<and> ref_count al = refs H a + c a \<and> sizes_ok al
    | None \<Rightarrow> refs H a + c a = 0" for a
    using assms(3,4) [of a] by (cases "om_get (allocs H) a") simp_all
  then show ?thesis unfolding heap_bal_def using assms(1,2,5) by blast
qed

lemma handle_live: "heap_bal c H \<Longrightarrow> c a \<ge> 0 \<Longrightarrow> om_get (handles H) h = Some (Some a) \<Longrightarrow> om_get (allocs H) a \<noteq> None"
  using at_le_refs [of H h "Some a" a] heap_bal_dead [of c H a] by (auto simp: at_def)

lemma bal_set_impl:
  assumes "heap_bal c H"
  shows "heap_bal (\<lambda>a. c a + (case om_get (handles H) h of Some q \<Rightarrow> at q a | None \<Rightarrow> 0) - at p a) (set_impl h p H)"
    (is "heap_bal ?c ?H")
proof (rule heap_balI)
  note inv = heap_bal_inv [OF assms] and r = refs_set_impl [OF heap_bal_inv(2) [OF assms], of h p]
  show "om_inv (allocs ?H)" "om_inv (handles ?H)" using inv by (simp_all add: set_impl_def om_inv_om_set)
  fix a
  show "a < next_addr ?H \<and> 0 < ref_count al \<and> ref_count al < 2 ^ 31 \<and> ref_count al = refs ?H a + ?c a \<and> sizes_ok al"
    if "om_get (allocs ?H) a = Some al" for al
    using heap_bal_live [OF assms, of a al] that r [of a] by (simp add: set_impl_def)
  show "refs ?H a + ?c a = 0" if "om_get (allocs ?H) a = None"
    using heap_bal_dead [OF assms, of a] that r [of a] by (simp add: set_impl_def)
  show "\<not> has_been_shutdown (allocators ?H e) \<and> mTotalAllocated (allocators ?H e) = total_bytes e ?H" for e
    using heap_bal_totals [OF assms, of e] by (simp add: set_impl_def total_bytes_def)
qed

lemma bal_del_handle:
  assumes "heap_bal c H" and "om_get (handles H) h = Some q"
  shows "heap_bal (\<lambda>a. c a + at q a) (H\<lparr>handles := om_del h (handles H)\<rparr>)" (is "heap_bal ?c ?H")
proof (rule heap_balI)
  note inv = heap_bal_inv [OF assms(1)] and r = refs_del [OF heap_bal_inv(2) [OF assms(1)], of h]
  show "om_inv (allocs ?H)" "om_inv (handles ?H)" using inv by (simp_all add: om_inv_om_del)
  fix a
  show "a < next_addr ?H \<and> 0 < ref_count al \<and> ref_count al < 2 ^ 31 \<and> ref_count al = refs ?H a + ?c a \<and> sizes_ok al"
    if "om_get (allocs ?H) a = Some al" for al
    using heap_bal_live [OF assms(1), of a al] that r [of a] assms(2) by simp
  show "refs ?H a + ?c a = 0" if "om_get (allocs ?H) a = None"
    using heap_bal_dead [OF assms(1), of a] that r [of a] assms(2) by simp
  show "\<not> has_been_shutdown (allocators ?H e) \<and> mTotalAllocated (allocators ?H e) = total_bytes e ?H" for e
    using heap_bal_totals [OF assms(1), of e] by (simp add: total_bytes_def)
qed

lemma bal_update:
  assumes "heap_bal c H" and "om_get (allocs H) a = Some al" and "al_eager al' = al_eager al"
    and "allocated_bytes al' = allocated_bytes al" and "0 < ref_count al' \<and> ref_count al' < 2 ^ 31" and "sizes_ok al'"
  shows "heap_bal (c(a := c a + ref_count al' - ref_count al)) (H\<lparr>allocs := om_set a al' (allocs H)\<rparr>)"
    (is "heap_bal ?c ?H")
proof (rule heap_balI)
  note inv = heap_bal_inv [OF assms(1)] and live = heap_bal_live [OF assms(1)]
  have r: "refs ?H = refs H" by (rule refs_cong) simp
  have get: "om_get (allocs ?H) = (om_get (allocs H))(a \<mapsto> al')" by (simp add: om_get_om_set [OF inv(1)])
  show "om_inv (allocs ?H)" "om_inv (handles ?H)" using inv by (simp_all add: om_inv_om_set)
  show "b < next_addr ?H \<and> 0 < ref_count bl \<and> ref_count bl < 2 ^ 31 \<and> ref_count bl = refs ?H b + ?c b \<and> sizes_ok bl"
    if "om_get (allocs ?H) b = Some bl" for b bl
    using that live [OF assms(2)] live [of b bl] assms(5,6) unfolding get r by (auto split: if_splits)
  show "refs ?H b + ?c b = 0" if "om_get (allocs ?H) b = None" for b
    using that heap_bal_dead [OF assms(1), of b] unfolding get r by (auto split: if_splits)
  show "\<not> has_been_shutdown (allocators ?H e) \<and> mTotalAllocated (allocators ?H e) = total_bytes e ?H" for e
    using heap_bal_totals [OF assms(1), of e] total_bytes_set [OF inv(1), of e a al'] assms(2-4)
    by (simp add: alloc_bytes_def)
qed

lemma atomic_int_id: "0 \<le> n \<Longrightarrow> n < 2 ^ 31 \<Longrightarrow> atomic_int n = n"
  by (simp add: atomic_int_def signed_take_bit_int_eq_self)

lemma bal_free:
  assumes "heap_bal c H" and "om_get (allocs H) a = Some al" and "ref_count al = 1"
  shows "\<exists>H'. DecrRef a H = Inr H' \<and> heap_bal (c(a := c a - 1)) H' \<and> handles H' = handles H \<and>
    allocs H' = om_del a (allocs H)"
proof -
  note inv = heap_bal_inv [OF assms(1)] and live = heap_bal_live [OF assms(1)]
  define am where "am = allocators H (al_eager al)"
  define H' where "H' = H\<lparr>allocs := om_del a (allocs H), cleaned := cleaned H @ segment_cleanups al,
    allocators := (allocators H)(al_eager al := am\<lparr>mTotalAllocated := mTotalAllocated am - ucast (allocated_bytes al),
      mTotalUsed := mTotalUsed am - (ucast (allocated_bytes al) - ucast SIZEOF_ALLOCATION)\<rparr>)\<rparr>"
  have run: "DecrRef a H = Inr H'"
    using assms(2,3) inv(1) 
    by (simp add: DecrRef_def Free_def om_get_om_set H'_def am_def Let_def om_del_om_set atomic_int_id)
  have r: "refs H' = refs H" by (rule refs_cong) (simp add: H'_def)
  have get: "om_get (allocs H') = (om_get (allocs H))(a := None)" by (simp add: H'_def om_get_om_del)
  have "heap_bal (c(a := c a - 1)) H'"
  proof (rule heap_balI)
    show "om_inv (allocs H')" "om_inv (handles H')" using inv by (simp_all add: H'_def om_inv_om_del)
    show "b < next_addr H' \<and> 0 < ref_count bl \<and> ref_count bl < 2 ^ 31 \<and> ref_count bl = refs H' b + (c(a := c a - 1)) b \<and> sizes_ok bl"
      if "om_get (allocs H') b = Some bl" for b bl
      using that live [of b bl] unfolding get r by (auto simp: H'_def split: if_splits)
    show "refs H' b + (c(a := c a - 1)) b = 0" if "om_get (allocs H') b = None" for b
      using that heap_bal_dead [OF assms(1), of b] live [OF assms(2)] assms(3) unfolding get r by (auto split: if_splits)
    show "\<not> has_been_shutdown (allocators H' e) \<and> mTotalAllocated (allocators H' e) = total_bytes e H'" for e
      using heap_bal_totals [OF assms(1)] total_bytes_del [OF inv(1), of e a] assms(2)
      by (auto simp: H'_def am_def total_bytes_def alloc_bytes_def)
  qed
  then show ?thesis using run by (simp add: H'_def)
qed

text \<open>Dropping and taking a reference, as the assignment operators do.  What other allocations hold does not
  change.\<close>
definition same_blocks :: "nat set \<Rightarrow> Heap \<Rightarrow> Heap \<Rightarrow> bool" where
  "same_blocks X H H' = (\<forall>b. b \<notin> X \<longrightarrow>
     map_option (\<lambda>al. al\<lparr>ref_count := 0\<rparr>) (om_get (allocs H') b) =
     map_option (\<lambda>al. al\<lparr>ref_count := 0\<rparr>) (om_get (allocs H) b))"

lemma bal_drop_old:
  assumes "heap_bal c H" and "\<And>a. p = Some a \<Longrightarrow> om_get (allocs H) a \<noteq> None"
  obtains H' where "drop_old p H = Inr H'" and "heap_bal (\<lambda>a. c a - at p a) H'" and "handles H' = handles H"
    and "same_blocks {a. p = Some a \<and> refs H a + c a = 1} H H'"
proof (cases p)
  case None
  then show ?thesis using that [of H] assms(1) by (simp add: drop_old_def at_def same_blocks_def)
next
  case (Some a)
  then obtain al where al: "om_get (allocs H) a = Some al" using assms(2) by blast
  note live = heap_bal_live [OF assms(1) al]
  have c: "(\<lambda>b. c b - at (Some a) b) = c(a := c a - 1)" by (auto simp: at_def fun_eq_iff)
  show ?thesis
  proof (cases "ref_count al = 1")
    case True
    then obtain H' where h: "DecrRef a H = Inr H'" "heap_bal (c(a := c a - 1)) H'" "handles H' = handles H"
      "allocs H' = om_del a (allocs H)" using bal_free [OF assms(1) al] by blast
    have "same_blocks {a. p = Some a \<and> refs H a + c a = 1} H H'"
      using h(4) Some live True by (auto simp: same_blocks_def om_get_om_del)
    then show ?thesis using h Some by (intro that [of H']) (simp_all add: drop_old_def c)
  next
    case False
    define al' where "al' = al\<lparr>ref_count := ref_count al - 1\<rparr>"
    have "heap_bal (c(a := c a - 1)) (H\<lparr>allocs := om_set a al' (allocs H)\<rparr>)"
      using bal_update [OF assms(1) al, of al'] live False by (simp add: al'_def sizes_ok_def)
    moreover have "DecrRef a H = Inr (H\<lparr>allocs := om_set a al' (allocs H)\<rparr>)"
      using al live False by (simp add: DecrRef_def al'_def atomic_int_id)
    moreover have "same_blocks {a. p = Some a \<and> refs H a + c a = 1} H (H\<lparr>allocs := om_set a al' (allocs H)\<rparr>)"
      using al by (auto simp: same_blocks_def om_get_om_set [OF heap_bal_inv(1) [OF assms(1)]] al'_def)
    ultimately show ?thesis
      using Some by (intro that [of "H\<lparr>allocs := om_set a al' (allocs H)\<rparr>"]) (simp_all add: drop_old_def c)
  qed
qed

lemma bal_add_new:
  assumes "heap_bal c H" and "\<And>a. p = Some a \<Longrightarrow> om_get (allocs H) a \<noteq> None"
    and "\<And>a. refs H a + c a < 2 ^ 31 - 1"
  obtains H' where "add_new p H = Inr H'" and "heap_bal (\<lambda>a. c a + at p a) H'" and "handles H' = handles H"
    and "same_blocks {} H H'"
proof (cases p)
  case None
  then show ?thesis using that [of H] assms(1) by (simp add: add_new_def at_def same_blocks_def)
next
  case (Some a)
  then obtain al where al: "om_get (allocs H) a = Some al" using assms(2) by blast
  note live = heap_bal_live [OF assms(1) al]
  define al' where "al' = al\<lparr>ref_count := ref_count al + 1\<rparr>"
  have c: "(\<lambda>b. c b + at (Some a) b) = c(a := c a + 1)" by (auto simp: at_def fun_eq_iff)
  have "heap_bal (c(a := c a + 1)) (H\<lparr>allocs := om_set a al' (allocs H)\<rparr>)"
    using bal_update [OF assms(1) al, of al'] live assms(3) [of a] by (simp add: al'_def sizes_ok_def)
  moreover have "IncrRef a H = Inr (H\<lparr>allocs := om_set a al' (allocs H)\<rparr>)"
    using al live assms(3) [of a] by (simp add: IncrRef_def al'_def atomic_int_id)
  moreover have "same_blocks {} H (H\<lparr>allocs := om_set a al' (allocs H)\<rparr>)"
    using al by (auto simp: same_blocks_def om_get_om_set [OF heap_bal_inv(1) [OF assms(1)]] al'_def)
  ultimately show ?thesis
    using Some by (intro that [of "H\<lparr>allocs := om_set a al' (allocs H)\<rparr>"]) (simp_all add: add_new_def c)
qed

text \<open>A new block with its header set, before a handle points at it.\<close>
lemma bal_new_block:
  assumes "heap_bal c H" and "unat cap + 56 < 2 ^ 32"
    and "\<And>al. ref_count (f al) = 1 \<and> al_eager (f al) = al_eager al \<and> allocated_bytes (f al) = allocated_bytes al"
    and "\<And>al. length (al_user al) = unat cap \<Longrightarrow> user_data_segments al = None \<Longrightarrow> sizes_ok (f al)"
  obtains al H1 where "Allocate eager fresh cap H = Inr (next_addr H, H1)"
    and "om_get (allocs H1) (next_addr H) = Some al" and "length (al_user al) = unat cap"
    and "user_data_segments al = None" and "allocated_bytes al = cap + SIZEOF_ALLOCATION"
    and "heap_bal (c(next_addr H := c (next_addr H) + 1))
      (H1\<lparr>allocs := om_set (next_addr H) (f al) (allocs H1)\<rparr>)"
    and "handles H1 = handles H"
    and "same_blocks {next_addr H} H (H1\<lparr>allocs := om_set (next_addr H) (f al) (allocs H1)\<rparr>)"
    and "al = \<lparr>ref_count = 0, al_eager = eager, allocated_bytes = cap + SIZEOF_ALLOCATION, al_padding = 0, al_type = 0,
      meta_bytes = 0, data_bytes = 0, al_user = map fresh [0..<unat cap], user_data_segments = None\<rparr>"
proof -
  let ?a = "next_addr H"
  note inv = heap_bal_inv [OF assms(1)] and live = heap_bal_live [OF assms(1)] and tot = heap_bal_totals [OF assms(1)]
  have size: "unat (cap + SIZEOF_ALLOCATION) = unat cap + 56"
    using assms(2) by (simp add: SIZEOF_ALLOCATION_def unat_add_lem [THEN iffD1])
  have none: "om_get (allocs H) ?a = None" using live [of ?a] by (cases "om_get (allocs H) ?a") auto
  define al where "al = \<lparr>ref_count = 0, al_eager = eager, allocated_bytes = cap + SIZEOF_ALLOCATION, al_padding = 0,
    al_type = 0, meta_bytes = 0, data_bytes = 0,
    al_user = map fresh [0..<unat (cap + SIZEOF_ALLOCATION) - unat SIZEOF_ALLOCATION], user_data_segments = None\<rparr>"
  define am where "am = allocators H eager"
  define H1 where "H1 = H\<lparr>allocs := om_set ?a al (allocs H), next_addr := Suc ?a,
    allocators := (allocators H)(eager := am\<lparr>mTotalAllocated := mTotalAllocated am + ucast (cap + SIZEOF_ALLOCATION),
      mTotalUsed := mTotalUsed am + ucast (cap + SIZEOF_ALLOCATION)\<rparr>)\<rparr>"
  define H2 where "H2 = H1\<lparr>allocs := om_set ?a (f al) (allocs H1)\<rparr>"
  have len: "length (al_user al) = unat cap" using size by (simp add: al_def SIZEOF_ALLOCATION_def)
  have get: "om_get (allocs H2) = (om_get (allocs H))(?a \<mapsto> f al)"
    using inv(1) by (simp add: H2_def H1_def om_get_om_set om_inv_om_set)
  have r: "refs H2 = refs H" by (rule refs_cong) (simp add: H2_def H1_def)
  have no_wrap: "\<not> cap + SIZEOF_ALLOCATION < SIZEOF_ALLOCATION" "\<not> has_been_shutdown am"
    using size tot [of eager] by (simp_all add: word_less_nat_alt SIZEOF_ALLOCATION_def am_def)
  have "heap_bal (c(?a := c ?a + 1)) H2"
  proof (rule heap_balI)
    show "om_inv (allocs H2)" "om_inv (handles H2)" using inv by (simp_all add: H2_def H1_def om_inv_om_set)
    show "b < next_addr H2 \<and> 0 < ref_count bl \<and> ref_count bl < 2 ^ 31 \<and> ref_count bl = refs H2 b + (c(?a := c ?a + 1)) b \<and> sizes_ok bl"
      if "om_get (allocs H2) b = Some bl" for b bl
      using that live [of b bl] heap_bal_dead [OF assms(1) none] assms(3,4) len unfolding get r
      by (auto simp: H2_def H1_def al_def split: if_splits)
    show "refs H2 b + (c(?a := c ?a + 1)) b = 0" if "om_get (allocs H2) b = None" for b
      using that heap_bal_dead [OF assms(1), of b] unfolding get r by (auto split: if_splits)
    have "total_bytes e H2 = total_bytes e H + alloc_bytes e al" for e
      using total_bytes_set [of H1 e ?a "f al"] total_bytes_set [OF inv(1), of e ?a al] none inv(1) assms(3)
      by (simp add: H2_def H1_def om_get_om_set om_inv_om_set total_bytes_def alloc_bytes_def)
    then show "\<not> has_been_shutdown (allocators H2 e) \<and> mTotalAllocated (allocators H2 e) = total_bytes e H2" for e
      using tot by (simp add: H2_def H1_def am_def alloc_bytes_def al_def)
  qed
  moreover have "same_blocks {?a} H H2" by (simp add: same_blocks_def get)
  moreover have "Allocate eager fresh cap H = Inr (?a, H1)"
    using no_wrap by (simp add: Allocate_def Let_def H1_def al_def am_def)
  ultimately show ?thesis
    using len inv(1) size by (intro that [of H1 al]) (simp_all add: H2_def H1_def al_def om_get_om_set SIZEOF_ALLOCATION_def)
qed

section \<open>Programs\<close>

text \<open>The variables an operation writes, and what it leaves in them.\<close>
fun op_targets :: "ldo_op \<Rightarrow> nat set" where
  "op_targets (Null_ctor h) = {h}"
| "op_targets (Alloc_ctor h cap meta data eager tag) = {h}"
| "op_targets (User_ctor h buf meta data cleanup) = {h}"
| "op_targets (Copy_ctor h source) = {h}"
| "op_targets (Move_ctor h source) = {h, source}"
| "op_targets (Copy_assign h source) = {h}"
| "op_targets (Move_assign h source) = {h, source}"
| "op_targets (Deep_copy h source) = {h}"
| "op_targets (Dtor h) = {h}"

definition block_of :: "nat \<Rightarrow> Heap \<Rightarrow> nat option" where
  "block_of h H = (case om_get (handles H) h of Some p \<Rightarrow> p | None \<Rightarrow> None)"

fun op_effect :: "ldo_op \<Rightarrow> Heap \<Rightarrow> Heap \<Rightarrow> bool" where
  "op_effect (Null_ctor h) H H' = (is_handle h H' \<and> view h H' = None)"
| "op_effect (Alloc_ctor h cap meta data eager tag) H H' = (case view h H' of None \<Rightarrow> False
     | Some d \<Rightarrow> do_type d = tag \<and> length (do_meta d) = unat meta \<and> length (do_data d) = unat data \<and>
         do_padding d = ldo_padding meta data)"
| "op_effect (User_ctor h buf meta data cleanup) H H' = (case block_of h H' of None \<Rightarrow> False
     | Some a \<Rightarrow> om_get (allocs H) a = None \<and> om_get (allocs H') a =
         Some \<lparr>ref_count = 1, al_eager = True, allocated_bytes = SIZEOF_ALLOCATION, al_padding = 0, al_type = 0,
           meta_bytes = meta, data_bytes = data, al_user = [], user_data_segments =
             Some [\<lparr>seg_buffer = buf, seg_offset = ucast meta, seg_size = data, seg_cleanup = cleanup\<rparr>]\<rparr>)"
| "op_effect (Copy_ctor h source) H H' = (view h H' = view source H \<and> block_of h H' = block_of source H)"
| "op_effect (Move_ctor h source) H H' = (view h H' = view source H \<and> block_of h H' = block_of source H \<and>
     is_handle source H' \<and> block_of source H' = None)"
| "op_effect (Copy_assign h source) H H' = (view h H' = view source H \<and> block_of h H' = block_of source H)"
| "op_effect (Move_assign h source) H H' = (view h H' = view source H \<and> block_of h H' = block_of source H \<and>
     is_handle source H' \<and> block_of source H' = None)"
| "op_effect (Deep_copy h source) H H' = (view h H' = map_option fresh_copy (view source H) \<and> view h H' \<noteq> None \<and> block_of h H' \<noteq> block_of source H')"
| "op_effect (Dtor h) H H' = (\<not> is_handle h H')"

definition op_good :: "ldo_op \<Rightarrow> Heap \<Rightarrow> Heap \<Rightarrow> bool" where
  "op_good op H H' = (heap_ok H' \<and> op_effect op H H' \<and>
     (\<forall>g. g \<notin> op_targets op \<longrightarrow> view g H' = view g H \<and> block_of g H' = block_of g H))"

lemma view_same:
  assumes "om_get (handles H') g = Some p" and "om_get (handles H) h = Some p" and "same_blocks X H H'"
    and "\<And>a. p = Some a \<Longrightarrow> a \<notin> X"
  shows "view g H' = view h H"
proof (cases p)
  case (Some a)
  have obj: "map_option object_of m = map_option object_of (map_option (\<lambda>al. al\<lparr>ref_count := 0\<rparr>) m)" for m
    by (cases m) (simp_all add: object_of_def)
  have "map_option (\<lambda>al. al\<lparr>ref_count := 0\<rparr>) (om_get (allocs H') a) =
      map_option (\<lambda>al. al\<lparr>ref_count := 0\<rparr>) (om_get (allocs H) a)"
    using assms(3,4) Some unfolding same_blocks_def by blast
  then have "map_option object_of (om_get (allocs H') a) = map_option object_of (om_get (allocs H) a)"
    by (subst (1 2) obj) simp
  then show ?thesis using assms(1,2) Some by (simp add: view_def)
qed (use assms in \<open>simp add: view_def\<close>)

lemma frame:
  assumes "\<And>g. g \<notin> T \<Longrightarrow> om_get (handles H') g = om_get (handles H) g" and "same_blocks X H H'"
    and "\<And>g a. g \<notin> T \<Longrightarrow> om_get (handles H) g = Some (Some a) \<Longrightarrow> a \<notin> X" and "g \<notin> T"
  shows "view g H' = view g H \<and> block_of g H' = block_of g H"
proof (cases "om_get (handles H) g")
  case None
  then show ?thesis using assms(1) [OF assms(4)] by (simp add: view_def block_of_def)
next
  case (Some p)
  then show ?thesis
    using assms(1) [OF assms(4)] view_same [of H' g p H g X] assms(2) assms(3) [OF assms(4)]
    by (simp add: block_of_def)
qed

lemma two_handles:
  assumes "heap_bal c H" and "om_get (handles H) h = Some p" and "om_get (handles H) g = Some q" and "g \<noteq> h"
  shows "at p a + at q a \<le> refs H a"
proof -
  note inv = heap_bal_inv(2) [OF assms(1)]
  have "om_get (handles (set_impl h None H)) g = Some q" using assms(3,4) inv by (simp add: set_impl_def om_get_om_set)
  then have "at q a \<le> refs (set_impl h None H) a" by (rule at_le_refs)
  then show ?thesis using refs_set_impl [OF inv, of h None a] assms(2) by (simp add: at_def)
qed

lemma same_blocks_trans: "same_blocks X H H1 \<Longrightarrow> same_blocks Y H1 H2 \<Longrightarrow> same_blocks (X \<union> Y) H H2"
  by (simp add: same_blocks_def)

lemma same_blocks_allocs: "allocs H' = allocs H \<Longrightarrow> same_blocks X H H'"
  by (simp add: same_blocks_def)

lemma handles_set_impl:
  "om_inv (handles H) \<Longrightarrow> om_get (handles (set_impl h p H)) = (om_get (handles H))(h \<mapsto> p)" "allocs (set_impl h p H) = allocs H"
  by (simp_all add: set_impl_def om_get_om_set)

text \<open>An old reference is given up before the variable is overwritten: no other variable loses its block.\<close>
lemma drop_handle:
  assumes "heap_ok H" and "om_get (handles H) h = Some p"
  obtains H' where "drop_old p H = Inr H'" and "heap_bal (\<lambda>a. - at p a) H'" and "handles H' = handles H"
    and "same_blocks {a. p = Some a \<and> refs H a = 1} H H'"
    and "\<forall>g a. g \<noteq> h \<longrightarrow> om_get (handles H) g = Some (Some a) \<longrightarrow>
      a \<notin> {a. p = Some a \<and> refs H a = 1} \<and> om_get (allocs H') a \<noteq> None"
proof -
  have live: "om_get (allocs H) a \<noteq> None" if "p = Some a" for a
    by (rule handle_live [OF assms(1)]) (use assms(2) that in simp_all)
  obtain H' where H': "drop_old p H = Inr H'" "heap_bal (\<lambda>a. 0 - at p a) H'" "handles H' = handles H"
    "same_blocks {a. p = Some a \<and> refs H a + 0 = 1} H H'"
    by (rule bal_drop_old [OF assms(1) live])
  have other: "a \<notin> {a. p = Some a \<and> refs H a = 1} \<and> om_get (allocs H') a \<noteq> None"
    if "g \<noteq> h" "om_get (handles H) g = Some (Some a)" for g a
  proof -
    have two: "at p a + at (Some a) a \<le> refs H a" by (rule two_handles [OF assms(1,2) that(2,1)])
    have "refs H' a = refs H a" using refs_cong [OF H'(3)] by simp
    then show ?thesis using two heap_bal_dead [OF H'(2), of a] by (auto simp: at_def split: if_splits)
  qed
  show ?thesis using H' other by (intro that [of H']) (simp, simp, simp, simp, blast)
qed

lemma run_Copy_ctor:
  assumes "heap_ok H" and "\<not> is_handle h H" and "is_handle source H" and "can_count H"
  shows "\<exists>H'. DataObject_copy h source H = Inr H' \<and> op_good (Copy_ctor h source) H H'"
proof -
  note inv = heap_bal_inv(2) [OF assms(1)]
  obtain p where p: "om_get (handles H) source = Some p" using assms(3) by (auto simp: is_handle_def)
  have live: "om_get (allocs H) a \<noteq> None" if "p = Some a" for a
    by (rule handle_live [OF assms(1)]) (use p that in simp_all)
  have few: "refs H a + 0 < 2 ^ 31 - 1" for a using refs_le_handles [of H a] assms(4) by (simp add: can_count_def)
  obtain H1 where H1: "add_new p H = Inr H1" "heap_bal (\<lambda>a. 0 + at p a) H1" "handles H1 = handles H" "same_blocks {} H H1"
    by (rule bal_add_new [OF assms(1) live few])
  define H' where "H' = set_impl h p H1"
  have hs: "om_get (handles H') = (om_get (handles H))(h \<mapsto> p)" "allocs H' = allocs H1"
    using handles_set_impl(1) [of H1 h p] inv H1(3) by (simp_all add: H'_def handles_set_impl(2))
  have blocks: "same_blocks {} H H'" using H1(4) hs(2) by (simp add: same_blocks_def)
  have "heap_ok H'"
    using bal_set_impl [OF H1(2), of h p] assms(2) H1(3) by (simp add: H'_def is_handle_def)
  moreover have "view g H' = view g H \<and> block_of g H' = block_of g H" if "g \<notin> {h}" for g
    by (rule frame [OF _ blocks _ that]) (auto simp: hs)
  moreover have "view h H' = view source H \<and> block_of h H' = block_of source H"
    using view_same [of H' h p H source "{}"] blocks hs p by (simp add: block_of_def)
  ultimately have "op_good (Copy_ctor h source) H H'" by (simp add: op_good_def)
  then show ?thesis using p H1(1) by (simp add: DataObject_copy_def impl_of_def H'_def)
qed

lemma run_Copy_assign:
  assumes "heap_ok H" and "h \<noteq> source" and "is_handle h H" and "is_handle source H" and "can_count H"
  shows "\<exists>H'. copy_assign h source H = Inr H' \<and> op_good (Copy_assign h source) H H'"
proof -
  note inv = heap_bal_inv(2) [OF assms(1)]
  obtain old p where old: "om_get (handles H) h = Some old" and p: "om_get (handles H) source = Some p"
    using assms(3,4) by (auto simp: is_handle_def)
  let ?X = "{a. old = Some a \<and> refs H a = 1}"
  obtain H1 where H1: "drop_old old H = Inr H1" "heap_bal (\<lambda>a. - at old a) H1" "handles H1 = handles H"
    "same_blocks ?X H H1"
    and others: "\<forall>g a. g \<noteq> h \<longrightarrow> om_get (handles H) g = Some (Some a) \<longrightarrow> a \<notin> ?X \<and> om_get (allocs H1) a \<noteq> None"
    by (rule drop_handle [OF assms(1) old])
  note other = others [rule_format]
  have live: "om_get (allocs H1) a \<noteq> None" if "p = Some a" for a using other [of source a] p that assms(2) by simp
  have few: "refs H1 a + - at old a < 2 ^ 31 - 1" for a
    using refs_le_handles [of H1 a] assms(5) H1(3) by (simp add: can_count_def at_def)
  obtain H2 where H2: "add_new p H1 = Inr H2" "heap_bal (\<lambda>a. - at old a + at p a) H2" "handles H2 = handles H1"
    "same_blocks {} H1 H2" by (rule bal_add_new [OF H1(2) live few])
  define H' where "H' = set_impl h p H2"
  have hs: "om_get (handles H') = (om_get (handles H))(h \<mapsto> p)" "allocs H' = allocs H2"
    using handles_set_impl(1) [of H2 h p] inv H1(3) H2(3) by (simp_all add: H'_def handles_set_impl(2))
  have blocks: "same_blocks ?X H H'"
    using same_blocks_trans [OF H1(4) H2(4)] hs(2) by (simp add: same_blocks_def)
  have "heap_ok H'"
    using bal_set_impl [OF H2(2), of h p] old H1(3) H2(3) by (simp add: H'_def)
  moreover have "view g H' = view g H \<and> block_of g H' = block_of g H" if "g \<notin> {h}" for g
    by (rule frame [OF _ blocks _ that]) (use other in \<open>auto simp: hs\<close>)
  moreover have "view h H' = view source H \<and> block_of h H' = block_of source H"
    using view_same [of H' h p H source, OF _ p blocks] other [of source] hs p assms(2) by (simp add: block_of_def)
  ultimately have "op_good (Copy_assign h source) H H'" by (simp add: op_good_def)
  then show ?thesis using old p H1 H2 by (simp add: copy_assign_def impl_of_def H'_def)
qed

lemma run_Move_assign:
  assumes "heap_ok H" and "h \<noteq> source" and "is_handle h H" and "is_handle source H"
  shows "\<exists>H'. move_assign h source H = Inr H' \<and> op_good (Move_assign h source) H H'"
proof -
  note inv = heap_bal_inv(2) [OF assms(1)]
  obtain old p where old: "om_get (handles H) h = Some old" and p: "om_get (handles H) source = Some p"
    using assms(3,4) by (auto simp: is_handle_def)
  let ?X = "{a. old = Some a \<and> refs H a = 1}"
  obtain H1 where H1: "drop_old old H = Inr H1" "heap_bal (\<lambda>a. - at old a) H1" "handles H1 = handles H"
    "same_blocks ?X H H1"
    and others: "\<forall>g a. g \<noteq> h \<longrightarrow> om_get (handles H) g = Some (Some a) \<longrightarrow> a \<notin> ?X \<and> om_get (allocs H1) a \<noteq> None"
    by (rule drop_handle [OF assms(1) old])
  note other = others [rule_format]
  define H2 where "H2 = set_impl h p H1"
  define H' where "H' = set_impl source None H2"
  have hs2: "om_get (handles H2) = (om_get (handles H))(h \<mapsto> p)" and inv2: "om_inv (handles H2)"
    using handles_set_impl(1) [of H1 h p] inv H1(3) by (simp_all add: H2_def set_impl_def om_inv_om_set)
  have hs: "om_get (handles H') = (om_get (handles H))(h \<mapsto> p, source \<mapsto> None)" "allocs H' = allocs H1"
    using handles_set_impl(1) [OF inv2, of source None] hs2 by (simp_all add: H'_def H2_def set_impl_def)
  have blocks: "same_blocks ?X H H'" using H1(4) hs(2) by (simp add: same_blocks_def)
  have "heap_bal (\<lambda>a. - at old a + at old a - at p a) H2"
    using bal_set_impl [OF H1(2), of h p] old H1(3) by (simp add: H2_def)
  from bal_set_impl [OF this, of source None] have "heap_ok H'"
    using hs2 p assms(2) by (simp add: H'_def at_def)
  moreover have "view g H' = view g H \<and> block_of g H' = block_of g H" if "g \<notin> {h, source}" for g
    by (rule frame [OF _ blocks _ that]) (use other in \<open>auto simp: hs\<close>)
  moreover have "view h H' = view source H" "block_of source H' = None"
    using view_same [of H' h p H source, OF _ p blocks] other [of source] hs p assms(2) by (simp_all add: block_of_def)
  moreover have "block_of h H' = block_of source H" "is_handle source H'"
    using hs p assms(2) by (simp_all add: block_of_def is_handle_def)
  ultimately have "op_good (Move_assign h source) H H'" by (simp add: op_good_def)
  then show ?thesis using old p H1 by (simp add: move_assign_def impl_of_def H'_def H2_def)
qed

lemma run_Move_ctor:
  assumes "heap_ok H" and "\<not> is_handle h H" and "is_handle source H"
  shows "\<exists>H'. DataObject_move h source H = Inr H' \<and> op_good (Move_ctor h source) H H'"
proof -
  note inv = heap_bal_inv(2) [OF assms(1)]
  obtain p where p: "om_get (handles H) source = Some p" using assms(3) by (auto simp: is_handle_def)
  have neq: "source \<noteq> h" using assms(2,3) by auto
  define H1 where "H1 = set_impl h p H"
  define H' where "H' = set_impl source None H1"
  have hs1: "om_get (handles H1) = (om_get (handles H))(h \<mapsto> p)" and inv1: "om_inv (handles H1)"
    using handles_set_impl(1) [of H h p] inv by (simp_all add: H1_def set_impl_def om_inv_om_set)
  have hs: "om_get (handles H') = (om_get (handles H))(h \<mapsto> p, source \<mapsto> None)" "allocs H' = allocs H"
    using handles_set_impl(1) [OF inv1, of source None] hs1 by (simp_all add: H'_def H1_def set_impl_def)
  have blocks: "same_blocks {} H H'" using hs(2) by (rule same_blocks_allocs)
  have "heap_bal (\<lambda>a. 0 - at p a) H1"
    using bal_set_impl [OF assms(1), of h p] assms(2) by (simp add: H1_def is_handle_def)
  from bal_set_impl [OF this, of source None] have "heap_ok H'" using hs1 p neq by (simp add: H'_def at_def)
  moreover have "view g H' = view g H \<and> block_of g H' = block_of g H" if "g \<notin> {h, source}" for g
    by (rule frame [OF _ blocks _ that]) (auto simp: hs)
  moreover have "view h H' = view source H" "block_of source H' = None"
    using view_same [of H' h p H source, OF _ p blocks] hs p neq by (simp_all add: block_of_def)
  moreover have "block_of h H' = block_of source H" "is_handle source H'"
    using hs p neq by (simp_all add: block_of_def is_handle_def)
  ultimately have "op_good (Move_ctor h source) H H'" by (simp add: op_good_def)
  then show ?thesis using p by (simp add: DataObject_move_def impl_of_def H'_def H1_def)
qed

lemma run_Null_ctor:
  assumes "heap_ok H" and "\<not> is_handle h H"
  shows "op_good (Null_ctor h) H (set_impl h None H)"
proof -
  note hs = handles_set_impl(1) [OF heap_bal_inv(2) [OF assms(1)], of h None]
  have blocks: "same_blocks {} H (set_impl h None H)" by (rule same_blocks_allocs) (rule handles_set_impl(2))
  have "heap_ok (set_impl h None H)"
    using bal_set_impl [OF assms(1), of h None] assms(2) by (simp add: is_handle_def at_def)
  moreover have "view g (set_impl h None H) = view g H \<and> block_of g (set_impl h None H) = block_of g H" if "g \<notin> {h}" for g
    by (rule frame [OF _ blocks _ that]) (auto simp: hs)
  ultimately show ?thesis by (simp add: op_good_def is_handle_def view_def hs)
qed

lemma run_Dtor:
  assumes "heap_ok H" and "is_handle h H"
  shows "\<exists>H'. DataObject_dtor h H = Inr H' \<and> op_good (Dtor h) H H'"
proof -
  obtain p where p: "om_get (handles H) h = Some p" using assms(2) by (auto simp: is_handle_def)
  let ?X = "{a. p = Some a \<and> refs H a = 1}"
  obtain H1 where H1: "drop_old p H = Inr H1" "heap_bal (\<lambda>a. - at p a) H1" "handles H1 = handles H" "same_blocks ?X H H1"
    and others: "\<forall>g a. g \<noteq> h \<longrightarrow> om_get (handles H) g = Some (Some a) \<longrightarrow> a \<notin> ?X \<and> om_get (allocs H1) a \<noteq> None"
    by (rule drop_handle [OF assms(1) p])
  define H' where "H' = H1\<lparr>handles := om_del h (handles H1)\<rparr>"
  have blocks: "same_blocks ?X H H'" using H1(4) by (simp add: same_blocks_def H'_def)
  have "heap_ok H'" using bal_del_handle [OF H1(2), of h p] p H1(3) by (simp add: H'_def)
  moreover have "view g H' = view g H \<and> block_of g H' = block_of g H" if "g \<notin> {h}" for g
    by (rule frame [OF _ blocks _ that]) (use others in \<open>auto simp: H'_def H1(3) om_get_om_del\<close>)
  moreover have "\<not> is_handle h H'" by (simp add: is_handle_def H'_def om_get_om_del)
  ultimately have "op_good (Dtor h) H H'" by (simp add: op_good_def)
  then show ?thesis using p H1(1) by (simp add: DataObject_dtor_def impl_of_def H'_def)
qed

text \<open>A handle on a new block: the block's address is one no handle can hold.\<close>
lemma new_block_handle:
  assumes "heap_ok H" and "heap_bal ((\<lambda>_. 0)(a := 1)) H2" and "handles H2 = handles H"
    and "same_blocks {a} H H2" and "om_get (allocs H) a = None" and "\<And>b. om_get (handles H) h \<noteq> Some (Some b)"
    and "om_get (allocs H2) a = Some al"
  shows "heap_ok (set_impl h (Some a) H2)" and "view h (set_impl h (Some a) H2) = Some (object_of al)"
    and "block_of h (set_impl h (Some a) H2) = Some a"
    and "g \<noteq> h \<Longrightarrow> view g (set_impl h (Some a) H2) = view g H \<and> block_of g (set_impl h (Some a) H2) = block_of g H"
proof -
  note inv = heap_bal_inv(2) [OF assms(1)]
  have hs: "om_get (handles (set_impl h (Some a) H2)) = (om_get (handles H))(h \<mapsto> Some a)"
    using handles_set_impl(1) [of H2 h "Some a"] inv assms(3) by simp
  have null: "(case om_get (handles H2) h of Some q \<Rightarrow> at q b | None \<Rightarrow> 0) = 0" for b
    using assms(3,6) by (cases "om_get (handles H) h") (auto simp: at_def)
  have "(\<lambda>b. ((\<lambda>_. 0)(a := 1)) b + 0 - at (Some a) b) = (\<lambda>_. 0)" by (auto simp: at_def fun_eq_iff)
  then show "heap_ok (set_impl h (Some a) H2)" using bal_set_impl [OF assms(2), of h "Some a"] null by simp
  show "view h (set_impl h (Some a) H2) = Some (object_of al)" "block_of h (set_impl h (Some a) H2) = Some a"
    using assms(7) by (simp_all add: view_def block_of_def hs handles_set_impl(2))
  have blocks: "same_blocks {a} H (set_impl h (Some a) H2)" using assms(4) by (simp add: same_blocks_def handles_set_impl(2))
  have "b \<notin> {a}" if "om_get (handles H) g' = Some (Some b)" for g' b
    using handle_live [OF assms(1) _ that] assms(5) by auto
  then show "g \<noteq> h \<Longrightarrow> view g (set_impl h (Some a) H2) = view g H \<and> block_of g (set_impl h (Some a) H2) = block_of g H"
    using frame [OF _ blocks, of "{h}" g] by (simp add: hs)
qed

lemma next_addr_free: "heap_bal c H \<Longrightarrow> om_get (allocs H) (next_addr H) = None"
  using heap_bal_live [of c H "next_addr H"] by (cases "om_get (allocs H) (next_addr H)") auto

lemma run_Alloc_ctor:
  assumes "heap_ok H" and "\<not> is_handle h H" and "fits meta data cap"
  shows "\<exists>H'. DataObject_alloc h cap meta data eager tag fresh H = Inr H' \<and>
    op_good (Alloc_ctor h cap meta data eager tag) H H'"
proof -
  let ?pad = "ldo_padding meta data" and ?a = "next_addr H"
  let ?f = "setHeader 1 meta data ?pad tag"
  have pad: "unat (cap + ?pad) = unat cap + unat ?pad"
    using ldo_padding_bounds(2) [of meta data] assms(3) by (simp add: fits_def unat_add_lem [THEN iffD1])
  then have room: "unat (cap + ?pad) + 56 < 2 ^ 32"
    using ldo_padding_bounds(2) [of meta data] assms(3) by (simp add: fits_def)
  have sizes: "sizes_ok (?f al)" if "length (al_user al) = unat (cap + ?pad)" for al
    using that pad assms(3) by (simp add: sizes_ok_def setHeader_def fits_def)
  obtain al H1 where H1: "Allocate eager fresh (cap + ?pad) H = Inr (?a, H1)" "om_get (allocs H1) ?a = Some al"
      "length (al_user al) = unat (cap + ?pad)"
    and bal: "heap_bal ((\<lambda>_. 0)(?a := 0 + 1)) (H1\<lparr>allocs := om_set ?a (?f al) (allocs H1)\<rparr>)"
    and hd: "handles H1 = handles H" and blocks: "same_blocks {?a} H (H1\<lparr>allocs := om_set ?a (?f al) (allocs H1)\<rparr>)"
    by (rule bal_new_block [OF assms(1) room, of ?f]) (use sizes in \<open>simp_all add: setHeader_def\<close>)
  define H2 where "H2 = H1\<lparr>allocs := om_set ?a (?f al) (allocs H1)\<rparr>"
  have inv1: "om_inv (allocs H1)"
    using H1(1) heap_bal_inv(1) [OF assms(1)]
    by (auto simp: Allocate_def Let_def split: if_splits intro: om_inv_om_set)
  have get: "om_get (allocs H2) ?a = Some (?f al)" by (simp add: H2_def om_get_om_set [OF inv1])
  note new = new_block_handle [OF assms(1), of ?a H2 h "?f al"]
  have "view h (set_impl h (Some ?a) H2) = Some (object_of (?f al))" "heap_ok (set_impl h (Some ?a) H2)"
    "\<And>g. g \<noteq> h \<Longrightarrow> view g (set_impl h (Some ?a) H2) = view g H \<and> block_of g (set_impl h (Some ?a) H2) = block_of g H"
    using new bal hd blocks get next_addr_free [OF assms(1)] assms(2) by (simp_all add: H2_def is_handle_def)
  moreover have "length (do_meta (object_of (?f al))) = unat meta" "length (do_data (object_of (?f al))) = unat data"
      "do_type (object_of (?f al)) = tag" "do_padding (object_of (?f al)) = ?pad"
    using H1(3) pad assms(3) by (auto simp: object_of_def setHeader_def fits_def min_def)
  ultimately have "op_good (Alloc_ctor h cap meta data eager tag) H (set_impl h (Some ?a) H2)"
    by (simp add: op_good_def)
  moreover have "DataObject_alloc h cap meta data eager tag fresh H = Inr (set_impl h (Some ?a) H2)"
    using H1 assms(3) by (simp add: DataObject_alloc_def Let_def update_alloc_def H2_def fits_def)
  ultimately show ?thesis by blast
qed

lemma run_User_ctor:
  assumes "heap_ok H" and "\<not> is_handle h H"
  shows "\<exists>H'. DataObject_user h buf meta data cleanup fresh H = Inr H' \<and> op_good (User_ctor h buf meta data cleanup) H H'"
proof -
  let ?a = "next_addr H" and ?f = "setHeader 1 0 0 0 0"
  obtain al H1 where H1: "Allocate True fresh 0 H = Inr (?a, H1)" "om_get (allocs H1) ?a = Some al"
      "user_data_segments al = None"
    and fresh: "al = \<lparr>ref_count = 0, al_eager = True, allocated_bytes = 0 + SIZEOF_ALLOCATION, al_padding = 0,
      al_type = 0, meta_bytes = 0, data_bytes = 0, al_user = map fresh [0..<unat (0 :: u32)], user_data_segments = None\<rparr>"
    and bal: "heap_bal ((\<lambda>_. 0)(?a := 0 + 1)) (H1\<lparr>allocs := om_set ?a (?f al) (allocs H1)\<rparr>)"
    and hd: "handles H1 = handles H" and blocks: "same_blocks {?a} H (H1\<lparr>allocs := om_set ?a (?f al) (allocs H1)\<rparr>)"
    by (rule bal_new_block [OF assms(1), of 0 ?f]; (simp add: setHeader_def sizes_ok_def; fail | blast))
  define H2 where "H2 = H1\<lparr>allocs := om_set ?a (?f al) (allocs H1)\<rparr>"
  have inv1: "om_inv (allocs H1)"
    using H1(1) heap_bal_inv(1) [OF assms(1)]
    by (auto simp: Allocate_def Let_def split: if_splits intro: om_inv_om_set)
  have get: "om_get (allocs H2) ?a = Some (?f al)" by (simp add: H2_def om_get_om_set [OF inv1])
  define al' where "al' = (?f al)\<lparr>user_data_segments := Some [\<lparr>seg_buffer = buf, seg_offset = ucast meta, seg_size = data,
    seg_cleanup = cleanup\<rparr>], meta_bytes := ucast (ucast meta :: u32), data_bytes := data\<rparr>"
  define H3 where "H3 = H2\<lparr>allocs := om_set ?a al' (allocs H2)\<rparr>"
  have add: "AddUserDataSegment ?a buf (ucast meta) data cleanup H2 = Inr H3"
    using get H1(3) by (simp add: AddUserDataSegment_def update_alloc_def H3_def al'_def setHeader_def)
  have bal3: "heap_bal ((\<lambda>_. 0)(?a := 1)) H3"
    using bal_update [OF bal [folded H2_def] get, of al'] by (simp add: H3_def al'_def setHeader_def sizes_ok_def)
  have inv2: "om_inv (allocs H2)" using inv1 by (simp add: H2_def om_inv_om_set)
  have blocks3: "same_blocks {?a} H H3"
    using blocks by (simp add: same_blocks_def H3_def om_get_om_set [OF inv2] flip: H2_def)
  have get3: "om_get (allocs H3) ?a = Some al'" by (simp add: H3_def om_get_om_set [OF inv2])
  note new = new_block_handle [OF assms(1) bal3 _ blocks3 next_addr_free [OF assms(1)] _ get3, of h]
  have mm: "ucast (ucast meta :: u32) = meta" by (rule bit_word_eqI) (simp add: bit_simps)
  have "op_effect (User_ctor h buf meta data cleanup) H (set_impl h (Some ?a) H3)"
    using new hd assms(2) get3 next_addr_free [OF assms(1)]
    by (simp add: is_handle_def handles_set_impl(2) al'_def setHeader_def fresh mm H3_def H2_def)
  then have "op_good (User_ctor h buf meta data cleanup) H (set_impl h (Some ?a) H3)"
    using new hd assms(2) by (simp add: op_good_def H3_def H2_def is_handle_def)
  moreover have "DataObject_user h buf meta data cleanup fresh H = Inr (set_impl h (Some ?a) H3)"
    using H1 add by (simp add: DataObject_user_def update_alloc_def H2_def)
  ultimately show ?thesis by blast
qed

text \<open>The copied bytes are the object.\<close>
lemma object_of_copied:
  assumes "unat (meta_bytes src) + unat (data_bytes src) \<le> n" and "n \<le> length (al_user src)"
  shows "object_of ((setHeader 1 (meta_bytes src) (data_bytes src) pad (al_type src) al)
    \<lparr>al_user := take n (al_user src) @ rest\<rparr>) = (object_of src)\<lparr>do_padding := pad\<rparr>"
proof -
  have "take d (drop m (take n xs @ rest)) = take d (drop m xs)" if "m + d \<le> n" "n \<le> length xs" for m d and xs :: "u8 list"
    using that by (simp add: drop_take)
  then show ?thesis using assms by (simp add: object_of_def setHeader_def)
qed

lemma fresh_copy_object_of:
  assumes "unat (meta_bytes src) + unat (data_bytes src) \<le> length (al_user src)"
  shows "(object_of src)\<lparr>do_padding := ldo_padding (meta_bytes src) (data_bytes src)\<rparr> = fresh_copy (object_of src)"
  using assms by (simp add: fresh_copy_def fit_padding_def object_of_def min_absorb2)

text \<open>The first half of a deep copy: the variable gives up its block and is null, and the source is as it
  was.\<close>
lemma deepcopy_release:
  assumes "heap_ok H" and "h \<noteq> source" and "om_get (handles H) h = Some old"
    and "om_get (handles H) source = Some (Some sa)"
  obtains H1 H2 src where "drop_old old H = Inr H1" and "H2 = (if old \<noteq> None then set_impl h None H1 else H1)"
    and "heap_ok H2" and "om_get (handles H2) = (om_get (handles H))(h \<mapsto> None)"
    and "om_get (allocs H2) sa = Some src" and "view source H2 = view source H"
    and "\<forall>g. g \<noteq> h \<longrightarrow> view g H2 = view g H \<and> block_of g H2 = block_of g H"
    and "map_option user_data_segments (om_get (allocs H) sa) = Some (user_data_segments src)"
proof -
  note inv = heap_bal_inv(2) [OF assms(1)]
  let ?X = "{a. old = Some a \<and> refs H a = 1}"
  obtain H1 where H1: "drop_old old H = Inr H1" "heap_bal (\<lambda>a. - at old a) H1" "handles H1 = handles H" "same_blocks ?X H H1"
    and others: "\<forall>g a. g \<noteq> h \<longrightarrow> om_get (handles H) g = Some (Some a) \<longrightarrow> a \<notin> ?X \<and> om_get (allocs H1) a \<noteq> None"
    by (rule drop_handle [OF assms(1,3)])
  define H2 where "H2 = (if old \<noteq> None then set_impl h None H1 else H1)"
  have ok: "heap_ok H2"
    using bal_set_impl [OF H1(2), of h None] H1(2,3) assms(3) by (cases old) (simp_all add: H2_def at_def)
  have hs: "om_get (handles H2) = (om_get (handles H))(h \<mapsto> None)"
    using handles_set_impl(1) [of H1 h None] inv H1(3) assms(3) by (cases old) (auto simp: H2_def fun_upd_idem)
  have al: "allocs H2 = allocs H1" by (simp add: H2_def handles_set_impl(2))
  have blocks: "same_blocks ?X H H2" using H1(4) al by (simp add: same_blocks_def)
  have frame2: "view g H2 = view g H \<and> block_of g H2 = block_of g H" if "g \<notin> {h}" for g
    by (rule frame [OF _ blocks _ that]) (use others in \<open>auto simp: hs\<close>)
  obtain src where src: "om_get (allocs H2) sa = Some src" and out: "sa \<notin> ?X"
    using others assms(2,4) al by fastforce
  have "map_option (\<lambda>al. al\<lparr>ref_count := 0\<rparr>) (om_get (allocs H2) sa) = map_option (\<lambda>al. al\<lparr>ref_count := 0\<rparr>) (om_get (allocs H) sa)"
    using blocks out unfolding same_blocks_def by blast
  then obtain src0 where "om_get (allocs H) sa = Some src0" "src0\<lparr>ref_count := 0\<rparr> = src\<lparr>ref_count := 0\<rparr>"
    using src by (cases "om_get (allocs H) sa") auto
  then have "map_option user_data_segments (om_get (allocs H) sa) = Some (user_data_segments src)"
    by (metis Allocation.select_convs(9) Allocation.surjective Allocation.update_convs(1) option.simps(9))
  then show ?thesis using frame2 [of source] frame2 assms(2) by (intro that [OF H1(1) H2_def ok hs src]) auto
qed

text \<open>The second half: a null variable gets a new block that holds the object of \<^verbatim>\<open>src\<close>.\<close>
lemma deepcopy_allocate:
  assumes "heap_ok H" and "om_get (handles H) h = Some None" and "sizes_ok src" and "user_data_segments src = None"
  obtains a H1 H2 where "unat (ucast (meta_bytes src) + data_bytes src) \<le> length (al_user src)"
    and "Allocate eager fresh (ucast (meta_bytes src) + data_bytes src + ldo_padding (meta_bytes src) (data_bytes src)) H = Inr (a, H1)"
    and "update_alloc a (\<lambda>al. (setHeader 1 (meta_bytes src) (data_bytes src) (ldo_padding (meta_bytes src) (data_bytes src)) (al_type src) al)
      \<lparr>al_user := take (unat (ucast (meta_bytes src) + data_bytes src)) (al_user src) @
        drop (unat (ucast (meta_bytes src) + data_bytes src)) (al_user al)\<rparr>) H1 = Inr H2"
    and "heap_ok (set_impl h (Some a) H2)" and "view h (set_impl h (Some a) H2) = Some (fresh_copy (object_of src))"
    and "block_of h (set_impl h (Some a) H2) = Some a" and "om_get (allocs H) a = None"
    and "\<forall>g. g \<noteq> h \<longrightarrow> view g (set_impl h (Some a) H2) = view g H \<and> block_of g (set_impl h (Some a) H2) = block_of g H"
proof -
  let ?pad = "ldo_padding (meta_bytes src) (data_bytes src)" and ?a = "next_addr H"
  define bytes where "bytes = ucast (meta_bytes src) + data_bytes src"
  let ?f = "\<lambda>al. (setHeader 1 (meta_bytes src) (data_bytes src) ?pad (al_type src) al)
    \<lparr>al_user := take (unat bytes) (al_user src) @ drop (unat bytes) (al_user al)\<rparr>"
  have sz: "unat (meta_bytes src) + unat (data_bytes src) \<le> length (al_user src)"
    "unat (meta_bytes src) + unat (data_bytes src) + 60 < 2 ^ 32"
    using assms(3,4) by (simp_all add: sizes_ok_def)
  have "unat (ucast (meta_bytes src) :: u32) = unat (meta_bytes src)"
    using unsigned_less [of "meta_bytes src", where ?'a = nat] by (simp add: unsigned_ucast_eq take_bit_nat_eq_self)
  then have b: "unat bytes = unat (meta_bytes src) + unat (data_bytes src)"
    using sz(2) by (simp add: bytes_def unat_add_lem [THEN iffD1])
  have cap: "unat (bytes + ?pad) = unat bytes + unat ?pad"
    using ldo_padding_bounds(2) [of "meta_bytes src" "data_bytes src"] sz(2) b by (simp add: unat_add_lem [THEN iffD1])
  have room: "unat (bytes + ?pad) + 56 < 2 ^ 32"
    using cap ldo_padding_bounds(2) [of "meta_bytes src" "data_bytes src"] sz(2) b by simp
  have sizes: "sizes_ok (?f al)" if "length (al_user al) = unat (bytes + ?pad)" for al
    using that sz b cap by (simp add: sizes_ok_def setHeader_def)
  obtain al H1 where H1: "Allocate eager fresh (bytes + ?pad) H = Inr (?a, H1)" "om_get (allocs H1) ?a = Some al"
    and bal: "heap_bal ((\<lambda>_. 0)(?a := 0 + 1)) (H1\<lparr>allocs := om_set ?a (?f al) (allocs H1)\<rparr>)"
    and hd: "handles H1 = handles H" and blocks: "same_blocks {?a} H (H1\<lparr>allocs := om_set ?a (?f al) (allocs H1)\<rparr>)"
    by (rule bal_new_block [OF assms(1) room, of ?f]) (use sizes in \<open>simp_all add: setHeader_def\<close>)
  define H2 where "H2 = H1\<lparr>allocs := om_set ?a (?f al) (allocs H1)\<rparr>"
  have "om_inv (allocs H1)"
    using H1(1) heap_bal_inv(1) [OF assms(1)]
    by (auto simp: Allocate_def Let_def split: if_splits intro: om_inv_om_set)
  then have get: "om_get (allocs H2) ?a = Some (?f al)" by (simp add: H2_def om_get_om_set)
  have obj: "object_of (?f al) = fresh_copy (object_of src)"
    using object_of_copied [of src "unat bytes"] b sz(1) fresh_copy_object_of [OF sz(1)] by simp
  have ne: "om_get (handles H) h \<noteq> Some (Some c)" for c using assms(2) by simp
  note new = new_block_handle [OF assms(1) _ _ _ next_addr_free [OF assms(1)] ne get]
  have upd: "update_alloc ?a ?f H1 = Inr H2" using H1(2) by (simp add: update_alloc_def H2_def)
  show ?thesis
  proof (rule that [OF _ H1(1) [unfolded bytes_def] upd [unfolded bytes_def]])
    show "unat (ucast (meta_bytes src) + data_bytes src) \<le> length (al_user src)" using b sz(1) by (simp add: bytes_def)
  qed (use new bal hd blocks obj next_addr_free [OF assms(1)] in \<open>simp_all add: H2_def\<close>)
qed

lemma run_Deep_copy:
  assumes "heap_ok H" and "h \<noteq> source" and "is_handle h H" and "own_memory source H"
  shows "\<exists>H'. deepcopy h source fresh H = Inr H' \<and> op_good (Deep_copy h source) H H'"
proof -
  obtain old where old: "om_get (handles H) h = Some old" using assms(3) by (auto simp: is_handle_def)
  obtain sa src0 where sa: "om_get (handles H) source = Some (Some sa)" "om_get (allocs H) sa = Some src0"
    "user_data_segments src0 = None"
    using assms(4) by (auto simp: own_memory_def split: option.splits)
  obtain H1 H2 src where H2: "drop_old old H = Inr H1" "H2 = (if old \<noteq> None then set_impl h None H1 else H1)"
    "heap_ok H2" "om_get (handles H2) = (om_get (handles H))(h \<mapsto> None)" "om_get (allocs H2) sa = Some src"
    "view source H2 = view source H" "\<forall>g. g \<noteq> h \<longrightarrow> view g H2 = view g H \<and> block_of g H2 = block_of g H"
    "map_option user_data_segments (om_get (allocs H) sa) = Some (user_data_segments src)"
    by (rule deepcopy_release [OF assms(1,2) old sa(1)])
  have src: "sizes_ok src" "user_data_segments src = None"
    using heap_bal_live [OF H2(3,5)] H2(8) sa by simp_all
  have null: "om_get (handles H2) h = Some None" by (simp add: H2(4))
  obtain a H3 H4 where H4: "unat (ucast (meta_bytes src) + data_bytes src) \<le> length (al_user src)"
    "Allocate (al_eager src) fresh (ucast (meta_bytes src) + data_bytes src + ldo_padding (meta_bytes src) (data_bytes src)) H2 = Inr (a, H3)"
    "update_alloc a (\<lambda>al. (setHeader 1 (meta_bytes src) (data_bytes src) (ldo_padding (meta_bytes src) (data_bytes src)) (al_type src) al)
      \<lparr>al_user := take (unat (ucast (meta_bytes src) + data_bytes src)) (al_user src) @
        drop (unat (ucast (meta_bytes src) + data_bytes src)) (al_user al)\<rparr>) H3 = Inr H4"
    "heap_ok (set_impl h (Some a) H4)" "view h (set_impl h (Some a) H4) = Some (fresh_copy (object_of src))"
    "block_of h (set_impl h (Some a) H4) = Some a" "om_get (allocs H2) a = None"
    "\<forall>g. g \<noteq> h \<longrightarrow> view g (set_impl h (Some a) H4) = view g H2 \<and> block_of g (set_impl h (Some a) H4) = block_of g H2"
    by (rule deepcopy_allocate [OF H2(3) null src])
  have "view source H = Some (object_of src)"
    using H2(4,5,6) sa(1) assms(2) by (simp add: view_def)
  moreover have "block_of source (set_impl h (Some a) H4) = Some sa" "sa \<noteq> a"
    using H4(7,8) H2(5,7) sa(1) assms(2) by (auto simp: block_of_def)
  ultimately have "op_good (Deep_copy h source) H (set_impl h (Some a) H4)"
    using H4 H2(7) by (simp add: op_good_def)
  moreover have "deepcopy h source fresh H = Inr (set_impl h (Some a) H4)"
    using old sa H2(1,2,4,5) H4(1-3) assms(2) by (simp add: deepcopy_def impl_of_def alloc_at_def Let_def)
  ultimately show ?thesis by blast
qed

lemma ldo_run_good: "heap_ok H \<Longrightarrow> op_allowed op H \<Longrightarrow> \<exists>H'. ldo_run fresh op H = Inr H' \<and> op_good op H H'"
  using run_Null_ctor run_Alloc_ctor run_User_ctor run_Copy_ctor run_Move_ctor run_Copy_assign run_Move_assign
    run_Deep_copy run_Dtor
  by (cases op) (simp_all add: DataObject_null_def)

lemma heap_ok_init: "heap_ok Heap_init"
  by (rule heap_balI) (simp_all add: Heap_init_def refs_def total_bytes_def empty_allocator_def)

lemma ldo_reachable_heap_ok: "ldo_reachable H \<Longrightarrow> heap_ok H"
proof (induction rule: ldo_reachable.induct)
  case start
  show ?case by (rule heap_ok_init)
next
  case (step H op fresh H')
  then show ?case using ldo_run_good [of H op fresh] by (auto simp: op_good_def)
qed

section \<open>The properties of the heap\<close>

text \<open>
  C13. In every state a program over handles can reach, each allocation's reference count is positive, within
  32 bits, and the number of handles that point at it, so nothing leaks and no handle points at freed memory;
  and the allocators' \<^verbatim>\<open>mTotalAllocated\<close> are the bytes of the live allocations, as a 64-bit sum.  The programs are those
  of \<^const>\<open>op_allowed\<close>: no variable is assigned to itself, an allocation's size does not wrap 32 bits, and a
  reference is added only while there are fewer than 2^31 - 1 handles.  Nothing is claimed of \<^verbatim>\<open>mTotalUsed\<close>.
\<close>
theorem ldo_counts_exact:
  assumes "ldo_reachable H"
  shows "(case om_get (allocs H) a of
      Some al \<Rightarrow> 0 < ref_count al \<and> ref_count al < 2 ^ 31 \<and> ref_count al = refs H a
    | None \<Rightarrow> refs H a = 0) \<and>
    mTotalAllocated (allocators H e) = total_bytes e H"
  using heap_bal_live [OF ldo_reachable_heap_ok [OF assms], of a] heap_bal_dead [OF ldo_reachable_heap_ok [OF assms], of a]
    heap_bal_totals [OF ldo_reachable_heap_ok [OF assms]]
  by (cases "om_get (allocs H) a") simp_all

fun ldo_run_all :: "ldo_op list \<Rightarrow> Heap \<Rightarrow> Heap option" where
  "ldo_run_all [] H = Some H"
| "ldo_run_all (op # ops) H = (if op_allowed op H then (case ldo_run (\<lambda>_. 0) op H of
     Inr H' \<Rightarrow> ldo_run_all ops H' | Inl e \<Rightarrow> None) else None)"

lemma ldo_run_all_reachable: "ldo_run_all ops H = Some H' \<Longrightarrow> ldo_reachable H \<Longrightarrow> ldo_reachable H'"
  by (induction ops H rule: ldo_run_all.induct) (auto split: if_splits sum.splits intro: ldo_reachable.step)

definition demo_heap_ops :: "ldo_op list" where
  "demo_heap_ops = [Alloc_ctor 0 8 2 6 True 7, Copy_ctor 1 0, Null_ctor 2, Deep_copy 2 1, Dtor 0]"

definition demo_heap :: Heap where
  "demo_heap = (case ldo_run_all demo_heap_ops Heap_init of Some H \<Rightarrow> H | None \<Rightarrow> Heap_init)"

lemma demo_heap_reachable: "ldo_reachable demo_heap"
  using ldo_run_all_reachable [OF _ ldo_reachable.start, of demo_heap_ops]
  by (auto simp: demo_heap_def ldo_reachable.start split: option.split)

theorem ldo_counts_exact_witness:
  "ldo_reachable demo_heap \<and> map (\<lambda>(a, al). ref_count al) (allocs demo_heap) = [1, 1] \<and>
   mTotalAllocated (allocators demo_heap True) = total_bytes True demo_heap \<and> total_bytes True demo_heap = 136"
proof -
  have "map (\<lambda>(a, al). ref_count al) (allocs demo_heap) = [1, 1]" "total_bytes True demo_heap = 136" by code_simp+
  then show ?thesis using ldo_counts_exact [OF demo_heap_reachable, of 0 True] demo_heap_reachable by simp
qed

text \<open>
  C14. Every allowed operation on a consistent heap returns and leaves a consistent heap.  Copying and
  assigning make the variable show the source's object through the same block, moving takes the block and
  empties the source, a deep copy shows an equal object, with the padding of its size, in a block of its own, a
  new object has the requested type and section sizes and their padding, an object over user memory is a new
  header-only block with count one, the given section sizes and exactly one segment, for the given memory, and a
  destroyed variable is gone; the object and the block of every other variable are unchanged.  Allowed
  excludes assigning a variable to itself, sizes that wrap 32 bits and more handles than a count can express.
\<close>
theorem ldo_operations:
  assumes "heap_ok H" and "op_allowed op H"
  shows "case ldo_run fresh op H of Inl _ \<Rightarrow> False
    | Inr H' \<Rightarrow> heap_ok H' \<and> op_effect op H H' \<and>
        (\<forall>g. g \<notin> op_targets op \<longrightarrow> view g H' = view g H \<and> block_of g H' = block_of g H)"
  using ldo_run_good [OF assms, of fresh] by (auto simp: op_good_def)

theorem ldo_operations_witness:
  "heap_ok demo_heap \<and> op_allowed (Copy_assign 2 1) demo_heap \<and>
   (case ldo_run (\<lambda>_. 0) (Copy_assign 2 1) demo_heap of Inl _ \<Rightarrow> False | Inr H' \<Rightarrow> heap_ok H' \<and> view 2 H' = view 1 demo_heap)"
proof -
  have "op_allowed (Copy_assign 2 1) demo_heap" by code_simp
  then show ?thesis
    using ldo_operations [OF ldo_reachable_heap_ok [OF demo_heap_reachable], of "Copy_assign 2 1" "\<lambda>_. 0"]
      ldo_reachable_heap_ok [OF demo_heap_reachable]
    by (auto split: sum.splits)
qed

text \<open>
  Assigning a data object to itself when it is the only reference frees the allocation and then
  increments the count in the freed block; with another reference it does nothing.
\<close>
theorem self_assignment:
  assumes "heap_ok H" and "om_get (handles H) h = Some (Some a)"
  shows "copy_assign h h H = (if refs H a = 1 then Inl Undefined_behaviour else Inr H)"
proof -
  note inv = heap_bal_inv [OF assms(1)]
  obtain al where al: "om_get (allocs H) a = Some al" using handle_live [OF assms(1) _ assms(2)] by auto
  note live = heap_bal_live [OF assms(1) al]
  show ?thesis
  proof (cases "refs H a = 1")
    case True
    then obtain H1 where "DecrRef a H = Inr H1" "handles H1 = handles H" "allocs H1 = om_del a (allocs H)"
      using bal_free [OF assms(1) al] live by auto
    then show ?thesis
      using True assms(2) by (simp add: copy_assign_def impl_of_def drop_old_def add_new_def IncrRef_def om_get_om_del)
  next
    case False
    have cnt: "atomic_int (ref_count al) = ref_count al" using live by (simp add: atomic_int_id)
    define H1 where "H1 = H\<lparr>allocs := om_set a (al\<lparr>ref_count := ref_count al - 1\<rparr>) (allocs H)\<rparr>"
    have "DecrRef a H = Inr H1" using al live False by (simp add: DecrRef_def H1_def atomic_int_id)
    moreover have "IncrRef a H1 = Inr (H\<lparr>allocs := om_set a al (allocs H)\<rparr>)"
      using inv(1) cnt by (simp add: IncrRef_def H1_def om_get_om_set om_set_twice)
    moreover have "om_set a al (allocs H) = allocs H" by (rule om_set_same [OF inv(1) al])
    moreover have "om_set h (Some a) (handles H) = handles H" by (rule om_set_same [OF inv(2) assms(2)])
    moreover have "impl_of h H1 = Inr (Some a)" using assms(2) by (simp add: impl_of_def H1_def)
    ultimately show ?thesis
      using False assms(2) by (simp add: copy_assign_def impl_of_def [of h H] drop_old_def add_new_def set_impl_def)
  qed
qed

theorem self_assignment_witness:
  "heap_ok demo_heap \<and> om_get (handles demo_heap) 1 = Some (Some 0) \<and> copy_assign 1 1 demo_heap = Inl Undefined_behaviour"
proof -
  have "om_get (handles demo_heap) 1 = Some (Some 0)" "refs demo_heap 0 = 1" by code_simp+
  then show ?thesis
    using self_assignment [OF ldo_reachable_heap_ok [OF demo_heap_reachable], of 1 0]
      ldo_reachable_heap_ok [OF demo_heap_reachable] by simp
qed

text \<open>
  A data object over user memory cannot be read: the segment is created with the data capacity as its
  size, and the data pointer is given out only if that size is larger than the meta and data sections
  together, so asking for the data pointer of such an object always fails the assertion.
\<close>
theorem user_object_has_no_data_pointer:
  assumes "heap_ok H" and "unat meta + unat data < 2 ^ 32"
  shows "case DataObject_user h buf meta data cleanup fresh H of Inl _ \<Rightarrow> False
    | Inr H' \<Rightarrow> GetDataPtr h H' = Inl Assert_failed"
proof -
  note inv = heap_bal_inv [OF assms(1)]
  have mm: "ucast (ucast meta :: u32) = meta" by (rule bit_word_eqI) (simp add: bit_simps)
  have "unat (ucast meta :: u32) = unat meta"
    using unsigned_less [of meta, where ?'a = nat] by (simp add: unsigned_ucast_eq take_bit_nat_eq_self)
  then have "unat (ucast meta + data) = unat meta + unat data"
    using assms(2) by (simp add: unat_add_lem [THEN iffD1])
  then have small: "\<not> data > ucast meta + data" by (simp add: word_less_nat_alt)
  show ?thesis
    using heap_bal_totals [OF assms(1), of True] small
    by (simp add: DataObject_user_def Allocate_def Let_def update_alloc_def AddUserDataSegment_def setHeader_def
        om_get_om_set om_inv_om_set inv GetDataPtr_def impl_of_def alloc_at_def set_impl_def mm)
qed

theorem user_object_has_no_data_pointer_witness:
  "heap_ok Heap_init \<and> (case DataObject_user 0 99 4 16 True (\<lambda>_. 0) Heap_init of Inl _ \<Rightarrow> False
     | Inr H' \<Rightarrow> GetDataPtr 0 H' = Inl Assert_failed)"
  using user_object_has_no_data_pointer [OF heap_ok_init, of 4 16 0 99 True "\<lambda>_. 0"] heap_ok_init
  by simp

text \<open>
  The capacity check of the constructor is done in 64 bits, but the padding is added in 32: a request for
  a capacity that passes the check and lies within the padding of 4 GiB wraps, and the object is created on
  a block whose user section has fewer than four bytes while its header claims the full sizes.
\<close>
theorem padded_capacity_wraps:
  assumes "heap_ok H" and "unat meta + unat data \<le> unat cap" and "2 ^ 32 \<le> unat cap + unat (ldo_padding meta data)"
  shows "case DataObject_alloc h cap meta data eager tag fresh H of Inl _ \<Rightarrow> False
    | Inr H' \<Rightarrow> (case block_of h H' of None \<Rightarrow> False | Some a \<Rightarrow> (case om_get (allocs H') a of None \<Rightarrow> False
        | Some al \<Rightarrow> length (al_user al) < 4 \<and> meta_bytes al = meta \<and> data_bytes al = data))"
proof -
  note inv = heap_bal_inv [OF assms(1)]
  let ?c = "cap + ldo_padding meta data"
  have small: "unat ?c < 4"
  proof -
    have "unat ?c = (unat cap + unat (ldo_padding meta data)) mod 2 ^ 32" by (simp add: unat_word_ariths)
    also have "\<dots> = unat cap + unat (ldo_padding meta data) - 2 ^ 32"
      using assms(3) unsigned_less [of cap, where ?'a = nat] ldo_padding_bounds(2) [of meta data]
      by (simp add: mod_if)
    finally show ?thesis
      using unsigned_less [of cap, where ?'a = nat] ldo_padding_bounds(2) [of meta data] by simp
  qed
  have size: "unat (?c + SIZEOF_ALLOCATION) = unat ?c + 56"
    using small by (simp add: SIZEOF_ALLOCATION_def unat_add_lem [THEN iffD1])
  have ok: "\<not> ?c + SIZEOF_ALLOCATION < SIZEOF_ALLOCATION"
    using size by (simp add: word_less_nat_alt SIZEOF_ALLOCATION_def)
  show ?thesis
    using heap_bal_totals [OF assms(1), of eager] small size ok assms(2)
    by (simp add: DataObject_alloc_def Allocate_def Let_def update_alloc_def setHeader_def om_get_om_set om_inv_om_set
        inv block_of_def set_impl_def SIZEOF_ALLOCATION_def)
qed

theorem padded_capacity_wraps_witness:
  "heap_ok Heap_init \<and> (case DataObject_alloc 0 0xFFFFFFFF 0 0xFFFFFFFF True 0 (\<lambda>_. 0) Heap_init of Inl _ \<Rightarrow> False
     | Inr H' \<Rightarrow> (case block_of 0 H' of None \<Rightarrow> False | Some a \<Rightarrow> (case om_get (allocs H') a of None \<Rightarrow> False
        | Some al \<Rightarrow> length (al_user al) < 4 \<and> data_bytes al = 0xFFFFFFFF)))"
proof -
  have pad: "ldo_padding 0 0xFFFFFFFF = 1" by code_simp
  have "unat (0xFFFFFFFF :: u32) = 0xFFFFFFFF" by simp
  then show ?thesis
    using padded_capacity_wraps [OF heap_ok_init, of 0 "0xFFFFFFFF" "0xFFFFFFFF" 0 True 0 "\<lambda>_. 0"] heap_ok_init pad
    by (auto split: sum.splits option.splits)
qed

end
