(* ===== verification/Iom_Posix.thy ===== *)
theory Iom_Posix
  imports Kelpie_Types Lunasa_Heap "HOL-Library.Multiset"
begin

text \<open>
  The I/O modules of kelpie: the operations every module inherits (\<^verbatim>\<open>kelpie/ioms/IomBase.cpp\<close>)
  and the module that keeps one file per object (\<^verbatim>\<open>kelpie/ioms/IomPosixIndividualObjects.cpp\<close>).
  The files under the module's path are a map from path to contents.  The operating system is a
  parameter: whether a directory can be used at an attempt, what a write leaves in a file, the order
  in which a directory is read.  The contract of a store of objects is the locale \<open>object_store\<close>; the
  batch operations are verified against it once and it is interpreted on the posix module.
\<close>

section \<open>The environment\<close>

text \<open>
  The numbered attempts are the iterations of the retry loops.  \<open>stat_dir\<close> is \<^term>\<open>None\<close> when the path does
  not exist and otherwise says whether it is a directory.  \<open>written\<close> is \<^term>\<open>None\<close> when the file cannot be
  opened and otherwise the bytes that reach it.
\<close>
record posix_env =
  env_var :: "string \<Rightarrow> string option"
  stat_dir :: "string \<Rightarrow> nat \<Rightarrow> bool option"
  access_w :: "string \<Rightarrow> nat \<Rightarrow> bool"
  mkdir_ok :: "string \<Rightarrow> nat \<Rightarrow> bool"
  opendir_ok :: "string \<Rightarrow> bool"
  written :: "string \<Rightarrow> u8 list \<Rightarrow> u8 list option"
  readdir_order :: "string list \<Rightarrow> string list"
  fresh_byte :: "nat \<Rightarrow> u8"

section \<open>The base module\<close>

record Iom =
  iom_settings :: "(string, string) omap"
  iom_name :: string
  stat_wr_requests :: u32
  stat_wr_bytes :: u32
  stat_rd_requests :: u32
  stat_rd_bytes :: u32
  stat_rd_hits :: u32
  stat_rd_misses :: u32

fun keep_settings :: "string list \<Rightarrow> (string, string) omap \<Rightarrow> (string, string) omap \<Rightarrow> (string, string) omap" where
  "keep_settings [] new_settings acc = acc"
| "keep_settings (s # names) new_settings acc =
     keep_settings names new_settings
       (case om_get new_settings s of Some v \<Rightarrow> om_set s v acc | None \<Rightarrow> acc)"

definition IomBase_ctor :: "string \<Rightarrow> (string, string) omap \<Rightarrow> string list \<Rightarrow> Iom" where
  "IomBase_ctor name new_settings valid_settings =
     \<lparr>iom_settings = keep_settings valid_settings new_settings [], iom_name = name,
      stat_wr_requests = 0, stat_wr_bytes = 0, stat_rd_requests = 0, stat_rd_bytes = 0,
      stat_rd_hits = 0, stat_rd_misses = 0\<rparr>"

definition iom_Setting :: "string \<Rightarrow> 'a Iom_scheme \<Rightarrow> string" where
  "iom_Setting setting_name s = (case om_get (iom_settings s) (ToLowercase setting_name) of
     None \<Rightarrow> [] | Some v \<Rightarrow> v)"

text \<open>The batch operations call the module's own single-object operations.\<close>

fun iom_GetInfos :: "(bucket_t \<Rightarrow> key \<Rightarrow> 's \<Rightarrow> (rc_t \<times> object_info_t) result) \<Rightarrow>
    bucket_t \<Rightarrow> key list \<Rightarrow> rc_t \<Rightarrow> object_info_t list option \<Rightarrow> 's \<Rightarrow> (rc_t \<times> object_info_t list option) result" where
  "iom_GetInfos gi bucket [] rc infos s = Inr (rc, infos)"
| "iom_GetInfos gi bucket (k # keys) rc infos s =
     rbind (gi bucket k s) (\<lambda>(rc2, info).
       iom_GetInfos gi bucket keys (if rc2 \<noteq> KELPIE_OK then rc2 else rc)
         (map_option (\<lambda>l. l @ [info]) infos) s)"

fun iom_WriteObjects :: "(bucket_t \<Rightarrow> key \<Rightarrow> ldo \<Rightarrow> 's \<Rightarrow> (rc_t \<times> 's) result) \<Rightarrow>
    bucket_t \<Rightarrow> (key \<times> ldo) list \<Rightarrow> 's \<Rightarrow> 's result" where
  "iom_WriteObjects wr bucket [] s = Inr s"
| "iom_WriteObjects wr bucket ((k, v) # items) s =
     rbind (wr bucket k v s) (\<lambda>(_, s'). iom_WriteObjects wr bucket items s')"

text \<open>The two result vectors are pointers that may be null.\<close>

fun iom_ReadObjects :: "(bucket_t \<Rightarrow> key \<Rightarrow> ldo option \<Rightarrow> 's \<Rightarrow> (rc_t \<times> ldo option \<times> 's) result) \<Rightarrow>
    bucket_t \<Rightarrow> key list \<Rightarrow> rc_t \<Rightarrow> (key \<times> ldo) list option \<Rightarrow> key list option \<Rightarrow> 's \<Rightarrow>
    (rc_t \<times> (key \<times> ldo) list option \<times> key list option \<times> 's) result" where
  "iom_ReadObjects rd bucket [] return_rc found_objects missing_keys s =
     Inr (return_rc, found_objects, missing_keys, s)"
| "iom_ReadObjects rd bucket (k # keys) return_rc found_objects missing_keys s =
     rbind (rd bucket k (Some None) s) (\<lambda>(rc, p, s').
       if rc = KELPIE_OK
       then iom_ReadObjects rd bucket keys return_rc
              (map_option (\<lambda>l. l @ [(k, case p of Some x \<Rightarrow> x | None \<Rightarrow> None)]) found_objects) missing_keys s'
       else iom_ReadObjects rd bucket keys KELPIE_RECHECK found_objects
              (map_option (\<lambda>l. l @ [k]) missing_keys) s')"

definition iom_ListObjects_default :: "bucket_t \<Rightarrow> key \<Rightarrow> ObjectCapacities \<Rightarrow> rc_t \<times> ObjectCapacities" where
  "iom_ListObjects_default bucket key oc = (KELPIE_ENOENT, oc)"

section \<open>The posix module\<close>

record Pio = Iom +
  pio_path :: string
  pio_files :: "(string, u8 list) omap"

fun pio_make_dir :: "posix_env \<Rightarrow> string \<Rightarrow> nat \<Rightarrow> nat \<Rightarrow> unit result" where
  "pio_make_dir env path i 0 = Inl Runtime_error"
| "pio_make_dir env path i (Suc n) =
     (case stat_dir env path i of
        Some is_dir \<Rightarrow> if \<not> is_dir then Inl Runtime_error
                       else if \<not> access_w env path i then Inl Runtime_error else Inr ()
      | None \<Rightarrow> if mkdir_ok env path i then Inr () else pio_make_dir env path (Suc i) n)"

text \<open>\<open>files\<close> is what the file system holds when the module is made.\<close>

definition pio_ctor :: "posix_env \<Rightarrow> (string, u8 list) omap \<Rightarrow> string \<Rightarrow> (string, string) omap \<Rightarrow> Pio result" where
  "pio_ctor env files name new_settings =
     (let base = IomBase_ctor name new_settings [''path'', ''path.env_name''];
          path = GetPathFromComponentSettings (env_var env) (iom_settings base)
      in if path = [] then Inl Runtime_error
         else rbind (pio_make_dir env path 0 3) (\<lambda>_.
           Inr (Iom.extend base \<lparr>pio_path = path, pio_files = files\<rparr>)))"

fun bucket_path_loop :: "posix_env \<Rightarrow> string \<Rightarrow> nat \<Rightarrow> nat \<Rightarrow> string result" where
  "bucket_path_loop env bucket_path i 0 = Inl Runtime_error"
| "bucket_path_loop env bucket_path i (Suc n) =
     (if access_w env bucket_path i then Inr bucket_path
      else if mkdir_ok env bucket_path i then Inr bucket_path
      else bucket_path_loop env bucket_path (Suc i) n)"

definition genBucketPath :: "posix_env \<Rightarrow> bucket_t \<Rightarrow> Pio \<Rightarrow> string result" where
  "genBucketPath env bucket s = bucket_path_loop env (pio_path s @ Bucket_GetHex bucket @ ''/'') 0 5"

definition genBucketPathFile :: "posix_env \<Rightarrow> bucket_t \<Rightarrow> key \<Rightarrow> Pio \<Rightarrow> string result" where
  "genBucketPathFile env bucket key s =
     rbind (genBucketPath env bucket s) (\<lambda>p. rbind (pup_pack key) (\<lambda>packed. Inr (p @ MakePunycode packed)))"

text \<open>The path after its last slash.\<close>

function path_basename :: "string \<Rightarrow> string" where
  "path_basename path = (case break_at CHR ''/'' path of None \<Rightarrow> path | Some (_, rest) \<Rightarrow> path_basename rest)"
  by pat_completeness auto
termination
  by (relation "measure length") (auto dest: break_at_length)

declare path_basename.simps [simp del]

definition getKeyFromBucketPathFile :: "string \<Rightarrow> key result" where
  "getKeyFromBucketPathFile path = pup_unpack (ExpandPunycode (path_basename path))"

definition pio_GetInfo :: "posix_env \<Rightarrow> bucket_t \<Rightarrow> key \<Rightarrow> Pio \<Rightarrow> (rc_t \<times> object_info_t) result" where
  "pio_GetInfo env bucket key s =
     rbind (genBucketPathFile env bucket key s) (\<lambda>fname.
       Inr (case om_get (pio_files s) fname of
         Some bs \<Rightarrow> (KELPIE_OK, Wipe_info\<lparr>col_user_bytes := word_of_nat (length bs) - ucast GetHeaderSize,
                                         col_availability := InDisk\<rparr>)
       | None \<Rightarrow> (KELPIE_ENOENT, Wipe_info\<lparr>col_availability := Unavailable\<rparr>)))"

text \<open>\<^verbatim>\<open>writeToFile\<close> returns 0 whatever happened to the file.\<close>

definition writeToFile_rc :: u32 where
  "writeToFile_rc = 0"

definition pio_WriteObject :: "posix_env \<Rightarrow> bucket_t \<Rightarrow> key \<Rightarrow> ldo \<Rightarrow> Pio \<Rightarrow> (rc_t \<times> Pio) result" where
  "pio_WriteObject env bucket key x s =
     rbind (genBucketPathFile env bucket key s) (\<lambda>fname.
     rbind (writeToFile x) (\<lambda>image.
       let s1 = (case written env fname image of
                   Some bs \<Rightarrow> s\<lparr>pio_files := om_set fname bs (pio_files s)\<rparr>
                 | None \<Rightarrow> s);
           s2 = s1\<lparr>stat_wr_requests := stat_wr_requests s1 + 1,
                   stat_wr_bytes := stat_wr_bytes s1 + GetWireSize x\<rparr>
       in Inr (if writeToFile_rc = 0 then KELPIE_OK else KELPIE_EIO, s2)))"

text \<open>
  The object a file is read into: no meta section and a data section of the size of the file, with
  whatever bytes the allocator returns.  A size that wraps when it is padded gives an allocation
  smaller than the object (\<open>Lunasa_Heap\<close>), and reading into it is undefined.
\<close>
definition read_target :: "posix_env \<Rightarrow> nat \<Rightarrow> ldo result" where
  "read_target env st_size =
     (let data_capacity = word_of_nat st_size :: u32 in
      if unat data_capacity + unat (ldo_padding 0 data_capacity) \<ge> 2 ^ 32 then Inl Undefined_behaviour
      else Inr (Some \<lparr>do_type = 0, do_meta = [], do_data = map (fresh_byte env) [0..<unat data_capacity],
             do_padding = ldo_padding 0 data_capacity\<rparr>))"

definition pio_ReadObject ::
  "posix_env \<Rightarrow> bucket_t \<Rightarrow> key \<Rightarrow> ldo option \<Rightarrow> Pio \<Rightarrow> (rc_t \<times> ldo option \<times> Pio) result" where
  "pio_ReadObject env bucket key p s0 =
     rbind (genBucketPathFile env bucket key s0) (\<lambda>fname.
     let s = s0\<lparr>stat_rd_requests := stat_rd_requests s0 + 1\<rparr> in
     case om_get (pio_files s) fname of
       Some bs \<Rightarrow>
         rbind (case p of
                  None \<Rightarrow> Inr None
                | Some _ \<Rightarrow> rbind (read_target env (length bs)) (\<lambda>t.
                             rbind (readFromFile bs t) (\<lambda>x. Inr (Some x)))) (\<lambda>p'.
         Inr (KELPIE_OK, p', s\<lparr>stat_rd_bytes := stat_rd_bytes s + word_of_nat (length bs),
                              stat_rd_hits := stat_rd_hits s + 1\<rparr>))
     | None \<Rightarrow> Inr (KELPIE_ENOENT, p, s))"

text \<open>The entries of a directory: the two dots and the files directly below it.\<close>

definition dir_entries :: "string \<Rightarrow> (string, u8 list) omap \<Rightarrow> string list" where
  "dir_entries p files = ''.'' # ''..'' #
     map (drop (length p)) (filter (\<lambda>f. prefix p f \<and> CHR ''/'' \<notin> set (drop (length p) f)) (om_keys files))"

fun list_objects_loop :: "bool \<Rightarrow> string \<Rightarrow> bool \<Rightarrow> string \<Rightarrow> string \<Rightarrow> (string, u8 list) omap \<Rightarrow>
    string list \<Rightarrow> ObjectCapacities \<Rightarrow> ObjectCapacities result" where
  "list_objects_loop k1_is_wild k1 k2_is_wild k2 bucket_path files [] oc = Inr oc"
| "list_objects_loop k1_is_wild k1 k2_is_wild k2 bucket_path files (name # names) oc =
     rbind
       (if name = ''.'' \<or> name = ''..'' then Inr oc
        else case om_get files (bucket_path @ name) of
          None \<Rightarrow> Inr oc
        | Some bs \<Rightarrow> rbind (pup_unpack (ExpandPunycode name)) (\<lambda>key.
            Inr (if matchesPrefixString key k1_is_wild k1 k2_is_wild k2
                 then oc_Append key (word_of_nat (length bs)) oc else oc)))
       (list_objects_loop k1_is_wild k1 k2_is_wild k2 bucket_path files names)"

definition pio_ListObjects ::
  "posix_env \<Rightarrow> bucket_t \<Rightarrow> key \<Rightarrow> ObjectCapacities \<Rightarrow> Pio \<Rightarrow> (rc_t \<times> ObjectCapacities) result" where
  "pio_ListObjects env bucket key oc s =
     (let k1_is_wild = IsRowWildcard key;
          k2_is_wild = IsColWildcard key;
          k1 = (if k1_is_wild then take (length (K1 key) - 1) (K1 key) else K1 key);
          k2 = (if k2_is_wild then take (length (K2 key) - 1) (K2 key) else K2 key)
      in rbind (genBucketPath env bucket s) (\<lambda>bucket_path.
         rbind (if opendir_ok env bucket_path
                then list_objects_loop k1_is_wild k1 k2_is_wild k2 bucket_path (pio_files s)
                       (readdir_order env (dir_entries bucket_path (pio_files s))) oc
                else Inr oc) (\<lambda>oc'. Inr (KELPIE_OK, oc'))))"

section \<open>The contract of an object store\<close>

text \<open>
  What a client of an I/O module relies on: a write is what a later read of the same bucket and key
  returns, in an allocation of its size, nothing else changes, and a read changes nothing.  The batch operations follow.
\<close>
locale object_store =
  fixes wr :: "bucket_t \<Rightarrow> key \<Rightarrow> ldo \<Rightarrow> 's \<Rightarrow> (rc_t \<times> 's) result"
    and rd :: "bucket_t \<Rightarrow> key \<Rightarrow> ldo option \<Rightarrow> 's \<Rightarrow> (rc_t \<times> ldo option \<times> 's) result"
    and stored :: "'s \<Rightarrow> bucket_t \<Rightarrow> key \<Rightarrow> dataobject option"
    and ok :: "'s \<Rightarrow> bool"
    and key_ok :: "key \<Rightarrow> bool"
    and obj_ok :: "dataobject \<Rightarrow> bool"
  assumes wr_stores: "ok s \<Longrightarrow> key_ok k \<Longrightarrow> obj_ok d \<Longrightarrow>
      \<exists>s'. wr b k (Some d) s = Inr (KELPIE_OK, s') \<and> ok s' \<and> stored s' = (stored s)(b := (stored s b)(k \<mapsto> fresh_copy d))"
    and rd_returns: "ok s \<Longrightarrow> key_ok k \<Longrightarrow>
      \<exists>s'. rd b k (Some x) s = Inr (case stored s b k of Some d \<Rightarrow> (KELPIE_OK, Some (Some d), s')
                                                       | None \<Rightarrow> (KELPIE_ENOENT, Some x, s'))
        \<and> ok s' \<and> stored s' = stored s"
begin

lemma write_all:
  "ok s \<Longrightarrow> list_all (\<lambda>(k, d). key_ok k \<and> obj_ok d) items \<Longrightarrow>
   \<exists>s'. iom_WriteObjects wr b (map (\<lambda>(k, d). (k, Some d)) items) s = Inr s' \<and> ok s' \<and>
        stored s' = (stored s)(b := stored s b ++ map_of (rev (map (apsnd fresh_copy) items)))"
proof (induction items arbitrary: s)
  case (Cons kd items)
  obtain k d where kd: "kd = (k, d)" by fastforce
  obtain s1 where s1: "wr b k (Some d) s = Inr (KELPIE_OK, s1)" "ok s1"
      "stored s1 = (stored s)(b := (stored s b)(k \<mapsto> fresh_copy d))"
    using wr_stores [of s k d b] Cons.prems kd by auto
  obtain s' where "iom_WriteObjects wr b (map (\<lambda>(k, d). (k, Some d)) items) s1 = Inr s'" "ok s'"
      "stored s' = (stored s1)(b := stored s1 b ++ map_of (rev (map (apsnd fresh_copy) items)))"
    using Cons.IH [OF s1(2)] Cons.prems by (auto simp del: fun_upd_apply)
  then show ?case using s1 kd by (intro exI [of _ s']) (simp add: rbind_def map_add_def fun_eq_iff split: option.splits)
qed simp

definition found_in :: "bucket_t \<Rightarrow> key list \<Rightarrow> 's \<Rightarrow> (key \<times> ldo) list" where
  "found_in b keys s = map (\<lambda>k. (k, stored s b k)) (filter (\<lambda>k. stored s b k \<noteq> None) keys)"

lemma read_all:
  "ok s \<Longrightarrow> list_all key_ok keys \<Longrightarrow>
   \<exists>s'. iom_ReadObjects rd b keys rc (Some f) (Some m) s =
          Inr (if \<forall>k \<in> set keys. stored s b k \<noteq> None then rc else KELPIE_RECHECK,
               Some (f @ found_in b keys s), Some (m @ filter (\<lambda>k. stored s b k = None) keys), s')
        \<and> ok s' \<and> stored s' = stored s"
proof (induction keys arbitrary: s rc f m)
  case (Cons k keys)
  obtain s1 where s1: "rd b k (Some None) s = Inr (case stored s b k of
      Some d \<Rightarrow> (KELPIE_OK, Some (Some d), s1) | None \<Rightarrow> (KELPIE_ENOENT, Some None, s1))"
      "ok s1" "stored s1 = stored s"
    using rd_returns [of s k b None] Cons.prems by auto
  have keys: "list_all key_ok keys" using Cons.prems by simp
  show ?case
  proof (cases "stored s b k")
    case None
    then show ?thesis using Cons.IH [OF s1(2) keys, of KELPIE_RECHECK f "m @ [k]"] s1
      by (auto simp: rbind_def found_in_def KELPIE_ENOENT_def KELPIE_OK_def)
  next
    case (Some d)
    then show ?thesis using Cons.IH [OF s1(2) keys, of rc "f @ [(k, Some d)]" m] s1
      by (auto simp: rbind_def found_in_def)
  qed
qed (simp add: found_in_def)

end

section \<open>The posix module implements the contract\<close>

text \<open>
  File names are limited to 255 bytes (\<^verbatim>\<open>NAME_MAX\<close>): a key can be kept when it can be packed and
  its escaped form fits.  The environment is well behaved when every bucket directory can be used at
  one of the attempts and a file whose name fits receives the bytes written to it.
\<close>
definition file_name :: "key \<Rightarrow> string" where
  "file_name k = MakePunycode (pup_bytes k)"

definition pio_key_ok :: "key \<Rightarrow> bool" where
  "pio_key_ok k = (packable k \<and> length (file_name k) \<le> 255)"

definition bucket_dir :: "string \<Rightarrow> bucket_t \<Rightarrow> string" where
  "bucket_dir path b = path @ Bucket_GetHex b @ ''/''"

definition object_path :: "string \<Rightarrow> bucket_t \<Rightarrow> key \<Rightarrow> string" where
  "object_path path b k = bucket_dir path b @ file_name k"

definition dirs_usable :: "posix_env \<Rightarrow> string \<Rightarrow> bool" where
  "dirs_usable env path = (\<forall>b. \<exists>i<5. access_w env (bucket_dir path b) i \<or> mkdir_ok env (bucket_dir path b) i)"

definition writes_succeed :: "posix_env \<Rightarrow> bool" where
  "writes_succeed env = (\<forall>f image. length (path_basename f) \<le> 255 \<longrightarrow> written env f image = Some image)"

definition pio_storable :: "dataobject \<Rightarrow> bool" where
  "pio_storable d = (do_wf d \<and> 32 + length (do_meta d) + length (do_data d) < 2 ^ 32)"

definition pio_wf :: "Pio \<Rightarrow> bool" where
  "pio_wf s = (om_inv (pio_files s) \<and>
     (\<forall>f bs. om_get (pio_files s) f = Some bs \<longrightarrow>
        (\<exists>b k d. pio_key_ok k \<and> pio_storable d \<and> f = object_path (pio_path s) b k \<and> bs = wire_image d)))"

definition pio_ok :: "posix_env \<Rightarrow> Pio \<Rightarrow> bool" where
  "pio_ok env s = (dirs_usable env (pio_path s) \<and> writes_succeed env \<and> pio_wf s)"

definition pio_stored :: "Pio \<Rightarrow> bucket_t \<Rightarrow> key \<Rightarrow> dataobject option" where
  "pio_stored s b k = (if pio_key_ok k then Option.bind (om_get (pio_files s) (object_path (pio_path s) b k))
     (\<lambda>bs. of_wire (ldo_padding 0 (word_of_nat (length bs))) bs) else None)"

lemma path_basename_plain: "CHR ''/'' \<notin> set n \<Longrightarrow> path_basename n = n"
  by (subst path_basename.simps) (simp add: break_at_None [THEN iffD2])

lemma path_basename_last: "CHR ''/'' \<notin> set n \<Longrightarrow> path_basename (p @ CHR ''/'' # n) = n"
proof (induction p rule: length_induct)
  case (1 p)
  show ?case
  proof (cases "break_at CHR ''/'' p")
    case None
    then show ?thesis using 1(2)
      by (subst path_basename.simps) (simp add: break_at_None path_basename_plain)
  next
    case (Some ab)
    then obtain a b where ab: "break_at CHR ''/'' p = Some (a, b)" by (cases ab) auto
    have p: "p = a @ CHR ''/'' # b" and a: "CHR ''/'' \<notin> set a" using break_at_Some [OF ab] by auto
    have "path_basename (p @ CHR ''/'' # n) = path_basename (b @ CHR ''/'' # n)"
      using a by (subst path_basename.simps) (simp add: p)
    then show ?thesis using 1 p by simp
  qed
qed

lemma file_name_no_slash: "CHR ''/'' \<notin> set (file_name k)"
proof -
  have "\<not> isalnum CHR ''/''" by code_simp
  then show ?thesis using MakePunycode_alphabet [of "CHR ''/''" "pup_bytes k"] by (auto simp: file_name_def)
qed

lemma path_basename_object_path: "path_basename (object_path path b k) = file_name k"
  using path_basename_last [OF file_name_no_slash, of "path @ Bucket_GetHex b" k]
  by (simp add: object_path_def bucket_dir_def)

lemma file_name_inj: "packable k \<Longrightarrow> packable k' \<Longrightarrow> file_name k = file_name k' \<longleftrightarrow> k = k'"
  using punycode.enc_inj key_codec.enc_inj by (simp add: file_name_def)

lemma object_path_inj:
  assumes "packable k" "packable k'"
  shows "object_path path b k = object_path path b' k' \<longleftrightarrow> b = b' \<and> k = k'"
proof
  assume eq: "object_path path b k = object_path path b' k'"
  then have "file_name k = file_name k'" by (metis path_basename_object_path)
  then have k: "k = k'" using assms file_name_inj by blast
  then have "Bucket_GetHex b = Bucket_GetHex b'" using eq by (simp add: object_path_def bucket_dir_def)
  then show "b = b' \<and> k = k'" using k bucket_codec.enc_inj by blast
qed simp

lemma file_name_key: "packable k \<Longrightarrow> pup_unpack (ExpandPunycode (file_name k)) = Inr k"
  using pup_pack_ok [of k] by (auto simp: file_name_def Expand_Make packable_def pup_bytes_def pup_unpack_pack)

lemma getKeyFromBucketPathFile_object_path:
  "packable k \<Longrightarrow> getKeyFromBucketPathFile (object_path path b k) = Inr k"
  by (simp add: getKeyFromBucketPathFile_def path_basename_object_path file_name_key)

lemma bucket_path_loop_ok:
  "\<exists>i<n. access_w env p (j + i) \<or> mkdir_ok env p (j + i) \<Longrightarrow> bucket_path_loop env p j n = Inr p"
proof (induction n arbitrary: j)
  case (Suc n)
  show ?case
  proof (cases "access_w env p j \<or> mkdir_ok env p j")
    case False
    obtain i where i: "i < Suc n" "access_w env p (j + i) \<or> mkdir_ok env p (j + i)" using Suc.prems by blast
    then obtain i' where "i = Suc i'" using False by (cases i) auto
    then have "\<exists>i<n. access_w env p (Suc j + i) \<or> mkdir_ok env p (Suc j + i)" using i by auto
    then show ?thesis using Suc.IH [of "Suc j"] False by simp
  qed auto
qed simp

lemma genBucketPath_ok: "dirs_usable env (pio_path s) \<Longrightarrow> genBucketPath env b s = Inr (bucket_dir (pio_path s) b)"
  using bucket_path_loop_ok [of 5 env "bucket_dir (pio_path s) b" 0]
  by (simp add: genBucketPath_def dirs_usable_def bucket_dir_def)

lemma genBucketPathFile_ok:
  "dirs_usable env (pio_path s) \<Longrightarrow> packable k \<Longrightarrow> genBucketPathFile env b k s = Inr (object_path (pio_path s) b k)"
  using pup_pack_ok [of k]
  by (auto simp: genBucketPathFile_def genBucketPath_ok rbind_def object_path_def file_name_def packable_def pup_bytes_def)

text \<open>The header's eight bytes do not change the padding.\<close>
lemma file_padding:
  assumes "pio_storable d"
  shows "ldo_padding 0 (word_of_nat (length (wire_image d))) = fit_padding d"
proof (rule unsigned_word_eqI)
  let ?n = "length (wire_image d)"
  have n: "?n = 8 + (length (do_meta d) + length (do_data d))" "?n < 2 ^ 32"
    using assms by (simp_all add: pio_storable_def length_wire_image)
  have "unat (ldo_padding 0 (word_of_nat ?n)) = 4 - ?n mod 4"
    using ldo_padding_nat [of 0 "word_of_nat ?n"] n(2) by (simp add: unat_of_nat)
  moreover have "?n mod 4 = (length (do_meta d) + length (do_data d)) mod 4" unfolding n(1) by presburger
  ultimately show "unat (ldo_padding 0 (word_of_nat ?n)) = unat (fit_padding d)"
    using fit_padding_nat [of d] assms by (simp add: pio_storable_def)
qed

lemma pio_storable_image:
  assumes "pio_storable d"
  shows "writeToFile (Some d) = Inr (wire_image d)"
    and "of_wire (ldo_padding 0 (word_of_nat (length (wire_image d)))) (wire_image d) = Some (fresh_copy d)"
    and "pio_storable (fresh_copy d)"
  using assms writeToFile_wire of_wire_image file_padding [OF assms] by (auto simp: pio_storable_def fresh_copy_def)

lemma read_target_image:
  assumes "pio_storable d"
  obtains t where "read_target env (length (wire_image d)) = Inr (Some t)"
    "readFromFile (wire_image d) (Some t) = Inr (Some (fresh_copy d))"
proof
  let ?n = "length (wire_image d)"
  let ?t = "\<lparr>do_type = 0, do_meta = [], do_data = map (fresh_byte env) [0..<?n],
    do_padding = ldo_padding 0 (word_of_nat ?n)\<rparr>"
  have n: "?n + 24 < 2 ^ 32" using assms by (simp add: pio_storable_def length_wire_image)
  then have u: "unat (word_of_nat ?n :: u32) = ?n" by (simp add: unat_of_nat)
  show "read_target env ?n = Inr (Some ?t)"
    using n ldo_padding_bounds(2) [of 0 "word_of_nat ?n"] by (simp add: read_target_def Let_def u)
  have "unat (GetWireSize (Some ?t)) = length (wire_image ?t)"
    using n by (intro unat_GetWireSize) (auto simp: do_wf_def)
  then have "readFromFile (wire_image d) (Some ?t) = Inr (Some (d\<lparr>do_padding := do_padding ?t\<rparr>))"
    using assms by (intro readFromFile_wire) (auto simp: length_wire_image pio_storable_def)
  then show "readFromFile (wire_image d) (Some ?t) = Inr (Some (fresh_copy d))"
    by (simp add: file_padding [OF assms] fresh_copy_def)
qed

lemma pio_stored_file:
  assumes "pio_wf s" "pio_key_ok k"
  shows "om_get (pio_files s) (object_path (pio_path s) b k) = map_option wire_image (pio_stored s b k)"
    and "pio_stored s b k = Some d \<Longrightarrow> pio_storable d \<and> fresh_copy d = d"
proof -
  have "om_get (pio_files s) (object_path (pio_path s) b k) = map_option wire_image (pio_stored s b k)
      \<and> (pio_stored s b k = Some d \<longrightarrow> pio_storable d \<and> fresh_copy d = d)"
  proof (cases "om_get (pio_files s) (object_path (pio_path s) b k)")
    case (Some bs)
    then obtain d' where "pio_storable d'" "bs = wire_image d'" using assms by (auto simp: pio_wf_def)
    then show ?thesis using Some assms pio_storable_image(2,3) [of d'] by (auto simp: pio_stored_def)
  qed (simp add: pio_stored_def)
  then show "om_get (pio_files s) (object_path (pio_path s) b k) = map_option wire_image (pio_stored s b k)"
    and "pio_stored s b k = Some d \<Longrightarrow> pio_storable d \<and> fresh_copy d = d" by auto
qed

lemma pio_write_file:
  assumes "pio_ok env s" "pio_key_ok k" "pio_storable d"
  shows "\<exists>s'. pio_WriteObject env b k (Some d) s = Inr (KELPIE_OK, s') \<and> pio_path s' = pio_path s \<and>
     pio_files s' = om_set (object_path (pio_path s) b k) (wire_image d) (pio_files s)"
proof -
  have "written env (object_path (pio_path s) b k) (wire_image d) = Some (wire_image d)"
    using assms by (simp add: pio_ok_def writes_succeed_def path_basename_object_path pio_key_ok_def)
  then show ?thesis using assms
    by (simp add: pio_WriteObject_def pio_ok_def pio_key_ok_def genBucketPathFile_ok pio_storable_image
        rbind_def Let_def writeToFile_rc_def)
qed

lemma pio_set_wf:
  assumes "pio_wf s" "pio_key_ok k" "pio_storable d" "pio_path s' = pio_path s"
    "pio_files s' = om_set (object_path (pio_path s) b k) (wire_image d) (pio_files s)"
  shows "pio_wf s' \<and> pio_stored s' = (pio_stored s)(b := (pio_stored s b)(k \<mapsto> fresh_copy d))"
proof
  have get: "om_get (pio_files s') = (om_get (pio_files s))(object_path (pio_path s) b k \<mapsto> wire_image d)"
    using assms by (simp add: om_get_om_set pio_wf_def)
  show "pio_wf s'" unfolding pio_wf_def get
    using assms by (auto simp: pio_wf_def split: if_splits)
  have "pio_stored s' b' k' = ((pio_stored s)(b := (pio_stored s b)(k \<mapsto> fresh_copy d))) b' k'" for b' k'
  proof (cases "pio_key_ok k'")
    case True
    then have "object_path (pio_path s) b' k' = object_path (pio_path s) b k \<longleftrightarrow> b' = b \<and> k' = k"
      using assms(2) by (intro object_path_inj) (auto simp: pio_key_ok_def)
    then show ?thesis using True assms(3,4) pio_storable_image(2) by (auto simp: pio_stored_def get)
  qed (use assms(2) in \<open>auto simp: pio_stored_def\<close>)
  then show "pio_stored s' = (pio_stored s)(b := (pio_stored s b)(k \<mapsto> fresh_copy d))" by blast
qed

lemma pio_read_file:
  assumes "pio_ok env s" "pio_key_ok k"
  shows "\<exists>s'. pio_ReadObject env b k (Some x) s = Inr (case pio_stored s b k of
      Some d \<Rightarrow> (KELPIE_OK, Some (Some d), s') | None \<Rightarrow> (KELPIE_ENOENT, Some x, s')) \<and>
    pio_path s' = pio_path s \<and> pio_files s' = pio_files s"
proof -
  have wf: "pio_wf s" and p: "genBucketPathFile env b k s = Inr (object_path (pio_path s) b k)"
    using assms genBucketPathFile_ok by (auto simp: pio_ok_def pio_key_ok_def)
  show ?thesis
  proof (cases "pio_stored s b k")
    case (Some d)
    obtain t where "read_target env (length (wire_image d)) = Inr (Some t)"
        "readFromFile (wire_image d) (Some t) = Inr (Some d)"
      using read_target_image [of d env] pio_stored_file(2) [OF wf assms(2) Some] by auto
    then show ?thesis using Some pio_stored_file(1) [OF wf assms(2), of b] p
      by (simp add: pio_ReadObject_def rbind_def)
  qed (use pio_stored_file(1) [OF wf assms(2), of b] p in \<open>simp add: pio_ReadObject_def rbind_def\<close>)
qed

lemma pio_same_files:
  "pio_path s' = pio_path s \<Longrightarrow> pio_files s' = pio_files s \<Longrightarrow> pio_wf s' = pio_wf s \<and> pio_stored s' = pio_stored s"
  by (auto simp: pio_wf_def pio_stored_def fun_eq_iff)

interpretation pio: object_store "pio_WriteObject env" "pio_ReadObject env" pio_stored "pio_ok env" pio_key_ok pio_storable
  for env
proof
  fix s k d b assume a: "pio_ok env s" "pio_key_ok k" "pio_storable d"
  obtain s' where s': "pio_WriteObject env b k (Some d) s = Inr (KELPIE_OK, s')" "pio_path s' = pio_path s"
      "pio_files s' = om_set (object_path (pio_path s) b k) (wire_image d) (pio_files s)"
    using pio_write_file [OF a] by blast
  have "pio_wf s' \<and> pio_stored s' = (pio_stored s)(b := (pio_stored s b)(k \<mapsto> fresh_copy d))"
    using a by (intro pio_set_wf s'(2,3)) (simp_all add: pio_ok_def)
  then show "\<exists>s'. pio_WriteObject env b k (Some d) s = Inr (KELPIE_OK, s') \<and> pio_ok env s' \<and>
      pio_stored s' = (pio_stored s)(b := (pio_stored s b)(k \<mapsto> fresh_copy d))"
    using a s' by (intro exI [of _ s']) (simp add: pio_ok_def)
next
  fix s k b x assume a: "pio_ok env s" "pio_key_ok k"
  obtain s' where s': "pio_ReadObject env b k (Some x) s = Inr (case pio_stored s b k of
      Some d \<Rightarrow> (KELPIE_OK, Some (Some d), s') | None \<Rightarrow> (KELPIE_ENOENT, Some x, s'))"
      "pio_path s' = pio_path s" "pio_files s' = pio_files s"
    using pio_read_file [OF a] by blast
  then show "\<exists>s'. pio_ReadObject env b k (Some x) s = Inr (case pio_stored s b k of
      Some d \<Rightarrow> (KELPIE_OK, Some (Some d), s') | None \<Rightarrow> (KELPIE_ENOENT, Some x, s'))
      \<and> pio_ok env s' \<and> pio_stored s' = pio_stored s"
    using a pio_same_files [OF s'(2,3)] by (intro exI [of _ s']) (simp add: pio_ok_def)
qed

section \<open>Listing\<close>

definition listed_capacity :: "Pio \<Rightarrow> bucket_t \<Rightarrow> key \<Rightarrow> u64" where
  "listed_capacity s b k = (case pio_stored s b k of None \<Rightarrow> 0 | Some d \<Rightarrow> word_of_nat (length (wire_image d)))"

definition is_dots :: "string \<Rightarrow> bool" where
  "is_dots n = (n = ''.'' \<or> n = ''..'')"

lemma file_name_not_dots: "\<not> is_dots (file_name k)"
proof
  assume "is_dots (file_name k)"
  then have "CHR ''.'' \<in> set (file_name k)" by (auto simp: is_dots_def)
  moreover have "\<not> isalnum CHR ''.''" by code_simp
  ultimately show False using MakePunycode_alphabet [of "CHR ''.''" "pup_bytes k"] by (auto simp: file_name_def)
qed

lemma in_dir_entries:
  "n \<in> set (dir_entries p files) \<longleftrightarrow> is_dots n \<or> CHR ''/'' \<notin> set n \<and> p @ n \<in> fst ` set files"
  by (force simp: dir_entries_def om_keys_def is_dots_def prefix_def)

lemma pio_file_in_bucket:
  assumes "pio_wf s" "CHR ''/'' \<notin> set n"
  shows "bucket_dir (pio_path s) b @ n \<in> fst ` set (pio_files s) \<longleftrightarrow> (\<exists>k. pio_stored s b k \<noteq> None \<and> n = file_name k)"
proof
  assume "bucket_dir (pio_path s) b @ n \<in> fst ` set (pio_files s)"
  then obtain bs where bs: "om_get (pio_files s) (bucket_dir (pio_path s) b @ n) = Some bs"
    using assms(1) om_in_set_iff by (fastforce simp: pio_wf_def)
  then obtain b' k d where k: "pio_key_ok k" "pio_storable d" "bs = wire_image d"
      and eq: "bucket_dir (pio_path s) b @ n = object_path (pio_path s) b' k"
    using assms(1) unfolding pio_wf_def by blast
  have "n = path_basename (bucket_dir (pio_path s) b @ n)"
    using path_basename_last [OF assms(2), of "pio_path s @ Bucket_GetHex b"] by (simp add: bucket_dir_def)
  then have n: "n = file_name k" by (simp add: eq path_basename_object_path)
  then have "object_path (pio_path s) b k = object_path (pio_path s) b' k" using eq by (simp add: object_path_def)
  then have "b' = b" using object_path_inj k(1) by (metis pio_key_ok_def)
  then have "pio_stored s b k = Some (fresh_copy d)" using bs eq k pio_storable_image(2) by (simp add: pio_stored_def)
  then show "\<exists>k. pio_stored s b k \<noteq> None \<and> n = file_name k" using n by blast
next
  assume "\<exists>k. pio_stored s b k \<noteq> None \<and> n = file_name k"
  then obtain k d where "pio_stored s b k = Some d" "n = file_name k" by blast
  then have "om_get (pio_files s) (bucket_dir (pio_path s) b @ n) \<noteq> None"
    by (auto simp: pio_stored_def object_path_def split: if_splits bind_splits)
  then show "bucket_dir (pio_path s) b @ n \<in> fst ` set (pio_files s)" by (metis map_of_eq_None_iff)
qed

lemma list_objects_loop_keys:
  assumes "pio_wf s" "filter (\<lambda>n. \<not> is_dots n) names = map file_name ks" "\<forall>k \<in> set ks. pio_stored s b k \<noteq> None"
  shows "list_objects_loop w1 k1 w2 k2 (bucket_dir (pio_path s) b) (pio_files s) names oc =
    Inr (let l = filter (\<lambda>k. matchesPrefixString k w1 k1 w2 k2) ks in
      oc\<lparr>oc_keys := oc_keys oc @ l, oc_capacities := oc_capacities oc @ map (listed_capacity s b) l\<rparr>)"
  using assms(2,3)
proof (induction names arbitrary: ks oc)
  case (Cons n names)
  show ?case
  proof (cases "is_dots n")
    case True
    then show ?thesis using Cons by (auto simp: rbind_def is_dots_def)
  next
    case False
    then obtain k ks' where ks: "ks = k # ks'" "n = file_name k" "filter (\<lambda>n. \<not> is_dots n) names = map file_name ks'"
      using Cons.prems(1) by auto
    then obtain d where d: "pio_stored s b k = Some d" using Cons.prems(2) by auto
    then have k: "pio_key_ok k" by (auto simp: pio_stored_def split: if_splits)
    have "om_get (pio_files s) (bucket_dir (pio_path s) b @ n) = Some (wire_image d)"
      using pio_stored_file(1) [OF assms(1) k, of b] d ks by (simp add: object_path_def)
    moreover have "pup_unpack (ExpandPunycode n) = Inr k" using k ks by (simp add: file_name_key pio_key_ok_def)
    ultimately show ?thesis using Cons.IH [OF ks(3)] Cons.prems(2) False ks(1) d
      by (simp add: rbind_def is_dots_def oc_Append_def listed_capacity_def Let_def)
  qed
qed simp

lemma dir_entries_keys:
  assumes "pio_wf s" "mset names = mset (dir_entries (bucket_dir (pio_path s) b) (pio_files s))"
  obtains ks where "filter (\<lambda>n. \<not> is_dots n) names = map file_name ks" "distinct ks"
    "set ks = {k. pio_stored s b k \<noteq> None}"
proof -
  let ?p = "bucket_dir (pio_path s) b" and ?g = "\<lambda>n. case pup_unpack (ExpandPunycode n) of Inr k \<Rightarrow> k | Inl _ \<Rightarrow> Key [] []"
  let ?ns = "filter (\<lambda>n. \<not> is_dots n) names"
  have g: "?g (file_name k) = k" if "pio_stored s b k \<noteq> None" for k
    using that by (auto simp: pio_stored_def pio_key_ok_def file_name_key split: if_splits)
  have mem: "n \<in> set ?ns \<longleftrightarrow> (\<exists>k. pio_stored s b k \<noteq> None \<and> n = file_name k)" for n
    using mset_eq_setD [OF assms(2)] pio_file_in_bucket [OF assms(1), of n b] file_name_not_dots file_name_no_slash
    by (auto simp: in_dir_entries)
  have eq: "?ns = map file_name (map ?g ?ns)" using mem g by (auto intro!: map_idI [symmetric])
  have "distinct (map (drop (length ?p)) (filter (\<lambda>f. prefix ?p f \<and> CHR ''/'' \<notin> set (drop (length ?p) f)) (om_keys (pio_files s))))"
    using assms(1) om_inv_distinct [of "pio_files s"]
    by (auto simp: distinct_map om_keys_def pio_wf_def inj_on_def prefix_def)
  then have "distinct (filter (\<lambda>n. \<not> is_dots n) (dir_entries ?p (pio_files s)))"
    by (simp add: dir_entries_def is_dots_def)
  moreover have "mset ?ns = mset (filter (\<lambda>n. \<not> is_dots n) (dir_entries ?p (pio_files s)))"
    using assms(2) by simp
  ultimately have "distinct ?ns" using mset_eq_imp_distinct_iff by blast
  then have "distinct (map ?g ?ns)" using mem g by (auto simp: distinct_map inj_on_def)
  moreover have "set (map ?g ?ns) = {k. pio_stored s b k \<noteq> None}"
  proof (intro set_eqI)
    fix k
    show "k \<in> set (map ?g ?ns) \<longleftrightarrow> k \<in> {k. pio_stored s b k \<noteq> None}" (is "?l \<longleftrightarrow> ?r")
    proof
      assume ?l
      then obtain n where "n \<in> set ?ns" "k = ?g n" by (auto simp del: set_filter)
      then show ?r using mem [of n] g by auto
    next
      assume ?r
      then have "file_name k \<in> set ?ns" "k = ?g (file_name k)" using mem [of "file_name k"] g [of k] by auto
      then show ?l unfolding set_map by (rule rev_image_eqI)
    qed
  qed
  ultimately show ?thesis using that [of "map ?g ?ns"] eq by blast
qed

lemma pio_ListObjects_keys:
  assumes "pio_wf s" "dirs_usable env (pio_path s)" "opendir_ok env (bucket_dir (pio_path s) b)"
    "mset (readdir_order env (dir_entries (bucket_dir (pio_path s) b) (pio_files s))) =
     mset (dir_entries (bucket_dir (pio_path s) b) (pio_files s))"
  obtains l where "pio_ListObjects env b pat oc s = Inr (KELPIE_OK,
      oc\<lparr>oc_keys := oc_keys oc @ l, oc_capacities := oc_capacities oc @ map (listed_capacity s b) l\<rparr>)"
    "distinct l" "set l = {k. pio_stored s b k \<noteq> None \<and> Matches_key k pat}"
proof -
  let ?M = "\<lambda>k. Matches_key k pat"
  obtain ks where ks: "filter (\<lambda>n. \<not> is_dots n) (readdir_order env (dir_entries (bucket_dir (pio_path s) b) (pio_files s)))
      = map file_name ks" "distinct ks" "set ks = {k. pio_stored s b k \<noteq> None}"
    by (rule dir_entries_keys [OF assms(1,4)])
  have "pio_ListObjects env b pat oc s = Inr (KELPIE_OK,
      oc\<lparr>oc_keys := oc_keys oc @ filter ?M ks, oc_capacities := oc_capacities oc @ map (listed_capacity s b) (filter ?M ks)\<rparr>)"
    using list_objects_loop_keys [OF assms(1) ks(1), of b] ks(3) assms(2,3)
    by (simp add: pio_ListObjects_def genBucketPath_ok rbind_def Let_def Matches_key_def Matches_def
        IsRowWildcard_def IsColWildcard_def)
  then show ?thesis by (rule that) (use ks in auto)
qed

lemma pio_listed_info:
  assumes "pio_wf s" "dirs_usable env (pio_path s)" "pio_stored s b k \<noteq> None"
  shows "case (pio_stored s b k, pio_GetInfo env b k s) of
      (Some d, Inr (rc, info)) \<Rightarrow> rc = KELPIE_OK \<and> col_availability info = InDisk \<and>
        col_user_bytes info = ucast (GetUserSize (Some d)) \<and> listed_capacity s b k = col_user_bytes info + 8
    | _ \<Rightarrow> False"
proof -
  obtain d where d: "pio_stored s b k = Some d" using assms(3) by blast
  then have k: "pio_key_ok k" by (auto simp: pio_stored_def split: if_splits)
  have len: "32 + length (do_meta d) + length (do_data d) < 2 ^ 32"
    using pio_stored_file(2) [OF assms(1) k d] by (simp add: pio_storable_def)
  have contents: "om_get (pio_files s) (object_path (pio_path s) b k) = Some (wire_image d)"
    using pio_stored_file(1) [OF assms(1) k, of b] d by simp
  have path: "genBucketPathFile env b k s = Inr (object_path (pio_path s) b k)"
    using genBucketPathFile_ok [OF assms(2)] k by (simp add: pio_key_ok_def)
  have "unat (GetUserSize (Some d)) = length (do_meta d) + length (do_data d)"
    using len by (simp add: GetUserSize_def unat_word_ariths unat_of_nat)
  then have size: "ucast (GetUserSize (Some d)) = (word_of_nat (length (do_meta d) + length (do_data d)) :: u64)"
    by (metis of_nat_unat)
  show ?thesis unfolding pio_GetInfo_def path rbind_def sum.case contents option.case d prod.case size
    by (simp add: length_wire_image listed_capacity_def d GetHeaderSize_def)
qed

section \<open>Properties\<close>

definition demo_env :: posix_env where
  "demo_env = \<lparr>env_var = \<lambda>_. None, stat_dir = \<lambda>_ _. Some True, access_w = \<lambda>_ _. False,
     mkdir_ok = \<lambda>_ i. i = 2, opendir_ok = \<lambda>_. True,
     written = \<lambda>f bs. if length (path_basename f) \<le> 255 then Some bs else None,
     readdir_order = rev, fresh_byte = \<lambda>_. 7\<rparr>"

definition demo_pio :: Pio where
  "demo_pio = \<lparr>iom_settings = [], iom_name = ''pio'', stat_wr_requests = 0, stat_wr_bytes = 0,
     stat_rd_requests = 0, stat_rd_bytes = 0, stat_rd_hits = 0, stat_rd_misses = 0,
     pio_path = ''/tmp/'', pio_files = []\<rparr>"

definition demo_object :: dataobject where
  "demo_object = \<lparr>do_type = 3, do_meta = [1], do_data = [2, 3], do_padding = 1\<rparr>"

lemma demo_pio_ok: "pio_ok demo_env demo_pio"
  by (auto simp: pio_ok_def dirs_usable_def writes_succeed_def pio_wf_def demo_env_def demo_pio_def intro!: exI [of _ 2])

lemma demo_key_ok: "pio_key_ok (Key ''a'' ''b'')" "pio_key_ok (Key ''z'' ''b'')"
  by code_simp+

lemma demo_object_ok: "pio_storable demo_object" "fresh_copy demo_object = demo_object"
  by code_simp+

text \<open>
  C15. On a well-behaved file system, from any consistent directory tree, writing a batch of objects
  and then reading a batch of keys, in the same or another bucket, returns exactly the objects last
  written under those keys (type, meta and data, with the padding of their size), with older contents for the keys the batch did not write, lists the absent
  keys as missing, returns \<^verbatim>\<open>KELPIE_OK\<close> exactly when nothing is missing, and leaves the tree
  consistent.\<close>
theorem pio_batch_write_read:
  assumes "pio_ok env s" "list_all (\<lambda>(k, d). pio_key_ok k \<and> pio_storable d) items" "list_all pio_key_ok keys"
  shows "case iom_WriteObjects (pio_WriteObject env) b (map (\<lambda>(k, d). (k, Some d)) items) s of
      Inl _ \<Rightarrow> False
    | Inr s1 \<Rightarrow>
        (case iom_ReadObjects (pio_ReadObject env) b' keys KELPIE_OK (Some []) (Some []) s1 of
           Inl _ \<Rightarrow> False
         | Inr (rc, found, missing, s2) \<Rightarrow>
             let now = (if b' = b then pio_stored s b ++ map_of (rev (map (apsnd fresh_copy) items)) else pio_stored s b') in
             found = Some (map (\<lambda>k. (k, now k)) (filter (\<lambda>k. now k \<noteq> None) keys)) \<and>
             missing = Some (filter (\<lambda>k. now k = None) keys) \<and>
             (rc = KELPIE_OK \<longleftrightarrow> (\<forall>k \<in> set keys. now k \<noteq> None)) \<and>
             pio_ok env s2 \<and> pio_stored s2 b' = now)"
proof -
  obtain s1 where s1: "iom_WriteObjects (pio_WriteObject env) b (map (\<lambda>(k, d). (k, Some d)) items) s = Inr s1"
      "pio_ok env s1" "pio_stored s1 = (pio_stored s)(b := pio_stored s b ++ map_of (rev (map (apsnd fresh_copy) items)))"
    using pio.write_all [OF assms(1,2)] by blast
  obtain s2 where s2: "iom_ReadObjects (pio_ReadObject env) b' keys KELPIE_OK (Some []) (Some []) s1 =
      Inr (if \<forall>k \<in> set keys. pio_stored s1 b' k \<noteq> None then KELPIE_OK else KELPIE_RECHECK,
           Some ([] @ pio.found_in b' keys s1), Some ([] @ filter (\<lambda>k. pio_stored s1 b' k = None) keys), s2)"
      "pio_ok env s2" "pio_stored s2 = pio_stored s1"
    using pio.read_all [OF s1(2) assms(3)] by blast
  show ?thesis unfolding s1(1) sum.case s2(1) prod.case
    using s2(2,3) s1(3) by (simp add: Let_def pio.found_in_def KELPIE_OK_def KELPIE_RECHECK_def)
qed

theorem pio_batch_write_read_witness:
  "case iom_WriteObjects (pio_WriteObject demo_env) 5 [(Key ''a'' ''b'', Some demo_object)] demo_pio of
      Inl _ \<Rightarrow> False
    | Inr s1 \<Rightarrow>
        (case iom_ReadObjects (pio_ReadObject demo_env) 5 [Key ''z'' ''b'', Key ''a'' ''b''] KELPIE_OK (Some []) (Some []) s1 of
           Inl _ \<Rightarrow> False
         | Inr (rc, found, missing, s2) \<Rightarrow>
             found = Some [(Key ''a'' ''b'', Some demo_object)] \<and> missing = Some [Key ''z'' ''b''] \<and> rc \<noteq> KELPIE_OK)"
proof -
  have none: "pio_stored demo_pio 5 = Map.empty" by (simp add: pio_stored_def demo_pio_def fun_eq_iff)
  show ?thesis
    using pio_batch_write_read [where env = demo_env and s = demo_pio and items = "[(Key ''a'' ''b'', demo_object)]"
        and keys = "[Key ''z'' ''b'', Key ''a'' ''b'']" and b = 5 and b' = 5]
      demo_pio_ok demo_key_ok demo_object_ok
    by (auto simp: none Let_def split: sum.splits prod.splits)
qed

text \<open>
  Listing a bucket of a consistent tree with a pattern whose row and column may end in a wildcard, whatever
  the order in which the directory is read, appends each stored key of that bucket that matches the pattern
  exactly once and nothing else.  The capacity reported for a key is the size of its file, eight bytes
  of header more than the user size that \<^verbatim>\<open>GetInfo\<close> reports for the same key.
\<close>
theorem pio_list_objects:
  assumes "pio_ok env s" "opendir_ok env (bucket_dir (pio_path s) b)"
    "mset (readdir_order env (dir_entries (bucket_dir (pio_path s) b) (pio_files s))) =
     mset (dir_entries (bucket_dir (pio_path s) b) (pio_files s))"
  shows "case pio_ListObjects env b pat oc_empty s of
      Inl _ \<Rightarrow> False
    | Inr (rc, oc) \<Rightarrow> rc = KELPIE_OK \<and> distinct (oc_keys oc) \<and>
        set (oc_keys oc) = {k. pio_stored s b k \<noteq> None \<and> Matches_key k pat} \<and>
        length (oc_capacities oc) = length (oc_keys oc) \<and>
        (\<forall>i < length (oc_keys oc).
          (case (pio_stored s b (oc_keys oc ! i), pio_GetInfo env b (oc_keys oc ! i) s) of
             (Some d, Inr (rc', info)) \<Rightarrow>
               rc' = KELPIE_OK \<and> col_availability info = InDisk \<and>
               col_user_bytes info = ucast (GetUserSize (Some d)) \<and>
               oc_capacities oc ! i = col_user_bytes info + 8
           | _ \<Rightarrow> False))"
proof -
  have wf: "pio_wf s" and dirs: "dirs_usable env (pio_path s)" using assms(1) by (auto simp: pio_ok_def)
  obtain l where l: "pio_ListObjects env b pat oc_empty s = Inr (KELPIE_OK, oc_empty\<lparr>oc_keys := oc_keys oc_empty @ l,
        oc_capacities := oc_capacities oc_empty @ map (listed_capacity s b) l\<rparr>)"
      "distinct l" "set l = {k. pio_stored s b k \<noteq> None \<and> Matches_key k pat}"
    by (rule pio_ListObjects_keys [OF wf dirs assms(2,3)])
  let ?oc = "oc_empty\<lparr>oc_keys := oc_keys oc_empty @ l, oc_capacities := oc_capacities oc_empty @ map (listed_capacity s b) l\<rparr>"
  have oc: "oc_keys ?oc = l" "oc_capacities ?oc = map (listed_capacity s b) l" by (simp_all add: oc_empty_def)
  have "\<forall>i < length l. case (pio_stored s b (l ! i), pio_GetInfo env b (l ! i) s) of
      (Some d, Inr (rc, info)) \<Rightarrow> rc = KELPIE_OK \<and> col_availability info = InDisk \<and>
        col_user_bytes info = ucast (GetUserSize (Some d)) \<and>
        map (listed_capacity s b) l ! i = col_user_bytes info + 8
    | _ \<Rightarrow> False"
  proof (intro allI impI, unfold nth_map, rule pio_listed_info [OF wf dirs])
    fix i assume "i < length l"
    then show "pio_stored s b (l ! i) \<noteq> None" using l(3) nth_mem by blast
  qed
  then show ?thesis unfolding l(1) sum.case prod.case oc using l(2,3) by simp
qed

definition demo_pio_two :: Pio where
  "demo_pio_two = demo_pio\<lparr>pio_files := [(object_path ''/tmp/'' 5 (Key ''a'' ''b''), wire_image demo_object),
     (object_path ''/tmp/'' 5 (Key ''z'' ''b''), wire_image demo_object)]\<rparr>"

lemma demo_pio_two_ok: "pio_ok demo_env demo_pio_two"
proof -
  have "om_inv (pio_files demo_pio_two)" by code_simp
  then show ?thesis using demo_pio_ok demo_key_ok demo_object_ok
    by (auto simp: pio_ok_def pio_wf_def demo_pio_two_def demo_pio_def split: if_splits)
qed

theorem pio_list_objects_witness:
  "case pio_ListObjects demo_env 5 (Key ''a*'' ''b'') oc_empty demo_pio_two of
      Inl _ \<Rightarrow> False
    | Inr (rc, oc) \<Rightarrow> distinct (oc_keys oc) \<and> Key ''a'' ''b'' \<in> set (oc_keys oc) \<and> Key ''z'' ''b'' \<notin> set (oc_keys oc)"
proof -
  have m: "Matches_key (Key ''a'' ''b'') (Key ''a*'' ''b'')" "\<not> Matches_key (Key ''z'' ''b'') (Key ''a*'' ''b'')"
    "pio_stored demo_pio_two 5 (Key ''a'' ''b'') \<noteq> None" by code_simp+
  have o: "opendir_ok demo_env p" "mset (readdir_order demo_env xs) = mset xs" for p xs by (simp_all add: demo_env_def)
  show ?thesis
    using pio_list_objects [where env = demo_env and s = demo_pio_two and b = 5 and pat = "Key ''a*'' ''b''"]
      demo_pio_two_ok o m by (auto split: sum.splits prod.splits)
qed

text \<open>
  When the file system refuses the file name of a key, the write still returns \<^verbatim>\<open>KELPIE_OK\<close> and counts
  its bytes, although nothing is stored: a read of the key that follows reports it absent, and is counted neither as a hit
  nor as a miss.
\<close>
theorem pio_lost_write:
  assumes "dirs_usable env (pio_path s)" "packable k" "pio_storable d"
    "written env (object_path (pio_path s) b k) (wire_image d) = None"
    "om_get (pio_files s) (object_path (pio_path s) b k) = None"
  shows "case pio_WriteObject env b k (Some d) s of
      Inl _ \<Rightarrow> False
    | Inr (rc, s1) \<Rightarrow> rc = KELPIE_OK \<and> pio_files s1 = pio_files s \<and>
        stat_wr_bytes s1 = stat_wr_bytes s + GetWireSize (Some d) \<and>
        (case pio_ReadObject env b k (Some None) s1 of
           Inl _ \<Rightarrow> False
         | Inr (rc', p, s2) \<Rightarrow> rc' = KELPIE_ENOENT \<and> p = Some None \<and>
             stat_rd_requests s2 = stat_rd_requests s + 1 \<and>
             stat_rd_hits s2 = stat_rd_hits s \<and> stat_rd_misses s2 = stat_rd_misses s)"
  using assms
  by (simp add: pio_WriteObject_def pio_ReadObject_def genBucketPathFile_ok pio_storable_image rbind_def Let_def
      writeToFile_rc_def)

definition long_key :: key where
  "long_key = Key (replicate 90 CHR ''/'') ''b''"

theorem pio_lost_write_witness:
  "case pio_WriteObject demo_env 5 long_key (Some demo_object) demo_pio of
      Inl _ \<Rightarrow> False
    | Inr (rc, s1) \<Rightarrow> rc = KELPIE_OK \<and> pio_files s1 = [] \<and>
        (case pio_ReadObject demo_env 5 long_key (Some None) s1 of
           Inl _ \<Rightarrow> False | Inr (rc', p, s2) \<Rightarrow> rc' = KELPIE_ENOENT)"
proof -
  have "packable long_key" "length (file_name long_key) > 255" by code_simp+
  then have "written demo_env (object_path (pio_path demo_pio) 5 long_key) (wire_image demo_object) = None"
    by (simp add: demo_env_def path_basename_object_path)
  then show ?thesis
    using pio_lost_write [where env = demo_env and s = demo_pio and b = 5 and k = long_key and d = demo_object]
      demo_pio_ok demo_object_ok \<open>packable long_key\<close>
    by (auto simp: pio_ok_def demo_pio_def split: sum.splits prod.splits)
qed

end
