(* ===== verification/Local_Pool.thy ===== *)
theory Local_Pool
  imports Compute_Registry Iom_Posix Directory_Info
begin

text \<open>
  Pools on the local node: the front end every client calls (\<^verbatim>\<open>kelpie/pools/Pool.cpp\<close>), the base class's
  reading of the pool url (\<^verbatim>\<open>kelpie/pools/PoolBase.cpp\<close>) and the local pool
  (\<^verbatim>\<open>kelpie/pools/LocalPool/LocalPool.cpp\<close>), which joins the key/value store with an i/o module.
  Callbacks handed to the store are entries of its effect list; the completion callback of a publish is
  a list of the arguments it is called with.  A request that waits for an object polls the store; the states
  other threads leave behind are the argument \<open>world\<close>, one table per poll.
\<close>

section \<open>Construction\<close>

definition DefaultLocal :: pool_behavior_t where "DefaultLocal = or WriteToLocal ReadToLocal"
definition DefaultIOM :: pool_behavior_t where "DefaultIOM = WriteToIOM"
definition DefaultLocalIOM :: pool_behavior_t where "DefaultLocalIOM = or (or WriteToIOM WriteToLocal) ReadToLocal"

record 'io LocalPool =
  default_bucket :: bucket_t
  pool_iom :: "'io IomBase option"
  pool_iom_hash :: u32
  behavior_flags :: pool_behavior_t

text \<open>A name that starts with \<^verbatim>\<open>0x\<close> is a hash already; its value is cut to 32 bits.\<close>

definition iom_name_hash :: "string \<Rightarrow> u32 result" where
  "iom_name_hash module_name =
     (if take 2 module_name = ''0x'' then rbind (stream_hex (drop 2 module_name)) (\<lambda>val. Inr (ucast val))
      else Inr (hash32 module_name))"

definition PoolBase_ctor :: "ResourceURL \<Rightarrow> pool_behavior_t \<Rightarrow> 'io LocalPool result" where
  "PoolBase_ctor pool_url flags0 =
     (let p0 = \<lparr>default_bucket = 0, pool_iom = None, pool_iom_hash = 0, behavior_flags = flags0\<rparr> in
      if url_Type pool_url = ''unconfigured'' then Inr p0
      else
        let new_bucket = GetOption ''bucket'' [] pool_url in
        rbind (if new_bucket \<noteq> [] then Bucket new_bucket else Inr (url_bucket pool_url)) (\<lambda>bucket.
        let p1 = p0\<lparr>default_bucket := bucket\<rparr>;
            module_name = GetOption ''iom'' [] pool_url in
        rbind (if module_name \<noteq> []
               then rbind (iom_name_hash module_name) (\<lambda>h. Inr (p1\<lparr>pool_iom_hash := h, behavior_flags := DefaultIOM\<rparr>))
               else Inr p1) (\<lambda>p2.
        let behavior = GetOption ''behavior'' [] pool_url in
        if behavior \<noteq> [] then rbind (ParseString behavior) (\<lambda>f. Inr (p2\<lparr>behavior_flags := f\<rparr>)) else Inr p2)))"

text \<open>The registry finds a module by its name and knows the name it was registered with.\<close>

definition LocalPool_ctor ::
  "(string \<Rightarrow> (string \<times> 'io IomBase) option) \<Rightarrow> ResourceURL \<Rightarrow> 'io LocalPool result" where
  "LocalPool_ctor find_iom pool_url =
     rbind (PoolBase_ctor pool_url DefaultLocal) (\<lambda>p.
       let iom_option = (if url_path pool_url = ''/local/iom'' then url_name pool_url
                         else GetOption ''iom'' [] pool_url) in
       if iom_option = [] then Inr p
       else case find_iom iom_option of
              None \<Rightarrow> Inl Runtime_error
            | Some (name, m) \<Rightarrow>
                let p1 = p\<lparr>pool_iom := Some m, pool_iom_hash := hash32 name\<rparr> in
                Inr (if GetOption ''behavior'' [] pool_url = [] then p1\<lparr>behavior_flags := DefaultLocalIOM\<rparr> else p1))"

section \<open>Local pool operations\<close>

definition lp_Publish_stored ::
  "u32 \<Rightarrow> key \<Rightarrow> bool \<Rightarrow> 'io LocalPool \<Rightarrow> 'io \<Rightarrow> LocalKV \<Rightarrow>
     ((rc_t \<times> (rc_t \<times> object_info_t) list) \<times> LocalKV \<times> 'io) result" where
  "lp_Publish_stored now key callback pool io t =
     rbind (get now (default_bucket pool) key t) (\<lambda>((rc, x, info), t1).
       if rc \<noteq> KELPIE_OK then Inr ((rc, []), t1, io)
       else
         let io1 = (case pool_iom pool of
                      Some m \<Rightarrow> snd (iom_WriteObject m (default_bucket pool) key (case x of Some l \<Rightarrow> l | None \<Rightarrow> None) io)
                    | None \<Rightarrow> io)
         in Inr ((KELPIE_OK, if callback then [(KELPIE_OK, info)] else []), t1, io1))"

definition lp_Publish ::
  "u32 \<Rightarrow> key \<Rightarrow> ldo \<Rightarrow> bool \<Rightarrow> 'io LocalPool \<Rightarrow> 'io \<Rightarrow> LocalKV \<Rightarrow>
     ((rc_t \<times> (rc_t \<times> object_info_t) list \<times> effect list) \<times> LocalKV \<times> 'io) result" where
  "lp_Publish now key user_ldo callback pool io t =
     rbind (put now (default_bucket pool) key user_ldo (behavior_flags pool) (pool_iom pool) io t)
       (\<lambda>((rc, info, effs), t1, io1).
         Inr ((KELPIE_OK, if callback then [(rc, info)] else [], effs), t1, io1))"

definition lp_Want ::
  "u32 \<Rightarrow> key \<Rightarrow> callback_t option \<Rightarrow> 'io LocalPool \<Rightarrow> 'io \<Rightarrow> LocalKV \<Rightarrow>
     ((rc_t \<times> effect list) \<times> LocalKV \<times> 'io) result" where
  "lp_Want now key callback pool io t =
     rbind (wantLocal now (default_bucket pool) key False callback t) (\<lambda>((rc, effs), t1).
       case (if rc = KELPIE_ENOENT then pool_iom pool else None) of
         None \<Rightarrow> Inr ((rc, effs), t1, io)
       | Some m \<Rightarrow>
           let (rc1, x, io1) = iom_ReadObject m (default_bucket pool) key io in
           if rc1 = KELPIE_OK
           then rbind (put now (default_bucket pool) key x (behavior_flags pool) None io1 t1)
                  (\<lambda>((_, _, effs1), t2, io2). Inr ((rc1, effs @ effs1), t2, io2))
           else Inr ((rc1, effs), t1, io1))"

text \<open>
  The polling loop, with the number of polls it may make.  \<^term>\<open>None\<close> is a request that is still
  waiting.
\<close>
fun need_loop ::
  "nat \<Rightarrow> nat \<Rightarrow> bool \<Rightarrow> (nat \<Rightarrow> u32) \<Rightarrow> (nat \<Rightarrow> LocalKV) \<Rightarrow> key \<Rightarrow> 'io LocalPool \<Rightarrow> 'io \<Rightarrow>
     (rc_t \<times> ldo \<times> 'io) result option" where
  "need_loop 0 i first_time clock world key pool io = None"
| "need_loop (Suc n) i first_time clock world key pool io =
     (case get (clock i) (default_bucket pool) key (world i) of
        Inl e \<Rightarrow> Some (Inl e)
      | Inr ((rc, x, _), _) \<Rightarrow>
          if rc = KELPIE_ENOENT then
            (case (if first_time then pool_iom pool else None) of
               Some m \<Rightarrow>
                 let (rc1, y, io1) = iom_ReadObject m (default_bucket pool) key io in
                 if rc1 = KELPIE_OK then Some (Inr (rc1, y, io1))
                 else need_loop n (Suc i) False clock world key pool io1
             | None \<Rightarrow> need_loop n (Suc i) first_time clock world key pool io)
          else Some (Inr (rc, case x of Some l \<Rightarrow> l | None \<Rightarrow> None, io)))"

definition lp_Need ::
  "nat \<Rightarrow> (nat \<Rightarrow> u32) \<Rightarrow> (nat \<Rightarrow> LocalKV) \<Rightarrow> key \<Rightarrow> ldo \<Rightarrow> 'io LocalPool \<Rightarrow> 'io \<Rightarrow>
     (rc_t \<times> ldo \<times> 'io) result option" where
  "lp_Need polls clock world key returned_ldo pool io =
     (if returned_ldo \<noteq> None then Some (Inl Assert_failed)
      else need_loop polls 0 True clock world key pool io)"

definition lp_Info ::
  "u32 \<Rightarrow> key \<Rightarrow> 'io LocalPool \<Rightarrow> 'io \<Rightarrow> LocalKV \<Rightarrow> (rc_t \<times> object_info_t) \<times> LocalKV \<times> 'io" where
  "lp_Info now key pool io t =
     (let ((rc, info), t1) = getInfo now (default_bucket pool) key True t in
      case (if rc = KELPIE_ENOENT then pool_iom pool else None) of
        None \<Rightarrow> ((rc, info), t1, io)
      | Some m \<Rightarrow> let (rc1, info1, io1) = iom_GetInfo m (default_bucket pool) key io in ((rc1, info1), t1, io1))"

definition lp_RowInfo :: "u32 \<Rightarrow> key \<Rightarrow> 'io LocalPool \<Rightarrow> LocalKV \<Rightarrow> (rc_t \<times> object_info_t) \<times> LocalKV" where
  "lp_RowInfo now key pool t = getInfo now (default_bucket pool) key True t"

text \<open>The callback receives the store's return code, the key and the object the function wrote.\<close>

definition lp_Compute ::
  "ComputeRegistry \<Rightarrow> u32 \<Rightarrow> key \<Rightarrow> string \<Rightarrow> string \<Rightarrow> 'io LocalPool \<Rightarrow> LocalKV \<Rightarrow> ((rc_t \<times> (rc_t \<times> key \<times> ldo) list) \<times> LocalKV) result" where
  "lp_Compute reg now key function_name function_args pool t =
     rbind (lkv_doCompute reg now function_name function_args (default_bucket pool) key (Some None) t) (\<lambda>((rc, x), t1).
       Inr ((KELPIE_OK, [(rc, key, case x of Some l \<Rightarrow> l | None \<Rightarrow> None)]), t1))"

text \<open>The callback receives whether anything was dropped.\<close>

definition lp_Drop :: "u32 \<Rightarrow> key \<Rightarrow> bool \<Rightarrow> 'io LocalPool \<Rightarrow> LocalKV \<Rightarrow> ((rc_t \<times> bool list) \<times> LocalKV) result" where
  "lp_Drop now key callback pool t =
     rbind (drop_op now (default_bucket pool) key t) (\<lambda>(rc, t1).
       Inr ((rc, if callback then [rc = KELPIE_OK] else []), t1))"

definition lp_List ::
  "key \<Rightarrow> ObjectCapacities \<Rightarrow> 'io LocalPool \<Rightarrow> 'io \<Rightarrow> LocalKV \<Rightarrow> (rc_t \<times> ObjectCapacities \<times> 'io) result" where
  "lp_List search_key oc pool io t = list_op (default_bucket pool) search_key (pool_iom pool) io oc t"

section \<open>The pool front end\<close>

definition pool_Publish_stored ::
  "u32 \<Rightarrow> key \<Rightarrow> bool \<Rightarrow> 'io LocalPool \<Rightarrow> 'io \<Rightarrow> LocalKV \<Rightarrow>
     ((rc_t \<times> (rc_t \<times> object_info_t) list) \<times> LocalKV \<times> 'io) result" where
  "pool_Publish_stored now key callback pool io t =
     (if IsWildcard key then Inl Runtime_error else lp_Publish_stored now key callback pool io t)"

definition pool_Publish_async ::
  "u32 \<Rightarrow> key \<Rightarrow> ldo \<Rightarrow> bool \<Rightarrow> 'io LocalPool \<Rightarrow> 'io \<Rightarrow> LocalKV \<Rightarrow>
     ((rc_t \<times> (rc_t \<times> object_info_t) list \<times> effect list) \<times> LocalKV \<times> 'io) result" where
  "pool_Publish_async now key user_ldo callback pool io t =
     (if IsWildcard key then Inl Runtime_error else lp_Publish now key user_ldo callback pool io t)"

text \<open>The blocking form waits for its callback; a callback that is never called is a wait that never ends.\<close>

definition pool_Publish ::
  "u32 \<Rightarrow> key \<Rightarrow> ldo \<Rightarrow> 'io LocalPool \<Rightarrow> 'io \<Rightarrow> LocalKV \<Rightarrow>
     ((rc_t \<times> object_info_t \<times> effect list) \<times> LocalKV \<times> 'io) result" where
  "pool_Publish now key user_ldo pool io t =
     rbind (pool_Publish_async now key user_ldo True pool io t) (\<lambda>((rc1, calls, effs), t1, io1).
       if rc1 \<noteq> KELPIE_OK then Inr ((rc1, Wipe_info, effs), t1, io1)
       else if calls = [] then Inl Deadlock
       else let (rc2, info) = last calls in Inr ((rc2, info, effs), t1, io1))"

definition pool_Want ::
  "u32 \<Rightarrow> key \<Rightarrow> callback_t option \<Rightarrow> 'io LocalPool \<Rightarrow> 'io \<Rightarrow> LocalKV \<Rightarrow>
     ((rc_t \<times> effect list) \<times> LocalKV \<times> 'io) result" where
  "pool_Want now key callback pool io t =
     (if IsWildcard key then Inl Runtime_error else lp_Want now key callback pool io t)"

definition pool_Need ::
  "nat \<Rightarrow> (nat \<Rightarrow> u32) \<Rightarrow> (nat \<Rightarrow> LocalKV) \<Rightarrow> key \<Rightarrow> ldo \<Rightarrow> 'io LocalPool \<Rightarrow> 'io \<Rightarrow>
     (rc_t \<times> ldo \<times> 'io) result option" where
  "pool_Need polls clock world key returned_ldo pool io =
     (if returned_ldo \<noteq> None then Some (Inl Assert_failed)
      else lp_Need polls clock world key returned_ldo pool io)"

definition pool_Compute ::
  "ComputeRegistry \<Rightarrow> u32 \<Rightarrow> key \<Rightarrow> string \<Rightarrow> string \<Rightarrow> ldo option \<Rightarrow> 'io LocalPool \<Rightarrow> LocalKV \<Rightarrow> ((rc_t \<times> ldo option) \<times> LocalKV) result" where
  "pool_Compute reg now key function_name function_args returned_ldo pool t =
     rbind (lp_Compute reg now key function_name function_args pool t) (\<lambda>((rc1, calls), t1).
       if rc1 \<noteq> KELPIE_OK then Inr ((rc1, returned_ldo), t1)
       else if calls = [] then Inl Deadlock
       else let (rc2, _, user_ldo) = last calls in Inr ((rc2, map_option (\<lambda>_. user_ldo) returned_ldo), t1))"

definition pool_BlockingDrop :: "u32 \<Rightarrow> key \<Rightarrow> 'io LocalPool \<Rightarrow> LocalKV \<Rightarrow> (rc_t \<times> LocalKV) result" where
  "pool_BlockingDrop now key pool t =
     rbind (lp_Drop now key True pool t) (\<lambda>((_, calls), t1).
       if calls = [] then Inl Deadlock
       else Inr (if hd calls then KELPIE_OK else KELPIE_ENOENT, t1))"

section \<open>Publishing through an i/o module\<close>

lemma put_split:
  "put now b key x f iom io t =
     rbind (put now b key x (and f (not WriteToIOM)) None io t) (\<lambda>((rc, info, effs), t1, _).
       if has_flag f WriteToIOM then
         (case iom of
            Some m \<Rightarrow> let (rc2, io1) = iom_WriteObject m b key x io
                      in Inr ((if rc = KELPIE_OK then rc2 else rc, info, effs), t1, io1)
          | None \<Rightarrow> Inr ((KELPIE_EIO, info, effs), t1, io))
       else Inr ((rc, info, effs), t1, io))"
proof -
  have f: "has_flag (and f (not WriteToIOM)) WriteToLocal = has_flag f WriteToLocal"
    "\<not> has_flag (and f (not WriteToIOM)) WriteToIOM"
    "has_flag (and f (not WriteToIOM)) EnableOverwrites = has_flag f EnableOverwrites"
    by (simp_all add: flag_bits bit_simps) (simp_all add: WriteToIOM_def bit_simps)
  have "put_lambda now x (and f (not WriteToIOM)) = put_lambda now x f"
    by (simp add: put_lambda_def fun_eq_iff f)
  then show ?thesis by (auto simp: put_def f Let_def rbind_def split: prod.splits option.splits)
qed

text \<open>What the pool relies on from the module it writes through.\<close>

locale write_through =
  fixes m :: "'io IomBase"
    and kept :: "'io \<Rightarrow> bucket_t \<Rightarrow> key \<Rightarrow> dataobject option"
    and ok :: "'io \<Rightarrow> bool"
    and key_ok :: "key \<Rightarrow> bool"
    and obj_ok :: "dataobject \<Rightarrow> bool"
  assumes writes: "ok io \<Longrightarrow> key_ok k \<Longrightarrow> obj_ok d \<Longrightarrow>
      \<exists>io'. iom_WriteObject m b k (Some d) io = (KELPIE_OK, io') \<and> ok io' \<and> kept io' = (kept io)(b := (kept io b)(k \<mapsto> fresh_copy d))"
    and reads: "ok io \<Longrightarrow> key_ok k \<Longrightarrow>
      \<exists>io'. iom_ReadObject m b k io = (case kept io b k of Some d \<Rightarrow> (KELPIE_OK, Some d, io') | None \<Rightarrow> (KELPIE_ENOENT, None, io'))
        \<and> ok io' \<and> kept io' = kept io"
begin

lemma publish:
  assumes "pool_iom pool = Some m" "has_flag (behavior_flags pool) WriteToLocal" "has_flag (behavior_flags pool) WriteToIOM"
    "lkv_inv t" "valid k" "\<not> IsWildcard k" "ok io" "key_ok k" "obj_ok d"
  obtains rc info effs t1 io1 where
    "pool_Publish now k (Some d) pool io t = Inr ((rc, info, effs), t1, io1)"
    "rc = (if stored (default_bucket pool) k t \<noteq> None \<and> \<not> has_flag (behavior_flags pool) EnableOverwrites
           then KELPIE_EEXIST else KELPIE_OK)"
    "lkv_inv t1" "ok io1"
    "put now (default_bucket pool) k (Some d) (behavior_flags pool) (Some m) io t = Inr ((rc, info, effs), t1, io1)"
    "kept io1 = (kept io)(default_bucket pool := (kept io (default_bucket pool))(k \<mapsto> fresh_copy d))"
proof -
  let ?b = "default_bucket pool" and ?f = "behavior_flags pool"
  let ?g = "and ?f (not WriteToIOM)"
  have g: "has_flag ?g WriteToLocal" "\<not> has_flag ?g WriteToIOM" "has_flag ?g EnableOverwrites = has_flag ?f EnableOverwrites"
    using assms(2) by (simp_all add: flag_bits bit_simps) (simp_all add: WriteToIOM_def bit_simps)
  obtain rc info effs t1 io0 where p: "put now ?b k (Some d) ?g None io t = Inr ((rc, info, effs), t1, io0)"
    using put_total [OF assms(5), of now ?b "Some d" ?g None io t] by blast
  note S = stored_put [OF assms(4,5) g(1) p]
  obtain io1 where w: "iom_WriteObject m ?b k (Some d) io = (KELPIE_OK, io1)" "ok io1"
      "kept io1 = (kept io)(?b := (kept io ?b)(k \<mapsto> fresh_copy d))"
    using writes [OF assms(7-9)] by blast
  have q: "put now ?b k (Some d) ?f (Some m) io t = Inr ((rc, info, effs), t1, io1)"
    using p w(1) assms(3) by (subst put_split) (simp add: rbind_def)
  show ?thesis
  proof (rule that [OF _ _ S(2) w(2) q w(3)])
    show "pool_Publish now k (Some d) pool io t = Inr ((rc, info, effs), t1, io1)"
      using q assms(1,6) by (simp add: pool_Publish_def pool_Publish_async_def lp_Publish_def rbind_def)
    show "rc = (if stored ?b k t \<noteq> None \<and> \<not> has_flag ?f EnableOverwrites then KELPIE_EEXIST else KELPIE_OK)"
      using S(4) [OF g(2)] g(3) by simp
  qed
qed

lemma want:
  assumes "pool_iom pool = Some m" "lkv_inv t" "valid k" "\<not> IsWildcard k" "ok io" "key_ok k"
    "kept io (default_bucket pool) k = Some d"
    "target_cell now CREATE_IF_MISSING (cell_at (default_bucket pool) k t) = Some (c, existed)"
    "availability c \<noteq> InLocalMemory" "availability c \<noteq> Requested"
  obtains info effs t1 io1 where
    "pool_Want now k (Some cb) pool io t = Inr ((KELPIE_OK, effs), t1, io1)"
    "effs = trigger_ops (waiting_ops_list c) (Some (Some d, info)) @
       map (\<lambda>f. Backburner f k (Some d) info) (callback_list c @ [cb])"
    "stored (default_bucket pool) k t1 = Some (Some d)" "lkv_inv t1" "ok io1" "kept io1 = kept io"
proof -
  let ?b = "default_bucket pool" and ?f = "behavior_flags pool"
  obtain rc e t1 where w: "wantLocal now ?b k False (Some cb) t = Inr ((rc, e), t1)"
    using want_total [OF assms(3), of now ?b False "Some cb" t] by blast
  note W = want_cell [OF assms(2,3,8) w]
  let ?c = "(appendCallbackList cb c)\<lparr>time_accessed := now\<rparr>"
  have rc: "rc = KELPIE_ENOENT" "e = []" and inv: "lkv_inv t1" and c1: "cell_at ?b k t1 = Some ?c"
    using W assms(9,10) by (auto simp: want_outcome_def)
  obtain io1 where r: "iom_ReadObject m ?b k io = (KELPIE_OK, Some d, io1)" "ok io1" "kept io1 = kept io"
    using reads [OF assms(5,6), of ?b] assms(7) by auto
  obtain rc2 info2 effs t2 io2 where p: "put now ?b k (Some d) ?f None io1 t1 = Inr ((rc2, info2, effs), t2, io2)"
    using put_total [OF assms(3), of now ?b "Some d" ?f None io1 t1] by blast
  have io2: "io2 = io1" using p by (auto simp: put_def Let_def split: if_splits prod.splits)
  have out: "cell_ldo (put_outcome now (Some d) ?f ?c) = Some d"
    using assms(9) by (simp add: put_outcome_simps appendCallbackList_def)
  obtain i where effs: "effs = trigger_ops (waiting_ops_list ?c) (Some (Some d, i)) @
      map (\<lambda>f. Backburner f k (Some d) i) (callback_list ?c)"
    using put_wakes(1) [OF inv assms(3) c1 p] unfolding out by blast
  have st: "stored ?b k t2 = Some (Some d)"
    using put_wakes(2) [OF inv assms(3) c1 p] unfolding out by (auto simp: stored_def)
  have "pool_Want now k (Some cb) pool io t = Inr ((KELPIE_OK, effs), t2, io1)"
    using w rc r(1) p io2 assms(1,4) by (simp add: pool_Want_def lp_Want_def rbind_def)
  then show ?thesis
    by (rule that [of effs t2 io1 i]) (use effs st put_inv [OF inv p] r in \<open>simp_all add: appendCallbackList_def\<close>)
qed

end

text \<open>
  The posix module as the store calls it.  An exception would leave the operation; the module is used
  where none is thrown.
\<close>
definition pio_module :: "posix_env \<Rightarrow> Pio IomBase" where
  "pio_module env =
     \<lparr>iom_WriteObject = \<lambda>b k x s. (case pio_WriteObject env b k x s of Inr r \<Rightarrow> r | Inl _ \<Rightarrow> (KELPIE_EIO, s)),
      iom_ReadObject = \<lambda>b k s. (case pio_ReadObject env b k (Some None) s of
          Inr (rc, p, s') \<Rightarrow> (rc, Option.bind p id, s') | Inl _ \<Rightarrow> (KELPIE_EIO, None, s)),
      iom_ListObjects = \<lambda>b k s. (case pio_ListObjects env b k oc_empty s of
          Inr (_, oc) \<Rightarrow> (oc, s) | Inl _ \<Rightarrow> (oc_empty, s)),
      iom_GetInfo = \<lambda>b k s. (case pio_GetInfo env b k s of
          Inr (rc, info) \<Rightarrow> (rc, info, s) | Inl _ \<Rightarrow> (KELPIE_EIO, Wipe_info, s))\<rparr>"

interpretation disk: write_through "pio_module env" pio_stored "pio_ok env" pio_key_ok pio_storable
  for env
proof
  fix io k d b assume "pio_ok env io" "pio_key_ok k" "pio_storable d"
  then show "\<exists>io'. iom_WriteObject (pio_module env) b k (Some d) io = (KELPIE_OK, io') \<and> pio_ok env io' \<and>
      pio_stored io' = (pio_stored io)(b := (pio_stored io b)(k \<mapsto> fresh_copy d))"
    using pio.wr_stores [of env io k d b] by (auto simp: pio_module_def)
next
  fix io k b assume "pio_ok env io" "pio_key_ok k"
  then show "\<exists>io'. iom_ReadObject (pio_module env) b k io = (case pio_stored io b k of
      Some d \<Rightarrow> (KELPIE_OK, Some d, io') | None \<Rightarrow> (KELPIE_ENOENT, None, io')) \<and> pio_ok env io' \<and> pio_stored io' = pio_stored io"
    using pio.rd_returns [of env io k b None] by (auto simp: pio_module_def split: option.splits)
qed

lemma drop_fresh:
  assumes "lkv_inv t" "valid k" "\<not> IsWildcard k" "cell_at (default_bucket pool) k t = None"
    "has_flag f WriteToLocal" "put now (default_bucket pool) k x f iom io t = Inr ((rc, info, effs), t1, io1)"
  obtains t2 where "pool_BlockingDrop now' k pool t1 = Inr (KELPIE_OK, t2)" "lkv_inv t2"
    "cell_at (default_bucket pool) k t2 = None"
proof -
  let ?b = "default_bucket pool"
  have tc: "target_cell now (if has_flag f WriteToLocal then CREATE_IF_MISSING else 0) (cell_at ?b k t) =
      Some (new_LocalKVCell now, False)"
    using assms(4,5) flag_tests(5) by (simp add: target_cell_def)
  obtain r where R: "\<And>b' k'. cell_at b' k' t1 = (if same_slot b' k' ?b k
        then Some ((put_outcome now x f (new_LocalKVCell now))\<lparr>callback_list := [], waiting_ops_list := [], time_accessed := now\<rparr>)
        else cell_at b' k' t)" "lkv_inv t1"
    using put_cell [OF assms(1,2) tc assms(6)] by metis
  define c where "c = (put_outcome now x f (new_LocalKVCell now))\<lparr>callback_list := [], waiting_ops_list := [], time_accessed := now\<rparr>"
  have c: "cell_at ?b k t1 = Some c" "cell_isDroppable now' c"
    using R(1) by (simp_all add: c_def cell_isDroppable_def put_outcome_def put_lambda_def new_LocalKVCell_def)
  show ?thesis
  proof (rule drop_exact [OF R(2) assms(2,3), of now' ?b])
    fix rc2 t2
    assume D: "drop_op now' ?b k t1 = Inr (rc2, t2)" "rc2 = (if cell_at ?b k t1 = None then KELPIE_ENOENT else KELPIE_OK)"
      "lkv_inv t2"
      "\<And>b' k'. cell_at b' k' t2 = (if same_slot b' k' ?b k
         then (case cell_at ?b k t1 of None \<Rightarrow> None
               | Some c \<Rightarrow> if cell_isDroppable now' c then None else Some (c\<lparr>drop_requested := True\<rparr>))
         else cell_at b' k' t1)"
    have "cell_at ?b k t2 = None" using D(4) [of ?b k] c by simp
    then show thesis using D(1-3) c by (intro that [of t2]) (simp_all add: pool_BlockingDrop_def lp_Drop_def rbind_def)
  qed
qed

lemma get_result:
  assumes "lkv_inv t" "valid k"
  shows "\<exists>info t1. get now b k t = Inr ((if stored b k t = None then KELPIE_ENOENT else KELPIE_OK, stored b k t, info), t1)"
  by (rule get_cell [OF assms, of now b]) blast

section \<open>Waiting for an object\<close>

lemma need_loop_waits:
  assumes "\<And>j. lkv_inv (world j)" "valid k" "\<And>j. i \<le> j \<Longrightarrow> j < i + n \<Longrightarrow> stored (default_bucket pool) k (world j) = None"
    "pool_iom pool = None \<or> \<not> first_time"
  shows "need_loop (n + p) i first_time clock world k pool io = need_loop p (i + n) first_time clock world k pool io"
  using assms(3)
proof (induction n arbitrary: i)
  case (Suc n)
  have "stored (default_bucket pool) k (world i) = None" using Suc.prems by simp
  then obtain info t1 where "get (clock i) (default_bucket pool) k (world i) = Inr ((KELPIE_ENOENT, None, info), t1)"
    using get_result [OF assms(1,2), of "clock i" "default_bucket pool" i] by auto
  moreover have "(if first_time then pool_iom pool else None) = None" using assms(4) by auto
  ultimately show ?case using Suc.IH [of "Suc i"] Suc.prems by simp
qed simp

lemma need_loop_found:
  assumes "lkv_inv (world i)" "valid k" "stored (default_bucket pool) k (world i) = Some x"
  shows "need_loop (Suc n) i first_time clock world k pool io = Some (Inr (KELPIE_OK, x, io))"
proof -
  obtain info t1 where "get (clock i) (default_bucket pool) k (world i) = Inr ((KELPIE_OK, Some x, info), t1)"
    using get_result [OF assms(1,2), of "clock i" "default_bucket pool"] assms(3) by auto
  then show ?thesis by (simp add: KELPIE_OK_def KELPIE_ENOENT_def)
qed

section \<open>Properties\<close>

definition demo_pool :: "Pio LocalPool" where
  "demo_pool = \<lparr>default_bucket = 5, pool_iom = Some (pio_module demo_env), pool_iom_hash = 0, behavior_flags = DefaultLocalIOM\<rparr>"

lemma demo_pool_ok:
  "pool_iom demo_pool = Some (pio_module demo_env)" "behavior_flags demo_pool = DefaultLocalIOM"
  "valid (Key ''a'' ''b'')" "\<not> IsWildcard (Key ''a'' ''b'')"
  "cell_at (default_bucket demo_pool) (Key ''a'' ''b'') (new_LocalKV\<lparr>configured := True\<rparr>) = None"
  by (simp_all add: demo_pool_def valid_def IsWildcard_def IsRowWildcard_def IsColWildcard_def StringEndsWith_star
      cell_at_def getRow_def new_LocalKV_def)

lemma DefaultLocalIOM_flags:
  "has_flag DefaultLocalIOM WriteToLocal" "has_flag DefaultLocalIOM WriteToIOM" "\<not> has_flag DefaultLocalIOM EnableOverwrites"
  by (simp_all add: DefaultLocalIOM_def has_flag_def flag_defs)

text \<open>
  C9. An object published through a local pool with a posix i/o module survives being dropped from memory:
  the publish succeeds, the blocking drop removes the object from the store, and a later want reads it
  from disk, puts it back into the store, returns success and runs the caller's callback exactly once, with the
  object (type, meta and data, in an allocation of its size).
\<close>
theorem publish_survives_drop:
  assumes "pool_iom pool = Some (pio_module env)" "behavior_flags pool = DefaultLocalIOM" "pio_ok env io"
    "lkv_inv t" "valid k" "\<not> IsWildcard k" "pio_key_ok k" "pio_storable d" "cell_at (default_bucket pool) k t = None"
  shows "case pool_Publish now k (Some d) pool io t of
      Inl _ \<Rightarrow> False
    | Inr ((rc1, _, effs1), t1, io1) \<Rightarrow> rc1 = KELPIE_OK \<and>
        stored (default_bucket pool) k t1 = Some (Some d) \<and> pio_stored io1 (default_bucket pool) k = Some (fresh_copy d) \<and>
        (case pool_BlockingDrop now' k pool t1 of
           Inl _ \<Rightarrow> False
         | Inr (rc2, t2) \<Rightarrow> rc2 = KELPIE_OK \<and> stored (default_bucket pool) k t2 = None \<and>
             (case pool_Want now'' k (Some cb) pool io1 t2 of
                Inl _ \<Rightarrow> False
              | Inr ((rc3, effs), t3, io3) \<Rightarrow> rc3 = KELPIE_OK \<and>
                  (\<exists>info. effs = [Backburner cb k (Some (fresh_copy d)) info]) \<and>
                  stored (default_bucket pool) k t3 = Some (Some (fresh_copy d)) \<and> lkv_inv t3 \<and> pio_ok env io3))"
proof -
  let ?b = "default_bucket pool"
  have f: "has_flag (behavior_flags pool) WriteToLocal" "has_flag (behavior_flags pool) WriteToIOM"
    using assms(2) DefaultLocalIOM_flags by auto
  obtain rc info effs t1 io1 where P: "pool_Publish now k (Some d) pool io t = Inr ((rc, info, effs), t1, io1)"
    "rc = (if stored ?b k t \<noteq> None \<and> \<not> has_flag (behavior_flags pool) EnableOverwrites then KELPIE_EEXIST else KELPIE_OK)"
    "lkv_inv t1" "pio_ok env io1"
    "put now ?b k (Some d) (behavior_flags pool) (Some (pio_module env)) io t = Inr ((rc, info, effs), t1, io1)"
    "pio_stored io1 = (pio_stored io)(?b := (pio_stored io ?b)(k \<mapsto> fresh_copy d))"
    using disk.publish [OF assms(1) f assms(4-6) assms(3) assms(7,8)] by metis
  have st: "stored ?b k t = None" using assms(9) by (simp add: stored_def)
  have st1: "stored ?b k t1 = Some (Some d)" using stored_put(1) [OF assms(4,5) f(1) P(5), of ?b k] st by simp
  obtain t2 where D: "pool_BlockingDrop now' k pool t1 = Inr (KELPIE_OK, t2)" "lkv_inv t2" "cell_at ?b k t2 = None"
    using drop_fresh [OF assms(4-6,9) f(1) P(5)] by blast
  have tc: "target_cell now'' CREATE_IF_MISSING (cell_at ?b k t2) = Some (new_LocalKVCell now'', False)"
    using D(3) flag_tests(5) by (simp add: target_cell_def)
  have new: "availability (new_LocalKVCell now'') \<noteq> InLocalMemory" "availability (new_LocalKVCell now'') \<noteq> Requested"
    by (simp_all add: new_LocalKVCell_def)
  have kept: "pio_stored io1 ?b k = Some (fresh_copy d)" using P(6) by simp
  obtain info3 effs3 t3 io3 where W: "pool_Want now'' k (Some cb) pool io1 t2 = Inr ((KELPIE_OK, effs3), t3, io3)"
    "effs3 = trigger_ops (waiting_ops_list (new_LocalKVCell now'')) (Some (Some (fresh_copy d), info3)) @
       map (\<lambda>f. Backburner f k (Some (fresh_copy d)) info3) (callback_list (new_LocalKVCell now'') @ [cb])"
    "stored ?b k t3 = Some (Some (fresh_copy d))" "lkv_inv t3" "pio_ok env io3"
    using disk.want [OF assms(1) D(2) assms(5,6) P(4) assms(7) kept tc new] by metis
  have "effs3 = [Backburner cb k (Some (fresh_copy d)) info3]" using W(2) by (simp add: new_LocalKVCell_def)
  then show ?thesis using P(1,2) st st1 kept D(1,3) W(1,3-5) by (simp add: stored_def)
qed

theorem publish_survives_drop_witness:
  "case pool_Publish 1 (Key ''a'' ''b'') (Some demo_object) demo_pool demo_pio (new_LocalKV\<lparr>configured := True\<rparr>) of
      Inl _ \<Rightarrow> False
    | Inr ((rc, _, effs), t1, io1) \<Rightarrow> rc = KELPIE_OK \<and>
        stored (default_bucket demo_pool) (Key ''a'' ''b'') t1 = Some (Some demo_object) \<and>
        pio_stored io1 (default_bucket demo_pool) (Key ''a'' ''b'') = Some demo_object \<and>
        (case pool_BlockingDrop 2 (Key ''a'' ''b'') demo_pool t1 of
           Inl _ \<Rightarrow> False
         | Inr (rc', t2) \<Rightarrow> rc' = KELPIE_OK \<and> stored (default_bucket demo_pool) (Key ''a'' ''b'') t2 = None \<and>
             (case pool_Want 3 (Key ''a'' ''b'') (Some 9) demo_pool io1 t2 of
                Inl _ \<Rightarrow> False
              | Inr ((rc'', effs), t3, io3) \<Rightarrow> rc'' = KELPIE_OK \<and>
                  (\<exists>info. effs = [Backburner 9 (Key ''a'' ''b'') (Some demo_object) info]) \<and>
                  stored (default_bucket demo_pool) (Key ''a'' ''b'') t3 = Some (Some demo_object) \<and>
                  lkv_inv t3 \<and> pio_ok demo_env io3))"
  by (rule publish_survives_drop [where d = demo_object, unfolded demo_object_ok(2)])
    (use demo_pool_ok demo_pio_ok demo_key_ok(1) demo_object_ok in auto)

text \<open>
  C40. A publish that is refused because the object is already in memory still overwrites the copy on disk: it
  reports \<^verbatim>\<open>KELPIE_EEXIST\<close> and memory keeps the old object, while the i/o module now holds the new one.
\<close>
theorem refused_publish_overwrites_disk:
  assumes "pool_iom pool = Some (pio_module env)" "behavior_flags pool = DefaultLocalIOM" "pio_ok env io"
    "lkv_inv t" "valid k" "\<not> IsWildcard k" "pio_key_ok k" "pio_storable d"
    "stored (default_bucket pool) k t = Some old"
  shows "case pool_Publish now k (Some d) pool io t of
      Inl _ \<Rightarrow> False
    | Inr ((rc, _, _), t1, io1) \<Rightarrow> rc = KELPIE_EEXIST \<and> stored (default_bucket pool) k t1 = Some old \<and>
        pio_stored io1 (default_bucket pool) k = Some (fresh_copy d)"
proof -
  let ?b = "default_bucket pool"
  have f: "has_flag (behavior_flags pool) WriteToLocal" "has_flag (behavior_flags pool) WriteToIOM"
    "\<not> has_flag (behavior_flags pool) EnableOverwrites"
    using assms(2) DefaultLocalIOM_flags by auto
  obtain rc info effs t1 io1 where P: "pool_Publish now k (Some d) pool io t = Inr ((rc, info, effs), t1, io1)"
    "rc = (if stored ?b k t \<noteq> None \<and> \<not> has_flag (behavior_flags pool) EnableOverwrites then KELPIE_EEXIST else KELPIE_OK)"
    "put now ?b k (Some d) (behavior_flags pool) (Some (pio_module env)) io t = Inr ((rc, info, effs), t1, io1)"
    "pio_stored io1 = (pio_stored io)(?b := (pio_stored io ?b)(k \<mapsto> fresh_copy d))"
    using disk.publish [OF assms(1) f(1,2) assms(4-6) assms(3) assms(7,8)] by metis
  have "stored ?b k t1 = Some old" using stored_put(1) [OF assms(4,5) f(1) P(3), of ?b k] assms(9) f(3) by simp
  then show ?thesis using P(1,2,4) assms(9) f(3) by simp
qed

definition demo_table :: LocalKV where
  "demo_table = (case put 1 5 (Key ''a'' ''b'') None WriteToLocal None () (new_LocalKV\<lparr>configured := True\<rparr>) of
     Inr (_, t, _) \<Rightarrow> t | Inl _ \<Rightarrow> new_LocalKV)"

lemma demo_table_ok: "lkv_inv demo_table \<and> stored (default_bucket demo_pool) (Key ''a'' ''b'') demo_table = Some None"
proof -
  have "lkv_inv demo_table \<and> stored 5 (Key ''a'' ''b'') demo_table = Some None" by code_simp
  then show ?thesis by (simp add: demo_pool_def)
qed

theorem refused_publish_overwrites_disk_witness:
  "case pool_Publish 2 (Key ''a'' ''b'') (Some demo_object) demo_pool demo_pio demo_table of
      Inl _ \<Rightarrow> False
    | Inr ((rc, _, _), t1, io1) \<Rightarrow> rc = KELPIE_EEXIST"
  using refused_publish_overwrites_disk [where pool = demo_pool and env = demo_env and io = demo_pio
      and k = "Key ''a'' ''b''" and d = demo_object and t = demo_table and now = 2 and old = None]
    demo_pool_ok demo_pio_ok demo_key_ok(1) demo_object_ok demo_table_ok
  by (auto split: sum.splits prod.splits)

text \<open>
  A blocking request for an object returns, with success, whenever some poll finds the object in the store: with that
  object when it is the first poll; with the object on disk when the store lacks it at the first poll and the i/o
  module has the key; and otherwise with the object the first successful poll finds.
\<close>
theorem need_returns:
  assumes "\<forall>j. lkv_inv (world j)" "valid k" "pool_iom pool = Some (pio_module env)" "pio_ok env io" "pio_key_ok k"
    "\<forall>j<i. stored (default_bucket pool) k (world j) = None" "stored (default_bucket pool) k (world i) = Some x" "i < polls"
  shows "case pool_Need polls clock world k None pool io of
      Some (Inr (rc, y, io')) \<Rightarrow> rc = KELPIE_OK \<and> pio_ok env io' \<and>
        y = (if i = 0 then x else case pio_stored io (default_bucket pool) k of Some d \<Rightarrow> Some d | None \<Rightarrow> x)
    | _ \<Rightarrow> False"
proof (cases i)
  case 0
  then obtain n where n: "polls = Suc n" using assms(8) by (cases polls) auto
  have "need_loop (Suc n) 0 True clock world k pool io = Some (Inr (KELPIE_OK, x, io))"
    using assms(1,7) 0 by (intro need_loop_found [OF _ assms(2)]) auto
  then show ?thesis using 0 n assms(4) by (simp add: pool_Need_def lp_Need_def del: need_loop.simps)
next
  case (Suc i')
  let ?b = "default_bucket pool"
  define p where "p = polls - Suc i"
  have n: "polls = Suc (i' + Suc p)" using assms(8) Suc by (simp add: p_def)
  have none: "stored ?b k (world 0) = None" using assms(6) Suc by simp
  obtain info t1 where g: "get (clock 0) ?b k (world 0) = Inr ((KELPIE_ENOENT, None, info), t1)"
    using get_result [of "world 0" k "clock 0" ?b] assms(1,2) none by auto
  obtain io1 where r: "iom_ReadObject (pio_module env) ?b k io = (case pio_stored io ?b k of
      Some d \<Rightarrow> (KELPIE_OK, Some d, io1) | None \<Rightarrow> (KELPIE_ENOENT, None, io1))" "pio_ok env io1"
    using disk.reads [OF assms(4,5), of ?b] by blast
  have "need_loop (i' + Suc p) (Suc 0) False clock world k pool io1 = need_loop (Suc p) (Suc 0 + i') False clock world k pool io1"
    using assms(1,6) Suc by (intro need_loop_waits [OF _ assms(2)]) auto
  also have "\<dots> = Some (Inr (KELPIE_OK, x, io1))"
    using assms(1,7) Suc by (intro need_loop_found [OF _ assms(2)]) auto
  finally have "need_loop (i' + Suc p) (Suc 0) False clock world k pool io1 = Some (Inr (KELPIE_OK, x, io1))" .
  then show ?thesis
    using g r assms(3) Suc unfolding pool_Need_def lp_Need_def n need_loop.simps
    by (cases "pio_stored io ?b k") (simp_all add: KELPIE_OK_def KELPIE_ENOENT_def del: need_loop.simps)
qed

definition demo_world :: "nat \<Rightarrow> LocalKV" where
  "demo_world j = (if j < 3 then new_LocalKV\<lparr>configured := True\<rparr> else demo_table)"

theorem need_returns_witness:
  "case pool_Need 7 (\<lambda>_. 1) demo_world (Key ''a'' ''b'') None demo_pool demo_pio of
      Some (Inr (rc, y, io')) \<Rightarrow> rc = KELPIE_OK \<and> y = None
    | _ \<Rightarrow> False"
proof -
  have w: "\<forall>j. lkv_inv (demo_world j)" "stored (default_bucket demo_pool) (Key ''a'' ''b'') (demo_world 3) = Some None"
    "\<forall>j<3. stored (default_bucket demo_pool) (Key ''a'' ''b'') (demo_world j) = None"
    using demo_table_ok demo_pool_ok(5) by (auto simp: demo_world_def stored_def)
  have "pio_stored demo_pio (default_bucket demo_pool) (Key ''a'' ''b'') = None" by (simp add: pio_stored_def demo_pio_def)
  then show ?thesis
    using need_returns [where world = demo_world and k = "Key ''a'' ''b''" and pool = demo_pool and env = demo_env
        and io = demo_pio and i = 3 and x = None and polls = 7 and clock = "\<lambda>_. 1"]
      w demo_pool_ok demo_pio_ok demo_key_ok(1)
    by (auto split: option.splits sum.splits prod.splits)
qed

end
