(* ===== verification/Opbox_Core.thy ===== *)
theory Opbox_Core
  imports Node_Ids
begin

text \<open>
  OpBox runs communication state machines, called ops.  This theory holds the message header
  (\<^verbatim>\<open>opbox/common/Message.cpp\<close>), the arguments of an update (\<^verbatim>\<open>opbox/common/OpArgs.cpp\<close>,
  \<^verbatim>\<open>OpArgs.hh\<close>), the registry of op types (\<^verbatim>\<open>opbox/common/OpRegistry.cpp\<close>), the mailbox counter
  (\<^verbatim>\<open>opbox/ops/Op.cpp\<close>) and the threaded core (\<^verbatim>\<open>opbox/core/OpBoxCoreThreaded.cpp\<close>) that owns the
  active ops and feeds them messages, completions and triggers.  An op is identified by its mailbox, which
  is drawn from a counter when the op is made.  The work handed to the backburner is the list \<open>work\<close>: the mailbox
  and the arguments the queued call captures.
\<close>

section \<open>Messages\<close>

type_synonym mailbox_t = u32

definition MAILBOX_UNSPECIFIED :: mailbox_t where
  "MAILBOX_UNSPECIFIED = 0"

record message_t =
  msg_src :: nodeid_t
  msg_dst :: nodeid_t
  src_mailbox :: mailbox_t
  dst_mailbox :: mailbox_t
  msg_op_id :: u32
  user_flags :: u16
  body_len :: u32

definition IsExpected_id :: "u32 \<Rightarrow> message_t \<Rightarrow> bool" where
  "IsExpected_id expected_op_id m = (msg_op_id m = expected_op_id)"

definition IsExpected_flags :: "u32 \<Rightarrow> u16 \<Rightarrow> message_t \<Rightarrow> bool" where
  "IsExpected_flags expected_op_id expected_flags m = (msg_op_id m = expected_op_id \<and> user_flags m = expected_flags)"

definition IsExpected_mask :: "u32 \<Rightarrow> u16 \<Rightarrow> u16 \<Rightarrow> message_t \<Rightarrow> bool" where
  "IsExpected_mask expected_op_id flag_mask expected_flags m =
     (msg_op_id m = expected_op_id \<and> and (user_flags m) flag_mask = expected_flags)"

definition SetStandardRequest :: "nodeid_t \<Rightarrow> nodeid_t \<Rightarrow> mailbox_t \<Rightarrow> u32 \<Rightarrow> u16 \<Rightarrow> u32 \<Rightarrow> message_t" where
  "SetStandardRequest my_id dst_node src_mb op_id flags len =
     \<lparr>msg_src = my_id, msg_dst = dst_node, src_mailbox = src_mb, dst_mailbox = MAILBOX_UNSPECIFIED,
      msg_op_id = op_id, user_flags = flags, body_len = len\<rparr>"

definition SetStandardReply :: "nodeid_t \<Rightarrow> message_t \<Rightarrow> u16 \<Rightarrow> u32 \<Rightarrow> message_t" where
  "SetStandardReply my_id hdr flags len =
     \<lparr>msg_src = my_id, msg_dst = msg_src hdr, src_mailbox = MAILBOX_UNSPECIFIED, dst_mailbox = src_mailbox hdr,
      msg_op_id = msg_op_id hdr, user_flags = flags, body_len = len\<rparr>"

text \<open>The compile-time hash that numbers the op types.\<close>

fun const_hash :: "string \<Rightarrow> u32" where
  "const_hash [] = 5381"
| "const_hash (c # cs) = scast (word_of_nat (ord c) :: u8) + 33 * const_hash cs"

definition const_hash16 :: "string \<Rightarrow> u16" where
  "const_hash16 s = ucast (xor (drop_bit 16 (const_hash s)) (and (const_hash s) 0xFFFF))"

section \<open>Updates\<close>

datatype UpdateType = Start | Incoming_message | User_trigger | Send_success | Get_success | Put_success | Atomic_success
  | Timeout | Send_error | Get_error | Put_error | Atomic_error

datatype WaitingType = Waiting_on_cq | Wait_on_user | Done_and_destroy | Error

text \<open>A message carries its body, a trigger the value its sender passes.\<close>

datatype ('m, 'u) OpArgs = Args_update UpdateType | Args_message 'm | Args_trigger 'u

fun args_type :: "('m, 'u) OpArgs \<Rightarrow> UpdateType" where
  "args_type (Args_update t) = t"
| "args_type (Args_message _) = Incoming_message"
| "args_type (Args_trigger _) = User_trigger"

definition VerifyTypeOrDie :: "UpdateType \<Rightarrow> ('m, 'u) OpArgs \<Rightarrow> unit result" where
  "VerifyTypeOrDie expected_type args = (if args_type args \<noteq> expected_type then Inl Runtime_error else Inr ())"

definition ExpectMessageOrDie :: "('m, 'u) OpArgs \<Rightarrow> 'm result" where
  "ExpectMessageOrDie args = (case args of Args_message m \<Rightarrow> Inr m | _ \<Rightarrow> Inl Runtime_error)"

definition ExpectTriggerOrDie :: "('m, 'u) OpArgs \<Rightarrow> 'u result" where
  "ExpectTriggerOrDie args = (case args of Args_trigger u \<Rightarrow> Inr u | _ \<Rightarrow> Inl Runtime_error)"

text \<open>A null pointer for the arguments stops the process.\<close>

definition SanityCheck :: "('m, 'u) OpArgs option \<Rightarrow> ('m, 'u) OpArgs result" where
  "SanityCheck args = (case args of None \<Rightarrow> Inl Halted | Some a \<Rightarrow> Inr a)"

section \<open>The op registry\<close>

record 'c OpRegistry =
  finalized :: bool
  known_ops_pre :: "(u32, 'c) omap"
  known_ops_post :: "(u32, 'c) omap"
  op_names_pre :: "(u32, string) omap"
  op_names_post :: "(u32, string) omap"

definition new_OpRegistry :: "'c OpRegistry" where
  "new_OpRegistry = \<lparr>finalized = False, known_ops_pre = [], known_ops_post = [], op_names_pre = [], op_names_post = []\<rparr>"

definition reg_Start :: "'c OpRegistry \<Rightarrow> 'c OpRegistry" where
  "reg_Start r = r\<lparr>finalized := True\<rparr>"

definition reg_Finish :: "'c OpRegistry \<Rightarrow> 'c OpRegistry result" where
  "reg_Finish r =
     (if \<not> finalized r then Inl Assert_failed
      else Inr (r\<lparr>known_ops_post := [], op_names_post := [], known_ops_pre := [], op_names_pre := [], finalized := False\<rparr>))"

definition RegisterOp :: "u32 \<Rightarrow> string \<Rightarrow> 'c \<Rightarrow> 'c OpRegistry \<Rightarrow> 'c OpRegistry result" where
  "RegisterOp op_id op_name func r =
     (if om_get (known_ops_pre r) op_id \<noteq> None then Inl Process_exit
      else if \<not> finalized r then
        Inr (r\<lparr>known_ops_pre := om_set op_id func (known_ops_pre r), op_names_pre := om_set op_id op_name (op_names_pre r)\<rparr>)
      else if om_get (known_ops_post r) op_id \<noteq> None then Inl Process_exit
      else Inr (r\<lparr>known_ops_post := om_set op_id func (known_ops_post r), op_names_post := om_set op_id op_name (op_names_post r)\<rparr>))"

definition GetOpName :: "u32 \<Rightarrow> 'c OpRegistry \<Rightarrow> string" where
  "GetOpName op_id r = (case om_get (op_names_pre r) op_id of
     Some n \<Rightarrow> n
   | None \<Rightarrow> (case om_get (op_names_post r) op_id of Some n \<Rightarrow> n | None \<Rightarrow> []))"

text \<open>An op that is not known is reported on the console and nothing else happens.\<close>

definition DeregisterOp :: "u32 \<Rightarrow> bool \<Rightarrow> 'c OpRegistry \<Rightarrow> 'c OpRegistry result" where
  "DeregisterOp op_id ignore_lock_warning r =
     (if om_get (known_ops_pre r) op_id \<noteq> None then
        if finalized r \<and> \<not> ignore_lock_warning then Inl Process_exit
        else Inr (r\<lparr>known_ops_pre := om_del op_id (known_ops_pre r), op_names_pre := om_del op_id (op_names_pre r)\<rparr>)
      else if om_get (known_ops_post r) op_id \<noteq> None then
        Inr (r\<lparr>known_ops_post := om_del op_id (known_ops_post r), op_names_post := om_del op_id (op_names_post r)\<rparr>)
      else Inr r)"

definition CreateOp :: "u32 \<Rightarrow> 'c OpRegistry \<Rightarrow> 'c option" where
  "CreateOp op_id r = (case om_get (known_ops_pre r) op_id of
     Some c \<Rightarrow> Some c
   | None \<Rightarrow> om_get (known_ops_post r) op_id)"

section \<open>The core\<close>

record ('op, 'm, 'u) OpBoxCore =
  core_initialized :: bool
  core_running :: bool
  shutdown_requested :: bool
  next_mailbox :: mailbox_t
  active_ops :: "(mailbox_t, 'op) omap"
  work :: "(mailbox_t \<times> ('m, 'u) OpArgs) list"

definition new_OpBoxCore :: "('op, 'm, 'u) OpBoxCore" where
  "new_OpBoxCore = \<lparr>core_initialized = False, core_running = False, shutdown_requested = False, next_mailbox = 1,
     active_ops = [], work = []\<rparr>"

definition core_init :: "('op, 'm, 'u) OpBoxCore \<Rightarrow> ('op, 'm, 'u) OpBoxCore result" where
  "core_init c = (if core_initialized c then Inl Assert_failed else Inr (c\<lparr>core_initialized := True\<rparr>))"

definition core_start :: "('op, 'm, 'u) OpBoxCore \<Rightarrow> ('op, 'm, 'u) OpBoxCore result" where
  "core_start c = (if \<not> core_initialized c then Inl Assert_failed else Inr (c\<lparr>core_running := True\<rparr>))"

text \<open>
  The loop erases from the map it walks, so with any op left its next step advances an iterator to the
  element just erased.
\<close>
definition core_finish :: "('op, 'm, 'u) OpBoxCore \<Rightarrow> ('op, 'm, 'u) OpBoxCore result" where
  "core_finish c =
     (if \<not> (core_initialized c \<and> core_running c) then Inl Assert_failed
      else if active_ops c \<noteq> [] then Inl Undefined_behaviour
      else Inr (c\<lparr>shutdown_requested := True, core_initialized := False, core_running := False\<rparr>))"

definition getActiveOp :: "mailbox_t \<Rightarrow> ('op, 'm, 'u) OpBoxCore \<Rightarrow> 'op option" where
  "getActiveOp mailbox c = (if mailbox = 0 then None else om_get (active_ops c) mailbox)"

text \<open>
  The mailbox counter of the process, and the mailbox of an op that may not have one yet.  An op is given by
  its mailbox, zero while it has none, and by the op as it is once its mailbox is known.
\<close>

definition GetNextMailbox :: "('op, 'm, 'u) OpBoxCore \<Rightarrow> mailbox_t \<times> ('op, 'm, 'u) OpBoxCore" where
  "GetNextMailbox c = (next_mailbox c, c\<lparr>next_mailbox := next_mailbox c + 1\<rparr>)"

definition GetAssignedMailbox :: "mailbox_t \<Rightarrow> ('op, 'm, 'u) OpBoxCore \<Rightarrow> mailbox_t \<times> ('op, 'm, 'u) OpBoxCore" where
  "GetAssignedMailbox mailbox c = (if mailbox = MAILBOX_UNSPECIFIED then GetNextMailbox c else (mailbox, c))"

definition addActiveOp ::
  "mailbox_t \<Rightarrow> (mailbox_t \<Rightarrow> 'op) \<Rightarrow> ('op, 'm, 'u) OpBoxCore \<Rightarrow> (mailbox_t \<times> ('op, 'm, 'u) OpBoxCore) result" where
  "addActiveOp op_mailbox mk c =
     (let (mailbox, c1) = GetAssignedMailbox op_mailbox c in
      if mailbox = 0 then Inl Assert_failed
      else Inr (mailbox, c1\<lparr>active_ops := om_set mailbox (mk mailbox) (active_ops c1)\<rparr>))"

definition endActiveOp :: "mailbox_t \<Rightarrow> ('op, 'm, 'u) OpBoxCore \<Rightarrow> ('op, 'm, 'u) OpBoxCore result" where
  "endActiveOp mailbox c =
     (if mailbox = 0 then Inl Assert_failed else Inr (c\<lparr>active_ops := om_del mailbox (active_ops c)\<rparr>))"

definition AddWork :: "mailbox_t \<Rightarrow> ('m, 'u) OpArgs \<Rightarrow> ('op, 'm, 'u) OpBoxCore \<Rightarrow> ('op, 'm, 'u) OpBoxCore" where
  "AddWork mailbox args c = c\<lparr>work := work c @ [(mailbox, args)]\<rparr>"

definition GetNumberOfActiveOps :: "('op \<Rightarrow> u32) \<Rightarrow> u32 \<Rightarrow> ('op, 'm, 'u) OpBoxCore \<Rightarrow> nat" where
  "GetNumberOfActiveOps getOpID op_id c =
     (if op_id = 0 then length (active_ops c) else length (filter (\<lambda>(_, op). getOpID op = op_id) (active_ops c)))"

definition LaunchOp :: "mailbox_t \<Rightarrow> (mailbox_t \<Rightarrow> 'op) \<Rightarrow> ('op, 'm, 'u) OpBoxCore \<Rightarrow> (mailbox_t \<times> ('op, 'm, 'u) OpBoxCore) result" where
  "LaunchOp op_mailbox mk c =
     (if \<not> (core_initialized c \<and> core_running c) then Inl Assert_failed
      else rbind (addActiveOp op_mailbox mk c) (\<lambda>(mailbox, c1). Inr (mailbox, AddWork mailbox (Args_update Start) c1)))"

text \<open>\<open>header\<close> reads the header of a message, \<open>create\<close> is the registry's table of constructors.\<close>

definition HandleIncomingMessage ::
  "('m \<Rightarrow> message_t) \<Rightarrow> (u32 \<Rightarrow> (mailbox_t \<Rightarrow> 'op) option) \<Rightarrow> 'm \<Rightarrow> ('op, 'm, 'u) OpBoxCore \<Rightarrow> ('op, 'm, 'u) OpBoxCore result" where
  "HandleIncomingMessage header create m c =
     (let my_mailbox = dst_mailbox (header m) in
      if my_mailbox = 0 then
        (case create (msg_op_id (header m)) of
           None \<Rightarrow> Inl Halted
         | Some mk \<Rightarrow> rbind (addActiveOp MAILBOX_UNSPECIFIED mk c) (\<lambda>(mailbox, c1). Inr (AddWork mailbox (Args_message m) c1)))
      else
        (case getActiveOp my_mailbox c of
           None \<Rightarrow> Inl Halted
         | Some _ \<Rightarrow> Inr (AddWork my_mailbox (Args_message m) c)))"

text \<open>The network's completion callback holds a pointer to its op; an op that has been deleted cannot be read.\<close>

definition UpdateOp :: "mailbox_t \<Rightarrow> UpdateType \<Rightarrow> ('op, 'm, 'u) OpBoxCore \<Rightarrow> ('op, 'm, 'u) OpBoxCore result" where
  "UpdateOp mailbox t c =
     (case getActiveOp mailbox c of
        None \<Rightarrow> Inl Undefined_behaviour
      | Some _ \<Rightarrow> Inr (AddWork mailbox (Args_update t) c))"

definition core_TriggerOp :: "mailbox_t \<Rightarrow> 'u option \<Rightarrow> ('op, 'm, 'u) OpBoxCore \<Rightarrow> (int \<times> ('op, 'm, 'u) OpBoxCore) result" where
  "core_TriggerOp mailbox arg c =
     rbind (SanityCheck (map_option Args_trigger arg)) (\<lambda>args.
       case getActiveOp mailbox c of
         None \<Rightarrow> Inr (-1, c)
       | Some _ \<Rightarrow> Inr (0, AddWork mailbox args c))"

text \<open>
  One queued call.  \<open>update\<close> is the op's virtual \<^verbatim>\<open>Update\<close>; \<open>env\<close> is what it reads and writes outside the
  op.
\<close>
definition doAction ::
  "(('m, 'u) OpArgs \<Rightarrow> 'op \<Rightarrow> 'e \<Rightarrow> (WaitingType \<times> 'op \<times> 'e) result) \<Rightarrow>
     mailbox_t \<Rightarrow> ('m, 'u) OpArgs \<Rightarrow> 'e \<Rightarrow> ('op, 'm, 'u) OpBoxCore \<Rightarrow> (int \<times> 'e \<times> ('op, 'm, 'u) OpBoxCore) result" where
  "doAction update mailbox args env c =
     (case getActiveOp mailbox c of
        None \<Rightarrow> Inr (-1, env, c)
      | Some op \<Rightarrow>
          rbind (update args op env) (\<lambda>(rc, op1, env1).
            let c1 = c\<lparr>active_ops := om_set mailbox op1 (active_ops c)\<rparr> in
            case rc of
              Done_and_destroy \<Rightarrow> rbind (endActiveOp mailbox c1) (\<lambda>c2. Inr (0, env1, c2))
            | Error \<Rightarrow> Inl Process_exit
            | _ \<Rightarrow> Inr (0, env1, c1)))"

section \<open>Mailboxes and the life of an op\<close>

definition core_inv :: "('op, 'm, 'u) OpBoxCore \<Rightarrow> bool" where
  "core_inv c = (om_inv (active_ops c) \<and> next_mailbox c \<noteq> 0 \<and>
     (\<forall>m \<in> fst ` set (active_ops c). m \<noteq> 0 \<and> m < next_mailbox c))"

text \<open>The counter can be advanced once more without wrapping.\<close>

definition mailbox_left :: "('op, 'm, 'u) OpBoxCore \<Rightarrow> bool" where
  "mailbox_left c = (next_mailbox c + 1 \<noteq> 0)"

lemma new_core_inv: "core_inv new_OpBoxCore"
  by (simp add: core_inv_def new_OpBoxCore_def)

lemma core_inv_om: "core_inv c \<Longrightarrow> om_inv (active_ops c)"
  by (simp add: core_inv_def)

lemma fresh_mailbox: "core_inv c \<Longrightarrow> om_get (active_ops c) (next_mailbox c) = None"
  by (force simp: core_inv_def map_of_eq_None_iff)

lemma active_nonzero: "core_inv c \<Longrightarrow> om_get (active_ops c) m = Some op \<Longrightarrow> m \<noteq> 0 \<and> m < next_mailbox c"
  by (auto simp: core_inv_def dest!: map_of_SomeD)

lemma getActiveOp_get: "core_inv c \<Longrightarrow> getActiveOp m c = om_get (active_ops c) m"
  by (auto simp: getActiveOp_def dest: active_nonzero split: if_splits) (metis active_nonzero not_None_eq)

lemma AddWork_simps [simp]:
  "active_ops (AddWork m a c) = active_ops c" "next_mailbox (AddWork m a c) = next_mailbox c"
  "work (AddWork m a c) = work c @ [(m, a)]" "core_running (AddWork m a c) = core_running c"
  "core_initialized (AddWork m a c) = core_initialized c" "core_inv (AddWork m a c) = core_inv c"
  by (simp_all add: AddWork_def core_inv_def)

lemma core_inv_set_ops:
  "core_inv c \<Longrightarrow> m \<noteq> 0 \<Longrightarrow> m < next_mailbox c \<Longrightarrow> core_inv (c\<lparr>active_ops := om_set m op (active_ops c)\<rparr>)"
  by (auto simp: core_inv_def set_om_set [simplified])

lemma core_inv_del_ops: "core_inv c \<Longrightarrow> core_inv (c\<lparr>active_ops := om_del m (active_ops c)\<rparr>)"
  by (auto simp: core_inv_def om_del_def)

lemma core_inv_next: "core_inv c \<Longrightarrow> mailbox_left c \<Longrightarrow> core_inv (c\<lparr>next_mailbox := next_mailbox c + 1\<rparr>)"
  using word_inc_less [of "next_mailbox c"] by (fastforce simp: core_inv_def mailbox_left_def)

lemma core_inv_work [simp]: "core_inv (c\<lparr>work := w\<rparr>) = core_inv c"
  by (simp add: core_inv_def)

lemma addActiveOp_new:
  assumes "core_inv c" "mailbox_left c"
  shows "addActiveOp MAILBOX_UNSPECIFIED mk c =
           Inr (next_mailbox c, c\<lparr>next_mailbox := next_mailbox c + 1,
                  active_ops := om_set (next_mailbox c) (mk (next_mailbox c)) (active_ops c)\<rparr>)"
    and "core_inv (c\<lparr>next_mailbox := next_mailbox c + 1, active_ops := om_set (next_mailbox c) op (active_ops c)\<rparr>)"
proof -
  have "next_mailbox c \<noteq> 0" using assms(1) by (simp add: core_inv_def)
  then show "addActiveOp MAILBOX_UNSPECIFIED mk c =
           Inr (next_mailbox c, c\<lparr>next_mailbox := next_mailbox c + 1,
                  active_ops := om_set (next_mailbox c) (mk (next_mailbox c)) (active_ops c)\<rparr>)"
    by (simp add: addActiveOp_def GetAssignedMailbox_def GetNextMailbox_def)
  show "core_inv (c\<lparr>next_mailbox := next_mailbox c + 1, active_ops := om_set (next_mailbox c) op (active_ops c)\<rparr>)"
    using core_inv_set_ops [OF core_inv_next [OF assms] \<open>next_mailbox c \<noteq> 0\<close>, of op] word_inc_less [of "next_mailbox c"] assms(2)
    by (simp add: mailbox_left_def)
qed

lemma doAction_run:
  assumes "core_inv c" "om_get (active_ops c) m = Some op" "update args op env = Inr (rc, op1, env1)"
  shows "rc = Done_and_destroy \<Longrightarrow>
           doAction update m args env c = Inr (0, env1, c\<lparr>active_ops := om_del m (om_set m op1 (active_ops c))\<rparr>)"
    and "rc = Waiting_on_cq \<or> rc = Wait_on_user \<Longrightarrow>
           doAction update m args env c = Inr (0, env1, c\<lparr>active_ops := om_set m op1 (active_ops c)\<rparr>)"
  using assms active_nonzero [OF assms(1,2)]
  by (auto simp: doAction_def getActiveOp_get endActiveOp_def)

text \<open>
  C25. On a running core with a mailbox left, launching an op gives it a mailbox no active op has,
  leaves every other op in place, and queues its start.  A message, a completion or a trigger for
  that mailbox is queued behind it.  Once its update reports that it is done the op is gone: a
  trigger then returns -1, queued calls are skipped, a message stops the process, and a completion
  uses the deleted op.
\<close>
theorem op_life_cycle:
  assumes "core_inv c" "core_initialized c" "core_running c" "mailbox_left c"
  shows "case LaunchOp MAILBOX_UNSPECIFIED mk c of
      Inl _ \<Rightarrow> False
    | Inr (m, c1) \<Rightarrow>
        core_inv c1 \<and> m \<noteq> 0 \<and> getActiveOp m c = None \<and> getActiveOp m c1 = Some (mk m) \<and>
        (\<forall>m'. m' \<noteq> m \<longrightarrow> getActiveOp m' c1 = getActiveOp m' c) \<and>
        work c1 = work c @ [(m, Args_update Start)] \<and>
        (\<forall>msg. dst_mailbox (header msg) = m \<longrightarrow>
           HandleIncomingMessage header create msg c1 = Inr (AddWork m (Args_message msg) c1)) \<and>
        UpdateOp m t c1 = Inr (AddWork m (Args_update t) c1) \<and>
        core_TriggerOp m (Some u) c1 = Inr (0, AddWork m (Args_trigger u) c1) \<and>
        (\<forall>args op1 env1. update args (mk m) env = Inr (Done_and_destroy, op1, env1) \<longrightarrow>
           (case doAction update m args env c1 of
              Inl _ \<Rightarrow> False
            | Inr (rc, env2, c2) \<Rightarrow>
                rc = 0 \<and> env2 = env1 \<and> core_inv c2 \<and> work c2 = work c1 \<and>
                (\<forall>m'. getActiveOp m' c2 = (if m' = m then None else getActiveOp m' c)) \<and>
                core_TriggerOp m (Some u) c2 = Inr (-1, c2) \<and>
                (\<forall>args' env'. doAction update m args' env' c2 = Inr (-1, env', c2)) \<and>
                (\<forall>msg. dst_mailbox (header msg) = m \<longrightarrow> HandleIncomingMessage header create msg c2 = Inl Halted) \<and>
                UpdateOp m t c2 = Inl Undefined_behaviour))"
proof -
  let ?m = "next_mailbox c"
  let ?c0 = "c\<lparr>next_mailbox := ?m + 1, active_ops := om_set ?m (mk ?m) (active_ops c)\<rparr>"
  let ?c1 = "AddWork ?m (Args_update Start) ?c0"
  have L: "LaunchOp MAILBOX_UNSPECIFIED mk c = Inr (?m, ?c1)"
    using addActiveOp_new [OF assms(1,4)] assms(2,3) by (simp add: LaunchOp_def)
  have inv: "core_inv ?c1" using addActiveOp_new(2) [OF assms(1,4), of "mk ?m"] by simp
  have m: "?m \<noteq> 0" using assms(1) by (simp add: core_inv_def)
  have g: "om_get (active_ops ?c1) = (om_get (active_ops c))(?m \<mapsto> mk ?m)"
    using core_inv_om [OF assms(1)] by (simp add: om_get_om_set)
  let ?ops = "\<lambda>op1. om_del ?m (om_set ?m op1 (active_ops ?c1))"
  have d: "om_get (?ops op1) = (om_get (active_ops c))(?m := None)" for op1
    using core_inv_om [OF inv] g by (simp add: om_get_om_del om_get_om_set)
  have end_inv: "core_inv (?c1\<lparr>active_ops := ?ops op1\<rparr>)" for op1
    using core_inv_del_ops [OF core_inv_set_ops [OF inv m, of op1], of ?m] active_nonzero [OF inv, of ?m "mk ?m"] g by simp
  have run: "doAction update ?m args env ?c1 = Inr (0, env1, ?c1\<lparr>active_ops := ?ops op1\<rparr>)"
    if "update args (mk ?m) env = Inr (Done_and_destroy, op1, env1)" for args op1 env1
    using doAction_run(1) [where update = update, OF inv _ that] g by simp
  have gone: "getActiveOp m' (?c1\<lparr>active_ops := ?ops op1\<rparr>) = (if m' = ?m then None else getActiveOp m' c)" for m' op1
    unfolding getActiveOp_get [OF end_inv] getActiveOp_get [OF assms(1)] using d by simp
  have act: "getActiveOp m' ?c1 = (if m' = ?m then Some (mk ?m) else getActiveOp m' c)" for m'
    using g by (simp add: getActiveOp_get [OF inv] getActiveOp_get [OF assms(1)])
  show ?thesis
    unfolding L
    using inv m act gone run end_inv fresh_mailbox [OF assms(1)]
    by (auto simp: HandleIncomingMessage_def UpdateOp_def core_TriggerOp_def SanityCheck_def Let_def
        getActiveOp_get [OF assms(1)] doAction_def)
qed

text \<open>An op that counts its updates and finishes with the first one; messages are bare headers.\<close>

definition demo_core :: "(nat, message_t, nat) OpBoxCore" where
  "demo_core = \<lparr>core_initialized = True, core_running = True, shutdown_requested = False, next_mailbox = 4,
     active_ops = [(2, 7)], work = []\<rparr>"

definition demo_update :: "(message_t, nat) OpArgs \<Rightarrow> nat \<Rightarrow> nat \<Rightarrow> (WaitingType \<times> nat \<times> nat) result" where
  "demo_update args op env = Inr (Done_and_destroy, op + 1, env + 1)"

theorem op_life_cycle_witness:
  "core_inv demo_core \<and> core_initialized demo_core \<and> core_running demo_core \<and> mailbox_left demo_core \<and>
   (case LaunchOp MAILBOX_UNSPECIFIED (\<lambda>m. 0) demo_core of
      Inl _ \<Rightarrow> False
    | Inr (m, c1) \<Rightarrow> m = 4 \<and> getActiveOp m c1 = Some 0 \<and> getActiveOp 2 c1 = Some 7 \<and>
        (case doAction demo_update m (Args_update Start) 10 c1 of
           Inl _ \<Rightarrow> False | Inr (rc, env2, c2) \<Rightarrow> rc = 0 \<and> env2 = 11 \<and> getActiveOp m c2 = None))"
proof -
  have h: "core_inv demo_core" "core_initialized demo_core" "core_running demo_core" "mailbox_left demo_core"
    by (simp_all add: demo_core_def core_inv_def mailbox_left_def)
  have a: "LaunchOp MAILBOX_UNSPECIFIED (\<lambda>m. 0) demo_core = Inr (4, AddWork 4 (Args_update Start)
      (demo_core\<lparr>next_mailbox := 5, active_ops := [(2, 7), (4, 0)]\<rparr>))"
    by (simp add: LaunchOp_def addActiveOp_def GetAssignedMailbox_def GetNextMailbox_def demo_core_def MAILBOX_UNSPECIFIED_def)
  have b: "doAction demo_update 4 (Args_update Start) 10 (AddWork 4 (Args_update Start)
      (demo_core\<lparr>next_mailbox := 5, active_ops := [(2, 7), (4, 0)]\<rparr>)) = Inr (0, 11, AddWork 4 (Args_update Start)
      (demo_core\<lparr>next_mailbox := 5, active_ops := [(2, 7)]\<rparr>))"
    by (simp add: doAction_def demo_update_def getActiveOp_def endActiveOp_def om_del_def demo_core_def AddWork_def)
  note P = op_life_cycle [OF h, of "\<lambda>m. 0" id "\<lambda>_. None" Get_success 5 demo_update 10, unfolded a]
  have "getActiveOp 4 (AddWork 4 (Args_update Start) (demo_core\<lparr>next_mailbox := 5, active_ops := [(2, 7), (4, 0)]\<rparr>)) = Some 0"
    using P by simp
  then show ?thesis using h by (simp add: a b getActiveOp_def)
qed

section \<open>The registry\<close>

definition reg_inv :: "'c OpRegistry \<Rightarrow> bool" where
  "reg_inv r = (om_inv (known_ops_pre r) \<and> om_inv (known_ops_post r) \<and> om_inv (op_names_pre r) \<and> om_inv (op_names_post r) \<and>
     fst ` set (known_ops_pre r) \<inter> fst ` set (known_ops_post r) = {} \<and>
     fst ` set (op_names_pre r) = fst ` set (known_ops_pre r) \<and> fst ` set (op_names_post r) = fst ` set (known_ops_post r) \<and>
     (\<not> finalized r \<longrightarrow> known_ops_post r = []))"

lemma new_reg_inv: "reg_inv new_OpRegistry"
  by (simp add: reg_inv_def new_OpRegistry_def)

lemma om_none_iff: "om_get m k = None \<longleftrightarrow> k \<notin> fst ` set m"
  by (simp add: map_of_eq_None_iff)

lemma om_del_keys: "fst ` set (om_del k m) = fst ` set m - {k}"
  by (force simp: om_del_def)

lemma om_set_keys: "fst ` set (om_set k v m) = insert k (fst ` set m)"
  using set_om_set [of k v m] by simp

lemma RegisterOp_inv:
  assumes "reg_inv r" "RegisterOp i n f r = Inr r'"
  shows "reg_inv r'"
proof (cases "finalized r")
  case False
  then have "r' = r\<lparr>known_ops_pre := om_set i f (known_ops_pre r), op_names_pre := om_set i n (op_names_pre r)\<rparr>"
    using assms(2) by (simp add: RegisterOp_def split: if_splits)
  then show ?thesis using assms(1) False by (simp add: reg_inv_def om_set_keys om_inv_om_set)
next
  case True
  then have "r' = r\<lparr>known_ops_post := om_set i f (known_ops_post r), op_names_post := om_set i n (op_names_post r)\<rparr>"
    and "i \<notin> fst ` set (known_ops_pre r)"
    using assms(2) by (simp_all add: RegisterOp_def om_none_iff split: if_splits)
  then show ?thesis using assms(1) True by (simp add: reg_inv_def om_set_keys om_inv_om_set)
qed

text \<open>
  Registering an op that is not known makes it, and only it, constructible under its id and
  name, before the start as well as after it; registering an id again exits the process; taking the
  registration back restores what was known, except that an op registered before the start can only
  be taken back with the override flag once the core runs.
\<close>
theorem registry_register:
  assumes "reg_inv r"
  shows "case RegisterOp i n f r of
      Inl e \<Rightarrow> e = Process_exit \<and> CreateOp i r \<noteq> None
    | Inr r1 \<Rightarrow> CreateOp i r = None \<and> reg_inv r1 \<and> CreateOp i r1 = Some f \<and> GetOpName i r1 = n \<and>
        (\<forall>j. j \<noteq> i \<longrightarrow> CreateOp j r1 = CreateOp j r \<and> GetOpName j r1 = GetOpName j r) \<and>
        RegisterOp i n' f' (reg_Start r1) = Inl Process_exit \<and>
        (case DeregisterOp i ign (reg_Start r1) of
           Inl e \<Rightarrow> e = Process_exit \<and> \<not> finalized r \<and> \<not> ign
         | Inr r2 \<Rightarrow> (finalized r \<or> ign) \<and> (\<forall>j. CreateOp j r2 = CreateOp j r \<and> GetOpName j r2 = GetOpName j r))"
proof -
  have om: "om_inv (known_ops_pre r)" "om_inv (known_ops_post r)" "om_inv (op_names_pre r)" "om_inv (op_names_post r)"
    using assms by (simp_all add: reg_inv_def)
  have pre: "om_get (op_names_pre r) i = None \<longleftrightarrow> om_get (known_ops_pre r) i = None"
    and post: "om_get (op_names_post r) i = None \<longleftrightarrow> om_get (known_ops_post r) i = None"
    using assms by (auto simp: reg_inv_def om_none_iff)
  note S = om_get_om_set [OF om(1)] om_get_om_set [OF om(2)] om_get_om_set [OF om(3)] om_get_om_set [OF om(4)] om_get_om_del
  show ?thesis
  proof (cases "RegisterOp i n f r")
    case (Inl e)
    then show ?thesis by (auto simp: RegisterOp_def CreateOp_def split: if_splits option.splits)
  next
    case (Inr r1)
    have none: "om_get (known_ops_pre r) i = None" using Inr by (auto simp: RegisterOp_def split: if_splits)
    note inv = RegisterOp_inv [OF assms Inr]
    show ?thesis
    proof (cases "finalized r")
      case False
      then have r1: "r1 = r\<lparr>known_ops_pre := om_set i f (known_ops_pre r), op_names_pre := om_set i n (op_names_pre r)\<rparr>"
        using Inr none by (simp add: RegisterOp_def)
      show ?thesis
        using none pre post inv False assms by (cases "known_ops_post r")
          (auto simp: Inr r1 S CreateOp_def GetOpName_def RegisterOp_def DeregisterOp_def reg_Start_def reg_inv_def split: option.splits)
    next
      case True
      then have npost: "om_get (known_ops_post r) i = None"
        and r1: "r1 = r\<lparr>known_ops_post := om_set i f (known_ops_post r), op_names_post := om_set i n (op_names_post r)\<rparr>"
        using Inr none by (auto simp: RegisterOp_def split: if_splits)
      show ?thesis
        using none npost pre post inv True
        by (auto simp: Inr r1 S CreateOp_def GetOpName_def RegisterOp_def DeregisterOp_def reg_Start_def split: option.splits)
    qed
  qed
qed

definition demo_registry :: "nat OpRegistry" where
  "demo_registry = \<lparr>finalized = True, known_ops_pre = [(5, 50)], known_ops_post = [], op_names_pre = [(5, ''OpPing'')],
     op_names_post = []\<rparr>"

theorem registry_register_witness:
  "reg_inv demo_registry \<and>
   (case RegisterOp 9 ''OpPong'' 90 demo_registry of
      Inl _ \<Rightarrow> False
    | Inr r1 \<Rightarrow> CreateOp 9 r1 = Some 90 \<and> CreateOp 5 r1 = Some 50 \<and> GetOpName 9 r1 = ''OpPong'')"
proof -
  have h: "reg_inv demo_registry" by (simp add: reg_inv_def demo_registry_def)
  have "RegisterOp 9 ''OpPong'' 90 demo_registry = Inr (demo_registry\<lparr>known_ops_post := [(9, 90)], op_names_post := [(9, ''OpPong'')]\<rparr>)"
    by (simp add: RegisterOp_def demo_registry_def)
  then show ?thesis
    using h registry_register [where i = 9 and n = "''OpPong''" and f = 90 and n' = "[]" and f' = 0 and ign = True, OF h]
    by (auto simp: CreateOp_def demo_registry_def)
qed

end
