(* ===== verification/Kelpie_Msg.thy ===== *)
theory Kelpie_Msg
  imports Opbox_Core Kelpie_Types Lunasa_Heap
begin

text \<open>
  The messages of the direct ops (\<^verbatim>\<open>kelpie/ops/direct/msg_direct.hh\<close> and \<^verbatim>\<open>.cpp\<close>):
  a request without a buffer, a request or reply that carries a remote buffer, and a status reply.
  The strings of a message are its trailing bytes, cut up by the sizes in its fixed part.  A remote
  buffer (\<^verbatim>\<open>opbox/net/net.cpp\<close>, \<^verbatim>\<open>GetRdmaPtr\<close>) names memory an op of its node holds: the
  object the op keeps in \<^verbatim>\<open>ldo_data\<close>, from its header to the end of its padding.
\<close>

section \<open>Flags\<close>

definition CMD_MASK :: u16 where "CMD_MASK = 0x00F0"
definition CMD_COMPUTE :: u16 where "CMD_COMPUTE = 0x0080"
definition CMD_PUBLISH :: u16 where "CMD_PUBLISH = 0x0090"
definition CMD_GET_BOUNDED :: u16 where "CMD_GET_BOUNDED = 0x00A0"
definition CMD_GET_UNBOUNDED :: u16 where "CMD_GET_UNBOUNDED = 0x00B0"
definition CMD_GET_COLINFO :: u16 where "CMD_GET_COLINFO = 0x00C0"
definition CMD_GET_ROWINFO :: u16 where "CMD_GET_ROWINFO = 0x00D0"
definition CMD_LIST :: u16 where "CMD_LIST = 0x00E0"
definition CMD_DROP :: u16 where "CMD_DROP = 0x00F0"
definition CMD_STATUS_ACK :: u16 where "CMD_STATUS_ACK = 0x0011"
definition CMD_STATUS_NACK :: u16 where "CMD_STATUS_NACK = 0x0010"
definition FLAG_IS_COMMAND :: u16 where "FLAG_IS_COMMAND = 0x0080"
definition FLAG_CAN_STALL :: u16 where "FLAG_CAN_STALL = 0x0002"
definition FLAG_IS_SUCCESS :: u16 where "FLAG_IS_SUCCESS = 0x0001"

lemmas flag_consts = CMD_MASK_def CMD_COMPUTE_def CMD_PUBLISH_def CMD_GET_BOUNDED_def CMD_GET_UNBOUNDED_def CMD_GET_COLINFO_def
  CMD_GET_ROWINFO_def CMD_LIST_def CMD_DROP_def CMD_STATUS_ACK_def CMD_STATUS_NACK_def FLAG_IS_COMMAND_def FLAG_CAN_STALL_def
  FLAG_IS_SUCCESS_def

definition GetCommand :: "message_t \<Rightarrow> u16" where
  "GetCommand m = and (user_flags m) CMD_MASK"

definition IsCommand :: "message_t \<Rightarrow> bool" where
  "IsCommand m = (and (user_flags m) FLAG_IS_COMMAND = FLAG_IS_COMMAND)"

definition IsStatus :: "message_t \<Rightarrow> bool" where
  "IsStatus m = (and (user_flags m) FLAG_IS_COMMAND = 0)"

definition CanStall :: "message_t \<Rightarrow> bool" where
  "CanStall m = (and (user_flags m) FLAG_CAN_STALL = FLAG_CAN_STALL)"

definition SetCanStall :: "bool \<Rightarrow> message_t \<Rightarrow> message_t" where
  "SetCanStall can_stall m =
     m\<lparr>user_flags := or (and (user_flags m) (not FLAG_CAN_STALL)) (if can_stall then FLAG_CAN_STALL else 0)\<rparr>"

definition SetSuccess :: "bool \<Rightarrow> message_t \<Rightarrow> message_t" where
  "SetSuccess is_success m =
     m\<lparr>user_flags := or (and (user_flags m) (not FLAG_IS_SUCCESS)) (if is_success then FLAG_IS_SUCCESS else 0)\<rparr>"

definition Success :: "message_t \<Rightarrow> bool" where
  "Success m = (and (user_flags m) FLAG_IS_SUCCESS = FLAG_IS_SUCCESS)"

definition IsAck :: "message_t \<Rightarrow> bool" where
  "IsAck m = (and (user_flags m) CMD_STATUS_ACK = CMD_STATUS_ACK)"

definition IsNack :: "message_t \<Rightarrow> bool" where
  "IsNack m = (and (user_flags m) CMD_STATUS_ACK = CMD_STATUS_NACK)"

section \<open>Message formats\<close>

text \<open>The remote buffer: where it is and how long it is.  The null buffer is all zeroes.\<close>

record NetBufferRemote =
  nbr_node :: nodeid_t
  nbr_op :: mailbox_t
  nbr_length :: u32

definition null_nbr :: NetBufferRemote where
  "null_nbr = \<lparr>nbr_node = 0, nbr_op = 0, nbr_length = 0\<rparr>"

record msg_direct_simple_t =
  ms_hdr :: message_t
  ms_k1_size :: u16
  ms_k2_size :: u16
  ms_bucket :: bucket_t
  ms_iom_hash :: u32
  ms_behavior_flags :: pool_behavior_t
  ms_function_name_size :: u8
  ms_function_args_size :: u16
  ms_string_data :: string

record msg_direct_buffer_t =
  mb_hdr :: message_t
  net_buffer_remote :: NetBufferRemote
  meta_plus_data_size :: u64
  mb_k1_size :: u16
  mb_k2_size :: u16
  mb_bucket :: bucket_t
  mb_iom_hash :: u32
  mb_behavior_flags :: pool_behavior_t
  mb_string_data :: string

record msg_direct_status_t =
  mst_hdr :: message_t
  remote_rc :: rc_t
  object_info :: object_info_t

text \<open>A message on the wire; the reply to a list request is a serialised list of keys and sizes.\<close>

datatype kelpie_msg = Msg_simple msg_direct_simple_t | Msg_buffer msg_direct_buffer_t | Msg_status msg_direct_status_t
  | Msg_capacities message_t ObjectCapacities

fun msg_header :: "kelpie_msg \<Rightarrow> message_t" where
  "msg_header (Msg_simple m) = ms_hdr m"
| "msg_header (Msg_buffer m) = mb_hdr m"
| "msg_header (Msg_status m) = mst_hdr m"
| "msg_header (Msg_capacities h _) = h"

section \<open>Building messages\<close>

text \<open>The sizes of the fixed parts, without and with a remote buffer, and of a header and a status.\<close>

definition k1_size :: "key \<Rightarrow> u16" where
  "k1_size k = word_of_nat (length (K1 k))"

definition k2_size :: "key \<Rightarrow> u16" where
  "k2_size k = word_of_nat (length (K2 k))"

definition simple_Alloc ::
  "u32 \<Rightarrow> nodeid_t \<Rightarrow> u32 \<Rightarrow> u16 \<Rightarrow> nodeid_t \<Rightarrow> mailbox_t \<Rightarrow> mailbox_t \<Rightarrow> bucket_t \<Rightarrow> key \<Rightarrow> u32 \<Rightarrow> pool_behavior_t \<Rightarrow>
     string \<Rightarrow> string \<Rightarrow> msg_direct_simple_t" where
  "simple_Alloc fixed my_id op_id command_and_flags dst src_mb dst_mb bucket key iom_hash flags function_name function_args =
     (let name_size = word_of_nat (length function_name) :: u8;
          args_size = word_of_nat (length function_args) :: u16;
          string_size = length (K1 key) + length (K2 key) + length function_name + length function_args
      in \<lparr>ms_hdr = (SetStandardRequest my_id dst src_mb op_id command_and_flags 0)
              \<lparr>dst_mailbox := dst_mb, body_len := fixed + word_of_nat string_size\<rparr>,
          ms_k1_size = k1_size key, ms_k2_size = k2_size key, ms_bucket = bucket, ms_iom_hash = iom_hash,
          ms_behavior_flags = flags, ms_function_name_size = name_size, ms_function_args_size = args_size,
          ms_string_data = take (unat (k1_size key)) (K1 key) @ take (unat (k2_size key)) (K2 key) @
            take (unat name_size) function_name @ take (unat args_size) function_args\<rparr>)"

text \<open>
  The length of an object in memory runs from its header to the end of the padding its allocation was made
  with, a 32-bit sum.  An object without bytes, and no object, give the null buffer.
\<close>
definition memory_size :: "dataobject \<Rightarrow> u32" where
  "memory_size d = GetHeaderSize + GetMetaSize (Some d) + GetDataSize (Some d) + do_padding d"

definition GetRdmaPtr :: "nodeid_t \<Rightarrow> mailbox_t \<Rightarrow> dataobject \<Rightarrow> NetBufferRemote" where
  "GetRdmaPtr my_id mailbox d = \<lparr>nbr_node = my_id, nbr_op = mailbox, nbr_length = memory_size d\<rparr>"

definition SetLDO :: "nodeid_t \<Rightarrow> mailbox_t \<Rightarrow> ldo \<Rightarrow> msg_direct_buffer_t \<Rightarrow> msg_direct_buffer_t" where
  "SetLDO my_id mailbox ldo_data m =
     (let size = GetMetaSize ldo_data + GetDataSize ldo_data in
      m\<lparr>meta_plus_data_size := ucast size,
        net_buffer_remote := (case ldo_data of
            Some d \<Rightarrow> if size \<noteq> 0 then GetRdmaPtr my_id mailbox d else null_nbr
          | None \<Rightarrow> null_nbr)\<rparr>)"

definition buffer_Alloc ::
  "u32 \<Rightarrow> nodeid_t \<Rightarrow> u32 \<Rightarrow> u16 \<Rightarrow> nodeid_t \<Rightarrow> mailbox_t \<Rightarrow> mailbox_t \<Rightarrow> bucket_t \<Rightarrow> key \<Rightarrow> u32 \<Rightarrow> pool_behavior_t \<Rightarrow>
     ldo \<Rightarrow> msg_direct_buffer_t" where
  "buffer_Alloc fixed my_id op_id command_and_flags dst src_mb dst_mb bucket key iom_hash flags ldo_data =
     SetLDO my_id src_mb ldo_data
       \<lparr>mb_hdr = (SetStandardRequest my_id dst src_mb op_id command_and_flags 0)
            \<lparr>dst_mailbox := dst_mb, body_len := fixed + word_of_nat (length (K1 key) + length (K2 key))\<rparr>,
        net_buffer_remote = null_nbr, meta_plus_data_size = 0,
        mb_k1_size = k1_size key, mb_k2_size = k2_size key, mb_bucket = bucket, mb_iom_hash = iom_hash,
        mb_behavior_flags = flags,
        mb_string_data = take (unat (k1_size key)) (K1 key) @ take (unat (k2_size key)) (K2 key)\<rparr>"

definition status_Alloc :: "u32 \<Rightarrow> nodeid_t \<Rightarrow> message_t \<Rightarrow> u16 \<Rightarrow> msg_direct_status_t" where
  "status_Alloc fixed my_id incoming flags =
     \<lparr>mst_hdr = SetStandardReply my_id incoming flags fixed, remote_rc = 0, object_info = Wipe_info\<rparr>"

definition AllocAck :: "u32 \<Rightarrow> nodeid_t \<Rightarrow> message_t \<Rightarrow> msg_direct_status_t" where
  "AllocAck fixed my_id incoming = status_Alloc fixed my_id incoming CMD_STATUS_ACK"

definition AllocNack :: "u32 \<Rightarrow> nodeid_t \<Rightarrow> message_t \<Rightarrow> msg_direct_status_t" where
  "AllocNack fixed my_id incoming = status_Alloc fixed my_id incoming CMD_STATUS_NACK"

definition status_SetSuccess :: "bool \<Rightarrow> msg_direct_status_t \<Rightarrow> msg_direct_status_t" where
  "status_SetSuccess b m = m\<lparr>mst_hdr := SetSuccess b (mst_hdr m)\<rparr>"

section \<open>Reading messages\<close>

text \<open>\<^verbatim>\<open>std::string(ptr, n)\<close>: the bytes must be there.\<close>

definition string_at :: "nat \<Rightarrow> nat \<Rightarrow> string \<Rightarrow> string result" where
  "string_at i n s = (if i + n \<le> length s then Inr (take n (drop i s)) else Inl Undefined_behaviour)"

definition extract_key :: "u16 \<Rightarrow> u16 \<Rightarrow> string \<Rightarrow> key result" where
  "extract_key size1 size2 s =
     rbind (string_at 0 (unat size1) s) (\<lambda>s1.
     rbind (string_at (unat size1) (unat size2) s) (\<lambda>s2.
     if valid (Key s1 s2) then Inr (Key s1 s2) else Inl Invalid_argument))"

definition simple_ExtractKey :: "msg_direct_simple_t \<Rightarrow> key result" where
  "simple_ExtractKey m = extract_key (ms_k1_size m) (ms_k2_size m) (ms_string_data m)"

definition buffer_ExtractKey :: "msg_direct_buffer_t \<Rightarrow> key result" where
  "buffer_ExtractKey m = extract_key (mb_k1_size m) (mb_k2_size m) (mb_string_data m)"

definition ExtractComputeArgs :: "msg_direct_simple_t \<Rightarrow> (key \<times> string \<times> string) result" where
  "ExtractComputeArgs m =
     (let n1 = unat (ms_k1_size m); n2 = unat (ms_k2_size m);
          n3 = unat (ms_function_name_size m); n4 = unat (ms_function_args_size m) in
      rbind (extract_key (ms_k1_size m) (ms_k2_size m) (ms_string_data m)) (\<lambda>key.
      rbind (string_at (n1 + n2) n3 (ms_string_data m)) (\<lambda>function_name.
      rbind (string_at (n1 + n2 + n3) n4 (ms_string_data m)) (\<lambda>function_args.
      Inr (key, function_name, function_args)))))"

section \<open>Laws\<close>

text \<open>Keys whose two lengths fit the size fields.\<close>

definition short_key :: "key \<Rightarrow> bool" where
  "short_key k = (valid k \<and> length (K1 k) < 2 ^ 16 \<and> length (K2 k) < 2 ^ 16)"

lemma short_key_sizes [simp]:
  "short_key k \<Longrightarrow> unat (k1_size k) = length (K1 k)" "short_key k \<Longrightarrow> unat (k2_size k) = length (K2 k)"
  by (simp_all add: short_key_def k1_size_def k2_size_def unat_of_nat)

lemma extract_key_packed [simp]:
  "short_key k \<Longrightarrow> extract_key (k1_size k) (k2_size k) (K1 k @ K2 k @ s) = Inr k"
  by (simp add: extract_key_def string_at_def) (simp add: short_key_def)

lemma buffer_Alloc_key [simp]:
  "short_key k \<Longrightarrow> buffer_ExtractKey (buffer_Alloc fixed me op cmd dst smb dmb b k iom f d) = Inr k"
  using extract_key_packed [of k "[]"] by (simp add: buffer_ExtractKey_def buffer_Alloc_def SetLDO_def Let_def)

lemma simple_Alloc_key [simp]:
  "short_key k \<Longrightarrow> simple_ExtractKey (simple_Alloc fixed me op cmd dst smb dmb b k iom f n a) = Inr k"
  by (simp add: simple_ExtractKey_def simple_Alloc_def Let_def)

lemma simple_Alloc_fields [simp]:
  "ms_bucket (simple_Alloc fixed me op cmd dst smb dmb b k iom f n a) = b"
  "ms_iom_hash (simple_Alloc fixed me op cmd dst smb dmb b k iom f n a) = iom"
  "ms_behavior_flags (simple_Alloc fixed me op cmd dst smb dmb b k iom f n a) = f"
  "msg_src (ms_hdr (simple_Alloc fixed me op cmd dst smb dmb b k iom f n a)) = me"
  "msg_dst (ms_hdr (simple_Alloc fixed me op cmd dst smb dmb b k iom f n a)) = dst"
  "src_mailbox (ms_hdr (simple_Alloc fixed me op cmd dst smb dmb b k iom f n a)) = smb"
  "dst_mailbox (ms_hdr (simple_Alloc fixed me op cmd dst smb dmb b k iom f n a)) = dmb"
  "msg_op_id (ms_hdr (simple_Alloc fixed me op cmd dst smb dmb b k iom f n a)) = op"
  "user_flags (ms_hdr (simple_Alloc fixed me op cmd dst smb dmb b k iom f n a)) = cmd"
  by (simp_all add: simple_Alloc_def SetStandardRequest_def Let_def)

lemma SetLDO_fields [simp]:
  "mb_hdr (SetLDO me mb d m) = mb_hdr m" "mb_bucket (SetLDO me mb d m) = mb_bucket m"
  "mb_iom_hash (SetLDO me mb d m) = mb_iom_hash m" "mb_behavior_flags (SetLDO me mb d m) = mb_behavior_flags m"
  "buffer_ExtractKey (SetLDO me mb d m) = buffer_ExtractKey m"
  by (simp_all add: SetLDO_def buffer_ExtractKey_def Let_def)

lemma buffer_Alloc_fields [simp]:
  "mb_bucket (buffer_Alloc fixed me op cmd dst smb dmb b k iom f d) = b"
  "mb_iom_hash (buffer_Alloc fixed me op cmd dst smb dmb b k iom f d) = iom"
  "mb_behavior_flags (buffer_Alloc fixed me op cmd dst smb dmb b k iom f d) = f"
  "msg_src (mb_hdr (buffer_Alloc fixed me op cmd dst smb dmb b k iom f d)) = me"
  "msg_dst (mb_hdr (buffer_Alloc fixed me op cmd dst smb dmb b k iom f d)) = dst"
  "src_mailbox (mb_hdr (buffer_Alloc fixed me op cmd dst smb dmb b k iom f d)) = smb"
  "dst_mailbox (mb_hdr (buffer_Alloc fixed me op cmd dst smb dmb b k iom f d)) = dmb"
  "msg_op_id (mb_hdr (buffer_Alloc fixed me op cmd dst smb dmb b k iom f d)) = op"
  "user_flags (mb_hdr (buffer_Alloc fixed me op cmd dst smb dmb b k iom f d)) = cmd"
  by (simp_all add: buffer_Alloc_def SetStandardRequest_def)

lemma AllocAck_fields [simp]:
  "msg_src (mst_hdr (AllocAck fixed me h)) = me" "msg_dst (mst_hdr (AllocAck fixed me h)) = msg_src h"
  "src_mailbox (mst_hdr (AllocAck fixed me h)) = 0" "dst_mailbox (mst_hdr (AllocAck fixed me h)) = src_mailbox h"
  "msg_op_id (mst_hdr (AllocAck fixed me h)) = msg_op_id h" "IsStatus (mst_hdr (AllocAck fixed me h))"
  "Success (mst_hdr (AllocAck fixed me h))" "remote_rc (AllocAck fixed me h) = 0" "object_info (AllocAck fixed me h) = Wipe_info"
  by (simp_all add: AllocAck_def status_Alloc_def SetStandardReply_def MAILBOX_UNSPECIFIED_def IsStatus_def Success_def flag_consts)

lemma SetSuccess_fields [simp]:
  "msg_src (SetSuccess b h) = msg_src h" "msg_dst (SetSuccess b h) = msg_dst h" "src_mailbox (SetSuccess b h) = src_mailbox h"
  "dst_mailbox (SetSuccess b h) = dst_mailbox h" "msg_op_id (SetSuccess b h) = msg_op_id h"
  by (simp_all add: SetSuccess_def)

lemma Success_SetSuccess [simp]: "Success (SetSuccess b h) = b"
proof -
  have "and (or (and f (not 1)) 1) 1 = (1 :: u16)" "and (and f (not 1)) 1 = (0 :: u16)" for f
    by (rule bit_word_eqI; auto simp: bit_simps)+
  then show ?thesis by (cases b) (simp_all add: Success_def SetSuccess_def FLAG_IS_SUCCESS_def)
qed

lemma IsStatus_SetSuccess [simp]: "IsStatus (SetSuccess b h) = IsStatus h"
proof -
  have "and (or (and f (not 1)) x) m = and f m" if "\<not> bit m 0" "x = 0 \<or> x = 1" for f x m :: u16
  proof (rule bit_word_eqI)
    show "bit (and (or (and f (not 1)) x) m) n = bit (and f m) n" if "n < LENGTH(16)" for n
      using that \<open>\<not> bit m 0\<close> \<open>x = 0 \<or> x = 1\<close> by (cases "n = 0") (auto simp: bit_simps)
  qed
  from this [of "0x80"] show ?thesis by (simp add: IsStatus_def SetSuccess_def flag_consts)
qed

lemma ExtractComputeArgs_packed [simp]:
  assumes "short_key key" "length name < 256" "length args < 2 ^ 16"
  shows "ExtractComputeArgs (simple_Alloc fixed me op cmd dst smb dmb b key iom f name args) = Inr (key, name, args)"
proof -
  have n: "unat (word_of_nat (length name) :: u8) = length name" "unat (word_of_nat (length args) :: u16) = length args"
    using assms(2,3) by (simp_all add: unat_of_nat)
  then show ?thesis using assms(1) by (simp add: ExtractComputeArgs_def simple_Alloc_def Let_def string_at_def)
qed

text \<open>
  A request read back by its receiver gives the key, the function name and the function
  arguments it was built from, for every valid key whose parts are below 64 KiB, function names
  below 256 bytes and arguments below 64 KiB; the command can be read from the flags; and the
  acknowledgement built from its header goes back to the mailbox that sent it, is a status message
  and reports success until that is changed.
\<close>
theorem direct_message_roundtrip:
  assumes "short_key key" "length name < 256" "length args < 2 ^ 16"
    "cmd \<in> {CMD_COMPUTE, CMD_PUBLISH, CMD_GET_BOUNDED, CMD_GET_UNBOUNDED, CMD_GET_COLINFO, CMD_GET_ROWINFO, CMD_LIST, CMD_DROP}"
  shows "let m = simple_Alloc fixed me op cmd dst smb dmb b key iom f name args;
             m' = buffer_Alloc fixed me op cmd dst smb dmb b key iom f obj;
             ack = AllocAck fixed' dst (ms_hdr m) in
    ExtractComputeArgs m = Inr (key, name, args) \<and> simple_ExtractKey m = Inr key \<and> buffer_ExtractKey m' = Inr key \<and>
    GetCommand (ms_hdr m) = cmd \<and> IsCommand (ms_hdr m) \<and> GetCommand (mb_hdr m') = cmd \<and>
    dst_mailbox (mst_hdr ack) = smb \<and> msg_dst (mst_hdr ack) = me \<and> msg_op_id (mst_hdr ack) = op \<and>
    IsStatus (mst_hdr ack) \<and> \<not> IsCommand (mst_hdr ack) \<and> IsAck (mst_hdr ack) \<and>
    Success (mst_hdr (status_SetSuccess ok ack)) = ok \<and> IsStatus (mst_hdr (status_SetSuccess ok ack))"
proof -
  have x: "ExtractComputeArgs (simple_Alloc fixed me op cmd dst smb dmb b key iom f name args) = Inr (key, name, args)"
    using assms(1-3) by simp
  have ack: "IsAck (mst_hdr (AllocAck n' me' h))" "\<not> IsCommand (mst_hdr (AllocAck n' me' h))" for n' me' h
    by (simp_all add: IsAck_def IsCommand_def AllocAck_def status_Alloc_def SetStandardReply_def flag_consts)
  have c: "and cmd CMD_MASK = cmd" "and cmd FLAG_IS_COMMAND = FLAG_IS_COMMAND"
    using assms(4) by (auto simp: flag_consts)
  show ?thesis
    using assms(1) x ack c by (simp add: Let_def GetCommand_def IsCommand_def status_SetSuccess_def)
qed

theorem direct_message_roundtrip_witness:
  "ExtractComputeArgs (simple_Alloc 36 1 7 CMD_COMPUTE 2 3 0 9 (Key ''row'' ''col'') 0 1 ''sum'' ''a b'') =
     Inr (Key ''row'' ''col'', ''sum'', ''a b'')"
  using direct_message_roundtrip [of "Key ''row'' ''col''" "''sum''" "''a b''" CMD_COMPUTE 36 1 7 2 3 0 9 0 1 None 24 True]
  by (simp add: short_key_def valid_def Let_def)

lemma long_key_cut:
  assumes "length (K1 k) = 2 ^ 16 + n" "n < 2 ^ 16" "0 < n" "K2 k = []"
  shows "buffer_ExtractKey (buffer_Alloc fixed me op cmd dst smb dmb b k iom f d) = Inr (Key (take n (K1 k)) [])"
proof -
  have "unat (k1_size k) = length (K1 k) mod 2 ^ 16" by (simp add: k1_size_def unat_of_nat)
  then have "unat (k1_size k) = n" using assms(1,2) by simp
  moreover have "K1 k \<noteq> []" using assms by auto
  ultimately show ?thesis
    using assms by (simp add: buffer_ExtractKey_def buffer_Alloc_def SetLDO_def Let_def extract_key_def string_at_def
        k2_size_def valid_def)
qed

end
