(* ===== verification/Kelpie_Ops.thy ===== *)
theory Kelpie_Ops
  imports Kelpie_Msg Compute_Registry
begin

text \<open>
  The direct ops (\<^verbatim>\<open>kelpie/ops/direct/OpKelpie*.cpp\<close>): state machines that publish an object to
  another node, fetch one with or without a known size, drop, query and list objects, and compute where they are.  Every state
  function is a definition that takes the update, the op and what the op can reach: the node's
  store and storage, and the calls it makes to the network and to user callbacks, in order.  Every op keeps the
  fields of its class; the fields most classes share are one record, parameterised by the class's states.
\<close>

section \<open>What a state function reads and writes\<close>

text \<open>
  The node: its id, the registries of i/o modules and of compute functions, the contents of newly
  allocated memory, and the sizes of the fixed parts of the messages, which depend on the compiler.
\<close>
record 'io node_ctx =
  my_id :: nodeid_t
  FindIOM :: "u32 \<Rightarrow> 'io IomBase option"
  compute_registry :: ComputeRegistry
  fresh_bytes :: "nat \<Rightarrow> u8"
  simple_body :: u32
  buffer_body :: u32
  status_body :: u32

text \<open>A transfer is asked for by the op whose \<^verbatim>\<open>ldo_data\<close> is its local end.\<close>

datatype rdma_req = Rdma_Get mailbox_t NetBufferRemote | Rdma_Put mailbox_t NetBufferRemote

datatype user_call =
    Publish_result callback_t rc_t object_info_t
  | Get_result callback_t bool key ldo
  | Drop_result callback_t bool key
  | List_result callback_t ObjectCapacities
  | Compute_result callback_t rc_t key ldo

record 'io op_env =
  e_lkv :: LocalKV
  e_io :: 'io
  e_sends :: "(nodeid_t \<times> kelpie_msg) list"
  e_rdma :: "rdma_req list"
  e_effects :: "effect list"
  e_calls :: "user_call list"

type_synonym op_args = "(kelpie_msg, ldo \<times> object_info_t) OpArgs"

record 's kop =
  kop_mailbox :: mailbox_t
  kop_state :: 's
  kop_peer :: "nodeid_t option"
  kop_msg :: "kelpie_msg option"
  kop_bucket :: bucket_t
  kop_key :: key
  kop_nbr :: NetBufferRemote
  kop_data :: ldo
  kop_iom :: u32
  kop_flags :: pool_behavior_t
  kop_cb :: "callback_t option"

type_synonym ('op, 'io) update_result = "(WaitingType \<times> 'op \<times> 'io op_env) result"

text \<open>A fresh op of a node: no peer, no message, no data.\<close>

definition blank_op :: "mailbox_t \<Rightarrow> 's \<Rightarrow> 's kop" where
  "blank_op mailbox st = \<lparr>kop_mailbox = mailbox, kop_state = st, kop_peer = None, kop_msg = None, kop_bucket = 0,
     kop_key = Key [] [], kop_nbr = null_nbr, kop_data = None, kop_iom = 0, kop_flags = 0, kop_cb = None\<rparr>"

definition updateState :: "'s \<Rightarrow> WaitingType \<Rightarrow> 's kop \<Rightarrow> 'io op_env \<Rightarrow> ('s kop, 'io) update_result" where
  "updateState st w op env = Inr (w, op\<lparr>kop_state := st\<rparr>, env)"

text \<open>Sending moves the message out of the op; there must be a peer and a message.\<close>

definition SendMsg :: "'s kop \<Rightarrow> 'io op_env \<Rightarrow> ('s kop \<times> 'io op_env) result" where
  "SendMsg op env = (case (kop_peer op, kop_msg op) of
     (Some peer, Some m) \<Rightarrow> Inr (op\<lparr>kop_msg := None\<rparr>, env\<lparr>e_sends := e_sends env @ [(peer, m)]\<rparr>)
   | _ \<Rightarrow> Inl Undefined_behaviour)"

text \<open>
  A transfer needs a local object and a remote buffer; the null buffer names no memory.  A read moves the
  shorter of the two lengths, and aborts the process when that is not a multiple of four.
\<close>
definition net_Get :: "NetBufferRemote \<Rightarrow> 's kop \<Rightarrow> 'io op_env \<Rightarrow> 'io op_env result" where
  "net_Get nbr op env = (case kop_data op of
     None \<Rightarrow> Inl Undefined_behaviour
   | Some d \<Rightarrow>
       if nbr_length nbr = 0 then Inl Undefined_behaviour
       else if min (memory_size d) (nbr_length nbr) mod 4 \<noteq> 0 then Inl Process_exit
       else Inr (env\<lparr>e_rdma := e_rdma env @ [Rdma_Get (kop_mailbox op) nbr]\<rparr>))"

definition net_Put :: "NetBufferRemote \<Rightarrow> 's kop \<Rightarrow> 'io op_env \<Rightarrow> 'io op_env result" where
  "net_Put nbr op env =
     (if kop_data op = None \<or> nbr_length nbr = 0 then Inl Undefined_behaviour
      else Inr (env\<lparr>e_rdma := e_rdma env @ [Rdma_Put (kop_mailbox op) nbr]\<rparr>))"

text \<open>
  \<^verbatim>\<open>DataObject(0, n, eager)\<close>: no meta section, \<^verbatim>\<open>n\<close> bytes of data, and their padding.  A size that wraps 32 bits when
  the padding and the allocation's own header are added gives a block smaller than the object (\<open>Lunasa_Heap\<close>), and
  using it is undefined.
\<close>
definition new_ldo :: "'io node_ctx \<Rightarrow> u32 \<Rightarrow> ldo result" where
  "new_ldo ctx n =
     (if unat n + unat (ldo_padding 0 n) + unat SIZEOF_ALLOCATION \<ge> 2 ^ 32 then Inl Undefined_behaviour
      else Inr (Some \<lparr>do_type = 0, do_meta = [], do_data = map (fresh_bytes ctx) [0..<unat n], do_padding = ldo_padding 0 n\<rparr>))"

text \<open>
  A received message is cast to the format the state expects; reading a message of another format
  is undefined.
\<close>
definition expect_simple :: "op_args \<Rightarrow> msg_direct_simple_t result" where
  "expect_simple args = rbind (ExpectMessageOrDie args) (\<lambda>m. case m of Msg_simple x \<Rightarrow> Inr x | _ \<Rightarrow> Inl Undefined_behaviour)"

definition expect_buffer :: "op_args \<Rightarrow> msg_direct_buffer_t result" where
  "expect_buffer args = rbind (ExpectMessageOrDie args) (\<lambda>m. case m of Msg_buffer x \<Rightarrow> Inr x | _ \<Rightarrow> Inl Undefined_behaviour)"

definition expect_status :: "op_args \<Rightarrow> msg_direct_status_t result" where
  "expect_status args = rbind (ExpectMessageOrDie args) (\<lambda>m. case m of Msg_status x \<Rightarrow> Inr x | _ \<Rightarrow> Inl Undefined_behaviour)"

text \<open>Changes to the outgoing message an op has prepared.\<close>

definition on_status :: "(msg_direct_status_t \<Rightarrow> msg_direct_status_t) \<Rightarrow> 's kop \<Rightarrow> 's kop result" where
  "on_status f op = (case kop_msg op of Some (Msg_status m) \<Rightarrow> Inr (op\<lparr>kop_msg := Some (Msg_status (f m))\<rparr>)
     | _ \<Rightarrow> Inl Undefined_behaviour)"

definition on_buffer :: "(msg_direct_buffer_t \<Rightarrow> msg_direct_buffer_t) \<Rightarrow> 's kop \<Rightarrow> 's kop result" where
  "on_buffer f op = (case kop_msg op of Some (Msg_buffer m) \<Rightarrow> Inr (op\<lparr>kop_msg := Some (Msg_buffer (f m))\<rparr>)
     | _ \<Rightarrow> Inl Undefined_behaviour)"

section \<open>Publish\<close>

datatype PublishState = Orig_pub_send | Trgt_pub_start | Trgt_pub_wait_for_rdma | Orig_pub_wait_for_ack | Pub_done

type_synonym OpKelpiePublish = "PublishState kop"

definition publish_id :: u32 where
  "publish_id = const_hash ''OpKelpiePublish''"

definition OpKelpiePublish_origin ::
  "'io node_ctx \<Rightarrow> nodeid_t \<Rightarrow> bucket_t \<Rightarrow> key \<Rightarrow> ldo \<Rightarrow> u32 \<Rightarrow> pool_behavior_t \<Rightarrow> callback_t option \<Rightarrow> mailbox_t \<Rightarrow> OpKelpiePublish" where
  "OpKelpiePublish_origin ctx target_node bucket key ldo_users_data iom_hash flags cb mailbox =
     (blank_op mailbox Orig_pub_send)\<lparr>kop_peer := Some target_node, kop_cb := cb, kop_data := ldo_users_data,
       kop_msg := Some (Msg_buffer (buffer_Alloc (buffer_body ctx) (my_id ctx) publish_id CMD_PUBLISH target_node mailbox
          MAILBOX_UNSPECIFIED bucket key iom_hash flags ldo_users_data))\<rparr>"

definition OpKelpiePublish_target :: "mailbox_t \<Rightarrow> OpKelpiePublish" where
  "OpKelpiePublish_target mailbox = blank_op mailbox Trgt_pub_start"

definition smo_Publish_Send :: "OpKelpiePublish \<Rightarrow> 'io op_env \<Rightarrow> (OpKelpiePublish, 'io) update_result" where
  "smo_Publish_Send op env =
     rbind (SendMsg op env) (\<lambda>(op1, env1). updateState Orig_pub_wait_for_ack Waiting_on_cq op1 env1)"

definition smt_Publish_Start ::
  "'io node_ctx \<Rightarrow> u32 \<Rightarrow> op_args \<Rightarrow> OpKelpiePublish \<Rightarrow> 'io op_env \<Rightarrow> (OpKelpiePublish, 'io) update_result" where
  "smt_Publish_Start ctx now args op env =
     rbind (expect_buffer args) (\<lambda>imsg.
     rbind (buffer_ExtractKey imsg) (\<lambda>key.
       let flags = ChangeRemoteToLocal (mb_behavior_flags imsg);
           ack = AllocAck (status_body ctx) (my_id ctx) (mb_hdr imsg);
           op1 = op\<lparr>kop_peer := Some (msg_src (mb_hdr imsg)), kop_bucket := mb_bucket imsg, kop_key := key,
                    kop_nbr := net_buffer_remote imsg, kop_iom := mb_iom_hash imsg, kop_flags := flags,
                    kop_msg := Some (Msg_status ack)\<rparr>;
           ((rc, info), lkv1) = (if \<not> has_flag flags EnableOverwrites
                                 then getInfo now (mb_bucket imsg) key True (e_lkv env)
                                 else ((KELPIE_ENOENT, Wipe_info), e_lkv env));
           env1 = env\<lparr>e_lkv := lkv1\<rparr>
       in if rc = KELPIE_OK \<and> col_availability info = InLocalMemory then
            rbind (on_status (\<lambda>m. (status_SetSuccess True m)\<lparr>remote_rc := KELPIE_EEXIST\<rparr>) op1) (\<lambda>op2.
            rbind (SendMsg op2 env1) (\<lambda>(op3, env2). updateState Pub_done Done_and_destroy op3 env2))
          else
            rbind (new_ldo ctx (ucast (meta_plus_data_size imsg))) (\<lambda>ldo_data.
            let op2 = op1\<lparr>kop_data := ldo_data\<rparr> in
            rbind (net_Get (kop_nbr op2) op2 env1) (\<lambda>env2. updateState Trgt_pub_wait_for_rdma Waiting_on_cq op2 env2))))"

text \<open>The object goes to the store, and when it is to go to an i/o module, to the module once more.\<close>

definition smt_Publish_WaitRDMA ::
  "'io node_ctx \<Rightarrow> u32 \<Rightarrow> op_args \<Rightarrow> OpKelpiePublish \<Rightarrow> 'io op_env \<Rightarrow> (OpKelpiePublish, 'io) update_result" where
  "smt_Publish_WaitRDMA ctx now args op env =
     (if args_type args = Send_success then Inr (Waiting_on_cq, op, env)
      else
        rbind (VerifyTypeOrDie Get_success args) (\<lambda>_.
        let to_iom = kop_iom op \<noteq> 0 \<and> has_flag (kop_flags op) WriteToIOM;
            iom = (if to_iom then FindIOM ctx (kop_iom op) else None) in
        rbind (put now (kop_bucket op) (kop_key op) (kop_data op) (kop_flags op) iom (e_io env) (e_lkv env))
          (\<lambda>((rc, info, effs), lkv1, io1).
        rbind (if to_iom then
                 (case FindIOM ctx (kop_iom op) of
                    None \<Rightarrow> Inl Runtime_error
                  | Some m \<Rightarrow> Inr (snd (iom_WriteObject m (kop_bucket op) (kop_key op) (kop_data op) io1)))
               else Inr io1) (\<lambda>io2.
        rbind (on_status (\<lambda>m. (status_SetSuccess (rc = KELPIE_OK) m)\<lparr>object_info := info, remote_rc := rc\<rparr>) op) (\<lambda>op1.
        rbind (SendMsg op1 (env\<lparr>e_lkv := lkv1, e_io := io2, e_effects := e_effects env @ effs\<rparr>)) (\<lambda>(op2, env2).
        updateState Pub_done Done_and_destroy op2 env2))))))"

definition smo_Publish_WaitAck :: "op_args \<Rightarrow> OpKelpiePublish \<Rightarrow> 'io op_env \<Rightarrow> (OpKelpiePublish, 'io) update_result" where
  "smo_Publish_WaitAck args op env =
     rbind (expect_status args) (\<lambda>imsg.
       updateState Pub_done Done_and_destroy op
         (case kop_cb op of
            Some cb \<Rightarrow> env\<lparr>e_calls := e_calls env @
              [Publish_result cb (remote_rc imsg) (ChangeAvailabilityFromLocalToRemote (object_info imsg))]\<rparr>
          | None \<Rightarrow> env))"

definition publish_Update ::
  "'io node_ctx \<Rightarrow> u32 \<Rightarrow> op_args \<Rightarrow> OpKelpiePublish \<Rightarrow> 'io op_env \<Rightarrow> (OpKelpiePublish, 'io) update_result" where
  "publish_Update ctx now args op env = (case kop_state op of
     Orig_pub_send \<Rightarrow> smo_Publish_Send op env
   | Trgt_pub_start \<Rightarrow> smt_Publish_Start ctx now args op env
   | Trgt_pub_wait_for_rdma \<Rightarrow> smt_Publish_WaitRDMA ctx now args op env
   | Orig_pub_wait_for_ack \<Rightarrow> smo_Publish_WaitAck args op env
   | Pub_done \<Rightarrow> updateState Pub_done Done_and_destroy op env)"

section \<open>Get without a known size\<close>

datatype GetUnboundedState = Orig_getunbounded_send | Trgt_getunbounded_start | Trgt_getunbounded_wait_for_data
  | Orig_getunbounded_wait_for_info | Orig_getunbounded_wait_for_rdma | Trgt_getunbounded_wait_for_ack | Getu_done

type_synonym OpKelpieGetUnbounded = "GetUnboundedState kop"

definition getunbounded_id :: u32 where
  "getunbounded_id = const_hash ''OpKelpieGetUnbounded''"

definition OpKelpieGetUnbounded_origin ::
  "'io node_ctx \<Rightarrow> nodeid_t \<Rightarrow> bucket_t \<Rightarrow> key \<Rightarrow> u32 \<Rightarrow> pool_behavior_t \<Rightarrow> callback_t \<Rightarrow> mailbox_t \<Rightarrow> OpKelpieGetUnbounded" where
  "OpKelpieGetUnbounded_origin ctx target_node bucket key iom_hash flags cb mailbox =
     (blank_op mailbox Orig_getunbounded_send)\<lparr>kop_peer := Some target_node, kop_bucket := bucket, kop_key := key, kop_cb := Some cb,
       kop_msg := Some (Msg_simple (simple_Alloc (simple_body ctx) (my_id ctx) getunbounded_id CMD_GET_UNBOUNDED target_node mailbox
          MAILBOX_UNSPECIFIED bucket key iom_hash flags [] []))\<rparr>"

definition OpKelpieGetUnbounded_target :: "mailbox_t \<Rightarrow> OpKelpieGetUnbounded" where
  "OpKelpieGetUnbounded_target mailbox = blank_op mailbox Trgt_getunbounded_start"

definition smo_GetUnbounded_Send :: "OpKelpieGetUnbounded \<Rightarrow> 'io op_env \<Rightarrow> (OpKelpieGetUnbounded, 'io) update_result" where
  "smo_GetUnbounded_Send op env =
     rbind (SendMsg op env) (\<lambda>(op1, env1). updateState Orig_getunbounded_wait_for_info Waiting_on_cq op1 env1)"

text \<open>The object found is attached to the prepared message, which is sent.\<close>

definition getunbounded_reply :: "'io node_ctx \<Rightarrow> OpKelpieGetUnbounded \<Rightarrow> 'io op_env \<Rightarrow> (OpKelpieGetUnbounded, 'io) update_result" where
  "getunbounded_reply ctx op env =
     rbind (on_buffer (SetLDO (my_id ctx) (kop_mailbox op) (kop_data op)) op) (\<lambda>op1.
     rbind (SendMsg op1 env) (\<lambda>(op2, env1). updateState Trgt_getunbounded_wait_for_ack Waiting_on_cq op2 env1))"

definition smt_GetUnbounded_Start ::
  "'io node_ctx \<Rightarrow> u32 \<Rightarrow> op_args \<Rightarrow> OpKelpieGetUnbounded \<Rightarrow> 'io op_env \<Rightarrow> (OpKelpieGetUnbounded, 'io) update_result" where
  "smt_GetUnbounded_Start ctx now args op env =
     rbind (expect_simple args) (\<lambda>imsg.
     rbind (simple_ExtractKey imsg) (\<lambda>key.
       let op1 = op\<lparr>kop_peer := Some (msg_src (ms_hdr imsg)), kop_bucket := ms_bucket imsg, kop_key := key,
                 kop_msg := Some (Msg_buffer (buffer_Alloc (buffer_body ctx) (my_id ctx) getunbounded_id CMD_GET_UNBOUNDED
                    (msg_src (ms_hdr imsg)) (kop_mailbox op) (src_mailbox (ms_hdr imsg)) (ms_bucket imsg) key 0 0 None))\<rparr> in
       rbind (getForOp now (FindIOM ctx) (ms_bucket imsg) key (kop_mailbox op) (ms_behavior_flags imsg) (ms_iom_hash imsg)
                (e_io env) (e_lkv env)) (\<lambda>((rc, x, _), lkv1, io1).
         let op2 = op1\<lparr>kop_data := (case x of Some l \<Rightarrow> l | None \<Rightarrow> kop_data op1)\<rparr>;
             env1 = env\<lparr>e_lkv := lkv1, e_io := io1\<rparr> in
         if rc = KELPIE_OK then getunbounded_reply ctx op2 env1
         else updateState Trgt_getunbounded_wait_for_data Wait_on_user op2 env1)))"

definition smt_GetUnbounded_WaitData ::
  "'io node_ctx \<Rightarrow> op_args \<Rightarrow> OpKelpieGetUnbounded \<Rightarrow> 'io op_env \<Rightarrow> (OpKelpieGetUnbounded, 'io) update_result" where
  "smt_GetUnbounded_WaitData ctx args op env =
     rbind (ExpectTriggerOrDie args) (\<lambda>(x, _). getunbounded_reply ctx (op\<lparr>kop_data := x\<rparr>) env)"

text \<open>An object without bytes cannot be told from a refusal, which is not implemented and ends the process.\<close>

definition smo_GetUnbounded_WaitInfo ::
  "'io node_ctx \<Rightarrow> op_args \<Rightarrow> OpKelpieGetUnbounded \<Rightarrow> 'io op_env \<Rightarrow> (OpKelpieGetUnbounded, 'io) update_result" where
  "smo_GetUnbounded_WaitInfo ctx args op env =
     rbind (expect_buffer args) (\<lambda>imsg.
       if meta_plus_data_size imsg = 0 then Inl Process_exit
       else
         rbind (new_ldo ctx (ucast (meta_plus_data_size imsg))) (\<lambda>ldo_data.
         let op1 = op\<lparr>kop_peer := Some (msg_src (mb_hdr imsg)),
               kop_msg := Some (Msg_status (AllocAck (status_body ctx) (my_id ctx) (mb_hdr imsg))),
               kop_data := ldo_data\<rparr> in
         rbind (net_Get (net_buffer_remote imsg) op1 env) (\<lambda>env1.
         updateState Orig_getunbounded_wait_for_rdma Waiting_on_cq op1 env1)))"

definition smo_GetUnbounded_WaitRDMA :: "op_args \<Rightarrow> OpKelpieGetUnbounded \<Rightarrow> 'io op_env \<Rightarrow> (OpKelpieGetUnbounded, 'io) update_result" where
  "smo_GetUnbounded_WaitRDMA args op env =
     rbind (VerifyTypeOrDie Get_success args) (\<lambda>_.
     rbind (case kop_cb op of Some cb \<Rightarrow> Inr (env\<lparr>e_calls := e_calls env @ [Get_result cb True (kop_key op) (kop_data op)]\<rparr>)
            | None \<Rightarrow> Inl Runtime_error) (\<lambda>env1.
     rbind (on_status (status_SetSuccess True) op) (\<lambda>op1.
     rbind (SendMsg op1 env1) (\<lambda>(op2, env2). updateState Getu_done Done_and_destroy op2 env2))))"

definition smt_GetUnbounded_WaitAck :: "op_args \<Rightarrow> OpKelpieGetUnbounded \<Rightarrow> 'io op_env \<Rightarrow> (OpKelpieGetUnbounded, 'io) update_result" where
  "smt_GetUnbounded_WaitAck args op env =
     rbind (ExpectMessageOrDie args) (\<lambda>_. updateState Getu_done Done_and_destroy op env)"

definition getunbounded_Update ::
  "'io node_ctx \<Rightarrow> u32 \<Rightarrow> op_args \<Rightarrow> OpKelpieGetUnbounded \<Rightarrow> 'io op_env \<Rightarrow> (OpKelpieGetUnbounded, 'io) update_result" where
  "getunbounded_Update ctx now args op env = (case kop_state op of
     Orig_getunbounded_send \<Rightarrow> smo_GetUnbounded_Send op env
   | Trgt_getunbounded_start \<Rightarrow> smt_GetUnbounded_Start ctx now args op env
   | Trgt_getunbounded_wait_for_data \<Rightarrow> smt_GetUnbounded_WaitData ctx args op env
   | Orig_getunbounded_wait_for_info \<Rightarrow> smo_GetUnbounded_WaitInfo ctx args op env
   | Orig_getunbounded_wait_for_rdma \<Rightarrow> smo_GetUnbounded_WaitRDMA args op env
   | Trgt_getunbounded_wait_for_ack \<Rightarrow> smt_GetUnbounded_WaitAck args op env
   | Getu_done \<Rightarrow> updateState Getu_done Done_and_destroy op env)"

section \<open>Get with a known size\<close>

datatype GetBoundedState = Orig_getbounded_send | Trgt_getbounded_start | Trgt_getbounded_wait_for_data
  | Trgt_getbounded_wait_for_rdma | Orig_getbounded_wait_for_ack | Getb_done

type_synonym OpKelpieGetBounded = "GetBoundedState kop"

definition getbounded_id :: u32 where
  "getbounded_id = const_hash ''OpKelpieGetBounded''"

text \<open>The size becomes a 32-bit data capacity; the op holds the object allocated with it.\<close>

definition bounded_request ::
  "'io node_ctx \<Rightarrow> nodeid_t \<Rightarrow> bucket_t \<Rightarrow> key \<Rightarrow> ldo \<Rightarrow> u32 \<Rightarrow> pool_behavior_t \<Rightarrow> callback_t \<Rightarrow> mailbox_t \<Rightarrow> OpKelpieGetBounded" where
  "bounded_request ctx target_node bucket key ldo_data iom_hash flags cb mailbox =
     (blank_op mailbox Orig_getbounded_send)\<lparr>kop_peer := Some target_node, kop_bucket := bucket, kop_key := key,
        kop_cb := Some cb, kop_data := ldo_data,
        kop_msg := Some (Msg_buffer (buffer_Alloc (buffer_body ctx) (my_id ctx) getbounded_id CMD_GET_BOUNDED target_node mailbox
           MAILBOX_UNSPECIFIED bucket key iom_hash flags ldo_data))\<rparr>"

definition OpKelpieGetBounded_origin ::
  "'io node_ctx \<Rightarrow> nodeid_t \<Rightarrow> bucket_t \<Rightarrow> key \<Rightarrow> u64 \<Rightarrow> u32 \<Rightarrow> pool_behavior_t \<Rightarrow> callback_t \<Rightarrow> mailbox_t \<Rightarrow> OpKelpieGetBounded result" where
  "OpKelpieGetBounded_origin ctx target_node bucket key expected_size iom_hash flags cb mailbox =
     (if expected_size = 0 then Inl Assert_failed
      else rbind (new_ldo ctx (ucast expected_size)) (\<lambda>ldo_data.
        Inr (bounded_request ctx target_node bucket key ldo_data iom_hash flags cb mailbox)))"

definition OpKelpieGetBounded_target :: "mailbox_t \<Rightarrow> OpKelpieGetBounded" where
  "OpKelpieGetBounded_target mailbox = blank_op mailbox Trgt_getbounded_start"

definition smo_GetBounded_Send :: "OpKelpieGetBounded \<Rightarrow> 'io op_env \<Rightarrow> (OpKelpieGetBounded, 'io) update_result" where
  "smo_GetBounded_Send op env =
     rbind (SendMsg op env) (\<lambda>(op1, env1). updateState Orig_getbounded_wait_for_ack Waiting_on_cq op1 env1)"

definition smt_GetBounded_Start ::
  "'io node_ctx \<Rightarrow> u32 \<Rightarrow> op_args \<Rightarrow> OpKelpieGetBounded \<Rightarrow> 'io op_env \<Rightarrow> (OpKelpieGetBounded, 'io) update_result" where
  "smt_GetBounded_Start ctx now args op env =
     rbind (expect_buffer args) (\<lambda>imsg.
     rbind (buffer_ExtractKey imsg) (\<lambda>key.
     rbind (getForOp now (FindIOM ctx) (mb_bucket imsg) key (kop_mailbox op) (mb_behavior_flags imsg) (mb_iom_hash imsg)
              (e_io env) (e_lkv env)) (\<lambda>((rc, x, info), lkv1, io1).
       let ack = (AllocAck (status_body ctx) (my_id ctx) (mb_hdr imsg))\<lparr>object_info := info\<rparr>;
           op1 = op\<lparr>kop_peer := Some (msg_src (mb_hdr imsg)), kop_nbr := net_buffer_remote imsg, kop_bucket := mb_bucket imsg,
                    kop_key := key, kop_msg := Some (Msg_status ack),
                    kop_data := (case x of Some l \<Rightarrow> l | None \<Rightarrow> kop_data op)\<rparr>;
           env1 = env\<lparr>e_lkv := lkv1, e_io := io1\<rparr> in
       if rc = KELPIE_OK then
         rbind (net_Put (kop_nbr op1) op1 env1) (\<lambda>env2.
         rbind (on_status (status_SetSuccess True) op1) (\<lambda>op2.
         updateState Trgt_getbounded_wait_for_rdma Waiting_on_cq op2 env2))
       else updateState Trgt_getbounded_wait_for_data Wait_on_user op1 env1)))"

definition smt_GetBounded_WaitData :: "op_args \<Rightarrow> OpKelpieGetBounded \<Rightarrow> 'io op_env \<Rightarrow> (OpKelpieGetBounded, 'io) update_result" where
  "smt_GetBounded_WaitData args op env =
     (if args_type args = Timeout then
        rbind (on_status (status_SetSuccess False) op) (\<lambda>op1.
        rbind (SendMsg op1 env) (\<lambda>(op2, env1). updateState Getb_done Done_and_destroy op2 env1))
      else
        rbind (ExpectTriggerOrDie args) (\<lambda>(x, _).
          let op1 = op\<lparr>kop_data := x\<rparr> in
          rbind (net_Put (kop_nbr op1) op1 env) (\<lambda>env1. updateState Trgt_getbounded_wait_for_rdma Waiting_on_cq op1 env1)))"

definition smt_GetBounded_WaitRDMA :: "op_args \<Rightarrow> OpKelpieGetBounded \<Rightarrow> 'io op_env \<Rightarrow> (OpKelpieGetBounded, 'io) update_result" where
  "smt_GetBounded_WaitRDMA args op env =
     rbind (VerifyTypeOrDie Put_success args) (\<lambda>_.
     rbind (SendMsg op env) (\<lambda>(op1, env1). updateState Getb_done Done_and_destroy op1 env1))"

definition smo_GetBounded_WaitAck :: "op_args \<Rightarrow> OpKelpieGetBounded \<Rightarrow> 'io op_env \<Rightarrow> (OpKelpieGetBounded, 'io) update_result" where
  "smo_GetBounded_WaitAck args op env =
     rbind (expect_status args) (\<lambda>imsg.
     rbind (case kop_cb op of
              Some cb \<Rightarrow> Inr (env\<lparr>e_calls := e_calls env @ [Get_result cb (Success (mst_hdr imsg)) (kop_key op) (kop_data op)]\<rparr>)
            | None \<Rightarrow> Inl Runtime_error) (\<lambda>env1.
     updateState Getb_done Done_and_destroy op env1))"

definition getbounded_Update ::
  "'io node_ctx \<Rightarrow> u32 \<Rightarrow> op_args \<Rightarrow> OpKelpieGetBounded \<Rightarrow> 'io op_env \<Rightarrow> (OpKelpieGetBounded, 'io) update_result" where
  "getbounded_Update ctx now args op env = (case kop_state op of
     Orig_getbounded_send \<Rightarrow> smo_GetBounded_Send op env
   | Trgt_getbounded_start \<Rightarrow> smt_GetBounded_Start ctx now args op env
   | Trgt_getbounded_wait_for_data \<Rightarrow> smt_GetBounded_WaitData args op env
   | Trgt_getbounded_wait_for_rdma \<Rightarrow> smt_GetBounded_WaitRDMA args op env
   | Orig_getbounded_wait_for_ack \<Rightarrow> smo_GetBounded_WaitAck args op env
   | Getb_done \<Rightarrow> updateState Getb_done Done_and_destroy op env)"

section \<open>Meta data\<close>

datatype MetaState = Orig_meta_send | Trgt_meta_start | Orig_wait_for_ack | Meta_done

type_synonym OpKelpieMeta = "MetaState kop"

definition meta_id :: u32 where
  "meta_id = const_hash ''OpKelpieMeta''"

definition OpKelpieMeta_origin ::
  "'io node_ctx \<Rightarrow> u16 \<Rightarrow> nodeid_t \<Rightarrow> bucket_t \<Rightarrow> key \<Rightarrow> u32 \<Rightarrow> callback_t option \<Rightarrow> mailbox_t \<Rightarrow> OpKelpieMeta" where
  "OpKelpieMeta_origin ctx command target_node bucket key iom_hash cb mailbox =
     (blank_op mailbox Orig_meta_send)\<lparr>kop_peer := Some target_node, kop_cb := cb,
       kop_msg := Some (Msg_simple (simple_Alloc (simple_body ctx) (my_id ctx) meta_id command target_node mailbox
          MAILBOX_UNSPECIFIED bucket key iom_hash 0 [] []))\<rparr>"

definition OpKelpieMeta_target :: "mailbox_t \<Rightarrow> OpKelpieMeta" where
  "OpKelpieMeta_target mailbox = blank_op mailbox Trgt_meta_start"

definition smo_Meta_Send :: "OpKelpieMeta \<Rightarrow> 'io op_env \<Rightarrow> (OpKelpieMeta, 'io) update_result" where
  "smo_Meta_Send op env = rbind (SendMsg op env) (\<lambda>(op1, env1). updateState Orig_wait_for_ack Waiting_on_cq op1 env1)"

definition smt_Meta_Start ::
  "'io node_ctx \<Rightarrow> u32 \<Rightarrow> op_args \<Rightarrow> OpKelpieMeta \<Rightarrow> 'io op_env \<Rightarrow> (OpKelpieMeta, 'io) update_result" where
  "smt_Meta_Start ctx now args op env =
     rbind (expect_simple args) (\<lambda>imsg.
     rbind (simple_ExtractKey imsg) (\<lambda>key.
       let cmd = GetCommand (ms_hdr imsg);
           is_colinfo = (cmd = CMD_GET_COLINFO);
           is_rowinfo = (cmd = CMD_GET_ROWINFO) in
       if is_colinfo \<or> is_rowinfo then
         let ack = AllocAck (status_body ctx) (my_id ctx) (ms_hdr imsg);
             ((rc, info), lkv1) = getInfo now (ms_bucket imsg) key True (e_lkv env) in
         rbind (if rc \<noteq> KELPIE_OK \<and> ms_iom_hash imsg \<noteq> 0 \<and> is_colinfo then
                  (case FindIOM ctx (ms_iom_hash imsg) of
                     None \<Rightarrow> Inl Runtime_error
                   | Some m \<Rightarrow> Inr (iom_GetInfo m (ms_bucket imsg) key (e_io env)))
                else Inr (rc, info, e_io env)) (\<lambda>(rc1, info1, io1).
         rbind (SendMsg (op\<lparr>kop_peer := Some (msg_src (ms_hdr imsg)),
                           kop_msg := Some (Msg_status (ack\<lparr>object_info := info1, remote_rc := rc1\<rparr>))\<rparr>)
                 (env\<lparr>e_lkv := lkv1, e_io := io1\<rparr>)) (\<lambda>(op1, env1).
         updateState Meta_done Done_and_destroy op1 env1))
       else Inl Halted))"

definition smo_Meta_WaitAck :: "op_args \<Rightarrow> OpKelpieMeta \<Rightarrow> 'io op_env \<Rightarrow> (OpKelpieMeta, 'io) update_result" where
  "smo_Meta_WaitAck args op env =
     rbind (expect_status args) (\<lambda>imsg.
       if \<not> IsStatus (mst_hdr imsg) then Inl Assert_failed
       else updateState Meta_done Done_and_destroy op
         (case kop_cb op of
            Some cb \<Rightarrow> env\<lparr>e_calls := e_calls env @
              [Publish_result cb (remote_rc imsg) (ChangeAvailabilityFromLocalToRemote (object_info imsg))]\<rparr>
          | None \<Rightarrow> env))"

definition meta_Update ::
  "'io node_ctx \<Rightarrow> u32 \<Rightarrow> op_args \<Rightarrow> OpKelpieMeta \<Rightarrow> 'io op_env \<Rightarrow> (OpKelpieMeta, 'io) update_result" where
  "meta_Update ctx now args op env = (case kop_state op of
     Orig_meta_send \<Rightarrow> smo_Meta_Send op env
   | Trgt_meta_start \<Rightarrow> smt_Meta_Start ctx now args op env
   | Orig_wait_for_ack \<Rightarrow> smo_Meta_WaitAck args op env
   | Meta_done \<Rightarrow> updateState Meta_done Done_and_destroy op env)"

section \<open>Drop\<close>

datatype DropState = Orig_drop_send | Trgt_drop_start | Orig_drop_wait_for_results | Drop_done

record OpKelpieDrop =
  dop_mailbox :: mailbox_t
  dop_targets :: "nodeid_t list"
  dop_bucket :: bucket_t
  dop_search_key :: key
  dop_callback :: "callback_t option"
  dop_targets_left :: u64
  dop_successful :: int
  dop_state :: DropState

definition drop_id :: u32 where
  "drop_id = const_hash ''OpKelpieDrop''"

definition OpKelpieDrop_origin ::
  "nodeid_t list \<Rightarrow> bucket_t \<Rightarrow> key \<Rightarrow> bool \<Rightarrow> callback_t option \<Rightarrow> mailbox_t \<Rightarrow> OpKelpieDrop" where
  "OpKelpieDrop_origin targets bucket search_key already_dropped_locally callback mailbox =
     \<lparr>dop_mailbox = mailbox, dop_targets = targets, dop_bucket = bucket, dop_search_key = search_key, dop_callback = callback,
      dop_targets_left = 0, dop_successful = (if already_dropped_locally then 1 else 0), dop_state = Orig_drop_send\<rparr>"

definition OpKelpieDrop_target :: "mailbox_t \<Rightarrow> OpKelpieDrop" where
  "OpKelpieDrop_target mailbox =
     \<lparr>dop_mailbox = mailbox, dop_targets = [], dop_bucket = 0, dop_search_key = Key [] [], dop_callback = None,
      dop_targets_left = 0, dop_successful = 0, dop_state = Trgt_drop_start\<rparr>"

definition smo_Drop_Send :: "'io node_ctx \<Rightarrow> OpKelpieDrop \<Rightarrow> 'io op_env \<Rightarrow> (OpKelpieDrop, 'io) update_result" where
  "smo_Drop_Send ctx op env =
     (let expects_reply = (dop_callback op \<noteq> None);
          mbox = (if expects_reply then dop_mailbox op else MAILBOX_UNSPECIFIED);
          sends = map (\<lambda>node. (node, Msg_simple (simple_Alloc (simple_body ctx) (my_id ctx) drop_id CMD_DROP node mbox
                     MAILBOX_UNSPECIFIED (dop_bucket op) (dop_search_key op) 0 0 [] []))) (dop_targets op);
          op1 = op\<lparr>dop_targets_left := (if expects_reply then word_of_nat (length (dop_targets op)) else 0)\<rparr>;
          env1 = env\<lparr>e_sends := e_sends env @ sends\<rparr>
      in if expects_reply then Inr (Waiting_on_cq, op1\<lparr>dop_state := Orig_drop_wait_for_results\<rparr>, env1)
         else Inr (Done_and_destroy, op1\<lparr>dop_state := Drop_done\<rparr>, env1))"

definition smt_Drop_Start ::
  "'io node_ctx \<Rightarrow> u32 \<Rightarrow> op_args \<Rightarrow> OpKelpieDrop \<Rightarrow> 'io op_env \<Rightarrow> (OpKelpieDrop, 'io) update_result" where
  "smt_Drop_Start ctx now args op env =
     rbind (expect_simple args) (\<lambda>imsg.
     rbind (simple_ExtractKey imsg) (\<lambda>key.
     rbind (drop_op now (ms_bucket imsg) key (e_lkv env)) (\<lambda>(rc, lkv1).
       let ack = AllocAck (status_body ctx) (my_id ctx) (ms_hdr imsg);
           reply = (if rc \<noteq> KELPIE_OK then status_SetSuccess False ack else ack);
           sends = (if src_mailbox (ms_hdr imsg) \<noteq> MAILBOX_UNSPECIFIED then [(msg_src (ms_hdr imsg), Msg_status reply)] else [])
       in Inr (Done_and_destroy, op\<lparr>dop_search_key := key, dop_state := Drop_done\<rparr>,
               env\<lparr>e_lkv := lkv1, e_sends := e_sends env @ sends\<rparr>))))"

definition smo_Drop_WaitForResults :: "op_args \<Rightarrow> OpKelpieDrop \<Rightarrow> 'io op_env \<Rightarrow> (OpKelpieDrop, 'io) update_result" where
  "smo_Drop_WaitForResults args op env =
     rbind (expect_status args) (\<lambda>imsg.
       let op1 = op\<lparr>dop_successful := dop_successful op + (if Success (mst_hdr imsg) then 1 else 0),
                    dop_targets_left := dop_targets_left op - 1\<rparr>
       in if dop_targets_left op1 < 1 then
            (case dop_callback op1 of
               Some cb \<Rightarrow> Inr (Done_and_destroy, op1\<lparr>dop_state := Drop_done\<rparr>,
                             env\<lparr>e_calls := e_calls env @ [Drop_result cb (dop_successful op1 > 0) (dop_search_key op1)]\<rparr>)
             | None \<Rightarrow> Inl Runtime_error)
          else Inr (Waiting_on_cq, op1, env))"

definition drop_Update ::
  "'io node_ctx \<Rightarrow> u32 \<Rightarrow> op_args \<Rightarrow> OpKelpieDrop \<Rightarrow> 'io op_env \<Rightarrow> (OpKelpieDrop, 'io) update_result" where
  "drop_Update ctx now args op env = (case dop_state op of
     Orig_drop_send \<Rightarrow> smo_Drop_Send ctx op env
   | Trgt_drop_start \<Rightarrow> smt_Drop_Start ctx now args op env
   | Orig_drop_wait_for_results \<Rightarrow> smo_Drop_WaitForResults args op env
   | Drop_done \<Rightarrow> Inr (Done_and_destroy, op, env))"

section \<open>List\<close>

datatype ListState = Orig_list_send | Trgt_list_start | Orig_list_wait_for_results | List_done

text \<open>
  The caller's result object is the field \<open>lop_found\<close>; fulfilling the caller's promise hands it over.
  The reply carries the list itself; its packed form and that form's length are not modelled.
\<close>

record OpKelpieList =
  lop_mailbox :: mailbox_t
  lop_targets :: "nodeid_t list"
  lop_bucket :: bucket_t
  lop_search_key :: key
  lop_iom_hash :: u32
  lop_found :: ObjectCapacities
  lop_promise :: callback_t
  lop_targets_left :: int
  lop_state :: ListState

definition list_id :: u32 where
  "list_id = const_hash ''OpKelpieList''"

definition OpKelpieList_origin ::
  "nodeid_t list \<Rightarrow> bucket_t \<Rightarrow> key \<Rightarrow> u32 \<Rightarrow> ObjectCapacities \<Rightarrow> callback_t \<Rightarrow> mailbox_t \<Rightarrow> OpKelpieList" where
  "OpKelpieList_origin targets bucket search_key iom_hash object_capacities promise mailbox =
     \<lparr>lop_mailbox = mailbox, lop_targets = targets, lop_bucket = bucket, lop_search_key = search_key, lop_iom_hash = iom_hash,
      lop_found = object_capacities, lop_promise = promise, lop_targets_left = int (length targets), lop_state = Orig_list_send\<rparr>"

definition OpKelpieList_target :: "mailbox_t \<Rightarrow> OpKelpieList" where
  "OpKelpieList_target mailbox =
     \<lparr>lop_mailbox = mailbox, lop_targets = [], lop_bucket = 0, lop_search_key = Key [] [], lop_iom_hash = 0,
      lop_found = oc_empty, lop_promise = 0, lop_targets_left = 0, lop_state = Trgt_list_start\<rparr>"

definition smo_List_Send :: "'io node_ctx \<Rightarrow> OpKelpieList \<Rightarrow> 'io op_env \<Rightarrow> (OpKelpieList, 'io) update_result" where
  "smo_List_Send ctx op env =
     (if lop_targets_left op < 1 then Inr (Done_and_destroy, op\<lparr>lop_state := List_done\<rparr>, env)
      else
        let sends = map (\<lambda>node. (node, Msg_simple (simple_Alloc (simple_body ctx) (my_id ctx) list_id CMD_LIST node (lop_mailbox op)
                     MAILBOX_UNSPECIFIED (lop_bucket op) (lop_search_key op) (lop_iom_hash op) 0 [] []))) (lop_targets op)
        in Inr (Waiting_on_cq, op\<lparr>lop_state := Orig_list_wait_for_results\<rparr>, env\<lparr>e_sends := e_sends env @ sends\<rparr>))"

definition smt_List_Start ::
  "'io node_ctx \<Rightarrow> op_args \<Rightarrow> OpKelpieList \<Rightarrow> 'io op_env \<Rightarrow> (OpKelpieList, 'io) update_result" where
  "smt_List_Start ctx args op env =
     rbind (expect_simple args) (\<lambda>imsg.
     rbind (simple_ExtractKey imsg) (\<lambda>key.
     rbind (list_op (ms_bucket imsg) key (FindIOM ctx (ms_iom_hash imsg)) (e_io env) oc_empty (e_lkv env)) (\<lambda>(rc, found, io1).
       let simple_rc = (if rc = KELPIE_OK then 0 else 1) in
       Inr (Done_and_destroy, op\<lparr>lop_search_key := key, lop_state := List_done\<rparr>,
            env\<lparr>e_io := io1, e_sends := e_sends env @
              [(msg_src (ms_hdr imsg), Msg_capacities (SetStandardReply (my_id ctx) (ms_hdr imsg) simple_rc 0) found)]\<rparr>))))"

definition smo_List_WaitForResults :: "op_args \<Rightarrow> OpKelpieList \<Rightarrow> 'io op_env \<Rightarrow> (OpKelpieList, 'io) update_result" where
  "smo_List_WaitForResults args op env =
     rbind (ExpectMessageOrDie args) (\<lambda>m.
       case m of
         Msg_capacities _ found \<Rightarrow>
           let op1 = op\<lparr>lop_found := oc_AppendAll (lop_found op) found, lop_targets_left := lop_targets_left op - 1\<rparr>
           in if lop_targets_left op1 < 1 then
                Inr (Done_and_destroy, op1\<lparr>lop_state := List_done\<rparr>,
                     env\<lparr>e_calls := e_calls env @ [List_result (lop_promise op1) (lop_found op1)]\<rparr>)
              else Inr (Waiting_on_cq, op1\<lparr>lop_state := Orig_list_wait_for_results\<rparr>, env)
       | _ \<Rightarrow> Inl Undefined_behaviour)"

definition list_Update ::
  "'io node_ctx \<Rightarrow> u32 \<Rightarrow> op_args \<Rightarrow> OpKelpieList \<Rightarrow> 'io op_env \<Rightarrow> (OpKelpieList, 'io) update_result" where
  "list_Update ctx now args op env = (case lop_state op of
     Orig_list_send \<Rightarrow> smo_List_Send ctx op env
   | Trgt_list_start \<Rightarrow> smt_List_Start ctx args op env
   | Orig_list_wait_for_results \<Rightarrow> smo_List_WaitForResults args op env
   | List_done \<Rightarrow> Inr (Done_and_destroy, op\<lparr>lop_state := List_done\<rparr>, env))"

section \<open>Compute\<close>

datatype ComputeState = Orig_compute_send | Trgt_compute_start | Orig_compute_wait_for_info | Orig_compute_wait_for_rdma
  | Trgt_compute_wait_for_ack | Compute_done

type_synonym OpKelpieCompute = "ComputeState kop"

definition compute_id :: u32 where
  "compute_id = const_hash ''OpKelpieCompute''"

definition OpKelpieCompute_origin ::
  "'io node_ctx \<Rightarrow> nodeid_t \<Rightarrow> bucket_t \<Rightarrow> key \<Rightarrow> u32 \<Rightarrow> pool_behavior_t \<Rightarrow> string \<Rightarrow> string \<Rightarrow> callback_t \<Rightarrow> mailbox_t \<Rightarrow> OpKelpieCompute" where
  "OpKelpieCompute_origin ctx target_node bucket key iom_hash flags function_name function_args cb mailbox =
     (blank_op mailbox Orig_compute_send)\<lparr>kop_peer := Some target_node, kop_bucket := bucket, kop_key := key, kop_cb := Some cb,
       kop_msg := Some (Msg_simple (simple_Alloc (simple_body ctx) (my_id ctx) compute_id CMD_COMPUTE target_node mailbox
          MAILBOX_UNSPECIFIED bucket key iom_hash flags function_name function_args))\<rparr>"

definition OpKelpieCompute_target :: "mailbox_t \<Rightarrow> OpKelpieCompute" where
  "OpKelpieCompute_target mailbox = blank_op mailbox Trgt_compute_start"

definition smo_Compute_Send :: "OpKelpieCompute \<Rightarrow> 'io op_env \<Rightarrow> (OpKelpieCompute, 'io) update_result" where
  "smo_Compute_Send op env =
     rbind (SendMsg op env) (\<lambda>(op1, env1). updateState Orig_compute_wait_for_info Waiting_on_cq op1 env1)"

definition smt_Compute_Start ::
  "'io node_ctx \<Rightarrow> u32 \<Rightarrow> op_args \<Rightarrow> OpKelpieCompute \<Rightarrow> 'io op_env \<Rightarrow> (OpKelpieCompute, 'io) update_result" where
  "smt_Compute_Start ctx now args op env =
     rbind (expect_simple args) (\<lambda>imsg.
     rbind (ExtractComputeArgs imsg) (\<lambda>(key, function_name, function_args).
     rbind (lkv_doCompute (compute_registry ctx) now function_name function_args (ms_bucket imsg) key (Some (kop_data op)) (e_lkv env))
       (\<lambda>((rc, x), lkv1).
       let d = (case x of Some l \<Rightarrow> l | None \<Rightarrow> kop_data op);
           reply = (\<lambda>command ldo_data. buffer_Alloc (buffer_body ctx) (my_id ctx) compute_id command (msg_src (ms_hdr imsg)) (kop_mailbox op)
              (src_mailbox (ms_hdr imsg)) (ms_bucket imsg) key 0 0 ldo_data);
           op1 = op\<lparr>kop_peer := Some (msg_src (ms_hdr imsg)), kop_bucket := ms_bucket imsg, kop_key := key, kop_data := d,
             kop_msg := Some (Msg_buffer (if rc = KELPIE_OK then reply CMD_STATUS_ACK d else reply CMD_STATUS_NACK None))\<rparr> in
       rbind (SendMsg op1 (env\<lparr>e_lkv := lkv1\<rparr>)) (\<lambda>(op2, env1). updateState Trgt_compute_wait_for_ack Waiting_on_cq op2 env1))))"

text \<open>A callback object without a function throws when it is called.\<close>

definition compute_call :: "rc_t \<Rightarrow> OpKelpieCompute \<Rightarrow> 'io op_env \<Rightarrow> 'io op_env result" where
  "compute_call rc op env = (case kop_cb op of
     Some cb \<Rightarrow> Inr (env\<lparr>e_calls := e_calls env @ [Compute_result cb rc (kop_key op) (kop_data op)]\<rparr>)
   | None \<Rightarrow> Inl Runtime_error)"

definition smo_Compute_WaitInfo ::
  "'io node_ctx \<Rightarrow> op_args \<Rightarrow> OpKelpieCompute \<Rightarrow> 'io op_env \<Rightarrow> (OpKelpieCompute, 'io) update_result" where
  "smo_Compute_WaitInfo ctx args op env =
     rbind (expect_buffer args) (\<lambda>imsg.
       let op1 = op\<lparr>kop_peer := Some (msg_src (mb_hdr imsg))\<rparr> in
       if IsNack (mb_hdr imsg) then
         rbind (compute_call KELPIE_ENOENT op1 env) (updateState Compute_done Done_and_destroy op1)
       else if meta_plus_data_size imsg = 0 then
         rbind (compute_call KELPIE_OK op1 env) (updateState Compute_done Done_and_destroy op1)
       else
         rbind (new_ldo ctx (ucast (meta_plus_data_size imsg))) (\<lambda>ldo_data.
         let op2 = op1\<lparr>kop_data := ldo_data\<rparr> in
         rbind (net_Get (net_buffer_remote imsg) op2 env) (\<lambda>env1.
         updateState Orig_compute_wait_for_rdma Waiting_on_cq
           (op2\<lparr>kop_msg := Some (Msg_status (AllocAck (status_body ctx) (my_id ctx) (mb_hdr imsg)))\<rparr>) env1)))"

definition smo_Compute_WaitRDMA :: "op_args \<Rightarrow> OpKelpieCompute \<Rightarrow> 'io op_env \<Rightarrow> (OpKelpieCompute, 'io) update_result" where
  "smo_Compute_WaitRDMA args op env =
     rbind (VerifyTypeOrDie Get_success args) (\<lambda>_.
     rbind (compute_call KELPIE_OK op env) (\<lambda>env1.
     rbind (on_status (status_SetSuccess True) op) (\<lambda>op1.
     rbind (SendMsg op1 env1) (\<lambda>(op2, env2). updateState Compute_done Done_and_destroy op2 env2))))"

definition smt_Compute_WaitAck :: "op_args \<Rightarrow> OpKelpieCompute \<Rightarrow> 'io op_env \<Rightarrow> (OpKelpieCompute, 'io) update_result" where
  "smt_Compute_WaitAck args op env =
     rbind (ExpectMessageOrDie args) (\<lambda>_. updateState Compute_done Done_and_destroy op env)"

definition compute_Update ::
  "'io node_ctx \<Rightarrow> u32 \<Rightarrow> op_args \<Rightarrow> OpKelpieCompute \<Rightarrow> 'io op_env \<Rightarrow> (OpKelpieCompute, 'io) update_result" where
  "compute_Update ctx now args op env = (case kop_state op of
     Orig_compute_send \<Rightarrow> smo_Compute_Send op env
   | Trgt_compute_start \<Rightarrow> smt_Compute_Start ctx now args op env
   | Orig_compute_wait_for_info \<Rightarrow> smo_Compute_WaitInfo ctx args op env
   | Orig_compute_wait_for_rdma \<Rightarrow> smo_Compute_WaitRDMA args op env
   | Trgt_compute_wait_for_ack \<Rightarrow> smt_Compute_WaitAck args op env
   | Compute_done \<Rightarrow> updateState Compute_done Done_and_destroy op env)"

section \<open>All ops\<close>

datatype kelpie_op = Op_publish OpKelpiePublish | Op_getunbounded OpKelpieGetUnbounded | Op_getbounded OpKelpieGetBounded
  | Op_meta OpKelpieMeta | Op_drop OpKelpieDrop | Op_list OpKelpieList | Op_compute OpKelpieCompute

text \<open>The virtual call: each class's update on its own ops.\<close>

definition wrap_op :: "('a \<Rightarrow> kelpie_op) \<Rightarrow> ('a, 'io) update_result \<Rightarrow> (kelpie_op, 'io) update_result" where
  "wrap_op C r = rbind r (\<lambda>(w, op, env). Inr (w, C op, env))"

fun kelpie_Update :: "'io node_ctx \<Rightarrow> u32 \<Rightarrow> op_args \<Rightarrow> kelpie_op \<Rightarrow> 'io op_env \<Rightarrow> (kelpie_op, 'io) update_result" where
  "kelpie_Update ctx now args (Op_publish op) env = wrap_op Op_publish (publish_Update ctx now args op env)"
| "kelpie_Update ctx now args (Op_getunbounded op) env = wrap_op Op_getunbounded (getunbounded_Update ctx now args op env)"
| "kelpie_Update ctx now args (Op_getbounded op) env = wrap_op Op_getbounded (getbounded_Update ctx now args op env)"
| "kelpie_Update ctx now args (Op_meta op) env = wrap_op Op_meta (meta_Update ctx now args op env)"
| "kelpie_Update ctx now args (Op_drop op) env = wrap_op Op_drop (drop_Update ctx now args op env)"
| "kelpie_Update ctx now args (Op_list op) env = wrap_op Op_list (list_Update ctx now args op env)"
| "kelpie_Update ctx now args (Op_compute op) env = wrap_op Op_compute (compute_Update ctx now args op env)"

text \<open>
  The constructors kelpie registers when it is initialised, in order.
\<close>

definition kelpie_registrations :: "(u32 \<times> string \<times> (mailbox_t \<Rightarrow> kelpie_op)) list" where
  "kelpie_registrations =
     [(compute_id, ''OpKelpieCompute'', Op_compute \<circ> OpKelpieCompute_target),
      (drop_id, ''OpKelpieDrop'', Op_drop \<circ> OpKelpieDrop_target),
      (getbounded_id, ''OpKelpieGetBounded'', Op_getbounded \<circ> OpKelpieGetBounded_target),
      (getunbounded_id, ''OpKelpieGetUnbounded'', Op_getunbounded \<circ> OpKelpieGetUnbounded_target),
      (list_id, ''OpKelpieList'', Op_list \<circ> OpKelpieList_target),
      (meta_id, ''OpKelpieMeta'', Op_meta \<circ> OpKelpieMeta_target),
      (publish_id, ''OpKelpiePublish'', Op_publish \<circ> OpKelpiePublish_target)]"

fun register_all :: "(u32 \<times> string \<times> 'c) list \<Rightarrow> 'c OpRegistry \<Rightarrow> 'c OpRegistry result" where
  "register_all [] r = Inr r"
| "register_all ((i, n, f) # xs) r = rbind (RegisterOp i n f r) (register_all xs)"

section \<open>Registration\<close>

lemma op_ids:
  "drop_id = 701075443" "getbounded_id = 2221785215" "getunbounded_id = 3664829634" "list_id = 2190362714"
  "meta_id = 3391962085" "publish_id = 3818369813" "compute_id = 1773023483"
  by (simp_all add: compute_id_def drop_id_def getbounded_id_def getunbounded_id_def list_id_def meta_id_def publish_id_def ord_def)

text \<open>The ids do not collide, so kelpie's initialisation registers every op.\<close>

lemma kelpie_registers:
  "register_all kelpie_registrations new_OpRegistry =
     Inr \<lparr>finalized = False,
       known_ops_pre = [(drop_id, Op_drop \<circ> OpKelpieDrop_target), (compute_id, Op_compute \<circ> OpKelpieCompute_target), (list_id, Op_list \<circ> OpKelpieList_target),
         (getbounded_id, Op_getbounded \<circ> OpKelpieGetBounded_target), (meta_id, Op_meta \<circ> OpKelpieMeta_target),
         (getunbounded_id, Op_getunbounded \<circ> OpKelpieGetUnbounded_target), (publish_id, Op_publish \<circ> OpKelpiePublish_target)],
       known_ops_post = [],
       op_names_pre = [(drop_id, ''OpKelpieDrop''), (compute_id, ''OpKelpieCompute''), (list_id, ''OpKelpieList''), (getbounded_id, ''OpKelpieGetBounded''),
         (meta_id, ''OpKelpieMeta''), (getunbounded_id, ''OpKelpieGetUnbounded''), (publish_id, ''OpKelpiePublish'')],
       op_names_post = []\<rparr>"
  by (simp add: kelpie_registrations_def RegisterOp_def new_OpRegistry_def op_ids)

end
