(* ===== verification/Kelpie_Cluster.thy ===== *)
theory Kelpie_Cluster
  imports Kelpie_Ops
begin

text \<open>
  Nodes that run the direct ops against each other: every node has its op core, its store and its
  storage, and the network holds the messages and the memory transfers under way.  A step runs one
  queued call on a node, delivers one message, completes one transfer or launches an op; any of
  them may come next.  The updates of a node do not overlap, as with the one backburner thread of the default
  configuration.
\<close>

section \<open>Nodes and the network\<close>

record 'io node =
  n_core :: "(kelpie_op, kelpie_msg, ldo \<times> object_info_t) OpBoxCore"
  n_lkv :: LocalKV
  n_io :: 'io
  n_calls :: "user_call list"
  n_later :: "effect list"

record 'io cluster =
  nodes :: "nodeid_t \<Rightarrow> 'io node"
  wire :: "(nodeid_t \<times> kelpie_msg) list"
  dma :: "(nodeid_t \<times> rdma_req) list"

definition kelpie_create :: "u32 \<Rightarrow> (mailbox_t \<Rightarrow> kelpie_op) option" where
  "kelpie_create op_id = (case register_all kelpie_registrations new_OpRegistry of
     Inl _ \<Rightarrow> None | Inr r \<Rightarrow> CreateOp op_id (reg_Start r))"

text \<open>
  What the store asks for while it is updated: waiting ops are triggered, callbacks are handed to
  the backburner.
\<close>
fun apply_effects :: "effect list \<Rightarrow> 'io node \<Rightarrow> 'io node result" where
  "apply_effects [] nd = Inr nd"
| "apply_effects (TriggerOp mailbox arg # es) nd =
     rbind (core_TriggerOp mailbox arg (n_core nd)) (\<lambda>(_, c). apply_effects es (nd\<lparr>n_core := c\<rparr>))"
| "apply_effects (e # es) nd = apply_effects es (nd\<lparr>n_later := n_later nd @ [e]\<rparr>)"

definition remove_nth :: "nat \<Rightarrow> 'a list \<Rightarrow> 'a list" where
  "remove_nth i xs = take i xs @ drop (Suc i) xs"

definition run_work :: "(nodeid_t \<Rightarrow> 'io node_ctx) \<Rightarrow> u32 \<Rightarrow> nodeid_t \<Rightarrow> nat \<Rightarrow> 'io cluster \<Rightarrow> 'io cluster result" where
  "run_work ctx now n i cl =
     (let nd = nodes cl n; (mailbox, args) = work (n_core nd) ! i;
          core0 = (n_core nd)\<lparr>work := remove_nth i (work (n_core nd))\<rparr>;
          env0 = \<lparr>e_lkv = n_lkv nd, e_io = n_io nd, e_sends = [], e_rdma = [], e_effects = [], e_calls = []\<rparr> in
      rbind (doAction (kelpie_Update (ctx n) now) mailbox args env0 core0) (\<lambda>(_, env, core1).
      rbind (apply_effects (e_effects env)
               (nd\<lparr>n_core := core1, n_lkv := e_lkv env, n_io := e_io env, n_calls := n_calls nd @ e_calls env\<rparr>)) (\<lambda>nd1.
      Inr (cl\<lparr>nodes := (nodes cl)(n := nd1), wire := wire cl @ e_sends env,
              dma := dma cl @ map (Pair n) (e_rdma env)\<rparr>))))"

definition deliver :: "nat \<Rightarrow> 'io cluster \<Rightarrow> 'io cluster result" where
  "deliver i cl =
     (let (n, m) = wire cl ! i; nd = nodes cl n in
      rbind (HandleIncomingMessage msg_header kelpie_create m (n_core nd)) (\<lambda>c.
      Inr (cl\<lparr>nodes := (nodes cl)(n := nd\<lparr>n_core := c\<rparr>), wire := remove_nth i (wire cl)\<rparr>)))"

section \<open>Memory transfers\<close>

text \<open>The object an op holds for transfers, and the op with another one.\<close>

fun op_data :: "kelpie_op \<Rightarrow> ldo" where
  "op_data (Op_publish op) = kop_data op"
| "op_data (Op_getunbounded op) = kop_data op"
| "op_data (Op_getbounded op) = kop_data op"
| "op_data (Op_compute op) = kop_data op"
| "op_data _ = None"

fun set_op_data :: "ldo \<Rightarrow> kelpie_op \<Rightarrow> kelpie_op" where
  "set_op_data x (Op_publish op) = Op_publish (op\<lparr>kop_data := x\<rparr>)"
| "set_op_data x (Op_getunbounded op) = Op_getunbounded (op\<lparr>kop_data := x\<rparr>)"
| "set_op_data x (Op_getbounded op) = Op_getbounded (op\<lparr>kop_data := x\<rparr>)"
| "set_op_data x (Op_compute op) = Op_compute (op\<lparr>kop_data := x\<rparr>)"
| "set_op_data x op = op"

text \<open>
  An object in memory, header first, with its padding, whose bytes nothing interprets.  That the allocation
  extends to the end of the padding holds for every object no larger than the capacity it was made with.
\<close>

definition memory_image :: "dataobject \<Rightarrow> u8 list" where
  "memory_image d = wire_image d @ replicate (unat (do_padding d)) 0"

text \<open>
  A transfer copies the shorter of the two lengths, header included.  When the header it brings
  claims more bytes than the receiving block has, every later access runs past the block.
\<close>
definition rdma_copy :: "nat \<Rightarrow> dataobject \<Rightarrow> dataobject \<Rightarrow> dataobject result" where
  "rdma_copy n src dst = (case of_wire (do_padding dst) (take n (memory_image src) @ drop n (memory_image dst)) of
     Some d \<Rightarrow> Inr d | None \<Rightarrow> Inl Undefined_behaviour)"

definition held_data :: "nodeid_t \<Rightarrow> mailbox_t \<Rightarrow> 'io cluster \<Rightarrow> dataobject result" where
  "held_data n mailbox cl = (case Option.bind (getActiveOp mailbox (n_core (nodes cl n))) op_data of
     Some d \<Rightarrow> Inr d | None \<Rightarrow> Inl Undefined_behaviour)"

definition set_held :: "nodeid_t \<Rightarrow> mailbox_t \<Rightarrow> dataobject \<Rightarrow> 'io cluster \<Rightarrow> 'io cluster" where
  "set_held n mailbox d cl =
     (let nd = nodes cl n; c = n_core nd in
      case getActiveOp mailbox c of
        None \<Rightarrow> cl
      | Some op \<Rightarrow> cl\<lparr>nodes := (nodes cl)(n := nd\<lparr>n_core := c\<lparr>active_ops := om_set mailbox (set_op_data (Some d) op) (active_ops c)\<rparr>\<rparr>)\<rparr>)"

definition notify :: "nodeid_t \<Rightarrow> mailbox_t \<Rightarrow> UpdateType \<Rightarrow> 'io cluster \<Rightarrow> 'io cluster result" where
  "notify n mailbox t cl =
     (let nd = nodes cl n in
      rbind (UpdateOp mailbox t (n_core nd)) (\<lambda>c. Inr (cl\<lparr>nodes := (nodes cl)(n := nd\<lparr>n_core := c\<rparr>)\<rparr>)))"

definition transfer :: "nat \<Rightarrow> 'io cluster \<Rightarrow> 'io cluster result" where
  "transfer i cl =
     (let (n, req) = dma cl ! i; cl0 = cl\<lparr>dma := remove_nth i (dma cl)\<rparr> in
      case req of
        Rdma_Get mailbox nbr \<Rightarrow>
          rbind (held_data (nbr_node nbr) (nbr_op nbr) cl) (\<lambda>src.
          rbind (held_data n mailbox cl) (\<lambda>dst.
          rbind (rdma_copy (unat (min (memory_size dst) (nbr_length nbr))) src dst) (\<lambda>d.
          notify n mailbox Get_success (set_held n mailbox d cl0))))
      | Rdma_Put mailbox nbr \<Rightarrow>
          rbind (held_data n mailbox cl) (\<lambda>src.
          rbind (held_data (nbr_node nbr) (nbr_op nbr) cl) (\<lambda>dst.
          rbind (rdma_copy (unat (min (memory_size src) (nbr_length nbr))) src dst) (\<lambda>d.
          notify n mailbox Put_success (set_held (nbr_node nbr) (nbr_op nbr) d cl0)))))"

section \<open>Steps\<close>

definition launch :: "nodeid_t \<Rightarrow> (mailbox_t \<Rightarrow> kelpie_op) \<Rightarrow> 'io cluster \<Rightarrow> 'io cluster result" where
  "launch n mk cl =
     (let nd = nodes cl n in
      rbind (LaunchOp MAILBOX_UNSPECIFIED mk (n_core nd)) (\<lambda>(_, c).
      Inr (cl\<lparr>nodes := (nodes cl)(n := nd\<lparr>n_core := c\<rparr>)\<rparr>)))"

datatype event =
    Launch_publish nodeid_t nodeid_t bucket_t key dataobject pool_behavior_t callback_t
  | Launch_get nodeid_t nodeid_t bucket_t key pool_behavior_t callback_t
  | Run nodeid_t nat u32
  | Deliver nat
  | Transfer nat

fun enabled :: "event \<Rightarrow> 'io cluster \<Rightarrow> bool" where
  "enabled (Launch_publish _ _ _ _ _ _ _) cl = True"
| "enabled (Launch_get _ _ _ _ _ _) cl = True"
| "enabled (Run n i _) cl = (i < length (work (n_core (nodes cl n))))"
| "enabled (Deliver i) cl = (i < length (wire cl))"
| "enabled (Transfer i) cl = (i < length (dma cl))"

fun cluster_step :: "(nodeid_t \<Rightarrow> 'io node_ctx) \<Rightarrow> event \<Rightarrow> 'io cluster \<Rightarrow> 'io cluster result" where
  "cluster_step ctx (Launch_publish n t b k d f cb) cl =
     launch n (\<lambda>m. Op_publish (OpKelpiePublish_origin (ctx n) t b k (Some d) 0 f (Some cb) m)) cl"
| "cluster_step ctx (Launch_get n t b k f cb) cl =
     launch n (\<lambda>m. Op_getunbounded (OpKelpieGetUnbounded_origin (ctx n) t b k 0 f cb m)) cl"
| "cluster_step ctx (Run n i now) cl = run_work ctx now n i cl"
| "cluster_step ctx (Deliver i) cl = deliver i cl"
| "cluster_step ctx (Transfer i) cl = transfer i cl"

lemma kelpie_create_table:
  "kelpie_create op_id = map_of [(drop_id, Op_drop \<circ> OpKelpieDrop_target), (compute_id, Op_compute \<circ> OpKelpieCompute_target), (list_id, Op_list \<circ> OpKelpieList_target),
     (getbounded_id, Op_getbounded \<circ> OpKelpieGetBounded_target), (meta_id, Op_meta \<circ> OpKelpieMeta_target),
     (getunbounded_id, Op_getunbounded \<circ> OpKelpieGetUnbounded_target), (publish_id, Op_publish \<circ> OpKelpiePublish_target)] op_id"
  by (simp add: kelpie_create_def kelpie_registers CreateOp_def reg_Start_def)

lemma kelpie_create_ids:
  "kelpie_create publish_id = Some (Op_publish \<circ> OpKelpiePublish_target)"
  "kelpie_create getunbounded_id = Some (Op_getunbounded \<circ> OpKelpieGetUnbounded_target)"
  by (simp_all add: kelpie_create_table op_ids)

end
