(* ===== verification/Cluster_Sessions.thy ===== *)
theory Cluster_Sessions
  imports Kelpie_Cluster "HOL-Library.Multiset"
begin

text \<open>
  Every state a cluster reaches is a collection of sessions: requests, each with its ops, on its way through the protocol
  of its kind.  This theory defines the sessions and the invariant that splits a cluster into them,
  and proves that every step keeps the invariant and does not fail.
\<close>

section \<open>Sessions\<close>

text \<open>
  A session is one request from its launch to its end: which ops exist for it on which nodes, and
  what it is waiting for.  The phases name these moments in the order they are passed.
\<close>
record pub =
  p_origin :: nodeid_t
  p_mailbox :: mailbox_t
  p_target :: nodeid_t
  p_bucket :: bucket_t
  p_key :: key
  p_obj :: dataobject
  p_flags :: pool_behavior_t
  p_cb :: callback_t

datatype pub_phase = P_send | P_request | P_arrived mailbox_t | P_transfer mailbox_t | P_received mailbox_t
  | P_ack msg_direct_status_t | P_reply msg_direct_status_t

record getr =
  g_origin :: nodeid_t
  g_mailbox :: mailbox_t
  g_target :: nodeid_t
  g_bucket :: bucket_t
  g_key :: key
  g_flags :: pool_behavior_t
  g_cb :: callback_t

datatype get_phase = G_send | G_request | G_arrived mailbox_t | G_waiting mailbox_t | G_woken mailbox_t dataobject object_info_t
  | G_info mailbox_t dataobject | G_informed mailbox_t dataobject | G_transfer mailbox_t dataobject
  | G_received mailbox_t dataobject | G_ack mailbox_t dataobject | G_released mailbox_t dataobject

datatype session = Pub pub pub_phase | Get getr get_phase

definition pub_origin :: "(nodeid_t \<Rightarrow> 'io node_ctx) \<Rightarrow> pub \<Rightarrow> OpKelpiePublish" where
  "pub_origin ctx p = OpKelpiePublish_origin (ctx (p_origin p)) (p_target p) (p_bucket p) (p_key p) (Some (p_obj p)) 0
     (p_flags p) (Some (p_cb p)) (p_mailbox p)"

definition pub_asked :: "(nodeid_t \<Rightarrow> 'io node_ctx) \<Rightarrow> pub \<Rightarrow> OpKelpiePublish" where
  "pub_asked ctx p = (pub_origin ctx p)\<lparr>kop_msg := None, kop_state := Orig_pub_wait_for_ack\<rparr>"

definition pub_request :: "(nodeid_t \<Rightarrow> 'io node_ctx) \<Rightarrow> pub \<Rightarrow> msg_direct_buffer_t" where
  "pub_request ctx p = buffer_Alloc (buffer_body (ctx (p_origin p))) (my_id (ctx (p_origin p))) publish_id CMD_PUBLISH (p_target p)
     (p_mailbox p) MAILBOX_UNSPECIFIED (p_bucket p) (p_key p) 0 (p_flags p) (Some (p_obj p))"

definition pub_fetching :: "(nodeid_t \<Rightarrow> 'io node_ctx) \<Rightarrow> pub \<Rightarrow> mailbox_t \<Rightarrow> ldo \<Rightarrow> OpKelpiePublish" where
  "pub_fetching ctx p m x = (blank_op m Trgt_pub_wait_for_rdma)\<lparr>kop_peer := Some (my_id (ctx (p_origin p))), kop_bucket := p_bucket p,
     kop_key := p_key p, kop_nbr := GetRdmaPtr (my_id (ctx (p_origin p))) (p_mailbox p) (p_obj p),
     kop_flags := ChangeRemoteToLocal (p_flags p),
     kop_msg := Some (Msg_status (AllocAck (status_body (ctx (p_target p))) (my_id (ctx (p_target p))) (mb_hdr (pub_request ctx p)))),
     kop_data := x\<rparr>"

definition object_size :: "dataobject \<Rightarrow> nat" where
  "object_size d = length (do_meta d) + length (do_data d)"

text \<open>The object allocated to receive another one: one data section of its size, with the padding of that size.\<close>

definition landing :: "'io node_ctx \<Rightarrow> dataobject \<Rightarrow> dataobject" where
  "landing ctx d = \<lparr>do_type = 0, do_meta = [], do_data = map (fresh_bytes ctx) [0..<object_size d], do_padding = fit_padding d\<rparr>"

fun pub_target_op :: "(nodeid_t \<Rightarrow> 'io node_ctx) \<Rightarrow> pub \<Rightarrow> pub_phase \<Rightarrow> (mailbox_t \<times> OpKelpiePublish) option" where
  "pub_target_op ctx p (P_arrived m) = Some (m, OpKelpiePublish_target m)"
| "pub_target_op ctx p (P_transfer m) = Some (m, pub_fetching ctx p m (Some (landing (ctx (p_target p)) (p_obj p))))"
| "pub_target_op ctx p (P_received m) = Some (m, pub_fetching ctx p m (Some (fresh_copy (p_obj p))))"
| "pub_target_op ctx p _ = None"

definition get_origin :: "(nodeid_t \<Rightarrow> 'io node_ctx) \<Rightarrow> getr \<Rightarrow> OpKelpieGetUnbounded" where
  "get_origin ctx g = OpKelpieGetUnbounded_origin (ctx (g_origin g)) (g_target g) (g_bucket g) (g_key g) 0 (g_flags g) (g_cb g) (g_mailbox g)"

definition get_asked :: "(nodeid_t \<Rightarrow> 'io node_ctx) \<Rightarrow> getr \<Rightarrow> OpKelpieGetUnbounded" where
  "get_asked ctx g = (get_origin ctx g)\<lparr>kop_msg := None, kop_state := Orig_getunbounded_wait_for_info\<rparr>"

definition get_request :: "(nodeid_t \<Rightarrow> 'io node_ctx) \<Rightarrow> getr \<Rightarrow> msg_direct_simple_t" where
  "get_request ctx g = simple_Alloc (simple_body (ctx (g_origin g))) (my_id (ctx (g_origin g))) getunbounded_id CMD_GET_UNBOUNDED
     (g_target g) (g_mailbox g) MAILBOX_UNSPECIFIED (g_bucket g) (g_key g) 0 (g_flags g) [] []"

text \<open>The target's reply before and after an object is attached to it.\<close>

definition get_blank_reply :: "(nodeid_t \<Rightarrow> 'io node_ctx) \<Rightarrow> getr \<Rightarrow> mailbox_t \<Rightarrow> msg_direct_buffer_t" where
  "get_blank_reply ctx g m = buffer_Alloc (buffer_body (ctx (g_target g))) (my_id (ctx (g_target g))) getunbounded_id CMD_GET_UNBOUNDED
     (my_id (ctx (g_origin g))) m (g_mailbox g) (g_bucket g) (g_key g) 0 0 None"

definition get_reply :: "(nodeid_t \<Rightarrow> 'io node_ctx) \<Rightarrow> getr \<Rightarrow> mailbox_t \<Rightarrow> dataobject \<Rightarrow> msg_direct_buffer_t" where
  "get_reply ctx g m d = SetLDO (my_id (ctx (g_target g))) m (Some d) (get_blank_reply ctx g m)"

definition get_stalled :: "(nodeid_t \<Rightarrow> 'io node_ctx) \<Rightarrow> getr \<Rightarrow> mailbox_t \<Rightarrow> OpKelpieGetUnbounded" where
  "get_stalled ctx g m = (blank_op m Trgt_getunbounded_wait_for_data)\<lparr>kop_peer := Some (my_id (ctx (g_origin g))),
     kop_bucket := g_bucket g, kop_key := g_key g, kop_msg := Some (Msg_buffer (get_blank_reply ctx g m))\<rparr>"

definition get_serving :: "(nodeid_t \<Rightarrow> 'io node_ctx) \<Rightarrow> getr \<Rightarrow> mailbox_t \<Rightarrow> dataobject \<Rightarrow> OpKelpieGetUnbounded" where
  "get_serving ctx g m d = (blank_op m Trgt_getunbounded_wait_for_ack)\<lparr>kop_peer := Some (my_id (ctx (g_origin g))),
     kop_bucket := g_bucket g, kop_key := g_key g, kop_data := Some d\<rparr>"

definition get_final :: "(nodeid_t \<Rightarrow> 'io node_ctx) \<Rightarrow> getr \<Rightarrow> mailbox_t \<Rightarrow> dataobject \<Rightarrow> msg_direct_status_t" where
  "get_final ctx g m d = AllocAck (status_body (ctx (g_origin g))) (my_id (ctx (g_origin g))) (mb_hdr (get_reply ctx g m d))"

definition get_fetching :: "(nodeid_t \<Rightarrow> 'io node_ctx) \<Rightarrow> getr \<Rightarrow> mailbox_t \<Rightarrow> dataobject \<Rightarrow> ldo \<Rightarrow> OpKelpieGetUnbounded" where
  "get_fetching ctx g m d x = (get_asked ctx g)\<lparr>kop_peer := Some (my_id (ctx (g_target g))), kop_data := x,
     kop_msg := Some (Msg_status (get_final ctx g m d)), kop_state := Orig_getunbounded_wait_for_rdma\<rparr>"

fun get_origin_op :: "(nodeid_t \<Rightarrow> 'io node_ctx) \<Rightarrow> getr \<Rightarrow> get_phase \<Rightarrow> OpKelpieGetUnbounded option" where
  "get_origin_op ctx g G_send = Some (get_origin ctx g)"
| "get_origin_op ctx g (G_transfer m d) = Some (get_fetching ctx g m d (Some (landing (ctx (g_origin g)) d)))"
| "get_origin_op ctx g (G_received m d) = Some (get_fetching ctx g m d (Some (fresh_copy d)))"
| "get_origin_op ctx g (G_ack m d) = None"
| "get_origin_op ctx g (G_released m d) = None"
| "get_origin_op ctx g _ = Some (get_asked ctx g)"

fun get_target_op :: "(nodeid_t \<Rightarrow> 'io node_ctx) \<Rightarrow> getr \<Rightarrow> get_phase \<Rightarrow> (mailbox_t \<times> OpKelpieGetUnbounded) option" where
  "get_target_op ctx g (G_arrived m) = Some (m, OpKelpieGetUnbounded_target m)"
| "get_target_op ctx g (G_waiting m) = Some (m, get_stalled ctx g m)"
| "get_target_op ctx g (G_woken m d i) = Some (m, get_stalled ctx g m)"
| "get_target_op ctx g (G_info m d) = Some (m, get_serving ctx g m d)"
| "get_target_op ctx g (G_informed m d) = Some (m, get_serving ctx g m d)"
| "get_target_op ctx g (G_transfer m d) = Some (m, get_serving ctx g m d)"
| "get_target_op ctx g (G_received m d) = Some (m, get_serving ctx g m d)"
| "get_target_op ctx g (G_ack m d) = Some (m, get_serving ctx g m d)"
| "get_target_op ctx g (G_released m d) = Some (m, get_serving ctx g m d)"
| "get_target_op ctx g _ = None"

text \<open>The ops of a session on one node, as entries of its table.\<close>

fun ops_of :: "(nodeid_t \<Rightarrow> 'io node_ctx) \<Rightarrow> nodeid_t \<Rightarrow> session \<Rightarrow> (mailbox_t \<times> kelpie_op) multiset" where
  "ops_of ctx n (Pub p ph) =
     (if p_origin p = n then {#(p_mailbox p, Op_publish (if ph = P_send then pub_origin ctx p else pub_asked ctx p))#} else {#}) +
     (if p_target p = n then (case pub_target_op ctx p ph of Some (m, op) \<Rightarrow> {#(m, Op_publish op)#} | None \<Rightarrow> {#}) else {#})"
| "ops_of ctx n (Get g ph) =
     (if g_origin g = n then (case get_origin_op ctx g ph of Some op \<Rightarrow> {#(g_mailbox g, Op_getunbounded op)#} | None \<Rightarrow> {#}) else {#}) +
     (if g_target g = n then (case get_target_op ctx g ph of Some (m, op) \<Rightarrow> {#(m, Op_getunbounded op)#} | None \<Rightarrow> {#}) else {#})"

text \<open>What the session waits for: a queued call, a message, a transfer, or an object in a store.\<close>

datatype token = T_work nodeid_t mailbox_t op_args | T_wire nodeid_t kelpie_msg | T_dma nodeid_t rdma_req
  | T_wait nodeid_t mailbox_t bucket_t key

fun token_of :: "(nodeid_t \<Rightarrow> 'io node_ctx) \<Rightarrow> session \<Rightarrow> token" where
  "token_of ctx (Pub p P_send) = T_work (p_origin p) (p_mailbox p) (Args_update Start)"
| "token_of ctx (Pub p P_request) = T_wire (p_target p) (Msg_buffer (pub_request ctx p))"
| "token_of ctx (Pub p (P_arrived m)) = T_work (p_target p) m (Args_message (Msg_buffer (pub_request ctx p)))"
| "token_of ctx (Pub p (P_transfer m)) =
     T_dma (p_target p) (Rdma_Get m (GetRdmaPtr (my_id (ctx (p_origin p))) (p_mailbox p) (p_obj p)))"
| "token_of ctx (Pub p (P_received m)) = T_work (p_target p) m (Args_update Get_success)"
| "token_of ctx (Pub p (P_ack st)) = T_wire (p_origin p) (Msg_status st)"
| "token_of ctx (Pub p (P_reply st)) = T_work (p_origin p) (p_mailbox p) (Args_message (Msg_status st))"
| "token_of ctx (Get g G_send) = T_work (g_origin g) (g_mailbox g) (Args_update Start)"
| "token_of ctx (Get g G_request) = T_wire (g_target g) (Msg_simple (get_request ctx g))"
| "token_of ctx (Get g (G_arrived m)) = T_work (g_target g) m (Args_message (Msg_simple (get_request ctx g)))"
| "token_of ctx (Get g (G_waiting m)) = T_wait (g_target g) m (g_bucket g) (g_key g)"
| "token_of ctx (Get g (G_woken m d i)) = T_work (g_target g) m (Args_trigger (Some d, i))"
| "token_of ctx (Get g (G_info m d)) = T_wire (g_origin g) (Msg_buffer (get_reply ctx g m d))"
| "token_of ctx (Get g (G_informed m d)) = T_work (g_origin g) (g_mailbox g) (Args_message (Msg_buffer (get_reply ctx g m d)))"
| "token_of ctx (Get g (G_transfer m d)) =
     T_dma (g_origin g) (Rdma_Get (g_mailbox g) (GetRdmaPtr (my_id (ctx (g_target g))) m d))"
| "token_of ctx (Get g (G_received m d)) = T_work (g_origin g) (g_mailbox g) (Args_update Get_success)"
| "token_of ctx (Get g (G_ack m d)) = T_wire (g_target g) (Msg_status (status_SetSuccess True (get_final ctx g m d)))"
| "token_of ctx (Get g (G_released m d)) = T_work (g_target g) m (Args_message (Msg_status (status_SetSuccess True (get_final ctx g m d))))"

fun work_of :: "nodeid_t \<Rightarrow> token \<Rightarrow> (mailbox_t \<times> op_args) multiset" where
  "work_of n (T_work n' m a) = (if n' = n then {#(m, a)#} else {#})"
| "work_of n _ = {#}"

fun wire_of :: "token \<Rightarrow> (nodeid_t \<times> kelpie_msg) multiset" where
  "wire_of (T_wire n m) = {#(n, m)#}"
| "wire_of _ = {#}"

fun dma_of :: "token \<Rightarrow> (nodeid_t \<times> rdma_req) multiset" where
  "dma_of (T_dma n r) = {#(n, r)#}"
| "dma_of _ = {#}"

definition waiting_at :: "bucket_t \<Rightarrow> key \<Rightarrow> LocalKV \<Rightarrow> mailbox_t list" where
  "waiting_at b k t = (case cell_at b k t of Some c \<Rightarrow> waiting_ops_list c | None \<Rightarrow> [])"

fun waits_for :: "nodeid_t \<Rightarrow> bucket_t \<Rightarrow> key \<Rightarrow> token \<Rightarrow> mailbox_t set" where
  "waits_for n b k (T_wait n' m b' k') = (if n' = n \<and> same_slot b k b' k' then {m} else {})"
| "waits_for n b k _ = {}"

section \<open>The invariant\<close>

text \<open>
  Objects that can be transferred: with bytes, small enough for 32-bit sizes, and with at least the padding of
  their size.  An allocation's padding is between one and four; an object that has been resized
  after its allocation may have too little, and then the receiver aborts.
\<close>
definition transferable :: "dataobject \<Rightarrow> bool" where
  "transferable d = (do_wf d \<and> 0 < object_size d \<and> object_size d + 60 < 2 ^ 32 \<and> fit_padding d \<le> do_padding d \<and> do_padding d \<le> 4)"

definition stores_ok :: "LocalKV \<Rightarrow> bool" where
  "stores_ok t = (lkv_inv t \<and> no_lost_waiters t \<and> (\<forall>b k x. stored b k t = Some x \<longrightarrow> (\<exists>d. x = Some d \<and> transferable d)))"

definition pub_flags_ok :: "pool_behavior_t \<Rightarrow> bool" where
  "pub_flags_ok f = (has_flag (ChangeRemoteToLocal f) WriteToLocal \<and> \<not> has_flag (ChangeRemoteToLocal f) WriteToIOM)"

fun session_wf :: "session \<Rightarrow> bool" where
  "session_wf (Pub p ph) = (short_key (p_key p) \<and> transferable (p_obj p) \<and> pub_flags_ok (p_flags p) \<and>
     (case ph of P_ack st \<Rightarrow> dst_mailbox (mst_hdr st) = p_mailbox p | _ \<Rightarrow> True))"
| "session_wf (Get g ph) = (short_key (g_key g) \<and>
     (case ph of G_woken m d i \<Rightarrow> transferable d | G_info m d \<Rightarrow> transferable d | G_informed m d \<Rightarrow> transferable d
        | G_transfer m d \<Rightarrow> transferable d | G_received m d \<Rightarrow> transferable d | _ \<Rightarrow> True))"

definition node_ok :: "'io node \<Rightarrow> bool" where
  "node_ok nd = (core_inv (n_core nd) \<and> core_initialized (n_core nd) \<and> core_running (n_core nd) \<and> stores_ok (n_lkv nd))"

definition cluster_inv :: "(nodeid_t \<Rightarrow> 'io node_ctx) \<Rightarrow> 'io cluster \<Rightarrow> session multiset \<Rightarrow> bool" where
  "cluster_inv ctx cl S =
     ((\<forall>n. node_ok (nodes cl n)) \<and>
      (\<forall>n. mset (active_ops (n_core (nodes cl n))) = (\<Sum>s\<in>#S. ops_of ctx n s)) \<and>
      (\<forall>n. mset (work (n_core (nodes cl n))) = (\<Sum>s\<in>#S. work_of n (token_of ctx s))) \<and>
      mset (wire cl) = (\<Sum>s\<in>#S. wire_of (token_of ctx s)) \<and>
      mset (dma cl) = (\<Sum>s\<in>#S. dma_of (token_of ctx s)) \<and>
      (\<forall>n b k. set (waiting_at b k (n_lkv (nodes cl n))) = (\<Union>s\<in>set_mset S. waits_for n b k (token_of ctx s))) \<and>
      (\<forall>s\<in>#S. session_wf s))"

section \<open>Tables and queues as multisets\<close>

lemma mset_om_set_new: "om_inv m \<Longrightarrow> om_get m k = None \<Longrightarrow> mset (om_set k v m) = add_mset (k, v) (mset m)"
  by (induction m) (auto split: if_splits)

lemma om_get_above: "om_inv m \<Longrightarrow> \<forall>k' \<in> fst ` set m. k < k' \<Longrightarrow> om_get m k = None"
  by (auto simp: map_of_eq_None_iff)

lemma mset_om_set_old:
  "om_inv m \<Longrightarrow> om_get m k = Some v0 \<Longrightarrow> mset (om_set k v m) + {#(k, v0)#} = mset m + {#(k, v)#}"
proof (induction m)
  case (Cons kv m)
  obtain k' v' where kv: "kv = (k', v')" by (cases kv)
  have "om_get m k = None" if "k < k'"
    using Cons.prems(1) kv that by (intro om_get_above) auto
  then show ?case using Cons kv by (auto split: if_splits)
qed simp

lemma om_del_None: "om_get m k = None \<Longrightarrow> om_del k m = m"
  unfolding om_del_def map_of_eq_None_iff by (rule filter_True) force

lemma mset_om_del: "om_inv m \<Longrightarrow> om_get m k = Some v \<Longrightarrow> mset (om_del k m) + {#(k, v)#} = mset m"
proof (induction m)
  case (Cons kv m)
  obtain k' v' where kv: "kv = (k', v')" by (cases kv)
  show ?case
  proof (cases "k' = k")
    case True
    then have "om_get m k = None" using Cons.prems(1) kv by (simp add: om_get_above)
    then show ?thesis using True Cons.prems(2) kv om_del_None [of m k] by (simp add: om_del_def)
  next
    case False
    then show ?thesis using Cons kv by (simp add: om_del_def)
  qed
qed simp

lemma om_del_after_set: "om_del k (om_set k v m) = om_del k m"
  by (induction m) (auto simp: om_del_def)

lemma mset_remove_nth: "i < length xs \<Longrightarrow> mset xs = add_mset (xs ! i) (mset (remove_nth i xs))"
  by (simp add: remove_nth_def flip: mset_append add: id_take_nth_drop [of i xs, symmetric])
    (metis id_take_nth_drop mset_append add_mset_add_single mset.simps(2) union_mset_add_mset_right)

lemma ms_exchange:
  fixes a b c d x y :: "'a multiset"
  assumes "a + x = b + y" "c + x = d + y"
  shows "a + d = b + c"
proof -
  have "(a + d) + (x + y) = (a + x) + (d + y)" by (simp only: ac_simps)
  also have "\<dots> = (b + c) + (x + y)" unfolding assms(1) assms(2) [symmetric] by (simp only: ac_simps)
  finally show ?thesis by (simp only: add_right_cancel)
qed

lemma in_sum_mset: "x \<in># (\<Sum>s\<in>#S. f s) \<longleftrightarrow> (\<exists>s \<in># S. x \<in># f s)"
  by (induction S) auto

section \<open>Using the invariant\<close>

lemma inv_node: "cluster_inv ctx cl S \<Longrightarrow> node_ok (nodes cl n)"
  by (simp add: cluster_inv_def)

lemma inv_core: "cluster_inv ctx cl S \<Longrightarrow> core_inv (n_core (nodes cl n))"
  using inv_node by (auto simp: node_ok_def)

lemma inv_active:
  assumes "cluster_inv ctx cl S" "s \<in># S" "(m, op) \<in># ops_of ctx n s"
  shows "om_get (active_ops (n_core (nodes cl n))) m = Some op"
proof -
  have "(m, op) \<in># mset (active_ops (n_core (nodes cl n)))"
    using assms by (auto simp: cluster_inv_def in_sum_mset)
  then show ?thesis using om_in_set_iff [OF core_inv_om [OF inv_core [OF assms(1)]]] by simp
qed

lemma inv_getActive:
  "cluster_inv ctx cl S \<Longrightarrow> s \<in># S \<Longrightarrow> (m, op) \<in># ops_of ctx n s \<Longrightarrow> getActiveOp m (n_core (nodes cl n)) = Some op"
  using inv_active getActiveOp_get [OF inv_core] by metis

lemma inv_queues:
  assumes "cluster_inv ctx cl S"
  shows "mset (work (n_core (nodes cl n))) = (\<Sum>s\<in>#S. work_of n (token_of ctx s))"
    and "mset (wire cl) = (\<Sum>s\<in>#S. wire_of (token_of ctx s))"
    and "mset (dma cl) = (\<Sum>s\<in>#S. dma_of (token_of ctx s))"
  using assms by (simp_all add: cluster_inv_def)

lemma inv_work_token:
  assumes "cluster_inv ctx cl S" "i < length (work (n_core (nodes cl n)))" "work (n_core (nodes cl n)) ! i = (m, a)"
  obtains s where "s \<in># S" "token_of ctx s = T_work n m a"
proof -
  have "(m, a) \<in># mset (work (n_core (nodes cl n)))" using assms(2,3) by (metis nth_mem_mset)
  then obtain s where "s \<in># S" "(m, a) \<in># work_of n (token_of ctx s)"
    unfolding inv_queues [OF assms(1)] in_sum_mset by blast
  then show ?thesis by (intro that [of s]) (cases "token_of ctx s"; auto split: if_splits)+
qed

lemma inv_wire_token:
  assumes "cluster_inv ctx cl S" "i < length (wire cl)" "wire cl ! i = (n, m)"
  obtains s where "s \<in># S" "token_of ctx s = T_wire n m"
proof -
  have "(n, m) \<in># mset (wire cl)" using assms(2,3) by (metis nth_mem_mset)
  then obtain s where "s \<in># S" "(n, m) \<in># wire_of (token_of ctx s)"
    unfolding inv_queues [OF assms(1)] in_sum_mset by blast
  then show ?thesis by (intro that [of s]) (cases "token_of ctx s"; auto split: if_splits)+
qed

lemma inv_dma_token:
  assumes "cluster_inv ctx cl S" "i < length (dma cl)" "dma cl ! i = (n, r)"
  obtains s where "s \<in># S" "token_of ctx s = T_dma n r"
proof -
  have "(n, r) \<in># mset (dma cl)" using assms(2,3) by (metis nth_mem_mset)
  then obtain s where "s \<in># S" "(n, r) \<in># dma_of (token_of ctx s)"
    unfolding inv_queues [OF assms(1)] in_sum_mset by blast
  then show ?thesis by (intro that [of s]) (cases "token_of ctx s"; auto split: if_splits)+
qed

text \<open>
  Replacing the sessions \<open>M\<close> by \<open>M'\<close>: the node that moved, and the two network lists, must change by
  what these sessions own.
\<close>
lemma inv_replace:
  assumes inv: "cluster_inv ctx cl (M + R)"
    and nd: "nodes cl' = (nodes cl)(n := nd')" "node_ok nd'"
    and ops: "mset (active_ops (n_core nd')) + (\<Sum>s\<in>#M. ops_of ctx n s) =
               mset (active_ops (n_core (nodes cl n))) + (\<Sum>s\<in>#M'. ops_of ctx n s)"
      "\<And>n'. n' \<noteq> n \<Longrightarrow> (\<Sum>s\<in>#M. ops_of ctx n' s) = (\<Sum>s\<in>#M'. ops_of ctx n' s)"
    and wk: "mset (work (n_core nd')) + (\<Sum>s\<in>#M. work_of n (token_of ctx s)) =
               mset (work (n_core (nodes cl n))) + (\<Sum>s\<in>#M'. work_of n (token_of ctx s))"
      "\<And>n'. n' \<noteq> n \<Longrightarrow> (\<Sum>s\<in>#M. work_of n' (token_of ctx s)) = (\<Sum>s\<in>#M'. work_of n' (token_of ctx s))"
    and wi: "mset (wire cl') + (\<Sum>s\<in>#M. wire_of (token_of ctx s)) = mset (wire cl) + (\<Sum>s\<in>#M'. wire_of (token_of ctx s))"
    and dm: "mset (dma cl') + (\<Sum>s\<in>#M. dma_of (token_of ctx s)) = mset (dma cl) + (\<Sum>s\<in>#M'. dma_of (token_of ctx s))"
    and wa: "\<And>n' b k. set (waiting_at b k (n_lkv (nodes cl' n'))) = (\<Union>s\<in>set_mset (M' + R). waits_for n' b k (token_of ctx s))"
    and wf: "\<And>s. s \<in># M' \<Longrightarrow> session_wf s"
  shows "cluster_inv ctx cl' (M' + R)"
  unfolding cluster_inv_def
proof (intro conjI allI ballI)
  fix n'
  show "node_ok (nodes cl' n')" using inv nd by (simp add: cluster_inv_def)
  show "mset (active_ops (n_core (nodes cl' n'))) = (\<Sum>s\<in>#M' + R. ops_of ctx n' s)"
    using inv nd(1) ops by (cases "n' = n") (simp_all add: cluster_inv_def)
  show "mset (work (n_core (nodes cl' n'))) = (\<Sum>s\<in>#M' + R. work_of n' (token_of ctx s))"
    using inv nd(1) wk by (cases "n' = n") (simp_all add: cluster_inv_def)
next
  show "mset (wire cl') = (\<Sum>s\<in>#M' + R. wire_of (token_of ctx s))" using inv wi by (simp add: cluster_inv_def)
  show "mset (dma cl') = (\<Sum>s\<in>#M' + R. dma_of (token_of ctx s))" using inv dm by (simp add: cluster_inv_def)
next
  fix n' b k
  show "set (waiting_at b k (n_lkv (nodes cl' n'))) = (\<Union>s\<in>set_mset (M' + R). waits_for n' b k (token_of ctx s))" by (rule wa)
next
  fix s assume "s \<in># M' + R"
  then show "session_wf s" using wf inv by (auto simp: cluster_inv_def)
qed

text \<open>Nothing a user can see has changed.\<close>

definition same_view :: "'io cluster \<Rightarrow> 'io cluster \<Rightarrow> bool" where
  "same_view cl cl' = ((\<forall>n b k. stored b k (n_lkv (nodes cl' n)) = stored b k (n_lkv (nodes cl n))) \<and>
     (\<forall>n. n_calls (nodes cl' n) = n_calls (nodes cl n)))"

section \<open>Running a queued call\<close>

definition env_of :: "'io node \<Rightarrow> 'io op_env" where
  "env_of nd = \<lparr>e_lkv = n_lkv nd, e_io = n_io nd, e_sends = [], e_rdma = [], e_effects = [], e_calls = []\<rparr>"

lemma env_of_simps [simp]:
  "e_lkv (env_of nd) = n_lkv nd" "e_io (env_of nd) = n_io nd" "e_sends (env_of nd) = []" "e_rdma (env_of nd) = []"
  "e_effects (env_of nd) = []" "e_calls (env_of nd) = []"
  by (simp_all add: env_of_def)

definition after_update :: "nat \<Rightarrow> mailbox_t \<Rightarrow> WaitingType \<Rightarrow> kelpie_op \<Rightarrow> 'io op_env \<Rightarrow> 'io node \<Rightarrow> 'io node" where
  "after_update i m w op1 env nd =
     nd\<lparr>n_core := (n_core nd)\<lparr>work := remove_nth i (work (n_core nd)),
          active_ops := (if w = Done_and_destroy then om_del m (active_ops (n_core nd)) else om_set m op1 (active_ops (n_core nd)))\<rparr>,
        n_lkv := e_lkv env, n_io := e_io env, n_calls := n_calls nd @ e_calls env\<rparr>"

lemma run_work_eq:
  assumes "core_inv (n_core (nodes cl n))" "work (n_core (nodes cl n)) ! i = (m, args)"
    "om_get (active_ops (n_core (nodes cl n))) m = Some op"
    "kelpie_Update (ctx n) now args op (env_of (nodes cl n)) = Inr (w, op1, env1)"
    "w = Waiting_on_cq \<or> w = Wait_on_user \<or> w = Done_and_destroy"
  shows "run_work ctx now n i cl =
    rbind (apply_effects (e_effects env1) (after_update i m w op1 env1 (nodes cl n))) (\<lambda>nd1.
      Inr (cl\<lparr>nodes := (nodes cl)(n := nd1), wire := wire cl @ e_sends env1, dma := dma cl @ map (Pair n) (e_rdma env1)\<rparr>))"
proof -
  let ?c = "(n_core (nodes cl n))\<lparr>work := remove_nth i (work (n_core (nodes cl n)))\<rparr>"
  have c: "core_inv ?c" "om_get (active_ops ?c) m = Some op" using assms(1,3) by simp_all
  note D = doAction_run [where update = "kelpie_Update (ctx n) now", OF c assms(4)]
  have "doAction (kelpie_Update (ctx n) now) m args (env_of (nodes cl n)) ?c =
      Inr (0, env1, n_core (after_update i m w op1 env1 (nodes cl n)))"
    using assms(5) D by (auto simp: after_update_def om_del_after_set)
  then show ?thesis
    using assms(2) by (simp add: run_work_def Let_def env_of_def [symmetric]) (simp add: after_update_def)
qed

lemma after_update_core:
  assumes "core_inv (n_core nd)" "om_get (active_ops (n_core nd)) m = Some op"
  shows "core_inv (n_core (after_update i m w op1 env nd))"
    and "mset (active_ops (n_core (after_update i m w op1 env nd))) + {#(m, op)#} =
      mset (active_ops (n_core nd)) + (if w = Done_and_destroy then {#} else {#(m, op1)#})"
proof -
  have om: "om_inv (active_ops (n_core nd))" by (rule core_inv_om [OF assms(1)])
  note nz = active_nonzero [OF assms]
  show "core_inv (n_core (after_update i m w op1 env nd))"
    using core_inv_del_ops [OF assms(1), of m] core_inv_set_ops [OF assms(1), of m op1] nz
    by (cases "w = Done_and_destroy") (simp_all add: after_update_def core_inv_def)
  show "mset (active_ops (n_core (after_update i m w op1 env nd))) + {#(m, op)#} =
      mset (active_ops (n_core nd)) + (if w = Done_and_destroy then {#} else {#(m, op1)#})"
    using mset_om_del [OF om assms(2)] mset_om_set_old [OF om assms(2)] by (simp add: after_update_def)
qed

lemma after_update_simps [simp]:
  "n_lkv (after_update i m w op1 env nd) = e_lkv env"
  "n_calls (after_update i m w op1 env nd) = n_calls nd @ e_calls env"
  "work (n_core (after_update i m w op1 env nd)) = remove_nth i (work (n_core nd))"
  "core_running (n_core (after_update i m w op1 env nd)) = core_running (n_core nd)"
  "core_initialized (n_core (after_update i m w op1 env nd)) = core_initialized (n_core nd)"
  by (simp_all add: after_update_def)

text \<open>
  A call that runs for session \<open>s\<close> may touch further sessions \<open>M0\<close>, by triggering their ops; \<open>ws\<close> is the
  work it queues that way.
\<close>
lemma run_step:
  assumes inv: "cluster_inv ctx cl (add_mset s M0 + R)"
    and i: "i < length (work (n_core (nodes cl n)))" "work (n_core (nodes cl n)) ! i = (m, args)"
    and tok: "token_of ctx s = T_work n m args" and op: "(m, op) \<in># ops_of ctx n s"
    and upd: "kelpie_Update (ctx n) now args op (env_of (nodes cl n)) = Inr (w, op1, env1)"
    and w: "w = Waiting_on_cq \<or> w = Wait_on_user \<or> w = Done_and_destroy"
    and eff: "apply_effects (e_effects env1) (after_update i m w op1 env1 (nodes cl n)) = Inr nd2"
      "n_core nd2 = (n_core (after_update i m w op1 env1 (nodes cl n)))\<lparr>work := remove_nth i (work (n_core (nodes cl n))) @ ws\<rparr>"
      "n_lkv nd2 = e_lkv env1" "n_calls nd2 = n_calls (nodes cl n) @ e_calls env1"
    and lkv: "stores_ok (e_lkv env1)"
    and ops: "\<And>n'. (\<Sum>x\<in>#M'. ops_of ctx n' x) + (if n' = n then {#(m, op)#} else {#}) =
       (\<Sum>x\<in>#add_mset s M0. ops_of ctx n' x) + (if n' = n \<and> w \<noteq> Done_and_destroy then {#(m, op1)#} else {#})"
    and wk: "\<And>n'. (\<Sum>x\<in>#M'. work_of n' (token_of ctx x)) =
       (\<Sum>x\<in>#M0. work_of n' (token_of ctx x)) + (if n' = n then mset ws else {#})"
    and wi: "(\<Sum>x\<in>#M'. wire_of (token_of ctx x)) = (\<Sum>x\<in>#M0. wire_of (token_of ctx x)) + mset (e_sends env1)"
    and dm: "(\<Sum>x\<in>#M'. dma_of (token_of ctx x)) = (\<Sum>x\<in>#M0. dma_of (token_of ctx x)) + mset (map (Pair n) (e_rdma env1))"
    and wa: "\<And>n' b k. set (waiting_at b k (if n' = n then e_lkv env1 else n_lkv (nodes cl n'))) =
       (\<Union>x\<in>set_mset (M' + R). waits_for n' b k (token_of ctx x))"
    and wf: "\<And>x. x \<in># M' \<Longrightarrow> session_wf x"
  shows "\<exists>cl'. run_work ctx now n i cl = Inr cl' \<and> cluster_inv ctx cl' (M' + R) \<and>
    (\<forall>n'. n_lkv (nodes cl' n') = (if n' = n then e_lkv env1 else n_lkv (nodes cl n'))) \<and>
    (\<forall>n'. n_calls (nodes cl' n') = n_calls (nodes cl n') @ (if n' = n then e_calls env1 else []))"
proof -
  let ?nd = "nodes cl n" and ?a = "after_update i m w op1 env1 (nodes cl n)"
  let ?cl = "cl\<lparr>nodes := (nodes cl)(n := nd2), wire := wire cl @ e_sends env1, dma := dma cl @ map (Pair n) (e_rdma env1)\<rparr>"
  have act: "om_get (active_ops (n_core ?nd)) m = Some op" using inv_active [OF inv _ op] by simp
  note C = after_update_core [OF inv_core [OF inv] act, of i w op1 env1]
  have run: "run_work ctx now n i cl = Inr ?cl"
    using run_work_eq [where ctx = ctx and now = now and n = n, OF inv_core [OF inv, of n] i(2) act upd w] eff(1) by simp
  have nd: "node_ok nd2" using inv_node [OF inv, of n] C(1) eff(2,3) lkv by (simp add: node_ok_def)
  have "cluster_inv ctx ?cl (M' + R)"
  proof (rule inv_replace [OF inv, where n = n and nd' = nd2])
    show "mset (active_ops (n_core nd2)) + (\<Sum>x\<in>#add_mset s M0. ops_of ctx n x) =
        mset (active_ops (n_core (nodes cl n))) + (\<Sum>x\<in>#M'. ops_of ctx n x)"
    proof -
      have "(\<Sum>x\<in>#M'. ops_of ctx n x) + {#(m, op)#} =
          (\<Sum>x\<in>#add_mset s M0. ops_of ctx n x) + (if w = Done_and_destroy then {#} else {#(m, op1)#})"
        using ops [of n] by (cases "w = Done_and_destroy") simp_all
      from ms_exchange [OF C(2) this] show ?thesis using eff(2) by simp
    qed
    show "mset (work (n_core nd2)) + (\<Sum>x\<in>#add_mset s M0. work_of n (token_of ctx x)) =
        mset (work (n_core (nodes cl n))) + (\<Sum>x\<in>#M'. work_of n (token_of ctx x))"
      using mset_remove_nth [OF i(1)] i(2) tok wk [of n] eff(2) by (simp add: ac_simps)
    show "(\<Sum>x\<in>#add_mset s M0. ops_of ctx n' x) = (\<Sum>x\<in>#M'. ops_of ctx n' x)" if "n' \<noteq> n" for n'
      using ops [of n'] that by simp
    show "(\<Sum>x\<in>#add_mset s M0. work_of n' (token_of ctx x)) = (\<Sum>x\<in>#M'. work_of n' (token_of ctx x))" if "n' \<noteq> n" for n'
      using wk [of n'] that tok by simp
    show "set (waiting_at b k (n_lkv (nodes ?cl n'))) = (\<Union>x\<in>set_mset (M' + R). waits_for n' b k (token_of ctx x))" for n' b k
      using wa [of b k n'] eff(3) by (cases "n' = n") simp_all
  qed (use nd wi dm wf tok in \<open>simp_all add: ac_simps\<close>)
  then show ?thesis using run eff(3,4) by simp
qed

lemma run_quiet:
  assumes inv: "cluster_inv ctx cl (add_mset s R)"
    and i: "i < length (work (n_core (nodes cl n)))" "work (n_core (nodes cl n)) ! i = (m, args)"
    and tok: "token_of ctx s = T_work n m args" and op: "(m, op) \<in># ops_of ctx n s"
    and upd: "kelpie_Update (ctx n) now args op (env_of (nodes cl n)) = Inr (w, op1, env1)" "e_effects env1 = []"
    and w: "w = Waiting_on_cq \<or> w = Wait_on_user \<or> w = Done_and_destroy"
    and lkv: "stores_ok (e_lkv env1)"
    and ops: "\<And>n'. (\<Sum>x\<in>#M'. ops_of ctx n' x) + (if n' = n then {#(m, op)#} else {#}) =
       ops_of ctx n' s + (if n' = n \<and> w \<noteq> Done_and_destroy then {#(m, op1)#} else {#})"
    and toks: "\<And>n'. (\<Sum>x\<in>#M'. work_of n' (token_of ctx x)) = {#}"
      "(\<Sum>x\<in>#M'. wire_of (token_of ctx x)) = mset (e_sends env1)"
      "(\<Sum>x\<in>#M'. dma_of (token_of ctx x)) = mset (map (Pair n) (e_rdma env1))"
    and wa: "\<And>b k. set (waiting_at b k (e_lkv env1)) =
        set (waiting_at b k (n_lkv (nodes cl n))) \<union> (\<Union>x\<in>set_mset M'. waits_for n b k (token_of ctx x))"
      "\<And>n' b k x. n' \<noteq> n \<Longrightarrow> x \<in># M' \<Longrightarrow> waits_for n' b k (token_of ctx x) = {}"
    and wf: "\<And>x. x \<in># M' \<Longrightarrow> session_wf x"
  shows "\<exists>cl'. run_work ctx now n i cl = Inr cl' \<and> cluster_inv ctx cl' (M' + R) \<and>
    (\<forall>n'. n_lkv (nodes cl' n') = (if n' = n then e_lkv env1 else n_lkv (nodes cl n'))) \<and>
    (\<forall>n'. n_calls (nodes cl' n') = n_calls (nodes cl n') @ (if n' = n then e_calls env1 else []))"
proof -
  have R: "set (waiting_at b k (n_lkv (nodes cl n'))) = (\<Union>x\<in>set_mset R. waits_for n' b k (token_of ctx x))" for n' b k
    using inv tok by (simp add: cluster_inv_def)
  have "set (waiting_at b k (if n' = n then e_lkv env1 else n_lkv (nodes cl n'))) =
       (\<Union>x\<in>set_mset (M' + R). waits_for n' b k (token_of ctx x))" for n' b k
    using wa(1) [of b k] wa(2) [of n' _ b k] R [of b k n'] by (cases "n' = n") auto
  then show ?thesis
    using run_step [where ?M0.0 = "{#}" and ws = "[]" and ?nd2.0 = "after_update i m w op1 env1 (nodes cl n)",
        OF _ i tok op upd(1) w _ _ _ _ lkv, of R M'] inv upd(2) ops toks wf
    by (simp add: after_update_def)
qed

lemma run_calls:
  assumes "cluster_inv ctx cl (add_mset s R)"
    and "i < length (work (n_core (nodes cl n)))" "work (n_core (nodes cl n)) ! i = (m, args)"
    and "token_of ctx s = T_work n m args" and "(m, op) \<in># ops_of ctx n s"
    and "kelpie_Update (ctx n) now args op (env_of (nodes cl n)) = Inr (w, op1, env1)" "e_effects env1 = []"
    and "w = Waiting_on_cq \<or> w = Wait_on_user \<or> w = Done_and_destroy"
    and "stores_ok (e_lkv env1)"
    and "\<And>n'. (\<Sum>x\<in>#M'. ops_of ctx n' x) + (if n' = n then {#(m, op)#} else {#}) =
       ops_of ctx n' s + (if n' = n \<and> w \<noteq> Done_and_destroy then {#(m, op1)#} else {#})"
    and "\<And>n'. (\<Sum>x\<in>#M'. work_of n' (token_of ctx x)) = {#}"
      "(\<Sum>x\<in>#M'. wire_of (token_of ctx x)) = mset (e_sends env1)"
      "(\<Sum>x\<in>#M'. dma_of (token_of ctx x)) = mset (map (Pair n) (e_rdma env1))"
    and "\<And>b k. set (waiting_at b k (e_lkv env1)) =
        set (waiting_at b k (n_lkv (nodes cl n))) \<union> (\<Union>x\<in>set_mset M'. waits_for n b k (token_of ctx x))"
      "\<And>n' b k x. n' \<noteq> n \<Longrightarrow> x \<in># M' \<Longrightarrow> waits_for n' b k (token_of ctx x) = {}"
    and "\<And>x. x \<in># M' \<Longrightarrow> session_wf x"
    and v: "\<And>b k. stored b k (e_lkv env1) = stored b k (n_lkv (nodes cl n))" "e_calls env1 = calls"
  shows "\<exists>cl'. run_work ctx now n i cl = Inr cl' \<and> cluster_inv ctx cl' (M' + R) \<and>
    (\<forall>n b k. stored b k (n_lkv (nodes cl' n)) = stored b k (n_lkv (nodes cl n))) \<and>
    (\<forall>n'. n_calls (nodes cl' n') = n_calls (nodes cl n') @ (if n' = n then calls else []))"
  using run_quiet [OF assms(1-16)] v by fastforce

lemma run_view:
  assumes "cluster_inv ctx cl (add_mset s R)"
    and "i < length (work (n_core (nodes cl n)))" "work (n_core (nodes cl n)) ! i = (m, args)"
    and "token_of ctx s = T_work n m args" and "(m, op) \<in># ops_of ctx n s"
    and "kelpie_Update (ctx n) now args op (env_of (nodes cl n)) = Inr (w, op1, env1)" "e_effects env1 = []"
    and "w = Waiting_on_cq \<or> w = Wait_on_user \<or> w = Done_and_destroy"
    and "stores_ok (e_lkv env1)"
    and "\<And>n'. (\<Sum>x\<in>#M'. ops_of ctx n' x) + (if n' = n then {#(m, op)#} else {#}) =
       ops_of ctx n' s + (if n' = n \<and> w \<noteq> Done_and_destroy then {#(m, op1)#} else {#})"
    and "\<And>n'. (\<Sum>x\<in>#M'. work_of n' (token_of ctx x)) = {#}"
      "(\<Sum>x\<in>#M'. wire_of (token_of ctx x)) = mset (e_sends env1)"
      "(\<Sum>x\<in>#M'. dma_of (token_of ctx x)) = mset (map (Pair n) (e_rdma env1))"
    and "\<And>b k. set (waiting_at b k (e_lkv env1)) =
        set (waiting_at b k (n_lkv (nodes cl n))) \<union> (\<Union>x\<in>set_mset M'. waits_for n b k (token_of ctx x))"
      "\<And>n' b k x. n' \<noteq> n \<Longrightarrow> x \<in># M' \<Longrightarrow> waits_for n' b k (token_of ctx x) = {}"
    and "\<And>x. x \<in># M' \<Longrightarrow> session_wf x"
    and v: "\<And>b k. stored b k (e_lkv env1) = stored b k (n_lkv (nodes cl n))" "e_calls env1 = []"
  shows "\<exists>cl'. run_work ctx now n i cl = Inr cl' \<and> cluster_inv ctx cl' (M' + R) \<and> same_view cl cl'"
  using run_calls [OF assms(1-16) v] by (auto simp: same_view_def)

lemma deliver_existing:
  assumes inv: "cluster_inv ctx cl (add_mset s R)"
    and i: "i < length (wire cl)" "wire cl ! i = (n, msg)"
    and tok: "token_of ctx s = T_wire n msg" and op: "(m, op) \<in># ops_of ctx n s" "dst_mailbox (msg_header msg) = m"
    and s': "token_of ctx s' = T_work n m (Args_message msg)" "\<And>n'. ops_of ctx n' s' = ops_of ctx n' s" "session_wf s'"
  shows "\<exists>cl'. deliver i cl = Inr cl' \<and> cluster_inv ctx cl' (add_mset s' R) \<and>
    same_view cl cl'"
proof -
  let ?nd = "nodes cl n"
  let ?nd' = "?nd\<lparr>n_core := AddWork m (Args_message msg) (n_core ?nd)\<rparr>"
  let ?cl = "cl\<lparr>nodes := (nodes cl)(n := ?nd'), wire := remove_nth i (wire cl)\<rparr>"
  have act: "getActiveOp m (n_core ?nd) = Some op" using inv_getActive [OF inv _ op(1)] by simp
  then have "m \<noteq> 0" by (auto simp: getActiveOp_def)
  then have d: "deliver i cl = Inr ?cl"
    using act i(2) op(2) by (simp add: deliver_def HandleIncomingMessage_def Let_def)
  have ok: "node_ok ?nd" using inv_node [OF inv] .
  have wa: "set (waiting_at b k (n_lkv (nodes cl n'))) = (\<Union>x\<in>set_mset R. waits_for n' b k (token_of ctx x))" for n' b k
    using inv tok by (simp add: cluster_inv_def)
  have "cluster_inv ctx ?cl ({#s'#} + R)"
  proof (rule inv_replace [where M = "{#s#}" and n = n and nd' = ?nd'])
    show "cluster_inv ctx cl ({#s#} + R)" using inv by simp
    show "mset (wire ?cl) + (\<Sum>x\<in>#{#s#}. wire_of (token_of ctx x)) = mset (wire cl) + (\<Sum>x\<in>#{#s'#}. wire_of (token_of ctx x))"
      using mset_remove_nth [OF i(1)] i(2) tok s'(1) by simp
    show "set (waiting_at b k (n_lkv (nodes ?cl n'))) = (\<Union>x\<in>set_mset ({#s'#} + R). waits_for n' b k (token_of ctx x))" for n' b k
      using wa [of b k n'] s'(1) by (cases "n' = n") simp_all
  qed (use ok tok s' in \<open>simp_all add: node_ok_def\<close>)
  then show ?thesis using d by (simp add: same_view_def)
qed

lemma deliver_new:
  assumes inv: "cluster_inv ctx cl (add_mset s R)" and left: "mailbox_left (n_core (nodes cl n))"
    and i: "i < length (wire cl)" "wire cl ! i = (n, msg)"
    and tok: "token_of ctx s = T_wire n msg"
    and new: "dst_mailbox (msg_header msg) = 0" "kelpie_create (msg_op_id (msg_header msg)) = Some mk"
    and m: "m = next_mailbox (n_core (nodes cl n))"
    and s': "token_of ctx s' = T_work n m (Args_message msg)" "session_wf s'"
      "\<And>n'. ops_of ctx n' s' = ops_of ctx n' s + (if n' = n then {#(m, mk m)#} else {#})"
  shows "\<exists>cl'. deliver i cl = Inr cl' \<and> cluster_inv ctx cl' (add_mset s' R) \<and>
    same_view cl cl'"
proof -
  let ?nd = "nodes cl n"
  let ?c = "(n_core ?nd)\<lparr>next_mailbox := m + 1, active_ops := om_set m (mk m) (active_ops (n_core ?nd))\<rparr>"
  let ?nd' = "?nd\<lparr>n_core := AddWork m (Args_message msg) ?c\<rparr>"
  let ?cl = "cl\<lparr>nodes := (nodes cl)(n := ?nd'), wire := remove_nth i (wire cl)\<rparr>"
  note ci = inv_core [OF inv, of n]
  note A = addActiveOp_new [OF ci left, folded m]
  have d: "deliver i cl = Inr ?cl"
    using i(2) new A(1) by (simp add: deliver_def HandleIncomingMessage_def Let_def)
  have ok: "node_ok ?nd'" using inv_node [OF inv, of n] A(2) [of "mk m"] by (simp add: node_ok_def)
  have ops: "mset (om_set m (mk m) (active_ops (n_core ?nd))) = add_mset (m, mk m) (mset (active_ops (n_core ?nd)))"
    using mset_om_set_new [OF core_inv_om [OF ci] fresh_mailbox [OF ci]] m by simp
  have wa: "set (waiting_at b k (n_lkv (nodes cl n'))) = (\<Union>x\<in>set_mset R. waits_for n' b k (token_of ctx x))" for n' b k
    using inv tok by (simp add: cluster_inv_def)
  have "cluster_inv ctx ?cl ({#s'#} + R)"
  proof (rule inv_replace [where M = "{#s#}" and n = n and nd' = ?nd'])
    show "cluster_inv ctx cl ({#s#} + R)" using inv by simp
    show "mset (wire ?cl) + (\<Sum>x\<in>#{#s#}. wire_of (token_of ctx x)) = mset (wire cl) + (\<Sum>x\<in>#{#s'#}. wire_of (token_of ctx x))"
      using mset_remove_nth [OF i(1)] i(2) tok s'(1) by simp
    show "set (waiting_at b k (n_lkv (nodes ?cl n'))) = (\<Union>x\<in>set_mset ({#s'#} + R). waits_for n' b k (token_of ctx x))" for n' b k
      using wa [of b k n'] s'(1) by (cases "n' = n") simp_all
  qed (use ok tok s' ops in \<open>simp_all\<close>)
  then show ?thesis using d by (simp add: same_view_def)
qed

section \<open>Transfers\<close>

lemma length_memory_image: "length (memory_image d) = 8 + object_size d + unat (do_padding d)"
  by (simp add: memory_image_def length_wire_image object_size_def)

lemma object_size_fresh [simp]: "object_size (fresh_copy d) = object_size d"
  by (simp add: object_size_def)

lemma transferable_fresh: "transferable d \<Longrightarrow> transferable (fresh_copy d)"
  using fit_padding_bounds(2) [of d] by (simp add: transferable_def word_le_nat_alt)

lemma memory_size_nat:
  assumes "do_wf d" "object_size d + 60 < 2 ^ 32" "do_padding d \<le> 4"
  shows "unat (memory_size d) = 8 + object_size d + unat (do_padding d)"
proof -
  have "unat (do_padding d) \<le> 4" using assms(3) by (simp add: word_le_nat_alt)
  then show ?thesis
    using assms(1,2) by (simp add: memory_size_def object_size_def do_wf_def GetHeaderSize_def GetMetaSize_def GetDataSize_def
        unat_word_ariths unat_of_nat)
qed

lemma landing_facts:
  assumes "do_wf d" "object_size d + 60 < 2 ^ 32"
  shows "new_ldo ctx (GetMetaSize (Some d) + GetDataSize (Some d)) = Inr (Some (landing ctx d))"
    and "do_wf (landing ctx d)" "object_size (landing ctx d) = object_size d" "do_padding (landing ctx d) = fit_padding d"
proof -
  let ?s = "GetMetaSize (Some d) + GetDataSize (Some d)"
  have u: "unat ?s = object_size d"
    using assms by (simp add: do_wf_def object_size_def GetMetaSize_def GetDataSize_def unat_word_ariths unat_of_nat)
  have p: "ldo_padding 0 ?s = fit_padding d"
  proof (rule unsigned_word_eqI)
    have "unat (ldo_padding 0 ?s) = 4 - object_size d mod 4"
      using ldo_padding_nat [of 0 ?s] u unsigned_less [of ?s, where ?'a = nat] by simp
    then show "unat (ldo_padding 0 ?s) = unat (fit_padding d)"
      using fit_padding_nat [of d] assms by (simp add: object_size_def)
  qed
  show "new_ldo ctx ?s = Inr (Some (landing ctx d))"
    using assms(2) fit_padding_bounds(2) [of d] unfolding new_ldo_def p u by (simp add: landing_def SIZEOF_ALLOCATION_def)
qed (use assms in \<open>simp_all add: landing_def object_size_def do_wf_def\<close>)

text \<open>The number of bytes a read moves into a landing object, when the padding is enough.\<close>

lemma landing_length:
  assumes "transferable d"
  shows "unat (min (memory_size (landing ctx d)) (memory_size d)) = 8 + object_size d + unat (fit_padding d)"
    and "min (memory_size (landing ctx d)) (memory_size d) mod 4 = 0"
proof -
  have w: "do_wf d" "object_size d + 60 < 2 ^ 32" "do_padding d \<le> 4" "unat (fit_padding d) \<le> unat (do_padding d)"
    using assms by (simp_all add: transferable_def word_le_nat_alt)
  note L = landing_facts [OF w(1,2), of ctx]
  have f: "fit_padding d \<le> 4" using fit_padding_bounds(2) [of d] by (simp add: word_le_nat_alt)
  have l: "unat (memory_size (landing ctx d)) = 8 + object_size d + unat (fit_padding d)"
    using memory_size_nat [OF L(2)] w(2) f L(3,4) by simp
  show m: "unat (min (memory_size (landing ctx d)) (memory_size d)) = 8 + object_size d + unat (fit_padding d)"
    using l memory_size_nat [OF w(1-3)] w(4) by (simp add: min_def word_le_nat_alt)
  have "unat (min (memory_size (landing ctx d)) (memory_size d)) mod 4 = 0"
    unfolding m using fit_padding_nat [of d] w(1,2) by (simp add: object_size_def) presburger
  then have "unat (min (memory_size (landing ctx d)) (memory_size d) mod 4) = 0" by (simp add: unat_mod_distrib)
  then show "min (memory_size (landing ctx d)) (memory_size d) mod 4 = 0" by (simp only: unat_eq_zero)
qed

lemma rdma_copy_landing:
  assumes "transferable d"
  shows "rdma_copy (unat (min (memory_size (landing ctx d)) (memory_size d))) d (landing ctx d) = Inr (fresh_copy d)"
proof -
  have w: "do_wf d" "object_size d + 60 < 2 ^ 32" "unat (fit_padding d) \<le> unat (do_padding d)"
    using assms by (simp_all add: transferable_def word_le_nat_alt)
  note L = landing_facts [OF w(1,2), of ctx]
  let ?n = "8 + object_size d + unat (fit_padding d)"
  have "drop ?n (memory_image (landing ctx d)) = []" using L(3,4) by (simp add: length_memory_image)
  moreover have "take ?n (memory_image d) = wire_image d @ replicate (unat (fit_padding d)) 0"
    using w(3) by (simp add: memory_image_def length_wire_image object_size_def)
  ultimately show ?thesis
    unfolding landing_length(1) [OF assms] rdma_copy_def
    using of_wire_image_append [OF w(1)] L(4) by (simp add: fresh_copy_def)
qed

lemma set_op_data_data [simp]: "op_data op \<noteq> None \<Longrightarrow> op_data (set_op_data x op) = x"
  by (cases op) auto

lemma transfer_get:
  assumes inv: "cluster_inv ctx cl (add_mset s R)"
    and i: "i < length (dma cl)" "dma cl ! i = (n, Rdma_Get m nbr)"
    and tok: "token_of ctx s = T_dma n (Rdma_Get m nbr)"
    and lop: "(m, op) \<in># ops_of ctx n s" "op_data op = Some (landing c src)"
    and rop: "(nbr_op nbr, rop) \<in># ops_of ctx (nbr_node nbr) s" "op_data rop = Some src"
    and cp: "transferable src" "nbr_length nbr = memory_size src"
    and s': "token_of ctx s' = T_work n m (Args_update Get_success)" "session_wf s'"
      "\<And>n'. ops_of ctx n' s' + (if n' = n then {#(m, op)#} else {#}) =
         ops_of ctx n' s + (if n' = n then {#(m, set_op_data (Some (fresh_copy src)) op)#} else {#})"
  shows "\<exists>cl'. transfer i cl = Inr cl' \<and> cluster_inv ctx cl' (add_mset s' R) \<and>
    same_view cl cl'"
proof -
  let ?nd = "nodes cl n" and ?op = "set_op_data (Some (fresh_copy src)) op"
  let ?c = "(n_core ?nd)\<lparr>active_ops := om_set m ?op (active_ops (n_core ?nd))\<rparr>"
  let ?nd' = "?nd\<lparr>n_core := AddWork m (Args_update Get_success) ?c\<rparr>"
  let ?cl = "cl\<lparr>nodes := (nodes cl)(n := ?nd'), dma := remove_nth i (dma cl)\<rparr>"
  note ci = inv_core [OF inv, of n]
  have a: "getActiveOp m (n_core ?nd) = Some op" "om_get (active_ops (n_core ?nd)) m = Some op"
    using inv_getActive [OF inv _ lop(1)] inv_active [OF inv _ lop(1)] by simp_all
  have r: "getActiveOp (nbr_op nbr) (n_core (nodes cl (nbr_node nbr))) = Some rop"
    using inv_getActive [OF inv _ rop(1)] by simp
  note nz = active_nonzero [OF ci a(2)]
  have cinv: "core_inv ?c" using core_inv_set_ops [OF ci] nz by blast
  have c': "getActiveOp m ?c = Some ?op"
    using getActiveOp_get [OF cinv] om_get_om_set [OF core_inv_om [OF ci]] by simp
  have t: "transfer i cl = Inr ?cl"
    using i(2) a(1) r lop(2) rop(2) rdma_copy_landing [OF cp(1), of c] cp(2) c'
    by (simp add: transfer_def held_data_def set_held_def notify_def UpdateOp_def Let_def)
  have ok: "node_ok ?nd'" using inv_node [OF inv, of n] cinv by (simp add: node_ok_def)
  have ops: "mset (om_set m ?op (active_ops (n_core ?nd))) + {#(m, op)#} = mset (active_ops (n_core ?nd)) + {#(m, ?op)#}"
    using mset_om_set_old [OF core_inv_om [OF ci] a(2)] .
  have wa: "set (waiting_at b k (n_lkv (nodes cl n'))) = (\<Union>x\<in>set_mset R. waits_for n' b k (token_of ctx x))" for n' b k
    using inv tok by (simp add: cluster_inv_def)
  have "cluster_inv ctx ?cl ({#s'#} + R)"
  proof (rule inv_replace [where M = "{#s#}" and n = n and nd' = ?nd'])
    show "cluster_inv ctx cl ({#s#} + R)" using inv by simp
    show "mset (active_ops (n_core ?nd')) + (\<Sum>x\<in>#{#s#}. ops_of ctx n x) =
        mset (active_ops (n_core (nodes cl n))) + (\<Sum>x\<in>#{#s'#}. ops_of ctx n x)"
      using ms_exchange [OF ops, of "ops_of ctx n s'" "ops_of ctx n s"] s'(3) [of n] by simp
    show "mset (dma ?cl) + (\<Sum>x\<in>#{#s#}. dma_of (token_of ctx x)) = mset (dma cl) + (\<Sum>x\<in>#{#s'#}. dma_of (token_of ctx x))"
      using mset_remove_nth [OF i(1)] i(2) tok s'(1) by simp
    show "(\<Sum>x\<in>#{#s#}. ops_of ctx n' x) = (\<Sum>x\<in>#{#s'#}. ops_of ctx n' x)" if "n' \<noteq> n" for n'
      using s'(3) [of n'] that by simp
    show "set (waiting_at b k (n_lkv (nodes ?cl n'))) = (\<Union>x\<in>set_mset ({#s'#} + R). waits_for n' b k (token_of ctx x))" for n' b k
      using wa [of b k n'] s'(1) by (cases "n' = n") simp_all
  qed (use ok tok s'(1,2) in \<open>simp_all\<close>)
  then show ?thesis using t by (simp add: same_view_def)
qed

lemma launch_session:
  assumes inv: "cluster_inv ctx cl R" and left: "mailbox_left (n_core (nodes cl n))"
    and m: "m = next_mailbox (n_core (nodes cl n))"
    and s': "token_of ctx s' = T_work n m (Args_update Start)" "session_wf s'"
      "\<And>n'. ops_of ctx n' s' = (if n' = n then {#(m, mk m)#} else {#})"
  shows "\<exists>cl'. launch n mk cl = Inr cl' \<and> cluster_inv ctx cl' (add_mset s' R) \<and>
    same_view cl cl'"
proof -
  let ?nd = "nodes cl n"
  let ?c = "(n_core ?nd)\<lparr>next_mailbox := m + 1, active_ops := om_set m (mk m) (active_ops (n_core ?nd))\<rparr>"
  let ?nd' = "?nd\<lparr>n_core := AddWork m (Args_update Start) ?c\<rparr>"
  let ?cl = "cl\<lparr>nodes := (nodes cl)(n := ?nd')\<rparr>"
  note ci = inv_core [OF inv, of n]
  note A = addActiveOp_new [OF ci left, folded m]
  have run: "core_initialized (n_core ?nd)" "core_running (n_core ?nd)" using inv_node [OF inv, of n] by (simp_all add: node_ok_def)
  have d: "launch n mk cl = Inr ?cl" using A(1) run by (simp add: launch_def LaunchOp_def Let_def)
  have ok: "node_ok ?nd'" using inv_node [OF inv, of n] A(2) [of "mk m"] by (simp add: node_ok_def)
  have ops: "mset (om_set m (mk m) (active_ops (n_core ?nd))) = add_mset (m, mk m) (mset (active_ops (n_core ?nd)))"
    using mset_om_set_new [OF core_inv_om [OF ci] fresh_mailbox [OF ci]] m by simp
  have wa: "set (waiting_at b k (n_lkv (nodes cl n'))) = (\<Union>x\<in>set_mset R. waits_for n' b k (token_of ctx x))" for n' b k
    using inv by (simp add: cluster_inv_def)
  have "cluster_inv ctx ?cl ({#s'#} + R)"
  proof (rule inv_replace [where M = "{#}" and n = n and nd' = ?nd'])
    show "set (waiting_at b k (n_lkv (nodes ?cl n'))) = (\<Union>x\<in>set_mset ({#s'#} + R). waits_for n' b k (token_of ctx x))" for n' b k
      using wa [of b k n'] s'(1) by (cases "n' = n") simp_all
  qed (use inv ok s' ops in \<open>simp_all\<close>)
  then show ?thesis using d by (simp add: same_view_def)
qed

section \<open>The store under the ops\<close>

text \<open>Operations that only record the time of access.\<close>

lemma touched_store:
  assumes ok: "stores_ok t" and inv: "lkv_inv t'"
    and c: "\<And>b' k'. cell_at b' k' t' = (if same_slot b' k' b key
        then map_option (\<lambda>c. c\<lparr>time_accessed := now\<rparr>) (cell_at b key t) else cell_at b' k' t)"
  shows "stored b' k' t' = stored b' k' t" "waiting_at b' k' t' = waiting_at b' k' t" "stores_ok t'"
proof -
  have c': "cell_at b' k' t' = (if same_slot b' k' b key then map_option (\<lambda>c. c\<lparr>time_accessed := now\<rparr>) (cell_at b' k' t)
      else cell_at b' k' t)" for b' k'
    using c [of b' k'] cell_at_same_slot [of b' k' b key t] by simp
  show s: "stored b' k' t' = stored b' k' t" for b' k'
    by (auto simp: stored_def c' split: option.splits)
  show "waiting_at b' k' t' = waiting_at b' k' t"
    by (auto simp: waiting_at_def c' split: option.splits)
  show "stores_ok t'"
    using ok inv touch_no_lost [OF _ c] by (simp add: stores_ok_def s)
qed

lemma getInfo_store:
  assumes "stores_ok t" "getInfo now b k True t = ((rc, info), t')"
  shows "stored b' k' t' = stored b' k' t" "waiting_at b' k' t' = waiting_at b' k' t" "stores_ok t'"
    and "col_availability info = InLocalMemory \<Longrightarrow> stored b k t \<noteq> None"
proof -
  have inv: "lkv_inv t" using assms(1) by (simp add: stores_ok_def)
  note G = getInfo_cells [OF inv assms(2)]
  show "stored b' k' t' = stored b' k' t" "waiting_at b' k' t' = waiting_at b' k' t" "stores_ok t'"
    using touched_store [OF assms(1), of t' b k now] G by blast+
  obtain res where p: "doColOp now b k DONT_CREATE_OR_TRIGGER getInfo_lambda t = (res, t')" "info = cr_info res"
    using assms(2) by (auto simp: getInfo_def Let_def split: prod.splits if_splits)
  show "stored b k t \<noteq> None" if "col_availability info = InLocalMemory"
  proof (cases "cell_at b k t")
    case None
    then have "cr_info res = Wipe_info \<or> col_availability (cr_info res) = Unavailable"
      using p(1) by (auto simp: doColOp_def Let_def row_doColOp_def flag_tests cell_at_def row_getInfo_def Wipe_info_def
          split: option.splits prod.splits if_splits)
    then show ?thesis using that p(2) by (auto simp: Wipe_info_def)
  next
    case (Some c)
    have tc: "target_cell now DONT_CREATE_OR_TRIGGER (cell_at b k t) = Some (c, True)" by (simp add: Some target_cell_def)
    obtain r1 c1 where "getInfo_lambda r1 c True = (cr_rc res, c1, the (cr_out res))"
      "cr_info res = row_getInfo k (setCol k (c1\<lparr>time_accessed := now\<rparr>) (setCol k c1 r1)) (cell_getInfo c1 Wipe_info)"
      by (rule doColOp_quiet [OF inv _ _ tc p(1)]) (simp_all add: flag_tests)
    then show ?thesis
      using that p(2) Some by (auto simp: getInfo_lambda_def row_getInfo_def cell_getInfo_def stored_def Let_def split: if_splits prod.splits)
  qed
qed

lemma stored_no_waiters: "stores_ok t \<Longrightarrow> stored b k t \<noteq> None \<Longrightarrow> waiting_at b k t = []"
  by (auto simp: stores_ok_def no_lost_waiters_def stored_def waiting_at_def getNumDependencies_def split: option.splits if_splits)

lemma getForOp_store:
  assumes ok: "stores_ok t" and v: "valid k"
  obtains info t1 where
    "getForOp now ioms b k m f 0 io t =
       Inr ((if stored b k t = None then KELPIE_ENOENT else KELPIE_OK, stored b k t, info), t1, io)"
    "\<And>b' k'. stored b' k' t1 = stored b' k' t" "stores_ok t1"
    "\<And>b' k'. set (waiting_at b' k' t1) =
       set (waiting_at b' k' t) \<union> (if same_slot b' k' b k \<and> stored b k t = None then {m} else {})"
proof -
  have inv: "lkv_inv t" and nl: "no_lost_waiters t" using ok by (simp_all add: stores_ok_def)
  obtain out t1 io1 where g: "getForOp now ioms b k m f 0 io t = Inr (out, t1, io1)"
    using v by (cases "doColOp now b k CREATE_IF_MISSING (getForOp_lambda now ioms b k m f 0 io) t")
      (simp add: getForOp_def)
  obtain rc x info where out: "out = (rc, x, info)" by (cases out)
  obtain c e where c: "target_cell now CREATE_IF_MISSING (cell_at b k t) = Some (c, e)"
    using target_cell_create [of CREATE_IF_MISSING] by (metis flag_tests(5))
  obtain r c1 where l: "getForOp_lambda now ioms b k m f 0 io r c e = (rc, c1, x, io1)"
    and inv1: "lkv_inv t1"
    and cells: "\<And>b' k'. cell_at b' k' t1 = (if same_slot b' k' b k then Some (c1\<lparr>time_accessed := now\<rparr>) else cell_at b' k' t)"
    using getForOp_cell [OF inv v c g [unfolded out]] by blast
  have st: "stored b k t = (if availability c = InLocalMemory then Some (cell_ldo c) else None)"
    using c by (auto simp: target_cell_def stored_def new_LocalKVCell_def flag_tests split: option.splits)
  have c1: "c1 = (if availability c = InLocalMemory then c else appendWaitingList m c)"
    "rc = (if stored b k t = None then KELPIE_ENOENT else KELPIE_OK)" "x = stored b k t" "io1 = io"
    using l by (auto simp: getForOp_lambda_def st split: if_splits)
  have s1: "stored b' k' t1 = stored b' k' t" for b' k'
  proof (cases "same_slot b' k' b k")
    case True
    then have "stored b' k' t = stored b k t" by (simp add: stored_def cell_at_same_slot)
    then show ?thesis using True by (simp add: cells stored_def [of _ _ t1] st c1(1) appendWaitingList_def)
  qed (simp add: stored_def cells)
  have w: "waiting_at b k t = waiting_ops_list c"
    using c by (auto simp: target_cell_def waiting_at_def new_LocalKVCell_def split: option.splits if_splits)
  have w1: "set (waiting_at b' k' t1) =
       set (waiting_at b' k' t) \<union> (if same_slot b' k' b k \<and> stored b k t = None then {m} else {})" for b' k'
  proof (cases "same_slot b' k' b k")
    case True
    then have "waiting_at b' k' t = waiting_ops_list c" using w by (simp add: waiting_at_def cell_at_same_slot)
    then show ?thesis using True
      by (simp add: cells waiting_at_def [of _ _ t1] st c1(1) appendWaitingList_def set_insort_insert)
  qed (simp add: waiting_at_def cells)
  have nl1: "no_lost_waiters t1"
    by (rule no_lost_waiters_update [OF nl cells])
      (use target_cell_no_deps [OF nl c] c1(1) in \<open>auto simp: deps_accessed appendWaitingList_def split: if_splits\<close>)
  have "stores_ok t1" using ok inv1 nl1 by (simp add: stores_ok_def s1)
  then show ?thesis using that [of info t1] g out c1 s1 w1 by simp
qed

lemma put_store:
  assumes ok: "stores_ok t" and v: "valid k" and d: "transferable d" and f: "has_flag f WriteToLocal" "\<not> has_flag f WriteToIOM"
  obtains info effs t1 obj i cbs where
    "put now b k (Some d) f None io t =
       Inr ((if stored b k t \<noteq> None \<and> \<not> has_flag f EnableOverwrites then KELPIE_EEXIST else KELPIE_OK, info, effs), t1, io)"
    "stores_ok t1" "transferable obj"
    "Some obj = (case stored b k t of Some old \<Rightarrow> if has_flag f EnableOverwrites then Some d else old | None \<Rightarrow> Some d)"
    "\<And>b' k'. stored b' k' t1 = (if same_slot b' k' b k then Some (Some obj) else stored b' k' t)"
    "\<And>b' k'. waiting_at b' k' t1 = (if same_slot b' k' b k then [] else waiting_at b' k' t)"
    "effs = trigger_ops (waiting_at b k t) (Some (Some obj, i)) @ map (\<lambda>cb. Backburner cb k (Some obj) i) cbs"
proof -
  have inv: "lkv_inv t" and nl: "no_lost_waiters t" using ok by (simp_all add: stores_ok_def)
  obtain rc info effs t1 io1 where p: "put now b k (Some d) f None io t = Inr ((rc, info, effs), t1, io1)"
    using put_total [OF v, of now b "Some d" f None io t] by blast
  note S = stored_put [OF inv v f(1) p]
  obtain obj where obj: "Some obj = (case stored b k t of Some old \<Rightarrow> if has_flag f EnableOverwrites then Some d else old | None \<Rightarrow> Some d)"
    "transferable obj"
  proof (cases "stored b k t")
    case (Some old)
    then obtain x where "old = Some x" "transferable x" using ok unfolding stores_ok_def by blast
    then show ?thesis using that [of "if has_flag f EnableOverwrites then d else x"] Some d by simp
  qed (use that d in simp)
  have s1: "stored b' k' t1 = (if same_slot b' k' b k then Some (Some obj) else stored b' k' t)" for b' k'
    using S(1) [of b' k'] obj(1) by (auto split: option.splits)
  obtain c e where c: "target_cell now CREATE_IF_MISSING (cell_at b k t) = Some (c, e)"
    using target_cell_create [of CREATE_IF_MISSING] by (metis flag_tests(5))
  obtain r2 where P: "effs = fst (dispatchCallbacksAndNotifications k r2 (put_outcome now (Some d) f c))"
    "\<And>b' k'. cell_at b' k' t1 = (if same_slot b' k' b k
        then Some ((put_outcome now (Some d) f c)\<lparr>callback_list := [], waiting_ops_list := [], time_accessed := now\<rparr>)
        else cell_at b' k' t)"
    by (rule put_cell [OF inv v _ p]) (use f(1) c in auto)
  have w: "waiting_at b k t = waiting_ops_list c"
    using c by (auto simp: target_cell_def waiting_at_def new_LocalKVCell_def split: option.splits if_splits)
  have "stored b k t1 = Some (cell_ldo (put_outcome now (Some d) f c))"
    using P(2) [of b k] by (simp add: stored_def put_outcome_simps)
  then have o: "cell_ldo (put_outcome now (Some d) f c) = Some obj" using s1 [of b k] by simp
  obtain i where "effs = trigger_ops (waiting_at b k t) (Some (Some obj, i)) @ map (\<lambda>cb. Backburner cb k (Some obj) i) (callback_list c)"
    using dispatch_effects [of k r2 "put_outcome now (Some d) f c"] P(1) o w by (auto simp: put_outcome_simps)
  moreover have "waiting_at b' k' t1 = (if same_slot b' k' b k then [] else waiting_at b' k' t)" for b' k'
    by (simp add: waiting_at_def P(2))
  moreover have "stores_ok t1"
    using ok S(2) put_no_lost [OF inv nl p] s1 obj(2) by (auto simp: stores_ok_def)
  ultimately show ?thesis using that [of info effs t1 obj i "callback_list c"] p S(4) [OF f(2)] obj s1 by simp
qed

end
