(* ===== verification/Cluster_Steps.thy ===== *)
theory Cluster_Steps
  imports Cluster_Sessions
begin

text \<open>
  How a session passes from each phase to the next: one lemma per phase, for the event the session
  waits for.  Together they show that no step of a cluster fails, unless a store wakes two ops that
  wait for the same object.
\<close>

section \<open>Publish\<close>

lemma inv_stores: "cluster_inv ctx cl S \<Longrightarrow> stores_ok (n_lkv (nodes cl n))"
  using inv_node by (auto simp: node_ok_def)

lemma publish_send:
  "kelpie_Update c now args (Op_publish (pub_origin ctx p)) env =
     Inr (Waiting_on_cq, Op_publish (pub_asked ctx p), env\<lparr>e_sends := e_sends env @ [(p_target p, Msg_buffer (pub_request ctx p))]\<rparr>)"
  by (simp add: pub_origin_def pub_asked_def pub_request_def publish_Update_def smo_Publish_Send_def SendMsg_def updateState_def
      wrap_op_def OpKelpiePublish_origin_def blank_op_def)

lemma step_P_send:
  assumes "cluster_inv ctx cl (add_mset (Pub p P_send) R)"
    and "i < length (work (n_core (nodes cl (p_origin p))))"
      "work (n_core (nodes cl (p_origin p))) ! i = (p_mailbox p, Args_update Start)"
  shows "\<exists>cl'. run_work ctx now (p_origin p) i cl = Inr cl' \<and> cluster_inv ctx cl' (add_mset (Pub p P_request) R) \<and> same_view cl cl'"
proof -
  have wf: "session_wf (Pub p P_request)" using assms(1) by (simp add: cluster_inv_def)
  have "\<exists>cl'. run_work ctx now (p_origin p) i cl = Inr cl' \<and> cluster_inv ctx cl' ({#Pub p P_request#} + R) \<and> same_view cl cl'"
    by (rule run_view [where op = "Op_publish (pub_origin ctx p)", OF assms _ _ publish_send])
      (use inv_stores [OF assms(1)] wf in simp_all)
  then show ?thesis by simp
qed

lemma step_P_request:
  assumes "cluster_inv ctx cl (add_mset (Pub p P_request) R)" "mailbox_left (n_core (nodes cl (p_target p)))"
    and "i < length (wire cl)" "wire cl ! i = (p_target p, Msg_buffer (pub_request ctx p))"
  shows "\<exists>cl' m. deliver i cl = Inr cl' \<and> cluster_inv ctx cl' (add_mset (Pub p (P_arrived m)) R) \<and> same_view cl cl'"
proof -
  let ?m = "next_mailbox (n_core (nodes cl (p_target p)))"
  have wf: "session_wf (Pub p (P_arrived ?m))" using assms(1) by (simp add: cluster_inv_def)
  have "\<exists>cl'. deliver i cl = Inr cl' \<and> cluster_inv ctx cl' (add_mset (Pub p (P_arrived ?m)) R) \<and> same_view cl cl'"
    by (rule deliver_new [where mk = "Op_publish \<circ> OpKelpiePublish_target" and m = ?m, OF assms])
      (use wf in \<open>simp_all add: pub_request_def MAILBOX_UNSPECIFIED_def kelpie_create_ids\<close>)
  then show ?thesis by blast
qed

lemma sized_message:
  assumes "do_wf d" "0 < object_size d" "object_size d + 60 < 2 ^ 32"
  shows "new_ldo c (ucast (meta_plus_data_size (SetLDO me m (Some d) x))) = Inr (Some (landing c d))"
    and "net_buffer_remote (SetLDO me m (Some d) x) = GetRdmaPtr me m d"
    and "meta_plus_data_size (SetLDO me m (Some d) x) \<noteq> 0"
proof -
  let ?s = "GetMetaSize (Some d) + GetDataSize (Some d)"
  have u: "unat ?s = object_size d"
    using assms by (simp add: do_wf_def object_size_def GetMetaSize_def GetDataSize_def unat_word_ariths unat_of_nat)
  then have "?s \<noteq> 0" using assms(2) by auto
  then show "net_buffer_remote (SetLDO me m (Some d) x) = GetRdmaPtr me m d" by (simp add: SetLDO_def Let_def)
  have "ucast (ucast ?s :: u64) = ?s" by (rule bit_word_eqI) (simp add: bit_simps)
  then show "new_ldo c (ucast (meta_plus_data_size (SetLDO me m (Some d) x))) = Inr (Some (landing c d))"
    using landing_facts(1) [OF assms(1,3), of c] by (simp add: SetLDO_def Let_def)
  have "unat (ucast ?s :: u64) = unat ?s"
    using u assms(3) by (simp add: unsigned_ucast_eq take_bit_nat_eq_self_iff)
  then show "meta_plus_data_size (SetLDO me m (Some d) x) \<noteq> 0"
    using u assms(2) by (auto simp: SetLDO_def Let_def)
qed

lemma transferable_size:
  assumes "transferable d"
  shows "new_ldo c (ucast (meta_plus_data_size (SetLDO me m (Some d) x))) = Inr (Some (landing c d))"
    and "net_buffer_remote (SetLDO me m (Some d) x) = GetRdmaPtr me m d"
    and "meta_plus_data_size (SetLDO me m (Some d) x) \<noteq> 0"
  using sized_message [of d] assms by (simp_all add: transferable_def)

lemma net_Get_landing:
  assumes "transferable d" "kop_data op = Some (landing c d)"
  shows "net_Get (GetRdmaPtr me mb d) op env = Inr (env\<lparr>e_rdma := e_rdma env @ [Rdma_Get (kop_mailbox op) (GetRdmaPtr me mb d)]\<rparr>)"
proof -
  have "unat (memory_size d) \<noteq> 0" using memory_size_nat [of d] assms(1) by (simp add: transferable_def)
  then have "memory_size d \<noteq> 0" by auto
  then show ?thesis using landing_length(2) [OF assms(1), of c] assms(2) by (simp add: net_Get_def GetRdmaPtr_def)
qed

lemma pub_request_facts:
  assumes "session_wf (Pub p ph)"
  shows "buffer_ExtractKey (pub_request ctx p) = Inr (p_key p)"
    and "new_ldo c (ucast (meta_plus_data_size (pub_request ctx p))) = Inr (Some (landing c (p_obj p)))"
    and "net_buffer_remote (pub_request ctx p) = GetRdmaPtr (my_id (ctx (p_origin p))) (p_mailbox p) (p_obj p)"
    and "valid (p_key p)"
  using assms transferable_size [of "p_obj p"] by (simp_all add: pub_request_def short_key_def) (simp_all add: buffer_Alloc_def)

text \<open>
  The target either answers at once, because the object is there and may not be overwritten, or
  asks for the transfer.
\<close>
definition pub_refused :: "(nodeid_t \<Rightarrow> 'io node_ctx) \<Rightarrow> pub \<Rightarrow> msg_direct_status_t" where
  "pub_refused ctx p = (status_SetSuccess True (AllocAck (status_body (ctx (p_target p))) (my_id (ctx (p_target p))) (mb_hdr (pub_request ctx p))))
     \<lparr>remote_rc := KELPIE_EEXIST\<rparr>"

lemma publish_start:
  assumes wf: "session_wf (Pub p ph)" and ok: "stores_ok (e_lkv env)" and ids: "my_id (ctx (p_origin p)) = p_origin p"
  obtains (refused) op t where
      "kelpie_Update (ctx (p_target p)) now (Args_message (Msg_buffer (pub_request ctx p))) (Op_publish (OpKelpiePublish_target m)) env =
         Inr (Done_and_destroy, op, env\<lparr>e_lkv := t, e_sends := e_sends env @ [(p_origin p, Msg_status (pub_refused ctx p))]\<rparr>)"
      "\<not> has_flag (ChangeRemoteToLocal (p_flags p)) EnableOverwrites" "stored (p_bucket p) (p_key p) (e_lkv env) \<noteq> None"
      "stores_ok t" "\<And>b k. stored b k t = stored b k (e_lkv env)" "\<And>b k. waiting_at b k t = waiting_at b k (e_lkv env)"
  | (fetch) t where
      "kelpie_Update (ctx (p_target p)) now (Args_message (Msg_buffer (pub_request ctx p))) (Op_publish (OpKelpiePublish_target m)) env =
         Inr (Waiting_on_cq, Op_publish (pub_fetching ctx p m (Some (landing (ctx (p_target p)) (p_obj p)))),
           env\<lparr>e_lkv := t, e_rdma := e_rdma env @ [Rdma_Get m (GetRdmaPtr (p_origin p) (p_mailbox p) (p_obj p))]\<rparr>)"
      "stores_ok t" "\<And>b k. stored b k t = stored b k (e_lkv env)" "\<And>b k. waiting_at b k t = waiting_at b k (e_lkv env)"
proof -
  let ?f = "ChangeRemoteToLocal (p_flags p)"
  obtain rc info t where g: "(if \<not> has_flag ?f EnableOverwrites then getInfo now (p_bucket p) (p_key p) True (e_lkv env)
      else ((KELPIE_ENOENT, Wipe_info), e_lkv env)) = ((rc, info), t)"
    by (metis prod.exhaust)
  have t: "stores_ok t" "\<And>b k. stored b k t = stored b k (e_lkv env)" "\<And>b k. waiting_at b k t = waiting_at b k (e_lkv env)"
    and early: "rc = KELPIE_OK \<and> col_availability info = InLocalMemory \<Longrightarrow>
      \<not> has_flag ?f EnableOverwrites \<and> stored (p_bucket p) (p_key p) (e_lkv env) \<noteq> None"
    using g getInfo_store [OF ok, of now "p_bucket p" "p_key p" rc info t] ok
    by (auto simp: KELPIE_OK_def KELPIE_ENOENT_def split: if_splits)
  have fl: "mb_behavior_flags (pub_request ctx p) = p_flags p" "mb_bucket (pub_request ctx p) = p_bucket p"
    "mb_iom_hash (pub_request ctx p) = 0" "msg_src (mb_hdr (pub_request ctx p)) = my_id (ctx (p_origin p))"
    by (simp_all add: pub_request_def)
  note F = pub_request_facts(1,3) [OF wf, where ctx = ctx] pub_request_facts(2) [OF wf, where ctx = ctx and c = "ctx (p_target p)"] fl
  have tr: "transferable (p_obj p)" using wf by simp
  show ?thesis
  proof (cases "rc = KELPIE_OK \<and> col_availability info = InLocalMemory")
    case True
    show ?thesis
      by (rule refused [OF _ _ _ t])
        (use True early g F ids in \<open>simp_all add: publish_Update_def smt_Publish_Start_def OpKelpiePublish_target_def blank_op_def
          expect_buffer_def ExpectMessageOrDie_def Let_def on_status_def SendMsg_def updateState_def wrap_op_def pub_refused_def\<close>)
  next
    case False
    show ?thesis
      by (rule fetch [OF _ t])
        (use False g F ids in \<open>auto simp: net_Get_landing [OF tr, where c = "ctx (p_target p)"] publish_Update_def smt_Publish_Start_def OpKelpiePublish_target_def blank_op_def
          expect_buffer_def ExpectMessageOrDie_def Let_def updateState_def wrap_op_def pub_fetching_def\<close>)
  qed
qed

lemma step_P_arrived:
  assumes inv: "cluster_inv ctx cl (add_mset (Pub p (P_arrived m)) R)" and ids: "my_id (ctx (p_origin p)) = p_origin p"
    and i: "i < length (work (n_core (nodes cl (p_target p))))"
      "work (n_core (nodes cl (p_target p))) ! i = (m, Args_message (Msg_buffer (pub_request ctx p)))"
  shows "\<exists>cl' ph. run_work ctx now (p_target p) i cl = Inr cl' \<and> cluster_inv ctx cl' (add_mset (Pub p ph) R) \<and> same_view cl cl' \<and>
    (ph = P_transfer m \<or>
     ph = P_ack (pub_refused ctx p) \<and> \<not> has_flag (ChangeRemoteToLocal (p_flags p)) EnableOverwrites \<and>
       stored (p_bucket p) (p_key p) (n_lkv (nodes cl (p_target p))) \<noteq> None)"
proof -
  let ?env = "env_of (nodes cl (p_target p))"
  have wf: "session_wf (Pub p (P_arrived m))" using inv by (simp add: cluster_inv_def)
  have ok: "stores_ok (e_lkv ?env)" using inv_stores [OF inv] by simp
  show ?thesis
  proof (cases rule: publish_start [where p = p and ctx = ctx and now = now and m = m, OF wf ok ids])
    case (1 op t)
    have "dst_mailbox (mst_hdr (pub_refused ctx p)) = p_mailbox p"
      by (simp add: pub_refused_def status_SetSuccess_def pub_request_def)
    then have "\<exists>cl'. run_work ctx now (p_target p) i cl = Inr cl' \<and>
        cluster_inv ctx cl' ({#Pub p (P_ack (pub_refused ctx p))#} + R) \<and> same_view cl cl'"
      by (intro run_view [OF inv i _ _ 1(1)]) (use 1 wf in simp_all)
    then show ?thesis using 1(2,3) by auto
  next
    case (2 t)
    have "\<exists>cl'. run_work ctx now (p_target p) i cl = Inr cl' \<and> cluster_inv ctx cl' ({#Pub p (P_transfer m)#} + R) \<and> same_view cl cl'"
      by (intro run_view [OF inv i _ _ 2(1)]) (use 2 wf ids in simp_all)
    then show ?thesis by auto
  qed
qed

lemma step_P_transfer:
  assumes inv: "cluster_inv ctx cl (add_mset (Pub p (P_transfer m)) R)" and ids: "my_id (ctx (p_origin p)) = p_origin p"
    and i: "i < length (dma cl)"
      "dma cl ! i = (p_target p, Rdma_Get m (GetRdmaPtr (my_id (ctx (p_origin p))) (p_mailbox p) (p_obj p)))"
  shows "\<exists>cl'. transfer i cl = Inr cl' \<and> cluster_inv ctx cl' (add_mset (Pub p (P_received m)) R) \<and> same_view cl cl'"
proof -
  have wf: "session_wf (Pub p (P_received m))" using inv by (simp add: cluster_inv_def)
  show ?thesis
    by (rule transfer_get [where op = "Op_publish (pub_fetching ctx p m (Some (landing (ctx (p_target p)) (p_obj p))))"
          and rop = "Op_publish (pub_asked ctx p)" and src = "p_obj p" and c = "ctx (p_target p)", OF inv i])
      (use wf ids in \<open>simp_all add: GetRdmaPtr_def pub_fetching_def pub_asked_def pub_origin_def OpKelpiePublish_origin_def\<close>)
qed

lemma publish_reply:
  "kelpie_Update c now (Args_message (Msg_status st)) (Op_publish (pub_asked ctx p)) env =
     Inr (Done_and_destroy, Op_publish ((pub_asked ctx p)\<lparr>kop_state := Pub_done\<rparr>), env\<lparr>e_calls := e_calls env @
       [Publish_result (p_cb p) (remote_rc st) (ChangeAvailabilityFromLocalToRemote (object_info st))]\<rparr>)"
  by (simp add: pub_origin_def pub_asked_def publish_Update_def smo_Publish_WaitAck_def expect_status_def ExpectMessageOrDie_def
      updateState_def wrap_op_def OpKelpiePublish_origin_def)

lemma step_P_ack:
  assumes inv: "cluster_inv ctx cl (add_mset (Pub p (P_ack st)) R)"
    and i: "i < length (wire cl)" "wire cl ! i = (p_origin p, Msg_status st)"
  shows "\<exists>cl'. deliver i cl = Inr cl' \<and> cluster_inv ctx cl' (add_mset (Pub p (P_reply st)) R) \<and> same_view cl cl'"
proof -
  have wf: "session_wf (Pub p (P_ack st))" using inv by (simp add: cluster_inv_def)
  show ?thesis
    by (rule deliver_existing [where m = "p_mailbox p" and op = "Op_publish (pub_asked ctx p)", OF inv i]) (use wf in simp_all)
qed

lemma step_P_reply:
  assumes inv: "cluster_inv ctx cl (add_mset (Pub p (P_reply st)) R)"
    and i: "i < length (work (n_core (nodes cl (p_origin p))))"
      "work (n_core (nodes cl (p_origin p))) ! i = (p_mailbox p, Args_message (Msg_status st))"
  shows "\<exists>cl'. run_work ctx now (p_origin p) i cl = Inr cl' \<and> cluster_inv ctx cl' R \<and>
    (\<forall>n b k. stored b k (n_lkv (nodes cl' n)) = stored b k (n_lkv (nodes cl n))) \<and>
    (\<forall>n. n_calls (nodes cl' n) = n_calls (nodes cl n) @ (if n = p_origin p
       then [Publish_result (p_cb p) (remote_rc st) (ChangeAvailabilityFromLocalToRemote (object_info st))] else []))"
proof -
  have "\<exists>cl'. run_work ctx now (p_origin p) i cl = Inr cl' \<and> cluster_inv ctx cl' ({#} + R) \<and>
    (\<forall>n b k. stored b k (n_lkv (nodes cl' n)) = stored b k (n_lkv (nodes cl n))) \<and>
    (\<forall>n'. n_calls (nodes cl' n') = n_calls (nodes cl n') @ (if n' = p_origin p
       then [Publish_result (p_cb p) (remote_rc st) (ChangeAvailabilityFromLocalToRemote (object_info st))] else []))"
    by (rule run_calls [where op = "Op_publish (pub_asked ctx p)", OF inv i _ _ publish_reply])
      (use inv_stores [OF inv] in \<open>simp_all\<close>)
  then show ?thesis by simp
qed

section \<open>Publishing wakes a waiting get\<close>

lemma apply_backburner:
  "apply_effects (map (\<lambda>cb. Backburner cb k x i) cbs) nd = Inr (nd\<lparr>n_later := n_later nd @ map (\<lambda>cb. Backburner cb k x i) cbs\<rparr>)"
  by (induction cbs arbitrary: nd) simp_all

lemma inv_mailbox_unique:
  assumes inv: "cluster_inv ctx cl (add_mset s (add_mset s' R))" and "(m, op) \<in># ops_of ctx n s" "(m, op') \<in># ops_of ctx n s'"
  shows False
proof -
  let ?ops = "active_ops (n_core (nodes cl n))"
  obtain X Y where "ops_of ctx n s = add_mset (m, op) X" "ops_of ctx n s' = add_mset (m, op') Y"
    using assms(2,3) by (meson mset_add)
  moreover have "mset ?ops = (\<Sum>x\<in>#add_mset s (add_mset s' R). ops_of ctx n x)" using inv by (simp add: cluster_inv_def)
  ultimately have "image_mset fst (mset ?ops) = add_mset m (add_mset m (image_mset fst (X + Y + (\<Sum>x\<in>#R. ops_of ctx n x))))"
    by simp
  then have "count (mset (map fst ?ops)) m \<ge> 2" by simp
  moreover have "distinct (map fst ?ops)" by (rule om_inv_distinct [OF core_inv_om [OF inv_core [OF inv]]])
  then have "count (mset (map fst ?ops)) m \<le> 1"
    using distinct_count_atmost_1 [of "map fst ?ops"] by (metis le_numeral_extra(4) zero_le_one)
  ultimately show False by linarith
qed

text \<open>What a publish leaves in the target's store, and what it answers.\<close>

definition publish_outcome :: "pub \<Rightarrow> LocalKV \<Rightarrow> LocalKV \<Rightarrow> msg_direct_status_t \<Rightarrow> dataobject \<Rightarrow> bool" where
  "publish_outcome p t t' st obj =
     (let b = p_bucket p; k = p_key p; over = has_flag (ChangeRemoteToLocal (p_flags p)) EnableOverwrites in
      dst_mailbox (mst_hdr st) = p_mailbox p \<and>
      remote_rc st = (if stored b k t \<noteq> None \<and> \<not> over then KELPIE_EEXIST else KELPIE_OK) \<and>
      Some obj = (case stored b k t of Some old \<Rightarrow> if over then Some (fresh_copy (p_obj p)) else old | None \<Rightarrow> Some (fresh_copy (p_obj p))) \<and>
      transferable obj \<and> stores_ok t' \<and>
      (\<forall>b' k'. stored b' k' t' = (if same_slot b' k' b k then Some (Some obj) else stored b' k' t)) \<and>
      (\<forall>b' k'. waiting_at b' k' t' = (if same_slot b' k' b k then [] else waiting_at b' k' t)))"

lemma publish_store:
  assumes wf: "session_wf (Pub p ph)" and ok: "stores_ok (e_lkv env)" and ids: "my_id (ctx (p_origin p)) = p_origin p"
  obtains op t st obj j cbs where
    "kelpie_Update (ctx (p_target p)) now (Args_update Get_success) (Op_publish (pub_fetching ctx p m (Some (fresh_copy (p_obj p))))) env =
       Inr (Done_and_destroy, op, env\<lparr>e_lkv := t, e_sends := e_sends env @ [(p_origin p, Msg_status st)],
         e_effects := e_effects env @ trigger_ops (waiting_at (p_bucket p) (p_key p) (e_lkv env)) (Some (Some obj, j)) @
           map (\<lambda>cb. Backburner cb (p_key p) (Some obj) j) cbs\<rparr>)"
    "publish_outcome p (e_lkv env) t st obj"
proof -
  let ?f = "ChangeRemoteToLocal (p_flags p)"
  have f: "has_flag ?f WriteToLocal" "\<not> has_flag ?f WriteToIOM" "transferable (fresh_copy (p_obj p))"
    using wf transferable_fresh [of "p_obj p"] by (simp_all add: pub_flags_ok_def)
  obtain info effs t obj j cbs where P:
    "put now (p_bucket p) (p_key p) (Some (fresh_copy (p_obj p))) ?f None (e_io env) (e_lkv env) =
       Inr ((if stored (p_bucket p) (p_key p) (e_lkv env) \<noteq> None \<and> \<not> has_flag ?f EnableOverwrites then KELPIE_EEXIST else KELPIE_OK,
         info, effs), t, e_io env)"
    "stores_ok t" "transferable obj"
    "Some obj = (case stored (p_bucket p) (p_key p) (e_lkv env) of
        Some old \<Rightarrow> if has_flag ?f EnableOverwrites then Some (fresh_copy (p_obj p)) else old | None \<Rightarrow> Some (fresh_copy (p_obj p)))"
    "\<And>b k. stored b k t = (if same_slot b k (p_bucket p) (p_key p) then Some (Some obj) else stored b k (e_lkv env))"
    "\<And>b k. waiting_at b k t = (if same_slot b k (p_bucket p) (p_key p) then [] else waiting_at b k (e_lkv env))"
    "effs = trigger_ops (waiting_at (p_bucket p) (p_key p) (e_lkv env)) (Some (Some obj, j)) @
       map (\<lambda>cb. Backburner cb (p_key p) (Some obj) j) cbs"
    by (rule put_store [OF ok pub_request_facts(4) [OF wf] f(3,1,2)]) blast
  let ?ack = "AllocAck (status_body (ctx (p_target p))) (my_id (ctx (p_target p))) (mb_hdr (pub_request ctx p))"
  let ?rc = "if stored (p_bucket p) (p_key p) (e_lkv env) \<noteq> None \<and> \<not> has_flag ?f EnableOverwrites then KELPIE_EEXIST else KELPIE_OK"
  let ?st = "(status_SetSuccess (?rc = KELPIE_OK) ?ack)\<lparr>object_info := info, remote_rc := ?rc\<rparr>"
  have "publish_outcome p (e_lkv env) t ?st obj"
    using P(2-6) by (simp add: publish_outcome_def status_SetSuccess_def pub_request_def)
  moreover have "kelpie_Update (ctx (p_target p)) now (Args_update Get_success) (Op_publish (pub_fetching ctx p m (Some (fresh_copy (p_obj p))))) env =
       Inr (Done_and_destroy, Op_publish ((pub_fetching ctx p m (Some (fresh_copy (p_obj p))))\<lparr>kop_msg := None, kop_state := Pub_done\<rparr>),
         env\<lparr>e_lkv := t, e_sends := e_sends env @ [(p_origin p, Msg_status ?st)], e_effects := e_effects env @ effs\<rparr>)"
    using P(1) ids by (simp add: publish_Update_def smt_Publish_WaitRDMA_def pub_fetching_def blank_op_def
        VerifyTypeOrDie_def Let_def on_status_def SendMsg_def updateState_def wrap_op_def)
  ultimately show ?thesis using that P(7) by blast
qed

lemma same_slot_trans: "same_slot b k b' k' \<Longrightarrow> same_slot b'' k'' b' k' \<longleftrightarrow> same_slot b'' k'' b k"
  by (auto simp: same_slot_def)

lemma waiting_same_slot: "same_slot b k b' k' \<Longrightarrow> waiting_at b k t = waiting_at b' k' t"
  by (simp add: waiting_at_def cell_at_same_slot)

text \<open>An op that waits in a store belongs to a get session, and to one only.\<close>

lemma waits_get:
  assumes "w \<in> waits_for n b k (token_of ctx x)"
  obtains g where "x = Get g (G_waiting w)" "g_target g = n" "same_slot b k (g_bucket g) (g_key g)"
  using assms by (cases "(ctx, x)" rule: token_of.cases) (auto split: if_splits)

lemma sole_waiter:
  assumes inv: "cluster_inv ctx cl (add_mset s (add_mset (Get g (G_waiting w)) R))" and g: "g_target g = n"
    and w: "set (waiting_at b k (n_lkv (nodes cl n))) = {w}"
  shows "(\<Union>x\<in>set_mset R. waits_for n b k (token_of ctx x)) = {}"
proof (rule ccontr)
  assume "\<not> ?thesis"
  then obtain v x where x: "x \<in># R" "v \<in> waits_for n b k (token_of ctx x)" by blast
  then have "v \<in> set (waiting_at b k (n_lkv (nodes cl n)))" using inv by (auto simp: cluster_inv_def)
  then have v: "v = w" using w by simp
  obtain g' where g': "x = Get g' (G_waiting w)" "g_target g' = n" using waits_get [OF x(2)] v by metis
  obtain R1 where "R = add_mset x R1" using x(1) by (meson mset_add)
  then have "cluster_inv ctx cl (add_mset (Get g (G_waiting w)) (add_mset x (add_mset s R1)))"
    using inv by (simp add: add_mset_commute)
  from inv_mailbox_unique [OF this, of w "Op_getunbounded (get_stalled ctx g w)" n "Op_getunbounded (get_stalled ctx g' w)"]
  show False using g g' by simp
qed

text \<open>The publish as the target's store completes it, with the effects \<open>effs\<close> on waiting ops and callbacks.\<close>

definition stores_with ::
  "(nodeid_t \<Rightarrow> 'io node_ctx) \<Rightarrow> u32 \<Rightarrow> 'io cluster \<Rightarrow> pub \<Rightarrow> mailbox_t \<Rightarrow> kelpie_op \<Rightarrow> LocalKV \<Rightarrow> msg_direct_status_t \<Rightarrow> effect list \<Rightarrow> bool" where
  "stores_with ctx now cl p m op t st effs =
     (kelpie_Update (ctx (p_target p)) now (Args_update Get_success) (Op_publish (pub_fetching ctx p m (Some (fresh_copy (p_obj p)))))
        (env_of (nodes cl (p_target p))) =
      Inr (Done_and_destroy, op, (env_of (nodes cl (p_target p)))\<lparr>e_lkv := t, e_sends := [(p_origin p, Msg_status st)], e_effects := effs\<rparr>))"

lemma received_alone:
  assumes inv: "cluster_inv ctx cl (add_mset (Pub p (P_received m)) R)"
    and i: "i < length (work (n_core (nodes cl (p_target p))))" "work (n_core (nodes cl (p_target p))) ! i = (m, Args_update Get_success)"
    and U: "stores_with ctx now cl p m op t st (map (\<lambda>cb. Backburner cb (p_key p) (Some obj) j) cbs)"
    and out: "publish_outcome p (n_lkv (nodes cl (p_target p))) t st obj"
    and none: "waiting_at (p_bucket p) (p_key p) (n_lkv (nodes cl (p_target p))) = []"
  shows "\<exists>cl'. run_work ctx now (p_target p) i cl = Inr cl' \<and> cluster_inv ctx cl' ({#Pub p (P_ack st)#} + R) \<and>
    (\<forall>n. n_lkv (nodes cl' n) = (if n = p_target p then t else n_lkv (nodes cl n))) \<and>
    (\<forall>n. n_calls (nodes cl' n) = n_calls (nodes cl n))"
proof -
  let ?n = "p_target p" and ?late = "map (\<lambda>cb. Backburner cb (p_key p) (Some obj) j) cbs"
  let ?env = "(env_of (nodes cl ?n))\<lparr>e_lkv := t, e_sends := [(p_origin p, Msg_status st)], e_effects := ?late\<rparr>"
  let ?after = "after_update i m Done_and_destroy op ?env (nodes cl ?n)"
  have wf: "session_wf (Pub p (P_received m))" using inv by (simp add: cluster_inv_def)
  have Q: "dst_mailbox (mst_hdr st) = p_mailbox p" "stores_ok t"
    "\<And>b k. waiting_at b k t = (if same_slot b k (p_bucket p) (p_key p) then [] else waiting_at b k (n_lkv (nodes cl ?n)))"
    using out by (simp_all add: publish_outcome_def Let_def)
  have W: "set (waiting_at b k (n_lkv (nodes cl n))) = (\<Union>x\<in>set_mset R. waits_for n b k (token_of ctx x))" for n b k
    using inv by (simp add: cluster_inv_def)
  have U': "kelpie_Update (ctx ?n) now (Args_update Get_success) (Op_publish (pub_fetching ctx p m (Some (fresh_copy (p_obj p))))) (env_of (nodes cl ?n)) =
      Inr (Done_and_destroy, op, ?env)" using U by (simp add: stores_with_def)
  have "\<exists>cl'. run_work ctx now ?n i cl = Inr cl' \<and> cluster_inv ctx cl' ({#Pub p (P_ack st)#} + R) \<and>
      (\<forall>n. n_lkv (nodes cl' n) = (if n = ?n then e_lkv ?env else n_lkv (nodes cl n))) \<and>
      (\<forall>n. n_calls (nodes cl' n) = n_calls (nodes cl n) @ (if n = ?n then e_calls ?env else []))"
  proof (rule run_step [where s = "Pub p (P_received m)" and R = R and n = ?n and ctx = ctx and now = now and ?M0.0 = "{#}" and ws = "[]" and ?nd2.0 = "?after\<lparr>n_later := n_later ?after @ ?late\<rparr>", OF _ i _ _ U'])
    show "apply_effects (e_effects ?env) ?after = Inr (?after\<lparr>n_later := n_later ?after @ ?late\<rparr>)"
      by (simp add: apply_backburner)
    show "set (waiting_at b k (if n = ?n then e_lkv ?env else n_lkv (nodes cl n))) =
        (\<Union>x\<in>set_mset ({#Pub p (P_ack st)#} + R). waits_for n b k (token_of ctx x))" for n b k
      using Q(3) [of b k] none W [of b k n] waiting_same_slot [of b k "p_bucket p" "p_key p"] by (cases "n = ?n") auto
  qed (use inv Q(1,2) wf in \<open>simp_all add: after_update_def\<close>)
  moreover have "e_lkv ?env = t" "e_calls ?env = []" by simp_all
  ultimately show ?thesis by (simp only: if_cancel append_Nil2)
qed

lemma received_wakes:
  assumes inv: "cluster_inv ctx cl (add_mset (Pub p (P_received m)) (add_mset (Get g (G_waiting w)) R))"
    and i: "i < length (work (n_core (nodes cl (p_target p))))" "work (n_core (nodes cl (p_target p))) ! i = (m, Args_update Get_success)"
    and U: "stores_with ctx now cl p m op t st (TriggerOp w (Some (Some obj, j)) # map (\<lambda>cb. Backburner cb (p_key p) (Some obj) j) cbs)"
    and out: "publish_outcome p (n_lkv (nodes cl (p_target p))) t st obj"
    and one: "waiting_at (p_bucket p) (p_key p) (n_lkv (nodes cl (p_target p))) = [w]"
    and g: "g_target g = p_target p" "same_slot (p_bucket p) (p_key p) (g_bucket g) (g_key g)"
  shows "\<exists>cl'. run_work ctx now (p_target p) i cl = Inr cl' \<and>
    cluster_inv ctx cl' ({#Pub p (P_ack st), Get g (G_woken w obj j)#} + R) \<and>
    (\<forall>n. n_lkv (nodes cl' n) = (if n = p_target p then t else n_lkv (nodes cl n))) \<and>
    (\<forall>n. n_calls (nodes cl' n) = n_calls (nodes cl n))"
proof -
  let ?n = "p_target p" and ?late = "map (\<lambda>cb. Backburner cb (p_key p) (Some obj) j) cbs" and ?M = "{#Get g (G_waiting w)#}"
  let ?op = "Op_publish (pub_fetching ctx p m (Some (fresh_copy (p_obj p))))" and ?wop = "Op_getunbounded (get_stalled ctx g w)"
  let ?env = "(env_of (nodes cl ?n))\<lparr>e_lkv := t, e_sends := [(p_origin p, Msg_status st)],
      e_effects := TriggerOp w (Some (Some obj, j)) # ?late\<rparr>"
  let ?after = "after_update i m Done_and_destroy op ?env (nodes cl ?n)"
  let ?nd2 = "?after\<lparr>n_core := AddWork w (Args_trigger (Some obj, j)) (n_core ?after), n_later := n_later ?after @ ?late\<rparr>"
  have wf: "session_wf (Pub p (P_received m))" "session_wf (Get g (G_waiting w))" using inv by (simp_all add: cluster_inv_def)
  have Q: "dst_mailbox (mst_hdr st) = p_mailbox p" "stores_ok t" "transferable obj"
    "\<And>b k. waiting_at b k t = (if same_slot b k (p_bucket p) (p_key p) then [] else waiting_at b k (n_lkv (nodes cl ?n)))"
    using out by (simp_all add: publish_outcome_def Let_def)
  have W: "set (waiting_at b k (n_lkv (nodes cl n))) = (\<Union>x\<in>set_mset (add_mset (Get g (G_waiting w)) R). waits_for n b k (token_of ctx x))" for n b k
    using inv by (simp add: cluster_inv_def)
  have none: "(\<Union>x\<in>set_mset R. waits_for ?n b k (token_of ctx x)) = {}" if "same_slot b k (p_bucket p) (p_key p)" for b k
    using sole_waiter [OF inv g(1)] one waiting_same_slot [OF that] by simp
  have wm: "w \<noteq> m" using inv_mailbox_unique [OF inv, of m ?op ?n ?wop] g(1) by auto
  have act: "getActiveOp w (n_core ?after) = Some ?wop"
    using inv_getActive [OF inv, of "Get g (G_waiting w)" w ?wop ?n] g(1) wm
    by (simp add: getActiveOp_def after_update_def om_get_om_del split: if_splits)
  have U': "kelpie_Update (ctx ?n) now (Args_update Get_success) ?op (env_of (nodes cl ?n)) = Inr (Done_and_destroy, op, ?env)"
    using U by (simp add: stores_with_def)
  have "\<exists>cl'. run_work ctx now ?n i cl = Inr cl' \<and> cluster_inv ctx cl' ({#Pub p (P_ack st), Get g (G_woken w obj j)#} + R) \<and>
      (\<forall>n. n_lkv (nodes cl' n) = (if n = ?n then e_lkv ?env else n_lkv (nodes cl n))) \<and>
      (\<forall>n. n_calls (nodes cl' n) = n_calls (nodes cl n) @ (if n = ?n then e_calls ?env else []))"
  proof (rule run_step [where s = "Pub p (P_received m)" and R = R and n = ?n and ctx = ctx and now = now and ?M0.0 = ?M and ws = "[(w, Args_trigger (Some obj, j))]" and ?nd2.0 = ?nd2, OF _ i _ _ U'])
    show "apply_effects (e_effects ?env) ?after = Inr ?nd2"
      using act by (simp add: apply_backburner core_TriggerOp_def SanityCheck_def)
    show "set (waiting_at b k (if n = ?n then e_lkv ?env else n_lkv (nodes cl n))) =
        (\<Union>x\<in>set_mset ({#Pub p (P_ack st), Get g (G_woken w obj j)#} + R). waits_for n b k (token_of ctx x))" for n b k
      using Q(4) [of b k] W [of b k n] none [of b k] g same_slot_trans [OF g(2), of b k] by (cases "n = ?n") (auto split: if_splits)
    show "session_wf x" if "x \<in># {#Pub p (P_ack st), Get g (G_woken w obj j)#}" for x
      using that Q wf by auto
  qed (use inv Q(1-3) g(1) in \<open>simp_all add: after_update_def AddWork_def\<close>)
  moreover have "e_lkv ?env = t" "e_calls ?env = []" by simp_all
  ultimately show ?thesis by (simp only: if_cancel append_Nil2)
qed

lemma step_P_received:
  assumes inv: "cluster_inv ctx cl (add_mset (Pub p (P_received m)) R)" and ids: "my_id (ctx (p_origin p)) = p_origin p"
    and i: "i < length (work (n_core (nodes cl (p_target p))))" "work (n_core (nodes cl (p_target p))) ! i = (m, Args_update Get_success)"
  obtains (two) "length (waiting_at (p_bucket p) (p_key p) (n_lkv (nodes cl (p_target p)))) > 1"
      "run_work ctx now (p_target p) i cl = Inl Halted"
  | (alone) cl' t st obj where
      "run_work ctx now (p_target p) i cl = Inr cl'" "cluster_inv ctx cl' (add_mset (Pub p (P_ack st)) R)"
      "publish_outcome p (n_lkv (nodes cl (p_target p))) t st obj"
      "\<And>n. n_lkv (nodes cl' n) = (if n = p_target p then t else n_lkv (nodes cl n))"
      "\<And>n. n_calls (nodes cl' n) = n_calls (nodes cl n)"
      "waiting_at (p_bucket p) (p_key p) (n_lkv (nodes cl (p_target p))) = []"
  | (wakes) cl' t st obj g w j R' where
      "run_work ctx now (p_target p) i cl = Inr cl'" "R = add_mset (Get g (G_waiting w)) R'"
      "cluster_inv ctx cl' (add_mset (Pub p (P_ack st)) (add_mset (Get g (G_woken w obj j)) R'))"
      "publish_outcome p (n_lkv (nodes cl (p_target p))) t st obj"
      "g_target g = p_target p" "same_slot (p_bucket p) (p_key p) (g_bucket g) (g_key g)"
      "\<And>n. n_lkv (nodes cl' n) = (if n = p_target p then t else n_lkv (nodes cl n))"
      "\<And>n. n_calls (nodes cl' n) = n_calls (nodes cl n)"
      "waiting_at (p_bucket p) (p_key p) (n_lkv (nodes cl (p_target p))) = [w]"
proof -
  let ?n = "p_target p" and ?ws = "waiting_at (p_bucket p) (p_key p) (n_lkv (nodes cl (p_target p)))"
  have wf: "session_wf (Pub p (P_received m))" using inv by (simp add: cluster_inv_def)
  have ok: "stores_ok (e_lkv (env_of (nodes cl ?n)))" using inv_stores [OF inv] by simp
  obtain op t st obj j cbs where
    "kelpie_Update (ctx ?n) now (Args_update Get_success) (Op_publish (pub_fetching ctx p m (Some (fresh_copy (p_obj p))))) (env_of (nodes cl ?n)) =
       Inr (Done_and_destroy, op, (env_of (nodes cl ?n))\<lparr>e_lkv := t, e_sends := e_sends (env_of (nodes cl ?n)) @ [(p_origin p, Msg_status st)],
         e_effects := e_effects (env_of (nodes cl ?n)) @ trigger_ops (waiting_at (p_bucket p) (p_key p) (e_lkv (env_of (nodes cl ?n))))
             (Some (Some obj, j)) @ map (\<lambda>cb. Backburner cb (p_key p) (Some obj) j) cbs\<rparr>)"
    "publish_outcome p (e_lkv (env_of (nodes cl ?n))) t st obj"
    by (rule publish_store [where ctx = ctx and p = p and m = m and now = now, OF wf ok ids]) blast
  then have U: "stores_with ctx now cl p m op t st
      (trigger_ops ?ws (Some (Some obj, j)) @ map (\<lambda>cb. Backburner cb (p_key p) (Some obj) j) cbs)"
    and out: "publish_outcome p (n_lkv (nodes cl ?n)) t st obj"
    by (simp_all add: stores_with_def)
  consider "?ws = []" | w where "?ws = [w]" | v w ws where "?ws = v # w # ws"
    by (metis list.exhaust)
  then show ?thesis
  proof cases
    case 1
    then obtain cl' where "run_work ctx now ?n i cl = Inr cl'" "cluster_inv ctx cl' (add_mset (Pub p (P_ack st)) R)"
      "\<forall>n. n_lkv (nodes cl' n) = (if n = ?n then t else n_lkv (nodes cl n))" "\<forall>n. n_calls (nodes cl' n) = n_calls (nodes cl n)"
      using received_alone [OF inv i _ out, of now op j cbs] U by auto
    then show ?thesis using alone [OF _ _ out] 1 by blast
  next
    case (2 w)
    have "set ?ws = (\<Union>x\<in>set_mset R. waits_for ?n (p_bucket p) (p_key p) (token_of ctx x))"
      using inv by (simp add: cluster_inv_def)
    then have "w \<in> (\<Union>x\<in>set_mset R. waits_for ?n (p_bucket p) (p_key p) (token_of ctx x))"
      using 2 by (metis list.set_intros(1))
    then obtain x where x: "x \<in># R" "w \<in> waits_for ?n (p_bucket p) (p_key p) (token_of ctx x)" by blast
    obtain g where g: "x = Get g (G_waiting w)" "g_target g = ?n" "same_slot (p_bucket p) (p_key p) (g_bucket g) (g_key g)"
      using waits_get [OF x(2)] by metis
    obtain R' where R: "R = add_mset (Get g (G_waiting w)) R'" using x(1) g(1) by (meson mset_add)
    show ?thesis
      using received_wakes [OF inv [unfolded R] i _ out 2 g(2,3), of now op j cbs] U 2 wakes [OF _ R _ out g(2,3)] by auto
  next
    case (3 v w ws)
    have act: "om_get (active_ops (n_core (nodes cl ?n))) m = Some (Op_publish (pub_fetching ctx p m (Some (fresh_copy (p_obj p)))))"
      using inv_active [OF inv, of "Pub p (P_received m)" m _ ?n] by simp
    have "run_work ctx now ?n i cl = Inl Halted"
      using run_work_eq [where ctx = ctx and now = now and n = ?n, OF inv_core [OF inv, of ?n] i(2) act U [unfolded stores_with_def]] 3
      by (simp add: core_TriggerOp_def SanityCheck_def split: option.splits)
    then show ?thesis using 3 two by simp
  qed
qed

section \<open>Get\<close>

lemma get_send:
  "kelpie_Update c now args (Op_getunbounded (get_origin ctx g)) env =
     Inr (Waiting_on_cq, Op_getunbounded (get_asked ctx g), env\<lparr>e_sends := e_sends env @ [(g_target g, Msg_simple (get_request ctx g))]\<rparr>)"
  by (simp add: get_origin_def get_asked_def get_request_def getunbounded_Update_def smo_GetUnbounded_Send_def SendMsg_def updateState_def
      wrap_op_def OpKelpieGetUnbounded_origin_def blank_op_def)

lemma step_G_send:
  assumes "cluster_inv ctx cl (add_mset (Get g G_send) R)"
    and "i < length (work (n_core (nodes cl (g_origin g))))"
      "work (n_core (nodes cl (g_origin g))) ! i = (g_mailbox g, Args_update Start)"
  shows "\<exists>cl'. run_work ctx now (g_origin g) i cl = Inr cl' \<and> cluster_inv ctx cl' (add_mset (Get g G_request) R) \<and> same_view cl cl'"
proof -
  have wf: "session_wf (Get g G_request)" using assms(1) by (simp add: cluster_inv_def)
  have "\<exists>cl'. run_work ctx now (g_origin g) i cl = Inr cl' \<and> cluster_inv ctx cl' ({#Get g G_request#} + R) \<and> same_view cl cl'"
    by (rule run_view [where op = "Op_getunbounded (get_origin ctx g)", OF assms _ _ get_send])
      (use inv_stores [OF assms(1)] wf in simp_all)
  then show ?thesis by simp
qed

lemma step_G_request:
  assumes "cluster_inv ctx cl (add_mset (Get g G_request) R)" "mailbox_left (n_core (nodes cl (g_target g)))"
    and "i < length (wire cl)" "wire cl ! i = (g_target g, Msg_simple (get_request ctx g))"
  shows "\<exists>cl' m. deliver i cl = Inr cl' \<and> cluster_inv ctx cl' (add_mset (Get g (G_arrived m)) R) \<and> same_view cl cl'"
proof -
  let ?m = "next_mailbox (n_core (nodes cl (g_target g)))"
  have wf: "session_wf (Get g (G_arrived ?m))" using assms(1) by (simp add: cluster_inv_def)
  have "\<exists>cl'. deliver i cl = Inr cl' \<and> cluster_inv ctx cl' (add_mset (Get g (G_arrived ?m)) R) \<and> same_view cl cl'"
    by (rule deliver_new [where mk = "Op_getunbounded \<circ> OpKelpieGetUnbounded_target" and m = ?m, OF assms])
      (use wf in \<open>simp_all add: get_request_def MAILBOX_UNSPECIFIED_def kelpie_create_ids\<close>)
  then show ?thesis by blast
qed

lemma get_request_facts:
  "ms_bucket (get_request ctx g) = g_bucket g" "ms_iom_hash (get_request ctx g) = 0" "ms_behavior_flags (get_request ctx g) = g_flags g"
  "msg_src (ms_hdr (get_request ctx g)) = my_id (ctx (g_origin g))" "src_mailbox (ms_hdr (get_request ctx g)) = g_mailbox g"
  "short_key (g_key g) \<Longrightarrow> simple_ExtractKey (get_request ctx g) = Inr (g_key g)"
  by (simp_all add: get_request_def)

lemma getunbounded_reply_eq:
  assumes "kop_msg op = Some (Msg_buffer (get_blank_reply ctx g m))" "kop_mailbox op = m" "kop_data op = Some d"
    and "my_id (ctx (g_origin g)) = g_origin g" "kop_peer op = Some (g_origin g)" "kop_bucket op = g_bucket g" "kop_key op = g_key g"
    and "op\<lparr>kop_msg := None, kop_state := Trgt_getunbounded_wait_for_ack\<rparr> = get_serving ctx g m d"
  shows "getunbounded_reply (ctx (g_target g)) op env =
    Inr (Waiting_on_cq, get_serving ctx g m d, env\<lparr>e_sends := e_sends env @ [(g_origin g, Msg_buffer (get_reply ctx g m d))]\<rparr>)"
  using assms by (simp add: getunbounded_reply_def on_buffer_def SendMsg_def updateState_def get_reply_def)

lemma get_start:
  assumes k: "short_key (g_key g)" and ok: "stores_ok (e_lkv env)" and ids: "my_id (ctx (g_origin g)) = g_origin g"
  obtains (found) d t where
      "kelpie_Update (ctx (g_target g)) now (Args_message (Msg_simple (get_request ctx g))) (Op_getunbounded (OpKelpieGetUnbounded_target m)) env =
         Inr (Waiting_on_cq, Op_getunbounded (get_serving ctx g m d),
           env\<lparr>e_lkv := t, e_sends := e_sends env @ [(g_origin g, Msg_buffer (get_reply ctx g m d))]\<rparr>)"
      "stored (g_bucket g) (g_key g) (e_lkv env) = Some (Some d)" "transferable d"
      "stores_ok t" "\<And>b k. stored b k t = stored b k (e_lkv env)" "\<And>b k. set (waiting_at b k t) = set (waiting_at b k (e_lkv env))"
  | (missing) t where
      "kelpie_Update (ctx (g_target g)) now (Args_message (Msg_simple (get_request ctx g))) (Op_getunbounded (OpKelpieGetUnbounded_target m)) env =
         Inr (Wait_on_user, Op_getunbounded (get_stalled ctx g m), env\<lparr>e_lkv := t\<rparr>)"
      "stored (g_bucket g) (g_key g) (e_lkv env) = None"
      "stores_ok t" "\<And>b k. stored b k t = stored b k (e_lkv env)"
      "\<And>b k. set (waiting_at b k t) = set (waiting_at b k (e_lkv env)) \<union> (if same_slot b k (g_bucket g) (g_key g) then {m} else {})"
proof -
  have v: "valid (g_key g)" using k by (simp add: short_key_def)
  obtain info t where G: "getForOp now (FindIOM (ctx (g_target g))) (g_bucket g) (g_key g) m (g_flags g) 0 (e_io env) (e_lkv env) =
       Inr ((if stored (g_bucket g) (g_key g) (e_lkv env) = None then KELPIE_ENOENT else KELPIE_OK,
         stored (g_bucket g) (g_key g) (e_lkv env), info), t, e_io env)"
    and t: "\<And>b k. stored b k t = stored b k (e_lkv env)" "stores_ok t"
    "\<And>b k. set (waiting_at b k t) = set (waiting_at b k (e_lkv env)) \<union>
       (if same_slot b k (g_bucket g) (g_key g) \<and> stored (g_bucket g) (g_key g) (e_lkv env) = None then {m} else {})"
    by (rule getForOp_store [OF ok v]) blast
  note F = get_request_facts(1-5) [where ctx = ctx and g = g] get_request_facts(6) [OF k, where ctx = ctx]
  note D = getunbounded_Update_def smt_GetUnbounded_Start_def OpKelpieGetUnbounded_target_def blank_op_def
    expect_simple_def ExpectMessageOrDie_def Let_def updateState_def wrap_op_def
  show ?thesis
  proof (cases "stored (g_bucket g) (g_key g) (e_lkv env)")
    case None
    show ?thesis
      by (rule missing [OF _ None t(2,1)])
        (use t(3) None F ids G in \<open>auto simp: D get_stalled_def get_blank_reply_def KELPIE_OK_def KELPIE_ENOENT_def\<close>)
  next
    case (Some x)
    then obtain d where d: "x = Some d" "transferable d" using ok unfolding stores_ok_def by blast
    let ?op = "(blank_op m Trgt_getunbounded_start)\<lparr>kop_peer := Some (g_origin g), kop_bucket := g_bucket g, kop_key := g_key g,
      kop_msg := Some (Msg_buffer (get_blank_reply ctx g m)), kop_data := Some d\<rparr>"
    have R: "getunbounded_reply (ctx (g_target g)) ?op (env\<lparr>e_lkv := t\<rparr>) =
      Inr (Waiting_on_cq, get_serving ctx g m d, env\<lparr>e_lkv := t, e_sends := e_sends env @ [(g_origin g, Msg_buffer (get_reply ctx g m d))]\<rparr>)"
      by (subst getunbounded_reply_eq [where g = g and m = m and d = d])
        (use ids in \<open>simp_all add: get_serving_def blank_op_def\<close>)
    show ?thesis
      by (rule found [OF _ _ d(2) t(2,1)])
        (use t(3) Some d F ids G R in \<open>auto simp: D get_blank_reply_def\<close>)
  qed
qed

lemma step_G_arrived:
  assumes inv: "cluster_inv ctx cl (add_mset (Get g (G_arrived m)) R)" and ids: "my_id (ctx (g_origin g)) = g_origin g"
    and i: "i < length (work (n_core (nodes cl (g_target g))))"
      "work (n_core (nodes cl (g_target g))) ! i = (m, Args_message (Msg_simple (get_request ctx g)))"
  shows "\<exists>cl' ph. run_work ctx now (g_target g) i cl = Inr cl' \<and> cluster_inv ctx cl' (add_mset (Get g ph) R) \<and> same_view cl cl' \<and>
    (case stored (g_bucket g) (g_key g) (n_lkv (nodes cl (g_target g))) of
       Some x \<Rightarrow> (\<exists>d. x = Some d \<and> ph = G_info m d) | None \<Rightarrow> ph = G_waiting m)"
proof -
  let ?env = "env_of (nodes cl (g_target g))"
  have k: "short_key (g_key g)" using inv by (simp add: cluster_inv_def)
  have ok: "stores_ok (e_lkv ?env)" using inv_stores [OF inv] by simp
  show ?thesis
  proof (cases rule: get_start [where g = g and ctx = ctx and now = now and m = m, OF k ok ids])
    case (1 d t)
    have "\<exists>cl'. run_work ctx now (g_target g) i cl = Inr cl' \<and> cluster_inv ctx cl' ({#Get g (G_info m d)#} + R) \<and> same_view cl cl'"
      by (intro run_view [OF inv i _ _ 1(1)]) (use 1 k ids in simp_all)
    then show ?thesis using 1(2) by auto
  next
    case (2 t)
    have "\<exists>cl'. run_work ctx now (g_target g) i cl = Inr cl' \<and> cluster_inv ctx cl' ({#Get g (G_waiting m)#} + R) \<and> same_view cl cl'"
      by (intro run_view [OF inv i _ _ 2(1)]) (use 2 k ids in simp_all)
    then show ?thesis using 2(2) by auto
  qed
qed

lemma get_wake:
  assumes ids: "my_id (ctx (g_origin g)) = g_origin g"
  shows "kelpie_Update (ctx (g_target g)) now (Args_trigger (Some d, j)) (Op_getunbounded (get_stalled ctx g m)) env =
    Inr (Waiting_on_cq, Op_getunbounded (get_serving ctx g m d),
      env\<lparr>e_sends := e_sends env @ [(g_origin g, Msg_buffer (get_reply ctx g m d))]\<rparr>)"
proof -
  have "getunbounded_reply (ctx (g_target g)) ((get_stalled ctx g m)\<lparr>kop_data := Some d\<rparr>) env =
    Inr (Waiting_on_cq, get_serving ctx g m d, env\<lparr>e_sends := e_sends env @ [(g_origin g, Msg_buffer (get_reply ctx g m d))]\<rparr>)"
    by (rule getunbounded_reply_eq) (use ids in \<open>simp_all add: get_stalled_def get_serving_def blank_op_def\<close>)
  moreover have "kop_state (get_stalled ctx g m) = Trgt_getunbounded_wait_for_data" by (simp add: get_stalled_def blank_op_def)
  ultimately show ?thesis
    by (simp add: getunbounded_Update_def smt_GetUnbounded_WaitData_def ExpectTriggerOrDie_def wrap_op_def)
qed

lemma step_G_woken:
  assumes inv: "cluster_inv ctx cl (add_mset (Get g (G_woken m d j)) R)" and ids: "my_id (ctx (g_origin g)) = g_origin g"
    and i: "i < length (work (n_core (nodes cl (g_target g))))" "work (n_core (nodes cl (g_target g))) ! i = (m, Args_trigger (Some d, j))"
  shows "\<exists>cl'. run_work ctx now (g_target g) i cl = Inr cl' \<and> cluster_inv ctx cl' (add_mset (Get g (G_info m d)) R) \<and> same_view cl cl'"
proof -
  have wf: "session_wf (Get g (G_info m d))" using inv by (simp add: cluster_inv_def)
  have "\<exists>cl'. run_work ctx now (g_target g) i cl = Inr cl' \<and> cluster_inv ctx cl' ({#Get g (G_info m d)#} + R) \<and> same_view cl cl'"
    by (rule run_view [OF inv i _ _ get_wake [where ctx = ctx and now = now, OF ids]]) (use inv_stores [OF inv] wf in simp_all)
  then show ?thesis by simp
qed

lemma get_reply_hdr: "dst_mailbox (mb_hdr (get_reply ctx g m d)) = g_mailbox g"
  by (simp add: get_reply_def get_blank_reply_def)

lemma step_G_info:
  assumes inv: "cluster_inv ctx cl (add_mset (Get g (G_info m d)) R)"
    and i: "i < length (wire cl)" "wire cl ! i = (g_origin g, Msg_buffer (get_reply ctx g m d))"
  shows "\<exists>cl'. deliver i cl = Inr cl' \<and> cluster_inv ctx cl' (add_mset (Get g (G_informed m d)) R) \<and> same_view cl cl'"
proof -
  have wf: "session_wf (Get g (G_info m d))" using inv by (simp add: cluster_inv_def)
  show ?thesis
    by (rule deliver_existing [where m = "g_mailbox g" and op = "Op_getunbounded (get_asked ctx g)", OF inv i])
      (use wf get_reply_hdr [where ctx = ctx] in simp_all)
qed

lemma get_informed:
  assumes "transferable d"
  shows "kelpie_Update (ctx (g_origin g)) now (Args_message (Msg_buffer (get_reply ctx g m d))) (Op_getunbounded (get_asked ctx g)) env =
    Inr (Waiting_on_cq, Op_getunbounded (get_fetching ctx g m d (Some (landing (ctx (g_origin g)) d))),
      env\<lparr>e_rdma := e_rdma env @ [Rdma_Get (g_mailbox g) (GetRdmaPtr (my_id (ctx (g_target g))) m d)]\<rparr>)"
proof -
  have src: "msg_src (mb_hdr (get_reply ctx g m d)) = my_id (ctx (g_target g))"
    by (simp add: get_reply_def get_blank_reply_def)
  have "new_ldo (ctx (g_origin g)) (ucast (meta_plus_data_size (get_reply ctx g m d))) = Inr (Some (landing (ctx (g_origin g)) d))"
    "meta_plus_data_size (get_reply ctx g m d) \<noteq> 0"
    "net_buffer_remote (get_reply ctx g m d) = GetRdmaPtr (my_id (ctx (g_target g))) m d"
    using transferable_size [OF assms] by (simp_all add: get_reply_def)
  then show ?thesis
    using src by (simp add: net_Get_landing [OF assms, where c = "ctx (g_origin g)"] getunbounded_Update_def get_asked_def get_origin_def OpKelpieGetUnbounded_origin_def blank_op_def wrap_op_def
        smo_GetUnbounded_WaitInfo_def expect_buffer_def ExpectMessageOrDie_def Let_def updateState_def
        get_fetching_def get_final_def)
qed

lemma step_G_informed:
  assumes inv: "cluster_inv ctx cl (add_mset (Get g (G_informed m d)) R)"
    and i: "i < length (work (n_core (nodes cl (g_origin g))))"
      "work (n_core (nodes cl (g_origin g))) ! i = (g_mailbox g, Args_message (Msg_buffer (get_reply ctx g m d)))"
  shows "\<exists>cl'. run_work ctx now (g_origin g) i cl = Inr cl' \<and> cluster_inv ctx cl' (add_mset (Get g (G_transfer m d)) R) \<and> same_view cl cl'"
proof -
  have wf: "session_wf (Get g (G_transfer m d))" and d: "transferable d" using inv by (simp_all add: cluster_inv_def)
  have "\<exists>cl'. run_work ctx now (g_origin g) i cl = Inr cl' \<and> cluster_inv ctx cl' ({#Get g (G_transfer m d)#} + R) \<and> same_view cl cl'"
    by (rule run_view [OF inv i _ _ get_informed [where ctx = ctx and now = now, OF d]]) (use inv_stores [OF inv] wf in simp_all)
  then show ?thesis by simp
qed

lemma step_G_transfer:
  assumes inv: "cluster_inv ctx cl (add_mset (Get g (G_transfer m d)) R)" and ids: "my_id (ctx (g_target g)) = g_target g"
    and i: "i < length (dma cl)"
      "dma cl ! i = (g_origin g, Rdma_Get (g_mailbox g) (GetRdmaPtr (my_id (ctx (g_target g))) m d))"
  shows "\<exists>cl'. transfer i cl = Inr cl' \<and> cluster_inv ctx cl' (add_mset (Get g (G_received m d)) R) \<and> same_view cl cl'"
proof -
  have wf: "session_wf (Get g (G_received m d))" using inv by (simp add: cluster_inv_def)
  show ?thesis
    by (rule transfer_get [where op = "Op_getunbounded (get_fetching ctx g m d (Some (landing (ctx (g_origin g)) d)))"
          and rop = "Op_getunbounded (get_serving ctx g m d)" and src = d and c = "ctx (g_origin g)", OF inv i])
      (use wf ids in \<open>simp_all add: GetRdmaPtr_def get_fetching_def get_serving_def\<close>)
qed

lemma get_received:
  assumes "my_id (ctx (g_target g)) = g_target g"
  obtains op where
  "kelpie_Update c now (Args_update Get_success) (Op_getunbounded (get_fetching ctx g m d (Some (fresh_copy d)))) env =
    Inr (Done_and_destroy, op, env\<lparr>e_calls := e_calls env @ [Get_result (g_cb g) True (g_key g) (Some (fresh_copy d))],
      e_sends := e_sends env @ [(g_target g, Msg_status (status_SetSuccess True (get_final ctx g m d)))]\<rparr>)"
  using assms by (auto simp: getunbounded_Update_def get_fetching_def get_asked_def get_origin_def OpKelpieGetUnbounded_origin_def
      blank_op_def wrap_op_def smo_GetUnbounded_WaitRDMA_def VerifyTypeOrDie_def on_status_def SendMsg_def updateState_def)

lemma step_G_received:
  assumes inv: "cluster_inv ctx cl (add_mset (Get g (G_received m d)) R)" and ids: "my_id (ctx (g_target g)) = g_target g"
    and i: "i < length (work (n_core (nodes cl (g_origin g))))"
      "work (n_core (nodes cl (g_origin g))) ! i = (g_mailbox g, Args_update Get_success)"
  shows "\<exists>cl'. run_work ctx now (g_origin g) i cl = Inr cl' \<and> cluster_inv ctx cl' (add_mset (Get g (G_ack m d)) R) \<and>
    (\<forall>n b k. stored b k (n_lkv (nodes cl' n)) = stored b k (n_lkv (nodes cl n))) \<and>
    (\<forall>n. n_calls (nodes cl' n) = n_calls (nodes cl n) @ (if n = g_origin g then [Get_result (g_cb g) True (g_key g) (Some (fresh_copy d))] else []))"
proof -
  have wf: "session_wf (Get g (G_ack m d))" using inv by (simp add: cluster_inv_def)
  obtain op where U: "kelpie_Update (ctx (g_origin g)) now (Args_update Get_success) (Op_getunbounded (get_fetching ctx g m d (Some (fresh_copy d))))
      (env_of (nodes cl (g_origin g))) =
    Inr (Done_and_destroy, op, (env_of (nodes cl (g_origin g)))\<lparr>e_calls := e_calls (env_of (nodes cl (g_origin g))) @
        [Get_result (g_cb g) True (g_key g) (Some (fresh_copy d))],
      e_sends := e_sends (env_of (nodes cl (g_origin g))) @ [(g_target g, Msg_status (status_SetSuccess True (get_final ctx g m d)))]\<rparr>)"
    by (rule get_received [where ctx = ctx and now = now, OF ids])
  have "\<exists>cl'. run_work ctx now (g_origin g) i cl = Inr cl' \<and> cluster_inv ctx cl' ({#Get g (G_ack m d)#} + R) \<and>
    (\<forall>n b k. stored b k (n_lkv (nodes cl' n)) = stored b k (n_lkv (nodes cl n))) \<and>
    (\<forall>n. n_calls (nodes cl' n) = n_calls (nodes cl n) @ (if n = g_origin g then [Get_result (g_cb g) True (g_key g) (Some (fresh_copy d))] else []))"
    by (rule run_calls [OF inv i _ _ U]) (use inv_stores [OF inv] wf in simp_all)
  then show ?thesis by simp
qed

lemma get_final_hdr: "dst_mailbox (mst_hdr (status_SetSuccess True (get_final ctx g m d))) = m"
  by (simp add: get_final_def status_SetSuccess_def get_reply_def get_blank_reply_def)

lemma step_G_ack:
  assumes inv: "cluster_inv ctx cl (add_mset (Get g (G_ack m d)) R)"
    and i: "i < length (wire cl)" "wire cl ! i = (g_target g, Msg_status (status_SetSuccess True (get_final ctx g m d)))"
  shows "\<exists>cl'. deliver i cl = Inr cl' \<and> cluster_inv ctx cl' (add_mset (Get g (G_released m d)) R) \<and> same_view cl cl'"
proof -
  have wf: "session_wf (Get g (G_ack m d))" using inv by (simp add: cluster_inv_def)
  show ?thesis
    by (rule deliver_existing [where m = m and op = "Op_getunbounded (get_serving ctx g m d)", OF inv i])
      (use wf get_final_hdr [where ctx = ctx] in simp_all)
qed

lemma step_G_released:
  assumes inv: "cluster_inv ctx cl (add_mset (Get g (G_released m d)) R)"
    and i: "i < length (work (n_core (nodes cl (g_target g))))"
      "work (n_core (nodes cl (g_target g))) ! i = (m, Args_message (Msg_status (status_SetSuccess True (get_final ctx g m d))))"
  shows "\<exists>cl'. run_work ctx now (g_target g) i cl = Inr cl' \<and> cluster_inv ctx cl' R \<and> same_view cl cl'"
proof -
  let ?env = "env_of (nodes cl (g_target g))"
  have U: "kelpie_Update (ctx (g_target g)) now (Args_message (Msg_status (status_SetSuccess True (get_final ctx g m d))))
      (Op_getunbounded (get_serving ctx g m d)) ?env =
    Inr (Done_and_destroy, Op_getunbounded ((get_serving ctx g m d)\<lparr>kop_state := Getu_done\<rparr>), ?env)"
    by (simp add: getunbounded_Update_def get_serving_def blank_op_def smt_GetUnbounded_WaitAck_def ExpectMessageOrDie_def updateState_def wrap_op_def)
  have "\<exists>cl'. run_work ctx now (g_target g) i cl = Inr cl' \<and> cluster_inv ctx cl' ({#} + R) \<and> same_view cl cl'"
    by (rule run_view [OF inv i _ _ U]) (use inv_stores [OF inv] in simp_all)
  then show ?thesis by simp
qed

section \<open>Objects with too little padding\<close>

text \<open>The read of an object whose padding is smaller than that of its size is not a multiple of four long.\<close>

lemma net_Get_aborts:
  assumes d: "do_wf d" "0 < object_size d" "object_size d + 60 < 2 ^ 32" "0 < do_padding d" "do_padding d \<le> 4"
    and "kop_data op = Some (landing c d)"
  shows "net_Get (GetRdmaPtr me mb d) op env =
    (if do_padding d < fit_padding d then Inl Process_exit
     else Inr (env\<lparr>e_rdma := e_rdma env @ [Rdma_Get (kop_mailbox op) (GetRdmaPtr me mb d)]\<rparr>))"
proof (cases "do_padding d < fit_padding d")
  case True
  note L = landing_facts [OF d(1,3), of c]
  have f: "unat (fit_padding d) = 4 - object_size d mod 4" using fit_padding_nat [of d] d by (simp add: object_size_def)
  have p: "0 < unat (do_padding d)" "unat (do_padding d) < 4 - object_size d mod 4"
    using d(4) True f by (simp_all add: word_less_nat_alt)
  have s: "unat (memory_size d) = 8 + object_size d + unat (do_padding d)" by (rule memory_size_nat [OF d(1,3,5)])
  have "fit_padding d \<le> 4" using fit_padding_bounds(2) [of d] by (simp add: word_le_nat_alt)
  then have "unat (memory_size (landing c d)) = 8 + object_size d + unat (fit_padding d)"
    using memory_size_nat [OF L(2)] d(3) L(3,4) by simp
  moreover have "unat (do_padding d) < unat (fit_padding d)" using True by (simp add: word_less_nat_alt)
  ultimately have m: "min (memory_size (landing c d)) (memory_size d) = memory_size d"
    using s by (simp add: min_def word_le_nat_alt)
  have "unat (memory_size d mod 4) = (8 + object_size d + unat (do_padding d)) mod 4" using s by (simp add: unat_mod_distrib)
  also have "\<dots> \<noteq> 0" using p by presburger
  finally have "memory_size d mod 4 \<noteq> 0" by (metis unsigned_0)
  moreover have "memory_size d \<noteq> 0" using s by auto
  ultimately show ?thesis using True assms(6) m by (simp add: net_Get_def GetRdmaPtr_def)
next
  case False
  then have "transferable d" using d by (simp add: transferable_def)
  then show ?thesis using net_Get_landing assms(6) False by simp
qed

lemma SetLDO_keeps [simp]:
  "buffer_ExtractKey (SetLDO me mb x m) = buffer_ExtractKey m" "mb_hdr (SetLDO me mb x m) = mb_hdr m" "mb_bucket (SetLDO me mb x m) = mb_bucket m"
  "mb_behavior_flags (SetLDO me mb x m) = mb_behavior_flags m" "mb_iom_hash (SetLDO me mb x m) = mb_iom_hash m"
  by (simp_all add: SetLDO_def Let_def buffer_ExtractKey_def)

lemma publish_not_refused:
  assumes "stores_ok t" "has_flag f EnableOverwrites \<or> stored b k t = None"
  obtains rc info t' where "(if \<not> has_flag f EnableOverwrites then getInfo now b k True t else ((KELPIE_ENOENT, Wipe_info), t)) = ((rc, info), t')"
    "\<not> (rc = KELPIE_OK \<and> col_availability info = InLocalMemory)"
proof (cases "has_flag f EnableOverwrites")
  case True
  then show ?thesis using that [of KELPIE_ENOENT Wipe_info t] by (simp add: KELPIE_OK_def KELPIE_ENOENT_def)
next
  case False
  obtain rc info t' where g: "getInfo now b k True t = ((rc, info), t')" by (metis prod.exhaust)
  then show ?thesis using that [of rc info t'] False assms(2) getInfo_store(4) [OF assms(1) g] by auto
qed

end
