(* ===== verification/Cluster_Refinement.thy ===== *)
theory Cluster_Refinement
  imports Cluster_Steps
begin

text \<open>
  What a cluster of nodes promises its clients.  The specification is a store in which a publish
  and a get take effect at one instant between the call and the result; the theorems show that the
  ops refine it under every schedule, that they come to an end, and what has been answered once
  nothing is left to do.
\<close>

section \<open>The specification\<close>

datatype outcome = Published callback_t rc_t | Got callback_t bool key ldo | Dropped callback_t bool key | Listed callback_t ObjectCapacities | Computed callback_t rc_t key ldo

datatype label = Invoke event | Return nodeid_t outcome

record astate =
  a_store :: "nodeid_t \<Rightarrow> bucket_t \<Rightarrow> key \<Rightarrow> ldo option"
  a_pending :: "event multiset"
  a_done :: "(nodeid_t \<times> outcome) multiset"

definition store_object ::
  "nodeid_t \<Rightarrow> bucket_t \<Rightarrow> key \<Rightarrow> dataobject \<Rightarrow> (nodeid_t \<Rightarrow> bucket_t \<Rightarrow> key \<Rightarrow> ldo option) \<Rightarrow> nodeid_t \<Rightarrow> bucket_t \<Rightarrow> key \<Rightarrow> ldo option" where
  "store_object t b k d s = s(t := \<lambda>b' k'. if same_slot b' k' b k then Some (Some d) else s t b' k')"

definition refuses :: "nodeid_t \<Rightarrow> bucket_t \<Rightarrow> key \<Rightarrow> pool_behavior_t \<Rightarrow> (nodeid_t \<Rightarrow> bucket_t \<Rightarrow> key \<Rightarrow> ldo option) \<Rightarrow> bool" where
  "refuses t b k f s = (s t b k \<noteq> None \<and> \<not> has_flag (ChangeRemoteToLocal f) EnableOverwrites)"

text \<open>
  A call is made, takes effect once, and its result is handed to the caller.  A get takes effect
  only while its object is stored.  Type, meta and data are handed over unchanged; every transfer lands in an
  allocation of the object's size, with the padding of that size.
\<close>
inductive atomic_step :: "astate \<Rightarrow> label list \<Rightarrow> astate \<Rightarrow> bool" where
  invoke: "atomic_step a [Invoke e] (a\<lparr>a_pending := add_mset e (a_pending a)\<rparr>)"
| publish: "a_pending a = add_mset (Launch_publish n t b k d f cb) P \<Longrightarrow> \<not> refuses t b k f (a_store a) \<Longrightarrow>
    atomic_step a [] (a\<lparr>a_store := store_object t b k (fresh_copy d) (a_store a), a_pending := P,
      a_done := add_mset (n, Published cb KELPIE_OK) (a_done a)\<rparr>)"
| refuse: "a_pending a = add_mset (Launch_publish n t b k d f cb) P \<Longrightarrow> refuses t b k f (a_store a) \<Longrightarrow>
    atomic_step a [] (a\<lparr>a_pending := P, a_done := add_mset (n, Published cb KELPIE_EEXIST) (a_done a)\<rparr>)"
| get: "a_pending a = add_mset (Launch_get n t b k f cb) P \<Longrightarrow> a_store a t b k = Some x \<Longrightarrow>
    atomic_step a [] (a\<lparr>a_pending := P, a_done := add_mset (n, Got cb True k (map_option fresh_copy x)) (a_done a)\<rparr>)"
| return: "a_done a = add_mset (n, r) D \<Longrightarrow> atomic_step a [Return n r] (a\<lparr>a_done := D\<rparr>)"

inductive atomic_run :: "astate \<Rightarrow> label list \<Rightarrow> astate \<Rightarrow> bool" where
  stop: "atomic_run a [] a"
| more: "atomic_step a l a' \<Longrightarrow> atomic_run a' h a'' \<Longrightarrow> atomic_run a (l @ h) a''"

lemma atomic_run_trans: "atomic_run a h a' \<Longrightarrow> atomic_run a' h' a'' \<Longrightarrow> atomic_run a (h @ h') a''"
  by (induction rule: atomic_run.induct) (auto simp: intro: atomic_run.more)

lemma atomic_run_one: "atomic_step a l a' \<Longrightarrow> atomic_run a l a'"
  using atomic_run.more [OF _ atomic_run.stop] by fastforce

section \<open>Schedules\<close>

fun outcome_of :: "user_call \<Rightarrow> outcome" where
  "outcome_of (Publish_result cb rc _) = Published cb rc"
| "outcome_of (Get_result cb ok k x) = Got cb ok k x"
| "outcome_of (Drop_result cb ok k) = Dropped cb ok k"
| "outcome_of (List_result cb oc) = Listed cb oc"
| "outcome_of (Compute_result cb rc k d) = Computed cb rc k d"

text \<open>What clients see of one step: the calls they make and the callbacks that run.\<close>

fun step_labels :: "event \<Rightarrow> 'io cluster \<Rightarrow> 'io cluster \<Rightarrow> label list" where
  "step_labels (Run n _ _) cl cl' = map (Return n \<circ> outcome_of) (drop (length (n_calls (nodes cl n))) (n_calls (nodes cl' n)))"
| "step_labels (Deliver _) cl cl' = []"
| "step_labels (Transfer _) cl cl' = []"
| "step_labels e cl cl' = [Invoke e]"

fun cluster_run :: "(nodeid_t \<Rightarrow> 'io node_ctx) \<Rightarrow> event list \<Rightarrow> 'io cluster \<Rightarrow> (label list \<times> 'io cluster) result" where
  "cluster_run ctx [] cl = Inr ([], cl)"
| "cluster_run ctx (e # es) cl =
     (if enabled e cl
      then rbind (cluster_step ctx e cl) (\<lambda>cl1. rbind (cluster_run ctx es cl1) (\<lambda>(h, cl2). Inr (step_labels e cl cl1 @ h, cl2)))
      else cluster_run ctx es cl)"

fun is_launch :: "event \<Rightarrow> bool" where
  "is_launch (Launch_publish _ _ _ _ _ _ _) = True"
| "is_launch (Launch_get _ _ _ _ _ _) = True"
| "is_launch _ = False"

text \<open>
  Calls the ops are meant for: keys below 64 KiB a part, and publishes, into the memory of the target, of objects
  that have bytes, whose size with the headers fits 32 bits, and whose stored padding is at least the padding of
  their size, as it is when they have not been resized since their allocation.
\<close>
fun event_ok :: "event \<Rightarrow> bool" where
  "event_ok (Launch_publish n t b k d f cb) = (short_key k \<and> transferable d \<and> pub_flags_ok f)"
| "event_ok (Launch_get n t b k f cb) = short_key k"
| "event_ok _ = True"

fun gets_at :: "nodeid_t \<Rightarrow> bucket_t \<Rightarrow> key \<Rightarrow> event \<Rightarrow> bool" where
  "gets_at t b k (Launch_get n t' b' k' f cb) = (t' = t \<and> same_slot b k b' k')"
| "gets_at t b k _ = False"

text \<open>A cluster at the beginning: nothing under way, nobody waiting, and in the stores only objects as above.\<close>

definition idle :: "'io cluster \<Rightarrow> bool" where
  "idle cl = (wire cl = [] \<and> dma cl = [] \<and> (\<forall>n. node_ok (nodes cl n) \<and> active_ops (n_core (nodes cl n)) = [] \<and>
     work (n_core (nodes cl n)) = [] \<and> (\<forall>b k. waiting_at b k (n_lkv (nodes cl n)) = [])))"

definition mailboxes_for :: "nat \<Rightarrow> 'io cluster \<Rightarrow> bool" where
  "mailboxes_for k cl = (\<forall>n. unat (next_mailbox (n_core (nodes cl n))) + k < 2 ^ 32)"

definition named :: "(nodeid_t \<Rightarrow> 'io node_ctx) \<Rightarrow> bool" where
  "named ctx = (\<forall>n. my_id (ctx n) = n)"

definition store_of :: "'io cluster \<Rightarrow> nodeid_t \<Rightarrow> bucket_t \<Rightarrow> key \<Rightarrow> ldo option" where
  "store_of cl n b k = stored b k (n_lkv (nodes cl n))"

section \<open>Sessions as calls\<close>

fun request_of :: "session \<Rightarrow> event" where
  "request_of (Pub p _) = Launch_publish (p_origin p) (p_target p) (p_bucket p) (p_key p) (p_obj p) (p_flags p) (p_cb p)"
| "request_of (Get g _) = Launch_get (g_origin g) (g_target g) (g_bucket g) (g_key g) (g_flags g) (g_cb g)"

fun decided :: "session \<Rightarrow> (nodeid_t \<times> outcome) option" where
  "decided (Pub p (P_ack st)) = Some (p_origin p, Published (p_cb p) (remote_rc st))"
| "decided (Pub p (P_reply st)) = Some (p_origin p, Published (p_cb p) (remote_rc st))"
| "decided (Get g (G_woken m d i)) = Some (g_origin g, Got (g_cb g) True (g_key g) (Some (fresh_copy d)))"
| "decided (Get g (G_info m d)) = Some (g_origin g, Got (g_cb g) True (g_key g) (Some (fresh_copy d)))"
| "decided (Get g (G_informed m d)) = Some (g_origin g, Got (g_cb g) True (g_key g) (Some (fresh_copy d)))"
| "decided (Get g (G_transfer m d)) = Some (g_origin g, Got (g_cb g) True (g_key g) (Some (fresh_copy d)))"
| "decided (Get g (G_received m d)) = Some (g_origin g, Got (g_cb g) True (g_key g) (Some (fresh_copy d)))"
| "decided _ = None"

fun answered :: "session \<Rightarrow> bool" where
  "answered (Get g (G_ack m d)) = True"
| "answered (Get g (G_released m d)) = True"
| "answered _ = False"

definition pending_of :: "session \<Rightarrow> event multiset" where
  "pending_of s = (if decided s = None \<and> \<not> answered s then {#request_of s#} else {#})"

definition done_of :: "session \<Rightarrow> (nodeid_t \<times> outcome) multiset" where
  "done_of s = (case decided s of Some x \<Rightarrow> {#x#} | None \<Rightarrow> {#})"

definition abstract :: "'io cluster \<Rightarrow> session multiset \<Rightarrow> astate" where
  "abstract cl S = \<lparr>a_store = store_of cl, a_pending = (\<Sum>s\<in>#S. pending_of s), a_done = (\<Sum>s\<in>#S. done_of s)\<rparr>"

fun rank :: "session \<Rightarrow> nat" where
  "rank (Pub p ph) = (case ph of P_send \<Rightarrow> 7 | P_request \<Rightarrow> 6 | P_arrived _ \<Rightarrow> 5 | P_transfer _ \<Rightarrow> 4 | P_received _ \<Rightarrow> 3
     | P_ack _ \<Rightarrow> 2 | P_reply _ \<Rightarrow> 1)"
| "rank (Get g ph) = (case ph of G_send \<Rightarrow> 10 | G_request \<Rightarrow> 9 | G_arrived _ \<Rightarrow> 8 | G_waiting _ \<Rightarrow> 7 | G_woken _ _ _ \<Rightarrow> 7
     | G_info _ _ \<Rightarrow> 6 | G_informed _ _ \<Rightarrow> 5 | G_transfer _ _ \<Rightarrow> 4 | G_received _ _ \<Rightarrow> 3 | G_ack _ _ \<Rightarrow> 2 | G_released _ _ \<Rightarrow> 1)"

lemma abstract_add:
  "abstract cl (add_mset s R) = \<lparr>a_store = store_of cl, a_pending = pending_of s + (\<Sum>s\<in>#R. pending_of s),
     a_done = done_of s + (\<Sum>s\<in>#R. done_of s)\<rparr>"
  by (simp add: abstract_def)

lemma same_view_store: "same_view cl cl' \<Longrightarrow> store_of cl' = store_of cl"
  by (intro ext) (simp add: same_view_def store_of_def)

lemma same_view_labels: "same_view cl cl' \<Longrightarrow> \<not> is_launch e \<Longrightarrow> step_labels e cl cl' = []"
  by (cases e) (simp_all add: same_view_def)

section \<open>Every step refines the specification\<close>

definition sim_step :: "(nodeid_t \<Rightarrow> 'io node_ctx) \<Rightarrow> 'io cluster \<Rightarrow> session multiset \<Rightarrow> event \<Rightarrow> 'io cluster \<Rightarrow> session multiset \<Rightarrow> bool" where
  "sim_step ctx cl S e cl' S' =
     (cluster_inv ctx cl' S' \<and> atomic_run (abstract cl S) (step_labels e cl cl') (abstract cl' S') \<and>
      (if is_launch e then \<exists>s. S' = add_mset s S \<and> request_of s = e \<and> rank s = (case e of Launch_get _ _ _ _ _ _ \<Rightarrow> 10 | _ \<Rightarrow> 7)
       else (\<Sum>s\<in>#S'. rank s) < (\<Sum>s\<in>#S. rank s) \<and> image_mset request_of S' \<subseteq># image_mset request_of S))"

lemma sim_stutter:
  assumes "cluster_inv ctx cl' (add_mset s' R)" "same_view cl cl'" "\<not> is_launch e"
    and "request_of s' = request_of s" "decided s' = decided s" "answered s' = answered s" "rank s' < rank s"
  shows "sim_step ctx cl (add_mset s R) e cl' (add_mset s' R)"
  using assms same_view_store [of cl cl'] same_view_labels [of cl cl' e]
  by (auto simp: sim_step_def abstract_add pending_of_def done_of_def intro: atomic_run.stop)

lemma sim_refuse:
  assumes "cluster_inv ctx cl' (add_mset (Pub p (P_ack (pub_refused ctx p))) R)" "same_view cl cl'" "\<not> is_launch e"
    and r: "\<not> has_flag (ChangeRemoteToLocal (p_flags p)) EnableOverwrites" "stored (p_bucket p) (p_key p) (n_lkv (nodes cl (p_target p))) \<noteq> None"
  shows "sim_step ctx cl (add_mset (Pub p (P_arrived m)) R) e cl' (add_mset (Pub p (P_ack (pub_refused ctx p))) R)"
proof -
  let ?S = "add_mset (Pub p (P_arrived m)) R" and ?P = "\<Sum>s\<in>#R. pending_of s" and ?D = "\<Sum>s\<in>#R. done_of s"
  have "atomic_step (abstract cl ?S) [] ((abstract cl ?S)\<lparr>a_pending := ?P,
      a_done := add_mset (p_origin p, Published (p_cb p) KELPIE_EEXIST) (a_done (abstract cl ?S))\<rparr>)"
    by (rule atomic_step.refuse [where t = "p_target p" and b = "p_bucket p" and k = "p_key p" and d = "p_obj p" and f = "p_flags p"])
      (use r in \<open>simp_all add: abstract_add pending_of_def refuses_def store_of_def\<close>)
  then show ?thesis
    using assms(1-3) same_view_store [OF assms(2)] same_view_labels [OF assms(2,3)] atomic_run_one
    by (auto simp: sim_step_def abstract_add pending_of_def done_of_def pub_refused_def)
qed

lemma sim_get:
  assumes "cluster_inv ctx cl' (add_mset (Get g (G_info m d)) R)" "same_view cl cl'" "\<not> is_launch e"
    and "stored (g_bucket g) (g_key g) (n_lkv (nodes cl (g_target g))) = Some (Some d)"
  shows "sim_step ctx cl (add_mset (Get g (G_arrived m)) R) e cl' (add_mset (Get g (G_info m d)) R)"
proof -
  let ?S = "add_mset (Get g (G_arrived m)) R" and ?P = "\<Sum>s\<in>#R. pending_of s" and ?D = "\<Sum>s\<in>#R. done_of s"
  have "atomic_step (abstract cl ?S) [] ((abstract cl ?S)\<lparr>a_pending := ?P,
      a_done := add_mset (g_origin g, Got (g_cb g) True (g_key g) (Some (fresh_copy d))) (a_done (abstract cl ?S))\<rparr>)"
    by (rule atomic_step.get [where t = "g_target g" and b = "g_bucket g" and f = "g_flags g" and x = "Some d", unfolded option.map(2)])
      (use assms(4) in \<open>simp_all add: abstract_add pending_of_def store_of_def\<close>)
  then show ?thesis
    using assms(1-3) same_view_store [OF assms(2)] same_view_labels [OF assms(2,3)] atomic_run_one
    by (auto simp: sim_step_def abstract_add pending_of_def done_of_def)
qed

text \<open>A callback has run: the result leaves the specification.\<close>

lemma sim_return:
  assumes inv: "cluster_inv ctx cl' (M + R)" and d: "decided s = Some (n, outcome_of c)"
    and st: "\<forall>n b k. stored b k (n_lkv (nodes cl' n)) = stored b k (n_lkv (nodes cl n))"
      "\<forall>n'. n_calls (nodes cl' n') = n_calls (nodes cl n') @ (if n' = n then [c] else [])"
    and M: "M = {#} \<or> M = {#s'#} \<and> answered s' \<and> decided s' = None \<and> request_of s' = request_of s \<and> rank s' < rank s"
    and rk: "0 < rank s" and na: "\<not> answered s"
  shows "sim_step ctx cl (add_mset s R) (Run n i now) cl' (M + R)"
proof -
  let ?S = "add_mset s R" and ?D = "\<Sum>s\<in>#R. done_of s"
  have "atomic_step (abstract cl ?S) [Return n (outcome_of c)] ((abstract cl ?S)\<lparr>a_done := ?D\<rparr>)"
    by (rule atomic_step.return) (use d in \<open>simp add: abstract_add done_of_def\<close>)
  moreover have "store_of cl' = store_of cl" by (intro ext) (simp add: st(1) store_of_def)
  ultimately show ?thesis
    using inv d st(2) M rk atomic_run_one by (auto simp: sim_step_def abstract_add abstract_def pending_of_def done_of_def)
qed

lemma stored_same_slot: "same_slot b k b' k' \<Longrightarrow> stored b k t = stored b' k' t"
  by (simp add: stored_def cell_at_same_slot)

text \<open>The publish takes effect when the object has arrived in the target's memory.\<close>

lemma publish_effect:
  assumes out: "publish_outcome p (n_lkv (nodes cl (p_target p))) t st obj"
    and lkv: "\<And>n. n_lkv (nodes cl' n) = (if n = p_target p then t else n_lkv (nodes cl n))"
  shows "atomic_step (abstract cl (add_mset (Pub p (P_received m)) R)) [] (abstract cl' (add_mset (Pub p (P_ack st)) R))"
    and "store_of cl' (p_target p) (p_bucket p) (p_key p) = Some (Some obj)"
proof -
  let ?a = "abstract cl (add_mset (Pub p (P_received m)) R)" and ?P = "\<Sum>s\<in>#R. pending_of s"
  let ?b = "p_bucket p" and ?k = "p_key p" and ?t = "p_target p"
  note out = out [unfolded publish_outcome_def Let_def]
  have new: "stored b' k' t = (if same_slot b' k' ?b ?k then Some (Some obj) else stored b' k' (n_lkv (nodes cl ?t)))" for b' k'
    using out by simp
  show "store_of cl' ?t ?b ?k = Some (Some obj)" using lkv new by (simp add: store_of_def same_slot_def)
  have pend: "a_pending ?a = add_mset (Launch_publish (p_origin p) ?t ?b ?k (p_obj p) (p_flags p) (p_cb p)) ?P"
    by (simp add: abstract_add pending_of_def)
  show "atomic_step ?a [] (abstract cl' (add_mset (Pub p (P_ack st)) R))"
  proof (cases "refuses ?t ?b ?k (p_flags p) (a_store ?a)")
    case True
    then have ex: "stored ?b ?k (n_lkv (nodes cl ?t)) = Some (Some obj)" "remote_rc st = KELPIE_EEXIST"
      using out by (auto simp: refuses_def abstract_add store_of_def)
    have "store_of cl' = store_of cl"
      using new lkv ex(1) stored_same_slot by (intro ext) (auto simp: store_of_def)
    then show ?thesis
      using atomic_step.refuse [OF pend True] ex(2) by (simp add: abstract_add pending_of_def done_of_def)
  next
    case False
    then have ex: "obj = fresh_copy (p_obj p)" "remote_rc st = KELPIE_OK"
      using out by (auto simp: refuses_def abstract_add store_of_def split: option.splits)
    have "store_of cl' = store_object ?t ?b ?k (fresh_copy (p_obj p)) (store_of cl)"
      using new lkv ex(1) by (intro ext) (auto simp: store_of_def store_object_def)
    then show ?thesis
      using atomic_step.publish [OF pend False] ex(2) by (simp add: abstract_add pending_of_def done_of_def)
  qed
qed

lemma sim_publish:
  assumes inv: "cluster_inv ctx cl' (add_mset (Pub p (P_ack st)) R)"
    and out: "publish_outcome p (n_lkv (nodes cl (p_target p))) t st obj"
    and lkv: "\<And>n. n_lkv (nodes cl' n) = (if n = p_target p then t else n_lkv (nodes cl n))"
    and calls: "\<And>n. n_calls (nodes cl' n) = n_calls (nodes cl n)"
  shows "sim_step ctx cl (add_mset (Pub p (P_received m)) R) (Run n i now) cl' (add_mset (Pub p (P_ack st)) R)"
  using inv calls atomic_run_one [OF publish_effect(1) [OF out lkv]] by (simp add: sim_step_def)

lemma sim_publish_wakes:
  assumes inv: "cluster_inv ctx cl' (add_mset (Pub p (P_ack st)) (add_mset (Get g (G_woken w obj j)) R))"
    and out: "publish_outcome p (n_lkv (nodes cl (p_target p))) t st obj"
    and g: "g_target g = p_target p" "same_slot (p_bucket p) (p_key p) (g_bucket g) (g_key g)"
    and lkv: "\<And>n. n_lkv (nodes cl' n) = (if n = p_target p then t else n_lkv (nodes cl n))"
    and calls: "\<And>n. n_calls (nodes cl' n) = n_calls (nodes cl n)"
  shows "sim_step ctx cl (add_mset (Pub p (P_received m)) (add_mset (Get g (G_waiting w)) R)) (Run n i now) cl'
    (add_mset (Pub p (P_ack st)) (add_mset (Get g (G_woken w obj j)) R))"
proof -
  let ?S = "add_mset (Pub p (P_ack st)) (add_mset (Get g (G_waiting w)) R)"
  let ?a = "abstract cl' ?S"
  have "store_of cl' (g_target g) (g_bucket g) (g_key g) = Some (Some obj)"
    using publish_effect(2) [OF out lkv] g stored_same_slot [OF g(2)] by (simp add: store_of_def)
  then have "atomic_step ?a [] (?a\<lparr>a_pending := (\<Sum>s\<in>#add_mset (Pub p (P_ack st)) R. pending_of s),
      a_done := add_mset (g_origin g, Got (g_cb g) True (g_key g) (Some (fresh_copy obj))) (a_done ?a)\<rparr>)"
    by (intro atomic_step.get [where t = "g_target g" and b = "g_bucket g" and f = "g_flags g" and x = "Some obj", unfolded option.map(2)])
      (simp_all add: abstract_def pending_of_def)
  then have "atomic_step ?a [] (abstract cl' (add_mset (Pub p (P_ack st)) (add_mset (Get g (G_woken w obj j)) R)))"
    by (simp add: abstract_def pending_of_def done_of_def add_mset_commute)
  then have "atomic_run (abstract cl (add_mset (Pub p (P_received m)) (add_mset (Get g (G_waiting w)) R))) []
      (abstract cl' (add_mset (Pub p (P_ack st)) (add_mset (Get g (G_woken w obj j)) R)))"
    using atomic_run_trans [OF atomic_run_one [OF publish_effect(1) [OF out lkv]] atomic_run_one] by fastforce
  then show ?thesis using inv calls by (simp add: sim_step_def)
qed

text \<open>A store that wakes two ops is the one step that fails.\<close>

definition two_waiting :: "'io cluster \<Rightarrow> bool" where
  "two_waiting cl = (\<exists>n b k. length (waiting_at b k (n_lkv (nodes cl n))) > 1)"

definition advances :: "(nodeid_t \<Rightarrow> 'io node_ctx) \<Rightarrow> event \<Rightarrow> 'io cluster \<Rightarrow> session multiset \<Rightarrow> bool" where
  "advances ctx e cl S = (case cluster_step ctx e cl of Inl f \<Rightarrow> f = Halted \<and> two_waiting cl
     | Inr cl' \<Rightarrow> \<exists>S'. sim_step ctx cl S e cl' S')"

lemma received_advances:
  assumes inv: "cluster_inv ctx cl (add_mset (Pub p (P_received m)) R)" and ids: "my_id (ctx (p_origin p)) = p_origin p"
    and i: "i < length (work (n_core (nodes cl (p_target p))))" "work (n_core (nodes cl (p_target p))) ! i = (m, Args_update Get_success)"
  shows "advances ctx (Run (p_target p) i now) cl (add_mset (Pub p (P_received m)) R)"
proof (cases rule: step_P_received [where now = now, OF inv ids i])
  case 1
  then show ?thesis by (auto simp: advances_def two_waiting_def)
next
  case (2 cl' t st obj)
  then show ?thesis using sim_publish [OF 2(2,3,4,5), of m] by (auto simp: advances_def intro!: exI)
next
  case (3 cl' t st obj g w j R')
  then show ?thesis using sim_publish_wakes [OF 3(3-8), of m] by (auto simp: advances_def intro!: exI)
qed

lemma advances_stutter:
  assumes "\<exists>cl'. cluster_step ctx e cl = Inr cl' \<and> cluster_inv ctx cl' (add_mset s' R) \<and> same_view cl cl'" "\<not> is_launch e"
    and "request_of s' = request_of s" "decided s' = decided s" "answered s' = answered s" "rank s' < rank s"
  shows "advances ctx e cl (add_mset s R)"
  using assms sim_stutter by (fastforce simp: advances_def)

lemma arrived_advances:
  assumes inv: "cluster_inv ctx cl (add_mset (Pub p (P_arrived m)) R)" and ids: "my_id (ctx (p_origin p)) = p_origin p"
    and i: "i < length (work (n_core (nodes cl (p_target p))))"
      "work (n_core (nodes cl (p_target p))) ! i = (m, Args_message (Msg_buffer (pub_request ctx p)))"
  shows "advances ctx (Run (p_target p) i now) cl (add_mset (Pub p (P_arrived m)) R)"
proof -
  obtain cl' ph where c: "run_work ctx now (p_target p) i cl = Inr cl'" "cluster_inv ctx cl' (add_mset (Pub p ph) R)" "same_view cl cl'"
    "ph = P_transfer m \<or> ph = P_ack (pub_refused ctx p) \<and> \<not> has_flag (ChangeRemoteToLocal (p_flags p)) EnableOverwrites \<and>
       stored (p_bucket p) (p_key p) (n_lkv (nodes cl (p_target p))) \<noteq> None"
    using step_P_arrived [OF inv ids i, of now] by blast
  then have "sim_step ctx cl (add_mset (Pub p (P_arrived m)) R) (Run (p_target p) i now) cl' (add_mset (Pub p ph) R)"
    using sim_refuse [of ctx cl' p R cl "Run (p_target p) i now" m]
      sim_stutter [of ctx cl' "Pub p (P_transfer m)" R cl "Run (p_target p) i now" "Pub p (P_arrived m)"] by auto
  then show ?thesis using c(1) by (auto simp: advances_def)
qed

lemma get_arrived_advances:
  assumes inv: "cluster_inv ctx cl (add_mset (Get g (G_arrived m)) R)" and ids: "my_id (ctx (g_origin g)) = g_origin g"
    and i: "i < length (work (n_core (nodes cl (g_target g))))"
      "work (n_core (nodes cl (g_target g))) ! i = (m, Args_message (Msg_simple (get_request ctx g)))"
  shows "advances ctx (Run (g_target g) i now) cl (add_mset (Get g (G_arrived m)) R)"
proof -
  obtain cl' ph where c: "run_work ctx now (g_target g) i cl = Inr cl'" "cluster_inv ctx cl' (add_mset (Get g ph) R)" "same_view cl cl'"
    "case stored (g_bucket g) (g_key g) (n_lkv (nodes cl (g_target g))) of
       Some x \<Rightarrow> (\<exists>d. x = Some d \<and> ph = G_info m d) | None \<Rightarrow> ph = G_waiting m"
    using step_G_arrived [OF inv ids i, of now] by blast
  then have "sim_step ctx cl (add_mset (Get g (G_arrived m)) R) (Run (g_target g) i now) cl' (add_mset (Get g ph) R)"
    using sim_get [of ctx cl' g m _ R cl "Run (g_target g) i now"]
      sim_stutter [of ctx cl' "Get g (G_waiting m)" R cl "Run (g_target g) i now" "Get g (G_arrived m)"] by (auto split: option.splits)
  then show ?thesis using c(1) by (auto simp: advances_def)
qed

lemma reply_advances:
  assumes inv: "cluster_inv ctx cl (add_mset (Pub p (P_reply st)) R)"
    and i: "i < length (work (n_core (nodes cl (p_origin p))))"
      "work (n_core (nodes cl (p_origin p))) ! i = (p_mailbox p, Args_message (Msg_status st))"
  shows "advances ctx (Run (p_origin p) i now) cl (add_mset (Pub p (P_reply st)) R)"
proof -
  let ?c = "Publish_result (p_cb p) (remote_rc st) (ChangeAvailabilityFromLocalToRemote (object_info st))"
  obtain cl' where c: "run_work ctx now (p_origin p) i cl = Inr cl'" "cluster_inv ctx cl' ({#} + R)"
    "\<forall>n b k. stored b k (n_lkv (nodes cl' n)) = stored b k (n_lkv (nodes cl n))"
    "\<forall>n. n_calls (nodes cl' n) = n_calls (nodes cl n) @ (if n = p_origin p then [?c] else [])"
    using step_P_reply [OF inv i, of now] by auto
  then have "sim_step ctx cl (add_mset (Pub p (P_reply st)) R) (Run (p_origin p) i now) cl' ({#} + R)"
    by (intro sim_return [OF c(2) _ c(3,4)]) simp_all
  then show ?thesis using c(1) by (auto simp: advances_def)
qed

lemma get_received_advances:
  assumes inv: "cluster_inv ctx cl (add_mset (Get g (G_received m d)) R)" and ids: "my_id (ctx (g_target g)) = g_target g"
    and i: "i < length (work (n_core (nodes cl (g_origin g))))"
      "work (n_core (nodes cl (g_origin g))) ! i = (g_mailbox g, Args_update Get_success)"
  shows "advances ctx (Run (g_origin g) i now) cl (add_mset (Get g (G_received m d)) R)"
proof -
  obtain cl' where c: "run_work ctx now (g_origin g) i cl = Inr cl'" "cluster_inv ctx cl' ({#Get g (G_ack m d)#} + R)"
    "\<forall>n b k. stored b k (n_lkv (nodes cl' n)) = stored b k (n_lkv (nodes cl n))"
    "\<forall>n. n_calls (nodes cl' n) = n_calls (nodes cl n) @ (if n = g_origin g then [Get_result (g_cb g) True (g_key g) (Some (fresh_copy d))] else [])"
    using step_G_received [OF inv ids i, of now] by auto
  then have "sim_step ctx cl (add_mset (Get g (G_received m d)) R) (Run (g_origin g) i now) cl' ({#Get g (G_ack m d)#} + R)"
    by (intro sim_return [OF c(2) _ c(3,4), where s' = "Get g (G_ack m d)"]) simp_all
  then show ?thesis using c(1) by (auto simp: advances_def)
qed

lemma released_advances:
  assumes inv: "cluster_inv ctx cl (add_mset (Get g (G_released m d)) R)"
    and i: "i < length (work (n_core (nodes cl (g_target g))))"
      "work (n_core (nodes cl (g_target g))) ! i = (m, Args_message (Msg_status (status_SetSuccess True (get_final ctx g m d))))"
  shows "advances ctx (Run (g_target g) i now) cl (add_mset (Get g (G_released m d)) R)"
proof -
  obtain cl' where c: "run_work ctx now (g_target g) i cl = Inr cl'" "cluster_inv ctx cl' R" "same_view cl cl'"
    using step_G_released [OF inv i, of now] by blast
  then have "sim_step ctx cl (add_mset (Get g (G_released m d)) R) (Run (g_target g) i now) cl' R"
    using same_view_store [OF c(3)] same_view_labels [OF c(3), of "Run (g_target g) i now"]
    by (auto simp: sim_step_def abstract_def pending_of_def done_of_def intro: atomic_run.stop)
  then show ?thesis using c(1) by (auto simp: advances_def)
qed

text \<open>The phases no client can tell apart.\<close>

lemma pub_stutters:
  "cluster_inv ctx cl (add_mset (Pub p P_send) R) \<Longrightarrow> i < length (work (n_core (nodes cl (p_origin p)))) \<Longrightarrow>
    work (n_core (nodes cl (p_origin p))) ! i = (p_mailbox p, Args_update Start) \<Longrightarrow>
    advances ctx (Run (p_origin p) i now) cl (add_mset (Pub p P_send) R)"
  "cluster_inv ctx cl (add_mset (Pub p P_request) R) \<Longrightarrow> mailbox_left (n_core (nodes cl (p_target p))) \<Longrightarrow> i < length (wire cl) \<Longrightarrow>
    wire cl ! i = (p_target p, Msg_buffer (pub_request ctx p)) \<Longrightarrow> advances ctx (Deliver i) cl (add_mset (Pub p P_request) R)"
  "cluster_inv ctx cl (add_mset (Pub p (P_ack st)) R) \<Longrightarrow> i < length (wire cl) \<Longrightarrow> wire cl ! i = (p_origin p, Msg_status st) \<Longrightarrow>
    advances ctx (Deliver i) cl (add_mset (Pub p (P_ack st)) R)"
  "cluster_inv ctx cl (add_mset (Pub p (P_transfer m)) R) \<Longrightarrow> my_id (ctx (p_origin p)) = p_origin p \<Longrightarrow> i < length (dma cl) \<Longrightarrow>
    dma cl ! i = (p_target p, Rdma_Get m (GetRdmaPtr (my_id (ctx (p_origin p))) (p_mailbox p) (p_obj p))) \<Longrightarrow>
    advances ctx (Transfer i) cl (add_mset (Pub p (P_transfer m)) R)"
  subgoal using step_P_send [of ctx cl p R i now] by (auto intro!: advances_stutter [where s' = "Pub p P_request"])
  subgoal using step_P_request [of ctx cl p R i]
    by (elim meta_impE) (auto intro!: advances_stutter [where s' = "Pub p (P_arrived _)"])
  subgoal using step_P_ack [of ctx cl p st R i] by (auto intro!: advances_stutter [where s' = "Pub p (P_reply st)"])
  subgoal using step_P_transfer [of ctx cl p m R i] by (auto intro!: advances_stutter [where s' = "Pub p (P_received m)"])
  done

lemma get_stutters:
  "cluster_inv ctx cl (add_mset (Get g G_send) R) \<Longrightarrow> i < length (work (n_core (nodes cl (g_origin g)))) \<Longrightarrow>
    work (n_core (nodes cl (g_origin g))) ! i = (g_mailbox g, Args_update Start) \<Longrightarrow>
    advances ctx (Run (g_origin g) i now) cl (add_mset (Get g G_send) R)"
  "cluster_inv ctx cl (add_mset (Get g G_request) R) \<Longrightarrow> mailbox_left (n_core (nodes cl (g_target g))) \<Longrightarrow> i < length (wire cl) \<Longrightarrow>
    wire cl ! i = (g_target g, Msg_simple (get_request ctx g)) \<Longrightarrow> advances ctx (Deliver i) cl (add_mset (Get g G_request) R)"
  "cluster_inv ctx cl (add_mset (Get g (G_woken m d j)) R) \<Longrightarrow> my_id (ctx (g_origin g)) = g_origin g \<Longrightarrow>
    i < length (work (n_core (nodes cl (g_target g)))) \<Longrightarrow> work (n_core (nodes cl (g_target g))) ! i = (m, Args_trigger (Some d, j)) \<Longrightarrow>
    advances ctx (Run (g_target g) i now) cl (add_mset (Get g (G_woken m d j)) R)"
  "cluster_inv ctx cl (add_mset (Get g (G_info m d)) R) \<Longrightarrow> i < length (wire cl) \<Longrightarrow>
    wire cl ! i = (g_origin g, Msg_buffer (get_reply ctx g m d)) \<Longrightarrow> advances ctx (Deliver i) cl (add_mset (Get g (G_info m d)) R)"
  "cluster_inv ctx cl (add_mset (Get g (G_informed m d)) R) \<Longrightarrow> i < length (work (n_core (nodes cl (g_origin g)))) \<Longrightarrow>
    work (n_core (nodes cl (g_origin g))) ! i = (g_mailbox g, Args_message (Msg_buffer (get_reply ctx g m d))) \<Longrightarrow>
    advances ctx (Run (g_origin g) i now) cl (add_mset (Get g (G_informed m d)) R)"
  "cluster_inv ctx cl (add_mset (Get g (G_transfer m d)) R) \<Longrightarrow> my_id (ctx (g_target g)) = g_target g \<Longrightarrow> i < length (dma cl) \<Longrightarrow>
    dma cl ! i = (g_origin g, Rdma_Get (g_mailbox g) (GetRdmaPtr (my_id (ctx (g_target g))) m d)) \<Longrightarrow>
    advances ctx (Transfer i) cl (add_mset (Get g (G_transfer m d)) R)"
  "cluster_inv ctx cl (add_mset (Get g (G_ack m d)) R) \<Longrightarrow> i < length (wire cl) \<Longrightarrow>
    wire cl ! i = (g_target g, Msg_status (status_SetSuccess True (get_final ctx g m d))) \<Longrightarrow>
    advances ctx (Deliver i) cl (add_mset (Get g (G_ack m d)) R)"
  subgoal using step_G_send [of ctx cl g R i now] by (auto intro!: advances_stutter [where s' = "Get g G_request"])
  subgoal using step_G_request [of ctx cl g R i]
    by (elim meta_impE) (auto intro!: advances_stutter [where s' = "Get g (G_arrived _)"])
  subgoal using step_G_woken [of ctx cl g m d j R i now] by (auto intro!: advances_stutter [where s' = "Get g (G_info m d)"])
  subgoal using step_G_info [of ctx cl g m d R i] by (auto intro!: advances_stutter [where s' = "Get g (G_informed m d)"])
  subgoal using step_G_informed [of ctx cl g m d R i now] by (auto intro!: advances_stutter [where s' = "Get g (G_transfer m d)"])
  subgoal using step_G_transfer [of ctx cl g m d R i] by (auto intro!: advances_stutter [where s' = "Get g (G_received m d)"])
  subgoal using step_G_ack [of ctx cl g m d R i] by (auto intro!: advances_stutter [where s' = "Get g (G_released m d)"])
  done

lemma run_advances:
  assumes inv: "cluster_inv ctx cl S" and ids: "named ctx" and i: "i < length (work (n_core (nodes cl n)))"
  shows "advances ctx (Run n i now) cl S"
proof -
  obtain m a where w: "work (n_core (nodes cl n)) ! i = (m, a)" by force
  obtain s where s: "s \<in># S" "token_of ctx s = T_work n m a" using inv_work_token [OF inv i w] by blast
  obtain R where S: "S = add_mset s R" using s(1) by (meson mset_add)
  have id: "my_id (ctx n) = n" for n using ids by (simp add: named_def)
  note inv = inv [unfolded S]
  show ?thesis
  proof (cases s)
    case (Pub p ph)
    then show ?thesis
      using s(2) inv i w S
      by (cases ph) (auto intro: id arrived_advances received_advances reply_advances pub_stutters(1))
  next
    case (Get g ph)
    then show ?thesis
      using s(2) inv i w S
      by (cases ph) (auto intro: id get_arrived_advances get_received_advances released_advances get_stutters(1,3,5))
  qed
qed

lemma deliver_advances:
  assumes inv: "cluster_inv ctx cl S" and left: "\<And>n. mailbox_left (n_core (nodes cl n))" and i: "i < length (wire cl)"
  shows "advances ctx (Deliver i) cl S"
proof -
  obtain n m where w: "wire cl ! i = (n, m)" by force
  obtain s where s: "s \<in># S" "token_of ctx s = T_wire n m" using inv_wire_token [OF inv i w] by blast
  obtain R where S: "S = add_mset s R" using s(1) by (meson mset_add)
  note inv = inv [unfolded S]
  show ?thesis
  proof (cases s)
    case (Pub p ph)
    then show ?thesis using s(2) inv i w S by (cases ph) (auto intro: left pub_stutters(2,3))
  next
    case (Get g ph)
    then show ?thesis using s(2) inv i w S by (cases ph) (auto intro: left get_stutters(2,4,7))
  qed
qed

lemma transfer_advances:
  assumes inv: "cluster_inv ctx cl S" and ids: "named ctx" and i: "i < length (dma cl)"
  shows "advances ctx (Transfer i) cl S"
proof -
  obtain n r where w: "dma cl ! i = (n, r)" by force
  obtain s where s: "s \<in># S" "token_of ctx s = T_dma n r" using inv_dma_token [OF inv i w] by blast
  obtain R where S: "S = add_mset s R" using s(1) by (meson mset_add)
  have id: "my_id (ctx n) = n" for n using ids by (simp add: named_def)
  note inv = inv [unfolded S]
  show ?thesis
  proof (cases s)
    case (Pub p ph)
    then show ?thesis using s(2) inv i w S by (cases ph) (auto intro: id pub_stutters(4))
  next
    case (Get g ph)
    then show ?thesis using s(2) inv i w S by (cases ph) (auto intro: id get_stutters(6))
  qed
qed

lemma launch_advances:
  assumes inv: "cluster_inv ctx cl S" and left: "\<And>n. mailbox_left (n_core (nodes cl n))" and ok: "event_ok e" and l: "is_launch e"
  shows "advances ctx e cl S"
proof -
  have *: "advances ctx e cl S" if "cluster_step ctx e cl = Inr cl'" "cluster_inv ctx cl' (add_mset s S)" "same_view cl cl'"
    "decided s = None" "\<not> answered s" "request_of s = e" "rank s = (case e of Launch_get _ _ _ _ _ _ \<Rightarrow> 10 | _ \<Rightarrow> 7)" for cl' s
  proof -
    have "atomic_step (abstract cl S) [Invoke e] ((abstract cl S)\<lparr>a_pending := add_mset e (a_pending (abstract cl S))\<rparr>)"
      by (rule atomic_step.invoke)
    moreover have "step_labels e cl cl' = [Invoke e]" using l by (cases e) simp_all
    ultimately have "sim_step ctx cl S e cl' (add_mset s S)"
      using that l same_view_store [OF that(3)] atomic_run_one by (auto simp: sim_step_def abstract_def pending_of_def done_of_def)
    then show ?thesis using that(1) by (auto simp: advances_def)
  qed
  show ?thesis
  proof (cases e)
    case (Launch_publish n t b k d f cb)
    let ?p = "\<lparr>p_origin = n, p_mailbox = next_mailbox (n_core (nodes cl n)), p_target = t, p_bucket = b, p_key = k, p_obj = d, p_flags = f, p_cb = cb\<rparr>"
    have "\<exists>cl'. launch n (\<lambda>m. Op_publish (OpKelpiePublish_origin (ctx n) t b k (Some d) 0 f (Some cb) m)) cl = Inr cl' \<and>
        cluster_inv ctx cl' (add_mset (Pub ?p P_send) S) \<and> same_view cl cl'"
      by (rule launch_session [OF inv left refl]) (use ok Launch_publish in \<open>simp_all add: pub_origin_def\<close>)
    then show ?thesis using Launch_publish * [where s = "Pub ?p P_send"] by auto
  next
    case (Launch_get n t b k f cb)
    let ?g = "\<lparr>g_origin = n, g_mailbox = next_mailbox (n_core (nodes cl n)), g_target = t, g_bucket = b, g_key = k, g_flags = f, g_cb = cb\<rparr>"
    have "\<exists>cl'. launch n (\<lambda>m. Op_getunbounded (OpKelpieGetUnbounded_origin (ctx n) t b k 0 f cb m)) cl = Inr cl' \<and>
        cluster_inv ctx cl' (add_mset (Get ?g G_send) S) \<and> same_view cl cl'"
      by (rule launch_session [OF inv left refl]) (use ok Launch_get in \<open>simp_all add: get_origin_def\<close>)
    then show ?thesis using Launch_get * [where s = "Get ?g G_send"] by auto
  qed (use l in simp_all)
qed

lemma step_advances:
  assumes "cluster_inv ctx cl S" "named ctx" "\<And>n. mailbox_left (n_core (nodes cl n))" "event_ok e" "enabled e cl"
  shows "advances ctx e cl S"
proof (cases "is_launch e")
  case True
  then show ?thesis using launch_advances [OF assms(1,3,4)] by blast
next
  case False
  then show ?thesis using assms(5) run_advances [OF assms(1,2)] deliver_advances [OF assms(1,3)] transfer_advances [OF assms(1,2)]
    by (cases e) simp_all
qed

section \<open>Mailboxes\<close>

lemma doAction_next: "doAction upd m a env c = Inr (x, env', c') \<Longrightarrow> next_mailbox c' = next_mailbox c"
  by (auto simp: doAction_def endActiveOp_def rbind_def Let_def split: option.splits sum.splits prod.splits WaitingType.splits if_splits)

lemma apply_effects_next: "apply_effects es nd = Inr nd' \<Longrightarrow> next_mailbox (n_core nd') = next_mailbox (n_core nd)"
  by (induction es nd rule: apply_effects.induct)
    (auto simp: core_TriggerOp_def rbind_def split: option.splits sum.splits if_splits)

lemma set_held_next: "next_mailbox (n_core (nodes (set_held n m d cl) n')) = next_mailbox (n_core (nodes cl n'))"
  by (simp add: set_held_def Let_def split: option.splits)

lemma notify_next: "notify n m t cl = Inr cl' \<Longrightarrow> next_mailbox (n_core (nodes cl' n')) = next_mailbox (n_core (nodes cl n'))"
  by (auto simp: notify_def UpdateOp_def rbind_def Let_def split: option.splits)

lemma run_work_next:
  "run_work ctx now n i cl = Inr cl' \<Longrightarrow> next_mailbox (n_core (nodes cl' n')) = next_mailbox (n_core (nodes cl n'))"
  by (auto simp: run_work_def rbind_def Let_def split: sum.splits prod.splits dest!: doAction_next apply_effects_next)

lemma transfer_next: "transfer i cl = Inr cl' \<Longrightarrow> next_mailbox (n_core (nodes cl' n')) = next_mailbox (n_core (nodes cl n'))"
  by (auto simp: transfer_def rbind_def Let_def set_held_next split: sum.splits prod.splits rdma_req.splits if_splits dest!: notify_next [where n' = n'])

lemma step_next:
  assumes "cluster_step ctx e cl = Inr cl'"
  shows "next_mailbox (n_core (nodes cl' n)) = next_mailbox (n_core (nodes cl n)) \<or>
    next_mailbox (n_core (nodes cl' n)) = next_mailbox (n_core (nodes cl n)) + 1"
proof (cases e)
  case (Run m i now)
  then show ?thesis using assms run_work_next by auto
next
  case (Transfer i)
  then show ?thesis using assms transfer_next by auto
qed (use assms in \<open>auto simp: deliver_def launch_def LaunchOp_def HandleIncomingMessage_def addActiveOp_def GetAssignedMailbox_def
  GetNextMailbox_def MAILBOX_UNSPECIFIED_def rbind_def Let_def split: sum.splits prod.splits option.splits if_splits\<close>)

lemma step_mailboxes:
  assumes "cluster_step ctx e cl = Inr cl'" "mailboxes_for (Suc k) cl"
  shows "mailboxes_for k cl'"
  unfolding mailboxes_for_def
proof
  fix n
  let ?x = "next_mailbox (n_core (nodes cl n))"
  have "unat ?x + Suc k < 2 ^ 32" using assms(2) by (simp add: mailboxes_for_def)
  then show "unat (next_mailbox (n_core (nodes cl' n))) + k < 2 ^ 32"
    using step_next [OF assms(1), of n] by (auto simp: unat_word_ariths)
qed

lemma mailboxes_left:
  assumes "mailboxes_for (Suc k) cl"
  shows "mailbox_left (n_core (nodes cl n))"
proof -
  let ?x = "next_mailbox (n_core (nodes cl n))"
  have "unat ?x + Suc k < 2 ^ 32" using assms by (simp add: mailboxes_for_def)
  then have "unat (?x + 1) = unat ?x + 1" by (simp add: unat_word_ariths)
  then have "unat (?x + 1) \<noteq> unat (0 :: u32)" by simp
  then show ?thesis unfolding mailbox_left_def by metis
qed

section \<open>Two ops that wait for one object\<close>

lemma waiting_distinct: "stores_ok t \<Longrightarrow> distinct (waiting_at b k t)"
  using lkv_inv_row getCol_wf
  by (fastforce simp: stores_ok_def waiting_at_def cell_at_def cell_wf_def bind_eq_Some_conv split: option.splits)

lemma two_waiting_sessions:
  assumes inv: "cluster_inv ctx cl S" and "two_waiting cl"
  obtains t b k where "size (filter_mset (gets_at t b k) (image_mset request_of S)) \<ge> 2"
proof -
  obtain n b k v w ws where vw: "waiting_at b k (n_lkv (nodes cl n)) = v # w # ws"
    using assms(2) by (auto simp: two_waiting_def) (metis One_nat_def Suc_less_eq length_Cons list.exhaust list.size(3) not_less_zero)
  have "v \<noteq> w" using waiting_distinct [OF inv_stores [OF inv], of b k n] vw by auto
  have U: "set (v # w # ws) = (\<Union>s\<in>set_mset S. waits_for n b k (token_of ctx s))"
    using inv vw [symmetric] by (simp add: cluster_inv_def)
  obtain x where x: "x \<in># S" "v \<in> waits_for n b k (token_of ctx x)" using U by auto
  obtain y where y: "y \<in># S" "w \<in> waits_for n b k (token_of ctx y)" using U by auto
  obtain g where g: "x = Get g (G_waiting v)" "g_target g = n" "same_slot b k (g_bucket g) (g_key g)" using waits_get [OF x(2)] by metis
  obtain h where h: "y = Get h (G_waiting w)" "g_target h = n" "same_slot b k (g_bucket h) (g_key h)" using waits_get [OF y(2)] by metis
  obtain R where R: "S = add_mset x R" using x(1) by (meson mset_add)
  then have "y \<in># R" using y(1) g(1) h(1) \<open>v \<noteq> w\<close> by auto
  then obtain R' where "S = add_mset x (add_mset y R')" using R by (metis mset_add)
  then have "size (filter_mset (gets_at n b k) (image_mset request_of S)) \<ge> 2" using g h by simp
  then show ?thesis by (rule that)
qed

section \<open>Whole schedules\<close>

definition quiescent :: "'io cluster \<Rightarrow> bool" where
  "quiescent cl = (wire cl = [] \<and> dma cl = [] \<and> (\<forall>n. work (n_core (nodes cl n)) = []))"

fun launch_cost :: "event \<Rightarrow> nat" where
  "launch_cost (Launch_publish _ _ _ _ _ _ _) = 7"
| "launch_cost (Launch_get _ _ _ _ _ _) = 10"
| "launch_cost _ = 0"

text \<open>How many events of a schedule the cluster carries out, launches apart.\<close>

fun steps_taken :: "(nodeid_t \<Rightarrow> 'io node_ctx) \<Rightarrow> event list \<Rightarrow> 'io cluster \<Rightarrow> nat" where
  "steps_taken ctx [] cl = 0"
| "steps_taken ctx (e # es) cl =
     (if enabled e cl
      then (case cluster_step ctx e cl of Inl _ \<Rightarrow> 0 | Inr cl1 \<Rightarrow> (if is_launch e then 0 else 1) + steps_taken ctx es cl1)
      else steps_taken ctx es cl)"

definition single_gets :: "event list \<Rightarrow> bool" where
  "single_gets es = (\<forall>t b k. length (filter (gets_at t b k) es) \<le> 1)"

lemma idle_inv: "idle cl \<Longrightarrow> cluster_inv ctx cl {#}"
  by (simp add: idle_def cluster_inv_def)

lemma launch_enabled: "is_launch e \<Longrightarrow> enabled e cl"
  by (cases e) simp_all

lemma subset_add_mset: "A \<subseteq># B \<Longrightarrow> A \<subseteq># add_mset x B"
  by (metis mset_subset_eq_add_mset_cancel mset_subset_eq_insertD subset_mset.dual_order.trans subset_mset.less_imp_le subset_mset.order_refl)

lemma sim_requests:
  assumes "sim_step ctx cl S e cl' S'" "image_mset request_of S \<subseteq># mset past"
  shows "image_mset request_of S' \<subseteq># mset (past @ [e])"
proof (cases "is_launch e")
  case True
  then show ?thesis using assms by (auto simp: sim_step_def)
next
  case False
  then have "image_mset request_of S' \<subseteq># mset past" using assms by (auto simp: sim_step_def intro: subset_mset.order_trans)
  then show ?thesis by (simp add: subset_add_mset)
qed

lemma sim_rank:
  assumes "sim_step ctx cl S e cl' S'"
  shows "(if is_launch e then 0 else 1) + (\<Sum>s\<in>#S'. rank s) \<le> launch_cost e + (\<Sum>s\<in>#S. rank s)"
  using assms by (cases e) (auto simp: sim_step_def)

lemma two_waiting_events:
  assumes inv: "cluster_inv ctx cl S" and two: "two_waiting cl" and sub: "image_mset request_of S \<subseteq># mset es"
  shows "\<not> single_gets es"
proof -
  obtain t b k where "size (filter_mset (gets_at t b k) (image_mset request_of S)) \<ge> 2" by (rule two_waiting_sessions [OF inv two])
  moreover have "filter_mset (gets_at t b k) (image_mset request_of S) \<subseteq># filter_mset (gets_at t b k) (mset es)"
    using sub by (rule multiset_filter_mono)
  ultimately have "length (filter (gets_at t b k) es) \<ge> 2" by (metis le_trans mset_filter size_mset size_mset_mono)
  then show ?thesis unfolding single_gets_def by (metis Suc_1 not_less_eq_eq)
qed

lemma single_gets_mono: "mset es \<subseteq># mset es' \<Longrightarrow> single_gets es' \<Longrightarrow> single_gets es"
proof -
  assume a: "mset es \<subseteq># mset es'" "single_gets es'"
  have "length (filter (gets_at t b k) es) \<le> length (filter (gets_at t b k) es')" for t b k
    using size_mset_mono [OF multiset_filter_mono [OF a(1), of "gets_at t b k"]] by (metis mset_filter size_mset)
  then show ?thesis using a(2) unfolding single_gets_def by (meson le_trans)
qed

text \<open>What a schedule does to a cluster that consists of given sessions; \<open>past\<close> are the events before it.\<close>

definition run_ok :: "(nodeid_t \<Rightarrow> 'io node_ctx) \<Rightarrow> event list \<Rightarrow> event list \<Rightarrow> 'io cluster \<Rightarrow> session multiset \<Rightarrow> bool" where
  "run_ok ctx past es cl S =
     (steps_taken ctx es cl \<le> (\<Sum>s\<in>#S. rank s) + sum_list (map launch_cost es) \<and>
      (case cluster_run ctx es cl of
         Inl f \<Rightarrow> f = Halted \<and> \<not> single_gets (past @ es)
       | Inr (h, cl') \<Rightarrow> \<exists>S'. cluster_inv ctx cl' S' \<and> atomic_run (abstract cl S) h (abstract cl' S') \<and>
           image_mset request_of S' \<subseteq># mset (past @ es) \<and>
           steps_taken ctx es cl + (\<Sum>s\<in>#S'. rank s) \<le> (\<Sum>s\<in>#S. rank s) + sum_list (map launch_cost es)))"

lemma run_ok_step:
  assumes "enabled e cl" "cluster_step ctx e cl = Inr cl1" "sim_step ctx cl S e cl1 S1" "run_ok ctx (past @ [e]) es cl1 S1"
  shows "run_ok ctx past (e # es) cl S"
proof -
  have r: "(if is_launch e then 0 else 1) + (\<Sum>s\<in>#S1. rank s) \<le> launch_cost e + (\<Sum>s\<in>#S. rank s)" by (rule sim_rank [OF assms(3)])
  have a: "atomic_run (abstract cl S) (step_labels e cl cl1) (abstract cl1 S1)" using assms(3) by (simp add: sim_step_def)
  show ?thesis
  proof (cases "cluster_run ctx es cl1")
    case (Inl f)
    then show ?thesis using assms r by (simp add: run_ok_def)
  next
    case (Inr x)
    obtain h cl2 where x: "x = (h, cl2)" by force
    obtain S2 where "cluster_inv ctx cl2 S2" "atomic_run (abstract cl1 S1) h (abstract cl2 S2)"
      "image_mset request_of S2 \<subseteq># mset ((past @ [e]) @ es)"
      "steps_taken ctx es cl1 + (\<Sum>s\<in>#S2. rank s) \<le> (\<Sum>s\<in>#S1. rank s) + sum_list (map launch_cost es)"
      using assms(4) Inr x by (auto simp: run_ok_def)
    then show ?thesis using assms(1,2) Inr x r atomic_run_trans [OF a] by (auto simp: run_ok_def intro!: exI [of _ S2])
  qed
qed

lemma run_simulates:
  assumes "cluster_inv ctx cl S" "named ctx" "\<forall>e\<in>set es. event_ok e" "mailboxes_for (length es) cl" "image_mset request_of S \<subseteq># mset past"
  shows "run_ok ctx past es cl S"
  using assms
proof (induction es arbitrary: cl S past)
  case Nil
  then show ?case using atomic_run.stop by (auto simp: run_ok_def)
next
  case (Cons e es)
  note left = mailboxes_left [of "length es" cl] and m = Cons.prems(4)
  have sub: "image_mset request_of S \<subseteq># mset (past @ [e])" using Cons.prems(5) by (simp add: subset_add_mset)
  show ?case
  proof (cases "enabled e cl")
    case False
    have "mailboxes_for (length es) cl" using m by (auto simp: mailboxes_for_def intro: Suc_lessD)
    then have "run_ok ctx (past @ [e]) es cl S" using Cons.IH [OF Cons.prems(1,2)] Cons.prems(3) sub by simp
    then show ?thesis using False by (auto simp: run_ok_def split: sum.splits)
  next
    case True
    have adv: "advances ctx e cl S" using step_advances [OF Cons.prems(1,2) _ _ True] left m Cons.prems(3) by simp
    show ?thesis
    proof (cases "cluster_step ctx e cl")
      case (Inl f)
      then have "f = Halted" "two_waiting cl" using adv by (simp_all add: advances_def)
      moreover have "\<not> single_gets (past @ e # es)" if "two_waiting cl"
        using two_waiting_events [OF Cons.prems(1) that Cons.prems(5)] single_gets_mono [of past "past @ e # es"] by auto
      ultimately show ?thesis using True Inl by (simp add: run_ok_def)
    next
      case (Inr cl1)
      then obtain S1 where S1: "sim_step ctx cl S e cl1 S1" using adv by (auto simp: advances_def)
      then have "cluster_inv ctx cl1 S1" by (simp add: sim_step_def)
      then have "run_ok ctx (past @ [e]) es cl1 S1"
        using Cons.IH Cons.prems(2,3) step_mailboxes [OF Inr, of "length es"] m sim_requests [OF S1 Cons.prems(5)] by simp
      then show ?thesis by (rule run_ok_step [OF True Inr S1])
    qed
  qed
qed

lemma idle_run_ok:
  assumes "idle cl" "named ctx" "\<forall>e\<in>set es. event_ok e" "mailboxes_for (length es) cl"
  shows "run_ok ctx [] es cl {#}"
  using run_simulates [OF idle_inv [OF assms(1)] assms(2-4)] by simp

lemma abstract_empty: "abstract cl {#} = \<lparr>a_store = store_of cl, a_pending = {#}, a_done = {#}\<rparr>"
  by (simp add: abstract_def)

section \<open>Who has been answered\<close>

fun client_of :: "event \<Rightarrow> nodeid_t \<times> callback_t" where
  "client_of (Launch_publish n t b k d f cb) = (n, cb)"
| "client_of (Launch_get n t b k f cb) = (n, cb)"
| "client_of _ = (0, 0)"

fun called_back :: "outcome \<Rightarrow> callback_t" where
  "called_back (Published cb rc) = cb"
| "called_back (Got cb ok k x) = cb"
| "called_back (Dropped cb ok k) = cb"
| "called_back (Listed cb oc) = cb"

fun calls_in :: "label list \<Rightarrow> (nodeid_t \<times> callback_t) multiset" where
  "calls_in [] = {#}"
| "calls_in (Invoke e # h) = add_mset (client_of e) (calls_in h)"
| "calls_in (Return n r # h) = calls_in h"

fun answers_in :: "label list \<Rightarrow> (nodeid_t \<times> callback_t) multiset" where
  "answers_in [] = {#}"
| "answers_in (Return n r # h) = add_mset (n, called_back r) (answers_in h)"
| "answers_in (Invoke e # h) = answers_in h"

definition open_calls :: "astate \<Rightarrow> (nodeid_t \<times> callback_t) multiset" where
  "open_calls a = image_mset client_of (a_pending a) + image_mset (\<lambda>(n, r). (n, called_back r)) (a_done a)"

lemma calls_in_append: "calls_in (h @ h') = calls_in h + calls_in h'"
  by (induction h rule: calls_in.induct) simp_all

lemma answers_in_append: "answers_in (h @ h') = answers_in h + answers_in h'"
  by (induction h rule: answers_in.induct) simp_all

lemma atomic_step_balance: "atomic_step a l a' \<Longrightarrow> open_calls a + calls_in l = open_calls a' + answers_in l"
  by (induction rule: atomic_step.induct) (simp_all add: open_calls_def)

lemma atomic_run_balance: "atomic_run a h a' \<Longrightarrow> open_calls a + calls_in h = open_calls a' + answers_in h"
  by (induction rule: atomic_run.induct)
    (auto simp: calls_in_append answers_in_append dest!: atomic_step_balance, metis (no_types) add.assoc add.commute)

lemma run_labels:
  "\<not> is_launch e \<Longrightarrow> calls_in (step_labels e cl cl') = {#}" "is_launch e \<Longrightarrow> step_labels e cl cl' = [Invoke e]"
proof -
  have "calls_in (map (Return n \<circ> outcome_of) xs) = {#}" for n xs by (induction xs) simp_all
  then show "\<not> is_launch e \<Longrightarrow> calls_in (step_labels e cl cl') = {#}" by (cases e) simp_all
  show "is_launch e \<Longrightarrow> step_labels e cl cl' = [Invoke e]" by (cases e) simp_all
qed

lemma cluster_run_calls:
  "cluster_run ctx es cl = Inr (h, cl') \<Longrightarrow> calls_in h = image_mset client_of (mset (filter is_launch es))"
proof (induction es arbitrary: cl h)
  case (Cons e es)
  show ?case
  proof (cases "enabled e cl")
    case True
    then obtain cl1 h1 where "cluster_step ctx e cl = Inr cl1" "cluster_run ctx es cl1 = Inr (h1, cl')" "h = step_labels e cl cl1 @ h1"
      using Cons.prems by (auto simp: rbind_Inr)
    then show ?thesis using Cons.IH run_labels [of e cl cl1] by (cases "is_launch e") (simp_all add: calls_in_append)
  next
    case False
    then show ?thesis using Cons launch_enabled by auto
  qed
qed simp

text \<open>When nothing is left to do, all that remains are gets of objects that are not there.\<close>

lemma quiescent_sessions:
  assumes inv: "cluster_inv ctx cl S" and q: "quiescent cl" and s: "s \<in># S"
  obtains g m where "s = Get g (G_waiting m)" "store_of cl (g_target g) (g_bucket g) (g_key g) = None"
proof -
  obtain R where S: "S = add_mset s R" using s by (meson mset_add)
  have *: "work_of n (token_of ctx s) = {#}" "wire_of (token_of ctx s) = {#}" "dma_of (token_of ctx s) = {#}" for n
    using inv_queues [OF inv [unfolded S]] q by (simp_all add: quiescent_def)
  obtain n m b k where t: "token_of ctx s = T_wait n m b k"
    by (cases "token_of ctx s") (use *(1) [of "case token_of ctx s of T_work n _ _ \<Rightarrow> n | _ \<Rightarrow> 0"] *(2,3) in simp_all)
  then have m: "m \<in> waits_for n b k (token_of ctx s)" by (simp add: same_slot_def)
  obtain g where g: "s = Get g (G_waiting m)" using waits_get [OF m] by metis
  have "m \<in> (\<Union>s\<in>set_mset S. waits_for n b k (token_of ctx s))" using s m by blast
  then have "m \<in> set (waiting_at b k (n_lkv (nodes cl n)))" using inv by (simp add: cluster_inv_def)
  then have "stored b k (n_lkv (nodes cl n)) = None" using stored_no_waiters [OF inv_stores [OF inv]] by fastforce
  then show ?thesis using that [OF g] g t by (simp add: store_of_def)
qed

lemma quiescent_pending:
  assumes inv: "cluster_inv ctx cl S" and q: "quiescent cl"
  shows "a_done (abstract cl S) = {#}"
    and "e \<in># a_pending (abstract cl S) \<Longrightarrow> (case e of Launch_get n t b k f cb \<Rightarrow> store_of cl t b k = None | _ \<Rightarrow> False)"
proof -
  have "done_of s = {#}" if "s \<in># S" for s
    by (rule quiescent_sessions [OF inv q that]) (simp add: done_of_def)
  then show "a_done (abstract cl S) = {#}" by (simp add: abstract_def)
  assume "e \<in># a_pending (abstract cl S)"
  then obtain s where s: "s \<in># S" "e \<in># pending_of s" by (auto simp: abstract_def)
  obtain g m where "s = Get g (G_waiting m)" "store_of cl (g_target g) (g_bucket g) (g_key g) = None"
    by (rule quiescent_sessions [OF inv q s(1)])
  then show "case e of Launch_get n t b k f cb \<Rightarrow> store_of cl t b k = None | _ \<Rightarrow> False"
    using s(2) by (simp add: pending_of_def)
qed

lemma not_quiescent:
  assumes "\<not> quiescent cl"
  obtains e where "enabled e cl" "\<not> is_launch e" "event_ok e"
proof -
  consider "wire cl \<noteq> []" | "dma cl \<noteq> []" | n where "work (n_core (nodes cl n)) \<noteq> []" using assms by (auto simp: quiescent_def)
  then show ?thesis using that [of "Deliver 0"] that [of "Transfer 0"] that [of "Run _ 0 0"] by cases auto
qed

lemma mailboxes_mono: "j \<le> k \<Longrightarrow> mailboxes_for k cl \<Longrightarrow> mailboxes_for j cl"
  unfolding mailboxes_for_def by (meson add_left_mono le_less_trans)

lemma rank_pos: "0 < rank s"
  by (cases s) (simp_all split: pub_phase.splits get_phase.splits)

text \<open>However the rest is scheduled, a bounded number of events brings a cluster to rest.\<close>

lemma drains:
  assumes "cluster_inv ctx cl S" "named ctx" "mailboxes_for (\<Sum>s\<in>#S. rank s) cl" "image_mset request_of S \<subseteq># mset past" "single_gets past"
  shows "\<exists>es h cl'. list_all (\<lambda>e. \<not> is_launch e \<and> event_ok e) es \<and> length es \<le> (\<Sum>s\<in>#S. rank s) \<and>
    cluster_run ctx es cl = Inr (h, cl') \<and> quiescent cl'"
  using assms
proof (induction "\<Sum>s\<in>#S. rank s" arbitrary: cl S rule: less_induct)
  case less
  show ?case
  proof (cases "quiescent cl")
    case True
    then show ?thesis by (intro exI [of _ "[]"]) simp
  next
    case False
    then obtain e where e: "enabled e cl" "\<not> is_launch e" "event_ok e" by (rule not_quiescent)
    have pos: "0 < (\<Sum>s\<in>#S. rank s)"
    proof (cases S)
      case empty
      then show ?thesis using less.prems(1) False by (auto simp: cluster_inv_def quiescent_def)
    next
      case (add s R)
      then show ?thesis using rank_pos [of s] by simp
    qed
    then obtain k where k: "(\<Sum>s\<in>#S. rank s) = Suc k" using gr0_implies_Suc by blast
    note m = less.prems(3) [unfolded k]
    have "advances ctx e cl S" by (rule step_advances [OF less.prems(1,2) mailboxes_left [OF m] e(3,1)])
    moreover have "\<not> two_waiting cl" using two_waiting_events [OF less.prems(1) _ less.prems(4)] less.prems(5) by blast
    ultimately obtain cl1 S1 where s1: "cluster_step ctx e cl = Inr cl1" "sim_step ctx cl S e cl1 S1"
      by (auto simp: advances_def split: sum.splits)
    then have S1: "cluster_inv ctx cl1 S1" "(\<Sum>s\<in>#S1. rank s) < (\<Sum>s\<in>#S. rank s)" "image_mset request_of S1 \<subseteq># mset past"
      using e(2) subset_mset.order_trans [OF _ less.prems(4)] by (simp_all add: sim_step_def)
    have "mailboxes_for (\<Sum>s\<in>#S1. rank s) cl1"
      by (rule mailboxes_mono [OF _ step_mailboxes [OF s1(1) m]]) (use S1(2) k in simp)
    then obtain es h cl' where "list_all (\<lambda>e. \<not> is_launch e \<and> event_ok e) es" "length es \<le> (\<Sum>s\<in>#S1. rank s)"
      "cluster_run ctx es cl1 = Inr (h, cl')" "quiescent cl'"
      using less.hyps [OF S1(2,1) less.prems(2) _ S1(3) less.prems(5)] by blast
    then show ?thesis using e s1(1) S1(2) by (intro exI [of _ "e # es"]) auto
  qed
qed

lemma cluster_run_append:
  "cluster_run ctx es cl = Inr (h, cl1) \<Longrightarrow>
    cluster_run ctx (es @ es') cl = rbind (cluster_run ctx es' cl1) (\<lambda>(h', cl2). Inr (h @ h', cl2))"
proof (induction es arbitrary: cl h)
  case Nil
  then show ?case by (cases "cluster_run ctx es' cl") auto
next
  case (Cons e es)
  show ?case
  proof (cases "enabled e cl")
    case True
    then obtain cl2 h2 where c: "cluster_step ctx e cl = Inr cl2" "cluster_run ctx es cl2 = Inr (h2, cl1)" "h = step_labels e cl cl2 @ h2"
      using Cons.prems by (auto simp: rbind_Inr)
    then show ?thesis using Cons.IH [OF c(2)] True by (cases "cluster_run ctx es' cl1") auto
  next
    case False
    then show ?thesis using Cons by simp
  qed
qed

lemma cluster_run_mailboxes: "cluster_run ctx es cl = Inr (h, cl') \<Longrightarrow> mailboxes_for (length es + k) cl \<Longrightarrow> mailboxes_for k cl'"
proof (induction es arbitrary: cl h)
  case (Cons e es)
  show ?case
  proof (cases "enabled e cl")
    case True
    then obtain cl1 h1 where c: "cluster_step ctx e cl = Inr cl1" "cluster_run ctx es cl1 = Inr (h1, cl')"
      using Cons.prems(1) by (auto simp: rbind_Inr)
    then show ?thesis using Cons.IH [OF c(2)] step_mailboxes [OF c(1)] Cons.prems(2) by simp
  next
    case False
    have "mailboxes_for (length es + k) cl" by (rule mailboxes_mono [OF _ Cons.prems(2)]) simp
    then show ?thesis using Cons False by simp
  qed
qed simp

lemma reaches_rest:
  assumes "idle cl" "named ctx" "\<forall>e\<in>set es. event_ok e"
    and "mailboxes_for (length es + sum_list (map launch_cost es)) cl" "single_gets es"
  shows "\<exists>es' h cl'. list_all (\<lambda>e. \<not> is_launch e) es' \<and> length es' \<le> sum_list (map launch_cost es) \<and>
    cluster_run ctx (es @ es') cl = Inr (h, cl') \<and> quiescent cl'"
proof -
  note ok = idle_run_ok [OF assms(1-3) mailboxes_mono [OF le_add1 assms(4)]]
  obtain h cl1 where r: "cluster_run ctx es cl = Inr (h, cl1)"
    using ok assms(5) by (cases "cluster_run ctx es cl") (auto simp: run_ok_def)
  then obtain S where S: "cluster_inv ctx cl1 S" "image_mset request_of S \<subseteq># mset es" "(\<Sum>s\<in>#S. rank s) \<le> sum_list (map launch_cost es)"
    using ok by (auto simp: run_ok_def)
  have "mailboxes_for (\<Sum>s\<in>#S. rank s) cl1"
    by (rule mailboxes_mono [OF S(3) cluster_run_mailboxes [OF r assms(4)]])
  then obtain es' h' cl' where "list_all (\<lambda>e. \<not> is_launch e \<and> event_ok e) es'" "length es' \<le> (\<Sum>s\<in>#S. rank s)"
    "cluster_run ctx es' cl1 = Inr (h', cl')" "quiescent cl'"
    using drains [OF S(1) assms(2) _ S(2) assms(5)] by blast
  then show ?thesis using S(3) cluster_run_append [OF r, of es'] by (intro exI [of _ es']) (auto simp: list_all_iff)
qed

section \<open>A cluster to run\<close>

definition demo_ctx :: "nodeid_t \<Rightarrow> unit node_ctx" where
  "demo_ctx n = \<lparr>my_id = n, FindIOM = (\<lambda>_. None), compute_registry = new_ComputeRegistry, fresh_bytes = (\<lambda>_. 0), simple_body = 64, buffer_body = 96, status_body = 48\<rparr>"

definition demo_node :: "unit node" where
  "demo_node = \<lparr>n_core = new_OpBoxCore\<lparr>core_initialized := True, core_running := True\<rparr>,
     n_lkv = new_LocalKV\<lparr>configured := True\<rparr>, n_io = (), n_calls = [], n_later = []\<rparr>"

definition demo_cluster :: "unit cluster" where
  "demo_cluster = \<lparr>nodes = (\<lambda>_. demo_node), wire = [], dma = []\<rparr>"

definition demo_object :: dataobject where
  "demo_object = \<lparr>do_type = 1, do_meta = [], do_data = [42], do_padding = 3\<rparr>"

definition demo_key :: key where
  "demo_key = Key ''k'' []"

text \<open>Node 3 asks node 2 for an object that node 1 publishes there only later.\<close>

definition demo_schedule :: "event list" where
  "demo_schedule = [Launch_get 3 2 5 demo_key 0 8, Run 3 0 0, Deliver 0, Run 2 0 0,
     Launch_publish 1 2 5 demo_key demo_object WriteToRemote 7, Run 1 0 0, Deliver 0, Run 2 0 0, Transfer 0, Run 2 0 0,
     Deliver 0, Run 1 0 0, Run 2 0 0, Deliver 0, Run 3 0 0, Transfer 0, Run 3 0 0, Deliver 0, Run 2 0 0]"

definition demo_history :: "label list" where
  "demo_history = [Invoke (Launch_get 3 2 5 demo_key 0 8), Invoke (Launch_publish 1 2 5 demo_key demo_object WriteToRemote 7),
     Return 1 (Published 7 KELPIE_OK), Return 3 (Got 8 True demo_key (Some demo_object))]"

lemma demo_object_transferable: "transferable demo_object" "fresh_copy demo_object = demo_object"
  by code_simp+

lemma demo_hyps:
  "idle demo_cluster" "named demo_ctx" "\<forall>e\<in>set demo_schedule. event_ok e" "single_gets demo_schedule"
  "mailboxes_for 100 demo_cluster" "length demo_schedule = 19" "sum_list (map launch_cost demo_schedule) = 17"
proof -
  have store: "stores_ok (new_LocalKV\<lparr>configured := True\<rparr>)" "waiting_at b k (new_LocalKV\<lparr>configured := True\<rparr>) = []" for b k
    by (simp_all add: stores_ok_def lkv_inv_def no_lost_waiters_def stored_def cell_at_def getRow_def new_LocalKV_def waiting_at_def)
  then show "idle demo_cluster"
    by (simp add: idle_def demo_cluster_def demo_node_def node_ok_def core_inv_def new_OpBoxCore_def)
  show "named demo_ctx" by (simp add: named_def demo_ctx_def)
  show "\<forall>e\<in>set demo_schedule. event_ok e"
    by (simp add: demo_schedule_def demo_key_def short_key_def valid_def demo_object_transferable pub_flags_ok_def ChangeRemoteToLocal_def has_flag_def flag_defs)
  show "single_gets demo_schedule" by (simp add: single_gets_def demo_schedule_def)
  show "mailboxes_for 100 demo_cluster" by (simp add: mailboxes_for_def demo_cluster_def demo_node_def new_OpBoxCore_def)
  show "length demo_schedule = 19" "sum_list (map launch_cost demo_schedule) = 17" by (simp_all add: demo_schedule_def)
qed

lemmas [code] = op_ids kelpie_create_table

lemma demo_run: "case cluster_run demo_ctx demo_schedule demo_cluster of Inr (h, cl) \<Rightarrow> h = demo_history | Inl _ \<Rightarrow> False"
  by code_simp

section \<open>The promises\<close>

text \<open>
  C1. Linearizability: whatever the schedule of launches, queued updates, message deliveries and
  memory transfers, the calls and the results that the clients of the publish and get ops see are
  those of a store in which every publish and every get takes effect at one instant between its
  call and its result; the stores of the nodes agree with that store.  The only fault a schedule can
  meet is the halt of a node in which two gets wait for one object.  The cluster is idle at first, the
  calls are those of \<^verbatim>\<open>event_ok\<close> (an object published has bytes and at least the padding of its size), and the 32-bit
  mailbox numbers do not run out.
\<close>
theorem cluster_linearizable:
  assumes "idle cl" "named ctx" "\<forall>e\<in>set es. event_ok e" "mailboxes_for (length es) cl"
  shows "case cluster_run ctx es cl of
     Inl f \<Rightarrow> f = Halted \<and> \<not> single_gets es
   | Inr (h, cl') \<Rightarrow> \<exists>P D. atomic_run \<lparr>a_store = store_of cl, a_pending = {#}, a_done = {#}\<rparr> h
       \<lparr>a_store = store_of cl', a_pending = P, a_done = D\<rparr>"
proof (cases "cluster_run ctx es cl")
  case (Inl f)
  then show ?thesis using idle_run_ok [OF assms] by (simp add: run_ok_def)
next
  case (Inr x)
  obtain h cl' where x: "x = (h, cl')" by force
  obtain S where "atomic_run (abstract cl {#}) h (abstract cl' S)" using idle_run_ok [OF assms] Inr x by (auto simp: run_ok_def)
  then show ?thesis using Inr x by (auto simp: abstract_empty) (auto simp: abstract_def)
qed

theorem cluster_linearizable_witness:
  "idle demo_cluster \<and> named demo_ctx \<and> list_all event_ok demo_schedule \<and> mailboxes_for (length demo_schedule) demo_cluster \<and>
   (\<exists>cl' P D. cluster_run demo_ctx demo_schedule demo_cluster = Inr (demo_history, cl') \<and>
      atomic_run \<lparr>a_store = store_of demo_cluster, a_pending = {#}, a_done = {#}\<rparr> demo_history
        \<lparr>a_store = store_of cl', a_pending = P, a_done = D\<rparr>)"
proof -
  note m = mailboxes_mono [OF _ demo_hyps(5), of "length demo_schedule"]
  obtain cl' where r: "cluster_run demo_ctx demo_schedule demo_cluster = Inr (demo_history, cl')"
    using demo_run by (auto split: sum.splits)
  have "\<exists>P D. atomic_run \<lparr>a_store = store_of demo_cluster, a_pending = {#}, a_done = {#}\<rparr> demo_history
      \<lparr>a_store = store_of cl', a_pending = P, a_done = D\<rparr>"
    using cluster_linearizable [OF demo_hyps(1-3) m] by (simp add: r demo_hyps(6))
  then show ?thesis using demo_hyps(1-3) m r by (auto simp: list_all_iff demo_hyps(6))
qed

text \<open>
  C4. Schedules in which no two gets ask one target for the same object never fail: no assertion, no
  halt, no access to memory that is not there, and no abort for a length that is not a multiple of four,
  because every object published has at least the padding of its size (\<^verbatim>\<open>event_ok\<close>).
\<close>
theorem cluster_no_fault:
  assumes "idle cl" "named ctx" "\<forall>e\<in>set es. event_ok e" "mailboxes_for (length es) cl" "single_gets es"
  shows "\<exists>h cl'. cluster_run ctx es cl = Inr (h, cl')"
proof (cases "cluster_run ctx es cl")
  case (Inl f)
  then show ?thesis using idle_run_ok [OF assms(1-4)] assms(5) by (simp add: run_ok_def)
qed auto

theorem cluster_no_fault_witness:
  "idle demo_cluster \<and> single_gets demo_schedule \<and> (\<exists>h cl'. cluster_run demo_ctx demo_schedule demo_cluster = Inr (h, cl'))"
  using cluster_no_fault [OF demo_hyps(1-3) mailboxes_mono [OF _ demo_hyps(5)] demo_hyps(4)] demo_hyps by simp

text \<open>
  C3. The ops come to an end: whatever the schedule of calls as in \<^verbatim>\<open>event_ok\<close>, no two gets asking one
  target for the same object, the cluster carries out at most seven steps for
  every publish and ten for every get, and the ones that are left after a schedule can be run in at
  most the same number of events, after which no node has work and the network is empty.
\<close>
theorem cluster_terminates:
  assumes "idle cl" "named ctx" "\<forall>e\<in>set es. event_ok e"
    and "mailboxes_for (length es + sum_list (map launch_cost es)) cl" "single_gets es"
  shows "steps_taken ctx es cl \<le> sum_list (map launch_cost es) \<and>
    (\<exists>es' h cl'. list_all (\<lambda>e. \<not> is_launch e) es' \<and> length es' \<le> sum_list (map launch_cost es) \<and>
       cluster_run ctx (es @ es') cl = Inr (h, cl') \<and> quiescent cl')"
  using idle_run_ok [OF assms(1-3) mailboxes_mono [OF le_add1 assms(4)]] reaches_rest [OF assms] by (auto simp: run_ok_def)

theorem cluster_terminates_witness:
  "idle demo_cluster \<and> single_gets demo_schedule \<and> steps_taken demo_ctx demo_schedule demo_cluster \<le> 17 \<and>
   (\<exists>es' h cl'. list_all (\<lambda>e. \<not> is_launch e) es' \<and> length es' \<le> 17 \<and>
      cluster_run demo_ctx (demo_schedule @ es') demo_cluster = Inr (h, cl') \<and> quiescent cl')"
  using cluster_terminates [OF demo_hyps(1-3) mailboxes_mono [OF _ demo_hyps(5)] demo_hyps(4)] demo_hyps by simp

text \<open>
  C2. Once the cluster is at rest, every publish has been answered exactly once, and every get has been
  answered exactly once unless its object is not stored at its target.  The calls are those of
  \<^verbatim>\<open>event_ok\<close>; a schedule with two gets for one object may halt a node instead.
\<close>
theorem cluster_all_answered:
  assumes "idle cl" "named ctx" "\<forall>e\<in>set es. event_ok e" "mailboxes_for (length es) cl"
  shows "case cluster_run ctx es cl of
     Inl f \<Rightarrow> f = Halted \<and> \<not> single_gets es
   | Inr (h, cl') \<Rightarrow> quiescent cl' \<longrightarrow>
       (\<exists>G. image_mset client_of (mset (filter is_launch es)) = answers_in h + image_mset client_of G \<and>
         (\<forall>e\<in>#G. case e of Launch_get n t b k f cb \<Rightarrow> store_of cl' t b k = None | _ \<Rightarrow> False))"
proof (cases "cluster_run ctx es cl")
  case (Inl f)
  then show ?thesis using idle_run_ok [OF assms] by (simp add: run_ok_def)
next
  case (Inr x)
  obtain h cl' where x: "x = (h, cl')" by force
  obtain S where S: "cluster_inv ctx cl' S" "atomic_run (abstract cl {#}) h (abstract cl' S)"
    using idle_run_ok [OF assms] Inr x by (auto simp: run_ok_def)
  have bal: "image_mset client_of (mset (filter is_launch es)) = open_calls (abstract cl' S) + answers_in h"
    using atomic_run_balance [OF S(2)] cluster_run_calls [of ctx es cl h cl'] Inr x by (simp add: abstract_empty open_calls_def)
  have "image_mset client_of (mset (filter is_launch es)) = answers_in h + image_mset client_of (a_pending (abstract cl' S)) \<and>
      (\<forall>e\<in>#a_pending (abstract cl' S). case e of Launch_get n t b k f cb \<Rightarrow> store_of cl' t b k = None | _ \<Rightarrow> False)"
    if "quiescent cl'"
    using bal quiescent_pending [OF S(1) that] by (simp add: open_calls_def)
  then show ?thesis using Inr x by auto
qed

theorem cluster_all_answered_witness:
  "\<exists>es h cl' G. filter is_launch es = filter is_launch demo_schedule \<and> cluster_run demo_ctx es demo_cluster = Inr (h, cl') \<and> quiescent cl' \<and>
     image_mset client_of (mset (filter is_launch demo_schedule)) = answers_in h + image_mset client_of G \<and>
     (\<forall>e\<in>#G. case e of Launch_get n t b k f cb \<Rightarrow> store_of cl' t b k = None | _ \<Rightarrow> False)"
proof -
  have m: "mailboxes_for (length demo_schedule + sum_list (map launch_cost demo_schedule)) demo_cluster"
    by (rule mailboxes_mono [OF _ demo_hyps(5)]) (simp add: demo_hyps)
  obtain es' h cl' where es': "list_all (\<lambda>e. \<not> is_launch e) es'" "length es' \<le> 17" "quiescent cl'"
    "cluster_run demo_ctx (demo_schedule @ es') demo_cluster = Inr (h, cl')"
    using reaches_rest [OF demo_hyps(1-3) m demo_hyps(4)] by (auto simp: demo_hyps)
  have f: "filter is_launch (demo_schedule @ es') = filter is_launch demo_schedule" using es'(1) by (simp add: list_all_iff filter_empty_conv)
  have ok: "\<forall>e\<in>set (demo_schedule @ es'). event_ok e"
  proof -
    have "event_ok e" if "\<not> is_launch e" for e using that by (cases e) simp_all
    then show ?thesis using es'(1) demo_hyps(3) by (auto simp: list_all_iff)
  qed
  have "mailboxes_for (length (demo_schedule @ es')) demo_cluster"
    by (rule mailboxes_mono [OF _ demo_hyps(5)]) (use es'(2) in \<open>simp add: demo_hyps\<close>)
  then have "\<exists>G. image_mset client_of (mset (filter is_launch (demo_schedule @ es'))) = answers_in h + image_mset client_of G \<and>
     (\<forall>e\<in>#G. case e of Launch_get n t b k f cb \<Rightarrow> store_of cl' t b k = None | _ \<Rightarrow> False)"
    using cluster_all_answered [OF demo_hyps(1,2) ok] by (simp only: es'(3,4) sum.case prod.case simp_thms)
  then show ?thesis using es'(3,4) unfolding f by (intro exI [of _ "demo_schedule @ es'"]) (auto simp only: f)
qed

text \<open>Two gets wait at node 2 when the object is published there.\<close>

definition demo_two_gets :: "event list" where
  "demo_two_gets = [Launch_get 3 2 5 demo_key 0 8, Run 3 0 0, Deliver 0, Run 2 0 0, Launch_get 4 2 5 demo_key 0 9, Run 4 0 0, Deliver 0,
     Run 2 0 0, Launch_publish 1 2 5 demo_key demo_object WriteToRemote 7, Run 1 0 0, Deliver 0, Run 2 0 0, Transfer 0]"

lemma publish_halts:
  assumes inv: "cluster_inv ctx cl S" and "named ctx"
    and i: "i < length (work (n_core (nodes cl n)))" "work (n_core (nodes cl n)) ! i = (m, Args_update Get_success)"
    and op: "getActiveOp m (n_core (nodes cl n)) = Some (Op_publish op)"
  shows "run_work ctx now n i cl = Inl Halted \<longleftrightarrow> 1 < length (waiting_at (kop_bucket op) (kop_key op) (n_lkv (nodes cl n)))"
proof -
  obtain s where s: "s \<in># S" "token_of ctx s = T_work n m (Args_update Get_success)" using inv_work_token [OF inv i] by blast
  have active: "op' = Op_publish op" if "(m, op') \<in># ops_of ctx n s" for op'
    using inv_getActive [OF inv s(1) that] op by simp
  obtain p where p: "s = Pub p (P_received m)" "p_target p = n"
    using s(2) active by (cases "(ctx, s)" rule: token_of.cases) auto
  have "op = pub_fetching ctx p m (Some (fresh_copy (p_obj p)))" using active p by auto
  then have slot: "kop_bucket op = p_bucket p" "kop_key op = p_key p" by (simp_all add: pub_fetching_def)
  obtain R where R: "S = add_mset (Pub p (P_received m)) R" using s(1) p(1) by (meson mset_add)
  have ids: "my_id (ctx (p_origin p)) = p_origin p" using assms(2) by (simp add: named_def)
  show ?thesis
    by (rule step_P_received [where now = now, OF inv [unfolded R] ids i [folded p(2)]]) (use p(2) slot in auto)
qed

text \<open>
  C37. In every state that a schedule can reach, the step that stores a published object whose transfer is
  complete halts the node exactly when two or more gets wait there for that object: the second waiting op is
  triggered with the argument that the first trigger has already moved away.
\<close>
theorem two_waiting_gets_halt:
  assumes "idle cl" "named ctx" "\<forall>e\<in>set es. event_ok e" "mailboxes_for (length es) cl" "cluster_run ctx es cl = Inr (h, cl')"
    and "i < length (work (n_core (nodes cl' n)))" "work (n_core (nodes cl' n)) ! i = (m, Args_update Get_success)"
    and "getActiveOp m (n_core (nodes cl' n)) = Some (Op_publish op)"
  shows "cluster_step ctx (Run n i now) cl' = Inl Halted \<longleftrightarrow>
    2 \<le> length (waiting_at (kop_bucket op) (kop_key op) (n_lkv (nodes cl' n)))"
proof -
  obtain S where "cluster_inv ctx cl' S" using idle_run_ok [OF assms(1-4)] assms(5) by (auto simp: run_ok_def)
  then show ?thesis using publish_halts [OF _ assms(2,6-8), of S now] by auto
qed

definition demo_publishing :: "OpKelpiePublish option" where
  "demo_publishing = (case cluster_run demo_ctx demo_two_gets demo_cluster of Inl _ \<Rightarrow> None
     | Inr (h, cl) \<Rightarrow> (case getActiveOp 3 (n_core (nodes cl 2)) of Some (Op_publish op) \<Rightarrow> Some op | _ \<Rightarrow> None))"

theorem two_waiting_gets_halt_witness:
  "case (cluster_run demo_ctx demo_two_gets demo_cluster, demo_publishing) of
     (Inr (h, cl), Some op) \<Rightarrow> length (waiting_at (kop_bucket op) (kop_key op) (n_lkv (nodes cl 2))) = 2 \<and>
       cluster_step demo_ctx (Run 2 0 0) cl = Inl Halted
   | _ \<Rightarrow> False"
proof -
  have "case (cluster_run demo_ctx demo_two_gets demo_cluster, demo_publishing) of
     (Inr (h, cl), Some op) \<Rightarrow> 0 < length (work (n_core (nodes cl 2))) \<and> work (n_core (nodes cl 2)) ! 0 = (3, Args_update Get_success) \<and>
       length (waiting_at (kop_bucket op) (kop_key op) (n_lkv (nodes cl 2))) = 2 | _ \<Rightarrow> False" by code_simp
  then obtain h cl op where r: "cluster_run demo_ctx demo_two_gets demo_cluster = Inr (h, cl)" "demo_publishing = Some op"
      "0 < length (work (n_core (nodes cl 2)))" "work (n_core (nodes cl 2)) ! 0 = (3, Args_update Get_success)"
      "length (waiting_at (kop_bucket op) (kop_key op) (n_lkv (nodes cl 2))) = 2"
    by (auto split: sum.splits option.splits)
  have act: "getActiveOp 3 (n_core (nodes cl 2)) = Some (Op_publish op)"
    using r(1,2) by (simp add: demo_publishing_def split: option.splits kelpie_op.splits)
  have ok: "\<forall>e\<in>set demo_two_gets. event_ok e" using demo_hyps(3) by (simp add: demo_two_gets_def demo_schedule_def)
  have m: "mailboxes_for (length demo_two_gets) demo_cluster"
    by (rule mailboxes_mono [OF _ demo_hyps(5)]) (simp add: demo_two_gets_def)
  show ?thesis unfolding r(1,2) using two_waiting_gets_halt [OF demo_hyps(1,2) ok m r(1,3,4) act, of 0] r(5) by simp
qed

text \<open>
  C34. The padding stored with an allocation decides whether its object can be moved.  When a message announces an
  object that has bytes and whose padding is between one and four, the receiving op (the target of a publish that is
  not refused, the origin of a get, the origin of a compute that is not told of a failure) aborts its process exactly when that padding is smaller
  than the padding of the object's present size, as happens to an object that has been resized since its allocation.
\<close>
theorem padding_decides_abort:
  assumes d: "do_wf d" "0 < object_size d" "object_size d + 60 < 2 ^ 32" "0 < do_padding d" "do_padding d \<le> 4"
    and "imsg = SetLDO me mb (Some d) imsg0" "buffer_ExtractKey imsg0 = Inr key"
    and "stores_ok (e_lkv env)"
    and "has_flag (ChangeRemoteToLocal (mb_behavior_flags imsg0)) EnableOverwrites \<or> stored (mb_bucket imsg0) key (e_lkv env) = None"
  shows "(smt_Publish_Start ctx now (Args_message (Msg_buffer imsg)) pop env = Inl Process_exit \<longleftrightarrow> do_padding d < fit_padding d) \<and>
    (smo_GetUnbounded_WaitInfo ctx (Args_message (Msg_buffer imsg)) gop env = Inl Process_exit \<longleftrightarrow> do_padding d < fit_padding d) \<and>
    (\<not> IsNack (mb_hdr imsg0) \<longrightarrow>
       (smo_Compute_WaitInfo ctx (Args_message (Msg_buffer imsg)) cop env = Inl Process_exit \<longleftrightarrow> do_padding d < fit_padding d))"
proof -
  note M = sized_message(1) [OF d(1-3), where me = me and m = mb and x = imsg0 and c = ctx]
    sized_message(2,3) [OF d(1-3), where me = me and m = mb and x = imsg0]
  note msg = expect_buffer_def ExpectMessageOrDie_def updateState_def assms(6)
  obtain rc info t where g: "(if \<not> has_flag (ChangeRemoteToLocal (mb_behavior_flags imsg0)) EnableOverwrites
      then getInfo now (mb_bucket imsg0) key True (e_lkv env) else ((KELPIE_ENOENT, Wipe_info), e_lkv env)) = ((rc, info), t)"
    "\<not> (rc = KELPIE_OK \<and> col_availability info = InLocalMemory)"
    by (rule publish_not_refused [OF assms(8,9)])
  have "smt_Publish_Start ctx now (Args_message (Msg_buffer imsg)) pop env = Inl Process_exit \<longleftrightarrow> do_padding d < fit_padding d"
    using g M assms(7)
    by (cases "has_flag (ChangeRemoteToLocal (mb_behavior_flags imsg0)) EnableOverwrites")
      (auto simp: smt_Publish_Start_def msg Let_def net_Get_aborts [OF d, where c = ctx])
  moreover have "smo_GetUnbounded_WaitInfo ctx (Args_message (Msg_buffer imsg)) gop env = Inl Process_exit \<longleftrightarrow> do_padding d < fit_padding d"
    using M by (simp add: smo_GetUnbounded_WaitInfo_def msg Let_def net_Get_aborts [OF d, where c = ctx])
  moreover have "smo_Compute_WaitInfo ctx (Args_message (Msg_buffer imsg)) cop env = Inl Process_exit \<longleftrightarrow> do_padding d < fit_padding d"
    if "\<not> IsNack (mb_hdr imsg0)"
    using M that by (simp add: smo_Compute_WaitInfo_def msg Let_def net_Get_aborts [OF d, where c = ctx])
  ultimately show ?thesis by blast
qed

text \<open>An object allocated with 103 bytes and then resized to 100.\<close>

definition resized_object :: dataobject where
  "resized_object = (case ldo_run_all [Alloc_ctor 0 103 0 103 True 7] Heap_init of
     Some H \<Rightarrow> (case ModifyUserSizes 0 0 100 H of Inr (rc, H') \<Rightarrow> the (view 0 H') | Inl _ \<Rightarrow> demo_object)
   | None \<Rightarrow> demo_object)"

definition demo_announcement :: msg_direct_buffer_t where
  "demo_announcement = buffer_Alloc 0 1 publish_id CMD_PUBLISH 2 1 MAILBOX_UNSPECIFIED 5 demo_key 0 WriteToRemote None"

theorem padding_decides_abort_witness:
  "length (do_data resized_object) = 100 \<and> do_padding resized_object = 1 \<and> fit_padding resized_object = 4 \<and>
   smt_Publish_Start (demo_ctx 2) 0 (Args_message (Msg_buffer (SetLDO 1 1 (Some resized_object) demo_announcement)))
     (OpKelpiePublish_target 1) (env_of demo_node) = Inl Process_exit \<and>
   smo_GetUnbounded_WaitInfo (demo_ctx 2) (Args_message (Msg_buffer (SetLDO 1 1 (Some resized_object) demo_announcement)))
     (blank_op 1 Orig_getunbounded_wait_for_info) (env_of demo_node) = Inl Process_exit"
proof -
  have d: "do_wf resized_object" "0 < object_size resized_object" "object_size resized_object + 60 < 2 ^ 32"
    "0 < do_padding resized_object" "do_padding resized_object \<le> 4" "length (do_data resized_object) = 100"
    "do_padding resized_object = 1" "fit_padding resized_object = 4"
    by code_simp+
  have a: "buffer_ExtractKey demo_announcement = Inr demo_key" by code_simp
  have env: "stores_ok (e_lkv (env_of demo_node))" "stored b k (e_lkv (env_of demo_node)) = None" for b k
    using demo_hyps(1) by (simp_all add: idle_def demo_cluster_def node_ok_def) (simp add: demo_node_def stored_def cell_at_def getRow_def new_LocalKV_def)
  show ?thesis
    using padding_decides_abort [OF d(1-5) refl a env(1) disjI2 [OF env(2)], where me = 1 and mb = 1 and ctx = "demo_ctx 2" and now = 0
        and pop = "OpKelpiePublish_target 1" and gop = "blank_op 1 Orig_getunbounded_wait_for_info"] d(6-8)
    by auto
qed

end
