(* ===== verification/Dht_Pool.thy ===== *)
theory Dht_Pool
  imports Local_Pool Cluster_Refinement
begin

text \<open>
  The distributed hash table pool (\<^verbatim>\<open>kelpie/pools/DHTPool/DHTPool.cpp\<close>): it sends every key to the node that
  its row hashes to, answers from the local store where it can, and launches the direct ops otherwise.
  An operation returns its result, the callbacks it runs, the store's effects and the ops it launches; an
  operation that blocks on a remote answer is split at the wait.  The theory ends with the whole path of
  an object: published on one node, wanted on another, through pool, ops, network and stores.
\<close>

section \<open>Construction\<close>

definition DefaultRemote :: pool_behavior_t where "DefaultRemote = or WriteToRemote ReadToLocal"
definition DefaultRemoteIOM :: pool_behavior_t where "DefaultRemoteIOM = or (or WriteToIOM WriteToRemote) ReadToRemote"

record 'io DHTPool =
  dht_base :: "'io LocalPool"
  dht_nodes :: "nodeid_t list"
  my_nodeid :: nodeid_t

text \<open>
  \<open>dir_of\<close> is the directory service, \<open>connect\<close> the network; \<open>find_iom\<close> and \<open>register_iom\<close> are the registry of
  i/o modules, before and after it has registered the module the url describes.
\<close>
definition DHTPool_ctor ::
  "(ResourceURL \<Rightarrow> DirectoryInfo option) \<Rightarrow> (nodeid_t \<Rightarrow> bool) \<Rightarrow> (string \<Rightarrow> 'io IomBase option) \<Rightarrow>
     (ResourceURL \<Rightarrow> string \<Rightarrow> 'io IomBase option) \<Rightarrow> nodeid_t \<Rightarrow> ResourceURL \<Rightarrow> 'io DHTPool result" where
  "DHTPool_ctor dir_of connect find_iom register_iom my_node pool_url =
     rbind (PoolBase_ctor pool_url DefaultRemote) (\<lambda>base.
     case dir_of pool_url of
       None \<Rightarrow> Inl Runtime_error
     | Some dir \<Rightarrow>
         if \<not> list_all (\<lambda>m. connect (nn_node m)) (members dir) then Inl Runtime_error
         else
           let base1 = (if pool_iom_hash base \<noteq> 0 \<and> GetOption ''behavior'' [] pool_url = []
                        then base\<lparr>behavior_flags := DefaultRemoteIOM\<rparr> else base);
               pool = \<lparr>dht_base = base1, dht_nodes = map nn_node (members dir), my_nodeid = my_node\<rparr>;
               iom_option = (if url_path pool_url = ''/local/iom'' then url_name pool_url else GetOption ''iom'' [] pool_url) in
           if my_node \<notin> nn_node ` set (members dir) \<or> iom_option = [] then Inr pool
           else
             case (case find_iom iom_option of Some m \<Rightarrow> Some m | None \<Rightarrow> register_iom pool_url iom_option) of
               None \<Rightarrow> Inl Runtime_error
             | Some m \<Rightarrow> Inr (pool\<lparr>dht_base := base1\<lparr>pool_iom := Some m\<rparr>\<rparr>))"

section \<open>Where a key lives\<close>

definition findNodeIndex :: "key \<Rightarrow> 'io DHTPool \<Rightarrow> nat" where
  "findNodeIndex key pool =
     (if length (dht_nodes pool) < 2 then 0
      else unat (hash_dbj2_bucket (default_bucket (dht_base pool)) (K1 key)) mod length (dht_nodes pool))"

definition FindTargetNode :: "key \<Rightarrow> 'io DHTPool \<Rightarrow> int \<times> nodeid_t option" where
  "FindTargetNode key pool = (if dht_nodes pool = [] then (0, None) else (1, Some (dht_nodes pool ! findNodeIndex key pool)))"

text \<open>Indexing the list of nodes without a check.\<close>

definition node_at :: "nat \<Rightarrow> 'io DHTPool \<Rightarrow> nodeid_t result" where
  "node_at spot pool = (if spot < length (dht_nodes pool) then Inr (dht_nodes pool ! spot) else Inl Undefined_behaviour)"

section \<open>Publish\<close>

record 'io dht_out =
  out_calls :: "(rc_t \<times> object_info_t) list"
  out_effects :: "effect list"
  out_ops :: "(mailbox_t \<Rightarrow> kelpie_op) list"
  out_lkv :: LocalKV
  out_io :: 'io

definition dht_Publish ::
  "'io node_ctx \<Rightarrow> u32 \<Rightarrow> key \<Rightarrow> ldo \<Rightarrow> callback_t option \<Rightarrow> 'io DHTPool \<Rightarrow> 'io \<Rightarrow> LocalKV \<Rightarrow> (rc_t \<times> 'io dht_out) result" where
  "dht_Publish ctx now key user_ldo callback pool io t =
     (let base = dht_base pool; bucket = default_bucket base; flags = behavior_flags base in
      rbind (node_at (findNodeIndex key pool) pool) (\<lambda>node.
      if node = my_nodeid pool then
        rbind (put now bucket key user_ldo (ChangeRemoteToLocal flags) (pool_iom base) io t) (\<lambda>((rc, info, effs), t1, io1).
          Inr (KELPIE_OK, \<lparr>out_calls = (if callback \<noteq> None then [(rc, info)] else []), out_effects = effs, out_ops = [],
                 out_lkv = t1, out_io = io1\<rparr>))
      else
        let op = (\<lambda>m. Op_publish (OpKelpiePublish_origin ctx node bucket key user_ldo (pool_iom_hash base) flags callback m)) in
        if has_flag flags WriteToLocal then
          rbind (put now bucket key user_ldo flags None io t) (\<lambda>((rc, info, effs), t1, io1).
            Inr (KELPIE_OK, \<lparr>out_calls = [], out_effects = effs, out_ops = [op], out_lkv = t1, out_io = io1\<rparr>))
        else Inr (KELPIE_OK, \<lparr>out_calls = [], out_effects = [], out_ops = [op], out_lkv = t, out_io = io\<rparr>)))"

definition dht_Publish_stored ::
  "'io node_ctx \<Rightarrow> u32 \<Rightarrow> key \<Rightarrow> callback_t option \<Rightarrow> 'io DHTPool \<Rightarrow> 'io \<Rightarrow> LocalKV \<Rightarrow> (rc_t \<times> 'io dht_out) result" where
  "dht_Publish_stored ctx now key callback pool io t =
     rbind (get now (default_bucket (dht_base pool)) key t) (\<lambda>((rc, x, _), t1).
       if rc = KELPIE_ENOENT
       then Inr (KELPIE_ENOENT, \<lparr>out_calls = [], out_effects = [], out_ops = [], out_lkv = t1, out_io = io\<rparr>)
       else dht_Publish ctx now key (case x of Some l \<Rightarrow> l | None \<Rightarrow> None) callback pool io t1)"

section \<open>Want and need\<close>

text \<open>The callback of the get op: a fetched object is put into the local store, which serves the waiting callbacks.\<close>

definition dht_fetched ::
  "u32 \<Rightarrow> bool \<Rightarrow> key \<Rightarrow> ldo \<Rightarrow> 'io DHTPool \<Rightarrow> 'io \<Rightarrow> LocalKV \<Rightarrow> (effect list \<times> LocalKV \<times> 'io) result" where
  "dht_fetched now success key ldo pool io t =
     (if success
      then rbind (put now (default_bucket (dht_base pool)) key ldo (behavior_flags (dht_base pool)) None io t)
             (\<lambda>((_, _, effs), t1, io1). Inr (effs, t1, io1))
      else Inr ([], t, io))"

text \<open>The bounded op is only built for a size that is not zero, which is what its constructor checks.\<close>

definition dht_Want ::
  "'io node_ctx \<Rightarrow> u32 \<Rightarrow> key \<Rightarrow> u64 \<Rightarrow> callback_t option \<Rightarrow> callback_t \<Rightarrow> 'io DHTPool \<Rightarrow> 'io \<Rightarrow> LocalKV \<Rightarrow> (rc_t \<times> 'io dht_out) result" where
  "dht_Want ctx now key expected_ldo_user_bytes callback fetch pool io t =
     (let base = dht_base pool; bucket = default_bucket base; flags = behavior_flags base in
      rbind (wantLocal now bucket key True callback t) (\<lambda>((rc, effs), t1).
      let out = \<lparr>out_calls = [], out_effects = effs, out_ops = [], out_lkv = t1, out_io = io\<rparr> in
      if rc = KELPIE_OK \<or> rc = KELPIE_WAITING then Inr (KELPIE_OK, out)
      else
        rbind (node_at (findNodeIndex key pool) pool) (\<lambda>node.
        if node = my_nodeid pool then
          (case (if rc = KELPIE_ENOENT \<and> has_flag flags WriteToIOM then pool_iom base else None) of
             None \<Rightarrow> Inr (KELPIE_OK, out)
           | Some m \<Rightarrow>
               let (rc1, x, io1) = iom_ReadObject m bucket key io in
               if rc1 = KELPIE_OK
               then rbind (put now bucket key x flags None io1 t1) (\<lambda>((_, _, effs1), t2, io2).
                      Inr (KELPIE_OK, out\<lparr>out_effects := effs @ effs1, out_lkv := t2, out_io := io2\<rparr>))
               else Inr (KELPIE_OK, out\<lparr>out_io := io1\<rparr>))
        else if expected_ldo_user_bytes > 0 then
          rbind (new_ldo ctx (ucast expected_ldo_user_bytes)) (\<lambda>ldo_data.
          Inr (KELPIE_OK, out\<lparr>out_ops := [\<lambda>m. Op_getbounded (bounded_request ctx node bucket key ldo_data
              (pool_iom_hash base) flags fetch m)]\<rparr>))
        else
          Inr (KELPIE_OK, out\<lparr>out_ops := [\<lambda>m. Op_getunbounded (OpKelpieGetUnbounded_origin ctx node bucket key
              (pool_iom_hash base) flags fetch m)]\<rparr>))))"

text \<open>
  The blocking request: it registers a callback of its own and sleeps until that callback runs, which
  hands it the object or throws.
\<close>
definition dht_Need ::
  "'io node_ctx \<Rightarrow> u32 \<Rightarrow> key \<Rightarrow> u64 \<Rightarrow> callback_t \<Rightarrow> callback_t \<Rightarrow> 'io DHTPool \<Rightarrow> 'io \<Rightarrow> LocalKV \<Rightarrow> 'io dht_out result" where
  "dht_Need ctx now key expected_ldo_user_bytes promise fetch pool io t =
     rbind (dht_Want ctx now key expected_ldo_user_bytes (Some promise) fetch pool io t) (\<lambda>(rc, out).
       if rc \<noteq> KELPIE_OK then Inl Halted else Inr out)"

definition dht_Need_wakes :: "bool \<Rightarrow> ldo \<Rightarrow> (rc_t \<times> ldo) result" where
  "dht_Need_wakes success result_ldo = (if success then Inr (KELPIE_OK, result_ldo) else Inl Runtime_error)"

section \<open>Compute\<close>

definition dht_Compute ::
  "'io node_ctx \<Rightarrow> u32 \<Rightarrow> key \<Rightarrow> string \<Rightarrow> string \<Rightarrow> callback_t \<Rightarrow> 'io DHTPool \<Rightarrow> LocalKV \<Rightarrow>
     (rc_t \<times> (rc_t \<times> key \<times> ldo) list \<times> (mailbox_t \<Rightarrow> kelpie_op) list \<times> LocalKV) result" where
  "dht_Compute ctx now key function_name function_args callback pool t =
     (if IsRowWildcard key then Inl Assert_failed
      else
        let base = dht_base pool in
        rbind (node_at (findNodeIndex key pool) pool) (\<lambda>node.
        if node = my_nodeid pool then
          rbind (lkv_doCompute (compute_registry ctx) now function_name function_args (default_bucket base) key (Some None) t) (\<lambda>((rc, x), t1).
            Inr (KELPIE_OK, [(rc, key, case x of Some l \<Rightarrow> l | None \<Rightarrow> None)], [], t1))
        else Inr (KELPIE_OK, [], [\<lambda>m. Op_compute (OpKelpieCompute_origin ctx node (default_bucket base) key (pool_iom_hash base)
               (behavior_flags base) function_name function_args callback m)], t)))"

section \<open>Info, drop and list\<close>

text \<open>An answer at hand, or an op to wait for.\<close>

datatype 'a answer = Answer 'a | Ask "mailbox_t \<Rightarrow> kelpie_op"

definition dht_ask ::
  "u16 \<Rightarrow> ('io \<Rightarrow> rc_t \<Rightarrow> object_info_t \<Rightarrow> (rc_t \<times> object_info_t) \<times> 'io) \<Rightarrow> 'io node_ctx \<Rightarrow> u32 \<Rightarrow> key \<Rightarrow> callback_t \<Rightarrow> 'io DHTPool \<Rightarrow>
     'io \<Rightarrow> LocalKV \<Rightarrow> ((rc_t \<times> object_info_t) answer \<times> LocalKV \<times> 'io) result" where
  "dht_ask command at_home ctx now key promise pool io t =
     (let base = dht_base pool; bucket = default_bucket base; ((rc, info), t1) = getInfo now bucket key True t in
      if rc = KELPIE_OK \<or> rc = KELPIE_WAITING then Inr (Answer (rc, info), t1, io)
      else
        rbind (node_at (findNodeIndex key pool) pool) (\<lambda>node.
        if node = my_nodeid pool then let (a, io1) = at_home io rc info in Inr (Answer a, t1, io1)
        else Inr (Ask (\<lambda>m. Op_meta (OpKelpieMeta_origin ctx command node bucket key (pool_iom_hash base) (Some promise) m)), t1, io)))"

definition dht_Info ::
  "'io node_ctx \<Rightarrow> u32 \<Rightarrow> key \<Rightarrow> callback_t \<Rightarrow> 'io DHTPool \<Rightarrow> 'io \<Rightarrow> LocalKV \<Rightarrow> ((rc_t \<times> object_info_t) answer \<times> LocalKV \<times> 'io) result" where
  "dht_Info ctx now key promise pool io t =
     dht_ask CMD_GET_COLINFO
       (\<lambda>io rc info. case pool_iom (dht_base pool) of
          Some m \<Rightarrow> (let (rc1, info1, io1) = iom_GetInfo m (default_bucket (dht_base pool)) key io in ((rc1, info1), io1))
        | None \<Rightarrow> ((rc, info), io)) ctx now key promise pool io t"

definition dht_RowInfo ::
  "'io node_ctx \<Rightarrow> u32 \<Rightarrow> key \<Rightarrow> callback_t \<Rightarrow> 'io DHTPool \<Rightarrow> 'io \<Rightarrow> LocalKV \<Rightarrow> ((rc_t \<times> object_info_t) answer \<times> LocalKV \<times> 'io) result" where
  "dht_RowInfo ctx now key promise pool io t =
     dht_ask CMD_GET_ROWINFO (\<lambda>io rc info. ((rc, info), io)) ctx now key promise pool io t"

text \<open>The remote answer, relabelled.\<close>

definition dht_Info_answer :: "rc_t \<Rightarrow> object_info_t \<Rightarrow> rc_t \<times> object_info_t" where
  "dht_Info_answer result new_info =
     (let info = (if result = 0 then new_info else Wipe_info) in
      (result, if result = KELPIE_OK then ChangeAvailabilityFromLocalToRemote info else info))"

text \<open>The nodes a drop or a listing has to visit: whether this one, and which others.\<close>

definition dht_targets :: "key \<Rightarrow> 'io DHTPool \<Rightarrow> (bool \<times> nodeid_t list) result" where
  "dht_targets key pool =
     (if \<not> IsRowWildcard key then
        rbind (node_at (findNodeIndex key pool) pool) (\<lambda>node. Inr (if node = my_nodeid pool then (True, []) else (False, [node])))
      else Inr (my_nodeid pool \<in> set (dht_nodes pool), filter (\<lambda>n. n \<noteq> my_nodeid pool) (dht_nodes pool)))"

definition dht_Drop ::
  "u32 \<Rightarrow> key \<Rightarrow> callback_t option \<Rightarrow> 'io DHTPool \<Rightarrow> LocalKV \<Rightarrow> (rc_t \<times> bool list \<times> (mailbox_t \<Rightarrow> kelpie_op) list \<times> LocalKV) result" where
  "dht_Drop now key callback pool t =
     rbind (dht_targets key pool) (\<lambda>(here, others).
       let base = dht_base pool;
           needs_local = here \<or> has_flag (behavior_flags base) (or WriteToLocal ReadToLocal) in
       rbind (if needs_local then drop_op now (default_bucket base) key t else Inr (KELPIE_ENOENT, t)) (\<lambda>(rc_local, t1).
       let found = (rc_local = KELPIE_OK) in
       Inr (KELPIE_OK, if others = [] \<and> callback \<noteq> None then [found] else [],
            if others \<noteq> [] then [\<lambda>m. Op_drop (OpKelpieDrop_origin others (default_bucket base) key found callback m)] else [], t1)))"

definition dht_List ::
  "key \<Rightarrow> ObjectCapacities \<Rightarrow> callback_t \<Rightarrow> 'io DHTPool \<Rightarrow> 'io \<Rightarrow> LocalKV \<Rightarrow>
     (ObjectCapacities \<times> (mailbox_t \<Rightarrow> kelpie_op) list \<times> 'io) result" where
  "dht_List search_key oc promise pool io t =
     rbind (dht_targets search_key pool) (\<lambda>(here, others).
       let base = dht_base pool in
       rbind (if here then list_op (default_bucket base) search_key (pool_iom base) io oc t else Inr (KELPIE_OK, oc, io)) (\<lambda>(_, oc1, io1).
       Inr (oc1, if others \<noteq> [] then [\<lambda>m. Op_list (OpKelpieList_origin others (default_bucket base) search_key (pool_iom_hash base) oc1 promise m)]
                 else [], io1)))"

section \<open>Nodes that store nothing for others\<close>

fun target_of :: "event \<Rightarrow> nodeid_t option" where
  "target_of (Launch_publish n t b k d f cb) = Some t"
| "target_of (Launch_get n t b k f cb) = Some t"
| "target_of _ = None"

lemma apply_effects_lkv: "apply_effects es nd = Inr nd' \<Longrightarrow> n_lkv nd' = n_lkv nd"
  by (induction es nd rule: apply_effects.induct) (auto simp: rbind_Inr)

text \<open>The origin's half of an op never touches the store.\<close>

lemma origin_update:
  assumes inv: "cluster_inv ctx cl S" and ids: "named ctx" and s: "s \<in># S" "token_of ctx s = T_work n m a" "target_of (request_of s) \<noteq> Some n"
  obtains op w op1 env1 where "(m, op) \<in># ops_of ctx n s" "kelpie_Update (ctx n) now a op (env_of (nodes cl n)) = Inr (w, op1, env1)"
    "w = Waiting_on_cq \<or> w = Done_and_destroy" "e_lkv env1 = n_lkv (nodes cl n)"
proof (cases s)
  case (Pub p ph)
  then consider "ph = P_send" | st where "ph = P_reply st" using s by (cases ph) auto
  then show ?thesis
  proof cases
    case 1
    show ?thesis by (rule that [OF _ publish_send [where ctx = ctx and p = p]]) (use s Pub 1 in auto)
  next
    case 2
    then have a: "a = Args_message (Msg_status st)" using s Pub by simp
    show ?thesis by (rule that [unfolded a, OF _ publish_reply [where ctx = ctx and p = p and st = st]]) (use s Pub 2 in auto)
  qed
next
  case (Get g ph)
  have id: "my_id (ctx (g_target g)) = g_target g" using ids by (simp add: named_def)
  consider "ph = G_send" | m' d where "ph = G_informed m' d" | m' d where "ph = G_received m' d" using s Get by (cases ph) auto
  then show ?thesis
  proof cases
    case 1
    show ?thesis by (rule that [OF _ get_send [where ctx = ctx and g = g]]) (use s Get 1 in auto)
  next
    case (2 m' d)
    have "transferable d" using inv s(1) Get 2 by (auto simp: cluster_inv_def)
    moreover have a: "a = Args_message (Msg_buffer (get_reply ctx g m' d))" "n = g_origin g" using s Get 2 by simp_all
    ultimately show ?thesis
      by (intro that [unfolded a, OF _ get_informed [where ctx = ctx and g = g and d = d and m = m']]) (use s Get 2 in auto)
  next
    case (3 m' d)
    obtain op1 where "kelpie_Update (ctx n) now a (Op_getunbounded (get_fetching ctx g m' d (Some (fresh_copy d)))) (env_of (nodes cl n)) =
        Inr (Done_and_destroy, op1, (env_of (nodes cl n))\<lparr>e_calls := e_calls (env_of (nodes cl n)) @ [Get_result (g_cb g) True (g_key g) (Some (fresh_copy d))],
          e_sends := e_sends (env_of (nodes cl n)) @ [(g_target g, Msg_status (status_SetSuccess True (get_final ctx g m' d)))]\<rparr>)"
      using get_received [where ctx = ctx and g = g and d = d and m = m' and c = "ctx n" and now = now and env = "env_of (nodes cl n)", OF id]
        s(2) Get 3 by auto
    from that [OF _ this] show ?thesis using s Get 3 by auto
  qed
qed

lemma run_origin_lkv:
  assumes inv: "cluster_inv ctx cl S" and ids: "named ctx" and i: "i < length (work (n_core (nodes cl n)))"
    and t: "\<forall>s\<in>#S. target_of (request_of s) \<noteq> Some n" and r: "run_work ctx now n i cl = Inr cl'"
  shows "n_lkv (nodes cl' n) = n_lkv (nodes cl n)"
proof -
  obtain m a where w: "work (n_core (nodes cl n)) ! i = (m, a)" by force
  obtain s where s: "s \<in># S" "token_of ctx s = T_work n m a" using inv_work_token [OF inv i w] by blast
  obtain op w' op1 env1 where u: "(m, op) \<in># ops_of ctx n s" "kelpie_Update (ctx n) now a op (env_of (nodes cl n)) = Inr (w', op1, env1)"
    "w' = Waiting_on_cq \<or> w' = Done_and_destroy" "e_lkv env1 = n_lkv (nodes cl n)"
    using origin_update [OF inv ids s, of now] t s(1) by metis
  have "run_work ctx now n i cl =
    rbind (apply_effects (e_effects env1) (after_update i m w' op1 env1 (nodes cl n))) (\<lambda>nd1.
      Inr (cl\<lparr>nodes := (nodes cl)(n := nd1), wire := wire cl @ e_sends env1, dma := dma cl @ map (Pair n) (e_rdma env1)\<rparr>))"
    by (rule run_work_eq [where n = n and ctx = ctx, OF inv_core [OF inv] w inv_active [OF inv s(1) u(1)] u(2)]) (use u(3) in auto)
  then obtain nd1 where "apply_effects (e_effects env1) (after_update i m w' op1 env1 (nodes cl n)) = Inr nd1" "nodes cl' n = nd1"
    using r by (cases "apply_effects (e_effects env1) (after_update i m w' op1 env1 (nodes cl n))") auto
  then show ?thesis using apply_effects_lkv u(4) by (fastforce simp: after_update_def)
qed

lemma set_held_lkv: "n_lkv (nodes (set_held n m d cl) n') = n_lkv (nodes cl n')"
  by (auto simp: set_held_def Let_def split: option.splits)

lemma notify_lkv: "notify n m t cl = Inr cl' \<Longrightarrow> n_lkv (nodes cl' n') = n_lkv (nodes cl n')"
  by (auto simp: notify_def Let_def rbind_Inr)

lemma transfer_lkv: "transfer i cl = Inr cl' \<Longrightarrow> n_lkv (nodes cl' n') = n_lkv (nodes cl n')"
  by (auto simp: transfer_def Let_def rbind_Inr set_held_lkv split: prod.splits rdma_req.splits if_splits dest!: notify_lkv [where n' = n'])

lemma step_lkv:
  assumes inv: "cluster_inv ctx cl S" and ids: "named ctx" and e: "enabled e cl"
    and t: "\<forall>s\<in>#S. target_of (request_of s) \<noteq> Some n" and r: "cluster_step ctx e cl = Inr cl'"
  shows "n_lkv (nodes cl' n) = n_lkv (nodes cl n)"
proof (cases e)
  case (Run n' i now)
  show ?thesis
  proof (cases "n' = n")
    case True
    then show ?thesis using run_origin_lkv [OF inv ids _ t] e r Run by simp
  next
    case False
    then show ?thesis using r Run by (auto simp: run_work_def Let_def rbind_Inr split: prod.splits)
  qed
qed (use r in \<open>auto simp: launch_def deliver_def Let_def rbind_Inr split: prod.splits dest: transfer_lkv\<close>)

lemma run_keeps_lkv:
  assumes "cluster_inv ctx cl S" "named ctx" "\<forall>e\<in>set es. event_ok e" "mailboxes_for (length es) cl"
    and "\<forall>s\<in>#S. target_of (request_of s) \<noteq> Some n" "\<forall>e\<in>set es. target_of e \<noteq> Some n" "cluster_run ctx es cl = Inr (h, cl')"
  shows "n_lkv (nodes cl' n) = n_lkv (nodes cl n)"
  using assms
proof (induction es arbitrary: cl S h)
  case (Cons e es)
  have m: "mailboxes_for (length es) cl" using Cons.prems(4) by (auto simp: mailboxes_for_def intro: Suc_lessD)
  show ?case
  proof (cases "enabled e cl")
    case True
    then obtain cl1 h1 where c: "cluster_step ctx e cl = Inr cl1" "cluster_run ctx es cl1 = Inr (h1, cl')"
      using Cons.prems(7) by (auto simp: rbind_Inr)
    have "advances ctx e cl S" using step_advances [OF Cons.prems(1,2) _ _ True] mailboxes_left [of "length es" cl] Cons.prems(3,4) by simp
    then obtain S1 where S1: "sim_step ctx cl S e cl1 S1" using c(1) by (auto simp: advances_def)
    then have "set_mset (image_mset request_of S1) \<subseteq> insert e (set_mset (image_mset request_of S))"
      using set_mset_mono [of "image_mset request_of S1" "image_mset request_of S"] by (cases "is_launch e") (auto simp: sim_step_def)
    then have t: "\<forall>s\<in>#S1. target_of (request_of s) \<noteq> Some n" using Cons.prems(5,6) by force
    have "n_lkv (nodes cl' n) = n_lkv (nodes cl1 n)"
      by (rule Cons.IH [OF _ Cons.prems(2) _ step_mailboxes [OF c(1)] t _ c(2)]) (use S1 Cons.prems in \<open>simp_all add: sim_step_def\<close>)
    then show ?thesis using step_lkv [OF Cons.prems(1,2) True Cons.prems(5) c(1)] by simp
  next
    case False
    show ?thesis by (rule Cons.IH [OF Cons.prems(1,2) _ m Cons.prems(5)]) (use Cons.prems False in simp_all)
  qed
qed simp

section \<open>One object on its way\<close>

text \<open>
  What the store of the specification knows of one publish and one get of the same slot of node \<open>n\<close>, after
  the history \<open>H\<close>: who is pending, what is stored, and who has been answered.
\<close>
definition on_its_way ::
  "nodeid_t \<Rightarrow> bucket_t \<Rightarrow> key \<Rightarrow> dataobject \<Rightarrow> event \<Rightarrow> nodeid_t \<times> outcome \<Rightarrow> event \<Rightarrow> nodeid_t \<times> outcome \<Rightarrow> label list \<Rightarrow> astate \<Rightarrow> bool" where
  "on_its_way n b k d W w P p H a =
     (set_mset (a_pending a) \<subseteq> {W, P} \<and> (a_store a n b k = None \<or> a_store a n b k = Some (Some d)) \<and>
      count (a_pending a) P + (if a_store a n b k = None then 0 else 1) \<le> count_list H (Invoke P) \<and>
      (Invoke P \<in> set H \<longrightarrow> P \<in># a_pending a \<or> a_store a n b k = Some (Some d) \<and> (p \<in># a_done a \<or> (case p of (m, r) \<Rightarrow> Return m r) \<in> set H)) \<and>
      (Invoke W \<in> set H \<longrightarrow> W \<in># a_pending a \<or> w \<in># a_done a \<or> (case w of (m, r) \<Rightarrow> Return m r) \<in> set H))"

lemma on_its_way_step:
  assumes "atomic_step a l a'"
    and "on_its_way n b k (fresh_copy d) (Launch_get c n b k fg cg) (c, Got cg True k (Some (fresh_copy d))) (Launch_publish s n b k d fp cp) (s, Published cp KELPIE_OK) H a"
    and "count_list (H @ l) (Invoke (Launch_publish s n b k d fp cp)) \<le> 1"
    and "\<forall>e. Invoke e \<in> set l \<longrightarrow> e \<in> {Launch_get c n b k fg cg, Launch_publish s n b k d fp cp}"
  shows "on_its_way n b k (fresh_copy d) (Launch_get c n b k fg cg) (c, Got cg True k (Some (fresh_copy d))) (Launch_publish s n b k d fp cp) (s, Published cp KELPIE_OK)
    (H @ l) a'"
  using assms
proof (induction rule: atomic_step.induct)
  case (invoke a e)
  then show ?case by (auto simp: on_its_way_def)
next
  case (publish a n' t b' k' d' f cb P)
  then show ?case by (auto simp: on_its_way_def store_object_def)
next
  case (refuse a n' t b' k' d' f cb P)
  then show ?case by (auto simp: on_its_way_def refuses_def)
next
  case (get a n' t b' k' f cb P x)
  then show ?case by (auto simp: on_its_way_def)
next
  case (return a n' r D)
  then show ?case by (auto simp: on_its_way_def)
qed

lemma on_its_way_run:
  assumes "atomic_run a h a'"
    and "on_its_way n b k (fresh_copy d) (Launch_get c n b k fg cg) (c, Got cg True k (Some (fresh_copy d))) (Launch_publish s n b k d fp cp) (s, Published cp KELPIE_OK) H a"
    and "count_list (H @ h) (Invoke (Launch_publish s n b k d fp cp)) \<le> 1"
    and "\<forall>e. Invoke e \<in> set h \<longrightarrow> e \<in> {Launch_get c n b k fg cg, Launch_publish s n b k d fp cp}"
  shows "on_its_way n b k (fresh_copy d) (Launch_get c n b k fg cg) (c, Got cg True k (Some (fresh_copy d))) (Launch_publish s n b k d fp cp) (s, Published cp KELPIE_OK)
    (H @ h) a'"
  using assms
proof (induction arbitrary: H rule: atomic_run.induct)
  case (more a l a' h a'')
  have "on_its_way n b k (fresh_copy d) (Launch_get c n b k fg cg) (c, Got cg True k (Some (fresh_copy d))) (Launch_publish s n b k d fp cp) (s, Published cp KELPIE_OK)
    (H @ l) a'"
    by (rule on_its_way_step [OF more(1,4)]) (use more(5,6) in auto)
  then show ?case using more(3) [of "H @ l"] more(5,6) by auto
qed simp

lemma run_invokes:
  "cluster_run ctx es cl = Inr (h, cl') \<Longrightarrow> count_list h (Invoke e) = (if is_launch e then count_list es e else 0)"
proof (induction es arbitrary: cl h)
  case (Cons e' es)
  have ret: "count_list (map (Return n \<circ> outcome_of) xs) (Invoke e) = 0" for n xs by (induction xs) simp_all
  have l: "count_list (step_labels e' c c') (Invoke e) = (if is_launch e' \<and> e = e' then 1 else 0)" for c c' :: "'a cluster"
    using ret by (cases e') simp_all
  show ?case
  proof (cases "enabled e' cl")
    case True
    then obtain cl1 h1 where "cluster_step ctx e' cl = Inr cl1" "cluster_run ctx es cl1 = Inr (h1, cl')" "h = step_labels e' cl cl1 @ h1"
      using Cons.prems by (auto simp: rbind_Inr)
    then show ?thesis using Cons.IH l by (auto simp: count_list_append)
  next
    case False
    then show ?thesis using Cons launch_enabled by auto
  qed
qed simp

lemma count_launches: "is_launch e \<Longrightarrow> count_list es e = count (mset (filter is_launch es)) e"
  by (induction es) auto

lemma one_get_single:
  assumes "mset (filter is_launch es) = {#Launch_get c n b k fg cg, Launch_publish s n b k d fp cp#}"
  shows "single_gets es"
proof -
  have "filter (gets_at t b' k') es = filter (gets_at t b' k') (filter is_launch es)" for t b' k'
    by (simp add: filter_filter) (metis (no_types, lifting) event.exhaust gets_at.simps(2-5) is_launch.simps(2))
  then have "length (filter (gets_at t b' k') es) = size (filter_mset (gets_at t b' k') (mset (filter is_launch es)))" for t b' k'
    by (metis mset_filter size_mset)
  then show ?thesis unfolding single_gets_def assms by simp
qed

lemma other_events: "\<not> is_launch e \<Longrightarrow> event_ok e \<and> target_of e = None"
  by (cases e) simp_all

text \<open>A publish and a get of the same slot, whatever the schedule.\<close>

lemma publish_meets_get:
  assumes cl: "idle cl" "named ctx" "mailboxes_for (length es) cl" "store_of cl n b k = None"
    and es: "mset (filter is_launch es) = {#Launch_get c n b k fg cg, Launch_publish s n b k d fp cp#}"
    and ok: "short_key k" "transferable d" "pub_flags_ok fp"
  obtains h cl' where "cluster_run ctx es cl = Inr (h, cl')"
    "m \<noteq> n \<Longrightarrow> n_lkv (nodes cl' m) = n_lkv (nodes cl m)"
    "quiescent cl' \<Longrightarrow> Return c (Got cg True k (Some (fresh_copy d))) \<in> set h \<and> Return s (Published cp KELPIE_OK) \<in> set h \<and>
       store_of cl' n b k = Some (Some (fresh_copy d))"
proof -
  let ?W = "Launch_get c n b k fg cg" and ?P = "Launch_publish s n b k d fp cp"
  have "\<forall>e\<in>set (filter is_launch es). e = ?W \<or> e = ?P"
    by (simp only: es set_mset_mset [symmetric]) simp
  then have L: "e = ?W \<or> e = ?P" if "e \<in> set es" "is_launch e" for e using that by simp
  have L': "event_ok e \<and> (m \<noteq> n \<longrightarrow> target_of e \<noteq> Some m)" if "e \<in> set es" for e
    using L [OF that] other_events [of e] ok by (cases "is_launch e") auto
  then have eok: "\<forall>e\<in>set es. event_ok e" by blast
  have one: "count_list es ?W = 1" "count_list es ?P = 1" by (simp_all only: count_launches is_launch.simps es) simp_all
  note R = idle_run_ok [OF cl(1,2) eok cl(3)]
  obtain h cl' where r: "cluster_run ctx es cl = Inr (h, cl')"
    using R one_get_single [OF es] by (cases "cluster_run ctx es cl") (auto simp: run_ok_def)
  obtain S where S: "cluster_inv ctx cl' S" "atomic_run (abstract cl {#}) h (abstract cl' S)" using R r by (auto simp: run_ok_def)
  note I = run_invokes [OF r]
  have inv: "on_its_way n b k (fresh_copy d) ?W (c, Got cg True k (Some (fresh_copy d))) ?P (s, Published cp KELPIE_OK) ([] @ h) (abstract cl' S)"
  proof (rule on_its_way_run [OF S(2)])
    show "\<forall>e. Invoke e \<in> set h \<longrightarrow> e \<in> {?W, ?P}"
      using I L by (metis count_list_0_iff insert_iff)
    show "count_list ([] @ h) (Invoke ?P) \<le> 1" using I [of ?P] one by simp
  qed (use cl(4) in \<open>simp add: on_its_way_def abstract_empty\<close>)
  have inv2: "Invoke ?W \<in> set h" "Invoke ?P \<in> set h"
    using I [of ?W] I [of ?P] one count_list_0_iff [of h "Invoke ?W"] count_list_0_iff [of h "Invoke ?P"] by auto
  have "n_lkv (nodes cl' m) = n_lkv (nodes cl m)" if "m \<noteq> n"
  proof (rule run_keeps_lkv [OF idle_inv [OF cl(1)] cl(2) eok cl(3) _ _ r])
    show "\<forall>e\<in>set es. target_of e \<noteq> Some m" using L' that by blast
  qed simp
  moreover have "Return c (Got cg True k (Some (fresh_copy d))) \<in> set h \<and> Return s (Published cp KELPIE_OK) \<in> set h \<and> store_of cl' n b k = Some (Some (fresh_copy d))"
    if "quiescent cl'"
  proof -
    note q = quiescent_pending [OF S(1) that]
    have "\<not> ?P \<in># a_pending (abstract cl' S)" using q(2) [of ?P] by auto
    then have "a_store (abstract cl' S) n b k = Some (Some (fresh_copy d))" "Return s (Published cp KELPIE_OK) \<in> set h"
      using inv inv2 q(1) by (auto simp: on_its_way_def)
    moreover from this have "\<not> ?W \<in># a_pending (abstract cl' S)" using q(2) [of ?W] by (auto simp: abstract_def)
    ultimately show ?thesis using inv inv2 q(1) by (auto simp: on_its_way_def abstract_def)
  qed
  ultimately show ?thesis using that [OF r] by blast
qed

section \<open>What the pool does for a remote key\<close>

lemma node_at_target:
  assumes "FindTargetNode key pool = (1, Some n)"
  shows "node_at (findNodeIndex key pool) pool = Inr n"
proof -
  have ne: "dht_nodes pool \<noteq> []" and n: "n = dht_nodes pool ! findNodeIndex key pool"
    using assms by (auto simp: FindTargetNode_def split: if_splits)
  have "findNodeIndex key pool < length (dht_nodes pool)" using ne by (auto simp: findNodeIndex_def)
  then show ?thesis using n by (simp add: node_at_def)
qed

text \<open>A first want leaves its callback in the store and asks the owner.\<close>

lemma want_remote:
  assumes t: "stores_ok t" and v: "valid key" and new: "cell_at b key t = None" and b: "default_bucket (dht_base pool) = b"
    and n: "FindTargetNode key pool = (1, Some n)" "n \<noteq> my_nodeid pool"
  obtains t1 c1 where
    "dht_Want ctx now key 0 (Some w) fetch pool io t = Inr (KELPIE_OK, \<lparr>out_calls = [], out_effects = [],
       out_ops = [\<lambda>m. Op_getunbounded (OpKelpieGetUnbounded_origin ctx n b key (pool_iom_hash (dht_base pool)) (behavior_flags (dht_base pool)) fetch m)],
       out_lkv = t1, out_io = io\<rparr>)"
    "stores_ok t1" "\<And>b' k'. waiting_at b' k' t1 = waiting_at b' k' t" "\<And>b' k'. stored b' k' t1 = stored b' k' t"
    "cell_at b key t1 = Some c1" "callback_list c1 = [w]" "waiting_ops_list c1 = []" "availability c1 \<noteq> InLocalMemory"
proof -
  have inv: "lkv_inv t" and nl: "no_lost_waiters t" using t by (simp_all add: stores_ok_def)
  obtain rc effs t1 where p: "wantLocal now b key True (Some w) t = Inr ((rc, effs), t1)" using want_total [OF v] by blast
  obtain c e where c: "target_cell now CREATE_IF_MISSING (cell_at b key t) = Some (c, e)" using target_cell_create [OF flag_tests(5)] by blast
  have c0: "callback_list c = []" "waiting_ops_list c = []" "availability c = Unavailable"
    using c new by (auto simp: target_cell_def new_LocalKVCell_def split: if_splits)
  note W = want_cell [OF inv v c p]
  let ?c1 = "(want_outcome True (Some w) c)\<lparr>time_accessed := now\<rparr>"
  have c1: "callback_list ?c1 = [w]" "waiting_ops_list ?c1 = []" "availability ?c1 = Requested"
    using c0 by (simp_all add: want_outcome_def appendCallbackList_def Let_def)
  have cells: "cell_at b' k' t1 = (if same_slot b' k' b key then Some ?c1 else cell_at b' k' t)" for b' k' using W by blast
  have none: "cell_at b' k' t = None" if "same_slot b' k' b key" for b' k' using new cell_at_same_slot [OF that] by simp
  have st: "stored b' k' t1 = stored b' k' t" "waiting_at b' k' t1 = waiting_at b' k' t" for b' k'
    using none c1 by (auto simp: stored_def waiting_at_def cells)
  have "stores_ok t1" using t W st want_no_lost [OF inv nl p] by (simp add: stores_ok_def)
  moreover have "rc = KELPIE_ENOENT" "effs = []" using W c0 by auto
  ultimately show ?thesis
    using that [of t1 ?c1] p st cells c1 node_at_target [OF n(1)] n(2) b by (simp add: dht_Want_def Let_def rc_defs)
qed

lemma publish_remote:
  assumes "FindTargetNode key pool = (1, Some n)" "n \<noteq> my_nodeid pool" "\<not> has_flag (behavior_flags (dht_base pool)) WriteToLocal"
  shows "dht_Publish ctx now key x cb pool io t = Inr (KELPIE_OK, \<lparr>out_calls = [], out_effects = [],
    out_ops = [\<lambda>m. Op_publish (OpKelpiePublish_origin ctx n (default_bucket (dht_base pool)) key x (pool_iom_hash (dht_base pool))
      (behavior_flags (dht_base pool)) cb m)], out_lkv = t, out_io = io\<rparr>)"
  using assms node_at_target [OF assms(1)] by (simp add: dht_Publish_def Let_def)

text \<open>The fetched object reaches the callbacks that wait for it, even if the pool does not cache it.\<close>

lemma fetched_wakes:
  assumes t: "stores_ok t" and v: "valid key" and c: "cell_at (default_bucket (dht_base pool)) key t = Some c" "waiting_ops_list c = []"
    "availability c \<noteq> InLocalMemory"
  obtains t1 io1 i where "dht_fetched now True key (Some d) pool io t = Inr (map (\<lambda>cb. Backburner cb key (Some d) i) (callback_list c), t1, io1)"
    "stored (default_bucket (dht_base pool)) key t1 = Some (Some d)"
proof -
  let ?b = "default_bucket (dht_base pool)" and ?f = "behavior_flags (dht_base pool)"
  have inv: "lkv_inv t" using t by (simp add: stores_ok_def)
  obtain rc info effs t1 io1 where p: "put now ?b key (Some d) ?f None io t = Inr ((rc, info, effs), t1, io1)"
    using put_total [OF v, of now ?b "Some d" ?f None io t] by blast
  have "cell_ldo (put_outcome now (Some d) ?f c) = Some d" using c(3) by (simp add: put_outcome_def put_lambda_def)
  then obtain i where "effs = map (\<lambda>cb. Backburner cb key (Some d) i) (callback_list c)" "stored ?b key t1 = Some (Some d)"
    using put_wakes [OF inv v c(1) p] c(2) by (fastforce simp: stored_def)
  then show ?thesis using that [of i t1 io1] p by (simp add: dht_fetched_def)
qed

section \<open>From one pool to another\<close>

text \<open>The event that launches what the pool asks for, and a node whose store the pool has updated.\<close>

definition pool_launches :: "(nodeid_t \<Rightarrow> 'io node_ctx) \<Rightarrow> nodeid_t \<Rightarrow> 'io dht_out \<Rightarrow> event \<Rightarrow> bool" where
  "pool_launches ctx n out e = (\<exists>mk. out_ops out = [mk] \<and> (\<forall>cl. cluster_step ctx e cl = launch n mk cl))"

definition with_store :: "nodeid_t \<Rightarrow> LocalKV \<Rightarrow> 'io cluster \<Rightarrow> 'io cluster" where
  "with_store n t cl = cl\<lparr>nodes := (nodes cl)(n := (nodes cl n)\<lparr>n_lkv := t\<rparr>)\<rparr>"

definition pools_agree :: "'io DHTPool \<Rightarrow> 'io DHTPool \<Rightarrow> bool" where
  "pools_agree p q = (dht_nodes p = dht_nodes q \<and> default_bucket (dht_base p) = default_bucket (dht_base q) \<and>
     pool_iom_hash (dht_base p) = 0 \<and> pool_iom_hash (dht_base q) = 0)"

lemma pools_agree_target: "pools_agree p q \<Longrightarrow> FindTargetNode key p = FindTargetNode key q"
  by (simp add: pools_agree_def FindTargetNode_def findNodeIndex_def)

lemma with_store_idle:
  assumes "idle cl" "stores_ok t" "\<And>b k. waiting_at b k t = []"
  shows "idle (with_store n t cl)"
  using assms by (simp add: idle_def with_store_def node_ok_def)

lemma short_key_valid: "short_key k \<Longrightarrow> valid k"
  by (simp add: short_key_def)

lemma pools_journey:
  assumes cl: "idle cl" "named ctx" "mailboxes_for (length es) cl" "store_of cl n (default_bucket (dht_base pc)) key = None" "n \<noteq> c"
    and t1: "stores_ok t1" "\<And>b k. waiting_at b k t1 = []" "cell_at (default_bucket (dht_base pc)) key t1 = Some c1"
      "callback_list c1 = [w]" "waiting_ops_list c1 = []" "availability c1 \<noteq> InLocalMemory"
    and es: "mset (filter is_launch es) = {#Launch_get c n (default_bucket (dht_base pc)) key fg fetch,
      Launch_publish s n (default_bucket (dht_base pc)) key d fp p#}"
    and ok: "short_key key" "transferable d" "pub_flags_ok fp"
  shows "case cluster_run ctx es (with_store c t1 cl) of
     Inl _ \<Rightarrow> False
   | Inr (h, cl') \<Rightarrow> quiescent cl' \<longrightarrow>
       Return s (Published p KELPIE_OK) \<in> set h \<and> Return c (Got fetch True key (Some (fresh_copy d))) \<in> set h \<and>
       store_of cl' n (default_bucket (dht_base pc)) key = Some (Some (fresh_copy d)) \<and>
       (case dht_fetched now True key (Some (fresh_copy d)) pc (n_io (nodes cl' c)) (n_lkv (nodes cl' c)) of
          Inl _ \<Rightarrow> False
        | Inr (effs, t, _) \<Rightarrow> stored (default_bucket (dht_base pc)) key t = Some (Some (fresh_copy d)) \<and>
            (\<exists>i. effs = [Backburner w key (Some (fresh_copy d)) i]))"
proof -
  let ?cl = "with_store c t1 cl"
  have start: "idle ?cl" "mailboxes_for (length es) ?cl" "store_of ?cl n (default_bucket (dht_base pc)) key = None"
    using with_store_idle [OF cl(1) t1(1,2)] cl(3-5) by (simp_all add: mailboxes_for_def with_store_def store_of_def)
  obtain h cl' where r: "cluster_run ctx es ?cl = Inr (h, cl')" "c \<noteq> n \<Longrightarrow> n_lkv (nodes cl' c) = n_lkv (nodes ?cl c)"
    "quiescent cl' \<Longrightarrow> Return c (Got fetch True key (Some (fresh_copy d))) \<in> set h \<and> Return s (Published p KELPIE_OK) \<in> set h \<and>
       store_of cl' n (default_bucket (dht_base pc)) key = Some (Some (fresh_copy d))"
    by (rule publish_meets_get [where m = c, OF start(1) cl(2) start(2,3) es ok]) blast
  have lkv: "n_lkv (nodes cl' c) = t1" using r(2) cl(5) by (simp add: with_store_def)
  obtain t io1 i where "dht_fetched now True key (Some (fresh_copy d)) pc (n_io (nodes cl' c)) t1 = Inr ([Backburner w key (Some (fresh_copy d)) i], t, io1)"
    "stored (default_bucket (dht_base pc)) key t = Some (Some (fresh_copy d))"
    by (rule fetched_wakes [OF t1(1) short_key_valid [OF ok(1)] t1(3,5,6), of now "fresh_copy d" "n_io (nodes cl' c)"]) (use t1(4) in simp)
  then show ?thesis unfolding r(1) lkv using r(3) by (simp add: lkv)
qed

text \<open>
  C6. An object goes from a pool on one node to a pool on another: the pools send its key to the same
  owner; the want leaves its callback in the local store and launches a get, the publish launches a
  publish.  Whatever the schedule of these two ops, no node fails, and when the cluster is at rest
  the publisher has been told that the object is stored, the owner holds it, the get has returned
  it, and handing it to the pool calls the waiting callback with it, once.  The object has bytes, fits the 32-bit
  sizes and has at least the padding of its size; what arrives is its type, meta and data in an allocation of that size.
\<close>
theorem dht_delivers:
  assumes "idle cl" "named ctx" "pools_agree pc ps" "my_nodeid pc = c" "my_nodeid ps = s"
    and "FindTargetNode key pc = (1, Some n)" "n \<noteq> c" "n \<noteq> s" "short_key key" "transferable d"
    and "pub_flags_ok (behavior_flags (dht_base ps))" "\<not> has_flag (behavior_flags (dht_base ps)) WriteToLocal"
    and "cell_at (default_bucket (dht_base pc)) key (n_lkv (nodes cl c)) = None" "store_of cl n (default_bucket (dht_base pc)) key = None"
  shows "case (dht_Want (ctx c) now key 0 (Some w) fetch pc (n_io (nodes cl c)) (n_lkv (nodes cl c)),
               dht_Publish (ctx s) now key (Some d) (Some p) ps (n_io (nodes cl s)) (n_lkv (nodes cl s))) of
     (Inr (rcw, want), Inr (rcp, pub)) \<Rightarrow>
       rcw = KELPIE_OK \<and> rcp = KELPIE_OK \<and> out_lkv pub = n_lkv (nodes cl s) \<and>
       (\<exists>W P. pool_launches ctx c want W \<and> pool_launches ctx s pub P \<and>
         (\<forall>es. mset (filter is_launch es) = {#W, P#} \<and> mailboxes_for (length es) cl \<longrightarrow>
            (case cluster_run ctx es (with_store c (out_lkv want) cl) of
               Inl _ \<Rightarrow> False
             | Inr (h, cl') \<Rightarrow> quiescent cl' \<longrightarrow>
                 Return s (Published p KELPIE_OK) \<in> set h \<and> Return c (Got fetch True key (Some (fresh_copy d))) \<in> set h \<and>
                 store_of cl' n (default_bucket (dht_base pc)) key = Some (Some (fresh_copy d)) \<and>
                 (case dht_fetched now True key (Some (fresh_copy d)) pc (n_io (nodes cl' c)) (n_lkv (nodes cl' c)) of
                    Inl _ \<Rightarrow> False
                  | Inr (effs, t, _) \<Rightarrow> stored (default_bucket (dht_base pc)) key t = Some (Some (fresh_copy d)) \<and>
                      (\<exists>i. effs = [Backburner w key (Some (fresh_copy d)) i])))))
   | _ \<Rightarrow> False"
proof -
  let ?b = "default_bucket (dht_base pc)" and ?fc = "behavior_flags (dht_base pc)" and ?fs = "behavior_flags (dht_base ps)"
  let ?W = "Launch_get c n ?b key ?fc fetch" and ?P = "Launch_publish s n ?b key d ?fs p"
  have st: "stores_ok (n_lkv (nodes cl c))" and nw: "\<And>b k. waiting_at b k (n_lkv (nodes cl c)) = []"
    using assms(1) by (simp_all add: idle_def node_ok_def)
  have iom: "pool_iom_hash (dht_base pc) = 0" "pool_iom_hash (dht_base ps) = 0" "default_bucket (dht_base ps) = ?b"
    using assms(3) by (simp_all add: pools_agree_def)
  have tgt: "FindTargetNode key ps = (1, Some n)" using pools_agree_target [OF assms(3), of key] assms(6) by simp
  note pub = publish_remote [OF tgt, of "ctx s" now "Some d" "Some p" "n_io (nodes cl s)" "n_lkv (nodes cl s)", unfolded assms(5), OF assms(8,12)]
  obtain t1 c1 where want: "dht_Want (ctx c) now key 0 (Some w) fetch pc (n_io (nodes cl c)) (n_lkv (nodes cl c)) =
      Inr (KELPIE_OK, \<lparr>out_calls = [], out_effects = [],
       out_ops = [\<lambda>m. Op_getunbounded (OpKelpieGetUnbounded_origin (ctx c) n ?b key (pool_iom_hash (dht_base pc)) ?fc fetch m)],
       out_lkv = t1, out_io = n_io (nodes cl c)\<rparr>)"
    and t1: "stores_ok t1" "\<And>b k. waiting_at b k t1 = []"
      "cell_at ?b key t1 = Some c1" "callback_list c1 = [w]" "waiting_ops_list c1 = []" "availability c1 \<noteq> InLocalMemory"
    using want_remote [OF st short_key_valid [OF assms(9)] assms(13) refl assms(6), of "ctx c" now w fetch "n_io (nodes cl c)"] nw assms(4,7)
    by metis
  note journey = pools_journey [where pc = pc and now = now, OF assms(1,2) _ assms(14,7) t1 _ assms(9-11)]
  show ?thesis
    unfolding want pub sum.case prod.case dht_out.simps
    by (intro conjI refl, rule exI [where x = ?W], rule exI [where x = ?P])
      (use journey in \<open>simp add: pool_launches_def iom\<close>)
qed

definition dht_demo :: "nodeid_t \<Rightarrow> unit DHTPool" where
  "dht_demo n = \<lparr>dht_base = \<lparr>default_bucket = 5, pool_iom = None, pool_iom_hash = 0, behavior_flags = DefaultRemote\<rparr>,
     dht_nodes = [2, 6, 7], my_nodeid = n\<rparr>"

lemma demo_owner: "FindTargetNode demo_key (dht_demo 3) = (1, Some 6)"
  by code_simp

lemma demo_pools:
  "pools_agree (dht_demo 3) (dht_demo 1)" "my_nodeid (dht_demo n) = n" "default_bucket (dht_base (dht_demo n)) = 5"
  "pub_flags_ok (behavior_flags (dht_base (dht_demo n)))" "\<not> has_flag (behavior_flags (dht_base (dht_demo n))) WriteToLocal"
  by (simp_all add: pools_agree_def dht_demo_def DefaultRemote_def pub_flags_ok_def ChangeRemoteToLocal_def has_flag_def flag_defs)

lemma demo_slots: "short_key demo_key" "cell_at 5 demo_key (n_lkv (nodes demo_cluster n)) = None"
  "store_of demo_cluster n 5 demo_key = None"
  by (simp_all add: demo_key_def short_key_def valid_def cell_at_def getRow_def
      demo_cluster_def demo_node_def new_LocalKV_def store_of_def stored_def)

theorem dht_delivers_witness:
  "FindTargetNode demo_key (dht_demo 3) = (1, Some 6) \<and> pools_agree (dht_demo 3) (dht_demo 1) \<and>
   (case (dht_Want (demo_ctx 3) 0 demo_key 0 (Some 9) 8 (dht_demo 3) (n_io (nodes demo_cluster 3)) (n_lkv (nodes demo_cluster 3)),
          dht_Publish (demo_ctx 1) 0 demo_key (Some demo_object) (Some 7) (dht_demo 1) (n_io (nodes demo_cluster 1)) (n_lkv (nodes demo_cluster 1))) of
     (Inr (rcw, want), Inr (rcp, pub)) \<Rightarrow>
       rcw = KELPIE_OK \<and> rcp = KELPIE_OK \<and> out_lkv pub = n_lkv (nodes demo_cluster 1) \<and>
       (\<exists>W P. pool_launches demo_ctx 3 want W \<and> pool_launches demo_ctx 1 pub P \<and>
         (\<forall>es. mset (filter is_launch es) = {#W, P#} \<and> mailboxes_for (length es) demo_cluster \<longrightarrow>
            (case cluster_run demo_ctx es (with_store 3 (out_lkv want) demo_cluster) of
               Inl _ \<Rightarrow> False
             | Inr (h, cl') \<Rightarrow> quiescent cl' \<longrightarrow>
                 Return 1 (Published 7 KELPIE_OK) \<in> set h \<and> Return 3 (Got 8 True demo_key (Some demo_object)) \<in> set h \<and>
                 store_of cl' 6 5 demo_key = Some (Some demo_object) \<and>
                 (case dht_fetched 0 True demo_key (Some demo_object) (dht_demo 3) (n_io (nodes cl' 3)) (n_lkv (nodes cl' 3)) of
                    Inl _ \<Rightarrow> False
                  | Inr (effs, t, _) \<Rightarrow> stored 5 demo_key t = Some (Some demo_object) \<and>
                      (\<exists>i. effs = [Backburner 9 demo_key (Some demo_object) i])))))
   | _ \<Rightarrow> False)"
proof (rule conjI [OF demo_owner conjI [OF demo_pools(1)]])
  note D = dht_delivers [where cl = demo_cluster and ctx = demo_ctx and pc = "dht_demo 3" and ps = "dht_demo 1" and c = 3 and s = 1
      and key = demo_key and n = 6 and d = demo_object and now = 0 and w = 9 and fetch = 8 and p = 7, unfolded demo_pools(3) demo_object_transferable(2)]
  show "case (dht_Want (demo_ctx 3) 0 demo_key 0 (Some 9) 8 (dht_demo 3) (n_io (nodes demo_cluster 3)) (n_lkv (nodes demo_cluster 3)),
          dht_Publish (demo_ctx 1) 0 demo_key (Some demo_object) (Some 7) (dht_demo 1) (n_io (nodes demo_cluster 1)) (n_lkv (nodes demo_cluster 1))) of
     (Inr (rcw, want), Inr (rcp, pub)) \<Rightarrow>
       rcw = KELPIE_OK \<and> rcp = KELPIE_OK \<and> out_lkv pub = n_lkv (nodes demo_cluster 1) \<and>
       (\<exists>W P. pool_launches demo_ctx 3 want W \<and> pool_launches demo_ctx 1 pub P \<and>
         (\<forall>es. mset (filter is_launch es) = {#W, P#} \<and> mailboxes_for (length es) demo_cluster \<longrightarrow>
            (case cluster_run demo_ctx es (with_store 3 (out_lkv want) demo_cluster) of
               Inl _ \<Rightarrow> False
             | Inr (h, cl') \<Rightarrow> quiescent cl' \<longrightarrow>
                 Return 1 (Published 7 KELPIE_OK) \<in> set h \<and> Return 3 (Got 8 True demo_key (Some demo_object)) \<in> set h \<and>
                 store_of cl' 6 5 demo_key = Some (Some demo_object) \<and>
                 (case dht_fetched 0 True demo_key (Some demo_object) (dht_demo 3) (n_io (nodes cl' 3)) (n_lkv (nodes cl' 3)) of
                    Inl _ \<Rightarrow> False
                  | Inr (effs, t, _) \<Rightarrow> stored 5 demo_key t = Some (Some demo_object) \<and>
                      (\<exists>i. effs = [Backburner 9 demo_key (Some demo_object) i])))))
   | _ \<Rightarrow> False"
    by (rule D) (use demo_hyps(1,2) demo_owner demo_pools demo_slots demo_object_transferable(1) in simp_all)
qed

end
