(* ===== verification/Remote_Compute.thy ===== *)
theory Remote_Compute
  imports Dht_Pool
begin

text \<open>
  A computation on another node: the pool launches the compute op, the owner of the key runs the function on its
  objects, and the result comes back by message and memory transfer.  The theory follows one computation
  in a cluster that is otherwise at rest, under every schedule, to its answer and to what it leaves behind.
\<close>

section \<open>The computation and its phases\<close>

record compute_req =
  q_origin :: nodeid_t
  q_target :: nodeid_t
  q_bucket :: bucket_t
  q_key :: key
  q_iom :: u32
  q_flags :: pool_behavior_t
  q_fn :: string
  q_args :: string
  q_cb :: callback_t
  q_mb :: mailbox_t
  q_tmb :: mailbox_t

definition q_op :: "(nodeid_t \<Rightarrow> 'io node_ctx) \<Rightarrow> compute_req \<Rightarrow> OpKelpieCompute" where
  "q_op ctx q = OpKelpieCompute_origin (ctx (q_origin q)) (q_target q) (q_bucket q) (q_key q) (q_iom q) (q_flags q) (q_fn q) (q_args q) (q_cb q) (q_mb q)"

definition q_request :: "(nodeid_t \<Rightarrow> 'io node_ctx) \<Rightarrow> compute_req \<Rightarrow> msg_direct_simple_t" where
  "q_request ctx q = simple_Alloc (simple_body (ctx (q_origin q))) (my_id (ctx (q_origin q))) compute_id CMD_COMPUTE (q_target q) (q_mb q)
     MAILBOX_UNSPECIFIED (q_bucket q) (q_key q) (q_iom q) (q_flags q) (q_fn q) (q_args q)"

definition q_waiting :: "(nodeid_t \<Rightarrow> 'io node_ctx) \<Rightarrow> compute_req \<Rightarrow> OpKelpieCompute" where
  "q_waiting ctx q = (q_op ctx q)\<lparr>kop_msg := None, kop_state := Orig_compute_wait_for_info\<rparr>"

definition q_served :: "compute_req \<Rightarrow> ldo \<Rightarrow> OpKelpieCompute" where
  "q_served q x = (OpKelpieCompute_target (q_tmb q))\<lparr>kop_peer := Some (q_origin q), kop_bucket := q_bucket q, kop_key := q_key q,
     kop_data := x, kop_msg := None, kop_state := Trgt_compute_wait_for_ack\<rparr>"

definition q_reply :: "(nodeid_t \<Rightarrow> 'io node_ctx) \<Rightarrow> compute_req \<Rightarrow> rc_t \<Rightarrow> ldo \<Rightarrow> msg_direct_buffer_t" where
  "q_reply ctx q rc x = buffer_Alloc (buffer_body (ctx (q_target q))) (my_id (ctx (q_target q))) compute_id
     (if rc = KELPIE_OK then CMD_STATUS_ACK else CMD_STATUS_NACK) (q_origin q) (q_tmb q) (q_mb q) (q_bucket q) (q_key q) 0 0
     (if rc = KELPIE_OK then x else None)"

definition q_ack :: "(nodeid_t \<Rightarrow> 'io node_ctx) \<Rightarrow> compute_req \<Rightarrow> dataobject \<Rightarrow> msg_direct_status_t" where
  "q_ack ctx q d = AllocAck (status_body (ctx (q_origin q))) (my_id (ctx (q_origin q))) (mb_hdr (q_reply ctx q KELPIE_OK (Some d)))"

definition q_fetching :: "(nodeid_t \<Rightarrow> 'io node_ctx) \<Rightarrow> compute_req \<Rightarrow> dataobject \<Rightarrow> ldo \<Rightarrow> OpKelpieCompute" where
  "q_fetching ctx q d x = (q_waiting ctx q)\<lparr>kop_peer := Some (q_target q), kop_data := x, kop_msg := Some (Msg_status (q_ack ctx q d)),
     kop_state := Orig_compute_wait_for_rdma\<rparr>"

text \<open>What a phase adds to a cluster at rest: the op, the queued calls and the user calls of the origin; op, queue and store of the target.\<close>

definition core_with ::
  "(kelpie_op, kelpie_msg, ldo \<times> object_info_t) OpBoxCore \<Rightarrow> OpKelpieCompute option \<Rightarrow> op_args list \<Rightarrow> (kelpie_op, kelpie_msg, ldo \<times> object_info_t) OpBoxCore" where
  "core_with c op w = c\<lparr>next_mailbox := next_mailbox c + 1,
     active_ops := (case op of None \<Rightarrow> [] | Some op \<Rightarrow> [(next_mailbox c, Op_compute op)]), work := map (Pair (next_mailbox c)) w\<rparr>"

definition origin_with :: "'io node \<Rightarrow> OpKelpieCompute option \<Rightarrow> op_args list \<Rightarrow> user_call list \<Rightarrow> 'io node" where
  "origin_with nd op w calls = nd\<lparr>n_core := core_with (n_core nd) op w, n_calls := n_calls nd @ calls\<rparr>"

definition target_with :: "'io node \<Rightarrow> OpKelpieCompute option \<Rightarrow> op_args list \<Rightarrow> LocalKV \<Rightarrow> 'io node" where
  "target_with nd op w t = nd\<lparr>n_core := core_with (n_core nd) op w, n_lkv := t\<rparr>"

definition staged ::
  "compute_req \<Rightarrow> ('io node \<Rightarrow> 'io node) \<Rightarrow> ('io node \<Rightarrow> 'io node) \<Rightarrow> (nodeid_t \<times> kelpie_msg) list \<Rightarrow> (nodeid_t \<times> rdma_req) list \<Rightarrow>
     'io cluster \<Rightarrow> 'io cluster" where
  "staged q f g w d cl = cl\<lparr>nodes := (nodes cl)(q_origin q := f (nodes cl (q_origin q)), q_target q := g (nodes cl (q_target q))), wire := w, dma := d\<rparr>"

datatype compute_phase = Q_send | Q_sent | Q_arrived | Q_replied LocalKV | Q_informed LocalKV | Q_left LocalKV
  | Q_transfer LocalKV | Q_received LocalKV | Q_acking LocalKV | Q_acked LocalKV | Q_over LocalKV

text \<open>The answer, when there is nothing to transfer.\<close>

definition q_answer :: "compute_req \<Rightarrow> rc_t \<Rightarrow> ldo \<Rightarrow> user_call" where
  "q_answer q rc x = Compute_result (q_cb q) rc (q_key q) x"

fun phase_at :: "(nodeid_t \<Rightarrow> 'io node_ctx) \<Rightarrow> compute_req \<Rightarrow> rc_t \<Rightarrow> ldo \<Rightarrow> 'io cluster \<Rightarrow> compute_phase \<Rightarrow> 'io cluster" where
  "phase_at ctx q rc x cl Q_send = staged q (\<lambda>nd. origin_with nd (Some (q_op ctx q)) [Args_update Start] []) id [] [] cl"
| "phase_at ctx q rc x cl Q_sent = staged q (\<lambda>nd. origin_with nd (Some (q_waiting ctx q)) [] []) id [(q_target q, Msg_simple (q_request ctx q))] [] cl"
| "phase_at ctx q rc x cl Q_arrived = staged q (\<lambda>nd. origin_with nd (Some (q_waiting ctx q)) [] [])
     (\<lambda>nd. target_with nd (Some (OpKelpieCompute_target (q_tmb q))) [Args_message (Msg_simple (q_request ctx q))] (n_lkv nd)) [] [] cl"
| "phase_at ctx q rc x cl (Q_replied t) = staged q (\<lambda>nd. origin_with nd (Some (q_waiting ctx q)) [] [])
     (\<lambda>nd. target_with nd (Some (q_served q x)) [] t) [(q_origin q, Msg_buffer (q_reply ctx q rc x))] [] cl"
| "phase_at ctx q rc x cl (Q_informed t) = staged q (\<lambda>nd. origin_with nd (Some (q_waiting ctx q)) [Args_message (Msg_buffer (q_reply ctx q rc x))] [])
     (\<lambda>nd. target_with nd (Some (q_served q x)) [] t) [] [] cl"
| "phase_at ctx q rc x cl (Q_left t) = staged q (\<lambda>nd. origin_with nd None [] [q_answer q (if rc = KELPIE_OK then KELPIE_OK else KELPIE_ENOENT) None])
     (\<lambda>nd. target_with nd (Some (q_served q x)) [] t) [] [] cl"
| "phase_at ctx q rc x cl (Q_transfer t) =
     staged q (\<lambda>nd. origin_with nd (Some (q_fetching ctx q (the x) (Some (landing (ctx (q_origin q)) (the x))))) [] [])
     (\<lambda>nd. target_with nd (Some (q_served q x)) [] t) [] [(q_origin q, Rdma_Get (q_mb q) (GetRdmaPtr (q_target q) (q_tmb q) (the x)))] cl"
| "phase_at ctx q rc x cl (Q_received t) =
     staged q (\<lambda>nd. origin_with nd (Some (q_fetching ctx q (the x) (map_option fresh_copy x))) [Args_update Get_success] [])
     (\<lambda>nd. target_with nd (Some (q_served q x)) [] t) [] [] cl"
| "phase_at ctx q rc x cl (Q_acking t) = staged q (\<lambda>nd. origin_with nd None [] [q_answer q KELPIE_OK (map_option fresh_copy x)])
     (\<lambda>nd. target_with nd (Some (q_served q x)) [] t) [(q_target q, Msg_status (status_SetSuccess True (q_ack ctx q (the x))))] [] cl"
| "phase_at ctx q rc x cl (Q_acked t) = staged q (\<lambda>nd. origin_with nd None [] [q_answer q KELPIE_OK (map_option fresh_copy x)])
     (\<lambda>nd. target_with nd (Some (q_served q x)) [Args_message (Msg_status (status_SetSuccess True (q_ack ctx q (the x))))] t) [] [] cl"
| "phase_at ctx q rc x cl (Q_over t) = staged q (\<lambda>nd. origin_with nd None [] [q_answer q KELPIE_OK (map_option fresh_copy x)])
     (\<lambda>nd. target_with nd None [] t) [] [] cl"

section \<open>The op's updates\<close>

lemma compute_sends:
  "kelpie_Update c now a (Op_compute (q_op ctx q)) env =
     Inr (Waiting_on_cq, Op_compute (q_waiting ctx q), env\<lparr>e_sends := e_sends env @ [(q_target q, Msg_simple (q_request ctx q))]\<rparr>)"
  by (simp add: wrap_op_def compute_Update_def smo_Compute_Send_def SendMsg_def updateState_def q_op_def q_waiting_def q_request_def
      OpKelpieCompute_origin_def blank_op_def)

lemma compute_serves:
  assumes "my_id (ctx (q_origin q)) = q_origin q" "short_key (q_key q)" "length (q_fn q) < 256" "length (q_args q) < 2 ^ 16"
    and "lkv_doCompute (compute_registry (ctx (q_target q))) now (q_fn q) (q_args q) (q_bucket q) (q_key q) (Some None) (e_lkv env) = Inr ((rc, y), t)"
    and "x = (case y of Some l \<Rightarrow> l | None \<Rightarrow> None)"
  shows "kelpie_Update (ctx (q_target q)) now (Args_message (Msg_simple (q_request ctx q))) (Op_compute (OpKelpieCompute_target (q_tmb q))) env =
     Inr (Waiting_on_cq, Op_compute (q_served q x), env\<lparr>e_lkv := t, e_sends := e_sends env @ [(q_origin q, Msg_buffer (q_reply ctx q rc x))]\<rparr>)"
  using assms
  by (cases y) (simp_all add: wrap_op_def compute_Update_def smt_Compute_Start_def SendMsg_def updateState_def q_request_def q_served_def q_reply_def
      OpKelpieCompute_target_def blank_op_def expect_simple_def ExpectMessageOrDie_def Let_def)

lemma reply_kind: "IsNack (mb_hdr (q_reply ctx q rc x)) \<longleftrightarrow> rc \<noteq> KELPIE_OK"
  by (simp add: q_reply_def IsNack_def flag_consts)

lemma compute_told:
  assumes "my_id (ctx (q_target q)) = q_target q" "rc \<noteq> KELPIE_OK \<or> GetMetaSize x + GetDataSize x = 0"
  shows "\<exists>op1. kelpie_Update c now (Args_message (Msg_buffer (q_reply ctx q rc x))) (Op_compute (q_waiting ctx q)) env =
     Inr (Done_and_destroy, Op_compute op1, env\<lparr>e_calls := e_calls env @ [q_answer q (if rc = KELPIE_OK then KELPIE_OK else KELPIE_ENOENT) None]\<rparr>)"
proof -
  have "meta_plus_data_size (q_reply ctx q rc x) = 0" if "rc = KELPIE_OK"
    using assms(2) that by (simp add: q_reply_def buffer_Alloc_def SetLDO_def Let_def)
  then show ?thesis
    by (auto simp: wrap_op_def compute_Update_def smo_Compute_WaitInfo_def compute_call_def updateState_def q_waiting_def q_op_def
        OpKelpieCompute_origin_def blank_op_def expect_buffer_def ExpectMessageOrDie_def Let_def reply_kind q_answer_def)
qed

lemma compute_fetches:
  assumes "my_id (ctx (q_target q)) = q_target q" "transferable d"
  shows "kelpie_Update (ctx (q_origin q)) now (Args_message (Msg_buffer (q_reply ctx q KELPIE_OK (Some d)))) (Op_compute (q_waiting ctx q)) env =
     Inr (Waiting_on_cq, Op_compute (q_fetching ctx q d (Some (landing (ctx (q_origin q)) d))),
       env\<lparr>e_rdma := e_rdma env @ [Rdma_Get (q_mb q) (GetRdmaPtr (q_target q) (q_tmb q) d)]\<rparr>)"
proof -
  note T = transferable_size(1) [OF assms(2), where c = "ctx (q_origin q)"] transferable_size(2,3) [OF assms(2)]
  have r: "meta_plus_data_size (q_reply ctx q KELPIE_OK (Some d)) \<noteq> 0"
    "new_ldo (ctx (q_origin q)) (ucast (meta_plus_data_size (q_reply ctx q KELPIE_OK (Some d)))) = Inr (Some (landing (ctx (q_origin q)) d))"
    "net_buffer_remote (q_reply ctx q KELPIE_OK (Some d)) = GetRdmaPtr (q_target q) (q_tmb q) d"
    using T assms(1) by (simp_all add: q_reply_def buffer_Alloc_def)
  have "msg_src (mb_hdr (q_reply ctx q KELPIE_OK (Some d))) = q_target q" using assms(1) by (simp add: q_reply_def)
  then show ?thesis
    using r by (simp add: net_Get_landing [OF assms(2), where c = "ctx (q_origin q)"] wrap_op_def compute_Update_def smo_Compute_WaitInfo_def updateState_def
        q_waiting_def q_op_def q_fetching_def q_ack_def OpKelpieCompute_origin_def blank_op_def expect_buffer_def ExpectMessageOrDie_def Let_def reply_kind)
qed

lemma compute_answers:
  "\<exists>op1. kelpie_Update c now (Args_update Get_success) (Op_compute (q_fetching ctx q d x)) env =
     Inr (Done_and_destroy, Op_compute op1, env\<lparr>e_calls := e_calls env @ [q_answer q KELPIE_OK x],
       e_sends := e_sends env @ [(q_target q, Msg_status (status_SetSuccess True (q_ack ctx q d)))]\<rparr>)"
  by (simp add: wrap_op_def compute_Update_def smo_Compute_WaitRDMA_def compute_call_def on_status_def SendMsg_def updateState_def q_fetching_def
      q_waiting_def q_op_def OpKelpieCompute_origin_def blank_op_def q_answer_def VerifyTypeOrDie_def)

lemma compute_ends:
  "\<exists>op1. kelpie_Update c now (Args_message m) (Op_compute (q_served q x)) env = Inr (Done_and_destroy, Op_compute op1, env)"
  by (simp add: wrap_op_def compute_Update_def smt_Compute_WaitAck_def ExpectMessageOrDie_def updateState_def q_served_def OpKelpieCompute_target_def blank_op_def)

section \<open>Steps of a cluster with one computation\<close>

definition q_ok :: "(nodeid_t \<Rightarrow> 'io node_ctx) \<Rightarrow> 'io cluster \<Rightarrow> compute_req \<Rightarrow> bool" where
  "q_ok ctx cl q = (idle cl \<and> named ctx \<and> q_origin q \<noteq> q_target q \<and> (\<forall>n. mailbox_left (n_core (nodes cl n))) \<and>
     q_mb q = next_mailbox (n_core (nodes cl (q_origin q))) \<and> q_tmb q = next_mailbox (n_core (nodes cl (q_target q))) \<and>
     short_key (q_key q) \<and> length (q_fn q) < 256 \<and> length (q_args q) < 2 ^ 16)"

lemma q_ok_core:
  assumes "q_ok ctx cl q"
  shows "core_inv (n_core (nodes cl n))" "mailbox_left (n_core (nodes cl n))" "active_ops (n_core (nodes cl n)) = []"
    "work (n_core (nodes cl n)) = []" "core_initialized (n_core (nodes cl n))" "core_running (n_core (nodes cl n))" "my_id (ctx n) = n"
  using assms by (simp_all add: q_ok_def idle_def node_ok_def named_def)

lemma core_with_inv:
  assumes "core_inv c" "mailbox_left c"
  shows "core_inv (core_with c op w)" "next_mailbox c \<noteq> 0"
  using assms word_inc_less [of "next_mailbox c"]
  by (auto simp: core_inv_def core_with_def mailbox_left_def om_inv_def split: option.splits)

lemma core_with_get [simp]:
  "om_get (active_ops (core_with c (Some op) w)) (next_mailbox c) = Some (Op_compute op)"
  "work (core_with c op' w) = map (Pair (next_mailbox c)) w"
  by (simp_all add: core_with_def)

lemma run_stage:
  assumes nd: "n_core (nodes cl n) = core_with c (Some op) [a]" and c: "core_inv c" "mailbox_left c"
    and u: "kelpie_Update (ctx n) now a (Op_compute op) (env_of (nodes cl n)) = Inr (w, Op_compute op1, env1)"
      "e_effects env1 = []" "w = Waiting_on_cq \<or> w = Done_and_destroy"
  shows "run_work ctx now n 0 cl = Inr (cl\<lparr>nodes := (nodes cl)(n := (nodes cl n)\<lparr>
      n_core := core_with c (if w = Done_and_destroy then None else Some op1) [], n_lkv := e_lkv env1, n_io := e_io env1,
      n_calls := n_calls (nodes cl n) @ e_calls env1\<rparr>), wire := wire cl @ e_sends env1, dma := dma cl @ map (Pair n) (e_rdma env1)\<rparr>)"
proof -
  have "after_update 0 (next_mailbox c) w (Op_compute op1) env1 (nodes cl n) = (nodes cl n)\<lparr>
      n_core := core_with c (if w = Done_and_destroy then None else Some op1) [], n_lkv := e_lkv env1, n_io := e_io env1,
      n_calls := n_calls (nodes cl n) @ e_calls env1\<rparr>"
    using nd by (simp add: after_update_def core_with_def remove_nth_def om_del_def)
  then show ?thesis
    using run_work_eq [of cl n 0 "next_mailbox c" a "Op_compute op" ctx now w "Op_compute op1" env1] core_with_inv [OF c] nd u by auto
qed

lemma deliver_stage:
  assumes "wire cl = [(n, msg)]" "n_core (nodes cl n) = core_with c (Some op) []" "dst_mailbox (msg_header msg) = next_mailbox c"
    and c: "core_inv c" "mailbox_left c"
  shows "deliver 0 cl = Inr (cl\<lparr>nodes := (nodes cl)(n := (nodes cl n)\<lparr>n_core := core_with c (Some op) [Args_message msg]\<rparr>), wire := []\<rparr>)"
  using assms core_with_inv [OF c]
  by (simp add: deliver_def HandleIncomingMessage_def getActiveOp_def AddWork_def remove_nth_def core_with_def Let_def)

lemma deliver_fresh:
  assumes "wire cl = [(n, msg)]" "dst_mailbox (msg_header msg) = 0" "kelpie_create (msg_op_id (msg_header msg)) = Some (Op_compute \<circ> mk)"
    and c: "core_inv (n_core (nodes cl n))" "mailbox_left (n_core (nodes cl n))" "active_ops (n_core (nodes cl n)) = []" "work (n_core (nodes cl n)) = []"
  shows "deliver 0 cl = Inr (cl\<lparr>nodes := (nodes cl)(n := (nodes cl n)\<lparr>n_core :=
    core_with (n_core (nodes cl n)) (Some (mk (next_mailbox (n_core (nodes cl n))))) [Args_message msg]\<rparr>), wire := []\<rparr>)"
  using assms addActiveOp_new(1) [OF c(1,2), of "Op_compute \<circ> mk"]
  by (simp add: deliver_def HandleIncomingMessage_def AddWork_def remove_nth_def core_with_def Let_def)

lemma transfer_stage:
  assumes "dma cl = [(n, Rdma_Get (next_mailbox c) (GetRdmaPtr n' (next_mailbox c') src))]" "n \<noteq> n'"
    and "n_core (nodes cl n) = core_with c (Some op) []" "n_core (nodes cl n') = core_with c' (Some op') []"
    and "kop_data op = Some (landing k src)" "kop_data op' = Some src" "transferable src"
    and c: "core_inv c" "mailbox_left c" "core_inv c'" "mailbox_left c'"
  shows "transfer 0 cl = Inr (cl\<lparr>nodes := (nodes cl)(n := (nodes cl n)\<lparr>
    n_core := core_with c (Some (op\<lparr>kop_data := Some (fresh_copy src)\<rparr>)) [Args_update Get_success]\<rparr>), dma := []\<rparr>)"
  using assms core_with_inv [OF c(1,2)] core_with_inv [OF c(3,4)] rdma_copy_landing [OF assms(7), of k]
  by (simp add: transfer_def held_data_def set_held_def notify_def UpdateOp_def getActiveOp_def GetRdmaPtr_def AddWork_def remove_nth_def
      core_with_def Let_def)

lemma launch_stage:
  assumes "core_inv (n_core (nodes cl n))" "mailbox_left (n_core (nodes cl n))" "active_ops (n_core (nodes cl n)) = []" "work (n_core (nodes cl n)) = []"
    "core_initialized (n_core (nodes cl n))" "core_running (n_core (nodes cl n))"
  shows "launch n (\<lambda>m. Op_compute (mk m)) cl = Inr (cl\<lparr>nodes := (nodes cl)(n := (nodes cl n)\<lparr>n_core :=
    core_with (n_core (nodes cl n)) (Some (mk (next_mailbox (n_core (nodes cl n))))) [Args_update Start]\<rparr>)\<rparr>)"
  using assms addActiveOp_new(1) [OF assms(1,2), of "\<lambda>m. Op_compute (mk m)"]
  by (simp add: launch_def LaunchOp_def AddWork_def core_with_def Let_def)

lemma staged_simps [simp]:
  "nodes (staged q f g w d cl) (q_target q) = g (nodes cl (q_target q))" "wire (staged q f g w d cl) = w" "dma (staged q f g w d cl) = d"
  by (simp_all add: staged_def)

lemma staged_origin: "q_origin q \<noteq> q_target q \<Longrightarrow> nodes (staged q f g w d cl) (q_origin q) = f (nodes cl (q_origin q))"
  by (simp add: staged_def)

lemma staged_set:
  "q_origin q \<noteq> q_target q \<Longrightarrow> (staged q f g w d cl)\<lparr>nodes := (nodes (staged q f g w d cl))(q_origin q := nd)\<rparr> = staged q (\<lambda>_. nd) g w d cl"
  "(staged q f g w d cl)\<lparr>nodes := (nodes (staged q f g w d cl))(q_target q := nd)\<rparr> = staged q f (\<lambda>_. nd) w d cl"
  "(staged q f g w d cl)\<lparr>wire := w'\<rparr> = staged q f g w' d cl" "(staged q f g w d cl)\<lparr>dma := d'\<rparr> = staged q f g w d' cl"
  by (cases cl; auto simp: staged_def fun_eq_iff)+

lemma with_core:
  "(origin_with nd op w cs)\<lparr>n_core := core_with (n_core nd) op' w'\<rparr> = origin_with nd op' w' cs"
  "(target_with nd op w t)\<lparr>n_core := core_with (n_core nd) op' w'\<rparr> = target_with nd op' w' t"
  by (cases nd; simp add: origin_with_def target_with_def)+

lemma origin_runs:
  assumes q: "q_ok ctx cl q" and w: "w = Waiting_on_cq \<or> w = Done_and_destroy"
    and u: "\<And>env. \<exists>op1. (w = Waiting_on_cq \<longrightarrow> op1 = op') \<and> kelpie_Update (ctx (q_origin q)) now a (Op_compute op) env =
      Inr (w, Op_compute op1, env\<lparr>e_calls := e_calls env @ cs, e_rdma := e_rdma env @ r, e_sends := e_sends env @ s\<rparr>)"
  shows "run_work ctx now (q_origin q) 0 (staged q (\<lambda>nd. origin_with nd (Some op) [a] []) g [] [] cl) =
    Inr (staged q (\<lambda>nd. origin_with nd (if w = Done_and_destroy then None else Some op') [] cs) g s (map (Pair (q_origin q)) r) cl)"
proof -
  let ?cl = "staged q (\<lambda>nd. origin_with nd (Some op) [a] []) g [] [] cl" and ?nd = "nodes cl (q_origin q)"
  have ne: "q_origin q \<noteq> q_target q" using q by (simp add: q_ok_def)
  have nd: "nodes ?cl (q_origin q) = origin_with ?nd (Some op) [a] []" using ne by (rule staged_origin)
  then have c: "n_core (nodes ?cl (q_origin q)) = core_with (n_core ?nd) (Some op) [a]" by (simp add: origin_with_def)
  obtain op1 where u1: "w = Waiting_on_cq \<longrightarrow> op1 = op'" "kelpie_Update (ctx (q_origin q)) now a (Op_compute op) (env_of (nodes ?cl (q_origin q))) =
      Inr (w, Op_compute op1, (env_of (nodes ?cl (q_origin q)))\<lparr>e_calls := e_calls (env_of (nodes ?cl (q_origin q))) @ cs,
        e_rdma := e_rdma (env_of (nodes ?cl (q_origin q))) @ r, e_sends := e_sends (env_of (nodes ?cl (q_origin q))) @ s\<rparr>)" using u by blast
  show ?thesis
    unfolding run_stage [where ctx = ctx and n = "q_origin q", OF c q_ok_core(1,2) [OF q] u1(2) _ w, simplified]
    using w u1(1) by (auto simp: nd staged_set ne) (simp_all add: staged_def origin_with_def)
qed

lemma target_runs:
  assumes q: "q_ok ctx cl q" and w: "w = Waiting_on_cq \<or> w = Done_and_destroy"
    and u: "\<And>env. e_lkv env = t \<Longrightarrow> \<exists>op1. (w = Waiting_on_cq \<longrightarrow> op1 = op') \<and> kelpie_Update (ctx (q_target q)) now a (Op_compute op) env =
      Inr (w, Op_compute op1, env\<lparr>e_lkv := t', e_sends := e_sends env @ s\<rparr>)"
    and t: "\<And>nd. nd = nodes cl (q_target q) \<Longrightarrow> g nd = target_with nd (Some op) [a] t"
  shows "run_work ctx now (q_target q) 0 (staged q f g [] [] cl) =
    Inr (staged q f (\<lambda>nd. target_with nd (if w = Done_and_destroy then None else Some op') [] t') s [] cl)"
proof -
  let ?cl = "staged q f g [] [] cl" and ?nd = "nodes cl (q_target q)"
  have nd: "nodes ?cl (q_target q) = target_with ?nd (Some op) [a] t" using t by simp
  then have c: "n_core (nodes ?cl (q_target q)) = core_with (n_core ?nd) (Some op) [a]" by (simp add: target_with_def)
  have l: "e_lkv (env_of (nodes ?cl (q_target q))) = t" using nd by (simp add: target_with_def)
  obtain op1 where u1: "w = Waiting_on_cq \<longrightarrow> op1 = op'" "kelpie_Update (ctx (q_target q)) now a (Op_compute op) (env_of (nodes ?cl (q_target q))) =
      Inr (w, Op_compute op1, (env_of (nodes ?cl (q_target q)))\<lparr>e_lkv := t', e_sends := e_sends (env_of (nodes ?cl (q_target q))) @ s\<rparr>)"
    using u [OF l] by blast
  show ?thesis
    unfolding run_stage [where ctx = ctx and n = "q_target q", OF c q_ok_core(1,2) [OF q] u1(2) _ w, simplified]
    using w u1(1) by (auto simp: nd staged_set) (simp_all add: staged_def target_with_def t)
qed

lemma origin_gets:
  assumes q: "q_ok ctx cl q" and m: "dst_mailbox (msg_header msg) = q_mb q"
  shows "deliver 0 (staged q (\<lambda>nd. origin_with nd (Some op) [] cs) g [(q_origin q, msg)] [] cl) =
    Inr (staged q (\<lambda>nd. origin_with nd (Some op) [Args_message msg] cs) g [] [] cl)"
proof -
  let ?cl = "staged q (\<lambda>nd. origin_with nd (Some op) [] cs) g [(q_origin q, msg)] [] cl" and ?nd = "nodes cl (q_origin q)"
  have ne: "q_origin q \<noteq> q_target q" using q by (simp add: q_ok_def)
  have nd: "nodes ?cl (q_origin q) = origin_with ?nd (Some op) [] cs" using ne by (rule staged_origin)
  then have c: "n_core (nodes ?cl (q_origin q)) = core_with (n_core ?nd) (Some op) []" by (simp add: origin_with_def)
  have m': "dst_mailbox (msg_header msg) = next_mailbox (n_core ?nd)" using m q by (simp add: q_ok_def)
  show ?thesis
    unfolding deliver_stage [OF staged_simps(2) c m' q_ok_core(1,2) [OF q]] by (simp add: nd staged_set ne with_core) (simp add: staged_def)
qed

lemma target_gets:
  assumes q: "q_ok ctx cl q" and m: "dst_mailbox (msg_header msg) = q_tmb q"
  shows "deliver 0 (staged q f (\<lambda>nd. target_with nd (Some op) [] t) [(q_target q, msg)] [] cl) =
    Inr (staged q f (\<lambda>nd. target_with nd (Some op) [Args_message msg] t) [] [] cl)"
proof -
  let ?cl = "staged q f (\<lambda>nd. target_with nd (Some op) [] t) [(q_target q, msg)] [] cl" and ?nd = "nodes cl (q_target q)"
  have c: "n_core (nodes ?cl (q_target q)) = core_with (n_core ?nd) (Some op) []" by (simp add: target_with_def)
  have m': "dst_mailbox (msg_header msg) = next_mailbox (n_core ?nd)" using m q by (simp add: q_ok_def)
  show ?thesis
    unfolding deliver_stage [OF staged_simps(2) c m' q_ok_core(1,2) [OF q]] by (simp add: staged_set with_core) (simp add: staged_def)
qed

lemma target_created:
  assumes q: "q_ok ctx cl q"
  shows "deliver 0 (staged q f id [(q_target q, Msg_simple (q_request ctx q))] [] cl) =
    Inr (staged q f (\<lambda>nd. target_with nd (Some (OpKelpieCompute_target (q_tmb q))) [Args_message (Msg_simple (q_request ctx q))] (n_lkv nd)) [] [] cl)"
proof -
  let ?cl = "staged q f id [(q_target q, Msg_simple (q_request ctx q))] [] cl" and ?nd = "nodes cl (q_target q)"
  have nd: "nodes ?cl (q_target q) = ?nd" by simp
  have k: "kelpie_create compute_id = Some (Op_compute \<circ> OpKelpieCompute_target)" by (simp add: kelpie_create_table op_ids)
  have h: "dst_mailbox (msg_header (Msg_simple (q_request ctx q))) = 0"
    "kelpie_create (msg_op_id (msg_header (Msg_simple (q_request ctx q)))) = Some (Op_compute \<circ> OpKelpieCompute_target)"
    using k by (simp_all add: q_request_def MAILBOX_UNSPECIFIED_def)
  have m: "next_mailbox (n_core ?nd) = q_tmb q" using q by (simp add: q_ok_def)
  show ?thesis
    unfolding deliver_fresh [OF staged_simps(2) h q_ok_core(1-4) [OF q, where n = "q_target q", folded nd]]
    by (simp add: nd m staged_set del: staged_simps(1)) (simp add: staged_def target_with_def)
qed

lemma origin_fetched:
  assumes q: "q_ok ctx cl q" and d: "transferable d" "kop_data op = Some (landing k d)"
  shows "transfer 0 (staged q (\<lambda>nd. origin_with nd (Some op) [] cs) (\<lambda>nd. target_with nd (Some (q_served q (Some d))) [] t) []
      [(q_origin q, Rdma_Get (q_mb q) (GetRdmaPtr (q_target q) (q_tmb q) d))] cl) =
    Inr (staged q (\<lambda>nd. origin_with nd (Some (op\<lparr>kop_data := Some (fresh_copy d)\<rparr>)) [Args_update Get_success] cs)
      (\<lambda>nd. target_with nd (Some (q_served q (Some d))) [] t) [] [] cl)"
proof -
  let ?cl = "staged q (\<lambda>nd. origin_with nd (Some op) [] cs) (\<lambda>nd. target_with nd (Some (q_served q (Some d))) [] t) []
      [(q_origin q, Rdma_Get (q_mb q) (GetRdmaPtr (q_target q) (q_tmb q) d))] cl"
  let ?a = "nodes cl (q_origin q)" and ?b = "nodes cl (q_target q)"
  have ne: "q_origin q \<noteq> q_target q" and m: "q_mb q = next_mailbox (n_core ?a)" "q_tmb q = next_mailbox (n_core ?b)"
    using q by (simp_all add: q_ok_def)
  have nd: "nodes ?cl (q_origin q) = origin_with ?a (Some op) [] cs" using ne by (rule staged_origin)
  have c: "n_core (nodes ?cl (q_origin q)) = core_with (n_core ?a) (Some op) []"
    "n_core (nodes ?cl (q_target q)) = core_with (n_core ?b) (Some (q_served q (Some d))) []"
    using nd by (simp_all add: origin_with_def target_with_def)
  have "dma ?cl = [(q_origin q, Rdma_Get (next_mailbox (n_core ?a)) (GetRdmaPtr (q_target q) (next_mailbox (n_core ?b)) d))]" using m by simp
  note T = transfer_stage [OF this ne c d(2) _ d(1) q_ok_core(1,2) [OF q] q_ok_core(1,2) [OF q]]
  have "kop_data (q_served q (Some d)) = Some d" by (simp add: q_served_def)
  from T [OF this] show ?thesis by (simp add: nd staged_set ne with_core) (simp add: staged_def)
qed

section \<open>Every schedule\<close>

text \<open>There is nothing to transfer: the function was not given anything, or its result has no bytes.\<close>

definition nothing_back :: "rc_t \<Rightarrow> ldo \<Rightarrow> bool" where
  "nothing_back rc x = (rc \<noteq> KELPIE_OK \<or> GetMetaSize x + GetDataSize x = 0)"

fun phase_next :: "(LocalKV \<Rightarrow> bool) \<Rightarrow> bool \<Rightarrow> compute_phase \<Rightarrow> compute_phase \<Rightarrow> bool" where
  "phase_next ok nothing Q_send ph = (ph = Q_sent)"
| "phase_next ok nothing Q_sent ph = (ph = Q_arrived)"
| "phase_next ok nothing Q_arrived ph = (\<exists>t. ok t \<and> ph = Q_replied t)"
| "phase_next ok nothing (Q_replied t) ph = (ph = Q_informed t)"
| "phase_next ok nothing (Q_informed t) ph = (ph = (if nothing then Q_left t else Q_transfer t))"
| "phase_next ok nothing (Q_transfer t) ph = (ph = Q_received t)"
| "phase_next ok nothing (Q_received t) ph = (ph = Q_acking t)"
| "phase_next ok nothing (Q_acking t) ph = (ph = Q_acked t)"
| "phase_next ok nothing (Q_acked t) ph = (ph = Q_over t)"
| "phase_next ok nothing (Q_left t) ph = False"
| "phase_next ok nothing (Q_over t) ph = False"

definition q_computes :: "(nodeid_t \<Rightarrow> 'io node_ctx) \<Rightarrow> compute_req \<Rightarrow> LocalKV \<Rightarrow> rc_t \<Rightarrow> ldo \<Rightarrow> (LocalKV \<Rightarrow> bool) \<Rightarrow> bool" where
  "q_computes ctx q t0 rc x ok = (\<forall>now. \<exists>y t. lkv_doCompute (compute_registry (ctx (q_target q))) now (q_fn q) (q_args q) (q_bucket q) (q_key q)
     (Some None) t0 = Inr ((rc, y), t) \<and> x = (case y of Some l \<Rightarrow> l | None \<Rightarrow> None) \<and> ok t)"

lemma only_event:
  assumes q: "q_ok ctx cl q" and e: "enabled e (staged q f g w d cl)" "\<not> is_launch e"
  obtains i now where "e = Run (q_origin q) i now" "i < length (work (n_core (f (nodes cl (q_origin q)))))"
    | i now where "e = Run (q_target q) i now" "i < length (work (n_core (g (nodes cl (q_target q)))))"
    | i where "e = Deliver i" "i < length w" | i where "e = Transfer i" "i < length d"
proof (cases e)
  case (Run n i now)
  show ?thesis
  proof (cases "n = q_target q")
    case False
    then have "n = q_origin q" using Run e(1) q_ok_core(4) [OF q, of n] by (auto simp: staged_def split: if_splits)
    then show ?thesis using Run e(1) False that(1) by (simp add: staged_def)
  qed (use Run e(1) that(2) in simp)
qed (use e that in auto)

lemma send_phase:
  assumes q: "q_ok ctx cl q"
  shows "cluster_step ctx (Run (q_origin q) 0 now) (phase_at ctx q rc x cl Q_send) = Inr (phase_at ctx q rc x cl Q_sent)"
proof -
  have "\<exists>op1. (Waiting_on_cq = Waiting_on_cq \<longrightarrow> op1 = q_waiting ctx q) \<and> kelpie_Update (ctx (q_origin q)) now (Args_update Start) (Op_compute (q_op ctx q)) env =
    Inr (Waiting_on_cq, Op_compute op1, env\<lparr>e_calls := e_calls env @ [], e_rdma := e_rdma env @ [],
      e_sends := e_sends env @ [(q_target q, Msg_simple (q_request ctx q))]\<rparr>)" for env
    using compute_sends [of "ctx (q_origin q)" now "Args_update Start" ctx q env] by simp
  from origin_runs [OF q _ this, of id] show ?thesis by simp
qed

lemma serve_phase:
  assumes q: "q_ok ctx cl q" and c: "q_computes ctx q (n_lkv (nodes cl (q_target q))) rc x ok"
  shows "\<exists>t. ok t \<and> cluster_step ctx (Run (q_target q) 0 now) (phase_at ctx q rc x cl Q_arrived) = Inr (phase_at ctx q rc x cl (Q_replied t))"
proof -
  let ?t0 = "n_lkv (nodes cl (q_target q))"
  obtain y t where t: "lkv_doCompute (compute_registry (ctx (q_target q))) now (q_fn q) (q_args q) (q_bucket q) (q_key q) (Some None) ?t0 = Inr ((rc, y), t)"
    "x = (case y of Some l \<Rightarrow> l | None \<Rightarrow> None)" "ok t" using c unfolding q_computes_def by meson
  have h: "my_id (ctx (q_origin q)) = q_origin q" "short_key (q_key q)" "length (q_fn q) < 256" "length (q_args q) < 2 ^ 16"
    using q q_ok_core(7) [OF q] by (simp_all add: q_ok_def)
  have u: "\<exists>op1. (Waiting_on_cq = Waiting_on_cq \<longrightarrow> op1 = q_served q x) \<and>
     kelpie_Update (ctx (q_target q)) now (Args_message (Msg_simple (q_request ctx q))) (Op_compute (OpKelpieCompute_target (q_tmb q))) env =
     Inr (Waiting_on_cq, Op_compute op1, env\<lparr>e_lkv := t, e_sends := e_sends env @ [(q_origin q, Msg_buffer (q_reply ctx q rc x))]\<rparr>)"
    if "e_lkv env = ?t0" for env
    using compute_serves [where ctx = ctx and env = env, OF h t(1) [folded that] t(2)] by blast
  from target_runs [OF q _ u] have "cluster_step ctx (Run (q_target q) 0 now) (phase_at ctx q rc x cl Q_arrived) = Inr (phase_at ctx q rc x cl (Q_replied t))"
    by simp
  then show ?thesis using t(3) by blast
qed

lemma left_phase:
  assumes q: "q_ok ctx cl q" and n: "nothing_back rc x"
  shows "cluster_step ctx (Run (q_origin q) 0 now) (phase_at ctx q rc x cl (Q_informed t)) = Inr (phase_at ctx q rc x cl (Q_left t))"
proof -
  have "\<exists>op1. (Done_and_destroy = Waiting_on_cq \<longrightarrow> op1 = q_waiting ctx q) \<and>
    kelpie_Update (ctx (q_origin q)) now (Args_message (Msg_buffer (q_reply ctx q rc x))) (Op_compute (q_waiting ctx q)) env =
    Inr (Done_and_destroy, Op_compute op1, env\<lparr>e_calls := e_calls env @ [q_answer q (if rc = KELPIE_OK then KELPIE_OK else KELPIE_ENOENT) None],
      e_rdma := e_rdma env @ [], e_sends := e_sends env @ []\<rparr>)" for env
    using compute_told [where ctx = ctx and q = q and rc = rc and x = x and c = "ctx (q_origin q)" and now = now and env = env, OF q_ok_core(7) [OF q]] n
    by (simp add: nothing_back_def)
  from origin_runs [OF q _ this] show ?thesis by simp
qed

lemma fetch_phase:
  assumes q: "q_ok ctx cl q" and d: "transferable d"
  shows "cluster_step ctx (Run (q_origin q) 0 now) (phase_at ctx q KELPIE_OK (Some d) cl (Q_informed t)) =
    Inr (phase_at ctx q KELPIE_OK (Some d) cl (Q_transfer t))"
proof -
  have "\<exists>op1. (Waiting_on_cq = Waiting_on_cq \<longrightarrow> op1 = q_fetching ctx q d (Some (landing (ctx (q_origin q)) d))) \<and>
    kelpie_Update (ctx (q_origin q)) now (Args_message (Msg_buffer (q_reply ctx q KELPIE_OK (Some d)))) (Op_compute (q_waiting ctx q)) env =
    Inr (Waiting_on_cq, Op_compute op1, env\<lparr>e_calls := e_calls env @ [],
      e_rdma := e_rdma env @ [Rdma_Get (q_mb q) (GetRdmaPtr (q_target q) (q_tmb q) d)], e_sends := e_sends env @ []\<rparr>)" for env
    using compute_fetches [where ctx = ctx and q = q and now = now and env = env, OF q_ok_core(7) [OF q] d] by simp
  from origin_runs [OF q _ this] show ?thesis by simp
qed

lemma answer_phase:
  assumes q: "q_ok ctx cl q"
  shows "cluster_step ctx (Run (q_origin q) 0 now) (phase_at ctx q rc x cl (Q_received t)) = Inr (phase_at ctx q rc x cl (Q_acking t))"
proof -
  have "\<exists>op1. (Done_and_destroy = Waiting_on_cq \<longrightarrow> op1 = q_waiting ctx q) \<and>
    kelpie_Update (ctx (q_origin q)) now (Args_update Get_success) (Op_compute (q_fetching ctx q (the x) (map_option fresh_copy x))) env =
    Inr (Done_and_destroy, Op_compute op1, env\<lparr>e_calls := e_calls env @ [q_answer q KELPIE_OK (map_option fresh_copy x)],
      e_rdma := e_rdma env @ [], e_sends := e_sends env @ [(q_target q, Msg_status (status_SetSuccess True (q_ack ctx q (the x))))]\<rparr>)" for env
    using compute_answers [where ctx = ctx and q = q and now = now and env = env and d = "the x" and x = "map_option fresh_copy x"] by simp
  from origin_runs [OF q _ this] show ?thesis by simp
qed

lemma end_phase:
  assumes q: "q_ok ctx cl q"
  shows "cluster_step ctx (Run (q_target q) 0 now) (phase_at ctx q rc x cl (Q_acked t)) = Inr (phase_at ctx q rc x cl (Q_over t))"
proof -
  let ?m = "Msg_status (status_SetSuccess True (q_ack ctx q (the x)))"
  have "\<exists>op1. (Done_and_destroy = Waiting_on_cq \<longrightarrow> op1 = q_waiting ctx q) \<and>
    kelpie_Update (ctx (q_target q)) now (Args_message ?m) (Op_compute (q_served q x)) env =
    Inr (Done_and_destroy, Op_compute op1, env\<lparr>e_lkv := t, e_sends := e_sends env @ []\<rparr>)" if "e_lkv env = t" for env
    using compute_ends [where q = q and now = now and env = env and x = x and m = ?m] that by auto
  from target_runs [OF q _ this] show ?thesis by simp
qed

text \<open>The phases that a computation with or without a result passes through, and the answer given by then.\<close>

fun phase_ok :: "(LocalKV \<Rightarrow> bool) \<Rightarrow> bool \<Rightarrow> compute_phase \<Rightarrow> bool" where
  "phase_ok ok nothing (Q_replied t) = ok t"
| "phase_ok ok nothing (Q_informed t) = ok t"
| "phase_ok ok nothing (Q_left t) = (ok t \<and> nothing)"
| "phase_ok ok nothing (Q_transfer t) = (ok t \<and> \<not> nothing)"
| "phase_ok ok nothing (Q_received t) = (ok t \<and> \<not> nothing)"
| "phase_ok ok nothing (Q_acking t) = (ok t \<and> \<not> nothing)"
| "phase_ok ok nothing (Q_acked t) = (ok t \<and> \<not> nothing)"
| "phase_ok ok nothing (Q_over t) = (ok t \<and> \<not> nothing)"
| "phase_ok ok nothing _ = True"

fun said :: "compute_req \<Rightarrow> rc_t \<Rightarrow> ldo \<Rightarrow> compute_phase \<Rightarrow> user_call list" where
  "said q rc x (Q_left t) = [q_answer q (if rc = KELPIE_OK then KELPIE_OK else KELPIE_ENOENT) None]"
| "said q rc x (Q_acking t) = [q_answer q KELPIE_OK (map_option fresh_copy x)]"
| "said q rc x (Q_acked t) = [q_answer q KELPIE_OK (map_option fresh_copy x)]"
| "said q rc x (Q_over t) = [q_answer q KELPIE_OK (map_option fresh_copy x)]"
| "said q rc x _ = []"

definition sendable :: "rc_t \<Rightarrow> ldo \<Rightarrow> bool" where
  "sendable rc x = (nothing_back rc x \<or> (\<exists>d. x = Some d \<and> transferable d))"

lemma sendable_something: "sendable rc x \<Longrightarrow> \<not> nothing_back rc x \<Longrightarrow> rc = KELPIE_OK \<and> (\<exists>d. x = Some d \<and> transferable d)"
  by (auto simp: sendable_def nothing_back_def)

lemma reply_mailboxes:
  "dst_mailbox (mb_hdr (q_reply ctx q rc x)) = q_mb q" "dst_mailbox (mst_hdr (status_SetSuccess True (q_ack ctx q d))) = q_tmb q"
  by (simp_all add: q_reply_def q_ack_def status_SetSuccess_def SetSuccess_def)

lemma fetched_phase:
  assumes q: "q_ok ctx cl q" and d: "transferable d"
  shows "cluster_step ctx (Transfer 0) (phase_at ctx q rc (Some d) cl (Q_transfer t)) = Inr (phase_at ctx q rc (Some d) cl (Q_received t))"
proof -
  let ?op = "q_fetching ctx q d (Some (landing (ctx (q_origin q)) d))"
  have "kop_data ?op = Some (landing (ctx (q_origin q)) d)" "?op\<lparr>kop_data := Some (fresh_copy d)\<rparr> = q_fetching ctx q d (Some (fresh_copy d))"
    by (simp_all add: q_fetching_def)
  then show ?thesis using origin_fetched [where op = ?op and k = "ctx (q_origin q)" and cs = "[]" and t = t, OF q d] by simp
qed

text \<open>The one event that a phase waits for.\<close>

fun next_event :: "compute_req \<Rightarrow> u32 \<Rightarrow> compute_phase \<Rightarrow> event option" where
  "next_event q now Q_send = Some (Run (q_origin q) 0 now)"
| "next_event q now Q_sent = Some (Deliver 0)"
| "next_event q now Q_arrived = Some (Run (q_target q) 0 now)"
| "next_event q now (Q_replied t) = Some (Deliver 0)"
| "next_event q now (Q_informed t) = Some (Run (q_origin q) 0 now)"
| "next_event q now (Q_transfer t) = Some (Transfer 0)"
| "next_event q now (Q_received t) = Some (Run (q_origin q) 0 now)"
| "next_event q now (Q_acking t) = Some (Deliver 0)"
| "next_event q now (Q_acked t) = Some (Run (q_target q) 0 now)"
| "next_event q now _ = None"

lemma phase_event:
  assumes q: "q_ok ctx cl q" and e: "enabled e (phase_at ctx q rc x cl ph)" "\<not> is_launch e"
  shows "\<exists>now. next_event q now ph = Some e"
  using e q_ok_core(4) [OF q]
  by (cases ph; simp only: phase_at.simps; elim only_event [OF q]; auto simp: origin_with_def target_with_def)

lemma phase_step:
  assumes q: "q_ok ctx cl q" and c: "q_computes ctx q (n_lkv (nodes cl (q_target q))) rc x ok" and s: "sendable rc x"
    and e: "enabled e (phase_at ctx q rc x cl ph)" "\<not> is_launch e" and ph: "phase_ok ok (nothing_back rc x) ph"
  shows "\<exists>ph'. cluster_step ctx e (phase_at ctx q rc x cl ph) = Inr (phase_at ctx q rc x cl ph') \<and> phase_next ok (nothing_back rc x) ph ph'"
proof -
  obtain now where ev: "next_event q now ph = Some e" using phase_event [OF q e] by blast
  have d: "rc = KELPIE_OK \<and> (\<exists>d. x = Some d \<and> transferable d)" if "\<not> nothing_back rc x" using sendable_something [OF s that] .
  show ?thesis
  proof (cases ph)
    case Q_send
    then show ?thesis using ev send_phase [OF q, of now rc x] by auto
  next
    case Q_sent
    then show ?thesis using ev target_created [OF q] by (intro exI [of _ Q_arrived]) auto
  next
    case Q_arrived
    then show ?thesis using ev serve_phase [OF q c, of now] by (metis next_event.simps(3) option.inject phase_next.simps(3))
  next
    case (Q_replied t)
    then show ?thesis using ev origin_gets [OF q, of "Msg_buffer (q_reply ctx q rc x)"] by (intro exI [of _ "Q_informed t"]) (auto simp: reply_mailboxes)
  next
    case (Q_informed t)
    then show ?thesis
      using ev left_phase [OF q, of rc x now t] fetch_phase [OF q, of _ now t] d
      by (intro exI [of _ "if nothing_back rc x then Q_left t else Q_transfer t"]) auto
  next
    case (Q_transfer t)
    then show ?thesis using ev fetched_phase [OF q, of _ rc t] d ph by (intro exI [of _ "Q_received t"]) auto
  next
    case (Q_received t)
    then show ?thesis using ev answer_phase [OF q, of now rc x t] by (intro exI [of _ "Q_acking t"]) auto
  next
    case (Q_acking t)
    then show ?thesis
      using ev target_gets [OF q, of "Msg_status (status_SetSuccess True (q_ack ctx q (the x)))"]
      by (intro exI [of _ "Q_acked t"]) (auto simp: reply_mailboxes)
  next
    case (Q_acked t)
    then show ?thesis using ev end_phase [OF q, of now rc x t] by (intro exI [of _ "Q_over t"]) auto
  qed (use ev in auto)
qed

lemma phase_calls:
  assumes "q_origin q \<noteq> q_target q"
  shows "n_calls (nodes (phase_at ctx q rc x cl ph) (q_origin q)) = n_calls (nodes cl (q_origin q)) @ said q rc x ph"
    "n_calls (nodes (phase_at ctx q rc x cl ph) (q_target q)) = n_calls (nodes cl (q_target q))"
  using assms by (cases ph; simp add: staged_origin origin_with_def target_with_def)+

definition told :: "compute_req \<Rightarrow> rc_t \<Rightarrow> ldo \<Rightarrow> compute_phase \<Rightarrow> label list" where
  "told q rc x ph = map (Return (q_origin q) \<circ> outcome_of) (said q rc x ph)"

lemma phase_labels:
  assumes "q_origin q \<noteq> q_target q" "next_event q now ph = Some e" "phase_next ok nothing ph ph'"
  shows "told q rc x ph' =
    told q rc x ph @ step_labels e (phase_at ctx q rc x cl ph) (phase_at ctx q rc x cl ph')"
  using assms phase_calls [OF assms(1), of ctx rc x cl] by (cases ph) (auto simp: told_def simp del: phase_at.simps)

lemma phase_next_ok: "phase_next ok nothing ph ph' \<Longrightarrow> phase_ok ok nothing ph \<Longrightarrow> phase_ok ok nothing ph'"
  by (cases ph) (auto split: if_splits)

lemma phase_run:
  assumes q: "q_ok ctx cl q" and c: "q_computes ctx q (n_lkv (nodes cl (q_target q))) rc x ok" and s: "sendable rc x"
    and es: "\<forall>e\<in>set es. \<not> is_launch e" and ph: "phase_ok ok (nothing_back rc x) ph"
  shows "\<exists>h ph'. cluster_run ctx es (phase_at ctx q rc x cl ph) = Inr (h, phase_at ctx q rc x cl ph') \<and> phase_ok ok (nothing_back rc x) ph' \<and>
    told q rc x ph' = told q rc x ph @ h"
  using es ph
proof (induction es arbitrary: ph)
  case (Cons e es)
  have ne: "q_origin q \<noteq> q_target q" using q by (simp add: q_ok_def)
  show ?case
  proof (cases "enabled e (phase_at ctx q rc x cl ph)")
    case True
    have l: "\<not> is_launch e" using Cons.prems by simp
    obtain ph1 where st: "cluster_step ctx e (phase_at ctx q rc x cl ph) = Inr (phase_at ctx q rc x cl ph1)" and n: "phase_next ok (nothing_back rc x) ph ph1"
      using phase_step [OF q c s True l Cons.prems(2)] by blast
    obtain now where ev: "next_event q now ph = Some e" using phase_event [OF q True l] by blast
    obtain h ph' where r: "cluster_run ctx es (phase_at ctx q rc x cl ph1) = Inr (h, phase_at ctx q rc x cl ph')" "phase_ok ok (nothing_back rc x) ph'"
      "told q rc x ph' = told q rc x ph1 @ h"
      using Cons.IH [OF _ phase_next_ok [OF n Cons.prems(2)]] Cons.prems(1) by (metis list.set_intros(2))
    show ?thesis
      using True st r phase_labels [OF ne ev n, of rc x ctx cl]
      by (intro exI [of _ "step_labels e (phase_at ctx q rc x cl ph) (phase_at ctx q rc x cl ph1) @ h"] exI [of _ ph']) simp
  next
    case False
    then show ?thesis using Cons by (simp del: phase_at.simps)
  qed
qed (use ph in \<open>auto intro!: exI\<close>)

lemma phase_rests:
  assumes q: "q_ok ctx cl q" and "quiescent (phase_at ctx q rc x cl ph)"
  obtains t where "ph = Q_left t" | t where "ph = Q_over t"
proof -
  have ne: "q_origin q \<noteq> q_target q" using q by (simp add: q_ok_def)
  have w: "wire (phase_at ctx q rc x cl ph) = []" "dma (phase_at ctx q rc x cl ph) = []"
    "work (n_core (nodes (phase_at ctx q rc x cl ph) (q_origin q))) = []" "work (n_core (nodes (phase_at ctx q rc x cl ph) (q_target q))) = []"
    using assms(2) by (simp_all add: quiescent_def)
  show ?thesis using w that by (cases ph) (auto simp: staged_origin [OF ne] origin_with_def target_with_def)
qed

text \<open>The events that are left.\<close>

fun phase_rank :: "compute_phase \<Rightarrow> nat" where
  "phase_rank Q_send = 9" | "phase_rank Q_sent = 8" | "phase_rank Q_arrived = 7" | "phase_rank (Q_replied t) = 6" | "phase_rank (Q_informed t) = 5"
| "phase_rank (Q_transfer t) = 4" | "phase_rank (Q_received t) = 3" | "phase_rank (Q_acking t) = 2" | "phase_rank (Q_acked t) = 1"
| "phase_rank (Q_left t) = 0" | "phase_rank (Q_over t) = 0"

lemma phase_next_rank: "phase_next ok nothing ph ph' \<Longrightarrow> phase_rank ph' < phase_rank ph"
  by (cases ph) auto

lemma phase_quiescent: "q_ok ctx cl q \<Longrightarrow> phase_rank ph = 0 \<Longrightarrow> quiescent (phase_at ctx q rc x cl ph)"
  using q_ok_core(4) [of ctx cl q] by (cases ph) (auto simp: quiescent_def staged_def origin_with_def target_with_def)

lemma phase_enabled:
  assumes "q_ok ctx cl q" "phase_rank ph \<noteq> 0"
  shows "\<exists>e. next_event q 0 ph = Some e \<and> enabled e (phase_at ctx q rc x cl ph) \<and> \<not> is_launch e"
proof -
  have "q_origin q \<noteq> q_target q" using assms(1) by (simp add: q_ok_def)
  then show ?thesis using assms(2) by (cases ph) (auto simp: staged_origin origin_with_def target_with_def)
qed

lemma phase_drains:
  assumes q: "q_ok ctx cl q" and c: "q_computes ctx q (n_lkv (nodes cl (q_target q))) rc x ok" and s: "sendable rc x"
    and ph: "phase_ok ok (nothing_back rc x) ph"
  shows "\<exists>es h ph'. (\<forall>e\<in>set es. \<not> is_launch e) \<and> length es \<le> phase_rank ph \<and>
    cluster_run ctx es (phase_at ctx q rc x cl ph) = Inr (h, phase_at ctx q rc x cl ph') \<and> quiescent (phase_at ctx q rc x cl ph')"
  using ph
proof (induction "phase_rank ph" arbitrary: ph rule: less_induct)
  case less
  show ?case
  proof (cases "phase_rank ph = 0")
    case True
    then show ?thesis using phase_quiescent [OF q True, of rc x] by (intro exI [of _ "[]"]) auto
  next
    case False
    obtain e where e: "enabled e (phase_at ctx q rc x cl ph)" "\<not> is_launch e" using phase_enabled [OF q False] by blast
    obtain ph1 where st: "cluster_step ctx e (phase_at ctx q rc x cl ph) = Inr (phase_at ctx q rc x cl ph1)" "phase_next ok (nothing_back rc x) ph ph1"
      using phase_step [OF q c s e less.prems] by blast
    note r = phase_next_rank [OF st(2)]
    obtain es h ph' where es: "\<forall>e\<in>set es. \<not> is_launch e" "length es \<le> phase_rank ph1"
      "cluster_run ctx es (phase_at ctx q rc x cl ph1) = Inr (h, phase_at ctx q rc x cl ph')" "quiescent (phase_at ctx q rc x cl ph')"
      using less.hyps [OF r phase_next_ok [OF st(2) less.prems]] by blast
    show ?thesis
      by (rule exI [of _ "e # es"], rule exI [of _ "step_labels e (phase_at ctx q rc x cl ph) (phase_at ctx q rc x cl ph1) @ h"], rule exI [of _ ph'])
        (use e st es r in \<open>simp del: phase_at.simps\<close>)
  qed
qed

section \<open>What the caller gets\<close>

text \<open>The object a function writes when it is called on some objects, null when it writes none.\<close>

definition compute_result :: "ComputeRegistry \<Rightarrow> string \<Rightarrow> string \<Rightarrow> bucket_t \<Rightarrow> key \<Rightarrow> (key, ldo) omap \<Rightarrow> ldo" where
  "compute_result reg function_name args b key ldos =
     (case snd (doCompute function_name args b key ldos (Some None) reg) of Some l \<Rightarrow> l | None \<Rightarrow> None)"

lemma store_computes:
  assumes t: "lkv_inv t" and k: "valid (q_key q)" "\<not> IsRowWildcard (q_key q)"
    and l: "om_inv ldos" "\<And>k. om_get ldos k = computable (q_bucket q) (q_key q) t k"
  shows "q_computes ctx q t (if ldos = [] then KELPIE_ENOENT else KELPIE_OK)
    (compute_result (compute_registry (ctx (q_target q))) (q_fn q) (q_args q) (q_bucket q) (q_key q) ldos) (\<lambda>t'. \<forall>b k. stored b k t' = stored b k t)"
  unfolding q_computes_def
proof
  fix now
  obtain ldos' t1 where g: "getAvailable now (q_bucket q) (q_key q) [] t = Inr ((if ldos' = [] then KELPIE_ENOENT else KELPIE_OK, ldos'), t1)"
    and l': "om_inv ldos'" "\<And>k. om_get ldos' k = computable (q_bucket q) (q_key q) t k" and st: "\<And>b' k'. stored b' k' t1 = stored b' k' t"
    using getAvailable_spec [OF t k, of now "q_bucket q"] by metis
  have "ldos' = ldos" using om_ext [OF l'(1) l(1)] l(2) l'(2) by (simp add: fun_eq_iff)
  then show "\<exists>y t'. lkv_doCompute (compute_registry (ctx (q_target q))) now (q_fn q) (q_args q) (q_bucket q) (q_key q) (Some None) t =
      Inr ((if ldos = [] then KELPIE_ENOENT else KELPIE_OK, y), t') \<and>
      compute_result (compute_registry (ctx (q_target q))) (q_fn q) (q_args q) (q_bucket q) (q_key q) ldos = (case y of Some l \<Rightarrow> l | None \<Rightarrow> None) \<and>
      (\<forall>b k. stored b k t' = stored b k t)"
    using g st by (simp add: lkv_doCompute_def compute_result_def)
qed

definition pool_req :: "'io DHTPool \<Rightarrow> nodeid_t \<Rightarrow> nodeid_t \<Rightarrow> key \<Rightarrow> string \<Rightarrow> string \<Rightarrow> callback_t \<Rightarrow> 'io cluster \<Rightarrow> compute_req" where
  "pool_req pool a b key fn args cb cl = \<lparr>q_origin = a, q_target = b, q_bucket = default_bucket (dht_base pool), q_key = key,
     q_iom = pool_iom_hash (dht_base pool), q_flags = behavior_flags (dht_base pool), q_fn = fn, q_args = args, q_cb = cb,
     q_mb = next_mailbox (n_core (nodes cl a)), q_tmb = next_mailbox (n_core (nodes cl b))\<rparr>"

lemma pool_asks:
  assumes "FindTargetNode key pool = (1, Some b)" "b \<noteq> my_nodeid pool" "\<not> IsRowWildcard key"
  shows "dht_Compute ctx now key fn args cb pool t = Inr (KELPIE_OK, [], [\<lambda>m. Op_compute (OpKelpieCompute_origin ctx b (default_bucket (dht_base pool)) key
    (pool_iom_hash (dht_base pool)) (behavior_flags (dht_base pool)) fn args cb m)], t)"
  using assms node_at_target [OF assms(1)] by (simp add: dht_Compute_def Let_def)

lemma pool_starts:
  assumes q: "q_ok ctx cl q" and p: "q = pool_req pool a b key fn args cb cl"
  shows "launch a (\<lambda>m. Op_compute (OpKelpieCompute_origin (ctx a) b (default_bucket (dht_base pool)) key
    (pool_iom_hash (dht_base pool)) (behavior_flags (dht_base pool)) fn args cb m)) cl = Inr (phase_at ctx q rc x cl Q_send)"
proof -
  have w: "wire cl = []" "dma cl = []" "a \<noteq> b" using q by (simp_all add: q_ok_def idle_def p pool_req_def)
  show ?thesis
    unfolding launch_stage [OF q_ok_core(1-6) [OF q]] using w
    by (cases cl) (simp add: p pool_req_def q_op_def staged_def origin_with_def fun_eq_iff)
qed

text \<open>A schedule that is completed by at most nine events.\<close>

definition comes_to_rest :: "(nodeid_t \<Rightarrow> 'io node_ctx) \<Rightarrow> event list \<Rightarrow> event list \<Rightarrow> nodeid_t \<Rightarrow> (mailbox_t \<Rightarrow> kelpie_op) \<Rightarrow> 'io cluster \<Rightarrow> bool" where
  "comes_to_rest ctx es es' a mk cl = (length es' \<le> 9 \<and> list_all (\<lambda>e. \<not> is_launch e) es' \<and>
     (case rbind (launch a mk cl) (cluster_run ctx (es @ es')) of Inl _ \<Rightarrow> False | Inr (h, cl') \<Rightarrow> quiescent cl'))"

lemma phase_rank_le: "phase_rank ph \<le> 9"
  by (cases ph) simp_all

text \<open>A computation that a pool starts, whatever the schedule.\<close>

lemma compute_journey:
  assumes cl: "idle cl" "named ctx" "mailboxes_for 1 cl" and a: "my_nodeid pool = a" "FindTargetNode key pool = (1, Some b)" "b \<noteq> a"
    and k: "short_key key" "\<not> IsRowWildcard key" "length fn < 256" "length args < 2 ^ 16"
    and l: "om_inv ldos" "\<And>k. om_get ldos k = computable (default_bucket (dht_base pool)) key (n_lkv (nodes cl b)) k"
    and rx: "rc = (if ldos = [] then KELPIE_ENOENT else KELPIE_OK)"
      "x = compute_result (compute_registry (ctx b)) fn args (default_bucket (dht_base pool)) key ldos" "sendable rc x"
    and es: "\<forall>e\<in>set es. \<not> is_launch e" and q: "q = pool_req pool a b key fn args cb cl"
  obtains mk h ph es' where "dht_Compute (ctx a) now key fn args cb pool t0 = Inr (KELPIE_OK, [], [mk], t0)"
    "rbind (launch a mk cl) (cluster_run ctx es) = Inr (h, phase_at ctx q rc x cl ph)"
    "comes_to_rest ctx es es' a mk cl"
    "phase_ok (\<lambda>t'. \<forall>b' k. stored b' k t' = stored b' k (n_lkv (nodes cl b))) (nothing_back rc x) ph" "told q rc x ph = h" "q_ok ctx cl q"
proof -
  have ml: "mailbox_left (n_core (nodes cl n))" for n using mailboxes_left [of 0 cl n] cl(3) by simp
  have ok: "q_ok ctx cl q" using cl a(3) k ml by (simp add: q pool_req_def q_ok_def)
  have sel: "q_target q = b" "q_bucket q = default_bucket (dht_base pool)" "q_key q = key" "q_fn q = fn" "q_args q = args" by (simp_all add: q pool_req_def)
  have inv: "lkv_inv (n_lkv (nodes cl b))" using cl(1) by (simp add: idle_def node_ok_def stores_ok_def)
  have c: "q_computes ctx q (n_lkv (nodes cl b)) rc x (\<lambda>t'. \<forall>b' k. stored b' k t' = stored b' k (n_lkv (nodes cl b)))"
    using store_computes [where q = q and ctx = ctx, OF inv _ _ l(1)] l(2) k(2) short_key_valid [OF k(1)] by (simp add: sel rx(1,2))
  obtain h ph where r: "cluster_run ctx es (phase_at ctx q rc x cl Q_send) = Inr (h, phase_at ctx q rc x cl ph)"
    "phase_ok (\<lambda>t'. \<forall>b' k. stored b' k t' = stored b' k (n_lkv (nodes cl b))) (nothing_back rc x) ph" "told q rc x ph = h"
    using phase_run [OF ok c [folded sel(1)] rx(3) es, of Q_send] by (auto simp: told_def sel(1) simp del: phase_at.simps)
  obtain es' h' ph' where es': "\<forall>e\<in>set es'. \<not> is_launch e" "length es' \<le> phase_rank ph"
    "cluster_run ctx es' (phase_at ctx q rc x cl ph) = Inr (h', phase_at ctx q rc x cl ph')" "quiescent (phase_at ctx q rc x cl ph')"
    using phase_drains [OF ok c [folded sel(1)] rx(3) r(2) [folded sel(1)]] by blast
  have rest: "comes_to_rest ctx es es' a mk cl" if "launch a mk cl = Inr (phase_at ctx q rc x cl Q_send)" for mk
    using that es' phase_rank_le [of ph] cluster_run_append [OF r(1), of es'] by (simp add: comes_to_rest_def list_all_iff del: phase_at.simps)
  show ?thesis
    by (rule that [OF pool_asks [OF a(2) _ k(2)] _ rest r(2,3) ok]) (use a pool_starts [OF ok q, of rc x] r(1) in \<open>simp_all del: phase_at.simps\<close>)
qed

text \<open>
  C8. A computation that a pool starts for a key of another node runs on exactly the objects that node holds in memory
  under matching keys, in key order.  When the function writes an object with bytes and at least the padding of its
  size, then whatever the
  schedule, no node fails, and when the cluster is at rest the callback has been called once, with
  the function's object (in an allocation of its size), no op is left on any node, and every store holds what it held before; at most
  nine more events bring any schedule to that rest.
\<close>
theorem compute_delivered:
  assumes "idle cl" "named ctx" "mailboxes_for 1 cl" "my_nodeid pool = a" "FindTargetNode key pool = (1, Some b)" "b \<noteq> a"
    and "short_key key" "\<not> IsRowWildcard key" "length fn < 256" "length args < 2 ^ 16"
    and "om_inv ldos" "\<And>k. om_get ldos k = computable (default_bucket (dht_base pool)) key (n_lkv (nodes cl b)) k" "ldos \<noteq> []"
    and "compute_result (compute_registry (ctx b)) fn args (default_bucket (dht_base pool)) key ldos = Some d" "transferable d"
    and "\<forall>e\<in>set es. \<not> is_launch e"
  shows "case dht_Compute (ctx a) now key fn args cb pool (n_lkv (nodes cl a)) of
     Inr (rc, calls, [mk], t) \<Rightarrow> rc = KELPIE_OK \<and> calls = [] \<and> t = n_lkv (nodes cl a) \<and> (\<exists>es'. comes_to_rest ctx es es' a mk cl) \<and>
       (case rbind (launch a mk cl) (cluster_run ctx es) of
          Inl _ \<Rightarrow> False
        | Inr (h, cl') \<Rightarrow> quiescent cl' \<longrightarrow>
            h = [Return a (Computed cb KELPIE_OK key (Some (fresh_copy d)))] \<and> (\<forall>n. active_ops (n_core (nodes cl' n)) = []) \<and>
            (\<forall>n b' k. store_of cl' n b' k = store_of cl n b' k))
   | _ \<Rightarrow> False"
proof -
  define q where "q = pool_req pool a b key fn args cb cl"
  have nb: "\<not> nothing_back KELPIE_OK (Some d)"
    using transferable_size(3) [OF assms(15), of 0 0] by (auto simp: nothing_back_def SetLDO_def Let_def)
  have rx: "KELPIE_OK = (if ldos = [] then KELPIE_ENOENT else KELPIE_OK)" "sendable KELPIE_OK (Some d)" using assms(13,15) by (simp_all add: sendable_def)
  obtain mk h ph es' where r: "dht_Compute (ctx a) now key fn args cb pool (n_lkv (nodes cl a)) = Inr (KELPIE_OK, [], [mk], n_lkv (nodes cl a))"
    "rbind (launch a mk cl) (cluster_run ctx es) = Inr (h, phase_at ctx q KELPIE_OK (Some d) cl ph)" "comes_to_rest ctx es es' a mk cl"
    "phase_ok (\<lambda>t'. \<forall>b' k. stored b' k t' = stored b' k (n_lkv (nodes cl b))) (nothing_back KELPIE_OK (Some d)) ph" "told q KELPIE_OK (Some d) ph = h" "q_ok ctx cl q"
    by (rule compute_journey [OF assms(1-12) rx(1) assms(14) [symmetric] rx(2) assms(16) q_def, of now "n_lkv (nodes cl a)"]) blast
  have "h = [Return a (Computed cb KELPIE_OK key (Some (fresh_copy d)))] \<and> (\<forall>n. active_ops (n_core (nodes (phase_at ctx q KELPIE_OK (Some d) cl ph) n)) = []) \<and>
      (\<forall>n b' k. store_of (phase_at ctx q KELPIE_OK (Some d) cl ph) n b' k = store_of cl n b' k)"
    if "quiescent (phase_at ctx q KELPIE_OK (Some d) cl ph)"
    using phase_rests [OF r(6) that]
  proof cases
    case (2 t)
    then show ?thesis
      using r(4,5) q_ok_core(3) [OF r(6)]
      by (auto simp: told_def q_answer_def q_def pool_req_def staged_def origin_with_def target_with_def core_with_def store_of_def)
  qed (use r(4) nb in simp)
  then show ?thesis unfolding r(1) using r(3) by (auto simp: r(2) simp del: phase_at.simps)
qed

text \<open>
  C36. A computation that has nothing to send back strands its target: when the owner holds no matching object, or the function
  writes no object or one without bytes, for instance because it is not registered there, then
  whatever the schedule the callback is called once with a null object, but the op on the owner stays
  active, waiting for an acknowledgement that nobody sends, in a cluster with nothing left to do, which at
  most nine more events reach from any schedule.  With matching objects the callback's return code is KELPIE_OK, even when the function is unknown.
\<close>
theorem compute_strands_target:
  assumes "idle cl" "named ctx" "mailboxes_for 1 cl" "my_nodeid pool = a" "FindTargetNode key pool = (1, Some b)" "b \<noteq> a"
    and "short_key key" "\<not> IsRowWildcard key" "length fn < 256" "length args < 2 ^ 16"
    and "om_inv ldos" "\<And>k. om_get ldos k = computable (default_bucket (dht_base pool)) key (n_lkv (nodes cl b)) k"
    and "x = compute_result (compute_registry (ctx b)) fn args (default_bucket (dht_base pool)) key ldos"
    and "ldos = [] \<or> GetMetaSize x + GetDataSize x = 0" "\<forall>e\<in>set es. \<not> is_launch e"
  shows "(om_get (compute_fns (compute_registry (ctx b))) fn = None \<longrightarrow> x = None) \<and>
    (case dht_Compute (ctx a) now key fn args cb pool (n_lkv (nodes cl a)) of
     Inr (rc, calls, [mk], t) \<Rightarrow> (\<exists>es'. comes_to_rest ctx es es' a mk cl) \<and>
       (case rbind (launch a mk cl) (cluster_run ctx es) of
          Inl _ \<Rightarrow> False
        | Inr (h, cl') \<Rightarrow> quiescent cl' \<longrightarrow>
            h = [Return a (Computed cb (if ldos = [] then KELPIE_ENOENT else KELPIE_OK) key None)] \<and> active_ops (n_core (nodes cl' a)) = [] \<and>
            (\<exists>m op. active_ops (n_core (nodes cl' b)) = [(m, Op_compute op)] \<and> kop_state op = Trgt_compute_wait_for_ack))
   | _ \<Rightarrow> False)"
proof -
  define q where "q = pool_req pool a b key fn args cb cl"
  define rc where "rc = (if ldos = [] then KELPIE_ENOENT else KELPIE_OK)"
  have nb: "nothing_back rc x" using assms(14) by (auto simp: nothing_back_def rc_def rc_defs)
  then have s: "sendable rc x" by (simp add: sendable_def)
  obtain mk h ph es' where r: "dht_Compute (ctx a) now key fn args cb pool (n_lkv (nodes cl a)) = Inr (KELPIE_OK, [], [mk], n_lkv (nodes cl a))"
    "rbind (launch a mk cl) (cluster_run ctx es) = Inr (h, phase_at ctx q rc x cl ph)" "comes_to_rest ctx es es' a mk cl"
    "phase_ok (\<lambda>t'. \<forall>b' k. stored b' k t' = stored b' k (n_lkv (nodes cl b))) (nothing_back rc x) ph" "told q rc x ph = h" "q_ok ctx cl q"
    by (rule compute_journey [OF assms(1-12) rc_def assms(13) s assms(15) q_def, of now "n_lkv (nodes cl a)"]) blast
  have "h = [Return a (Computed cb rc key None)] \<and> active_ops (n_core (nodes (phase_at ctx q rc x cl ph) a)) = [] \<and>
      (\<exists>m op. active_ops (n_core (nodes (phase_at ctx q rc x cl ph) b)) = [(m, Op_compute op)] \<and> kop_state op = Trgt_compute_wait_for_ack)"
    if "quiescent (phase_at ctx q rc x cl ph)"
    using phase_rests [OF r(6) that]
  proof cases
    case (1 t)
    then show ?thesis
      using r(5) assms(6)
      by (auto simp: told_def q_answer_def q_def pool_req_def staged_def origin_with_def target_with_def core_with_def q_served_def rc_def rc_defs)
  qed (use r(4) nb in simp)
  moreover have "om_get (compute_fns (compute_registry (ctx b))) fn = None \<longrightarrow> x = None" by (auto simp: assms(13) compute_result_def doCompute_def)
  ultimately show ?thesis unfolding r(1) using r(3) by (auto simp: r(2) rc_def simp del: phase_at.simps)
qed

section \<open>Two computations\<close>

text \<open>Node 3 asks the owner of a key, node 6, to pick one of its objects; the owner has one, or none.\<close>

definition pick_ctx :: "nodeid_t \<Rightarrow> unit node_ctx" where
  "pick_ctx n = (demo_ctx n)\<lparr>compute_registry := \<lparr>compute_started = True, compute_fns = [(''pick'', fn_pick)]\<rparr>\<rparr>"

definition pick_cell :: LocalKVCell where
  "pick_cell = (new_LocalKVCell 0)\<lparr>cell_ldo := Some demo_object, availability := InLocalMemory\<rparr>"

definition pick_store :: LocalKV where
  "pick_store = \<lparr>configured = True, rows = [(makeRowname 5 demo_key, (new_LocalKVRow (K1 demo_key))\<lparr>col_single := Some pick_cell\<rparr>)]\<rparr>"

definition pick_cluster :: "unit cluster" where
  "pick_cluster = with_store 6 pick_store demo_cluster"

lemma pick_cell_simps: "waiting_ops_list pick_cell = []" "getNumDependencies pick_cell = 0" "cell_wf pick_cell" "cell_ldo pick_cell = Some demo_object"
  "availability pick_cell = InLocalMemory"
  by (simp_all add: pick_cell_def new_LocalKVCell_def getNumDependencies_def cell_wf_def)

lemma pick_at: "cell_at b k pick_store = (if makeRowname b k = makeRowname 5 demo_key \<and> K2 k = [] then Some pick_cell else None)"
  by (auto simp: cell_at_def getRow_def pick_store_def getCol_def new_LocalKVRow_def)

lemma pick_stored: "stored b k pick_store = (if makeRowname b k = makeRowname 5 demo_key \<and> K2 k = [] then Some (Some demo_object) else None)"
  by (auto simp: stored_def pick_at pick_cell_simps)

lemma pick_idle: "idle pick_cluster" "named pick_ctx" "mailboxes_for 1 pick_cluster" "mailboxes_for 1 demo_cluster"
proof -
  have inv: "lkv_inv pick_store"
    by (simp add: lkv_inv_def pick_store_def row_inv_def new_LocalKVRow_def makeRowname_def pick_cell_simps suffix_def)
  have "waiting_at b k pick_store = []" for b k by (simp add: waiting_at_def pick_at pick_cell_simps)
  moreover have "stores_ok pick_store" using inv demo_object_transferable(1) by (simp add: stores_ok_def pick_stored no_lost_waiters_def pick_at pick_cell_simps)
  ultimately show "idle pick_cluster" unfolding pick_cluster_def using with_store_idle [OF demo_hyps(1)] by blast
  show "mailboxes_for 1 demo_cluster" "mailboxes_for 1 pick_cluster"
    using mailboxes_mono [OF _ demo_hyps(5), of 1] by (simp_all add: pick_cluster_def mailboxes_for_def with_store_def)
  show "named pick_ctx" by (simp add: named_def pick_ctx_def demo_ctx_def)
qed

lemma pick_given:
  "om_get [(demo_key, Some demo_object)] k = computable (default_bucket (dht_base (dht_demo 3))) demo_key (n_lkv (nodes pick_cluster 6)) k"
  "om_get [] k = computable (default_bucket (dht_base (dht_demo 3))) demo_key (n_lkv (nodes demo_cluster 6)) k"
proof -
  have m: "Matches_key k demo_key \<longleftrightarrow> k = demo_key"
    by (cases k) (auto simp: Matches_key_def Matches_pattern pattern_matches_def demo_key_def StringEndsWith_star)
  have w: "\<not> IsColWildcard demo_key" by (simp add: IsColWildcard_def demo_key_def StringEndsWith_star)
  show "om_get [(demo_key, Some demo_object)] k = computable (default_bucket (dht_base (dht_demo 3))) demo_key (n_lkv (nodes pick_cluster 6)) k"
    using m w by (auto simp: computable_def pick_cluster_def with_store_def demo_pools(3) pick_stored) (simp_all add: demo_key_def)
  show "om_get [] k = computable (default_bucket (dht_base (dht_demo 3))) demo_key (n_lkv (nodes demo_cluster 6)) k"
    using demo_slots(3) [of 6] m by (auto simp: computable_def demo_pools(3) store_of_def)
qed

lemma pick_picks:
  "compute_result (compute_registry (pick_ctx 6)) ''pick'' ''largest'' (default_bucket (dht_base (dht_demo 3))) demo_key [(demo_key, Some demo_object)] =
   Some demo_object"
  by (simp add: compute_result_def doCompute_def pick_ctx_def fn_pick_def pick_index_def pick_choices_def pick_largest_def demo_object_def GetUserSize_def)

theorem compute_delivered_witness:
  "idle pick_cluster \<and> FindTargetNode demo_key (dht_demo 3) = (1, Some 6) \<and>
   (case dht_Compute (pick_ctx 3) 0 demo_key ''pick'' ''largest'' 8 (dht_demo 3) (n_lkv (nodes pick_cluster 3)) of
     Inr (rc, calls, [mk], t) \<Rightarrow> rc = KELPIE_OK \<and>
       (\<exists>es h cl'. rbind (launch 3 mk pick_cluster) (cluster_run pick_ctx es) = Inr (h, cl') \<and> quiescent cl' \<and>
          h = [Return 3 (Computed 8 KELPIE_OK demo_key (Some demo_object))] \<and> active_ops (n_core (nodes cl' 6)) = [])
   | _ \<Rightarrow> False)"
proof -
  have row: "\<not> IsRowWildcard demo_key" by (simp add: IsRowWildcard_def demo_key_def StringEndsWith_star)
  note T = compute_delivered [where cl = pick_cluster and ctx = pick_ctx and pool = "dht_demo 3" and a = 3 and b = 6 and fn = "''pick''" and args = "''largest''"
      and ldos = "[(demo_key, Some demo_object)]" and now = 0 and cb = 8, OF pick_idle(1-3) demo_pools(2) demo_owner _ demo_slots(1) row _ _ _ pick_given(1)
      _ pick_picks demo_object_transferable(1), simplified]
  obtain rc calls mk t where c: "dht_Compute (pick_ctx 3) 0 demo_key ''pick'' ''largest'' 8 (dht_demo 3) (n_lkv (nodes pick_cluster 3)) = Inr (rc, calls, [mk], t)"
    using T [of "[]"] by (auto split: sum.splits prod.splits list.splits)
  note T = T [unfolded c, simplified]
  obtain es where es: "comes_to_rest pick_ctx [] es 3 mk pick_cluster" using T [of "[]"] by auto
  then obtain h cl' where r: "rbind (launch 3 mk pick_cluster) (cluster_run pick_ctx es) = Inr (h, cl')" "quiescent cl'"
    by (auto simp: comes_to_rest_def split: sum.splits)
  have "\<forall>e\<in>set es. \<not> is_launch e" using es by (simp add: comes_to_rest_def list_all_iff)
  then show ?thesis using T [of es] r pick_idle(1) demo_owner by (auto simp: c demo_object_transferable(2))
qed

theorem compute_strands_target_witness:
  "idle demo_cluster \<and> FindTargetNode demo_key (dht_demo 3) = (1, Some 6) \<and>
   (case dht_Compute (pick_ctx 3) 0 demo_key ''pick'' ''first'' 8 (dht_demo 3) (n_lkv (nodes demo_cluster 3)) of
     Inr (rc, calls, [mk], t) \<Rightarrow>
       (\<exists>es h cl'. rbind (launch 3 mk demo_cluster) (cluster_run pick_ctx es) = Inr (h, cl') \<and> quiescent cl' \<and>
          h = [Return 3 (Computed 8 KELPIE_ENOENT demo_key None)] \<and>
          (\<exists>m op. active_ops (n_core (nodes cl' 6)) = [(m, Op_compute op)] \<and> kop_state op = Trgt_compute_wait_for_ack))
   | _ \<Rightarrow> False)"
proof -
  have row: "\<not> IsRowWildcard demo_key" by (simp add: IsRowWildcard_def demo_key_def StringEndsWith_star)
  note T = compute_strands_target [where cl = demo_cluster and ctx = pick_ctx and pool = "dht_demo 3" and a = 3 and b = 6 and fn = "''pick''" and args = "''first''"
      and ldos = "[]" and now = 0 and cb = 8, OF demo_hyps(1) pick_idle(2,4) demo_pools(2) demo_owner _ demo_slots(1) row _ _ _ pick_given(2) refl, simplified]
  obtain rc calls mk t where c: "dht_Compute (pick_ctx 3) 0 demo_key ''pick'' ''first'' 8 (dht_demo 3) (n_lkv (nodes demo_cluster 3)) = Inr (rc, calls, [mk], t)"
    using T [of "[]"] by (auto split: sum.splits prod.splits list.splits)
  note T = T [unfolded c, simplified]
  obtain es where es: "comes_to_rest pick_ctx [] es 3 mk demo_cluster" using T [of "[]"] by auto
  then obtain h cl' where r: "rbind (launch 3 mk demo_cluster) (cluster_run pick_ctx es) = Inr (h, cl')" "quiescent cl'"
    by (auto simp: comes_to_rest_def split: sum.splits)
  have "\<forall>e\<in>set es. \<not> is_launch e" using es by (simp add: comes_to_rest_def list_all_iff)
  then show ?thesis using T [of es] r demo_hyps(1) demo_owner by (auto simp: c)
qed

end
