(* ===== verification/Config_Settings.thy ===== *)
theory Config_Settings
  imports Node_Ids
begin

text \<open>
  The configuration that every component is started with (\<^verbatim>\<open>faodel-common/Configuration.cpp\<close>): reading the lines
  of a configuration, names that collect several values, and the look-up that prefers the settings
  of the node's role.  The environment, the shell's expansion of paths and the contents of files are
  parameters.  The tokenizer is a loop that may not end, which is the value \<^term>\<open>None\<close>.
\<close>

section \<open>State and look-up\<close>

definition ENOENT :: int where "ENOENT = 2"
definition EINVAL :: int where "EINVAL = 22"

record Configuration =
  node_role :: string
  config_map :: "(string, string) omap"

definition search_list :: "string \<Rightarrow> Configuration \<Rightarrow> string list" where
  "search_list name cfg = (let lname = ToLowercase name in [node_role cfg @ ''.'' @ lname, ''default.'' @ lname, lname])"

text \<open>The first of the names that is set, or the default.\<close>

fun first_set :: "string list \<Rightarrow> (string, string) omap \<Rightarrow> string option" where
  "first_set [] m = None"
| "first_set (s # ss) m = (case om_get m s of Some v \<Rightarrow> Some v | None \<Rightarrow> first_set ss m)"

definition findBestMatch :: "string \<Rightarrow> string \<Rightarrow> Configuration \<Rightarrow> int \<times> string" where
  "findBestMatch name default_value cfg =
     (case first_set (search_list name cfg) (config_map cfg) of Some v \<Rightarrow> (0, v) | None \<Rightarrow> (ENOENT, default_value))"

definition config_GetString :: "string \<Rightarrow> string \<Rightarrow> Configuration \<Rightarrow> int \<times> string" where
  "config_GetString name default_value cfg = findBestMatch name default_value cfg"

definition GetLowercaseString :: "string \<Rightarrow> string \<Rightarrow> Configuration \<Rightarrow> int \<times> string" where
  "GetLowercaseString name default_value cfg = (let (rc, tmp) = config_GetString name default_value cfg in (rc, ToLowercase tmp))"

definition Contains :: "string \<Rightarrow> Configuration \<Rightarrow> bool" where
  "Contains name cfg = (fst (config_GetString name [] cfg) \<noteq> ENOENT)"

text \<open>
  \<^verbatim>\<open>GetStringVector\<close>: the values of \<open>name.0\<close>, \<open>name.1\<close> and so on up to the first that is not set.  No more than the number of
  settings can be set, so that many rounds and one are enough; the code's counter is an \<^verbatim>\<open>int\<close>, which is wide enough for
  fewer than 2147483648 settings.
\<close>
fun vector_loop :: "nat \<Rightarrow> nat \<Rightarrow> string \<Rightarrow> Configuration \<Rightarrow> string list" where
  "vector_loop 0 i name cfg = []"
| "vector_loop (Suc fuel) i name cfg =
     (let (rc, v) = config_GetString (name @ ''.'' @ dec_of_nat i) [] cfg in if rc \<noteq> ENOENT then v # vector_loop fuel (Suc i) name cfg else [])"

definition GetStringVector :: "string \<Rightarrow> Configuration \<Rightarrow> nat \<times> string list" where
  "GetStringVector name cfg = (let vals = vector_loop (Suc (length (config_map cfg))) 0 name cfg in (length vals, vals))"

section \<open>Setting\<close>

definition config_Set :: "string \<Rightarrow> string \<Rightarrow> Configuration \<Rightarrow> Configuration" where
  "config_Set name val cfg =
     (let lname = ToLowercase name;
          suf = drop (length lname - 2) lname;
          pre = take (length lname - 2) lname;
          (target_name, target_val) =
            (if length lname > 2 then
               if suf = ''[]'' then (pre @ ''.'' @ dec_of_nat (fst (GetStringVector pre cfg)), val)
               else if suf = ''<>'' then (pre, case om_get (config_map cfg) pre of Some old \<Rightarrow> old @ '';'' @ val | None \<Rightarrow> val)
               else (lname, val)
             else (lname, val));
          cfg1 = cfg\<lparr>config_map := om_set target_name target_val (config_map cfg)\<rparr>
      in if name = ''node_role'' then cfg1\<lparr>node_role := val\<rparr> else cfg1)"

definition config_Set_int :: "string \<Rightarrow> int \<Rightarrow> Configuration \<Rightarrow> Configuration" where
  "config_Set_int name val cfg = config_Set name (dec_of_int val) cfg"

definition config_Set_bool :: "string \<Rightarrow> bool \<Rightarrow> Configuration \<Rightarrow> Configuration" where
  "config_Set_bool name val cfg = config_Set name (if val then ''true'' else ''false'') cfg"

text \<open>A pointer is printed with its base and filled with zeros between base and digits; zero is printed without a base.\<close>

definition config_Set_ptr :: "string \<Rightarrow> u64 \<Rightarrow> Configuration \<Rightarrow> Configuration" where
  "config_Set_ptr name val cfg =
     config_Set name (if val = 0 then pad_left 18 CHR ''0'' ''0'' else ''0x'' @ pad_left 16 CHR ''0'' (hex_of_nat (unat val))) cfg"

definition config_Unset :: "string \<Rightarrow> Configuration \<Rightarrow> Configuration" where
  "config_Unset name cfg = cfg\<lparr>config_map := om_del name (config_map cfg)\<rparr>"

definition AppendIfUnset :: "string \<Rightarrow> string \<Rightarrow> Configuration \<Rightarrow> Configuration" where
  "AppendIfUnset name val cfg = (if Contains name cfg then cfg else config_Set name val cfg)"

section \<open>Reading lines\<close>

definition blank :: "char \<Rightarrow> bool" where
  "blank c = (c = CHR '' '' \<or> c = CHR 0x09)"

text \<open>Positions in a string; \<^term>\<open>None\<close> is \<^verbatim>\<open>npos\<close>.\<close>

definition find_from :: "(char \<Rightarrow> bool) \<Rightarrow> string \<Rightarrow> nat option \<Rightarrow> nat option" where
  "find_from P str pos = (case pos of None \<Rightarrow> None
     | Some p \<Rightarrow> let k = p + length (takeWhile (\<lambda>c. \<not> P c) (drop p str)) in if k < length str then Some k else None)"

definition substr :: "string \<Rightarrow> nat option \<Rightarrow> nat option \<Rightarrow> string" where
  "substr str p0 p1 = (case p0 of None \<Rightarrow> [] | Some p \<Rightarrow> (case p1 of None \<Rightarrow> drop p str | Some q \<Rightarrow> take (q - p) (drop p str)))"

partial_function (option) tokenize_loop :: "string \<Rightarrow> nat option \<Rightarrow> nat option \<Rightarrow> string list \<Rightarrow> string list option" where
  "tokenize_loop str p0 endpos tokens =
     (if p0 = endpos then Some tokens
      else tokenize_loop str (find_from (\<lambda>c. \<not> blank c) str (find_from blank str p0)) endpos
             (if find_from blank str p0 \<noteq> p0 then tokens @ [substr str p0 (find_from blank str p0)] else tokens))"

definition tokenizeLine :: "string \<Rightarrow> string list option" where
  "tokenizeLine str = tokenize_loop str (Some 0) (find_from (\<lambda>c. c = CHR ''#'') str (Some 0)) []"

definition add_line_to_map :: "string \<Rightarrow> Configuration \<Rightarrow> Configuration option" where
  "add_line_to_map item cfg = (case tokenizeLine item of
     None \<Rightarrow> None
   | Some res \<Rightarrow> Some (if length res > 1 then config_Set (ToLowercase (hd res)) (Join (tl res) CHR '' '') cfg else cfg))"

fun addConfigToMap :: "string list \<Rightarrow> Configuration \<Rightarrow> Configuration option" where
  "addConfigToMap [] cfg = Some cfg"
| "addConfigToMap (item # items) cfg = (case add_line_to_map item cfg of None \<Rightarrow> None | Some cfg1 \<Rightarrow> addConfigToMap items cfg1)"

definition config_Append :: "string \<Rightarrow> Configuration \<Rightarrow> Configuration option" where
  "config_Append config_str cfg = addConfigToMap (getlines CHR 0x0A config_str) cfg"

definition Configuration_ctor :: "string \<Rightarrow> string \<Rightarrow> Configuration option" where
  "Configuration_ctor configuration_string env_variable =
     (let cfg = \<lparr>node_role = ''default'', config_map = []\<rparr>;
          cfg1 = (if env_variable \<noteq> [] then config_Set ''config.additional_files.env_name.if_defined'' env_variable cfg else cfg)
      in if configuration_string \<noteq> [] then config_Append configuration_string cfg1 else Some cfg1)"

section \<open>Files and the environment\<close>

text \<open>
  \<open>expand\<close> is the shell's expansion of a path (empty when it fails), \<open>contents\<close> what a file holds (nothing when it
  cannot be read), \<open>getenv\<close> the environment.  Inserting the buffer of a file that gives no character puts the
  stream that collects the text into its failed state, and it takes nothing after that.
\<close>
fun stream_files :: "(string \<Rightarrow> string) \<Rightarrow> (string \<Rightarrow> string) \<Rightarrow> string list \<Rightarrow> string" where
  "stream_files expand contents [] = []"
| "stream_files expand contents (segment # segments) =
     (if expand segment = [] then stream_files expand contents segments
      else if contents (expand segment) = [] then []
      else contents (expand segment) @ stream_files expand contents segments)"

definition AppendFromFile :: "(string \<Rightarrow> string) \<Rightarrow> (string \<Rightarrow> string) \<Rightarrow> string \<Rightarrow> Configuration \<Rightarrow> Configuration option" where
  "AppendFromFile expand contents file_name cfg = config_Append (stream_files expand contents (getlines CHR '';'' file_name)) cfg"

definition add_file_name :: "string \<Rightarrow> string \<Rightarrow> string" where
  "add_file_name names f = (if names \<noteq> [] then names @ '';'' @ f else f)"

definition AppendFromReferences ::
  "(string \<Rightarrow> string option) \<Rightarrow> (string \<Rightarrow> string) \<Rightarrow> (string \<Rightarrow> string) \<Rightarrow> Configuration \<Rightarrow> Configuration option result" where
  "AppendFromReferences getenv expand contents cfg =
     (let files = snd (config_GetString ''config.additional_files'' [] cfg);
          env_name1 = snd (config_GetString ''config.additional_files.env_name'' [] cfg);
          env_name2 = snd (config_GetString ''config.additional_files.env_name.if_defined'' [] cfg);
          cfg1 = cfg\<lparr>config_map := om_del ''config.additional_files.env_name.if_defined'' (om_del ''config.additional_files.env_name''
                   (om_del ''config.additional_files'' (config_map cfg)))\<rparr>
      in rbind (if env_name1 \<noteq> [] then (case getenv env_name1 of None \<Rightarrow> Inl Runtime_error | Some f \<Rightarrow> Inr (add_file_name files f)) else Inr files)
           (\<lambda>files1.
             let files2 = (if env_name2 \<noteq> [] then (case getenv env_name2 of Some f \<Rightarrow> add_file_name files1 f | None \<Rightarrow> files1) else files1)
             in Inr (AppendFromFile expand contents files2 cfg1)))"

text \<open>The first choice that expands to something wins; a name that must be in the environment and is not there is an error.\<close>

definition GetFilename ::
  "(string \<Rightarrow> string option) \<Rightarrow> (string \<Rightarrow> string) \<Rightarrow> string \<Rightarrow> string \<Rightarrow> string \<Rightarrow> Configuration \<Rightarrow> (int \<times> string option) result" where
  "GetFilename getenv expand name default_env_var default_file cfg =
     (let (rc, explicit) = config_GetString (name @ ''.file'') [] cfg;
          optional = snd (config_GetString (name @ ''.file.env_name.if_defined'') [] cfg);
          mandatory = snd (config_GetString (name @ ''.file.env_name'') [] cfg);
          from_env = (\<lambda>v. if v = [] then None else case getenv v of None \<Rightarrow> None | Some p \<Rightarrow> if expand p \<noteq> [] then Some (expand p) else None)
      in if rc = 0 \<and> expand explicit \<noteq> [] then Inr (0, Some (expand explicit))
         else case from_env optional of
           Some f \<Rightarrow> Inr (0, Some f)
         | None \<Rightarrow>
             if mandatory \<noteq> [] then (case from_env mandatory of Some f \<Rightarrow> Inr (0, Some f) | None \<Rightarrow> Inl Runtime_error)
             else case from_env default_env_var of
               Some f \<Rightarrow> Inr (0, Some f)
             | None \<Rightarrow> if default_file \<noteq> [] then Inr (0, Some (expand default_file)) else Inr (ENOENT, None))"

section \<open>Typed values\<close>

text \<open>The value is \<^term>\<open>None\<close> where the caller's variable is not written.\<close>

definition config_GetInt :: "string \<Rightarrow> string \<Rightarrow> Configuration \<Rightarrow> (int \<times> int option) result" where
  "config_GetInt name default_value cfg =
     (let (rc, tmp) = findBestMatch name default_value cfg in
      rbind (StringToInt64 tmp) (\<lambda>v. Inr (case v of None \<Rightarrow> (EINVAL, None) | Some i \<Rightarrow> (rc, Some i))))"

definition config_GetUInt :: "bool \<Rightarrow> string \<Rightarrow> string \<Rightarrow> Configuration \<Rightarrow> (int \<times> u64 option) result" where
  "config_GetUInt erange name default_value cfg =
     (let (rc, tmp) = findBestMatch name default_value cfg in
      rbind (StringToInt64 tmp) (\<lambda>v. case v of
        None \<Rightarrow> Inr (EINVAL, None)
      | Some ival \<Rightarrow>
          if ival < 0 then Inr (EINVAL, Some 0)
          else rbind (StringToUInt64 erange tmp) (\<lambda>u. Inr (case u of None \<Rightarrow> (EINVAL, Some (word_of_nat ULONG_MAX)) | Some w \<Rightarrow> (rc, Some w)))))"

definition config_GetTimeUS :: "bool \<Rightarrow> string \<Rightarrow> string \<Rightarrow> Configuration \<Rightarrow> int \<times> u64" where
  "config_GetTimeUS erange name default_value cfg =
     (let (rc, tmp) = findBestMatch name default_value cfg in case StringToTimeUS erange tmp of None \<Rightarrow> (EINVAL, 0) | Some w \<Rightarrow> (rc, w))"

definition config_GetBool :: "string \<Rightarrow> string \<Rightarrow> Configuration \<Rightarrow> int \<times> bool option" where
  "config_GetBool name default_value cfg =
     (let (rc, tmp) = findBestMatch name default_value cfg in
      case StringToBoolean tmp of Some b \<Rightarrow> (rc, Some b) | None \<Rightarrow> (EINVAL, if tmp = [] then Some False else None))"

definition config_GetPtr :: "string \<Rightarrow> u64 \<Rightarrow> Configuration \<Rightarrow> int \<times> u64" where
  "config_GetPtr name default_value cfg =
     (let (rc, tmp) = findBestMatch name [] cfg in if rc = ENOENT then (ENOENT, default_value) else (rc, StringToPtr tmp))"

section \<open>Settings of a component\<close>

text \<open>The last character of the name is looked at before the name is known not to be empty.\<close>

definition component_prefix :: "string \<Rightarrow> string result" where
  "component_prefix name = (let l = ToLowercase name in
     if l = [] then Inl Undefined_behaviour else Inr (if last l \<noteq> CHR ''.'' then l @ ''.'' else l))"

definition GetComponentSettings :: "string \<Rightarrow> Configuration \<Rightarrow> (string, string) omap result" where
  "GetComponentSettings component_name cfg =
     rbind (component_prefix component_name) (\<lambda>lprefix. Inr
       (fold (\<lambda>(name, val) results. if StringBeginsWith name lprefix then om_set (drop (length lprefix) name) val results else results) (config_map cfg) []))"

definition bool_or :: "bool \<Rightarrow> int \<times> bool option \<Rightarrow> bool" where
  "bool_or old r = (case snd r of Some b \<Rightarrow> b | None \<Rightarrow> old)"

text \<open>The three flags after the call, given what the caller's variables held before.\<close>

definition GetComponentLoggingSettings :: "string \<Rightarrow> bool \<times> bool \<times> bool \<Rightarrow> Configuration \<Rightarrow> bool \<times> bool \<times> bool" where
  "GetComponentLoggingSettings component_name = (\<lambda>(dbg, info, warn) cfg.
     let tmp_dbg = bool_or False (config_GetBool (component_name @ ''.debug'') ''false'' cfg);
         tmp_info = bool_or False (config_GetBool (component_name @ ''.info'') ''false'' cfg) \<or> tmp_dbg;
         default1 = (if tmp_dbg then ''true'' else ''false'');
         default2 = (if tmp_info then ''true'' else default1)
     in (bool_or dbg (config_GetBool (component_name @ ''.log.debug'') default1 cfg),
         bool_or info (config_GetBool (component_name @ ''.log.info'') default2 cfg),
         bool_or warn (config_GetBool (component_name @ ''.log.warn'') default2 cfg)))"

definition GetAllSettings :: "Configuration \<Rightarrow> (string \<times> string) list" where
  "GetAllSettings cfg = (''node_role'', node_role cfg) # config_map cfg"

definition GetDefaultSecurityBucket :: "Configuration \<Rightarrow> int \<times> string" where
  "GetDefaultSecurityBucket cfg =
     (let b = (case first_set [node_role cfg @ ''.security_bucket'', ''security_bucket''] (config_map cfg) of
                 Some v \<Rightarrow> v | None \<Rightarrow> ''default-bucket-name'')
      in (if b = [] then ENOENT else 0, b))"

definition GetDefaultSecurityBucket_id :: "Configuration \<Rightarrow> (int \<times> bucket_t option) result" where
  "GetDefaultSecurityBucket_id cfg = (let (rc, name) = GetDefaultSecurityBucket cfg in if rc \<noteq> 0 then Inr (rc, None) else rbind (Bucket name) (\<lambda>b. Inr (0, Some b)))"

definition config_sstr :: "int \<Rightarrow> nat \<Rightarrow> Configuration \<Rightarrow> string" where
  "config_sstr depth indent cfg = (if depth < 0 then [] else
     replicate indent CHR '' '' @ ''[Configuration]'' @ [CHR 0x0A] @
     concat (map (\<lambda>(k, v). replicate (indent + 2) CHR '' '' @ k @ '' '' @ v @ [CHR 0x0A]) (config_map cfg)))"

definition GetDefaultThreadingModel :: "Configuration \<Rightarrow> int \<times> string" where
  "GetDefaultThreadingModel cfg = config_GetString ''threading_model'' ''default'' cfg"

datatype MutexWrapperTypeID = MUTEX_DEFAULT | MUTEX_NONE | OMP_LOCK | PTHREADS_LOCK | PTHREADS_RWLOCK | MUTEX_UNSUPPORTED | MUTEX_ERROR

text \<open>The build uses pthreads; any other model stops the process.\<close>

definition GetMutexTypeID :: "string \<Rightarrow> string \<Rightarrow> MutexWrapperTypeID result" where
  "GetMutexTypeID threading_model mutex_type =
     (if threading_model = ''none'' \<or> mutex_type = ''none'' then Inr MUTEX_NONE
      else if threading_model = ''pthreads'' \<or> threading_model = ''default''
      then Inr (if mutex_type = ''rwlock'' then PTHREADS_RWLOCK else PTHREADS_LOCK)
      else Inl Assert_failed)"

definition GetComponentMutexTypeID :: "string \<Rightarrow> string \<Rightarrow> Configuration \<Rightarrow> MutexWrapperTypeID result" where
  "GetComponentMutexTypeID component_name default_mutex_type cfg =
     GetMutexTypeID (snd (GetDefaultThreadingModel cfg))
       (if component_name = [] then default_mutex_type else snd (config_GetString (component_name @ ''.mutex_type'') default_mutex_type cfg))"

section \<open>What the tokenizer does\<close>

fun split_blank :: "string \<Rightarrow> string list" where
  "split_blank [] = [[]]"
| "split_blank (c # cs) = (if blank c then [] # split_blank cs else (case split_blank cs of [] \<Rightarrow> [[c]] | w # ws \<Rightarrow> (c # w) # ws))"

text \<open>The words of a line.\<close>

definition line_words :: "string \<Rightarrow> string list" where
  "line_words s = filter (\<lambda>w. w \<noteq> []) (split_blank s)"

lemma split_blank_ne [simp]: "split_blank s \<noteq> []"
  by (cases s) (auto split: list.splits)

lemma split_blank_word:
  "\<forall>c\<in>set w. \<not> blank c \<Longrightarrow> split_blank (w @ s) = (w @ hd (split_blank s)) # tl (split_blank s)"
  by (induction w) (auto split: list.splits)

lemma line_words_simps [simp]:
  "line_words [] = []" "blank c \<Longrightarrow> line_words (c # s) = line_words s"
  "w \<noteq> [] \<Longrightarrow> \<forall>c\<in>set w. \<not> blank c \<Longrightarrow> line_words w = [w]"
  "w \<noteq> [] \<Longrightarrow> \<forall>c\<in>set w. \<not> blank c \<Longrightarrow> blank b \<Longrightarrow> line_words (w @ b # s) = w # line_words s"
  using split_blank_word [of w "[]"] split_blank_word [of w "b # s"] by (auto simp: line_words_def)

lemma line_words_blanks: "\<forall>c\<in>set bs. blank c \<Longrightarrow> line_words (bs @ s) = line_words s"
  by (induction bs) auto

lemma find_from_Some:
  assumes "str = a @ b @ c # s" "\<forall>x\<in>set b. \<not> P x" "P c"
  shows "find_from P str (Some (length a)) = Some (length a + length b)"
  using assms by (simp add: find_from_def Let_def takeWhile_append)

lemma find_from_None: "str = a @ b \<Longrightarrow> \<forall>x\<in>set b. \<not> P x \<Longrightarrow> find_from P str (Some (length a)) = None"
  by (simp add: find_from_def Let_def takeWhile_eq_all_conv [THEN iffD2])

lemma find_from_npos [simp]: "find_from P str None = None"
  by (simp add: find_from_def)

lemma find_from_mono: "find_from P str (Some p) = Some q \<Longrightarrow> p \<le> q"
  by (auto simp: find_from_def Let_def split: if_splits)

text \<open>Past the comment sign the loop never meets its end position.\<close>

definition beyond :: "nat \<Rightarrow> nat option \<Rightarrow> bool" where
  "beyond e p0 = (case p0 of None \<Rightarrow> True | Some p \<Rightarrow> e < p)"

lemma beyond_next: "beyond e p0 \<Longrightarrow> beyond e (find_from P str (find_from Q str p0))"
  by (auto simp: beyond_def split: option.splits dest!: find_from_mono) (metis find_from_mono find_from_npos less_le_trans option.exhaust option.sel option.simps(3))+

lemma tokenize_never_ends:
  "tokenize_loop str p0 endpos tokens = Some r \<Longrightarrow> endpos = Some e \<longrightarrow> \<not> beyond e p0"
proof (rule tokenize_loop.raw_induct [where P = "\<lambda>str p0 endpos tokens r. endpos = Some e \<longrightarrow> \<not> beyond e p0"])
  fix tok :: "string \<Rightarrow> nat option \<Rightarrow> nat option \<Rightarrow> string list \<Rightarrow> string list option" and str p0 endpos tokens r
  assume IH: "\<And>str p0 endpos tokens r. tok str p0 endpos tokens = Some r \<Longrightarrow> endpos = Some e \<longrightarrow> \<not> beyond e p0"
    and step: "(if p0 = endpos then Some tokens
        else tok str (find_from (\<lambda>c. \<not> blank c) str (find_from blank str p0)) endpos
               (if find_from blank str p0 \<noteq> p0 then tokens @ [substr str p0 (find_from blank str p0)] else tokens)) = Some r"
  show "endpos = Some e \<longrightarrow> \<not> beyond e p0"
  proof (intro impI notI)
    assume e: "endpos = Some e" and b: "beyond e p0"
    then have "p0 \<noteq> endpos" by (auto simp: beyond_def)
    then show False using step IH e beyond_next [OF b] by simp blast
  qed
qed

lemma tokenize_diverges: "beyond e p0 \<Longrightarrow> tokenize_loop str p0 (Some e) tokens = None"
  using tokenize_never_ends [of str p0 "Some e" tokens] by (cases "tokenize_loop str p0 (Some e) tokens") blast+

lemma tokenize_end [simp]: "tokenize_loop str p p acc = Some acc"
  by (simp add: tokenize_loop.simps)

lemma tokenize_empty [simp]: "tokenizeLine [] = Some [[]]"
  by (simp add: tokenizeLine_def tokenize_loop.simps find_from_def substr_def)

lemma tokenize_last:
  assumes "str = a @ w" "w \<noteq> []" "\<forall>c\<in>set w. \<not> blank c" "endpos \<noteq> Some (length a)"
  shows "tokenize_loop str (Some (length a)) endpos acc = tokenize_loop str None endpos (acc @ [w])"
  using assms find_from_None [of str a w blank] by (subst tokenize_loop.simps) (simp add: substr_def)

lemma tokenize_word:
  assumes "str = a @ w @ bs @ t" "w \<noteq> []" "\<forall>c\<in>set w. \<not> blank c" "bs \<noteq> []" "\<forall>c\<in>set bs. blank c"
    "t \<noteq> [] \<longrightarrow> \<not> blank (hd t)" "endpos \<noteq> Some (length a)"
  shows "tokenize_loop str (Some (length a)) endpos acc
       = tokenize_loop str (if t = [] then None else Some (length (a @ w @ bs))) endpos (acc @ [w])"
proof -
  obtain b bs' where bs: "bs = b # bs'" using assms(4) by (cases bs) auto
  have p1: "find_from blank str (Some (length a)) = Some (length (a @ w))"
    using assms(1,3,5) bs find_from_Some [of str a w b "bs' @ t" blank] by simp
  have p0: "find_from (\<lambda>c. \<not> blank c) str (Some (length (a @ w))) = (if t = [] then None else Some (length (a @ w @ bs)))"
    using assms(1,5,6) find_from_None [of str "a @ w" bs "\<lambda>c. \<not> blank c"] find_from_Some [of str "a @ w" bs "hd t" "tl t" "\<lambda>c. \<not> blank c"]
    by (cases t) auto
  have "substr str (Some (length a)) (Some (length (a @ w))) = w" using assms(1) by (simp add: substr_def)
  with p1 p0 assms(2,7) show ?thesis by (subst tokenize_loop.simps) simp
qed

lemma tokenize_blanks:
  assumes "str = bs @ t" "bs \<noteq> []" "\<forall>c\<in>set bs. blank c" "t \<noteq> [] \<longrightarrow> \<not> blank (hd t)" "endpos \<noteq> Some 0"
  shows "tokenize_loop str (Some 0) endpos acc = tokenize_loop str (if t = [] then None else Some (length bs)) endpos acc"
proof -
  obtain b bs' where bs: "bs = b # bs'" using assms(2) by (cases bs) auto
  have p1: "find_from blank str (Some 0) = Some 0" using assms(1,3) bs find_from_Some [of str "[]" "[]" b "bs' @ t" blank] by simp
  have p0: "find_from (\<lambda>c. \<not> blank c) str (Some 0) = (if t = [] then None else Some (length bs))"
    using assms(1,3,4) find_from_None [of str "[]" bs "\<lambda>c. \<not> blank c"] find_from_Some [of str "[]" bs "hd t" "tl t" "\<lambda>c. \<not> blank c"]
    by (cases t) auto
  with p1 assms(5) show ?thesis by (subst tokenize_loop.simps) simp
qed

text \<open>The part of a line before its comment, and whether the comment starts where a word could.\<close>

definition before_comment :: "string \<Rightarrow> string" where
  "before_comment s = takeWhile (\<lambda>c. c \<noteq> CHR ''#'') s"

definition comment_apart :: "string \<Rightarrow> bool" where
  "comment_apart s = (CHR ''#'' \<notin> set s \<or> before_comment s = [] \<or> blank (last (before_comment s)))"

lemma blank_not_hash: "blank c \<Longrightarrow> c \<noteq> CHR ''#''"
  by (auto simp: blank_def)

lemma hash_not_blank [simp]: "\<not> blank CHR ''#''"
  by (simp add: blank_def)

lemma before_comment_simps [simp]:
  "CHR ''#'' \<notin> set s \<Longrightarrow> before_comment s = s"
  "CHR ''#'' \<notin> set a \<Longrightarrow> before_comment (a @ s) = a @ before_comment s"
  "before_comment (CHR ''#'' # s) = []"
  by (auto simp: before_comment_def takeWhile_append takeWhile_eq_all_conv)

lemma comment_position:
  assumes "str = a @ t" "CHR ''#'' \<notin> set a"
  shows "find_from (\<lambda>c. c = CHR ''#'') str (Some 0) = (if CHR ''#'' \<in> set t then Some (length a + length (before_comment t)) else None)"
proof (cases "CHR ''#'' \<in> set t")
  case True
  then obtain u v where t: "t = u @ CHR ''#'' # v" "CHR ''#'' \<notin> set u" by (metis split_list_first)
  then show ?thesis using True assms find_from_Some [of str "[]" "a @ u" "CHR ''#''" v "\<lambda>c. c = CHR ''#''"] by auto
next
  case False
  then show ?thesis using assms find_from_None [of str "[]" str "\<lambda>c. c = CHR ''#''"] by auto
qed

lemma split_word:
  assumes "t \<noteq> []" "\<not> blank (hd t)"
  obtains w bs t' where "t = w @ bs @ t'" "w \<noteq> []" "\<forall>c\<in>set w. \<not> blank c" "\<forall>c\<in>set bs. blank c"
    "t' \<noteq> [] \<longrightarrow> \<not> blank (hd t')" "bs = [] \<longrightarrow> t' = []"
proof
  let ?w = "takeWhile (\<lambda>c. \<not> blank c) t" and ?r = "dropWhile (\<lambda>c. \<not> blank c) t"
  show "t = ?w @ takeWhile blank ?r @ dropWhile blank ?r" by simp
  show "?w \<noteq> []" using assms by (cases t) auto
  show "dropWhile blank ?r \<noteq> [] \<longrightarrow> \<not> blank (hd (dropWhile blank ?r))" by (simp add: hd_dropWhile)
  show "takeWhile blank ?r = [] \<longrightarrow> dropWhile blank ?r = []"
    by (metis hd_dropWhile takeWhile_dropWhile_id append_Nil dropWhile.simps(1) dropWhile_eq_Cons_conv list.exhaust takeWhile.simps(2) list.distinct(1))
qed (auto dest: set_takeWhileD)

lemma line_words_word: "w \<noteq> [] \<Longrightarrow> \<forall>c\<in>set w. \<not> blank c \<Longrightarrow> bs \<noteq> [] \<Longrightarrow> \<forall>c\<in>set bs. blank c \<Longrightarrow> line_words (w @ bs @ s) = w # line_words s"
  using line_words_blanks [of "tl bs" s] by (cases bs) auto

text \<open>A comment sign inside a word sends the scan past the end it looks for.\<close>

lemma tokenize_inside:
  assumes "str = a @ w @ bs @ t" "w \<noteq> []" "\<forall>c\<in>set w. \<not> blank c" "\<forall>c\<in>set bs. blank c" "bs = [] \<longrightarrow> t = []"
    "t \<noteq> [] \<longrightarrow> \<not> blank (hd t)" "length a < e" "e < length (a @ w)"
  shows "tokenize_loop str (Some (length a)) (Some e) acc = None"
  using assms tokenize_last [of str a w "Some e" acc] tokenize_word [of str a w bs t "Some e" acc]
  by (cases "bs = []") (auto simp: tokenize_diverges beyond_def)

lemma comment_apart_append:
  assumes "CHR ''#'' \<notin> set w" "\<forall>c\<in>set bs. blank c" "bs \<noteq> []"
  shows "comment_apart (w @ bs @ t) = comment_apart t"
proof -
  have "CHR ''#'' \<notin> set (w @ bs)" using assms(1,2) blank_not_hash by (auto dest!: bspec)
  then have "before_comment (w @ bs @ t) = (w @ bs) @ before_comment t" "CHR ''#'' \<in> set (w @ bs @ t) \<longleftrightarrow> CHR ''#'' \<in> set t"
    by (metis append_assoc before_comment_simps(2), simp)
  then show ?thesis using assms(2,3) by (cases "before_comment t = []") (simp_all add: comment_apart_def)
qed

lemma tokenize_from_word:
  assumes "str = a @ t" "CHR ''#'' \<notin> set a" "t \<noteq> []" "\<not> blank (hd t)"
  shows "tokenize_loop str (Some (length a)) (find_from (\<lambda>c. c = CHR ''#'') str (Some 0)) acc
       = (if comment_apart t then Some (acc @ line_words (before_comment t)) else None)"
  using assms
proof (induction "length t" arbitrary: a t acc rule: less_induct)
  case less
  note pos = comment_position [OF less.prems(1,2)]
  obtain w bs t' where t: "t = w @ bs @ t'" "w \<noteq> []" "\<forall>c\<in>set w. \<not> blank c" "\<forall>c\<in>set bs. blank c"
    "t' \<noteq> [] \<longrightarrow> \<not> blank (hd t')" "bs = [] \<longrightarrow> t' = []" by (rule split_word [OF less.prems(3,4)])
  consider (here) "hd t = CHR ''#''" | (inside) "hd t \<noteq> CHR ''#''" "CHR ''#'' \<in> set w" | (apart) "CHR ''#'' \<notin> set w"
    by blast
  then show ?case
  proof cases
    case here
    then have "before_comment t = []" "CHR ''#'' \<in> set t" using less.prems(3) by (cases t; simp)+
    then show ?thesis using pos by (simp add: comment_apart_def)
  next
    case inside
    then obtain u v where w: "w = u @ CHR ''#'' # v" "CHR ''#'' \<notin> set u" by (metis split_list_first)
    then have b: "before_comment t = u" "u \<noteq> []" using t(1) inside(1) by auto
    then have "\<not> comment_apart t" using w t(1,3) by (auto simp: comment_apart_def)
    moreover have "tokenize_loop str (Some (length a)) (Some (length a + length u)) acc = None"
      using tokenize_inside [of str a w bs t' "length a + length u" acc] less.prems(1) t w b(2) by simp
    ultimately show ?thesis using pos b w t(1) by simp
  next
    case apart
    have nobs: "CHR ''#'' \<notin> set bs" using t(4) blank_not_hash by blast
    have neq: "find_from (\<lambda>c. c = CHR ''#'') str (Some 0) \<noteq> Some (length a)"
      using pos apart nobs t(1,2) by simp
    show ?thesis
    proof (cases "t' = []")
      case True
      then have "CHR ''#'' \<notin> set t" using t(1) apart nobs by simp
      then have none: "find_from (\<lambda>c. c = CHR ''#'') str (Some 0) = None" "comment_apart t" "before_comment t = w @ bs"
        using True pos t(1) by (simp_all add: comment_apart_def)
      have "line_words (w @ bs) = [w]" using t(2-4) line_words_word [of w bs "[]"] by (cases "bs = []") simp_all
      moreover have "tokenize_loop str (Some (length a)) None acc = Some (acc @ [w])"
        using t(1-4) True less.prems(1) tokenize_last [of str a w None acc] tokenize_word [of str a w bs "[]" None acc]
        by (cases "bs = []") simp_all
      ultimately show ?thesis using none by simp
    next
      case False
      then have bs: "bs \<noteq> []" using t(6) by blast
      have "comment_apart t = comment_apart t'" using t(1,4) bs apart by (simp add: comment_apart_append)
      moreover have "line_words (before_comment t) = w # line_words (before_comment t')"
        using t(1-4) bs apart nobs line_words_word [of w bs "before_comment t'"] by simp
      ultimately show ?thesis
        using less.hyps [of t' "a @ w @ bs" "acc @ [w]"] less.prems(1,2) t False bs apart nobs
          tokenize_word [of str a w bs t' _ acc, OF _ t(2,3) bs t(4,5) neq] by simp
    qed
  qed
qed

lemma split_blanks:
  obtains bs t where "str = bs @ t" "\<forall>c\<in>set bs. blank c" "t \<noteq> [] \<longrightarrow> \<not> blank (hd t)"
  by (rule that [of "takeWhile blank str" "dropWhile blank str"]) (auto dest: set_takeWhileD simp: hd_dropWhile)

lemma tokenize_trimmed: "t \<noteq> [] \<Longrightarrow> \<not> blank (hd t) \<Longrightarrow>
    tokenizeLine t = (if comment_apart t then Some (line_words (before_comment t)) else None)"
  using tokenize_from_word [of t "[]" t "[]"] by (simp add: tokenizeLine_def)

lemma tokenize_indented:
  assumes "str = bs @ t" "bs \<noteq> []" "\<forall>c\<in>set bs. blank c" "t \<noteq> [] \<longrightarrow> \<not> blank (hd t)"
  shows "tokenizeLine str = (if comment_apart str then Some (line_words (before_comment str)) else None)"
proof -
  let ?stop = "find_from (\<lambda>c. c = CHR ''#'') str (Some 0)"
  have nobs: "CHR ''#'' \<notin> set bs" using assms(3) blank_not_hash by blast
  have apart: "comment_apart str = comment_apart t" "line_words (before_comment str) = line_words (before_comment t)"
    using assms(1-3) nobs comment_apart_append [of "[]" bs t] by (simp_all add: line_words_blanks)
  have "?stop \<noteq> Some 0" using comment_position [OF assms(1) nobs] assms(2) by (simp split: if_splits)
  then have step: "tokenizeLine str = tokenize_loop str (if t = [] then None else Some (length bs)) ?stop []"
    using tokenize_blanks [OF assms] by (simp add: tokenizeLine_def)
  show ?thesis
  proof (cases "t = []")
    case True
    then have "?stop = None" "comment_apart t" "line_words (before_comment t) = []"
      using comment_position [OF assms(1) nobs] by (simp_all add: comment_apart_def)
    then show ?thesis using step True apart by simp
  next
    case False
    then show ?thesis using step apart tokenize_from_word [OF assms(1) nobs False] assms(4) by simp
  qed
qed

lemma tokenize_line:
  "tokenizeLine str = (if comment_apart str then Some (if str = [] then [[]] else line_words (before_comment str)) else None)"
proof (cases "str = []")
  case True
  show ?thesis unfolding True by (simp add: comment_apart_def)
next
  case False
  obtain bs t where s: "str = bs @ t" "\<forall>c\<in>set bs. blank c" "t \<noteq> [] \<longrightarrow> \<not> blank (hd t)" by (rule split_blanks)
  have "tokenizeLine str = (if comment_apart str then Some (line_words (before_comment str)) else None)"
    using False s tokenize_trimmed [of t] tokenize_indented [OF s(1) _ s(2,3)] by (cases "bs = []") auto
  then show ?thesis using False by simp
qed

text \<open>
  C28. The tokenizer of a configuration line returns the words of the text before the comment, an
  empty line giving one empty word, exactly when the comment sign starts the line or follows a
  blank; on a line with the comment sign inside a word the scan never ends.\<close>
theorem tokenizeLine_words:
  "tokenizeLine str = (if comment_apart str then Some (if str = [] then [[]] else line_words (before_comment str)) else None)"
  by (rule tokenize_line)

section \<open>Lists of values\<close>

text \<open>The value found for the i-th item of a list, and a list held by a configuration.\<close>

definition slot :: "string \<Rightarrow> nat \<Rightarrow> Configuration \<Rightarrow> string option" where
  "slot name i cfg = first_set (search_list (name @ ''.'' @ dec_of_nat i) cfg) (config_map cfg)"

definition slots :: "string \<Rightarrow> string list \<Rightarrow> Configuration \<Rightarrow> bool" where
  "slots name vals cfg = (\<forall>i. slot name i cfg = (if i < length vals then Some (vals ! i) else None))"

lemma ToLowercase_idem [simp]: "ToLowercase (ToLowercase s) = ToLowercase s"
  by (simp add: ToLowercase_def)

lemma ToLowercase_dec [simp]: "ToLowercase (dec_of_nat n) = dec_of_nat n"
  by (rule ToLowercase_digits) (simp add: list_all_iff dec_of_nat_digit)

lemma ToLowercase_dot [simp]: "ToLowercase (CHR ''.'' # s) = CHR ''.'' # ToLowercase s"
  by (simp add: ToLowercase_def tolower_def isupper_def ord_def)

lemma slot_lower [simp]: "slot (ToLowercase name) i cfg = slot name i cfg"
  by (simp add: slot_def search_list_def)

lemma vector_loop_slot:
  "vector_loop (Suc fuel) i name cfg = (case slot name i cfg of None \<Rightarrow> [] | Some v \<Rightarrow> v # vector_loop fuel (Suc i) name cfg)"
  by (simp add: config_GetString_def findBestMatch_def slot_def ENOENT_def split: option.splits)

declare vector_loop.simps(2) [simp del]

lemma vector_loop_lower [simp]: "vector_loop fuel i (ToLowercase name) cfg = vector_loop fuel i name cfg"
  by (induction fuel arbitrary: i) (simp_all add: vector_loop_slot split: option.splits)

lemma GetStringVector_lower [simp]: "GetStringVector (ToLowercase name) cfg = GetStringVector name cfg"
  by (simp add: GetStringVector_def)

lemma vector_loop_slots:
  "n < fuel \<Longrightarrow> \<forall>j<n. slot name (i + j) cfg = Some (v (i + j)) \<Longrightarrow> slot name (i + n) cfg = None \<Longrightarrow>
   vector_loop fuel i name cfg = map v [i..<i + n]"
proof (induction fuel arbitrary: i n)
  case (Suc fuel)
  show ?case
  proof (cases n)
    case 0
    then show ?thesis using Suc.prems(3) by (simp add: vector_loop_slot)
  next
    case (Suc m)
    have "vector_loop fuel (Suc i) name cfg = map v [Suc i..<Suc i + m]"
      using Suc.prems Suc by (intro Suc.IH) (auto dest: spec [where x = "Suc _"])
    moreover have "slot name i cfg = Some (v i)" using Suc.prems(2) Suc by (auto dest: spec [where x = 0])
    ultimately show ?thesis using Suc by (simp add: vector_loop_slot upt_conv_Cons del: upt_Suc)
  qed
qed simp

text \<open>The names of different items differ, so no list is longer than the map.\<close>

lemma last_piece: "p @ c # d = q @ c # e \<Longrightarrow> c \<notin> set d \<Longrightarrow> c \<notin> set e \<Longrightarrow> d = e"
proof -
  assume a: "p @ c # d = q @ c # e" "c \<notin> set d" "c \<notin> set e"
  have "takeWhile (\<lambda>x. x \<noteq> c) (rev d @ c # rev p) = rev d" "takeWhile (\<lambda>x. x \<noteq> c) (rev e @ c # rev q) = rev e"
    using a(2,3) by (auto simp: takeWhile_append takeWhile_eq_all_conv)
  moreover have "rev d @ c # rev p = rev e @ c # rev q" using arg_cong [OF a(1), of rev] by simp
  ultimately show ?thesis by simp
qed

definition item_key :: "nat \<Rightarrow> string \<Rightarrow> bool" where
  "item_key i s = (\<exists>p. s = p @ CHR ''.'' # dec_of_nat i)"

lemma item_key_inj: "item_key i s \<Longrightarrow> item_key j s \<Longrightarrow> i = j"
proof -
  have "CHR ''.'' \<notin> set (dec_of_nat n)" for n using dec_of_nat_digit [of "CHR ''.''" n] by (auto simp: isdigit_def ord_def)
  then show "item_key i s \<Longrightarrow> item_key j s \<Longrightarrow> i = j" by (auto simp: item_key_def dest: last_piece)
qed

lemma search_item_key: "s \<in> set (search_list (name @ ''.'' @ dec_of_nat i) cfg) \<Longrightarrow> item_key i s"
  by (auto simp: search_list_def item_key_def Let_def)

lemma first_set_None: "first_set ss m = None \<longleftrightarrow> (\<forall>s\<in>set ss. om_get m s = None)"
  by (induction ss) (auto split: option.splits)

lemma first_set_new: "first_set ss m = None \<Longrightarrow> k \<in> set ss \<Longrightarrow> om_get m' = (om_get m)(k \<mapsto> v) \<Longrightarrow> first_set ss m' = Some v"
  by (induction ss) (auto split: option.splits)

lemma first_set_other: "k \<notin> set ss \<Longrightarrow> om_get m' = (om_get m)(k \<mapsto> v) \<Longrightarrow> first_set ss m' = first_set ss m"
  by (induction ss) (auto split: option.splits)

lemma slots_bound:
  assumes "slots name vals cfg"
  shows "length vals \<le> length (config_map cfg)"
proof -
  have "\<exists>k. item_key i k \<and> k \<in> fst ` set (config_map cfg)" if "i < length vals" for i
  proof -
    have "slot name i cfg \<noteq> None" using assms that by (simp add: slots_def)
    then obtain s where "s \<in> set (search_list (name @ ''.'' @ dec_of_nat i) cfg)" "om_get (config_map cfg) s \<noteq> None"
      unfolding slot_def first_set_None by blast
    then show ?thesis using search_item_key by (metis map_of_eq_None_iff)
  qed
  then obtain k where k: "\<And>i. i < length vals \<Longrightarrow> item_key i (k i) \<and> k i \<in> fst ` set (config_map cfg)" by metis
  have "inj_on k {..<length vals}" using k item_key_inj by (metis inj_onI lessThan_iff)
  then have "card {..<length vals} \<le> card (fst ` set (config_map cfg))"
    by (rule card_inj_on_le) (use k in auto)
  also have "\<dots> \<le> length (config_map cfg)" by (metis card_length length_map list.set_map)
  finally show ?thesis by simp
qed

lemma GetStringVector_slots: "slots name vals cfg \<Longrightarrow> GetStringVector name cfg = (length vals, vals)"
proof -
  assume s: "slots name vals cfg"
  have "vector_loop (Suc (length (config_map cfg))) 0 name cfg = map ((!) vals) [0..<0 + length vals]"
    using s slots_bound [OF s] by (intro vector_loop_slots) (simp_all add: slots_def)
  then show ?thesis by (simp add: GetStringVector_def map_nth)
qed

text \<open>A value set under the list's name becomes its next item.\<close>

lemma Set_list_item:
  assumes "slots name vals cfg" "name \<noteq> []"
  shows "config_Set (ToLowercase name @ ''[]'') v cfg
       = cfg\<lparr>config_map := om_set (ToLowercase name @ CHR ''.'' # dec_of_nat (length vals)) v (config_map cfg)\<rparr>"
proof -
  have l: "ToLowercase (ToLowercase name @ ''[]'') = ToLowercase name @ ''[]''"
    by (simp add: ToLowercase_def tolower_def isupper_def ord_def)
  have n: "length (ToLowercase name @ ''[]'') > 2" using assms(2) by (simp add: ToLowercase_def)
  have "last (ToLowercase name @ ''[]'') \<noteq> last ''node_role''" by simp
  then have r: "ToLowercase name @ ''[]'' \<noteq> ''node_role''" by metis
  show ?thesis unfolding config_Set_def Let_def l using n r GetStringVector_slots [OF assms(1)] by simp
qed

lemma slots_Set:
  assumes "slots name vals cfg" "name \<noteq> []" "om_inv (config_map cfg)"
    "cfg' = config_Set (ToLowercase name @ ''[]'') v cfg"
  shows "slots name (vals @ [v]) cfg'" "om_inv (config_map cfg')"
proof -
  let ?n = "length vals"
  let ?key = "ToLowercase name @ CHR ''.'' # dec_of_nat ?n"
  have cfg': "cfg' = cfg\<lparr>config_map := om_set ?key v (config_map cfg)\<rparr>"
    unfolding assms(4) by (rule Set_list_item [OF assms(1,2)])
  show "om_inv (config_map cfg')" using assms(3) by (auto simp: cfg')
  have get: "om_get (config_map cfg') = (om_get (config_map cfg))(?key \<mapsto> v)" by (simp add: cfg' om_get_om_set assms(3))
  have same: "search_list s cfg' = search_list s cfg" for s by (simp add: cfg' search_list_def)
  have other: "first_set ss (config_map cfg') = first_set ss (config_map cfg)" if "?key \<notin> set ss" for ss
    using that get by (rule first_set_other)
  have "slot name i cfg' = (if i = ?n then Some v else slot name i cfg)" for i
  proof (cases "i = ?n")
    case True
    have "first_set (search_list (name @ ''.'' @ dec_of_nat ?n) cfg) (config_map cfg) = None"
      using assms(1) by (simp add: slots_def slot_def)
    moreover have "?key \<in> set (search_list (name @ ''.'' @ dec_of_nat ?n) cfg)" by (simp add: search_list_def Let_def)
    ultimately show ?thesis using True get by (simp add: slot_def same first_set_new)
  next
    case False
    have "item_key ?n ?key" by (auto simp: item_key_def)
    then have "?key \<notin> set (search_list (name @ ''.'' @ dec_of_nat i) cfg)" using False search_item_key item_key_inj by blast
    then show ?thesis using False other by (simp add: slot_def same)
  qed
  then show "slots name (vals @ [v]) cfg'" using assms(1) by (simp add: slots_def nth_append)
qed

section \<open>Reading a configuration\<close>

lemma getlines_line: "sep \<notin> set l \<Longrightarrow> getlines sep (l @ sep # rest) = l # getlines sep rest"
  by (subst getlines.simps) simp

definition list_line :: "string \<Rightarrow> string \<Rightarrow> string list \<Rightarrow> bool" where
  "list_line name line ws = (CHR 0x0A \<notin> set line \<and> comment_apart line \<and> ws \<noteq> [] \<and> line_words (before_comment line) = (name @ ''[]'') # ws)"

lemma add_list_line:
  assumes "list_line name line ws"
  shows "add_line_to_map line cfg = Some (config_Set (ToLowercase name @ ''[]'') (Join ws CHR '' '') cfg)"
proof -
  have "ToLowercase (name @ ''[]'') = ToLowercase name @ ''[]''" by (simp add: ToLowercase_def tolower_def isupper_def ord_def)
  moreover have "line \<noteq> []" using assms by (auto simp: list_line_def)
  ultimately show ?thesis using assms by (auto simp: add_line_to_map_def list_line_def tokenize_line)
qed

lemma Append_list_lines:
  assumes "\<forall>(line, ws)\<in>set items. list_line name line ws" "name \<noteq> []" "slots name vals cfg" "om_inv (config_map cfg)"
  shows "\<exists>cfg'. config_Append (concat (map (\<lambda>(line, ws). line @ [CHR 0x0A]) items)) cfg = Some cfg'
     \<and> slots name (vals @ map (\<lambda>(line, ws). Join ws CHR '' '') items) cfg'"
  using assms
proof (induction items arbitrary: vals cfg)
  case Nil
  then show ?case by (simp add: config_Append_def getlines.simps)
next
  case (Cons it items)
  obtain line ws where it: "it = (line, ws)" by (cases it)
  then have l: "list_line name line ws" using Cons.prems(1) by simp
  then have "CHR 0x0A \<notin> set line" by (simp add: list_line_def)
  then show ?case
    using Cons.IH [OF _ Cons.prems(2) slots_Set [OF Cons.prems(3,2,4) refl]] Cons.prems(1) l add_list_line [OF l, of cfg] it
    by (simp add: config_Append_def getlines_line)
qed

text \<open>
  C29. Reading a configuration with one line per value for a name that ends in brackets, each with
  any spacing and comment, and then asking for the list of that name gives all the values in the
  order of the lines, however many there are, when nothing was set in the list before.\<close>
theorem config_list_roundtrip:
  assumes "\<forall>(line, ws)\<in>set items. list_line name line ws" "name \<noteq> []"
    "om_inv (config_map cfg)" "\<forall>i. \<not> Contains (name @ ''.'' @ dec_of_nat i) cfg"
  shows "case config_Append (concat (map (\<lambda>(line, ws). line @ [CHR 0x0A]) items)) cfg of
      None \<Rightarrow> False
    | Some cfg' \<Rightarrow> GetStringVector name cfg' = (length items, map (\<lambda>(line, ws). Join ws CHR '' '') items)"
proof -
  have "slot name i cfg = None" for i
    using assms(4) by (auto simp: slot_def Contains_def config_GetString_def findBestMatch_def ENOENT_def dest!: spec [where x = i] split: option.splits)
  then have "slots name [] cfg" by (simp add: slots_def)
  from Append_list_lines [OF assms(1,2) this assms(3)] show ?thesis using GetStringVector_slots by fastforce
qed

theorem config_list_roundtrip_witness:
  "case config_Append (concat (map (\<lambda>(line, ws). line @ [CHR 0x0A]) [('' Dirs[]  a b '', [''a'', ''b'']), (''Dirs[] c # d'', [''c''])]))
      \<lparr>node_role = ''default'', config_map = []\<rparr> of
      None \<Rightarrow> False
    | Some cfg' \<Rightarrow> GetStringVector ''Dirs'' cfg' = (2, [''a b'', ''c''])"
  using config_list_roundtrip [of "[('' Dirs[]  a b '', [''a'', ''b'']), (''Dirs[] c # d'', [''c''])]" "''Dirs''" "\<lparr>node_role = ''default'', config_map = []\<rparr>"]
  by (simp add: list_line_def comment_apart_def before_comment_def line_words_def blank_def Contains_def config_GetString_def findBestMatch_def
      search_list_def ENOENT_def Let_def split: option.splits)

text \<open>The files named after one that cannot be read, or is empty, are not read.\<close>

lemma files_after_missing:
  assumes "CHR '';'' \<notin> set f" "expand f \<noteq> []" "contents (expand f) = []"
  shows "AppendFromFile expand contents (f @ CHR '';'' # rest) cfg = Some cfg"
  using assms by (simp add: AppendFromFile_def getlines_line config_Append_def getlines.simps)

end
