(* ===== verification/Kelpie_Registries.thy ===== *)
theory Kelpie_Registries
  imports Directory_Info Config_Settings
begin

text \<open>
  The registry of pools by url (\<^verbatim>\<open>kelpie/pools/PoolRegistry.cpp\<close>): the constructors of the pool types, and the
  pools that have been connected to, which later calls share.  A pool is a value of a type parameter, its
  constructor a function.  A pool that has been made is named by its number, so that two calls can be seen to share
  it.  Connecting releases the lock between its parts; each part is one step, and the parts of different callers
  interleave.
\<close>

section \<open>The pool registry\<close>

record 'p PoolRegistry =
  pool_started :: bool
  pool_default_bucket :: bucket_t
  pool_create_fns :: "(string, ResourceURL \<Rightarrow> 'p result) omap"
  known_pools :: "(string, nat) omap"
  pools_made :: "(ResourceURL \<times> 'p) list"

definition new_PoolRegistry :: "'p PoolRegistry" where
  "new_PoolRegistry = \<lparr>pool_started = False, pool_default_bucket = BUCKET_UNSPECIFIED, pool_create_fns = [], known_pools = [], pools_made = []\<rparr>"

definition PoolRegistry_init :: "Configuration \<Rightarrow> 'p PoolRegistry \<Rightarrow> 'p PoolRegistry result" where
  "PoolRegistry_init config r = rbind (GetDefaultSecurityBucket_id config) (\<lambda>(rc, b).
     Inr (case b of Some bucket \<Rightarrow> r\<lparr>pool_default_bucket := bucket\<rparr> | None \<Rightarrow> r))"

definition PoolRegistry_start :: "'p PoolRegistry \<Rightarrow> 'p PoolRegistry" where
  "PoolRegistry_start r = r\<lparr>pool_started := True\<rparr>"

definition PoolRegistry_finish :: "'p PoolRegistry \<Rightarrow> 'p PoolRegistry" where
  "PoolRegistry_finish r = r\<lparr>pool_create_fns := [], known_pools := [], pool_started := False\<rparr>"

definition RegisterPoolConstructor :: "string \<Rightarrow> (ResourceURL \<Rightarrow> 'p result) \<Rightarrow> 'p PoolRegistry \<Rightarrow> 'p PoolRegistry result" where
  "RegisterPoolConstructor pool_name function_pointer r =
     (if pool_started r then Inl Assert_failed
      else if om_get (pool_create_fns r) pool_name \<noteq> None then Inl Assert_failed
      else Inr (r\<lparr>pool_create_fns := om_set pool_name function_pointer (pool_create_fns r)\<rparr>))"

definition GetRegisteredPoolTypes :: "'p PoolRegistry \<Rightarrow> string list" where
  "GetRegisteredPoolTypes r = map fst (pool_create_fns r)"

definition makeKnownPoolTag :: "ResourceURL \<Rightarrow> string" where
  "makeKnownPoolTag url = GetURL False False True True url"

text \<open>A call returns a pool that exists, or a pool that only carries an error: the url could not be resolved, or has no constructor.\<close>

datatype pool_handle = Pool_at nat | Pool_unresolved ResourceURL | Pool_no_constructor ResourceURL

text \<open>A call under way: resolved and about to look, about to create, about to store what it created, or done.\<close>

datatype connect_stage = Looking | Creating | Storing nat | Connected pool_handle

text \<open>\<open>dir_of\<close> is the answer of the directory service.\<close>

definition connect_resolve ::
  "(ResourceURL \<Rightarrow> DirectoryInfo option) \<Rightarrow> ResourceURL \<Rightarrow> 'p PoolRegistry \<Rightarrow> (ResourceURL \<times> connect_stage) result" where
  "connect_resolve dir_of pool_url r =
     (let src_url = (if url_bucket pool_url = BUCKET_UNSPECIFIED then pool_url\<lparr>url_bucket := pool_default_bucket r\<rparr> else pool_url) in
      if IsReference src_url then
        (case dir_of src_url of
           None \<Rightarrow> Inr (src_url, Connected (Pool_unresolved src_url))
         | Some dir_info \<Rightarrow>
             rbind (GetOptions pool_url) (\<lambda>original_options.
               Inr (fold (\<lambda>(k, v) u. SetOption k v u) original_options (di_url dir_info), Looking)))
      else Inr (src_url, Looking))"

definition connect_look :: "ResourceURL \<Rightarrow> 'p PoolRegistry \<Rightarrow> connect_stage" where
  "connect_look src_url r = (case om_get (known_pools r) (makeKnownPoolTag src_url) of
     Some i \<Rightarrow> Connected (Pool_at i) | None \<Rightarrow> Creating)"

definition connect_create :: "ResourceURL \<Rightarrow> 'p PoolRegistry \<Rightarrow> (connect_stage \<times> 'p PoolRegistry) result" where
  "connect_create src_url r = (case om_get (pool_create_fns r) (url_Type src_url) of
     None \<Rightarrow> Inr (Connected (Pool_no_constructor src_url), r)
   | Some ctor \<Rightarrow> rbind (ctor src_url) (\<lambda>p. Inr (Storing (length (pools_made r)), r\<lparr>pools_made := pools_made r @ [(src_url, p)]\<rparr>)))"

definition connect_store :: "ResourceURL \<Rightarrow> nat \<Rightarrow> 'p PoolRegistry \<Rightarrow> connect_stage \<times> 'p PoolRegistry" where
  "connect_store src_url i r = (let pool_tag = makeKnownPoolTag src_url in
     case om_get (known_pools r) pool_tag of
       Some j \<Rightarrow> (Connected (Pool_at j), r)
     | None \<Rightarrow> (Connected (Pool_at i), r\<lparr>known_pools := om_set pool_tag i (known_pools r)\<rparr>))"

definition connect_step :: "ResourceURL \<times> connect_stage \<Rightarrow> 'p PoolRegistry \<Rightarrow> ((ResourceURL \<times> connect_stage) \<times> 'p PoolRegistry) result" where
  "connect_step c r = (case c of
     (u, Looking) \<Rightarrow> Inr ((u, connect_look u r), r)
   | (u, Creating) \<Rightarrow> rbind (connect_create u r) (\<lambda>(s, r1). Inr ((u, s), r1))
   | (u, Storing i) \<Rightarrow> (let (s, r1) = connect_store u i r in Inr ((u, s), r1))
   | (u, Connected p) \<Rightarrow> Inr ((u, Connected p), r))"

text \<open>A call that nobody interrupts.\<close>

definition Connect :: "(ResourceURL \<Rightarrow> DirectoryInfo option) \<Rightarrow> ResourceURL \<Rightarrow> 'p PoolRegistry \<Rightarrow> (pool_handle \<times> 'p PoolRegistry) result" where
  "Connect dir_of pool_url r =
     rbind (connect_resolve dir_of pool_url r) (\<lambda>c0.
     rbind (connect_step c0 r) (\<lambda>(c1, r1).
     rbind (connect_step c1 r1) (\<lambda>(c2, r2).
     rbind (connect_step c2 r2) (\<lambda>(c3, r3).
       case snd c3 of Connected p \<Rightarrow> Inr (p, r3) | _ \<Rightarrow> Inl Assert_failed))))"

section \<open>Many callers\<close>

text \<open>
  The registry and the calls on it, in any order: a call begins, with whatever the directory service answers it, or
  one of the calls makes its next step.  A call that fails with a fault is dropped.
\<close>
inductive pool_run :: "'p PoolRegistry \<Rightarrow> 'p PoolRegistry \<Rightarrow> (ResourceURL \<times> connect_stage) list \<Rightarrow> bool" for r0 where
  none: "pool_run r0 r0 []"
| begins: "pool_run r0 r cs \<Longrightarrow> connect_resolve dir_of url r = Inr c \<Longrightarrow> pool_run r0 r (cs @ [c])"
| steps: "pool_run r0 r cs \<Longrightarrow> i < length cs \<Longrightarrow> connect_step (cs ! i) r = Inr (c, r1) \<Longrightarrow> pool_run r0 r1 (cs[i := c])"

text \<open>
  Every known pool was made for a url with its tag and has one tag only; a call that has made a pool and not yet
  stored it is the only one to know it; a call that is done has the known pool of its tag.
\<close>
definition call_ok :: "'p PoolRegistry \<Rightarrow> ResourceURL \<times> connect_stage \<Rightarrow> bool" where
  "call_ok r c = (case c of
     (u, Storing i) \<Rightarrow> i < length (pools_made r) \<and> fst (pools_made r ! i) = u \<and> i \<notin> ran (om_get (known_pools r))
   | (u, Connected (Pool_at i)) \<Rightarrow> om_get (known_pools r) (makeKnownPoolTag u) = Some i
   | _ \<Rightarrow> True)"

definition pools_inv :: "'p PoolRegistry \<Rightarrow> (ResourceURL \<times> connect_stage) list \<Rightarrow> bool" where
  "pools_inv r cs = (om_inv (known_pools r) \<and>
     (\<forall>tag i. om_get (known_pools r) tag = Some i \<longrightarrow> i < length (pools_made r) \<and> makeKnownPoolTag (fst (pools_made r ! i)) = tag) \<and>
     list_all (call_ok r) cs \<and>
     (\<forall>i j n u u'. i < length cs \<and> j < length cs \<and> cs ! i = (u, Storing n) \<and> cs ! j = (u', Storing n) \<longrightarrow> i = j))"

lemma call_ok_made:
  assumes "call_ok r c" shows "call_ok (r\<lparr>pools_made := pools_made r @ xs\<rparr>) c"
  using assms by (auto simp: call_ok_def nth_append split: prod.splits connect_stage.splits pool_handle.splits)

lemma call_ok_known:
  assumes "call_ok r c" "om_inv (known_pools r)" "om_get (known_pools r) tag = None" "\<And>u. c \<noteq> (u, Storing i)"
  shows "call_ok (r\<lparr>known_pools := om_set tag i (known_pools r)\<rparr>) c"
proof -
  have ran: "ran (om_get (om_set tag i (known_pools r))) = insert i (ran (om_get (known_pools r)))"
    using assms(2,3) by (simp add: om_get_om_set)
  show ?thesis
    using assms unfolding call_ok_def
    by (auto simp: ran om_get_om_set split: prod.splits connect_stage.splits pool_handle.splits)
qed

text \<open>The parts of the invariant, in the form in which its preservation uses them.\<close>

lemma pools_inv_parts:
  assumes "pools_inv r cs"
  shows "om_inv (known_pools r)"
    and "om_get (known_pools r) tag = Some n \<Longrightarrow> n < length (pools_made r) \<and> makeKnownPoolTag (fst (pools_made r ! n)) = tag"
    and "j < length cs \<Longrightarrow> call_ok r (cs ! j)"
    and "i < length cs \<Longrightarrow> j < length cs \<Longrightarrow> cs ! i = (u, Storing n) \<Longrightarrow> cs ! j = (u', Storing n) \<Longrightarrow> i = j"
  using assms unfolding pools_inv_def by (simp_all add: list_all_length)

lemma pools_invI:
  assumes "om_inv (known_pools r)"
    and "\<And>tag n. om_get (known_pools r) tag = Some n \<Longrightarrow> n < length (pools_made r) \<and> makeKnownPoolTag (fst (pools_made r ! n)) = tag"
    and "\<And>j. j < length cs \<Longrightarrow> call_ok r (cs ! j)"
    and "\<And>i j n u u'. i < length cs \<Longrightarrow> j < length cs \<Longrightarrow> cs ! i = (u, Storing n) \<Longrightarrow> cs ! j = (u', Storing n) \<Longrightarrow> i = j"
  shows "pools_inv r cs"
  using assms unfolding pools_inv_def list_all_length by blast

lemma pools_inv_quiet:
  assumes "pools_inv r cs" "i < length cs" "call_ok r c" "\<And>u n. c \<noteq> (u, Storing n)"
  shows "pools_inv r (cs[i := c])"
  using assms unfolding pools_inv_def by (auto simp: list_all_length nth_list_update split: if_splits)

lemma pools_inv_create:
  assumes "pools_inv r cs" "i < length cs" "cs ! i = (u, Creating)"
  shows "pools_inv (r\<lparr>pools_made := pools_made r @ [(u, p)]\<rparr>) (cs[i := (u, Storing (length (pools_made r)))])"
proof -
  let ?r = "r\<lparr>pools_made := pools_made r @ [(u, p)]\<rparr>" and ?n = "length (pools_made r)"
  note parts = pools_inv_parts [OF assms(1)]
  have small: "n < ?n" if "j < length cs" "cs ! j = (u', Storing n)" for j u' n
    using parts(3) [OF that(1)] that(2) by (simp add: call_ok_def)
  have new: "call_ok ?r (u, Storing ?n)" using parts(2) by (fastforce simp: call_ok_def ran_def)
  show ?thesis
  proof (rule pools_invI)
    show "call_ok ?r (cs[i := (u, Storing ?n)] ! j)" if "j < length (cs[i := (u, Storing ?n)])" for j
      using that new call_ok_made [OF parts(3) [of j], of "[(u, p)]"] by (cases "j = i") simp_all
    show "i' = j" if "i' < length (cs[i := (u, Storing ?n)])" "j < length (cs[i := (u, Storing ?n)])"
      "cs[i := (u, Storing ?n)] ! i' = (v, Storing n)" "cs[i := (u, Storing ?n)] ! j = (v', Storing n)" for i' j n v v'
      using that small [of i' v n] small [of j v' n] parts(4) [of i' j v n v'] assms(2)
      by (cases "i' = i"; cases "j = i") auto
    show "n < length (pools_made ?r) \<and> makeKnownPoolTag (fst (pools_made ?r ! n)) = tag" if "om_get (known_pools ?r) tag = Some n" for tag n
      using that parts(2) [of tag n] by (simp add: nth_append)
  qed (use parts(1) in simp)
qed

lemma pools_inv_store:
  assumes inv: "pools_inv r cs" and i: "i < length cs" "cs ! i = (u, Storing n)" and new: "om_get (known_pools r) (makeKnownPoolTag u) = None"
  shows "pools_inv (r\<lparr>known_pools := om_set (makeKnownPoolTag u) n (known_pools r)\<rparr>) (cs[i := (u, Connected (Pool_at n))])"
proof -
  let ?r = "r\<lparr>known_pools := om_set (makeKnownPoolTag u) n (known_pools r)\<rparr>" and ?cs = "cs[i := (u, Connected (Pool_at n))]"
  note parts = pools_inv_parts [OF inv]
  have mine: "n < length (pools_made r)" "fst (pools_made r ! n) = u" using parts(3) [OF i(1)] i(2) by (auto simp: call_ok_def)
  show ?thesis
  proof (rule pools_invI)
    show "call_ok ?r (?cs ! j)" if "j < length ?cs" for j
    proof (cases "j = i")
      case False
      then have "\<And>u'. cs ! j \<noteq> (u', Storing n)" using parts(4) [of j i] i that by auto
      then show ?thesis using False that call_ok_known [OF parts(3) [of j] parts(1) new] by simp
    qed (use i parts(1) in \<open>simp add: call_ok_def om_get_om_set\<close>)
    show "i' = j" if "i' < length ?cs" "j < length ?cs" "?cs ! i' = (v, Storing m)" "?cs ! j = (v', Storing m)" for i' j m v v'
      using that parts(4) [of i' j v m v'] i(1) by (cases "i' = i"; cases "j = i") auto
    show "k < length (pools_made ?r) \<and> makeKnownPoolTag (fst (pools_made ?r ! k)) = tag" if "om_get (known_pools ?r) tag = Some k" for tag k
      using that mine parts(1) parts(2) [of tag k] by (simp add: om_get_om_set split: if_splits)
  qed (use parts(1) in \<open>simp add: om_inv_om_set\<close>)
qed

lemma pool_run_inv:
  assumes "pool_run r0 r cs" "known_pools r0 = []"
  shows "pools_inv r cs"
  using assms
proof (induction rule: pool_run.induct)
  case none
  then show ?case by (simp add: pools_inv_def)
next
  case (begins r cs dir_of url c)
  then have "call_ok r c \<and> (\<forall>u n. c \<noteq> (u, Storing n))"
    by (auto simp: connect_resolve_def call_ok_def Let_def rbind_def split: if_splits option.splits sum.splits)
  then show ?case using begins unfolding pools_inv_def by (auto simp: nth_append)
next
  case (steps r cs i c r1)
  note inv = steps.IH [OF steps.prems]
  obtain u s where c: "cs ! i = (u, s)" by force
  have ok: "call_ok r (u, s)" using inv steps(2) c by (auto simp: pools_inv_def list_all_length)
  show ?case
  proof (cases s)
    case Looking
    then have "c = (u, connect_look u r)" "r1 = r" using steps(3) c by (auto simp: connect_step_def)
    then show ?thesis using pools_inv_quiet [OF inv steps(2)] by (auto simp: connect_look_def call_ok_def split: option.splits)
  next
    case Creating
    show ?thesis
    proof (cases "om_get (pool_create_fns r) (url_Type u)")
      case None
      then have "c = (u, Connected (Pool_no_constructor u))" "r1 = r" using steps(3) c Creating by (auto simp: connect_step_def connect_create_def)
      then show ?thesis using pools_inv_quiet [OF inv steps(2)] by (auto simp: call_ok_def)
    next
      case (Some ctor)
      then show ?thesis
        using pools_inv_create [OF inv steps(2)] c Creating steps(3) by (auto simp: connect_step_def connect_create_def rbind_def split: sum.splits)
    qed
  next
    case (Storing n)
    show ?thesis
    proof (cases "om_get (known_pools r) (makeKnownPoolTag u)")
      case None
      then show ?thesis using pools_inv_store [OF inv steps(2)] c Storing steps(3) by (auto simp: connect_step_def connect_store_def Let_def)
    next
      case (Some j)
      then have "c = (u, Connected (Pool_at j))" "r1 = r" using steps(3) c Storing by (auto simp: connect_step_def connect_store_def Let_def)
      then show ?thesis using pools_inv_quiet [OF inv steps(2)] Some by (auto simp: call_ok_def)
    qed
  next
    case (Connected p)
    then have "c = cs ! i" "r1 = r" using steps(3) c by (auto simp: connect_step_def)
    then show ?thesis using inv by simp
  qed
qed

lemma known_pool_shared:
  assumes "pools_inv r cs" "(u, Connected (Pool_at i)) \<in> set cs"
  shows "om_get (known_pools r) (makeKnownPoolTag u) = Some i"
proof -
  obtain k where "k < length cs" "cs ! k = (u, Connected (Pool_at i))" using assms(2) by (auto simp: in_set_conv_nth)
  then show ?thesis using pools_inv_parts(3) [OF assms(1), of k] by (simp add: call_ok_def)
qed

text \<open>
  C20. However the parts of the calls interleave, two calls that have returned a pool share it exactly when their urls
  have the same tag (bucket, path, name and sorted options), and the pool they share was made by the constructor for a url with
  that tag: the recheck before a pool is stored lets no two pools with one tag be handed out, although several may have been made.
\<close>
theorem connect_unique:
  assumes run: "pool_run r0 r cs" and empty: "known_pools r0 = []"
    and returned: "(u, Connected (Pool_at i)) \<in> set cs" "(u', Connected (Pool_at j)) \<in> set cs"
  shows "(i = j) = (makeKnownPoolTag u = makeKnownPoolTag u') \<and> i < length (pools_made r) \<and>
    makeKnownPoolTag (fst (pools_made r ! i)) = makeKnownPoolTag u"
proof -
  note inv = pool_run_inv [OF run empty]
  note known = known_pool_shared [OF inv returned(1)] known_pool_shared [OF inv returned(2)]
  show ?thesis using known pools_inv_parts(2) [OF inv known(1)] pools_inv_parts(2) [OF inv known(2)] by auto
qed

text \<open>The calls make their steps in the order of a schedule.\<close>

fun pool_steps :: "nat list \<Rightarrow> 'p PoolRegistry \<Rightarrow> (ResourceURL \<times> connect_stage) list \<Rightarrow> ('p PoolRegistry \<times> (ResourceURL \<times> connect_stage) list) result" where
  "pool_steps [] r cs = Inr (r, cs)"
| "pool_steps (i # is) r cs = (if i < length cs then rbind (connect_step (cs ! i) r) (\<lambda>(c, r1). pool_steps is r1 (cs[i := c]))
     else Inl Undefined_behaviour)"

lemma pool_steps_run:
  assumes "pool_run r0 r cs" "pool_steps is r cs = Inr (r1, cs1)"
  shows "pool_run r0 r1 cs1"
  using assms
  by (induction "is" r cs rule: pool_steps.induct)
    (auto simp: rbind_def intro: pool_run.steps split: if_splits sum.splits)

text \<open>Two calls for one url race: both find no pool, both make one, and the first to store decides.\<close>

definition race_url :: ResourceURL where
  "race_url = \<lparr>url_type = ''local'', url_node = 0, url_bucket = 7, url_path = ''/a'', url_name = ''b'', url_options = []\<rparr>"

definition race_registry :: "nat PoolRegistry" where
  "race_registry = new_PoolRegistry\<lparr>pool_create_fns := [(''local'', \<lambda>u. Inr 5)]\<rparr>"

definition race_end :: "nat PoolRegistry" where
  "race_end = race_registry\<lparr>known_pools := [(makeKnownPoolTag race_url, 1)], pools_made := [(race_url, 5), (race_url, 5)]\<rparr>"

lemmas race_simps = race_url_def race_registry_def race_end_def new_PoolRegistry_def connect_resolve_def IsReference_def
  connect_step_def connect_look_def connect_create_def connect_store_def url_Type_def om_get_om_set BUCKET_UNSPECIFIED_def

lemma race_run: "pool_run race_registry race_end [(race_url, Connected (Pool_at 1)), (race_url, Connected (Pool_at 1))]"
proof -
  have start: "pool_run race_registry race_registry [(race_url, Looking), (race_url, Looking)]"
    using pool_run.begins [OF pool_run.begins [OF pool_run.none], of "\<lambda>_. None" race_url race_registry "(race_url, Looking)" "\<lambda>_. None" race_url "(race_url, Looking)"]
    by (simp add: race_simps)
  have "pool_steps [0, 1, 0, 1, 1, 0] race_registry [(race_url, Looking), (race_url, Looking)] =
      Inr (race_end, [(race_url, Connected (Pool_at 1)), (race_url, Connected (Pool_at 1))])"
    by (simp add: race_simps)
  then show ?thesis by (rule pool_steps_run [OF start])
qed

theorem connect_unique_witness:
  "pool_run race_registry race_end [(race_url, Connected (Pool_at 1)), (race_url, Connected (Pool_at 1))] \<and>
   length (pools_made race_end) = 2 \<and> makeKnownPoolTag (fst (pools_made race_end ! 1)) = makeKnownPoolTag race_url"
  using connect_unique [OF race_run, of race_url 1 race_url 1] race_run by (simp add: race_registry_def new_PoolRegistry_def race_end_def)

text \<open>The tag leaves the type out.\<close>

lemma makeKnownPoolTag_type [simp]: "makeKnownPoolTag (u\<lparr>url_type := t\<rparr>) = makeKnownPoolTag u"
  by (simp add: makeKnownPoolTag_def GetURL_def GetSortedOptions_def)

text \<open>A call that returns a pool leaves it known under the tag of the url it resolved, and changes nothing else that later calls depend on.\<close>

lemma connect_leaves_known:
  assumes "om_inv (known_pools r)" "\<not> IsReference u" "url_bucket u \<noteq> BUCKET_UNSPECIFIED" "Connect dir_of u r = Inr (Pool_at i, r1)"
  shows "om_get (known_pools r1) (makeKnownPoolTag u) = Some i"
  using assms
  by (auto simp: Connect_def connect_resolve_def Let_def rbind_def connect_step_def connect_look_def connect_create_def connect_store_def
      om_get_om_set split: option.splits sum.splits)

lemma connect_known:
  assumes "\<not> IsReference u" "url_bucket u \<noteq> BUCKET_UNSPECIFIED" "om_get (known_pools r) (makeKnownPoolTag u) = Some i"
  shows "Connect dir_of u r = Inr (Pool_at i, r)"
  using assms by (simp add: Connect_def connect_resolve_def connect_step_def connect_look_def)

text \<open>
  Once a call has returned a pool for a url, every later call for that bucket, path, name and options is given that
  same pool and changes nothing, even when its url names another type of pool, or one that has no constructor.
\<close>
theorem connect_ignores_type:
  assumes "om_inv (known_pools r)" "\<not> IsReference u" "url_bucket u \<noteq> BUCKET_UNSPECIFIED"
    and "Connect dir_of u r = Inr (Pool_at i, r1)" "t \<noteq> []"
  shows "Connect dir_of' (u\<lparr>url_type := t\<rparr>) r1 = Inr (Pool_at i, r1)"
  using connect_leaves_known [OF assms(1-4)] assms(2,3,5) by (simp add: connect_known IsReference_def)

theorem connect_ignores_type_witness:
  "case Connect (\<lambda>_. None) race_url race_registry of Inl _ \<Rightarrow> False
   | Inr (p, r1) \<Rightarrow> p = Pool_at 0 \<and> om_get (pool_create_fns r1) ''dht'' = None \<and>
       Connect (\<lambda>_. None) (race_url\<lparr>url_type := ''dht''\<rparr>) r1 = Inr (Pool_at 0, r1)"
proof -
  let ?r1 = "race_registry\<lparr>known_pools := [(makeKnownPoolTag race_url, 0)], pools_made := [(race_url, 5)]\<rparr>"
  have first: "Connect (\<lambda>_. None) race_url race_registry = Inr (Pool_at 0, ?r1)" by (simp add: Connect_def race_simps)
  have "Connect (\<lambda>_. None) (race_url\<lparr>url_type := ''dht''\<rparr>) ?r1 = Inr (Pool_at 0, ?r1)"
    by (rule connect_ignores_type [OF _ _ _ first]) (simp_all add: race_simps)
  then show ?thesis by (simp add: first) (simp add: race_simps)
qed

end
