(* ===== verification/Iom_Registry.thy ===== *)
theory Iom_Registry
  imports Iom_Posix Directory_Info Config_Settings
begin

text \<open>
  The registry of i/o modules (\<^verbatim>\<open>kelpie/ioms/IomRegistry.cpp\<close>): drivers by type, modules by the hash of their name, in one
  table until the registry is started and in another, under the lock, afterwards.  With it, how a core joins a pool that names a
  module (\<^verbatim>\<open>KelpieCoreNoNet::JoinServerPool\<close>, and the same function of \<^verbatim>\<open>KelpieCoreStandard\<close>).  A module is a value of a type
  parameter and a driver a function that makes one or throws; \<^verbatim>\<open>init\<close> registers the posix driver of the build
  without the optional data bases.  The lock is a flag: locking it while the same thread holds it is
  \<^verbatim>\<open>Deadlock\<close>.  Registering releases the lock between its two parts, which are the steps that different callers interleave.
\<close>

section \<open>State\<close>

text \<open>A constructor may throw, or return a null pointer, which is \<^term>\<open>None\<close>; the list of settings of a driver may be missing.\<close>

type_synonym 'i fn_IomConstructor = "string \<Rightarrow> (string, string) omap \<Rightarrow> 'i option result"

record 'i IomRegistry =
  finalized :: bool
  iom_locked :: bool
  ioms_by_hash_pre :: "(u32, 'i) omap"
  ioms_by_hash_post :: "(u32, 'i) omap"
  iom_ctors :: "(string, 'i fn_IomConstructor) omap"
  iom_valid_setting_fns :: "(string, (string \<times> string) list option) omap"

definition new_IomRegistry :: "'i IomRegistry" where
  "new_IomRegistry = \<lparr>finalized = False, iom_locked = False, ioms_by_hash_pre = [], ioms_by_hash_post = [], iom_ctors = [], iom_valid_setting_fns = []\<rparr>"

section \<open>Looking up and registering\<close>

definition iom_Find :: "u32 \<Rightarrow> 'i IomRegistry \<Rightarrow> 'i option result" where
  "iom_Find iom_hash r = (case om_get (ioms_by_hash_pre r) iom_hash of
     Some i \<Rightarrow> Inr (Some i)
   | None \<Rightarrow> if finalized r then (if iom_locked r then Inl Deadlock else Inr (om_get (ioms_by_hash_post r) iom_hash)) else Inr None)"

definition iom_Find_name :: "string \<Rightarrow> 'i IomRegistry \<Rightarrow> 'i option result" where
  "iom_Find_name name r = iom_Find (hash32 name) r"

text \<open>Registering up to the construction of the module, and the part that stores it.\<close>

definition register_make :: "string \<Rightarrow> string \<Rightarrow> (string, string) omap \<Rightarrow> 'i IomRegistry \<Rightarrow> 'i result" where
  "register_make type name settings r =
     rbind (iom_Find_name name r) (\<lambda>known.
       if known \<noteq> None then Inl Runtime_error
       else case om_get (iom_ctors r) (ToLowercase type) of
         None \<Rightarrow> Inl Runtime_error
       | Some ctor \<Rightarrow> rbind (ctor name settings) (\<lambda>iom. case iom of None \<Rightarrow> Inl Runtime_error | Some i \<Rightarrow> Inr i))"

definition register_store :: "string \<Rightarrow> 'i \<Rightarrow> 'i IomRegistry \<Rightarrow> 'i IomRegistry result" where
  "register_store name iom r = (let hid = hash32 name in
     if \<not> finalized r then Inr (r\<lparr>ioms_by_hash_pre := om_set hid iom (ioms_by_hash_pre r)\<rparr>)
     else if iom_locked r then Inl Deadlock
     else if om_get (ioms_by_hash_post r) hid \<noteq> None then Inl Runtime_error
     else Inr (r\<lparr>ioms_by_hash_post := om_set hid iom (ioms_by_hash_post r)\<rparr>))"

definition RegisterIom :: "string \<Rightarrow> string \<Rightarrow> (string, string) omap \<Rightarrow> 'i IomRegistry \<Rightarrow> 'i IomRegistry result" where
  "RegisterIom type name settings r = rbind (register_make type name settings r) (\<lambda>iom. register_store name iom r)"

text \<open>Reading a module out of the options of a url.  An exception becomes the return value -1; a blocked or aborted call does not.\<close>

definition std_exception :: "fault \<Rightarrow> bool" where
  "std_exception e = (e \<in> {Runtime_error, Invalid_argument, Length_error, Out_of_range})"

definition iom_option :: "string \<times> string \<Rightarrow> string \<times> string \<times> (string, string) omap \<Rightarrow> string \<times> string \<times> (string, string) omap" where
  "iom_option = (\<lambda>(k0, v) (name, iom_type, options_map). let k = ToLowercase k0 in
     if k = ''iom'' then (v, iom_type, options_map)
     else if k = ''iom_type'' then (name, v, options_map)
     else if StringBeginsWith k ''iom_'' then (name, iom_type, if drop 4 k \<noteq> [] then om_set (drop 4 k) v options_map else options_map)
     else (name, iom_type, options_map))"

definition RegisterIomFromURL :: "ResourceURL \<Rightarrow> 'i IomRegistry \<Rightarrow> (int \<times> 'i IomRegistry) result" where
  "RegisterIomFromURL url r = rbind (GetOptions url) (\<lambda>options_vector.
     case fold iom_option options_vector ([], [], []) of (name, iom_type, options_map) \<Rightarrow>
       if name = [] \<or> iom_type = [] then Inr (-1, r)
       else case RegisterIom iom_type name options_map r of
         Inr r1 \<Rightarrow> Inr (0, r1)
       | Inl e \<Rightarrow> if std_exception e then Inr (-1, r) else Inl e)"

definition RegisterIomConstructor ::
  "string \<Rightarrow> 'i fn_IomConstructor \<Rightarrow> (string \<times> string) list option \<Rightarrow> 'i IomRegistry \<Rightarrow> 'i IomRegistry result" where
  "RegisterIomConstructor type constructor_function valid_settings_function r = (let type = ToLowercase type in
     if finalized r then Inl Runtime_error
     else Inr (r\<lparr>iom_ctors := om_set type constructor_function (iom_ctors r),
                 iom_valid_setting_fns := om_set type valid_settings_function (iom_valid_setting_fns r)\<rparr>))"

section \<open>Life cycle\<close>

text \<open>One module of the configuration: the settings for all modules, for this one, and for this one in the node's role, the later ones first.\<close>

definition iom_config_settings :: "Configuration \<Rightarrow> string \<Rightarrow> (string, string) omap result" where
  "iom_config_settings config name =
     rbind (GetComponentSettings ''default.kelpie.iom'' config) (\<lambda>s0.
     rbind (GetComponentSettings (''kelpie.iom.'' @ name) config) (\<lambda>s1.
     rbind (GetComponentSettings (node_role config @ ''.kelpie.iom.'' @ name) config) (\<lambda>s2.
       Inr (fold (\<lambda>(k, v). om_set k v) (s1 @ s2) s0))))"

definition iom_from_config :: "Configuration \<Rightarrow> string \<Rightarrow> 'i IomRegistry \<Rightarrow> 'i IomRegistry result" where
  "iom_from_config config name r =
     rbind (iom_config_settings config name) (\<lambda>settings.
       case om_get settings ''type'' of
         None \<Rightarrow> Inl Runtime_error
       | Some v \<Rightarrow> let type = ToLowercase v in
           if type = [] then Inl Runtime_error
           else rbind (iom_Find_name name r) (\<lambda>known.
             if known \<noteq> None then Inl Runtime_error
             else if om_get (iom_ctors r) type = None then Inl Runtime_error
             else RegisterIom type name settings r))"

fun ioms_from_config :: "Configuration \<Rightarrow> string list \<Rightarrow> 'i IomRegistry \<Rightarrow> 'i IomRegistry result" where
  "ioms_from_config config [] r = Inr r"
| "ioms_from_config config (name # names) r = rbind (iom_from_config config name r) (ioms_from_config config names)"

definition pio_settings :: "(string \<times> string) list" where
  "pio_settings = [(''path'', ''The path that the IOM writer should use for storing data'')]"

definition fn_pio :: "posix_env \<Rightarrow> (string, u8 list) omap \<Rightarrow> Pio fn_IomConstructor" where
  "fn_pio env files name settings = rbind (pio_ctor env files name settings) (\<lambda>p. Inr (Some p))"

definition IomRegistry_init :: "posix_env \<Rightarrow> (string, u8 list) omap \<Rightarrow> Configuration \<Rightarrow> Pio IomRegistry \<Rightarrow> Pio IomRegistry result" where
  "IomRegistry_init env files config r =
     rbind (RegisterIomConstructor ''posixindividualobjects'' (fn_pio env files) (Some pio_settings) r) (\<lambda>r1.
       ioms_from_config config (Split (snd (config_GetString ''kelpie.ioms'' [] config)) CHR '';'' True) r1)"

definition IomRegistry_start :: "'i IomRegistry \<Rightarrow> 'i IomRegistry" where
  "IomRegistry_start r = r\<lparr>finalized := True\<rparr>"

text \<open>The modules that are told to finish, in order, and the registry that is left.\<close>

definition IomRegistry_finish :: "'i IomRegistry \<Rightarrow> 'i list \<times> 'i IomRegistry" where
  "IomRegistry_finish r = (map snd (ioms_by_hash_pre r) @ map snd (ioms_by_hash_post r),
     r\<lparr>ioms_by_hash_pre := [], ioms_by_hash_post := [], iom_ctors := []\<rparr>)"

section \<open>Reports\<close>

text \<open>What the status page shows, without its layout: one module, the name that was not found, or the drivers and the modules of both tables.\<close>

datatype 'i iom_page = Page_of 'i | Page_not_found string | Page_list "string list" "(u32, 'i) omap" "(u32, 'i) omap"

definition iom_HandleWhookieStatus :: "(string, string) omap \<Rightarrow> 'i IomRegistry \<Rightarrow> 'i iom_page result" where
  "iom_HandleWhookieStatus args r = (if iom_locked r then Inl Deadlock else
     case om_get args ''iom_name'' of
       Some v \<Rightarrow> (let name = ExpandPunycode v in
         rbind (iom_Find_name name (r\<lparr>iom_locked := True\<rparr>)) (\<lambda>iom.
           Inr (case iom of None \<Rightarrow> Page_not_found name | Some i \<Rightarrow> Page_of i)))
     | None \<Rightarrow> Inr (Page_list (map fst (iom_ctors r)) (ioms_by_hash_pre r) (ioms_by_hash_post r)))"

definition GetIomNames :: "('i \<Rightarrow> string) \<Rightarrow> 'i IomRegistry \<Rightarrow> string list result" where
  "GetIomNames name_of r = (if iom_locked r then Inl Deadlock
     else Inr (map (name_of \<circ> snd) (ioms_by_hash_pre r) @ map (name_of \<circ> snd) (ioms_by_hash_post r)))"

definition RegisteredTypes :: "'i IomRegistry \<Rightarrow> string list" where
  "RegisteredTypes r = map fst (iom_ctors r)"

definition RegisteredTypeParameters :: "string \<Rightarrow> 'i IomRegistry \<Rightarrow> (string \<times> string) list" where
  "RegisteredTypeParameters type r = (case om_get (iom_valid_setting_fns r) type of Some (Some l) \<Rightarrow> l | _ \<Rightarrow> [])"

section \<open>Joining a pool\<close>

text \<open>The two parameters are the answers of the directory service, without and with a name for this node.\<close>

definition JoinServerPool ::
  "(ResourceURL \<Rightarrow> DirectoryInfo option) \<Rightarrow> (ResourceURL \<Rightarrow> string \<Rightarrow> DirectoryInfo option) \<Rightarrow> ResourceURL \<Rightarrow> string \<Rightarrow>
   'i IomRegistry \<Rightarrow> (int \<times> 'i IomRegistry) result" where
  "JoinServerPool without_name with_name url optional_node_name r =
     (case (if optional_node_name = [] then without_name url else with_name url optional_node_name) of
        None \<Rightarrow> Inr (0, r)
      | Some dir_info \<Rightarrow> let name = GetOption ''iom'' [] (di_url dir_info) in
          if name = [] then Inr (0, r)
          else rbind (iom_Find_name name r) (\<lambda>iom. case iom of
            Some _ \<Rightarrow> Inr (0, r)
          | None \<Rightarrow> rbind (RegisterIomFromURL (di_url dir_info) r) (\<lambda>(rc, r1).
              Inr (if rc \<noteq> 0 then -1 else 0, r1))))"

section \<open>Many callers\<close>

text \<open>A call that registers a module: about to look and construct, about to store, done with the module it stored, or thrown out.\<close>

datatype 'i reg_stage = Making | Made 'i | Registered 'i | Refused fault

record 'i reg_call =
  reg_type :: string
  reg_name :: string
  reg_settings :: "(string, string) omap"
  reg_stage :: "'i reg_stage"

definition register_step :: "'i reg_call \<Rightarrow> 'i IomRegistry \<Rightarrow> 'i reg_call \<times> 'i IomRegistry" where
  "register_step c r = (case reg_stage c of
     Making \<Rightarrow> (case register_make (reg_type c) (reg_name c) (reg_settings c) r of
       Inl e \<Rightarrow> (c\<lparr>reg_stage := Refused e\<rparr>, r) | Inr i \<Rightarrow> (c\<lparr>reg_stage := Made i\<rparr>, r))
   | Made i \<Rightarrow> (case register_store (reg_name c) i r of
       Inl e \<Rightarrow> (c\<lparr>reg_stage := Refused e\<rparr>, r) | Inr r1 \<Rightarrow> (c\<lparr>reg_stage := Registered i\<rparr>, r1))
   | _ \<Rightarrow> (c, r))"

inductive iom_run :: "'i IomRegistry \<Rightarrow> 'i IomRegistry \<Rightarrow> 'i reg_call list \<Rightarrow> bool" for r0 where
  none: "iom_run r0 r0 []"
| begins: "iom_run r0 r cs \<Longrightarrow> iom_run r0 r (cs @ [\<lparr>reg_type = t, reg_name = n, reg_settings = s, reg_stage = Making\<rparr>])"
| steps: "iom_run r0 r cs \<Longrightarrow> i < length cs \<Longrightarrow> register_step (cs ! i) r = (c, r1) \<Longrightarrow> iom_run r0 r1 (cs[i := c])"

section \<open>One module for each name\<close>

text \<open>
  After the start the first table is fixed and the second only grows; a call that has stored its module finds it there, and no other
  call has stored one under that hash.
\<close>
definition reg_ok :: "'i IomRegistry \<Rightarrow> 'i IomRegistry \<Rightarrow> 'i reg_call \<Rightarrow> bool" where
  "reg_ok r0 r c = (let h = hash32 (reg_name c) in case reg_stage c of
     Made _ \<Rightarrow> om_get (ioms_by_hash_pre r0) h = None
   | Registered i \<Rightarrow> om_get (ioms_by_hash_pre r0) h = None \<and> om_get (ioms_by_hash_post r0) h = None \<and> om_get (ioms_by_hash_post r) h = Some i
   | _ \<Rightarrow> True)"

definition iom_inv :: "'i IomRegistry \<Rightarrow> 'i IomRegistry \<Rightarrow> 'i reg_call list \<Rightarrow> bool" where
  "iom_inv r0 r cs = (finalized r \<and> \<not> iom_locked r \<and> ioms_by_hash_pre r = ioms_by_hash_pre r0 \<and> om_inv (ioms_by_hash_post r) \<and>
     om_get (ioms_by_hash_post r0) \<subseteq>\<^sub>m om_get (ioms_by_hash_post r) \<and> (\<forall>j < length cs. reg_ok r0 r (cs ! j)) \<and>
     (\<forall>i < length cs. \<forall>j < length cs. \<forall>a b. hash32 (reg_name (cs ! i)) = hash32 (reg_name (cs ! j)) \<longrightarrow>
       reg_stage (cs ! i) = Registered a \<longrightarrow> reg_stage (cs ! j) = Registered b \<longrightarrow> i = j))"

lemma register_step_same [simp]:
  assumes "register_step c r = (c', r1)" shows "reg_name c' = reg_name c"
  using assms by (auto simp: register_step_def split: reg_stage.splits sum.splits)

lemma register_make_new:
  assumes "register_make t n s r = Inr i"
  shows "om_get (ioms_by_hash_pre r) (hash32 n) = None"
  using assms by (auto simp: register_make_def iom_Find_name_def iom_Find_def rbind_def split: option.splits sum.splits if_splits)

lemma reg_ok_grows:
  assumes "reg_ok r0 r c" "om_get (ioms_by_hash_post r) \<subseteq>\<^sub>m om_get (ioms_by_hash_post r1)"
  shows "reg_ok r0 r1 c"
  using assms by (auto simp: reg_ok_def Let_def map_le_def dom_def split: reg_stage.splits)

lemma iom_inv_parts:
  assumes "iom_inv r0 r cs"
  shows "finalized r" "\<not> iom_locked r" "ioms_by_hash_pre r = ioms_by_hash_pre r0" "om_inv (ioms_by_hash_post r)"
    "om_get (ioms_by_hash_post r0) \<subseteq>\<^sub>m om_get (ioms_by_hash_post r)"
    and "j < length cs \<Longrightarrow> reg_ok r0 r (cs ! j)"
    and "i < length cs \<Longrightarrow> j < length cs \<Longrightarrow> hash32 (reg_name (cs ! i)) = hash32 (reg_name (cs ! j)) \<Longrightarrow>
      reg_stage (cs ! i) = Registered a \<Longrightarrow> reg_stage (cs ! j) = Registered b \<Longrightarrow> i = j"
  using assms unfolding iom_inv_def by blast+

lemma iom_invI:
  assumes "finalized r" "\<not> iom_locked r" "ioms_by_hash_pre r = ioms_by_hash_pre r0" "om_inv (ioms_by_hash_post r)"
    "om_get (ioms_by_hash_post r0) \<subseteq>\<^sub>m om_get (ioms_by_hash_post r)" "\<And>j. j < length cs \<Longrightarrow> reg_ok r0 r (cs ! j)"
    and "\<And>i j a b. i < length cs \<Longrightarrow> j < length cs \<Longrightarrow> hash32 (reg_name (cs ! i)) = hash32 (reg_name (cs ! j)) \<Longrightarrow>
      reg_stage (cs ! i) = Registered a \<Longrightarrow> reg_stage (cs ! j) = Registered b \<Longrightarrow> i = j"
  shows "iom_inv r0 r cs"
  using assms unfolding iom_inv_def by blast

lemma register_step_cases:
  assumes step: "register_step c r = (c', r1)" and r: "finalized r" "\<not> iom_locked r" "ioms_by_hash_pre r = ioms_by_hash_pre r0" and ok: "reg_ok r0 r c"
  obtains (quiet) "r1 = r" "reg_ok r0 r c'" "\<And>a. reg_stage c' = Registered a \<Longrightarrow> reg_stage c = Registered a"
  | (store) x where "reg_stage c = Made x" "reg_stage c' = Registered x" "om_get (ioms_by_hash_post r) (hash32 (reg_name c)) = None"
      "r1 = r\<lparr>ioms_by_hash_post := om_set (hash32 (reg_name c)) x (ioms_by_hash_post r)\<rparr>"
proof (cases "reg_stage c")
  case Making
  show ?thesis
  proof (cases "register_make (reg_type c) (reg_name c) (reg_settings c) r")
    case (Inl e)
    then show ?thesis using step Making by (intro that(1)) (auto simp: register_step_def reg_ok_def)
  next
    case (Inr x)
    then show ?thesis using step Making r(3) register_make_new [OF Inr] by (intro that(1)) (auto simp: register_step_def reg_ok_def)
  qed
next
  case (Made x)
  show ?thesis
  proof (cases "om_get (ioms_by_hash_post r) (hash32 (reg_name c)) = None")
    case True
    then show ?thesis using step r(1,2) Made that(2) [of x] by (auto simp: register_step_def register_store_def)
  next
    case False
    then have "r1 = r" "reg_stage c' = Refused Runtime_error" using step r(1,2) Made by (auto simp: register_step_def register_store_def)
    then show ?thesis using that(1) by (simp add: reg_ok_def)
  qed
qed (rule that(1); use step ok in \<open>simp add: register_step_def\<close>)+

lemma iom_inv_step:
  assumes inv: "iom_inv r0 r cs" and i: "i < length cs" and step: "register_step (cs ! i) r = (c, r1)"
  shows "iom_inv r0 r1 (cs[i := c])"
proof -
  let ?h = "hash32 (reg_name (cs ! i))"
  note parts = iom_inv_parts [OF inv]
  have name: "reg_name c = reg_name (cs ! i)" using step by simp
  have uniq: "k = j" if "k < length (cs[i := c])" "j < length (cs[i := c])" "hash32 (reg_name (cs[i := c] ! k)) = hash32 (reg_name (cs[i := c] ! j))"
      "reg_stage (cs[i := c] ! k) = Registered a" "reg_stage (cs[i := c] ! j) = Registered b"
      and new: "\<And>j a b. j \<noteq> i \<Longrightarrow> j < length cs \<Longrightarrow> hash32 (reg_name (cs ! j)) = ?h \<Longrightarrow> reg_stage c = Registered a \<Longrightarrow> reg_stage (cs ! j) \<noteq> Registered b" for k j a b
    using that(1-5) new [of k] new [of j] i name parts(7) [of k j a b] by (cases "k = i"; cases "j = i") auto
  show ?thesis
    using step parts(1-3) parts(6) [OF i]
  proof (cases rule: register_step_cases)
    case quiet
    show ?thesis
    proof (rule iom_invI)
      show "reg_ok r0 r1 (cs[i := c] ! j)" if "j < length (cs[i := c])" for j
        using parts(6) [of j] that quiet i by (cases "j = i") simp_all
      show "k = j" if "k < length (cs[i := c])" "j < length (cs[i := c])" "hash32 (reg_name (cs[i := c] ! k)) = hash32 (reg_name (cs[i := c] ! j))"
          "reg_stage (cs[i := c] ! k) = Registered a" "reg_stage (cs[i := c] ! j) = Registered b" for k j a b
        using that by (rule uniq) (use quiet(3) parts(7) i in blast)
    qed (use parts(1-5) quiet(1) in simp_all)
  next
    case (store x)
    have grows: "om_get (ioms_by_hash_post r) \<subseteq>\<^sub>m om_get (ioms_by_hash_post r1)"
      using store(3,4) parts(4) by (auto simp: map_le_def om_get_om_set dom_def)
    have "om_get (ioms_by_hash_post r0) ?h = None" using store(3) parts(5) by (metis domIff map_le_def)
    then have new: "reg_ok r0 r1 c"
      using store parts(4) parts(6) [OF i] name by (simp add: reg_ok_def om_get_om_set)
    have free: "reg_stage (cs ! j) \<noteq> Registered b" if "j < length cs" "hash32 (reg_name (cs ! j)) = ?h" for j b
      using parts(6) [OF that(1)] that(2) store(3) by (auto simp: reg_ok_def)
    show ?thesis
    proof (rule iom_invI)
      show "reg_ok r0 r1 (cs[i := c] ! j)" if "j < length (cs[i := c])" for j
        using reg_ok_grows [OF parts(6) [of j] grows] that new i by (cases "j = i") simp_all
      show "k = j" if "k < length (cs[i := c])" "j < length (cs[i := c])" "hash32 (reg_name (cs[i := c] ! k)) = hash32 (reg_name (cs[i := c] ! j))"
          "reg_stage (cs[i := c] ! k) = Registered a" "reg_stage (cs[i := c] ! j) = Registered b" for k j a b
        using that by (rule uniq) (use free in blast)
      show "om_get (ioms_by_hash_post r0) \<subseteq>\<^sub>m om_get (ioms_by_hash_post r1)" using parts(5) grows by (rule map_le_trans)
    qed (use parts(1-4) store(4) in \<open>simp_all add: om_inv_om_set\<close>)
  qed
qed

lemma iom_run_inv:
  assumes "iom_run r0 r cs" "finalized r0" "\<not> iom_locked r0" "om_inv (ioms_by_hash_post r0)"
  shows "iom_inv r0 r cs"
  using assms
proof (induction rule: iom_run.induct)
  case (begins r cs t n s)
  note parts = iom_inv_parts [OF begins.IH [OF begins.prems]]
  let ?c = "\<lparr>reg_type = t, reg_name = n, reg_settings = s, reg_stage = Making\<rparr>"
  show ?case
  proof (rule iom_invI)
    show "reg_ok r0 r ((cs @ [?c]) ! j)" if "j < length (cs @ [?c])" for j
      using that parts(6) [of j] by (cases "j < length cs") (simp_all add: nth_append reg_ok_def)
    show "i = j" if "i < length (cs @ [?c])" "j < length (cs @ [?c])" "hash32 (reg_name ((cs @ [?c]) ! i)) = hash32 (reg_name ((cs @ [?c]) ! j))"
        "reg_stage ((cs @ [?c]) ! i) = Registered a" "reg_stage ((cs @ [?c]) ! j) = Registered b" for i j a b
      using that parts(7) [of i j a b] by (simp add: nth_append split: if_splits)
  qed (use parts(1-5) in simp_all)
qed (simp_all add: iom_inv_def [of _ _ "[]"] iom_inv_step)

text \<open>
  C21. After the start, whatever calls register modules and however their parts interleave: of all the calls whose names have one
  hash at most one succeeds, from then on every look-up of that name finds the module this call made, and the modules that
  were known before are found unchanged.
\<close>
theorem iom_registered_once:
  assumes run: "iom_run r0 r cs" and started: "finalized r0" "\<not> iom_locked r0" "om_inv (ioms_by_hash_post r0)"
    and i: "i < length cs" "reg_stage (cs ! i) = Registered a"
  shows "iom_Find_name (reg_name (cs ! i)) r = Inr (Some a) \<and> iom_Find_name (reg_name (cs ! i)) r0 = Inr None \<and>
    (\<forall>j b. j < length cs \<and> hash32 (reg_name (cs ! j)) = hash32 (reg_name (cs ! i)) \<and> reg_stage (cs ! j) = Registered b \<longrightarrow> j = i) \<and>
    (\<forall>h x. iom_Find h r0 = Inr (Some x) \<longrightarrow> iom_Find h r = Inr (Some x))"
proof -
  note parts = iom_inv_parts [OF iom_run_inv [OF run started]]
  have "iom_Find h r = Inr (Some x)" if "iom_Find h r0 = Inr (Some x)" for h x
    using that parts(1-3,5) started(1,2) by (auto simp: iom_Find_def map_le_def dom_def split: option.splits)
  moreover have "iom_Find_name (reg_name (cs ! i)) r = Inr (Some a)" "iom_Find_name (reg_name (cs ! i)) r0 = Inr None"
    using parts(6) [OF i(1)] i(2) parts(1-3) started(1,2) by (simp_all add: reg_ok_def Let_def iom_Find_name_def iom_Find_def)
  moreover have "j = i" if "j < length cs" "hash32 (reg_name (cs ! j)) = hash32 (reg_name (cs ! i))" "reg_stage (cs ! j) = Registered b" for j b
    by (rule parts(7) [OF that(1) i(1) that(2) that(3) i(2)])
  ultimately show ?thesis by blast
qed

fun iom_steps :: "nat list \<Rightarrow> 'i IomRegistry \<Rightarrow> 'i reg_call list \<Rightarrow> 'i IomRegistry \<times> 'i reg_call list" where
  "iom_steps [] r cs = (r, cs)"
| "iom_steps (i # is) r cs = (if i < length cs then let (c, r1) = register_step (cs ! i) r in iom_steps is r1 (cs[i := c]) else (r, cs))"

lemma iom_steps_run: "iom_run r0 r cs \<Longrightarrow> iom_steps is r cs = (r1, cs1) \<Longrightarrow> iom_run r0 r1 cs1"
  by (induction "is" r cs rule: iom_steps.induct) (auto simp: Let_def intro: iom_run.steps split: prod.splits if_splits)

text \<open>Two calls register one name with different settings; both find it free, both make a module, and the second one stores first.\<close>

definition demo_iom_registry :: "nat IomRegistry" where
  "demo_iom_registry = new_IomRegistry\<lparr>finalized := True, iom_ctors := [(''pio'', \<lambda>n s. Inr (Some (length s)))]\<rparr>"

definition demo_call :: "(string, string) omap \<Rightarrow> nat reg_stage \<Rightarrow> nat reg_call" where
  "demo_call s st = \<lparr>reg_type = ''pio'', reg_name = ''disk'', reg_settings = s, reg_stage = st\<rparr>"

definition demo_iom_end :: "nat IomRegistry" where
  "demo_iom_end = demo_iom_registry\<lparr>ioms_by_hash_post := [(hash32 ''disk'', 1)]\<rparr>"

lemma ToLowercase_pio: "ToLowercase ''pio'' = ''pio''" by code_simp

lemmas demo_iom_simps = demo_iom_registry_def demo_iom_end_def demo_call_def new_IomRegistry_def register_step_def register_make_def register_store_def
  iom_Find_name_def iom_Find_def ToLowercase_pio rbind_def

lemma demo_iom_run: "iom_run demo_iom_registry demo_iom_end [demo_call [] (Refused Runtime_error), demo_call [(''path'', ''/x'')] (Registered 1)]"
proof (rule iom_steps_run)
  show "iom_run demo_iom_registry demo_iom_registry [demo_call [] Making, demo_call [(''path'', ''/x'')] Making]"
    using iom_run.begins [OF iom_run.begins [OF iom_run.none], of demo_iom_registry] by (simp add: demo_call_def)
  show "iom_steps [0, 1, 1, 0] demo_iom_registry [demo_call [] Making, demo_call [(''path'', ''/x'')] Making] =
      (demo_iom_end, [demo_call [] (Refused Runtime_error), demo_call [(''path'', ''/x'')] (Registered 1)])"
    by (simp add: demo_iom_simps)
qed

theorem iom_registered_once_witness:
  "iom_run demo_iom_registry demo_iom_end [demo_call [] (Refused Runtime_error), demo_call [(''path'', ''/x'')] (Registered 1)] \<and>
   iom_Find_name ''disk'' demo_iom_end = Inr (Some 1)"
  using iom_registered_once [OF demo_iom_run, of 1 1] demo_iom_run
  by (simp add: demo_iom_registry_def new_IomRegistry_def demo_call_def)

text \<open>The page of one module, requested under its escaped name.\<close>

lemma iom_page_blocked:
  assumes "finalized r" "\<not> iom_locked r"
  shows "(iom_HandleWhookieStatus [(''iom_name'', MakePunycode name)] r = Inl Deadlock) = (om_get (ioms_by_hash_pre r) (hash32 name) = None)"
  using assms by (simp add: iom_HandleWhookieStatus_def Expand_Make iom_Find_name_def iom_Find_def rbind_def split: option.splits)

lemma RegisterIom_found:
  assumes "RegisterIom type name settings r = Inr r1" "\<not> iom_locked r" "om_inv (ioms_by_hash_pre r)" "om_inv (ioms_by_hash_post r)"
  shows "\<exists>i. iom_Find_name name r1 = Inr (Some i) \<and> finalized r1 = finalized r \<and> \<not> iom_locked r1 \<and>
    (finalized r \<longrightarrow> ioms_by_hash_pre r1 = ioms_by_hash_pre r \<and> om_get (ioms_by_hash_pre r) (hash32 name) = None)"
proof -
  obtain i where i: "register_make type name settings r = Inr i" "register_store name i r = Inr r1"
    using assms(1) by (auto simp: RegisterIom_def rbind_def split: sum.splits)
  show ?thesis
    using i(2) register_make_new [OF i(1)] assms(2-4)
    by (intro exI [of _ i]) (auto simp: register_store_def iom_Find_name_def iom_Find_def Let_def om_get_om_set split: if_splits)
qed

text \<open>
  The status page of one module holds the lock while it looks the module up, and the look-up takes the lock as well: a module
  registered after the start is found, but its page blocks for ever, as does the page of every unknown name; only the
  modules registered before the start have a page.
\<close>
theorem iom_status_deadlock:
  assumes "finalized r" "\<not> iom_locked r" "om_inv (ioms_by_hash_pre r)" "om_inv (ioms_by_hash_post r)"
    and "RegisterIom type name settings r = Inr r1"
  shows "(\<exists>i. iom_Find_name name r1 = Inr (Some i)) \<and>
    iom_HandleWhookieStatus [(''iom_name'', MakePunycode name)] r1 = Inl Deadlock \<and>
    (\<forall>n. (iom_HandleWhookieStatus [(''iom_name'', MakePunycode n)] r1 = Inl Deadlock) = (om_get (ioms_by_hash_pre r) (hash32 n) = None))"
  using RegisterIom_found [OF assms(5,2,3,4)] assms(1) iom_page_blocked [of r1] by auto

theorem iom_status_deadlock_witness:
  "case RegisterIom ''pio'' ''disk'' [] demo_iom_registry of Inl _ \<Rightarrow> False
   | Inr r1 \<Rightarrow> iom_HandleWhookieStatus [(''iom_name'', MakePunycode ''disk'')] r1 = Inl Deadlock"
proof -
  let ?r1 = "demo_iom_registry\<lparr>ioms_by_hash_post := [(hash32 ''disk'', 0)]\<rparr>"
  have r1: "RegisterIom ''pio'' ''disk'' [] demo_iom_registry = Inr ?r1" by (simp add: RegisterIom_def demo_iom_simps)
  show ?thesis using iom_status_deadlock [OF _ _ _ _ r1] unfolding r1 by (simp add: demo_iom_registry_def new_IomRegistry_def)
qed

lemma iom_Find_returns: "\<not> iom_locked r \<Longrightarrow> \<exists>known. iom_Find_name name r = Inr known"
  by (simp add: iom_Find_name_def iom_Find_def split: option.splits)

text \<open>
  What the options of a url say, the last one with a name counting and the names in lower case, and that
  this is what registering from a url reads out of them.
\<close>
definition last_options :: "(string \<times> string) list \<Rightarrow> string \<Rightarrow> string option" where
  "last_options ops = map_of (rev (map (\<lambda>(k, v). (ToLowercase k, v)) ops))"

definition settings_from :: "(string \<times> string) list \<Rightarrow> (string, string) omap \<Rightarrow> bool" where
  "settings_from ops m = (om_inv m \<and> (\<forall>k. om_get m k = (if k = [] \<or> k = ''type'' then None else last_options ops (''iom_'' @ k))))"

lemma last_options_snoc: "last_options (ops @ [(k, v)]) = (last_options ops)(ToLowercase k \<mapsto> v)"
  by (simp add: last_options_def)

lemma iom_option_reads:
  assumes "fold iom_option ops ([], [], []) = (name, type, settings)"
  shows "(case last_options ops ''iom'' of Some v \<Rightarrow> v | None \<Rightarrow> []) = name \<and>
    (case last_options ops ''iom_type'' of Some v \<Rightarrow> v | None \<Rightarrow> []) = type \<and> settings_from ops settings"
  using assms
proof (induction ops arbitrary: name type settings rule: rev_induct)
  case Nil
  then show ?case by (simp add: last_options_def settings_from_def)
next
  case (snoc kv ops)
  obtain k v where kv: "kv = (k, v)" by force
  obtain n t m where f: "fold iom_option ops ([], [], []) = (n, t, m)" by (metis prod_cases3)
  let ?k = "ToLowercase k"
  have r: "iom_option (k, v) (n, t, m) = (name, type, settings)" using snoc.prems f kv by simp
  note IH = snoc.IH [OF f]
  have inv: "om_inv m" and get: "om_get m x = (if x = [] \<or> x = ''type'' then None else last_options ops (''iom_'' @ x))" for x
    using IH by (simp_all add: settings_from_def)
  have old: "(case last_options ops ''iom'' of Some v \<Rightarrow> v | None \<Rightarrow> []) = n"
    "(case last_options ops ''iom_type'' of Some v \<Rightarrow> v | None \<Rightarrow> []) = t" using IH by simp_all
  have pre: "StringBeginsWith ?k ''iom_'' \<longleftrightarrow> (\<exists>x. ?k = ''iom_'' @ x)"
    by (simp add: StringBeginsWith_prefix prefix_def)
  have new: "last_options (ops @ [kv]) y = (if y = ?k then Some v else last_options ops y)" for y
    by (simp add: kv last_options_snoc)
  consider (name) "?k = ''iom''" | (type) "?k = ''iom_type''" | (none) "?k \<noteq> ''iom''" "\<not> StringBeginsWith ?k ''iom_''"
    | (set) x where "?k = ''iom_'' @ x" "x \<noteq> ''type''" by (auto simp: pre)
  then show ?case
  proof cases
    case name
    then have "(name, type, settings) = (v, t, m)" using r by (simp add: iom_option_def)
    then show ?thesis using old inv get name by (simp add: settings_from_def new)
  next
    case type
    then have "(name, type, settings) = (n, v, m)" using r by (simp add: iom_option_def)
    then show ?thesis using old inv get type by (auto simp: settings_from_def new)
  next
    case none
    have ne: "''iom_'' @ x \<noteq> ?k" for x using none(2) unfolding pre by metis
    have nt: "''iom_type'' \<noteq> ?k" using ne [of "''type''"] by simp
    have "(name, type, settings) = (n, t, m)" using r none nt by (auto simp: iom_option_def Let_def)
    then show ?thesis using old inv get ne nt none(1) by (auto simp: settings_from_def new simp del: append_Cons append_Nil)
  next
    case (set x)
    have k: "?k \<noteq> ''iom''" "?k \<noteq> ''iom_type''" "StringBeginsWith ?k ''iom_''" "drop 4 ?k = x"
      using set unfolding pre by auto
    have eq: "(name, type, settings) = (n, t, if x \<noteq> [] then om_set x v m else m)"
      using r k(1-3) unfolding k(4) [symmetric] by (auto simp: iom_option_def Let_def)
    have "''iom_'' @ y = ?k \<longleftrightarrow> y = x" for y using set by auto
    then show ?thesis using old inv get not_sym [OF k(1)] not_sym [OF k(2)] set(2) eq
      by (auto simp: settings_from_def new om_get_om_set simp del: append_Cons append_Nil)
  qed
qed

text \<open>A constructor may throw and may return no module, but it comes back.\<close>

definition ctors_return :: "'i IomRegistry \<Rightarrow> bool" where
  "ctors_return r = (\<forall>t ctor n m e. om_get (iom_ctors r) t = Some ctor \<longrightarrow> ctor n m = Inl e \<longrightarrow> std_exception e)"

definition can_register :: "string \<Rightarrow> string \<Rightarrow> (string, string) omap \<Rightarrow> 'i IomRegistry \<Rightarrow> 'i \<Rightarrow> bool" where
  "can_register type name settings r i = (iom_Find_name name r = Inr None \<and>
     (\<exists>ctor. om_get (iom_ctors r) (ToLowercase type) = Some ctor \<and> ctor name settings = Inr (Some i)))"

lemma RegisterIom_made:
  assumes "\<not> iom_locked r" "om_inv (ioms_by_hash_pre r)" "om_inv (ioms_by_hash_post r)" "can_register type name settings r i"
  shows "\<exists>r1. RegisterIom type name settings r = Inr r1 \<and>
    (\<forall>n. iom_Find_name n r1 = (if hash32 n = hash32 name then Inr (Some i) else iom_Find_name n r))"
proof -
  have "register_make type name settings r = Inr i" using assms(4) by (auto simp: register_make_def can_register_def)
  moreover have "om_get (ioms_by_hash_pre r) (hash32 name) = None" "finalized r \<longrightarrow> om_get (ioms_by_hash_post r) (hash32 name) = None"
    using assms(1,4) by (auto simp: can_register_def iom_Find_name_def iom_Find_def split: option.splits if_splits)
  ultimately show ?thesis using assms(1-3)
    by (auto simp: RegisterIom_def register_store_def Let_def iom_Find_name_def iom_Find_def om_get_om_set split: option.splits)
qed

lemma RegisterIom_refused:
  assumes "\<not> iom_locked r" "ctors_return r" "\<nexists>i. can_register type name settings r i"
  shows "\<exists>e. RegisterIom type name settings r = Inl e \<and> std_exception e"
proof -
  obtain known where known: "iom_Find_name name r = Inr known" using iom_Find_returns [OF assms(1)] by blast
  have "\<exists>e. register_make type name settings r = Inl e \<and> std_exception e"
    using assms(2,3) known by (auto simp: register_make_def can_register_def ctors_return_def std_exception_def rbind_def
        split: option.splits sum.splits)
  then show ?thesis by (auto simp: RegisterIom_def)
qed

lemma RegisterIomFromURL_exact:
  assumes r: "\<not> iom_locked r" "om_inv (ioms_by_hash_pre r)" "om_inv (ioms_by_hash_post r)" "ctors_return r"
    and ops: "GetOptions url = Inr ops"
  shows "\<exists>rc r1 settings. RegisterIomFromURL url r = Inr (rc, r1) \<and> settings_from ops settings \<and>
    (case (last_options ops ''iom'', last_options ops ''iom_type'') of
       (Some name, Some type) \<Rightarrow>
         if name \<noteq> [] \<and> type \<noteq> [] \<and> (\<exists>i. can_register type name settings r i)
         then rc = 0 \<and> (\<forall>n. if hash32 n = hash32 name then (\<exists>i. iom_Find_name n r1 = Inr (Some i) \<and> can_register type name settings r i)
                              else iom_Find_name n r1 = iom_Find_name n r)
         else rc = -1 \<and> r1 = r
     | _ \<Rightarrow> rc = -1 \<and> r1 = r)"
proof -
  obtain name type settings where f: "fold iom_option ops ([], [], []) = (name, type, settings)" by (metis prod_cases3)
  note read = iom_option_reads [OF f]
  have reg: "RegisterIomFromURL url r = (if name = [] \<or> type = [] then Inr (-1, r) else case RegisterIom type name settings r of
      Inr r1 \<Rightarrow> Inr (0, r1) | Inl e \<Rightarrow> if std_exception e then Inr (-1, r) else Inl e)"
    using ops f by (simp add: RegisterIomFromURL_def)
  consider "name = [] \<or> type = []" | "name \<noteq> []" "type \<noteq> []" "\<nexists>i. can_register type name settings r i"
    | i where "name \<noteq> []" "type \<noteq> []" "can_register type name settings r i" by blast
  then show ?thesis
  proof cases
    case 1
    then show ?thesis using read reg by (intro exI [of _ "-1"] exI [of _ r] exI [of _ settings]) (auto split: option.splits)
  next
    case 2
    then show ?thesis using read reg RegisterIom_refused [OF r(1,4) 2(3)]
      by (intro exI [of _ "-1"] exI [of _ r] exI [of _ settings]) (auto split: option.splits)
  next
    case (3 i)
    obtain r1 where "RegisterIom type name settings r = Inr r1"
      "\<forall>n. iom_Find_name n r1 = (if hash32 n = hash32 name then Inr (Some i) else iom_Find_name n r)"
      using RegisterIom_made [OF r(1-3) 3(3)] by blast
    then show ?thesis using read reg 3
      by (intro exI [of _ 0] exI [of _ r1] exI [of _ settings]) (auto split: option.splits)
  qed
qed

text \<open>
  C35. Joining a pool always returns, for options that all have a value and constructors that return or throw.  Without an answer
  from the directory service it returns 0, which is documented to mean that the node joined.  With an answer, it looks for
  the module that the first option \<^verbatim>\<open>iom\<close> names; if there is none, or the module is registered, it returns 0 and changes nothing.
  Otherwise it returns 0 exactly when a module can be made from the options: then the last option spelled \<^verbatim>\<open>iom\<close> in any case gives
  its name, that module is registered, and the one looked for can be found afterwards only if both names have one hash.  So
  with \<^verbatim>\<open>iom=a&IOM=b\<close> the call returns 0 without the module \<^verbatim>\<open>a\<close>.  In all other cases it returns -1 and changes nothing.
\<close>
theorem join_server_pool:
  assumes r: "\<not> iom_locked r" "om_inv (ioms_by_hash_pre r)" "om_inv (ioms_by_hash_post r)" "ctors_return r"
    and joined: "joined = (if node_name = [] then without_name url else with_name url node_name)"
    and ops: "\<forall>d. joined = Some d \<longrightarrow> GetOptions (di_url d) = Inr ops"
  shows "\<exists>rc r1. JoinServerPool without_name with_name url node_name r = Inr (rc, r1) \<and>
    (case joined of
       None \<Rightarrow> rc = 0 \<and> r1 = r
     | Some d \<Rightarrow> let sought = GetOption ''iom'' [] (di_url d) in
         if sought = [] \<or> (\<exists>i. iom_Find_name sought r = Inr (Some i)) then rc = 0 \<and> r1 = r
         else \<exists>settings. settings_from ops settings \<and>
           (case (last_options ops ''iom'', last_options ops ''iom_type'') of
              (Some name, Some type) \<Rightarrow>
                if name \<noteq> [] \<and> type \<noteq> [] \<and> (\<exists>i. can_register type name settings r i)
                then rc = 0 \<and> (\<exists>i. iom_Find_name name r1 = Inr (Some i)) \<and>
                     (\<exists>i. iom_Find_name sought r1 = Inr (Some i)) = (hash32 sought = hash32 name)
                else rc = -1 \<and> r1 = r
            | _ \<Rightarrow> rc = -1 \<and> r1 = r))"
proof (cases joined)
  case None
  then show ?thesis using joined by (simp add: JoinServerPool_def)
next
  case (Some d)
  let ?s = "GetOption ''iom'' [] (di_url d)"
  have J: "JoinServerPool without_name with_name url node_name r = (if ?s = [] then Inr (0, r) else rbind (iom_Find_name ?s r) (\<lambda>iom. case iom of
      Some _ \<Rightarrow> Inr (0, r) | None \<Rightarrow> rbind (RegisterIomFromURL (di_url d) r) (\<lambda>(rc, r1). Inr (if rc \<noteq> 0 then -1 else 0, r1))))"
    unfolding JoinServerPool_def joined [symmetric] Some option.case Let_def by (rule refl)
  obtain known where known: "iom_Find_name ?s r = Inr known" using iom_Find_returns [OF r(1)] by blast
  show ?thesis
  proof (cases "?s = [] \<or> known \<noteq> None")
    case True
    then show ?thesis using J known Some by auto
  next
    case False
    obtain rc r1 settings where reg: "RegisterIomFromURL (di_url d) r = Inr (rc, r1)" "settings_from ops settings"
      and out: "case (last_options ops ''iom'', last_options ops ''iom_type'') of
       (Some name, Some type) \<Rightarrow>
         if name \<noteq> [] \<and> type \<noteq> [] \<and> (\<exists>i. can_register type name settings r i)
         then rc = 0 \<and> (\<forall>n. if hash32 n = hash32 name then (\<exists>i. iom_Find_name n r1 = Inr (Some i) \<and> can_register type name settings r i)
                              else iom_Find_name n r1 = iom_Find_name n r)
         else rc = -1 \<and> r1 = r
     | _ \<Rightarrow> rc = -1 \<and> r1 = r"
      using RegisterIomFromURL_exact [OF r] ops Some by blast
    have "JoinServerPool without_name with_name url node_name r = Inr (if rc \<noteq> 0 then -1 else 0, r1)"
      using J False known reg(1) by simp
    moreover have "case (last_options ops ''iom'', last_options ops ''iom_type'') of
       (Some name, Some type) \<Rightarrow>
         if name \<noteq> [] \<and> type \<noteq> [] \<and> (\<exists>i. can_register type name settings r i)
         then rc = 0 \<and> (\<exists>i. iom_Find_name name r1 = Inr (Some i)) \<and> (\<exists>i. iom_Find_name ?s r1 = Inr (Some i)) = (hash32 ?s = hash32 name)
         else rc = -1 \<and> r1 = r
     | _ \<Rightarrow> rc = -1 \<and> r1 = r"
      using out known False by (auto split: option.splits if_splits)
    moreover have "rc = 0 \<or> rc = -1" using out by (auto split: option.splits if_splits)
    ultimately show ?thesis using False known reg(2) Some unfolding Let_def
      by (intro exI [of _ rc] exI [of _ r1]) (auto intro!: exI [of _ settings] split: option.splits if_splits)
  qed
qed

definition demo_pool_dir :: "string \<Rightarrow> DirectoryInfo" where
  "demo_pool_dir opts = DirectoryInfo_empty\<lparr>di_url := \<lparr>url_type = ''dht'', url_node = 0, url_bucket = 7, url_path = ''/a'', url_name = ''b'',
     url_options = opts\<rparr>\<rparr>"

lemma demo_pool_options:
  "GetOption ''iom'' [] (di_url (demo_pool_dir ''iom=a&IOM=disk&iom_type=PIO&iom_path=/x'')) = ''a''"
  "GetOptions (di_url (demo_pool_dir ''iom=a&IOM=disk&iom_type=PIO&iom_path=/x'')) =
     Inr [(''iom'', ''a''), (''IOM'', ''disk''), (''iom_type'', ''PIO''), (''iom_path'', ''/x'')]"
  "last_options [(''iom'', ''a''), (''IOM'', ''disk''), (''iom_type'', ''PIO''), (''iom_path'', ''/x'')] ''iom'' = Some ''disk''"
  "last_options [(''iom'', ''a''), (''IOM'', ''disk''), (''iom_type'', ''PIO''), (''iom_path'', ''/x'')] ''iom_type'' = Some ''PIO''"
  "ToLowercase ''PIO'' = ''pio''" "hash32 ''a'' \<noteq> hash32 ''disk''"
  by code_simp+

theorem join_server_pool_witness:
  "\<exists>r1. JoinServerPool (\<lambda>_. Some (demo_pool_dir ''iom=a&IOM=disk&iom_type=PIO&iom_path=/x'')) (\<lambda>_ _. None) (di_url (demo_pool_dir [])) [] demo_iom_registry = Inr (0, r1) \<and>
     (\<exists>i. iom_Find_name ''disk'' r1 = Inr (Some i)) \<and> (\<nexists>i. iom_Find_name ''a'' r1 = Inr (Some i))"
proof -
  have r: "ctors_return demo_iom_registry" "\<not> iom_locked demo_iom_registry" "om_inv (ioms_by_hash_pre demo_iom_registry)"
    "om_inv (ioms_by_hash_post demo_iom_registry)" "iom_Find_name n demo_iom_registry = Inr None" for n
    by (simp_all add: ctors_return_def demo_iom_registry_def new_IomRegistry_def iom_Find_name_def iom_Find_def)
  have "can_register ''PIO'' ''disk'' settings demo_iom_registry (length settings)" for settings
    using r(5) demo_pool_options(5) by (simp add: can_register_def demo_iom_registry_def new_IomRegistry_def)
  then have reg: "\<exists>i. can_register ''PIO'' ''disk'' settings demo_iom_registry i" for settings by blast
  show ?thesis
    using join_server_pool [where r = demo_iom_registry and without_name = "\<lambda>_. Some (demo_pool_dir ''iom=a&IOM=disk&iom_type=PIO&iom_path=/x'')"
        and with_name = "\<lambda>_ _. None" and url = "di_url (demo_pool_dir [])" and node_name = "[]"
        and ops = "[(''iom'', ''a''), (''IOM'', ''disk''), (''iom_type'', ''PIO''), (''iom_path'', ''/x'')]", OF r(2-4,1) refl] demo_pool_options r(5)
    by (auto simp: Let_def reg)
qed

end
