(* ===== verification/Http_Request.thy ===== *)
theory Http_Request
  imports Prelude
begin

text \<open>
  The request parser of the whookie web server (\<^verbatim>\<open>whookie/server/boost/request_parser.cpp\<close>): a state machine
  that is fed one character at a time, whatever pieces the network delivers.  It is shown to be
  equivalent to a grammar of requests, and to give the same answer for every way of cutting its input.
\<close>

section \<open>The parser\<close>

record header =
  hdr_name :: string
  hdr_value :: string

record request =
  req_method :: string
  req_uri :: string
  http_version_major :: int
  http_version_minor :: int
  req_headers :: "header list"

datatype result_type = Good | Bad | Indeterminate

datatype parser_state = Method_start | Method | Uri | Http_version_h | Http_version_t_1 | Http_version_t_2 | Http_version_p
  | Http_version_slash | Http_version_major_start | Http_version_major | Http_version_minor_start | Http_version_minor
  | Expecting_newline_1 | Header_line_start | Header_lws | Header_name | Space_before_header_value | Header_value
  | Expecting_newline_2 | Expecting_newline_3

text \<open>A character is handed to the tests below as a signed integer.\<close>

definition char_int :: "char \<Rightarrow> int" where
  "char_int c = (let n = int (of_char c) in if n < 128 then n else n - 256)"

definition is_char :: "int \<Rightarrow> bool" where
  "is_char c = (0 \<le> c \<and> c \<le> 127)"

definition is_ctl :: "int \<Rightarrow> bool" where
  "is_ctl c = ((0 \<le> c \<and> c \<le> 31) \<or> c = 127)"

definition is_tspecial :: "int \<Rightarrow> bool" where
  "is_tspecial c = (c \<in> set (map char_int (''()<>@,;:'' @ [CHR 0x5C, CHR 0x22] @ ''/[]?={} '' @ [CHR 0x09])))"

definition is_digit :: "int \<Rightarrow> bool" where
  "is_digit c = (char_int CHR ''0'' \<le> c \<and> c \<le> char_int CHR ''9'')"

definition token_char :: "char \<Rightarrow> bool" where
  "token_char c = (is_char (char_int c) \<and> \<not> is_ctl (char_int c) \<and> \<not> is_tspecial (char_int c))"

text \<open>One more digit of a version number, which is a signed 32-bit integer.\<close>

definition add_digit :: "int \<Rightarrow> char \<Rightarrow> int result" where
  "add_digit v c = (if v * 10 + char_int c > 2147483647 then Inl Undefined_behaviour else Inr (v * 10 + char_int c - char_int CHR ''0''))"

text \<open>The last header of the list, which has to be there.\<close>

definition push_name :: "char \<Rightarrow> request \<Rightarrow> request result" where
  "push_name c req = (case rev (req_headers req) of
     [] \<Rightarrow> Inl Undefined_behaviour | h # hs \<Rightarrow> Inr (req\<lparr>req_headers := rev hs @ [h\<lparr>hdr_name := hdr_name h @ [c]\<rparr>]\<rparr>))"

definition push_value :: "char \<Rightarrow> request \<Rightarrow> request result" where
  "push_value c req = (case rev (req_headers req) of
     [] \<Rightarrow> Inl Undefined_behaviour | h # hs \<Rightarrow> Inr (req\<lparr>req_headers := rev hs @ [h\<lparr>hdr_value := hdr_value h @ [c]\<rparr>]\<rparr>))"

type_synonym consumed = "(result_type \<times> parser_state \<times> request) result"

definition on_char :: "bool \<Rightarrow> parser_state \<Rightarrow> parser_state \<Rightarrow> request \<Rightarrow> consumed" where
  "on_char ok st st' req = Inr (if ok then (Indeterminate, st', req) else (Bad, st, req))"

fun consume :: "request \<Rightarrow> parser_state \<Rightarrow> char \<Rightarrow> consumed" where
  "consume req Method_start c =
     (if \<not> token_char c then Inr (Bad, Method_start, req)
      else Inr (Indeterminate, Method, req\<lparr>req_method := req_method req @ [c]\<rparr>))"
| "consume req Method c =
     (if c = CHR '' '' then Inr (Indeterminate, Uri, req)
      else if \<not> token_char c then Inr (Bad, Method, req)
      else Inr (Indeterminate, Method, req\<lparr>req_method := req_method req @ [c]\<rparr>))"
| "consume req Uri c =
     (if c = CHR '' '' then Inr (Indeterminate, Http_version_h, req)
      else if is_ctl (char_int c) then Inr (Bad, Uri, req)
      else Inr (Indeterminate, Uri, req\<lparr>req_uri := req_uri req @ [c]\<rparr>))"
| "consume req Http_version_h c = on_char (c = CHR ''H'') Http_version_h Http_version_t_1 req"
| "consume req Http_version_t_1 c = on_char (c = CHR ''T'') Http_version_t_1 Http_version_t_2 req"
| "consume req Http_version_t_2 c = on_char (c = CHR ''T'') Http_version_t_2 Http_version_p req"
| "consume req Http_version_p c = on_char (c = CHR ''P'') Http_version_p Http_version_slash req"
| "consume req Http_version_slash c =
     (if c = CHR ''/'' then Inr (Indeterminate, Http_version_major_start, req\<lparr>http_version_major := 0, http_version_minor := 0\<rparr>)
      else Inr (Bad, Http_version_slash, req))"
| "consume req Http_version_major_start c =
     (if is_digit (char_int c)
      then rbind (add_digit (http_version_major req) c) (\<lambda>v. Inr (Indeterminate, Http_version_major, req\<lparr>http_version_major := v\<rparr>))
      else Inr (Bad, Http_version_major_start, req))"
| "consume req Http_version_major c =
     (if c = CHR ''.'' then Inr (Indeterminate, Http_version_minor_start, req)
      else if is_digit (char_int c)
      then rbind (add_digit (http_version_major req) c) (\<lambda>v. Inr (Indeterminate, Http_version_major, req\<lparr>http_version_major := v\<rparr>))
      else Inr (Bad, Http_version_major, req))"
| "consume req Http_version_minor_start c =
     (if is_digit (char_int c)
      then rbind (add_digit (http_version_minor req) c) (\<lambda>v. Inr (Indeterminate, Http_version_minor, req\<lparr>http_version_minor := v\<rparr>))
      else Inr (Bad, Http_version_minor_start, req))"
| "consume req Http_version_minor c =
     (if c = CHR 0x0D then Inr (Indeterminate, Expecting_newline_1, req)
      else if is_digit (char_int c)
      then rbind (add_digit (http_version_minor req) c) (\<lambda>v. Inr (Indeterminate, Http_version_minor, req\<lparr>http_version_minor := v\<rparr>))
      else Inr (Bad, Http_version_minor, req))"
| "consume req Expecting_newline_1 c = on_char (c = CHR 0x0A) Expecting_newline_1 Header_line_start req"
| "consume req Header_line_start c =
     (if c = CHR 0x0D then Inr (Indeterminate, Expecting_newline_3, req)
      else if req_headers req \<noteq> [] \<and> (c = CHR '' '' \<or> c = CHR 0x09) then Inr (Indeterminate, Header_lws, req)
      else if \<not> token_char c then Inr (Bad, Header_line_start, req)
      else rbind (push_name c (req\<lparr>req_headers := req_headers req @ [\<lparr>hdr_name = [], hdr_value = []\<rparr>]\<rparr>))
             (\<lambda>req1. Inr (Indeterminate, Header_name, req1)))"
| "consume req Header_lws c =
     (if c = CHR 0x0D then Inr (Indeterminate, Expecting_newline_2, req)
      else if c = CHR '' '' \<or> c = CHR 0x09 then Inr (Indeterminate, Header_lws, req)
      else if is_ctl (char_int c) then Inr (Bad, Header_lws, req)
      else rbind (push_value c req) (\<lambda>req1. Inr (Indeterminate, Header_value, req1)))"
| "consume req Header_name c =
     (if c = CHR '':'' then Inr (Indeterminate, Space_before_header_value, req)
      else if \<not> token_char c then Inr (Bad, Header_name, req)
      else rbind (push_name c req) (\<lambda>req1. Inr (Indeterminate, Header_name, req1)))"
| "consume req Space_before_header_value c = on_char (c = CHR '' '') Space_before_header_value Header_value req"
| "consume req Header_value c =
     (if c = CHR 0x0D then Inr (Indeterminate, Expecting_newline_2, req)
      else if is_ctl (char_int c) then Inr (Bad, Header_value, req)
      else rbind (push_value c req) (\<lambda>req1. Inr (Indeterminate, Header_value, req1)))"
| "consume req Expecting_newline_2 c = on_char (c = CHR 0x0A) Expecting_newline_2 Header_line_start req"
| "consume req Expecting_newline_3 c = Inr (if c = CHR 0x0A then Good else Bad, Expecting_newline_3, req)"

text \<open>A run over one piece of input ends with its result, the parser, the request so far and the unread rest.\<close>

fun parse :: "request \<Rightarrow> parser_state \<Rightarrow> string \<Rightarrow> (result_type \<times> parser_state \<times> request \<times> string) result" where
  "parse req st [] = Inr (Indeterminate, st, req, [])"
| "parse req st (c # cs) = rbind (consume req st c) (\<lambda>(res, st1, req1).
     if res = Good \<or> res = Bad then Inr (res, st1, req1, cs) else parse req1 st1 cs)"

definition blank_request :: request where
  "blank_request = \<lparr>req_method = [], req_uri = [], http_version_major = 0, http_version_minor = 0, req_headers = []\<rparr>"

section \<open>The grammar\<close>

text \<open>A header line, or a line that continues the value of the header before it.\<close>

datatype line = Field string string | Fold string string

definition crlf :: string where "crlf = [CHR 0x0D, CHR 0x0A]"

definition visible :: "string \<Rightarrow> bool" where
  "visible s = list_all (\<lambda>c. \<not> is_ctl (char_int c)) s"

definition http_token :: "string \<Rightarrow> bool" where
  "http_token s = (s \<noteq> [] \<and> list_all token_char s)"

definition digit_value :: "string \<Rightarrow> int" where
  "digit_value s = foldl (\<lambda>v c. v * 10 + (char_int c - 48)) 0 s"

definition version_number :: "string \<Rightarrow> bool" where
  "version_number s = (s \<noteq> [] \<and> list_all (\<lambda>c. is_digit (char_int c)) s \<and> digit_value s + 48 \<le> 2147483647)"

fun line_text :: "line \<Rightarrow> string" where
  "line_text (Field n v) = n @ '': '' @ v @ crlf"
| "line_text (Fold ws v) = ws @ v @ crlf"

fun line_ok :: "header list \<Rightarrow> line \<Rightarrow> bool" where
  "line_ok hs (Field n v) = (http_token n \<and> visible v)"
| "line_ok hs (Fold ws v) = (hs \<noteq> [] \<and> ws \<noteq> [] \<and> set ws \<subseteq> {CHR '' '', CHR 0x09} \<and> visible v \<and> (v = [] \<or> hd v \<noteq> CHR '' ''))"

fun add_line :: "line \<Rightarrow> header list \<Rightarrow> header list" where
  "add_line (Field n v) hs = hs @ [\<lparr>hdr_name = n, hdr_value = v\<rparr>]"
| "add_line (Fold ws v) hs = butlast hs @ [(last hs)\<lparr>hdr_value := hdr_value (last hs) @ v\<rparr>]"

fun lines_ok :: "header list \<Rightarrow> line list \<Rightarrow> bool" where
  "lines_ok hs [] = True"
| "lines_ok hs (l # ls) = (line_ok hs l \<and> lines_ok (add_line l hs) ls)"

definition request_text :: "string \<Rightarrow> string \<Rightarrow> string \<Rightarrow> string \<Rightarrow> line list \<Rightarrow> string" where
  "request_text m u major minor ls =
     m @ '' '' @ u @ '' HTTP/'' @ major @ ''.'' @ minor @ crlf @ concat (map line_text ls) @ crlf"

section \<open>Reading one part\<close>

lemma chars [simp]:
  "\<not> token_char CHR '' ''" "\<not> token_char CHR '':''" "\<not> token_char CHR 0x0D" "\<not> token_char CHR 0x09"
  "is_ctl (char_int CHR 0x0D)" "is_ctl (char_int CHR 0x09)" "\<not> is_digit (char_int CHR ''.'')" "\<not> is_digit (char_int CHR 0x0D)"
  "\<not> is_ctl (char_int CHR '' '')"
  by (simp_all add: token_char_def is_char_def is_ctl_def is_tspecial_def is_digit_def char_int_def)

definition accepts :: "parser_state \<Rightarrow> request \<Rightarrow> string \<Rightarrow> request \<Rightarrow> string \<Rightarrow> bool" where
  "accepts st req cs r rest = (parse req st cs = Inr (Good, Expecting_newline_3, r, rest))"

lemma accepts_Nil [simp]: "\<not> accepts st req [] r rest"
  by (simp add: accepts_def)

lemma accepts_Cons:
  "accepts st req (c # cs) r rest \<longleftrightarrow>
     (\<exists>res st1 req1. consume req st c = Inr (res, st1, req1) \<and>
        (res = Good \<and> st1 = Expecting_newline_3 \<and> req1 = r \<and> cs = rest \<or> res = Indeterminate \<and> accepts st1 req1 cs r rest))"
  by (cases "consume req st c") (auto simp: accepts_def split: if_splits, (metis result_type.exhaust)+)

text \<open>A character the parser insists on.\<close>

lemma accepts_on_char:
  assumes "\<And>c. consume req st c = on_char (c = x) st st' (f req)"
  shows "accepts st req cs r rest \<longleftrightarrow> (\<exists>tl. cs = x # tl \<and> accepts st' (f req) tl r rest)"
  by (cases cs) (auto simp: accepts_Cons assms on_char_def)

lemma split_at:
  "(\<exists>w tl. c # cs = w @ x # tl \<and> R w tl) \<longleftrightarrow> (c = x \<and> R [] cs) \<or> (\<exists>w tl. cs = w @ x # tl \<and> R (c # w) tl)"
  by (auto simp: Cons_eq_append_conv)

text \<open>A run of characters that the request collects, up to a character that ends it.\<close>

lemma accepts_scan:
  assumes "\<And>req. I req \<Longrightarrow> consume req st x = Inr (Indeterminate, st', req)"
    and "\<And>req c. I req \<Longrightarrow> c \<noteq> x \<Longrightarrow> ok c \<Longrightarrow> consume req st c = Inr (Indeterminate, st, upd req [c]) \<and> I (upd req [c])"
    and "\<And>req c. I req \<Longrightarrow> c \<noteq> x \<Longrightarrow> \<not> ok c \<Longrightarrow> consume req st c = Inr (Bad, st, req)"
    and "\<not> ok x" "\<And>req. upd req [] = req" "\<And>req c w. upd (upd req [c]) w = upd req (c # w)" "I req"
  shows "accepts st req cs r rest \<longleftrightarrow> (\<exists>w tl. cs = w @ x # tl \<and> list_all ok w \<and> accepts st' (upd req w) tl r rest)"
  using assms(7)
proof (induction cs arbitrary: req)
  case (Cons c cs)
  consider "c = x" | "c \<noteq> x" "ok c" | "c \<noteq> x" "\<not> ok c" by blast
  then show ?case
  proof cases
    case 1
    then show ?thesis using assms(1) [OF Cons.prems] assms(4,5) by (simp add: split_at accepts_Cons)
  next
    case 2
    then show ?thesis using assms(2) [OF Cons.prems 2] Cons.IH assms(6) by (simp add: split_at accepts_Cons)
  next
    case 3
    then show ?thesis using assms(3) [OF Cons.prems 3] by (simp add: split_at accepts_Cons)
  qed
qed simp

lemma accepts_method:
  "accepts Method req cs r rest \<longleftrightarrow> (\<exists>w tl. cs = w @ CHR '' '' # tl \<and> list_all token_char w \<and>
     accepts Uri (req\<lparr>req_method := req_method req @ w\<rparr>) tl r rest)"
  by (rule accepts_scan [where I = "\<lambda>_. True"]) simp_all

lemma accepts_method_start:
  "accepts Method_start req cs r rest \<longleftrightarrow> (\<exists>w tl. cs = w @ CHR '' '' # tl \<and> http_token w \<and>
     accepts Uri (req\<lparr>req_method := req_method req @ w\<rparr>) tl r rest)"
proof (cases cs)
  case (Cons c cs')
  then show ?thesis by (cases "token_char c") (auto simp: accepts_Cons accepts_method split_at http_token_def)
qed simp

definition uri_text :: "string \<Rightarrow> bool" where
  "uri_text u = list_all (\<lambda>c. c \<noteq> CHR '' '' \<and> \<not> is_ctl (char_int c)) u"

lemma accepts_uri:
  "accepts Uri req cs r rest \<longleftrightarrow> (\<exists>w tl. cs = w @ CHR '' '' # tl \<and> uri_text w \<and>
     accepts Http_version_h (req\<lparr>req_uri := req_uri req @ w\<rparr>) tl r rest)"
  unfolding uri_text_def by (rule accepts_scan [where I = "\<lambda>_. True"]) simp_all

lemma accepts_http:
  "accepts Http_version_h req cs r rest \<longleftrightarrow> (\<exists>tl. cs = ''HTTP/'' @ tl \<and>
     accepts Http_version_major_start (req\<lparr>http_version_major := 0, http_version_minor := 0\<rparr>) tl r rest)"
proof -
  have "accepts Http_version_slash req' cs' r rest \<longleftrightarrow> (\<exists>tl. cs' = CHR ''/'' # tl \<and>
     accepts Http_version_major_start (req'\<lparr>http_version_major := 0, http_version_minor := 0\<rparr>) tl r rest)" for req' cs'
    by (cases cs') (auto simp: accepts_Cons)
  then show ?thesis
    by (auto simp: accepts_on_char [where f = id and st = Http_version_h] accepts_on_char [where f = id and st = Http_version_t_1]
        accepts_on_char [where f = id and st = Http_version_t_2] accepts_on_char [where f = id and st = Http_version_p])
qed

section \<open>Version numbers\<close>

definition digits_from :: "int \<Rightarrow> string \<Rightarrow> int" where
  "digits_from v w = foldl (\<lambda>v c. v * 10 + (char_int c - 48)) v w"

lemma digits_from_simps [simp]: "digits_from v [] = v" "digits_from v (c # w) = digits_from (v * 10 + (char_int c - 48)) w"
  by (simp_all add: digits_from_def)

lemma digit_range: "is_digit (char_int c) \<Longrightarrow> 48 \<le> char_int c \<and> char_int c \<le> 57"
  by (simp add: is_digit_def char_int_def)

lemma digits_from_mono: "0 \<le> v \<Longrightarrow> list_all (\<lambda>c. is_digit (char_int c)) w \<Longrightarrow> v \<le> digits_from v w"
proof (induction w arbitrary: v)
  case (Cons c w)
  have "0 \<le> v * 10 + (char_int c - 48)" "v \<le> v * 10 + (char_int c - 48)" using Cons.prems digit_range [of c] by auto
  then show ?case using Cons.IH [of "v * 10 + (char_int c - 48)"] Cons.prems(2) by auto
qed simp

definition fits :: "int \<Rightarrow> string \<Rightarrow> bool" where
  "fits v w = (list_all (\<lambda>c. is_digit (char_int c)) w \<and> (w = [] \<or> digits_from v w + 48 \<le> 2147483647))"

lemma add_digit_ok:
  "add_digit v c = (if v * 10 + (char_int c - 48) + 48 \<le> 2147483647 then Inr (v * 10 + (char_int c - 48)) else Inl Undefined_behaviour)"
  by (auto simp: add_digit_def char_int_def [of "CHR ''0''"])

lemma fits_Cons:
  assumes "0 \<le> v"
  shows "fits v (c # w) \<longleftrightarrow> is_digit (char_int c) \<and> v * 10 + (char_int c - 48) + 48 \<le> 2147483647 \<and> fits (v * 10 + (char_int c - 48)) w"
proof -
  have "v * 10 + (char_int c - 48) \<le> digits_from (v * 10 + (char_int c - 48)) w"
    if "is_digit (char_int c)" "list_all (\<lambda>c. is_digit (char_int c)) w"
    by (rule digits_from_mono) (use that assms digit_range [of c] in auto)
  then show ?thesis by (auto simp: fits_def)
qed

text \<open>The digits before the dot, and those before the end of the line.\<close>

lemma accepts_digits:
  assumes x: "\<And>req. consume req st x = Inr (Indeterminate, st', req)" "\<not> is_digit (char_int x)"
    and c: "\<And>req c. c \<noteq> x \<Longrightarrow> consume req st c =
      (if is_digit (char_int c) then rbind (add_digit (val req) c) (\<lambda>v. Inr (Indeterminate, st, setv v req)) else Inr (Bad, st, req))"
    and v: "\<And>req v. val (setv v req) = v" "\<And>req v v'. setv v (setv v' req) = setv v req" "\<And>req. setv (val req) req = req" "0 \<le> val req"
  shows "accepts st req cs r rest \<longleftrightarrow> (\<exists>w tl. cs = w @ x # tl \<and> fits (val req) w \<and> accepts st' (setv (digits_from (val req) w) req) tl r rest)"
  using v(4)
proof (induction cs arbitrary: req)
  case (Cons c cs)
  let ?v = "val req * 10 + (char_int c - 48)"
  show ?case
  proof (cases "c = x")
    case True
    then show ?thesis using x v(3) by (simp add: accepts_Cons split_at fits_Cons Cons.prems) (simp add: fits_def)
  next
    case False
    have "accepts st (setv ?v req) cs r rest \<longleftrightarrow>
        (\<exists>w tl. cs = w @ x # tl \<and> fits ?v w \<and> accepts st' (setv (digits_from ?v w) req) tl r rest)" if "is_digit (char_int c)"
      using Cons.IH [of "setv ?v req"] Cons.prems digit_range [OF that] by (simp add: v(1,2))
    then show ?thesis using False by (auto simp: accepts_Cons split_at fits_Cons Cons.prems c add_digit_ok)
  qed
qed simp

lemma accepts_first_digit:
  assumes start: "\<And>c. consume req st0 c =
      (if is_digit (char_int c) then rbind (add_digit (val req) c) (\<lambda>v. Inr (Indeterminate, st, setv v req)) else Inr (Bad, st0, req))"
    and digits: "\<And>req cs. 0 \<le> val req \<Longrightarrow> accepts st req cs r rest \<longleftrightarrow>
      (\<exists>w tl. cs = w @ x # tl \<and> fits (val req) w \<and> accepts st' (setv (digits_from (val req) w) req) tl r rest)"
    and v: "\<And>req v. val (setv v req) = v" "\<And>req v v'. setv v (setv v' req) = setv v req" "val req = 0" and x: "\<not> is_digit (char_int x)"
  shows "accepts st0 req cs r rest \<longleftrightarrow>
    (\<exists>w tl. cs = w @ x # tl \<and> version_number w \<and> accepts st' (setv (digit_value w) req) tl r rest)"
proof (cases cs)
  case (Cons c cs')
  have V: "version_number w \<longleftrightarrow> w \<noteq> [] \<and> fits 0 w" "digit_value w = digits_from 0 w" for w
    by (auto simp: version_number_def fits_def digit_value_def digits_from_def)
  show ?thesis
    using Cons digits [of "setv (char_int c - 48) req" cs'] digit_range [of c] x
    by (auto simp: accepts_Cons start add_digit_ok v V split_at fits_Cons)
qed simp

lemma accepts_major:
  assumes "http_version_major req = 0"
  shows "accepts Http_version_major_start req cs r rest \<longleftrightarrow> (\<exists>w tl. cs = w @ CHR ''.'' # tl \<and> version_number w \<and>
     accepts Http_version_minor_start (req\<lparr>http_version_major := digit_value w\<rparr>) tl r rest)"
proof (rule accepts_first_digit [where st = Http_version_major and val = http_version_major and setv = "\<lambda>v. http_version_major_update (\<lambda>_. v)"])
  fix req :: request and cs assume "0 \<le> http_version_major req"
  then show "accepts Http_version_major req cs r rest \<longleftrightarrow> (\<exists>w tl. cs = w @ CHR ''.'' # tl \<and> fits (http_version_major req) w \<and>
      accepts Http_version_minor_start (req\<lparr>http_version_major := digits_from (http_version_major req) w\<rparr>) tl r rest)"
    by (intro accepts_digits) simp_all
qed (use assms in simp_all)

lemma accepts_minor:
  assumes "http_version_minor req = 0"
  shows "accepts Http_version_minor_start req cs r rest \<longleftrightarrow> (\<exists>w tl. cs = w @ CHR 0x0D # tl \<and> version_number w \<and>
     accepts Expecting_newline_1 (req\<lparr>http_version_minor := digit_value w\<rparr>) tl r rest)"
proof (rule accepts_first_digit [where st = Http_version_minor and val = http_version_minor and setv = "\<lambda>v. http_version_minor_update (\<lambda>_. v)"])
  fix req :: request and cs assume "0 \<le> http_version_minor req"
  then show "accepts Http_version_minor req cs r rest \<longleftrightarrow> (\<exists>w tl. cs = w @ CHR 0x0D # tl \<and> fits (http_version_minor req) w \<and>
      accepts Expecting_newline_1 (req\<lparr>http_version_minor := digits_from (http_version_minor req) w\<rparr>) tl r rest)"
    by (intro accepts_digits) simp_all
qed (use assms in simp_all)

section \<open>Header lines\<close>

definition more_name :: "request \<Rightarrow> string \<Rightarrow> request" where
  "more_name req w = req\<lparr>req_headers := butlast (req_headers req) @ [(last (req_headers req))\<lparr>hdr_name := hdr_name (last (req_headers req)) @ w\<rparr>]\<rparr>"

definition more_value :: "request \<Rightarrow> string \<Rightarrow> request" where
  "more_value req w = req\<lparr>req_headers := butlast (req_headers req) @ [(last (req_headers req))\<lparr>hdr_value := hdr_value (last (req_headers req)) @ w\<rparr>]\<rparr>"

lemma push_more:
  assumes "req_headers req \<noteq> []"
  shows "push_name c req = Inr (more_name req [c])" "push_value c req = Inr (more_value req [c])"
    "more_name req [] = req" "more_value req [] = req" "req_headers (more_name req w) \<noteq> []" "req_headers (more_value req w) \<noteq> []"
    "more_name (more_name req [c]) w = more_name req (c # w)" "more_value (more_value req [c]) w = more_value req (c # w)"
proof -
  obtain hs h where "req_headers req = hs @ [h]" using assms by (metis append_butlast_last_id)
  then show "push_name c req = Inr (more_name req [c])" "push_value c req = Inr (more_value req [c])"
    "more_name req [] = req" "more_value req [] = req" "req_headers (more_name req w) \<noteq> []" "req_headers (more_value req w) \<noteq> []"
    "more_name (more_name req [c]) w = more_name req (c # w)" "more_value (more_value req [c]) w = more_value req (c # w)"
    by (cases req; simp add: push_name_def push_value_def more_name_def more_value_def)+
qed

lemma accepts_value:
  assumes "req_headers req \<noteq> []"
  shows "accepts Header_value req cs r rest \<longleftrightarrow> (\<exists>w tl. cs = w @ CHR 0x0D # tl \<and> visible w \<and>
     accepts Expecting_newline_2 (more_value req w) tl r rest)"
  using assms
proof (induction cs arbitrary: req)
  case (Cons c cs)
  note P = push_more [OF Cons.prems]
  show ?case
  proof (cases "c = CHR 0x0D")
    case True
    then show ?thesis by (simp add: accepts_Cons split_at P visible_def)
  next
    case False
    then show ?thesis using Cons.IH [OF P(6) [of "[c]"]] by (auto simp: accepts_Cons split_at P visible_def)
  qed
qed simp

lemma accepts_name:
  assumes "req_headers req \<noteq> []"
  shows "accepts Header_name req cs r rest \<longleftrightarrow> (\<exists>w tl. cs = w @ CHR '':'' # tl \<and> list_all token_char w \<and>
     accepts Space_before_header_value (more_name req w) tl r rest)"
  using assms
proof (induction cs arbitrary: req)
  case (Cons c cs)
  note P = push_more [OF Cons.prems]
  show ?case
  proof (cases "c = CHR '':''")
    case True
    then show ?thesis by (simp add: accepts_Cons split_at P)
  next
    case False
    then show ?thesis using Cons.IH [OF P(5) [of "[c]"]] by (auto simp: accepts_Cons split_at P)
  qed
qed simp

definition blanks :: "string \<Rightarrow> bool" where
  "blanks ws = (set ws \<subseteq> {CHR '' '', CHR 0x09})"

definition unblank :: "string \<Rightarrow> bool" where
  "unblank v = (visible v \<and> (v = [] \<or> hd v \<noteq> CHR '' ''))"

definition folded :: "string \<Rightarrow> string \<Rightarrow> string \<Rightarrow> string \<Rightarrow> bool" where
  "folded cs ws v left = (cs = ws @ v @ CHR 0x0D # left \<and> blanks ws \<and> unblank v)"

lemma folded_Cons:
  "folded (CHR 0x0D # cs) ws v left \<longleftrightarrow> ws = [] \<and> v = [] \<and> left = cs"
  "c = CHR '' '' \<or> c = CHR 0x09 \<Longrightarrow> folded (c # cs) ws v left \<longleftrightarrow> (\<exists>ws'. ws = c # ws' \<and> folded cs ws' v left)"
  "c \<noteq> CHR 0x0D \<Longrightarrow> c \<noteq> CHR '' '' \<Longrightarrow> c \<noteq> CHR 0x09 \<Longrightarrow> folded (c # cs) ws v left \<longleftrightarrow>
     (\<exists>v'. ws = [] \<and> v = c # v' \<and> cs = v' @ CHR 0x0D # left \<and> \<not> is_ctl (char_int c) \<and> visible v')"
  unfolding folded_def by (cases ws; cases v; auto simp: blanks_def unblank_def visible_def)+

lemma accepts_lws:
  assumes "req_headers req \<noteq> []"
  shows "accepts Header_lws req cs r rest \<longleftrightarrow> (\<exists>ws v tl. folded cs ws v tl \<and> accepts Expecting_newline_2 (more_value req v) tl r rest)"
proof (induction cs)
  case Nil
  then show ?case by (simp add: folded_def)
next
  case (Cons c cs)
  note P = push_more [OF assms]
  consider "c = CHR 0x0D" | "c = CHR '' '' \<or> c = CHR 0x09" | "c \<noteq> CHR 0x0D" "c \<noteq> CHR '' ''" "c \<noteq> CHR 0x09" by blast
  then show ?case
  proof cases
    case 1
    then show ?thesis by (simp add: accepts_Cons P folded_Cons)
  next
    case 2
    then have "c \<noteq> CHR 0x0D" by auto
    then show ?thesis using 2 Cons.IH by (simp add: accepts_Cons folded_Cons(2) [OF 2]) blast
  next
    case 3
    then show ?thesis using accepts_value [OF P(6) [of "[c]"]]
      by (auto simp: accepts_Cons P folded_Cons(3) [OF 3])
  qed
qed

lemma accepts_newline:
  "accepts Expecting_newline_1 req cs r rest \<longleftrightarrow> (\<exists>tl. cs = CHR 0x0A # tl \<and> accepts Header_line_start req tl r rest)"
  "accepts Expecting_newline_2 req cs r rest \<longleftrightarrow> (\<exists>tl. cs = CHR 0x0A # tl \<and> accepts Header_line_start req tl r rest)"
  "accepts Space_before_header_value req cs r rest \<longleftrightarrow> (\<exists>tl. cs = CHR '' '' # tl \<and> accepts Header_value req tl r rest)"
  "accepts Expecting_newline_3 req cs r rest \<longleftrightarrow> cs = CHR 0x0A # rest \<and> r = req"
  by (simp_all add: accepts_on_char [where f = id and st = Expecting_newline_1] accepts_on_char [where f = id and st = Expecting_newline_2]
      accepts_on_char [where f = id and st = Space_before_header_value]) (cases cs; auto simp: accepts_Cons)

text \<open>One line of the header block.\<close>

lemma fold_line:
  "(\<exists>ws v tl. c # cs = line_text (Fold ws v) @ tl \<and> line_ok hs (Fold ws v) \<and> Q v tl) \<longleftrightarrow>
     hs \<noteq> [] \<and> (c = CHR '' '' \<or> c = CHR 0x09) \<and> (\<exists>ws v tl. folded cs ws v (CHR 0x0A # tl) \<and> Q v tl)" (is "?F \<longleftrightarrow> ?F'")
proof
  assume ?F
  then obtain ws v tl where "c # cs = line_text (Fold ws v) @ tl \<and> line_ok hs (Fold ws v) \<and> Q v tl" by blast
  then show ?F' by (cases ws) (auto simp: crlf_def folded_def blanks_def unblank_def)
next
  assume ?F'
  then obtain ws v tl where "folded cs ws v (CHR 0x0A # tl)" "Q v tl" "hs \<noteq> []" "c = CHR '' '' \<or> c = CHR 0x09" by blast
  then have "c # cs = line_text (Fold (c # ws) v) @ tl \<and> line_ok hs (Fold (c # ws) v) \<and> Q v tl"
    by (auto simp: crlf_def folded_def blanks_def unblank_def)
  then show ?F by blast
qed

lemma field_line:
  "(\<exists>n v tl. c # cs = line_text (Field n v) @ tl \<and> line_ok hs (Field n v) \<and> Q n v tl) \<longleftrightarrow>
     token_char c \<and> (\<exists>n v tl. cs = n @ CHR '':'' # CHR '' '' # v @ CHR 0x0D # CHR 0x0A # tl \<and> list_all token_char n \<and> visible v \<and> Q (c # n) v tl)"
  (is "?G \<longleftrightarrow> ?G'")
proof
  assume ?G
  then obtain n v tl where "c # cs = line_text (Field n v) @ tl \<and> line_ok hs (Field n v) \<and> Q n v tl" by blast
  then show ?G' by (cases n) (auto simp: crlf_def http_token_def)
next
  assume ?G'
  then obtain n v tl where "cs = n @ CHR '':'' # CHR '' '' # v @ CHR 0x0D # CHR 0x0A # tl" "list_all token_char (c # n)" "visible v"
    "Q (c # n) v tl" by auto
  then have "c # cs = line_text (Field (c # n) v) @ tl \<and> line_ok hs (Field (c # n) v) \<and> Q (c # n) v tl" by (simp add: crlf_def http_token_def)
  then show ?G by blast
qed

lemma accepts_field:
  assumes "token_char c"
  shows "accepts Header_line_start req (c # cs) r rest \<longleftrightarrow>
    (\<exists>n v tl. cs = n @ CHR '':'' # CHR '' '' # v @ CHR 0x0D # CHR 0x0A # tl \<and> list_all token_char n \<and> visible v \<and>
       accepts Header_line_start (req\<lparr>req_headers := req_headers req @ [\<lparr>hdr_name = c # n, hdr_value = v\<rparr>]\<rparr>) tl r rest)"
proof -
  let ?new = "req\<lparr>req_headers := req_headers req @ [\<lparr>hdr_name = [], hdr_value = []\<rparr>]\<rparr>"
  have c: "c \<noteq> CHR 0x0D" "c \<noteq> CHR '' ''" "c \<noteq> CHR 0x09" using assms by auto
  have new: "req_headers (more_name ?new w) \<noteq> []" "req_headers (more_name (more_name ?new [c]) w) \<noteq> []" "push_name c ?new = Inr (more_name ?new [c])"
    "more_value (more_name (more_name ?new [c]) n) v = req\<lparr>req_headers := req_headers req @ [\<lparr>hdr_name = c # n, hdr_value = v\<rparr>]\<rparr>" for w n v
    by (simp_all add: more_name_def more_value_def push_name_def)
  have "accepts Header_line_start req (c # cs) r rest \<longleftrightarrow> accepts Header_name (more_name ?new [c]) cs r rest"
    using assms c new(3) by (simp add: accepts_Cons)
  also have "\<dots> \<longleftrightarrow> (\<exists>n tl. cs = n @ CHR '':'' # CHR '' '' # tl \<and> list_all token_char n \<and>
      accepts Header_value (more_name (more_name ?new [c]) n) tl r rest)"
    by (subst accepts_name [OF new(1)]) (auto simp: accepts_newline)
  also have "\<dots> \<longleftrightarrow> (\<exists>n v tl. cs = n @ CHR '':'' # CHR '' '' # v @ CHR 0x0D # CHR 0x0A # tl \<and> list_all token_char n \<and> visible v \<and>
      accepts Header_line_start (more_value (more_name (more_name ?new [c]) n) v) tl r rest)"
    by (auto simp: accepts_value [OF new(2)] accepts_newline) blast
  finally show ?thesis unfolding new(4) .
qed

lemma accepts_line:
  "accepts Header_line_start req cs r rest \<longleftrightarrow>
     cs = crlf @ rest \<and> r = req \<or>
     (\<exists>l tl. cs = line_text l @ tl \<and> line_ok (req_headers req) l \<and>
        accepts Header_line_start (req\<lparr>req_headers := add_line l (req_headers req)\<rparr>) tl r rest)"
  (is "?L \<longleftrightarrow> ?E \<or> (\<exists>l tl. ?l l tl)")
proof (cases cs)
  case (Cons c cs')
  have "(\<exists>l tl. ?l l tl) \<longleftrightarrow> (\<exists>n v tl. ?l (Field n v) tl) \<or> (\<exists>ws v tl. ?l (Fold ws v) tl)" by (metis line.exhaust)
  also have "\<dots> \<longleftrightarrow> token_char c \<and> ?L \<or> req_headers req \<noteq> [] \<and> (c = CHR '' '' \<or> c = CHR 0x09) \<and> ?L"
  proof -
    have "(\<exists>ws v tl. ?l (Fold ws v) tl) \<longleftrightarrow> req_headers req \<noteq> [] \<and> (c = CHR '' '' \<or> c = CHR 0x09) \<and> ?L"
      using accepts_lws [of req cs' r rest]
      by (auto simp only: Cons fold_line add_line.simps) (auto simp: accepts_Cons accepts_newline more_value_def)
    moreover have "(\<exists>n v tl. ?l (Field n v) tl) \<longleftrightarrow> token_char c \<and> ?L"
      using accepts_field [of c req cs' r rest] by (simp only: Cons field_line add_line.simps) blast
    ultimately show ?thesis by blast
  qed
  finally have *: "(\<exists>l tl. ?l l tl) \<longleftrightarrow> token_char c \<and> ?L \<or> req_headers req \<noteq> [] \<and> (c = CHR '' '' \<or> c = CHR 0x09) \<and> ?L" .
  have "c = CHR 0x0D \<Longrightarrow> ?L \<longleftrightarrow> ?E" using Cons by (auto simp: accepts_Cons accepts_newline crlf_def)
  moreover have "?L \<Longrightarrow> c = CHR 0x0D \<or> token_char c \<or> req_headers req \<noteq> [] \<and> (c = CHR '' '' \<or> c = CHR 0x09)"
    using Cons by (auto simp: accepts_Cons split: if_splits)
  moreover have "?E \<Longrightarrow> c = CHR 0x0D" using Cons by (simp add: crlf_def)
  moreover have "\<not> token_char CHR 0x0D" "CHR 0x0D \<noteq> CHR '' ''" "CHR 0x0D \<noteq> CHR 0x09" by simp_all
  ultimately show ?thesis unfolding * by blast
qed (auto simp: crlf_def http_token_def elim!: line_ok.elims)

definition header_block :: "line list \<Rightarrow> header list \<Rightarrow> header list" where
  "header_block ls hs = fold add_line ls hs"

lemma accepts_headers:
  "accepts Header_line_start req cs r rest \<longleftrightarrow>
     (\<exists>ls. lines_ok (req_headers req) ls \<and> cs = concat (map line_text ls) @ crlf @ rest \<and>
        r = req\<lparr>req_headers := header_block ls (req_headers req)\<rparr>)" (is "?L \<longleftrightarrow> (\<exists>ls. ?R req cs ls)")
proof (induction "length cs" arbitrary: cs req rule: less_induct)
  case less
  have shorter: "length tl < length (line_text l @ tl)" for l tl by (cases l) (simp_all add: crlf_def)
  have IH: "cs = line_text l @ tl \<Longrightarrow> accepts Header_line_start (req\<lparr>req_headers := add_line l (req_headers req)\<rparr>) tl r rest \<longleftrightarrow>
      (\<exists>ls. ?R (req\<lparr>req_headers := add_line l (req_headers req)\<rparr>) tl ls)" for l tl
    by (rule less) (use shorter in simp)
  have "(\<exists>ls. ?R req cs ls) \<longleftrightarrow> ?R req cs [] \<or> (\<exists>l ls. ?R req cs (l # ls))" by (metis list.exhaust)
  also have "\<dots> \<longleftrightarrow> cs = crlf @ rest \<and> r = req \<or> (\<exists>l tl. cs = line_text l @ tl \<and> line_ok (req_headers req) l \<and>
      (\<exists>ls. ?R (req\<lparr>req_headers := add_line l (req_headers req)\<rparr>) tl ls))"
    by (auto simp: header_block_def)
  also have "\<dots> \<longleftrightarrow> accepts Header_line_start req cs r rest" unfolding accepts_line [of req cs] using IH by blast
  finally show ?case by blast
qed

section \<open>The grammar is what the parser accepts\<close>

lemma parse_Good_state: "parse req st cs = Inr (Good, st', r, rest) \<Longrightarrow> st' = Expecting_newline_3"
proof (induction cs arbitrary: req st)
  case (Cons c cs)
  then show ?case by (cases st) (auto simp: rbind_Inr on_char_def split: if_splits)
qed simp

definition parsed :: "string \<Rightarrow> string \<Rightarrow> string \<Rightarrow> string \<Rightarrow> line list \<Rightarrow> request" where
  "parsed m u major minor ls = \<lparr>req_method = m, req_uri = u, http_version_major = digit_value major, http_version_minor = digit_value minor,
     req_headers = header_block ls []\<rparr>"

lemma accepts_blank:
  "accepts Method_start blank_request cs r rest \<longleftrightarrow>
     (\<exists>m u major minor ls. http_token m \<and> uri_text u \<and> version_number major \<and> version_number minor \<and> lines_ok [] ls \<and>
        cs = request_text m u major minor ls @ rest \<and> r = parsed m u major minor ls)"
  (is "?L \<longleftrightarrow> ?R")
proof -
  have "?L \<longleftrightarrow> (\<exists>m t1. cs = m @ CHR '' '' # t1 \<and> http_token m \<and> (\<exists>u t2. t1 = u @ CHR '' '' # t2 \<and> uri_text u \<and>
      (\<exists>t3. t2 = ''HTTP/'' @ t3 \<and> (\<exists>major t4. t3 = major @ CHR ''.'' # t4 \<and> version_number major \<and>
        (\<exists>minor t5. t4 = minor @ CHR 0x0D # t5 \<and> version_number minor \<and> (\<exists>t6. t5 = CHR 0x0A # t6 \<and>
          (\<exists>ls. lines_ok [] ls \<and> t6 = concat (map line_text ls) @ crlf @ rest \<and> r = parsed m u major minor ls)))))))"
    by (simp add: accepts_method_start accepts_uri accepts_http accepts_major accepts_minor accepts_newline accepts_headers
        blank_request_def parsed_def)
  also have "\<dots> \<longleftrightarrow> ?R" (is "?M \<longleftrightarrow> _")
  proof
    assume ?M
    then show ?R by (elim exE conjE, intro exI conjI) (assumption | simp add: request_text_def crlf_def)+
  next
    assume ?R
    then show ?M by (elim exE conjE, intro exI conjI) (assumption | simp add: request_text_def crlf_def)+
  qed
  finally show ?thesis .
qed

section \<open>Input in pieces\<close>

text \<open>A connection hands the parser one piece after the other until there is a result.\<close>

fun parse_pieces :: "request \<Rightarrow> parser_state \<Rightarrow> string list \<Rightarrow> (result_type \<times> parser_state \<times> request) result" where
  "parse_pieces req st [] = Inr (Indeterminate, st, req)"
| "parse_pieces req st (p # ps) = rbind (parse req st p) (\<lambda>(res, st1, req1, _).
     if res = Indeterminate then parse_pieces req1 st1 ps else Inr (res, st1, req1))"

lemma parse_append:
  "parse req st (xs @ ys) = rbind (parse req st xs) (\<lambda>(res, st1, req1, rest).
     if res = Indeterminate then parse req1 st1 ys else Inr (res, st1, req1, rest @ ys))"
proof (induction xs arbitrary: req st)
  case (Cons c xs)
  show ?case
  proof (cases "consume req st c")
    case (Inr x)
    obtain res st1 req1 where x: "x = (res, st1, req1)" by (cases x)
    then show ?thesis using Inr Cons.IH [of req1 st1] by (cases res) simp_all
  qed simp
qed simp

lemma parse_pieces_concat:
  "parse_pieces req st ps = rbind (parse req st (concat ps)) (\<lambda>(res, st1, req1, _). Inr (res, st1, req1))"
proof (induction ps arbitrary: req st)
  case (Cons p ps)
  show ?case
  proof (cases "parse req st p")
    case (Inr x)
    obtain res st1 req1 rest where x: "x = (res, st1, req1, rest)" by (cases x)
    then show ?thesis using Inr Cons.IH [of req1 st1] by (cases res) (simp_all add: parse_append)
  qed (simp add: parse_append)
qed simp

text \<open>
  C26. The state machine and the grammar are equivalent: whatever the pieces in which the bytes of a
  connection arrive, the parser reports a complete request exactly when they begin with the text of a
  request of the grammar (a method token, a target, a version below the integer limit, header lines
  and lines that continue them, each ended by a line break), and it hands over exactly the method,
  the target, the version and the headers of that request.
\<close>
theorem request_grammar:
  "(\<exists>st. parse_pieces blank_request Method_start pieces = Inr (Good, st, r)) \<longleftrightarrow>
     (\<exists>m u major minor ls rest. http_token m \<and> uri_text u \<and> version_number major \<and> version_number minor \<and> lines_ok [] ls \<and>
        concat pieces = request_text m u major minor ls @ rest \<and> r = parsed m u major minor ls)"
proof -
  have "(\<exists>st. parse_pieces blank_request Method_start pieces = Inr (Good, st, r)) \<longleftrightarrow>
      (\<exists>st rest. parse blank_request Method_start (concat pieces) = Inr (Good, st, r, rest))"
    by (auto simp: parse_pieces_concat rbind_Inr)
  also have "\<dots> \<longleftrightarrow> (\<exists>rest. accepts Method_start blank_request (concat pieces) r rest)"
    unfolding accepts_def using parse_Good_state by blast
  finally show ?thesis unfolding accepts_blank by blast
qed

end
