(* ===== verification/Whookie_Server.thy ===== *)
theory Whookie_Server
  imports Http_Request Config_Settings
begin

text \<open>
  The whookie web service (\<^verbatim>\<open>whookie/server/boost\<close> and \<^verbatim>\<open>whookie/client\<close>): how a request is decoded and handed to a
  registered hook, how the reply is written, what a connection does with the pieces it reads, and what
  the client makes of the reply.  Hooks are functions of their arguments and of the state of the
  application; the operating system's answers to a request to listen and its list of network
  interfaces are parameters, and the event loop is not modelled.
\<close>

section \<open>Decoding\<close>

text \<open>
  Reading a hexadecimal integer from a stream of two characters: blanks are skipped, a sign is taken,
  a second character that is no digit is left over, and the prefix \<^verbatim>\<open>0x\<close> alone is no number.
\<close>
definition hex_pair :: "char \<Rightarrow> char \<Rightarrow> int option" where
  "hex_pair a b =
     (if isspace a then (if isxdigit b then Some (int (digit_val b)) else None)
      else if a = CHR ''-'' then (if isxdigit b then Some (- int (digit_val b)) else None)
      else if a = CHR ''+'' then (if isxdigit b then Some (int (digit_val b)) else None)
      else if \<not> isxdigit a then None
      else if isxdigit b then Some (int (digit_val a) * 16 + int (digit_val b))
      else if a = CHR ''0'' \<and> (b = CHR ''x'' \<or> b = CHR ''X'') then None
      else Some (int (digit_val a)))"

fun url_decode :: "string \<Rightarrow> string option" where
  "url_decode [] = Some []"
| "url_decode (c # s) =
     (if c = CHR ''%'' then
        (case s of
           a # b # s' \<Rightarrow> (case hex_pair a b of
              Some v \<Rightarrow> map_option (\<lambda>out. char_of (nat (v mod 256)) # out) (url_decode s') | None \<Rightarrow> None)
         | _ \<Rightarrow> None)
      else map_option (\<lambda>out. (if c = CHR ''+'' then CHR '' '' else c) # out) (url_decode s))"

definition splitString :: "string \<Rightarrow> char \<Rightarrow> string \<times> string" where
  "splitString item delim = (case break_at delim item of None \<Rightarrow> (item, []) | Some (a, b) \<Rightarrow> (a, b))"

definition add_arg :: "string \<Rightarrow> (string, string) omap \<Rightarrow> (string, string) omap" where
  "add_arg item m = (if item = [] then m else let (k, v) = splitString item CHR ''='' in om_set k v m)"

function parseArgString_loop :: "string \<Rightarrow> (string, string) omap \<Rightarrow> (string, string) omap" where
  "parseArgString_loop args m = (case break_at CHR ''&'' args of
     Some (item, rest) \<Rightarrow> parseArgString_loop rest (add_arg item m)
   | None \<Rightarrow> add_arg args m)"
  by pat_completeness auto
termination by (relation "measure (length \<circ> fst)") (auto dest: break_at_length)

declare parseArgString_loop.simps [simp del]

definition parseArgString :: "string \<Rightarrow> (string, string) omap" where
  "parseArgString args = parseArgString_loop args []"

section \<open>Replies\<close>

datatype status_type = Ok | Created | Accepted | No_content | Multiple_choices | Moved_permanently | Moved_temporarily | Not_modified
  | Bad_request | Unauthorized | Forbidden | Not_found | Internal_server_error | Not_implemented | Bad_gateway | Service_unavailable

record reply =
  rep_status :: status_type
  rep_headers :: "header list"
  rep_content :: string

fun status_line :: "status_type \<Rightarrow> string" where
  "status_line Ok = ''HTTP/1.0 200 OK'' @ crlf"
| "status_line Created = ''HTTP/1.0 201 Created'' @ crlf"
| "status_line Accepted = ''HTTP/1.0 202 Accepted'' @ crlf"
| "status_line No_content = ''HTTP/1.0 204 No Content'' @ crlf"
| "status_line Multiple_choices = ''HTTP/1.0 300 Multiple Choices'' @ crlf"
| "status_line Moved_permanently = ''HTTP/1.0 301 Moved Permanently'' @ crlf"
| "status_line Moved_temporarily = ''HTTP/1.0 302 Moved Temporarily'' @ crlf"
| "status_line Not_modified = ''HTTP/1.0 304 Not Modified'' @ crlf"
| "status_line Bad_request = ''HTTP/1.0 400 Bad Request'' @ crlf"
| "status_line Unauthorized = ''HTTP/1.0 401 Unauthorized'' @ crlf"
| "status_line Forbidden = ''HTTP/1.0 403 Forbidden'' @ crlf"
| "status_line Not_found = ''HTTP/1.0 404 Not Found'' @ crlf"
| "status_line Internal_server_error = ''HTTP/1.0 500 Internal Server Error'' @ crlf"
| "status_line Not_implemented = ''HTTP/1.0 501 Not Implemented'' @ crlf"
| "status_line Bad_gateway = ''HTTP/1.0 502 Bad Gateway'' @ crlf"
| "status_line Service_unavailable = ''HTTP/1.0 503 Service Unavailable'' @ crlf"

definition stock_page :: "string \<Rightarrow> string \<Rightarrow> string" where
  "stock_page title heading = ''<html>'' @ ''<head><title>'' @ title @ ''</title></head>'' @ ''<body><h1>'' @ heading @ ''</h1></body>'' @ ''</html>''"

fun stock_content :: "status_type \<Rightarrow> string" where
  "stock_content Ok = []"
| "stock_content Created = stock_page ''Created'' ''201 Created''"
| "stock_content Accepted = stock_page ''Accepted'' ''202 Accepted''"
| "stock_content No_content = stock_page ''No Content'' ''204 Content''"
| "stock_content Multiple_choices = stock_page ''Multiple Choices'' ''300 Multiple Choices''"
| "stock_content Moved_permanently = stock_page ''Moved Permanently'' ''301 Moved Permanently''"
| "stock_content Moved_temporarily = stock_page ''Moved Temporarily'' ''302 Moved Temporarily''"
| "stock_content Not_modified = stock_page ''Not Modified'' ''304 Not Modified''"
| "stock_content Bad_request = stock_page ''Bad Request'' ''400 Bad Request''"
| "stock_content Unauthorized = stock_page ''Unauthorized'' ''401 Unauthorized''"
| "stock_content Forbidden = stock_page ''Forbidden'' ''403 Forbidden''"
| "stock_content Not_found = stock_page ''Not Found'' ''404 Not Found''"
| "stock_content Internal_server_error = stock_page ''Internal Server Error'' ''500 Internal Server Error''"
| "stock_content Not_implemented = stock_page ''Not Implemented'' ''501 Not Implemented''"
| "stock_content Bad_gateway = stock_page ''Bad Gateway'' ''502 Bad Gateway''"
| "stock_content Service_unavailable = stock_page ''Service Unavailable'' ''503 Service Unavailable''"

text \<open>What goes over the wire.\<close>

definition header_text :: "header \<Rightarrow> string" where
  "header_text h = hdr_name h @ '': '' @ hdr_value h @ crlf"

definition to_buffers :: "reply \<Rightarrow> string" where
  "to_buffers rep = status_line (rep_status rep) @ concat (map header_text (rep_headers rep)) @ crlf @ rep_content rep"

definition content_headers :: "string \<Rightarrow> string \<Rightarrow> header list" where
  "content_headers content mime =
     [\<lparr>hdr_name = ''Content-Length'', hdr_value = dec_of_nat (length content)\<rparr>, \<lparr>hdr_name = ''Content-Type'', hdr_value = mime\<rparr>]"

definition stock_reply :: "status_type \<Rightarrow> reply" where
  "stock_reply status = \<lparr>rep_status = status, rep_headers = content_headers (stock_content status) ''text/html'', rep_content = stock_content status\<rparr>"

definition mime_mappings :: "(string \<times> string) list" where
  "mime_mappings = [(''gif'', ''image/gif''), (''htm'', ''text/html''), (''html'', ''text/html''), (''jpg'', ''image/jpeg''), (''png'', ''image/png'')]"

definition extension_to_type :: "string \<Rightarrow> string" where
  "extension_to_type extension = (case map_of mime_mappings extension of Some t \<Rightarrow> t | None \<Rightarrow> ''text/plain'')"

section \<open>Hooks\<close>

type_synonym 'st hook = "(string, string) omap \<Rightarrow> 'st \<Rightarrow> string \<times> 'st"

record 'st request_handler =
  handler_app_name :: string
  cbs :: "(string, 'st hook) omap"

definition registerHook :: "string \<Rightarrow> 'st hook \<Rightarrow> 'st request_handler \<Rightarrow> int \<times> 'st request_handler" where
  "registerHook name func h = (case om_get (cbs h) name of
     None \<Rightarrow> (0, h\<lparr>cbs := om_set name func (cbs h)\<rparr>) | Some _ \<Rightarrow> (-1, h))"

definition updateHook :: "string \<Rightarrow> 'st hook \<Rightarrow> 'st request_handler \<Rightarrow> int \<times> 'st request_handler" where
  "updateHook name func h = (0, h\<lparr>cbs := om_set name func (cbs h)\<rparr>)"

definition deregisterHook :: "string \<Rightarrow> 'st request_handler \<Rightarrow> int \<times> 'st request_handler" where
  "deregisterHook name h = (if om_get (cbs h) name = None then -1 else 0, h\<lparr>cbs := om_del name (cbs h)\<rparr>)"

definition updateAppName :: "string \<Rightarrow> 'st request_handler \<Rightarrow> int \<times> 'st request_handler" where
  "updateAppName name h = (0, h\<lparr>handler_app_name := name\<rparr>)"

text \<open>The built-in pages are parameters: they only print.\<close>

definition new_request_handler :: "'st hook \<Rightarrow> 'st hook \<Rightarrow> 'st hook \<Rightarrow> 'st request_handler" where
  "new_request_handler handles about process_info =
     snd (registerHook ''/proc'' process_info (snd (registerHook ''/about'' about (snd (registerHook ''/'' handles \<lparr>handler_app_name = [], cbs = []\<rparr>)))))"

fun has_dots :: "string \<Rightarrow> bool" where
  "has_dots (a # b # s) = (a = CHR ''.'' \<and> b = CHR ''.'' \<or> has_dots (b # s))"
| "has_dots _ = False"

definition handle_request :: "'st request_handler \<Rightarrow> request \<Rightarrow> reply \<Rightarrow> 'st \<Rightarrow> reply \<times> 'st" where
  "handle_request h req rep st =
     (case url_decode (req_uri req) of
        None \<Rightarrow> (stock_reply Bad_request, st)
      | Some request_path \<Rightarrow>
          if request_path = [] \<or> hd request_path \<noteq> CHR ''/'' \<or> has_dots request_path then (stock_reply Bad_request, st)
          else
            let (tag, args) = (case break_at CHR ''&'' request_path of None \<Rightarrow> (request_path, []) | Some (a, b) \<Rightarrow> (a, b)) in
            case om_get (cbs h) tag of
              None \<Rightarrow> (rep\<lparr>rep_status := Not_found\<rparr>, st)
            | Some f \<Rightarrow>
                let (content, st1) = f (parseArgString args) st in
                (\<lparr>rep_status = Ok, rep_headers = content_headers content (extension_to_type ''html''), rep_content = content\<rparr>, st1))"

section \<open>Connections\<close>

record connection =
  conn_parser :: parser_state
  conn_request :: request
  conn_reply :: reply

definition new_connection :: "status_type \<Rightarrow> connection" where
  "new_connection unset = \<lparr>conn_parser = Method_start, conn_request = blank_request, conn_reply = \<lparr>rep_status = unset, rep_headers = [], rep_content = []\<rparr>\<rparr>"

text \<open>One piece that has been read: the connection either writes its reply and closes, or reads on.\<close>

definition do_read :: "'st request_handler \<Rightarrow> string \<Rightarrow> connection \<Rightarrow> 'st \<Rightarrow> (string option \<times> connection \<times> 'st) result" where
  "do_read h piece conn st =
     rbind (parse (conn_request conn) (conn_parser conn) piece) (\<lambda>(res, ps, req, _).
       let conn1 = conn\<lparr>conn_parser := ps, conn_request := req\<rparr> in
       case res of
         Good \<Rightarrow> let (rep, st1) = handle_request h req (conn_reply conn1) st in Inr (Some (to_buffers rep), conn1\<lparr>conn_reply := rep\<rparr>, st1)
       | Bad \<Rightarrow> Inr (Some (to_buffers (stock_reply Bad_request)), conn1\<lparr>conn_reply := stock_reply Bad_request\<rparr>, st)
       | Indeterminate \<Rightarrow> Inr (None, conn1, st))"

fun serve :: "'st request_handler \<Rightarrow> string list \<Rightarrow> connection \<Rightarrow> 'st \<Rightarrow> (string option \<times> connection \<times> 'st) result" where
  "serve h [] conn st = Inr (None, conn, st)"
| "serve h (p # ps) conn st = rbind (do_read h p conn st) (\<lambda>(out, conn1, st1).
     case out of Some text \<Rightarrow> Inr (Some text, conn1, st1) | None \<Rightarrow> serve h ps conn1 st1)"

section \<open>Starting and stopping\<close>

text \<open>The request handler is part of the resources that \<^verbatim>\<open>asio_\<close> points to; \<^term>\<open>None\<close> is a pointer that must not be used.\<close>

record 'st server =
  server_configured :: bool
  server_port :: u32
  num_starters :: int
  my_nodeid :: nodeid_t
  server_app_name :: string
  requested_address :: string
  requested_port :: u32
  asio :: "'st request_handler option"

definition new_server :: "'st server" where
  "new_server = \<lparr>server_configured = False, server_port = 0, num_starters = 0, my_nodeid = NODE_UNSPECIFIED, server_app_name = [],
     requested_address = [], requested_port = 0, asio = None\<rparr>"

definition with_handler :: "('st request_handler \<Rightarrow> int \<times> 'st request_handler) \<Rightarrow> 'st server \<Rightarrow> (int \<times> 'st server) result" where
  "with_handler f s = (case asio s of None \<Rightarrow> Inl Undefined_behaviour | Some h \<Rightarrow> Inr (fst (f h), s\<lparr>asio := Some (snd (f h))\<rparr>))"

definition server_updateAppName :: "string \<Rightarrow> 'st server \<Rightarrow> (int \<times> 'st server) result" where
  "server_updateAppName name s = with_handler (updateAppName name) (s\<lparr>server_app_name := name\<rparr>)"

definition server_registerHook :: "string \<Rightarrow> 'st hook \<Rightarrow> 'st server \<Rightarrow> (int \<times> 'st server) result" where
  "server_registerHook name func s = with_handler (registerHook name func) s"

definition server_updateHook :: "string \<Rightarrow> 'st hook \<Rightarrow> 'st server \<Rightarrow> (int \<times> 'st server) result" where
  "server_updateHook name func s = with_handler (updateHook name func) s"

definition server_deregisterHook :: "string \<Rightarrow> 'st server \<Rightarrow> (int \<times> 'st server) result" where
  "server_deregisterHook name s = with_handler (deregisterHook name) s"

text \<open>
  \<open>listen\<close> is the operating system's answer to a request to listen on an address and a port: the end point it
  opened, or a failure.  The search goes on for ever when it opens none.
\<close>
type_synonym listener = "string \<Rightarrow> u32 \<Rightarrow> (u32 \<times> u16) option"

partial_function (option) find_port :: "listener \<Rightarrow> string \<Rightarrow> u32 \<Rightarrow> (u32 \<times> u32 \<times> u16) option" where
  "find_port listen address port =
     (case listen address port of Some endpoint \<Rightarrow> Some (port, endpoint) | None \<Rightarrow> find_port listen address (port + 1))"

definition server_start :: "listener \<Rightarrow> string \<Rightarrow> u32 \<Rightarrow> 'st server \<Rightarrow> (u32 \<times> 'st server) option result" where
  "server_start listen address port s =
     (let s1 = s\<lparr>num_starters := num_starters s + 1\<rparr> in
      if server_configured s1 then Inr (Some (server_port s1, s1))
      else if asio s1 = None then Inl Undefined_behaviour
      else Inr (map_option (\<lambda>(p, ip, local_port). (p, s1\<lparr>server_configured := True, server_port := p, my_nodeid := makeNodeID ip local_port\<rparr>))
                  (find_port listen address port)))"

definition server_stop :: "'st server \<Rightarrow> int \<times> 'st server" where
  "server_stop s =
     (let s1 = (if num_starters s \<noteq> 0
                then let s2 = s\<lparr>num_starters := num_starters s - 1\<rparr> in
                     if num_starters s2 = 0 then s2\<lparr>asio := None, server_configured := False\<rparr> else s2
                else s)
      in (num_starters s1, s1))"

definition IsRunning :: "'st server \<Rightarrow> bool" where
  "IsRunning s = server_configured s"

text \<open>The network interfaces in the order the operating system lists them: name and, for an IPv4 address that can be printed, its text.\<close>

definition search_interfaces :: "(string \<times> string option) list \<Rightarrow> string \<Rightarrow> string" where
  "search_interfaces ifaddrs interfaces =
     (case concat (map (\<lambda>i. concat (map (\<lambda>(name, host). case host of Some a \<Rightarrow> if prefix i name then [a] else [] | None \<Rightarrow> []) ifaddrs))
             (Split interfaces CHR '','' True)) of
        [] \<Rightarrow> [] | a # _ \<Rightarrow> a)"

text \<open>
  Initialisation starts the service.  A port in the configuration that is no number leaves the
  variable for it unset.  The two pages that show the configuration and the bootstraps are parameters.
\<close>
definition server_InitAndModifyConfiguration ::
  "(string \<times> string option) list \<Rightarrow> listener \<Rightarrow> 'st request_handler \<Rightarrow> 'st hook \<Rightarrow> 'st hook \<Rightarrow> Configuration \<Rightarrow> 'st server \<Rightarrow>
   (u32 \<times> 'st server) option result" where
  "server_InitAndModifyConfiguration ifaddrs listen handler config_page bootstrap_page cfg s =
     rbind (config_GetInt ''whookie.port'' ''1990'' cfg) (\<lambda>(_, port).
       case port of
         None \<Rightarrow> Inl Undefined_behaviour
       | Some port \<Rightarrow>
           let app = snd (config_GetString ''whookie.app_name'' ''Whookie Application'' cfg);
               address = snd (GetLowercaseString ''whookie.address'' ''0.0.0.0'' cfg);
               interfaces = snd (GetLowercaseString ''whookie.interfaces'' ''eth,lo'' cfg);
               interface_address = search_interfaces ifaddrs interfaces;
               address1 = (if address = ''0.0.0.0'' \<and> interface_address \<noteq> [] then interface_address else address)
           in rbind (server_updateHook ''/config'' config_page
                       (s\<lparr>requested_address := address1, requested_port := word_of_int port, asio := Some handler\<rparr>)) (\<lambda>(_, s1).
              rbind (server_updateHook ''/bootstraps'' bootstrap_page s1) (\<lambda>(_, s2).
              rbind (server_updateAppName app s2) (\<lambda>(_, s3).
                server_start listen (requested_address s3) (requested_port s3) s3))))"

section \<open>The client\<close>

definition client_request :: "string \<Rightarrow> string \<Rightarrow> string" where
  "client_request server path =
     ''GET '' @ path @ '' HTTP/1.0'' @ crlf @ ''Host: '' @ server @ crlf @ ''Accept: */*'' @ crlf @ ''Connection: close'' @ crlf @ crlf"

fun find_text :: "string \<Rightarrow> string \<Rightarrow> (string \<times> string) option" where
  "find_text pat [] = (if pat = [] then Some ([], []) else None)"
| "find_text pat (c # s) = (if take (length pat) (c # s) = pat then Some ([], drop (length pat) (c # s))
     else map_option (\<lambda>(a, b). (c # a, b)) (find_text pat s))"

definition read_word :: "string \<Rightarrow> string \<times> string" where
  "read_word s = (let s1 = skip_space s in (takeWhile (\<lambda>c. \<not> isspace c) s1, dropWhile (\<lambda>c. \<not> isspace c) s1))"

definition read_unsigned :: "string \<Rightarrow> (nat \<times> string) option" where
  "read_unsigned s = (let (neg, s1) = take_sign (skip_space s); ds = lead_digits 10 s1; n = from_base 10 ds in
     if ds = [] \<or> n \<ge> 2 ^ 32 then None else Some (if neg then (2 ^ 32 - n) mod 2 ^ 32 else n, drop (length ds) s1))"

definition read_line :: "string \<Rightarrow> string \<times> string" where
  "read_line s = (case break_at CHR 0x0A s of Some (a, b) \<Rightarrow> (a, b) | None \<Rightarrow> (s, []))"

text \<open>The header lines are read and dropped.\<close>

function skip_headers :: "string \<Rightarrow> string" where
  "skip_headers s = (case break_at CHR 0x0A s of
     None \<Rightarrow> [] | Some (a, b) \<Rightarrow> if a = [CHR 0x0D] then b else skip_headers b)"
  by pat_completeness auto
termination by (relation "measure length") (auto dest: break_at_length)

declare skip_headers.simps [simp del]

text \<open>
  What the client makes of everything the server sends before it closes.  There is no answer when the
  first line has less than two words: then it depends on how much has arrived.
\<close>
definition client_response :: "string \<Rightarrow> (int \<times> string option) option" where
  "client_response response =
     (case find_text crlf response of
        None \<Rightarrow> Some (-3, None)
      | Some (line, _) \<Rightarrow>
          let (http_version, s1) = read_word response in
          if fst (read_word (snd (read_word line))) = [] then None
          else case read_unsigned s1 of
            None \<Rightarrow> Some (-1, None)
          | Some (status_code, s2) \<Rightarrow>
              let (_, s3) = read_line s2 in
              if take 5 http_version \<noteq> ''HTTP/'' then Some (-1, None)
              else if status_code \<noteq> 200 then Some (-2, None)
              else if find_text (crlf @ crlf) s3 = None then Some (-3, None)
              else Some (0, Some (skip_headers s3)))"

section \<open>From the client to the hook and back\<close>

text \<open>
  The text of a tag and its arguments, and the texts on the wire that stand for a text: a plus sign
  stands for a blank, \<^verbatim>\<open>%\<close> with two hexadecimal digits for the character they number, and every
  character other than those two for itself.
\<close>
fun args_text :: "(string \<times> string) list \<Rightarrow> string" where
  "args_text [] = []"
| "args_text ((k, v) # kvs) = CHR ''&'' # k @ CHR ''='' # v @ args_text kvs"

definition arg_ok :: "string \<times> string \<Rightarrow> bool" where
  "arg_ok kv = (CHR ''&'' \<notin> set (fst kv) \<and> CHR ''='' \<notin> set (fst kv) \<and> CHR ''&'' \<notin> set (snd kv))"

inductive encodes :: "string \<Rightarrow> string \<Rightarrow> bool" where
  enc_end: "encodes [] []"
| enc_plain: "c \<noteq> CHR ''%'' \<Longrightarrow> c \<noteq> CHR ''+'' \<Longrightarrow> encodes w s \<Longrightarrow> encodes (c # w) (c # s)"
| enc_blank: "encodes w s \<Longrightarrow> encodes (CHR ''+'' # w) (CHR '' '' # s)"
| enc_hex: "isxdigit a \<Longrightarrow> isxdigit b \<Longrightarrow> ord c = 16 * digit_val a + digit_val b \<Longrightarrow> encodes w s \<Longrightarrow>
     encodes (CHR ''%'' # a # b # w) (c # s)"

lemma hex_pair_digits:
  assumes "isxdigit a" "isxdigit b"
  shows "hex_pair a b = Some (16 * int (digit_val a) + int (digit_val b))"
proof -
  have "\<not> isspace a" "a \<noteq> CHR ''-''" "a \<noteq> CHR ''+''"
    using assms(1) by (auto simp: isxdigit_def isspace_def isdigit_def ord_def)
  then show ?thesis using assms by (simp add: hex_pair_def)
qed

lemma url_decode_encodes: "encodes w s \<Longrightarrow> url_decode w = Some s"
proof (induction rule: encodes.induct)
  case (enc_hex a b c w s)
  have "ord c < 256" by (simp add: ord_def)
  then have "(16 * int (digit_val a) + int (digit_val b)) mod 256 = int (ord c)" unfolding enc_hex(3) by simp
  then show ?case using enc_hex(5) hex_pair_digits [OF enc_hex(1,2)] by (simp add: ord_def)
qed simp_all

lemma add_arg_item: "CHR ''='' \<notin> set k \<Longrightarrow> add_arg (k @ CHR ''='' # v) m = om_set k v m"
  by (simp add: add_arg_def splitString_def)

lemma parse_args:
  "list_all arg_ok kvs \<Longrightarrow> kvs \<noteq> [] \<Longrightarrow> parseArgString_loop (tl (args_text kvs)) m = fold (\<lambda>(k, v). om_set k v) kvs m"
proof (induction kvs arbitrary: m rule: args_text.induct)
  case (2 k v kvs)
  have k: "CHR ''='' \<notin> set k" "CHR ''&'' \<notin> set (k @ CHR ''='' # v)" using 2(2) by (auto simp: arg_ok_def)
  show ?case
  proof (cases kvs)
    case Nil
    then show ?thesis using k(2) break_at_None [of "CHR ''&''" "k @ CHR ''='' # v"] add_arg_item [OF k(1)]
      by (subst parseArgString_loop.simps) simp
  next
    case (Cons kv kvs')
    obtain k' v' where kv: "kv = (k', v')" by force
    have "break_at CHR ''&'' (k @ CHR ''='' # v @ args_text kvs) = Some (k @ CHR ''='' # v, tl (args_text kvs))"
      using break_at_append [OF k(2), of "tl (args_text kvs)"] Cons kv by simp
    moreover have "tl (args_text ((k, v) # kvs)) = k @ CHR ''='' # v @ args_text kvs" by simp
    moreover have "parseArgString_loop (tl (args_text kvs)) (om_set k v m) = fold (\<lambda>(k, v). om_set k v) kvs (om_set k v m)"
      using 2(1) [of "om_set k v m"] 2(2) Cons by simp
    ultimately show ?thesis using add_arg_item [OF k(1)] by (subst parseArgString_loop.simps) (simp del: args_text.simps)
  qed
qed simp

lemma fold_om_set:
  "om_inv m \<Longrightarrow> om_inv (fold (\<lambda>(k, v). om_set k v) kvs m) \<and> om_get (fold (\<lambda>(k, v). om_set k v) kvs m) = om_get m ++ map_of (rev kvs)"
proof (induction kvs arbitrary: m)
  case (Cons kv kvs)
  obtain k v where kv: "kv = (k, v)" by force
  have "om_inv (om_set k v m)" "om_get (om_set k v m) = (om_get m)(k \<mapsto> v)" using om_inv_om_set [OF Cons.prems] om_get_om_set [OF Cons.prems] by simp_all
  moreover have "(om_get m)(k \<mapsto> v) ++ map_of (rev kvs) = om_get m ++ map_of (rev (kv # kvs))"
    by (rule ext) (simp add: kv map_add_def split: option.splits)
  ultimately show ?case using Cons.IH [of "om_set k v m"] unfolding kv by (simp only: fold.simps o_apply prod.case simp_thms)
qed simp

lemma handle_hook:
  assumes f: "om_get (cbs h) tag = Some f" and tag: "CHR ''&'' \<notin> set tag" "take 1 tag = ''/''" and args: "list_all arg_ok kvs"
    and dots: "\<not> has_dots (tag @ args_text kvs)" and uri: "encodes (req_uri req) (tag @ args_text kvs)"
  obtains m where "om_inv m" "om_get m = map_of (rev kvs)"
    "handle_request h req rep st = (\<lparr>rep_status = Ok, rep_headers = content_headers (fst (f m st)) ''text/html'', rep_content = fst (f m st)\<rparr>, snd (f m st))"
proof -
  let ?m = "fold (\<lambda>(k, v). om_set k v) kvs []"
  have m: "om_inv ?m" "om_get ?m = map_of (rev kvs)" using fold_om_set [of "[]" kvs] by simp_all
  note amp = tag(1) and d = url_decode_encodes [OF uri]
  have ok: "\<not> (tag @ args_text kvs = [] \<or> hd (tag @ args_text kvs) \<noteq> CHR ''/'' \<or> has_dots (tag @ args_text kvs))"
    using tag(2) dots by (cases tag) simp_all
  have split: "(case break_at CHR ''&'' (tag @ args_text kvs) of None \<Rightarrow> (tag @ args_text kvs, []) | Some (a, b) \<Rightarrow> (a, b)) = (tag, tl (args_text kvs))"
  proof (cases kvs)
    case Nil
    then show ?thesis using amp break_at_None [of "CHR ''&''" tag] by simp
  next
    case (Cons kv kvs')
    then show ?thesis using break_at_append [OF amp, of "tl (args_text kvs)"] by (cases kv) simp
  qed
  have a: "parseArgString (tl (args_text kvs)) = ?m"
  proof (cases "kvs = []")
    case True
    then show ?thesis by (simp add: parseArgString_def parseArgString_loop.simps add_arg_def)
  qed (simp add: parseArgString_def parse_args args)
  have "extension_to_type ''html'' = ''text/html''" by (simp add: extension_to_type_def mime_mappings_def)
  then have "handle_request h req rep st = (\<lparr>rep_status = Ok, rep_headers = content_headers (fst (f ?m st)) ''text/html'', rep_content = fst (f ?m st)\<rparr>, snd (f ?m st))"
    unfolding handle_request_def d option.case if_not_P [OF ok] split prod.case Let_def f a by (simp add: case_prod_beta)
  then show ?thesis using that [OF m] by blast
qed

lemma find_text_found: "find_text pat (a @ pat @ b) \<noteq> None"
proof (induction a)
  case Nil
  show ?case using append_eq_conv_conj [of pat b "pat @ b"] by (cases "pat @ b") auto
qed auto

lemma client_reads:
  "client_response (to_buffers \<lparr>rep_status = Ok, rep_headers = content_headers content ''text/html'', rep_content = content\<rparr>) = Some (0, Some content)"
proof -
  let ?len = "dec_of_nat (length content)"
  let ?s3 = "''Content-Length: '' @ ?len @ crlf @ ''Content-Type: text/html'' @ crlf @ crlf @ content"
  have sent: "to_buffers \<lparr>rep_status = Ok, rep_headers = content_headers content ''text/html'', rep_content = content\<rparr> = ''HTTP/1.0 200 OK'' @ crlf @ ?s3"
    by (simp add: to_buffers_def header_text_def content_headers_def)
  have len: "CHR 0x0A \<notin> set ?len"
  proof
    assume "CHR 0x0A \<in> set ?len"
    then show False using dec_of_nat_digit [of "CHR 0x0A"] by (simp add: isdigit_def ord_def)
  qed
  have nl: "break_at CHR 0x0A (''Content-Length: '' @ ?len @ CHR 0x0D # CHR 0x0A # x) = Some (''Content-Length: '' @ ?len @ [CHR 0x0D], x)" for x
    using break_at_append [of "CHR 0x0A" "''Content-Length: '' @ ?len @ [CHR 0x0D]" x] len by simp
  have 1: "skip_headers ?s3 = content"
    using nl [of "''Content-Type: text/html'' @ crlf @ crlf @ content"]
    by (subst skip_headers.simps) (simp add: crlf_def skip_headers.simps)
  have 2: "find_text (crlf @ crlf) ?s3 \<noteq> None"
    using find_text_found [of "crlf @ crlf" "''Content-Length: '' @ ?len @ crlf @ ''Content-Type: text/html''" content]
    by (simp only: append_assoc not_False_eq_True)
  have 3: "find_text crlf (''HTTP/1.0 200 OK'' @ crlf @ x) = Some (''HTTP/1.0 200 OK'', x)" for x by (simp add: crlf_def)
  have 4: "read_word (''HTTP/1.0 200 OK'' @ x) = (''HTTP/1.0'', '' 200 OK'' @ x)" "fst (read_word ('' 200 OK'' @ x)) = ''200''" for x
    by (simp_all add: read_word_def skip_space_def isspace_def ord_def)
  have 5: "read_unsigned ('' 200 OK'' @ x) = Some (200, '' OK'' @ x)" for x
    by (simp add: read_unsigned_def skip_space_def isspace_def ord_def take_sign_def lead_digits_def digit_val_def isdigit_def islower_def isupper_def
        from_base_def)
  have 6: "read_line ('' OK'' @ crlf @ x) = ('' OK'' @ [CHR 0x0D], x)" for x by (simp add: read_line_def crlf_def)
  have 7: "take 5 ''HTTP/1.0'' = ''HTTP/''" "''200'' \<noteq> []" by simp_all
  note 4 = 4(1) [of "[]", unfolded append_Nil2] 4(2) [of "[]", unfolded append_Nil2] 4(1) [of "crlf @ ?s3"]
  show ?thesis
    unfolding sent client_response_def 3 option.case prod.case Let_def 4 snd_conv 5 6 7 1 using 2 7(2) by (simp only: refl simp_thms if_True if_False not_False_eq_True)
qed

lemma serve_pieces:
  "parse_pieces (conn_request conn) (conn_parser conn) pieces = Inr (Good, ps, req) \<Longrightarrow>
    \<exists>conn1. serve h pieces conn st = Inr (Some (to_buffers (fst (handle_request h req (conn_reply conn) st))), conn1, snd (handle_request h req (conn_reply conn) st))"
proof (induction pieces arbitrary: conn)
  case (Cons p pieces)
  obtain res ps1 req1 rest where p: "parse (conn_request conn) (conn_parser conn) p = Inr (res, ps1, req1, rest)"
    using Cons.prems by (auto simp: rbind_Inr)
  show ?case
  proof (cases res)
    case Good
    then show ?thesis using p Cons.prems by (simp add: do_read_def Let_def case_prod_beta)
  next
    case Bad
    then show ?thesis using p Cons.prems by simp
  next
    case Indeterminate
    then show ?thesis
      using p Cons.prems Cons.IH [of "conn\<lparr>conn_parser := ps1, conn_request := req1\<rparr>"] by (simp add: do_read_def Let_def)
  qed
qed simp

definition client_headers :: "string \<Rightarrow> line list" where
  "client_headers server = [Field ''Host'' server, Field ''Accept'' ''*/*'', Field ''Connection'' ''close'']"

lemma client_request_grammar:
  assumes "uri_text path" "visible server"
  shows "http_token ''GET''" "version_number ''1''" "version_number ''0''" "lines_ok [] (client_headers server)"
    "client_request server path = request_text ''GET'' path ''1'' ''0'' (client_headers server) @ []"
proof -
  have t: "http_token ''GET''" "http_token ''Host''" "http_token ''Accept''" "http_token ''Connection''" "visible ''*/*''" "visible ''close''"
    by code_simp+
  then show "http_token ''GET''" "lines_ok [] (client_headers server)" using assms(2) by (simp_all add: client_headers_def)
  show "version_number ''1''" "version_number ''0''" by (simp_all add: version_number_def is_digit_def char_int_def digit_value_def)
  show "client_request server path = request_text ''GET'' path ''1'' ''0'' (client_headers server) @ []"
    by (simp add: client_request_def request_text_def client_headers_def)
qed

text \<open>
  C27. A client asks a node for a text that stands, with any characters percent-encoded and blanks
  possibly written as plus signs, for \<^verbatim>\<open>/tag&key=value...\<close>.  Then it gets the output of the hook
  registered under that tag for exactly those arguments, a later value of a key replacing an earlier
  one: whatever the pieces in which the request arrives, the server parses it, decodes it, runs the hook
  once and writes a reply from which the client reads back the hook's content with a return code of
  zero.  The text is decoded before it is split: the tag and the arguments must not contain an
  ampersand, and keys no equals sign, not even encoded ones; nor may the decoded text contain two dots
  in a row.
\<close>
theorem whookie_roundtrip:
  assumes "om_get (cbs h) tag = Some f" "CHR ''&'' \<notin> set tag" "take 1 tag = ''/''" "list_all arg_ok kvs" "\<not> has_dots (tag @ args_text kvs)"
    and "encodes uri (tag @ args_text kvs)" "uri_text uri"
    and "visible server" "concat pieces = client_request server uri"
  shows "case serve h pieces (new_connection unset) st of
     Inr (Some text, conn, st') \<Rightarrow> \<exists>m content. om_inv m \<and> om_get m = map_of (rev kvs) \<and> f m st = (content, st') \<and>
       client_response text = Some (0, Some content)
   | _ \<Rightarrow> False"
proof -
  let ?r = "parsed ''GET'' uri ''1'' ''0'' (client_headers server)" and ?c = "new_connection unset"
  have "accepts Method_start blank_request (concat pieces) ?r []"
    unfolding accepts_blank assms(9) using client_request_grammar [OF assms(7,8)] assms(7) by blast
  then have "parse_pieces (conn_request ?c) (conn_parser ?c) pieces = Inr (Good, Expecting_newline_3, ?r)"
    by (simp add: accepts_def parse_pieces_concat new_connection_def)
  then obtain conn1 where s: "serve h pieces ?c st =
      Inr (Some (to_buffers (fst (handle_request h ?r (conn_reply ?c) st))), conn1, snd (handle_request h ?r (conn_reply ?c) st))"
    using serve_pieces [of ?c pieces _ ?r h st] by blast
  have "encodes (req_uri ?r) (tag @ args_text kvs)" using assms(6) by (simp add: parsed_def)
  then obtain m where "om_inv m" "om_get m = map_of (rev kvs)" "handle_request h ?r (conn_reply ?c) st =
      (\<lparr>rep_status = Ok, rep_headers = content_headers (fst (f m st)) ''text/html'', rep_content = fst (f m st)\<rparr>, snd (f m st))"
    by (rule handle_hook [OF assms(1-5)])
  then show ?thesis unfolding s using client_reads by (auto intro!: exI [of _ m])
qed

definition demo_hook :: "nat hook" where
  "demo_hook m n = ((case om_get m ''key'' of Some v \<Rightarrow> v | None \<Rightarrow> ''none''), Suc n)"

definition demo_handler :: "nat request_handler" where
  "demo_handler = snd (registerHook ''/store'' demo_hook (new_request_handler demo_hook demo_hook demo_hook))"

theorem whookie_roundtrip_witness:
  "case serve demo_handler [''GET /store&key=a&k%65y=1%2B1+up HT'', ''TP/1.0'' @ crlf, ''Host: node'' @ crlf @ ''Accept: */*'' @ crlf @ ''Connection: close'' @ crlf @ crlf]
      (new_connection Ok) 7 of
     Inr (Some text, conn, st') \<Rightarrow> client_response text = Some (0, Some ''1+1 up'') \<and> st' = 8
   | _ \<Rightarrow> False" (is "case serve _ ?pieces _ _ of Inl e \<Rightarrow> _ e | Inr x \<Rightarrow> _ x")
proof -
  have e: "encodes (''/store&key=a&k%65y=1%2B1+up'') (''/store'' @ args_text [(''key'', ''a''), (''key'', ''1+1 up'')])"
    by (simp add: encodes.intros isxdigit_def isdigit_def digit_val_def islower_def isupper_def ord_def)
  have h: "om_get (cbs demo_handler) ''/store'' = Some demo_hook" by (simp add: demo_handler_def new_request_handler_def registerHook_def)
  have "uri_text ''/store&key=a&k%65y=1%2B1+up''" "visible ''node''"
    by (simp_all add: uri_text_def visible_def is_ctl_def char_int_def)
  from whookie_roundtrip [OF h _ _ _ _ e this, where pieces = ?pieces and unset = Ok and st = 7]
  have R: "case serve demo_handler ?pieces (new_connection Ok) 7 of
     Inr (Some text, conn, st') \<Rightarrow> \<exists>m content. om_inv m \<and> om_get m = map_of (rev [(''key'', ''a''), (''key'', ''1+1 up'')]) \<and>
       demo_hook m 7 = (content, st') \<and> client_response text = Some (0, Some content)
   | _ \<Rightarrow> False"
    by (simp add: arg_ok_def client_request_def del: serve.simps)
  have "demo_hook m 7 = (content, st') \<Longrightarrow> om_get m = map_of (rev [(''key'', ''a''), (''key'', ''1+1 up'')]) \<Longrightarrow>
      content = ''1+1 up'' \<and> st' = 8" for m content st'
    by (auto simp: demo_hook_def)
  then show ?thesis using R by (fastforce simp del: serve.simps split: sum.splits option.splits prod.splits)
qed

section \<open>The port search ends\<close>

lemma find_port_some:
  "listen address (port + of_nat k) \<noteq> None \<Longrightarrow>
   \<exists>j \<le> k. \<exists>e. find_port listen address port = Some (port + of_nat j, e) \<and> listen address (port + of_nat j) = Some e"
proof (induction k arbitrary: port)
  case 0
  then show ?case by (intro exI [of _ 0]) (auto simp: find_port.simps)
next
  case (Suc k)
  show ?case
  proof (cases "listen address port")
    case (Some e)
    then show ?thesis by (intro exI [of _ 0]) (simp add: find_port.simps)
  next
    case None
    have "listen address (port + 1 + of_nat k) \<noteq> None" using Suc.prems by (simp add: add.assoc)
    then obtain j e where "j \<le> k" "find_port listen address (port + 1) = Some (port + 1 + of_nat j, e)" "listen address (port + 1 + of_nat j) = Some e"
      using Suc.IH by blast
    then show ?thesis using None
      by (intro exI [of _ "Suc j"]) (simp add: find_port.simps [of listen address port] add.assoc)
  qed
qed

lemma server_start_runs:
  assumes "listen address (port + of_nat k) \<noteq> None" "asio s \<noteq> None"
  shows "case server_start listen address port s of
      Inr (Some (p, s1)) \<Rightarrow> IsRunning s1 \<and> asio s1 = asio s \<and> num_starters s1 = num_starters s + 1
    | _ \<Rightarrow> False"
  using find_port_some [of listen address port k] assms by (auto simp: server_start_def IsRunning_def Let_def)

lemma server_stop_balance:
  assumes "num_starters s > 0" "IsRunning s"
  shows "fst (server_stop s) = num_starters s - 1" "IsRunning (snd (server_stop s)) \<longleftrightarrow> num_starters s > 1"
    "asio (snd (server_stop s)) = (if num_starters s > 1 then asio s else None)"
  using assms by (auto simp: server_stop_def IsRunning_def Let_def)

end
