(* ===== verification/Dirman_Msg.thy ===== *)
theory Dirman_Msg
  imports Opbox_Core Directory_Cache
begin

text \<open>
  Messages with a text in their body (\<^verbatim>\<open>opbox/common/MessageHelpers.cpp\<close>, \<^verbatim>\<open>MessageHelpers.hh\<close>), the messages of the
  directory manager (\<^verbatim>\<open>dirman/ops/msg_dirman.cpp\<close>) and the two sides of its op
  (\<^verbatim>\<open>dirman/ops/OpDirManCentralized.cpp\<close> and its origin and target files).  A request carries a url
  as text or a directory entry as the text that the serialization library cereal makes of it; cereal
  is a pair of functions that are parameters.
\<close>

section \<open>Text messages\<close>

type_synonym text_message = "message_t \<times> string"

definition MESSAGE_BODY_MTU :: nat where
  "MESSAGE_BODY_MTU = 2048 - 40"

text \<open>The flag returned with a message tells that its body does \<^emph>\<open>not\<close> fit into the transfer unit.\<close>

definition AllocateStandardMessage :: "nodeid_t \<Rightarrow> nodeid_t \<Rightarrow> mailbox_t \<Rightarrow> u32 \<Rightarrow> u16 \<Rightarrow> text_message" where
  "AllocateStandardMessage my_id dst_node src_mb op_id flags = (SetStandardRequest my_id dst_node src_mb op_id flags 0, [])"

definition AllocateStringMessage ::
  "nodeid_t \<Rightarrow> nodeid_t \<Rightarrow> mailbox_t \<Rightarrow> mailbox_t \<Rightarrow> u32 \<Rightarrow> u16 \<Rightarrow> string \<Rightarrow> bool \<times> text_message" where
  "AllocateStringMessage src_node dst_node src_mb dst_mb op_id flags user_string =
     (length user_string > MESSAGE_BODY_MTU,
      (\<lparr>msg_src = src_node, msg_dst = dst_node, src_mailbox = src_mb, dst_mailbox = dst_mb, msg_op_id = op_id, user_flags = flags,
        body_len = of_nat (length user_string)\<rparr>, user_string))"

definition AllocateStringRequestMessage ::
  "nodeid_t \<Rightarrow> nodeid_t \<Rightarrow> mailbox_t \<Rightarrow> u32 \<Rightarrow> u16 \<Rightarrow> string \<Rightarrow> bool \<times> text_message" where
  "AllocateStringRequestMessage my_id dst_node src_mb op_id flags user_string =
     (length user_string > MESSAGE_BODY_MTU,
      (SetStandardRequest my_id dst_node src_mb op_id flags (of_nat (length user_string)), user_string))"

definition AllocateStringReplyMessage :: "nodeid_t \<Rightarrow> message_t \<Rightarrow> u16 \<Rightarrow> string \<Rightarrow> bool \<times> text_message" where
  "AllocateStringReplyMessage my_id request_msg flags user_string =
     (length user_string > MESSAGE_BODY_MTU,
      (SetStandardReply my_id request_msg flags (of_nat (length user_string)), user_string))"

definition UnpackStringMessage :: "text_message \<Rightarrow> string result" where
  "UnpackStringMessage m = (let len = unat (body_len (fst m)) in
     if len > length (snd m) then Inl Undefined_behaviour else Inr (take len (snd m)))"

text \<open>The templates that put what cereal made of an object into the body.\<close>

definition AllocateCerealMessage ::
  "('a \<Rightarrow> string) \<Rightarrow> nodeid_t \<Rightarrow> nodeid_t \<Rightarrow> mailbox_t \<Rightarrow> mailbox_t \<Rightarrow> u32 \<Rightarrow> u16 \<Rightarrow> 'a \<Rightarrow> bool \<times> text_message" where
  "AllocateCerealMessage pack src_node dst_node src_mb dst_mb op_id flags x =
     (let packed = pack x in
      (length packed > MESSAGE_BODY_MTU,
       (\<lparr>msg_src = src_node, msg_dst = dst_node, src_mailbox = src_mb, dst_mailbox = dst_mb, msg_op_id = op_id, user_flags = flags,
         body_len = of_nat (length packed)\<rparr>, packed)))"

definition AllocateCerealRequestMessage ::
  "('a \<Rightarrow> string) \<Rightarrow> nodeid_t \<Rightarrow> nodeid_t \<Rightarrow> mailbox_t \<Rightarrow> u32 \<Rightarrow> u16 \<Rightarrow> 'a \<Rightarrow> bool \<times> text_message" where
  "AllocateCerealRequestMessage pack my_id dst_node src_mb op_id flags x =
     (let packed = pack x in
      (length packed > MESSAGE_BODY_MTU, (SetStandardRequest my_id dst_node src_mb op_id flags (of_nat (length packed)), packed)))"

definition AllocateCerealReplyMessage :: "('a \<Rightarrow> string) \<Rightarrow> nodeid_t \<Rightarrow> message_t \<Rightarrow> u16 \<Rightarrow> 'a \<Rightarrow> bool \<times> text_message" where
  "AllocateCerealReplyMessage pack my_id request_msg flags x =
     (let packed = pack x in
      (length packed > MESSAGE_BODY_MTU, (SetStandardReply my_id request_msg flags (of_nat (length packed)), packed)))"

definition UnpackCerealMessage :: "(string \<Rightarrow> 'a result) \<Rightarrow> text_message \<Rightarrow> 'a result" where
  "UnpackCerealMessage unpack m = rbind (UnpackStringMessage m) unpack"

section \<open>Messages of the directory manager\<close>

definition dirman_id :: u32 where
  "dirman_id = const_hash ''OpDirManCentralized''"

datatype RequestType = RT_Invalid | RT_HostNewDir | RT_GetInfo | RT_JoinDir | RT_LeaveDir | RT_DropDir | RT_ReturnDirInfo

fun request_code :: "RequestType \<Rightarrow> u16" where
  "request_code RT_Invalid = 0"
| "request_code RT_HostNewDir = 0x11"
| "request_code RT_GetInfo = 0x02"
| "request_code RT_JoinDir = 0x03"
| "request_code RT_LeaveDir = 0x04"
| "request_code RT_DropDir = 0x05"
| "request_code RT_ReturnDirInfo = 0x15"

text \<open>The cast of the flags to the request type keeps eight bits; other values name no request.\<close>

definition request_of :: "u16 \<Rightarrow> RequestType option" where
  "request_of flags = find (\<lambda>r. request_code r = and flags 0xFF)
     [RT_Invalid, RT_HostNewDir, RT_GetInfo, RT_JoinDir, RT_LeaveDir, RT_DropDir, RT_ReturnDirInfo]"

definition hasDirInfo :: "message_t \<Rightarrow> bool" where
  "hasDirInfo hdr = (msg_op_id hdr = dirman_id \<and> and (user_flags hdr) 0x10 \<noteq> 0)"

definition hasURL :: "message_t \<Rightarrow> bool" where
  "hasURL hdr = (msg_op_id hdr = dirman_id \<and> and (user_flags hdr) 0x10 = 0)"

definition AllocateRequest_url :: "nodeid_t \<Rightarrow> RequestType \<Rightarrow> nodeid_t \<Rightarrow> mailbox_t \<Rightarrow> ResourceURL \<Rightarrow> bool \<times> text_message" where
  "AllocateRequest_url my_id req_type dst_node src_mb url =
     AllocateStringRequestMessage my_id dst_node src_mb dirman_id (request_code req_type) (GetFullURL url)"

definition AllocateRequest_info ::
  "(DirectoryInfo \<Rightarrow> string) \<Rightarrow> nodeid_t \<Rightarrow> RequestType \<Rightarrow> nodeid_t \<Rightarrow> mailbox_t \<Rightarrow> DirectoryInfo \<Rightarrow> bool \<times> text_message" where
  "AllocateRequest_info pack my_id req_type dst_node src_mb dir_info =
     AllocateCerealRequestMessage pack my_id dst_node src_mb dirman_id (request_code req_type) dir_info"

definition AllocateReply ::
  "(DirectoryInfo \<Rightarrow> string) \<Rightarrow> nodeid_t \<Rightarrow> RequestType \<Rightarrow> message_t \<Rightarrow> DirectoryInfo \<Rightarrow> bool \<times> text_message" where
  "AllocateReply pack my_id req_type request_msg dir_info =
     AllocateCerealReplyMessage pack my_id request_msg (request_code req_type) dir_info"

definition ExtractURL :: "text_message \<Rightarrow> ResourceURL result" where
  "ExtractURL m = (if \<not> hasURL (fst m) then Inl Runtime_error else rbind (UnpackStringMessage m) ResourceURL_ctor)"

definition ExtractDirInfo :: "(string \<Rightarrow> DirectoryInfo result) \<Rightarrow> text_message \<Rightarrow> DirectoryInfo result" where
  "ExtractDirInfo unpack m = (if \<not> hasDirInfo (fst m) then Inl Runtime_error else UnpackCerealMessage unpack m)"

section \<open>The origin's side of the op\<close>

datatype dirman_state = Dm_start | Dm_snd_wait_for_reply | Dm_done

record OpDirManCentralized =
  dm_state :: dirman_state
  dm_peer :: nodeid_t
  dm_ldo_msg :: text_message
  dm_promise :: "DirectoryInfo option"

text \<open>\<open>connected\<close> tells whether the network could connect to the root node.\<close>

definition OpDirMan_info ::
  "(DirectoryInfo \<Rightarrow> string) \<Rightarrow> bool \<Rightarrow> nodeid_t \<Rightarrow> mailbox_t \<Rightarrow> RequestType \<Rightarrow> nodeid_t \<Rightarrow> DirectoryInfo \<Rightarrow> OpDirManCentralized result" where
  "OpDirMan_info pack connected my_id mb req_type root dir_info =
     (if req_type \<noteq> RT_HostNewDir \<or> \<not> connected then Inl Assert_failed
      else Inr \<lparr>dm_state = Dm_start, dm_peer = root, dm_ldo_msg = snd (AllocateRequest_info pack my_id RT_HostNewDir root mb dir_info), dm_promise = None\<rparr>)"

definition OpDirMan_url :: "bool \<Rightarrow> nodeid_t \<Rightarrow> mailbox_t \<Rightarrow> RequestType \<Rightarrow> nodeid_t \<Rightarrow> ResourceURL \<Rightarrow> OpDirManCentralized result" where
  "OpDirMan_url connected my_id mb req_type root url =
     (if req_type \<notin> {RT_GetInfo, RT_JoinDir, RT_LeaveDir, RT_DropDir, RT_ReturnDirInfo} then Inl Assert_failed
      else if \<not> connected then Inl Runtime_error
      else Inr \<lparr>dm_state = Dm_start, dm_peer = root, dm_ldo_msg = snd (AllocateRequest_url my_id req_type root mb url), dm_promise = None\<rparr>)"

text \<open>An update returns what the op waits for, the op, and the messages it sends.\<close>

definition Dirman_UpdateOrigin ::
  "(string \<Rightarrow> DirectoryInfo result) \<Rightarrow> (text_message, unit) OpArgs \<Rightarrow> OpDirManCentralized \<Rightarrow>
   (WaitingType \<times> OpDirManCentralized \<times> text_message list) result" where
  "Dirman_UpdateOrigin unpack args op = (case dm_state op of
     Dm_start \<Rightarrow> Inr (Waiting_on_cq, op\<lparr>dm_state := Dm_snd_wait_for_reply\<rparr>, [dm_ldo_msg op])
   | Dm_snd_wait_for_reply \<Rightarrow>
       rbind (ExpectMessageOrDie args) (\<lambda>msg. case request_of (user_flags (fst msg)) of
         Some RT_Invalid \<Rightarrow> Inl Halted
       | Some RT_ReturnDirInfo \<Rightarrow>
           rbind (ExtractDirInfo unpack msg) (\<lambda>dir_info. Inr (Done_and_destroy, op\<lparr>dm_state := Dm_done, dm_promise := Some dir_info\<rparr>, []))
       | _ \<Rightarrow> Inl Process_exit)
   | Dm_done \<Rightarrow> Inr (Done_and_destroy, op, []))"

fun dirman_state_name :: "dirman_state \<Rightarrow> string" where
  "dirman_state_name Dm_start = ''Start''"
| "dirman_state_name Dm_snd_wait_for_reply = ''Sender-WaitForReply''"
| "dirman_state_name Dm_done = ''Done''"

section \<open>Sending and receiving\<close>

lemma request_of_code [simp]: "request_of (request_code r) = Some r"
  by (cases r) (simp_all add: request_of_def)

lemma request_kind [simp]:
  "and (request_code r) 0x10 = 0 \<longleftrightarrow> r \<noteq> RT_HostNewDir \<and> r \<noteq> RT_ReturnDirInfo"
  by (cases r) simp_all

lemma body_of_len: "length s < 2 ^ 32 \<Longrightarrow> unat (of_nat (length s) :: u32) = length s"
  by (simp add: unat_of_nat)

text \<open>The root reads the url that was sent, with its options sorted.\<close>

lemma ExtractURL_request:
  assumes "url_ok u" "length (GetFullURL u) < 2 ^ 32" "r \<noteq> RT_HostNewDir" "r \<noteq> RT_ReturnDirInfo"
  shows "ExtractURL (snd (AllocateRequest_url my_id r root mb u)) = Inr (u\<lparr>url_options := GetSortedOptions u\<rparr>)"
  using assms url_text_parses [OF assms(1)] body_of_len [OF assms(2)]
  by (simp add: ExtractURL_def AllocateRequest_url_def AllocateStringRequestMessage_def hasURL_def SetStandardRequest_def UnpackStringMessage_def)

lemma ExtractDirInfo_request:
  assumes "unpack (pack d) = Inr d" "length (pack d) < 2 ^ 32"
  shows "ExtractDirInfo unpack (snd (AllocateRequest_info pack my_id RT_HostNewDir root mb d)) = Inr d"
  using assms(1) body_of_len [OF assms(2)]
  by (simp add: ExtractDirInfo_def AllocateRequest_info_def AllocateCerealRequestMessage_def hasDirInfo_def SetStandardRequest_def
      UnpackCerealMessage_def UnpackStringMessage_def Let_def)

lemma ExtractDirInfo_reply:
  assumes "unpack (pack d) = Inr d" "length (pack d) < 2 ^ 32" "msg_op_id hdr = dirman_id"
  shows "ExtractDirInfo unpack (snd (AllocateReply pack my_id RT_ReturnDirInfo hdr d)) = Inr d"
  using assms(1,3) body_of_len [OF assms(2)]
  by (simp add: ExtractDirInfo_def AllocateReply_def AllocateCerealReplyMessage_def hasDirInfo_def SetStandardReply_def
      UnpackCerealMessage_def UnpackStringMessage_def Let_def)

end
