(* ===== verification/Dirman_Core.thy ===== *)
theory Dirman_Core
  imports Dirman_Msg Config_Settings
begin

text \<open>
  The cores of the directory manager: the cache of owners (\<^verbatim>\<open>dirman/common/DirectoryOwnerCache.cpp\<close>), what all
  cores share (\<^verbatim>\<open>dirman/core/DirManCoreBase.cpp\<close>), the static core (\<^verbatim>\<open>DirManCoreStatic.cpp\<close>) and the centralized
  core (\<^verbatim>\<open>DirManCoreCentralized.cpp\<close>), in which one root node holds every entry and the others ask it.  A call
  of the centralized core on another node than the root has two parts, up to the launch of the op and
  after its answer.  The target's side of the op is here too, since it calls the root's core.  The
  environment, files and the shell's expansion of paths are parameters, and so is the flag of the C
  library that number parsing reads.
\<close>

section \<open>The owner cache\<close>

type_synonym owners = "(string, nodeid_t) omap"

definition doc_Register :: "ResourceURL \<Rightarrow> owners \<Rightarrow> bool \<times> owners" where
  "doc_Register url known = (if \<not> url_Valid url then (False, known) else (True, om_set (GetBucketPathName url) (url_node url) known))"

definition doc_Register_all :: "ResourceURL list \<Rightarrow> owners \<Rightarrow> bool \<times> owners" where
  "doc_Register_all urls known =
     (if list_ex (\<lambda>url. \<not> url_Valid url \<or> url_node url = NODE_UNSPECIFIED) urls then (False, known)
      else (True, fold (\<lambda>url. om_set (GetBucketPathName url) (url_node url)) urls known))"

definition doc_Lookup :: "ResourceURL \<Rightarrow> owners \<Rightarrow> (bool \<times> nodeid_t) result" where
  "doc_Lookup url known = (if \<not> url_Valid url then Inl Assert_failed
     else Inr (case om_get known (GetBucketPathName url) of None \<Rightarrow> (False, NODE_UNSPECIFIED) | Some node \<Rightarrow> (True, node)))"

definition doc_Lookup_all :: "ResourceURL list \<Rightarrow> owners \<Rightarrow> (bool \<times> nodeid_t list) result" where
  "doc_Lookup_all urls known = rbind (rmap_list (\<lambda>url. doc_Lookup url known) urls) (\<lambda>rs. Inr (list_all fst rs, map snd rs))"

section \<open>What the cores share\<close>

record DirManCore =
  dc_others :: dircache
  dc_mine :: dircache
  doc :: owners
  dm_node :: nodeid_t
  dm_bucket :: bucket_t
  strict_checking :: bool
  root_id :: nodeid_t
  am_root :: bool

text \<open>The predefined resources, from the last to the first; the first url met for a path is kept.\<close>

fun collect_urls :: "bucket_t \<Rightarrow> string list \<Rightarrow> (string, ResourceURL) omap \<Rightarrow> (string, ResourceURL) omap result" where
  "collect_urls bucket [] urls = Inr urls"
| "collect_urls bucket (s # ss) urls = rbind (ResourceURL_ctor s) (\<lambda>url.
     if IsReference url then collect_urls bucket ss urls
     else let url1 = (if url_bucket url = BUCKET_UNSPECIFIED then url\<lparr>url_bucket := bucket\<rparr> else url); path_name = GetPathName url1
          in collect_urls bucket ss (if om_get urls path_name = None then om_set path_name url1 urls else urls))"

fun create_predefined :: "bool \<Rightarrow> ResourceURL list \<Rightarrow> dircache \<Rightarrow> dircache result" where
  "create_predefined e [] others = Inr others"
| "create_predefined e (url # urls) others = rbind (DirectoryInfo_ctor e url) (\<lambda>di.
     if url_Type (di_url di) \<notin> {''local'', ''trace'', ''null''} \<and> members di = [] then Inl Runtime_error
     else rbind (dc_Create di others) (\<lambda>(_, others1). create_predefined e urls others1))"

definition DirManCoreBase_ctor :: "bool \<Rightarrow> Configuration \<Rightarrow> DirManCore result" where
  "DirManCoreBase_ctor e cfg =
     rbind (GetDefaultSecurityBucket_id cfg) (\<lambda>(_, b).
     let bucket = (case b of Some b \<Rightarrow> b | None \<Rightarrow> BUCKET_UNSPECIFIED) in
     rbind (collect_urls bucket (rev (snd (GetStringVector ''dirman.resources'' cfg))) []) (\<lambda>urls.
     rbind (create_predefined e (map snd urls) []) (\<lambda>others.
       Inr \<lparr>dc_others = others, dc_mine = [], doc = [], dm_node = NODE_UNSPECIFIED, dm_bucket = bucket,
            strict_checking = bool_or False (config_GetBool ''dirman.strict'' ''true'' cfg),
            root_id = NODE_UNSPECIFIED, am_root = False\<rparr>)))"

text \<open>The node is \<^term>\<open>None\<close> where the caller's variable is not written: the root directory has no entry.\<close>

definition lookupLocal :: "ResourceURL \<Rightarrow> DirManCore \<Rightarrow> (bool \<times> DirectoryInfo \<times> nodeid_t option) result" where
  "lookupLocal url core =
     (let owner = (\<lambda>d. if IsRoot url then None else Some (url_node (di_url d))) in
      rbind (dc_Lookup url DirectoryInfo_empty (dc_mine core)) (\<lambda>(found, d). if found then Inr (True, d, owner d)
      else rbind (dc_Lookup url DirectoryInfo_empty (dc_others core)) (\<lambda>(found, d). if found then Inr (True, d, owner d)
      else rbind (doc_Lookup url (doc core)) (\<lambda>(_, node). Inr (False, d, Some node)))))"

definition lookupLocal_all :: "ResourceURL list \<Rightarrow> DirManCore \<Rightarrow> (bool \<times> DirectoryInfo list) result" where
  "lookupLocal_all urls core = rbind (rmap_list (\<lambda>url. lookupLocal url core) urls) (\<lambda>rs.
     Inr (list_all fst rs, map (fst \<circ> snd) (filter fst rs)))"

definition GetCachedNames :: "DirManCore \<Rightarrow> string list" where
  "GetCachedNames core = GetAllNames (dc_others core) @ GetAllNames (dc_mine core)"

definition cacheForeignDir :: "DirectoryInfo \<Rightarrow> DirManCore \<Rightarrow> (bool \<times> DirManCore) result" where
  "cacheForeignDir dir_info core =
     (if \<not> url_Valid (di_url dir_info) \<or> url_node (di_url dir_info) = NODE_LOCALHOST \<or> url_node (di_url dir_info) = dm_node core
      then Inr (False, core)
      else rbind (dc_Create dir_info (dc_others core)) (\<lambda>(_, others).
        Inr (True, core\<lparr>doc := snd (doc_Register (di_url dir_info) (doc core)), dc_others := others\<rparr>)))"

definition parseConfigForRootNode ::
  "(string \<Rightarrow> string option) \<Rightarrow> (string \<Rightarrow> string) \<Rightarrow> (string \<Rightarrow> string option) \<Rightarrow> Configuration \<Rightarrow> nodeid_t result" where
  "parseConfigForRootNode getenv expand first_line cfg =
     (let (rc, hex) = config_GetString ''dirman.root_node'' [] cfg in
      rbind (if rc \<noteq> ENOENT then Inr hex
             else rbind (GetFilename getenv expand ''dirman.root_node'' ''FAODEL_DIRMAN_ROOT_NODE_FILE'' [] cfg) (\<lambda>(rc, fname).
               case fname of
                 Some f \<Rightarrow> (case first_line f of None \<Rightarrow> Inl Runtime_error | Some l \<Rightarrow> Inr l)
               | None \<Rightarrow> (case getenv ''FAODEL_DIRMAN_ROOT_NODE'' of
                   None \<Rightarrow> Inl Runtime_error | Some p \<Rightarrow> if p = [] then Inl Runtime_error else Inr p)))
        (\<lambda>root_hex. rbind (NodeID_hex root_hex) (\<lambda>node. if node = 0 then Inl Runtime_error else Inr node)))"

text \<open>The bucket and, when asked for, the node are filled in where they are not given.\<close>

definition localizeURL :: "bool \<Rightarrow> DirManCore \<Rightarrow> ResourceURL \<Rightarrow> ResourceURL" where
  "localizeURL change_node core url =
     (let url1 = (if url_bucket url = BUCKET_UNSPECIFIED then url\<lparr>url_bucket := dm_bucket core\<rparr> else url)
      in if change_node \<and> url_node url1 = NODE_UNSPECIFIED then url1\<lparr>url_node := dm_node core\<rparr> else url1)"

section \<open>The static core\<close>

fun static_relocate :: "DirectoryInfo list \<Rightarrow> DirManCore \<Rightarrow> DirManCore result" where
  "static_relocate [] core = Inr core"
| "static_relocate (d # ds) core =
     rbind (dc_Remove (di_url d) (dc_others core)) (\<lambda>(_, others).
     rbind (dc_Update (d\<lparr>di_url := localizeURL True core (di_url d)\<rparr>) others) (\<lambda>(_, others1).
       static_relocate ds (core\<lparr>dc_others := others1\<rparr>)))"

definition DirManCoreStatic_ctor :: "bool \<Rightarrow> Configuration \<Rightarrow> DirManCore result" where
  "DirManCoreStatic_ctor e cfg =
     rbind (DirManCoreBase_ctor e cfg) (\<lambda>core.
     rbind (dc_Lookup_all (GetAllURLs (dc_others core)) (dc_others core)) (\<lambda>(_, dirs). static_relocate dirs core))"

definition static_Locate :: "ResourceURL \<Rightarrow> DirManCore \<Rightarrow> bool \<times> nodeid_t" where
  "static_Locate url core = (True, dm_node core)"

definition static_GetDirectoryInfo :: "ResourceURL \<Rightarrow> DirManCore \<Rightarrow> (bool \<times> DirectoryInfo) result" where
  "static_GetDirectoryInfo url core =
     (let url_mod = localizeURL False core url in
      rbind (dc_Lookup url_mod DirectoryInfo_empty (dc_mine core)) (\<lambda>(found, d). if found then Inr (True, d) else dc_Lookup url_mod DirectoryInfo_empty (dc_others core)))"

definition static_HostNewDir :: "bool \<Rightarrow> DirectoryInfo \<Rightarrow> DirManCore \<Rightarrow> (bool \<times> DirManCore) result" where
  "static_HostNewDir e dir_info core =
     rbind (CreateAndLinkParents e (dir_info\<lparr>di_url := localizeURL True core (di_url dir_info)\<rparr>) (dc_mine core)) (\<lambda>(ok, mine).
       Inr (ok, core\<lparr>dc_mine := mine\<rparr>))"

definition static_JoinDirWithName :: "ResourceURL \<Rightarrow> string \<Rightarrow> DirManCore \<Rightarrow> (bool \<times> DirectoryInfo \<times> DirManCore) result" where
  "static_JoinDirWithName url name core =
     rbind (if name \<noteq> [] then PushDir name (localizeURL True core url) else Inr (localizeURL True core url)) (\<lambda>url_mod.
     rbind (dc_Join url_mod (dc_mine core)) (\<lambda>(found, d, mine). Inr (found, d, core\<lparr>dc_mine := mine\<rparr>)))"

definition static_LeaveDir :: "ResourceURL \<Rightarrow> DirManCore \<Rightarrow> (bool \<times> DirectoryInfo \<times> DirManCore) result" where
  "static_LeaveDir url core =
     rbind (dc_Leave (localizeURL False core url) (dc_mine core)) (\<lambda>(removed, d, mine). Inr (removed, d, core\<lparr>dc_mine := mine\<rparr>))"

definition static_DropDir :: "ResourceURL \<Rightarrow> DirManCore \<Rightarrow> (bool \<times> DirManCore) result" where
  "static_DropDir url core =
     rbind (dc_Remove (localizeURL False core url) (dc_mine core)) (\<lambda>(found, mine). Inr (found, core\<lparr>dc_mine := mine\<rparr>))"

section \<open>The root node of the centralized core\<close>

definition central_Locate :: "ResourceURL \<Rightarrow> DirManCore \<Rightarrow> bool \<times> nodeid_t" where
  "central_Locate url core = (True, root_id core)"

text \<open>
  What the root does itself; the flag and the entry are what the caller gets.  Look-ups are given a newly constructed
  structure to fill in.
\<close>

definition hosted_info :: "DirManCore \<Rightarrow> DirectoryInfo \<Rightarrow> DirectoryInfo" where
  "hosted_info core dir_info = dir_info\<lparr>di_url := (localizeURL True core (di_url dir_info))\<lparr>url_node := root_id core\<rparr>\<rparr>"

definition root_GetInfo :: "ResourceURL \<Rightarrow> DirManCore \<Rightarrow> (bool \<times> DirectoryInfo) result" where
  "root_GetInfo url core = dc_Lookup (localizeURL False core url)
     (DirectoryInfo_empty\<lparr>di_url := (di_url DirectoryInfo_empty)\<lparr>url_node := root_id core\<rparr>\<rparr>) (dc_mine core)"

definition root_HostNewDir :: "bool \<Rightarrow> DirectoryInfo \<Rightarrow> DirManCore \<Rightarrow> (bool \<times> DirManCore) result" where
  "root_HostNewDir e dir_info core =
     rbind (CreateAndLinkParents e (hosted_info core dir_info) (dc_mine core)) (\<lambda>(ok, mine). Inr (ok, core\<lparr>dc_mine := mine\<rparr>))"

definition join_url :: "ResourceURL \<Rightarrow> string \<Rightarrow> DirManCore \<Rightarrow> ResourceURL result" where
  "join_url url name core = (if name \<noteq> [] then PushDir name (localizeURL True core url) else Inr (localizeURL True core url))"

definition root_JoinDir :: "ResourceURL \<Rightarrow> string \<Rightarrow> DirManCore \<Rightarrow> (bool \<times> DirectoryInfo \<times> DirManCore) result" where
  "root_JoinDir url name core =
     rbind (join_url url name core) (\<lambda>url_mod.
     rbind (dc_Join url_mod (dc_mine core)) (\<lambda>(found, d, mine). Inr (found, d, core\<lparr>dc_mine := mine\<rparr>)))"

definition root_LeaveDir :: "ResourceURL \<Rightarrow> DirManCore \<Rightarrow> (bool \<times> DirectoryInfo \<times> DirManCore) result" where
  "root_LeaveDir url core =
     rbind (dc_Leave (localizeURL False core url) (dc_mine core)) (\<lambda>(removed, d, mine). Inr (removed, d, core\<lparr>dc_mine := mine\<rparr>))"

definition root_DropDir :: "ResourceURL \<Rightarrow> DirManCore \<Rightarrow> (bool \<times> DirManCore) result" where
  "root_DropDir url core =
     rbind (dc_Remove (localizeURL False core url) (dc_mine core)) (\<lambda>(found, mine). Inr (found, core\<lparr>dc_mine := mine\<rparr>))"

section \<open>Construction of the centralized core\<close>

fun central_transplant :: "bool \<Rightarrow> DirectoryInfo list \<Rightarrow> DirManCore \<Rightarrow> DirManCore result" where
  "central_transplant e [] core = Inr core"
| "central_transplant e (d # ds) core =
     (if am_root core
      then rbind (root_HostNewDir e d core) (\<lambda>(_, core1).
           rbind (dc_Remove (di_url d) (dc_others core1)) (\<lambda>(_, others). central_transplant e ds (core1\<lparr>dc_others := others\<rparr>)))
      else rbind (dc_Remove (di_url d) (dc_others core)) (\<lambda>(_, others).
           rbind (dc_Update (hosted_info core d) others) (\<lambda>(_, others1). central_transplant e ds (core\<lparr>dc_others := others1\<rparr>))))"

text \<open>The result is the core and the file the root writes, if it writes one.\<close>

definition DirManCoreCentralized_ctor ::
  "bool \<Rightarrow> (string \<Rightarrow> string option) \<Rightarrow> (string \<Rightarrow> string) \<Rightarrow> (string \<Rightarrow> string option) \<Rightarrow> (string \<Rightarrow> bool) \<Rightarrow> nodeid_t \<Rightarrow> Configuration \<Rightarrow>
   (DirManCore \<times> (string \<times> string) option) result" where
  "DirManCoreCentralized_ctor e getenv expand first_line writable my_node cfg =
     rbind (DirManCoreBase_ctor e cfg) (\<lambda>base.
     let host_root = bool_or False (config_GetBool ''dirman.host_root'' ''false'' cfg) in
     rbind (GetFilename getenv expand ''dirman.write_root'' [] [] cfg) (\<lambda>(_, write_root).
     rbind (if host_root then Inr my_node else parseConfigForRootNode getenv expand first_line cfg) (\<lambda>root.
     let is_root = (root = my_node);
         root_file = (case write_root of Some f \<Rightarrow> if is_root \<and> f \<noteq> [] then Some f else None | None \<Rightarrow> None);
         core = base\<lparr>dm_node := my_node, root_id := root, am_root := is_root\<rparr>
     in if (case root_file of Some f \<Rightarrow> \<not> writable f | None \<Rightarrow> False) then Inl Runtime_error
        else rbind (dc_Lookup_all (GetAllURLs (dc_others core)) (dc_others core)) (\<lambda>(_, dirs).
             rbind (central_transplant e dirs core) (\<lambda>core1.
               Inr (core1, map_option (\<lambda>f. (f, GetHex my_node @ [CHR 0x0A] @ GetHttpLink my_node [] @ [CHR 0x0A])) root_file))))))"

section \<open>Calls\<close>

text \<open>
  The operations of the interface that look at or change entries.  An answer is the returned flag and
  the entry written to the caller's variable, if it is written.
\<close>
datatype dirman_call = Call_GetDirectoryInfo ResourceURL bool bool | Call_HostNewDir DirectoryInfo | Call_JoinDir ResourceURL string
  | Call_LeaveDir ResourceURL | Call_DropDir ResourceURL

datatype begun = Answered bool "DirectoryInfo option" DirManCore | Launched OpDirManCentralized

definition HostNewDir_url :: "bool \<Rightarrow> ResourceURL \<Rightarrow> DirManCore \<Rightarrow> dirman_call result" where
  "HostNewDir_url e url core =
     (if url_bucket url = BUCKET_UNSPECIFIED \<and> strict_checking core then Inl Assert_failed
      else let url1 = (if url_bucket url = BUCKET_UNSPECIFIED then url\<lparr>url_bucket := dm_bucket core\<rparr> else url) in
        rbind (DirectoryInfo_ctor e (url1\<lparr>url_node := dm_node core\<rparr>)) (\<lambda>d. Inr (Call_HostNewDir d)))"

text \<open>\<^term>\<open>None\<close> is a url that is refused at once.\<close>

definition DefineNewDir_url :: "bool \<Rightarrow> ResourceURL \<Rightarrow> dirman_call option result" where
  "DefineNewDir_url e url = (if \<not> url_Valid url then Inr None else rbind (DirectoryInfo_ctor e url) (\<lambda>d. Inr (Some (Call_HostNewDir d))))"

definition JoinDirWithoutName :: "ResourceURL \<Rightarrow> dirman_call" where
  "JoinDirWithoutName url = Call_JoinDir (SetOption auto_generate_option_label ''1'' url) []"

text \<open>
  The first part of a call.  \<open>mb\<close> is the mailbox of the op.  A failing connection is reported by an exception, which
  only the look-up catches.
\<close>
fun begin_call :: "bool \<Rightarrow> (DirectoryInfo \<Rightarrow> string) \<Rightarrow> bool \<Rightarrow> mailbox_t \<Rightarrow> dirman_call \<Rightarrow> DirManCore \<Rightarrow> begun result" where
  "begin_call e pack connected mb (Call_GetDirectoryInfo url check_local check_remote) core =
     (let url_mod = localizeURL False core url;
          ask = (\<lambda>out. if \<not> check_remote then Inr (Answered False out core)
                 else Inr (case OpDirMan_url connected (dm_node core) mb RT_GetInfo (root_id core) url_mod of
                             Inr op \<Rightarrow> Launched op | Inl _ \<Rightarrow> Answered False out core))
      in if am_root core then rbind (root_GetInfo url core) (\<lambda>(found, d). Inr (Answered found (Some d) core))
         else if check_local
         then rbind (dc_Lookup url_mod DirectoryInfo_empty (dc_others core)) (\<lambda>(found, d). if found then Inr (Answered True (Some d) core) else ask (Some d))
         else ask None)"
| "begin_call e pack connected mb (Call_HostNewDir dir_info) core =
     (if am_root core then rbind (root_HostNewDir e dir_info core) (\<lambda>(ok, core1). Inr (Answered ok None core1))
      else rbind (OpDirMan_info pack connected (dm_node core) mb RT_HostNewDir (root_id core) (hosted_info core dir_info)) (\<lambda>op. Inr (Launched op)))"
| "begin_call e pack connected mb (Call_JoinDir url name) core =
     (if am_root core then rbind (root_JoinDir url name core) (\<lambda>(found, d, core1). Inr (Answered found (Some d) core1))
      else rbind (join_url url name core) (\<lambda>url_mod.
           rbind (OpDirMan_url connected (dm_node core) mb RT_JoinDir (root_id core) url_mod) (\<lambda>op. Inr (Launched op))))"
| "begin_call e pack connected mb (Call_LeaveDir url) core =
     (if am_root core then rbind (root_LeaveDir url core) (\<lambda>(removed, d, core1). Inr (Answered removed (Some d) core1))
      else rbind (OpDirMan_url connected (dm_node core) mb RT_LeaveDir (root_id core) (localizeURL False core url)) (\<lambda>op. Inr (Launched op)))"
| "begin_call e pack connected mb (Call_DropDir url) core =
     (if am_root core then rbind (root_DropDir url core) (\<lambda>(found, core1). Inr (Answered found None core1))
      else rbind (OpDirMan_url connected (dm_node core) mb RT_DropDir (root_id core) (localizeURL False core url)) (\<lambda>op. Inr (Launched op)))"

text \<open>The part after the op has its answer.\<close>

fun end_call :: "bool \<Rightarrow> dirman_call \<Rightarrow> DirectoryInfo \<Rightarrow> DirManCore \<Rightarrow> (bool \<times> DirectoryInfo option \<times> DirManCore) result" where
  "end_call e (Call_GetDirectoryInfo url check_local check_remote) di2 core =
     (if di_IsEmpty di2 then Inr (False, if check_local then Some DirectoryInfo_empty else None, core)
      else rbind (CreateAndLinkParents e di2 (dc_others core)) (\<lambda>(_, others). Inr (True, Some di2, core\<lparr>dc_others := others\<rparr>)))"
| "end_call e (Call_HostNewDir dir_info) di2 core =
     rbind (CreateAndLinkParents e di2 (dc_others core)) (\<lambda>(ok, others). Inr (ok, None, core\<lparr>dc_others := others\<rparr>))"
| "end_call e (Call_JoinDir url name) di2 core =
     rbind (dc_Update di2 (dc_others core)) (\<lambda>(ok, others). Inr (ok, Some di2, core\<lparr>dc_others := others\<rparr>))"
| "end_call e (Call_LeaveDir url) di2 core =
     rbind (dc_Update di2 (dc_others core)) (\<lambda>(ok, others). Inr (ok, None, core\<lparr>dc_others := others\<rparr>))"
| "end_call e (Call_DropDir url) di2 core =
     rbind (dc_Remove (localizeURL False core url) (dc_others core)) (\<lambda>(found, others). Inr (found, None, core\<lparr>dc_others := others\<rparr>))"

section \<open>The target's side of the op\<close>

text \<open>
  Hosting an entry takes the lock of the cache twice, for the entry and for the answer, so another request may
  come in between: the state in between is \<open>Look_up\<close>.  A node that is not the root would pass a request on,
  which is not modelled.
\<close>
datatype target_rest = Look_up ResourceURL | Have DirectoryInfo

definition target_begin :: "bool \<Rightarrow> (string \<Rightarrow> DirectoryInfo result) \<Rightarrow> text_message \<Rightarrow> DirManCore \<Rightarrow> (target_rest \<times> DirManCore) result" where
  "target_begin e unpack msg core =
     (if \<not> am_root core then Inl Deadlock
      else if request_of (user_flags (fst msg)) = Some RT_HostNewDir
      then rbind (ExtractDirInfo unpack msg) (\<lambda>dir_info.
           rbind (root_HostNewDir e dir_info core) (\<lambda>(_, core1). Inr (Look_up (di_url dir_info), core1)))
      else rbind (ExtractURL msg) (\<lambda>url. case request_of (user_flags (fst msg)) of
          Some RT_GetInfo \<Rightarrow> rbind (root_GetInfo url core) (\<lambda>(_, d). Inr (Have d, core))
        | Some RT_JoinDir \<Rightarrow> rbind (root_JoinDir url [] core) (\<lambda>(_, d, core1). Inr (Have d, core1))
        | Some RT_LeaveDir \<Rightarrow> rbind (root_LeaveDir url core) (\<lambda>(_, d, core1). Inr (Have d, core1))
        | Some RT_DropDir \<Rightarrow> rbind (root_DropDir url core) (\<lambda>(_, core1). Inr (Have DirectoryInfo_empty, core1))
        | _ \<Rightarrow> Inl Invalid_argument))"

definition target_end :: "(DirectoryInfo \<Rightarrow> string) \<Rightarrow> text_message \<Rightarrow> target_rest \<Rightarrow> DirManCore \<Rightarrow> text_message result" where
  "target_end pack msg rest core =
     rbind (case rest of Have d \<Rightarrow> Inr d | Look_up url \<Rightarrow> rbind (root_GetInfo url core) (\<lambda>(_, d). Inr d)) (\<lambda>d.
       Inr (snd (AllocateReply pack (dm_node core) RT_ReturnDirInfo (fst msg) d)))"

text \<open>The whole update of the target, when nothing comes in between.\<close>

definition Dirman_UpdateTarget ::
  "bool \<Rightarrow> (DirectoryInfo \<Rightarrow> string) \<Rightarrow> (string \<Rightarrow> DirectoryInfo result) \<Rightarrow> (text_message, unit) OpArgs \<Rightarrow> dirman_state \<Rightarrow> DirManCore \<Rightarrow>
   (WaitingType \<times> dirman_state \<times> text_message list \<times> DirManCore) result" where
  "Dirman_UpdateTarget e pack unpack args state core = (case state of
     Dm_start \<Rightarrow>
       rbind (ExpectMessageOrDie args) (\<lambda>msg.
       rbind (target_begin e unpack msg core) (\<lambda>(rest, core1).
       rbind (target_end pack msg rest core1) (\<lambda>reply. Inr (Done_and_destroy, Dm_done, [reply], core1))))
   | Dm_done \<Rightarrow> Inr (Done_and_destroy, Dm_done, [], core)
   | Dm_snd_wait_for_reply \<Rightarrow> Inl Process_exit)"

end
