(* ===== verification/Dirman_Facts.thy ===== *)
theory Dirman_Facts
  imports Dirman_Core
begin

text \<open>
  What the operations of a directory cache keep when nothing is known about the links between its
  entries: each returns on a well-formed url, and every entry stays under the key of its own url.
\<close>

section \<open>Caches with their entries in place\<close>

definition cache_inv :: "dircache \<Rightarrow> bool" where
  "cache_inv known = (om_inv known \<and> (\<forall>k d. om_get known k = Some d \<longrightarrow> members_plain d \<and> (\<exists>b ps. url_at (di_url d) b ps \<and> k = key_text b ps)))"

definition kept :: "dircache \<Rightarrow> dircache \<Rightarrow> bool" where
  "kept known known' = (\<forall>c qs. good_parts qs \<longrightarrow> dir_at known c qs \<noteq> None \<longrightarrow> dir_at known' c qs \<noteq> None)"

lemma kept_refl [simp]: "kept known known"
  by (simp add: kept_def)

lemma kept_trans: "kept a b \<Longrightarrow> kept b c \<Longrightarrow> kept a c"
  by (simp add: kept_def)

lemma cache_inv_wf: "cache_inv known \<Longrightarrow> cache_wf known"
  by (fastforce simp: cache_inv_def cache_wf_def url_at_def)

lemma cache_inv_Nil [simp]: "cache_inv []"
  by (simp add: cache_inv_def)

lemma url_at_good: "url_at u b ps \<Longrightarrow> good_parts ps"
  by (simp add: url_at_def)

lemma cache_inv_at: "cache_inv known \<Longrightarrow> good_parts ps \<Longrightarrow> dir_at known b ps = Some d \<Longrightarrow> members_plain d \<and> url_at (di_url d) b ps"
  unfolding cache_inv_def dir_at_def by (metis key_text_inj url_at_good)

lemma cache_inv_set:
  assumes "cache_inv known" "url_at (di_url d) b ps" "members_plain d"
  shows "cache_inv (om_set (key_text b ps) d known)"
proof -
  have inv: "om_inv known" using assms(1) by (simp add: cache_inv_def)
  show ?thesis using assms unfolding cache_inv_def om_get_om_set [OF inv]
    by (auto simp: om_inv_om_set)
qed

lemma kept_set: "cache_inv known \<Longrightarrow> good_parts ps \<Longrightarrow> kept known (om_set (key_text b ps) d known)"
  by (auto simp: kept_def cache_inv_def dir_at_set)

lemma cache_inv_del: "cache_inv known \<Longrightarrow> cache_inv (om_del k known)"
  by (auto simp: cache_inv_def om_get_om_del split: if_splits)

section \<open>Creating\<close>

lemma link_parents_total:
  assumes "url_at u b ps" "cache_inv known"
  shows "\<exists>known'. link_parents e u known = Inr known' \<and> cache_inv known' \<and> kept known known' \<and>
    (\<forall>c rs. good_parts rs \<longrightarrow> \<not> (c = b \<and> strict_prefix rs ps) \<longrightarrow> dir_at known' c rs = dir_at known c rs)"
  using assms
proof (induction ps arbitrary: u known rule: rev_induct)
  case Nil
  then show ?case by (simp add: url_at_def good_parts_def)
next
  case (snoc n qs)
  note at = snoc.prems(1) and inv = snoc.prems(2)
  show ?case
  proof (cases "qs = []")
    case True
    then have "link_parents e u known = Inr known"
      using url_at_key(3) [OF at] by (subst link_parents.simps) simp
    then show ?thesis using inv by simp
  next
    case False
    obtain p d' where p: "url_at p b qs" "members_plain d'"
      and step: "link_parents e u known = (if dir_at known b qs \<noteq> None then Inr (om_set (key_text b qs) d' known)
        else link_parents e p (om_set (key_text b qs) d' known))"
      and url: "di_url d' = (case dir_at known b qs of Some d \<Rightarrow> di_url d | None \<Rightarrow> p)"
      by (rule link_parents_step [OF at False cache_inv_wf [OF inv], of e])
    let ?known = "om_set (key_text b qs) d' known"
    have gq: "good_parts qs" by (rule url_at_good [OF p(1)])
    have "url_at (di_url d') b qs" using url p(1) cache_inv_at [OF inv gq] by (cases "dir_at known b qs") auto
    then have inv': "cache_inv ?known" using inv p(2) cache_inv_set by blast
    have k: "kept known ?known" by (rule kept_set [OF inv gq])
    have same: "dir_at ?known c rs = dir_at known c rs" if "good_parts rs" "\<not> (c = b \<and> strict_prefix rs (qs @ [n]))" for c rs
      using that inv gq by (auto simp: dir_at_set cache_inv_def strict_prefix_def)
    show ?thesis
    proof (cases "dir_at known b qs")
      case None
      obtain known' where k': "link_parents e p ?known = Inr known'" "cache_inv known'" "kept ?known known'"
        "\<And>c rs. good_parts rs \<Longrightarrow> \<not> (c = b \<and> strict_prefix rs qs) \<Longrightarrow> dir_at known' c rs = dir_at ?known c rs"
        using snoc.IH [OF p(1) inv'] by blast
      have "dir_at known' c rs = dir_at known c rs" if "good_parts rs" "\<not> (c = b \<and> strict_prefix rs (qs @ [n]))" for c rs
        using k'(4) [OF that(1)] same [OF that] that(2) by (auto simp: strict_prefix_def)
      then show ?thesis using step None k'(1,2) kept_trans [OF k k'(3)] by auto
    next
      case (Some d)
      then show ?thesis using step inv' k same by auto
    qed
  qed
qed

lemma create_total:
  assumes "cache_inv known" "url_at (di_url r) b ps" "members_plain r"
  shows "\<exists>known'. CreateAndLinkParents e r known = Inr (dir_at known b ps = None, known') \<and> cache_inv known' \<and> kept known known' \<and>
    dir_at known' b ps = Some (case dir_at known b ps of None \<Rightarrow> r | Some d \<Rightarrow> d)"
proof -
  note key = url_at_key(1,2) [OF assms(2)]
  have good: "good_parts ps" by (rule url_at_good [OF assms(2)])
  show ?thesis
  proof (cases "dir_at known b ps")
    case (Some d)
    then show ?thesis using assms key
      by (simp add: CreateAndLinkParents_def cache_write_def cache_lookup_at [OF assms(2)])
  next
    case None
    let ?known = "om_set (key_text b ps) r known"
    have inv: "cache_inv ?known" by (rule cache_inv_set [OF assms])
    obtain known' where k: "link_parents e (di_url r) ?known = Inr known'" "cache_inv known'" "kept ?known known'"
      "dir_at known' b ps = dir_at ?known b ps"
      using link_parents_total [OF assms(2) inv, of e] good by (auto simp: strict_prefix_def)
    have "dir_at ?known b ps = Some r" using assms(1) good by (simp add: dir_at_set cache_inv_def)
    then show ?thesis using None key k kept_trans [OF kept_set [OF assms(1) good] k(3)]
      by (simp add: CreateAndLinkParents_def cache_write_def cache_lookup_at [OF assms(2)])
  qed
qed

lemma update_total:
  assumes "cache_inv known" "url_at (di_url d) b ps" "members_plain d"
  shows "dc_Update d known = Inr (True, om_set (key_text b ps) d known)" "cache_inv (om_set (key_text b ps) d known)"
  using cache_inv_set [OF assms] url_at_key(1,2) [OF assms(2)]
  by (simp_all add: dc_Update_def dc_write_def cache_write_def cache_lookup_at [OF assms(2)])

lemma empty_refused: "dc_Update DirectoryInfo_empty known = Inr (False, known)" "CreateAndLinkParents e DirectoryInfo_empty known = Inr (False, known)"
  by (simp_all add: dc_Update_def dc_write_def CreateAndLinkParents_def DirectoryInfo_empty_def url_Valid_def IsRoot_def)

lemma empty_is_empty [simp]: "di_IsEmpty DirectoryInfo_empty"
  by (simp add: di_IsEmpty_def DirectoryInfo_empty_def url_IsEmpty_def)

lemma entry_not_empty: "url_at (di_url d) b ps \<Longrightarrow> \<not> di_IsEmpty d"
  using url_at_key(2) [of "di_url d" b ps] by (auto simp: di_IsEmpty_def url_IsEmpty_def url_Valid_def IsRoot_def)

section \<open>Joining and leaving\<close>

lemma auto_name_part: "dir_part (auto_name i)"
proof -
  have "\<not> isxdigit CHR ''/''" "\<not> isxdigit CHR ''&''" by code_simp+
  then show ?thesis using hex_of_nat_xdigit [of _ i] by (auto simp: dir_part_def plain_part_def auto_name_def)
qed

lemma GetParent_root: "IsRootLevel u \<Longrightarrow> \<exists>p. GetParent u = Inr p"
proof -
  have "SplitPath ''/'' = []" by code_simp
  then show "IsRootLevel u \<Longrightarrow> \<exists>p. GetParent u = Inr p" by (simp add: GetParent_def GetLineageReference_def IsRootLevel_def)
qed

lemma di_Join_plain:
  assumes "members_plain d" "name = [] \<or> dir_part name"
  shows "members_plain (snd (di_Join node name d))" "di_url (snd (di_Join node name d)) = di_url d"
proof -
  obtain j where "unused_name (members d) (length (members d)) = auto_name j" using unused_name_fresh by blast
  then have "dir_part (unused_name (members d) (length (members d)))" by (simp add: auto_name_part)
  then show "members_plain (snd (di_Join node name d))" using assms by (auto simp: di_Join_def members_plain_def Let_def)
  show "di_url (snd (di_Join node name d)) = di_url d" by (simp add: di_Join_def Let_def)
qed

text \<open>The entry handed back is empty or the one now in the cache.\<close>

definition handed :: "dircache \<Rightarrow> DirectoryInfo \<Rightarrow> bool" where
  "handed known d = (d = DirectoryInfo_empty \<or> (\<exists>b ps. good_parts ps \<and> dir_at known b ps = Some d))"

lemma handed_entry: "cache_inv known \<Longrightarrow> handed known d \<Longrightarrow> d \<noteq> DirectoryInfo_empty \<Longrightarrow> members_plain d \<and> (\<exists>b ps. url_at (di_url d) b ps)"
  using cache_inv_at by (fastforce simp: handed_def)

lemma update_entry:
  assumes "cache_inv known" "good_parts ps" "dir_at known b ps = Some d" "members_plain d'" "di_url d' = di_url d"
  shows "cache_inv (om_set (key_text b ps) d' known)" "kept known (om_set (key_text b ps) d' known)" "handed (om_set (key_text b ps) d' known) d'"
proof -
  have "url_at (di_url d') b ps" using cache_inv_at [OF assms(1-3)] assms(5) by simp
  then show "cache_inv (om_set (key_text b ps) d' known)" using assms(1,4) cache_inv_set by blast
  show "kept known (om_set (key_text b ps) d' known)" by (rule kept_set [OF assms(1,2)])
  have "dir_at (om_set (key_text b ps) d' known) b ps = Some d'" using assms(1,2) by (simp add: dir_at_set cache_inv_def)
  then show "handed (om_set (key_text b ps) d' known) d'" using assms(2) by (auto simp: handed_def)
qed

lemma url_at_name: "url_at u b ps \<Longrightarrow> dir_part (url_name u)"
  by (auto simp: url_at_def good_parts_def list_all_iff)

lemma join_total:
  assumes "cache_inv known" "url_at u b ps"
  shows "\<exists>found d known'. dc_Join u known = Inr (found, d, known') \<and> cache_inv known' \<and> kept known known' \<and> handed known' d"
proof -
  let ?auto = "GetOption auto_generate_option_label [] u = ''1''"
  show ?thesis
  proof (cases "\<not> ?auto \<and> IsRootLevel u")
    case True
    then show ?thesis using GetParent_root [of u] assms(1) by (auto simp: dc_Join_def handed_def)
  next
    case False
    obtain p qs where p: "(if ?auto then Inr u else GetParent u) = Inr p" "url_at p b qs"
    proof (cases ?auto)
      case True
      then show ?thesis using that [of u ps] assms(2) by simp
    next
      case no: False
      then have "length ps \<noteq> 1" using False url_at_key(3) [OF assms(2)] by simp
      then show ?thesis using url_at_parent [OF assms(2)] that no by (metis (full_types))
    qed
    show ?thesis
    proof (cases "dir_at known b qs")
      case None
      then show ?thesis using p False assms(1) by (auto simp: dc_Join_def cache_lookup_at [OF p(2)] handed_def)
    next
      case (Some d)
      obtain ok d' where j: "di_Join (url_node u) (if ?auto then [] else url_name u) d = (ok, d')" by fastforce
      have good: "good_parts qs" by (rule url_at_good [OF p(2)])
      have "members_plain d'" "di_url d' = di_url d"
        using di_Join_plain [of d "if ?auto then [] else url_name u" "url_node u"] cache_inv_at [OF assms(1) good Some] url_at_name [OF assms(2)] j by auto
      note k = update_entry [OF assms(1) good Some this]
      show ?thesis using p False Some j k url_at_key(1) [OF p(2)]
        by (auto simp: dc_Join_def cache_lookup_at [OF p(2)]) (auto simp: handed_def)
    qed
  qed
qed

lemma erase_plain: "members_plain d \<Longrightarrow> members_plain (d\<lparr>members := erase_first P (members d)\<rparr>)"
  using set_erase_first [of P "members d"] by (auto simp: members_plain_def list_all_iff)

lemma LeaveBy_plain:
  "members_plain d \<Longrightarrow> members_plain (snd (LeaveByName n d))" "di_url (snd (LeaveByName n d)) = di_url d"
  "members_plain d \<Longrightarrow> members_plain (snd (LeaveByNode k d))" "di_url (snd (LeaveByNode k d)) = di_url d"
  using erase_plain by (simp_all add: LeaveByName_def LeaveByNode_def)

lemma di_Leave_plain: "members_plain d \<Longrightarrow> members_plain (snd (di_Leave u d)) \<and> di_url (snd (di_Leave u d)) = di_url d"
  using LeaveBy_plain(1,2) [where d = d] LeaveBy_plain(3,4) [where k = "url_node u"]
  by (cases "LeaveByName (url_name u) d") (simp add: di_Leave_def, metis snd_conv)

lemma leave_total:
  assumes "cache_inv known" "url_at u b ps"
  shows "\<exists>removed d known'. dc_Leave u known = Inr (removed, d, known') \<and> cache_inv known' \<and> kept known known' \<and> handed known' d"
proof (cases "length ps = 1")
  case True
  then have "url_path u = ''/''" using url_at_key(3) [OF assms(2)] by (simp add: IsRootLevel_def)
  then show ?thesis using GetParent_root [of u] assms(1) by (auto simp: dc_Leave_def IsRootLevel_def handed_def)
next
  case False
  obtain p where p: "GetParent u = Inr p" "url_at p b (butlast ps)" using url_at_parent [OF assms(2) False] by blast
  have path: "url_path u \<noteq> ''/''" using False url_at_key(3) [OF assms(2)] by (simp add: IsRootLevel_def)
  have good: "good_parts (butlast ps)" by (rule url_at_good [OF p(2)])
  show ?thesis
  proof (cases "dir_at known b (butlast ps)")
    case None
    then show ?thesis using p path assms(1) by (auto simp: dc_Leave_def cache_lookup_at [OF p(2)] handed_def)
  next
    case (Some d)
    obtain rem d' where l: "di_Leave u d = (rem, d')" by fastforce
    have "members_plain d'" "di_url d' = di_url d" using di_Leave_plain [of d u] cache_inv_at [OF assms(1) good Some] l by auto
    note k = update_entry [OF assms(1) good Some this]
    show ?thesis using p path Some l k url_at_key(1) [OF p(2)] by (auto simp: dc_Leave_def cache_lookup_at [OF p(2)])
  qed
qed

section \<open>Removing\<close>

lemma remove_loop_total:
  assumes "cache_inv known" "\<forall>u\<in>set us. \<exists>b ps. url_at u b ps"
  shows "\<exists>known'. remove_loop us known = Inr known' \<and> cache_inv known'"
  using assms
proof (induction us known rule: remove_loop.induct)
  case (1 known)
  then show ?case by simp
next
  case (2 u us known)
  obtain b ps where at: "url_at u b ps" using "2.prems"(2) by auto
  note key = url_at_key(1) [OF at] and good = url_at_good [OF at]
  show ?case
  proof (cases "dir_at known b ps")
    case None
    then have step: "removeSingleDir u known = Inr ([], known)" by (simp add: removeSingleDir_def key dir_at_def)
    show ?thesis using "2.IH" [OF step refl "2.prems"(1)] "2.prems"(2) by (simp add: remove_loop.simps(2) step)
  next
    case (Some d)
    then have plain: "list_all (\<lambda>m. dir_part (nn_name m)) (members d)"
      using cache_inv_at [OF "2.prems"(1) good] by (simp add: members_plain_def)
    then have named: "filter (\<lambda>m. nn_name m \<noteq> []) (members d) = members d"
      by (auto simp: list_all_iff filter_id_conv dir_part_def plain_part_def)
    obtain cs where cs: "rmap_list (\<lambda>m. ResourceURL_ctor (key_text b ps @ ''/'' @ nn_name m)) (members d) = Inr cs"
      "\<forall>v\<in>set cs. \<exists>n. url_at v b (ps @ [n])" by (rule child_urls [OF good plain])
    have step: "removeSingleDir u known = Inr (cs, om_del (key_text b ps) known)"
      using Some cs(1) named by (simp add: removeSingleDir_def key dir_at_def)
    have "\<forall>u\<in>set (rev cs @ us). \<exists>b ps. url_at u b ps" using cs(2) "2.prems"(2) by fastforce
    then show ?thesis using "2.IH" [OF step refl cache_inv_del [OF "2.prems"(1)]] by (simp add: remove_loop.simps(2) step)
  qed
qed

lemma remove_total:
  assumes "cache_inv known" "url_at u b ps"
  shows "\<exists>found known'. dc_Remove u known = Inr (found, known') \<and> cache_inv known'"
proof -
  have loop: "\<exists>known''. remove_loop [u] known' = Inr known'' \<and> cache_inv known''" if "cache_inv known'" for known'
    using remove_loop_total [OF that, of "[u]"] assms(2) by auto
  have root: "url_path u = ''/'' \<longleftrightarrow> length ps = 1" using url_at_key(3) [OF assms(2)] by (simp add: IsRootLevel_def)
  show ?thesis
  proof (cases "dir_at known b ps = None \<or> length ps = 1")
    case True
    then show ?thesis using assms(1) loop [OF assms(1)] root by (auto simp: dc_Remove_def cache_lookup_at [OF assms(2)])
  next
    case False
    obtain p where p: "GetParent u = Inr p" "url_at p b (butlast ps)" using url_at_parent [OF assms(2)] False by blast
    have good: "good_parts (butlast ps)" by (rule url_at_good [OF p(2)])
    show ?thesis
    proof (cases "dir_at known b (butlast ps)")
      case None
      then show ?thesis using False p loop [OF assms(1)] root
        by (auto simp: dc_Remove_def cache_lookup_at [OF assms(2)] cache_lookup_at [OF p(2)])
    next
      case (Some d)
      have "members_plain (leave_child (url_name u) d)" "di_url (leave_child (url_name u) d) = di_url d"
        using leave_child_plain cache_inv_at [OF assms(1) good Some] by (simp_all add: leave_child_def LeaveByName_def)
      note k = update_entry(1) [OF assms(1) good Some this]
      show ?thesis using False p loop [OF k] root Some url_at_key(1) [OF p(2)]
        by (auto simp: dc_Remove_def cache_lookup_at [OF assms(2)] cache_lookup_at [OF p(2)] leave_child_def)
    qed
  qed
qed

end
