(* ===== verification/Dirman_Service.thy ===== *)
theory Dirman_Service
  imports Dirman_Facts
begin

text \<open>
  The centralized directory manager on many nodes: calls begin at any time on any node, and the
  requests, the two parts of the root's work and the replies interleave in any order.
\<close>

section \<open>Nodes and calls in progress\<close>

datatype progress = Sent text_message | Between text_message target_rest | Replied text_message

datatype stage = Waiting OpDirManCentralized progress | Finished bool "DirectoryInfo option"

record session =
  ses_node :: nodeid_t
  ses_call :: dirman_call
  ses_stage :: stage

record service =
  core_of :: "nodeid_t \<Rightarrow> DirManCore"
  sessions :: "session list"

text \<open>A call begins: it is answered at once, or its op is launched and sends its message.\<close>

definition start_call ::
  "bool \<Rightarrow> (DirectoryInfo \<Rightarrow> string) \<Rightarrow> (string \<Rightarrow> DirectoryInfo result) \<Rightarrow> nodeid_t \<Rightarrow> dirman_call \<Rightarrow> service \<Rightarrow> service result" where
  "start_call e pack unpack n call s =
     rbind (begin_call e pack True (of_nat (Suc (length (sessions s)))) call (core_of s n)) (\<lambda>b. case b of
       Answered ok out core1 \<Rightarrow>
         Inr (s\<lparr>core_of := (core_of s)(n := core1), sessions := sessions s @ [\<lparr>ses_node = n, ses_call = call, ses_stage = Finished ok out\<rparr>]\<rparr>)
     | Launched op \<Rightarrow>
         rbind (Dirman_UpdateOrigin unpack (Args_update Start) op) (\<lambda>(_, op1, msgs). case msgs of
           [] \<Rightarrow> Inl Deadlock
         | m # _ \<Rightarrow> Inr (s\<lparr>sessions := sessions s @ [\<lparr>ses_node = n, ses_call = call, ses_stage = Waiting op1 (Sent m)\<rparr>]\<rparr>)))"

definition set_stage :: "nat \<Rightarrow> stage \<Rightarrow> service \<Rightarrow> service" where
  "set_stage i st s = s\<lparr>sessions := (sessions s)[i := (sessions s ! i)\<lparr>ses_stage := st\<rparr>]\<rparr>"

text \<open>The next step of the i-th call.\<close>

definition advance_call ::
  "bool \<Rightarrow> (DirectoryInfo \<Rightarrow> string) \<Rightarrow> (string \<Rightarrow> DirectoryInfo result) \<Rightarrow> nat \<Rightarrow> service \<Rightarrow> service result" where
  "advance_call e pack unpack i s =
     (let n = ses_node (sessions s ! i) in
      case ses_stage (sessions s ! i) of
        Waiting op (Sent m) \<Rightarrow>
          rbind (target_begin e unpack m (core_of s (msg_dst (fst m)))) (\<lambda>(rest, core1).
            Inr (set_stage i (Waiting op (Between m rest)) (s\<lparr>core_of := (core_of s)(msg_dst (fst m) := core1)\<rparr>)))
      | Waiting op (Between m rest) \<Rightarrow>
          rbind (target_end pack m rest (core_of s (msg_dst (fst m)))) (\<lambda>reply. Inr (set_stage i (Waiting op (Replied reply)) s))
      | Waiting op (Replied m) \<Rightarrow>
          rbind (Dirman_UpdateOrigin unpack (Args_message m) op) (\<lambda>(_, op1, _). case dm_promise op1 of
            None \<Rightarrow> Inl Deadlock
          | Some d \<Rightarrow> rbind (end_call e (ses_call (sessions s ! i)) d (core_of s n)) (\<lambda>(ok, out, core1).
              Inr (set_stage i (Finished ok out) (s\<lparr>core_of := (core_of s)(n := core1)\<rparr>))))
      | Finished ok out \<Rightarrow> Inr s)"

section \<open>Runs\<close>

text \<open>A node with the number \<open>n\<close> of a service with the root \<open>r\<close> and the default bucket \<open>B\<close>, and calls with well-formed urls.\<close>

definition core_ok :: "nodeid_t \<Rightarrow> bucket_t \<Rightarrow> nodeid_t \<Rightarrow> DirManCore \<Rightarrow> bool" where
  "core_ok r B n c = (dm_node c = n \<and> dm_bucket c = B \<and> root_id c = r \<and> am_root c = (n = r) \<and> cache_inv (dc_mine c) \<and> cache_inv (dc_others c))"

definition named_url :: "ResourceURL \<Rightarrow> bool" where
  "named_url u = (url_ok u \<and> (\<exists>ps. url_at u (url_bucket u) ps) \<and> length (GetFullURL u) < 2 ^ 32)"

fun call_ok :: "(DirectoryInfo \<Rightarrow> string) \<Rightarrow> DirManCore \<Rightarrow> dirman_call \<Rightarrow> bool" where
  "call_ok pack core (Call_GetDirectoryInfo url check_local check_remote) = named_url (localizeURL False core url)"
| "call_ok pack core (Call_HostNewDir d) =
     ((\<exists>b ps. url_at (di_url (hosted_info core d)) b ps) \<and> members_plain d \<and> length (pack (hosted_info core d)) < 2 ^ 32)"
| "call_ok pack core (Call_JoinDir url name) = (case join_url url name core of Inr u \<Rightarrow> named_url u | Inl _ \<Rightarrow> False)"
| "call_ok pack core (Call_LeaveDir url) = named_url (localizeURL False core url)"
| "call_ok pack core (Call_DropDir url) = named_url (localizeURL False core url)"

text \<open>The states of a run, the latest first.\<close>

inductive dirman_run :: "bool \<Rightarrow> (DirectoryInfo \<Rightarrow> string) \<Rightarrow> (string \<Rightarrow> DirectoryInfo result) \<Rightarrow> nodeid_t \<Rightarrow> bucket_t \<Rightarrow> service list \<Rightarrow> bool"
  for e pack unpack r B where
  run_init: "sessions s = [] \<Longrightarrow> \<forall>n. core_ok r B n (core_of s n) \<Longrightarrow> dirman_run e pack unpack r B [s]"
| run_begin: "dirman_run e pack unpack r B (s # ss) \<Longrightarrow> call_ok pack (core_of s n) call \<Longrightarrow>
    start_call e pack unpack n call s = Inr s' \<Longrightarrow> dirman_run e pack unpack r B (s' # s # ss)"
| run_advance: "dirman_run e pack unpack r B (s # ss) \<Longrightarrow> i < length (sessions s) \<Longrightarrow>
    advance_call e pack unpack i s = Inr s' \<Longrightarrow> dirman_run e pack unpack r B (s' # s # ss)"

text \<open>What is asked of cereal, and that the entries are small enough for the length field of a message.\<close>

definition cereal_ok :: "(DirectoryInfo \<Rightarrow> string) \<Rightarrow> (string \<Rightarrow> DirectoryInfo result) \<Rightarrow> bool" where
  "cereal_ok pack unpack = ((\<forall>d. unpack (pack d) = Inr d) \<and> length (pack DirectoryInfo_empty) < 2 ^ 32)"

definition entries_fit :: "(DirectoryInfo \<Rightarrow> string) \<Rightarrow> nodeid_t \<Rightarrow> service \<Rightarrow> bool" where
  "entries_fit pack r s = (\<forall>b ps d. good_parts ps \<longrightarrow> dir_at (dc_mine (core_of s r)) b ps = Some d \<longrightarrow> length (pack d) < 2 ^ 32)"

section \<open>Urls on their way\<close>

text \<open>A core with nothing in it: what the urls of a call are made with.\<close>

definition site :: "nodeid_t \<Rightarrow> bucket_t \<Rightarrow> nodeid_t \<Rightarrow> DirManCore" where
  "site r B n = \<lparr>dc_others = [], dc_mine = [], doc = [], dm_node = n, dm_bucket = B, strict_checking = False, root_id = r, am_root = (n = r)\<rparr>"

lemma site_urls:
  assumes "core_ok r B n c"
  shows "localizeURL f c u = localizeURL f (site r B n) u" "hosted_info c d = hosted_info (site r B n) d" "join_url u name c = join_url u name (site r B n)"
  using assms by (simp_all add: core_ok_def site_def localizeURL_def hosted_info_def join_url_def Let_def)

lemma call_ok_site: "core_ok r B n c \<Longrightarrow> call_ok pack c call = call_ok pack (site r B n) call"
  by (cases call) (simp_all add: site_urls)

lemma url_at_fields: "url_at (u\<lparr>url_options := opts\<rparr>) b ps = url_at u b ps" "url_at (u\<lparr>url_node := k\<rparr>) b ps = url_at u b ps"
  by (simp_all add: url_at_def)

lemma localize_at: "url_at u b ps \<Longrightarrow> url_at (localizeURL f c u) (url_bucket (localizeURL f c u)) ps"
  by (simp add: url_at_def localizeURL_def Let_def)

text \<open>The root finds nothing to add to a url another node has filled in.\<close>

lemma localize_twice:
  "url_at (localizeURL f (site r B m) ((localizeURL f' (site r B n) u)\<lparr>url_options := opts\<rparr>)) b ps = url_at (localizeURL f' (site r B n) u) b ps"
  by (simp add: localizeURL_def site_def url_at_def Let_def)

lemma named_at: "named_url u \<Longrightarrow> \<exists>b ps. url_at u b ps"
  by (auto simp: named_url_def)

lemma named_localize: "named_url u \<Longrightarrow> \<exists>b ps. url_at (localizeURL f c (u\<lparr>url_options := opts\<rparr>)) b ps"
  using localize_at [of "u\<lparr>url_options := opts\<rparr>"] unfolding named_url_def url_at_fields by blast

section \<open>The root answers\<close>

text \<open>The message a call of node \<open>n\<close> sends, and what an entry in an answer to it is.\<close>

fun asks :: "(DirectoryInfo \<Rightarrow> string) \<Rightarrow> nodeid_t \<Rightarrow> bucket_t \<Rightarrow> nodeid_t \<Rightarrow> mailbox_t \<Rightarrow> dirman_call \<Rightarrow> text_message \<Rightarrow> bool" where
  "asks pack r B n mb (Call_GetDirectoryInfo url check_local check_remote) m =
     (m = snd (AllocateRequest_url n RT_GetInfo r mb (localizeURL False (site r B n) url)))"
| "asks pack r B n mb (Call_HostNewDir d) m = (m = snd (AllocateRequest_info pack n RT_HostNewDir r mb (hosted_info (site r B n) d)))"
| "asks pack r B n mb (Call_JoinDir url name) m =
     (\<exists>u. join_url url name (site r B n) = Inr u \<and> m = snd (AllocateRequest_url n RT_JoinDir r mb u))"
| "asks pack r B n mb (Call_LeaveDir url) m = (m = snd (AllocateRequest_url n RT_LeaveDir r mb (localizeURL False (site r B n) url)))"
| "asks pack r B n mb (Call_DropDir url) m = (m = snd (AllocateRequest_url n RT_DropDir r mb (localizeURL False (site r B n) url)))"

fun is_drop :: "dirman_call \<Rightarrow> bool" where
  "is_drop (Call_DropDir _) = True"
| "is_drop _ = False"

lemma asks_header: "asks pack r B n mb call m \<Longrightarrow> msg_op_id (fst m) = dirman_id \<and> msg_dst (fst m) = r"
  by (cases call) (auto simp: AllocateRequest_url_def AllocateStringRequestMessage_def AllocateRequest_info_def
      AllocateCerealRequestMessage_def SetStandardRequest_def Let_def)

lemma sent_code [simp]: "request_of (user_flags (fst (snd (AllocateRequest_url n q r mb u)))) = Some q"
  "request_of (user_flags (fst (snd (AllocateRequest_info pack n q r mb d)))) = Some q"
  by (simp_all add: AllocateRequest_url_def AllocateStringRequestMessage_def AllocateRequest_info_def AllocateCerealRequestMessage_def
      SetStandardRequest_def Let_def)

lemma root_lookup: "cache_inv known \<Longrightarrow> url_at u b ps \<Longrightarrow>
    dc_Lookup u out known = Inr (case dir_at known b ps of None \<Rightarrow> (False, DirectoryInfo_empty) | Some d \<Rightarrow> (True, d))"
  by (auto simp: dc_Lookup_def cache_lookup_at IsRoot_def url_at_def good_parts_def list_all_iff dir_part_def plain_part_def split: option.split)

lemma core_ok_mine: "core_ok r B n c \<Longrightarrow> cache_inv mine \<Longrightarrow> core_ok r B n (c\<lparr>dc_mine := mine\<rparr>)"
  by (simp add: core_ok_def)

text \<open>What a request does at the root, for each kind.\<close>

lemma root_host:
  assumes "core_ok r B r c" "url_at (di_url (hosted_info c d)) b ps" "members_plain d"
  shows "\<exists>ok c'. root_HostNewDir e d c = Inr (ok, c') \<and> core_ok r B r c' \<and> kept (dc_mine c) (dc_mine c') \<and>
    dir_at (dc_mine c') b ps \<noteq> None"
proof -
  have "members_plain (hosted_info c d)" using assms(3) by (simp add: hosted_info_def members_plain_def)
  moreover have "cache_inv (dc_mine c)" using assms(1) by (simp add: core_ok_def)
  ultimately show ?thesis
    using create_total [of "dc_mine c" "hosted_info c d" b ps e] assms(2) core_ok_mine [OF assms(1)]
    by (auto simp: root_HostNewDir_def)
qed

lemma root_join:
  assumes "core_ok r B r c" "join_url u name c = Inr u'" "url_at u' b ps"
  shows "\<exists>found d c'. root_JoinDir u name c = Inr (found, d, c') \<and> core_ok r B r c' \<and> kept (dc_mine c) (dc_mine c') \<and> handed (dc_mine c') d"
  using join_total [of "dc_mine c" u' b ps] assms core_ok_mine [OF assms(1)] by (auto simp: root_JoinDir_def core_ok_def)

lemma root_leave:
  assumes "core_ok r B r c" "url_at (localizeURL False c u) b ps"
  shows "\<exists>removed d c'. root_LeaveDir u c = Inr (removed, d, c') \<and> core_ok r B r c' \<and> kept (dc_mine c) (dc_mine c') \<and> handed (dc_mine c') d"
  using leave_total [of "dc_mine c" "localizeURL False c u" b ps] assms core_ok_mine [OF assms(1)] by (auto simp: root_LeaveDir_def core_ok_def)

lemma root_drop:
  assumes "core_ok r B r c" "url_at (localizeURL False c u) b ps"
  shows "\<exists>found c'. root_DropDir u c = Inr (found, c') \<and> core_ok r B r c'"
  using remove_total [of "dc_mine c" "localizeURL False c u" b ps] assms core_ok_mine [OF assms(1)] by (auto simp: root_DropDir_def core_ok_def)

lemma root_info:
  assumes "core_ok r B r c" "url_at (localizeURL False c u) b ps"
  shows "root_GetInfo u c = Inr (case dir_at (dc_mine c) b ps of None \<Rightarrow> (False, DirectoryInfo_empty) | Some d \<Rightarrow> (True, d))"
  using root_lookup assms by (simp add: root_GetInfo_def core_ok_def)

text \<open>The first part of the target's work.\<close>

definition rest_ok :: "nodeid_t \<Rightarrow> bucket_t \<Rightarrow> nodeid_t \<Rightarrow> dirman_call \<Rightarrow> dircache \<Rightarrow> target_rest \<Rightarrow> bool" where
  "rest_ok r B n call known rest = (case rest of
     Look_up u \<Rightarrow> (\<exists>d. call = Call_HostNewDir d \<and> u = di_url (hosted_info (site r B n) d) \<and> (\<forall>b ps. url_at u b ps \<longrightarrow> dir_at known b ps \<noteq> None))
   | Have d \<Rightarrow> handed known d \<and> (case call of
       Call_GetDirectoryInfo url _ _ \<Rightarrow> (\<forall>b ps. url_at (localizeURL False (site r B n) url) b ps \<longrightarrow>
         dir_at known b ps = (if d = DirectoryInfo_empty then None else Some d))
     | Call_HostNewDir _ \<Rightarrow> False | _ \<Rightarrow> True))"

lemma url_at_bucket: "url_at u b ps \<Longrightarrow> url_at u c qs \<Longrightarrow> c = b \<and> qs = ps"
  using url_at_unique by (metis url_at_def)

lemma hosted_twice:
  "url_at (di_url (hosted_info (site r B m) (hosted_info (site r B n) d))) b ps = url_at (di_url (hosted_info (site r B n) d)) b ps"
  "url_at (localizeURL f (site r B m) (di_url (hosted_info (site r B n) d))) b ps = url_at (di_url (hosted_info (site r B n) d)) b ps"
  by (simp_all add: hosted_info_def localizeURL_def site_def url_at_def Let_def)

lemma handed_exact:
  assumes "cache_inv known" "good_parts ps" "d = (case dir_at known b ps of None \<Rightarrow> DirectoryInfo_empty | Some d \<Rightarrow> d)"
  shows "handed known d" "dir_at known b ps = (if d = DirectoryInfo_empty then None else Some d)"
  using assms cache_inv_at [OF assms(1,2)] entry_not_empty [of DirectoryInfo_empty b ps]
  by (auto simp: handed_def split: option.splits)

lemma target_host:
  assumes "cereal_ok pack unpack" "core_ok r B r c" "call_ok pack (site r B n) (Call_HostNewDir d)" "asks pack r B n mb (Call_HostNewDir d) m"
  shows "\<exists>rest c'. target_begin e unpack m c = Inr (rest, c') \<and> core_ok r B r c' \<and> kept (dc_mine c) (dc_mine c') \<and>
    rest_ok r B n (Call_HostNewDir d) (dc_mine c') rest"
proof -
  let ?d = "hosted_info (site r B n) d"
  obtain b ps where at: "url_at (di_url ?d) b ps" using assms(3) by auto
  have x: "ExtractDirInfo unpack m = Inr ?d" using assms(1,3,4) ExtractDirInfo_request [of unpack pack ?d n r mb] by (simp add: cereal_ok_def)
  have "url_at (di_url (hosted_info c ?d)) b ps" using at site_urls(2) [OF assms(2)] by (simp add: hosted_twice)
  moreover have "members_plain ?d" using assms(3) by (simp add: hosted_info_def members_plain_def)
  ultimately obtain ok c' where h: "root_HostNewDir e ?d c = Inr (ok, c')" "core_ok r B r c'" "kept (dc_mine c) (dc_mine c')" "dir_at (dc_mine c') b ps \<noteq> None"
    using root_host [OF assms(2), of ?d b ps e] by blast
  have "rest_ok r B n (Call_HostNewDir d) (dc_mine c') (Look_up (di_url ?d))" using h(4) url_at_bucket [OF at] by (auto simp: rest_ok_def)
  moreover have "target_begin e unpack m c = Inr (Look_up (di_url ?d), c')"
    using assms(2,4) x h(1) by (simp add: target_begin_def core_ok_def)
  ultimately show ?thesis using h(2,3) by blast
qed

lemma target_url:
  assumes "named_url u" "m = snd (AllocateRequest_url n q r mb u)" "q \<noteq> RT_HostNewDir" "q \<noteq> RT_ReturnDirInfo"
  shows "ExtractURL m = Inr (u\<lparr>url_options := GetSortedOptions u\<rparr>)" "request_of (user_flags (fst m)) = Some q"
  using assms ExtractURL_request [of u q n r mb] by (simp_all add: named_url_def)

lemma target_total:
  assumes "cereal_ok pack unpack" "core_ok r B r c" "call_ok pack (site r B n) call" "asks pack r B n mb call m"
  shows "\<exists>rest c'. target_begin e unpack m c = Inr (rest, c') \<and> core_ok r B r c' \<and> (\<not> is_drop call \<longrightarrow> kept (dc_mine c) (dc_mine c')) \<and>
    rest_ok r B n call (dc_mine c') rest"
proof -
  have root: "am_root c" using assms(2) by (simp add: core_ok_def)
  show ?thesis
  proof (cases call)
    case (Call_HostNewDir d)
    then show ?thesis using target_host [of pack unpack r B c n d mb m e] assms by auto
  next
    case (Call_GetDirectoryInfo url cl cr)
    let ?u = "localizeURL False (site r B n) url"
    have u: "named_url ?u" and m: "m = snd (AllocateRequest_url n RT_GetInfo r mb ?u)" using assms(3,4) Call_GetDirectoryInfo by auto
    note x = target_url [OF u m]
    obtain b ps where at: "url_at ?u b ps" using named_at [OF u] by blast
    let ?d = "case dir_at (dc_mine c) b ps of None \<Rightarrow> DirectoryInfo_empty | Some d \<Rightarrow> d"
    have "url_at (localizeURL False c (?u\<lparr>url_options := GetSortedOptions ?u\<rparr>)) b ps" using at by (simp add: site_urls(1) [OF assms(2)] localize_twice)
    then have "target_begin e unpack m c = Inr (Have ?d, c)"
      using x root_info [OF assms(2)] assms(2) by (auto simp: target_begin_def core_ok_def split: option.split)
    moreover have "rest_ok r B n call (dc_mine c) (Have ?d)"
      using handed_exact [of "dc_mine c" ps ?d b] assms(2) url_at_good [OF at] url_at_bucket [OF at] Call_GetDirectoryInfo by (auto simp: rest_ok_def core_ok_def)
    ultimately show ?thesis using assms(2) by auto
  next
    case (Call_JoinDir url name)
    then obtain u where u: "join_url url name (site r B n) = Inr u" "named_url u" "m = snd (AllocateRequest_url n RT_JoinDir r mb u)"
      using assms(3,4) by auto
    note x = target_url [OF u(2,3)]
    obtain b ps where at: "url_at (localizeURL True c (u\<lparr>url_options := GetSortedOptions u\<rparr>)) b ps" using named_localize [OF u(2)] by blast
    obtain f d c' where h: "root_JoinDir (u\<lparr>url_options := GetSortedOptions u\<rparr>) [] c = Inr (f, d, c')" "core_ok r B r c'"
      "kept (dc_mine c) (dc_mine c')" "handed (dc_mine c') d"
      using root_join [OF assms(2) _ at, of "u\<lparr>url_options := GetSortedOptions u\<rparr>" "[]"] by (auto simp: join_url_def)
    have "target_begin e unpack m c = Inr (Have d, c')" using x h(1) root by (simp add: target_begin_def)
    then show ?thesis using h Call_JoinDir by (simp add: rest_ok_def)
  next
    case (Call_LeaveDir url)
    let ?u = "localizeURL False (site r B n) url"
    have u: "named_url ?u" and m: "m = snd (AllocateRequest_url n RT_LeaveDir r mb ?u)" using assms(3,4) Call_LeaveDir by auto
    note x = target_url [OF u m]
    let ?v = "?u\<lparr>url_options := GetSortedOptions ?u\<rparr>"
    obtain b ps where at: "url_at (localizeURL False c ?v) b ps" using named_localize [OF u] by blast
    obtain f d c' where h: "root_LeaveDir ?v c = Inr (f, d, c')" "core_ok r B r c'" "kept (dc_mine c) (dc_mine c')" "handed (dc_mine c') d"
      using root_leave [OF assms(2) at] by blast
    have "target_begin e unpack m c = Inr (Have d, c')" using x h(1) root by (simp add: target_begin_def)
    then show ?thesis using h Call_LeaveDir by (simp add: rest_ok_def)
  next
    case (Call_DropDir url)
    let ?u = "localizeURL False (site r B n) url"
    have u: "named_url ?u" and m: "m = snd (AllocateRequest_url n RT_DropDir r mb ?u)" using assms(3,4) Call_DropDir by auto
    note x = target_url [OF u m]
    let ?v = "?u\<lparr>url_options := GetSortedOptions ?u\<rparr>"
    obtain b ps where at: "url_at (localizeURL False c ?v) b ps" using named_localize [OF u] by blast
    obtain f c' where h: "root_DropDir ?v c = Inr (f, c')" "core_ok r B r c'"
      using root_drop [OF assms(2) at] by blast
    have "target_begin e unpack m c = Inr (Have DirectoryInfo_empty, c')" using x h(1) root by (simp add: target_begin_def)
    then show ?thesis using h Call_DropDir by (simp add: rest_ok_def handed_def)
  qed
qed

section \<open>What holds in every run\<close>

text \<open>The root had \<open>x\<close> at a place at some time since the i-th call began.\<close>

definition entry_seen :: "nodeid_t \<Rightarrow> service list \<Rightarrow> nat \<Rightarrow> bucket_t \<Rightarrow> string list \<Rightarrow> DirectoryInfo option \<Rightarrow> bool" where
  "entry_seen r hist i b ps x = (\<exists>t\<in>set hist. i < length (sessions t) \<and> dir_at (dc_mine (core_of t r)) b ps = x)"

definition reply_ok :: "nodeid_t \<Rightarrow> bucket_t \<Rightarrow> service list \<Rightarrow> nat \<Rightarrow> nodeid_t \<Rightarrow> dirman_call \<Rightarrow> DirectoryInfo \<Rightarrow> bool" where
  "reply_ok r B hist i n call d =
     ((d = DirectoryInfo_empty \<or> members_plain d \<and> (\<exists>b ps. url_at (di_url d) b ps)) \<and>
      (case call of
         Call_GetDirectoryInfo url _ _ \<Rightarrow> (\<forall>b ps. url_at (localizeURL False (site r B n) url) b ps \<longrightarrow>
           entry_seen r hist i b ps (if d = DirectoryInfo_empty then None else Some d))
       | Call_HostNewDir di \<Rightarrow> (\<forall>b ps. url_at (di_url (hosted_info (site r B n) di)) b ps \<longrightarrow> (\<exists>x. entry_seen r hist i b ps (Some x)))
       | _ \<Rightarrow> True))"

definition progress_ok ::
  "(DirectoryInfo \<Rightarrow> string) \<Rightarrow> (string \<Rightarrow> DirectoryInfo result) \<Rightarrow> nodeid_t \<Rightarrow> bucket_t \<Rightarrow> service list \<Rightarrow> nat \<Rightarrow> nodeid_t \<Rightarrow> dirman_call \<Rightarrow> progress \<Rightarrow> bool" where
  "progress_ok pack unpack r B hist i n call pr = (case pr of
     Sent m \<Rightarrow> \<exists>mb. asks pack r B n mb call m
   | Between m rest \<Rightarrow> msg_op_id (fst m) = dirman_id \<and> msg_dst (fst m) = r \<and> (case rest of
       Have d \<Rightarrow> reply_ok r B hist i n call d \<and> length (pack d) < 2 ^ 32
     | Look_up u \<Rightarrow> \<exists>di. call = Call_HostNewDir di \<and> u = di_url (hosted_info (site r B n) di) \<and>
         (\<forall>b ps. url_at u b ps \<longrightarrow> (\<exists>x. entry_seen r hist i b ps (Some x))))
   | Replied m \<Rightarrow> \<exists>d. request_of (user_flags (fst m)) = Some RT_ReturnDirInfo \<and> ExtractDirInfo unpack m = Inr d \<and> reply_ok r B hist i n call d)"

text \<open>An answer to a look-up that does not trust the node's own cache, and to a call that hosts an entry.\<close>

definition answer_ok :: "nodeid_t \<Rightarrow> bucket_t \<Rightarrow> service list \<Rightarrow> nat \<Rightarrow> nodeid_t \<Rightarrow> dirman_call \<Rightarrow> bool \<Rightarrow> DirectoryInfo option \<Rightarrow> bool" where
  "answer_ok r B hist i n call ok out = (case call of
     Call_GetDirectoryInfo url check_local check_remote \<Rightarrow> \<not> check_local \<and> check_remote \<longrightarrow>
       (\<forall>b ps. url_at (localizeURL False (site r B n) url) b ps \<longrightarrow> (\<exists>x. entry_seen r hist i b ps x \<and> ok = (x \<noteq> None) \<and> (ok \<longrightarrow> out = x)))
   | Call_HostNewDir di \<Rightarrow> (\<forall>b ps. url_at (di_url (hosted_info (site r B n) di)) b ps \<longrightarrow> (\<exists>x. entry_seen r hist i b ps (Some x)))
   | _ \<Rightarrow> True)"

definition session_ok ::
  "(DirectoryInfo \<Rightarrow> string) \<Rightarrow> (string \<Rightarrow> DirectoryInfo result) \<Rightarrow> nodeid_t \<Rightarrow> bucket_t \<Rightarrow> service list \<Rightarrow> nat \<Rightarrow> session \<Rightarrow> bool" where
  "session_ok pack unpack r B hist i ses = (case ses_stage ses of
     Waiting op pr \<Rightarrow> dm_state op = Dm_snd_wait_for_reply \<and> ses_node ses \<noteq> r \<and> call_ok pack (site r B (ses_node ses)) (ses_call ses) \<and>
       progress_ok pack unpack r B hist i (ses_node ses) (ses_call ses) pr
   | Finished ok out \<Rightarrow> answer_ok r B hist i (ses_node ses) (ses_call ses) ok out)"

definition service_ok ::
  "(DirectoryInfo \<Rightarrow> string) \<Rightarrow> (string \<Rightarrow> DirectoryInfo result) \<Rightarrow> nodeid_t \<Rightarrow> bucket_t \<Rightarrow> service list \<Rightarrow> service \<Rightarrow> bool" where
  "service_ok pack unpack r B hist s = ((\<forall>n. core_ok r B n (core_of s n)) \<and>
     (\<forall>i<length (sessions s). session_ok pack unpack r B hist i (sessions s ! i)))"

lemma entry_seen_mono: "entry_seen r hist i b ps x \<Longrightarrow> set hist \<subseteq> set hist' \<Longrightarrow> entry_seen r hist' i b ps x"
  by (auto simp: entry_seen_def)

lemma reply_ok_mono:
  assumes "reply_ok r B hist i n call d" "set hist \<subseteq> set hist'"
  shows "reply_ok r B hist' i n call d"
proof (cases call)
  case (Call_GetDirectoryInfo url cl cr)
  then show ?thesis using assms entry_seen_mono [OF _ assms(2)] by (simp only: reply_ok_def dirman_call.case) blast
next
  case (Call_HostNewDir di)
  then show ?thesis using assms entry_seen_mono [OF _ assms(2)] by (simp only: reply_ok_def dirman_call.case) blast
qed (use assms(1) in \<open>simp_all add: reply_ok_def\<close>)

lemma answer_ok_mono: "answer_ok r B hist i n call ok out \<Longrightarrow> set hist \<subseteq> set hist' \<Longrightarrow> answer_ok r B hist' i n call ok out"
  by (cases call; simp add: answer_ok_def) (blast intro: entry_seen_mono)+

lemma session_ok_mono:
  assumes "session_ok pack unpack r B hist i ses" "set hist \<subseteq> set hist'"
  shows "session_ok pack unpack r B hist' i ses"
proof (cases "ses_stage ses")
  case (Finished ok out)
  then show ?thesis using assms answer_ok_mono by (simp add: session_ok_def)
next
  case (Waiting op pr)
  then have "progress_ok pack unpack r B hist i (ses_node ses) (ses_call ses) pr" using assms(1) by (simp add: session_ok_def)
  then have "progress_ok pack unpack r B hist' i (ses_node ses) (ses_call ses) pr"
    using assms(2) by (cases pr; simp add: progress_ok_def split: target_rest.splits) (blast intro: entry_seen_mono reply_ok_mono)+
  then show ?thesis using assms(1) Waiting by (simp add: session_ok_def)
qed

text \<open>The first part of a call, away from the root and at the root.\<close>

lemma begin_away:
  assumes "core_ok r B n c" "n \<noteq> r" "call_ok pack c call"
  shows "(\<exists>op. begin_call e pack True mb call c = Inr (Launched op) \<and> dm_state op = Dm_start \<and> asks pack r B n mb call (dm_ldo_msg op)) \<or>
    (\<exists>ok out url cl cr. begin_call e pack True mb call c = Inr (Answered ok out c) \<and> call = Call_GetDirectoryInfo url cl cr \<and> (cl \<or> \<not> cr))"
proof (cases call)
  case (Call_GetDirectoryInfo url cl cr)
  obtain b ps where "url_at (localizeURL False c url) b ps" using assms(3) Call_GetDirectoryInfo named_at [of "localizeURL False c url"] by auto
  then obtain res where "dc_Lookup (localizeURL False c url) DirectoryInfo_empty (dc_others c) = Inr res" using root_lookup assms(1) by (simp add: core_ok_def)
  then show ?thesis using assms Call_GetDirectoryInfo site_urls(1) [OF assms(1)]
    by (cases res) (auto simp: core_ok_def OpDirMan_url_def Let_def)
qed (use assms site_urls [OF assms(1)] in \<open>auto simp: core_ok_def OpDirMan_url_def OpDirMan_info_def split: sum.splits\<close>)

lemma begin_root:
  assumes "core_ok r B r c" "call_ok pack c call"
  shows "\<exists>ok out c'. begin_call e pack True mb call c = Inr (Answered ok out c') \<and> core_ok r B r c' \<and> (\<not> is_drop call \<longrightarrow> kept (dc_mine c) (dc_mine c')) \<and>
    (case call of
       Call_GetDirectoryInfo url _ _ \<Rightarrow> (\<forall>b ps. url_at (localizeURL False (site r B r) url) b ps \<longrightarrow>
         ok = (dir_at (dc_mine c') b ps \<noteq> None) \<and> (ok \<longrightarrow> out = dir_at (dc_mine c') b ps))
     | Call_HostNewDir d \<Rightarrow> (\<forall>b ps. url_at (di_url (hosted_info (site r B r) d)) b ps \<longrightarrow> dir_at (dc_mine c') b ps \<noteq> None)
     | _ \<Rightarrow> True)"
proof -
  have root: "am_root c" using assms(1) by (simp add: core_ok_def)
  show ?thesis
  proof (cases call)
    case (Call_GetDirectoryInfo url cl cr)
    then obtain b ps where at: "url_at (localizeURL False c url) b ps" using assms(2) named_at [of "localizeURL False c url"] by auto
    have "url_at (localizeURL False (site r B r) url) b' ps' \<Longrightarrow> b' = b \<and> ps' = ps" for b' ps'
      using url_at_bucket [OF at] site_urls(1) [OF assms(1)] by simp
    then have same: "\<forall>b' ps'. url_at (localizeURL False (site r B r) url) b' ps' \<longrightarrow> dir_at (dc_mine c) b' ps' = dir_at (dc_mine c) b ps" by blast
    show ?thesis
    proof (cases "dir_at (dc_mine c) b ps")
      case None
      then have "begin_call e pack True mb call c = Inr (Answered False (Some DirectoryInfo_empty) c)"
        using Call_GetDirectoryInfo root root_info [OF assms(1) at] by (simp add: Let_def)
      then show ?thesis using same None assms(1) Call_GetDirectoryInfo by (auto simp del: begin_call.simps)
    next
      case (Some d)
      then have "begin_call e pack True mb call c = Inr (Answered True (Some d) c)"
        using Call_GetDirectoryInfo root root_info [OF assms(1) at] by (simp add: Let_def)
      then show ?thesis using same Some assms(1) Call_GetDirectoryInfo by (auto simp del: begin_call.simps)
    qed
  next
    case (Call_HostNewDir d)
    then obtain b ps where at: "url_at (di_url (hosted_info c d)) b ps" using assms(2) by auto
    have "url_at (di_url (hosted_info (site r B r) d)) b' ps' \<Longrightarrow> b' = b \<and> ps' = ps" for b' ps'
      using url_at_bucket [OF at] site_urls(2) [OF assms(1)] by simp
    moreover obtain ok c' where "root_HostNewDir e d c = Inr (ok, c')" "core_ok r B r c'" "kept (dc_mine c) (dc_mine c')" "dir_at (dc_mine c') b ps \<noteq> None"
      using root_host [OF assms(1) at, of e] Call_HostNewDir assms(2) by auto
    ultimately show ?thesis using Call_HostNewDir root by auto
  next
    case (Call_JoinDir url name)
    then obtain u where "join_url url name c = Inr u" "named_url u" using assms(2) by (auto split: sum.splits)
    moreover obtain b ps where "url_at u b ps" using named_at [OF calculation(2)] by blast
    ultimately show ?thesis using Call_JoinDir root root_join [OF assms(1), of url name u b ps] by auto
  next
    case (Call_LeaveDir url)
    then obtain b ps where "url_at (localizeURL False c url) b ps" using assms(2) named_at [of "localizeURL False c url"] by auto
    then show ?thesis using Call_LeaveDir root root_leave [OF assms(1), of url b ps] by auto
  next
    case (Call_DropDir url)
    then obtain b ps where "url_at (localizeURL False c url) b ps" using assms(2) named_at [of "localizeURL False c url"] by auto
    then show ?thesis using Call_DropDir root root_drop [OF assms(1), of url b ps] by auto
  qed
qed

text \<open>The part of a call after the answer: it keeps the node's caches in order whatever the answer is.\<close>

lemma end_total:
  assumes "core_ok r B n c" "call_ok pack c call" "d = DirectoryInfo_empty \<or> members_plain d \<and> (\<exists>b ps. url_at (di_url d) b ps)"
  shows "\<exists>ok out c'. end_call e call d c = Inr (ok, out, c') \<and> core_ok r B n c' \<and> dc_mine c' = dc_mine c \<and>
    (\<forall>url cl cr. call = Call_GetDirectoryInfo url cl cr \<longrightarrow> ok = (d \<noteq> DirectoryInfo_empty) \<and> (ok \<longrightarrow> out = Some d))"
proof -
  let ?inv = "cache_inv (dc_others c)"
  have inv: ?inv using assms(1) by (simp add: core_ok_def)
  have others: "core_ok r B n (c\<lparr>dc_others := k\<rparr>)" if "cache_inv k" for k using assms(1) that by (simp add: core_ok_def)
  have create: "\<exists>ok k. CreateAndLinkParents e d (dc_others c) = Inr (ok, k) \<and> cache_inv k"
    using assms(3) create_total [OF inv, of d _ _ e] empty_refused inv by blast
  have upd: "\<exists>ok k. dc_Update d (dc_others c) = Inr (ok, k) \<and> cache_inv k"
    using assms(3) update_total [OF inv, of d] empty_refused inv by blast
  have gone: "di_IsEmpty d = (d = DirectoryInfo_empty)" using assms(3) entry_not_empty by auto
  show ?thesis
  proof (cases call)
    case (Call_DropDir url)
    then obtain b ps where "url_at (localizeURL False c url) b ps" using assms(2) named_at [of "localizeURL False c url"] by auto
    then show ?thesis using Call_DropDir remove_total [OF inv] others by fastforce
  qed (use create upd others gone assms(1) in auto)
qed

section \<open>The steps keep what holds\<close>

lemma service_cores:
  assumes "service_ok pack unpack r B hist s" "core_ok r B n c'"
  shows "\<forall>k. core_ok r B k (((core_of s)(n := c')) k)"
  using assms by (simp add: service_ok_def)

text \<open>A new state: the sessions of the old one, one of them changed or one added.\<close>

lemma service_set:
  assumes "service_ok pack unpack r B hist s" "i < length (sessions s)" "\<forall>k. core_ok r B k (cores k)"
    and "s' = set_stage i st (s\<lparr>core_of := cores\<rparr>)" "session_ok pack unpack r B (s' # hist) i ((sessions s ! i)\<lparr>ses_stage := st\<rparr>)"
  shows "service_ok pack unpack r B (s' # hist) s'"
proof -
  have "session_ok pack unpack r B (s' # hist) j (sessions s ! j)" if "j < length (sessions s)" for j
    using assms(1) that session_ok_mono [of pack unpack r B hist j _ "s' # hist"] by (auto simp: service_ok_def)
  then show ?thesis using assms(2,3,5) by (simp add: service_ok_def set_stage_def assms(4) nth_list_update)
qed

lemma service_add:
  assumes "service_ok pack unpack r B hist s" "\<forall>k. core_ok r B k (cores k)"
    and "s' = s\<lparr>core_of := cores, sessions := sessions s @ [ses]\<rparr>" "session_ok pack unpack r B (s' # hist) (length (sessions s)) ses"
  shows "service_ok pack unpack r B (s' # hist) s'"
proof -
  have "session_ok pack unpack r B (s' # hist) j (sessions s ! j)" if "j < length (sessions s)" for j
    using assms(1) that session_ok_mono [of pack unpack r B hist j _ "s' # hist"] by (auto simp: service_ok_def)
  then show ?thesis using assms(2,4) by (simp add: service_ok_def assms(3) nth_append less_Suc_eq)
qed

lemma seen_now: "i < length (sessions s) \<Longrightarrow> s \<in> set hist \<Longrightarrow> dir_at (dc_mine (core_of s r)) b ps = x \<Longrightarrow> entry_seen r hist i b ps x"
  by (auto simp: entry_seen_def)

lemma start_ok:
  assumes "service_ok pack unpack r B (s # ss) s" "call_ok pack (core_of s n) call"
  shows "\<exists>s' st. start_call e pack unpack n call s = Inr s' \<and> service_ok pack unpack r B (s' # s # ss) s' \<and>
    sessions s' = sessions s @ [\<lparr>ses_node = n, ses_call = call, ses_stage = st\<rparr>] \<and> (\<not> is_drop call \<longrightarrow> kept (dc_mine (core_of s r)) (dc_mine (core_of s' r)))"
proof (cases "n = r")
  case True
  have c: "core_ok r B r (core_of s r)" using assms(1) by (simp add: service_ok_def)
  obtain ok out c' where h: "begin_call e pack True (of_nat (Suc (length (sessions s)))) call (core_of s r) = Inr (Answered ok out c')" "core_ok r B r c'"
    "\<not> is_drop call \<longrightarrow> kept (dc_mine (core_of s r)) (dc_mine c')"
    "case call of
       Call_GetDirectoryInfo url _ _ \<Rightarrow> (\<forall>b ps. url_at (localizeURL False (site r B r) url) b ps \<longrightarrow>
         ok = (dir_at (dc_mine c') b ps \<noteq> None) \<and> (ok \<longrightarrow> out = dir_at (dc_mine c') b ps))
     | Call_HostNewDir d \<Rightarrow> (\<forall>b ps. url_at (di_url (hosted_info (site r B r) d)) b ps \<longrightarrow> dir_at (dc_mine c') b ps \<noteq> None)
     | _ \<Rightarrow> True"
    using begin_root [OF c, of pack call e "of_nat (Suc (length (sessions s)))"] assms(2) True by blast
  let ?ses = "\<lparr>ses_node = r, ses_call = call, ses_stage = Finished ok out\<rparr>"
  let ?s = "s\<lparr>core_of := (core_of s)(r := c'), sessions := sessions s @ [?ses]\<rparr>"
  have new: "entry_seen r (?s # s # ss) (length (sessions s)) b ps (dir_at (dc_mine c') b ps)" for b ps by (rule seen_now [of _ ?s]) simp_all
  have "answer_ok r B (?s # s # ss) (length (sessions s)) r call ok out"
    using h(4) new by (cases call) (auto simp: answer_ok_def, metis+)
  then have "session_ok pack unpack r B (?s # s # ss) (length (sessions s)) ?ses" by (simp add: session_ok_def)
  then have "service_ok pack unpack r B (?s # s # ss) ?s"
    by (rule service_add [OF assms(1) service_cores [OF assms(1) h(2)] refl])
  then show ?thesis using True h(1,3) by (simp add: start_call_def)
next
  case False
  have c: "core_ok r B n (core_of s n)" using assms(1) by (simp add: service_ok_def)
  have cores: "\<forall>k. core_ok r B k (core_of s k)" using assms(1) by (simp add: service_ok_def)
  have same: "s\<lparr>core_of := core_of s, sessions := x\<rparr> = s\<lparr>sessions := x\<rparr>" for x by simp
  consider (asked) op where "begin_call e pack True (of_nat (Suc (length (sessions s)))) call (core_of s n) = Inr (Launched op)" "dm_state op = Dm_start"
      "asks pack r B n (of_nat (Suc (length (sessions s)))) call (dm_ldo_msg op)"
    | (here) ok out url cl cr where "begin_call e pack True (of_nat (Suc (length (sessions s)))) call (core_of s n) = Inr (Answered ok out (core_of s n))"
      "call = Call_GetDirectoryInfo url cl cr" "cl \<or> \<not> cr"
    using begin_away [OF c False assms(2)] by blast
  then show ?thesis
  proof cases
    case asked
    let ?ses = "\<lparr>ses_node = n, ses_call = call, ses_stage = Waiting (op\<lparr>dm_state := Dm_snd_wait_for_reply\<rparr>) (Sent (dm_ldo_msg op))\<rparr>"
    have "session_ok pack unpack r B (s\<lparr>core_of := core_of s, sessions := sessions s @ [?ses]\<rparr> # s # ss) (length (sessions s)) ?ses"
      using asked(3) False assms(2) call_ok_site [OF c] by (auto simp: session_ok_def progress_ok_def)
    from service_add [OF assms(1) cores refl this] show ?thesis using asked by (simp add: start_call_def Dirman_UpdateOrigin_def)
  next
    case here
    let ?ses = "\<lparr>ses_node = n, ses_call = call, ses_stage = Finished ok out\<rparr>"
    have "session_ok pack unpack r B (s\<lparr>core_of := core_of s, sessions := sessions s @ [?ses]\<rparr> # s # ss) (length (sessions s)) ?ses"
      using here by (auto simp: session_ok_def answer_ok_def)
    from service_add [OF assms(1) cores refl this] show ?thesis using here by (simp add: start_call_def)
  qed
qed

lemma target_end_total:
  assumes "cereal_ok pack unpack" "core_ok r B r c" "msg_op_id (fst m) = dirman_id"
    and "d = (case rest of Have d \<Rightarrow> d | Look_up u \<Rightarrow> (case dir_at (dc_mine c) b ps of None \<Rightarrow> DirectoryInfo_empty | Some d \<Rightarrow> d))"
    and "\<forall>u. rest = Look_up u \<longrightarrow> url_at (localizeURL False c u) b ps" "length (pack d) < 2 ^ 32"
  shows "\<exists>reply. target_end pack m rest c = Inr reply \<and> request_of (user_flags (fst reply)) = Some RT_ReturnDirInfo \<and> ExtractDirInfo unpack reply = Inr d"
proof -
  have x: "ExtractDirInfo unpack (snd (AllocateReply pack (dm_node c) RT_ReturnDirInfo (fst m) d)) = Inr d"
    using ExtractDirInfo_reply [of unpack pack d "fst m"] assms(1,3,6) by (simp add: cereal_ok_def)
  have f: "request_of (user_flags (fst (snd (AllocateReply pack (dm_node c) RT_ReturnDirInfo (fst m) d)))) = Some RT_ReturnDirInfo"
    by (simp add: AllocateReply_def AllocateCerealReplyMessage_def SetStandardReply_def Let_def del: request_code.simps)
  have "target_end pack m rest c = Inr (snd (AllocateReply pack (dm_node c) RT_ReturnDirInfo (fst m) d))"
  proof (cases rest)
    case (Have d')
    then show ?thesis using assms(4) by (simp add: target_end_def)
  next
    case (Look_up u)
    then have "root_GetInfo u c = Inr (case dir_at (dc_mine c) b ps of None \<Rightarrow> (False, DirectoryInfo_empty) | Some d \<Rightarrow> (True, d))"
      using root_info [OF assms(2)] assms(5) by blast
    then show ?thesis using assms(4) Look_up by (simp add: target_end_def split: option.splits)
  qed
  then show ?thesis using x f by blast
qed

text \<open>The three steps of a call that asked the root.\<close>

lemma rest_progress:
  assumes "rest_ok r B n call known rest" "cache_inv known" "\<And>b ps. entry_seen r hist i b ps (dir_at known b ps)"
    and "\<forall>b ps d. good_parts ps \<longrightarrow> dir_at known b ps = Some d \<longrightarrow> length (pack d) < 2 ^ 32" "cereal_ok pack unpack"
    and "msg_op_id (fst m) = dirman_id" "msg_dst (fst m) = r"
  shows "progress_ok pack unpack r B hist i n call (Between m rest)"
proof (cases rest)
  case (Look_up u)
  then obtain di where di: "call = Call_HostNewDir di" "u = di_url (hosted_info (site r B n) di)" "\<forall>b ps. url_at u b ps \<longrightarrow> dir_at known b ps \<noteq> None"
    using assms(1) by (auto simp: rest_ok_def)
  have "\<exists>x. entry_seen r hist i b ps (Some x)" if "url_at u b ps" for b ps using di(3) that assms(3) [of b ps] by force
  then show ?thesis using Look_up di(1,2) assms(6,7) by (auto simp: progress_ok_def)
next
  case (Have d)
  then have d: "handed known d" using assms(1) by (simp add: rest_ok_def)
  have "length (pack d) < 2 ^ 32" using d assms(4,5) by (auto simp: handed_def cereal_ok_def)
  moreover have "reply_ok r B hist i n call d"
  proof (cases call)
    case (Call_GetDirectoryInfo url cl cr)
    have "entry_seen r hist i b ps (if d = DirectoryInfo_empty then None else Some d)" if "url_at (localizeURL False (site r B n) url) b ps" for b ps
      using assms(1) assms(3) [of b ps] that Have Call_GetDirectoryInfo by (auto simp: rest_ok_def)
    then show ?thesis using handed_entry [OF assms(2) d] Call_GetDirectoryInfo unfolding reply_ok_def by (auto simp del: if_split)
  qed (use handed_entry [OF assms(2) d] assms(1) Have in \<open>auto simp: reply_ok_def rest_ok_def\<close>)
  ultimately show ?thesis using assms(6,7) Have by (simp add: progress_ok_def)
qed

lemma step_sent:
  assumes "service_ok pack unpack r B (s # ss) s" "cereal_ok pack unpack" "i < length (sessions s)" "ses_stage (sessions s ! i) = Waiting op (Sent m)"
  shows "\<exists>s' rest. advance_call e pack unpack i s = Inr s' \<and> (entries_fit pack r s' \<longrightarrow> service_ok pack unpack r B (s' # s # ss) s') \<and>
    s' = set_stage i (Waiting op (Between m rest)) (s\<lparr>core_of := core_of s'\<rparr>) \<and>
    (\<not> is_drop (ses_call (sessions s ! i)) \<longrightarrow> kept (dc_mine (core_of s r)) (dc_mine (core_of s' r)))"
proof -
  let ?n = "ses_node (sessions s ! i)" and ?call = "ses_call (sessions s ! i)"
  have c: "core_ok r B r (core_of s r)" and so: "session_ok pack unpack r B (s # ss) i (sessions s ! i)" using assms(1,3) by (simp_all add: service_ok_def)
  obtain mb where a: "dm_state op = Dm_snd_wait_for_reply" "?n \<noteq> r" "call_ok pack (site r B ?n) ?call" "asks pack r B ?n mb ?call m"
    using so assms(4) by (auto simp: session_ok_def progress_ok_def)
  obtain rest c' where h: "target_begin e unpack m (core_of s r) = Inr (rest, c')" "core_ok r B r c'"
    "\<not> is_drop ?call \<longrightarrow> kept (dc_mine (core_of s r)) (dc_mine c')" "rest_ok r B ?n ?call (dc_mine c') rest"
    using target_total [OF assms(2) c a(3,4)] by blast
  note hd = asks_header [OF a(4)]
  define s1 where "s1 = set_stage i (Waiting op (Between m rest)) (s\<lparr>core_of := (core_of s)(r := c')\<rparr>)"
  have seen: "entry_seen r (s1 # s # ss) i b ps (dir_at (dc_mine c') b ps)" for b ps
    using assms(3) by (intro seen_now [of _ s1]) (simp_all add: s1_def set_stage_def)
  have inv: "cache_inv (dc_mine c')" and at: "core_of s1 r = c'" using h(2) by (simp_all add: core_ok_def s1_def set_stage_def)
  have "service_ok pack unpack r B (s1 # s # ss) s1" if "entries_fit pack r s1"
    using that a rest_progress [OF h(4) inv seen, of pack unpack m] assms(2) hd at
    by (intro service_set [OF assms(1,3) service_cores [OF assms(1) h(2)] s1_def]) (simp add: session_ok_def entries_fit_def)
  moreover have "advance_call e pack unpack i s = Inr s1" using assms(4) h(1) hd by (simp add: advance_call_def s1_def)
  moreover have "s1 = set_stage i (Waiting op (Between m rest)) (s\<lparr>core_of := core_of s1\<rparr>)" by (simp add: s1_def set_stage_def)
  ultimately show ?thesis using h(3) at by blast
qed

lemma step_between:
  assumes "service_ok pack unpack r B (s # ss) s" "cereal_ok pack unpack" "entries_fit pack r s" "i < length (sessions s)"
    and "ses_stage (sessions s ! i) = Waiting op (Between m rest)"
  shows "\<exists>s' m'. advance_call e pack unpack i s = Inr s' \<and> service_ok pack unpack r B (s' # s # ss) s' \<and>
    s' = set_stage i (Waiting op (Replied m')) s"
proof -
  let ?n = "ses_node (sessions s ! i)" and ?call = "ses_call (sessions s ! i)"
  have c: "core_ok r B r (core_of s r)" and so: "session_ok pack unpack r B (s # ss) i (sessions s ! i)" using assms(1,4) by (simp_all add: service_ok_def)
  have a: "dm_state op = Dm_snd_wait_for_reply" "?n \<noteq> r" "call_ok pack (site r B ?n) ?call" "progress_ok pack unpack r B (s # ss) i ?n ?call (Between m rest)"
    using so assms(5) by (auto simp: session_ok_def)
  have hd: "msg_op_id (fst m) = dirman_id" "msg_dst (fst m) = r" using a(4) by (simp_all add: progress_ok_def)
  have inv: "cache_inv (dc_mine (core_of s r))" using c by (simp add: core_ok_def)
  have "\<exists>b ps d. d = (case rest of Have d \<Rightarrow> d | Look_up u \<Rightarrow> (case dir_at (dc_mine (core_of s r)) b ps of None \<Rightarrow> DirectoryInfo_empty | Some d \<Rightarrow> d)) \<and>
      (\<forall>u. rest = Look_up u \<longrightarrow> url_at (localizeURL False (core_of s r) u) b ps) \<and> length (pack d) < 2 ^ 32 \<and> reply_ok r B (s # ss) i ?n ?call d"
  proof (cases rest)
    case (Have d)
    then show ?thesis using a(4) by (simp add: progress_ok_def)
  next
    case (Look_up u)
    then obtain di where di: "?call = Call_HostNewDir di" "u = di_url (hosted_info (site r B ?n) di)"
      "\<forall>b ps. url_at u b ps \<longrightarrow> (\<exists>x. entry_seen r (s # ss) i b ps (Some x))"
      using a(4) by (auto simp: progress_ok_def)
    obtain b ps where at: "url_at u b ps" using a(3) di(1,2) by auto
    let ?d = "case dir_at (dc_mine (core_of s r)) b ps of None \<Rightarrow> DirectoryInfo_empty | Some d \<Rightarrow> d"
    have d: "handed (dc_mine (core_of s r)) ?d" by (rule handed_exact [OF inv url_at_good [OF at] refl])
    have "length (pack ?d) < 2 ^ 32" using assms(2,3) url_at_good [OF at] by (auto simp: entries_fit_def cereal_ok_def split: option.split)
    moreover have "reply_ok r B (s # ss) i ?n ?call ?d" using di handed_entry [OF inv d] by (auto simp: reply_ok_def)
    moreover have "url_at (localizeURL False (core_of s r) u) b ps" using at di(2) by (simp add: site_urls(1) [OF c] hosted_twice)
    ultimately show ?thesis using Look_up by (intro exI [of _ b] exI [of _ ps] exI [of _ ?d]) simp
  qed
  then obtain b ps d where d: "d = (case rest of Have d \<Rightarrow> d | Look_up u \<Rightarrow> (case dir_at (dc_mine (core_of s r)) b ps of None \<Rightarrow> DirectoryInfo_empty | Some d \<Rightarrow> d))"
      "\<forall>u. rest = Look_up u \<longrightarrow> url_at (localizeURL False (core_of s r) u) b ps" "length (pack d) < 2 ^ 32" "reply_ok r B (s # ss) i ?n ?call d" by blast
  obtain m' where m': "target_end pack m rest (core_of s r) = Inr m'" "request_of (user_flags (fst m')) = Some RT_ReturnDirInfo" "ExtractDirInfo unpack m' = Inr d"
    using target_end_total [OF assms(2) c hd(1) d(1-3)] by blast
  define s1 where "s1 = set_stage i (Waiting op (Replied m')) s"
  have "s1 = set_stage i (Waiting op (Replied m')) (s\<lparr>core_of := core_of s\<rparr>)" by (simp add: s1_def)
  moreover have "\<forall>k. core_ok r B k (core_of s k)" using assms(1) by (simp add: service_ok_def)
  moreover have "reply_ok r B (s1 # s # ss) i ?n ?call d" by (rule reply_ok_mono [OF d(4)]) auto
  ultimately have "service_ok pack unpack r B (s1 # s # ss) s1"
    using a m' by (intro service_set [OF assms(1,4)]) (auto simp: session_ok_def progress_ok_def)
  moreover have "advance_call e pack unpack i s = Inr s1" using assms(5) m'(1) hd by (simp add: advance_call_def s1_def)
  ultimately show ?thesis using s1_def by blast
qed

lemma step_replied:
  assumes "service_ok pack unpack r B (s # ss) s" "i < length (sessions s)" "ses_stage (sessions s ! i) = Waiting op (Replied m)"
  shows "\<exists>s' ok out. advance_call e pack unpack i s = Inr s' \<and> service_ok pack unpack r B (s' # s # ss) s' \<and>
    s' = set_stage i (Finished ok out) (s\<lparr>core_of := core_of s'\<rparr>) \<and> dc_mine (core_of s' r) = dc_mine (core_of s r)"
proof -
  let ?n = "ses_node (sessions s ! i)" and ?call = "ses_call (sessions s ! i)"
  have c: "core_ok r B ?n (core_of s ?n)" and so: "session_ok pack unpack r B (s # ss) i (sessions s ! i)" using assms(1,2) by (simp_all add: service_ok_def)
  obtain d where a: "dm_state op = Dm_snd_wait_for_reply" "?n \<noteq> r" "call_ok pack (site r B ?n) ?call"
    "request_of (user_flags (fst m)) = Some RT_ReturnDirInfo" "ExtractDirInfo unpack m = Inr d" "reply_ok r B (s # ss) i ?n ?call d"
    using so assms(3) by (auto simp: session_ok_def progress_ok_def)
  have call: "call_ok pack (core_of s ?n) ?call" using a(3) call_ok_site [OF c] by simp
  have "d = DirectoryInfo_empty \<or> members_plain d \<and> (\<exists>b ps. url_at (di_url d) b ps)" using a(6) by (simp add: reply_ok_def)
  then obtain ok out c' where h: "end_call e ?call d (core_of s ?n) = Inr (ok, out, c')" "core_ok r B ?n c'"
    "\<forall>url cl cr. ?call = Call_GetDirectoryInfo url cl cr \<longrightarrow> ok = (d \<noteq> DirectoryInfo_empty) \<and> (ok \<longrightarrow> out = Some d)"
    using end_total [OF c call, of d e] by blast
  define s1 where "s1 = set_stage i (Finished ok out) (s\<lparr>core_of := (core_of s)(?n := c')\<rparr>)"
  have "reply_ok r B (s1 # s # ss) i ?n ?call d" by (rule reply_ok_mono [OF a(6)]) auto
  then have "answer_ok r B (s1 # s # ss) i ?n ?call ok out"
    using h(3) by (cases ?call) (auto simp: answer_ok_def reply_ok_def)
  then have "service_ok pack unpack r B (s1 # s # ss) s1"
    by (intro service_set [OF assms(1,2) service_cores [OF assms(1) h(2)] s1_def]) (simp add: session_ok_def)
  moreover have "advance_call e pack unpack i s = Inr s1"
    using assms(3) a h(1) by (simp add: advance_call_def Dirman_UpdateOrigin_def ExpectMessageOrDie_def s1_def)
  moreover have "s1 = set_stage i (Finished ok out) (s\<lparr>core_of := core_of s1\<rparr>)" "dc_mine (core_of s1 r) = dc_mine (core_of s r)"
    using a(2) by (simp_all add: s1_def set_stage_def)
  ultimately show ?thesis by blast
qed

text \<open>How many steps a call still needs.\<close>

fun stage_rank :: "stage \<Rightarrow> nat" where
  "stage_rank (Finished _ _) = 0"
| "stage_rank (Waiting _ (Replied _)) = 1"
| "stage_rank (Waiting _ (Between _ _)) = 2"
| "stage_rank (Waiting _ (Sent _)) = 3"

lemma advance_ok:
  assumes "service_ok pack unpack r B (s # ss) s" "cereal_ok pack unpack" "entries_fit pack r s" "i < length (sessions s)"
  shows "\<exists>s' st. advance_call e pack unpack i s = Inr s' \<and> (entries_fit pack r s' \<longrightarrow> service_ok pack unpack r B (s' # s # ss) s') \<and>
    s' = set_stage i st (s\<lparr>core_of := core_of s'\<rparr>) \<and> stage_rank st = stage_rank (ses_stage (sessions s ! i)) - 1 \<and>
    (\<not> is_drop (ses_call (sessions s ! i)) \<longrightarrow> kept (dc_mine (core_of s r)) (dc_mine (core_of s' r)))"
proof -
  consider (sent) op m where "ses_stage (sessions s ! i) = Waiting op (Sent m)" | (between) op m rest where "ses_stage (sessions s ! i) = Waiting op (Between m rest)"
    | (replied) op m where "ses_stage (sessions s ! i) = Waiting op (Replied m)" | (finished) ok out where "ses_stage (sessions s ! i) = Finished ok out"
    by (metis stage.exhaust progress.exhaust)
  then show ?thesis
  proof cases
    case sent
    obtain s' rest where "advance_call e pack unpack i s = Inr s'" "entries_fit pack r s' \<longrightarrow> service_ok pack unpack r B (s' # s # ss) s'"
      "s' = set_stage i (Waiting op (Between m rest)) (s\<lparr>core_of := core_of s'\<rparr>)"
      "\<not> is_drop (ses_call (sessions s ! i)) \<longrightarrow> kept (dc_mine (core_of s r)) (dc_mine (core_of s' r))"
      using step_sent [OF assms(1,2,4) sent, of e] by (elim exE conjE)
    moreover have "stage_rank (Waiting op (Between m rest)) = stage_rank (ses_stage (sessions s ! i)) - 1" using sent by simp
    ultimately show ?thesis by blast
  next
    case between
    then obtain s' m' where "advance_call e pack unpack i s = Inr s'" "service_ok pack unpack r B (s' # s # ss) s'" "s' = set_stage i (Waiting op (Replied m')) s"
      using step_between [OF assms] by blast
    moreover have "core_of s' = core_of s" "s' = set_stage i (Waiting op (Replied m')) (s\<lparr>core_of := core_of s'\<rparr>)" using calculation(3) by (simp_all add: set_stage_def)
    moreover have "stage_rank (Waiting op (Replied m')) = stage_rank (ses_stage (sessions s ! i)) - 1" using between by simp
    ultimately show ?thesis using kept_refl by metis
  next
    case replied
    obtain s' ok out where "advance_call e pack unpack i s = Inr s'" "service_ok pack unpack r B (s' # s # ss) s'"
      "s' = set_stage i (Finished ok out) (s\<lparr>core_of := core_of s'\<rparr>)" "dc_mine (core_of s' r) = dc_mine (core_of s r)"
      using step_replied [OF assms(1,4) replied, of e] by (elim exE conjE)
    moreover have "stage_rank (Finished ok out) = stage_rank (ses_stage (sessions s ! i)) - 1" using replied by simp
    ultimately show ?thesis using kept_refl by metis
  next
    case finished
    have same: "s = set_stage i (Finished ok out) (s\<lparr>core_of := core_of s\<rparr>)"
    proof -
      have "(sessions s ! i)\<lparr>ses_stage := Finished ok out\<rparr> = sessions s ! i" using finished by (cases "sessions s ! i") simp
      then show ?thesis by (simp add: set_stage_def)
    qed
    have "service_ok pack unpack r B (s # s # ss) s"
      using assms(1) session_ok_mono [of pack unpack r B "s # ss" _ _ "s # s # ss"] by (simp add: service_ok_def)
    moreover have "advance_call e pack unpack i s = Inr s" "stage_rank (Finished ok out) = stage_rank (ses_stage (sessions s ! i)) - 1"
      using finished by (simp_all add: advance_call_def)
    ultimately show ?thesis using same kept_refl by blast
  qed
qed

section \<open>Runs\<close>

lemma run_ok:
  assumes "dirman_run e pack unpack r B hist" "cereal_ok pack unpack" "\<forall>t\<in>set hist. entries_fit pack r t"
  shows "hist \<noteq> [] \<and> service_ok pack unpack r B hist (hd hist)"
  using assms
proof (induction rule: dirman_run.induct)
  case (run_init s)
  then show ?case by (simp add: service_ok_def)
next
  case (run_begin s ss n call s')
  then show ?case using start_ok [of pack unpack r B s ss n call e] by auto
next
  case (run_advance s ss i s')
  then show ?case using advance_ok [of pack unpack r B s ss i e] by auto
qed

lemma run_suffix: "dirman_run e pack unpack r B (xs @ t # ts) \<Longrightarrow> dirman_run e pack unpack r B (t # ts)"
proof (induction xs)
  case (Cons x xs)
  then show ?case by (auto elim: dirman_run.cases)
qed simp

text \<open>Calls only accumulate, and without drops the root's entries do too.\<close>

definition later :: "nodeid_t \<Rightarrow> service \<Rightarrow> service \<Rightarrow> bool" where
  "later r s t = (length (sessions t) \<le> length (sessions s) \<and> kept (dc_mine (core_of t r)) (dc_mine (core_of s r)))"

definition no_drops :: "service \<Rightarrow> bool" where
  "no_drops s = (\<forall>i<length (sessions s). \<not> is_drop (ses_call (sessions s ! i)))"

lemma later_trans: "later r a b \<Longrightarrow> later r b c \<Longrightarrow> later r a c"
  unfolding later_def using kept_trans le_trans by meson

lemma stage_sessions: "s' = set_stage i st (s\<lparr>core_of := c\<rparr>) \<Longrightarrow> sessions s' = (sessions s)[i := (sessions s ! i)\<lparr>ses_stage := st\<rparr>]"
  by (simp add: set_stage_def)

lemma run_later:
  assumes "dirman_run e pack unpack r B hist" "cereal_ok pack unpack" "\<forall>t\<in>set hist. entries_fit pack r t" "no_drops (hd hist)"
  shows "sorted_wrt (later r) hist"
  using assms
proof (induction rule: dirman_run.induct)
  case (run_init s)
  then show ?case by simp
next
  case (run_begin s ss n call s')
  have ok: "service_ok pack unpack r B (s # ss) s" using run_ok [OF run_begin(1)] run_begin(5,6) by simp
  have "later r s' s" "no_drops s"
    using start_ok [OF ok run_begin(2), of e] run_begin(3,7) by (fastforce simp: later_def no_drops_def nth_append less_Suc_eq)+
  then show ?case using run_begin(4-6) later_trans by auto
next
  case (run_advance s ss i s')
  have ok: "service_ok pack unpack r B (s # ss) s" using run_ok [OF run_advance(1)] run_advance(5,6) by simp
  obtain st where st: "s' = set_stage i st (s\<lparr>core_of := core_of s'\<rparr>)"
    "\<not> is_drop (ses_call (sessions s ! i)) \<longrightarrow> kept (dc_mine (core_of s r)) (dc_mine (core_of s' r))"
    using advance_ok [OF ok run_advance(5) _ run_advance(2), of e] run_advance(3,6) by auto
  note set = stage_sessions [OF st(1)]
  have "no_drops s" using set run_advance(2,7) by (auto simp: no_drops_def nth_list_update split: if_splits)
  moreover from this have "later r s' s" using set st(2) run_advance(2) by (simp add: later_def no_drops_def)
  ultimately show ?case using run_advance(4-6) later_trans by auto
qed

lemma lookup_seen:
  assumes "service_ok pack unpack r B hist s" "i < length (sessions s)"
    and "sessions s ! i = \<lparr>ses_node = n, ses_call = Call_GetDirectoryInfo url False True, ses_stage = Finished ok out\<rparr>"
    and "url_at (localizeURL False (core_of s n) url) b ps"
  shows "\<exists>x. entry_seen r hist i b ps x \<and> ok = (x \<noteq> None) \<and> (ok \<longrightarrow> out = x)"
proof -
  have "session_ok pack unpack r B hist i (sessions s ! i)" and c: "core_ok r B n (core_of s n)" using assms(1,2) by (simp_all add: service_ok_def)
  then show ?thesis using assms(3,4) site_urls(1) [OF c, of False url] by (simp add: session_ok_def answer_ok_def)
qed

lemma host_seen:
  assumes "service_ok pack unpack r B hist s" "i < length (sessions s)"
    and "sessions s ! i = \<lparr>ses_node = n, ses_call = Call_HostNewDir di, ses_stage = Finished ok out\<rparr>"
    and "url_at (di_url (hosted_info (core_of s n) di)) b ps"
  shows "\<exists>x. entry_seen r hist i b ps (Some x)"
proof -
  have "session_ok pack unpack r B hist i (sessions s ! i)" and c: "core_ok r B n (core_of s n)" using assms(1,2) by (simp_all add: service_ok_def)
  then show ?thesis using assms(3,4) site_urls(2) [OF c, of di] by (simp add: session_ok_def answer_ok_def)
qed

end
