(* ===== verification/Dirman_Promises.thy ===== *)
theory Dirman_Promises
  imports Dirman_Service
begin

text \<open>
  What the centralized directory manager promises its callers, with a small run in which it does: the root hosts
  an entry and another node looks it up.
\<close>

section \<open>An archive\<close>

text \<open>An archive that writes strings with a mark before every character and words as their bits.\<close>

fun put_string :: "string \<Rightarrow> string" where
  "put_string [] = ''!''"
| "put_string (c # cs) = CHR ''.'' # c # put_string cs"

fun take_string :: "string \<Rightarrow> (string \<times> string) option" where
  "take_string [] = None"
| "take_string (k # cs) =
     (if k = CHR ''!'' then Some ([], cs)
      else case cs of [] \<Rightarrow> None | c # cs' \<Rightarrow> (case take_string cs' of None \<Rightarrow> None | Some (s, rest) \<Rightarrow> Some (c # s, rest)))"

definition put_word :: "'a::len word \<Rightarrow> string" where
  "put_word w = map (\<lambda>i. if bit w i then CHR ''1'' else CHR ''0'') [0..<LENGTH('a)]"

definition take_word :: "string \<Rightarrow> 'a::len word \<times> string" where
  "take_word cs = (horner_sum of_bool 2 (map (\<lambda>c. c = CHR ''1'') (take LENGTH('a) cs)), drop LENGTH('a) cs)"

lemma take_put_string [simp]: "take_string (put_string s @ rest) = Some (s, rest)"
  by (induction s) simp_all

lemma take_put_word [simp]: "take_word (put_word w @ rest) = (w, rest)"
proof -
  have "map (\<lambda>c. c = CHR ''1'') (put_word w) = map (bit w) [0..<LENGTH('a)]" "length (put_word w) = LENGTH('a)" by (simp_all add: put_word_def)
  then show ?thesis by (simp add: take_word_def horner_sum_bit_eq_take_bit)
qed

fun put_members :: "NameAndNode list \<Rightarrow> string" where
  "put_members [] = ''-''"
| "put_members (m # ms) = CHR ''+'' # put_string (nn_name m) @ put_word (nn_node m) @ put_members ms"

fun take_members :: "nat \<Rightarrow> string \<Rightarrow> NameAndNode list option" where
  "take_members 0 cs = None"
| "take_members (Suc fuel) cs = (case cs of
     [] \<Rightarrow> None
   | k # cs1 \<Rightarrow> if k = CHR ''-'' then Some []
       else (case take_string cs1 of
         None \<Rightarrow> None
       | Some (name, cs2) \<Rightarrow>
           let (node, cs3) = take_word cs2
           in map_option (\<lambda>ms. \<lparr>nn_name = name, nn_node = node\<rparr> # ms) (take_members fuel cs3)))"

definition archive :: "DirectoryInfo \<Rightarrow> string" where
  "archive d = put_string (url_type (di_url d)) @ put_word (url_node (di_url d)) @ put_word (url_bucket (di_url d)) @
     put_string (url_path (di_url d)) @ put_string (url_name (di_url d)) @ put_string (url_options (di_url d)) @
     put_string (di_info d) @ put_word (min_members d) @ put_members (members d)"

definition unarchive :: "string \<Rightarrow> DirectoryInfo result" where
  "unarchive cs =
     (case take_string cs of None \<Rightarrow> Inl Runtime_error | Some (ty, cs1) \<Rightarrow>
      let (node, cs2) = take_word cs1; (bucket, cs3) = take_word cs2 in
      case take_string cs3 of None \<Rightarrow> Inl Runtime_error | Some (path, cs4) \<Rightarrow>
      (case take_string cs4 of None \<Rightarrow> Inl Runtime_error | Some (name, cs5) \<Rightarrow>
      (case take_string cs5 of None \<Rightarrow> Inl Runtime_error | Some (opts, cs6) \<Rightarrow>
      (case take_string cs6 of None \<Rightarrow> Inl Runtime_error | Some (info, cs7) \<Rightarrow>
      let (least, cs8) = take_word cs7 in
      case take_members (Suc (length cs8)) cs8 of None \<Rightarrow> Inl Runtime_error | Some ms \<Rightarrow>
      Inr \<lparr>di_url = \<lparr>url_type = ty, url_node = node, url_bucket = bucket, url_path = path, url_name = name, url_options = opts\<rparr>,
        di_info = info, min_members = least, members = ms\<rparr>))))"

lemma take_put_members: "length ms < fuel \<Longrightarrow> take_members fuel (put_members ms) = Some ms"
proof (induction ms arbitrary: fuel)
  case Nil
  then show ?case by (cases fuel) simp_all
next
  case (Cons m ms)
  then show ?case by (cases fuel) simp_all
qed

lemma put_members_length: "length ms \<le> length (put_members ms)"
  by (induction ms) simp_all

lemma archive_cereal: "cereal_ok archive unarchive"
proof -
  have "unarchive (archive d) = Inr d" for d
    using put_members_length [of "members d"] by (simp add: unarchive_def archive_def take_put_members del: take_members.simps)
  then show ?thesis by (simp add: cereal_ok_def archive_def put_word_def DirectoryInfo_empty_def)
qed

definition shop_url :: ResourceURL where
  "shop_url = \<lparr>url_type = ''dht'', url_node = 1, url_bucket = 7, url_path = ''/'', url_name = ''shop'', url_options = []\<rparr>"

definition shop :: DirectoryInfo where
  "shop = \<lparr>di_url = shop_url, di_info = ''a'', min_members = 0, members = []\<rparr>"

definition shop_cores :: "nodeid_t \<Rightarrow> DirManCore" where
  "shop_cores n = (if n = 1 then (site 1 7 1)\<lparr>dc_mine := [(key_text 7 [''shop''], shop)]\<rparr> else site 1 7 n)"

definition shop_ask :: text_message where
  "shop_ask = snd (AllocateRequest_url 2 RT_GetInfo 1 2 shop_url)"

definition shop_reply :: text_message where
  "shop_reply = snd (AllocateReply archive 1 RT_ReturnDirInfo (fst shop_ask) shop)"

definition shop_op :: OpDirManCentralized where
  "shop_op = \<lparr>dm_state = Dm_snd_wait_for_reply, dm_peer = 1, dm_ldo_msg = shop_ask, dm_promise = None\<rparr>"

definition shop_look :: dirman_call where
  "shop_look = Call_GetDirectoryInfo shop_url False True"

text \<open>The root hosts an entry, then node 2 looks it up.\<close>

definition shop_state :: "(nodeid_t \<Rightarrow> DirManCore) \<Rightarrow> stage list \<Rightarrow> service" where
  "shop_state cores st = \<lparr>core_of = cores, sessions = \<lparr>ses_node = 1, ses_call = Call_HostNewDir shop, ses_stage = Finished True None\<rparr> #
     map (\<lambda>x. \<lparr>ses_node = 2, ses_call = shop_look, ses_stage = x\<rparr>) st\<rparr>"

definition shop_start :: service where
  "shop_start = \<lparr>core_of = site 1 7, sessions = []\<rparr>"

lemma shop_at: "url_at shop_url 7 [''shop'']" 
  by (simp add: url_at_def shop_url_def good_parts_def dir_part_def plain_part_def dir_path_def)

lemma site_ok: "core_ok 1 7 n (site 1 7 n)"
  by (simp add: core_ok_def site_def)

lemma shop_hosted: "hosted_info (site 1 7 n) shop = shop"
  by (simp add: hosted_info_def localizeURL_def site_def shop_def shop_url_def Let_def)

lemma shop_local: "localizeURL False (site 1 7 n) shop_url = shop_url"
  by (simp add: localizeURL_def site_def shop_url_def Let_def BUCKET_UNSPECIFIED_def)

lemma shop_created: "CreateAndLinkParents True shop [] = Inr (True, [(key_text 7 [''shop''], shop)])"
  by code_simp

lemma shop_1: "start_call True archive unarchive 1 (Call_HostNewDir shop) shop_start = Inr (shop_state shop_cores [])"
proof -
  have "shop_cores = (site 1 7)(1 := (site 1 7 1)\<lparr>dc_mine := [(key_text 7 [''shop''], shop)]\<rparr>)" by (simp add: shop_cores_def fun_eq_iff)
  moreover have "root_HostNewDir True shop (site 1 7 1) = Inr (True, (site 1 7 1)\<lparr>dc_mine := [(key_text 7 [''shop''], shop)]\<rparr>)"
    unfolding root_HostNewDir_def shop_hosted by (simp add: site_def shop_created)
  moreover have "am_root (site 1 7 1)" by (simp add: site_def)
  ultimately show ?thesis by (simp add: start_call_def shop_start_def shop_state_def)
qed

lemma shop_2: "start_call True archive unarchive 2 shop_look (shop_state shop_cores []) =
    Inr (shop_state shop_cores [Waiting shop_op (Sent shop_ask)])"
  by (simp add: start_call_def shop_state_def shop_look_def shop_cores_def shop_local)
     (simp add: site_def OpDirMan_url_def Dirman_UpdateOrigin_def shop_op_def shop_ask_def)

lemma shop_named: "named_url shop_url"
proof -
  have "url_ok shop_url \<and> length (GetFullURL shop_url) < 100" by code_simp
  then show ?thesis using shop_at by (auto simp: named_url_def shop_url_def)
qed

lemma shop_head: "msg_dst (fst shop_ask) = 1" "msg_op_id (fst shop_ask) = dirman_id"
  using asks_header [of archive 1 7 2 2 shop_look shop_ask] by (simp_all add: shop_look_def shop_ask_def shop_local)

lemma shop_core: "core_ok 1 7 1 (shop_cores 1)" "dir_at (dc_mine (shop_cores 1)) 7 [''shop''] = Some shop"
proof -
  have "cache_inv [(key_text 7 [''shop''], shop)]"
    using cache_inv_set [of "[]" shop 7 "[''shop'']"] shop_at by (simp add: shop_def members_plain_def)
  then show "core_ok 1 7 1 (shop_cores 1)" "dir_at (dc_mine (shop_cores 1)) 7 [''shop''] = Some shop"
    by (simp_all add: shop_cores_def core_ok_def site_def dir_at_def)
qed

lemma shop_3: "advance_call True archive unarchive 1 (shop_state shop_cores [Waiting shop_op (Sent shop_ask)]) =
    Inr (shop_state shop_cores [Waiting shop_op (Between shop_ask (Have shop))])"
proof -
  let ?u = "shop_url\<lparr>url_options := GetSortedOptions shop_url\<rparr>"
  have x: "ExtractURL shop_ask = Inr ?u" "request_of (user_flags (fst shop_ask)) = Some RT_GetInfo"
    using target_url [OF shop_named, of shop_ask 2 RT_GetInfo 1 2] by (simp_all add: shop_ask_def)
  have "url_at (localizeURL False (shop_cores 1) ?u) 7 [''shop'']"
    using shop_at site_urls(1) [OF shop_core(1)] localize_twice [where f = False and f' = False and r = 1 and B = 7 and m = 1 and n = 1 and u = shop_url] by (simp add: shop_local)
  then have "root_GetInfo ?u (shop_cores 1) = Inr (True, shop)" using root_info [OF shop_core(1)] shop_core(2) by simp
  moreover have "am_root (shop_cores 1)" using shop_core(1) by (simp add: core_ok_def)
  ultimately have "target_begin True unarchive shop_ask (shop_cores 1) = Inr (Have shop, shop_cores 1)"
    using x by (simp add: target_begin_def)
  then show ?thesis by (simp add: advance_call_def shop_state_def shop_head set_stage_def)
qed

lemma shop_4: "advance_call True archive unarchive 1 (shop_state shop_cores [Waiting shop_op (Between shop_ask (Have shop))]) =
    Inr (shop_state shop_cores [Waiting shop_op (Replied shop_reply)])"
proof -
  have "dm_node (shop_cores 1) = 1" using shop_core(1) by (simp add: core_ok_def)
  then show ?thesis by (simp add: advance_call_def shop_state_def shop_head set_stage_def target_end_def shop_reply_def)
qed

definition shop_cores_after :: "nodeid_t \<Rightarrow> DirManCore" where
  "shop_cores_after = shop_cores(2 := (site 1 7 2)\<lparr>dc_others := [(key_text 7 [''shop''], shop)]\<rparr>)"

lemma shop_length: "length (archive shop) < 2 ^ 32"
  by (simp add: archive_def put_word_def shop_def shop_url_def)

lemma shop_5: "advance_call True archive unarchive 1 (shop_state shop_cores [Waiting shop_op (Replied shop_reply)]) =
    Inr (shop_state shop_cores_after [Finished True (Some shop)])"
proof -
  have "ExtractDirInfo unarchive shop_reply = Inr shop"
    using ExtractDirInfo_reply [of unarchive archive shop "fst shop_ask"] archive_cereal shop_length shop_head by (simp add: shop_reply_def cereal_ok_def)
  moreover have "request_of (user_flags (fst shop_reply)) = Some RT_ReturnDirInfo"
    by (simp add: shop_reply_def AllocateReply_def AllocateCerealReplyMessage_def SetStandardReply_def Let_def del: request_code.simps)
  moreover have "end_call True shop_look shop (shop_cores 2) = Inr (True, Some shop, (site 1 7 2)\<lparr>dc_others := [(key_text 7 [''shop''], shop)]\<rparr>)"
    using entry_not_empty [of shop 7 "[''shop'']"] shop_at shop_created by (simp add: shop_look_def shop_cores_def shop_def site_def)
  ultimately show ?thesis
    by (simp add: advance_call_def shop_state_def set_stage_def shop_op_def Dirman_UpdateOrigin_def ExpectMessageOrDie_def shop_cores_after_def)
qed

definition shop_run :: "service list" where
  "shop_run = [shop_state shop_cores [Waiting shop_op (Replied shop_reply)], shop_state shop_cores [Waiting shop_op (Between shop_ask (Have shop))],
     shop_state shop_cores [Waiting shop_op (Sent shop_ask)], shop_state shop_cores [], shop_start]"

lemma shop_fit: "\<forall>t\<in>set (shop_state shop_cores_after [Finished True (Some shop)] # shop_run). entries_fit archive 1 t"
  using shop_length by (auto simp: shop_run_def shop_state_def shop_start_def entries_fit_def shop_cores_def shop_cores_after_def site_def dir_at_def split: if_splits)

lemma shop_runs: "dirman_run True archive unarchive 1 7 (shop_state shop_cores_after [Finished True (Some shop)] # shop_run)"
proof -
  have "dirman_run True archive unarchive 1 7 [shop_start]" by (rule run_init) (simp_all add: shop_start_def site_ok)
  moreover have "url_at (di_url shop) 7 [''shop'']" "members_plain shop" using shop_at by (simp_all add: shop_def members_plain_def)
  then have "call_ok archive (core_of shop_start 1) (Call_HostNewDir shop)" using shop_length by (auto simp: shop_start_def shop_hosted)
  ultimately have "dirman_run True archive unarchive 1 7 [shop_state shop_cores [], shop_start]" by (rule run_begin [OF _ _ shop_1])
  moreover have "call_ok archive (core_of (shop_state shop_cores []) 2) shop_look"
    using shop_named by (simp add: shop_state_def shop_look_def shop_cores_def shop_local)
  ultimately have "dirman_run True archive unarchive 1 7 [shop_state shop_cores [Waiting shop_op (Sent shop_ask)], shop_state shop_cores [], shop_start]"
    by (rule run_begin [OF _ _ shop_2])
  then show ?thesis unfolding shop_run_def
    by (intro run_advance [OF _ _ shop_5] run_advance [OF _ _ shop_4] run_advance [OF _ _ shop_3]) (simp_all add: shop_state_def)
qed

lemma shop_places: "url_at (localizeURL False (core_of (shop_state shop_cores_after st) 2) shop_url) 7 [''shop'']"
  "url_at (di_url (hosted_info (core_of (shop_state shop_cores st) 1) shop)) 7 [''shop'']"
proof -
  have "core_ok 1 7 2 (core_of (shop_state shop_cores_after st) 2)"
    using cache_inv_set [of "[]" shop 7 "[''shop'']"] shop_at by (simp add: shop_state_def shop_cores_after_def core_ok_def site_def shop_def members_plain_def)
  then show "url_at (localizeURL False (core_of (shop_state shop_cores_after st) 2) shop_url) 7 [''shop'']"
    using shop_at shop_local [of 2] site_urls(1) by simp
  have "hosted_info (shop_cores 1) shop = shop" using site_urls(2) [OF shop_core(1)] shop_hosted [of 1] by simp
  then show "url_at (di_url (hosted_info (core_of (shop_state shop_cores st) 1) shop)) 7 [''shop'']"
    using shop_at by (simp add: shop_state_def) (simp add: shop_def)
qed

section \<open>Properties of the service\<close>

text \<open>
  C19. In no run of the centralized directory manager does a node fail: whatever calls are in progress, every
  further call with a well-formed url can begin on every node, every call in progress can take its
  next step, and it needs at most three of them (the root takes the request, the root replies, the
  node reads the reply), which change no other call.
\<close>
theorem dirman_no_fault:
  assumes "dirman_run e pack unpack r B (s # ss)" "cereal_ok pack unpack" "\<forall>t\<in>set (s # ss). entries_fit pack r t"
  shows "(\<forall>n call. call_ok pack (core_of s n) call \<longrightarrow> (\<exists>s'. start_call e pack unpack n call s = Inr s')) \<and>
    (\<forall>i<length (sessions s). stage_rank (ses_stage (sessions s ! i)) \<le> 3 \<and> (case advance_call e pack unpack i s of
       Inl _ \<Rightarrow> False
     | Inr s' \<Rightarrow> length (sessions s') = length (sessions s) \<and>
         stage_rank (ses_stage (sessions s' ! i)) = stage_rank (ses_stage (sessions s ! i)) - 1 \<and>
         (\<forall>j<length (sessions s). j \<noteq> i \<longrightarrow> sessions s' ! j = sessions s ! j)))"
proof -
  have ok: "service_ok pack unpack r B (s # ss) s" using run_ok [OF assms] by simp
  have rank: "stage_rank st \<le> 3" for st by (cases st rule: stage_rank.cases) simp_all
  have "case advance_call e pack unpack i s of Inl _ \<Rightarrow> False
     | Inr s' \<Rightarrow> length (sessions s') = length (sessions s) \<and>
         stage_rank (ses_stage (sessions s' ! i)) = stage_rank (ses_stage (sessions s ! i)) - 1 \<and>
         (\<forall>j<length (sessions s). j \<noteq> i \<longrightarrow> sessions s' ! j = sessions s ! j)" if i: "i < length (sessions s)" for i
  proof -
    obtain s' st where a: "advance_call e pack unpack i s = Inr s'" "s' = set_stage i st (s\<lparr>core_of := core_of s'\<rparr>)"
      "stage_rank st = stage_rank (ses_stage (sessions s ! i)) - 1"
      using advance_ok [OF ok assms(2) _ i, of e] assms(3) by auto
    show ?thesis using a(1,3) stage_sessions [OF a(2)] i by simp
  qed
  then show ?thesis using start_ok [OF ok] rank by blast
qed

theorem dirman_no_fault_witness:
  "dirman_run True archive unarchive 1 7 (hd shop_run # tl shop_run) \<and>
   (\<exists>s'. start_call True archive unarchive 2 shop_look (hd shop_run) = Inr s') \<and>
   (case advance_call True archive unarchive 1 (hd shop_run) of
      Inl _ \<Rightarrow> False
    | Inr s' \<Rightarrow> length (sessions s') = 2 \<and> stage_rank (ses_stage (sessions s' ! 1)) = 0 \<and> sessions s' ! 0 = sessions (hd shop_run) ! 0)"
proof -
  have run: "dirman_run True archive unarchive 1 7 (hd shop_run # tl shop_run)" using shop_runs run_suffix [of True archive unarchive 1 7 "[_]"] by (simp add: shop_run_def)
  have fit: "\<forall>t\<in>set (hd shop_run # tl shop_run). entries_fit archive 1 t" using shop_fit by (simp add: shop_run_def)
  note all = dirman_no_fault [OF run archive_cereal fit]
  have len: "length (sessions (hd shop_run)) = 2" "stage_rank (ses_stage (sessions (hd shop_run) ! 1)) = 1" by (simp_all add: shop_run_def shop_state_def)
  have "call_ok archive (core_of (hd shop_run) 2) shop_look"
    using shop_named by (simp add: shop_run_def shop_state_def shop_look_def shop_cores_def shop_local)
  then have start: "\<exists>s'. start_call True archive unarchive 2 shop_look (hd shop_run) = Inr s'" using all by blast
  have "case advance_call True archive unarchive 1 (hd shop_run) of Inl _ \<Rightarrow> False
    | Inr s' \<Rightarrow> length (sessions s') = length (sessions (hd shop_run)) \<and>
        stage_rank (ses_stage (sessions s' ! 1)) = stage_rank (ses_stage (sessions (hd shop_run) ! 1)) - 1 \<and>
        (\<forall>j<length (sessions (hd shop_run)). j \<noteq> 1 \<longrightarrow> sessions s' ! j = sessions (hd shop_run) ! j)"
    using conjunct2 [OF spec [OF conjunct2 [OF all], THEN mp, of 1]] len(1) by simp
  then show ?thesis using run start len by (auto split: sum.splits)
qed

text \<open>
  C5. A look-up of any node that does not trust the node's cache returns what the root had: for every finished
  call there is a state between its beginning and its end in which the root's entry, or the
  root's lack of one, is exactly the answer, however the calls of the nodes interleave.
\<close>
theorem dirman_lookup:
  assumes "dirman_run e pack unpack r B (s # ss)" "cereal_ok pack unpack" "\<forall>t\<in>set (s # ss). entries_fit pack r t"
    and "i < length (sessions s)" "sessions s ! i = \<lparr>ses_node = n, ses_call = Call_GetDirectoryInfo url False True, ses_stage = Finished ok out\<rparr>"
    and "url_at (localizeURL False (core_of s n) url) b ps"
  shows "\<exists>t\<in>set (s # ss). i < length (sessions t) \<and> (case dir_at (dc_mine (core_of t r)) b ps of
     None \<Rightarrow> \<not> ok
   | Some d \<Rightarrow> ok \<and> out = Some d)"
proof -
  have whole: "service_ok pack unpack r B (s # ss) s" using run_ok [OF assms(1-3)] by simp
  obtain x where x: "entry_seen r (s # ss) i b ps x" "ok = (x \<noteq> None)" "ok \<longrightarrow> out = x"
    using lookup_seen [OF whole assms(4-6)] by blast
  obtain t where t: "t \<in> set (s # ss)" "i < length (sessions t)" "dir_at (dc_mine (core_of t r)) b ps = x" using x(1) unfolding entry_seen_def by blast
  have "case x of None \<Rightarrow> \<not> ok | Some d \<Rightarrow> ok \<and> out = Some d" using x(2,3) by (cases x) simp_all
  then show ?thesis using t by blast
qed

theorem dirman_lookup_witness:
  "dirman_run True archive unarchive 1 7 (shop_state shop_cores_after [Finished True (Some shop)] # shop_run) \<and>
   (\<exists>t\<in>set (shop_state shop_cores_after [Finished True (Some shop)] # shop_run). 1 < length (sessions t) \<and>
     (case dir_at (dc_mine (core_of t 1)) 7 [''shop''] of None \<Rightarrow> \<not> True | Some d \<Rightarrow> True \<and> Some shop = Some d))"
  using dirman_lookup [OF shop_runs archive_cereal shop_fit _ _ shop_places(1), of 1 True "Some shop"] shop_runs
  by (simp add: shop_state_def shop_look_def)

text \<open>
  C7. An entry is found once it is hosted: in a run without drops, every look-up that does not trust the node's
  cache and begins after a call that hosts an entry has ended, on whatever node either was made, returns
  true and an entry of that url.
\<close>
theorem dirman_hosted_found:
  assumes "dirman_run e pack unpack r B (xs @ t # ts)" "cereal_ok pack unpack" "\<forall>x\<in>set (xs @ t # ts). entries_fit pack r x"
    and "s = hd (xs @ t # ts)" "no_drops s"
    and "j < length (sessions t)" "sessions t ! j = \<lparr>ses_node = m, ses_call = Call_HostNewDir di, ses_stage = Finished ok' out'\<rparr>"
    and "url_at (di_url (hosted_info (core_of t m) di)) b ps"
    and "length (sessions t) \<le> i" "i < length (sessions s)"
    and "sessions s ! i = \<lparr>ses_node = n, ses_call = Call_GetDirectoryInfo url False True, ses_stage = Finished ok out\<rparr>"
    and "url_at (localizeURL False (core_of s n) url) b ps"
  shows "ok \<and> (case out of None \<Rightarrow> False | Some d \<Rightarrow> url_at (di_url d) b ps)"
proof -
  have hist: "xs @ t # ts = s # tl (xs @ t # ts)" using assms(4) by (cases xs) simp_all
  have whole: "service_ok pack unpack r B (xs @ t # ts) s" using run_ok [OF assms(1-3)] assms(4) by simp
  have part: "service_ok pack unpack r B (t # ts) t" using run_ok [OF run_suffix [OF assms(1)] assms(2)] assms(3) by simp
  then obtain x where "entry_seen r (t # ts) j b ps (Some x)" using host_seen [OF _ assms(6-8)] by blast
  then obtain u where u: "u \<in> set (t # ts)" "dir_at (dc_mine (core_of u r)) b ps = Some x" unfolding entry_seen_def by auto
  obtain y where y: "entry_seen r (xs @ t # ts) i b ps y" "ok = (y \<noteq> None)" "ok \<longrightarrow> out = y"
    using lookup_seen [OF whole assms(10-12)] by blast
  then obtain v where v: "v \<in> set (xs @ t # ts)" "i < length (sessions v)" "dir_at (dc_mine (core_of v r)) b ps = y" unfolding entry_seen_def by auto
  have order: "sorted_wrt (later r) (xs @ t # ts)" using run_later [OF assms(1-3)] assms(4,5) by simp
  then have "length (sessions w) \<le> length (sessions t)" if "w \<in> set (t # ts)" for w using that by (auto simp: sorted_wrt_append later_def)
  then have "v \<notin> set (t # ts)" using v(2) assms(9) by (meson leD le_trans)
  then have "kept (dc_mine (core_of u r)) (dc_mine (core_of v r))" using order u(1) v(1) by (auto simp: sorted_wrt_append later_def)
  then obtain d where d: "y = Some d" using u(2) v(3) url_at_good [OF assms(12)] unfolding kept_def by (metis not_Some_eq)
  obtain vs ws where "xs @ t # ts = vs @ v # ws" using split_list [OF v(1)] by blast
  then have "service_ok pack unpack r B (v # ws) v" using run_ok [OF run_suffix [of e pack unpack r B vs v ws] assms(2)] assms(1,3) by simp
  then have "cache_inv (dc_mine (core_of v r))" by (simp add: service_ok_def core_ok_def)
  then have "url_at (di_url d) b ps" using cache_inv_at url_at_good [OF assms(12)] v(3) d by blast
  then show ?thesis using y(2,3) d by simp
qed

theorem dirman_hosted_found_witness:
  "dirman_run True archive unarchive 1 7 (shop_state shop_cores_after [Finished True (Some shop)] # shop_run) \<and>
   True \<and> (case Some shop of None \<Rightarrow> False | Some d \<Rightarrow> url_at (di_url d) 7 [''shop''])"
proof (intro conjI [OF shop_runs] dirman_hosted_found [where xs = "shop_state shop_cores_after [Finished True (Some shop)] # take 3 shop_run"
    and t = "shop_state shop_cores []" and ts = "[shop_start]" and s = "shop_state shop_cores_after [Finished True (Some shop)]" and i = 1 and j = 0
    and e = True and pack = archive and unpack = unarchive and r = 1 and B = 7, OF _ archive_cereal _ _ _ _ _ shop_places(2) _ _ _ shop_places(1)])
  have split: "(shop_state shop_cores_after [Finished True (Some shop)] # take 3 shop_run) @ shop_state shop_cores [] # [shop_start] =
    shop_state shop_cores_after [Finished True (Some shop)] # shop_run" by (simp add: shop_run_def)
  show "dirman_run True archive unarchive 1 7 ((shop_state shop_cores_after [Finished True (Some shop)] # take 3 shop_run) @ shop_state shop_cores [] # [shop_start])"
    unfolding split by (rule shop_runs)
  show "\<forall>x\<in>set ((shop_state shop_cores_after [Finished True (Some shop)] # take 3 shop_run) @ shop_state shop_cores [] # [shop_start]). entries_fit archive 1 x"
    unfolding split by (rule shop_fit)
qed (auto simp: shop_state_def shop_look_def no_drops_def less_Suc_eq)

section \<open>Parents in a node's cache\<close>

lemma parent_partial:
  assumes "cache_inv known" "url_at (di_url d) b (qs @ [n])" "qs \<noteq> []" "dir_at known b (qs @ [n]) = None" "dir_at known b qs = None" "members_plain d"
  shows "\<exists>known' p. CreateAndLinkParents e d known = Inr (True, known') \<and> cache_inv known' \<and> dir_at known' b qs = Some p \<and> names_of (members p) = {n}"
proof -
  note at = assms(2)
  have good: "good_parts (qs @ [n])" "good_parts qs" using url_at_good [OF at] assms(3) by (auto simp: good_parts_def)
  define known1 where "known1 = om_set (key_text b (qs @ [n])) d known"
  have inv1: "cache_inv known1" unfolding known1_def by (rule cache_inv_set [OF assms(1) at assms(6)])
  have none: "dir_at known1 b qs = None" using assms(1,5) good by (simp add: known1_def dir_at_set cache_inv_def)
  obtain p d' where p: "url_at p b qs" "members_plain d'" "names_of (members d') = {n}"
    and step: "link_parents e (di_url d) known1 = link_parents e p (om_set (key_text b qs) d' known1)" and url: "di_url d' = p"
    by (rule link_parents_step [OF at assms(3) cache_inv_wf [OF inv1], of e]) (simp add: none)
  have inv2: "cache_inv (om_set (key_text b qs) d' known1)" using cache_inv_set [OF inv1 _ p(2)] p(1) url by simp
  obtain known' where k: "link_parents e p (om_set (key_text b qs) d' known1) = Inr known'" "cache_inv known'"
    "\<forall>c rs. good_parts rs \<longrightarrow> \<not> (c = b \<and> strict_prefix rs qs) \<longrightarrow> dir_at known' c rs = dir_at (om_set (key_text b qs) d' known1) c rs"
    using link_parents_total [OF p(1) inv2, of e] by blast
  have "dir_at known' b qs = Some d'" using k(3) good(2) inv1 by (simp add: dir_at_set cache_inv_def)
  moreover have "CreateAndLinkParents e d known = Inr (True, known')"
    using assms(4) k(1) step url_at_key(1,2) [OF at]
    by (simp add: CreateAndLinkParents_def cache_write_def cache_lookup_at [OF at] rbind_def known1_def)
  ultimately show ?thesis using k(2) p(3) by blast
qed

text \<open>
  C38. Looking up a child hides the rest of its parent: once a node that is not the root has looked up an entry whose parent it
  had not cached, its next ordinary look-up of the parent is answered at once from its own cache, with an
  entry whose only member is that child, whatever members the root's entry has.
\<close>
theorem child_hides_siblings:
  assumes "core_ok r B k c" "k \<noteq> r" "url_at (di_url d) b (qs @ [n])" "qs \<noteq> []" "members_plain d"
    and "dir_at (dc_others c) b (qs @ [n]) = None" "dir_at (dc_others c) b qs = None"
    and "url_at (localizeURL False c parent) b qs"
  shows "case end_call e (Call_GetDirectoryInfo child check_local True) d c of
     Inl _ \<Rightarrow> False
   | Inr (ok, out, c') \<Rightarrow> ok \<and> out = Some d \<and>
       (case begin_call e pack True mb (Call_GetDirectoryInfo parent True True) c' of
          Inr (Answered found (Some p) c'') \<Rightarrow> found \<and> c'' = c' \<and> names_of (members p) = {n}
        | _ \<Rightarrow> False)"
proof -
  have inv: "cache_inv (dc_others c)" and away: "\<not> am_root c" using assms(1,2) by (simp_all add: core_ok_def)
  obtain known' p where k: "CreateAndLinkParents e d (dc_others c) = Inr (True, known')" "cache_inv known'" "dir_at known' b qs = Some p"
    "names_of (members p) = {n}"
    using parent_partial [OF inv assms(3,4,6,7,5), of e] by blast
  have "dc_Lookup (localizeURL False c parent) out known' = Inr (True, p)" for out using root_lookup [OF k(2) assms(8)] k(3) by simp
  moreover have "localizeURL False (c\<lparr>dc_others := known'\<rparr>) parent = localizeURL False c parent" by (simp add: localizeURL_def)
  ultimately show ?thesis using k(1,4) away entry_not_empty [OF assms(3)] by (simp add: Let_def)
qed

theorem child_hides_siblings_witness:
  "case end_call True (Call_GetDirectoryInfo shop_url True True)
      (shop\<lparr>di_url := shop_url\<lparr>url_path := ''/shop'', url_name := ''till''\<rparr>\<rparr>) (site 1 7 2) of
     Inl _ \<Rightarrow> False
   | Inr (ok, out, c') \<Rightarrow> ok \<and> out = Some (shop\<lparr>di_url := shop_url\<lparr>url_path := ''/shop'', url_name := ''till''\<rparr>\<rparr>) \<and>
       (case begin_call True archive True 1 (Call_GetDirectoryInfo shop_url True True) c' of
          Inr (Answered found (Some p) c'') \<Rightarrow> found \<and> c'' = c' \<and> names_of (members p) = {''till''}
        | _ \<Rightarrow> False)"
proof (rule child_hides_siblings [where qs = "[''shop'']"])
  show "core_ok 1 7 2 (site 1 7 2)" by (rule site_ok)
  show "url_at (di_url (shop\<lparr>di_url := shop_url\<lparr>url_path := ''/shop'', url_name := ''till''\<rparr>\<rparr>)) 7 ([''shop''] @ [''till''])"
    by (simp add: url_at_def shop_url_def good_parts_def dir_part_def plain_part_def dir_path_def)
  show "url_at (localizeURL False (site 1 7 2) shop_url) 7 [''shop'']" unfolding shop_local by (rule shop_at)
qed (simp_all add: shop_def members_plain_def site_def dir_at_def)

end
