(* ===== verification/Data_Bundles.thy ===== *)
theory Data_Bundles
  imports Lunasa_Object
begin

text \<open>
  Bundles (\<^verbatim>\<open>lunasa/common/GenericSequentialDataBundle.hh\<close>, \<^verbatim>\<open>GenericRandomDataBundle.hh\<close>): a run of
  items of different lengths packed into the data section of a data object.  Lengths and offsets keep
  their widths; a copy that leaves the data section is undefined behaviour.
\<close>

section \<open>Bytes in a section\<close>

definition poke :: "nat \<Rightarrow> u8 list \<Rightarrow> u8 list \<Rightarrow> u8 list result" where
  "poke off bs mem = (if off + length bs \<le> length mem then Inr (take off mem @ bs @ drop (off + length bs) mem) else Inl Undefined_behaviour)"

definition peek :: "nat \<Rightarrow> nat \<Rightarrow> u8 list \<Rightarrow> u8 list result" where
  "peek off n mem = (if off + n \<le> length mem then Inr (take n (drop off mem)) else Inl Undefined_behaviour)"

fun word_at :: "u8 list \<Rightarrow> u32" where
  "word_at (a # b # c # d # _) = un32 a b c d"
| "word_at _ = 0"

lemma poke_at: "off = length xs \<Longrightarrow> length bs = length ys \<Longrightarrow> poke off bs (xs @ ys @ zs) = Inr (xs @ bs @ zs)"
  by (simp add: poke_def)

lemma peek_at: "off = length xs \<Longrightarrow> n = length ys \<Longrightarrow> peek off n (xs @ ys @ zs) = Inr ys"
  by (simp add: peek_def)

lemma poke_total: "off + length bs \<le> length mem \<Longrightarrow> \<exists>mem'. poke off bs mem = Inr mem' \<and> length mem' = length mem"
  by (simp add: poke_def)

lemma peek_total: "off + n \<le> length mem \<Longrightarrow> \<exists>bs. peek off n mem = Inr bs \<and> length bs = n"
  by (simp add: peek_def)

lemma word_at_le32 [simp]: "word_at (le32 w) = w" "word_at (le32 w @ bs) = w" "length (le32 w) = 4"
  by (simp_all add: le32_def un32_le32)

section \<open>Offsets\<close>

record bundle_offsets =
  max_payload_bytes :: u32
  current_byte_offset :: u32
  current_id :: u32
  read_only :: bool

definition bundle_offsets_ctor :: "bool \<Rightarrow> ldo \<Rightarrow> bundle_offsets" where
  "bundle_offsets_ctor is_const ldo = \<lparr>max_payload_bytes = GetDataSize ldo, current_byte_offset = 0, current_id = 0, read_only = is_const\<rparr>"

text \<open>The bytes of a string as they are copied.\<close>

definition string_bytes :: "string \<Rightarrow> u8 list" where
  "string_bytes s = map (\<lambda>c. word_of_nat (ord c)) s"

definition bytes_string :: "u8 list \<Rightarrow> string" where
  "bytes_string bs = map (\<lambda>b. char_of (unat b)) bs"

lemma bytes_string_bytes [simp]: "bytes_string (string_bytes s) = s"
  by (induction s) (simp_all add: bytes_string_def string_bytes_def unat_of_nat)

section \<open>Sequential bundles\<close>

text \<open>The item count and the bytes from \<open>packed_data\<close> to the end of the data section.\<close>

record seq_bundle =
  sb_num_items :: u32
  sb_packed :: "u8 list"

definition seq_Init :: "seq_bundle \<Rightarrow> seq_bundle" where
  "seq_Init b = b\<lparr>sb_num_items := 0\<rparr>"

text \<open>The offset and the length are added in 32 bits, the size of the length field then in 64.\<close>

definition seq_AppendBack_raw :: "u32 \<Rightarrow> u32 \<Rightarrow> u8 list \<Rightarrow> seq_bundle \<Rightarrow> (bool \<times> u32 \<times> seq_bundle) result" where
  "seq_AppendBack_raw cap off data b =
     (let len = word_of_nat (length data) in
      if unat (off + len) + 4 > unat cap then Inr (False, off, b)
      else rbind (poke (unat off) (le32 len) (sb_packed b)) (\<lambda>packed1.
        let off1 = off + 4; b1 = b\<lparr>sb_num_items := sb_num_items b + 1\<rparr> in
        if len > 0 then rbind (poke (unat off1) data packed1) (\<lambda>packed2. Inr (True, off1 + len, b1\<lparr>sb_packed := packed2\<rparr>))
        else Inr (True, off1, b1\<lparr>sb_packed := packed1\<rparr>)))"

definition seq_AppendBack :: "u8 list \<Rightarrow> bundle_offsets \<times> seq_bundle \<Rightarrow> (bool \<times> bundle_offsets \<times> seq_bundle) result" where
  "seq_AppendBack data s = (case s of (bo, b) \<Rightarrow>
     rbind (seq_AppendBack_raw (max_payload_bytes bo) (current_byte_offset bo) data b) (\<lambda>(ok, off, b1).
       Inr (ok, bo\<lparr>current_byte_offset := off, current_id := sb_num_items b1\<rparr>, b1)))"

definition seq_AppendBack_string :: "string \<Rightarrow> bundle_offsets \<times> seq_bundle \<Rightarrow> (bool \<times> bundle_offsets \<times> seq_bundle) result" where
  "seq_AppendBack_string s = seq_AppendBack (take (unat (word_of_nat (length s) :: u32)) (string_bytes s))"

text \<open>
  An item is its length and its place, a null pointer when it is empty.  The lengths are read and written where
  they lie, at any offset; that the language gives no meaning to such an access off a 4-byte boundary is not
  modelled.
\<close>

definition seq_GetNext_raw :: "u32 \<Rightarrow> u32 \<Rightarrow> u32 \<Rightarrow> seq_bundle \<Rightarrow> ((nat option \<times> u32) option \<times> u32 \<times> u32) result" where
  "seq_GetNext_raw cap k off b =
     (if k \<ge> sb_num_items b then Inr (None, k, off)
      else if unat off + 4 > unat cap then Inr (None, k, off)
      else rbind (peek (unat off) 4 (sb_packed b)) (\<lambda>bs.
        let len = word_at bs in
        if unat off + 4 + unat len > unat cap then Inr (None, k, off)
        else let off1 = off + 4 in Inr (Some (if len = 0 then None else Some (unat off1), len), k + 1, off1 + len)))"

definition seq_GetNext :: "bundle_offsets \<Rightarrow> seq_bundle \<Rightarrow> ((nat option \<times> u32) option \<times> bundle_offsets) result" where
  "seq_GetNext bo b =
     rbind (seq_GetNext_raw (max_payload_bytes bo) (current_id bo) (current_byte_offset bo) b) (\<lambda>(item, k, off).
       Inr (item, bo\<lparr>current_byte_offset := off, current_id := k\<rparr>))"

definition item_bytes :: "nat option \<times> u32 \<Rightarrow> u8 list \<Rightarrow> u8 list result" where
  "item_bytes item packed = (case item of (None, _) \<Rightarrow> Inr [] | (Some at, len) \<Rightarrow> peek at (unat len) packed)"

definition seq_GetNext_string :: "bundle_offsets \<Rightarrow> seq_bundle \<Rightarrow> (string option \<times> bundle_offsets) result" where
  "seq_GetNext_string bo b =
     rbind (seq_GetNext bo b) (\<lambda>(item, bo1). case item of
       None \<Rightarrow> Inr (None, bo1)
     | Some it \<Rightarrow> rbind (item_bytes it (sb_packed b)) (\<lambda>bs. Inr (Some (bytes_string bs), bo1)))"

section \<open>Random bundles\<close>

text \<open>The lengths are 16 bits wide and stored in a table of fixed size in front of the items.\<close>

record rnd_bundle =
  rb_num_items :: u16
  rb_lens :: "u16 list"
  rb_packed :: "u8 list"

text \<open>The size of the table for the size of the user's part of the meta section.\<close>

definition GetMaxItems :: "nat \<Rightarrow> nat" where
  "GetMaxItems extra_meta_size = (64 * 1024 - 8 - (8 + extra_meta_size)) div 2"

definition rnd_Init :: "rnd_bundle \<Rightarrow> rnd_bundle" where
  "rnd_Init b = b\<lparr>rb_num_items := 0\<rparr>"

definition rnd_AppendBack_raw :: "u32 \<Rightarrow> u32 \<Rightarrow> u8 list \<Rightarrow> u16 \<Rightarrow> rnd_bundle \<Rightarrow> (bool \<times> u32 \<times> rnd_bundle) result" where
  "rnd_AppendBack_raw cap off data len b =
     (if unat (rb_num_items b) + 1 > length (rb_lens b) then Inr (False, off, b)
      else if off + ucast len > cap then Inr (False, off, b)
      else rbind (if len > 0 then poke (unat off) (take (unat len) data) (rb_packed b) else Inr (rb_packed b)) (\<lambda>packed.
        Inr (True, off + ucast len, b\<lparr>rb_num_items := rb_num_items b + 1, rb_lens := (rb_lens b)[unat (rb_num_items b) := len], rb_packed := packed\<rparr>)))"

definition rnd_AppendBack :: "u8 list \<Rightarrow> u16 \<Rightarrow> bundle_offsets \<times> rnd_bundle \<Rightarrow> (bool \<times> bundle_offsets \<times> rnd_bundle) result" where
  "rnd_AppendBack data len s = (case s of (bo, b) \<Rightarrow>
     rbind (rnd_AppendBack_raw (max_payload_bytes bo) (current_byte_offset bo) data len b) (\<lambda>(ok, off, b1).
       Inr (ok, bo\<lparr>current_byte_offset := off, current_id := ucast (rb_num_items b1)\<rparr>, b1)))"

text \<open>The length of a string is cut to 16 bits.\<close>

definition rnd_AppendBack_string :: "string \<Rightarrow> bundle_offsets \<times> rnd_bundle \<Rightarrow> (bool \<times> bundle_offsets \<times> rnd_bundle) result" where
  "rnd_AppendBack_string s = rnd_AppendBack (string_bytes s) (word_of_nat (length s))"

definition rnd_GetNext_raw :: "u32 \<Rightarrow> u32 \<Rightarrow> u32 \<Rightarrow> rnd_bundle \<Rightarrow> ((nat option \<times> u32) option \<times> u32 \<times> u32) result" where
  "rnd_GetNext_raw cap k off b =
     (if k \<ge> ucast (rb_num_items b) then Inr (None, k, off)
      else if unat k \<ge> length (rb_lens b) then Inl Undefined_behaviour
      else let len = ucast (rb_lens b ! unat k) in
        if off + len > cap then Inr (None, k, off)
        else Inr (Some (if len = 0 then None else Some (unat off), len), k + 1, off + len))"

definition rnd_GetNext :: "bundle_offsets \<Rightarrow> rnd_bundle \<Rightarrow> ((nat option \<times> u32) option \<times> bundle_offsets) result" where
  "rnd_GetNext bo b =
     rbind (rnd_GetNext_raw (max_payload_bytes bo) (current_id bo) (current_byte_offset bo) b) (\<lambda>(item, k, off).
       Inr (item, bo\<lparr>current_byte_offset := off, current_id := k\<rparr>))"

definition rnd_GetNext_string :: "bundle_offsets \<Rightarrow> rnd_bundle \<Rightarrow> (string option \<times> bundle_offsets) result" where
  "rnd_GetNext_string bo b =
     rbind (rnd_GetNext bo b) (\<lambda>(item, bo1). case item of
       None \<Rightarrow> Inr (None, bo1)
     | Some it \<Rightarrow> rbind (item_bytes it (rb_packed b)) (\<lambda>bs. Inr (Some (bytes_string bs), bo1)))"

section \<open>Streams of items\<close>

text \<open>A producer that stops when an item is refused, and a consumer that stops at the end.\<close>

fun append_all :: "('d \<Rightarrow> 's \<Rightarrow> (bool \<times> 's) result) \<Rightarrow> 'd list \<Rightarrow> 's \<Rightarrow> (bool \<times> 's) result" where
  "append_all put [] s = Inr (True, s)"
| "append_all put (d # ds) s = rbind (put d s) (\<lambda>(ok, s1). if ok then append_all put ds s1 else Inr (False, s1))"

fun read_all :: "('r \<Rightarrow> ('d option \<times> 'r) result) \<Rightarrow> nat \<Rightarrow> 'r \<Rightarrow> ('d list \<times> 'r) result" where
  "read_all get 0 r = Inr ([], r)"
| "read_all get (Suc n) r = rbind (get r) (\<lambda>(x, r1). case x of
     None \<Rightarrow> Inr ([], r1)
   | Some d \<Rightarrow> rbind (read_all get n r1) (\<lambda>(ds, r2). Inr (d # ds, r2)))"

text \<open>
  What a bundle promises: \<open>held ds s\<close> says that the bundle holds the items \<open>ds\<close>, \<open>at ds k r\<close> that a reader is in
  front of the k-th.
\<close>
locale item_stream =
  fixes put :: "'d \<Rightarrow> 's \<Rightarrow> (bool \<times> 's) result" and get :: "'s \<Rightarrow> 'r \<Rightarrow> ('d option \<times> 'r) result"
    and held :: "'d list \<Rightarrow> 's \<Rightarrow> bool" and at :: "'d list \<Rightarrow> nat \<Rightarrow> 'r \<Rightarrow> bool" and fits :: "'d list \<Rightarrow> bool" and plain :: "'d \<Rightarrow> bool"
  assumes put_fits: "held ds s \<Longrightarrow> fits (ds @ [d]) \<Longrightarrow> \<exists>s'. put d s = Inr (True, s') \<and> held (ds @ [d]) s'"
    and put_full: "held ds s \<Longrightarrow> \<not> fits (ds @ [d]) \<Longrightarrow> plain d \<Longrightarrow> \<exists>s'. put d s = Inr (False, s') \<and> held ds s'"
    and fits_prefix: "fits (ds @ es) \<Longrightarrow> fits ds"
    and get_next: "held ds s \<Longrightarrow> at ds k r \<Longrightarrow> k < length ds \<Longrightarrow> \<exists>r'. get s r = Inr (Some (ds ! k), r') \<and> at ds (Suc k) r'"
    and get_last: "held ds s \<Longrightarrow> at ds (length ds) r \<Longrightarrow> get s r = Inr (None, r)"
begin

text \<open>Appending stops in front of the first item that does not fit.\<close>

lemma append_until_full:
  "held ds s \<Longrightarrow> fits ds \<Longrightarrow> fits (ds @ es) \<or> list_all plain es \<Longrightarrow>
   \<exists>n s'. n \<le> length es \<and> append_all put es s = Inr (n = length es, s') \<and> held (ds @ take n es) s' \<and>
     fits (ds @ take n es) \<and> (n < length es \<longrightarrow> \<not> fits (ds @ take (Suc n) es))"
proof (induction es arbitrary: ds s)
  case (Cons d es)
  show ?case
  proof (cases "fits (ds @ [d])")
    case True
    then obtain s1 where s1: "put d s = Inr (True, s1)" "held (ds @ [d]) s1" using put_fits Cons.prems(1) by blast
    obtain n s' where "n \<le> length es" "append_all put es s1 = Inr (n = length es, s')" "held (ds @ take (Suc n) (d # es)) s'"
      "fits (ds @ take (Suc n) (d # es))" "n < length es \<longrightarrow> \<not> fits (ds @ take (Suc (Suc n)) (d # es))"
      using Cons.IH [OF s1(2) True] Cons.prems(3) by auto
    then show ?thesis using s1(1) by (intro exI [of _ "Suc n"] exI [of _ s']) simp
  next
    case False
    then have "\<not> fits (ds @ d # es)" using fits_prefix [of "ds @ [d]" es] by auto
    then have "plain d" using Cons.prems(3) by simp
    then obtain s1 where "put d s = Inr (False, s1)" "held ds s1" using put_full Cons.prems(1) False by blast
    then show ?thesis using False Cons.prems(2) by (intro exI [of _ 0] exI [of _ s1]) simp
  qed
qed simp

lemma read_from: "held ds s \<Longrightarrow> at ds k r \<Longrightarrow> k + n \<le> length ds \<Longrightarrow> \<exists>r'. read_all (get s) n r = Inr (take n (drop k ds), r') \<and> at ds (k + n) r'"
proof (induction n arbitrary: k r)
  case (Suc n)
  obtain r1 where "get s r = Inr (Some (ds ! k), r1)" "at ds (Suc k) r1" using get_next Suc.prems by fastforce
  then show ?case using Suc.IH [of "Suc k" r1] Suc.prems by (auto simp flip: Cons_nth_drop_Suc)
qed simp

lemma append_then_read:
  assumes "held [] s" "fits []" "fits ds \<or> list_all plain ds" "\<And>es. at es 0 r"
  shows "\<exists>n s' r'. n \<le> length ds \<and> append_all put ds s = Inr (n = length ds, s') \<and>
    fits (take n ds) \<and> (n < length ds \<longrightarrow> \<not> fits (take (Suc n) ds)) \<and>
    read_all (get s') n r = Inr (take n ds, r') \<and> get s' r' = Inr (None, r')"
proof -
  obtain n s' where s': "n \<le> length ds" "append_all put ds s = Inr (n = length ds, s')" "held (take n ds) s'"
    "fits (take n ds)" "n < length ds \<longrightarrow> \<not> fits (take (Suc n) ds)"
    using append_until_full [OF assms(1,2), of ds] assms(3) by auto
  obtain r' where r': "read_all (get s') n r = Inr (take n ds, r')" "at (take n ds) (length (take n ds)) r'"
    using read_from [OF s'(3) assms(4), of n] s'(1) by auto
  have "get s' r' = Inr (None, r')" by (rule get_last [OF s'(3) r'(2)])
  then show ?thesis using s' r'(1) by blast
qed

end

section \<open>Sequential bundles hold their items\<close>

definition seq_image :: "string list \<Rightarrow> u8 list" where
  "seq_image ds = concat (map (\<lambda>d. le32 (word_of_nat (length d)) @ string_bytes d) ds)"

definition seq_held :: "u32 \<Rightarrow> string list \<Rightarrow> bundle_offsets \<times> seq_bundle \<Rightarrow> bool" where
  "seq_held cap ds s = (case s of (bo, b) \<Rightarrow> max_payload_bytes bo = cap \<and> current_byte_offset bo = word_of_nat (length (seq_image ds)) \<and>
     sb_num_items b = word_of_nat (length ds) \<and> length (sb_packed b) = unat cap \<and> (\<exists>rest. sb_packed b = seq_image ds @ rest))"

definition seq_at :: "u32 \<Rightarrow> string list \<Rightarrow> nat \<Rightarrow> bundle_offsets \<Rightarrow> bool" where
  "seq_at cap ds k bo = (max_payload_bytes bo = cap \<and> current_id bo = word_of_nat k \<and> current_byte_offset bo = word_of_nat (length (seq_image (take k ds))))"

definition seq_fits :: "u32 \<Rightarrow> string list \<Rightarrow> bool" where
  "seq_fits cap ds = (length (seq_image ds) \<le> unat cap)"

text \<open>An item so long that its end passes 4 GiB is not refused but overruns the section; see below.\<close>

definition seq_plain :: "u32 \<Rightarrow> string \<Rightarrow> bool" where
  "seq_plain cap d = (unat cap + length d < 2 ^ 32)"

lemma length_string_bytes [simp]: "length (string_bytes s) = length s"
  by (simp add: string_bytes_def)

lemma seq_image_simps [simp]: "seq_image [] = []" "seq_image (d # ds) = le32 (word_of_nat (length d)) @ string_bytes d @ seq_image ds"
  "seq_image (ds @ es) = seq_image ds @ seq_image es"
  by (simp_all add: seq_image_def)

lemma seq_image_count: "4 * length ds \<le> length (seq_image ds)"
  by (induction ds) simp_all

lemma unat_less_32: "unat (w :: u32) < 2 ^ 32"
  using unsigned_less [of w, where ?'a = nat] by simp

lemma unat_nat_32: "n < 2 ^ 32 \<Longrightarrow> unat (word_of_nat n :: u32) = n"
  by (simp add: unat_of_nat)

lemma string_cut: "length d < 2 ^ 32 \<Longrightarrow> take (unat (word_of_nat (length d) :: u32)) (string_bytes d) = string_bytes d"
  by (simp add: unat_nat_32)

text \<open>One append in a section of the right size: what it does to offset and bytes.\<close>

lemma seq_append_raw:
  assumes "unat off + 4 + length data \<le> unat cap" "length (sb_packed b) = unat cap"
  shows "seq_AppendBack_raw cap off data b = Inr (True, off + 4 + word_of_nat (length data),
    b\<lparr>sb_num_items := sb_num_items b + 1, sb_packed := take (unat off) (sb_packed b) @ le32 (word_of_nat (length data)) @ data @ drop (unat off + 4 + length data) (sb_packed b)\<rparr>)"
proof -
  have small: "unat off + 4 + length data < 2 ^ 32" using assms(1) unat_less_32 [of cap] by simp
  have len: "unat (word_of_nat (length data) :: u32) = length data" using small by (intro unat_nat_32) simp
  have sum: "unat (off + word_of_nat (length data)) = unat off + length data" using small len by (simp add: unat_word_ariths)
  have off4: "unat (off + 4) = unat off + 4" using small by (simp add: unat_word_ariths)
  let ?p = "take (unat off) (sb_packed b) @ le32 (word_of_nat (length data)) @ drop (unat off + 4) (sb_packed b)"
  have p1: "poke (unat off) (le32 (word_of_nat (length data))) (sb_packed b) = Inr ?p" using assms by (simp add: poke_def)
  have p2: "poke (unat off + 4) data ?p = Inr (take (unat off) (sb_packed b) @ le32 (word_of_nat (length data)) @ data @ drop (unat off + 4 + length data) (sb_packed b))"
    using assms by (simp add: poke_def add_ac)
  show ?thesis
  proof (cases "data = []")
    case True
    then show ?thesis using assms p1 sum by (simp add: seq_AppendBack_raw_def Let_def)
  next
    case False
    then have "(word_of_nat (length data) :: u32) > 0" using len by (metis length_0_conv unat_0 word_gt_0)
    then show ?thesis using assms(1) p1 p2 sum off4 by (simp add: seq_AppendBack_raw_def Let_def)
  qed
qed

lemma seq_get_raw:
  assumes "k < sb_num_items b" "length (sb_packed b) = unat cap" "sb_packed b = xs @ le32 (word_of_nat (length data)) @ data @ rest" "off = word_of_nat (length xs)"
  shows "seq_GetNext_raw cap k off b = Inr (Some (if data = [] then None else Some (length xs + 4), word_of_nat (length data)), k + 1, off + 4 + word_of_nat (length data))"
proof -
  have small: "length xs + 4 + length data \<le> unat cap" using assms(2,3) by simp
  then have lt: "length xs + 4 + length data < 2 ^ 32" using unat_less_32 [of cap] by simp
  have u: "unat off = length xs" "unat (word_of_nat (length data) :: u32) = length data" "unat (off + 4) = length xs + 4"
    using lt assms(4) by (simp_all add: unat_word_ariths unat_of_nat)
  have p: "peek (unat off) 4 (sb_packed b) = Inr (le32 (word_of_nat (length data)))" unfolding assms(3) by (rule peek_at) (simp_all add: u)
  have z: "(word_of_nat (length data) :: u32) = 0 \<longleftrightarrow> data = []" using u(2) by (metis length_0_conv unat_0 unat_eq_0)
  show ?thesis using assms(1) small p u z by (simp add: seq_GetNext_raw_def Let_def not_le)
qed

lemma seq_put_fits:
  assumes held: "seq_held cap ds s" and fits: "seq_fits cap (ds @ [d])"
  shows "\<exists>s'. seq_AppendBack_string d s = Inr (True, s') \<and> seq_held cap (ds @ [d]) s'"
proof -
  obtain bo b where s: "s = (bo, b)" by (cases s)
  obtain rest where rest: "sb_packed b = seq_image ds @ rest" and len: "length (sb_packed b) = unat cap" and mx: "max_payload_bytes bo = cap"
    and off: "current_byte_offset bo = word_of_nat (length (seq_image ds))" and num: "sb_num_items b = word_of_nat (length ds)"
    using held s by (auto simp: seq_held_def)
  have room: "length (seq_image ds) + 4 + length d \<le> unat cap" using fits by (simp add: seq_fits_def)
  then have lt: "length (seq_image ds) + 4 + length d < 2 ^ 32" using unat_less_32 [of cap] by simp
  have uoff: "unat (current_byte_offset bo) = length (seq_image ds)" using lt off by (simp add: unat_of_nat)
  have "seq_AppendBack_raw cap (current_byte_offset bo) (string_bytes d) b = Inr (True, current_byte_offset bo + 4 + word_of_nat (length d),
      b\<lparr>sb_num_items := sb_num_items b + 1, sb_packed := seq_image ds @ le32 (word_of_nat (length d)) @ string_bytes d @ drop (4 + length d) rest\<rparr>)"
    using seq_append_raw [of "current_byte_offset bo" "string_bytes d" cap b] room len uoff rest by (simp add: add.assoc)
  moreover have "take (unat (word_of_nat (length d) :: u32)) (string_bytes d) = string_bytes d" using lt by (intro string_cut) simp
  ultimately show ?thesis
    using s mx off num len rest room by (simp add: seq_AppendBack_string_def seq_AppendBack_def seq_held_def add_ac)
qed

lemma seq_put_full:
  assumes held: "seq_held cap ds s" and full: "\<not> seq_fits cap (ds @ [d])" and plain: "seq_plain cap d"
  shows "\<exists>s'. seq_AppendBack_string d s = Inr (False, s') \<and> seq_held cap ds s'"
proof -
  obtain bo b where s: "s = (bo, b)" by (cases s)
  have len: "length (seq_image ds) \<le> unat cap" using held s by (auto simp: seq_held_def)
  then have lt: "length (seq_image ds) + length d < 2 ^ 32" using plain by (simp add: seq_plain_def)
  have u: "unat (current_byte_offset bo + word_of_nat (length d)) = length (seq_image ds) + length d"
    using lt held s by (simp add: seq_held_def unat_word_ariths unat_of_nat)
  have "take (unat (word_of_nat (length d) :: u32)) (string_bytes d) = string_bytes d" using lt by (intro string_cut) simp
  then show ?thesis
    using u full held s by (auto simp: seq_AppendBack_string_def seq_AppendBack_def seq_AppendBack_raw_def Let_def seq_held_def seq_fits_def)
qed

lemma seq_get_next:
  assumes held: "seq_held cap ds s" and at: "seq_at cap ds k r" and k: "k < length ds"
  shows "\<exists>r'. seq_GetNext_string r (snd s) = Inr (Some (ds ! k), r') \<and> seq_at cap ds (Suc k) r'"
proof -
  obtain bo b where s: "s = (bo, b)" by (cases s)
  have split: "seq_image ds = seq_image (take k ds) @ le32 (word_of_nat (length (ds ! k))) @ string_bytes (ds ! k) @ seq_image (drop (Suc k) ds)"
    using arg_cong [OF id_take_nth_drop [OF k], of seq_image] by simp
  obtain rest where rest: "sb_packed b = seq_image (take k ds) @ le32 (word_of_nat (length (string_bytes (ds ! k)))) @ string_bytes (ds ! k) @ rest" and len: "length (sb_packed b) = unat cap"
    using held s split by (auto simp: seq_held_def)
  have lt: "length (seq_image ds) < 2 ^ 32" using held s unat_less_32 [of cap] by (auto simp: seq_held_def)
  have cnt: "length ds < 2 ^ 32" using lt seq_image_count [of ds] by simp
  have id: "(word_of_nat k :: u32) < sb_num_items b" using k cnt held s by (simp add: seq_held_def word_less_nat_alt unat_of_nat)
  have place: "length (seq_image (take k ds)) + 4 + length (ds ! k) < 2 ^ 32" using lt split by simp
  have bytes: "item_bytes (if ds ! k = [] then None else Some (length (seq_image (take k ds)) + 4), word_of_nat (length (ds ! k))) (sb_packed b) = Inr (string_bytes (ds ! k))"
  proof (cases "ds ! k = []")
    case False
    have "peek (length (seq_image (take k ds)) + 4) (length (ds ! k)) ((seq_image (take k ds) @ le32 (word_of_nat (length (ds ! k)))) @ string_bytes (ds ! k) @ rest) = Inr (string_bytes (ds ! k))"
      by (rule peek_at) simp_all
    then show ?thesis using False rest place by (simp add: item_bytes_def unat_of_nat)
  qed (simp add: item_bytes_def string_bytes_def)
  have "seq_GetNext_raw cap (word_of_nat k) (current_byte_offset r) b = Inr (Some (if ds ! k = [] then None else Some (length (seq_image (take k ds)) + 4), word_of_nat (length (ds ! k))),
      word_of_nat k + 1, current_byte_offset r + 4 + word_of_nat (length (ds ! k)))"
    using seq_get_raw [OF id len rest] at by (simp add: seq_at_def string_bytes_def)
  then show ?thesis
    using at k bytes s by (simp add: seq_GetNext_string_def seq_GetNext_def seq_at_def take_Suc_conv_app_nth add_ac)
qed

interpretation seq_stream: item_stream seq_AppendBack_string "\<lambda>s r. seq_GetNext_string r (snd s)" "seq_held cap" "seq_at cap" "seq_fits cap" "seq_plain cap" for cap
proof (unfold_locales, goal_cases)
  case (1 ds s d)
  then show ?case by (rule seq_put_fits)
next
  case (2 ds s d)
  then show ?case by (rule seq_put_full)
next
  case (3 ds es)
  then show ?case by (simp add: seq_fits_def)
next
  case (4 ds s k r)
  then show ?case by (rule seq_get_next)
next
  case (5 ds s r)
  then show ?case by (auto simp: seq_held_def seq_at_def seq_GetNext_string_def seq_GetNext_def seq_GetNext_raw_def)
qed

section \<open>Random bundles hold their items\<close>

definition rnd_image :: "string list \<Rightarrow> u8 list" where
  "rnd_image ds = string_bytes (concat ds)"

definition rnd_held :: "nat \<Rightarrow> u32 \<Rightarrow> string list \<Rightarrow> bundle_offsets \<times> rnd_bundle \<Rightarrow> bool" where
  "rnd_held slots cap ds s = (case s of (bo, b) \<Rightarrow> max_payload_bytes bo = cap \<and> current_byte_offset bo = word_of_nat (length (rnd_image ds)) \<and>
     rb_num_items b = word_of_nat (length ds) \<and> length ds \<le> slots \<and> length (rb_lens b) = slots \<and> list_all (\<lambda>d. length d < 2 ^ 16) ds \<and>
     (\<forall>i<length ds. rb_lens b ! i = word_of_nat (length (ds ! i))) \<and> length (rb_packed b) = unat cap \<and> (\<exists>rest. rb_packed b = rnd_image ds @ rest))"

definition rnd_at :: "u32 \<Rightarrow> string list \<Rightarrow> nat \<Rightarrow> bundle_offsets \<Rightarrow> bool" where
  "rnd_at cap ds k bo = (max_payload_bytes bo = cap \<and> current_id bo = word_of_nat k \<and> current_byte_offset bo = word_of_nat (length (rnd_image (take k ds))))"

definition rnd_fits :: "nat \<Rightarrow> u32 \<Rightarrow> string list \<Rightarrow> bool" where
  "rnd_fits slots cap ds = (length ds \<le> slots \<and> length (rnd_image ds) \<le> unat cap \<and> list_all (\<lambda>d. length d < 2 ^ 16) ds)"

definition rnd_plain :: "u32 \<Rightarrow> string \<Rightarrow> bool" where
  "rnd_plain cap d = (length d < 2 ^ 16 \<and> unat cap + length d < 2 ^ 32)"

lemma rnd_image_simps [simp]: "rnd_image [] = []" "rnd_image (d # ds) = string_bytes d @ rnd_image ds" "rnd_image (ds @ es) = rnd_image ds @ rnd_image es"
  by (simp_all add: rnd_image_def string_bytes_def)

lemma unat_nat_16: "n < 2 ^ 16 \<Longrightarrow> unat (word_of_nat n :: u16) = n"
  by (simp add: unat_of_nat)

lemma ucast_nat_16: "n < 2 ^ 16 \<Longrightarrow> (ucast (word_of_nat n :: u16) :: u32) = word_of_nat n"
  by (metis of_nat_unat unat_nat_16)

lemma rnd_append_raw:
  assumes "unat (rb_num_items b) < length (rb_lens b)" "unat off + length data \<le> unat cap" "length data < 2 ^ 16" "length (rb_packed b) = unat cap"
  shows "rnd_AppendBack_raw cap off data (word_of_nat (length data)) b = Inr (True, off + word_of_nat (length data),
    b\<lparr>rb_num_items := rb_num_items b + 1, rb_lens := (rb_lens b)[unat (rb_num_items b) := word_of_nat (length data)],
      rb_packed := take (unat off) (rb_packed b) @ data @ drop (unat off + length data) (rb_packed b)\<rparr>)"
proof -
  have lt: "unat off + length data < 2 ^ 32" using assms(2) unat_less_32 [of cap] by simp
  have sum: "unat (off + word_of_nat (length data)) = unat off + length data" using lt by (simp add: unat_word_ariths unat_of_nat)
  have pos: "(word_of_nat (length data) :: u16) > 0 \<longleftrightarrow> data \<noteq> []" using unat_nat_16 [OF assms(3)] by (metis length_0_conv unat_0 unat_eq_0 word_gt_0)
  show ?thesis using assms sum pos ucast_nat_16 [OF assms(3)] unat_nat_16 [OF assms(3)]
    by (cases "data = []") (simp_all add: rnd_AppendBack_raw_def poke_def word_less_nat_alt not_less)
qed

lemma rnd_put_fits:
  assumes held: "rnd_held slots cap ds s" and fits: "rnd_fits slots cap (ds @ [d])" and slots: "slots < 2 ^ 16"
  shows "\<exists>s'. rnd_AppendBack_string d s = Inr (True, s') \<and> rnd_held slots cap (ds @ [d]) s'"
proof -
  obtain bo b where s: "s = (bo, b)" by (cases s)
  obtain rest where rest: "rb_packed b = rnd_image ds @ rest" and len: "length (rb_packed b) = unat cap" and mx: "max_payload_bytes bo = cap"
    and off: "current_byte_offset bo = word_of_nat (length (rnd_image ds))" and num: "rb_num_items b = word_of_nat (length ds)" and tab: "length (rb_lens b) = slots"
    using held s by (auto simp: rnd_held_def)
  have room: "length (rnd_image ds) + length d \<le> unat cap" "length ds < slots" "length d < 2 ^ 16" using fits by (simp_all add: rnd_fits_def)
  then have lt: "length (rnd_image ds) + length d < 2 ^ 32" using unat_less_32 [of cap] by simp
  have u: "unat (current_byte_offset bo) = length (rnd_image ds)" "unat (rb_num_items b) = length ds" using lt off num room(2) slots by (simp_all add: unat_of_nat)
  have "rnd_AppendBack_raw cap (current_byte_offset bo) (string_bytes d) (word_of_nat (length d)) b = Inr (True, current_byte_offset bo + word_of_nat (length d),
      b\<lparr>rb_num_items := rb_num_items b + 1, rb_lens := (rb_lens b)[length ds := word_of_nat (length d)], rb_packed := rnd_image ds @ string_bytes d @ drop (length d) rest\<rparr>)"
    using rnd_append_raw [of b "current_byte_offset bo" "string_bytes d" cap] room len u rest tab by simp
  then show ?thesis using s mx off num len rest room held
    by (auto simp: rnd_AppendBack_string_def rnd_AppendBack_def rnd_held_def nth_append nth_list_update less_Suc_eq add_ac)
qed

lemma rnd_put_full:
  assumes held: "rnd_held slots cap ds s" and full: "\<not> rnd_fits slots cap (ds @ [d])" and plain: "rnd_plain cap d" and slots: "slots < 2 ^ 16"
  shows "\<exists>s'. rnd_AppendBack_string d s = Inr (False, s') \<and> rnd_held slots cap ds s'"
proof -
  obtain bo b where s: "s = (bo, b)" by (cases s)
  have len: "length (rnd_image ds) \<le> unat cap" "length ds \<le> slots" "list_all (\<lambda>d. length d < 2 ^ 16) ds" using held s by (auto simp: rnd_held_def)
  have d: "length d < 2 ^ 16" "length (rnd_image ds) + length d < 2 ^ 32" using plain len(1) by (simp_all add: rnd_plain_def)
  have u: "unat (current_byte_offset bo + ucast (word_of_nat (length d) :: u16)) = length (rnd_image ds) + length d" "unat (rb_num_items b) = length ds"
    using d held s len slots unfolding ucast_nat_16 [OF d(1)] by (simp_all add: rnd_held_def unat_word_ariths unat_of_nat)
  have "length ds \<ge> slots \<or> length (rnd_image ds) + length d > unat cap" using full d len by (auto simp: rnd_fits_def)
  then have "rnd_AppendBack_raw cap (current_byte_offset bo) (string_bytes d) (word_of_nat (length d)) b = Inr (False, current_byte_offset bo, b)"
    using u held s by (auto simp: rnd_AppendBack_raw_def rnd_held_def word_less_nat_alt)
  then show ?thesis using held s by (simp add: rnd_AppendBack_string_def rnd_AppendBack_def rnd_held_def)
qed

lemma rnd_get_next:
  assumes held: "rnd_held slots cap ds s" and at: "rnd_at cap ds k r" and k: "k < length ds" and slots: "slots < 2 ^ 16"
  shows "\<exists>r'. rnd_GetNext_string r (snd s) = Inr (Some (ds ! k), r') \<and> rnd_at cap ds (Suc k) r'"
proof -
  obtain bo b where s: "s = (bo, b)" by (cases s)
  have split: "rnd_image ds = rnd_image (take k ds) @ string_bytes (ds ! k) @ rnd_image (drop (Suc k) ds)"
    using arg_cong [OF id_take_nth_drop [OF k], of rnd_image] by simp
  obtain rest where rest: "rb_packed b = rnd_image (take k ds) @ string_bytes (ds ! k) @ rest" and len: "length (rb_packed b) = unat cap"
    using held s split by (auto simp: rnd_held_def)
  have in_cap: "length (rnd_image (take k ds)) + length (ds ! k) \<le> unat cap" using rest len by simp
  then have lt: "length (rnd_image (take k ds)) + length (ds ! k) < 2 ^ 32" using unat_less_32 [of cap] by simp
  have small: "length (ds ! k) < 2 ^ 16" "length ds < 2 ^ 16" using held s k slots by (auto simp: rnd_held_def list_all_length)
  have id: "(word_of_nat k :: u32) < ucast (rb_num_items b)" "k < length (rb_lens b)" "rb_lens b ! k = word_of_nat (length (ds ! k))" "unat (word_of_nat k :: u32) = k"
    using k small held s by (auto simp: rnd_held_def ucast_nat_16 word_less_nat_alt unat_of_nat)
  have off: "unat (current_byte_offset r) = length (rnd_image (take k ds))" "unat (current_byte_offset r + word_of_nat (length (ds ! k))) = length (rnd_image (take k ds)) + length (ds ! k)"
    using at lt by (simp_all add: rnd_at_def unat_word_ariths unat_of_nat)
  have "length (ds ! k) < 2 ^ 32" using lt by simp
  then have z: "(word_of_nat (length (ds ! k)) :: u32) = 0 \<longleftrightarrow> ds ! k = []" by (metis unat_nat_32 length_0_conv unat_0 unat_eq_0)
  have raw: "rnd_GetNext_raw cap (word_of_nat k) (current_byte_offset r) b = Inr (Some (if ds ! k = [] then None else Some (length (rnd_image (take k ds))), word_of_nat (length (ds ! k))),
      word_of_nat k + 1, current_byte_offset r + word_of_nat (length (ds ! k)))"
    using id off in_cap z ucast_nat_16 [OF small(1)] by (simp add: rnd_GetNext_raw_def Let_def not_le word_less_nat_alt)
  have "peek (length (rnd_image (take k ds))) (length (ds ! k)) (rb_packed b) = Inr (string_bytes (ds ! k))" unfolding rest by (rule peek_at) simp_all
  then have "item_bytes (if ds ! k = [] then None else Some (length (rnd_image (take k ds))), word_of_nat (length (ds ! k))) (rb_packed b) = Inr (string_bytes (ds ! k))"
    using lt by (simp add: item_bytes_def unat_of_nat string_bytes_def)
  then show ?thesis using at k raw s by (simp add: rnd_GetNext_string_def rnd_GetNext_def rnd_at_def take_Suc_conv_app_nth add_ac)
qed

lemma GetMaxItems_16: "GetMaxItems m < 2 ^ 16"
  by (simp add: GetMaxItems_def)

interpretation rnd_stream: item_stream rnd_AppendBack_string "\<lambda>s r. rnd_GetNext_string r (snd s)" "rnd_held (GetMaxItems m) cap" "rnd_at cap"
  "rnd_fits (GetMaxItems m) cap" "rnd_plain cap" for m cap
proof (unfold_locales, goal_cases)
  case (1 ds s d)
  then show ?case using rnd_put_fits GetMaxItems_16 by blast
next
  case (2 ds s d)
  then show ?case using rnd_put_full GetMaxItems_16 by blast
next
  case (3 ds es)
  then show ?case by (simp add: rnd_fits_def)
next
  case (4 ds s k r)
  then show ?case using rnd_get_next GetMaxItems_16 by blast
next
  case (5 ds s r)
  then have "ucast (rb_num_items (snd s)) = (word_of_nat (length ds) :: u32)" using GetMaxItems_16 [of m] by (auto simp: rnd_held_def ucast_nat_16)
  then show ?case using 5 by (auto simp: rnd_at_def rnd_GetNext_string_def rnd_GetNext_def rnd_GetNext_raw_def)
qed

lemma seq_append_bounds:
  assumes "length (sb_packed b) = unat cap" "length data < 2 ^ 32" "unat off \<le> unat cap"
  shows "case seq_AppendBack_raw cap off data b of
      Inl _ \<Rightarrow> 2 ^ 32 \<le> unat off + length data \<and> unat off + length data + 4 \<le> 2 ^ 32 + unat cap
    | Inr (ok, off', b') \<Rightarrow> ok = (unat off + 4 + length data \<le> unat cap) \<and> length (sb_packed b') = unat cap \<and> unat off \<le> unat off' \<and> unat off' \<le> unat cap \<and>
        \<not> (2 ^ 32 \<le> unat off + length data \<and> unat off + length data + 4 \<le> 2 ^ 32 + unat cap)"
proof -
  have len: "unat (word_of_nat (length data) :: u32) = length data" using assms(2) by (rule unat_nat_32)
  have sum: "unat (off + word_of_nat (length data)) = (unat off + length data) mod 2 ^ 32" using len by (simp add: unat_word_ariths)
  consider (fits) "unat off + 4 + length data \<le> unat cap" | (full) "unat off + 4 + length data > unat cap" "unat off + length data < 2 ^ 32"
    | (over) "2 ^ 32 \<le> unat off + length data" by linarith
  then show ?thesis
  proof cases
    case fits
    then have lt: "unat off + 4 + length data < 2 ^ 32" using unat_less_32 [of cap] by simp
    then have "unat (off + 4 + word_of_nat (length data)) = unat off + 4 + length data" using len by (simp add: unat_word_ariths)
    then show ?thesis using seq_append_raw [OF fits assms(1)] fits assms(1) lt by simp
  next
    case full
    then have "seq_AppendBack_raw cap off data b = Inr (False, off, b)" using sum by (simp add: seq_AppendBack_raw_def)
    then show ?thesis using full assms by simp
  next
    case over
    have m: "(unat off + length data) mod 2 ^ 32 = unat off + length data - 2 ^ 32"
      using over assms(2) unat_less_32 [of off] by (subst le_mod_geq) simp_all
    show ?thesis
    proof (cases "unat off + length data + 4 \<le> 2 ^ 32 + unat cap")
      case False
      then have "unat (off + word_of_nat (length data)) + 4 > unat cap" using sum m over by linarith
      then have "seq_AppendBack_raw cap off data b = Inr (False, off, b)" by (simp add: seq_AppendBack_raw_def)
      then show ?thesis using False over assms unat_less_32 [of cap] by simp
    next
      case True
      have pos: "(word_of_nat (length data) :: u32) > 0" using over unat_less_32 [of off] len by (metis add_cancel_right_right leD unat_0 word_gt_0)
      have "seq_AppendBack_raw cap off data b = Inl Undefined_behaviour"
      proof (cases "unat off + 4 \<le> unat cap")
        case fit4: True
        have "unat (off + 4) = unat off + 4" using fit4 unat_less_32 [of cap] by (simp add: unat_word_ariths)
        then show ?thesis using True over sum m pos fit4 assms unat_less_32 [of cap] by (simp add: seq_AppendBack_raw_def Let_def poke_def)
      next
        case nofit4: False
        then show ?thesis using True over sum m assms by (simp add: seq_AppendBack_raw_def Let_def poke_def)
      qed
      then show ?thesis using True over by simp
    qed
  qed
qed

lemma seq_get_bounds:
  assumes "length (sb_packed b) = unat cap"
  shows "case seq_GetNext_raw cap k off b of
      Inl _ \<Rightarrow> False
    | Inr (None, k', off') \<Rightarrow> k' = k \<and> off' = off
    | Inr (Some (p, len), k', off') \<Rightarrow> k' = k + 1 \<and> unat off' = unat off + 4 + unat len \<and> unat off' \<le> unat cap \<and>
        (case p of None \<Rightarrow> len = 0 | Some i \<Rightarrow> i = unat off + 4 \<and> i + unat len \<le> length (sb_packed b))"
proof (cases "k < sb_num_items b \<and> unat off + 4 \<le> unat cap")
  case False
  then have "seq_GetNext_raw cap k off b = Inr (None, k, off)" by (auto simp: seq_GetNext_raw_def not_less)
  then show ?thesis by simp
next
  case True
  then obtain bs where p: "peek (unat off) 4 (sb_packed b) = Inr bs" using peek_total assms by metis
  show ?thesis
  proof (cases "unat off + 4 + unat (word_at bs) \<le> unat cap")
    case False
    then have "seq_GetNext_raw cap k off b = Inr (None, k, off)" using True p by (auto simp: seq_GetNext_raw_def Let_def not_less)
    then show ?thesis by simp
  next
    case fit: True
    then have "unat off + 4 + unat (word_at bs) < 2 ^ 32" using unat_less_32 [of cap] by simp
    then have "unat (off + 4) = unat off + 4" "unat (off + 4 + word_at bs) = unat off + 4 + unat (word_at bs)" by (simp_all add: unat_word_ariths)
    moreover have "seq_GetNext_raw cap k off b = Inr (Some (if word_at bs = 0 then None else Some (unat (off + 4)), word_at bs), k + 1, off + 4 + word_at bs)"
      using True p fit by (auto simp: seq_GetNext_raw_def Let_def not_less)
    ultimately show ?thesis using fit assms by simp
  qed
qed

lemma seq_image_length: "length (seq_image ds) = 4 * length ds + length (concat ds)"
  by (induction ds) simp_all

lemma seq_roundtrip:
  assumes "bo = \<lparr>max_payload_bytes = cap, current_byte_offset = 0, current_id = 0, read_only = ro\<rparr>"
    and "length (sb_packed b) = unat cap"
    and "4 * length ds + length (concat ds) \<le> unat cap \<or> list_all (\<lambda>d. unat cap + length d < 2 ^ 32) ds"
  shows "\<exists>n s r. n \<le> length ds \<and> append_all seq_AppendBack_string ds (bo, seq_Init b) = Inr (n = length ds, s) \<and>
      4 * n + length (concat (take n ds)) \<le> unat cap \<and>
      (n < length ds \<longrightarrow> unat cap < 4 * Suc n + length (concat (take (Suc n) ds))) \<and>
      read_all (\<lambda>r. seq_GetNext_string r (snd s)) n bo = Inr (take n ds, r) \<and> seq_GetNext_string r (snd s) = Inr (None, r)"
proof -
  have s: "seq_held cap [] (bo, seq_Init b)" "seq_fits cap []" "seq_fits cap ds \<or> list_all (seq_plain cap) ds" "\<And>es. seq_at cap es 0 bo"
    using assms by (simp_all add: seq_held_def seq_Init_def seq_fits_def seq_at_def seq_image_length seq_plain_def [abs_def])
  obtain n s' r' where n: "n \<le> length ds" "append_all seq_AppendBack_string ds (bo, seq_Init b) = Inr (n = length ds, s')"
    and f: "seq_fits cap (take n ds)" "n < length ds \<longrightarrow> \<not> seq_fits cap (take (Suc n) ds)"
    and "read_all (\<lambda>r. seq_GetNext_string r (snd s')) n bo = Inr (take n ds, r')" "seq_GetNext_string r' (snd s') = Inr (None, r')"
    using seq_stream.append_then_read [OF s] by blast
  moreover have "length (take n ds) = n" "n < length ds \<longrightarrow> length (take (Suc n) ds) = Suc n" using n(1) by simp_all
  ultimately show ?thesis unfolding seq_fits_def seq_image_length not_le by metis
qed

lemma rnd_roundtrip:
  assumes "bo = \<lparr>max_payload_bytes = cap, current_byte_offset = 0, current_id = 0, read_only = ro\<rparr>"
    and "length (rb_packed c) = unat cap" "length (rb_lens c) = GetMaxItems m" "list_all (\<lambda>d. length d < 2 ^ 16) ds"
    and "length (concat ds) \<le> unat cap \<and> length ds \<le> GetMaxItems m \<or> list_all (\<lambda>d. unat cap + length d < 2 ^ 32) ds"
  shows "\<exists>n s r. n \<le> length ds \<and> append_all rnd_AppendBack_string ds (bo, rnd_Init c) = Inr (n = length ds, s) \<and>
      length (concat (take n ds)) \<le> unat cap \<and> n \<le> GetMaxItems m \<and>
      (n < length ds \<longrightarrow> unat cap < length (concat (take (Suc n) ds)) \<or> n = GetMaxItems m) \<and>
      read_all (\<lambda>r. rnd_GetNext_string r (snd s)) n bo = Inr (take n ds, r) \<and> rnd_GetNext_string r (snd s) = Inr (None, r)"
proof -
  have img: "length (rnd_image xs) = length (concat xs)" for xs by (simp add: rnd_image_def)
  have r: "rnd_held (GetMaxItems m) cap [] (bo, rnd_Init c)" "rnd_fits (GetMaxItems m) cap []"
    "rnd_fits (GetMaxItems m) cap ds \<or> list_all (rnd_plain cap) ds" "\<And>es. rnd_at cap es 0 bo"
    using assms by (auto simp: rnd_held_def rnd_Init_def rnd_fits_def rnd_at_def img rnd_plain_def list_all_iff)
  have small: "list_all (\<lambda>d. length d < 2 ^ 16) (take k ds)" for k using assms(4) by (auto simp: list_all_iff dest: in_set_takeD)
  obtain n s' r' where n: "n \<le> length ds" "append_all rnd_AppendBack_string ds (bo, rnd_Init c) = Inr (n = length ds, s')"
    and f: "rnd_fits (GetMaxItems m) cap (take n ds)" "n < length ds \<longrightarrow> \<not> rnd_fits (GetMaxItems m) cap (take (Suc n) ds)"
    and "read_all (\<lambda>r. rnd_GetNext_string r (snd s')) n bo = Inr (take n ds, r')" "rnd_GetNext_string r' (snd s') = Inr (None, r')"
    using rnd_stream.append_then_read [OF r] by blast
  moreover have "length (concat (take n ds)) \<le> unat cap" "n \<le> GetMaxItems m"
    "n < length ds \<longrightarrow> unat cap < length (concat (take (Suc n) ds)) \<or> n = GetMaxItems m"
    using f small n(1) unfolding rnd_fits_def img by (auto simp: min_absorb2 not_le)
  ultimately show ?thesis by blast
qed

section \<open>Properties\<close>

text \<open>
  C30. What goes into a bundle comes out, and as much goes in as there is room for.  Strings are appended to a
  freshly initialised bundle until one is refused.  A sequential bundle takes the longest run whose bytes, with four bytes of
  length each, fit in the data section, however long the strings are; a random one takes the longest run that fits
  without those four bytes and within its table of \<^verbatim>\<open>GetMaxItems\<close> lengths, for strings shorter than 64 KiB.
  All were accepted exactly when that run is the whole list.  A reader gets back the strings of the run in order, and the
  read after the last reports the end.  Where not everything fits, the capacity and the length of any one string
  must add up to less than 4 GiB, because the sum of offset and length is taken in 32 bits.
\<close>
theorem bundle_roundtrip:
  assumes bo: "bo = \<lparr>max_payload_bytes = cap, current_byte_offset = 0, current_id = 0, read_only = ro\<rparr>"
  shows "(length (sb_packed b) = unat cap \<and>
      (4 * length ds + length (concat ds) \<le> unat cap \<or> list_all (\<lambda>d. unat cap + length d < 2 ^ 32) ds) \<longrightarrow>
      (\<exists>n s r. n \<le> length ds \<and> append_all seq_AppendBack_string ds (bo, seq_Init b) = Inr (n = length ds, s) \<and>
        4 * n + length (concat (take n ds)) \<le> unat cap \<and>
        (n < length ds \<longrightarrow> unat cap < 4 * Suc n + length (concat (take (Suc n) ds))) \<and>
        read_all (\<lambda>r. seq_GetNext_string r (snd s)) n bo = Inr (take n ds, r) \<and>
        seq_GetNext_string r (snd s) = Inr (None, r))) \<and>
    (length (rb_packed c) = unat cap \<and> length (rb_lens c) = GetMaxItems m \<and> list_all (\<lambda>d. length d < 2 ^ 16) ds \<and>
      (length (concat ds) \<le> unat cap \<and> length ds \<le> GetMaxItems m \<or> list_all (\<lambda>d. unat cap + length d < 2 ^ 32) ds) \<longrightarrow>
      (\<exists>n s r. n \<le> length ds \<and> append_all rnd_AppendBack_string ds (bo, rnd_Init c) = Inr (n = length ds, s) \<and>
        length (concat (take n ds)) \<le> unat cap \<and> n \<le> GetMaxItems m \<and>
        (n < length ds \<longrightarrow> unat cap < length (concat (take (Suc n) ds)) \<or> n = GetMaxItems m) \<and>
        read_all (\<lambda>r. rnd_GetNext_string r (snd s)) n bo = Inr (take n ds, r) \<and>
        rnd_GetNext_string r (snd s) = Inr (None, r)))"
  using seq_roundtrip [OF bo, of b ds] rnd_roundtrip [OF bo, of c m ds] by blast

definition demo_bo :: "u32 \<Rightarrow> bundle_offsets" where
  "demo_bo cap = \<lparr>max_payload_bytes = cap, current_byte_offset = 0, current_id = 0, read_only = False\<rparr>"

definition demo_strings :: "string list" where
  "demo_strings = [''ab'', [], ''c'']"

definition demo_seq :: "nat \<Rightarrow> seq_bundle" where
  "demo_seq n = \<lparr>sb_num_items = 9, sb_packed = replicate n 0\<rparr>"

definition demo_rnd :: "nat \<Rightarrow> rnd_bundle" where
  "demo_rnd n = \<lparr>rb_num_items = 9, rb_lens = replicate (GetMaxItems 16) 0, rb_packed = replicate n 0\<rparr>"

text \<open>Fifteen bytes are exactly enough for the three strings in a sequential bundle; two bytes hold only the
  first two in a random one.\<close>

theorem bundle_roundtrip_witness:
  "(\<exists>s r. append_all seq_AppendBack_string demo_strings (demo_bo 15, seq_Init (demo_seq 15)) = Inr (True, s) \<and>
      read_all (\<lambda>r. seq_GetNext_string r (snd s)) 3 (demo_bo 15) = Inr ([''ab'', [], ''c''], r)) \<and>
   (\<exists>s r. append_all rnd_AppendBack_string demo_strings (demo_bo 2, rnd_Init (demo_rnd 2)) = Inr (False, s) \<and>
      read_all (\<lambda>r. rnd_GetNext_string r (snd s)) 2 (demo_bo 2) = Inr ([''ab'', []], r))"
proof
  have len: "length demo_strings = 3" "list_all (\<lambda>d. length d < 2 ^ 16) demo_strings" by (simp_all add: demo_strings_def)
  have fin: "n \<le> 3 \<Longrightarrow> n = 0 \<or> n = 1 \<or> n = 2 \<or> n = 3" for n :: nat by auto
  have u: "unat (15 :: u32) = 15" "unat (2 :: u32) = 2" by simp_all
  have "length (sb_packed (demo_seq 15)) = 15" "list_all (\<lambda>d. 15 + length d < 2 ^ 32) demo_strings"
    by (simp_all add: demo_seq_def demo_strings_def)
  then obtain n s r where n: "n \<le> 3" "n < 3 \<longrightarrow> 15 < 4 * Suc n + length (concat (take (Suc n) demo_strings))"
    and run: "append_all seq_AppendBack_string demo_strings (demo_bo 15, seq_Init (demo_seq 15)) = Inr (n = 3, s)"
      "read_all (\<lambda>r. seq_GetNext_string r (snd s)) n (demo_bo 15) = Inr (take n demo_strings, r)"
    using bundle_roundtrip [OF demo_bo_def, where cap = 15 and b = "demo_seq 15" and ds = demo_strings, THEN conjunct1] unfolding len(1) u by blast
  have "n = 3" using fin [OF n(1)] n(2) by (auto simp: demo_strings_def)
  then show "\<exists>s r. append_all seq_AppendBack_string demo_strings (demo_bo 15, seq_Init (demo_seq 15)) = Inr (True, s) \<and>
      read_all (\<lambda>r. seq_GetNext_string r (snd s)) 3 (demo_bo 15) = Inr ([''ab'', [], ''c''], r)"
    using run by (auto simp: demo_strings_def)
  have "length (rb_packed (demo_rnd 2)) = 2" "length (rb_lens (demo_rnd 2)) = GetMaxItems 16" 
    "list_all (\<lambda>d. 2 + length d < 2 ^ 32) demo_strings"
    by (simp_all add: demo_rnd_def demo_strings_def GetMaxItems_def)
  then obtain n s r where n: "n \<le> 3" "length (concat (take n demo_strings)) \<le> 2" "n < 3 \<longrightarrow> 2 < length (concat (take (Suc n) demo_strings)) \<or> n = GetMaxItems 16"
    and run: "append_all rnd_AppendBack_string demo_strings (demo_bo 2, rnd_Init (demo_rnd 2)) = Inr (n = 3, s)"
      "read_all (\<lambda>r. rnd_GetNext_string r (snd s)) n (demo_bo 2) = Inr (take n demo_strings, r)"
    using bundle_roundtrip [OF demo_bo_def, where cap = 2 and c = "demo_rnd 2" and m = 16 and ds = demo_strings, THEN conjunct2] len(2)
    unfolding len(1) u by blast
  have "GetMaxItems 16 > 3" by (simp add: GetMaxItems_def)
  then have "n = 2" using fin [OF n(1)] n(2,3) by (auto simp: demo_strings_def)
  then show "\<exists>s r. append_all rnd_AppendBack_string demo_strings (demo_bo 2, rnd_Init (demo_rnd 2)) = Inr (False, s) \<and>
      read_all (\<lambda>r. rnd_GetNext_string r (snd s)) 2 (demo_bo 2) = Inr ([''ab'', []], r)"
    using run by (auto simp: demo_strings_def)
qed

text \<open>
  C31. Exactly how a sequential bundle keeps to its data section: an append whose end stays below 4 GiB is accepted
  exactly when length field and item fit, and stays inside; one whose end passes 4 GiB is either refused or, when the 32-bit sum
  wraps round to something that fits, overruns the section.  A read from any offset inside, whatever the bytes
  are, stays inside.
\<close>
theorem sequential_bundle_bounds:
  assumes "length (sb_packed b) = unat cap" "length data < 2 ^ 32" "unat off \<le> unat cap"
  shows "(case seq_AppendBack_raw cap off data b of
      Inl _ \<Rightarrow> 2 ^ 32 \<le> unat off + length data \<and> unat off + length data + 4 \<le> 2 ^ 32 + unat cap
    | Inr (ok, off', b') \<Rightarrow> ok = (unat off + 4 + length data \<le> unat cap) \<and> length (sb_packed b') = unat cap \<and> unat off \<le> unat off' \<and> unat off' \<le> unat cap \<and>
        \<not> (2 ^ 32 \<le> unat off + length data \<and> unat off + length data + 4 \<le> 2 ^ 32 + unat cap)) \<and>
    (case seq_GetNext_raw cap k off b of
      Inl _ \<Rightarrow> False
    | Inr (None, k', off') \<Rightarrow> k' = k \<and> off' = off
    | Inr (Some (p, len), k', off') \<Rightarrow> k' = k + 1 \<and> unat off' = unat off + 4 + unat len \<and> unat off' \<le> unat cap \<and>
        (case p of None \<Rightarrow> len = 0 | Some i \<Rightarrow> i = unat off + 4 \<and> i + unat len \<le> length (sb_packed b)))"
  using seq_append_bounds [OF assms] seq_get_bounds [OF assms(1)] by blast

theorem sequential_bundle_bounds_witness:
  "\<exists>data. length data = 2 ^ 32 - 8 \<and>
    (case seq_AppendBack_raw 16 8 data \<lparr>sb_num_items = 1, sb_packed = replicate 16 0\<rparr> of Inl _ \<Rightarrow> True | Inr _ \<Rightarrow> False) \<and>
    (case seq_GetNext_raw 16 0 8 \<lparr>sb_num_items = 1, sb_packed = replicate 16 0\<rparr> of Inl _ \<Rightarrow> False | Inr _ \<Rightarrow> True)"
proof -
  obtain data :: "u8 list" where data: "length data = 2 ^ 32 - 8" using Ex_list_of_length by blast
  have "length (sb_packed \<lparr>sb_num_items = 1, sb_packed = replicate 16 0\<rparr>) = unat (16 :: u32)" "length data < 2 ^ 32" "unat (8 :: u32) \<le> unat (16 :: u32)"
    using data by simp_all
  from sequential_bundle_bounds [OF this, of 0] show ?thesis using data by (intro exI [of _ data]) (auto split: sum.splits)
qed

text \<open>A string of 64 KiB is accepted by a random bundle and stored as an empty item.\<close>

lemma rnd_long_string:
  assumes "length s = 2 ^ 16" "unat (rb_num_items b) < length (rb_lens b)" "current_byte_offset bo \<le> max_payload_bytes bo"
  shows "case rnd_AppendBack_string s (bo, b) of Inl _ \<Rightarrow> False | Inr (ok, bo1, b1) \<Rightarrow> ok \<and> rb_packed b1 = rb_packed b \<and> rb_lens b1 ! unat (rb_num_items b) = 0"
proof -
  have "(word_of_nat (length s) :: u16) = 0" using assms(1) by simp
  then show ?thesis using assms(2,3) by (simp add: rnd_AppendBack_string_def rnd_AppendBack_def rnd_AppendBack_raw_def)
qed

end
