(* ===== verification/Object_Packer.thy ===== *)
theory Object_Packer
  imports Data_Bundles Lunasa_Heap Config_Settings Opbox_Core
begin

text \<open>
  Named variables in one data object (\<^verbatim>\<open>lunasa/common/DataObjectPacker.cpp\<close>): the packer writes entries one after the
  other into the data section, and finds them again by name through an index built on demand.
  The user part of the allocation is its bytes; a pointer is a position in it.
\<close>

section \<open>The packer\<close>

definition SIZEOF_META :: nat where "SIZEOF_META = 12"
definition SIZEOF_V1 :: nat where "SIZEOF_V1 = 8"
definition SIZEOF_V2 :: nat where "SIZEOF_V2 = 12"

record DataObjectPacker =
  dop_finalized :: bool
  dop_version :: u8
  dop_type :: u16
  dop_meta_size :: u16
  dop_data_size :: u32
  dop_user :: "u8 list"
  dop_padding :: u32
  dop_index :: "(u32 \<times> nat) list"

definition object_type_id :: u16 where
  "object_type_id = const_hash16 ''DataObjectPacker''"

text \<open>The fields of the meta section.\<close>

definition dop_num_vars :: "DataObjectPacker \<Rightarrow> u32 result" where
  "dop_num_vars p = rbind (peek 0 4 (dop_user p)) (\<lambda>bs. Inr (word_at bs))"

definition dop_meta :: "u32 \<Rightarrow> u32 \<Rightarrow> u8 \<Rightarrow> u8 list" where
  "dop_meta num_vars data_type_hash packing_version = le32 num_vars @ le32 data_type_hash @ [packing_version]"

definition VerifyDataType :: "u32 \<Rightarrow> DataObjectPacker \<Rightarrow> bool result" where
  "VerifyDataType expected p = rbind (peek 4 4 (dop_user p)) (\<lambda>bs. Inr (word_at bs = expected))"

section \<open>Entries\<close>

definition ComputeEntrySize :: "int \<Rightarrow> string \<Rightarrow> u32 \<Rightarrow> nat result" where
  "ComputeEntrySize dop_format_version name n_bytes =
     (if dop_format_version = 1 then Inr (SIZEOF_V1 + min (length name) 255 + unat n_bytes)
      else if dop_format_version = 2 then Inr (SIZEOF_V2 + unat n_bytes)
      else Inl Runtime_error)"

definition getEntryOverhead :: "DataObjectPacker \<Rightarrow> nat result" where
  "getEntryOverhead p = (if dop_version p = 1 then Inr SIZEOF_V1 else if dop_version p = 2 then Inr SIZEOF_V2 else Inl Runtime_error)"

text \<open>Copying \<open>n\<close> bytes from a buffer of the caller, if there is one.\<close>

definition copy_in :: "nat \<Rightarrow> u8 list option \<Rightarrow> nat \<Rightarrow> u8 list \<Rightarrow> u8 list result" where
  "copy_in pos data n mem = (case data of
     None \<Rightarrow> Inr mem
   | Some d \<Rightarrow> if length d < n then Inl Undefined_behaviour else poke pos (take n d) mem)"

definition writeEntry :: "u8 \<Rightarrow> nat \<Rightarrow> string \<Rightarrow> u8 \<Rightarrow> u8 list option \<Rightarrow> u32 \<Rightarrow> u8 list \<Rightarrow> (nat \<times> u8 list) result" where
  "writeEntry version pos name type data n_bytes mem =
     (if version = 1 then
        let name_length = min (length name) 255 in
        rbind (poke pos (word_of_nat name_length # type # le16 (hash16 name) @ le32 n_bytes @ take name_length (string_bytes name)) mem) (\<lambda>mem1.
        rbind (copy_in (pos + SIZEOF_V1 + name_length) data (unat n_bytes) mem1) (\<lambda>mem2.
          Inr (SIZEOF_V1 + name_length + unat n_bytes, mem2)))
      else if version = 2 then
        rbind (poke pos (le32 (hash32 name) @ le32 n_bytes @ [type]) mem) (\<lambda>mem1.
        rbind (copy_in (pos + SIZEOF_V2) data (unat n_bytes) mem1) (\<lambda>mem2. Inr (SIZEOF_V2 + unat n_bytes, mem2)))
      else Inl Runtime_error)"

section \<open>Construction\<close>

text \<open>
  A variable to pack: name, the caller's buffer, its length (cut to 32 bits on its way) and type.  \<open>fresh\<close> gives the bytes
  an allocation comes with.  The object's capacity is rounded up by \<^const>\<open>ldo_padding\<close>.
\<close>
fun write_entries :: "u8 \<Rightarrow> nat \<Rightarrow> (string \<times> u8 list option \<times> u64 \<times> u8) list \<Rightarrow> u8 list \<Rightarrow> u8 list result" where
  "write_entries version pos [] mem = Inr mem"
| "write_entries version pos ((name, data, bytes, type) # vs) mem =
     rbind (writeEntry version pos name type data (ucast bytes) mem) (\<lambda>(n, mem1). write_entries version (pos + n) vs mem1)"

fun entries_size :: "int \<Rightarrow> (string \<times> u8 list option \<times> u64 \<times> u8) list \<Rightarrow> nat result" where
  "entries_size v [] = Inr 0"
| "entries_size v ((name, data, bytes, type) # vs) =
     rbind (ComputeEntrySize v name (ucast bytes)) (\<lambda>n. rbind (entries_size v vs) (\<lambda>m. Inr (n + m)))"

definition new_object :: "(nat \<Rightarrow> u8) \<Rightarrow> u32 \<Rightarrow> u16 \<Rightarrow> u32 \<Rightarrow> u8 list result" where
  "new_object fresh n_total meta_capacity data_capacity =
     (if unat meta_capacity + unat data_capacity > unat n_total then Inl Invalid_argument
      else Inr (map fresh [0..<unat (n_total + ldo_padding meta_capacity data_capacity)]))"

definition DataObjectPacker_vectors ::
  "(nat \<Rightarrow> u8) \<Rightarrow> string list \<Rightarrow> u8 list option list \<Rightarrow> u64 list \<Rightarrow> u8 list \<Rightarrow> u32 \<Rightarrow> int \<Rightarrow> DataObjectPacker result" where
  "DataObjectPacker_vectors fresh names ptrs bytes types data_type_hash v =
     (let ptrs1 = (if ptrs = [] then replicate (length names) None else ptrs) in
      if length names \<noteq> length ptrs1 \<or> length names \<noteq> length bytes \<or> length bytes \<noteq> length types then Inl Runtime_error
      else if v < 1 \<or> v > 2 then Inl Runtime_error
      else let vs = zip names (zip ptrs1 (zip bytes types)) in
        rbind (entries_size v vs) (\<lambda>payload_size.
        rbind (new_object fresh (12 + word_of_nat payload_size) 12 (word_of_nat payload_size)) (\<lambda>user.
        rbind (poke 0 (dop_meta (word_of_nat (length names)) data_type_hash (word_of_int v)) user) (\<lambda>user1.
        rbind (write_entries (word_of_int v) SIZEOF_META vs user1) (\<lambda>user2.
          Inr \<lparr>dop_finalized = True, dop_version = word_of_int v, dop_type = object_type_id, dop_meta_size = 12,
            dop_data_size = word_of_nat payload_size, dop_user = user2,
            dop_padding = ldo_padding 12 (word_of_nat payload_size), dop_index = []\<rparr>)))))"

definition DataObjectPacker_capacity :: "(nat \<Rightarrow> u8) \<Rightarrow> u64 \<Rightarrow> u32 \<Rightarrow> int \<Rightarrow> DataObjectPacker result" where
  "DataObjectPacker_capacity fresh max_data_capacity data_type_hash v =
     (if v < 1 \<or> v > 2 then Inl Runtime_error
      else rbind (new_object fresh (ucast (12 + max_data_capacity)) 12 0) (\<lambda>user.
        rbind (poke 0 (dop_meta 0 data_type_hash (word_of_int v)) user) (\<lambda>user1.
          Inr \<lparr>dop_finalized = False, dop_version = word_of_int v, dop_type = object_type_id, dop_meta_size = 12,
            dop_data_size = 0, dop_user = user1, dop_padding = ldo_padding 12 0, dop_index = []\<rparr>)))"

definition DataObjectPacker_parse :: "dataobject \<Rightarrow> DataObjectPacker result" where
  "DataObjectPacker_parse d =
     (if do_type d \<noteq> object_type_id then Inl Runtime_error
      else rbind (peek 8 1 (do_meta d @ do_data d)) (\<lambda>bs.
        if hd bs < 1 \<or> hd bs > 2 then Inl Runtime_error
        else Inr \<lparr>dop_finalized = True, dop_version = hd bs, dop_type = do_type d, dop_meta_size = word_of_nat (length (do_meta d)),
          dop_data_size = word_of_nat (length (do_data d)), dop_user = do_meta d @ do_data d,
          dop_padding = do_padding d, dop_index = []\<rparr>))"

definition GetDataObject :: "DataObjectPacker \<Rightarrow> dataobject" where
  "GetDataObject p = \<lparr>do_type = dop_type p, do_meta = take (unat (dop_meta_size p)) (dop_user p),
     do_data = take (unat (dop_data_size p)) (drop (unat (dop_meta_size p)) (dop_user p)),
     do_padding = dop_padding p\<rparr>"

section \<open>Appending\<close>

definition RemainingCapacity :: "DataObjectPacker \<Rightarrow> u32 result" where
  "RemainingCapacity p =
     (if dop_finalized p then Inr 0
      else let dspace_left = word_of_nat (length (dop_user p)) - (ucast (dop_meta_size p) + dop_data_size p) in
        rbind (getEntryOverhead p) (\<lambda>n. Inr (if unat dspace_left < n then 0 else dspace_left)))"

text \<open>The new data size is cut to 32 bits on its way to the object.\<close>

definition AppendVariable :: "string \<Rightarrow> u8 list option \<Rightarrow> u64 \<Rightarrow> u8 \<Rightarrow> DataObjectPacker \<Rightarrow> (int \<times> DataObjectPacker) result" where
  "AppendVariable name data n_bytes type p =
     (if dop_finalized p then Inr (-1, p)
      else rbind (ComputeEntrySize (uint (dop_version p)) name (ucast n_bytes)) (\<lambda>entry_size.
        let offset = dop_data_size p; new_size = word_of_nat (unat offset + entry_size) :: u32 in
        if SIZEOF_META + unat new_size > length (dop_user p) then Inr (-1, p)
        else rbind (writeEntry (dop_version p) (SIZEOF_META + unat offset) name type data (ucast n_bytes) (dop_user p)) (\<lambda>(_, user1).
          rbind (peek 0 4 user1) (\<lambda>bs.
          rbind (poke 0 (le32 (word_at bs + 1)) user1) (\<lambda>user2.
            Inr (0, p\<lparr>dop_data_size := new_size, dop_meta_size := 12, dop_user := user2\<rparr>))))))"

section \<open>Looking up\<close>

text \<open>A multimap keeps the order of insertion among equal keys.\<close>

fun mm_insert :: "u32 \<Rightarrow> nat \<Rightarrow> (u32 \<times> nat) list \<Rightarrow> (u32 \<times> nat) list" where
  "mm_insert k v [] = [(k, v)]"
| "mm_insert k v ((k', v') # m) = (if k < k' then (k, v) # (k', v') # m else (k', v') # mm_insert k v m)"

text \<open>The key and the size of the entry at a position.\<close>

definition entry_header :: "u8 \<Rightarrow> nat \<Rightarrow> u8 list \<Rightarrow> (u32 \<times> nat) result" where
  "entry_header version pos mem =
     (if version = 1 then rbind (peek pos SIZEOF_V1 mem) (\<lambda>bs.
        Inr (ucast (un16 (bs ! 2) (bs ! 3)), SIZEOF_V1 + unat (bs ! 0) + unat (word_at (drop 4 bs))))
      else rbind (peek pos SIZEOF_V2 mem) (\<lambda>bs. Inr (word_at bs, SIZEOF_V2 + unat (word_at (drop 4 bs)))))"

text \<open>The walk over the entries; \<open>offset\<close> is checked and never advanced.\<close>

fun index_walk :: "u8 \<Rightarrow> u32 \<Rightarrow> nat \<Rightarrow> nat \<Rightarrow> nat \<Rightarrow> u8 list \<Rightarrow> (u32 \<times> nat) list \<Rightarrow> (u32 \<times> nat) list result" where
  "index_walk version max_offset offset 0 pos mem idx = Inr idx"
| "index_walk version max_offset offset (Suc n) pos mem idx =
     (if offset > unat max_offset then Inl Runtime_error
      else rbind (entry_header version pos mem) (\<lambda>(h, size). index_walk version max_offset offset n (pos + size) mem (mm_insert h pos idx)))"

definition rebuildIndexIfNeeded :: "DataObjectPacker \<Rightarrow> DataObjectPacker result" where
  "rebuildIndexIfNeeded p =
     rbind (dop_num_vars p) (\<lambda>num_vars.
     if length (dop_index p) = unat num_vars then Inr p
     else rbind (index_walk (dop_version p) (dop_data_size p - word_of_nat (if dop_version p = 1 then SIZEOF_V1 else SIZEOF_V2)) 0
            (unat num_vars) (unat (dop_meta_size p)) (dop_user p) []) (\<lambda>idx. Inr (p\<lparr>dop_index := idx\<rparr>)))"

text \<open>A found variable: position and length of its data, and its type.\<close>

definition MatchesName :: "string \<Rightarrow> string \<Rightarrow> bool" where
  "MatchesName my_name name = (my_name = name \<or> length my_name = 255 \<and> StringBeginsWith name my_name)"

definition match_entry :: "u8 \<Rightarrow> string option \<Rightarrow> u32 \<Rightarrow> nat \<Rightarrow> u8 list \<Rightarrow> (nat \<times> nat \<times> u8) option result" where
  "match_entry version name hash pos mem =
     (if version = 1 then
        rbind (peek pos SIZEOF_V1 mem) (\<lambda>bs.
        rbind (peek (pos + SIZEOF_V1) (unat (bs ! 0)) mem) (\<lambda>my_name.
          Inr (if MatchesName (bytes_string my_name) (the name) then Some (pos + SIZEOF_V1 + unat (bs ! 0), unat (word_at (drop 4 bs)), bs ! 1) else None)))
      else rbind (peek pos SIZEOF_V2 mem) (\<lambda>bs.
        Inr (if word_at bs = hash then Some (pos + SIZEOF_V2, unat (word_at (drop 4 bs)), bs ! 8) else None)))"

fun first_match :: "u8 \<Rightarrow> string option \<Rightarrow> u32 \<Rightarrow> nat list \<Rightarrow> u8 list \<Rightarrow> (nat \<times> nat \<times> u8) option result" where
  "first_match version name hash [] mem = Inr None"
| "first_match version name hash (pos # ps) mem =
     rbind (match_entry version name hash pos mem) (\<lambda>r. case r of Some x \<Rightarrow> Inr (Some x) | None \<Rightarrow> first_match version name hash ps mem)"

definition equal_range :: "u32 \<Rightarrow> (u32 \<times> nat) list \<Rightarrow> nat list" where
  "equal_range hash idx = map snd (filter (\<lambda>(h, _). h = hash) idx)"

definition found_or :: "(nat \<times> nat \<times> u8) option \<Rightarrow> int \<times> (nat \<times> nat \<times> u8) option" where
  "found_or r = (case r of Some x \<Rightarrow> (0, Some x) | None \<Rightarrow> (ENOENT, None))"

definition GetVarPointer :: "string \<Rightarrow> DataObjectPacker \<Rightarrow> ((int \<times> (nat \<times> nat \<times> u8) option) \<times> DataObjectPacker) result" where
  "GetVarPointer name p =
     (let hash = (if dop_version p = 1 then ucast (hash16 name) else hash32 name) in
      rbind (rebuildIndexIfNeeded p) (\<lambda>p1.
      rbind (first_match (dop_version p1) (Some name) hash (equal_range hash (dop_index p1)) (dop_user p1)) (\<lambda>r. Inr (found_or r, p1))))"

definition GetVarPointer_hash :: "u32 \<Rightarrow> DataObjectPacker \<Rightarrow> ((int \<times> (nat \<times> nat \<times> u8) option) \<times> DataObjectPacker) result" where
  "GetVarPointer_hash hash p =
     (if dop_version p \<noteq> 2 then Inr ((EINVAL, None), p)
      else rbind (rebuildIndexIfNeeded p) (\<lambda>p1.
        rbind (first_match (dop_version p1) None hash (equal_range hash (dop_index p1)) (dop_user p1)) (\<lambda>r. Inr (found_or r, p1))))"

definition entry_name :: "nat \<Rightarrow> u8 list \<Rightarrow> string result" where
  "entry_name pos mem = rbind (peek pos SIZEOF_V1 mem) (\<lambda>bs. rbind (peek (pos + SIZEOF_V1) (unat (bs ! 0)) mem) (\<lambda>n. Inr (bytes_string n)))"

definition GetVarNames :: "DataObjectPacker \<Rightarrow> ((int \<times> string list) \<times> DataObjectPacker) result" where
  "GetVarNames p =
     (if dop_version p \<noteq> 1 then Inr ((EINVAL, []), p)
      else rbind (rebuildIndexIfNeeded p) (\<lambda>p1.
        rbind (rmap_list (\<lambda>(_, pos). entry_name pos (dop_user p1)) (dop_index p1)) (\<lambda>names. Inr ((0, names), p1))))"

section \<open>What a packer holds\<close>

text \<open>
  The bytes of an entry.  \<open>pad\<close> are the three bytes after the type in version 2, which are never written.
\<close>
fun entry_image :: "u8 \<Rightarrow> string \<times> u8 \<times> u8 list \<Rightarrow> u8 list \<Rightarrow> u8 list" where
  "entry_image v (name, type, data) pad =
     (if v = 1 then (word_of_nat (min (length name) 255) # type # le16 (hash16 name) @ le32 (word_of_nat (length data))) @ take 255 (string_bytes name) @ data
      else (le32 (hash32 name) @ le32 (word_of_nat (length data)) @ type # pad) @ data)"

fun entry_size :: "u8 \<Rightarrow> string \<times> u8 \<times> u8 list \<Rightarrow> nat" where
  "entry_size v (name, type, data) = (if v = 1 then 8 + min (length name) 255 + length data else 12 + length data)"

fun entry_key :: "u8 \<Rightarrow> string \<Rightarrow> u32" where
  "entry_key v name = (if v = 1 then ucast (hash16 name) else hash32 name)"

text \<open>The data of an entry at a position.\<close>

fun entry_place :: "u8 \<Rightarrow> nat \<Rightarrow> string \<times> u8 \<times> u8 list \<Rightarrow> nat \<times> nat \<times> u8" where
  "entry_place v pos (name, type, data) = (if v = 1 then pos + 8 + min (length name) 255 else pos + 12, length data, type)"

fun entries_image :: "u8 \<Rightarrow> (string \<times> u8 \<times> u8 list) list \<Rightarrow> u8 list list \<Rightarrow> u8 list" where
  "entries_image v (e # vs) (pad # pads) = entry_image v e pad @ entries_image v vs pads"
| "entries_image v _ _ = []"

fun index_of :: "u8 \<Rightarrow> nat \<Rightarrow> (string \<times> u8 \<times> u8 list) list \<Rightarrow> (u32 \<times> nat) list \<Rightarrow> (u32 \<times> nat) list" where
  "index_of v pos [] idx = idx"
| "index_of v pos (e # vs) idx = index_of v (pos + entry_size v e) vs (mm_insert (entry_key v (fst e)) pos idx)"

definition pads_ok :: "(string \<times> u8 \<times> u8 list) list \<Rightarrow> u8 list list \<Rightarrow> bool" where
  "pads_ok vs pads = (length pads = length vs \<and> list_all (\<lambda>pad. length pad = 3) pads)"

definition dop_holds :: "u8 \<Rightarrow> u32 \<Rightarrow> (string \<times> u8 \<times> u8 list) list \<Rightarrow> DataObjectPacker \<Rightarrow> bool" where
  "dop_holds v h vs p = (dop_version p = v \<and> (v = 1 \<or> v = 2) \<and> dop_type p = object_type_id \<and> dop_meta_size p = 12 \<and> length (dop_user p) < 2 ^ 32 \<and>
     (\<exists>pad0 pads rest. length pad0 = 3 \<and> pads_ok vs pads \<and> dop_user p = dop_meta (word_of_nat (length vs)) h v @ pad0 @ entries_image v vs pads @ rest \<and>
        dop_data_size p = word_of_nat (length (entries_image v vs pads))) \<and>
     (\<exists>k\<le>length vs. dop_index p = index_of v 12 (take k vs) []))"

lemma le16_length [simp]: "length (le16 w) = 2"
  by (simp add: le16_def)

lemma entry_image_length: "length pad = 3 \<Longrightarrow> length (entry_image v e pad) = entry_size v e"
  by (cases e) simp

lemma entries_image_length: "pads_ok vs pads \<Longrightarrow> length (entries_image v vs pads) = sum_list (map (entry_size v) vs)"
  by (induction v vs pads rule: entries_image.induct) (auto simp: pads_ok_def entry_image_length)

lemma entry_size_pos: "8 \<le> entry_size v e"
  by (cases e) simp

lemma dop_meta_length [simp]: "length (dop_meta n h v) = 9"
  by (simp add: dop_meta_def)

lemma mm_insert_length [simp]: "length (mm_insert k v m) = Suc (length m)"
  by (induction k v m rule: mm_insert.induct) simp_all

lemma index_of_length: "length (index_of v pos vs idx) = length idx + length vs"
  by (induction v pos vs idx rule: index_of.induct) simp_all

lemma equal_range_insert: "sorted (map fst m) \<Longrightarrow> equal_range h (mm_insert k v m) = (if k = h then equal_range h m @ [v] else equal_range h m)"
proof (induction k v m rule: mm_insert.induct)
  case (2 k v k' v' m)
  have "k < k' \<Longrightarrow> k = h \<Longrightarrow> filter (\<lambda>(h', _). h' = h) m = []" using 2(2) by (auto simp: filter_empty_conv)
  then show ?case using 2 by (auto simp: equal_range_def)
qed (simp add: equal_range_def)

lemma mm_insert_keys: "fst ` set (mm_insert k v m) = insert k (fst ` set m)"
  by (induction k v m rule: mm_insert.induct) auto

lemma mm_insert_sorted: "sorted (map fst m) \<Longrightarrow> sorted (map fst (mm_insert k v m))"
proof (induction k v m rule: mm_insert.induct)
  case (2 k v k' v' m)
  then show ?case using mm_insert_keys [of k v m] by (auto simp: image_iff)
qed simp

text \<open>Where the entries with a key are.\<close>

fun places :: "u8 \<Rightarrow> u32 \<Rightarrow> nat \<Rightarrow> (string \<times> u8 \<times> u8 list) list \<Rightarrow> nat list" where
  "places v h pos [] = []"
| "places v h pos (e # vs) = (if entry_key v (fst e) = h then [pos] else []) @ places v h (pos + entry_size v e) vs"

lemma equal_range_index: "sorted (map fst idx) \<Longrightarrow> equal_range h (index_of v pos vs idx) = equal_range h idx @ places v h pos vs"
  by (induction v pos vs idx rule: index_of.induct) (auto simp: equal_range_insert mm_insert_sorted)

section \<open>Reading entries\<close>

definition small_data :: "(string \<times> u8 \<times> u8 list) list \<Rightarrow> bool" where
  "small_data vs = list_all (\<lambda>(_, _, data). length data < 2 ^ 32) vs"

fun entry_match :: "u8 \<Rightarrow> string \<Rightarrow> string \<times> u8 \<times> u8 list \<Rightarrow> bool" where
  "entry_match v name e = (if v = 1 then MatchesName (take 255 (fst e)) name else hash32 (fst e) = hash32 name)"

text \<open>The first entry with the key of a name that also matches it.\<close>

fun find_entry :: "u8 \<Rightarrow> string \<Rightarrow> nat \<Rightarrow> (string \<times> u8 \<times> u8 list) list \<Rightarrow> (nat \<times> nat \<times> u8) option" where
  "find_entry v name pos [] = None"
| "find_entry v name pos (e # vs) =
     (if entry_key v (fst e) = entry_key v name \<and> entry_match v name e then Some (entry_place v pos e) else find_entry v name (pos + entry_size v e) vs)"

lemma bytes_string_take [simp]: "bytes_string (take n (string_bytes s)) = take n s"
  using bytes_string_bytes [of "take n s"] by (simp add: string_bytes_def take_map)

lemma unat_nat_8: "unat (word_of_nat (min n 255) :: u8) = min n 255"
  by (simp add: unat_of_nat)

lemma header_at:
  assumes "length pad = 3" "v = 1 \<or> v = 2" "length data < 2 ^ 32" "pos = length pre"
  shows "entry_header v pos (pre @ entry_image v (name, type, data) pad @ rest) = Inr (entry_key v name, entry_size v (name, type, data))"
  using assms unat_nat_8 [of "length name"] unat_nat_32 [of "length data"]
  by (auto simp: entry_header_def peek_def SIZEOF_V1_def SIZEOF_V2_def le16_def le32_def un16_le16 un32_le32)

lemma index_walk_image:
  assumes "pads_ok vs pads" "v = 1 \<or> v = 2" "small_data vs"
  shows "index_walk v mo 0 (length vs) (length pre) (pre @ entries_image v vs pads @ rest) idx = Inr (index_of v (length pre) vs idx)"
  using assms
proof (induction v vs pads arbitrary: pre idx rule: entries_image.induct)
  case (1 v e vs pad pads)
  obtain name type data where e: "e = (name, type, data)" by (cases e)
  have h: "entry_header v (length pre) (pre @ entry_image v e pad @ entries_image v vs pads @ rest) = Inr (entry_key v name, entry_size v e)"
    unfolding e by (rule header_at) (use 1 in \<open>auto simp: pads_ok_def small_data_def e\<close>)
  have "length pre + entry_size v e = length (pre @ entry_image v e pad)" using 1(2) by (simp add: entry_image_length pads_ok_def)
  then show ?case using h 1(1) [of "pre @ entry_image v e pad"] 1(2-4) by (simp add: pads_ok_def small_data_def e)
qed (auto simp: pads_ok_def)

lemma match_at:
  assumes "length pad = 3" "v = 1 \<or> v = 2" "length data < 2 ^ 32" "pos = length pre" "h = entry_key v name'"
  shows "match_entry v (Some name') h pos (pre @ entry_image v (name, type, data) pad @ rest) =
    Inr (if entry_match v name' (name, type, data) then Some (entry_place v pos (name, type, data)) else None)"
proof (cases "v = 1")
  case True
  let ?m = "pre @ entry_image v (name, type, data) pad @ rest"
  let ?hd = "word_of_nat (min (length name) 255) # type # le16 (hash16 name) @ le32 (word_of_nat (length data))"
  have m: "?m = pre @ ?hd @ take 255 (string_bytes name) @ data @ rest" using True by simp
  have p1: "peek pos SIZEOF_V1 ?m = Inr ?hd" unfolding m by (rule peek_at) (simp_all add: assms(4) SIZEOF_V1_def)
  have "peek (pos + SIZEOF_V1) (unat (?hd ! 0)) ((pre @ ?hd) @ take 255 (string_bytes name) @ data @ rest) = Inr (take 255 (string_bytes name))"
    by (rule peek_at) (simp_all add: assms(4) SIZEOF_V1_def unat_nat_8 min.commute)
  then have p2: "peek (pos + SIZEOF_V1) (unat (?hd ! 0)) ?m = Inr (take 255 (string_bytes name))" unfolding m by simp
  have d: "drop 4 ?hd = le32 (word_of_nat (length data))" by (simp add: le16_def)
  show ?thesis using True p1 p2 d unat_nat_32 [OF assms(3)] unat_nat_8 [of "length name"] by (simp add: match_entry_def SIZEOF_V1_def del: entry_image.simps)
next
  case False
  then show ?thesis using assms unat_nat_32 [OF assms(3)]
    by (auto simp: match_entry_def peek_def SIZEOF_V2_def le32_def un32_le32)
qed

lemma first_match_image:
  assumes "pads_ok vs pads" "v = 1 \<or> v = 2" "small_data vs"
  shows "first_match v (Some name) (entry_key v name) (places v (entry_key v name) (length pre) vs) (pre @ entries_image v vs pads @ rest) = Inr (find_entry v name (length pre) vs)"
  using assms
proof (induction v vs pads arbitrary: pre rule: entries_image.induct)
  case (1 v e vs pad pads)
  obtain ename type data where e: "e = (ename, type, data)" by (cases e)
  have h: "match_entry v (Some name) (entry_key v name) (length pre) (pre @ entry_image v e pad @ entries_image v vs pads @ rest) =
      Inr (if entry_match v name e then Some (entry_place v (length pre) e) else None)"
    unfolding e by (rule match_at) (use 1 in \<open>auto simp: pads_ok_def small_data_def e\<close>)
  have "length pre + entry_size v e = length (pre @ entry_image v e pad)" using 1(2) by (simp add: entry_image_length pads_ok_def)
  then show ?case using h 1(1) [of "pre @ entry_image v e pad"] 1(2-4) by (auto simp: pads_ok_def small_data_def e simp del: entry_match.simps)
qed (auto simp: pads_ok_def)

section \<open>The operations\<close>

lemma dop_holds_small: 
  assumes "dop_holds v h vs p"
  shows "small_data vs" "length vs < 2 ^ 32" "sum_list (map (entry_size v) vs) + 12 \<le> length (dop_user p)"
proof -
  obtain pad0 pads rest where u: "length pad0 = 3" "pads_ok vs pads" "dop_user p = dop_meta (word_of_nat (length vs)) h v @ pad0 @ entries_image v vs pads @ rest"
    "length (dop_user p) < 2 ^ 32" using assms by (auto simp: dop_holds_def)
  have len: "length (entries_image v vs pads) = sum_list (map (entry_size v) vs)" by (rule entries_image_length [OF u(2)])
  then show fits: "sum_list (map (entry_size v) vs) + 12 \<le> length (dop_user p)" using u(1,3) by simp
  have "entry_size v e \<le> sum_list (map (entry_size v) vs)" if "e \<in> set vs" for e using that by (intro member_le_sum_list) auto
  moreover have "length (snd (snd e)) \<le> entry_size v e" for e :: "string \<times> u8 \<times> u8 list" by (cases e) simp
  ultimately have "length (snd (snd e)) < 2 ^ 32" if "e \<in> set vs" for e using that fits u(4) by (meson add_leD1 le_less_trans le_trans)
  then show "small_data vs" by (auto simp: small_data_def list_all_iff split: prod.splits)
  have "8 * length vs \<le> sum_list (map (entry_size v) vs)" using entry_size_pos [of v] by (induction vs) (auto intro: add_mono simp del: entry_size.simps)
  then show "length vs < 2 ^ 32" using fits u(4) by simp
qed

lemma dop_num_vars_holds: "dop_holds v h vs p \<Longrightarrow> dop_num_vars p = Inr (word_of_nat (length vs))"
  by (auto simp: dop_holds_def dop_num_vars_def peek_def dop_meta_def le32_def un32_le32)

text \<open>The index is rebuilt exactly when variables were added since.\<close>

lemma rebuild_holds:
  assumes "dop_holds v h vs p"
  shows "rebuildIndexIfNeeded p = Inr (p\<lparr>dop_index := index_of v 12 vs []\<rparr>)"
proof -
  obtain pad0 pads rest k where u: "length pad0 = 3" "pads_ok vs pads" "dop_user p = dop_meta (word_of_nat (length vs)) h v @ pad0 @ entries_image v vs pads @ rest"
    "k \<le> length vs" "dop_index p = index_of v 12 (take k vs) []" and v: "dop_version p = v" "v = 1 \<or> v = 2" "dop_meta_size p = 12"
    using assms by (auto simp: dop_holds_def)
  have n: "unat (word_of_nat (length vs) :: u32) = length vs" using dop_holds_small(2) [OF assms] by (rule unat_nat_32)
  have len: "length (dop_index p) = k" using u(4,5) by (simp add: index_of_length)
  show ?thesis
  proof (cases "k = length vs")
    case True
    then show ?thesis using dop_num_vars_holds [OF assms] n len u(5) by (simp add: rebuildIndexIfNeeded_def)
  next
    case False
    have "index_walk v mo 0 (length vs) 12 (dop_user p) [] = Inr (index_of v 12 vs [])" for mo
      using index_walk_image [OF u(2) v(2) dop_holds_small(1) [OF assms], of mo "dop_meta (word_of_nat (length vs)) h v @ pad0" rest "[]"] u(1,3) by simp
    then show ?thesis using dop_num_vars_holds [OF assms] n len False v by (simp add: rebuildIndexIfNeeded_def)
  qed
qed

lemma GetVarPointer_holds:
  assumes "dop_holds v h vs p"
  shows "GetVarPointer name p = Inr (found_or (find_entry v name 12 vs), p\<lparr>dop_index := index_of v 12 vs []\<rparr>)"
proof -
  obtain pad0 pads rest where u: "length pad0 = 3" "pads_ok vs pads" "dop_user p = dop_meta (word_of_nat (length vs)) h v @ pad0 @ entries_image v vs pads @ rest"
    and v: "dop_version p = v" "v = 1 \<or> v = 2" using assms by (auto simp: dop_holds_def)
  have found: "first_match v (Some name) (entry_key v name) (places v (entry_key v name) 12 vs) (dop_user p) = Inr (find_entry v name 12 vs)"
    using first_match_image [OF u(2) v(2) dop_holds_small(1) [OF assms], of name "dop_meta (word_of_nat (length vs)) h v @ pad0" rest] u(1,3) by simp
  have key: "(if dop_version p = 1 then ucast (hash16 name) else hash32 name) = entry_key v name" using v by simp
  have "equal_range (entry_key v name) (index_of v 12 vs []) = places v (entry_key v name) 12 vs"
    using equal_range_index [of "[]" "entry_key v name" v 12 vs] by (simp add: equal_range_def del: entry_key.simps)
  then show ?thesis using rebuild_holds [OF assms] v found unfolding GetVarPointer_def Let_def key by (simp del: entry_key.simps)
qed

text \<open>Appending.\<close>

lemma entries_image_snoc: "pads_ok vs pads \<Longrightarrow> entries_image v (vs @ [e]) (pads @ [pad]) = entries_image v vs pads @ entry_image v e pad"
  by (induction v vs pads rule: entries_image.induct) (auto simp: pads_ok_def)

lemma writeEntry_at:
  assumes "v = 1 \<or> v = 2" "length data < 2 ^ 32" "pos = length pre" "length room = entry_size v (name, type, data)"
  shows "\<exists>pad. length pad = 3 \<and> writeEntry v pos name type (Some data) (word_of_nat (length data)) (pre @ room @ rest) =
    Inr (entry_size v (name, type, data), pre @ entry_image v (name, type, data) pad @ rest)"
proof (cases "v = 1")
  case True
  let ?hd = "word_of_nat (min (length name) 255) # type # le16 (hash16 name) @ le32 (word_of_nat (length data)) @ take (min (length name) 255) (string_bytes name)"
  have room: "room = take (8 + min (length name) 255) room @ drop (8 + min (length name) 255) room" by simp
  have l: "length (take (8 + min (length name) 255) room) = length ?hd" "length (drop (8 + min (length name) 255) room) = length data"
    using assms(4) True by simp_all
  have p1: "poke pos ?hd (pre @ room @ rest) = Inr (pre @ ?hd @ drop (8 + min (length name) 255) room @ rest)"
    using poke_at [OF assms(3) l(1) [symmetric], of "drop (8 + min (length name) 255) room @ rest"] room by (metis append.assoc)
  have "poke (pos + 8 + min (length name) 255) data ((pre @ ?hd) @ drop (8 + min (length name) 255) room @ rest) = Inr ((pre @ ?hd) @ data @ rest)"
    by (rule poke_at) (use assms(3) l in simp_all)
  then have p2: "poke (pos + 8 + min (length name) 255) data (pre @ ?hd @ drop (8 + min (length name) 255) room @ rest) = Inr (pre @ ?hd @ data @ rest)" by simp
  have t: "take (min (length name) 255) (string_bytes name) = take 255 (string_bytes name)" by (cases "length name \<le> 255") simp_all
  have "writeEntry v pos name type (Some data) (word_of_nat (length data)) (pre @ room @ rest) = Inr (entry_size v (name, type, data), pre @ ?hd @ data @ rest)"
    using True p1 p2 unat_nat_32 [OF assms(2)] by (simp add: writeEntry_def copy_in_def SIZEOF_V1_def Let_def)
  then show ?thesis using True t by (intro exI [of _ "replicate 3 0"]) simp
next
  case False
  let ?hd = "le32 (hash32 name) @ le32 (word_of_nat (length data)) @ [type]" and ?pad = "take 3 (drop 9 room)"
  have room: "room = take 9 room @ ?pad @ drop 12 room" by (metis append_take_drop_id drop_drop numeral_plus_numeral semiring_norm(2,3,4,5,7,8) add_num_simps)
  have l: "length (take 9 room) = length ?hd" "length ?pad = 3" "length (drop 12 room) = length data" using assms(4) False by simp_all
  have p1: "poke pos ?hd (pre @ room @ rest) = Inr (pre @ ?hd @ ?pad @ drop 12 room @ rest)"
    using poke_at [OF assms(3) l(1) [symmetric], of "?pad @ drop 12 room @ rest"] room by (metis append.assoc)
  have "poke (pos + 12) data ((pre @ ?hd @ ?pad) @ drop 12 room @ rest) = Inr ((pre @ ?hd @ ?pad) @ data @ rest)"
    by (rule poke_at) (use assms(3) l in simp_all)
  then have p2: "poke (pos + 12) data (pre @ ?hd @ ?pad @ drop 12 room @ rest) = Inr (pre @ ?hd @ ?pad @ data @ rest)" by simp
  have "writeEntry v pos name type (Some data) (word_of_nat (length data)) (pre @ room @ rest) = Inr (entry_size v (name, type, data), pre @ ?hd @ ?pad @ data @ rest)"
    using False assms(1) p1 p2 unat_nat_32 [OF assms(2)] by (simp add: writeEntry_def copy_in_def SIZEOF_V2_def)
  then show ?thesis using False l(2) by (intro exI [of _ ?pad]) simp
qed

lemma ucast_nat_32: "n < 2 ^ 32 \<Longrightarrow> (ucast (word_of_nat n :: u64) :: u32) = word_of_nat n"
proof -
  assume "n < 2 ^ 32"
  then have "unat (word_of_nat n :: u64) = n" by (simp add: unat_of_nat)
  then show ?thesis by (metis of_nat_unat)
qed

lemma count_up: "peek 0 4 (dop_meta n h v @ tail) = Inr (le32 n)" "poke 0 (le32 (n + 1)) (dop_meta n h v @ tail) = Inr (dop_meta (n + 1) h v @ tail)"
  by (simp_all add: peek_def poke_def dop_meta_def)

lemma AppendVariable_holds:
  assumes "dop_holds v h vs p" "\<not> dop_finalized p" "12 + sum_list (map (entry_size v) (vs @ [(name, type, data)])) \<le> length (dop_user p)"
  shows "\<exists>p'. AppendVariable name (Some data) (word_of_nat (length data)) type p = Inr (0, p') \<and> dop_holds v h (vs @ [(name, type, data)]) p' \<and>
    \<not> dop_finalized p' \<and> length (dop_user p') = length (dop_user p)"
proof -
  let ?e = "(name, type, data)"
  obtain pad0 pads rest k where u: "length pad0 = 3" "pads_ok vs pads" "dop_user p = dop_meta (word_of_nat (length vs)) h v @ pad0 @ entries_image v vs pads @ rest"
    "dop_data_size p = word_of_nat (length (entries_image v vs pads))" "k \<le> length vs" "dop_index p = index_of v 12 (take k vs) []"
    and v: "dop_version p = v" "v = 1 \<or> v = 2" "dop_meta_size p = 12" "dop_type p = object_type_id" and cap: "length (dop_user p) < 2 ^ 32"
    using assms(1) by (auto simp: dop_holds_def)
  have img: "length (entries_image v vs pads) = sum_list (map (entry_size v) vs)" by (rule entries_image_length [OF u(2)])
  have fits: "12 + length (entries_image v vs pads) + entry_size v ?e \<le> length (dop_user p)" using assms(3) img by simp
  have dlen: "length data < 2 ^ 32" using fits cap by (auto split: if_splits)
  have off: "unat (dop_data_size p) = length (entries_image v vs pads)" using u(4) fits cap by (simp add: unat_of_nat del: entry_size.simps)
  have new: "unat (word_of_nat (length (entries_image v vs pads) + entry_size v ?e) :: u32) = length (entries_image v vs pads) + entry_size v ?e"
    by (rule unat_nat_32) (use fits cap in linarith)
  define room rest1 where "room = take (entry_size v ?e) rest" and "rest1 = drop (entry_size v ?e) rest"
  have "length rest \<ge> entry_size v ?e" using fits u(1,3) by simp
  then have room: "rest = room @ rest1" "length room = entry_size v ?e" by (simp_all add: room_def rest1_def)
  obtain pad where pad: "length pad = 3" and wr: "writeEntry v (12 + length (entries_image v vs pads)) name type (Some data) (word_of_nat (length data)) (dop_user p) =
      Inr (entry_size v ?e, dop_meta (word_of_nat (length vs)) h v @ pad0 @ entries_image v vs pads @ entry_image v ?e pad @ rest1)"
    using writeEntry_at [OF v(2) dlen, of _ "dop_meta (word_of_nat (length vs)) h v @ pad0 @ entries_image v vs pads" room name type rest1] u(1,3) room
    by (auto simp del: entry_size.simps entry_image.simps)
  let ?user = "dop_meta (word_of_nat (length (vs @ [?e]))) h v @ pad0 @ entries_image v vs pads @ entry_image v ?e pad @ rest1"
  have cut: "(ucast (word_of_nat (length data) :: u64) :: u32) = word_of_nat (length data)" using dlen by (rule ucast_nat_32)
  have size: "ComputeEntrySize (uint (dop_version p)) name (ucast (word_of_nat (length data) :: u64)) = Inr (entry_size v ?e)"
    using v unat_nat_32 [OF dlen] by (auto simp: cut ComputeEntrySize_def SIZEOF_V1_def SIZEOF_V2_def)
  let ?p = "p\<lparr>dop_data_size := word_of_nat (length (entries_image v vs pads) + entry_size v ?e), dop_meta_size := 12, dop_user := ?user\<rparr>"
  have "AppendVariable name (Some data) (word_of_nat (length data)) type p = Inr (0, ?p)"
    using assms(2) size fits wr v(1) by (simp add: AppendVariable_def Let_def off new cut SIZEOF_META_def count_up del: entry_size.simps entry_image.simps of_nat_add)
       (simp add: add.commute)
  moreover have "dop_holds v h (vs @ [?e]) ?p"
  proof -
    have "pads_ok (vs @ [?e]) (pads @ [pad])" using u(2) pad by (simp add: pads_ok_def)
    moreover have "entries_image v (vs @ [?e]) (pads @ [pad]) = entries_image v vs pads @ entry_image v ?e pad" by (rule entries_image_snoc [OF u(2)])
    moreover have "length (entry_image v ?e pad) = entry_size v ?e" by (rule entry_image_length [OF pad])
    moreover have "length ?user = length (dop_user p)" using u(1,3) room pad by (simp add: entry_image_length del: entry_size.simps entry_image.simps)
    ultimately show ?thesis using u v cap unfolding dop_holds_def
      by (intro conjI exI [of _ pad0] exI [of _ "pads @ [pad]"] exI [of _ rest1] exI [of _ k]) (simp_all del: entry_size.simps entry_image.simps)
  qed
  moreover have "length ?user = length (dop_user p)" using u(1,3) room pad by (simp add: entry_image_length del: entry_size.simps entry_image.simps)
  ultimately show ?thesis using assms(2) by auto
qed

text \<open>A new packer with room, and a packer for the object of another.\<close>

lemma capacity_holds:
  assumes "v = 1 \<or> v = 2" "unat room + 16 < 2 ^ 32"
  shows "\<exists>p. DataObjectPacker_capacity fresh room h v = Inr p \<and> dop_holds (word_of_int v) h [] p \<and> \<not> dop_finalized p \<and> length (dop_user p) = unat room + 16"
proof -
  have sum: "unat (12 + room) = unat room + 12" using assms(2) by (simp add: unat_word_ariths)
  then have t: "unat (ucast (12 + room) :: u32) = unat room + 12" using assms(2) by (simp add: unsigned_ucast_eq take_bit_nat_eq_self)
  have pad: "ldo_padding 12 0 = 4" by (simp add: ldo_padding_def)
  have len: "unat (ucast (12 + room) + ldo_padding 12 0) = unat room + 16" using t assms(2) pad by (simp add: unat_word_ariths)
  define user where "user = map fresh [0..<unat room + 16]"
  have user: "length user = unat room + 16" by (simp add: user_def)
  have u: "new_object fresh (ucast (12 + room)) 12 0 = Inr user" using t len by (simp add: new_object_def user_def)
  have p: "poke 0 (dop_meta 0 h (word_of_int v)) user = Inr (dop_meta 0 h (word_of_int v) @ take 3 (drop 9 user) @ drop 12 user)"
    using user append_take_drop_id [of 3 "drop 9 user"] by (simp add: poke_def)
  have "(word_of_int v :: u8) = 1 \<or> (word_of_int v :: u8) = 2" using assms(1) by auto
  then have "dop_holds (word_of_int v) h [] \<lparr>dop_finalized = False, dop_version = word_of_int v, dop_type = object_type_id, dop_meta_size = 12,
      dop_data_size = 0, dop_user = dop_meta 0 h (word_of_int v) @ take 3 (drop 9 user) @ drop 12 user,
      dop_padding = ldo_padding 12 0, dop_index = []\<rparr>"
    using user assms(2) unfolding dop_holds_def
    by (intro conjI exI [of _ "take 3 (drop 9 user)"] exI [of _ "[]"] exI [of _ "drop 12 user"] exI [of _ 0]) (simp_all add: pads_ok_def)
  then show ?thesis using assms(1) u p user by (auto simp: DataObjectPacker_capacity_def)
qed

lemma parse_holds:
  assumes "dop_holds v h vs p"
  shows "\<exists>q. DataObjectPacker_parse (GetDataObject p) = Inr q \<and> dop_holds v h vs q"
proof -
  obtain pad0 pads rest where u: "length pad0 = 3" "pads_ok vs pads" "dop_user p = dop_meta (word_of_nat (length vs)) h v @ pad0 @ entries_image v vs pads @ rest"
    "dop_data_size p = word_of_nat (length (entries_image v vs pads))" and v: "v = 1 \<or> v = 2" "dop_meta_size p = 12" "dop_type p = object_type_id" "length (dop_user p) < 2 ^ 32"
    using assms by (auto simp: dop_holds_def)
  have d: "unat (dop_data_size p) = length (entries_image v vs pads)" using u v(4) by (simp add: unat_of_nat)
  have m: "do_meta (GetDataObject p) = dop_meta (word_of_nat (length vs)) h v @ pad0" using u(1,3) v(2) by (simp add: GetDataObject_def)
  have i: "do_data (GetDataObject p) = entries_image v vs pads" using u(1,3) v(2) d by (simp add: GetDataObject_def)
  let ?q = "\<lparr>dop_finalized = True, dop_version = v, dop_type = object_type_id, dop_meta_size = 12, dop_data_size = word_of_nat (length (entries_image v vs pads)),
    dop_user = dop_meta (word_of_nat (length vs)) h v @ pad0 @ entries_image v vs pads, dop_padding = dop_padding p, dop_index = []\<rparr>"
  have "peek 8 1 (dop_meta (word_of_nat (length vs)) h v @ pad0 @ entries_image v vs pads) = Inr [v]" by (simp add: peek_def dop_meta_def)
  then have "DataObjectPacker_parse (GetDataObject p) = Inr ?q"
    using m i v u(1) by (auto simp: DataObjectPacker_parse_def) (simp_all add: GetDataObject_def)
  moreover have "dop_holds v h vs ?q" using u v(1,4) unfolding dop_holds_def
    by (intro conjI exI [of _ pad0] exI [of _ pads] exI [of _ "[]"] exI [of _ 0]) simp_all
  ultimately show ?thesis by blast
qed

fun packer_put :: "string \<times> u8 \<times> u8 list \<Rightarrow> DataObjectPacker \<Rightarrow> (bool \<times> DataObjectPacker) result" where
  "packer_put (name, type, data) p = rbind (AppendVariable name (Some data) (word_of_nat (length data)) type p) (\<lambda>(rc, p1). Inr (rc = 0, p1))"

lemma append_vars_hold:
  "dop_holds v h vs p \<Longrightarrow> \<not> dop_finalized p \<Longrightarrow> 12 + sum_list (map (entry_size v) (vs @ es)) \<le> length (dop_user p) \<Longrightarrow>
   \<exists>p'. append_all packer_put es p = Inr (True, p') \<and> dop_holds v h (vs @ es) p'"
proof (induction es arbitrary: vs p)
  case (Cons e es)
  obtain name type data where e: "e = (name, type, data)" by (cases e)
  have "12 + sum_list (map (entry_size v) (vs @ [e])) \<le> length (dop_user p)" using Cons.prems(3) by simp
  then obtain p1 where p1: "AppendVariable name (Some data) (word_of_nat (length data)) type p = Inr (0, p1)" "dop_holds v h (vs @ [e]) p1" "\<not> dop_finalized p1"
    "length (dop_user p1) = length (dop_user p)" using AppendVariable_holds [OF Cons.prems(1,2)] e by blast
  then show ?case using Cons.IH [of "vs @ [e]" p1] Cons.prems(3) e by simp
qed auto

text \<open>Names that lead to different entries.\<close>

definition told_apart :: "u8 \<Rightarrow> (string \<times> u8 \<times> u8 list) list \<Rightarrow> bool" where
  "told_apart v vs = (if v = 1 then distinct (map fst vs) \<and> list_all (\<lambda>e. length (fst e) < 255) vs else distinct (map (hash32 \<circ> fst) vs))"

lemma find_entry_skip: "\<forall>e\<in>set xs. \<not> (entry_key v (fst e) = entry_key v name \<and> entry_match v name e) \<Longrightarrow>
  find_entry v name pos (xs @ vs) = find_entry v name (pos + sum_list (map (entry_size v) xs)) vs"
  by (induction xs arbitrary: pos) (auto simp: add.assoc simp del: entry_key.simps entry_match.simps entry_size.simps)

lemma find_entry_told:
  assumes "told_apart v (xs @ (name, type, data) # ys)" "v = 1 \<or> v = 2"
  shows "find_entry v name pos (xs @ (name, type, data) # ys) = Some (entry_place v (pos + sum_list (map (entry_size v) xs)) (name, type, data))"
proof -
  have "\<not> (entry_key v (fst e) = entry_key v name \<and> entry_match v name e)" if "e \<in> set xs" for e
  proof (cases "v = 1")
    case True
    have "fst e \<noteq> name" "length (fst e) < 255" using that assms True by (auto simp: told_apart_def list_all_iff)
    then show ?thesis using True by (simp add: MatchesName_def)
  next
    case False
    then have "hash32 name \<notin> (hash32 \<circ> fst) ` set xs" using assms(1) by (simp add: told_apart_def)
    then have "hash32 (fst e) \<noteq> hash32 name" using imageI [OF that, of "hash32 \<circ> fst"] by (metis comp_apply)
    then show ?thesis using False by simp
  qed
  then have "find_entry v name pos (xs @ (name, type, data) # ys) = find_entry v name (pos + sum_list (map (entry_size v) xs)) ((name, type, data) # ys)"
    by (rule find_entry_skip [rule_format])
  moreover have "entry_match v name (name, type, data)" using assms(1) by (cases "v = 1") (simp_all add: told_apart_def MatchesName_def)
  ultimately show ?thesis by (simp del: entry_match.simps entry_place.simps)
qed

lemma entries_image_split: "pads_ok (xs @ ys) pads \<Longrightarrow>
  entries_image v (xs @ ys) pads = entries_image v xs (take (length xs) pads) @ entries_image v ys (drop (length xs) pads)"
  by (induction v xs pads rule: entries_image.induct) (auto simp: pads_ok_def)

lemma place_data:
  assumes "dop_holds v h (xs @ (name, type, data) # ys) p"
  shows "case entry_place v (12 + sum_list (map (entry_size v) xs)) (name, type, data) of (ptr, n, ty) \<Rightarrow> peek ptr n (dop_user p) = Inr data \<and> ty = type"
proof -
  let ?e = "(name, type, data)"
  obtain pad0 pads rest where u: "length pad0 = 3" "pads_ok (xs @ ?e # ys) pads"
    "dop_user p = dop_meta (word_of_nat (length (xs @ ?e # ys))) h v @ pad0 @ entries_image v (xs @ ?e # ys) pads @ rest" using assms by (auto simp: dop_holds_def)
  define pad pads2 where "pad = pads ! length xs" and "pads2 = drop (Suc (length xs)) pads"
  have pad: "drop (length xs) pads = pad # pads2" "length pad = 3" using u(2) by (simp_all add: pads_ok_def pad_def pads2_def Cons_nth_drop_Suc list_all_length)
  have okx: "pads_ok xs (take (length xs) pads)" using u(2) by (auto simp: pads_ok_def list_all_iff dest: in_set_takeD)
  let ?pre = "dop_meta (word_of_nat (length (xs @ ?e # ys))) h v @ pad0 @ entries_image v xs (take (length xs) pads)"
  have pre: "length ?pre = 12 + sum_list (map (entry_size v) xs)" using u(1) entries_image_length [OF okx] by simp
  have user: "dop_user p = ?pre @ entry_image v ?e pad @ entries_image v ys pads2 @ rest" using u(3) entries_image_split [OF u(2)] pad(1) by simp
  obtain hd where hd: "entry_image v ?e pad = hd @ data" "length hd = (if v = 1 then 8 + min (length name) 255 else 12)"
  proof (cases "v = 1")
    case True
    then show ?thesis
      by (intro that [of "word_of_nat (min (length name) 255) # type # le16 (hash16 name) @ le32 (word_of_nat (length data)) @ take 255 (string_bytes name)"]) simp_all
  next
    case False
    then show ?thesis using pad(2) by (intro that [of "le32 (hash32 name) @ le32 (word_of_nat (length data)) @ type # pad"]) simp_all
  qed
  have mem: "dop_user p = (?pre @ hd) @ data @ entries_image v ys pads2 @ rest" using user hd(1) by simp
  have "peek (length ?pre + length hd) (length data) (dop_user p) = Inr data" unfolding mem by (rule peek_at) simp_all
  then have "peek (12 + sum_list (map (entry_size v) xs) + (if v = 1 then 8 + min (length name) 255 else 12)) (length data) (dop_user p) = Inr data"
    unfolding pre hd(2) .
  then show ?thesis by (simp add: add.assoc split: if_splits)
qed

lemma find_entry_none: "told_apart 1 vs \<Longrightarrow> name \<notin> fst ` set vs \<Longrightarrow> find_entry 1 name pos vs = None"
proof -
  assume a: "told_apart 1 vs" "name \<notin> fst ` set vs"
  have "\<not> entry_match 1 name e" if "e \<in> set vs" for e
  proof -
    have "length (fst e) < 255" "fst e \<noteq> name" using a that by (auto simp: told_apart_def list_all_iff)
    then show ?thesis by (simp add: MatchesName_def)
  qed
  then show ?thesis using find_entry_skip [of vs 1 name pos "[]"] by (simp del: entry_match.simps entry_key.simps)
qed

lemma lookup_packed:
  assumes "dop_holds v h vs q" "told_apart v vs" "v = 1 \<or> v = 2" "(name, type, data) \<in> set vs"
  shows "case GetVarPointer name q of Inr ((rc, Some (ptr, n, ty)), _) \<Rightarrow> rc = 0 \<and> ty = type \<and> peek ptr n (dop_user q) = Inr data | _ \<Rightarrow> False"
proof -
  obtain xs ys where vs: "vs = xs @ (name, type, data) # ys" using split_list [OF assms(4)] by blast
  have f: "find_entry v name 12 vs = Some (entry_place v (12 + sum_list (map (entry_size v) xs)) (name, type, data))"
    unfolding vs by (rule find_entry_told) (use assms(2,3) vs in simp_all)
  have "case entry_place v (12 + sum_list (map (entry_size v) xs)) (name, type, data) of (ptr, n, ty) \<Rightarrow> peek ptr n (dop_user q) = Inr data \<and> ty = type"
    by (rule place_data) (use assms(1) vs in simp)
  then show ?thesis using GetVarPointer_holds [OF assms(1), of name] f by (simp add: found_or_def split: prod.splits del: entry_place.simps)
qed

text \<open>
  C18. Variables packed into one object are found by name in it: appended to a packer with room for them, the object read out, sent as its meta and
  data sections, and parsed by another packer, every variable is looked up with its own bytes and type,
  in format 1 for distinct names shorter than 255 characters, in format 2 for names with distinct hashes; in format 1 any other name is
  not found.
\<close>
theorem packed_variables_found:
  assumes "v = 1 \<or> v = 2" "unat room + 16 < 2 ^ 32" "sum_list (map (entry_size (word_of_int v)) vs) \<le> unat room + 4" "told_apart (word_of_int v) vs"
  shows "case DataObjectPacker_capacity fresh room h v of Inl _ \<Rightarrow> False | Inr p0 \<Rightarrow>
    (case append_all packer_put vs p0 of
      Inr (True, p) \<Rightarrow> (case DataObjectPacker_parse (GetDataObject p) of Inl _ \<Rightarrow> False | Inr q \<Rightarrow>
        (\<forall>(name, type, data)\<in>set vs. case GetVarPointer name q of
           Inr ((rc, Some (ptr, n, ty)), _) \<Rightarrow> rc = 0 \<and> ty = type \<and> peek ptr n (dop_user q) = Inr data
         | _ \<Rightarrow> False) \<and>
        (\<forall>name. v = 1 \<and> name \<notin> fst ` set vs \<longrightarrow> (case GetVarPointer name q of Inr (r, _) \<Rightarrow> r = (ENOENT, None) | Inl _ \<Rightarrow> False)))
    | _ \<Rightarrow> False)"
proof -
  let ?v = "word_of_int v :: u8"
  have v: "?v = 1 \<or> ?v = 2" using assms(1) by auto
  obtain p0 where p0: "DataObjectPacker_capacity fresh room h v = Inr p0" "dop_holds ?v h [] p0" "\<not> dop_finalized p0" "length (dop_user p0) = unat room + 16"
    using capacity_holds [OF assms(1,2)] by blast
  obtain p where p: "append_all packer_put vs p0 = Inr (True, p)" "dop_holds ?v h vs p" using append_vars_hold [OF p0(2,3), of vs] p0(4) assms(3) by auto
  obtain q where q: "DataObjectPacker_parse (GetDataObject p) = Inr q" "dop_holds ?v h vs q" using parse_holds [OF p(2)] by blast
  have all: "\<forall>(name, type, data)\<in>set vs. case GetVarPointer name q of
      Inr ((rc, Some (ptr, n, ty)), _) \<Rightarrow> rc = 0 \<and> ty = type \<and> peek ptr n (dop_user q) = Inr data | _ \<Rightarrow> False"
    using lookup_packed [OF q(2) assms(4) v] by blast
  have none: "\<forall>name. v = 1 \<and> name \<notin> fst ` set vs \<longrightarrow> (case GetVarPointer name q of Inr (r, _) \<Rightarrow> r = (ENOENT, None) | Inl _ \<Rightarrow> False)"
    using find_entry_none [of vs _ 12] assms(4) GetVarPointer_holds [OF q(2)] by (auto simp: found_or_def)
  show ?thesis using all none by (simp add: p0(1) p(1) q(1))
qed

text \<open>The variables of a small object, in both formats.\<close>

definition demo_vars :: "(string \<times> u8 \<times> u8 list) list" where
  "demo_vars = [(''x'', 2, [1, 2]), (''y'', 3, [])]"

lemma packed_chain:
  assumes "case a of Inl _ \<Rightarrow> False | Inr p0 \<Rightarrow> (case b p0 of Inr (True, p) \<Rightarrow> (case c p of Inl _ \<Rightarrow> False | Inr q \<Rightarrow> P q) | _ \<Rightarrow> False)"
  obtains p0 p q where "a = Inr p0" "b p0 = Inr (True, p)" "c p = Inr q" "P q"
proof -
  obtain p0 where a: "a = Inr p0" using assms by (cases a) simp_all
  obtain ok p where b: "b p0 = Inr (ok, p)" using assms a by (cases "b p0") auto
  have ok: "ok" using assms a b by (cases ok) simp_all
  obtain q where "c p = Inr q" using assms a b ok by (cases "c p") simp_all
  then show ?thesis using that assms a b ok by simp
qed

theorem packed_variables_found_witness:
  "\<exists>p0 p q. DataObjectPacker_capacity (\<lambda>i. word_of_nat i) 64 9 1 = Inr p0 \<and> append_all packer_put demo_vars p0 = Inr (True, p) \<and>
     DataObjectPacker_parse (GetDataObject p) = Inr q \<and>
     (case GetVarPointer ''x'' q of Inr ((rc, Some (ptr, n, ty)), _) \<Rightarrow> rc = 0 \<and> ty = 2 \<and> peek ptr n (dop_user q) = Inr [1, 2] | _ \<Rightarrow> False) \<and>
     (case GetVarPointer ''z'' q of Inr (r, _) \<Rightarrow> r = (ENOENT, None) | Inl _ \<Rightarrow> False)"
proof -
  have apart: "told_apart (word_of_int 1) demo_vars" by (simp add: told_apart_def demo_vars_def)
  have size: "sum_list (map (entry_size (word_of_int 1)) demo_vars) \<le> unat (64 :: u64) + 4" "unat (64 :: u64) + 16 < 2 ^ 32" by (simp_all add: demo_vars_def)
  have in_demo: "(''x'', 2, [1, 2]) \<in> set demo_vars" "''z'' \<notin> fst ` set demo_vars" by (simp_all add: demo_vars_def)
  have "(1 :: int) = 1 \<or> (1 :: int) = 2" by simp
  from packed_variables_found [OF this size(2,1) apart, of "\<lambda>i. word_of_nat i" 9]
  obtain p0 p q where q: "DataObjectPacker_capacity (\<lambda>i. word_of_nat i) 64 9 1 = Inr p0" "append_all packer_put demo_vars p0 = Inr (True, p)"
    "DataObjectPacker_parse (GetDataObject p) = Inr q"
    and found: "\<forall>(name, type, data)\<in>set demo_vars. case GetVarPointer name q of
      Inr ((rc, Some (ptr, n, ty)), _) \<Rightarrow> rc = 0 \<and> ty = type \<and> peek ptr n (dop_user q) = Inr data | _ \<Rightarrow> False"
    and none: "\<forall>name. (1 :: int) = 1 \<and> name \<notin> fst ` set demo_vars \<longrightarrow> (case GetVarPointer name q of Inr (r, _) \<Rightarrow> r = (ENOENT, None) | Inl _ \<Rightarrow> False)"
    by (elim packed_chain) blast
  then show ?thesis using bspec [OF found in_demo(1)] spec [OF none, of "''z''"] in_demo(2) by auto
qed

text \<open>The bounds check of the walk never takes effect: what is wrong with an object shows as a read outside its bytes.\<close>

lemma walk_check_ineffective: "index_walk v mo 0 n pos mem idx \<noteq> Inl Runtime_error"
proof (induction n arbitrary: pos idx)
  case (Suc n)
  then show ?case by (auto simp: entry_header_def peek_def rbind_def split: sum.splits if_splits)
qed simp

end
