(* ===== verification/Spec2Isabelle.thy ===== *)
theory Spec2Isabelle
  imports Bootstrap_Order Directory_Cache Back_Burner Remote_Compute Kelpie_Registries Iom_Registry Whookie_Server Dirman_Promises Object_Packer
begin

text \<open>
  A verification library for FAODEL, a C++ library for moving data objects between the nodes of a
  parallel machine.  Paths below are relative to \<^verbatim>\<open>src/src\<close>.

  \<^bold>\<open>The program.\<close>  An application on every node starts a stack of components through the bootstrap
  (\<^verbatim>\<open>faodel-common\<close>), which sorts them by dependency and runs their life cycle with one shared configuration.
  Lunasa owns the memory: reference counted data objects that the network can reach.  OpBox runs ops,
  state machines that exchange messages and memory transfers with their peer ops on other nodes; a
  message that arrives becomes work for the backburner threads (\<^verbatim>\<open>faodel-services\<close>).  Kelpie is a key/value
  service on top: a local store of rows on every node, i/o modules that keep objects on disk, direct ops
  that publish, get, drop, query, list and compute on objects of another node, and pools, the interface of
  the application, which decide where an object lives.  DirMan is the directory in which pools
  and services are found by resource url; its centralized core asks one root node through an op of its own.  Whookie is
  the small web server that every component hangs its status pages on.

  \<^bold>\<open>Conventions\<close> (\<open>Prelude\<close>).  Machine integers are words of their width.  \<^verbatim>\<open>std::map\<close> is a strictly sorted
  association list, since its iteration order shows.  An operation that can throw, fail an assertion,
  block for ever on a lock, stop the process or do what C++ leaves undefined returns a sum whose left side
  is the \<^typ>\<open>fault\<close>.  Calls out of a component (user callbacks, messages, woken ops) are entries of an effect
  list in the order of the code.  Pointers are addresses in an explicit heap where sharing matters
  (\<open>Lunasa_Heap\<close>) and values elsewhere.  Concurrency is interleaving: what runs under one lock is one step, and
  a run is any sequence of steps.  Code outside the repository (the resolver, the file system, the shell's path
  expansion, the serialization library cereal, pinning by the network layer) is an argument of the definitions that
  use it, and the theorems hold for every such argument or name what they need of it.

  \<^bold>\<open>Theories.\<close>
  \<^item> \<open>String_Helpers\<close>: \<^verbatim>\<open>faodel-common/StringHelpers.cpp\<close>.  \<open>Node_Ids\<close>: \<^verbatim>\<open>Bucket.cpp\<close>, \<^verbatim>\<open>NodeID.cpp\<close>.  \<open>Resource_URL\<close>:
    \<^verbatim>\<open>ResourceURL.cpp\<close>.  \<open>Directory_Info\<close>: \<^verbatim>\<open>DirectoryInfo.cpp\<close>.  \<open>Config_Settings\<close>: \<^verbatim>\<open>Configuration.cpp\<close>.  Parsers and
    printers with every error they report; the theorems are round trips, agreement with a
    grammar, and termination of the tokenizer exactly when its text does not make it spin.
  \<^item> \<open>Bootstrap_Order\<close>: \<^verbatim>\<open>faodel-common/BootstrapImplementation.cpp\<close>.  The dependency sort returns a permutation in which every
    component follows what it needs; a session starts and finishes components in that order and its reverse.
  \<^item> \<open>Back_Burner\<close>: \<^verbatim>\<open>faodel-services/BackBurner.cpp\<close>.  Producers and the worker's thread as a step relation;
    no work is lost, doubled or overtaken, and the thread never sleeps on work.
  \<^item> \<open>Lunasa_Object\<close>, \<open>Lunasa_Heap\<close>: \<^verbatim>\<open>lunasa/DataObject.cpp\<close>, \<^verbatim>\<open>common/Allocation.hh\<close>, \<^verbatim>\<open>allocators/AllocatorMalloc.cpp\<close>.
    Objects as values and as shared allocations; counts are exact in every reachable heap.  The padding of an object is
    that stored with its allocation, which resizing does not change; a copy has the padding of its own size.  The reference
    count is a 32-bit \<^verbatim>\<open>atomic_int\<close> that wraps, and the theorems are for heaps with fewer than 2147483648 handles.
  \<^item> \<open>Data_Bundles\<close>, \<open>Object_Packer\<close>: \<^verbatim>\<open>lunasa/common/Generic*DataBundle.hh\<close>, \<^verbatim>\<open>DataObjectPacker.cpp\<close>.  Formats inside a data section;
    exactly what fits is accepted and read back, and the exact bound at which a 32-bit length check wraps.
  \<^item> \<open>Kelpie_Types\<close>: \<^verbatim>\<open>kelpie/Key.cpp\<close>, \<^verbatim>\<open>kelpie/common/Types.cpp\<close>, \<^verbatim>\<open>ObjectCapacities.cpp\<close>.  \<open>LocalKV_Row\<close>, \<open>LocalKV_Table\<close>:
    \<^verbatim>\<open>kelpie/localkv\<close>.  Every operation of the local store with its effects; a put is seen by gets
    and wakes each waiter once, though only the first waiting op with the object; listings have each matching cell once;
    an object cached from an i/o module passes its waiters over.
  \<^item> \<open>Iom_Posix\<close>: \<^verbatim>\<open>kelpie/ioms/IomBase.cpp\<close>, \<^verbatim>\<open>IomPosixIndividualObjects.cpp\<close>.  The contract of an object store is the locale
    \<open>object_store\<close>, interpreted on the posix module over a map of files.
  \<^item> \<open>Local_Pool\<close>, \<open>Dht_Pool\<close>: \<^verbatim>\<open>kelpie/pools/Pool.cpp\<close>, \<^verbatim>\<open>PoolBase.cpp\<close>, \<^verbatim>\<open>LocalPool\<close>, \<^verbatim>\<open>DHTPool\<close>.  Pools joined with the store, the
    i/o module and the ops, up to an object published on one node and delivered on another.
  \<^item> \<open>Opbox_Core\<close>: \<^verbatim>\<open>opbox/common\<close>, \<^verbatim>\<open>opbox/ops/Op.cpp\<close>, \<^verbatim>\<open>opbox/core/OpBoxCoreThreaded.cpp\<close>.  \<open>Kelpie_Msg\<close>, \<open>Kelpie_Ops\<close>:
    \<^verbatim>\<open>kelpie/ops/direct\<close>.  Messages, the registry of ops, the core's table of active ops, and the state functions of the seven direct ops.
  \<^item> \<open>Compute_Registry\<close>: \<^verbatim>\<open>kelpie/common/ComputeRegistry.cpp\<close>, \<^verbatim>\<open>LocalKV::doCompute\<close>.  Functions that run where the data is, with the built-in
    one specified.  \<open>Remote_Compute\<close>: a computation through a DHT pool from the call to the callback under every schedule, and the
    case in which the op on the other node is left behind.
  \<^item> \<open>Kelpie_Registries\<close>: \<^verbatim>\<open>kelpie/pools/PoolRegistry.cpp\<close>.  \<open>Iom_Registry\<close>: \<^verbatim>\<open>kelpie/ioms/IomRegistry.cpp\<close> and \<^verbatim>\<open>JoinServerPool\<close> of the cores.
    Connecting and registering as the locked parts of many callers; one pool for each tag and one module for
    each hash, whoever wins the race.  Joining a pool is specified for all options that have a value.
  \<^item> \<open>Kelpie_Cluster\<close>, \<open>Cluster_Sessions\<close>, \<open>Cluster_Steps\<close>, \<open>Cluster_Refinement\<close>: nodes that run these ops against each
    other with messages and transfers in any order.  Every reachable cluster splits into sessions, which
    gives linearizability of publish and get, termination, and an answer for every request.  These theorems are for objects
    that have bytes, whose size with the headers fits 32 bits, and whose stored padding is at least the padding of their size
    (\<^verbatim>\<open>transferable\<close>, required of calls by \<^verbatim>\<open>event_ok\<close>): an object that was resized after its allocation can announce a length
    that is no multiple of four, and then the receiver aborts; exactly when is a theorem.  A second get that waits for an
    object halts the node that stores it, which is a theorem, too.
  \<^item> \<open>Directory_Cache\<close>: \<^verbatim>\<open>dirman/common/DirectoryCache.cpp\<close>.  \<open>Dirman_Msg\<close>, \<open>Dirman_Core\<close>: \<^verbatim>\<open>opbox/common/MessageHelpers.cpp\<close>,
    \<^verbatim>\<open>dirman/ops\<close>, \<^verbatim>\<open>dirman/core\<close>.  \<open>Dirman_Facts\<close>, \<open>Dirman_Service\<close>, \<open>Dirman_Promises\<close>: the cores on many nodes,
    in every interleaving of calls; no node fails and a fresh look-up is atomic.
  \<^item> \<open>Http_Request\<close>, \<open>Whookie_Server\<close>: \<^verbatim>\<open>whookie/server/boost\<close>, \<^verbatim>\<open>whookie/client\<close>.  The parser agrees with a grammar however its
    input is cut, and a request of the client calls its hook once with its decoded arguments.
\<close>

text \<open>
  \<^bold>\<open>Interfaces.\<close>  The locales state what one part relies on in another and are interpreted on the model:
  \<open>ordered_map\<close> and \<open>codec\<close> in \<open>Prelude\<close> (the latter for percent escapes, buckets, node ids, keys and object images),
  \<open>object_store\<close> in \<open>Iom_Posix\<close>, \<open>write_through\<close> in \<open>Local_Pool\<close>, \<open>work_queue\<close> in \<open>Back_Burner\<close>, and \<open>item_stream\<close> in
  \<open>Data_Bundles\<close> for both kinds of bundle.

  \<^bold>\<open>Bounds and fuel.\<close>  Loops that may not end are partial functions whose value \<^term>\<open>None\<close> is a loop that does not end: the
  search for ancestors in \<open>Bootstrap_Order\<close>, the tokenizer in \<open>Config_Settings\<close>, the search for a free port in
  \<open>Whookie_Server\<close>; what is proved of them includes that they return.  \<^verbatim>\<open>GetStringVector\<close> carries fuel, one round more than
  there are settings, and each round that goes on uses up a setting.  The other loops recur over
  their data or have a termination proof with a measure.  Waiting for another thread is an explicit list of the
  states seen at each poll.

  \<^bold>\<open>Simplifications.\<close>  Counters of users and of list items are unbounded where the code has an \<^verbatim>\<open>int\<close>; a read of a number off
  its alignment returns its bytes; of the notification methods of the backburner the default, the pipe, is modelled; look-ups
  in the directory are given a newly constructed structure to fill in.

  \<^bold>\<open>Not modelled.\<close>
  \<^item> \<^verbatim>\<open>nnti\<close> and \<^verbatim>\<open>opbox/net/libfabric_wrapper\<close>: transports over ibverbs, uGNI, MPI and libfabric.  What they do is
    mostly calls into these libraries, whose behaviour is not in the repository; the cluster theories take
    from them that a message or transfer arrives once, in any order.
  \<^item> \<^verbatim>\<open>sbl\<close>, \<^verbatim>\<open>LoggingInterface\<close>, \<^verbatim>\<open>Debug\<close>: output to logs.  \<^verbatim>\<open>ReplyStream\<close>, \<^verbatim>\<open>QuickHTML\<close> and the web pages of all components:
    text for a browser that no component reads back.
  \<^item> \<^verbatim>\<open>MutexWrapper\<close>: a thin layer on pthreads and OpenMP.  Locks appear as the atomicity of steps, and as a flag
    where code can lock twice.
  \<^item> \<^verbatim>\<open>faodel-arrow\<close>, the Cassandra, HDF5 and LevelDB i/o modules, the tcmalloc allocator, \<^verbatim>\<open>MPISyncStart\<close>: adapters whose work
    is done by Apache Arrow, the databases, gperftools and MPI.
  \<^item> The singletons and unconfigured cores, which forward each call to the one core that is configured or
    throw, and the deprecated OpBox core, which the threaded one replaces.
  \<^item> The event loop of the web server, which is boost's; the tools, examples and tests, which are clients of
    the library; \<^verbatim>\<open>tpl\<close>, which is third-party code.
\<close>

end
